(* ===== verification/Prelude.thy ===== *)
theory Prelude
  imports Main "HOL-Library.AList" "HOL-Library.Multiset"
begin

text \<open>
  Shared vocabulary of the development.

  The program is TypeScript, so three of its library types recur in every component:
  \<^item> a JavaScript \<open>Map\<close> iterates in insertion order and overwrites in place.  It is an
    association list here: \<open>map_of\<close> is \<open>Map.get\<close>, \<open>AList.update\<close> is \<open>Map.set\<close> (a new key goes
    to the end, an old one keeps its place), \<open>AList.delete\<close> is \<open>Map.delete\<close>, \<open>length\<close> is
    \<open>Map.size\<close>;
  \<^item> a string is a \<open>string\<close>; \<open>js_slice_tail n s\<close> is \<open>s.slice(-n)\<close>, which for \<open>n = 0\<close> is the
    whole string, because \<open>-0\<close> is \<open>0\<close>;
  \<^item> a thrown error is the left injection of a sum, \<open>Inl e\<close>; a normal return is \<open>Inr v\<close>.

  The locale \<open>bounded_cache\<close> is the contract of the daemon's in-memory caches: insertion keeps
  the cache well formed and within its capacity, and the inserted key can be read back.
\<close>

named_theorems jsmap_simps \<open>facts about insertion-ordered maps\<close>

subsection \<open>Insertion-ordered maps\<close>

abbreviation jm_ok :: "('k \<times> 'v) list \<Rightarrow> bool" where
  "jm_ok m \<equiv> distinct (map fst m)"

definition jm_has :: "('k \<times> 'v) list \<Rightarrow> 'k \<Rightarrow> bool" where
  "jm_has m k \<longleftrightarrow> map_of m k \<noteq> None"

lemma jm_has_iff: "jm_has m k \<longleftrightarrow> k \<in> fst ` set m"
  by (simp add: jm_has_def map_of_eq_None_iff)

lemma jm_get_set [jsmap_simps]:
  "map_of (AList.update k v m) k' = (if k' = k then Some v else map_of m k')"
  by (simp add: update_conv')

lemma jm_get_del [jsmap_simps]:
  "map_of (AList.delete k m) k' = (if k' = k then None else map_of m k')"
  by (simp add: delete_conv')

lemma jm_ok_set [jsmap_simps]: "jm_ok m \<Longrightarrow> jm_ok (AList.update k v m)"
  by (rule distinct_update)

lemma jm_ok_del [jsmap_simps]: "jm_ok m \<Longrightarrow> jm_ok (AList.delete k m)"
  by (rule distinct_delete)

lemma jm_size_set:
  "length (AList.update k v m) = (if k \<in> fst ` set m then length m else Suc (length m))"
  by (induction m) auto

lemma jm_size_set_le: "length (AList.update k v m) \<le> Suc (length m)"
  by (simp add: jm_size_set)

lemma jm_delete_filter: "AList.delete k m = filter (\<lambda>p. fst p \<noteq> k) m"
  by (induction m) auto

lemma jm_size_del_mem: "k \<in> fst ` set m \<Longrightarrow> length (AList.delete k m) < length m"
  unfolding jm_delete_filter by (auto intro!: length_filter_less)

lemma jm_fold_delete:
  "fold AList.delete ks m = filter (\<lambda>p. fst p \<notin> set ks) m"
  by (induction ks arbitrary: m) (auto simp: jm_delete_filter intro: filter_cong)

lemma jm_fold_set_ok: "jm_ok m \<Longrightarrow> jm_ok (fold (\<lambda>x. AList.update (f x) (g x)) xs m)"
  by (induction xs arbitrary: m) (auto simp: distinct_update)

lemma jm_fold_set_keys:
  "fst ` set (fold (\<lambda>x. AList.update (f x) (g x)) xs m) = fst ` set m \<union> f ` set xs"
  by (induction xs arbitrary: m) (auto simp: dom_update)

lemma jm_fold_set_mem:
  "p \<in> set (fold (\<lambda>x. AList.update (f x) (g x)) xs m) \<Longrightarrow>
     p \<in> set m \<or> (\<exists>x \<in> set xs. p = (f x, g x))"
proof (induction xs arbitrary: m)
  case Nil
  then show ?case by simp
next
  case (Cons x xs)
  have upd: "set (AList.update (f x) (g x) m) \<subseteq> insert (f x, g x) (set m)"
    by (induction m) auto
  from Cons show ?case using upd by fastforce
qed

lemma jm_update_fresh: "k \<notin> fst ` set m \<Longrightarrow> AList.update k v m = m @ [(k, v)]"
  by (induction m) auto

lemma jm_fold_set_fresh:
  "distinct (map f xs) \<Longrightarrow> fst ` set m \<inter> f ` set xs = {} \<Longrightarrow>
     fold (\<lambda>x. AList.update (f x) (g x)) xs m = m @ map (\<lambda>x. (f x, g x)) xs"
proof (induction xs arbitrary: m)
  case Nil
  then show ?case by simp
next
  case (Cons x xs)
  have "AList.update (f x) (g x) m = m @ [(f x, g x)]"
    by (rule jm_update_fresh) (use Cons.prems(2) in auto)
  moreover have "fst ` set (m @ [(f x, g x)]) \<inter> f ` set xs = {}"
    using Cons.prems by auto
  ultimately show ?case using Cons.IH [of "m @ [(f x, g x)]"] Cons.prems(1) by simp
qed

subsection \<open>Strings\<close>

definition js_slice_tail :: "nat \<Rightarrow> string \<Rightarrow> string" where
  "js_slice_tail n s = (if n = 0 then s else drop (length s - n) s)"

lemma length_js_slice_tail: "0 < n \<Longrightarrow> length (js_slice_tail n s) = min n (length s)"
  by (simp add: js_slice_tail_def)

fun is_prefix_of :: "'a list \<Rightarrow> 'a list \<Rightarrow> bool" where
  "is_prefix_of [] ys = True"
| "is_prefix_of (x # xs) [] = False"
| "is_prefix_of (x # xs) (y # ys) = (x = y \<and> is_prefix_of xs ys)"

fun is_infix_of :: "'a list \<Rightarrow> 'a list \<Rightarrow> bool" where
  "is_infix_of xs [] = (xs = [])"
| "is_infix_of xs (y # ys) = (is_prefix_of xs (y # ys) \<or> is_infix_of xs ys)"

lemma is_prefix_of_iff: "is_prefix_of xs ys \<longleftrightarrow> (\<exists>zs. ys = xs @ zs)"
  by (induction xs ys rule: is_prefix_of.induct) auto

lemma is_infix_of_iff: "is_infix_of xs ys \<longleftrightarrow> (\<exists>us zs. ys = us @ xs @ zs)"
proof (induction ys)
  case Nil
  then show ?case by auto
next
  case (Cons y ys)
  have "is_infix_of xs (y # ys) \<longleftrightarrow>
      (\<exists>zs. y # ys = xs @ zs) \<or> (\<exists>us zs. ys = us @ xs @ zs)"
    by (simp only: is_infix_of.simps is_prefix_of_iff Cons.IH)
  also have "\<dots> \<longleftrightarrow> (\<exists>us zs. y # ys = us @ xs @ zs)"
  proof
    assume "(\<exists>zs. y # ys = xs @ zs) \<or> (\<exists>us zs. ys = us @ xs @ zs)"
    then show "\<exists>us zs. y # ys = us @ xs @ zs"
    proof
      assume "\<exists>zs. y # ys = xs @ zs"
      then obtain zs where "y # ys = [] @ xs @ zs" by auto
      then show ?thesis by blast
    next
      assume "\<exists>us zs. ys = us @ xs @ zs"
      then obtain us zs where "y # ys = (y # us) @ xs @ zs" by auto
      then show ?thesis by blast
    qed
  next
    assume "\<exists>us zs. y # ys = us @ xs @ zs"
    then obtain us zs where eq: "y # ys = us @ xs @ zs" by blast
    show "(\<exists>zs. y # ys = xs @ zs) \<or> (\<exists>us zs. ys = us @ xs @ zs)"
    proof (cases us)
      case Nil
      with eq show ?thesis by (intro disjI1 exI [of _ zs]) simp
    next
      case (Cons u us')
      with eq show ?thesis by (intro disjI2 exI [of _ us'] exI [of _ zs]) simp
    qed
  qed
  finally show ?case .
qed

subsection \<open>Errors as values\<close>

definition is_ok :: "'e + 'a \<Rightarrow> bool" where
  "is_ok r \<longleftrightarrow> (case r of Inl _ \<Rightarrow> False | Inr _ \<Rightarrow> True)"

abbreviation bind_err :: "'e + 'a \<Rightarrow> ('a \<Rightarrow> 'e + 'b) \<Rightarrow> 'e + 'b" where
  "bind_err r f \<equiv> case_sum Inl f r"

lemma is_ok_simps [simp]: "\<not> is_ok (Inl e)" "is_ok (Inr v)"
  by (simp_all add: is_ok_def)

lemma bind_err_Inr_iff: "bind_err r f = Inr w \<longleftrightarrow> (\<exists>v. r = Inr v \<and> f v = Inr w)"
  by (cases r) auto

subsection \<open>The contract of a bounded cache\<close>

locale bounded_cache =
  fixes put :: "'k \<Rightarrow> 'e \<Rightarrow> 's \<Rightarrow> 's"
    and get :: "'s \<Rightarrow> 'k \<Rightarrow> 'e option"
    and count :: "'s \<Rightarrow> nat"
    and wf :: "'s \<Rightarrow> bool"
    and cap :: nat
  assumes wf_put: "wf s \<Longrightarrow> wf (put k e s)"
    and count_put: "wf s \<Longrightarrow> count s \<le> cap \<Longrightarrow> count (put k e s) \<le> cap"
    and get_put: "wf s \<Longrightarrow> get (put k e s) k = Some e"
    and get_put_other: "wf s \<Longrightarrow> k' \<noteq> k \<Longrightarrow>
      get (put k e s) k' = get s k' \<or> get (put k e s) k' = None"
begin

lemma puts_bounded:
  "wf s \<Longrightarrow> count s \<le> cap \<Longrightarrow>
     wf (fold (\<lambda>(k, e). put k e) kes s) \<and> count (fold (\<lambda>(k, e). put k e) kes s) \<le> cap"
proof (induction kes arbitrary: s)
  case Nil
  then show ?case by simp
next
  case (Cons p kes)
  obtain k e where p: "p = (k, e)" by (cases p)
  show ?case
    using Cons.IH [OF wf_put [OF Cons.prems(1)] count_put [OF Cons.prems]] by (simp add: p)
qed

lemma puts_last:
  "wf s \<Longrightarrow> count s \<le> cap \<Longrightarrow> get (fold (\<lambda>(k, e). put k e) (kes @ [(k, e)]) s) k = Some e"
  using puts_bounded [of s kes] by (simp add: get_put)

lemma puts_sound:
  "wf s \<Longrightarrow> get (fold (\<lambda>(k, e). put k e) kes s) k = Some e \<Longrightarrow>
     get s k = Some e \<or> (k, e) \<in> set kes"
proof (induction kes arbitrary: s)
  case Nil
  then show ?case by simp
next
  case (Cons p kes)
  obtain k1 e1 where p: "p = (k1, e1)" by (cases p)
  have "get (put k1 e1 s) k = Some e \<or> (k, e) \<in> set kes"
    using Cons.IH [of "put k1 e1 s"] Cons.prems p by (simp add: wf_put)
  then show ?case
  proof
    assume g: "get (put k1 e1 s) k = Some e"
    show ?thesis
    proof (cases "k = k1")
      case True
      with g get_put [OF Cons.prems(1)] p show ?thesis by simp
    next
      case False
      have "get (put k1 e1 s) k = get s k \<or> get (put k1 e1 s) k = None"
        by (rule get_put_other [OF Cons.prems(1) False])
      with g show ?thesis by simp
    qed
  next
    assume "(k, e) \<in> set kes"
    then show ?thesis by simp
  qed
qed

end

text \<open>The caches of the daemon that make room by dropping their oldest entry.\<close>

definition put_capped :: "nat \<Rightarrow> 'k \<Rightarrow> 'e \<Rightarrow> ('k \<times> 'e) list \<Rightarrow> ('k \<times> 'e) list" where
  "put_capped cap k e c = AList.update k e (if length c \<ge> cap then tl c else c)"

lemma put_capped_ok: "jm_ok c \<Longrightarrow> jm_ok (put_capped cap k e c)"
  by (auto simp: put_capped_def distinct_update map_tl distinct_tl)

lemma put_capped_size: "0 < cap \<Longrightarrow> length c \<le> cap \<Longrightarrow> length (put_capped cap k e c) \<le> cap"
  using jm_size_set_le [of k e c] jm_size_set_le [of k e "tl c"]
  by (auto simp: put_capped_def)

lemma map_of_tl: "jm_ok c \<Longrightarrow> map_of (tl c) k = Some v \<Longrightarrow> map_of c k = Some v"
  by (cases c) (force dest: map_of_SomeD)+

lemma put_capped_other:
  assumes "jm_ok c" "k' \<noteq> k"
  shows "map_of (put_capped cap k e c) k' = map_of c k' \<or> map_of (put_capped cap k e c) k' = None"
proof (cases "map_of (tl c) k'")
  case (Some v)
  from map_of_tl [OF assms(1) this] Some assms(2) show ?thesis by (simp add: put_capped_def jm_get_set)
qed (use assms(2) in \<open>simp add: put_capped_def jm_get_set\<close>)

lemma capped_laws:
  assumes "0 < cap"
  shows "bounded_cache (put_capped cap) map_of length jm_ok cap"
proof unfold_locales
  fix s :: "('k \<times> 'e) list" and k k' :: 'k and e :: 'e
  show "jm_ok s \<Longrightarrow> jm_ok (put_capped cap k e s)" by (rule put_capped_ok)
  show "length s \<le> cap \<Longrightarrow> length (put_capped cap k e s) \<le> cap" using assms by (rule put_capped_size)
  show "map_of (put_capped cap k e s) k = Some e" by (simp add: put_capped_def jm_get_set)
  show "jm_ok s \<Longrightarrow> k' \<noteq> k \<Longrightarrow> map_of (put_capped cap k e s) k' = map_of s k' \<or> map_of (put_capped cap k e s) k' = None"
    by (rule put_capped_other)
qed

subsection \<open>Runs of events\<close>

text \<open>\<open>along step g es s\<close>: every event of \<open>es\<close> finds \<open>g\<close> true of itself and the state it is taken in.\<close>

fun along :: "('e \<Rightarrow> 's \<Rightarrow> 's) \<Rightarrow> ('e \<Rightarrow> 's \<Rightarrow> bool) \<Rightarrow> 'e list \<Rightarrow> 's \<Rightarrow> bool" where
  "along step g [] s \<longleftrightarrow> True"
| "along step g (e # es) s \<longleftrightarrow> g e s \<and> along step g es (step e s)"

lemma along_True [simp]: "along step (\<lambda>_ _. True) es s"
  by (induction es arbitrary: s) simp_all

text \<open>A component that handles events one at a time keeps an invariant, as long as the events are of a
  certain kind.\<close>

locale guarded_run =
  fixes step :: "'e \<Rightarrow> 's \<Rightarrow> 's" and guard :: "'e \<Rightarrow> 's \<Rightarrow> bool" and inv :: "'s \<Rightarrow> bool"
  assumes step_inv: "guard e s \<Longrightarrow> inv s \<Longrightarrow> inv (step e s)"
begin

lemma run_inv: "along step guard es s \<Longrightarrow> inv s \<Longrightarrow> inv (fold step es s)"
  by (induction es arbitrary: s) (simp_all add: step_inv)

lemma run_always: "along step guard es s \<Longrightarrow> inv s \<Longrightarrow> along step (\<lambda>_ s. inv s) es s"
  by (induction es arbitrary: s) (simp_all add: step_inv)

end

lemma along_append: "along step g (es @ fs) s \<longleftrightarrow> along step g es s \<and> along step g fs (fold step es s)"
  by (induction es arbitrary: s) simp_all

text \<open>A machine whose every event is a sequence of events of another one, seen through \<open>abs\<close>: what holds of
  the runs of the second holds of those of the first.\<close>

fun mediate :: "('e \<Rightarrow> 's \<Rightarrow> 's) \<Rightarrow> ('e \<Rightarrow> 's \<Rightarrow> 'f list) \<Rightarrow> 'e list \<Rightarrow> 's \<Rightarrow> 'f list" where
  "mediate step med [] s = []"
| "mediate step med (e # es) s = med e s @ mediate step med es (step e s)"

locale simulation = guarded_run step guard inv
  for step :: "'e \<Rightarrow> 's \<Rightarrow> 's" and guard :: "'e \<Rightarrow> 's \<Rightarrow> bool" and inv :: "'s \<Rightarrow> bool" +
  fixes astep :: "'f \<Rightarrow> 't \<Rightarrow> 't" and aguard :: "'f \<Rightarrow> 't \<Rightarrow> bool" and abs :: "'s \<Rightarrow> 't"
    and med :: "'e \<Rightarrow> 's \<Rightarrow> 'f list"
  assumes simulates: "guard e s \<Longrightarrow> inv s \<Longrightarrow> abs (step e s) = fold astep (med e s) (abs s)"
    and med_guard: "guard e s \<Longrightarrow> inv s \<Longrightarrow> along astep aguard (med e s) (abs s)"
begin

lemma run_refines:
  "along step guard es s \<Longrightarrow> inv s \<Longrightarrow>
     abs (fold step es s) = fold astep (mediate step med es s) (abs s)
     \<and> along astep aguard (mediate step med es s) (abs s)"
proof (induction es arbitrary: s)
  case (Cons e es)
  then have "guard e s" "inv s" by simp_all
  then show ?case
    using Cons.IH [of "step e s"] Cons.prems by (simp add: simulates med_guard step_inv along_append)
qed simp

end

end
