(* ===== verification/DependencyGraph.thy ===== *)
theory DependencyGraph
  imports Prelude
begin

text \<open>
  The generic DAG solver of \<open>src/src/services/dependency-graph.ts\<close>: execution waves over
  milestones, slices and tasks, and the items ready to run.  \<open>waves_loop\<close> is the body of the
  \<open>while\<close> loop of \<open>computeWaves\<close>; its state is the list \<open>completed\<close>, the map \<open>remaining\<close> and
  the wave counter.  The lemmas show that every round consumes at least one item (termination),
  that the waves partition the items, that a dependency always sits in an earlier wave when the
  graph is closed and acyclic, and that each wave is as early as possible.
\<close>

record 'id dep_item =
  di_id :: 'id
  di_depends :: "'id list"
  di_status :: "string option"

record 'id wave =
  wave_no :: nat
  wave_ids :: "'id list"

definition ready_ids :: "'id list \<Rightarrow> ('id \<times> 'id list) list \<Rightarrow> 'id list" where
  "ready_ids completed remaining =
     map fst (filter (\<lambda>(_, deps). list_all (\<lambda>d. d \<in> set completed) deps) remaining)"

definition wave_pick :: "'id list \<Rightarrow> ('id \<times> 'id list) list \<Rightarrow> 'id list" where
  "wave_pick completed remaining =
     (let ready = ready_ids completed remaining
      in if ready = [] then map fst remaining else ready)"

lemma ready_ids_subset: "set (ready_ids c r) \<subseteq> fst ` set r"
  by (auto simp: ready_ids_def image_iff)

lemma wave_pick_subset: "set (wave_pick c r) \<subseteq> fst ` set r"
  using ready_ids_subset [of c r] by (auto simp: wave_pick_def Let_def)

lemma wave_pick_nonempty: "r \<noteq> [] \<Longrightarrow> wave_pick c r \<noteq> []"
  by (simp add: wave_pick_def Let_def)

lemma wave_pick_distinct: "jm_ok r \<Longrightarrow> distinct (wave_pick c r)"
  by (auto simp: wave_pick_def Let_def ready_ids_def distinct_map intro: inj_on_subset)

lemma wave_pick_shrinks:
  assumes "r \<noteq> []"
  shows "length (fold AList.delete (wave_pick c r) r) < length r"
proof -
  obtain x where x: "x \<in> set (wave_pick c r)"
    using wave_pick_nonempty [OF assms, of c] by (cases "wave_pick c r") auto
  then obtain p where p: "p \<in> set r" "fst p = x"
    using wave_pick_subset [of c r] by auto
  show ?thesis
    unfolding jm_fold_delete
    by (rule length_filter_less [OF p(1)]) (simp add: p(2) x)
qed

function waves_loop :: "'id list \<Rightarrow> ('id \<times> 'id list) list \<Rightarrow> nat \<Rightarrow> 'id wave list" where
  "waves_loop completed remaining n =
     (if remaining = [] then []
      else let ready = wave_pick completed remaining
           in \<lparr>wave_no = n, wave_ids = ready\<rparr> #
              waves_loop (completed @ ready) (fold AList.delete ready remaining) (n + 1))"
  by pat_completeness auto
termination
  by (relation "measure (\<lambda>(c, r, n). length r)") (auto simp: wave_pick_shrinks)

declare waves_loop.simps [simp del]

definition computeWaves :: "'id dep_item list \<Rightarrow> 'id wave list" where
  "computeWaves items =
     waves_loop [] (fold (\<lambda>i. AList.update (di_id i) (di_depends i)) items []) 0"

definition getReadyItems :: "'id dep_item list \<Rightarrow> 'id list" where
  "getReadyItems items =
     (let completedIds = map di_id (filter (\<lambda>i. di_status i = Some ''completed'') items);
          activeOrPending = filter (\<lambda>i. di_status i \<noteq> Some ''completed''
                                      \<and> di_status i \<noteq> Some ''failed'') items
      in map di_id (filter (\<lambda>i. list_all (\<lambda>d. d \<in> set completedIds) (di_depends i))
                     activeOrPending))"

subsection \<open>The loop\<close>

lemma waves_loop_Nil [simp]: "waves_loop c [] n = []"
  by (simp add: waves_loop.simps)

lemma waves_loop_step:
  "r \<noteq> [] \<Longrightarrow> waves_loop c r n =
     \<lparr>wave_no = n, wave_ids = wave_pick c r\<rparr> #
       waves_loop (c @ wave_pick c r) (fold AList.delete (wave_pick c r) r) (n + 1)"
  by (simp add: waves_loop.simps [of c r n] Let_def)

lemma jm_ok_fold_delete: "jm_ok r \<Longrightarrow> jm_ok (fold AList.delete ks r)"
  by (simp add: jm_fold_delete distinct_map_filter)

lemma waves_loop_set:
  "set (concat (map wave_ids (waves_loop c r n))) = fst ` set r"
proof (induction c r n rule: waves_loop.induct)
  case (1 c r n)
  show ?case
  proof (cases "r = []")
    case False
    let ?p = "wave_pick c r"
    have "set (concat (map wave_ids (waves_loop c r n))) =
        set ?p \<union> fst ` set (fold AList.delete ?p r)"
      using False 1 [OF False refl] by (simp add: waves_loop_step [OF False])
    also have "\<dots> = fst ` set r"
      using wave_pick_subset [of c r] by (auto simp: jm_fold_delete)
    finally show ?thesis .
  qed simp
qed

lemma waves_loop_distinct:
  "jm_ok r \<Longrightarrow> distinct (concat (map wave_ids (waves_loop c r n)))"
proof (induction c r n rule: waves_loop.induct)
  case (1 c r n)
  show ?case
  proof (cases "r = []")
    case False
    let ?p = "wave_pick c r"
    have "set ?p \<inter> set (concat (map wave_ids
        (waves_loop (c @ ?p) (fold AList.delete ?p r) (n + 1)))) = {}"
      unfolding waves_loop_set by (auto simp: jm_fold_delete)
    then show ?thesis
      using 1(1) [OF False refl jm_ok_fold_delete [OF 1(2)]] wave_pick_distinct [OF 1(2), of c]
      by (simp add: waves_loop_step [OF False])
  qed simp
qed

lemma waves_loop_numbers:
  "map wave_no (waves_loop c r n) = [n..<n + length (waves_loop c r n)]"
proof (induction c r n rule: waves_loop.induct)
  case (1 c r n)
  show ?case
  proof (cases "r = []")
    case False
    then show ?thesis
      using 1 [OF False refl] by (simp add: waves_loop_step [OF False] upt_conv_Cons del: upt_Suc)
  qed simp
qed

lemma waves_loop_nonempty: "w \<in> set (waves_loop c r n) \<Longrightarrow> wave_ids w \<noteq> []"
proof (induction c r n rule: waves_loop.induct)
  case (1 c r n)
  show ?case
  proof (cases "r = []")
    case False
    from 1(2) show ?thesis
      unfolding waves_loop_step [OF False]
      using 1(1) [OF False refl] wave_pick_nonempty [OF False, of c] by auto
  qed (use 1 in simp)
qed

subsection \<open>Order of the waves\<close>

text \<open>\<open>dep_edges r\<close> is the dependency relation of the map \<open>remaining\<close>: an edge from a
  dependency to the item that waits for it.\<close>

definition dep_edges :: "('id \<times> 'id list) list \<Rightarrow> ('id \<times> 'id) set" where
  "dep_edges r = {(d, k). \<exists>ds. (k, ds) \<in> set r \<and> d \<in> set ds}"

definition deps_closed :: "'id list \<Rightarrow> ('id \<times> 'id list) list \<Rightarrow> bool" where
  "deps_closed c r \<longleftrightarrow> (\<forall>(k, ds) \<in> set r. set ds \<subseteq> set c \<union> fst ` set r)"

lemma dep_edges_filter: "dep_edges (filter P r) \<subseteq> dep_edges r"
  by (auto simp: dep_edges_def)

lemma deps_closed_step:
  assumes "deps_closed c r"
  shows "deps_closed (c @ ks) (fold AList.delete ks r)"
proof -
  have keys: "fst ` set (fold AList.delete ks r) = fst ` set r - set ks"
    by (auto simp: jm_fold_delete)
  show ?thesis
    unfolding deps_closed_def
  proof (intro ballI)
    fix p assume p: "p \<in> set (fold AList.delete ks r)"
    obtain k ds where kd: "p = (k, ds)" by (cases p)
    have "(k, ds) \<in> set r" using p kd by (simp add: jm_fold_delete)
    then have "set ds \<subseteq> set c \<union> fst ` set r"
      using assms unfolding deps_closed_def by blast
    then have "set ds \<subseteq> set (c @ ks) \<union> (fst ` set r - set ks)" by auto
    then show "case p of (k, ds) \<Rightarrow>
        set ds \<subseteq> set (c @ ks) \<union> fst ` set (fold AList.delete ks r)"
      unfolding kd keys by simp
  qed
qed

lemma ready_exists:
  assumes "r \<noteq> []" "deps_closed c r" "wf (dep_edges r)"
  shows "ready_ids c r \<noteq> []"
proof -
  from assms(1) have ne: "fst ` set r \<noteq> {}" by simp
  obtain k where k: "k \<in> fst ` set r"
    and min: "\<And>d. (d, k) \<in> dep_edges r \<Longrightarrow> d \<notin> fst ` set r"
    by (rule wfE_min' [OF assms(3) ne]) (rule that)
  then obtain ds where kd: "(k, ds) \<in> set r" by auto
  have "set ds \<subseteq> set c"
  proof
    fix d assume d: "d \<in> set ds"
    then have "d \<notin> fst ` set r" using min kd by (auto simp: dep_edges_def)
    with d kd assms(2) show "d \<in> set c" by (auto simp: deps_closed_def)
  qed
  then have "k \<in> set (ready_ids c r)"
    using kd by (force simp: ready_ids_def list_all_iff)
  then show ?thesis by auto
qed

lemma ready_ids_deps:
  assumes "jm_ok r" "k \<in> set (ready_ids c r)" "(k, ds) \<in> set r" "d \<in> set ds"
  shows "d \<in> set c"
proof -
  from assms(2) obtain ds' where "(k, ds') \<in> set r" and ok: "\<forall>d \<in> set ds'. d \<in> set c"
    by (auto simp: ready_ids_def list_all_iff)
  with assms(1,3) have "ds' = ds" by (meson eq_key_imp_eq_value)
  with ok assms(4) show ?thesis by simp
qed

lemma not_ready_dep:
  assumes "(k, ds) \<in> set r" "k \<notin> set (ready_ids c r)"
  shows "\<exists>d \<in> set ds. d \<notin> set c"
  using assms by (force simp: ready_ids_def list_all_iff)

lemma waves_loop_deps:
  assumes "jm_ok r" "deps_closed c r" "wf (dep_edges r)"
    and "waves_loop c r n = pre @ w # post" "k \<in> set (wave_ids w)"
    and "(k, ds) \<in> set r" "d \<in> set ds"
  shows "d \<in> set c \<union> set (concat (map wave_ids pre))"
  using assms
proof (induction c r n arbitrary: pre rule: waves_loop.induct)
  case (1 c r n)
  from "1.prems"(6) have ne: "r \<noteq> []" by auto
  let ?p = "wave_pick c r" let ?r = "fold AList.delete ?p r"
  have pick: "?p = ready_ids c r"
    using ready_exists [OF ne "1.prems"(2,3)] by (simp add: wave_pick_def Let_def)
  show ?case
  proof (cases pre)
    case Nil
    with "1.prems"(4) have "wave_ids w = ?p" by (auto simp: waves_loop_step [OF ne])
    then show ?thesis
      using ready_ids_deps [OF "1.prems"(1) _ "1.prems"(6,7)] "1.prems"(5) pick by simp
  next
    case (Cons v pre')
    with "1.prems"(4) have v: "wave_ids v = ?p"
      and rest: "waves_loop (c @ ?p) ?r (n + 1) = pre' @ w # post"
      by (auto simp: waves_loop_step [OF ne])
    have "k \<in> fst ` set ?r"
      using "1.prems"(5) rest waves_loop_set [of "c @ ?p" ?r "n + 1"] by auto
    then have kr: "(k, ds) \<in> set ?r"
      using "1.prems"(6) by (auto simp: jm_fold_delete)
    have "wf (dep_edges ?r)"
      unfolding jm_fold_delete by (rule wf_subset [OF "1.prems"(3) dep_edges_filter])
    then have "d \<in> set (c @ ?p) \<union> set (concat (map wave_ids pre'))"
      using "1.IH" [OF ne refl jm_ok_fold_delete [OF "1.prems"(1)]
          deps_closed_step [OF "1.prems"(2)] _ rest "1.prems"(5) kr "1.prems"(7)] by simp
    then show ?thesis using v Cons by auto
  qed
qed

lemma waves_loop_early:
  assumes "jm_ok r" "waves_loop c r n = pre @ v # w # post"
    and "k \<in> set (wave_ids w)" "(k, ds) \<in> set r"
  shows "\<exists>d \<in> set ds. d \<notin> set c \<union> set (concat (map wave_ids pre))"
  using assms
proof (induction c r n arbitrary: pre rule: waves_loop.induct)
  case (1 c r n)
  from "1.prems"(4) have ne: "r \<noteq> []" by auto
  let ?p = "wave_pick c r" let ?r = "fold AList.delete ?p r"
  from "1.prems"(2) have tl: "waves_loop (c @ ?p) ?r (n + 1) = tl pre @ (if pre = [] then [] else [v]) @ w # post"
    by (cases pre) (auto simp: waves_loop_step [OF ne])
  have "k \<in> fst ` set ?r"
    using "1.prems"(3) tl waves_loop_set [of "c @ ?p" ?r "n + 1"] by auto
  then have kr: "(k, ds) \<in> set ?r" and kp: "k \<notin> set ?p"
    using "1.prems"(4) by (auto simp: jm_fold_delete)
  show ?case
  proof (cases pre)
    case Nil
    have "k \<notin> set (ready_ids c r)"
      using kp by (auto simp: wave_pick_def Let_def split: if_splits)
    from not_ready_dep [OF "1.prems"(4) this] show ?thesis using Nil by simp
  next
    case (Cons u pre')
    with "1.prems"(2) have u: "wave_ids u = ?p" by (auto simp: waves_loop_step [OF ne])
    from Cons tl have "waves_loop (c @ ?p) ?r (n + 1) = pre' @ v # w # post" by simp
    from "1.IH" [OF ne refl jm_ok_fold_delete [OF "1.prems"(1)] this "1.prems"(3) kr]
    show ?thesis using u Cons by auto
  qed
qed

lemma waves_loop_stuck:
  assumes "jm_ok r" "(k, ds) \<in> set r" "d \<in> set ds" "d \<notin> set c \<union> fst ` set r"
  shows "waves_loop c r n \<noteq> [] \<and> k \<in> set (wave_ids (last (waves_loop c r n)))"
  using assms
proof (induction c r n rule: waves_loop.induct)
  case (1 c r n)
  from "1.prems"(2) have ne: "r \<noteq> []" by auto
  let ?p = "wave_pick c r" let ?r = "fold AList.delete ?p r"
  have nr: "k \<notin> set (ready_ids c r)"
    using ready_ids_deps [OF "1.prems"(1) _ "1.prems"(2,3)] "1.prems"(4) by blast
  show ?case
  proof (cases "ready_ids c r = []")
    case True
    then have "?p = map fst r" by (simp add: wave_pick_def Let_def)
    moreover from this have "?r = []" by (simp add: jm_fold_delete filter_empty_conv)
    ultimately show ?thesis
      using "1.prems"(2) by (force simp: waves_loop_step [OF ne])
  next
    case False
    then have p: "?p = ready_ids c r" by (simp add: wave_pick_def Let_def)
    have kr: "(k, ds) \<in> set ?r" using "1.prems"(2) nr p by (simp add: jm_fold_delete)
    have "d \<notin> set (c @ ?p) \<union> fst ` set ?r"
      using "1.prems"(4) wave_pick_subset [of c r] by (auto simp: jm_fold_delete)
    from "1.IH" [OF ne refl jm_ok_fold_delete [OF "1.prems"(1)] kr "1.prems"(3) this]
    show ?thesis by (simp add: waves_loop_step [OF ne])
  qed
qed

subsection \<open>Properties of \<open>computeWaves\<close> and \<open>getReadyItems\<close>\<close>

abbreviation remaining_of :: "'id dep_item list \<Rightarrow> ('id \<times> 'id list) list" where
  "remaining_of items \<equiv> fold (\<lambda>i. AList.update (di_id i) (di_depends i)) items []"

lemma remaining_of_distinct:
  "distinct (map di_id items) \<Longrightarrow> remaining_of items = map (\<lambda>i. (di_id i, di_depends i)) items"
  by (simp add: jm_fold_set_fresh)

lemma remaining_of_ok: "jm_ok (remaining_of items)"
  by (rule jm_fold_set_ok) simp

lemma remaining_of_keys: "fst ` set (remaining_of items) = di_id ` set items"
  by (simp add: jm_fold_set_keys)

text \<open>C38: \<open>computeWaves\<close> terminates on every input, cyclic or not, and its waves are numbered
  from 0, are never empty, and list every distinct item id exactly once.\<close>

theorem computeWaves_partition:
  "distinct (concat (map wave_ids (computeWaves items)))
   \<and> set (concat (map wave_ids (computeWaves items))) = di_id ` set items
   \<and> map wave_no (computeWaves items) = [0..<length (computeWaves items)]
   \<and> [] \<notin> set (map wave_ids (computeWaves items))"
  unfolding computeWaves_def
  using waves_loop_distinct [OF remaining_of_ok] waves_loop_nonempty
    waves_loop_numbers [of "[]" "remaining_of items" 0]
  by (fastforce simp: waves_loop_set remaining_of_keys simp del: set_concat upt_Suc)

lemma computeWaves_before:
  assumes "distinct (map di_id items)"
    and "\<And>j. j \<in> set items \<Longrightarrow> set (di_depends j) \<subseteq> di_id ` set items"
    and "acyclic {(d, k). \<exists>j \<in> set items. k = di_id j \<and> d \<in> set (di_depends j)}"
    and "computeWaves items = pre @ w # post"
    and "i \<in> set items" and "di_id i \<in> set (wave_ids w)"
  shows "set (di_depends i) \<subseteq> set (concat (map wave_ids pre))"
proof -
  let ?r = "remaining_of items"
  note r = remaining_of_distinct [OF assms(1)]
  have kd: "(di_id i, di_depends i) \<in> set ?r" using assms(5) r by auto
  have edges: "dep_edges ?r = {(d, k). \<exists>j \<in> set items. k = di_id j \<and> d \<in> set (di_depends j)}"
    unfolding r dep_edges_def by auto
  have "dep_edges ?r \<subseteq> (\<Union>j \<in> set items. set (di_depends j)) \<times> di_id ` set items"
    unfolding edges by auto
  then have "finite (dep_edges ?r)" by (rule finite_subset) auto
  then have wf: "wf (dep_edges ?r)"
    using assms(3) by (intro finite_acyclic_wf) (simp_all only: edges)
  have closed: "deps_closed [] ?r"
    unfolding deps_closed_def remaining_of_keys using assms(2) by (auto simp: r)
  have ws: "waves_loop [] ?r 0 = pre @ w # post"
    using assms(4) by (simp add: computeWaves_def)
  show ?thesis using waves_loop_deps [OF remaining_of_ok closed wf ws assms(6) kd] by auto
qed

text \<open>When every dependency names an item and the dependencies have no cycle, each item runs
  in a wave after the waves of all its dependencies, and no item waits longer than it must: an
  item outside the first wave has a dependency in the wave just before its own.\<close>

theorem computeWaves_respects_dependencies:
  assumes "distinct (map di_id items)"
    and "\<And>j. j \<in> set items \<Longrightarrow> set (di_depends j) \<subseteq> di_id ` set items"
    and "acyclic {(d, k). \<exists>j \<in> set items. k = di_id j \<and> d \<in> set (di_depends j)}"
    and "computeWaves items = pre @ w # post"
    and "i \<in> set items" and "di_id i \<in> set (wave_ids w)"
  shows "set (di_depends i) \<subseteq> set (concat (map wave_ids pre))
    \<and> (pre = [] \<or> set (di_depends i) \<inter> set (wave_ids (last pre)) \<noteq> {})"
proof -
  let ?r = "remaining_of items"
  have kd: "(di_id i, di_depends i) \<in> set ?r"
    using assms(5) remaining_of_distinct [OF assms(1)] by auto
  have ws: "waves_loop [] ?r 0 = pre @ w # post"
    using assms(4) by (simp add: computeWaves_def)
  have all: "set (di_depends i) \<subseteq> set (concat (map wave_ids pre))"
    by (rule computeWaves_before [OF assms(1) _ assms(3-6)]) (use assms(2) in blast)
  then have before: "d \<in> set (concat (map wave_ids pre))" if "d \<in> set (di_depends i)" for d
    using that by blast
  have "set (di_depends i) \<inter> set (wave_ids (last pre)) \<noteq> {}" if ne: "pre \<noteq> []"
  proof -
    have "waves_loop [] ?r 0 = butlast pre @ last pre # w # post" using ws ne by simp
    from waves_loop_early [OF remaining_of_ok this assms(6) kd]
    obtain d where d: "d \<in> set (di_depends i)"
      "d \<notin> set (concat (map wave_ids (butlast pre)))" by auto
    have "set (concat (map wave_ids pre)) =
        set (concat (map wave_ids (butlast pre))) \<union> set (wave_ids (last pre))"
      by (subst (1) append_butlast_last_id [OF ne, symmetric]) (simp del: append_butlast_last_id)
    with before [OF d(1)] d show ?thesis by auto
  qed
  with all show ?thesis by blast
qed

lemma computeWaves_diamond:
  "computeWaves [\<lparr>di_id = (4::nat), di_depends = [2, 3], di_status = None\<rparr>,
      \<lparr>di_id = 2, di_depends = [1], di_status = None\<rparr>,
      \<lparr>di_id = 3, di_depends = [1], di_status = None\<rparr>,
      \<lparr>di_id = 1, di_depends = [], di_status = None\<rparr>] =
   [\<lparr>wave_no = 0, wave_ids = [1]\<rparr>, \<lparr>wave_no = 1, wave_ids = [2, 3]\<rparr>,
    \<lparr>wave_no = 2, wave_ids = [4]\<rparr>]"
  by (simp add: computeWaves_def waves_loop.simps wave_pick_def ready_ids_def)

theorem computeWaves_respects_dependencies_witness:
  "set [2, 3 :: nat] \<subseteq> set (concat (map wave_ids
      [\<lparr>wave_no = 0, wave_ids = [1]\<rparr>, \<lparr>wave_no = 1, wave_ids = [2, 3 :: nat]\<rparr>]))"
proof -
  let ?items = "[\<lparr>di_id = (4::nat), di_depends = [2, 3], di_status = None\<rparr>,
      \<lparr>di_id = 2, di_depends = [1], di_status = None\<rparr>,
      \<lparr>di_id = 3, di_depends = [1], di_status = None\<rparr>,
      \<lparr>di_id = 1, di_depends = [], di_status = None\<rparr>]"
  have "{(d, k). \<exists>j \<in> set ?items. k = di_id j \<and> d \<in> set (di_depends j)} \<subseteq> measure id"
    by auto
  then have acyc: "acyclic {(d, k). \<exists>j \<in> set ?items. k = di_id j \<and> d \<in> set (di_depends j)}"
    by (rule acyclic_subset [OF wf_acyclic [OF wf_measure]])
  show ?thesis
    using computeWaves_respects_dependencies [of ?items
        "[\<lparr>wave_no = 0, wave_ids = [1]\<rparr>, \<lparr>wave_no = 1, wave_ids = [2, 3]\<rparr>]"
        "\<lparr>wave_no = 2, wave_ids = [4]\<rparr>" "[]"
        "\<lparr>di_id = 4, di_depends = [2, 3], di_status = None\<rparr>", OF _ _ acyc]
      computeWaves_diamond
    by auto
qed

text \<open>An item with a dependency that names no item is never ready: it is released only by the
  forced last wave, together with every other item still waiting.\<close>

theorem computeWaves_unknown_dependency_last:
  assumes "distinct (map di_id items)" and "i \<in> set items"
    and "d \<in> set (di_depends i)" and "d \<notin> di_id ` set items"
  shows "computeWaves items \<noteq> [] \<and> di_id i \<in> set (wave_ids (last (computeWaves items)))"
proof -
  have "(di_id i, di_depends i) \<in> set (remaining_of items)"
    using assms(2) by (auto simp: remaining_of_distinct [OF assms(1)])
  from waves_loop_stuck [OF remaining_of_ok this assms(3)] assms(4)
  show ?thesis by (simp add: computeWaves_def remaining_of_keys)
qed

text \<open>The forced wave does not keep the order of the dependencies that are known: \<open>b\<close> depends
  on \<open>a\<close>, and both are in one wave.\<close>

theorem computeWaves_unknown_dependency_last_witness:
  "computeWaves [\<lparr>di_id = ''a'', di_depends = [''ghost''], di_status = None\<rparr>,
      \<lparr>di_id = ''b'', di_depends = [''a''], di_status = None\<rparr>] =
    [\<lparr>wave_no = 0, wave_ids = [''a'', ''b'']\<rparr>]
   \<and> ''a'' \<in> set (wave_ids (last (computeWaves
      [\<lparr>di_id = ''a'', di_depends = [''ghost''], di_status = None\<rparr>,
       \<lparr>di_id = ''b'', di_depends = [''a''], di_status = None\<rparr>])))"
  using computeWaves_unknown_dependency_last [of
      "[\<lparr>di_id = ''a'', di_depends = [''ghost''], di_status = None\<rparr>,
        \<lparr>di_id = ''b'', di_depends = [''a''], di_status = None\<rparr>]"
      "\<lparr>di_id = ''a'', di_depends = [''ghost''], di_status = None\<rparr>" "''ghost''"]
  by (simp add: computeWaves_def waves_loop.simps wave_pick_def ready_ids_def)

lemma list_all_False_iff: "list_all (\<lambda>d. False) ds \<longleftrightarrow> ds = []"
  by (cases ds) auto

lemma getReadyItems_fresh:
  assumes "\<forall>i \<in> set items. di_status i \<noteq> Some ''completed'' \<and> di_status i \<noteq> Some ''failed''"
  shows "getReadyItems items = map di_id (filter (\<lambda>i. di_depends i = []) items)"
proof -
  have c: "filter (\<lambda>i. di_status i = Some ''completed'') items = []"
    using assms by (auto simp: filter_empty_conv)
  have a: "filter (\<lambda>i. di_status i \<noteq> Some ''completed'' \<and> di_status i \<noteq> Some ''failed'') items
      = items"
    using assms by (auto simp: filter_id_conv)
  show ?thesis unfolding getReadyItems_def c a by (simp add: list_all_False_iff)
qed

text \<open>On items none of which has run, \<open>getReadyItems\<close> and the first wave of \<open>computeWaves\<close>
  agree, unless no item is free of dependencies.\<close>

theorem getReadyItems_first_wave:
  assumes "distinct (map di_id items)"
    and "\<forall>i \<in> set items. di_status i \<noteq> Some ''completed'' \<and> di_status i \<noteq> Some ''failed''"
    and "getReadyItems items \<noteq> []"
  shows "wave_ids (hd (computeWaves items)) = getReadyItems items"
proof -
  have "ready_ids [] (remaining_of items) = map di_id (filter (\<lambda>i. di_depends i = []) items)"
    by (simp add: remaining_of_distinct [OF assms(1)] ready_ids_def filter_map o_def
        list_all_False_iff)
  then have ready: "ready_ids [] (remaining_of items) = getReadyItems items"
    by (simp only: getReadyItems_fresh [OF assms(2)])
  have "remaining_of items \<noteq> []"
    using ready assms(3) by (auto simp: ready_ids_def)
  then show ?thesis
    using ready assms(3) by (simp add: computeWaves_def waves_loop_step wave_pick_def Let_def)
qed

theorem getReadyItems_first_wave_witness:
  "wave_ids (hd (computeWaves [\<lparr>di_id = (2::nat), di_depends = [1], di_status = None\<rparr>,
      \<lparr>di_id = 1, di_depends = [], di_status = Some ''active''\<rparr>])) = [1]"
  using getReadyItems_first_wave [of "[\<lparr>di_id = (2::nat), di_depends = [1], di_status = None\<rparr>,
      \<lparr>di_id = 1, di_depends = [], di_status = Some ''active''\<rparr>]"]
  by (auto simp: getReadyItems_def)

end
