(* ===== verification/JsString.thy ===== *)
theory JsString
  imports Prelude "HOL-Library.Char_ord" "HOL-Library.List_Lexorder"
begin

text \<open>
  The string operations the program takes from the JavaScript library, on ASCII text (a \<open>char\<close>
  is one code unit): \<open>trim\<close>, \<open>toLowerCase\<close>, \<open>String(n)\<close> and \<open>parseInt\<close> on decimal digits, and
  the order of \<open>Array.prototype.sort\<close> on strings, which is the lexicographic order of the code
  units and so the \<open>linorder\<close> of \<open>List_Lexorder\<close> over \<open>Char_ord\<close>.
\<close>

definition is_ws :: "char \<Rightarrow> bool" where
  "is_ws c \<longleftrightarrow> c \<in> {CHR 0x09, CHR 0x0A, CHR 0x0B, CHR 0x0C, CHR 0x0D, CHR 0x20}"

definition lower_letters :: string where
  "lower_letters = ''abcdefghijklmnopqrstuvwxyz''"

definition upper_letters :: string where
  "upper_letters = ''ABCDEFGHIJKLMNOPQRSTUVWXYZ''"

definition digits10 :: string where
  "digits10 = ''0123456789''"

definition is_lower :: "char \<Rightarrow> bool" where
  "is_lower c \<longleftrightarrow> c \<in> set lower_letters"

definition is_digit :: "char \<Rightarrow> bool" where
  "is_digit c \<longleftrightarrow> c \<in> set digits10"

definition to_lower :: "char \<Rightarrow> char" where
  "to_lower c = (case map_of (zip upper_letters lower_letters) c of None \<Rightarrow> c | Some d \<Rightarrow> d)"

definition js_trim :: "string \<Rightarrow> string" where
  "js_trim s = rev (dropWhile is_ws (rev (dropWhile is_ws s)))"

lemma to_lower_not_upper: "c \<notin> set upper_letters \<Longrightarrow> to_lower c = c"
  by (auto simp: to_lower_def split: option.splits dest!: map_of_SomeD set_zip_leftD)

text \<open>The character classes are disjoint; the four facts below are decided by enumeration.\<close>

lemma letters_not_upper: "list_all (\<lambda>c. c \<notin> set upper_letters) (lower_letters @ digits10 @ ''.-_'')"
  by code_simp

lemma letters_not_ws: "list_all (\<lambda>c. \<not> is_ws c) (lower_letters @ digits10 @ ''.-_'')"
  by code_simp

lemma letters_not_punct:
  "list_all (\<lambda>c. c \<notin> set [CHR ''.'', CHR ''-'', CHR ''_'', CHR ''/'', CHR 0x5C, CHR 0x00])
     (lower_letters @ digits10)"
  by code_simp

lemma to_lower_lower [simp]: "is_lower c \<Longrightarrow> to_lower c = c"
  using letters_not_upper by (auto simp: is_lower_def list_all_iff intro: to_lower_not_upper)

lemma to_lower_digit [simp]: "is_digit c \<Longrightarrow> to_lower c = c"
  using letters_not_upper by (auto simp: is_digit_def list_all_iff intro: to_lower_not_upper)

lemma to_lower_punct [simp]: "c \<in> {CHR ''.'', CHR ''-'', CHR ''_''} \<Longrightarrow> to_lower c = c"
  using letters_not_upper by (auto simp: list_all_iff intro: to_lower_not_upper)

lemma not_ws_lower [simp]: "is_lower c \<Longrightarrow> \<not> is_ws c"
  using letters_not_ws by (auto simp: is_lower_def list_all_iff)

lemma not_ws_digit [simp]: "is_digit c \<Longrightarrow> \<not> is_ws c"
  using letters_not_ws by (auto simp: is_digit_def list_all_iff)

lemma is_lower_neq: "is_lower c \<Longrightarrow>
    c \<noteq> CHR ''.'' \<and> c \<noteq> CHR ''-'' \<and> c \<noteq> CHR ''_'' \<and> c \<noteq> CHR ''/'' \<and> c \<noteq> CHR 0x5C \<and> c \<noteq> CHR 0x00"
  using letters_not_punct by (auto simp: is_lower_def list_all_iff)

lemma is_digit_neq: "is_digit c \<Longrightarrow>
    c \<noteq> CHR ''.'' \<and> c \<noteq> CHR ''-'' \<and> c \<noteq> CHR ''_'' \<and> c \<noteq> CHR ''/'' \<and> c \<noteq> CHR 0x5C \<and> c \<noteq> CHR 0x00"
  using letters_not_punct by (auto simp: is_digit_def list_all_iff)

lemma dropWhile_hd_id: "s = [] \<or> \<not> P (hd s) \<Longrightarrow> dropWhile P s = s"
  by (cases s) auto

lemma strip_both_id:
  "s = [] \<or> \<not> P (hd s) \<and> \<not> P (last s) \<Longrightarrow> rev (dropWhile P (rev (dropWhile P s))) = s"
proof -
  assume a: "s = [] \<or> \<not> P (hd s) \<and> \<not> P (last s)"
  then have d: "dropWhile P s = s" by (auto intro: dropWhile_hd_id)
  from a have "rev s = [] \<or> \<not> P (hd (rev s))" by (auto simp: hd_rev)
  then show ?thesis unfolding d by (simp only: dropWhile_hd_id rev_rev_ident)
qed

lemma strip_both_ends:
  assumes "rev (dropWhile P (rev (dropWhile P s))) \<noteq> []"
  shows "\<not> P (hd (rev (dropWhile P (rev (dropWhile P s)))))"
    and "\<not> P (last (rev (dropWhile P (rev (dropWhile P s)))))"
proof -
  let ?t = "dropWhile P s"
  let ?u = "dropWhile P (rev ?t)"
  from assms have une: "?u \<noteq> []" by simp
  then show "\<not> P (last (rev ?u))"
    using hd_dropWhile [of P "rev ?t"] by (simp add: last_rev)
  have tne: "?t \<noteq> []" using une by (cases ?t) auto
  have "rev ?t = takeWhile P (rev ?t) @ ?u" by simp
  then have "?t = rev ?u @ rev (takeWhile P (rev ?t))"
    by (metis rev_append rev_rev_ident)
  then have "hd ?t = hd (rev ?u)"
    using une by (metis hd_append2 rev_is_Nil_conv)
  then show "\<not> P (hd (rev ?u))"
    using hd_dropWhile [OF tne] by simp
qed

lemma strip_both_subset: "set (rev (dropWhile P (rev (dropWhile P s)))) \<subseteq> set s"
  by (auto dest!: set_dropWhileD)

lemma strip_both_sublist: "\<exists>us vs. s = us @ rev (dropWhile P (rev (dropWhile P s))) @ vs"
proof -
  let ?t = "dropWhile P s"
  have "rev ?t = takeWhile P (rev ?t) @ dropWhile P (rev ?t)" by simp
  then have "?t = rev (dropWhile P (rev ?t)) @ rev (takeWhile P (rev ?t))"
    by (metis rev_append rev_rev_ident)
  moreover have "s = takeWhile P s @ ?t" by simp
  ultimately show ?thesis by metis
qed

lemma js_trim_id: "s = [] \<or> \<not> is_ws (hd s) \<and> \<not> is_ws (last s) \<Longrightarrow> js_trim s = s"
  unfolding js_trim_def by (rule strip_both_id)

subsection \<open>Decimal numbers\<close>

definition digit_char :: "nat \<Rightarrow> char" where
  "digit_char d = digits10 ! d"

definition digit_val :: "char \<Rightarrow> nat" where
  "digit_val c = length (takeWhile (\<lambda>x. x \<noteq> c) digits10)"

fun str_of_nat :: "nat \<Rightarrow> string" where
  "str_of_nat n = (if n < 10 then [digit_char n]
                   else str_of_nat (n div 10) @ [digit_char (n mod 10)])"

declare str_of_nat.simps [simp del]

definition str_of_int :: "int \<Rightarrow> string" where
  "str_of_int i = (if i < 0 then CHR ''-'' # str_of_nat (nat (- i)) else str_of_nat (nat i))"

definition nat_of_str :: "string \<Rightarrow> nat" where
  "nat_of_str s = foldl (\<lambda>n c. n * 10 + digit_val c) 0 s"

lemma length_digits10: "length digits10 = 10" and distinct_digits10: "distinct digits10"
  by (simp_all add: digits10_def)

lemma is_digit_digit_char: "d < 10 \<Longrightarrow> is_digit (digit_char d)"
  by (simp add: is_digit_def digit_char_def length_digits10)

lemma digit_val_digit_char:
  assumes "d < 10"
  shows "digit_val (digit_char d) = d"
proof -
  have "takeWhile (\<lambda>x. x \<noteq> digits10 ! d) (take d digits10 @ digits10 ! d # drop (Suc d) digits10)
      = take d digits10"
  proof (subst takeWhile_append2)
    fix x assume "x \<in> set (take d digits10)"
    then obtain i where "i < d" "x = digits10 ! i"
      using assms by (auto simp: in_set_conv_nth length_digits10)
    then show "x \<noteq> digits10 ! d"
      using assms distinct_digits10 by (simp add: nth_eq_iff_index_eq length_digits10)
  qed simp
  then have "takeWhile (\<lambda>x. x \<noteq> digits10 ! d) digits10 = take d digits10"
    using assms by (simp add: id_take_nth_drop [symmetric] length_digits10)
  then show ?thesis using assms by (simp add: digit_val_def digit_char_def length_digits10)
qed

lemma str_of_nat_digits: "\<forall>c \<in> set (str_of_nat n). is_digit c"
proof (induction n rule: str_of_nat.induct)
  case (1 n)
  then show ?case
    by (cases "n < 10") (auto simp: str_of_nat.simps [of n] is_digit_digit_char)
qed

lemma str_of_nat_nonempty [simp]: "str_of_nat n \<noteq> []"
  by (subst str_of_nat.simps) simp

lemma nat_of_str_str_of_nat: "nat_of_str (str_of_nat n) = n"
proof (induction n rule: str_of_nat.induct)
  case (1 n)
  show ?case
  proof (cases "n < 10")
    case True
    then show ?thesis by (simp add: str_of_nat.simps [of n] nat_of_str_def digit_val_digit_char)
  next
    case False
    have "nat_of_str (str_of_nat n) = nat_of_str (str_of_nat (n div 10)) * 10 + n mod 10"
      using False by (simp add: str_of_nat.simps [of n] nat_of_str_def digit_val_digit_char)
    then show ?thesis using 1 False by simp
  qed
qed

lemma str_of_nat_inj: "str_of_nat m = str_of_nat n \<longleftrightarrow> m = n"
  by (metis nat_of_str_str_of_nat)

lemma nat_of_str_zeros: "nat_of_str (replicate k CHR ''0'' @ s) = nat_of_str s"
proof -
  have "foldl (\<lambda>n c. n * 10 + digit_val c) 0 (replicate k CHR ''0'') = 0"
    by (induction k) (simp_all add: digit_val_def digits10_def)
  then show ?thesis by (simp add: nat_of_str_def)
qed

lemma length_str_of_nat_small: "n < 100 \<Longrightarrow> length (str_of_nat n) \<le> 2"
proof -
  assume "n < 100"
  then have "n div 10 < 10" by simp
  then show ?thesis
    by (cases "n < 10") (simp_all add: str_of_nat.simps [of n] str_of_nat.simps [of "n div 10"])
qed

text \<open>\<open>Number.parseInt(s, 10)\<close>, without rounding of numbers beyond 2^53.\<close>

definition js_parseInt :: "string \<Rightarrow> int option" where
  "js_parseInt s =
     (let t = dropWhile is_ws s;
          (neg, u) = (case t of c # r \<Rightarrow> if c = CHR ''-'' then (True, r) else if c = CHR ''+'' then (False, r) else (False, t)
                               | [] \<Rightarrow> (False, []));
          ds = takeWhile is_digit u
      in if ds = [] then None else Some (if neg then - int (nat_of_str ds) else int (nat_of_str ds)))"

subsection \<open>Values of unknown shape\<close>

text \<open>A JSON or YAML value, as request bodies and plan frontmatter carry it; numbers are integers.
  A missing key reads as \<open>undefined\<close>, which is \<open>None\<close>.\<close>

datatype jval =
  JNull | JBool bool | JNum int | JStr string | JArr "jval list" | JObj "(string \<times> jval) list"

type_synonym jobj = "(string \<times> jval) list"

text \<open>\<open>a ?? d\<close>: the default replaces \<open>undefined\<close> and \<open>null\<close> only.\<close>

fun nullish :: "jval option \<Rightarrow> jval \<Rightarrow> jval" where
  "nullish None d = d"
| "nullish (Some JNull) d = d"
| "nullish (Some v) d = v"

lemma nullish_Some: "nullish (Some v) d = (if v = JNull then d else v)"
  by (cases v) auto

text \<open>\<open>JSON.parse\<close> is a parameter: a text has a value, or it throws.\<close>

type_synonym json_parse = "string \<Rightarrow> jval option"

text \<open>A schema that is \<open>strict\<close> refuses a body with any other key.\<close>

definition strict :: "string list \<Rightarrow> jobj \<Rightarrow> bool" where
  "strict allowed b \<longleftrightarrow> list_all (\<lambda>(k, _). k \<in> set allowed) b"

definition truthy_str :: "string option \<Rightarrow> string option" where
  "truthy_str v = (case v of Some s \<Rightarrow> if s = [] then None else Some s | None \<Rightarrow> None)"

subsection \<open>Splitting and joining\<close>

text \<open>\<open>s.split(c)\<close> and \<open>xs.join(c)\<close> for a single character; the empty string splits into one empty piece.\<close>

fun split_on :: "char \<Rightarrow> string \<Rightarrow> string list" where
  "split_on c [] = [[]]"
| "split_on c (x # xs) =
     (if x = c then [] # split_on c xs
      else case split_on c xs of [] \<Rightarrow> [[x]] | p # ps \<Rightarrow> (x # p) # ps)"

fun join_on :: "char \<Rightarrow> string list \<Rightarrow> string" where
  "join_on c [] = []"
| "join_on c [s] = s"
| "join_on c (s # t # ss) = s @ c # join_on c (t # ss)"

lemma split_on_nonempty [simp]: "split_on c s \<noteq> []"
  by (cases s) (auto split: list.split)

lemma split_on_pieces: "p \<in> set (split_on c s) \<Longrightarrow> c \<notin> set p"
proof (induction s arbitrary: p)
  case (Cons x xs)
  obtain q qs where q: "split_on c xs = q # qs" by (meson split_on_nonempty neq_Nil_conv)
  then show ?case using Cons by (auto split: if_splits)
qed simp

lemma join_split: "join_on c (split_on c s) = s"
proof (induction s)
  case (Cons x xs)
  obtain q qs where q: "split_on c xs = q # qs" by (meson split_on_nonempty neq_Nil_conv)
  then show ?case using Cons by (cases qs) auto
qed simp

lemma split_on_plain: "c \<notin> set s \<Longrightarrow> split_on c s = [s]"
  by (induction s) auto

lemma split_on_append: "c \<notin> set s \<Longrightarrow> split_on c (s @ c # t) = s # split_on c t"
  by (induction s) auto

lemma split_on_join: "ss \<noteq> [] \<Longrightarrow> (\<And>s. s \<in> set ss \<Longrightarrow> c \<notin> set s) \<Longrightarrow> split_on c (join_on c ss) = ss"
proof (induction c ss rule: join_on.induct)
  case (3 c s t ss)
  then show ?case by (simp add: split_on_append)
qed (simp_all add: split_on_plain)

end
