(* ===== verification/Slug.thy ===== *)
theory Slug
  imports JsString
begin

text \<open>
  Names that become path segments: \<open>slugify\<close> (\<open>src/src/lib/slugify.ts\<close>), \<open>assertSafeName\<close>
  (\<open>src/src/lib/validate-name.ts\<close>) and the slug functions of the plan store
  (\<open>src/src/services/plan-store/md-io.ts\<close>: \<open>assertSafePlanSlug\<close>, \<open>toSlug\<close>, \<open>parseOrder\<close>).
  Regular expressions are written as the recursive functions they denote: \<open>collapse P c\<close> replaces
  every maximal run of \<open>P\<close>-characters by one \<open>c\<close>.  The lemmas give the shape of a slug, the
  idempotence of \<open>slugify\<close>, the round trip of the order prefix, and exactly which generated slugs
  the plan store's own guard rejects.
\<close>

subsection \<open>\<open>slugify\<close>\<close>

function collapse :: "(char \<Rightarrow> bool) \<Rightarrow> char \<Rightarrow> string \<Rightarrow> string" where
  "collapse P c [] = []"
| "collapse P c (x # xs) =
     (if P x then c # collapse P c (dropWhile P xs) else x # collapse P c xs)"
  by pat_completeness auto
termination
  by (relation "measure (\<lambda>(P, c, s). length s)") (auto simp: le_imp_less_Suc length_dropWhile_le)

definition is_alnum :: "char \<Rightarrow> bool" where
  "is_alnum c \<longleftrightarrow> is_lower c \<or> is_digit c"

definition slug_char :: "char \<Rightarrow> bool" where
  "slug_char c \<longleftrightarrow> is_alnum c \<or> c = CHR ''.'' \<or> c = CHR ''-''"

definition slug_edge :: "char \<Rightarrow> bool" where
  "slug_edge c \<longleftrightarrow> c = CHR ''-'' \<or> c = CHR ''.''"

definition slugify :: "string \<Rightarrow> string" where
  "slugify name =
     (let s1 = map to_lower (js_trim name);
          s2 = collapse (\<lambda>c. is_ws c \<or> c = CHR ''_'') (CHR ''-'') s1;
          s3 = filter slug_char s2;
          s4 = collapse (\<lambda>c. c = CHR ''-'') (CHR ''-'') s3;
          s5 = rev (dropWhile slug_edge (rev (dropWhile slug_edge s4)))
      in if s5 = [] then ''unnamed'' else s5)"

definition no_double_dash :: "string \<Rightarrow> bool" where
  "no_double_dash s \<longleftrightarrow> successively (\<lambda>a b. \<not> (a = CHR ''-'' \<and> b = CHR ''-'')) s"

lemma no_double_dash_infix: "no_double_dash s \<longleftrightarrow> \<not> is_infix_of ''--'' s"
proof (induction s)
  case Nil
  then show ?case by (simp add: no_double_dash_def)
next
  case (Cons c s)
  then show ?case by (cases s) (auto simp: no_double_dash_def)
qed

lemma no_double_dash_sub: "no_double_dash (us @ s @ vs) \<Longrightarrow> no_double_dash s"
  by (auto simp: no_double_dash_def successively_append_iff)

abbreviation is_dash :: "char \<Rightarrow> bool" where
  "is_dash \<equiv> \<lambda>c. c = CHR ''-''"

abbreviation squeeze :: "string \<Rightarrow> string" where
  "squeeze \<equiv> collapse is_dash (CHR ''-'')"

lemma no_double_dash_Cons:
  "no_double_dash (x # xs) \<longleftrightarrow>
     xs = [] \<or> \<not> (x = CHR ''-'' \<and> hd xs = CHR ''-'') \<and> no_double_dash xs"
  by (simp only: no_double_dash_def successively_Cons)

lemma squeeze_hd: "s \<noteq> [] \<Longrightarrow> squeeze s \<noteq> [] \<and> hd (squeeze s) = hd s"
  by (cases s) simp_all

lemma collapse_dash_no_double: "no_double_dash (squeeze s)"
proof (induction is_dash "CHR ''-''" s rule: collapse.induct)
  case 1
  then show ?case by (simp add: no_double_dash_def)
next
  case (2 x xs)
  show ?case
  proof (cases "is_dash x")
    case True
    let ?ys = "dropWhile is_dash xs"
    have "squeeze ?ys = [] \<or> hd (squeeze ?ys) \<noteq> CHR ''-''"
    proof (cases "?ys = []")
      case False
      then have "hd ?ys \<noteq> CHR ''-''" using hd_dropWhile [OF False] by simp
      then show ?thesis using squeeze_hd [OF False] by simp
    next
      case True
      then show ?thesis by (simp only: collapse.simps) simp
    qed
    then show ?thesis using 2(1) [OF True] True by (auto simp: no_double_dash_Cons)
  next
    case False
    then show ?thesis using 2(2) [OF False] by (auto simp: no_double_dash_Cons)
  qed
qed

lemma collapse_dash_id: "no_double_dash s \<Longrightarrow> squeeze s = s"
proof (induction s)
  case Nil
  then show ?case by simp
next
  case (Cons x xs)
  then have IH: "squeeze xs = xs" by (cases xs) (auto simp: no_double_dash_Cons)
  have "is_dash x \<Longrightarrow> dropWhile is_dash xs = xs"
    using Cons.prems by (intro dropWhile_hd_id) (auto simp: no_double_dash_Cons)
  with IH show ?case by simp
qed

lemma collapse_none: "\<forall>c \<in> set s. \<not> P c \<Longrightarrow> collapse P d s = s"
  by (induction s) auto

lemma collapse_subset: "set (collapse P c s) \<subseteq> insert c (set s)"
proof (induction P c s rule: collapse.induct)
  case (2 P c x xs)
  have "set (dropWhile P xs) \<subseteq> set xs" by (auto dest: set_dropWhileD)
  then show ?case using 2 by auto
qed simp

text \<open>The shape every slug has.\<close>

definition slug_shape :: "string \<Rightarrow> bool" where
  "slug_shape s \<longleftrightarrow> s \<noteq> [] \<and> is_alnum (hd s) \<and> is_alnum (last s)
     \<and> list_all slug_char s \<and> no_double_dash s"

lemma slug_char_edge: "slug_char c \<Longrightarrow> \<not> slug_edge c \<Longrightarrow> is_alnum c"
  by (auto simp: slug_char_def slug_edge_def)

lemma is_alnum_facts [simp]:
  "is_alnum c \<Longrightarrow> \<not> is_ws c" "is_alnum c \<Longrightarrow> \<not> slug_edge c" "is_alnum c \<Longrightarrow> slug_char c"
  "is_alnum c \<Longrightarrow> to_lower c = c" "is_alnum c \<Longrightarrow> c \<noteq> CHR ''_''"
  by (auto simp: is_alnum_def slug_edge_def slug_char_def dest: is_lower_neq is_digit_neq)

lemma slug_char_facts:
  "slug_char c \<Longrightarrow> to_lower c = c" "slug_char c \<Longrightarrow> \<not> is_ws c" "slug_char c \<Longrightarrow> c \<noteq> CHR ''_''"
  by (auto simp: slug_char_def is_alnum_def dest: is_lower_neq is_digit_neq) (simp_all add: is_ws_def)

lemma slug_shapeI:
  assumes "s \<noteq> []" "\<forall>c \<in> set s. slug_char c" "\<not> slug_edge (hd s)" "\<not> slug_edge (last s)"
    "no_double_dash s"
  shows "slug_shape s"
proof -
  have "slug_char (hd s)" "slug_char (last s)" using assms(1,2) by simp_all
  then have "is_alnum (hd s)" "is_alnum (last s)"
    using assms(3,4) slug_char_edge by blast+
  with assms show ?thesis unfolding slug_shape_def list_all_iff by blast
qed

lemma unnamed_shape: "slug_shape ''unnamed''"
  by code_simp

lemma slugify_slug_shape: "slug_shape (slugify name)"
proof -
  let ?s3 = "filter slug_char (collapse (\<lambda>c. is_ws c \<or> c = CHR ''_'') (CHR ''-'')
      (map to_lower (js_trim name)))"
  let ?s4 = "collapse (\<lambda>c. c = CHR ''-'') (CHR ''-'') ?s3"
  let ?s5 = "rev (dropWhile slug_edge (rev (dropWhile slug_edge ?s4)))"
  have eq: "slugify name = (if ?s5 = [] then ''unnamed'' else ?s5)"
    by (simp only: slugify_def Let_def)
  have chars4: "\<forall>c \<in> set ?s4. slug_char c"
  proof
    fix c assume "c \<in> set ?s4"
    then have "c = CHR ''-'' \<or> c \<in> set ?s3"
      using collapse_subset [of "\<lambda>c. c = CHR ''-''" "CHR ''-''" ?s3] by blast
    then show "slug_char c" by (auto simp: slug_char_def)
  qed
  have "slug_shape ?s5" if ne: "?s5 \<noteq> []"
  proof -
    have chars5: "\<forall>c \<in> set ?s5. slug_char c"
      using chars4 strip_both_subset [of slug_edge ?s4] by blast
    obtain us vs where "?s4 = us @ ?s5 @ vs"
      using strip_both_sublist [of ?s4 slug_edge] by blast
    with collapse_dash_no_double [of ?s3] have "no_double_dash (us @ ?s5 @ vs)"
      by (rule subst [where P = no_double_dash, rotated])
    then have dd: "no_double_dash ?s5" by (rule no_double_dash_sub)
    show ?thesis
      by (rule slug_shapeI [OF ne chars5 strip_both_ends [OF ne] dd])
  qed
  then show ?thesis unfolding eq using unnamed_shape by simp
qed

lemma slug_shape_fixed:
  assumes "slug_shape s"
  shows "slugify s = s"
proof -
  from assms have ne: "s \<noteq> []" and ends: "is_alnum (hd s)" "is_alnum (last s)"
    and chars: "\<forall>c \<in> set s. slug_char c" and dd: "no_double_dash s"
    by (auto simp: slug_shape_def list_all_iff)
  have 1: "map to_lower (js_trim s) = s"
    using ends chars by (simp add: js_trim_id slug_char_facts map_idI)
  have 2: "collapse (\<lambda>c. is_ws c \<or> c = CHR ''_'') (CHR ''-'') s = s"
    by (rule collapse_none) (use chars slug_char_facts in blast)
  have 3: "filter slug_char s = s" using chars by (simp add: filter_id_conv)
  have 5: "rev (dropWhile slug_edge (rev (dropWhile slug_edge s))) = s"
    by (rule strip_both_id) (use ends in auto)
  show ?thesis
    unfolding slugify_def Let_def 1 2 3 collapse_dash_id [OF dd] 5 using ne by simp
qed

text \<open>Whatever the name, the slug is non-empty, lower-case alphanumeric with single dashes and
  dots inside, starts and ends alphanumeric, and slugifying it again changes nothing.\<close>

theorem slugify_shape_idempotent:
  "slug_shape (slugify name) \<and> slugify (slugify name) = slugify name"
  using slugify_slug_shape slug_shape_fixed by blast

subsection \<open>Plan slugs\<close>

datatype slug_error = SlugEmpty | SlugPattern | SlugDots

definition plan_slug_char :: "char \<Rightarrow> bool" where
  "plan_slug_char c \<longleftrightarrow> is_alnum c \<or> c \<in> {CHR ''.'', CHR ''_'', CHR ''-''}"

definition assertSafePlanSlug :: "string \<Rightarrow> slug_error + unit" where
  "assertSafePlanSlug slug =
     (if slug = [] then Inl SlugEmpty
      else if \<not> (is_alnum (hd slug) \<and> list_all plan_slug_char (tl slug)) then Inl SlugPattern
      else if is_infix_of ''..'' slug \<or> CHR 0x00 \<in> set slug then Inl SlugDots
      else Inr ())"

definition padStart2 :: "string \<Rightarrow> string" where
  "padStart2 s = replicate (2 - length s) (CHR ''0'') @ s"

definition toSlug :: "int \<Rightarrow> string \<Rightarrow> string" where
  "toSlug order title = padStart2 (str_of_int order) @ ''-'' @ slugify title"

definition parseOrder :: "string \<Rightarrow> int" where
  "parseOrder slug =
     (let ds = takeWhile is_digit slug; rest = dropWhile is_digit slug
      in if ds \<noteq> [] \<and> rest \<noteq> [] \<and> hd rest = CHR ''-'' then int (nat_of_str ds) else 0)"

lemma padStart2_digits: "\<forall>c \<in> set (padStart2 (str_of_nat n)). is_digit c"
  using str_of_nat_digits [of n] by (auto simp: padStart2_def is_digit_def [of "CHR ''0''"] digits10_def)

lemma toSlug_nat: "0 \<le> order \<Longrightarrow> toSlug order title =
    padStart2 (str_of_nat (nat order)) @ CHR ''-'' # slugify title"
  by (simp add: toSlug_def str_of_int_def)

lemma padStart2_nonempty [simp]: "padStart2 (str_of_nat n) \<noteq> []"
  by (simp add: padStart2_def)

lemma dash_not_digit: "\<not> is_digit CHR ''-''"
  using is_digit_neq by blast

lemma toSlug_split:
  assumes "0 \<le> order"
  shows "takeWhile is_digit (toSlug order title) = padStart2 (str_of_nat (nat order))"
    and "dropWhile is_digit (toSlug order title) = CHR ''-'' # slugify title"
  using padStart2_digits [of "nat order"]
  by (simp_all add: toSlug_nat [OF assms] takeWhile_append2 dropWhile_append2 dash_not_digit)

text \<open>The order that \<open>toSlug\<close> writes into a slug is the order \<open>parseOrder\<close> reads back.\<close>

theorem parseOrder_toSlug:
  assumes "0 \<le> order"
  shows "parseOrder (toSlug order title) = order"
  unfolding parseOrder_def Let_def toSlug_split [OF assms]
  using assms by (simp add: padStart2_def nat_of_str_zeros nat_of_str_str_of_nat)

theorem parseOrder_toSlug_witness: "parseOrder (toSlug 7 ''Ship it'') = 7"
  by (rule parseOrder_toSlug) simp

lemma infix_dots_skip:
  "CHR ''.'' \<notin> set ds \<Longrightarrow> is_infix_of ''..'' (ds @ CHR ''-'' # s) = is_infix_of ''..'' s"
proof (induction ds)
  case Nil
  then show ?case by simp
next
  case (Cons d ds)
  then show ?case by simp
qed

text \<open>The plan store's guard accepts a slug the plan store itself generated exactly when the
  slugified title has no two dots in a row.  A title with an ellipsis creates an entity every later
  read, update and delete of which is refused.\<close>

theorem toSlug_accepted_iff:
  assumes "0 \<le> order"
  shows "assertSafePlanSlug (toSlug order title) = Inr () \<longleftrightarrow> \<not> is_infix_of ''..'' (slugify title)"
proof -
  let ?ds = "padStart2 (str_of_nat (nat order))"
  have digits: "\<forall>c \<in> set ?ds. is_digit c" by (rule padStart2_digits)
  have shape: "list_all slug_char (slugify title)"
    using slugify_slug_shape [of title] by (simp add: slug_shape_def)
  have "is_alnum (hd ?ds)"
    using digits padStart2_nonempty by (metis is_alnum_def hd_in_set)
  moreover have "list_all plan_slug_char (tl ?ds)"
    using digits by (cases ?ds) (auto simp: list_all_iff plan_slug_char_def is_alnum_def)
  moreover have "list_all plan_slug_char (slugify title)"
    using shape by (auto simp: list_all_iff slug_char_def plan_slug_char_def)
  moreover have "CHR ''.'' \<notin> set ?ds" using digits is_digit_neq by blast
  moreover have "CHR 0x00 \<notin> set ?ds" using digits is_digit_neq by blast
  moreover have "CHR 0x00 \<notin> set (slugify title)"
    using shape by (auto simp: list_all_iff slug_char_def is_alnum_def dest: is_lower_neq is_digit_neq)
  ultimately show ?thesis
    by (simp add: assertSafePlanSlug_def toSlug_nat [OF assms] infix_dots_skip plan_slug_char_def)
qed

theorem toSlug_accepted_iff_witness:
  "assertSafePlanSlug (toSlug 3 ''Wait... what'') \<noteq> Inr ()
   \<and> assertSafePlanSlug (toSlug 3 ''Wait, what'') = Inr ()"
proof -
  have s: "slugify ''Wait... what'' = ''wait...-what''" "slugify ''Wait, what'' = ''wait-what''"
    by code_simp+
  show ?thesis
    using toSlug_accepted_iff [of 3 "''Wait... what''"] toSlug_accepted_iff [of 3 "''Wait, what''"]
    by (simp add: s)
qed

subsection \<open>\<open>assertSafeName\<close>\<close>

datatype name_error = NameNotString | NameSeparator | NameDotOrNul

definition assertSafeName :: "jval option \<Rightarrow> name_error + string" where
  "assertSafeName v =
     (case v of
        Some (JStr name) \<Rightarrow>
          if name = [] then Inl NameNotString
          else if CHR ''/'' \<in> set name \<or> CHR 0x5C \<in> set name \<or> is_infix_of ''..'' name
                  \<or> name = ''.'' \<or> name = ''..'' then Inl NameSeparator
          else if hd name = CHR ''.'' \<or> CHR 0x00 \<in> set name then Inl NameDotOrNul
          else Inr name
      | _ \<Rightarrow> Inl NameNotString)"

lemma assertSafeName_Inr:
  "assertSafeName v = Inr n \<Longrightarrow> v = Some (JStr n) \<and> n \<noteq> [] \<and> hd n \<noteq> CHR ''.''
     \<and> set n \<inter> {CHR ''/'', CHR 0x5C, CHR 0x00} = {} \<and> \<not> is_infix_of ''..'' n"
  by (auto simp: assertSafeName_def split: option.splits jval.splits if_splits)

text \<open>\<open>path.join(dir, n)\<close> for one segment \<open>n\<close> stays one level below \<open>dir\<close>: the segments of a
  path, split at both separators.\<close>

fun path_segments :: "string \<Rightarrow> string list" where
  "path_segments [] = [[]]"
| "path_segments (c # s) =
     (if c = CHR ''/'' \<or> c = CHR 0x5C then [] # path_segments s
      else (case path_segments s of [] \<Rightarrow> [[c]] | seg # segs \<Rightarrow> (c # seg) # segs))"

lemma path_segments_single:
  "set n \<inter> {CHR ''/'', CHR 0x5C} = {} \<Longrightarrow> path_segments n = [n]"
  by (induction n) auto

text \<open>A name that \<open>assertSafeName\<close> or \<open>assertSafePlanSlug\<close> lets through is exactly one path
  segment, is not \<open>.\<close> or \<open>..\<close>, does not start with a dot and has no NUL byte, so joining it to a
  directory cannot leave that directory or reach a dotfile.\<close>

theorem safe_names_stay_inside:
  assumes "assertSafeName v = Inr n \<or> assertSafePlanSlug n = Inr ()"
  shows "path_segments n = [n] \<and> n \<noteq> [] \<and> hd n \<noteq> CHR ''.'' \<and> CHR 0x00 \<notin> set n
    \<and> \<not> is_infix_of ''..'' n"
  using assms
proof
  assume "assertSafeName v = Inr n"
  from assertSafeName_Inr [OF this] show ?thesis by (auto intro: path_segments_single)
next
  assume ok: "assertSafePlanSlug n = Inr ()"
  then have ne: "n \<noteq> []" and hd: "is_alnum (hd n)" and tl: "list_all plan_slug_char (tl n)"
    and rest: "\<not> is_infix_of ''..'' n" "CHR 0x00 \<notin> set n"
    by (auto simp: assertSafePlanSlug_def split: if_splits)
  have chars: "\<forall>c \<in> set n. plan_slug_char c"
    using ne hd tl by (cases n) (auto simp: list_all_iff plan_slug_char_def)
  then have "set n \<inter> {CHR ''/'', CHR 0x5C} = {}"
    by (auto simp: plan_slug_char_def is_alnum_def dest: is_lower_neq is_digit_neq)
  moreover have "hd n \<noteq> CHR ''.''" using hd by (auto simp: is_alnum_def dest: is_lower_neq is_digit_neq)
  ultimately show ?thesis using ne rest path_segments_single by blast
qed

theorem safe_names_stay_inside_witness:
  "path_segments ''00-core'' = [''00-core'']"
  using safe_names_stay_inside [of "Some (JStr ''00-core'')" "''00-core''"]
  by (simp add: assertSafeName_def)

end
