(* ===== verification/MdIo.thy ===== *)
theory MdIo
  imports Slug
begin

text \<open>
  The text layer of the plan store, \<open>src/src/services/plan-store/md-io.ts\<close>: a plan entity is a
  markdown file with a YAML block on top.  The \<open>yaml\<close> package is not part of the repository, so
  its two functions are parameters: \<open>yparse\<close> (\<open>None\<close> where it throws) and \<open>ystringify\<close>.  The lazy
  regular expression of \<open>parseMd\<close> stops at the first line that starts with three dashes, which
  \<open>split_first\<close> computes.  The lemmas show that a written file is read back, which files the
  directory listing sees, and that \<open>sanitizeYamlEscapes\<close> leaves only legal escapes.
\<close>

type_synonym yaml_parse = "string \<Rightarrow> jval option"
type_synonym yaml_stringify = "jobj \<Rightarrow> string"

subsection \<open>\<open>sanitizeYamlEscapes\<close>\<close>

abbreviation bslash :: char where "bslash \<equiv> CHR 0x5C"
abbreviation dquote :: char where "dquote \<equiv> CHR 0x22"
abbreviation newline :: char where "newline \<equiv> CHR 0x0A"

definition VALID_DQ_ESCAPE :: "string" where
  "VALID_DQ_ESCAPE = ''0abtnvfre'' @ [dquote, CHR ''/'', bslash] @ ''N_LPxuU '' @ [CHR 0x09, newline]"

text \<open>The inside of a double-quoted string that starts here, up to its closing quote: characters
  other than quote and backslash, or a backslash and any character but a newline.\<close>

fun quoted_span :: "string \<Rightarrow> (string \<times> string) option" where
  "quoted_span [] = None"
| "quoted_span (c # s) =
     (if c = dquote then Some ([], s)
      else if c = bslash then
        (case s of [] \<Rightarrow> None
         | d # s' \<Rightarrow> if d = newline then None
                    else map_option (\<lambda>(i, r). (c # d # i, r)) (quoted_span s'))
      else map_option (\<lambda>(i, r). (c # i, r)) (quoted_span s))"

fun fix_escapes :: "string \<Rightarrow> string" where
  "fix_escapes [] = []"
| "fix_escapes [c] = [c]"
| "fix_escapes (c # d # s) =
     (if c = bslash \<and> d \<noteq> newline then
        (if d \<in> set VALID_DQ_ESCAPE then c # d # fix_escapes s
         else bslash # bslash # d # fix_escapes s)
      else c # fix_escapes (d # s))"

lemma quoted_span_shorter:
  "quoted_span s = Some (i, r) \<Longrightarrow> length r < length s"
  by (induction s arbitrary: i r rule: quoted_span.induct)
     (force split: if_splits list.splits)+

function sanitizeYamlEscapes :: "string \<Rightarrow> string" where
  "sanitizeYamlEscapes [] = []"
| "sanitizeYamlEscapes (c # s) =
     (if c = dquote then
        (case quoted_span s of
           Some (inner, rest) \<Rightarrow> dquote # fix_escapes inner @ dquote # sanitizeYamlEscapes rest
         | None \<Rightarrow> c # sanitizeYamlEscapes s)
      else c # sanitizeYamlEscapes s)"
  by pat_completeness auto
termination
  by (relation "measure length") (auto dest: quoted_span_shorter)

subsection \<open>Composing and parsing\<close>

fun split_first :: "string \<Rightarrow> string \<Rightarrow> (string \<times> string) option" where
  "split_first pat [] = (if pat = [] then Some ([], []) else None)"
| "split_first pat (c # s) =
     (if is_prefix_of pat (c # s) then Some ([], drop (length pat) (c # s))
      else map_option (\<lambda>(a, b). (c # a, b)) (split_first pat s))"

definition fence_open :: string where "fence_open = ''---'' @ [newline]"
definition fence_close :: string where "fence_close = newline # ''---''"

definition composeMdContent :: "yaml_stringify \<Rightarrow> (string \<times> jval option) list \<Rightarrow> string \<Rightarrow> string" where
  "composeMdContent ystringify frontmatter body =
     (let clean = [(k, v). (k, Some v) \<leftarrow> frontmatter];
          yaml = js_trim (ystringify clean)
      in if body \<noteq> [] then fence_open @ yaml @ fence_close @ [newline, newline] @ body @ [newline]
         else fence_open @ yaml @ fence_close @ [newline])"

text \<open>A frontmatter value that is not a mapping has none of the keys the callers read.\<close>

fun fm_get :: "jval \<Rightarrow> string \<Rightarrow> jval option" where
  "fm_get (JObj ob) k = map_of ob k"
| "fm_get _ k = None"

definition parseMd :: "yaml_parse \<Rightarrow> string \<Rightarrow> jval \<times> string" where
  "parseMd yparse content =
     (if \<not> is_prefix_of fence_open content then (JObj [], content)
      else case split_first fence_close (drop 4 content) of
          None \<Rightarrow> (JObj [], content)
        | Some (yamlSrc, after) \<Rightarrow>
            let body = js_trim (case after of c # s \<Rightarrow> if c = newline then s else after | [] \<Rightarrow> [])
            in (case yparse yamlSrc of
                  Some v \<Rightarrow> (nullish (Some v) (JObj []), body)
                | None \<Rightarrow> (case yparse (sanitizeYamlEscapes yamlSrc) of
                      Some v \<Rightarrow> (nullish (Some v) (JObj []), body)
                    | None \<Rightarrow> (JObj [], body))))"

definition hasYamlFrontmatter :: "string option \<Rightarrow> bool" where
  "hasYamlFrontmatter content =
     (case content of None \<Rightarrow> False
      | Some c \<Rightarrow> let head = take 8192 c
                 in is_prefix_of fence_open head \<and> split_first fence_close (drop 4 head) \<noteq> None)"

lemma split_first_infix: "split_first pat s \<noteq> None \<longleftrightarrow> is_infix_of pat s"
  by (induction s) auto

lemma split_first_append:
  assumes "\<not> is_infix_of pat (xs @ butlast pat)" "pat \<noteq> []"
  shows "split_first pat (xs @ pat @ ys) = Some (xs, ys)"
  using assms(1)
proof (induction xs)
  case Nil
  have "is_prefix_of pat (pat @ ys)" by (auto simp: is_prefix_of_iff)
  then show ?case using assms(2) by (cases pat) auto
next
  case (Cons x xs)
  have n: "\<not> is_prefix_of pat (x # xs @ butlast pat)" and i: "\<not> is_infix_of pat (xs @ butlast pat)"
    using Cons.prems by auto
  have "\<not> is_prefix_of pat (x # xs @ pat @ ys)"
  proof
    assume "is_prefix_of pat (x # xs @ pat @ ys)"
    then obtain zs where "pat @ zs = x # xs @ pat @ ys" by (auto simp: is_prefix_of_iff)
    then have "take (length pat) (x # xs @ pat @ ys) = pat" by (metis append_eq_conv_conj)
    moreover have "take (length pat) (x # xs @ pat @ ys) = take (length pat) (x # xs @ butlast pat)"
      using assms(2) by (cases pat rule: rev_cases) auto
    ultimately have "x # xs @ butlast pat = pat @ drop (length pat) (x # xs @ butlast pat)"
      by (metis append_take_drop_id)
    then show False using n is_prefix_of_iff by metis
  qed
  then show ?case using Cons.IH [OF i] by simp
qed

lemma fence_close_no_overlap:
  "\<not> is_infix_of fence_close yaml \<Longrightarrow> \<not> is_infix_of fence_close (yaml @ butlast fence_close)"
proof (induction yaml)
  case Nil
  then show ?case by (simp add: fence_close_def)
next
  case (Cons c s)
  have "\<not> is_prefix_of fence_close (c # s)" using Cons.prems by simp
  then have "\<not> is_prefix_of fence_close (c # s @ butlast fence_close)"
    unfolding fence_close_def
    by (cases s; cases "tl s"; cases "tl (tl s)") auto
  with Cons show ?case by simp
qed

lemma split_first_yaml:
  "\<not> is_infix_of fence_close yaml \<Longrightarrow>
     split_first fence_close (yaml @ fence_close @ ys) = Some (yaml, ys)"
  by (rule split_first_append [OF fence_close_no_overlap]) (simp_all add: fence_close_def)

definition clean_fm :: "(string \<times> jval option) list \<Rightarrow> jobj" where
  "clean_fm fm = [(k, v). (k, Some v) \<leftarrow> fm]"

lemma composeMd_alt:
  "composeMdContent ys fm body =
     fence_open @ js_trim (ys (clean_fm fm)) @ fence_close @ newline #
       (if body \<noteq> [] then newline # body @ [newline] else [])"
  by (simp add: composeMdContent_def clean_fm_def Let_def)

lemma drop_fence_open: "drop 4 (fence_open @ s) = s"
  by (simp add: fence_open_def)

lemma js_trim_newlines: "js_trim (newline # s @ [newline]) = js_trim s"
proof -
  have n: "is_ws newline" by (simp add: is_ws_def)
  show ?thesis
  proof (cases "dropWhile is_ws s = []")
    case True
    then have "\<forall>c \<in> set (s @ [newline]). is_ws c" using n by (simp add: dropWhile_eq_Nil_conv)
    then have "dropWhile is_ws (s @ [newline]) = []" by (simp only: dropWhile_eq_Nil_conv)
    then have "js_trim (newline # s @ [newline]) = []" using n unfolding js_trim_def by simp
    moreover have "js_trim s = []" unfolding js_trim_def True by simp
    ultimately show ?thesis by simp
  next
    case False
    then obtain c where "c \<in> set s" "\<not> is_ws c" by (auto simp: dropWhile_eq_Nil_conv)
    then have "dropWhile is_ws (s @ [newline]) = dropWhile is_ws s @ [newline]"
      by (rule dropWhile_append1)
    then show ?thesis using n unfolding js_trim_def by simp
  qed
qed

text \<open>C40: what \<open>writeMd\<close> composes, \<open>parseMd\<close> reads back: the frontmatter without its undefined
  entries and the trimmed body, provided the YAML library reads its own trimmed output and that
  output has no line starting with three dashes.\<close>

theorem parseMd_composeMdContent:
  assumes "yparse (js_trim (ystringify (clean_fm fm))) = Some (JObj (clean_fm fm))"
    and "\<not> is_infix_of fence_close (js_trim (ystringify (clean_fm fm)))"
  shows "parseMd yparse (composeMdContent ystringify fm body) = (JObj (clean_fm fm), js_trim body)"
proof -
  let ?y = "js_trim (ystringify (clean_fm fm))"
  let ?after = "newline # (if body \<noteq> [] then newline # body @ [newline] else [])"
  have p: "is_prefix_of fence_open (fence_open @ s)" for s by (auto simp: is_prefix_of_iff)
  have "split_first fence_close (drop 4 (composeMdContent ystringify fm body)) = Some (?y, ?after)"
    unfolding composeMd_alt drop_fence_open by (rule split_first_yaml [OF assms(2)])
  then show ?thesis
    using assms(1) p unfolding parseMd_def composeMd_alt
    by (auto simp: js_trim_newlines)
qed

theorem parseMd_composeMdContent_witness:
  "parseMd (\<lambda>s. if s = ''title: A'' then Some (JObj [(''title'', JStr ''A'')]) else None)
     (composeMdContent (\<lambda>fm. ''title: A'' @ [newline])
        [(''title'', Some (JStr ''A'')), (''risk'', None)] ''Body'')
   = (JObj [(''title'', JStr ''A'')], ''Body'')"
proof -
  have t: "js_trim (''title: A'' @ [newline]) = ''title: A''" "js_trim ''Body'' = ''Body''"
    by (simp_all add: js_trim_def is_ws_def)
  have c: "clean_fm [(''title'', Some (JStr ''A'')), (''risk'', None)] = [(''title'', JStr ''A'')]"
    by (simp add: clean_fm_def)
  show ?thesis
    using parseMd_composeMdContent [of
        "\<lambda>s. if s = ''title: A'' then Some (JObj [(''title'', JStr ''A'')]) else None"
        "\<lambda>fm. ''title: A'' @ [newline]" "[(''title'', Some (JStr ''A'')), (''risk'', None)]" "''Body''"]
    unfolding t c by (simp add: fence_close_def)
qed

lemma is_infix_of_take: "is_infix_of pat (take n s) \<Longrightarrow> is_infix_of pat s"
  by (metis append_assoc append_take_drop_id is_infix_of_iff)

lemma take_fence_open: "is_prefix_of fence_open (take 8192 (fence_open @ s))"
  by (auto simp: is_prefix_of_iff fence_open_def)

text \<open>A written file is seen by the directory listing exactly when its YAML block fits the
  first 8192 characters.  A plan task whose frontmatter grows past that (for instance by a long
  \<open>verification_output\<close>) disappears from the plan although its file is intact.\<close>

theorem hasYamlFrontmatter_composeMdContent:
  assumes "\<not> is_infix_of fence_close (js_trim (ystringify (clean_fm fm)))"
  shows "hasYamlFrontmatter (Some (composeMdContent ystringify fm body)) \<longleftrightarrow>
    length (js_trim (ystringify (clean_fm fm))) \<le> 8184"
proof -
  let ?y = "js_trim (ystringify (clean_fm fm))"
  let ?after = "newline # (if body \<noteq> [] then newline # body @ [newline] else [])"
  have head: "drop 4 (take 8192 (composeMdContent ystringify fm body)) =
      take 8188 (?y @ fence_close @ ?after)"
    unfolding composeMd_alt by (simp add: fence_open_def)
  have pre: "is_prefix_of fence_open (take 8192 (composeMdContent ystringify fm body))"
    unfolding composeMd_alt by (rule take_fence_open)
  have "is_infix_of fence_close (take 8188 (?y @ fence_close @ ?after)) \<longleftrightarrow> length ?y \<le> 8184"
  proof (cases "length ?y \<le> 8184")
    case True
    then have "take 8188 (?y @ fence_close @ ?after) =
        ?y @ fence_close @ take (8184 - length ?y) ?after"
      by (simp add: fence_close_def take_Cons')
    then show ?thesis using True by (auto simp: is_infix_of_iff)
  next
    case False
    then have "take 8188 (?y @ fence_close @ ?after) = take 8188 (?y @ butlast fence_close)"
      by (simp add: fence_close_def take_Cons')
    moreover have "\<not> is_infix_of fence_close (take 8188 (?y @ butlast fence_close))"
      using fence_close_no_overlap [OF assms] is_infix_of_take by blast
    ultimately show ?thesis using False by simp
  qed
  then have "split_first fence_close (drop 4 (take 8192 (composeMdContent ystringify fm body))) \<noteq> None
      \<longleftrightarrow> length ?y \<le> 8184"
    unfolding head split_first_infix .
  then show ?thesis
    unfolding hasYamlFrontmatter_def Let_def option.case using pre by blast
qed

theorem hasYamlFrontmatter_composeMdContent_witness:
  "\<not> hasYamlFrontmatter (Some (composeMdContent (\<lambda>fm. replicate 8185 CHR ''x'') [] ''Body''))
   \<and> hasYamlFrontmatter (Some (composeMdContent (\<lambda>fm. replicate 8184 CHR ''x'') [] ''Body''))"
proof -
  have trim: "js_trim (replicate n CHR ''x'') = replicate n CHR ''x''" for n
    by (rule js_trim_id) (cases n, simp_all add: is_ws_def last_replicate)
  have inf: "\<not> is_infix_of fence_close (replicate n CHR ''x'')" for n
    by (induction n) (simp_all add: fence_close_def)
  show ?thesis
    using hasYamlFrontmatter_composeMdContent [of "\<lambda>fm. replicate 8185 CHR ''x''" "[]" "''Body''"]
      hasYamlFrontmatter_composeMdContent [of "\<lambda>fm. replicate 8184 CHR ''x''" "[]" "''Body''"]
    unfolding trim by (simp add: inf)
qed

subsection \<open>Escapes\<close>

text \<open>Every backslash starts a legal escape, or stands before a newline or at the very end.\<close>

fun escapes_ok :: "string \<Rightarrow> bool" where
  "escapes_ok [] = True"
| "escapes_ok [c] = True"
| "escapes_ok (c # d # s) =
     (if c = bslash \<and> d \<noteq> newline then d \<in> set VALID_DQ_ESCAPE \<and> escapes_ok s
      else escapes_ok (d # s))"

lemma bslash_valid: "bslash \<in> set VALID_DQ_ESCAPE" by (simp add: VALID_DQ_ESCAPE_def)

lemma dquote_valid: "dquote \<in> set VALID_DQ_ESCAPE" by (simp add: VALID_DQ_ESCAPE_def)

lemma escapes_ok_other: "c \<noteq> bslash \<Longrightarrow> escapes_ok (c # s) = escapes_ok s"
  by (cases s) simp_all

lemma fix_escapes_other: "c \<noteq> bslash \<Longrightarrow> fix_escapes (c # s) = c # fix_escapes s"
  by (cases s) simp_all

lemma escapes_ok_fix: "escapes_ok (fix_escapes s)"
proof (induction s rule: fix_escapes.induct)
  case (3 c d s)
  consider (valid) "c = bslash" "d \<noteq> newline" "d \<in> set VALID_DQ_ESCAPE"
    | (invalid) "c = bslash" "d \<noteq> newline" "d \<notin> set VALID_DQ_ESCAPE"
    | (stray) "c = bslash" "d = newline" | (other) "c \<noteq> bslash" by blast
  then show ?case
  proof cases
    case valid
    then show ?thesis using 3(1) by simp
  next
    case invalid
    then have "d \<noteq> bslash" using bslash_valid by auto
    then show ?thesis using 3(2) invalid bslash_valid by (simp add: escapes_ok_other)
  next
    case stray
    then show ?thesis using 3(3) by (simp add: fix_escapes_other)
  next
    case other
    then show ?thesis using 3(3) by (simp add: escapes_ok_other)
  qed
qed simp_all

lemma fix_escapes_id: "escapes_ok s \<Longrightarrow> fix_escapes s = s"
  by (induction s rule: escapes_ok.induct) (auto split: if_splits)

text \<open>The inside of a quoted string: no bare quote, no backslash before a newline or the end.\<close>

fun span_ok :: "string \<Rightarrow> bool" where
  "span_ok [] = True"
| "span_ok (c # s) =
     (c \<noteq> dquote \<and>
      (if c = bslash then (case s of [] \<Rightarrow> False | d # s' \<Rightarrow> d \<noteq> newline \<and> span_ok s')
       else span_ok s))"

lemma quoted_span_Some:
  "quoted_span s = Some (i, r) \<Longrightarrow> s = i @ dquote # r \<and> span_ok i"
  by (induction s arbitrary: i r rule: quoted_span.induct)
     (force split: if_splits list.splits)+

lemma quoted_span_ok: "span_ok i \<Longrightarrow> quoted_span (i @ dquote # r) = Some (i, r)"
  by (induction i rule: span_ok.induct) (auto split: list.splits if_splits)

lemma span_ok_fix: "span_ok s \<Longrightarrow> span_ok (fix_escapes s)"
proof (induction s rule: fix_escapes.induct)
  case (3 c d s)
  then show ?case using bslash_valid dquote_valid by (auto split: if_splits)
qed (auto split: if_splits)

lemma quoted_span_fix:
  assumes "quoted_span s = Some (i, r)"
  shows "quoted_span (fix_escapes i @ dquote # r') = Some (fix_escapes i, r')"
  using quoted_span_Some [OF assms] by (intro quoted_span_ok span_ok_fix) simp

lemma quoted_span_None_sanitize:
  "quoted_span s = None \<Longrightarrow> quoted_span (sanitizeYamlEscapes s) = None"
proof (induction s rule: quoted_span.induct)
  case 1
  then show ?case by simp
next
  case (2 c s)
  then have c: "c \<noteq> dquote" by auto
  show ?case
  proof (cases "c = bslash")
    case False
    with 2 c show ?thesis by simp
  next
    case True
    show ?thesis
    proof (cases s)
      case Nil
      with True show ?thesis by simp
    next
      case (Cons d s')
      show ?thesis
      proof (cases "d = newline")
        case True
        with \<open>c = bslash\<close> Cons show ?thesis by simp
      next
        case False
        with 2(3) True Cons have n: "quoted_span s' = None" by simp
        have "quoted_span (sanitizeYamlEscapes s') = None"
          using 2(1) [OF c True Cons False n] .
        with n c True Cons False show ?thesis by simp
      qed
    qed
  qed
qed

text \<open>The quoted strings of a text, left to right, as the scan of \<open>sanitizeYamlEscapes\<close> finds them.\<close>

function quoted_spans :: "string \<Rightarrow> string list" where
  "quoted_spans [] = []"
| "quoted_spans (c # s) =
     (if c = dquote then
        (case quoted_span s of Some (inner, rest) \<Rightarrow> inner # quoted_spans rest
         | None \<Rightarrow> quoted_spans s)
      else quoted_spans s)"
  by pat_completeness auto
termination
  by (relation "measure length") (auto dest: quoted_span_shorter)

lemma sanitize_spans:
  "list_all escapes_ok (quoted_spans (sanitizeYamlEscapes s))
   \<and> sanitizeYamlEscapes (sanitizeYamlEscapes s) = sanitizeYamlEscapes s"
proof (induction s rule: sanitizeYamlEscapes.induct)
  case 1
  then show ?case by simp
next
  case (2 c s)
  show ?case
  proof (cases "c = dquote")
    case False
    then show ?thesis using 2(3) by simp
  next
    case True
    show ?thesis
    proof (cases "quoted_span s")
      case None
      then show ?thesis using 2(1) [OF True None] True quoted_span_None_sanitize [OF None] by simp
    next
      case (Some ir)
      obtain i r where ir: "ir = (i, r)" by (cases ir)
      have fix2: "fix_escapes (fix_escapes i) = fix_escapes i"
        by (rule fix_escapes_id [OF escapes_ok_fix])
      show ?thesis
        using 2(2) [OF True Some ir [symmetric]] Some True ir escapes_ok_fix [of i]
        by (simp add: quoted_span_fix [OF Some [unfolded ir]] fix2)
    qed
  qed
qed

text \<open>After \<open>sanitizeYamlEscapes\<close> every double-quoted string of the text has only escapes YAML
  knows, and sanitizing again changes nothing, so the retry of \<open>parseMd\<close> is worth one attempt only.\<close>

theorem sanitizeYamlEscapes_legal:
  "list_all escapes_ok (quoted_spans (sanitizeYamlEscapes s))
   \<and> sanitizeYamlEscapes (sanitizeYamlEscapes s) = sanitizeYamlEscapes s"
  by (rule sanitize_spans)

end
