(* ===== verification/PlanFs.thy ===== *)
theory PlanFs
  imports MdIo
begin

text \<open>
  The directory tree the plan store works on.  A plan directory (\<open>getPlanDir\<close>: the
  \<open>.flockctl/plan\<close> of a project) is a list of named entries; an entry is a directory or a markdown
  file, held as what \<open>parseMd\<close> reads from it: its frontmatter, if it has a YAML block, and its body.
  (That a written file is read back like this is \<open>parseMd_composeMdContent\<close>; the model assumes
  blocks below the listing's 8 KiB bound, see \<open>hasYamlFrontmatter_composeMdContent\<close>.)

  \<open>fs_get\<close>, \<open>fs_put\<close> and \<open>fs_del\<close> are \<open>existsSync\<close>/\<open>readFileSync\<close>, \<open>mkdirSync(recursive)\<close> with
  \<open>writeFileAtomic\<close>, and \<open>rmSync(recursive)\<close> on a path of segments.  The locale \<open>path_store\<close> is their
  contract; \<open>plan_paths\<close> interprets it.
\<close>

datatype fsnode = FFile "jobj option" string | FDir "(string \<times> fsnode) list"

type_synonym plan_dir = "(string \<times> fsnode) list"

fun fs_get :: "plan_dir \<Rightarrow> string list \<Rightarrow> fsnode option" where
  "fs_get es [] = Some (FDir es)"
| "fs_get es (x # xs) =
     (case map_of es x of
        None \<Rightarrow> None
      | Some (FDir es') \<Rightarrow> fs_get es' xs
      | Some (FFile fm b) \<Rightarrow> if xs = [] then Some (FFile fm b) else None)"

definition sub_dir :: "plan_dir \<Rightarrow> string \<Rightarrow> plan_dir" where
  "sub_dir es x = (case map_of es x of Some (FDir es') \<Rightarrow> es' | _ \<Rightarrow> [])"

fun fs_put :: "string list \<Rightarrow> fsnode \<Rightarrow> plan_dir \<Rightarrow> plan_dir" where
  "fs_put [] n es = es"
| "fs_put [x] n es = AList.update x n es"
| "fs_put (x # y # xs) n es = AList.update x (FDir (fs_put (y # xs) n (sub_dir es x))) es"

fun fs_del :: "string list \<Rightarrow> plan_dir \<Rightarrow> plan_dir" where
  "fs_del [] es = es"
| "fs_del [x] es = AList.delete x es"
| "fs_del (x # y # xs) es =
     (case map_of es x of
        Some (FDir es') \<Rightarrow> AList.update x (FDir (fs_del (y # xs) es')) es
      | _ \<Rightarrow> es)"

definition is_file :: "fsnode option \<Rightarrow> bool" where
  "is_file n \<longleftrightarrow> (case n of Some (FFile _ _) \<Rightarrow> True | _ \<Rightarrow> False)"

lemma fs_get_single: "fs_get es [x] = map_of es x"
  by (auto split: option.splits fsnode.splits)

lemma fs_get_Cons2: "fs_get es (x # y # xs) = fs_get (sub_dir es x) (y # xs)"
  by (auto simp: sub_dir_def split: option.splits fsnode.splits)

lemma sub_dir_update: "sub_dir (AList.update x n es) y =
    (if y = x then (case n of FDir es' \<Rightarrow> es' | _ \<Rightarrow> []) else sub_dir es y)"
  by (auto simp: sub_dir_def jm_get_set split: fsnode.splits)

lemma sub_dir_delete: "sub_dir (AList.delete x es) y = (if y = x then [] else sub_dir es y)"
  by (auto simp: sub_dir_def jm_get_del)

lemma fs_get_put_same:
  assumes "p \<noteq> []"
  shows "fs_get (fs_put p n es) p = Some n"
  using assms
proof (induction p n es rule: fs_put.induct)
  case (2 x n es)
  then show ?case by (simp add: fs_get_single jm_get_set del: fs_get.simps)
next
  case (3 x y xs n es)
  then show ?case by (simp add: fs_get_Cons2 sub_dir_update del: fs_get.simps)
qed simp

text \<open>Two paths are unrelated when neither is a prefix of the other.\<close>

definition apart :: "string list \<Rightarrow> string list \<Rightarrow> bool" where
  "apart p q \<longleftrightarrow> \<not> is_prefix_of p q \<and> \<not> is_prefix_of q p"

lemma apart_Cons: "apart (x # p) (y # q) \<longleftrightarrow> x \<noteq> y \<or> apart p q"
  by (auto simp: apart_def)

lemma apart_Nil [simp]: "\<not> apart [] q" "\<not> apart p []"
  by (auto simp: apart_def)

lemma fs_get_other_head: "map_of es' x = map_of es x \<Longrightarrow> fs_get es' (x # xs) = fs_get es (x # xs)"
  by simp

lemma fs_get_put_apart:
  assumes "apart p q"
  shows "fs_get (fs_put p n es) q = fs_get es q"
  using assms
proof (induction p n es arbitrary: q rule: fs_put.induct)
  case (2 x n es)
  then show ?case by (cases q) (auto simp: apart_Cons jm_get_set)
next
  case (3 x y xs n es)
  then obtain z zs where q: "q = z # zs" by (cases q) auto
  show ?case
  proof (cases "z = x")
    case False
    then show ?thesis by (auto simp: q jm_get_set)
  next
    case True
    with 3(2) q have a: "apart (y # xs) zs" by (simp add: apart_Cons)
    then obtain w ws where zs: "zs = w # ws" by (cases zs) auto
    have "fs_get (fs_put (x # y # xs) n es) q = fs_get (fs_put (y # xs) n (sub_dir es x)) (w # ws)"
      using True by (simp add: q zs fs_get_Cons2 sub_dir_update del: fs_get.simps)
    also have "\<dots> = fs_get (sub_dir es x) (w # ws)" using 3(1) [OF a] zs by simp
    also have "\<dots> = fs_get es q" using True by (simp add: q zs fs_get_Cons2 del: fs_get.simps)
    finally show ?thesis .
  qed
qed simp

lemma fs_get_del_same: "p \<noteq> [] \<Longrightarrow> fs_get (fs_del p es) p = None"
proof (induction p es rule: fs_del.induct)
  case (2 x es)
  then show ?case by (simp add: jm_get_del)
next
  case (3 x y xs es)
  then show ?case by (auto simp: jm_get_set split: option.splits fsnode.splits)
qed simp

lemma fs_get_del_apart: "apart p q \<Longrightarrow> fs_get (fs_del p es) q = fs_get es q"
proof (induction p es arbitrary: q rule: fs_del.induct)
  case (2 x es)
  then show ?case by (cases q) (auto simp: apart_Cons jm_get_del)
next
  case (3 x y xs es)
  then obtain z zs where q: "q = z # zs" by (cases q) auto
  then show ?case
    using 3 by (auto simp: apart_Cons jm_get_set split: option.splits fsnode.splits)
qed simp

lemma fs_get_extend: "fs_get es (p @ q) =
    (case fs_get es p of Some (FDir es') \<Rightarrow> fs_get es' q
     | Some (FFile fm b) \<Rightarrow> if q = [] then Some (FFile fm b) else None | None \<Rightarrow> None)"
proof (induction p arbitrary: es)
  case Nil
  then show ?case by simp
next
  case (Cons x p)
  then show ?case by (auto split: option.splits fsnode.splits)
qed

declare fs_get.simps(2) [simp del]

subsection \<open>The contract\<close>

locale path_store =
  fixes rd :: "'s \<Rightarrow> 'p \<Rightarrow> 'n option"
    and wr :: "'p \<Rightarrow> 'n \<Rightarrow> 's \<Rightarrow> 's"
    and rm :: "'p \<Rightarrow> 's \<Rightarrow> 's"
    and indep :: "'p \<Rightarrow> 'p \<Rightarrow> bool"
    and proper :: "'p \<Rightarrow> bool"
  assumes rd_wr: "proper p \<Longrightarrow> rd (wr p n s) p = Some n"
    and rd_wr_indep: "indep p q \<Longrightarrow> rd (wr p n s) q = rd s q"
    and rd_rm: "proper p \<Longrightarrow> rd (rm p s) p = None"
    and rd_rm_indep: "indep p q \<Longrightarrow> rd (rm p s) q = rd s q"
begin

lemma wr_wr: "proper p \<Longrightarrow> rd (wr p n' (wr p n s)) p = Some n'"
  by (rule rd_wr)

lemma wr_then_other:
  "proper q \<Longrightarrow> indep p q \<Longrightarrow> rd (wr p n (wr q m s)) q = Some m"
  by (simp only: rd_wr_indep rd_wr)

lemma wrs_frame:
  "(\<And>p n. (p, n) \<in> set pns \<Longrightarrow> indep p q) \<Longrightarrow> rd (fold (\<lambda>(p, n). wr p n) pns s) q = rd s q"
proof (induction pns arbitrary: s)
  case Nil
  then show ?case by simp
next
  case (Cons pn pns)
  obtain p n where pn: "pn = (p, n)" by (cases pn)
  have "indep p q" using Cons.prems [of p n] pn by simp
  then have "rd (wr p n s) q = rd s q" by (rule rd_wr_indep)
  moreover have "rd (fold (\<lambda>(p, n). wr p n) pns (wr p n s)) q = rd (wr p n s) q"
    by (rule Cons.IH [OF Cons.prems [OF list.set_intros(2)]])
  ultimately show ?case using pn by simp
qed

end

interpretation plan_paths: path_store fs_get fs_put fs_del apart "\<lambda>p. p \<noteq> []"
  by unfold_locales
     (rule fs_get_put_same fs_get_put_apart fs_get_del_same fs_get_del_apart, assumption)+

end
