(* ===== verification/PlanStore.thy ===== *)
theory PlanStore
  imports PlanFs TaskStatus
begin

text \<open>
  The plan store, \<open>src/src/services/plan-store/\<close>: milestones, slices and plan tasks as markdown
  files (\<open>milestones.ts\<close>, \<open>slices.ts\<close>, \<open>tasks.ts\<close>), the directory helpers of \<open>md-io.ts\<close>, the
  mission id check of \<open>schema.ts\<close> and the SQLite inverse index from execution tasks to plan tasks
  (\<open>execution-index.ts\<close>).

  An entity is a record with the fields of its interface in \<open>types.ts\<close>; what the reader passes
  through unchecked from the YAML stays a \<open>jval\<close>.  A \<open>Partial\<close> argument is a record of options.
  \<open>pstore\<close> holds the plan directories by project path, the rows of the project table and the rows
  of \<open>plan_task_execution_index\<close> (its \<open>updated_at\<close> column is never read and left out).  The clock
  (\<open>new Date().toISOString()\<close>) is the argument \<open>now\<close>.  A value outside the declared TypeScript type
  where the code would call a method on it is \<open>PlanTypeError\<close>.
\<close>

datatype plan_error =
  BadSlug slug_error | NotFound | NoFile | NotADirectory | BadMissionId | PlanTypeError

subsection \<open>Entities\<close>

record milestone =
  ms_slug :: string
  ms_title :: jval
  ms_status :: jval
  ms_order :: jval
  ms_vision :: "jval option"
  ms_successCriteria :: "jval option"
  ms_dependsOn :: "jval option"
  ms_keyRisks :: "jval option"
  ms_proofStrategy :: "jval option"
  ms_boundaryMapMarkdown :: "jval option"
  ms_verificationContract :: "jval option"
  ms_verificationIntegration :: "jval option"
  ms_verificationOperational :: "jval option"
  ms_verificationUat :: "jval option"
  ms_definitionOfDone :: "jval option"
  ms_specRequired :: "jval option"
  ms_missionId :: "jval option"
  ms_description :: "string option"
  ms_createdAt :: "jval option"
  ms_updatedAt :: "jval option"

record slice =
  sl_slug :: string
  sl_milestoneSlug :: string
  sl_title :: jval
  sl_status :: jval
  sl_order :: jval
  sl_risk :: "jval option"
  sl_depends :: "jval option"
  sl_goal :: "jval option"
  sl_demo :: "jval option"
  sl_successCriteria :: "jval option"
  sl_proofLevel :: "jval option"
  sl_integrationClosure :: "jval option"
  sl_observabilityImpact :: "jval option"
  sl_threatSurface :: "jval option"
  sl_description :: "string option"
  sl_createdAt :: "jval option"
  sl_updatedAt :: "jval option"

record plan_task =
  pt_slug :: string
  pt_milestoneSlug :: string
  pt_sliceSlug :: string
  pt_title :: jval
  pt_status :: jval
  pt_order :: jval
  pt_model :: "jval option"
  pt_estimate :: "jval option"
  pt_files :: "jval option"
  pt_verify :: "jval option"
  pt_depends :: "jval option"
  pt_inputs :: "jval option"
  pt_expectedOutput :: "jval option"
  pt_executionTaskId :: "jval option"
  pt_output :: "jval option"
  pt_summary :: "jval option"
  pt_verificationPassed :: "jval option"
  pt_verificationOutput :: "jval option"
  pt_failureModes :: "jval option"
  pt_negativeTests :: "jval option"
  pt_observabilityImpact :: "jval option"
  pt_description :: "string option"
  pt_createdAt :: "jval option"
  pt_updatedAt :: "jval option"

text \<open>The \<open>Partial\<close> records the create and update operations take; \<open>None\<close> is \<open>undefined\<close>.\<close>

record milestone_patch =
  mp_title :: "jval option"
  mp_status :: "jval option"
  mp_order :: "jval option"
  mp_vision :: "jval option"
  mp_successCriteria :: "jval option"
  mp_dependsOn :: "jval option"
  mp_keyRisks :: "jval option"
  mp_proofStrategy :: "jval option"
  mp_boundaryMapMarkdown :: "jval option"
  mp_verificationContract :: "jval option"
  mp_verificationIntegration :: "jval option"
  mp_verificationOperational :: "jval option"
  mp_verificationUat :: "jval option"
  mp_definitionOfDone :: "jval option"
  mp_specRequired :: "jval option"
  mp_missionId :: "jval option"
  mp_description :: "string option"

record slice_patch =
  sp_title :: "jval option"
  sp_status :: "jval option"
  sp_order :: "jval option"
  sp_risk :: "jval option"
  sp_depends :: "jval option"
  sp_goal :: "jval option"
  sp_demo :: "jval option"
  sp_successCriteria :: "jval option"
  sp_proofLevel :: "jval option"
  sp_integrationClosure :: "jval option"
  sp_observabilityImpact :: "jval option"
  sp_threatSurface :: "jval option"
  sp_description :: "string option"

record task_patch =
  tp_title :: "jval option"
  tp_status :: "jval option"
  tp_order :: "jval option"
  tp_model :: "jval option"
  tp_estimate :: "jval option"
  tp_files :: "jval option"
  tp_verify :: "jval option"
  tp_depends :: "jval option"
  tp_inputs :: "jval option"
  tp_expectedOutput :: "jval option"
  tp_executionTaskId :: "jval option"
  tp_output :: "jval option"
  tp_summary :: "jval option"
  tp_verificationPassed :: "jval option"
  tp_verificationOutput :: "jval option"
  tp_failureModes :: "jval option"
  tp_negativeTests :: "jval option"
  tp_observabilityImpact :: "jval option"
  tp_description :: "string option"

definition no_milestone_patch :: milestone_patch where
  "no_milestone_patch = \<lparr>mp_title = None, mp_status = None, mp_order = None, mp_vision = None,
     mp_successCriteria = None, mp_dependsOn = None, mp_keyRisks = None,
     mp_proofStrategy = None, mp_boundaryMapMarkdown = None,
     mp_verificationContract = None, mp_verificationIntegration = None,
     mp_verificationOperational = None, mp_verificationUat = None,
     mp_definitionOfDone = None, mp_specRequired = None, mp_missionId = None,
     mp_description = None\<rparr>"

definition no_slice_patch :: slice_patch where
  "no_slice_patch = \<lparr>sp_title = None, sp_status = None, sp_order = None, sp_risk = None,
     sp_depends = None, sp_goal = None, sp_demo = None, sp_successCriteria = None,
     sp_proofLevel = None, sp_integrationClosure = None, sp_observabilityImpact = None,
     sp_threatSurface = None, sp_description = None\<rparr>"

definition no_task_patch :: task_patch where
  "no_task_patch = \<lparr>tp_title = None, tp_status = None, tp_order = None, tp_model = None,
     tp_estimate = None, tp_files = None, tp_verify = None, tp_depends = None,
     tp_inputs = None, tp_expectedOutput = None, tp_executionTaskId = None,
     tp_output = None, tp_summary = None, tp_verificationPassed = None,
     tp_verificationOutput = None, tp_failureModes = None, tp_negativeTests = None,
     tp_observabilityImpact = None, tp_description = None\<rparr>"

text \<open>Spreading the defined entries of a patch over an existing object.\<close>

definition over :: "'a option \<Rightarrow> 'a option \<Rightarrow> 'a option" where
  "over p e = (case p of None \<Rightarrow> e | Some v \<Rightarrow> Some v)"

definition over1 :: "'a option \<Rightarrow> 'a \<Rightarrow> 'a" where
  "over1 p e = (case p of None \<Rightarrow> e | Some v \<Rightarrow> v)"

lemma over_simps [simp]: "over None e = e" "over (Some v) e = Some v"
  "over1 None x = x" "over1 (Some y) x = y"
  by (simp_all add: over_def over1_def)

subsection \<open>Frontmatter mapping\<close>

text \<open>\<open>MISSION_ID_REGEX\<close> is \<open>/^[a-f0-9]{8,40}$/i\<close>.\<close>

definition mission_char :: "char \<Rightarrow> bool" where
  "mission_char c \<longleftrightarrow> is_digit c \<or> to_lower c \<in> set ''abcdef''"

definition parseMissionId :: "jval option \<Rightarrow> plan_error + jval option" where
  "parseMissionId raw =
     (case raw of
        None \<Rightarrow> Inr None
      | Some JNull \<Rightarrow> Inr None
      | Some (JStr s) \<Rightarrow>
          if 8 \<le> length s \<and> length s \<le> 40 \<and> list_all mission_char s then Inr (Some (JStr s))
          else Inl BadMissionId
      | Some _ \<Rightarrow> Inl BadMissionId)"

definition spec_required_of :: "jval option \<Rightarrow> jval" where
  "spec_required_of v = (case v of Some (JBool b) \<Rightarrow> JBool b | _ \<Rightarrow> JBool False)"

definition milestoneFromFile :: "string \<Rightarrow> jval \<Rightarrow> string \<Rightarrow> plan_error + milestone" where
  "milestoneFromFile slug fm body =
     bind_err (parseMissionId (fm_get fm ''mission_id'')) (\<lambda>missionId. Inr
    \<lparr>ms_slug = slug, ms_title = nullish (fm_get fm ''title'') (JStr slug),
     ms_status = nullish (fm_get fm ''status'') (JStr ''pending''),
     ms_order = nullish (fm_get fm ''order'') (JNum (parseOrder slug)),
     ms_vision = fm_get fm ''vision'',
     ms_successCriteria = fm_get fm ''success_criteria'',
     ms_dependsOn = fm_get fm ''depends_on'', ms_keyRisks = fm_get fm ''key_risks'',
     ms_proofStrategy = fm_get fm ''proof_strategy'',
     ms_boundaryMapMarkdown = fm_get fm ''boundary_map_markdown'',
     ms_verificationContract = fm_get fm ''verification_contract'',
     ms_verificationIntegration = fm_get fm ''verification_integration'',
     ms_verificationOperational = fm_get fm ''verification_operational'',
     ms_verificationUat = fm_get fm ''verification_uat'',
     ms_definitionOfDone = fm_get fm ''definition_of_done'',
     ms_specRequired = Some (spec_required_of (fm_get fm ''spec_required'')),
     ms_missionId = missionId, ms_description = (if body = [] then None else Some body),
     ms_createdAt = fm_get fm ''created_at'', ms_updatedAt = fm_get fm ''updated_at''\<rparr>)"

definition milestoneToFrontmatter :: "milestone \<Rightarrow> (string \<times> jval option) list" where
  "milestoneToFrontmatter d =
    [(''title'', Some (ms_title d)), (''status'', Some (ms_status d)),
     (''order'', Some (ms_order d)), (''vision'', ms_vision d),
     (''success_criteria'', ms_successCriteria d), (''depends_on'', ms_dependsOn d),
     (''key_risks'', ms_keyRisks d), (''proof_strategy'', ms_proofStrategy d),
     (''boundary_map_markdown'', ms_boundaryMapMarkdown d),
     (''verification_contract'', ms_verificationContract d),
     (''verification_integration'', ms_verificationIntegration d),
     (''verification_operational'', ms_verificationOperational d),
     (''verification_uat'', ms_verificationUat d),
     (''definition_of_done'', ms_definitionOfDone d),
     (''spec_required'', ms_specRequired d), (''mission_id'', ms_missionId d),
     (''created_at'', ms_createdAt d), (''updated_at'', ms_updatedAt d)]"

definition sliceFromFile :: "string \<Rightarrow> string \<Rightarrow> jval \<Rightarrow> string \<Rightarrow> slice" where
  "sliceFromFile slug milestoneSlug fm body =
    \<lparr>sl_slug = slug, sl_milestoneSlug = milestoneSlug,
     sl_title = nullish (fm_get fm ''title'') (JStr slug),
     sl_status = nullish (fm_get fm ''status'') (JStr ''pending''),
     sl_order = nullish (fm_get fm ''order'') (JNum (parseOrder slug)),
     sl_risk = fm_get fm ''risk'', sl_depends = fm_get fm ''depends'',
     sl_goal = fm_get fm ''goal'', sl_demo = fm_get fm ''demo'',
     sl_successCriteria = fm_get fm ''success_criteria'',
     sl_proofLevel = fm_get fm ''proof_level'',
     sl_integrationClosure = fm_get fm ''integration_closure'',
     sl_observabilityImpact = fm_get fm ''observability_impact'',
     sl_threatSurface = fm_get fm ''threat_surface'',
     sl_description = (if body = [] then None else Some body),
     sl_createdAt = fm_get fm ''created_at'', sl_updatedAt = fm_get fm ''updated_at''\<rparr>"

definition sliceToFrontmatter :: "slice \<Rightarrow> (string \<times> jval option) list" where
  "sliceToFrontmatter d =
    [(''title'', Some (sl_title d)), (''status'', Some (sl_status d)),
     (''order'', Some (sl_order d)), (''risk'', sl_risk d), (''depends'', sl_depends d),
     (''goal'', sl_goal d), (''demo'', sl_demo d),
     (''success_criteria'', sl_successCriteria d), (''proof_level'', sl_proofLevel d),
     (''integration_closure'', sl_integrationClosure d),
     (''observability_impact'', sl_observabilityImpact d),
     (''threat_surface'', sl_threatSurface d), (''created_at'', sl_createdAt d),
     (''updated_at'', sl_updatedAt d)]"

definition taskFromFile :: "string \<Rightarrow> string \<Rightarrow> string \<Rightarrow> jval \<Rightarrow> string \<Rightarrow> plan_task" where
  "taskFromFile slug milestoneSlug sliceSlug fm body =
    \<lparr>pt_slug = slug, pt_milestoneSlug = milestoneSlug, pt_sliceSlug = sliceSlug,
     pt_title = nullish (fm_get fm ''title'') (JStr slug),
     pt_status = nullish (fm_get fm ''status'') (JStr ''pending''),
     pt_order = nullish (fm_get fm ''order'') (JNum (parseOrder slug)),
     pt_model = fm_get fm ''model'', pt_estimate = fm_get fm ''estimate'',
     pt_files = fm_get fm ''files'', pt_verify = fm_get fm ''verify'',
     pt_depends = fm_get fm ''depends'', pt_inputs = fm_get fm ''inputs'',
     pt_expectedOutput = fm_get fm ''expected_output'',
     pt_executionTaskId = fm_get fm ''execution_task_id'',
     pt_output = fm_get fm ''output'', pt_summary = fm_get fm ''summary'',
     pt_verificationPassed = fm_get fm ''verification_passed'',
     pt_verificationOutput = fm_get fm ''verification_output'',
     pt_failureModes = fm_get fm ''failure_modes'',
     pt_negativeTests = fm_get fm ''negative_tests'',
     pt_observabilityImpact = fm_get fm ''observability_impact'',
     pt_description = (if body = [] then None else Some body),
     pt_createdAt = fm_get fm ''created_at'', pt_updatedAt = fm_get fm ''updated_at''\<rparr>"

definition taskToFrontmatter :: "plan_task \<Rightarrow> (string \<times> jval option) list" where
  "taskToFrontmatter d =
    [(''title'', Some (pt_title d)), (''status'', Some (pt_status d)),
     (''order'', Some (pt_order d)), (''model'', pt_model d),
     (''estimate'', pt_estimate d), (''files'', pt_files d), (''verify'', pt_verify d),
     (''depends'', pt_depends d), (''inputs'', pt_inputs d),
     (''expected_output'', pt_expectedOutput d),
     (''execution_task_id'', pt_executionTaskId d), (''output'', pt_output d),
     (''summary'', pt_summary d), (''verification_passed'', pt_verificationPassed d),
     (''verification_output'', pt_verificationOutput d),
     (''failure_modes'', pt_failureModes d), (''negative_tests'', pt_negativeTests d),
     (''observability_impact'', pt_observabilityImpact d),
     (''created_at'', pt_createdAt d), (''updated_at'', pt_updatedAt d)]"

subsection \<open>Directory helpers\<close>

definition ends_with :: "string \<Rightarrow> string \<Rightarrow> bool" where
  "ends_with suf s = is_prefix_of (rev suf) (rev s)"

definition node_is_dir :: "fsnode \<Rightarrow> bool" where
  "node_is_dir n = (case n of FDir _ \<Rightarrow> True | _ \<Rightarrow> False)"

text \<open>The names \<open>readdirSync\<close> returns whose entry passes a test.\<close>

definition names_of :: "(string \<Rightarrow> fsnode \<Rightarrow> bool) \<Rightarrow> plan_dir \<Rightarrow> string list" where
  "names_of P d = filter (\<lambda>name. case map_of d name of None \<Rightarrow> False | Some n \<Rightarrow> P name n) (map fst d)"

definition sortedDirs :: "plan_dir \<Rightarrow> string list \<Rightarrow> plan_error + string list" where
  "sortedDirs es parentDir =
     (case fs_get es parentDir of
        None \<Rightarrow> Inr []
      | Some (FFile _ _) \<Rightarrow> Inl NotADirectory
      | Some (FDir d) \<Rightarrow> Inr (sort (names_of (\<lambda>_ n. node_is_dir n) d)))"

definition is_plan_md :: "string \<Rightarrow> fsnode \<Rightarrow> bool" where
  "is_plan_md name n = (case n of
       FFile (Some _) _ \<Rightarrow> ends_with ''.md'' name \<and> name \<noteq> ''slice.md''
     | _ \<Rightarrow> False)"

definition sortedMdFiles :: "plan_dir \<Rightarrow> string list \<Rightarrow> plan_error + string list" where
  "sortedMdFiles es parentDir =
     (case fs_get es parentDir of
        None \<Rightarrow> Inr []
      | Some (FFile _ _) \<Rightarrow> Inl NotADirectory
      | Some (FDir d) \<Rightarrow> Inr (sort (names_of is_plan_md d)))"

definition nextOrder :: "plan_dir \<Rightarrow> string list \<Rightarrow> bool \<Rightarrow> plan_error + int" where
  "nextOrder es parentDir isDirs =
     bind_err (if isDirs then sortedDirs es parentDir else sortedMdFiles es parentDir)
       (\<lambda>entries. Inr (if entries = [] then 0 else parseOrder (last entries) + 1))"

definition numbered :: "string \<Rightarrow> nat \<Rightarrow> string" where
  "numbered slug i = slug @ ''-'' @ str_of_nat i"

lemma numbered_inj: "numbered slug i = numbered slug j \<longleftrightarrow> i = j"
  by (simp add: numbered_def str_of_nat_inj)

lemma finite_taken: "finite {j. numbered slug j \<in> set taken}"
proof (rule finite_imageD [where f = "numbered slug"])
  show "finite (numbered slug ` {j. numbered slug j \<in> set taken})"
    by (rule finite_subset [of _ "set taken"]) auto
  show "inj_on (numbered slug) {j. numbered slug j \<in> set taken}"
    by (auto simp: inj_on_def numbered_inj)
qed

text \<open>The loop of \<open>dedupeSlug\<close>; \<open>taken\<close> are the names in use.  It ends because each round skips a
  number whose name is taken, and only finitely many are.\<close>

function dedupe_loop :: "string list \<Rightarrow> string \<Rightarrow> nat \<Rightarrow> nat" where
  "dedupe_loop taken slug i =
     (if numbered slug i \<in> set taken then dedupe_loop taken slug (Suc i) else i)"
  by pat_completeness auto
termination
proof (relation "measure (\<lambda>(taken, slug, i). card {j. i \<le> j \<and> numbered slug j \<in> set taken})")
  fix taken :: "string list" and slug :: string and i
  assume t: "numbered slug i \<in> set taken"
  have "i \<in> {j. i \<le> j \<and> numbered slug j \<in> set taken}"
    "i \<notin> {j. Suc i \<le> j \<and> numbered slug j \<in> set taken}" using t by simp_all
  then have "{j. Suc i \<le> j \<and> numbered slug j \<in> set taken} \<subset> {j. i \<le> j \<and> numbered slug j \<in> set taken}"
    by (intro psubsetI) (blast dest: Suc_leD, metis)
  moreover have "finite {j. i \<le> j \<and> numbered slug j \<in> set taken}"
    by (rule finite_subset [OF _ finite_taken [of slug taken]]) auto
  ultimately show "((taken, slug, Suc i), taken, slug, i)
      \<in> measure (\<lambda>(taken, slug, i). card {j. i \<le> j \<and> numbered slug j \<in> set taken})"
    by (simp add: psubset_card_mono)
qed simp

declare dedupe_loop.simps [simp del]

definition child_names :: "plan_dir \<Rightarrow> string list \<Rightarrow> string list" where
  "child_names es p = (case fs_get es p of Some (FDir d) \<Rightarrow> map fst d | _ \<Rightarrow> [])"

text \<open>\<open>check\<close> tests \<open>slug\<close> itself for a directory and \<open>slug.md\<close> for a file.\<close>

definition taken_slugs :: "plan_dir \<Rightarrow> string list \<Rightarrow> bool \<Rightarrow> string list" where
  "taken_slugs es parentDir isDir =
     (if isDir then child_names es parentDir
      else map (\<lambda>n. take (length n - 3) n) (filter (ends_with ''.md'') (child_names es parentDir)))"

definition dedupeSlug :: "plan_dir \<Rightarrow> string list \<Rightarrow> string \<Rightarrow> bool \<Rightarrow> string" where
  "dedupeSlug es parentDir slug isDir =
     (let taken = taken_slugs es parentDir isDir
      in if slug \<notin> set taken then slug else numbered slug (dedupe_loop taken slug 2))"

definition read_md :: "plan_dir \<Rightarrow> string list \<Rightarrow> plan_error + (jval \<times> string)" where
  "read_md es p =
     (case fs_get es p of
        Some (FFile (Some fm) body) \<Rightarrow> Inr (JObj fm, body)
      | Some (FFile None content) \<Rightarrow> Inr (JObj [], content)
      | _ \<Rightarrow> Inl NoFile)"

definition write_md :: "string list \<Rightarrow> (string \<times> jval option) list \<Rightarrow> string \<Rightarrow> plan_dir \<Rightarrow> plan_dir" where
  "write_md p fm body es = fs_put p (FFile (Some (clean_fm fm)) (js_trim body)) es"

definition exists_path :: "plan_dir \<Rightarrow> string list \<Rightarrow> bool" where
  "exists_path es p \<longleftrightarrow> fs_get es p \<noteq> None"

text \<open>\<open>dirs.map(f).filter(Boolean)\<close> where \<open>f\<close> may throw.\<close>

fun collect :: "(string \<Rightarrow> plan_error + 'a option) \<Rightarrow> string list \<Rightarrow> plan_error + 'a list" where
  "collect f [] = Inr []"
| "collect f (x # xs) =
     bind_err (f x) (\<lambda>r. bind_err (collect f xs) (\<lambda>rs.
       Inr (case r of None \<Rightarrow> rs | Some v \<Rightarrow> v # rs)))"

definition check_slug :: "string \<Rightarrow> plan_error + unit" where
  "check_slug s = (case assertSafePlanSlug s of Inl e \<Rightarrow> Inl (BadSlug e) | Inr u \<Rightarrow> Inr u)"

definition string_arg :: "jval \<Rightarrow> plan_error + string" where
  "string_arg v = (case v of JStr s \<Rightarrow> Inr s | _ \<Rightarrow> Inl PlanTypeError)"

definition order_arg :: "jval option \<Rightarrow> plan_error + int \<Rightarrow> plan_error + int" where
  "order_arg v dflt =
     (case v of None \<Rightarrow> dflt | Some JNull \<Rightarrow> dflt | Some (JNum n) \<Rightarrow> Inr n | Some _ \<Rightarrow> Inl PlanTypeError)"

definition desc_body :: "string option \<Rightarrow> string" where
  "desc_body d = (case d of None \<Rightarrow> [] | Some s \<Rightarrow> s)"

subsection \<open>Milestones\<close>

definition listMilestones :: "plan_dir \<Rightarrow> plan_error + milestone list" where
  "listMilestones es =
     bind_err (sortedDirs es []) (collect (\<lambda>slug.
       if \<not> exists_path es [slug, ''milestone.md''] then Inr None
       else bind_err (read_md es [slug, ''milestone.md'']) (\<lambda>(fm, body).
              bind_err (milestoneFromFile slug fm body) (\<lambda>m. Inr (Some m)))))"

definition getMilestone :: "plan_dir \<Rightarrow> string \<Rightarrow> plan_error + milestone option" where
  "getMilestone es slug =
     bind_err (check_slug slug) (\<lambda>_.
       if \<not> exists_path es [slug, ''milestone.md''] then Inr None
       else bind_err (read_md es [slug, ''milestone.md'']) (\<lambda>(fm, body).
              bind_err (milestoneFromFile slug fm body) (\<lambda>m. Inr (Some m))))"

definition createMilestone ::
  "string \<Rightarrow> milestone_patch \<Rightarrow> plan_dir \<Rightarrow> plan_error + (milestone \<times> plan_dir)" where
  "createMilestone now data es =
     bind_err (order_arg (mp_order data) (nextOrder es [] True)) (\<lambda>order.
     bind_err (string_arg (nullish (mp_title data) (JStr ''milestone''))) (\<lambda>title.
       let slug = dedupeSlug es [] (toSlug order title) True;
           full = \<lparr>ms_slug = slug, ms_title = nullish (mp_title data) (JStr ''Untitled Milestone''),
     ms_status = nullish (mp_status data) (JStr ''pending''), ms_order = JNum order,
     ms_vision = mp_vision data, ms_successCriteria = mp_successCriteria data,
     ms_dependsOn = mp_dependsOn data, ms_keyRisks = mp_keyRisks data,
     ms_proofStrategy = mp_proofStrategy data,
     ms_boundaryMapMarkdown = mp_boundaryMapMarkdown data,
     ms_verificationContract = mp_verificationContract data,
     ms_verificationIntegration = mp_verificationIntegration data,
     ms_verificationOperational = mp_verificationOperational data,
     ms_verificationUat = mp_verificationUat data,
     ms_definitionOfDone = mp_definitionOfDone data,
     ms_specRequired = Some (nullish (mp_specRequired data) (JBool True)),
     ms_missionId = mp_missionId data, ms_description = mp_description data,
     ms_createdAt = Some (JStr now), ms_updatedAt = Some (JStr now)\<rparr>
       in Inr (full, write_md [slug, ''milestone.md''] (milestoneToFrontmatter full)
                       (desc_body (ms_description full)) es)))"

definition merge_milestone :: "string \<Rightarrow> string \<Rightarrow> milestone_patch \<Rightarrow> milestone \<Rightarrow> milestone" where
  "merge_milestone now slug data e =
    e\<lparr>ms_slug := slug, ms_title := over1 (mp_title data) (ms_title e),
     ms_status := over1 (mp_status data) (ms_status e),
     ms_order := over1 (mp_order data) (ms_order e),
     ms_vision := over (mp_vision data) (ms_vision e),
     ms_successCriteria := over (mp_successCriteria data) (ms_successCriteria e),
     ms_dependsOn := over (mp_dependsOn data) (ms_dependsOn e),
     ms_keyRisks := over (mp_keyRisks data) (ms_keyRisks e),
     ms_proofStrategy := over (mp_proofStrategy data) (ms_proofStrategy e),
     ms_boundaryMapMarkdown := over (mp_boundaryMapMarkdown data) (ms_boundaryMapMarkdown e),
     ms_verificationContract := over (mp_verificationContract data) (ms_verificationContract e),
     ms_verificationIntegration := over (mp_verificationIntegration data) (ms_verificationIntegration e),
     ms_verificationOperational := over (mp_verificationOperational data) (ms_verificationOperational e),
     ms_verificationUat := over (mp_verificationUat data) (ms_verificationUat e),
     ms_definitionOfDone := over (mp_definitionOfDone data) (ms_definitionOfDone e),
     ms_specRequired := over (mp_specRequired data) (ms_specRequired e),
     ms_missionId := over (mp_missionId data) (ms_missionId e),
     ms_description := over (mp_description data) (ms_description e),
     ms_updatedAt := Some (JStr now)\<rparr>"

definition updateMilestone ::
  "string \<Rightarrow> string \<Rightarrow> milestone_patch \<Rightarrow> plan_dir \<Rightarrow> plan_error + (milestone \<times> plan_dir)" where
  "updateMilestone now slug data es =
     bind_err (check_slug slug) (\<lambda>_.
     bind_err (getMilestone es slug) (\<lambda>existing.
       case existing of None \<Rightarrow> Inl NotFound
       | Some e \<Rightarrow> let merged = merge_milestone now slug data e
                   in Inr (merged, write_md [slug, ''milestone.md''] (milestoneToFrontmatter merged)
                                     (desc_body (ms_description merged)) es)))"

definition deleteMilestone :: "string \<Rightarrow> plan_dir \<Rightarrow> plan_error + plan_dir" where
  "deleteMilestone slug es =
     bind_err (check_slug slug) (\<lambda>_.
       if \<not> exists_path es [slug] then Inl NotFound else Inr (fs_del [slug] es))"

definition findMilestoneBySlice :: "plan_dir \<Rightarrow> string \<Rightarrow> plan_error + milestone option" where
  "findMilestoneBySlice es sliceSlug =
     bind_err (listMilestones es) (\<lambda>ms.
       Inr (find (\<lambda>m. exists_path es [ms_slug m, sliceSlug, ''slice.md'']) ms))"

subsection \<open>Slices\<close>

definition listSlices :: "plan_dir \<Rightarrow> string \<Rightarrow> plan_error + slice list" where
  "listSlices es milestoneSlug =
     bind_err (check_slug milestoneSlug) (\<lambda>_.
     bind_err (sortedDirs es [milestoneSlug]) (collect (\<lambda>slug.
       if \<not> exists_path es [milestoneSlug, slug, ''slice.md''] then Inr None
       else bind_err (read_md es [milestoneSlug, slug, ''slice.md'']) (\<lambda>(fm, body).
              Inr (Some (sliceFromFile slug milestoneSlug fm body))))))"

definition getSlice :: "plan_dir \<Rightarrow> string \<Rightarrow> string \<Rightarrow> plan_error + slice option" where
  "getSlice es milestoneSlug slug =
     bind_err (check_slug milestoneSlug) (\<lambda>_. bind_err (check_slug slug) (\<lambda>_.
       if \<not> exists_path es [milestoneSlug, slug, ''slice.md''] then Inr None
       else bind_err (read_md es [milestoneSlug, slug, ''slice.md'']) (\<lambda>(fm, body).
              Inr (Some (sliceFromFile slug milestoneSlug fm body)))))"

definition createSlice ::
  "string \<Rightarrow> string \<Rightarrow> slice_patch \<Rightarrow> plan_dir \<Rightarrow> plan_error + (slice \<times> plan_dir)" where
  "createSlice now milestoneSlug data es =
     bind_err (check_slug milestoneSlug) (\<lambda>_.
     if \<not> exists_path es [milestoneSlug, ''milestone.md''] then Inl NotFound
     else
     bind_err (order_arg (sp_order data) (nextOrder es [milestoneSlug] True)) (\<lambda>order.
     bind_err (string_arg (nullish (sp_title data) (JStr ''slice''))) (\<lambda>title.
       let slug = dedupeSlug es [milestoneSlug] (toSlug order title) True;
           full = \<lparr>sl_slug = slug, sl_milestoneSlug = milestoneSlug,
     sl_title = nullish (sp_title data) (JStr ''Untitled Slice''),
     sl_status = nullish (sp_status data) (JStr ''pending''), sl_order = JNum order,
     sl_risk = sp_risk data, sl_depends = sp_depends data, sl_goal = sp_goal data,
     sl_demo = sp_demo data, sl_successCriteria = sp_successCriteria data,
     sl_proofLevel = sp_proofLevel data,
     sl_integrationClosure = sp_integrationClosure data,
     sl_observabilityImpact = sp_observabilityImpact data,
     sl_threatSurface = sp_threatSurface data, sl_description = sp_description data,
     sl_createdAt = Some (JStr now), sl_updatedAt = Some (JStr now)\<rparr>
       in Inr (full, write_md [milestoneSlug, slug, ''slice.md''] (sliceToFrontmatter full)
                       (desc_body (sl_description full)) es))))"

definition merge_slice :: "string \<Rightarrow> string \<Rightarrow> string \<Rightarrow> slice_patch \<Rightarrow> slice \<Rightarrow> slice" where
  "merge_slice now milestoneSlug slug data e =
    e\<lparr>sl_slug := slug, sl_milestoneSlug := milestoneSlug,
     sl_title := over1 (sp_title data) (sl_title e),
     sl_status := over1 (sp_status data) (sl_status e),
     sl_order := over1 (sp_order data) (sl_order e),
     sl_risk := over (sp_risk data) (sl_risk e),
     sl_depends := over (sp_depends data) (sl_depends e),
     sl_goal := over (sp_goal data) (sl_goal e),
     sl_demo := over (sp_demo data) (sl_demo e),
     sl_successCriteria := over (sp_successCriteria data) (sl_successCriteria e),
     sl_proofLevel := over (sp_proofLevel data) (sl_proofLevel e),
     sl_integrationClosure := over (sp_integrationClosure data) (sl_integrationClosure e),
     sl_observabilityImpact := over (sp_observabilityImpact data) (sl_observabilityImpact e),
     sl_threatSurface := over (sp_threatSurface data) (sl_threatSurface e),
     sl_description := over (sp_description data) (sl_description e),
     sl_updatedAt := Some (JStr now)\<rparr>"

definition updateSlice ::
  "string \<Rightarrow> string \<Rightarrow> string \<Rightarrow> slice_patch \<Rightarrow> plan_dir \<Rightarrow> plan_error + (slice \<times> plan_dir)" where
  "updateSlice now milestoneSlug slug data es =
     bind_err (check_slug milestoneSlug) (\<lambda>_. bind_err (check_slug slug) (\<lambda>_.
     bind_err (getSlice es milestoneSlug slug) (\<lambda>existing.
       case existing of None \<Rightarrow> Inl NotFound
       | Some e \<Rightarrow> let merged = merge_slice now milestoneSlug slug data e
                   in Inr (merged, write_md [milestoneSlug, slug, ''slice.md'']
                             (sliceToFrontmatter merged) (desc_body (sl_description merged)) es))))"

definition deleteSlice :: "string \<Rightarrow> string \<Rightarrow> plan_dir \<Rightarrow> plan_error + plan_dir" where
  "deleteSlice milestoneSlug slug es =
     bind_err (check_slug milestoneSlug) (\<lambda>_. bind_err (check_slug slug) (\<lambda>_.
       if \<not> exists_path es [milestoneSlug, slug] then Inl NotFound
       else Inr (fs_del [milestoneSlug, slug] es)))"

subsection \<open>Plan tasks and the execution index\<close>

record index_entry =
  ix_project :: int
  ix_milestone :: string
  ix_slice :: string
  ix_task :: string

record pstore =
  st_plans :: "(string \<times> plan_dir) list"
  st_projects :: "(int \<times> string option) list"
  st_index :: "(int \<times> index_entry) list"

definition plan_of :: "pstore \<Rightarrow> string \<Rightarrow> plan_dir" where
  "plan_of st path = (case map_of (st_plans st) path of None \<Rightarrow> [] | Some d \<Rightarrow> d)"

definition set_plan :: "string \<Rightarrow> plan_dir \<Rightarrow> pstore \<Rightarrow> pstore" where
  "set_plan path d st = st\<lparr>st_plans := AList.update path d (st_plans st)\<rparr>"

definition lookupProjectIdByPath :: "pstore \<Rightarrow> string \<Rightarrow> int option" where
  "lookupProjectIdByPath st path = map_option fst (find (\<lambda>(_, p). p = Some path) (st_projects st))"

definition setPlanTaskExecutionIndex :: "int \<Rightarrow> index_entry \<Rightarrow> pstore \<Rightarrow> pstore" where
  "setPlanTaskExecutionIndex e entry st = st\<lparr>st_index := AList.update e entry (st_index st)\<rparr>"

definition getPlanTaskExecutionIndex :: "pstore \<Rightarrow> int \<Rightarrow> index_entry option" where
  "getPlanTaskExecutionIndex st e = map_of (st_index st) e"

definition deletePlanTaskExecutionIndex :: "int \<Rightarrow> pstore \<Rightarrow> pstore" where
  "deletePlanTaskExecutionIndex e st = st\<lparr>st_index := AList.delete e (st_index st)\<rparr>"

definition deletePlanTaskExecutionIndexByLocation :: "index_entry \<Rightarrow> pstore \<Rightarrow> pstore" where
  "deletePlanTaskExecutionIndexByLocation loc st =
     st\<lparr>st_index := filter (\<lambda>(_, x). x \<noteq> loc) (st_index st)\<rparr>"

definition syncExecutionIndexForTask ::
  "string \<Rightarrow> string \<Rightarrow> string \<Rightarrow> string \<Rightarrow> jval option \<Rightarrow> pstore \<Rightarrow> pstore" where
  "syncExecutionIndexForTask path m s t execId st =
     (case lookupProjectIdByPath st path of
        None \<Rightarrow> st
      | Some pid \<Rightarrow>
          let loc = \<lparr>ix_project = pid, ix_milestone = m, ix_slice = s, ix_task = t\<rparr>
          in (case execId of
                Some (JNum e) \<Rightarrow> setPlanTaskExecutionIndex e loc st
              | _ \<Rightarrow> deletePlanTaskExecutionIndexByLocation loc st))"

definition task_file :: "string \<Rightarrow> string" where
  "task_file slug = slug @ ''.md''"

definition listPlanTasks :: "plan_dir \<Rightarrow> string \<Rightarrow> string \<Rightarrow> plan_error + plan_task list" where
  "listPlanTasks es milestoneSlug sliceSlug =
     bind_err (check_slug milestoneSlug) (\<lambda>_. bind_err (check_slug sliceSlug) (\<lambda>_.
     bind_err (sortedMdFiles es [milestoneSlug, sliceSlug]) (collect (\<lambda>name.
       let slug = take (length name - 3) name
       in bind_err (read_md es [milestoneSlug, sliceSlug, name]) (\<lambda>(fm, body).
            Inr (Some (taskFromFile slug milestoneSlug sliceSlug fm body)))))))"

definition getPlanTask ::
  "plan_dir \<Rightarrow> string \<Rightarrow> string \<Rightarrow> string \<Rightarrow> plan_error + plan_task option" where
  "getPlanTask es milestoneSlug sliceSlug slug =
     bind_err (check_slug milestoneSlug) (\<lambda>_. bind_err (check_slug sliceSlug) (\<lambda>_.
     bind_err (check_slug slug) (\<lambda>_.
       if \<not> exists_path es [milestoneSlug, sliceSlug, task_file slug] then Inr None
       else bind_err (read_md es [milestoneSlug, sliceSlug, task_file slug]) (\<lambda>(fm, body).
              Inr (Some (taskFromFile slug milestoneSlug sliceSlug fm body))))))"

definition createPlanTask ::
  "string \<Rightarrow> string \<Rightarrow> string \<Rightarrow> string \<Rightarrow> task_patch \<Rightarrow> pstore \<Rightarrow> plan_error + (plan_task \<times> pstore)" where
  "createPlanTask now path milestoneSlug sliceSlug data st =
     (let es = plan_of st path in
     bind_err (check_slug milestoneSlug) (\<lambda>_. bind_err (check_slug sliceSlug) (\<lambda>_.
     if \<not> exists_path es [milestoneSlug, sliceSlug, ''slice.md''] then Inl NotFound
     else
     bind_err (order_arg (tp_order data) (nextOrder es [milestoneSlug, sliceSlug] False)) (\<lambda>order.
     bind_err (string_arg (nullish (tp_title data) (JStr ''task''))) (\<lambda>title.
       let slug = dedupeSlug es [milestoneSlug, sliceSlug] (toSlug order title) False;
           full = \<lparr>pt_slug = slug, pt_milestoneSlug = milestoneSlug, pt_sliceSlug = sliceSlug,
     pt_title = nullish (tp_title data) (JStr ''Untitled Task''),
     pt_status = nullish (tp_status data) (JStr ''pending''), pt_order = JNum order,
     pt_model = tp_model data, pt_estimate = tp_estimate data, pt_files = tp_files data,
     pt_verify = tp_verify data, pt_depends = tp_depends data,
     pt_inputs = tp_inputs data, pt_expectedOutput = tp_expectedOutput data,
     pt_executionTaskId = tp_executionTaskId data, pt_output = tp_output data,
     pt_summary = tp_summary data, pt_verificationPassed = tp_verificationPassed data,
     pt_verificationOutput = tp_verificationOutput data,
     pt_failureModes = tp_failureModes data, pt_negativeTests = tp_negativeTests data,
     pt_observabilityImpact = tp_observabilityImpact data,
     pt_description = tp_description data, pt_createdAt = Some (JStr now),
     pt_updatedAt = Some (JStr now)\<rparr>;
           es' = write_md [milestoneSlug, sliceSlug, task_file slug] (taskToFrontmatter full)
                   (desc_body (pt_description full)) es
       in Inr (full, syncExecutionIndexForTask path milestoneSlug sliceSlug slug
                       (pt_executionTaskId full) (set_plan path es' st)))))))"

definition merge_task :: "string \<Rightarrow> string \<Rightarrow> string \<Rightarrow> string \<Rightarrow> task_patch \<Rightarrow> plan_task \<Rightarrow> plan_task" where
  "merge_task now milestoneSlug sliceSlug slug data e =
    e\<lparr>pt_slug := slug, pt_milestoneSlug := milestoneSlug, pt_sliceSlug := sliceSlug,
     pt_title := over1 (tp_title data) (pt_title e),
     pt_status := over1 (tp_status data) (pt_status e),
     pt_order := over1 (tp_order data) (pt_order e),
     pt_model := over (tp_model data) (pt_model e),
     pt_estimate := over (tp_estimate data) (pt_estimate e),
     pt_files := over (tp_files data) (pt_files e),
     pt_verify := over (tp_verify data) (pt_verify e),
     pt_depends := over (tp_depends data) (pt_depends e),
     pt_inputs := over (tp_inputs data) (pt_inputs e),
     pt_expectedOutput := over (tp_expectedOutput data) (pt_expectedOutput e),
     pt_executionTaskId := over (tp_executionTaskId data) (pt_executionTaskId e),
     pt_output := over (tp_output data) (pt_output e),
     pt_summary := over (tp_summary data) (pt_summary e),
     pt_verificationPassed := over (tp_verificationPassed data) (pt_verificationPassed e),
     pt_verificationOutput := over (tp_verificationOutput data) (pt_verificationOutput e),
     pt_failureModes := over (tp_failureModes data) (pt_failureModes e),
     pt_negativeTests := over (tp_negativeTests data) (pt_negativeTests e),
     pt_observabilityImpact := over (tp_observabilityImpact data) (pt_observabilityImpact e),
     pt_description := over (tp_description data) (pt_description e),
     pt_updatedAt := Some (JStr now)\<rparr>"

definition drop_old_index :: "jval option \<Rightarrow> jval option \<Rightarrow> pstore \<Rightarrow> pstore" where
  "drop_old_index old new st =
     (case old of
        Some (JNum e) \<Rightarrow> if old \<noteq> new then deletePlanTaskExecutionIndex e st else st
      | _ \<Rightarrow> st)"

text \<open>The tail of \<open>updatePlanTask\<close>: write the file, purge the old index row, write the new one.\<close>

definition store_task ::
  "string \<Rightarrow> string \<Rightarrow> string \<Rightarrow> string \<Rightarrow> jval option \<Rightarrow> plan_task \<Rightarrow> pstore \<Rightarrow> pstore" where
  "store_task path milestoneSlug sliceSlug slug oldExec t st =
     syncExecutionIndexForTask path milestoneSlug sliceSlug slug (pt_executionTaskId t)
       (drop_old_index oldExec (pt_executionTaskId t)
         (set_plan path
           (write_md [milestoneSlug, sliceSlug, task_file slug] (taskToFrontmatter t)
              (desc_body (pt_description t)) (plan_of st path)) st))"

definition updatePlanTask ::
  "string \<Rightarrow> string \<Rightarrow> string \<Rightarrow> string \<Rightarrow> string \<Rightarrow> task_patch \<Rightarrow> pstore
     \<Rightarrow> plan_error + (plan_task \<times> pstore)" where
  "updatePlanTask now path milestoneSlug sliceSlug slug data st =
     bind_err (check_slug milestoneSlug) (\<lambda>_. bind_err (check_slug sliceSlug) (\<lambda>_.
     bind_err (check_slug slug) (\<lambda>_.
     bind_err (getPlanTask (plan_of st path) milestoneSlug sliceSlug slug) (\<lambda>existing.
       case existing of None \<Rightarrow> Inl NotFound
       | Some e \<Rightarrow>
           let merged = merge_task now milestoneSlug sliceSlug slug data e
           in Inr (merged, store_task path milestoneSlug sliceSlug slug (pt_executionTaskId e)
                             merged st)))))"

definition deletePlanTask ::
  "string \<Rightarrow> string \<Rightarrow> string \<Rightarrow> string \<Rightarrow> pstore \<Rightarrow> plan_error + pstore" where
  "deletePlanTask path milestoneSlug sliceSlug slug st =
     (let es = plan_of st path; p = [milestoneSlug, sliceSlug, task_file slug] in
     bind_err (check_slug milestoneSlug) (\<lambda>_. bind_err (check_slug sliceSlug) (\<lambda>_.
     bind_err (check_slug slug) (\<lambda>_.
       if \<not> exists_path es p then Inl NotFound
       else bind_err (read_md es p) (\<lambda>(fm, body).
         let st1 = set_plan path (fs_del p es) st
         in Inr (case fm_get fm ''execution_task_id'' of
                   Some (JNum e) \<Rightarrow> deletePlanTaskExecutionIndex e st1
                 | _ \<Rightarrow> st1))))))"

subsection \<open>Reading back what was written\<close>

lemma clean_fm_simps [simp]:
  "clean_fm [] = []"
  "clean_fm ((k, None) # fm) = clean_fm fm"
  "clean_fm ((k, Some v) # fm) = (k, v) # clean_fm fm"
  by (simp_all add: clean_fm_def)

lemma clean_fm_keys: "fst ` set (clean_fm fm) \<subseteq> fst ` set fm"
proof (induction fm)
  case (Cons p fm)
  then show ?case by (cases p; cases "snd p") auto
qed simp

lemma map_of_clean_fm:
  "distinct (map fst fm) \<Longrightarrow> map_of (clean_fm fm) k = (case map_of fm k of None \<Rightarrow> None | Some v \<Rightarrow> v)"
proof (induction fm)
  case (Cons p fm)
  obtain k' v where p: "p = (k', v)" by (cases p)
  have "k' \<notin> fst ` set (clean_fm fm)" using Cons.prems clean_fm_keys [of fm] by (auto simp: p)
  then have none: "map_of (clean_fm fm) k' = None" by (simp add: map_of_eq_None_iff)
  show ?case using Cons none by (cases v) (auto simp: p)
qed simp

lemma js_trim_Nil: "js_trim [] = []"
  by (simp add: js_trim_def)

definition desc_ok :: "string option \<Rightarrow> bool" where
  "desc_ok d \<longleftrightarrow> (case d of None \<Rightarrow> True | Some s \<Rightarrow> s \<noteq> [] \<and> js_trim s = s)"

lemma desc_ok_body: "desc_ok d \<Longrightarrow>
    (if js_trim (desc_body d) = [] then None else Some (js_trim (desc_body d))) = d"
  by (cases d) (auto simp: desc_ok_def desc_body_def js_trim_Nil)

definition task_ok :: "plan_task \<Rightarrow> bool" where
  "task_ok t \<longleftrightarrow> pt_title t \<noteq> JNull \<and> pt_status t \<noteq> JNull \<and> pt_order t \<noteq> JNull
     \<and> desc_ok (pt_description t)"

definition slice_ok :: "slice \<Rightarrow> bool" where
  "slice_ok t \<longleftrightarrow> sl_title t \<noteq> JNull \<and> sl_status t \<noteq> JNull \<and> sl_order t \<noteq> JNull
     \<and> desc_ok (sl_description t)"

definition milestone_ok :: "milestone \<Rightarrow> bool" where
  "milestone_ok t \<longleftrightarrow> ms_title t \<noteq> JNull \<and> ms_status t \<noteq> JNull \<and> ms_order t \<noteq> JNull
     \<and> desc_ok (ms_description t) \<and> (case ms_specRequired t of Some (JBool _) \<Rightarrow> True | _ \<Rightarrow> False)
     \<and> ms_missionId t \<noteq> Some JNull \<and> parseMissionId (ms_missionId t) = Inr (ms_missionId t)"

lemma task_keys_distinct: "distinct (map fst (taskToFrontmatter t))"
  by (simp add: taskToFrontmatter_def)

lemma slice_keys_distinct: "distinct (map fst (sliceToFrontmatter t))"
  by (simp add: sliceToFrontmatter_def)

lemma milestone_keys_distinct: "distinct (map fst (milestoneToFrontmatter t))"
  by (simp add: milestoneToFrontmatter_def)

text \<open>What a file keeps of a record: a null title, status or order is read as its default, and the description is
  trimmed, an empty one being none.\<close>

definition as_stored :: "plan_task \<Rightarrow> plan_task" where
  "as_stored t = t\<lparr>
     pt_title := (if pt_title t = JNull then JStr (pt_slug t) else pt_title t),
     pt_status := (if pt_status t = JNull then JStr ''pending'' else pt_status t),
     pt_order := (if pt_order t = JNull then JNum (parseOrder (pt_slug t)) else pt_order t),
     pt_description := (let body = js_trim (desc_body (pt_description t)) in if body = [] then None else Some body)\<rparr>"

lemma as_stored_ok: "task_ok t \<Longrightarrow> as_stored t = t"
  using desc_ok_body [of "pt_description t"] by (simp add: as_stored_def task_ok_def Let_def)

lemma nullish_given: "nullish (Some v) d = (if v = JNull then d else v)"
  by (cases v) simp_all

lemma task_stored:
  "taskFromFile (pt_slug t) (pt_milestoneSlug t) (pt_sliceSlug t)
    (JObj (clean_fm (taskToFrontmatter t))) (js_trim (desc_body (pt_description t))) = as_stored t"
proof -
  have get: "fm_get (JObj (clean_fm (taskToFrontmatter t))) k =
      (case map_of (taskToFrontmatter t) k of None \<Rightarrow> None | Some v \<Rightarrow> v)" for k
    by (simp add: map_of_clean_fm [OF task_keys_distinct])
  show ?thesis
    unfolding taskFromFile_def get
    by (simp add: taskToFrontmatter_def as_stored_def nullish_given Let_def)
qed

lemma task_roundtrip:
  assumes "task_ok t"
  shows "taskFromFile (pt_slug t) (pt_milestoneSlug t) (pt_sliceSlug t)
    (JObj (clean_fm (taskToFrontmatter t))) (js_trim (desc_body (pt_description t))) = t"
  by (simp only: task_stored as_stored_ok [OF assms])

lemma slice_roundtrip:
  assumes "slice_ok t"
  shows "sliceFromFile (sl_slug t) (sl_milestoneSlug t)
    (JObj (clean_fm (sliceToFrontmatter t))) (js_trim (desc_body (sl_description t))) = t"
proof -
  have get: "fm_get (JObj (clean_fm (sliceToFrontmatter t))) k =
      (case map_of (sliceToFrontmatter t) k of None \<Rightarrow> None | Some v \<Rightarrow> v)" for k
    by (simp add: map_of_clean_fm [OF slice_keys_distinct])
  show ?thesis
    using assms desc_ok_body [of "sl_description t"]
    unfolding sliceFromFile_def get
    by (simp add: sliceToFrontmatter_def slice_ok_def nullish_Some)
qed

lemma milestone_roundtrip:
  assumes "milestone_ok t"
  shows "milestoneFromFile (ms_slug t) (JObj (clean_fm (milestoneToFrontmatter t)))
    (js_trim (desc_body (ms_description t))) = Inr t"
proof -
  have get: "fm_get (JObj (clean_fm (milestoneToFrontmatter t))) k =
      (case map_of (milestoneToFrontmatter t) k of None \<Rightarrow> None | Some v \<Rightarrow> v)" for k
    by (simp add: map_of_clean_fm [OF milestone_keys_distinct])
  show ?thesis
    using assms desc_ok_body [of "ms_description t"]
    unfolding milestoneFromFile_def get
    by (auto simp: milestoneToFrontmatter_def milestone_ok_def nullish_Some spec_required_of_def
        split: option.splits jval.splits)
qed

subsection \<open>Frames\<close>

text \<open>A read depends only on its own path.\<close>

lemma read_md_cong: "fs_get es' p = fs_get es p \<Longrightarrow> read_md es' p = read_md es p"
  by (simp add: read_md_def)

lemma getPlanTask_cong:
  assumes "fs_get es' [m, s, task_file t] = fs_get es [m, s, task_file t]"
  shows "getPlanTask es' m s t = getPlanTask es m s t"
  unfolding getPlanTask_def exists_path_def assms read_md_cong [OF assms] ..

lemma getSlice_cong:
  assumes "fs_get es' [m, s, ''slice.md''] = fs_get es [m, s, ''slice.md'']"
  shows "getSlice es' m s = getSlice es m s"
  unfolding getSlice_def exists_path_def assms read_md_cong [OF assms] ..

lemma getMilestone_cong:
  assumes "fs_get es' [m, ''milestone.md''] = fs_get es [m, ''milestone.md'']"
  shows "getMilestone es' m = getMilestone es m"
  unfolding getMilestone_def exists_path_def assms read_md_cong [OF assms] ..

lemma apart3: "apart [a, b, c] [a', b', c'] \<longleftrightarrow> (a, b, c) \<noteq> (a', b', c')"
  by (auto simp: apart_Cons)

lemma apart2: "apart [a, b] [a', b'] \<longleftrightarrow> (a, b) \<noteq> (a', b')"
  by (auto simp: apart_Cons)

lemma task_file_inj [simp]: "task_file a = task_file b \<longleftrightarrow> a = b"
  by (simp add: task_file_def)

lemma task_file_slice: "task_file a = ''slice.md'' \<longleftrightarrow> a = ''slice''"
proof -
  have "''slice.md'' = ''slice'' @ ''.md''" by simp
  then show ?thesis unfolding task_file_def by (metis append_same_eq)
qed

lemma fs_get_write_md: "p \<noteq> [] \<Longrightarrow>
    fs_get (write_md p fm b es) p = Some (FFile (Some (clean_fm fm)) (js_trim b))"
  by (simp add: write_md_def plan_paths.rd_wr)

lemma fs_get_write_md_apart: "apart p q \<Longrightarrow> fs_get (write_md p fm b es) q = fs_get es q"
  by (simp add: write_md_def plan_paths.rd_wr_indep)

lemma plan_of_set_plan: "plan_of (set_plan path d st) p = (if p = path then d else plan_of st p)"
  by (simp add: plan_of_def set_plan_def jm_get_set)

lemma index_ops_plans [simp]:
  "st_plans (setPlanTaskExecutionIndex e l st) = st_plans st"
  "st_plans (deletePlanTaskExecutionIndex e st) = st_plans st"
  "st_plans (deletePlanTaskExecutionIndexByLocation l st) = st_plans st"
  "st_projects (setPlanTaskExecutionIndex e l st) = st_projects st"
  "st_projects (deletePlanTaskExecutionIndex e st) = st_projects st"
  "st_projects (deletePlanTaskExecutionIndexByLocation l st) = st_projects st"
  "st_projects (set_plan path d st) = st_projects st"
  "st_index (set_plan path d st) = st_index st"
  by (simp_all add: setPlanTaskExecutionIndex_def deletePlanTaskExecutionIndex_def
      deletePlanTaskExecutionIndexByLocation_def set_plan_def)

lemma sync_plans [simp]:
  "st_plans (syncExecutionIndexForTask path m s t e st) = st_plans st"
  "st_projects (syncExecutionIndexForTask path m s t e st) = st_projects st"
  "st_plans (drop_old_index o1 o2 st) = st_plans st"
  "st_projects (drop_old_index o1 o2 st) = st_projects st"
  by (auto simp: syncExecutionIndexForTask_def drop_old_index_def Let_def
      split: option.splits jval.splits)

lemma plan_of_index_ops [simp]:
  "plan_of (syncExecutionIndexForTask path m s t e st) p = plan_of st p"
  "plan_of (drop_old_index o1 o2 st) p = plan_of st p"
  "plan_of (deletePlanTaskExecutionIndex x st) p = plan_of st p"
  by (simp_all add: plan_of_def)

lemma bind_err_unit: "bind_err r (\<lambda>_. f) = Inr w \<longleftrightarrow> is_ok r \<and> f = Inr w"
  by (cases r) auto

lemma updatePlanTask_Inr:
  assumes "updatePlanTask now path m s slug data st = Inr (t, st')"
  obtains e where "getPlanTask (plan_of st path) m s slug = Inr (Some e)"
    and "t = merge_task now m s slug data e"
    and "st' = syncExecutionIndexForTask path m s slug (pt_executionTaskId t)
        (drop_old_index (pt_executionTaskId e) (pt_executionTaskId t)
          (set_plan path (write_md [m, s, task_file slug] (taskToFrontmatter t)
             (desc_body (pt_description t)) (plan_of st path)) st))"
    and "check_slug m = Inr ()" and "check_slug s = Inr ()" and "check_slug slug = Inr ()"
proof -
  from assms obtain e where e: "getPlanTask (plan_of st path) m s slug = Inr (Some e)"
    and rest: "t = merge_task now m s slug data e"
    "st' = syncExecutionIndexForTask path m s slug (pt_executionTaskId t)
        (drop_old_index (pt_executionTaskId e) (pt_executionTaskId t)
          (set_plan path (write_md [m, s, task_file slug] (taskToFrontmatter t)
             (desc_body (pt_description t)) (plan_of st path)) st))"
    and ok: "is_ok (check_slug m)" "is_ok (check_slug s)" "is_ok (check_slug slug)"
    unfolding updatePlanTask_def Let_def bind_err_unit store_task_def
    by (auto simp: bind_err_Inr_iff split: option.splits)
  from ok have "check_slug m = Inr ()" "check_slug s = Inr ()" "check_slug slug = Inr ()"
    by (auto simp: is_ok_def split: sum.splits)
  with that e rest show thesis by blast
qed

lemma merge_task_keys [simp]:
  "pt_slug (merge_task now m s slug data e) = slug"
  "pt_milestoneSlug (merge_task now m s slug data e) = m"
  "pt_sliceSlug (merge_task now m s slug data e) = s"
  "pt_updatedAt (merge_task now m s slug data e) = Some (JStr now)"
  "pt_status (merge_task now m s slug data e) = over1 (tp_status data) (pt_status e)"
  "pt_executionTaskId (merge_task now m s slug data e)
     = over (tp_executionTaskId data) (pt_executionTaskId e)"
  "pt_depends (merge_task now m s slug data e) = over (tp_depends data) (pt_depends e)"
  by (simp_all add: merge_task_def)

lemma getPlanTask_written:
  assumes "pt_slug t = slug" "pt_milestoneSlug t = m" "pt_sliceSlug t = s"
    and "check_slug m = Inr ()" "check_slug s = Inr ()" "check_slug slug = Inr ()"
    and "fs_get es [m, s, task_file slug] =
      Some (FFile (Some (clean_fm (taskToFrontmatter t))) (js_trim (desc_body (pt_description t))))"
  shows "getPlanTask es m s slug = Inr (Some (as_stored t))"
  using task_stored [of t] assms
  by (simp add: getPlanTask_def exists_path_def read_md_def)

text \<open>C37: A successful \<open>updatePlanTask\<close> can be read back: what the next read of that task returns is the
  merged record, stamped with the time of the update, as a file keeps it (the description trimmed, an empty
  one gone; a null title, status or order replaced by its default), which is the record itself when its title,
  status and order are not null and its description is missing or a trimmed text that is not empty; every
  other task of the project, every slice (unless the task is called \<open>slice\<close>) and every other project are
  untouched.\<close>

theorem updatePlanTask_read_back:
  assumes "updatePlanTask now path m s slug data st = Inr (t, st')"
  shows "getPlanTask (plan_of st' path) m s slug = Inr (Some (as_stored t))
    \<and> (task_ok t \<longrightarrow> as_stored t = t)
    \<and> pt_updatedAt t = Some (JStr now)
    \<and> (\<forall>m' s' slug'. (m', s', slug') \<noteq> (m, s, slug) \<longrightarrow>
         getPlanTask (plan_of st' path) m' s' slug' = getPlanTask (plan_of st path) m' s' slug')
    \<and> (slug \<noteq> ''slice'' \<longrightarrow>
         (\<forall>m' s'. getSlice (plan_of st' path) m' s' = getSlice (plan_of st path) m' s'))
    \<and> (\<forall>p. p \<noteq> path \<longrightarrow> plan_of st' p = plan_of st p)"
proof -
  obtain e where t: "t = merge_task now m s slug data e"
    and st': "st' = syncExecutionIndexForTask path m s slug (pt_executionTaskId t)
        (drop_old_index (pt_executionTaskId e) (pt_executionTaskId t)
          (set_plan path (write_md [m, s, task_file slug] (taskToFrontmatter t)
             (desc_body (pt_description t)) (plan_of st path)) st))"
    and slugs: "check_slug m = Inr ()" "check_slug s = Inr ()" "check_slug slug = Inr ()"
    using assms by (rule updatePlanTask_Inr)
  let ?es = "write_md [m, s, task_file slug] (taskToFrontmatter t)
      (desc_body (pt_description t)) (plan_of st path)"
  have plan: "plan_of st' path = ?es" and others: "p \<noteq> path \<Longrightarrow> plan_of st' p = plan_of st p" for p
    by (simp_all add: st' plan_of_set_plan)
  have own: "getPlanTask (plan_of st' path) m s slug = Inr (Some (as_stored t))"
    unfolding plan
    by (rule getPlanTask_written [OF _ _ _ slugs]) (simp_all add: t fs_get_write_md)
  have task: "getPlanTask (plan_of st' path) m' s' slug' = getPlanTask (plan_of st path) m' s' slug'"
    if "(m', s', slug') \<noteq> (m, s, slug)" for m' s' slug'
    unfolding plan by (rule getPlanTask_cong, rule fs_get_write_md_apart) (use that in \<open>auto simp: apart3\<close>)
  have slice: "getSlice (plan_of st' path) m' s' = getSlice (plan_of st path) m' s'"
    if "slug \<noteq> ''slice''" for m' s'
    unfolding plan
    by (rule getSlice_cong, rule fs_get_write_md_apart) (use that in \<open>auto simp: apart3 task_file_slice\<close>)
  show ?thesis using own task slice others t as_stored_ok by simp
qed

definition demo_slice_dir :: plan_dir where
  "demo_slice_dir =
     [(''00-core'', FDir
        [(''milestone.md'', FFile (Some [(''title'', JStr ''Core'')]) []),
         (''00-api'', FDir
            [(''slice.md'', FFile (Some [(''title'', JStr ''API''), (''goal'', JStr ''g'')]) []),
             (''00-route.md'', FFile (Some [(''title'', JStr ''Route''),
                (''execution_task_id'', JNum 5)]) ''Do it'')])])]"

definition demo_store :: pstore where
  "demo_store = \<lparr>st_plans = [(''/p'', demo_slice_dir)], st_projects = [(1, Some ''/p'')],
     st_index = [(5, \<lparr>ix_project = 1, ix_milestone = ''00-core'', ix_slice = ''00-api'',
                      ix_task = ''00-route''\<rparr>)]\<rparr>"

definition status_patch :: "string \<Rightarrow> task_patch" where
  "status_patch s = no_task_patch\<lparr>tp_status := Some (JStr s)\<rparr>"

lemma demo_update_status:
  "(case updatePlanTask ''now'' ''/p'' ''00-core'' ''00-api'' ''00-route''
      (status_patch ''active'') demo_store of
      Inr (t, st') \<Rightarrow> pt_status t = JStr ''active'' | Inl _ \<Rightarrow> False)"
  by code_simp

lemma demo_update_ok:
  "(case updatePlanTask ''now'' ''/p'' ''00-core'' ''00-api'' ''00-route''
      (status_patch ''active'') demo_store of Inr (t, st') \<Rightarrow> task_ok t | Inl _ \<Rightarrow> False)"
  by code_simp

theorem updatePlanTask_read_back_witness:
  "\<exists>t st'. getPlanTask (plan_of st' ''/p'') ''00-core'' ''00-api'' ''00-route'' = Inr (Some t)
     \<and> pt_status t = JStr ''active''"
proof -
  let ?u = "updatePlanTask ''now'' ''/p'' ''00-core'' ''00-api'' ''00-route''
      (status_patch ''active'') demo_store"
  obtain r where r: "?u = Inr r" using demo_update_status by (cases ?u) simp_all
  obtain t st' where p: "r = (t, st')" by (cases r)
  have "task_ok t" "pt_status t = JStr ''active''"
    using demo_update_status demo_update_ok unfolding r p by simp_all
  note t = this
  have "getPlanTask (plan_of st' ''/p'') ''00-core'' ''00-api'' ''00-route'' = Inr (Some t)"
    using updatePlanTask_read_back [OF r [unfolded p]] t(1) by simp
  with t(2) show ?thesis by (intro exI conjI)
qed

text \<open>The file of a plan task called \<open>slice\<close> is the file of the slice itself.  The guards accept
  that name, so deleting "task" \<open>slice\<close> of an existing slice succeeds and removes the slice.\<close>

theorem deletePlanTask_slice_clobbers:
  assumes "check_slug m = Inr ()" and "check_slug s = Inr ()"
    and "fs_get (plan_of st path) [m, s, ''slice.md''] = Some (FFile fm b)"
  shows "\<exists>st'. deletePlanTask path m s ''slice'' st = Inr st'
    \<and> getSlice (plan_of st' path) m s = Inr None"
proof -
  have f: "task_file ''slice'' = ''slice.md''" by (simp add: task_file_def)
  have ok: "check_slug ''slice'' = Inr ()" by code_simp
  let ?es = "fs_del [m, s, ''slice.md''] (plan_of st path)"
  have gone: "fs_get ?es [m, s, ''slice.md''] = None" by (rule plan_paths.rd_rm) simp
  obtain fm' b' where rd: "read_md (plan_of st path) [m, s, ''slice.md''] = Inr (fm', b')"
    using assms(3) by (cases fm) (simp_all add: read_md_def)
  let ?st1 = "set_plan path ?es st"
  let ?st' = "case fm_get fm' ''execution_task_id'' of
      Some (JNum e) \<Rightarrow> deletePlanTaskExecutionIndex e ?st1 | _ \<Rightarrow> ?st1"
  have "deletePlanTask path m s ''slice'' st = Inr ?st'"
    using assms rd
    by (simp add: deletePlanTask_def Let_def f ok exists_path_def split: option.splits jval.splits)
  moreover have "plan_of ?st' path = ?es"
    by (auto simp: plan_of_set_plan split: option.splits jval.splits)
  ultimately show ?thesis
    using gone assms(1,2) by (auto simp: getSlice_def exists_path_def)
qed

theorem deletePlanTask_slice_clobbers_witness:
  "getSlice demo_slice_dir ''00-core'' ''00-api'' \<noteq> Inr None \<and>
   (\<exists>st'. deletePlanTask ''/p'' ''00-core'' ''00-api'' ''slice'' demo_store = Inr st'
      \<and> getSlice (plan_of st' ''/p'') ''00-core'' ''00-api'' = Inr None)"
proof
  show "getSlice demo_slice_dir ''00-core'' ''00-api'' \<noteq> Inr None" by code_simp
  have h: "check_slug ''00-core'' = Inr ()" "check_slug ''00-api'' = Inr ()"
    "fs_get (plan_of demo_store ''/p'') [''00-core'', ''00-api'', ''slice.md''] =
       Some (FFile (Some [(''title'', JStr ''API''), (''goal'', JStr ''g'')]) [])"
    by code_simp+
  show "\<exists>st'. deletePlanTask ''/p'' ''00-core'' ''00-api'' ''slice'' demo_store = Inr st'
      \<and> getSlice (plan_of st' ''/p'') ''00-core'' ''00-api'' = Inr None"
    by (rule deletePlanTask_slice_clobbers [OF h])
qed

end
