(* ===== verification/PlanFrame.thy ===== *)
theory PlanFrame
  imports PlanStore
begin

text \<open>
  What rewriting one file of a plan directory leaves as it was.  Status updates rewrite the file of
  an entity that exists; the lemmas here say that such a write changes no directory listing, no other
  file, and in the rewritten entity only what the update names.  They are the frame conditions of the
  executor's proofs.
\<close>

subsection \<open>Overwriting a file\<close>

lemma prefix_refl [simp]: "is_prefix_of p p"
  by (simp add: is_prefix_of_iff)

lemma fs_get_over:
  assumes "fs_get es p = Some (FFile fm0 b0)" and "p \<noteq> []" and "\<not> is_prefix_of q p"
  shows "fs_get (fs_put p (FFile fm b) es) q = fs_get es q"
proof (cases "is_prefix_of p q")
  case True
  then obtain r where q: "q = p @ r" by (auto simp: is_prefix_of_iff)
  have r: "r \<noteq> []" using assms(3) q by auto
  show ?thesis unfolding q fs_get_extend using assms(1,2) r by (simp add: plan_paths.rd_wr)
next
  case False
  then show ?thesis using assms(3) by (intro fs_get_put_apart) (simp add: apart_def)
qed

lemma fs_get_put_above:
  "r \<noteq> [] \<Longrightarrow> fs_get es q = Some (FDir d) \<Longrightarrow>
     fs_get (fs_put (q @ r) n es) q = Some (FDir (fs_put r n d))"
proof (induction q arbitrary: es)
  case Nil
  then show ?case by simp
next
  case (Cons x q)
  obtain y ys where qr: "q @ r = y # ys" using Cons.prems(1) by (cases "q @ r") auto
  from Cons.prems(2) obtain e' where e': "map_of es x = Some (FDir e')" "fs_get e' q = Some (FDir d)"
    by (auto simp: fs_get.simps(2) split: option.splits fsnode.splits if_splits)
  have s: "sub_dir es x = e'" using e'(1) by (simp add: sub_dir_def)
  show ?case using Cons.IH [OF Cons.prems(1) e'(2)]
    by (simp add: qr s fs_get.simps(2) jm_get_set)
qed

text \<open>What a listing that tests entries with \<open>P\<close> sees of a directory.\<close>

definition dir_view :: "(string \<Rightarrow> fsnode \<Rightarrow> bool) \<Rightarrow> plan_dir \<Rightarrow> string list \<times> (string \<Rightarrow> bool option)" where
  "dir_view P d = (map fst d, \<lambda>x. map_option (P x) (map_of d x))"

lemma names_of_view: "names_of P d =
    filter (\<lambda>x. case snd (dir_view P d) x of None \<Rightarrow> False | Some b \<Rightarrow> b) (fst (dir_view P d))"
  by (auto simp: names_of_def dir_view_def split: option.splits intro!: filter_cong)

lemma jm_keys_update: "map_of d x = Some v0 \<Longrightarrow> map fst (AList.update x v d) = map fst d"
  by (induction d) auto

lemma dir_view_update:
  "map_of d x = Some v0 \<Longrightarrow> P x v = P x v0 \<Longrightarrow> dir_view P (AList.update x v d) = dir_view P d"
  by (auto simp: dir_view_def jm_get_set jm_keys_update fun_eq_iff)

lemma dir_view_over:
  assumes "fs_get d r = Some (FFile fm0 b0)" and "r \<noteq> []"
    and dirs: "\<And>x a c. P x (FDir a) = P x (FDir c)"
    and same: "tl r = [] \<Longrightarrow> P (last r) (FFile fm b) = P (last r) (FFile fm0 b0)"
  shows "dir_view P (fs_put r (FFile fm b) d) = dir_view P d"
proof (cases "(r, FFile fm b, d)" rule: fs_put.cases)
  case (2 x n es)
  then show ?thesis using assms(1) same by (auto simp: fs_get_single intro!: dir_view_update)
next
  case (3 x y xs n es)
  then obtain d' where d': "map_of d x = Some (FDir d')" using assms(1)
    by (auto simp: fs_get.simps(2) split: option.splits fsnode.splits)
  have "dir_view P (AList.update x (FDir (fs_put (y # xs) (FFile fm b) (sub_dir d x))) d) = dir_view P d"
    by (rule dir_view_update [OF d']) (rule dirs)
  then show ?thesis using 3 by simp
qed (use assms(2) in auto)

text \<open>A listing after overwriting the file at \<open>p\<close>: unchanged, when the test does not tell the new
  file from the old one or the listing is of another directory.\<close>

lemma view_over:
  assumes ex: "fs_get es p = Some (FFile fm0 b0)" and p: "p \<noteq> []"
    and dirs: "\<And>x a c. P x (FDir a) = P x (FDir c)"
    and same: "q \<noteq> butlast p \<or> P (last p) (FFile fm b) = P (last p) (FFile fm0 b0)"
  shows "map_option (\<lambda>n. case n of FDir d \<Rightarrow> Some (dir_view P d) | FFile _ _ \<Rightarrow> None)
      (fs_get (fs_put p (FFile fm b) es) q)
    = map_option (\<lambda>n. case n of FDir d \<Rightarrow> Some (dir_view P d) | FFile _ _ \<Rightarrow> None) (fs_get es q)"
proof (cases "is_prefix_of q p")
  case True
  then obtain r where pr: "p = q @ r" by (auto simp: is_prefix_of_iff)
  show ?thesis
  proof (cases "r = []")
    case True
    then show ?thesis using ex p pr by (simp add: plan_paths.rd_wr)
  next
    case False
    with ex pr obtain d where d: "fs_get es q = Some (FDir d)" "fs_get d r = Some (FFile fm0 b0)"
      by (auto simp: fs_get_extend split: option.splits fsnode.splits)
    have "dir_view P (fs_put r (FFile fm b) d) = dir_view P d"
    proof (rule dir_view_over [OF d(2) False])
      show "P x (FDir a) = P x (FDir c)" for x a c by (rule dirs)
      assume "tl r = []"
      with False have "r = [last r]" by (cases r) auto
      with pr have "q = butlast p" by (metis butlast_snoc)
      with same have "P (last p) (FFile fm b) = P (last p) (FFile fm0 b0)" by blast
      moreover have "last p = last r" using False by (simp add: pr)
      ultimately show "P (last r) (FFile fm b) = P (last r) (FFile fm0 b0)" by (simp only:)
    qed
    then show ?thesis using d(1) fs_get_put_above [OF False d(1)] by (simp add: pr)
  qed
next
  case False
  then show ?thesis by (simp add: fs_get_over [OF ex p])
qed

lemma sortedDirs_over:
  assumes "fs_get es p = Some (FFile fm0 b0)" "p \<noteq> []"
  shows "sortedDirs (fs_put p (FFile fm b) es) q = sortedDirs es q"
  using view_over [OF assms, of "\<lambda>_ n. node_is_dir n" q fm b]
  by (cases "fs_get es q"; cases "fs_get (fs_put p (FFile fm b) es) q";
      auto simp: sortedDirs_def names_of_view node_is_dir_def split: fsnode.splits)+

lemma sortedMdFiles_over:
  assumes "fs_get es p = Some (FFile fm0 b0)" "p \<noteq> []"
    and "q \<noteq> butlast p \<or> is_plan_md (last p) (FFile fm b) = is_plan_md (last p) (FFile fm0 b0)"
  shows "sortedMdFiles (fs_put p (FFile fm b) es) q = sortedMdFiles es q"
  using view_over [OF assms(1,2), of is_plan_md q fm b] assms(3)
  by (cases "fs_get es q"; cases "fs_get (fs_put p (FFile fm b) es) q";
      auto simp: sortedMdFiles_def names_of_view is_plan_md_def split: fsnode.splits)+

lemma read_md_over:
  assumes "fs_get es p = Some (FFile fm0 b0)" "p \<noteq> []" "q \<noteq> p"
  shows "read_md (fs_put p (FFile fm b) es) q = read_md es q"
proof (cases "is_prefix_of q p")
  case True
  then obtain r where pr: "p = q @ r" "r \<noteq> []" using assms(3) by (auto simp: is_prefix_of_iff)
  with assms(1) obtain d where d: "fs_get es q = Some (FDir d)"
    by (auto simp: fs_get_extend split: option.splits fsnode.splits)
  then show ?thesis using fs_get_put_above [OF pr(2) d] by (simp add: read_md_def pr(1))
qed (simp add: read_md_def fs_get_over [OF assms(1,2)])

lemma exists_path_over:
  assumes "fs_get es p = Some (FFile fm0 b0)" "p \<noteq> []"
  shows "exists_path (fs_put p (FFile fm b) es) q = exists_path es q"
proof (cases "is_prefix_of q p")
  case True
  then obtain r where pr: "p = q @ r" by (auto simp: is_prefix_of_iff)
  show ?thesis
  proof (cases "r = []")
    case True
    then show ?thesis using assms pr by (simp add: exists_path_def plan_paths.rd_wr)
  next
    case False
    with assms(1) obtain d where d: "fs_get es q = Some (FDir d)"
      by (auto simp: pr fs_get_extend split: option.splits fsnode.splits)
    then show ?thesis using fs_get_put_above [OF False d] by (simp add: exists_path_def pr)
  qed
qed (simp add: exists_path_def fs_get_over [OF assms])

subsection \<open>Listings entry by entry\<close>

lemma collect_mem:
  "collect f xs = Inr rs \<Longrightarrow> r \<in> set rs \<longleftrightarrow> (\<exists>x \<in> set xs. f x = Inr (Some r))"
proof (induction xs arbitrary: rs)
  case (Cons x xs)
  then show ?case by (auto simp: bind_err_Inr_iff split: option.splits)
qed simp

lemma collect_rel:
  "(\<And>x. x \<in> set xs \<Longrightarrow> rel_sum (=) (rel_option R) (f x) (g x)) \<Longrightarrow>
     rel_sum (=) (list_all2 R) (collect f xs) (collect g xs)"
proof (induction xs)
  case (Cons x xs)
  have "rel_sum (=) (list_all2 R) (collect f xs) (collect g xs)" using Cons by simp
  moreover have "rel_sum (=) (rel_option R) (f x) (g x)" using Cons.prems by simp
  ultimately show ?case
    by (cases "f x"; cases "g x"; cases "collect f xs"; cases "collect g xs")
      (auto split: option.splits)
qed simp

lemma listPlanTasks_mem:
  assumes "listPlanTasks es m s = Inr ts"
  shows "t \<in> set ts \<longleftrightarrow> (\<exists>names name fm body. sortedMdFiles es [m, s] = Inr names \<and> name \<in> set names
    \<and> read_md es [m, s, name] = Inr (fm, body)
    \<and> t = taskFromFile (take (length name - 3) name) m s fm body)"
proof -
  from assms obtain names where "sortedMdFiles es [m, s] = Inr names"
    "collect (\<lambda>name. let slug = take (length name - 3) name
       in bind_err (read_md es [m, s, name]) (\<lambda>(fm, body).
            Inr (Some (taskFromFile slug m s fm body)))) names = Inr ts"
    unfolding listPlanTasks_def bind_err_unit by (auto simp: bind_err_Inr_iff)
  then show ?thesis by (subst collect_mem) (auto simp: bind_err_Inr_iff, blast+)
qed

lemma sortedMdFiles_name:
  assumes "sortedMdFiles es q = Inr names" "name \<in> set names"
  obtains fm b where "fs_get es (q @ [name]) = Some (FFile (Some fm) b)"
    and "ends_with ''.md'' name" and "name \<noteq> ''slice.md''"
proof -
  from assms obtain d where d: "fs_get es q = Some (FDir d)" "name \<in> set (names_of is_plan_md d)"
    by (auto simp: sortedMdFiles_def split: option.splits fsnode.splits)
  from d(2) obtain n where "map_of d name = Some n" "is_plan_md name n"
    by (auto simp: names_of_def split: option.splits)
  with d(1) that show thesis
    by (auto simp: fs_get_extend fs_get_single is_plan_md_def split: fsnode.splits option.splits)
qed

lemma md_name:
  assumes "ends_with ''.md'' name"
  shows "task_file (take (length name - 3) name) = name"
proof -
  from assms obtain zs where z: "rev name = rev ''.md'' @ zs"
    unfolding ends_with_def is_prefix_of_iff by blast
  then have "name = rev zs @ ''.md''" by (metis rev_append rev_rev_ident)
  then show ?thesis by (simp add: task_file_def)
qed

subsection \<open>What a status write may change\<close>

text \<open>\<open>plan_le es es'\<close>: the same milestones, slices and plan tasks, the tasks with the same execution
  ids, and no task that was completed or failed is otherwise now.\<close>

definition plan_terminal :: "jval \<Rightarrow> bool" where
  "plan_terminal s \<longleftrightarrow> s = JStr ''completed'' \<or> s = JStr ''failed''"

definition task_le :: "plan_task \<Rightarrow> plan_task \<Rightarrow> bool" where
  "task_le t t' \<longleftrightarrow> pt_slug t' = pt_slug t \<and> pt_milestoneSlug t' = pt_milestoneSlug t
     \<and> pt_sliceSlug t' = pt_sliceSlug t \<and> pt_executionTaskId t' = pt_executionTaskId t
     \<and> (plan_terminal (pt_status t) \<longrightarrow> plan_terminal (pt_status t'))"

definition plan_le :: "plan_dir \<Rightarrow> plan_dir \<Rightarrow> bool" where
  "plan_le es es' \<longleftrightarrow>
     rel_sum (=) (list_all2 (\<lambda>a b. ms_slug a = ms_slug b)) (listMilestones es) (listMilestones es')
   \<and> (\<forall>m. rel_sum (=) (list_all2 (\<lambda>a b. sl_slug a = sl_slug b)) (listSlices es m) (listSlices es' m))
   \<and> (\<forall>m s. rel_sum (=) (list_all2 task_le) (listPlanTasks es m s) (listPlanTasks es' m s))"

lemma task_le_refl: "task_le t t"
  by (simp add: task_le_def)

lemma task_le_trans: "task_le a b \<Longrightarrow> task_le b c \<Longrightarrow> task_le a c"
  by (simp add: task_le_def)

lemma rel_sum_list_refl: "(\<And>x. R x x) \<Longrightarrow> rel_sum (=) (list_all2 R) a a"
  by (cases a) (auto simp: list_all2_refl)

lemma rel_sum_list_trans:
  assumes t: "\<And>x y z. R x y \<Longrightarrow> R y z \<Longrightarrow> R x z"
    and ab: "rel_sum (=) (list_all2 R) a b" and bc: "rel_sum (=) (list_all2 R) b c"
  shows "rel_sum (=) (list_all2 R) a c"
proof (cases b)
  case (Inl e)
  then show ?thesis using ab bc by (cases a; cases c) simp_all
next
  case (Inr ys)
  then obtain xs zs where "a = Inr xs" "c = Inr zs" "list_all2 R xs ys" "list_all2 R ys zs"
    using ab bc by (cases a; cases c) simp_all
  moreover from this t have "list_all2 R xs zs" by (blast intro: list_all2_trans)
  ultimately show ?thesis by simp
qed

lemma plan_le_refl: "plan_le es es"
  unfolding plan_le_def by (intro conjI allI rel_sum_list_refl) (simp_all add: task_le_refl)

lemma plan_le_trans:
  assumes ab: "plan_le a b" and bc: "plan_le b c"
  shows "plan_le a c"
  unfolding plan_le_def
proof (intro conjI allI)
  show "rel_sum (=) (list_all2 (\<lambda>a b. ms_slug a = ms_slug b)) (listMilestones a) (listMilestones c)"
    by (rule rel_sum_list_trans [OF _ ab [unfolded plan_le_def, THEN conjunct1]
        bc [unfolded plan_le_def, THEN conjunct1]]) simp
  show "rel_sum (=) (list_all2 (\<lambda>a b. sl_slug a = sl_slug b)) (listSlices a m) (listSlices c m)" for m
    by (rule rel_sum_list_trans [OF _
        ab [unfolded plan_le_def, THEN conjunct2, THEN conjunct1, THEN spec]
        bc [unfolded plan_le_def, THEN conjunct2, THEN conjunct1, THEN spec]]) simp
  show "rel_sum (=) (list_all2 task_le) (listPlanTasks a m s) (listPlanTasks c m s)" for m s
    by (rule rel_sum_list_trans [OF task_le_trans
        ab [unfolded plan_le_def, THEN conjunct2, THEN conjunct2, THEN spec, THEN spec]
        bc [unfolded plan_le_def, THEN conjunct2, THEN conjunct2, THEN spec, THEN spec]])
qed

text \<open>Overwriting a slice file or a milestone file.\<close>

lemma slice_fm_status:
  "fm_get (JObj (clean_fm (sliceToFrontmatter x))) ''status'' = Some (sl_status x)"
  by (simp add: map_of_clean_fm [OF slice_keys_distinct]) (simp add: sliceToFrontmatter_def)

lemma milestone_fm_mission:
  "fm_get (JObj (clean_fm (milestoneToFrontmatter x))) ''mission_id'' = ms_missionId x"
  by (simp add: map_of_clean_fm [OF milestone_keys_distinct]) (simp add: milestoneToFrontmatter_def)

lemma write_md_over: "write_md p fm b es = fs_put p (FFile (Some (clean_fm fm)) (js_trim b)) es"
  by (simp add: write_md_def)

lemma rel_sum_eqI: "a = b \<Longrightarrow> (\<And>x. R x x) \<Longrightarrow> rel_sum (=) (rel_option R) a b"
  by (cases a) (auto simp: rel_sum_simps option.rel_refl)

lemma listSlices_write_rel:
  assumes ex: "fs_get es p = Some (FFile fm0 b0)" and p: "p \<noteq> []"
  shows "rel_sum (=) (list_all2 (\<lambda>a b. sl_slug a = sl_slug b)) (listSlices es m)
      (listSlices (fs_put p (FFile fm b) es) m)"
proof -
  let ?es = "fs_put p (FFile fm b) es"
  have f: "rel_sum (=) (rel_option (\<lambda>a b. sl_slug a = sl_slug b))
     (if \<not> exists_path es [m, slug, ''slice.md''] then Inr None
       else bind_err (read_md es [m, slug, ''slice.md'']) (\<lambda>(fm, body).
              Inr (Some (sliceFromFile slug m fm body))))
     (if \<not> exists_path ?es [m, slug, ''slice.md''] then Inr None
       else bind_err (read_md ?es [m, slug, ''slice.md'']) (\<lambda>(fm, body).
              Inr (Some (sliceFromFile slug m fm body))))" for slug
  proof (cases "[m, slug, ''slice.md''] = p")
    case True
    have "read_md es p \<noteq> Inl e" "read_md ?es p \<noteq> Inl e" for e
      using ex p by (auto simp: read_md_def plan_paths.rd_wr split: option.splits)
    then show ?thesis using True exists_path_over [OF ex p]
      by (cases "read_md es p"; cases "read_md ?es p") (auto simp: sliceFromFile_def)
  next
    case False
    show ?thesis unfolding read_md_over [OF ex p False] exists_path_over [OF ex p]
      by (rule rel_sum_eqI) simp_all
  qed
  show ?thesis
    unfolding listSlices_def sortedDirs_over [OF ex p]
    by (cases "check_slug m"; cases "sortedDirs es [m]") (simp_all add: collect_rel f)
qed

lemma listMilestones_write_rel:
  assumes ex: "fs_get es p = Some (FFile fm0 b0)" and p: "p \<noteq> []"
    and ok: "\<And>slug. p = [slug, ''milestone.md''] \<Longrightarrow> is_ok (getMilestone es slug)
        \<and> (\<exists>f. fm = Some f \<and> is_ok (parseMissionId (fm_get (JObj f) ''mission_id'')))"
  shows "rel_sum (=) (list_all2 (\<lambda>a b. ms_slug a = ms_slug b)) (listMilestones es)
      (listMilestones (fs_put p (FFile fm b) es))"
proof -
  let ?es = "fs_put p (FFile fm b) es"
  have f: "rel_sum (=) (rel_option (\<lambda>a b. ms_slug a = ms_slug b))
     (if \<not> exists_path es [slug, ''milestone.md''] then Inr None
       else bind_err (read_md es [slug, ''milestone.md'']) (\<lambda>(fm, body).
              bind_err (milestoneFromFile slug fm body) (\<lambda>m. Inr (Some m))))
     (if \<not> exists_path ?es [slug, ''milestone.md''] then Inr None
       else bind_err (read_md ?es [slug, ''milestone.md'']) (\<lambda>(fm, body).
              bind_err (milestoneFromFile slug fm body) (\<lambda>m. Inr (Some m))))" for slug
  proof (cases "[slug, ''milestone.md''] = p")
    case True
    have old: "exists_path es p" using ex by (simp add: exists_path_def)
    obtain f where f: "fm = Some f" "is_ok (parseMissionId (fm_get (JObj f) ''mission_id''))"
      using ok [OF True [symmetric]] by blast
    obtain v where v: "parseMissionId (fm_get (JObj f) ''mission_id'') = Inr v"
      using f(2) by (cases "parseMissionId (fm_get (JObj f) ''mission_id'')") (simp_all add: is_ok_def)
    have new: "read_md ?es p = Inr (JObj f, b)" using p f(1) by (simp add: read_md_def plan_paths.rd_wr)
    have "is_ok (getMilestone es slug)" using ok [OF True [symmetric]] by blast
    then obtain fm' b' x where "read_md es p = Inr (fm', b')" "milestoneFromFile slug fm' b' = Inr x"
      unfolding getMilestone_def is_ok_def using True old
      by (auto simp: bind_err_Inr_iff split: sum.splits)
    moreover have "ms_slug x = slug" using calculation(2)
      by (auto simp: milestoneFromFile_def bind_err_Inr_iff)
    ultimately show ?thesis
      unfolding True exists_path_over [OF ex p] new using old v by (simp add: milestoneFromFile_def)
  next
    case False
    show ?thesis unfolding read_md_over [OF ex p False] exists_path_over [OF ex p]
      by (rule rel_sum_eqI) simp_all
  qed
  show ?thesis
    unfolding listMilestones_def sortedDirs_over [OF ex p]
    by (cases "sortedDirs es []") (simp_all add: collect_rel f)
qed

lemma listPlanTasks_write_rel:
  assumes ex: "fs_get es p = Some (FFile fm0 b0)" and p: "p \<noteq> []"
    and kind: "[m, s] \<noteq> butlast p \<or> is_plan_md (last p) (FFile fm b) = is_plan_md (last p) (FFile fm0 b0)"
    and own: "\<And>m s name fm' b'. p = [m, s, name] \<Longrightarrow> name \<noteq> ''slice.md'' \<Longrightarrow>
        read_md es p = Inr (fm', b') \<Longrightarrow>
        (\<exists>f. fm = Some f \<and> R (taskFromFile (take (length name - 3) name) m s fm' b')
                                 (taskFromFile (take (length name - 3) name) m s (JObj f) b))"
    and refl: "\<And>t. R t t"
  shows "rel_sum (=) (list_all2 R) (listPlanTasks es m s)
      (listPlanTasks (fs_put p (FFile fm b) es) m s)"
proof -
  let ?es = "fs_put p (FFile fm b) es"
  have f: "rel_sum (=) (rel_option R)
     (bind_err (read_md es [m, s, name]) (\<lambda>(fm, body).
            Inr (Some (taskFromFile (take (length name - 3) name) m s fm body))))
     (bind_err (read_md ?es [m, s, name]) (\<lambda>(fm, body).
            Inr (Some (taskFromFile (take (length name - 3) name) m s fm body))))"
    if n: "name \<noteq> ''slice.md''" for name
  proof (cases "[m, s, name] = p")
    case True
    obtain fm' b' where rd: "read_md es p = Inr (fm', b')"
      using ex by (cases fm0) (simp_all add: read_md_def)
    obtain f where f: "fm = Some f" "R (taskFromFile (take (length name - 3) name) m s fm' b')
        (taskFromFile (take (length name - 3) name) m s (JObj f) b)"
      using own [OF True [symmetric] n rd] by blast
    have "read_md ?es p = Inr (JObj f, b)" using p f(1) by (simp add: read_md_def plan_paths.rd_wr)
    with rd f(2) show ?thesis unfolding True by simp
  next
    case False
    show ?thesis unfolding read_md_over [OF ex p False]
      by (rule rel_sum_eqI) (simp_all add: refl)
  qed
  have g: "rel_sum (=) (list_all2 R)
     (collect (\<lambda>name. bind_err (read_md es [m, s, name]) (\<lambda>(fm, body).
            Inr (Some (taskFromFile (take (length name - 3) name) m s fm body)))) names)
     (collect (\<lambda>name. bind_err (read_md ?es [m, s, name]) (\<lambda>(fm, body).
            Inr (Some (taskFromFile (take (length name - 3) name) m s fm body)))) names)"
    if "sortedMdFiles es [m, s] = Inr names" for names
    by (rule collect_rel, rule f) (use sortedMdFiles_name [OF that] in blast)
  show ?thesis
    unfolding listPlanTasks_def sortedMdFiles_over [OF ex p kind] Let_def
    by (cases "check_slug m"; cases "check_slug s"; cases "sortedMdFiles es [m, s]") (simp_all add: g)
qed

lemma parseMissionId_again: "parseMissionId x = Inr v \<Longrightarrow> parseMissionId v = Inr v"
  by (auto simp: parseMissionId_def split: option.splits jval.splits if_splits)

lemma file_of_read:
  "exists_path es p \<Longrightarrow> read_md es p = Inr r \<Longrightarrow> \<exists>fm b. fs_get es p = Some (FFile fm b)"
  by (auto simp: read_md_def split: option.splits fsnode.splits)

text \<open>The success of an update: the entity was there, and its file was overwritten.\<close>

lemma updateSlice_Inr:
  assumes "updateSlice now m s data es = Inr (x, es')"
  obtains e fm0 b0 where "getSlice es m s = Inr (Some e)" and "x = merge_slice now m s data e"
    and "fs_get es [m, s, ''slice.md''] = Some (FFile fm0 b0)"
    and "es' = fs_put [m, s, ''slice.md'']
           (FFile (Some (clean_fm (sliceToFrontmatter x))) (js_trim (desc_body (sl_description x)))) es"
    and "check_slug m = Inr ()" and "check_slug s = Inr ()"
proof -
  from assms obtain e where e: "getSlice es m s = Inr (Some e)" "x = merge_slice now m s data e"
    "es' = write_md [m, s, ''slice.md''] (sliceToFrontmatter x) (desc_body (sl_description x)) es"
    and ok: "is_ok (check_slug m)" "is_ok (check_slug s)"
    unfolding updateSlice_def Let_def bind_err_unit by (auto simp: bind_err_Inr_iff split: option.splits)
  have "\<exists>r. exists_path es [m, s, ''slice.md''] \<and> read_md es [m, s, ''slice.md''] = Inr r"
    using e(1) unfolding getSlice_def bind_err_unit by (auto simp: bind_err_Inr_iff split: if_splits)
  then obtain fm0 b0 where "fs_get es [m, s, ''slice.md''] = Some (FFile fm0 b0)"
    using file_of_read by blast
  moreover from ok have "check_slug m = Inr ()" "check_slug s = Inr ()"
    by (auto simp: is_ok_def split: sum.splits)
  ultimately show thesis using that e by (simp add: write_md_over)
qed

lemma updateMilestone_Inr:
  assumes "updateMilestone now m data es = Inr (x, es')"
  obtains e fm0 b0 where "getMilestone es m = Inr (Some e)" and "x = merge_milestone now m data e"
    and "fs_get es [m, ''milestone.md''] = Some (FFile fm0 b0)"
    and "es' = fs_put [m, ''milestone.md'']
           (FFile (Some (clean_fm (milestoneToFrontmatter x))) (js_trim (desc_body (ms_description x)))) es"
    and "parseMissionId (ms_missionId e) = Inr (ms_missionId e)"
proof -
  from assms obtain e where e: "getMilestone es m = Inr (Some e)" "x = merge_milestone now m data e"
    "es' = write_md [m, ''milestone.md''] (milestoneToFrontmatter x) (desc_body (ms_description x)) es"
    unfolding updateMilestone_def Let_def bind_err_unit by (auto simp: bind_err_Inr_iff split: option.splits)
  have "\<exists>fm b. exists_path es [m, ''milestone.md''] \<and> read_md es [m, ''milestone.md''] = Inr (fm, b)
      \<and> milestoneFromFile m fm b = Inr e"
    using e(1) unfolding getMilestone_def bind_err_unit by (auto simp: bind_err_Inr_iff split: if_splits)
  then obtain fm b where r: "exists_path es [m, ''milestone.md'']"
    "read_md es [m, ''milestone.md''] = Inr (fm, b)" "milestoneFromFile m fm b = Inr e" by blast
  obtain fm0 b0 where "fs_get es [m, ''milestone.md''] = Some (FFile fm0 b0)"
    using file_of_read [OF r(1,2)] by blast
  moreover have "parseMissionId (ms_missionId e) = Inr (ms_missionId e)"
    using r(3) parseMissionId_again by (auto simp: milestoneFromFile_def bind_err_Inr_iff)
  ultimately show thesis using that e by (simp add: write_md_over)
qed

lemma updateSlice_le:
  assumes "updateSlice now m s data es = Inr (x, es')"
  shows "plan_le es es'"
proof -
  obtain fm0 b0 where ex: "fs_get es [m, s, ''slice.md''] = Some (FFile fm0 b0)"
    and es': "es' = fs_put [m, s, ''slice.md'']
      (FFile (Some (clean_fm (sliceToFrontmatter x))) (js_trim (desc_body (sl_description x)))) es"
    using assms by (rule updateSlice_Inr)
  have p: "[m, s, ''slice.md''] \<noteq> []" by simp
  have kind: "[m', s'] \<noteq> butlast [m, s, ''slice.md''] \<or>
      is_plan_md (last [m, s, ''slice.md'']) (FFile a b) = is_plan_md (last [m, s, ''slice.md'']) (FFile c d)"
    for m' s' a b c d by (simp add: is_plan_md_def split: option.splits)
  show ?thesis unfolding plan_le_def es'
    by (intro conjI allI listMilestones_write_rel [OF ex p] listSlices_write_rel [OF ex p]
        listPlanTasks_write_rel [OF ex p kind]) (simp_all add: task_le_refl)
qed

lemma updateMilestone_le:
  assumes "updateMilestone now m data es = Inr (x, es')" and "mp_missionId data = None"
  shows "plan_le es es'"
proof -
  obtain e fm0 b0 where e: "getMilestone es m = Inr (Some e)" "x = merge_milestone now m data e"
    and ex: "fs_get es [m, ''milestone.md''] = Some (FFile fm0 b0)"
    and es': "es' = fs_put [m, ''milestone.md'']
      (FFile (Some (clean_fm (milestoneToFrontmatter x))) (js_trim (desc_body (ms_description x)))) es"
    and mi: "parseMissionId (ms_missionId e) = Inr (ms_missionId e)"
    using assms(1) by (rule updateMilestone_Inr)
  have p: "[m, ''milestone.md''] \<noteq> []" by simp
  have "ms_missionId x = ms_missionId e" using assms(2) by (simp add: e(2) merge_milestone_def)
  then have ok: "is_ok (parseMissionId (fm_get (JObj (clean_fm (milestoneToFrontmatter x))) ''mission_id''))"
    unfolding milestone_fm_mission using mi by (simp add: is_ok_def)
  show ?thesis unfolding plan_le_def es'
    by (intro conjI allI listMilestones_write_rel [OF ex p] listSlices_write_rel [OF ex p]
        listPlanTasks_write_rel [OF ex p]) (use e(1) ok in \<open>auto simp: is_ok_def task_le_refl\<close>)
qed

text \<open>A status update of a plan task that is listed.\<close>

lemma task_fm_status:
  "fm_get (JObj (clean_fm (taskToFrontmatter t))) ''status'' = Some (pt_status t)"
  by (simp add: map_of_clean_fm [OF task_keys_distinct]) (simp add: taskToFrontmatter_def)

lemma task_fm_execution:
  "fm_get (JObj (clean_fm (taskToFrontmatter t))) ''execution_task_id'' = pt_executionTaskId t"
  by (simp add: map_of_clean_fm [OF task_keys_distinct]) (simp add: taskToFrontmatter_def)

lemma taskFromFile_written:
  "pt_slug (taskFromFile slug m s fm b) = slug"
  "pt_milestoneSlug (taskFromFile slug m s fm b) = m"
  "pt_sliceSlug (taskFromFile slug m s fm b) = s"
  "pt_executionTaskId (taskFromFile slug m s (JObj (clean_fm (taskToFrontmatter t))) b) = pt_executionTaskId t"
  "pt_status (taskFromFile slug m s (JObj (clean_fm (taskToFrontmatter t))) b) =
     nullish (Some (pt_status t)) (JStr ''pending'')"
  by (simp_all only: taskFromFile_def plan_task.simps task_fm_status task_fm_execution)

lemma updatePlanTask_file:
  assumes "updatePlanTask now path m s slug data st = Inr (t, st')"
  obtains e fm b fm0 b0 where "t = merge_task now m s slug data e"
    and "fs_get (plan_of st path) [m, s, task_file slug] = Some (FFile fm0 b0)"
    and "read_md (plan_of st path) [m, s, task_file slug] = Inr (fm, b)"
    and "e = taskFromFile slug m s fm b"
    and "plan_of st' path = fs_put [m, s, task_file slug]
           (FFile (Some (clean_fm (taskToFrontmatter t))) (js_trim (desc_body (pt_description t))))
           (plan_of st path)"
    and "\<And>p. p \<noteq> path \<Longrightarrow> plan_of st' p = plan_of st p" and "st_projects st' = st_projects st"
proof -
  obtain e where e: "getPlanTask (plan_of st path) m s slug = Inr (Some e)"
    and t: "t = merge_task now m s slug data e"
    and st': "st' = syncExecutionIndexForTask path m s slug (pt_executionTaskId t)
        (drop_old_index (pt_executionTaskId e) (pt_executionTaskId t)
          (set_plan path (write_md [m, s, task_file slug] (taskToFrontmatter t)
             (desc_body (pt_description t)) (plan_of st path)) st))"
    using assms by (rule updatePlanTask_Inr)
  have "\<exists>fm b. exists_path (plan_of st path) [m, s, task_file slug]
      \<and> read_md (plan_of st path) [m, s, task_file slug] = Inr (fm, b) \<and> e = taskFromFile slug m s fm b"
    using e unfolding getPlanTask_def bind_err_unit by (auto simp: bind_err_Inr_iff split: if_splits)
  then obtain fm b where r: "exists_path (plan_of st path) [m, s, task_file slug]"
    "read_md (plan_of st path) [m, s, task_file slug] = Inr (fm, b)" "e = taskFromFile slug m s fm b"
    by blast
  obtain fm0 b0 where f: "fs_get (plan_of st path) [m, s, task_file slug] = Some (FFile fm0 b0)"
    using file_of_read [OF r(1,2)] by blast
  show thesis
    by (rule that [OF t f r(2,3)]) (simp_all add: st' plan_of_set_plan write_md_over)
qed

lemma updatePlanTask_le:
  assumes u: "updatePlanTask now path m s slug data st = Inr (t, st')"
    and nox: "tp_executionTaskId data = None"
    and fin: "tp_status data = Some x" "plan_terminal x"
    and listed: "fs_get (plan_of st path) [m, s, task_file slug] = Some (FFile (Some f0) b0)"
      "slug \<noteq> ''slice''"
  shows "plan_le (plan_of st p) (plan_of st' p)"
proof (cases "p = path")
  case False
  have "plan_of st' p = plan_of st p" by (rule updatePlanTask_file [OF u]) (use False in blast)
  then show ?thesis by (simp add: plan_le_refl)
next
  case True
  let ?p = "[m, s, task_file slug]" and ?es = "plan_of st path"
  obtain e fm b where t: "t = merge_task now m s slug data e"
    and rd: "read_md ?es ?p = Inr (fm, b)" and e: "e = taskFromFile slug m s fm b"
    and pl: "plan_of st' path = fs_put ?p
           (FFile (Some (clean_fm (taskToFrontmatter t))) (js_trim (desc_body (pt_description t)))) ?es"
    using u by (rule updatePlanTask_file)
  have p: "?p \<noteq> []" by simp
  have take_slug: "take (length (task_file slug) - 3) (task_file slug) = slug" by (simp add: task_file_def)
  have st: "pt_status t = x" "pt_executionTaskId t = pt_executionTaskId e"
    using nox fin(1) by (simp_all add: t)
  have "x \<noteq> JNull" using fin(2) by (auto simp: plan_terminal_def)
  then have le: "task_le (taskFromFile slug m s fm b)
      (taskFromFile slug m s (JObj (clean_fm (taskToFrontmatter t))) b')" for b'
    unfolding task_le_def taskFromFile_written st using fin(2) by (simp add: e nullish_Some)
  have kind: "[m', s'] \<noteq> butlast ?p \<or>
      is_plan_md (last ?p) (FFile (Some a) c) = is_plan_md (last ?p) (FFile (Some f0) b0)" for m' s' a c
    by (simp add: is_plan_md_def)
  show ?thesis unfolding True plan_le_def pl
    by (intro conjI allI listMilestones_write_rel [OF listed(1) p] listSlices_write_rel [OF listed(1) p]
        listPlanTasks_write_rel [OF listed(1) p kind])
      (use le rd in \<open>auto simp: take_slug task_le_refl\<close>)
qed

text \<open>A listed milestone was read from its file.\<close>

lemma listMilestones_mem:
  assumes "listMilestones es = Inr ms" "x \<in> set ms"
  obtains slug fm b where "read_md es [slug, ''milestone.md''] = Inr (fm, b)" "milestoneFromFile slug fm b = Inr x"
proof -
  from assms(1) obtain dirs where c: "collect (\<lambda>slug.
       if \<not> exists_path es [slug, ''milestone.md''] then Inr None
       else bind_err (read_md es [slug, ''milestone.md'']) (\<lambda>(fm, body).
              bind_err (milestoneFromFile slug fm body) (\<lambda>m. Inr (Some m)))) dirs = Inr ms"
    unfolding listMilestones_def by (auto simp: bind_err_Inr_iff)
  from assms(2) that show thesis unfolding collect_mem [OF c] by (auto simp: bind_err_Inr_iff split: if_splits)
qed

end
