(* ===== verification/PlanStoreProps.thy ===== *)
theory PlanStoreProps
  imports PlanFrame
begin

text \<open>
  Further facts about the plan store: the inverse index stays sound under every write of a plan
  task, a created entity never takes the place of an existing one, the suffix search of
  \<open>dedupeSlug\<close> finds the least free number, and \<open>nextOrder\<close> exceeds every order in use as long as
  the order prefixes have two digits.
\<close>

subsection \<open>The inverse index\<close>

text \<open>A row of the index is sound when the file it points to, if it can be read, carries the row's
  execution task id.\<close>

definition index_sound :: "pstore \<Rightarrow> bool" where
  "index_sound st \<longleftrightarrow> (\<forall>e loc path fm b.
     map_of (st_index st) e = Some loc \<longrightarrow>
     map_of (st_projects st) (ix_project loc) = Some (Some path) \<longrightarrow>
     read_md (plan_of st path) [ix_milestone loc, ix_slice loc, task_file (ix_task loc)] = Inr (fm, b) \<longrightarrow>
     fm_get fm ''execution_task_id'' = Some (JNum e))"

lemma index_soundD:
  "index_sound st \<Longrightarrow> map_of (st_index st) e = Some loc \<Longrightarrow>
     map_of (st_projects st) (ix_project loc) = Some (Some path) \<Longrightarrow>
     read_md (plan_of st path) [ix_milestone loc, ix_slice loc, task_file (ix_task loc)] = Inr (fm, b) \<Longrightarrow>
     fm_get fm ''execution_task_id'' = Some (JNum e)"
  unfolding index_sound_def by blast

lemma sync_index_cases:
  assumes "jm_ok (st_index st)"
    and "map_of (st_index (syncExecutionIndexForTask path m s t x st)) e = Some loc"
  obtains (fresh) pid where "x = Some (JNum e)" "lookupProjectIdByPath st path = Some pid"
      "loc = \<lparr>ix_project = pid, ix_milestone = m, ix_slice = s, ix_task = t\<rparr>"
    | (old) "map_of (st_index st) e = Some loc"
proof (cases "lookupProjectIdByPath st path")
  case None
  with assms(2) old show ?thesis by (simp add: syncExecutionIndexForTask_def)
next
  case (Some pid)
  let ?loc = "\<lparr>ix_project = pid, ix_milestone = m, ix_slice = s, ix_task = t\<rparr>"
  show ?thesis
  proof (cases "\<exists>n. x = Some (JNum n)")
    case True
    then obtain n where "x = Some (JNum n)" by blast
    with assms(2) Some have g: "(if e = n then Some ?loc else map_of (st_index st) e) = Some loc"
      by (simp add: syncExecutionIndexForTask_def setPlanTaskExecutionIndex_def jm_get_set)
    show ?thesis
    proof (cases "e = n")
      case True
      with g have "loc = ?loc" by simp
      with \<open>x = Some (JNum n)\<close> True Some show ?thesis by (intro fresh [of pid]) simp_all
    next
      case False
      with g show ?thesis by (intro old) simp
    qed
  next
    case False
    then have "syncExecutionIndexForTask path m s t x st =
        deletePlanTaskExecutionIndexByLocation ?loc st"
      using Some by (auto simp: syncExecutionIndexForTask_def Let_def split: option.splits jval.splits)
    with assms(2) have "(e, loc) \<in> set (st_index st)"
      by (auto simp: deletePlanTaskExecutionIndexByLocation_def dest!: map_of_SomeD)
    with assms(1) old show ?thesis by (simp add: map_of_eq_Some_iff)
  qed
qed

lemma drop_old_index_get:
  "map_of (st_index (drop_old_index x y st)) e = Some loc \<Longrightarrow>
     map_of (st_index st) e = Some loc \<and> (x = Some (JNum e) \<longrightarrow> x = y)"
  by (auto simp: drop_old_index_def deletePlanTaskExecutionIndex_def jm_get_del
      split: option.splits jval.splits if_splits)

lemma lookupProjectIdByPath_row:
  assumes "jm_ok (st_projects st)" "lookupProjectIdByPath st path = Some pid"
  shows "map_of (st_projects st) pid = Some (Some path)"
proof -
  from assms(2) obtain q where f: "find (\<lambda>(_, p). p = Some path) (st_projects st) = Some (pid, q)"
    by (auto simp: lookupProjectIdByPath_def)
  then obtain i where "i < length (st_projects st)" "st_projects st ! i = (pid, q)" "q = Some path"
    unfolding find_Some_iff by auto
  then have "(pid, Some path) \<in> set (st_projects st)" by (metis nth_mem)
  with assms(1) show ?thesis by (simp add: map_of_eq_Some_iff)
qed

lemma index_ok_ops:
  "jm_ok (st_index st) \<Longrightarrow> jm_ok (st_index (drop_old_index x y st))"
  "jm_ok (st_index st) \<Longrightarrow> jm_ok (st_index (syncExecutionIndexForTask path m s t x st))"
  by (auto simp: drop_old_index_def deletePlanTaskExecutionIndex_def distinct_delete Let_def
      syncExecutionIndexForTask_def setPlanTaskExecutionIndex_def distinct_update
      deletePlanTaskExecutionIndexByLocation_def distinct_map_filter
      split: option.splits jval.splits)

lemma lookup_index_ops [simp]:
  "lookupProjectIdByPath (drop_old_index x y st) p = lookupProjectIdByPath st p"
  "lookupProjectIdByPath (set_plan q d st) p = lookupProjectIdByPath st p"
  by (simp_all add: lookupProjectIdByPath_def)

lemma read_md_write_md:
  "p \<noteq> [] \<Longrightarrow> read_md (write_md p fm b es) p = Inr (JObj (clean_fm fm), js_trim b)"
  by (simp add: read_md_def fs_get_write_md)

text \<open>Writing a task file keeps the index sound, whatever was there before, when the old execution
  id handed to \<open>store_task\<close> is the one the old file carries.\<close>

lemma store_task_sound:
  assumes sound: "index_sound st" and ok: "jm_ok (st_index st)" and pk: "jm_ok (st_projects st)"
    and old: "\<And>fm b. read_md (plan_of st path) [m, s, task_file slug] = Inr (fm, b) \<Longrightarrow>
        fm_get fm ''execution_task_id'' = oldExec"
    and readable: "\<exists>fm b. read_md (plan_of st path) [m, s, task_file slug] = Inr (fm, b)"
  shows "index_sound (store_task path m s slug oldExec t st)"
  unfolding index_sound_def
proof (intro allI impI)
  fix e and loc :: index_entry and p fm b
  let ?st' = "store_task path m s slug oldExec t st"
  let ?P = "[ix_milestone loc, ix_slice loc, task_file (ix_task loc)]"
  let ?es = "write_md [m, s, task_file slug] (taskToFrontmatter t) (desc_body (pt_description t))
      (plan_of st path)"
  let ?mid = "drop_old_index oldExec (pt_executionTaskId t) (set_plan path ?es st)"
  assume row: "map_of (st_index ?st') e = Some loc"
    and proj: "map_of (st_projects ?st') (ix_project loc) = Some (Some p)"
    and rd: "read_md (plan_of ?st' p) ?P = Inr (fm, b)"
  have plan: "plan_of ?st' p = (if p = path then ?es else plan_of st p)"
    by (simp add: store_task_def plan_of_set_plan)
  have proj': "map_of (st_projects st) (ix_project loc) = Some (Some p)"
    using proj by (simp add: store_task_def)
  have oldrow: "pt_executionTaskId t = Some (JNum e)"
    if "map_of (st_index st) e = Some loc" "p = path" "?P = [m, s, task_file slug]"
      "oldExec = Some (JNum e) \<longrightarrow> oldExec = pt_executionTaskId t"
  proof -
    obtain fm0 b0 where r0: "read_md (plan_of st path) [m, s, task_file slug] = Inr (fm0, b0)"
      using readable by blast
    then have "fm_get fm0 ''execution_task_id'' = Some (JNum e)"
      using index_soundD [OF sound that(1) proj'] that(2,3) by simp
    with old [OF r0] that(4) show ?thesis by simp
  qed
  have mid_ok: "jm_ok (st_index ?mid)" using ok by (intro index_ok_ops) simp
  from row have row': "map_of (st_index (syncExecutionIndexForTask path m s slug
      (pt_executionTaskId t) ?mid)) e = Some loc" by (simp only: store_task_def)
  show "fm_get fm ''execution_task_id'' = Some (JNum e)"
  proof (cases "p = path \<and> ?P = [m, s, task_file slug]")
    case True
    then have fm: "fm = JObj (clean_fm (taskToFrontmatter t))"
      using rd plan by (simp add: read_md_write_md)
    from mid_ok row' have "pt_executionTaskId t = Some (JNum e)"
    proof (cases rule: sync_index_cases)
      case old
      from drop_old_index_get [OF old] oldrow True show ?thesis by simp
    qed
    then show ?thesis unfolding fm task_fm_execution .
  next
    case False
    then have rd': "read_md (plan_of st p) ?P = Inr (fm, b)"
      using rd plan by (cases "p = path")
        (auto simp: read_md_def fs_get_write_md_apart apart3)
    from mid_ok row' show ?thesis
    proof (cases rule: sync_index_cases)
      case (fresh pid)
      have "lookupProjectIdByPath st path = Some pid" using fresh(2) by simp
      then have "map_of (st_projects st) pid = Some (Some path)"
        using lookupProjectIdByPath_row [OF pk] by blast
      with proj' fresh(3) have "p = path" by simp
      with False fresh(3) show ?thesis by simp
    next
      case old
      with drop_old_index_get [OF old] index_soundD [OF sound _ proj' rd'] show ?thesis by simp
    qed
  qed
qed

text \<open>What the plan store relies on in the tables: primary keys.\<close>

definition pstore_ok :: "pstore \<Rightarrow> bool" where
  "pstore_ok st \<longleftrightarrow> jm_ok (st_projects st) \<and> jm_ok (st_index st)"

lemma getPlanTask_read_md:
  assumes "getPlanTask es m s slug = Inr (Some e)"
  shows "\<exists>fm b. read_md es [m, s, task_file slug] = Inr (fm, b)
      \<and> pt_executionTaskId e = fm_get fm ''execution_task_id''"
  using assms unfolding getPlanTask_def bind_err_unit
  by (auto simp: bind_err_Inr_iff taskFromFile_def split: if_splits)

text \<open>Every successful \<open>updatePlanTask\<close> keeps the inverse index sound: no row ever points at a
  readable plan task that carries another execution id, and when the project is registered and the
  task carries a numeric id, that id resolves to the task.\<close>

theorem updatePlanTask_index_sound:
  assumes "updatePlanTask now path m s slug data st = Inr (t, st')"
    and "index_sound st" and "pstore_ok st"
  shows "index_sound st' \<and> pstore_ok st' \<and>
    (case (lookupProjectIdByPath st path, pt_executionTaskId t) of
       (Some pid, Some (JNum e)) \<Rightarrow> getPlanTaskExecutionIndex st' e =
          Some \<lparr>ix_project = pid, ix_milestone = m, ix_slice = s, ix_task = slug\<rparr>
     | _ \<Rightarrow> True)"
proof -
  obtain e where e: "getPlanTask (plan_of st path) m s slug = Inr (Some e)"
    and st': "st' = store_task path m s slug (pt_executionTaskId e) t st"
    using assms(1) by (rule updatePlanTask_Inr) (simp add: store_task_def)
  obtain fm b where rd: "read_md (plan_of st path) [m, s, task_file slug] = Inr (fm, b)"
    and ex: "pt_executionTaskId e = fm_get fm ''execution_task_id''"
    using getPlanTask_read_md [OF e] by blast
  have pk: "jm_ok (st_index st)" "jm_ok (st_projects st)" using assms(3) by (simp_all add: pstore_ok_def)
  have "index_sound st'"
    unfolding st' by (rule store_task_sound [OF assms(2) pk]) (use rd ex in auto)
  moreover have "pstore_ok st'"
    using pk unfolding st' pstore_ok_def store_task_def by (simp add: index_ok_ops)
  moreover have "case (lookupProjectIdByPath st path, pt_executionTaskId t) of
       (Some pid, Some (JNum e)) \<Rightarrow> getPlanTaskExecutionIndex st' e =
          Some \<lparr>ix_project = pid, ix_milestone = m, ix_slice = s, ix_task = slug\<rparr>
     | _ \<Rightarrow> True"
    unfolding st' store_task_def
    by (auto simp: syncExecutionIndexForTask_def getPlanTaskExecutionIndex_def
        setPlanTaskExecutionIndex_def jm_get_set split: option.splits jval.splits)
  ultimately show ?thesis by blast
qed

lemma demo_read:
  "read_md (plan_of demo_store ''/p'') [''00-core'', ''00-api'', task_file ''00-route''] =
     Inr (JObj [(''title'', JStr ''Route''), (''execution_task_id'', JNum 5)], ''Do it'')"
  by code_simp

lemma demo_index_sound: "index_sound demo_store"
  unfolding index_sound_def
proof (intro allI impI)
  fix e and loc :: index_entry and path fm b
  assume "map_of (st_index demo_store) e = Some loc"
  then have e: "e = 5" and loc: "ix_milestone loc = ''00-core''" "ix_slice loc = ''00-api''"
    "ix_task loc = ''00-route''" "ix_project loc = 1"
    by (auto simp: demo_store_def split: if_splits)
  assume "map_of (st_projects demo_store) (ix_project loc) = Some (Some path)"
  then have "path = ''/p''" using loc(4) by (simp add: demo_store_def)
  moreover assume "read_md (plan_of demo_store path)
      [ix_milestone loc, ix_slice loc, task_file (ix_task loc)] = Inr (fm, b)"
  ultimately have "fm = JObj [(''title'', JStr ''Route''), (''execution_task_id'', JNum 5)]"
    using demo_read unfolding loc by simp
  then show "fm_get fm ''execution_task_id'' = Some (JNum e)" using e by simp
qed

theorem updatePlanTask_index_sound_witness:
  "\<exists>t st'. updatePlanTask ''now'' ''/p'' ''00-core'' ''00-api'' ''00-route''
      (status_patch ''active'') demo_store = Inr (t, st') \<and> index_sound st'"
proof -
  let ?u = "updatePlanTask ''now'' ''/p'' ''00-core'' ''00-api'' ''00-route''
      (status_patch ''active'') demo_store"
  obtain r where r: "?u = Inr r" using demo_update_status by (cases ?u) simp_all
  obtain t st' where p: "r = (t, st')" by (cases r)
  have ok: "pstore_ok demo_store" by code_simp
  have "index_sound st'"
    using updatePlanTask_index_sound [OF r [unfolded p] demo_index_sound ok] by (rule conjunct1)
  with r [unfolded p] show ?thesis by (intro exI conjI)
qed

subsection \<open>Fresh names and orders\<close>

lemma dedupe_loop_free: "numbered slug (dedupe_loop taken slug i) \<notin> set taken"
proof (induction taken slug i rule: dedupe_loop.induct)
  case (1 taken slug i)
  then show ?case by (simp add: dedupe_loop.simps [of taken slug i])
qed

lemma dedupe_loop_ge: "i \<le> dedupe_loop taken slug i"
proof (induction taken slug i rule: dedupe_loop.induct)
  case (1 taken slug i)
  then show ?case by (simp add: dedupe_loop.simps [of taken slug i] Suc_leD)
qed

lemma dedupe_loop_least:
  "i \<le> j \<Longrightarrow> j < dedupe_loop taken slug i \<Longrightarrow> numbered slug j \<in> set taken"
proof (induction taken slug i rule: dedupe_loop.induct)
  case (1 taken slug i)
  show ?case
  proof (cases "numbered slug i \<in> set taken")
    case True
    show ?thesis
    proof (cases "j = i")
      case False
      with 1 True show ?thesis by (simp add: dedupe_loop.simps [of taken slug i])
    qed (use True in simp)
  next
    case False
    with 1(2,3) show ?thesis by (simp add: dedupe_loop.simps [of taken slug i])
  qed
qed

lemma dedupeSlug_free: "dedupeSlug es p slug d \<notin> set (taken_slugs es p d)"
  by (simp add: dedupeSlug_def Let_def dedupe_loop_free)

text \<open>The suffix search of \<open>dedupeSlug\<close> terminates with a name not in use, and it is the slug
  itself or the slug with the least free number from 2 on.\<close>

theorem dedupeSlug_least_free:
  "dedupeSlug es p slug d \<notin> set (taken_slugs es p d)
   \<and> (dedupeSlug es p slug d = slug
      \<or> (slug \<in> set (taken_slugs es p d)
         \<and> dedupeSlug es p slug d = numbered slug (LEAST i. 2 \<le> i \<and> numbered slug i \<notin> set (taken_slugs es p d))))"
proof -
  let ?t = "taken_slugs es p d"
  have ge: "2 \<le> dedupe_loop ?t slug 2" by (rule dedupe_loop_ge)
  have "(LEAST i. 2 \<le> i \<and> numbered slug i \<notin> set ?t) = dedupe_loop ?t slug 2"
  proof (rule Least_equality)
    show "2 \<le> dedupe_loop ?t slug 2 \<and> numbered slug (dedupe_loop ?t slug 2) \<notin> set ?t"
      using ge dedupe_loop_free by blast
    fix j assume j: "2 \<le> j \<and> numbered slug j \<notin> set ?t"
    show "dedupe_loop ?t slug 2 \<le> j"
    proof (rule ccontr)
      assume "\<not> dedupe_loop ?t slug 2 \<le> j"
      then have "j < dedupe_loop ?t slug 2" by simp
      from dedupe_loop_least [OF _ this] j show False by blast
    qed
  qed
  then show ?thesis using dedupeSlug_free [of es p slug d] by (auto simp: dedupeSlug_def Let_def)
qed

text \<open>A name with a two-digit order prefix, the shape \<open>toSlug\<close> gives every order below 100.\<close>

definition two_digit :: "string \<Rightarrow> bool" where
  "two_digit n = (case n of a # b # c # _ \<Rightarrow> is_digit a \<and> is_digit b \<and> c = CHR ''-'' | _ \<Rightarrow> False)"

lemma digit_val_table:
  "list_all (\<lambda>a. digit_val a < 10 \<and> list_all (\<lambda>b. (a < b \<longrightarrow> digit_val a < digit_val b)) digits10) digits10"
  by code_simp

lemma digit_val_strict: "is_digit a \<Longrightarrow> is_digit b \<Longrightarrow> a < b \<Longrightarrow> digit_val a < digit_val b"
  using digit_val_table by (simp add: list_all_iff is_digit_def)

lemma digit_val_less10: "is_digit a \<Longrightarrow> digit_val a < 10"
  using digit_val_table by (simp add: list_all_iff is_digit_def)

lemma digit_val_mono: "is_digit a \<Longrightarrow> is_digit b \<Longrightarrow> a \<le> b \<Longrightarrow> digit_val a \<le> digit_val b"
  using digit_val_strict [of a b] by (cases "a = b") (simp_all add: order.order_iff_strict)

lemma two_digitE:
  assumes "two_digit n"
  obtains a b r where "n = a # b # CHR ''-'' # r" "is_digit a" "is_digit b"
  using assms by (auto simp: two_digit_def split: list.splits)

lemma parseOrder_two_digit:
  "is_digit a \<Longrightarrow> is_digit b \<Longrightarrow>
     parseOrder (a # b # CHR ''-'' # r) = int (digit_val a * 10 + digit_val b)"
  by (simp add: parseOrder_def dash_not_digit nat_of_str_def)

lemma parseOrder_mono:
  assumes "two_digit x" "two_digit y" "x \<le> y"
  shows "parseOrder x \<le> parseOrder y"
proof -
  obtain a b r where x: "x = a # b # CHR ''-'' # r" "is_digit a" "is_digit b"
    using assms(1) by (rule two_digitE)
  obtain c d q where y: "y = c # d # CHR ''-'' # q" "is_digit c" "is_digit d"
    using assms(2) by (rule two_digitE)
  have lex: "a < c \<or> a = c \<and> b \<le> d" using assms(3) by (auto simp: x y)
  have "digit_val a * 10 + digit_val b \<le> digit_val c * 10 + digit_val d"
    using lex digit_val_strict [OF x(2) y(2)] digit_val_mono [OF x(3) y(3)]
      digit_val_less10 [OF x(3)] by auto
  then show ?thesis by (simp add: x y parseOrder_two_digit)
qed

lemma last_sorted: "sorted (xs::'a::linorder list) \<Longrightarrow> x \<in> set xs \<Longrightarrow> x \<le> last xs"
  by (induction xs) (auto dest: last_in_set)

lemma sortedDirs_sorted: "sortedDirs es p = Inr ns \<Longrightarrow> sorted ns"
  by (auto simp: sortedDirs_def split: option.splits fsnode.splits)

lemma sortedMdFiles_sorted: "sortedMdFiles es p = Inr ns \<Longrightarrow> sorted ns"
  by (auto simp: sortedMdFiles_def split: option.splits fsnode.splits)

text \<open>As long as every entry carries a two-digit prefix, \<open>nextOrder\<close> is an order that no entry
  has yet, and the entry made from it sorts after all the others.\<close>

theorem nextOrder_fresh:
  assumes "(if dirs then sortedDirs es p else sortedMdFiles es p) = Inr names"
    and "\<forall>n \<in> set names. two_digit n"
  shows "\<exists>k. nextOrder es p dirs = Inr k \<and> 0 \<le> k \<and> (\<forall>n \<in> set names. parseOrder n < k)"
proof (cases "names = []")
  case True
  then show ?thesis using assms(1) by (cases dirs) (simp_all add: nextOrder_def)
next
  case False
  have s: "sorted names"
    using assms(1) by (auto split: if_splits dest: sortedDirs_sorted sortedMdFiles_sorted)
  have "parseOrder n \<le> parseOrder (last names)" if "n \<in> set names" for n
    by (rule parseOrder_mono) (use assms(2) that False last_sorted [OF s] in auto)
  moreover have "0 \<le> parseOrder (last names)" by (simp add: parseOrder_def Let_def)
  ultimately show ?thesis
    using assms(1) False by (cases dirs) (auto simp: nextOrder_def zle_add1_eq_le)
qed

theorem nextOrder_fresh_witness:
  "\<exists>k. nextOrder demo_slice_dir [''00-core'', ''00-api''] False = Inr k \<and> 0 < k"
proof -
  have h: "(if False then sortedDirs demo_slice_dir [''00-core'', ''00-api'']
      else sortedMdFiles demo_slice_dir [''00-core'', ''00-api'']) = Inr [''00-route.md'']"
    "\<forall>n \<in> set [''00-route.md'']. two_digit n"
    by code_simp+
  from nextOrder_fresh [OF h] obtain k where "nextOrder demo_slice_dir [''00-core'', ''00-api''] False
    = Inr k" "parseOrder ''00-route.md'' < k" by auto
  moreover have "parseOrder ''00-route.md'' = 0" by code_simp
  ultimately show ?thesis by auto
qed

text \<open>The bound is sharp: the entries are compared as strings, so a third digit stops the count.\<close>

definition dirs_99 :: plan_dir where
  "dirs_99 = [(''99-old'', FDir []), (''98-older'', FDir [])]"

definition order_after :: "nat \<Rightarrow> plan_dir \<Rightarrow> plan_error + int" where
  "order_after n es =
     (case ((\<lambda>r. bind_err r (\<lambda>d. case createMilestone ''t'' no_milestone_patch d of
         Inl e \<Rightarrow> Inl e | Inr (_, d') \<Rightarrow> Inr d')) ^^ n) (Inr es) of
        Inl e \<Rightarrow> Inl e | Inr d \<Rightarrow> nextOrder d [] True)"

text \<open>With 99 in use the next milestone gets order 100, and so does the one after it, and the one
  after that: the directory \<open>100-milestone\<close> sorts before \<open>99-old\<close>, so the counter stays at 100.\<close>

theorem nextOrder_stuck_at_100:
  "order_after 0 dirs_99 = Inr 100 \<and> order_after 1 dirs_99 = Inr 100
   \<and> order_after 2 dirs_99 = Inr 100"
proof (intro conjI)
  show "order_after 0 dirs_99 = Inr 100" by code_simp
  show "order_after 1 dirs_99 = Inr 100" by code_simp
  show "order_after 2 dirs_99 = Inr 100" by code_simp
qed

end
