(* ===== verification/StateErr.thy ===== *)
theory StateErr
  imports Prelude
begin

text \<open>
  Operations that change state step by step and may throw in between: a state transformer that
  returns its result or its error together with the state reached, so that the writes made before a
  throw stay made.  \<open>keeps\<close> is the invariant rule for such operations; the lemmas in
  \<open>keeps_intros\<close> take it through sequencing, branching and loops.
\<close>

type_synonym ('s, 'e, 'a) act = "'s \<Rightarrow> ('e + 'a) \<times> 's"

definition retS :: "'a \<Rightarrow> ('s, 'e, 'a) act" where
  "retS v = (\<lambda>s. (Inr v, s))"

definition throwS :: "'e \<Rightarrow> ('s, 'e, 'a) act" where
  "throwS e = (\<lambda>s. (Inl e, s))"

definition bindS :: "('s, 'e, 'a) act \<Rightarrow> ('a \<Rightarrow> ('s, 'e, 'b) act) \<Rightarrow> ('s, 'e, 'b) act" where
  "bindS m f = (\<lambda>s. case m s of (Inl e, s') \<Rightarrow> (Inl e, s') | (Inr v, s') \<Rightarrow> f v s')"

text \<open>A read that may throw.\<close>

definition readS :: "('s \<Rightarrow> 'e + 'a) \<Rightarrow> ('s, 'e, 'a) act" where
  "readS f = (\<lambda>s. (f s, s))"

definition modS :: "('s \<Rightarrow> 's) \<Rightarrow> ('s, 'e, unit) act" where
  "modS f = (\<lambda>s. (Inr (), f s))"

text \<open>An operation that throws before its first write, or succeeds.\<close>

definition tryS :: "('s \<Rightarrow> 'e + ('a \<times> 's)) \<Rightarrow> ('s, 'e, 'a) act" where
  "tryS f = (\<lambda>s. case f s of Inl e \<Rightarrow> (Inl e, s) | Inr (v, s') \<Rightarrow> (Inr v, s'))"

definition whenS :: "bool \<Rightarrow> ('s, 'e, unit) act \<Rightarrow> ('s, 'e, unit) act" where
  "whenS b m = (if b then m else retS ())"

fun forS :: "'x list \<Rightarrow> ('x \<Rightarrow> ('s, 'e, unit) act) \<Rightarrow> ('s, 'e, unit) act" where
  "forS [] f = retS ()"
| "forS (x # xs) f = bindS (f x) (\<lambda>_. forS xs f)"

text \<open>A loop that adds up what its rounds return.\<close>

fun sumS :: "'x list \<Rightarrow> ('x \<Rightarrow> ('s, 'e, nat) act) \<Rightarrow> ('s, 'e, nat) act" where
  "sumS [] f = retS 0"
| "sumS (x # xs) f = bindS (f x) (\<lambda>n. bindS (sumS xs f) (\<lambda>k. retS (n + k)))"

text \<open>\<open>try \<dots> catch \<dots> continue\<close> around a read: the rest of the round runs on what was read, and a
  throw ends the round with the default.\<close>

definition orSkipS :: "('s \<Rightarrow> 'e + 'a) \<Rightarrow> 'b \<Rightarrow> ('a \<Rightarrow> ('s, 'e, 'b) act) \<Rightarrow> ('s, 'e, 'b) act" where
  "orSkipS f dflt k = (\<lambda>s. case f s of Inl _ \<Rightarrow> (Inr dflt, s) | Inr v \<Rightarrow> k v s)"

lemma act_simps [simp]:
  "retS v s = (Inr v, s)"
  "throwS e s = (Inl e, s)"
  "readS f s = (f s, s)"
  "modS g s = (Inr (), g s)"
  by (simp_all add: retS_def throwS_def readS_def modS_def)

lemma bindS_Inr: "bindS m f s = (Inr w, s') \<longleftrightarrow>
    (\<exists>v s1. m s = (Inr v, s1) \<and> f v s1 = (Inr w, s'))"
  by (auto simp: bindS_def split: prod.splits sum.splits)

lemma bindS_run: "m s = (Inr v, s1) \<Longrightarrow> bindS m f s = f v s1"
  by (simp add: bindS_def)

lemma bindS_throw: "m s = (Inl e, s1) \<Longrightarrow> bindS m f s = (Inl e, s1)"
  by (simp add: bindS_def)

lemma tryS_Inr: "tryS f s = (Inr v, s') \<longleftrightarrow> f s = Inr (v, s')"
  by (auto simp: tryS_def split: sum.splits prod.splits)

lemma tryS_Inl: "tryS f s = (Inl e, s') \<longleftrightarrow> f s = Inl e \<and> s' = s"
  by (auto simp: tryS_def split: sum.splits prod.splits)

lemma whenS_run: "whenS b m s = (if b then m s else (Inr (), s))"
  by (simp add: whenS_def)

subsection \<open>Invariants\<close>

definition keeps :: "('s \<Rightarrow> bool) \<Rightarrow> ('s, 'e, 'a) act \<Rightarrow> bool" where
  "keeps P m \<longleftrightarrow> (\<forall>s. P s \<longrightarrow> P (snd (m s)))"

named_theorems keeps_intros \<open>rules for invariants of state transformers\<close>

lemma keepsD: "keeps P m \<Longrightarrow> m s = (r, s') \<Longrightarrow> P s \<Longrightarrow> P s'"
  by (metis keeps_def snd_conv)

lemma keeps_ret [keeps_intros]: "keeps P (retS v)"
  by (simp add: keeps_def)

lemma keeps_throw [keeps_intros]: "keeps P (throwS e)"
  by (simp add: keeps_def)

lemma keeps_read [keeps_intros]: "keeps P (readS f)"
  by (simp add: keeps_def)

lemma keeps_bind [keeps_intros]:
  assumes "keeps P m" "\<And>v. keeps P (f v)"
  shows "keeps P (bindS m f)"
  using assms by (auto simp: keeps_def bindS_def split: prod.splits sum.splits)

lemma keeps_mod [keeps_intros]: "(\<And>s. P s \<Longrightarrow> P (f s)) \<Longrightarrow> keeps P (modS f)"
  by (simp add: keeps_def)

lemma keeps_try [keeps_intros]:
  "(\<And>s v s'. P s \<Longrightarrow> f s = Inr (v, s') \<Longrightarrow> P s') \<Longrightarrow> keeps P (tryS f)"
  by (auto simp: keeps_def tryS_def split: sum.splits prod.splits)

lemma keeps_when [keeps_intros]: "keeps P m \<Longrightarrow> keeps P (whenS b m)"
  by (simp add: whenS_def keeps_ret)

lemma keeps_for [keeps_intros]: "(\<And>x. keeps P (f x)) \<Longrightarrow> keeps P (forS xs f)"
  by (induction xs) (auto intro: keeps_ret keeps_bind)

lemma keeps_sum [keeps_intros]: "(\<And>x. keeps P (f x)) \<Longrightarrow> keeps P (sumS xs f)"
  by (induction xs) (auto intro: keeps_ret keeps_bind)

lemma keeps_skip [keeps_intros]: "(\<And>v. keeps P (k v)) \<Longrightarrow> keeps P (orSkipS f dflt k)"
  by (auto simp: keeps_def orSkipS_def split: sum.splits)

lemma keeps_if [keeps_intros]: "keeps P m \<Longrightarrow> keeps P n \<Longrightarrow> keeps P (if b then m else n)"
  by simp

lemma keeps_option [keeps_intros]:
  "keeps P m \<Longrightarrow> (\<And>v. keeps P (f v)) \<Longrightarrow> keeps P (case x of None \<Rightarrow> m | Some v \<Rightarrow> f v)"
  by (cases x) simp_all

subsection \<open>Progress\<close>

text \<open>Operations that only ever move the state forward in a preorder: a loop over such operations
  moves it forward, and what one round establishes, if it is stable, still holds at the end.\<close>

locale progress =
  fixes le :: "'s \<Rightarrow> 's \<Rightarrow> bool"
  assumes le_refl: "le s s" and le_trans: "le s t \<Longrightarrow> le t u \<Longrightarrow> le s u"
begin

definition forward :: "'s \<Rightarrow> ('s \<Rightarrow> ('e + 'a) \<times> 's) \<Rightarrow> bool" where
  "forward s0 m \<longleftrightarrow> (\<forall>s v s'. le s0 s \<longrightarrow> m s = (Inr v, s') \<longrightarrow> le s s')"

lemma forwardD: "forward s0 m \<Longrightarrow> le s0 s \<Longrightarrow> m s = (Inr v, s') \<Longrightarrow> le s s'"
  by (simp add: forward_def)

lemma forward_ret: "forward s0 (retS v)"
  by (simp add: forward_def le_refl)

lemma forward_read: "forward s0 (readS f)"
  by (simp add: forward_def le_refl)

lemma forward_bind:
  assumes m: "forward s0 m" and f: "\<And>v. forward s0 (f v)"
  shows "forward s0 (bindS m f)"
  unfolding forward_def bindS_Inr
proof (intro allI impI)
  fix s v s'
  assume s: "le s0 s" and "\<exists>w s1. m s = (Inr w, s1) \<and> f w s1 = (Inr v, s')"
  then obtain w s1 where r: "m s = (Inr w, s1)" "f w s1 = (Inr v, s')" by blast
  have 1: "le s s1" by (rule forwardD [OF m s r(1)])
  have "le s1 s'" by (rule forwardD [OF f le_trans [OF s 1] r(2)])
  with 1 show "le s s'" by (rule le_trans)
qed

lemma forward_sum: "(\<And>x. x \<in> set xs \<Longrightarrow> forward s0 (f x)) \<Longrightarrow> forward s0 (sumS xs f)"
  by (induction xs) (auto intro!: forward_bind forward_ret)

lemma sum_establishes:
  assumes run: "sumS xs f s = (Inr n, s')" and s0: "le s0 s" and x: "x \<in> set xs"
    and fwd: "\<And>x. x \<in> set xs \<Longrightarrow> forward s0 (f x)"
    and est: "\<And>s v s'. le s0 s \<Longrightarrow> f x s = (Inr v, s') \<Longrightarrow> Q s'"
    and stable: "\<And>s s'. le s0 s \<Longrightarrow> le s s' \<Longrightarrow> Q s \<Longrightarrow> Q s'"
  shows "Q s'"
  using run s0 x fwd
proof (induction xs arbitrary: s n)
  case (Cons y ys)
  from Cons.prems(1) obtain v s1 k where r: "f y s = (Inr v, s1)" "sumS ys f s1 = (Inr k, s')"
    by (auto simp: bindS_Inr)
  have l1: "le s s1" by (rule forwardD [OF Cons.prems(4) Cons.prems(2) r(1)]) simp
  have l2: "le s0 s1" by (rule le_trans [OF Cons.prems(2) l1])
  have fy: "forward s0 (sumS ys f)" by (rule forward_sum) (simp add: Cons.prems(4))
  have l3: "le s1 s'" by (rule forwardD [OF fy l2 r(2)])
  show ?case
  proof (cases "x \<in> set ys")
    case True
    then show ?thesis using Cons.IH [OF r(2) l2] Cons.prems(4) by simp
  next
    case False
    then have "y = x" using Cons.prems(3) by simp
    then have "Q s1" using est [OF Cons.prems(2)] r(1) by simp
    then show ?thesis by (rule stable [OF l2 l3])
  qed
qed simp

end

end
