(* ===== verification/AutoExecutor.thy ===== *)
theory AutoExecutor
  imports PlanFrame StateErr
begin

text \<open>
  The bookkeeping half of \<open>src/src/services/auto-executor.ts\<close>: the resolver from an execution task to
  its plan task with its in-memory cache, the status aggregation, the synchronisation of plan files
  with execution tasks, the repair passes at boot and the sweep of orphaned tasks.  (The run itself
  is in \<open>AutoRun\<close>.)

  \<open>daemon\<close> holds the plan store, the \<open>tasks\<close> table with its autoincrement counter, the resolver
  cache, the terminal events and slice broadcasts emitted so far (newest last), the execution tasks
  handed to \<open>taskExecutor.execute\<close>, and the clock: the
  ISO string stamped into files and the milliseconds of the cache.  A column no function here reads
  or writes is left out of \<open>exec_task\<close>.  \<open>getPlanDir\<close> and \<open>path.join\<close> are concatenations with \<open>/\<close>,
  which they are on a normalised project path and plain segments.
\<close>

subsection \<open>State\<close>

record plan_loc =
  pl_path :: string
  pl_milestone :: string
  pl_slice :: string
  pl_task :: string

record exec_task =
  et_project :: "int option"
  et_promptFile :: "string option"
  et_status :: task_status
  et_label :: "string option"
  et_targetSlice :: "string option"
  et_maxRetries :: int
  et_workingDir :: "string option"
  et_error :: "string option"
  et_completedAt :: "string option"

record terminal_event =
  te_task :: int
  te_status :: string
  te_error :: "string option"

type_synonym plan_cache = "(int \<times> (plan_loc option \<times> int)) list"

record daemon =
  d_store :: pstore
  d_tasks :: "(int \<times> exec_task) list"
  d_nextId :: int
  d_cache :: plan_cache
  d_events :: "terminal_event list"
  d_broadcasts :: "(string \<times> string) list"
  d_launched :: "int list"
  d_iso :: string
  d_ms :: int

type_synonym 'a dact = "(daemon, plan_error, 'a) act"

subsection \<open>The resolver cache\<close>

definition MAX_PLAN_TASK_CACHE_ENTRIES :: nat where
  "MAX_PLAN_TASK_CACHE_ENTRIES = 4096"

definition PLAN_TASK_NEGATIVE_TTL_MS :: int where
  "PLAN_TASK_NEGATIVE_TTL_MS = 60 * 1000"

text \<open>\<open>None\<close> is \<open>undefined\<close> (not cached), \<open>Some None\<close> the cached \<open>null\<close>.\<close>

definition readCachedPlanTask :: "int \<Rightarrow> int \<Rightarrow> plan_cache \<Rightarrow> plan_loc option option \<times> plan_cache" where
  "readCachedPlanTask now taskId c =
     (case map_of c taskId of
        None \<Rightarrow> (None, c)
      | Some (Some v, _) \<Rightarrow> (Some (Some v), c)
      | Some (None, t) \<Rightarrow>
          if now - t > PLAN_TASK_NEGATIVE_TTL_MS then (None, AList.delete taskId c)
          else (Some None, c))"

definition writeCachedPlanTask :: "int \<Rightarrow> int \<Rightarrow> plan_loc option \<Rightarrow> plan_cache \<Rightarrow> plan_cache" where
  "writeCachedPlanTask now taskId v c =
     put_capped MAX_PLAN_TASK_CACHE_ENTRIES taskId (v, now) c"

interpretation plan_cache: bounded_cache "put_capped MAX_PLAN_TASK_CACHE_ENTRIES" map_of length jm_ok
    MAX_PLAN_TASK_CACHE_ENTRIES
  by (rule capped_laws) (simp add: MAX_PLAN_TASK_CACHE_ENTRIES_def)

text \<open>However many lookups the resolver caches, the cache never holds more than 4096 entries, the
  last one written is there, and every entry was written by one of them or was there before.\<close>

theorem plan_cache_bounded:
  assumes "jm_ok c" and "length c \<le> 4096"
  defines "run \<equiv> fold (\<lambda>(now, taskId, v). writeCachedPlanTask now taskId v)"
  shows "length (run ws c) \<le> 4096
    \<and> map_of (run (ws @ [(now, taskId, v)]) c) taskId = Some (v, now)
    \<and> (map_of (run ws c) k = Some (w, t) \<longrightarrow> map_of c k = Some (w, t) \<or> (t, k, w) \<in> set ws)"
proof -
  let ?k = "map (\<lambda>(now, taskId, v). (taskId, (v, now))) ws"
  have f: "run ws c = fold (\<lambda>(k, e). put_capped MAX_PLAN_TASK_CACHE_ENTRIES k e) ?k c" for c
    unfolding run_def writeCachedPlanTask_def by (induction ws arbitrary: c) auto
  have l: "length c \<le> MAX_PLAN_TASK_CACHE_ENTRIES" using assms(2) by (simp add: MAX_PLAN_TASK_CACHE_ENTRIES_def)
  have "length (run ws c) \<le> 4096"
    using plan_cache.puts_bounded [OF assms(1) l, of ?k] f by (simp add: MAX_PLAN_TASK_CACHE_ENTRIES_def)
  moreover have "map_of (run (ws @ [(now, taskId, v)]) c) taskId = Some (v, now)"
    using plan_cache.puts_last [OF assms(1) l, of ?k taskId "(v, now)"] f
    by (simp add: run_def writeCachedPlanTask_def)
  moreover have "map_of c k = Some (w, t) \<or> (t, k, w) \<in> set ws" if "map_of (run ws c) k = Some (w, t)"
    using plan_cache.puts_sound [OF assms(1), of ?k k "(w, t)"] that f by auto
  ultimately show ?thesis by blast
qed

theorem plan_cache_bounded_witness:
  "map_of (fold (\<lambda>(now, taskId, v). writeCachedPlanTask now taskId v) ([] @ [(7, 1, None)]) []) 1
     = Some (None, 7)"
  using plan_cache_bounded [of "[]" "[]" 7 1 None] by simp

subsection \<open>Walking the plan trees\<close>

definition is_truthy :: "jval option \<Rightarrow> bool" where
  "is_truthy v = (case v of None \<Rightarrow> False | Some JNull \<Rightarrow> False | Some (JBool b) \<Rightarrow> b
     | Some (JNum n) \<Rightarrow> n \<noteq> 0 | Some (JStr s) \<Rightarrow> s \<noteq> [] | Some (JArr _) \<Rightarrow> True | Some (JObj _) \<Rightarrow> True)"

definition or_empty :: "'e + 'a list \<Rightarrow> 'a list" where
  "or_empty r = (case r of Inl _ \<Rightarrow> [] | Inr xs \<Rightarrow> xs)"

text \<open>The nested loops over milestones, slices and plan tasks, each listing skipped when it throws,
  as the list of the plan tasks they visit.\<close>

definition slice_rows :: "plan_dir \<Rightarrow> string \<Rightarrow> string \<Rightarrow> (string \<times> string \<times> plan_task) list" where
  "slice_rows es m s = map (\<lambda>t. (m, s, t)) (or_empty (listPlanTasks es m s))"

definition milestone_rows :: "plan_dir \<Rightarrow> string \<Rightarrow> (string \<times> string \<times> plan_task) list" where
  "milestone_rows es m =
     concat (map (\<lambda>s. slice_rows es m (sl_slug s)) (or_empty (listSlices es m)))"

definition project_rows :: "plan_dir \<Rightarrow> (string \<times> string \<times> plan_task) list" where
  "project_rows es =
     concat (map (\<lambda>m. milestone_rows es (ms_slug m)) (or_empty (listMilestones es)))"

definition project_paths :: "pstore \<Rightarrow> (int \<times> string) list" where
  "project_paths st = concat (map (\<lambda>(pid, p). case p of None \<Rightarrow> []
     | Some path \<Rightarrow> if path = [] then [] else [(pid, path)]) (st_projects st))"

definition plan_rows :: "pstore \<Rightarrow> (int \<times> plan_loc \<times> plan_task) list" where
  "plan_rows st = concat (map (\<lambda>(pid, path).
     map (\<lambda>(m, s, t). (pid, \<lparr>pl_path = path, pl_milestone = m, pl_slice = s, pl_task = pt_slug t\<rparr>, t))
       (project_rows (plan_of st path))) (project_paths st))"

subsection \<open>From an execution task to its plan task\<close>

definition index_location :: "pstore \<Rightarrow> int \<Rightarrow> plan_loc option" where
  "index_location st taskId =
     (case getPlanTaskExecutionIndex st taskId of
        None \<Rightarrow> None
      | Some x \<Rightarrow>
         (case map_of (st_projects st) (ix_project x) of
            Some (Some path) \<Rightarrow>
              if path = [] then None
              else if list_ex (\<lambda>pt. pt_slug pt = ix_task x \<and> pt_executionTaskId pt = Some (JNum taskId))
                     (or_empty (listPlanTasks (plan_of st path) (ix_milestone x) (ix_slice x)))
              then Some \<lparr>pl_path = path, pl_milestone = ix_milestone x, pl_slice = ix_slice x,
                         pl_task = ix_task x\<rparr>
              else None
          | _ \<Rightarrow> None))"

definition walk_location :: "pstore \<Rightarrow> int \<Rightarrow> (int \<times> plan_loc) option" where
  "walk_location st taskId =
     map_option (\<lambda>(pid, loc, _). (pid, loc))
       (find (\<lambda>(_, _, pt). pt_executionTaskId pt = Some (JNum taskId)) (plan_rows st))"

definition cache_write :: "int \<Rightarrow> plan_loc option \<Rightarrow> daemon \<Rightarrow> daemon" where
  "cache_write taskId v d = d\<lparr>d_cache := writeCachedPlanTask (d_ms d) taskId v (d_cache d)\<rparr>"

definition index_put :: "int \<Rightarrow> int \<Rightarrow> plan_loc \<Rightarrow> daemon \<Rightarrow> daemon" where
  "index_put taskId pid loc d =
     d\<lparr>d_store := setPlanTaskExecutionIndex taskId
        \<lparr>ix_project = pid, ix_milestone = pl_milestone loc, ix_slice = pl_slice loc,
         ix_task = pl_task loc\<rparr> (d_store d)\<rparr>"

text \<open>The purge of a stale index row is the only path from tier 2 to tier 3 that writes.\<close>

definition index_purge :: "int \<Rightarrow> daemon \<Rightarrow> daemon" where
  "index_purge taskId d = d\<lparr>d_store := deletePlanTaskExecutionIndex taskId (d_store d)\<rparr>"

definition findPlanTaskByExecutionId :: "int \<Rightarrow> daemon \<Rightarrow> plan_loc option \<times> daemon" where
  "findPlanTaskByExecutionId taskId d0 =
     (case readCachedPlanTask (d_ms d0) taskId (d_cache d0) of
        (Some hit, c) \<Rightarrow> (hit, d0\<lparr>d_cache := c\<rparr>)
      | (None, c) \<Rightarrow>
         let d = d0\<lparr>d_cache := c\<rparr> in
         case index_location (d_store d) taskId of
           Some loc \<Rightarrow> (Some loc, cache_write taskId (Some loc) d)
         | None \<Rightarrow>
            let d1 = (if getPlanTaskExecutionIndex (d_store d) taskId = None then d
                      else index_purge taskId d)
            in case walk_location (d_store d1) taskId of
                 Some (pid, loc) \<Rightarrow> (Some loc, index_put taskId pid loc (cache_write taskId (Some loc) d1))
               | None \<Rightarrow> (None, cache_write taskId None d1))"

subsection \<open>Writes of the executor to plan files\<close>

definition status_only :: "string \<Rightarrow> task_patch" where
  "status_only s = no_task_patch\<lparr>tp_status := Some (JStr s)\<rparr>"

definition upd_task :: "plan_loc \<Rightarrow> task_patch \<Rightarrow> plan_task dact" where
  "upd_task loc patch = tryS (\<lambda>d.
     case updatePlanTask (d_iso d) (pl_path loc) (pl_milestone loc) (pl_slice loc) (pl_task loc)
            patch (d_store d) of
       Inl e \<Rightarrow> Inl e | Inr (t, st) \<Rightarrow> Inr (t, d\<lparr>d_store := st\<rparr>))"

definition set_slice_status :: "string \<Rightarrow> string \<Rightarrow> string \<Rightarrow> string \<Rightarrow> slice dact" where
  "set_slice_status path m s status = tryS (\<lambda>d.
     case updateSlice (d_iso d) m s (no_slice_patch\<lparr>sp_status := Some (JStr status)\<rparr>)
            (plan_of (d_store d) path) of
       Inl e \<Rightarrow> Inl e | Inr (x, es) \<Rightarrow> Inr (x, d\<lparr>d_store := set_plan path es (d_store d)\<rparr>))"

definition set_milestone_status :: "string \<Rightarrow> string \<Rightarrow> string \<Rightarrow> milestone dact" where
  "set_milestone_status path m status = tryS (\<lambda>d.
     case updateMilestone (d_iso d) m (no_milestone_patch\<lparr>mp_status := Some (JStr status)\<rparr>)
            (plan_of (d_store d) path) of
       Inl e \<Rightarrow> Inl e | Inr (x, es) \<Rightarrow> Inr (x, d\<lparr>d_store := set_plan path es (d_store d)\<rparr>))"

definition broadcast_slice :: "string \<Rightarrow> string \<Rightarrow> unit dact" where
  "broadcast_slice s status = modS (\<lambda>d. d\<lparr>d_broadcasts := d_broadcasts d @ [(s, status)]\<rparr>)"

definition tasks_of :: "string \<Rightarrow> string \<Rightarrow> string \<Rightarrow> plan_task list dact" where
  "tasks_of path m s = readS (\<lambda>d. listPlanTasks (plan_of (d_store d) path) m s)"

definition slices_of :: "string \<Rightarrow> string \<Rightarrow> slice list dact" where
  "slices_of path m = readS (\<lambda>d. listSlices (plan_of (d_store d) path) m)"

definition milestones_of :: "string \<Rightarrow> milestone list dact" where
  "milestones_of path = readS (\<lambda>d. listMilestones (plan_of (d_store d) path))"

subsection \<open>Aggregating statuses\<close>

definition all_status :: "string \<Rightarrow> jval list \<Rightarrow> bool" where
  "all_status st xs \<longleftrightarrow> xs \<noteq> [] \<and> list_all (\<lambda>x. x = JStr st) xs"

definition any_status :: "string \<Rightarrow> jval list \<Rightarrow> bool" where
  "any_status st xs \<longleftrightarrow> list_ex (\<lambda>x. x = JStr st) xs"

definition aggregate_of :: "jval list \<Rightarrow> string" where
  "aggregate_of xs =
     (if all_status ''completed'' xs then ''completed''
      else if any_status ''active'' xs then ''active''
      else if any_status ''failed'' xs then ''failed'' else ''pending'')"

definition complete_milestone_if_done :: "string \<Rightarrow> string \<Rightarrow> unit dact" where
  "complete_milestone_if_done path m =
     bindS (slices_of path m) (\<lambda>slices.
     bindS (milestones_of path) (\<lambda>ms.
       case find (\<lambda>x. ms_slug x = m) ms of
         None \<Rightarrow> retS ()
       | Some x \<Rightarrow>
           whenS (all_status ''completed'' (map sl_status slices) \<and> ms_status x \<noteq> JStr ''completed'')
             (bindS (set_milestone_status path m ''completed'') (\<lambda>_. retS ()))))"

definition aggregateSliceStatus :: "string \<Rightarrow> string \<Rightarrow> string \<Rightarrow> unit dact" where
  "aggregateSliceStatus path m s =
     bindS (tasks_of path m s) (\<lambda>planTasks.
       if planTasks = [] then retS ()
       else
         let newStatus = aggregate_of (map pt_status planTasks) in
         bindS (slices_of path m) (\<lambda>slices.
         bindS (case find (\<lambda>x. sl_slug x = s) slices of
                  None \<Rightarrow> retS ()
                | Some c \<Rightarrow> whenS (sl_status c \<noteq> JStr newStatus)
                    (bindS (set_slice_status path m s newStatus) (\<lambda>_. broadcast_slice s newStatus)))
           (\<lambda>_. complete_milestone_if_done path m)))"

subsection \<open>Synchronising a plan task with its execution task\<close>

definition clearPlanTaskByExecutionCache :: "unit dact" where
  "clearPlanTaskByExecutionCache = modS (\<lambda>d. d\<lparr>d_cache := []\<rparr>)"

definition find_loc :: "int \<Rightarrow> plan_loc option dact" where
  "find_loc taskId = (\<lambda>d. case findPlanTaskByExecutionId taskId d of (r, d') \<Rightarrow> (Inr r, d'))"

definition repointPlanTask :: "int \<Rightarrow> int \<Rightarrow> bool dact" where
  "repointPlanTask previousTaskId newTaskId =
     bindS (find_loc previousTaskId) (\<lambda>r. case r of
         None \<Rightarrow> retS False
       | Some loc \<Rightarrow>
           bindS (upd_task loc ((status_only ''active'')\<lparr>tp_executionTaskId := Some (JNum newTaskId)\<rparr>)) (\<lambda>_.
           bindS (aggregateSliceStatus (pl_path loc) (pl_milestone loc) (pl_slice loc)) (\<lambda>_.
           bindS clearPlanTaskByExecutionCache (\<lambda>_. retS True))))"

fun planStatus :: "task_status \<Rightarrow> string option" where
  "planStatus DONE = Some ''completed''"
| "planStatus FAILED = Some ''failed''"
| "planStatus CANCELLED = Some ''failed''"
| "planStatus TIMED_OUT = Some ''failed''"
| "planStatus RUNNING = Some ''active''"
| "planStatus PENDING_APPROVAL = Some ''active''"
| "planStatus _ = None"

definition syncPlanFromExecutionTask :: "int \<Rightarrow> unit dact" where
  "syncPlanFromExecutionTask taskId =
     bindS (readS (\<lambda>d. Inr (map_of (d_tasks d) taskId))) (\<lambda>row. case row of
         None \<Rightarrow> retS ()
       | Some execTask \<Rightarrow>
           bindS (find_loc taskId) (\<lambda>r. case r of
               None \<Rightarrow> retS ()
             | Some loc \<Rightarrow>
                (case planStatus (et_status execTask) of
                   None \<Rightarrow> retS ()
                 | Some ps \<Rightarrow>
                    bindS (upd_task loc (status_only ps)) (\<lambda>_.
                    bindS (aggregateSliceStatus (pl_path loc) (pl_milestone loc) (pl_slice loc)) (\<lambda>_.
                    whenS (ps = ''completed'' \<or> ps = ''failed'')
                      (modS (\<lambda>d. d\<lparr>d_events := d_events d @
                         [\<lparr>te_task = taskId, te_status = task_status_str (et_status execTask),
                           te_error = et_error execTask\<rparr>]\<rparr>)))))))"

subsection \<open>Repair at boot\<close>

definition bindable :: "jval option \<Rightarrow> bool" where
  "bindable v = (case v of Some (JNum _) \<Rightarrow> True | Some (JStr _) \<Rightarrow> True | _ \<Rightarrow> False)"

definition wants_reconcile :: "plan_task \<Rightarrow> bool" where
  "wants_reconcile pt \<longleftrightarrow> is_truthy (pt_executionTaskId pt) \<and> \<not> plan_terminal (pt_status pt)"

definition reconcile_ids :: "pstore \<Rightarrow> jval option list" where
  "reconcile_ids st =
     map (\<lambda>(_, _, pt). pt_executionTaskId pt) (filter (\<lambda>(_, _, pt). wants_reconcile pt) (plan_rows st))"

text \<open>The batched \<open>SELECT\<close>: the rows named by the collected ids.  The driver refuses to bind anything
  but numbers and strings.  (A string id also selects the row of its number, which no later lookup
  by that string finds.)\<close>

definition exec_by_id :: "daemon \<Rightarrow> plan_error + (int \<times> exec_task) list" where
  "exec_by_id d =
     (let ids = reconcile_ids (d_store d)
      in if list_all bindable ids
         then Inr (filter (\<lambda>(i, _). Some (JNum i) \<in> set ids) (d_tasks d))
         else Inl PlanTypeError)"

fun terminal_plan_status :: "task_status \<Rightarrow> string option" where
  "terminal_plan_status DONE = Some ''completed''"
| "terminal_plan_status FAILED = Some ''failed''"
| "terminal_plan_status CANCELLED = Some ''failed''"
| "terminal_plan_status TIMED_OUT = Some ''failed''"
| "terminal_plan_status _ = None"

definition linked_row :: "(int \<times> exec_task) list \<Rightarrow> plan_task \<Rightarrow> exec_task option" where
  "linked_row execById pt =
     (case pt_executionTaskId pt of Some (JNum e) \<Rightarrow> map_of execById e | _ \<Rightarrow> None)"

definition loc_of :: "string \<Rightarrow> plan_task \<Rightarrow> plan_loc" where
  "loc_of path pt = \<lparr>pl_path = path, pl_milestone = pt_milestoneSlug pt, pl_slice = pt_sliceSlug pt,
                     pl_task = pt_slug pt\<rparr>"

definition reconcile_task :: "string \<Rightarrow> (int \<times> exec_task) list \<Rightarrow> plan_task \<Rightarrow> nat dact" where
  "reconcile_task path execById pt =
     (if \<not> wants_reconcile pt then retS 0
      else case linked_row execById pt of
             None \<Rightarrow> retS 0
           | Some row \<Rightarrow>
              (case terminal_plan_status (et_status row) of
                 None \<Rightarrow> retS 0
               | Some s \<Rightarrow> bindS (upd_task (loc_of path pt) (status_only s)) (\<lambda>_. retS 1)))"

definition reconcile_slice ::
  "string \<Rightarrow> (int \<times> exec_task) list \<Rightarrow> string \<Rightarrow> slice \<Rightarrow> nat dact" where
  "reconcile_slice path execById m sl =
     orSkipS (\<lambda>d. listPlanTasks (plan_of (d_store d) path) m (sl_slug sl)) 0 (\<lambda>pts.
       bindS (sumS pts (reconcile_task path execById)) (\<lambda>n.
       bindS (tasks_of path m (sl_slug sl)) (\<lambda>updated.
         let sts = map pt_status updated in
         bindS (if all_status ''completed'' sts \<and> sl_status sl \<noteq> JStr ''completed''
                then bindS (set_slice_status path m (sl_slug sl) ''completed'') (\<lambda>_. retS ())
                else if any_status ''failed'' sts \<and> sl_status sl \<noteq> JStr ''failed''
                then bindS (set_slice_status path m (sl_slug sl) ''failed'') (\<lambda>_. retS ())
                else retS ())
           (\<lambda>_. retS n))))"

definition reconcile_milestone ::
  "string \<Rightarrow> (int \<times> exec_task) list \<Rightarrow> milestone \<Rightarrow> nat dact" where
  "reconcile_milestone path execById m =
     orSkipS (\<lambda>d. listSlices (plan_of (d_store d) path) (ms_slug m)) 0 (\<lambda>slices.
       bindS (sumS slices (reconcile_slice path execById (ms_slug m))) (\<lambda>n.
       bindS (slices_of path (ms_slug m)) (\<lambda>updated.
       bindS (whenS (all_status ''completed'' (map sl_status updated)
                     \<and> ms_status m \<noteq> JStr ''completed'')
                (bindS (set_milestone_status path (ms_slug m) ''completed'') (\<lambda>_. retS ())))
         (\<lambda>_. retS n))))"

definition reconcile_project :: "(int \<times> exec_task) list \<Rightarrow> string \<Rightarrow> nat dact" where
  "reconcile_project execById path =
     orSkipS (\<lambda>d. listMilestones (plan_of (d_store d) path)) 0 (\<lambda>ms.
       sumS ms (reconcile_milestone path execById))"

definition walks :: "pstore \<Rightarrow> string list" where
  "walks st = filter (\<lambda>path. is_ok (listMilestones (plan_of st path))) (map snd (project_paths st))"

definition reconcilePlanStatuses :: "nat dact" where
  "reconcilePlanStatuses =
     bindS (readS (\<lambda>d. Inr (walks (d_store d)))) (\<lambda>ws.
     bindS (readS exec_by_id) (\<lambda>execById. sumS ws (reconcile_project execById)))"

definition getPlanDir :: "string \<Rightarrow> string" where
  "getPlanDir path = path @ ''/.flockctl/plan''"

definition sweepable :: "task_status list" where
  "sweepable = [QUEUED, RUNNING, PENDING_APPROVAL, WAITING_FOR_INPUT, RATE_LIMITED]"

definition inside_plan :: "pstore \<Rightarrow> exec_task \<Rightarrow> bool" where
  "inside_plan st t = (case et_promptFile t of
       None \<Rightarrow> False
     | Some pf \<Rightarrow> pf \<noteq> [] \<and> list_ex (\<lambda>(_, path). is_prefix_of (getPlanDir path @ ''/'') pf) (project_paths st))"

definition live_exec_ids :: "pstore \<Rightarrow> jval option list" where
  "live_exec_ids st =
     filter is_truthy (map (\<lambda>(_, _, pt). pt_executionTaskId pt) (plan_rows st))"

definition orphaned :: "pstore \<Rightarrow> int \<times> exec_task \<Rightarrow> bool" where
  "orphaned st r = (case r of (i, t) \<Rightarrow>
     et_status t \<in> set sweepable \<and> inside_plan st t \<and> Some (JNum i) \<notin> set (live_exec_ids st))"

definition orphan_message :: string where
  "orphan_message = ''Orphaned by plan repoint -- superseded by a newer execution task''"

definition cancel_row :: "string \<Rightarrow> exec_task \<Rightarrow> exec_task" where
  "cancel_row now t = t\<lparr>et_status := CANCELLED, et_error := Some orphan_message,
                        et_completedAt := Some now\<rparr>"

definition cancelOrphanedExecutionTasks :: "daemon \<Rightarrow> nat \<times> daemon" where
  "cancelOrphanedExecutionTasks d =
     (let st = d_store d in
      if project_paths st = [] then (0, d)
      else (length (filter (orphaned st) (d_tasks d)),
            d\<lparr>d_tasks := map (\<lambda>(i, t). (i, if orphaned st (i, t) then cancel_row (d_iso d) t else t))
                           (d_tasks d)\<rparr>))"

end
