(* ===== verification/AutoReconcile.thy ===== *)
theory AutoReconcile
  imports AutoExecutor
begin

text \<open>
  \<open>reconcilePlanStatuses\<close> does what it is for: once it returns, no plan task of any readable project
  is left unsettled although its execution task has ended.  The argument is by progress: every write
  of the pass keeps \<open>d_le\<close>, so what one round settles stays settled, and the lists a round walks are
  the lists of the final state up to statuses.
\<close>

definition d_le :: "daemon \<Rightarrow> daemon \<Rightarrow> bool" where
  "d_le d d' \<longleftrightarrow> (\<forall>p. plan_le (plan_of (d_store d) p) (plan_of (d_store d') p))
     \<and> st_projects (d_store d') = st_projects (d_store d) \<and> d_tasks d' = d_tasks d"

lemma d_le_refl: "d_le d d"
  by (simp add: d_le_def plan_le_refl)

lemma d_le_trans: "d_le a b \<Longrightarrow> d_le b c \<Longrightarrow> d_le a c"
  unfolding d_le_def by (metis plan_le_trans)

interpretation plan_progress: progress d_le
  by unfold_locales (rule d_le_refl, erule d_le_trans, assumption)

text \<open>The listings of two states in this order, element by element.\<close>

lemma or_empty_mem: "x \<in> set (or_empty r) \<longleftrightarrow> (\<exists>xs. r = Inr xs \<and> x \<in> set xs)"
  by (cases r) (auto simp: or_empty_def)

lemma list_all2_back: "list_all2 R xs ys \<Longrightarrow> y \<in> set ys \<Longrightarrow> \<exists>x \<in> set xs. R x y"
  by (induction rule: list_all2_induct) auto

lemma rel_sum_back:
  assumes "rel_sum (=) (list_all2 R) a b" "y \<in> set (or_empty b)"
  shows "\<exists>x \<in> set (or_empty a). R x y"
  using assms list_all2_back [of R] by (cases a; cases b) (auto simp: or_empty_def)

lemma list_all2_forth: "list_all2 R xs ys \<Longrightarrow> x \<in> set xs \<Longrightarrow> \<exists>y \<in> set ys. R x y"
  by (induction rule: list_all2_induct) auto

definition tasks_at :: "daemon \<Rightarrow> string \<Rightarrow> string \<Rightarrow> string \<Rightarrow> plan_task list" where
  "tasks_at d path m s = or_empty (listPlanTasks (plan_of (d_store d) path) m s)"

definition slices_at :: "daemon \<Rightarrow> string \<Rightarrow> string \<Rightarrow> slice list" where
  "slices_at d path m = or_empty (listSlices (plan_of (d_store d) path) m)"

definition milestones_at :: "daemon \<Rightarrow> string \<Rightarrow> milestone list" where
  "milestones_at d path = or_empty (listMilestones (plan_of (d_store d) path))"

lemma tasks_back:
  "d_le d d' \<Longrightarrow> t' \<in> set (tasks_at d' path m s) \<Longrightarrow> \<exists>t \<in> set (tasks_at d path m s). task_le t t'"
  unfolding tasks_at_def by (rule rel_sum_back) (simp_all add: d_le_def plan_le_def)

lemma tasks_forth:
  assumes "d_le d d'" "t \<in> set (tasks_at d path m s)"
  shows "\<exists>t' \<in> set (tasks_at d' path m s). task_le t t'"
proof -
  have "rel_sum (=) (list_all2 task_le) (listPlanTasks (plan_of (d_store d) path) m s)
      (listPlanTasks (plan_of (d_store d') path) m s)"
    using assms(1) by (simp add: d_le_def plan_le_def)
  with assms(2) list_all2_forth [of task_le] show ?thesis
    by (cases "listPlanTasks (plan_of (d_store d) path) m s";
        cases "listPlanTasks (plan_of (d_store d') path) m s") (auto simp: tasks_at_def or_empty_def)
qed

lemma slices_back:
  "d_le d d' \<Longrightarrow> x' \<in> set (slices_at d' path m) \<Longrightarrow>
     \<exists>x \<in> set (slices_at d path m). sl_slug x = sl_slug x'"
  unfolding slices_at_def by (rule rel_sum_back) (simp_all add: d_le_def plan_le_def)

lemma milestones_back:
  "d_le d d' \<Longrightarrow> x' \<in> set (milestones_at d' path) \<Longrightarrow>
     \<exists>x \<in> set (milestones_at d path). ms_slug x = ms_slug x'"
  unfolding milestones_at_def by (rule rel_sum_back) (simp_all add: d_le_def plan_le_def)

text \<open>A listed task is determined by its slug, and its file carries frontmatter.\<close>

lemma tasks_at_file:
  assumes "t \<in> set (tasks_at d path m s)"
  obtains f b where "fs_get (plan_of (d_store d) path) [m, s, task_file (pt_slug t)] = Some (FFile (Some f) b)"
    and "t = taskFromFile (pt_slug t) m s (JObj f) b" and "pt_slug t \<noteq> ''slice''"
proof -
  from assms obtain ts where ts: "listPlanTasks (plan_of (d_store d) path) m s = Inr ts" "t \<in> set ts"
    by (auto simp: tasks_at_def or_empty_mem)
  from listPlanTasks_mem [OF ts(1), of t] ts(2) obtain names name fm body where
    n: "sortedMdFiles (plan_of (d_store d) path) [m, s] = Inr names" "name \<in> set names"
      "read_md (plan_of (d_store d) path) [m, s, name] = Inr (fm, body)"
      "t = taskFromFile (take (length name - 3) name) m s fm body" by blast
  obtain f b where f: "fs_get (plan_of (d_store d) path) ([m, s] @ [name]) = Some (FFile (Some f) b)"
    and md: "ends_with ''.md'' name" "name \<noteq> ''slice.md''"
    using sortedMdFiles_name [OF n(1,2)] by blast
  have slug: "pt_slug t = take (length name - 3) name" using n(4) by (simp add: taskFromFile_written)
  have fname: "task_file (pt_slug t) = name" unfolding slug by (rule md_name [OF md(1)])
  have "fm = JObj f" "body = b" using n(3) f by (simp_all add: read_md_def)
  moreover have "pt_slug t \<noteq> ''slice''"
    using fname md(2) task_file_slice [of "pt_slug t"] by auto
  ultimately show thesis
    using that [of f b] f fname n(4) slug by simp
qed

lemma tasks_at_inj:
  assumes "t \<in> set (tasks_at d path m s)" "t' \<in> set (tasks_at d path m s)" "pt_slug t = pt_slug t'"
  shows "t = t'"
  by (rule tasks_at_file [OF assms(1)], rule tasks_at_file [OF assms(2)]) (use assms(3) in simp)

lemma tasks_at_keys:
  assumes "t \<in> set (tasks_at d path m s)"
  shows "pt_milestoneSlug t = m" "pt_sliceSlug t = s"
proof -
  obtain f b where "t = taskFromFile (pt_slug t) m s (JObj f) b" by (rule tasks_at_file [OF assms])
  then show "pt_milestoneSlug t = m" "pt_sliceSlug t = s" by (metis taskFromFile_written(2,3))+
qed

subsection \<open>The writes move forward\<close>

lemma set_slice_status_le: "set_slice_status path m s st d = (Inr v, d') \<Longrightarrow> d_le d d'"
  by (auto simp: set_slice_status_def tryS_Inr d_le_def plan_of_set_plan plan_le_refl
      dest!: updateSlice_le split: sum.splits prod.splits)

lemma set_milestone_status_le: "set_milestone_status path m st d = (Inr v, d') \<Longrightarrow> d_le d d'"
  by (auto simp: set_milestone_status_def tryS_Inr d_le_def plan_of_set_plan plan_le_refl
      no_milestone_patch_def dest!: updateMilestone_le split: sum.splits prod.splits)

lemma upd_task_le:
  assumes run: "upd_task (loc_of path t) (status_only st) d = (Inr v, d')"
    and t: "t \<in> set (tasks_at d path m s)" and fin: "plan_terminal (JStr st)"
  shows "d_le d d'"
    and "\<And>t'. t' \<in> set (tasks_at d' path m s) \<Longrightarrow> pt_slug t' = pt_slug t \<Longrightarrow> pt_status t' = JStr st"
proof -
  obtain f b where f: "fs_get (plan_of (d_store d) path) [m, s, task_file (pt_slug t)] = Some (FFile (Some f) b)"
    "pt_slug t \<noteq> ''slice''" by (rule tasks_at_file [OF t])
  from run obtain st' where u: "updatePlanTask (d_iso d) path m s (pt_slug t) (status_only st) (d_store d)
      = Inr (v, st')" and d': "d' = d\<lparr>d_store := st'\<rparr>"
    using tasks_at_keys [OF t]
    by (auto simp: upd_task_def tryS_Inr loc_of_def split: sum.splits prod.splits)
  have le: "plan_le (plan_of (d_store d) p) (plan_of st' p)" for p
    by (rule updatePlanTask_le [OF u _ _ fin f]) (simp_all add: status_only_def no_task_patch_def)
  have pr: "st_projects st' = st_projects (d_store d)" by (rule updatePlanTask_file [OF u]) simp
  show "d_le d d'" using le pr by (simp add: d_le_def d')
  fix t'
  assume t': "t' \<in> set (tasks_at d' path m s)" and slug: "pt_slug t' = pt_slug t"
  obtain e where v: "v = merge_task (d_iso d) m s (pt_slug t) (status_only st) e"
    and pl: "plan_of st' path = fs_put [m, s, task_file (pt_slug t)]
           (FFile (Some (clean_fm (taskToFrontmatter v))) (js_trim (desc_body (pt_description v))))
           (plan_of (d_store d) path)"
    by (rule updatePlanTask_file [OF u])
  obtain f' b' where f': "fs_get (plan_of st' path) [m, s, task_file (pt_slug t)] = Some (FFile (Some f') b')"
    "t' = taskFromFile (pt_slug t') m s (JObj f') b'"
    by (rule tasks_at_file [OF t']) (simp add: d' slug)
  have ne: "[m, s, task_file (pt_slug t)] \<noteq> []" by simp
  have "f' = clean_fm (taskToFrontmatter v)"
    using f'(1) unfolding pl plan_paths.rd_wr [OF ne] by simp
  then have "pt_status t' = nullish (Some (pt_status v)) (JStr ''pending'')"
    using f'(2) by (metis taskFromFile_written(5))
  then show "pt_status t' = JStr st" by (simp add: v status_only_def)
qed

subsection \<open>What a round settles\<close>

definition row_ok :: "(int \<times> exec_task) list \<Rightarrow> plan_task \<Rightarrow> bool" where
  "row_ok ex t \<longleftrightarrow> (\<forall>row. linked_row ex t = Some row \<longrightarrow> terminal_plan_status (et_status row) \<noteq> None \<longrightarrow>
     pt_executionTaskId t \<noteq> Some (JNum 0) \<longrightarrow> plan_terminal (pt_status t))"

lemma row_ok_le: "task_le t t' \<Longrightarrow> row_ok ex t \<Longrightarrow> row_ok ex t'"
  by (auto simp: row_ok_def task_le_def linked_row_def)

lemma row_ok_skip:
  assumes "\<not> wants_reconcile t \<or> linked_row ex t = None
    \<or> (\<exists>row. linked_row ex t = Some row \<and> terminal_plan_status (et_status row) = None)"
  shows "row_ok ex t"
  using assms
  by (auto simp: row_ok_def wants_reconcile_def linked_row_def is_truthy_def split: option.splits jval.splits)

definition slug_done :: "(int \<times> exec_task) list \<Rightarrow> string \<Rightarrow> string \<Rightarrow> string \<Rightarrow> string \<Rightarrow> daemon \<Rightarrow> bool" where
  "slug_done ex path m s slug d \<longleftrightarrow> (\<forall>t \<in> set (tasks_at d path m s). pt_slug t = slug \<longrightarrow> row_ok ex t)"

definition slice_done :: "(int \<times> exec_task) list \<Rightarrow> string \<Rightarrow> string \<Rightarrow> string \<Rightarrow> daemon \<Rightarrow> bool" where
  "slice_done ex path m s d \<longleftrightarrow> (\<forall>t \<in> set (tasks_at d path m s). row_ok ex t)"

definition milestone_done :: "(int \<times> exec_task) list \<Rightarrow> string \<Rightarrow> string \<Rightarrow> daemon \<Rightarrow> bool" where
  "milestone_done ex path m d \<longleftrightarrow> (\<forall>x \<in> set (slices_at d path m). slice_done ex path m (sl_slug x) d)"

definition project_done :: "(int \<times> exec_task) list \<Rightarrow> string \<Rightarrow> daemon \<Rightarrow> bool" where
  "project_done ex path d \<longleftrightarrow> (\<forall>x \<in> set (milestones_at d path). milestone_done ex path (ms_slug x) d)"

lemma slug_done_stable: "d_le d d' \<Longrightarrow> slug_done ex path m s slug d \<Longrightarrow> slug_done ex path m s slug d'"
  unfolding slug_done_def
proof (intro ballI impI)
  fix t'
  assume le: "d_le d d'" and old: "\<forall>t \<in> set (tasks_at d path m s). pt_slug t = slug \<longrightarrow> row_ok ex t"
    and t': "t' \<in> set (tasks_at d' path m s)" "pt_slug t' = slug"
  obtain t where t: "t \<in> set (tasks_at d path m s)" "task_le t t'"
    using tasks_back [OF le t'(1)] by blast
  have "pt_slug t = slug" using t(2) t'(2) by (simp add: task_le_def)
  with old t(1) have "row_ok ex t" by blast
  with t(2) show "row_ok ex t'" by (rule row_ok_le)
qed

lemma slice_done_stable: "d_le d d' \<Longrightarrow> slice_done ex path m s d \<Longrightarrow> slice_done ex path m s d'"
  unfolding slice_done_def by (metis tasks_back row_ok_le)

lemma milestone_done_stable: "d_le d d' \<Longrightarrow> milestone_done ex path m d \<Longrightarrow> milestone_done ex path m d'"
  unfolding milestone_done_def by (metis slices_back slice_done_stable)

lemma project_done_stable: "d_le d d' \<Longrightarrow> project_done ex path d \<Longrightarrow> project_done ex path d'"
  unfolding project_done_def by (metis milestones_back milestone_done_stable)

lemma terminal_plan_status_terminal: "terminal_plan_status x = Some st \<Longrightarrow> plan_terminal (JStr st)"
  by (cases x) (auto simp: plan_terminal_def)

lemma reconcile_task_settles:
  assumes t: "t \<in> set (tasks_at d0 path m s)" and le: "d_le d0 d"
    and run: "reconcile_task path ex t d = (Inr n, d')"
  shows "d_le d d'" and "slug_done ex path m s (pt_slug t) d'"
proof -
  consider (skip) "\<not> wants_reconcile t \<or> linked_row ex t = None
      \<or> (\<exists>row. linked_row ex t = Some row \<and> terminal_plan_status (et_status row) = None)"
    | (upd) row st where "wants_reconcile t" "linked_row ex t = Some row"
        "terminal_plan_status (et_status row) = Some st"
  proof (cases "linked_row ex t")
    case (Some row)
    then show ?thesis using that by (cases "terminal_plan_status (et_status row)") auto
  qed (use that in blast)
  then have "d_le d d' \<and> slug_done ex path m s (pt_slug t) d'"
  proof cases
    case skip
    then have d': "d' = d" using run by (auto simp: reconcile_task_def split: if_splits)
    have "slug_done ex path m s (pt_slug t) d0"
      using row_ok_skip [OF skip] tasks_at_inj [OF _ t] by (auto simp: slug_done_def)
    then show ?thesis using slug_done_stable [OF le] d_le_refl d' by simp
  next
    case upd
    then obtain v where u: "upd_task (loc_of path t) (status_only st) d = (Inr v, d')"
      using run by (auto simp: reconcile_task_def bindS_Inr)
    from le t obtain u0 where u0: "u0 \<in> set (tasks_at d path m s)" "pt_slug u0 = pt_slug t"
      using tasks_forth [OF le t] by (auto simp: task_le_def)
    have loc: "loc_of path u0 = loc_of path t"
      using tasks_at_keys [OF t] tasks_at_keys [OF u0(1)] u0(2) by (simp add: loc_of_def)
    note fin = terminal_plan_status_terminal [OF upd(3)]
    note w = upd_task_le [OF u [folded loc] u0(1) fin]
    show ?thesis using w fin u0(2) by (auto simp: slug_done_def row_ok_def)
  qed
  then show "d_le d d'" "slug_done ex path m s (pt_slug t) d'" by blast+
qed

lemma slice_flip_le:
  assumes "(if a then bindS (set_slice_status path m s x) (\<lambda>_. retS ())
      else if b then bindS (set_slice_status path m s y) (\<lambda>_. retS ()) else retS ()) d = (Inr u, d')"
  shows "d_le d d'"
  using assms by (auto simp: bindS_Inr d_le_refl dest: set_slice_status_le split: if_splits)

lemma milestone_flip_le:
  assumes "whenS a (bindS (set_milestone_status path m x) (\<lambda>_. retS ())) d = (Inr u, d')"
  shows "d_le d d'"
  using assms by (auto simp: whenS_run bindS_Inr d_le_refl dest: set_milestone_status_le split: if_splits)

lemma reconcile_slice_settles:
  assumes run: "reconcile_slice path ex m sl d = (Inr n, d')"
  shows "d_le d d' \<and> slice_done ex path m (sl_slug sl) d'"
proof (cases "listPlanTasks (plan_of (d_store d) path) m (sl_slug sl)")
  case (Inl e)
  then show ?thesis using run
    by (auto simp: reconcile_slice_def orSkipS_def d_le_refl slice_done_def tasks_at_def or_empty_def)
next
  case (Inr pts)
  with run obtain k d1 u and updated :: "plan_task list" where
    r1: "sumS pts (reconcile_task path ex) d = (Inr k, d1)" and
    r2: "(if all_status ''completed'' (map pt_status updated) \<and> sl_status sl \<noteq> JStr ''completed''
          then bindS (set_slice_status path m (sl_slug sl) ''completed'') (\<lambda>_. retS ())
          else if any_status ''failed'' (map pt_status updated) \<and> sl_status sl \<noteq> JStr ''failed''
          then bindS (set_slice_status path m (sl_slug sl) ''failed'') (\<lambda>_. retS ())
          else retS ()) d1 = (Inr u, d')"
    by (auto simp: reconcile_slice_def orSkipS_def bindS_Inr tasks_of_def Let_def)
  have mem: "t \<in> set pts \<longleftrightarrow> t \<in> set (tasks_at d path m (sl_slug sl))" for t
    by (simp add: tasks_at_def or_empty_def Inr)
  have fwd: "plan_progress.forward d (reconcile_task path ex t)" if "t \<in> set pts" for t
    unfolding plan_progress.forward_def using reconcile_task_settles(1) that mem by blast
  have l1: "d_le d d1"
    by (rule plan_progress.forwardD [OF plan_progress.forward_sum [OF fwd] d_le_refl r1])
  have l2: "d_le d1 d'" by (rule slice_flip_le [OF r2])
  have "slug_done ex path m (sl_slug sl) (pt_slug t) d1" if t: "t \<in> set pts" for t
    by (rule plan_progress.sum_establishes [OF r1 d_le_refl t fwd])
      (use reconcile_task_settles(2) mem t slug_done_stable in blast)+
  then have "slice_done ex path m (sl_slug sl) d1"
    unfolding slice_done_def slug_done_def using tasks_back [OF l1] mem by (metis task_le_def)
  then show ?thesis using l1 l2 d_le_trans slice_done_stable by blast
qed

lemma reconcile_milestone_settles:
  assumes run: "reconcile_milestone path ex m d = (Inr n, d')"
  shows "d_le d d' \<and> milestone_done ex path (ms_slug m) d'"
proof (cases "listSlices (plan_of (d_store d) path) (ms_slug m)")
  case (Inl e)
  then show ?thesis using run
    by (auto simp: reconcile_milestone_def orSkipS_def d_le_refl milestone_done_def slices_at_def or_empty_def)
next
  case (Inr sls)
  with run obtain k d1 u and updated :: "slice list" where
    r1: "sumS sls (reconcile_slice path ex (ms_slug m)) d = (Inr k, d1)" and
    r2: "whenS (all_status ''completed'' (map sl_status updated) \<and> ms_status m \<noteq> JStr ''completed'')
          (bindS (set_milestone_status path (ms_slug m) ''completed'') (\<lambda>_. retS ())) d1 = (Inr u, d')"
    by (auto simp: reconcile_milestone_def orSkipS_def bindS_Inr slices_of_def)
  have mem: "x \<in> set sls \<longleftrightarrow> x \<in> set (slices_at d path (ms_slug m))" for x
    by (simp add: slices_at_def or_empty_def Inr)
  have fwd: "plan_progress.forward d (reconcile_slice path ex (ms_slug m) x)" for x
    unfolding plan_progress.forward_def using reconcile_slice_settles by blast
  have l1: "d_le d d1"
    by (rule plan_progress.forwardD [OF plan_progress.forward_sum [OF fwd] d_le_refl r1])
  have l2: "d_le d1 d'" by (rule milestone_flip_le [OF r2])
  have done1: "slice_done ex path (ms_slug m) (sl_slug x) d1" if x: "x \<in> set sls" for x
    by (rule plan_progress.sum_establishes [OF r1 d_le_refl x fwd])
      (use reconcile_slice_settles slice_done_stable in blast)+
  have "milestone_done ex path (ms_slug m) d1"
    unfolding milestone_done_def
  proof
    fix x assume "x \<in> set (slices_at d1 path (ms_slug m))"
    then obtain y where "y \<in> set sls" "sl_slug y = sl_slug x" using slices_back [OF l1] mem by blast
    then show "slice_done ex path (ms_slug m) (sl_slug x) d1" using done1 by metis
  qed
  then show ?thesis using l1 l2 d_le_trans milestone_done_stable by blast
qed

lemma reconcile_project_settles:
  assumes run: "reconcile_project ex path d = (Inr n, d')"
  shows "d_le d d' \<and> project_done ex path d'"
proof (cases "listMilestones (plan_of (d_store d) path)")
  case (Inl e)
  then show ?thesis using run
    by (auto simp: reconcile_project_def orSkipS_def d_le_refl project_done_def milestones_at_def or_empty_def)
next
  case (Inr ms)
  with run have r1: "sumS ms (reconcile_milestone path ex) d = (Inr n, d')"
    by (simp add: reconcile_project_def orSkipS_def)
  have mem: "x \<in> set ms \<longleftrightarrow> x \<in> set (milestones_at d path)" for x
    by (simp add: milestones_at_def or_empty_def Inr)
  have fwd: "plan_progress.forward d (reconcile_milestone path ex x)" for x
    unfolding plan_progress.forward_def using reconcile_milestone_settles by blast
  have l1: "d_le d d'"
    by (rule plan_progress.forwardD [OF plan_progress.forward_sum [OF fwd] d_le_refl r1])
  have done1: "milestone_done ex path (ms_slug x) d'" if x: "x \<in> set ms" for x
    by (rule plan_progress.sum_establishes [OF r1 d_le_refl x fwd])
      (use reconcile_milestone_settles milestone_done_stable in blast)+
  have "project_done ex path d'"
    unfolding project_done_def
  proof
    fix x assume "x \<in> set (milestones_at d' path)"
    then obtain y where "y \<in> set ms" "ms_slug y = ms_slug x" using milestones_back [OF l1] mem by blast
    then show "milestone_done ex path (ms_slug x) d'" using done1 by metis
  qed
  then show ?thesis using l1 by blast
qed

subsection \<open>The whole pass\<close>

lemma project_rows_mem: "(m, s, t) \<in> set (project_rows es) \<longleftrightarrow>
    (\<exists>x \<in> set (or_empty (listMilestones es)). ms_slug x = m \<and>
     (\<exists>y \<in> set (or_empty (listSlices es m)). sl_slug y = s \<and> t \<in> set (or_empty (listPlanTasks es m s))))"
  by (auto simp: project_rows_def milestone_rows_def slice_rows_def)

lemma plan_rows_mem: "(pid, loc, t) \<in> set (plan_rows st) \<longleftrightarrow>
    (\<exists>path m s. (pid, path) \<in> set (project_paths st) \<and> (m, s, t) \<in> set (project_rows (plan_of st path))
      \<and> loc = \<lparr>pl_path = path, pl_milestone = m, pl_slice = s, pl_task = pt_slug t\<rparr>)"
  by (auto simp: plan_rows_def image_iff Bex_def)

lemma project_rows_back:
  assumes le: "d_le d d'" and r: "(m, s, t') \<in> set (project_rows (plan_of (d_store d') path))"
  shows "\<exists>t. (m, s, t) \<in> set (project_rows (plan_of (d_store d) path)) \<and> task_le t t'"
proof -
  from r obtain x y where x: "x \<in> set (milestones_at d' path)" "ms_slug x = m"
    and y: "y \<in> set (slices_at d' path m)" "sl_slug y = s" and t': "t' \<in> set (tasks_at d' path m s)"
    unfolding project_rows_mem milestones_at_def slices_at_def tasks_at_def by blast
  obtain x0 where x0: "x0 \<in> set (milestones_at d path)" "ms_slug x0 = m"
    using milestones_back [OF le x(1)] x(2) by blast
  obtain y0 where y0: "y0 \<in> set (slices_at d path m)" "sl_slug y0 = s"
    using slices_back [OF le y(1)] y(2) by blast
  obtain t where "t \<in> set (tasks_at d path m s)" "task_le t t'" using tasks_back [OF le t'] by blast
  with x0 y0 show ?thesis
    unfolding project_rows_mem milestones_at_def slices_at_def tasks_at_def by blast
qed

lemma map_of_filter_keys: "map_of (filter (\<lambda>(i, _). P i) xs) e = (if P e then map_of xs e else None)"
  by (induction xs) auto

text \<open>When \<open>reconcilePlanStatuses\<close> returns, every plan task of every project whose plan can be
  read, if its execution task has ended in the database, is completed or failed in its file.\<close>

theorem reconcilePlanStatuses_settles:
  assumes run: "reconcilePlanStatuses d = (Inr n, d')"
    and row: "(pid, loc, t') \<in> set (plan_rows (d_store d'))"
    and link: "pt_executionTaskId t' = Some (JNum e)" "e \<noteq> 0"
    and ended: "map_of (d_tasks d') e = Some r" "terminal_plan_status (et_status r) \<noteq> None"
  shows "plan_terminal (pt_status t')"
proof -
  from run obtain ex where ex: "exec_by_id d = Inr ex"
    and r1: "sumS (walks (d_store d)) (reconcile_project ex) d = (Inr n, d')"
    by (auto simp: reconcilePlanStatuses_def bindS_Inr)
  have fwd: "plan_progress.forward d (reconcile_project ex x)" for x
    unfolding plan_progress.forward_def using reconcile_project_settles by blast
  have le: "d_le d d'"
    by (rule plan_progress.forwardD [OF plan_progress.forward_sum [OF fwd] d_le_refl r1])
  obtain path m s where p: "(pid, path) \<in> set (project_paths (d_store d))"
    and tr: "(m, s, t') \<in> set (project_rows (plan_of (d_store d') path))"
  proof -
    have "project_paths (d_store d') = project_paths (d_store d)"
      using le by (simp add: project_paths_def d_le_def)
    with row that show thesis unfolding plan_rows_mem by auto
  qed
  obtain t where t: "(m, s, t) \<in> set (project_rows (plan_of (d_store d) path))" "task_le t t'"
    using project_rows_back [OF le tr] by blast
  have ids: "map_of ex e = (if Some (JNum e) \<in> set (reconcile_ids (d_store d)) then map_of (d_tasks d) e else None)"
    using ex map_of_filter_keys [of "\<lambda>i. Some (JNum i) \<in> set (reconcile_ids (d_store d))" "d_tasks d" e]
    by (auto simp: exec_by_id_def Let_def split: if_splits)
  show ?thesis
  proof (cases "Some (JNum e) \<in> set (reconcile_ids (d_store d))")
    case True
    have "path \<in> set (walks (d_store d))"
      using p t(1) by (force simp: walks_def is_ok_def project_rows_mem or_empty_mem split: sum.splits)
    then have "project_done ex path d'"
      by (rule plan_progress.sum_establishes [OF r1 d_le_refl _ fwd])
        (use reconcile_project_settles project_done_stable in blast)+
    then have "row_ok ex t'" using tr
      by (auto simp: project_done_def milestone_done_def slice_done_def project_rows_mem
          milestones_at_def slices_at_def tasks_at_def)
    moreover have "linked_row ex t' = Some r"
      using True ids ended(1) le link(1) by (simp add: linked_row_def d_le_def)
    ultimately show ?thesis using link ended(2) by (simp add: row_ok_def)
  next
    case False
    have e: "pt_executionTaskId t = Some (JNum e)" using t(2) link(1) by (simp add: task_le_def)
    have "(pid, \<lparr>pl_path = path, pl_milestone = m, pl_slice = s, pl_task = pt_slug t\<rparr>, t)
        \<in> set (plan_rows (d_store d))" using p t(1) unfolding plan_rows_mem by blast
    with False e have "\<not> wants_reconcile t" by (force simp: reconcile_ids_def)
    then have "plan_terminal (pt_status t)" using e link(2) by (simp add: wants_reconcile_def is_truthy_def)
    with t(2) show ?thesis by (simp add: task_le_def)
  qed
qed

definition demo_exec :: "task_status \<Rightarrow> exec_task" where
  "demo_exec st = \<lparr>et_project = Some 1, et_promptFile = Some ''/p/.flockctl/plan/00-core/00-api/00-route.md'',
     et_status = st, et_label = None, et_targetSlice = Some ''00-api'', et_maxRetries = 1,
     et_workingDir = Some ''/p'', et_error = None, et_completedAt = None\<rparr>"

definition demo_daemon :: "task_status \<Rightarrow> daemon" where
  "demo_daemon st = \<lparr>d_store = demo_store, d_tasks = [(5, demo_exec st)], d_nextId = 6, d_cache = [],
     d_events = [], d_broadcasts = [], d_launched = [], d_iso = ''now'', d_ms = 0\<rparr>"

lemma demo_reconcile:
  "(case reconcilePlanStatuses (demo_daemon DONE) of
      (Inr n, d') \<Rightarrow> n = 1 \<and> (case plan_rows (d_store d') of
         [(pid, loc, t)] \<Rightarrow> pt_executionTaskId t = Some (JNum 5) \<and> map_of (d_tasks d') 5 = Some (demo_exec DONE)
       | _ \<Rightarrow> False)
    | _ \<Rightarrow> False)"
  by code_simp

theorem reconcilePlanStatuses_settles_witness:
  "\<exists>d' pid loc t. reconcilePlanStatuses (demo_daemon DONE) = (Inr 1, d')
     \<and> (pid, loc, t) \<in> set (plan_rows (d_store d')) \<and> plan_terminal (pt_status t)"
proof -
  obtain r d' where run: "reconcilePlanStatuses (demo_daemon DONE) = (r, d')" by fastforce
  note d = demo_reconcile [unfolded run]
  obtain n where n: "r = Inr n" using d by (cases r) auto
  obtain pid loc t where rows: "plan_rows (d_store d') = [(pid, loc, t)]"
    using d unfolding n by (cases "plan_rows (d_store d')"; cases "tl (plan_rows (d_store d'))"; cases "hd (plan_rows (d_store d'))") auto
  have h: "n = 1" "pt_executionTaskId t = Some (JNum 5)" "map_of (d_tasks d') 5 = Some (demo_exec DONE)"
    using d unfolding n by (auto simp: rows)
  have "plan_terminal (pt_status t)"
    by (rule reconcilePlanStatuses_settles [OF run [unfolded n] _ h(2) _ h(3)])
      (simp_all add: rows demo_exec_def)
  then show ?thesis using run n h(1) rows by auto
qed

end
