(* ===== verification/AutoSync.thy ===== *)
theory AutoSync
  imports AutoReconcile
begin

text \<open>
  Facts about the executor's synchronisation: the resolver only ever answers with a plan task that
  carries the execution task, the aggregation writes the status its tasks imply and nothing else, a
  terminal execution task is written through to its plan task with exactly one event, and the sweep
  cancels exactly the orphans.  The last part shows where the resolver cache is trusted too long.
\<close>

subsection \<open>Slice and milestone writes leave the tasks alone\<close>

lemma collect_cong: "(\<And>x. x \<in> set xs \<Longrightarrow> f x = g x) \<Longrightarrow> collect f xs = collect g xs"
proof (induction xs)
  case (Cons x xs)
  have "collect f xs = collect g xs" "f x = g x" using Cons by simp_all
  then show ?case by (simp only: collect.simps)
qed simp

lemma listPlanTasks_over:
  assumes ex: "fs_get es p = Some (FFile fm0 b0)" and p: "p \<noteq> []"
    and kind: "[m, s] \<noteq> butlast p \<or> is_plan_md (last p) (FFile fm b) = is_plan_md (last p) (FFile fm0 b0)"
    and own: "\<And>name. p = [m, s, name] \<Longrightarrow> name = ''slice.md''"
  shows "listPlanTasks (fs_put p (FFile fm b) es) m s = listPlanTasks es m s"
proof -
  let ?es = "fs_put p (FFile fm b) es"
  have rd: "read_md ?es [m, s, name] = read_md es [m, s, name]" if "name \<noteq> ''slice.md''" for name
    by (rule read_md_over [OF ex p]) (use own that in blast)
  have c: "collect (\<lambda>name. bind_err (read_md ?es [m, s, name]) (\<lambda>(fm, body).
            Inr (Some (taskFromFile (take (length name - 3) name) m s fm body)))) names
    = collect (\<lambda>name. bind_err (read_md es [m, s, name]) (\<lambda>(fm, body).
            Inr (Some (taskFromFile (take (length name - 3) name) m s fm body)))) names"
    if "sortedMdFiles es [m, s] = Inr names" for names
    by (rule collect_cong) (use rd sortedMdFiles_name [OF that] in metis)
  show ?thesis
    unfolding listPlanTasks_def sortedMdFiles_over [OF ex p kind] Let_def
    by (cases "check_slug m"; cases "check_slug s"; cases "sortedMdFiles es [m, s]") (simp_all add: c)
qed

lemma listSlices_over:
  assumes ex: "fs_get es p = Some (FFile fm0 b0)" and p: "p \<noteq> []"
    and own: "\<And>slug. p \<noteq> [m, slug, ''slice.md'']"
  shows "listSlices (fs_put p (FFile fm b) es) m = listSlices es m"
proof -
  have ne: "[m, slug, ''slice.md''] \<noteq> p" for slug using own by blast
  show ?thesis unfolding listSlices_def sortedDirs_over [OF ex p]
      read_md_over [OF ex p ne] exists_path_over [OF ex p] ..
qed

lemma updateSlice_tasks:
  assumes "updateSlice now m s data es = Inr (x, es')"
  shows "listPlanTasks es' m' s' = listPlanTasks es m' s'"
proof -
  obtain fm0 b0 where ex: "fs_get es [m, s, ''slice.md''] = Some (FFile fm0 b0)"
    and es': "es' = fs_put [m, s, ''slice.md'']
      (FFile (Some (clean_fm (sliceToFrontmatter x))) (js_trim (desc_body (sl_description x)))) es"
    using assms by (rule updateSlice_Inr)
  show ?thesis unfolding es'
    by (rule listPlanTasks_over [OF ex]) (simp_all add: is_plan_md_def split: option.splits)
qed

lemma updateMilestone_tasks:
  assumes "updateMilestone now m data es = Inr (x, es')"
  shows "listPlanTasks es' m' s' = listPlanTasks es m' s'" and "listSlices es' m' = listSlices es m'"
proof -
  obtain fm0 b0 where ex: "fs_get es [m, ''milestone.md''] = Some (FFile fm0 b0)"
    and es': "es' = fs_put [m, ''milestone.md'']
      (FFile (Some (clean_fm (milestoneToFrontmatter x))) (js_trim (desc_body (ms_description x)))) es"
    using assms by (rule updateMilestone_Inr)
  show "listPlanTasks es' m' s' = listPlanTasks es m' s'" unfolding es'
    by (rule listPlanTasks_over [OF ex]) simp_all
  show "listSlices es' m' = listSlices es m'" unfolding es'
    by (rule listSlices_over [OF ex]) simp_all
qed

text \<open>A slice listed after a status write has that status.\<close>

lemma updateSlice_listed:
  assumes u: "updateSlice now m s data es = Inr (x, es')" and st: "sp_status data = Some v" "v \<noteq> JNull"
    and l: "listSlices es' m = Inr sls" "y \<in> set sls" "sl_slug y = s"
  shows "sl_status y = v"
proof -
  obtain e where x: "x = merge_slice now m s data e"
    and es': "es' = fs_put [m, s, ''slice.md'']
      (FFile (Some (clean_fm (sliceToFrontmatter x))) (js_trim (desc_body (sl_description x)))) es"
    using u by (rule updateSlice_Inr)
  have ne: "[m, s, ''slice.md''] \<noteq> []" by simp
  have rd: "read_md es' [m, s, ''slice.md''] = Inr (JObj (clean_fm (sliceToFrontmatter x)),
      js_trim (desc_body (sl_description x)))"
    unfolding es' read_md_def plan_paths.rd_wr [OF ne] by simp
  from l(1) obtain dirs where c: "collect (\<lambda>slug.
       if \<not> exists_path es' [m, slug, ''slice.md''] then Inr None
       else bind_err (read_md es' [m, slug, ''slice.md'']) (\<lambda>(fm, body).
              Inr (Some (sliceFromFile slug m fm body)))) dirs = Inr sls"
    unfolding listSlices_def bind_err_unit by (auto simp: bind_err_Inr_iff)
  from l(2) obtain slug fm b where y: "read_md es' [m, slug, ''slice.md''] = Inr (fm, b)"
    "y = sliceFromFile slug m fm b"
    unfolding collect_mem [OF c] by (auto simp: bind_err_Inr_iff split: if_splits)
  have "slug = s" using l(3) by (simp add: y(2) sliceFromFile_def)
  then have "sl_status y = nullish (fm_get (JObj (clean_fm (sliceToFrontmatter x))) ''status'') (JStr ''pending'')"
    using y rd by (simp add: sliceFromFile_def del: fm_get.simps)
  also have "\<dots> = v" unfolding slice_fm_status using st by (simp add: x merge_slice_def nullish_Some)
  finally show ?thesis .
qed

subsection \<open>Aggregation\<close>

lemma set_slice_status_tasks:
  "set_slice_status path m s st d = (Inr v, d') \<Longrightarrow> tasks_at d' p m' s' = tasks_at d p m' s'"
  using updateSlice_tasks
  by (auto simp: set_slice_status_def tryS_Inr tasks_at_def plan_of_set_plan
      split: sum.splits prod.splits)

lemma set_milestone_status_tasks:
  assumes "set_milestone_status path m st d = (Inr v, d')"
  shows "tasks_at d' p m' s' = tasks_at d p m' s'" and "slices_at d' p m' = slices_at d p m'"
  using assms updateMilestone_tasks
  by (auto simp: set_milestone_status_def tryS_Inr tasks_at_def slices_at_def plan_of_set_plan
      split: sum.splits prod.splits)

lemma slices_at_inj:
  assumes "x \<in> set (slices_at d path m)" "y \<in> set (slices_at d path m)" "sl_slug x = sl_slug y"
  shows "x = y"
proof -
  from assms(1) obtain sls where sls: "listSlices (plan_of (d_store d) path) m = Inr sls"
    by (auto simp: slices_at_def or_empty_mem)
  then obtain dirs where c: "collect (\<lambda>slug.
       if \<not> exists_path (plan_of (d_store d) path) [m, slug, ''slice.md''] then Inr None
       else bind_err (read_md (plan_of (d_store d) path) [m, slug, ''slice.md'']) (\<lambda>(fm, body).
              Inr (Some (sliceFromFile slug m fm body)))) dirs = Inr sls"
    unfolding listSlices_def bind_err_unit by (auto simp: bind_err_Inr_iff)
  have "\<exists>fm b. read_md (plan_of (d_store d) path) [m, sl_slug z, ''slice.md''] = Inr (fm, b)
      \<and> z = sliceFromFile (sl_slug z) m fm b" if "z \<in> set sls" for z
  proof -
    from that obtain slug fm b where z: "read_md (plan_of (d_store d) path) [m, slug, ''slice.md''] = Inr (fm, b)"
      "z = sliceFromFile slug m fm b"
      unfolding collect_mem [OF c] by (auto simp: bind_err_Inr_iff split: if_splits)
    have "sl_slug z = slug" by (simp add: z(2) sliceFromFile_def)
    show ?thesis unfolding \<open>sl_slug z = slug\<close> using z by (intro exI conjI)
  qed
  note in_file = this
  have mem: "x \<in> set sls" "y \<in> set sls" using assms(1,2) by (simp_all add: slices_at_def or_empty_def sls)
  obtain fm b where x: "read_md (plan_of (d_store d) path) [m, sl_slug x, ''slice.md''] = Inr (fm, b)"
    "x = sliceFromFile (sl_slug x) m fm b" using in_file [OF mem(1)] by blast
  obtain fm' b' where y: "read_md (plan_of (d_store d) path) [m, sl_slug y, ''slice.md''] = Inr (fm', b')"
    "y = sliceFromFile (sl_slug y) m fm' b'" using in_file [OF mem(2)] by blast
  have "fm' = fm" "b' = b" using x(1) y(1) assms(3) by simp_all
  then show ?thesis
    by (intro trans [OF x(2) [unfolded assms(3)] sym [OF y(2) [unfolded \<open>fm' = fm\<close> \<open>b' = b\<close>]]])
qed

lemma set_slice_status_listed:
  assumes "set_slice_status path m s st d = (Inr v, d')" and "y \<in> set (slices_at d' path m)" "sl_slug y = s"
  shows "sl_status y = JStr st"
proof -
  obtain es' where u: "updateSlice (d_iso d) m s (no_slice_patch\<lparr>sp_status := Some (JStr st)\<rparr>)
      (plan_of (d_store d) path) = Inr (v, es')" and d': "d' = d\<lparr>d_store := set_plan path es' (d_store d)\<rparr>"
    using assms(1) by (auto simp: set_slice_status_def tryS_Inr split: sum.splits prod.splits)
  from assms(2) obtain sls where "listSlices es' m = Inr sls" "y \<in> set sls"
    by (auto simp: slices_at_def d' plan_of_set_plan or_empty_mem)
  from updateSlice_listed [OF u _ _ this assms(3)] show ?thesis by simp
qed

lemma set_status_events:
  "set_slice_status path m s st d = (Inr v, d') \<Longrightarrow> d_events d' = d_events d \<and> d_cache d' = d_cache d"
  "set_milestone_status path m st d = (Inr w, d') \<Longrightarrow> d_events d' = d_events d \<and> d_cache d' = d_cache d"
  by (auto simp: set_slice_status_def set_milestone_status_def tryS_Inr split: sum.splits prod.splits)

lemma complete_milestone_run:
  assumes "complete_milestone_if_done path m d = (Inr u, d')"
  shows "d_le d d'" and "tasks_at d' p m' s' = tasks_at d p m' s'" and "slices_at d' p m' = slices_at d p m'"
    and "d_events d' = d_events d" and "d_cache d' = d_cache d"
proof -
  have "d' = d \<or> (\<exists>v. set_milestone_status path m ''completed'' d = (Inr v, d'))"
    using assms by (auto simp: complete_milestone_if_done_def slices_of_def milestones_of_def bindS_Inr
        whenS_run split: option.splits if_splits)
  then show "d_le d d'" "tasks_at d' p m' s' = tasks_at d p m' s'" "slices_at d' p m' = slices_at d p m'"
    "d_events d' = d_events d" "d_cache d' = d_cache d"
    using set_milestone_status_tasks set_milestone_status_le set_status_events(2) d_le_refl by metis+
qed

lemma broadcast_frame:
  "tasks_at (d\<lparr>d_broadcasts := b\<rparr>) = tasks_at d" "slices_at (d\<lparr>d_broadcasts := b\<rparr>) = slices_at d"
  "d_le e (d\<lparr>d_broadcasts := b\<rparr>) = d_le e d" "d_le (d\<lparr>d_broadcasts := b\<rparr>) e = d_le d e"
  by (simp_all add: tasks_at_def slices_at_def d_le_def fun_eq_iff)

text \<open>One aggregation, in two steps: the slice file, when its status changes, then the milestone's.\<close>

lemma aggregate_steps:
  assumes run: "aggregateSliceStatus path m s d = (Inr u, d')" and ts: "tasks_at d path m s \<noteq> []"
  obtains d1 where "complete_milestone_if_done path m d1 = (Inr u, d')"
    and "d_le d d1" and "\<And>p m' s'. tasks_at d1 p m' s' = tasks_at d p m' s'"
    and "d_events d1 = d_events d" and "d_cache d1 = d_cache d"
    and "\<And>x. x \<in> set (slices_at d1 path m) \<Longrightarrow> sl_slug x = s \<Longrightarrow>
      sl_status x = JStr (aggregate_of (map pt_status (tasks_at d path m s)))"
proof -
  from run obtain pts where pts: "listPlanTasks (plan_of (d_store d) path) m s = Inr pts"
    by (auto simp: aggregateSliceStatus_def bindS_Inr tasks_of_def)
  let ?new = "aggregate_of (map pt_status pts)"
  have t: "tasks_at d path m s = pts" by (simp add: tasks_at_def or_empty_def pts)
  from run ts obtain sls d1 where sls: "listSlices (plan_of (d_store d) path) m = Inr sls"
    and upd: "(case find (\<lambda>x. sl_slug x = s) sls of None \<Rightarrow> retS ()
        | Some c \<Rightarrow> whenS (sl_status c \<noteq> JStr ?new)
            (bindS (set_slice_status path m s ?new) (\<lambda>_. broadcast_slice s ?new))) d = (Inr (), d1)"
    and fin: "complete_milestone_if_done path m d1 = (Inr u, d')"
    by (auto simp: aggregateSliceStatus_def bindS_Inr tasks_of_def slices_of_def Let_def t pts)
  have at: "slices_at d path m = sls" by (simp add: slices_at_def or_empty_def sls)
  have inj: "x \<in> set sls \<Longrightarrow> y \<in> set sls \<Longrightarrow> sl_slug x = sl_slug y \<Longrightarrow> x = y" for x y
    using slices_at_inj [of x d path m y] at by simp
  consider (unchanged) "d1 = d" "\<And>x. x \<in> set sls \<Longrightarrow> sl_slug x = s \<Longrightarrow> sl_status x = JStr ?new"
    | (written) v d2 where "set_slice_status path m s ?new d = (Inr v, d2)"
        "d1 = d2\<lparr>d_broadcasts := d_broadcasts d2 @ [(s, ?new)]\<rparr>"
  proof (cases "find (\<lambda>x. sl_slug x = s) sls")
    case None
    have "d1 = d" using upd unfolding None by simp
    moreover have "x \<in> set sls \<Longrightarrow> sl_slug x \<noteq> s" for x using None by (simp add: find_None_iff)
    ultimately show ?thesis using that(1) by blast
  next
    case (Some c)
    then have c: "c \<in> set sls" "sl_slug c = s" by (auto simp: find_Some_iff)
    show ?thesis
    proof (cases "sl_status c = JStr ?new")
      case True
      then show ?thesis using upd Some that(1) inj c by (auto simp: whenS_run)
    next
      case False
      then show ?thesis using upd Some that(2) by (auto simp: whenS_run bindS_Inr broadcast_slice_def)
    qed
  qed
  then show thesis
  proof cases
    case unchanged
    then show ?thesis using that [OF fin] d_le_refl at by (simp add: t)
  next
    case written
    show ?thesis
    proof (rule that [OF fin])
      show "d_le d d1" using set_slice_status_le [OF written(1)] by (simp add: written(2) broadcast_frame)
      show "tasks_at d1 p m' s' = tasks_at d p m' s'" for p m' s'
        using set_slice_status_tasks [OF written(1)] by (simp add: written(2) broadcast_frame)
      show "d_events d1 = d_events d" "d_cache d1 = d_cache d"
        using set_status_events(1) [OF written(1)] by (simp_all add: written(2))
      show "sl_status x = JStr (aggregate_of (map pt_status (tasks_at d path m s)))"
        if "x \<in> set (slices_at d1 path m)" "sl_slug x = s" for x
        using set_slice_status_listed [OF written(1)] that by (simp add: written(2) broadcast_frame t)
    qed
  qed
qed

lemma aggregate_run:
  assumes run: "aggregateSliceStatus path m s d = (Inr u, d')" and ts: "tasks_at d path m s \<noteq> []"
  shows "d_le d d'" and "tasks_at d' p m' s' = tasks_at d p m' s'"
    and "x \<in> set (slices_at d' path m) \<Longrightarrow> sl_slug x = s \<Longrightarrow>
      sl_status x = JStr (aggregate_of (map pt_status (tasks_at d path m s)))"
    and "d_events d' = d_events d" and "d_cache d' = d_cache d"
proof -
  obtain d1 where d1: "complete_milestone_if_done path m d1 = (Inr u, d')" "d_le d d1"
    "\<And>p m' s'. tasks_at d1 p m' s' = tasks_at d p m' s'"
    "d_events d1 = d_events d" "d_cache d1 = d_cache d"
    "\<And>x. x \<in> set (slices_at d1 path m) \<Longrightarrow> sl_slug x = s \<Longrightarrow>
      sl_status x = JStr (aggregate_of (map pt_status (tasks_at d path m s)))"
    by (rule aggregate_steps [OF run ts]) blast
  note c = complete_milestone_run [OF d1(1)]
  show "d_le d d'" by (rule d_le_trans [OF d1(2) c(1)])
  show "tasks_at d' p m' s' = tasks_at d p m' s'" using c(2) d1(3) by simp
  show "d_events d' = d_events d" "d_cache d' = d_cache d" using c(4,5) d1(4,5) by simp_all
  show "x \<in> set (slices_at d' path m) \<Longrightarrow> sl_slug x = s \<Longrightarrow>
      sl_status x = JStr (aggregate_of (map pt_status (tasks_at d path m s)))"
    using c(3) d1(6) by simp
qed

subsection \<open>The resolver\<close>

definition carries :: "pstore \<Rightarrow> plan_loc \<Rightarrow> int \<Rightarrow> bool" where
  "carries st loc e \<longleftrightarrow>
     list_ex (\<lambda>t. pt_slug t = pl_task loc \<and> pt_executionTaskId t = Some (JNum e))
       (or_empty (listPlanTasks (plan_of st (pl_path loc)) (pl_milestone loc) (pl_slice loc)))"

definition cache_coherent :: "daemon \<Rightarrow> bool" where
  "cache_coherent d \<longleftrightarrow> jm_ok (d_cache d) \<and>
     (\<forall>e loc t. map_of (d_cache d) e = Some (Some loc, t) \<longrightarrow> carries (d_store d) loc e)"

lemma carries_cong: "st_plans st' = st_plans st \<Longrightarrow> carries st' loc e = carries st loc e"
  by (simp add: carries_def plan_of_def)

lemma plan_rows_cong: "st_plans st' = st_plans st \<Longrightarrow> st_projects st' = st_projects st \<Longrightarrow>
    plan_rows st' = plan_rows st"
  by (simp add: plan_rows_def plan_of_def project_paths_def)

lemma index_location_carries: "index_location st e = Some loc \<Longrightarrow> carries st loc e"
  by (auto simp: index_location_def carries_def split: option.splits if_splits)

lemma walk_location_carries:
  assumes "walk_location st e = Some (pid, loc)"
  shows "carries st loc e"
proof -
  from assms obtain t where "find (\<lambda>(_, _, pt). pt_executionTaskId pt = Some (JNum e)) (plan_rows st)
      = Some (pid, loc, t)" by (auto simp: walk_location_def)
  then have "(pid, loc, t) \<in> set (plan_rows st)" "pt_executionTaskId t = Some (JNum e)"
    by (auto simp: find_Some_iff in_set_conv_nth)
  then show ?thesis
    by (auto simp: plan_rows_mem project_rows_mem carries_def list_ex_iff)
qed

lemma walk_location_None: "walk_location st e = None \<Longrightarrow> (pid, loc, t) \<in> set (plan_rows st) \<Longrightarrow>
    pt_executionTaskId t \<noteq> Some (JNum e)"
  by (force simp: walk_location_def find_None_iff)

lemma readCached_cases:
  obtains (hit) v where "readCachedPlanTask now e c = (Some (Some v), c)" "\<exists>t. map_of c e = Some (Some v, t)"
    | (negative) t where "readCachedPlanTask now e c = (Some None, c)" "map_of c e = Some (None, t)"
        "now - t \<le> PLAN_TASK_NEGATIVE_TTL_MS"
    | (miss) "fst (readCachedPlanTask now e c) = None"
        "snd (readCachedPlanTask now e c) = c \<or> snd (readCachedPlanTask now e c) = AList.delete e c"
proof (cases "map_of c e")
  case None
  then show thesis using miss by (simp add: readCachedPlanTask_def)
next
  case (Some vt)
  obtain v t where vt: "vt = (v, t)" by (cases vt)
  show thesis
  proof (cases v)
    case None
    show thesis
    proof (cases "now - t > PLAN_TASK_NEGATIVE_TTL_MS")
      case True
      then show thesis using miss Some vt None by (simp add: readCachedPlanTask_def)
    next
      case False
      then show thesis using negative Some vt None by (simp add: readCachedPlanTask_def)
    qed
  next
    case (Some v')
    then show thesis using hit \<open>map_of c e = Some vt\<close> vt by (simp add: readCachedPlanTask_def)
  qed
qed

lemma coherent_put:
  assumes "cache_coherent d" "\<And>loc. v = Some loc \<Longrightarrow> carries (d_store d) loc e"
  shows "cache_coherent (cache_write e v d)"
  unfolding cache_coherent_def
proof (intro conjI allI impI)
  have ok: "jm_ok (d_cache d)" using assms(1) by (simp add: cache_coherent_def)
  show "jm_ok (d_cache (cache_write e v d))"
    using put_capped_ok [OF ok] by (simp add: cache_write_def writeCachedPlanTask_def)
  fix e' loc t
  assume m: "map_of (d_cache (cache_write e v d)) e' = Some (Some loc, t)"
  show "carries (d_store (cache_write e v d)) loc e'"
  proof (cases "e' = e")
    case True
    then show ?thesis using m assms(2)
      by (auto simp: cache_write_def writeCachedPlanTask_def put_capped_def jm_get_set)
  next
    case False
    with m have "map_of (d_cache d) e' = Some (Some loc, t)"
      using put_capped_other [OF ok False, of MAX_PLAN_TASK_CACHE_ENTRIES "(v, d_ms d)"]
      by (auto simp: cache_write_def writeCachedPlanTask_def)
    then show ?thesis using assms(1) by (simp add: cache_coherent_def cache_write_def)
  qed
qed

lemma coherent_index: "cache_coherent (index_put e pid loc d) = cache_coherent d"
  "cache_coherent (index_purge e d) = cache_coherent d"
proof -
  have "carries (setPlanTaskExecutionIndex e x st) l k = carries st l k" for x st l k
    by (rule carries_cong) simp
  moreover have "carries (deletePlanTaskExecutionIndex e st) l k = carries st l k" for st l k
    by (rule carries_cong) simp
  ultimately show "cache_coherent (index_put e pid loc d) = cache_coherent d"
    "cache_coherent (index_purge e d) = cache_coherent d"
    by (simp_all add: cache_coherent_def index_put_def index_purge_def)
qed

lemma coherent_delete: "cache_coherent d \<Longrightarrow> cache_coherent (d\<lparr>d_cache := AList.delete e (d_cache d)\<rparr>)"
  by (auto simp: cache_coherent_def jm_get_del distinct_delete)

text \<open>The run of a lookup: a cache hit, a fresh negative entry, or a search.\<close>

lemma find_cases:
  assumes "findPlanTaskByExecutionId e d = (r, d')" and coh: "cache_coherent d"
  obtains (hit) loc where "r = Some loc" "d' = d" "carries (d_store d) loc e"
      "\<exists>t. map_of (d_cache d) e = Some (Some loc, t)"
    | (negative) t where "r = None" "d' = d" "map_of (d_cache d) e = Some (None, t)"
        "d_ms d - t \<le> PLAN_TASK_NEGATIVE_TTL_MS"
    | (index) loc d0 where "r = Some loc" "d' = cache_write e r d0" "cache_coherent d0" "carries (d_store d0) loc e"
        "d_store d0 = d_store d" "d_ms d0 = d_ms d"
    | (walk) pid loc d0 where "r = Some loc" "d' = index_put e pid loc (cache_write e r d0)" "cache_coherent d0"
        "carries (d_store d0) loc e" "st_plans (d_store d0) = st_plans (d_store d)" "d_ms d0 = d_ms d"
    | (none) d0 where "r = None" "d' = cache_write e None d0" "cache_coherent d0"
        "st_plans (d_store d0) = st_plans (d_store d)" "d_ms d0 = d_ms d"
        "\<And>pid loc t. (pid, loc, t) \<in> set (plan_rows (d_store d)) \<Longrightarrow> pt_executionTaskId t \<noteq> Some (JNum e)"
proof (cases rule: readCached_cases [of "d_ms d" e "d_cache d"])
  case (hit v)
  then have "r = Some v" "d' = d" using assms(1) by (simp_all add: findPlanTaskByExecutionId_def)
  moreover from hit(2) coh have "carries (d_store d) v e" by (auto simp: cache_coherent_def)
  ultimately show thesis using that(1) hit(2) by blast
next
  case (negative t)
  then show thesis using that(2) assms(1) by (simp add: findPlanTaskByExecutionId_def)
next
  case miss
  define c where "c = snd (readCachedPlanTask (d_ms d) e (d_cache d))"
  define dc where "dc = d\<lparr>d_cache := c\<rparr>"
  have rd: "readCachedPlanTask (d_ms d) e (d_cache d) = (None, c)" using miss(1) by (simp add: c_def prod_eq_iff)
  have dc: "cache_coherent dc" "d_store dc = d_store d" "d_ms dc = d_ms d"
    using miss(2) coh coherent_delete [OF coh, of e] by (auto simp: dc_def c_def)
  define d1 where "d1 = (if getPlanTaskExecutionIndex (d_store dc) e = None then dc else index_purge e dc)"
  have d1: "cache_coherent d1" using dc(1) by (simp add: d1_def coherent_index)
  have d1': "st_plans (d_store d1) = st_plans (d_store d)"
    "st_projects (d_store d1) = st_projects (d_store d)" "d_ms d1 = d_ms d"
    using dc by (simp_all add: d1_def index_purge_def)
  note d1 = d1 d1'
  have run: "(r, d') = (case index_location (d_store dc) e of
           Some loc \<Rightarrow> (Some loc, cache_write e (Some loc) dc)
         | None \<Rightarrow> (case walk_location (d_store d1) e of
                 Some (pid, loc) \<Rightarrow> (Some loc, index_put e pid loc (cache_write e (Some loc) d1))
               | None \<Rightarrow> (None, cache_write e None d1)))"
    using assms(1) unfolding findPlanTaskByExecutionId_def rd prod.case option.case Let_def
      dc_def [symmetric] d1_def [symmetric] by (rule sym)
  show thesis
  proof (cases "index_location (d_store dc) e")
    case (Some loc)
    then show thesis using run index_location_carries [OF Some] that(3) [of loc dc] dc by simp
  next
    case None
    note none = None
    show thesis
    proof (cases "walk_location (d_store d1) e")
      case None
      have "(pid, loc, t) \<in> set (plan_rows (d_store d)) \<Longrightarrow> pt_executionTaskId t \<noteq> Some (JNum e)" for pid loc t
        using walk_location_None [OF None] plan_rows_cong [OF d1(2,3)] by simp
      then show thesis using run none None that(5) [of d1] d1 by simp
    next
      case (Some pl)
      obtain pid loc where pl: "pl = (pid, loc)" by (cases pl)
      show thesis using run none Some pl walk_location_carries [of "d_store d1" e pid loc]
          that(4) [of loc pid d1] d1 by simp
    qed
  qed
qed

text \<open>The resolver is right as long as its cache is: it answers with a plan task whose file carries
  the execution task; it answers \<open>null\<close> only when no readable plan task of any project does, or within
  a minute of having found so; it changes no plan file, keeps the cache right, and asked again it
  gives the same answer.\<close>

theorem findPlanTaskByExecutionId_sound:
  assumes "findPlanTaskByExecutionId e d = (r, d')" and "cache_coherent d"
  shows "cache_coherent d' \<and> st_plans (d_store d') = st_plans (d_store d)
    \<and> (case r of Some loc \<Rightarrow> carries (d_store d') loc e
       | None \<Rightarrow> (\<exists>t. map_of (d_cache d) e = Some (None, t) \<and> d_ms d \<le> t + 60000)
           \<or> (\<forall>(pid, loc, t) \<in> set (plan_rows (d_store d)). pt_executionTaskId t \<noteq> Some (JNum e)))
    \<and> fst (findPlanTaskByExecutionId e d') = r"
  using assms
proof (cases rule: find_cases)
  case (hit loc)
  then show ?thesis using assms(2) by (auto simp: findPlanTaskByExecutionId_def readCachedPlanTask_def)
next
  case (negative t)
  then show ?thesis using assms(2)
    by (auto simp: findPlanTaskByExecutionId_def readCachedPlanTask_def PLAN_TASK_NEGATIVE_TTL_MS_def)
next
  case (index loc d0)
  have get: "map_of (d_cache d') e = Some (Some loc, d_ms d0)"
    by (simp add: index cache_write_def writeCachedPlanTask_def put_capped_def jm_get_set)
  have "cache_coherent d'" unfolding index(2) by (rule coherent_put) (use index in simp_all)
  then show ?thesis using index(1,2,4,5) get
    by (simp add: findPlanTaskByExecutionId_def readCachedPlanTask_def) (simp add: cache_write_def)
next
  case (walk pid loc d0)
  have get: "map_of (d_cache d') e = Some (Some loc, d_ms d0)"
    by (simp add: walk cache_write_def writeCachedPlanTask_def put_capped_def jm_get_set index_put_def)
  have "cache_coherent d'" unfolding walk(2) coherent_index by (rule coherent_put) (use walk in simp_all)
  moreover have "st_plans (d_store d') = st_plans (d_store d0)"
    by (simp add: walk(2) index_put_def cache_write_def)
  ultimately show ?thesis using walk(1,4,5) get carries_cong [of "d_store d'" "d_store d0" loc e]
    by (simp add: findPlanTaskByExecutionId_def readCachedPlanTask_def)
next
  case (none d0)
  have get: "map_of (d_cache d') e = Some (None, d_ms d0)" "d_ms d' = d_ms d0"
    by (simp_all add: none(2) cache_write_def writeCachedPlanTask_def put_capped_def jm_get_set)
  have "cache_coherent d'" unfolding none(2) by (rule coherent_put) (use none in simp_all)
  moreover have "st_plans (d_store d') = st_plans (d_store d)" using none(4) by (simp add: none(2) cache_write_def)
  ultimately show ?thesis using none(1) none(6) get
    by (auto simp: findPlanTaskByExecutionId_def readCachedPlanTask_def PLAN_TASK_NEGATIVE_TTL_MS_def)
qed

definition demo_loc :: plan_loc where
  "demo_loc = \<lparr>pl_path = ''/p'', pl_milestone = ''00-core'', pl_slice = ''00-api'', pl_task = ''00-route''\<rparr>"

lemma demo_find: "fst (findPlanTaskByExecutionId 5 (demo_daemon DONE)) = Some demo_loc"
  by code_simp

lemma demo_coherent: "cache_coherent (demo_daemon st)"
  by (simp add: cache_coherent_def demo_daemon_def)

theorem findPlanTaskByExecutionId_sound_witness:
  "\<exists>d'. findPlanTaskByExecutionId 5 (demo_daemon DONE) = (Some demo_loc, d')
     \<and> carries (d_store d') demo_loc 5"
proof -
  obtain d' where r: "findPlanTaskByExecutionId 5 (demo_daemon DONE) = (Some demo_loc, d')"
    using demo_find by (cases "findPlanTaskByExecutionId 5 (demo_daemon DONE)") simp
  from findPlanTaskByExecutionId_sound [OF r demo_coherent] have "carries (d_store d') demo_loc 5" by simp
  with r show ?thesis by blast
qed

subsection \<open>Synchronising\<close>

lemma upd_task_frame:
  assumes "upd_task loc patch d = (Inr v, d')"
  shows "d_cache d' = d_cache d" "d_events d' = d_events d" "d_tasks d' = d_tasks d"
  using assms by (auto simp: upd_task_def tryS_Inr split: sum.splits prod.splits)

lemma find_frame:
  assumes "findPlanTaskByExecutionId e d = (r, d')"
  shows "d_tasks d' = d_tasks d" "d_events d' = d_events d"
  using assms by (auto simp: findPlanTaskByExecutionId_def cache_write_def index_put_def index_purge_def
      Let_def split: prod.splits option.splits if_splits)

lemma carries_task:
  assumes "carries (d_store d) loc e"
  obtains t where "t \<in> set (tasks_at d (pl_path loc) (pl_milestone loc) (pl_slice loc))"
    and "pt_slug t = pl_task loc" and "pt_executionTaskId t = Some (JNum e)"
    and "loc = loc_of (pl_path loc) t"
proof -
  from assms obtain t where t: "t \<in> set (tasks_at d (pl_path loc) (pl_milestone loc) (pl_slice loc))"
    "pt_slug t = pl_task loc" "pt_executionTaskId t = Some (JNum e)"
    by (auto simp: carries_def tasks_at_def list_ex_iff)
  moreover have "loc = loc_of (pl_path loc) t"
    using tasks_at_keys [OF t(1)] t(2) by (simp add: loc_of_def)
  ultimately show thesis using that by blast
qed

lemma find_carries:
  assumes "findPlanTaskByExecutionId e d = (Some loc, d')" and "cache_coherent d"
  shows "carries (d_store d') loc e"
  using assms
proof (cases rule: find_cases)
  case (index loc' d0)
  then show ?thesis by (simp add: cache_write_def)
next
  case (walk pid loc' d0)
  have "carries (d_store d') loc e = carries (d_store d0) loc e"
    by (rule carries_cong) (simp add: walk(2) index_put_def cache_write_def)
  then show ?thesis using walk(1,4) by simp
qed simp_all

text \<open>When an execution task has ended, a successful \<open>syncPlanFromExecutionTask\<close> leaves the plan
  task it resolves to completed (for \<open>done\<close>) or failed, the slice of that plan task with the status
  its tasks imply, every execution task as it was, and emits exactly one terminal event, with the
  task's status.\<close>

theorem syncPlanFromExecutionTask_settles:
  assumes run: "syncPlanFromExecutionTask e d = (Inr (), d')" and coh: "cache_coherent d"
    and row: "map_of (d_tasks d) e = Some row" and fin: "terminal_plan_status (et_status row) = Some ps"
    and loc: "fst (findPlanTaskByExecutionId e d) = Some loc"
  shows "(\<exists>t \<in> set (tasks_at d' (pl_path loc) (pl_milestone loc) (pl_slice loc)).
        pt_slug t = pl_task loc \<and> pt_executionTaskId t = Some (JNum e) \<and> pt_status t = JStr ps)
    \<and> (\<forall>x \<in> set (slices_at d' (pl_path loc) (pl_milestone loc)). sl_slug x = pl_slice loc \<longrightarrow>
        sl_status x = JStr (aggregate_of
          (map pt_status (tasks_at d' (pl_path loc) (pl_milestone loc) (pl_slice loc)))))
    \<and> d_tasks d' = d_tasks d
    \<and> d_events d' = d_events d @
        [\<lparr>te_task = e, te_status = task_status_str (et_status row), te_error = et_error row\<rparr>]"
proof -
  let ?p = "pl_path loc" and ?m = "pl_milestone loc" and ?s = "pl_slice loc"
  obtain d1 where f: "findPlanTaskByExecutionId e d = (Some loc, d1)"
    using loc by (cases "findPlanTaskByExecutionId e d") simp
  have sound: "carries (d_store d1) loc e" by (rule find_carries [OF f coh])
  have ps: "planStatus (et_status row) = Some ps" "ps = ''completed'' \<or> ps = ''failed''"
    using fin by (cases "et_status row"; simp)+
  obtain v d2 u d3 where u: "upd_task loc (status_only ps) d1 = (Inr v, d2)"
    and agg: "aggregateSliceStatus ?p ?m ?s d2 = (Inr u, d3)"
    and d': "d' = d3\<lparr>d_events := d_events d3 @
        [\<lparr>te_task = e, te_status = task_status_str (et_status row), te_error = et_error row\<rparr>]\<rparr>"
    using run ps by (auto simp: syncPlanFromExecutionTask_def bindS_Inr row find_loc_def f whenS_run)
  obtain t where t: "t \<in> set (tasks_at d1 ?p ?m ?s)" "pt_slug t = pl_task loc"
    "pt_executionTaskId t = Some (JNum e)" and loc_t: "loc = loc_of ?p t"
    by (rule carries_task [OF sound])
  have u': "upd_task (loc_of ?p t) (status_only ps) d1 = (Inr v, d2)"
    unfolding loc_t [symmetric] by (rule u)
  note w1 = upd_task_le(1) [OF u' t(1) terminal_plan_status_terminal [OF fin]]
  note w2 = upd_task_le(2) [OF u' t(1) terminal_plan_status_terminal [OF fin]]
  obtain t2 where t2: "t2 \<in> set (tasks_at d2 ?p ?m ?s)" "task_le t t2" using tasks_forth [OF w1 t(1)] by blast
  then have ne: "tasks_at d2 ?p ?m ?s \<noteq> []" by auto
  note a = aggregate_run [OF agg ne]
  have ev: "d_events d3 = d_events d"
    using a(4) upd_task_frame(2) [OF u] find_frame(2) [OF f] by simp
  have tk: "d_tasks d3 = d_tasks d"
    using a(1) w1 find_frame(1) [OF f] by (simp add: d_le_def)
  have at: "tasks_at d' ?p ?m ?s = tasks_at d2 ?p ?m ?s" "slices_at d' ?p ?m = slices_at d3 ?p ?m"
    using a(2) by (simp_all add: d' tasks_at_def slices_at_def)
  have "pt_slug t2 = pl_task loc" "pt_executionTaskId t2 = Some (JNum e)" "pt_status t2 = JStr ps"
    using t2 t w2 by (simp_all add: task_le_def)
  then show ?thesis using t2(1) a(3) ev tk unfolding at by (auto simp: d')
qed

lemma demo_sync: "is_ok (fst (syncPlanFromExecutionTask 5 (demo_daemon DONE)))"
  by code_simp

lemma demo_row: "map_of (d_tasks (demo_daemon st)) 5 = Some (demo_exec st)" "et_status (demo_exec st) = st"
  by (simp_all add: demo_daemon_def demo_exec_def)

theorem syncPlanFromExecutionTask_settles_witness:
  "\<exists>d'. syncPlanFromExecutionTask 5 (demo_daemon DONE) = (Inr (), d')
     \<and> (\<exists>t \<in> set (tasks_at d' ''/p'' ''00-core'' ''00-api''). pt_slug t = ''00-route''
         \<and> pt_executionTaskId t = Some (JNum 5) \<and> pt_status t = JStr ''completed'')"
proof -
  obtain d' where run: "syncPlanFromExecutionTask 5 (demo_daemon DONE) = (Inr (), d')"
    using demo_sync by (cases "syncPlanFromExecutionTask 5 (demo_daemon DONE)")
      (auto simp: is_ok_def split: sum.splits)
  have fin: "terminal_plan_status (et_status (demo_exec DONE)) = Some ''completed''"
    by (simp add: demo_row)
  have "\<exists>t \<in> set (tasks_at d' (pl_path demo_loc) (pl_milestone demo_loc) (pl_slice demo_loc)).
        pt_slug t = pl_task demo_loc \<and> pt_executionTaskId t = Some (JNum 5) \<and> pt_status t = JStr ''completed''"
    using syncPlanFromExecutionTask_settles [OF run demo_coherent demo_row(1) fin demo_find] by (rule conjunct1)
  then show ?thesis using run unfolding demo_loc_def plan_loc.simps by (intro exI conjI)
qed

text \<open>An execution task that is queued, parked or waiting for input is not written through.\<close>

lemma sync_waiting:
  assumes "syncPlanFromExecutionTask e d = (r, d')" "map_of (d_tasks d) e = Some row"
    and "planStatus (et_status row) = None" "cache_coherent d"
  shows "r = Inr () \<and> st_plans (d_store d') = st_plans (d_store d) \<and> d_events d' = d_events d"
proof -
  obtain x d1 where f: "findPlanTaskByExecutionId e d = (x, d1)" by fastforce
  have "d' = d1" "r = Inr ()"
    using assms(1-3) by (auto simp: syncPlanFromExecutionTask_def bindS_def find_loc_def f split: option.splits)
  moreover have "st_plans (d_store d1) = st_plans (d_store d)"
    using f assms(4) by (cases rule: find_cases) (auto simp: cache_write_def index_put_def)
  ultimately show ?thesis using find_frame(2) [OF f] by simp
qed

subsection \<open>Repointing\<close>

lemma updatePlanTask_get:
  assumes u: "updatePlanTask now path m s slug data st = Inr (t, st')" and nn: "tp_status data = Some (JStr x)"
  shows "\<exists>t'. getPlanTask (plan_of st' path) m s slug = Inr (Some t')
    \<and> pt_status t' = JStr x \<and> pt_executionTaskId t' = pt_executionTaskId t"
proof -
  obtain e where t: "t = merge_task now m s slug data e"
    and ok: "check_slug m = Inr ()" "check_slug s = Inr ()" "check_slug slug = Inr ()"
    by (rule updatePlanTask_Inr [OF u])
  obtain fm0 b0 where pl: "plan_of st' path = fs_put [m, s, task_file slug]
      (FFile (Some (clean_fm (taskToFrontmatter t))) (js_trim (desc_body (pt_description t)))) (plan_of st path)"
    by (rule updatePlanTask_file [OF u])
  have ne: "[m, s, task_file slug] \<noteq> []" by simp
  show ?thesis
    unfolding getPlanTask_def exists_path_def read_md_def pl plan_paths.rd_wr [OF ne]
    using nn by (simp add: ok taskFromFile_written t del: fm_get.simps)
qed

lemma getPlanTask_over:
  assumes "fs_get es p = Some (FFile fm0 b0)" "p \<noteq> []" "p \<noteq> [m, s, task_file slug]"
  shows "getPlanTask (fs_put p (FFile fm b) es) m s slug = getPlanTask es m s slug"
  unfolding getPlanTask_def exists_path_over [OF assms(1,2)] read_md_over [OF assms(1,2) assms(3) [symmetric]] ..

definition sees :: "string \<Rightarrow> string \<Rightarrow> string \<Rightarrow> string \<Rightarrow> plan_error + plan_task option \<Rightarrow> daemon \<Rightarrow> bool" where
  "sees p m s slug r d \<longleftrightarrow> getPlanTask (plan_of (d_store d) p) m s slug = r"

lemma sees_slice [keeps_intros]:
  assumes "slug \<noteq> ''slice''"
  shows "keeps (sees p m s slug r) (set_slice_status path m' s' st)"
proof -
  have "getPlanTask es' m s slug = getPlanTask es m s slug"
    if u: "updateSlice now m' s' data es = Inr (x, es')" for now data es x es'
  proof -
    obtain fm0 b0 where ex: "fs_get es [m', s', ''slice.md''] = Some (FFile fm0 b0)"
      and es': "es' = fs_put [m', s', ''slice.md'']
        (FFile (Some (clean_fm (sliceToFrontmatter x))) (js_trim (desc_body (sl_description x)))) es"
      using u by (rule updateSlice_Inr)
    show ?thesis unfolding es' by (rule getPlanTask_over [OF ex]) (use assms task_file_slice [of slug] in auto)
  qed
  then show ?thesis unfolding set_slice_status_def
    by (intro keeps_try) (auto simp: sees_def plan_of_set_plan split: sum.splits prod.splits)
qed

lemma sees_milestone [keeps_intros]: "keeps (sees p m s slug r) (set_milestone_status path m' st)"
proof -
  have "getPlanTask es' m s slug = getPlanTask es m s slug"
    if u: "updateMilestone now m' data es = Inr (x, es')" for now data es x es'
  proof -
    obtain fm0 b0 where ex: "fs_get es [m', ''milestone.md''] = Some (FFile fm0 b0)"
      and es': "es' = fs_put [m', ''milestone.md'']
        (FFile (Some (clean_fm (milestoneToFrontmatter x))) (js_trim (desc_body (ms_description x)))) es"
      using u by (rule updateMilestone_Inr)
    show ?thesis unfolding es' by (rule getPlanTask_over [OF ex]) simp_all
  qed
  then show ?thesis unfolding set_milestone_status_def
    by (intro keeps_try) (auto simp: sees_def plan_of_set_plan split: sum.splits prod.splits)
qed

lemma aggregate_getPlanTask:
  assumes run: "aggregateSliceStatus path m' s' d = (Inr u, d')" and ns: "slug \<noteq> ''slice''"
  shows "getPlanTask (plan_of (d_store d') p) m s slug = getPlanTask (plan_of (d_store d) p) m s slug"
proof -
  let ?P = "sees p m s slug (getPlanTask (plan_of (d_store d) p) m s slug)"
  have "keeps ?P (complete_milestone_if_done path m')"
    unfolding complete_milestone_if_done_def slices_of_def milestones_of_def by (intro keeps_intros)
  moreover have "keeps ?P (broadcast_slice s' st)" for st
    unfolding broadcast_slice_def by (intro keeps_intros) (simp add: sees_def)
  ultimately have "keeps ?P (aggregateSliceStatus path m' s')"
    unfolding aggregateSliceStatus_def tasks_of_def slices_of_def Let_def
    by (intro keeps_intros sees_slice [OF ns])
  from keepsD [OF this run] show ?thesis by (simp add: sees_def)
qed

text \<open>A successful \<open>repointPlanTask\<close> links the plan task that carried the old execution task to the
  new one, marks it active, gives its slice the status its tasks imply, and leaves no cached answer
  behind; when the old execution task has no plan task it changes no plan file and says so.\<close>

theorem repointPlanTask_links:
  assumes run: "repointPlanTask old new d = (Inr b, d')" and coh: "cache_coherent d"
  shows "(case fst (findPlanTaskByExecutionId old d) of
      None \<Rightarrow> \<not> b \<and> st_plans (d_store d') = st_plans (d_store d)
    | Some loc \<Rightarrow> b \<and> d_cache d' = []
       \<and> (\<exists>t. getPlanTask (plan_of (d_store d') (pl_path loc)) (pl_milestone loc) (pl_slice loc) (pl_task loc)
              = Inr (Some t) \<and> pt_executionTaskId t = Some (JNum new) \<and> pt_status t = JStr ''active''))"
proof -
  obtain x d1 where f: "findPlanTaskByExecutionId old d = (x, d1)" by fastforce
  show ?thesis
  proof (cases x)
    case None
    have "st_plans (d_store d1) = st_plans (d_store d)"
      using f coh by (cases rule: find_cases) (auto simp: cache_write_def index_put_def)
    then show ?thesis using run f None by (auto simp: repointPlanTask_def bindS_Inr find_loc_def)
  next
    case (Some loc)
    let ?p = "pl_path loc" and ?m = "pl_milestone loc" and ?s = "pl_slice loc"
    let ?patch = "(status_only ''active'')\<lparr>tp_executionTaskId := Some (JNum new)\<rparr>"
    have sound: "carries (d_store d1) loc old" using find_carries [OF f [unfolded Some] coh] .
    obtain v d2 u d3 where u: "upd_task loc ?patch d1 = (Inr v, d2)"
      and agg: "aggregateSliceStatus ?p ?m ?s d2 = (Inr u, d3)"
      and d': "b" "d' = d3\<lparr>d_cache := []\<rparr>"
      using run f Some by (auto simp: repointPlanTask_def bindS_Inr find_loc_def clearPlanTaskByExecutionCache_def)
    obtain st' where upd: "updatePlanTask (d_iso d1) ?p ?m ?s (pl_task loc) ?patch (d_store d1) = Inr (v, st')"
      and d2: "d2 = d1\<lparr>d_store := st'\<rparr>"
      using u by (auto simp: upd_task_def tryS_Inr split: sum.splits prod.splits)
    obtain t where t: "t \<in> set (tasks_at d1 ?p ?m ?s)" "pt_slug t = pl_task loc"
      by (rule carries_task [OF sound])
    have ns: "pl_task loc \<noteq> ''slice''" using tasks_at_file [OF t(1)] t(2) by metis
    have g2: "\<exists>t. getPlanTask (plan_of (d_store d2) ?p) ?m ?s (pl_task loc) = Inr (Some t)
        \<and> pt_executionTaskId t = Some (JNum new) \<and> pt_status t = JStr ''active''"
    proof -
      obtain e where "v = merge_task (d_iso d1) ?m ?s (pl_task loc) ?patch e"
        by (rule updatePlanTask_Inr [OF upd])
      then have "pt_executionTaskId v = Some (JNum new)" by simp
      then show ?thesis using updatePlanTask_get [OF upd, of "''active''"]
        by (auto simp: d2 status_only_def)
    qed
    have "getPlanTask (plan_of (d_store d3) ?p) ?m ?s (pl_task loc)
        = getPlanTask (plan_of (d_store d2) ?p) ?m ?s (pl_task loc)"
      by (rule aggregate_getPlanTask [OF agg ns])
    with g2 show ?thesis using f Some d' by auto
  qed
qed

theorem repointPlanTask_links_witness:
  "\<exists>d' t. repointPlanTask 5 9 (demo_daemon FAILED) = (Inr True, d')
     \<and> getPlanTask (plan_of (d_store d') ''/p'') ''00-core'' ''00-api'' ''00-route'' = Inr (Some t)
     \<and> pt_executionTaskId t = Some (JNum 9)"
proof -
  have ok: "fst (repointPlanTask 5 9 (demo_daemon FAILED)) = Inr True" by code_simp
  have loc: "fst (findPlanTaskByExecutionId 5 (demo_daemon FAILED)) = Some demo_loc" by code_simp
  obtain d' where run: "repointPlanTask 5 9 (demo_daemon FAILED) = (Inr True, d')"
    using ok by (cases "repointPlanTask 5 9 (demo_daemon FAILED)") simp
  note w = repointPlanTask_links [OF run demo_coherent, unfolded loc option.case,
      THEN conjunct2, THEN conjunct2, unfolded demo_loc_def plan_loc.simps]
  from w obtain t where "getPlanTask (plan_of (d_store d') ''/p'') ''00-core'' ''00-api'' ''00-route''
      = Inr (Some t)" "pt_executionTaskId t = Some (JNum 9)" by blast
  with run show ?thesis by (intro exI conjI)
qed

subsection \<open>The orphan sweep\<close>

definition referenced :: "pstore \<Rightarrow> int \<Rightarrow> bool" where
  "referenced st e \<longleftrightarrow> (\<exists>(pid, loc, t) \<in> set (plan_rows st). pt_executionTaskId t = Some (JNum e))"

lemma live_exec_ids_iff: "Some (JNum e) \<in> set (live_exec_ids st) \<longleftrightarrow> e \<noteq> 0 \<and> referenced st e"
  by (force simp: live_exec_ids_def referenced_def is_truthy_def)

lemma map_of_map_rows: "map_of (map (\<lambda>(i, t). (i, f i t)) xs) e = map_option (f e) (map_of xs e)"
  by (induction xs) auto

lemma inside_plan_paths: "inside_plan st t \<Longrightarrow> project_paths st \<noteq> []"
  by (auto simp: inside_plan_def split: option.splits)

lemma sweep_rows: "map_of (d_tasks (snd (cancelOrphanedExecutionTasks d))) e =
    map_option (\<lambda>t. if orphaned (d_store d) (e, t) then cancel_row (d_iso d) t else t) (map_of (d_tasks d) e)"
proof (cases "project_paths (d_store d) = []")
  case True
  then have "\<not> orphaned (d_store d) (e, t)" for t using inside_plan_paths by (auto simp: orphaned_def)
  then show ?thesis using True by (simp add: cancelOrphanedExecutionTasks_def option.map_ident)
next
  case False
  then show ?thesis
    by (simp add: cancelOrphanedExecutionTasks_def Let_def
        map_of_map_rows [of "\<lambda>i t. if orphaned (d_store d) (i, t) then cancel_row (d_iso d) t else t"])
qed

lemma sweep_store: "d_store (snd (cancelOrphanedExecutionTasks d)) = d_store d"
  by (simp add: cancelOrphanedExecutionTasks_def Let_def)

text \<open>The sweep touches no execution task that a readable plan task refers to, and none that has
  ended; afterwards every task still open inside a plan directory is referred to by a plan task, and
  sweeping again finds nothing.\<close>

theorem cancelOrphanedExecutionTasks_exact:
  fixes d :: daemon
  defines "d' \<equiv> snd (cancelOrphanedExecutionTasks d)"
  shows "(map_of (d_tasks d) e = Some t \<and> (e \<noteq> 0 \<and> referenced (d_store d) e \<or> et_status t \<notin> set sweepable)
      \<longrightarrow> map_of (d_tasks d') e = Some t)
    \<and> (map_of (d_tasks d') e = Some t \<and> et_status t \<in> set sweepable \<and> inside_plan (d_store d) t
      \<longrightarrow> e \<noteq> 0 \<and> referenced (d_store d) e)
    \<and> fst (cancelOrphanedExecutionTasks d') = 0"
proof (intro conjI impI)
  assume "map_of (d_tasks d) e = Some t \<and> (e \<noteq> 0 \<and> referenced (d_store d) e \<or> et_status t \<notin> set sweepable)"
  then show "map_of (d_tasks d') e = Some t"
    unfolding d'_def sweep_rows by (auto simp: orphaned_def live_exec_ids_iff)
next
  assume h: "map_of (d_tasks d') e = Some t \<and> et_status t \<in> set sweepable \<and> inside_plan (d_store d) t"
  then obtain t0 where "map_of (d_tasks d) e = Some t0"
    "t = (if orphaned (d_store d) (e, t0) then cancel_row (d_iso d) t0 else t0)"
    unfolding d'_def sweep_rows by auto
  with h have "\<not> orphaned (d_store d) (e, t)"
    by (auto simp: sweepable_def cancel_row_def split: if_splits)
  with h show "e \<noteq> 0" "referenced (d_store d) e" by (auto simp: orphaned_def live_exec_ids_iff)
next
  have "\<not> orphaned (d_store d) (i, if orphaned (d_store d) (i, t) then cancel_row (d_iso d) t else t)" for i t
    by (auto simp: orphaned_def cancel_row_def sweepable_def)
  then show "fst (cancelOrphanedExecutionTasks d') = 0"
    unfolding d'_def by (auto simp: cancelOrphanedExecutionTasks_def Let_def filter_empty_conv)
qed

theorem cancelOrphanedExecutionTasks_exact_witness:
  "map_of (d_tasks (snd (cancelOrphanedExecutionTasks (demo_daemon RUNNING)))) 5 = Some (demo_exec RUNNING)"
proof -
  have "referenced (d_store (demo_daemon RUNNING)) 5" unfolding referenced_def by code_simp
  then show ?thesis
    using cancelOrphanedExecutionTasks_exact [where d = "demo_daemon RUNNING" and e = 5 and t = "demo_exec RUNNING",
        THEN conjunct1] demo_row [of RUNNING] by simp
qed

text \<open>When one milestone file of a project cannot be parsed, the sweep sees none of that project's
  references but still counts its directory: a running execution task that its plan refers to is
  cancelled as an orphan.\<close>

theorem cancelOrphaned_unreadable_project:
  assumes proj: "(pid, path) \<in> set (project_paths (d_store d))"
    and bad: "listMilestones (plan_of (d_store d) path) = Inl err"
    and others: "\<forall>(pid', loc, t) \<in> set (plan_rows (d_store d)).
        pl_path loc \<noteq> path \<longrightarrow> pt_executionTaskId t \<noteq> Some (JNum e)"
    and row: "map_of (d_tasks d) e = Some t" "et_status t \<in> set sweepable"
    and prompt: "et_promptFile t = Some (getPlanDir path @ ''/'' @ rest)"
  shows "\<exists>t'. map_of (d_tasks (snd (cancelOrphanedExecutionTasks d))) e = Some t' \<and> et_status t' = CANCELLED"
proof -
  have "\<not> referenced (d_store d) e"
  proof
    assume "referenced (d_store d) e"
    then obtain pid' loc t where r: "(pid', loc, t) \<in> set (plan_rows (d_store d))"
      "pt_executionTaskId t = Some (JNum e)" by (auto simp: referenced_def)
    with others have "pl_path loc = path" by blast
    with r(1) bad show False by (auto simp: plan_rows_mem project_rows_mem or_empty_def)
  qed
  moreover have "inside_plan (d_store d) t"
    using proj prompt by (force simp: inside_plan_def list_ex_iff is_prefix_of_iff getPlanDir_def)
  ultimately have "orphaned (d_store d) (e, t)" using row by (simp add: orphaned_def live_exec_ids_iff)
  then show ?thesis unfolding sweep_rows row by (simp add: cancel_row_def)
qed

definition broken_daemon :: daemon where
  "broken_daemon = (demo_daemon RUNNING)\<lparr>d_store := demo_store\<lparr>st_plans :=
     [(''/p'', demo_slice_dir @ [(''01-next'', FDir [(''milestone.md'',
         FFile (Some [(''title'', JStr ''Next''), (''mission_id'', JStr ''none'')]) [])])])]\<rparr>\<rparr>"

theorem cancelOrphaned_unreadable_project_witness:
  "is_ok (getPlanTask (plan_of (d_store broken_daemon) ''/p'') ''00-core'' ''00-api'' ''00-route'')
   \<and> (\<exists>t'. map_of (d_tasks (snd (cancelOrphanedExecutionTasks broken_daemon))) 5 = Some t'
        \<and> et_status t' = CANCELLED)"
proof
  show "is_ok (getPlanTask (plan_of (d_store broken_daemon) ''/p'') ''00-core'' ''00-api'' ''00-route'')"
    by code_simp
  have h: "(1, ''/p'') \<in> set (project_paths (d_store broken_daemon))"
    "listMilestones (plan_of (d_store broken_daemon) ''/p'') = Inl BadMissionId"
    "\<forall>(pid', loc, t) \<in> set (plan_rows (d_store broken_daemon)).
        pl_path loc \<noteq> ''/p'' \<longrightarrow> pt_executionTaskId t \<noteq> Some (JNum 5)"
    "map_of (d_tasks broken_daemon) 5 = Some (demo_exec RUNNING)"
    "et_status (demo_exec RUNNING) \<in> set sweepable"
    "et_promptFile (demo_exec RUNNING) = Some (getPlanDir ''/p'' @ ''/'' @ ''00-core/00-api/00-route.md'')"
    by code_simp+
  show "\<exists>t'. map_of (d_tasks (snd (cancelOrphanedExecutionTasks broken_daemon))) 5 = Some t'
        \<and> et_status t' = CANCELLED"
    by (rule cancelOrphaned_unreadable_project [OF h])
qed

subsection \<open>A cached answer outlives its plan task\<close>

lemma deletePlanTask_Inr:
  assumes "deletePlanTask path m s slug st = Inr st'"
  shows "check_slug m = Inr ()" "check_slug s = Inr ()" "check_slug slug = Inr ()"
    and "plan_of st' path = fs_del [m, s, task_file slug] (plan_of st path)"
proof -
  let ?st = "set_plan path (fs_del [m, s, task_file slug] (plan_of st path)) st"
  from assms obtain fm b where ok: "is_ok (check_slug m)" "is_ok (check_slug s)" "is_ok (check_slug slug)"
    and st': "st' = (case fm_get fm ''execution_task_id'' of
        Some (JNum e) \<Rightarrow> deletePlanTaskExecutionIndex e ?st | _ \<Rightarrow> ?st)"
    unfolding deletePlanTask_def Let_def bind_err_unit
    by (auto simp: bind_err_Inr_iff simp del: fs_del.simps split: if_splits)
  from ok show "check_slug m = Inr ()" "check_slug s = Inr ()" "check_slug slug = Inr ()"
    by (auto simp: is_ok_def split: sum.splits)
  show "plan_of st' path = fs_del [m, s, task_file slug] (plan_of st path)"
    unfolding st' by (auto simp: plan_of_set_plan simp del: fs_del.simps split: option.splits jval.splits)
qed

text \<open>Deleting a plan task does not clear the resolver cache, and a cached location is not checked
  again: the resolver keeps answering with the deleted task, and synchronising its ended execution
  task throws instead of falling through to the search.\<close>

theorem stale_cache_after_delete:
  assumes "map_of (d_cache d) e = Some (Some loc, t)"
    and "deletePlanTask (pl_path loc) (pl_milestone loc) (pl_slice loc) (pl_task loc) (d_store d) = Inr st'"
    and "map_of (d_tasks d) e = Some row" and "terminal_plan_status (et_status row) \<noteq> None"
  shows "findPlanTaskByExecutionId e (d\<lparr>d_store := st'\<rparr>) = (Some loc, d\<lparr>d_store := st'\<rparr>)
    \<and> syncPlanFromExecutionTask e (d\<lparr>d_store := st'\<rparr>) = (Inl NotFound, d\<lparr>d_store := st'\<rparr>)"
proof -
  let ?p = "[pl_milestone loc, pl_slice loc, task_file (pl_task loc)]"
  let ?d = "d\<lparr>d_store := st'\<rparr>"
  have f: "findPlanTaskByExecutionId e ?d = (Some loc, ?d)"
    using assms(1) by (simp add: findPlanTaskByExecutionId_def readCachedPlanTask_def)
  note ok = deletePlanTask_Inr(1-3) [OF assms(2)] and pl = deletePlanTask_Inr(4) [OF assms(2)]
  have ne: "?p \<noteq> []" by simp
  have "getPlanTask (plan_of st' (pl_path loc)) (pl_milestone loc) (pl_slice loc) (pl_task loc) = Inr None"
    unfolding getPlanTask_def ok exists_path_def pl plan_paths.rd_rm [OF ne] by simp
  then have "updatePlanTask now (pl_path loc) (pl_milestone loc) (pl_slice loc) (pl_task loc) data st'
      = Inl NotFound" for now data
    by (simp add: updatePlanTask_def ok)
  then have u: "upd_task loc data ?d = (Inl NotFound, ?d)" for data by (simp add: upd_task_def tryS_def)
  obtain ps where ps: "planStatus (et_status row) = Some ps" using assms(4) by (cases "et_status row") auto
  have "syncPlanFromExecutionTask e ?d = (Inl NotFound, ?d)"
    using f u ps assms(3) by (simp add: syncPlanFromExecutionTask_def bindS_def find_loc_def)
  with f show ?thesis by blast
qed

definition cached_daemon :: daemon where
  "cached_daemon = (demo_daemon DONE)\<lparr>d_cache := [(5, (Some demo_loc, 0))]\<rparr>"

theorem stale_cache_after_delete_witness:
  "\<exists>st'. fst (findPlanTaskByExecutionId 5 (cached_daemon\<lparr>d_store := st'\<rparr>)) = Some demo_loc
     \<and> fst (syncPlanFromExecutionTask 5 (cached_daemon\<lparr>d_store := st'\<rparr>)) = Inl NotFound"
proof -
  have "is_ok (deletePlanTask (pl_path demo_loc) (pl_milestone demo_loc) (pl_slice demo_loc)
      (pl_task demo_loc) (d_store cached_daemon))" by code_simp
  then obtain st' where st': "deletePlanTask (pl_path demo_loc) (pl_milestone demo_loc) (pl_slice demo_loc)
      (pl_task demo_loc) (d_store cached_daemon) = Inr st'" by (auto simp: is_ok_def split: sum.splits)
  have c: "map_of (d_cache cached_daemon) 5 = Some (Some demo_loc, 0)"
    "map_of (d_tasks cached_daemon) 5 = Some (demo_exec DONE)"
    "terminal_plan_status (et_status (demo_exec DONE)) \<noteq> None"
    by (simp_all add: cached_daemon_def demo_row)
  from stale_cache_after_delete [OF c(1) st' c(2,3)] show ?thesis by (intro exI [of _ st']) simp
qed

end
