(* ===== verification/AutoRun.thy ===== *)
theory AutoRun
  imports AutoSync DependencyGraph
begin

text \<open>
  The run of a milestone, the other half of \<open>src/src/services/auto-executor.ts\<close>.

  The two nested loops over waves have one skeleton: launch every item of a wave, wait until all
  have settled (\<open>Promise.allSettled\<close>), go on unless the run was stopped.  \<open>runner_step\<close> is that
  skeleton as a step relation, for slices and for plan tasks.  What is done at the ends of the loops
  (\<open>milestone_begin\<close>, \<open>milestone_finish\<close>, \<open>slice_begin\<close>, \<open>slice_finish\<close>) and the synchronous part of
  \<open>executePlanTask\<close> are state transformers of the daemon.  The promise at the end of
  \<open>executePlanTask\<close> is the record \<open>wait\<close> with its three handlers; \<open>wait_step\<close> runs them on the events
  of the event loop.
\<close>

subsection \<open>The registry of runs\<close>

record ae_state =
  ae_project :: int
  ae_path :: string
  ae_milestone :: string
  ae_running :: bool
  ae_aborted :: bool

type_synonym registry = "(string \<times> ae_state) list"

text \<open>The synchronous part of \<open>startAutoExecution\<close>: the state of the run that was started, if any.\<close>

definition startAutoExecution :: "int \<Rightarrow> string \<Rightarrow> string \<Rightarrow> registry \<Rightarrow> ae_state option \<times> registry" where
  "startAutoExecution projectId projectPath milestoneSlug reg =
     (if jm_has reg milestoneSlug then (None, reg)
      else let st = \<lparr>ae_project = projectId, ae_path = projectPath, ae_milestone = milestoneSlug,
                      ae_running = True, ae_aborted = False\<rparr>
           in (Some st, AList.update milestoneSlug st reg))"

text \<open>The \<open>finally\<close> clause.\<close>

definition endAutoExecution :: "string \<Rightarrow> registry \<Rightarrow> registry" where
  "endAutoExecution milestoneSlug reg = AList.delete milestoneSlug reg"

text \<open>The second component is the state object, mutated, of the run that was stopped.\<close>

definition stopAutoExecution :: "string \<Rightarrow> registry \<Rightarrow> bool \<times> ae_state option \<times> registry" where
  "stopAutoExecution milestoneSlug reg =
     (case map_of reg milestoneSlug of
        Some st \<Rightarrow> (True, Some (st\<lparr>ae_running := False, ae_aborted := True\<rparr>), AList.delete milestoneSlug reg)
      | None \<Rightarrow> (False, None, reg))"

definition getAutoExecutionStatus :: "string \<Rightarrow> registry \<Rightarrow> bool" where
  "getAutoExecutionStatus milestoneSlug reg = jm_has reg milestoneSlug"

subsection \<open>The ends of the two loops\<close>

text \<open>\<open>depends ?? []\<close>; what is not a list has no method \<open>every\<close>.\<close>

definition depends_list :: "jval option \<Rightarrow> plan_error + jval list" where
  "depends_list v = (case v of None \<Rightarrow> Inr [] | Some JNull \<Rightarrow> Inr [] | Some (JArr xs) \<Rightarrow> Inr xs
     | Some _ \<Rightarrow> Inl PlanTypeError)"

definition status_text :: "jval \<Rightarrow> string option" where
  "status_text v = (case v of JStr s \<Rightarrow> Some s | _ \<Rightarrow> None)"

fun wave_items :: "(string \<times> jval option \<times> jval) list \<Rightarrow> plan_error + jval dep_item list" where
  "wave_items [] = Inr []"
| "wave_items ((slug, deps, st) # xs) =
     bind_err (depends_list deps) (\<lambda>ds. bind_err (wave_items xs) (\<lambda>is.
       Inr (\<lparr>di_id = JStr slug, di_depends = ds, di_status = status_text st\<rparr> # is)))"

definition slice_waves :: "slice list \<Rightarrow> plan_error + jval wave list" where
  "slice_waves slices =
     bind_err (wave_items (map (\<lambda>s. (sl_slug s, sl_depends s, sl_status s)) slices))
       (\<lambda>items. Inr (computeWaves items))"

definition task_waves :: "plan_task list \<Rightarrow> plan_error + jval wave list" where
  "task_waves ts =
     bind_err (wave_items (map (\<lambda>t. (pt_slug t, pt_depends t, pt_status t)) ts))
       (\<lambda>items. Inr (computeWaves items))"

definition milestone_begin :: "ae_state \<Rightarrow> jval wave list dact" where
  "milestone_begin st =
     bindS (set_milestone_status (ae_path st) (ae_milestone st) ''active'') (\<lambda>_.
     bindS (slices_of (ae_path st) (ae_milestone st)) (\<lambda>slices.
     readS (\<lambda>_. slice_waves slices)))"

definition milestone_finish :: "ae_state \<Rightarrow> unit dact" where
  "milestone_finish st =
     bindS (slices_of (ae_path st) (ae_milestone st)) (\<lambda>finalSlices.
     bindS (set_milestone_status (ae_path st) (ae_milestone st)
              (if all_status ''completed'' (map sl_status finalSlices) then ''completed'' else ''active''))
       (\<lambda>_. retS ()))"

text \<open>\<open>None\<close> is the early return for a slice that is completed or failed.\<close>

definition slice_begin :: "ae_state \<Rightarrow> string \<Rightarrow> jval wave list option dact" where
  "slice_begin st sliceSlug =
     bindS (slices_of (ae_path st) (ae_milestone st)) (\<lambda>slices.
       if (case find (\<lambda>s. sl_slug s = sliceSlug) slices of None \<Rightarrow> False
           | Some c \<Rightarrow> plan_terminal (sl_status c))
       then retS None
       else
         bindS (set_slice_status (ae_path st) (ae_milestone st) sliceSlug ''active'') (\<lambda>_.
         bindS (broadcast_slice sliceSlug ''active'') (\<lambda>_.
         bindS (tasks_of (ae_path st) (ae_milestone st) sliceSlug) (\<lambda>ts.
         bindS (readS (\<lambda>_. task_waves ts)) (\<lambda>ws. retS (Some ws))))))"

definition slice_outcome :: "jval list \<Rightarrow> string" where
  "slice_outcome xs = (if all_status ''completed'' xs then ''completed''
     else if any_status ''failed'' xs then ''failed'' else ''active'')"

definition slice_finish :: "ae_state \<Rightarrow> string \<Rightarrow> unit dact" where
  "slice_finish st sliceSlug =
     bindS (tasks_of (ae_path st) (ae_milestone st) sliceSlug) (\<lambda>finalTasks.
       let newStatus = slice_outcome (map pt_status finalTasks) in
       bindS (set_slice_status (ae_path st) (ae_milestone st) sliceSlug newStatus) (\<lambda>_.
       broadcast_slice sliceSlug newStatus))"

subsection \<open>Resuming at boot\<close>

text \<open>The milestones of one project that \<open>resumeStaleMilestones\<close> starts again: active, with a slice
  that is neither completed nor failed.  (A slice listing that throws ends the whole pass.)\<close>

fun stale_of :: "plan_dir \<Rightarrow> milestone list \<Rightarrow> plan_error + string list" where
  "stale_of es [] = Inr []"
| "stale_of es (m # ms) =
     (if ms_status m \<noteq> JStr ''active'' then stale_of es ms
      else bind_err (listSlices es (ms_slug m)) (\<lambda>slices. bind_err (stale_of es ms) (\<lambda>rest.
             Inr (if list_ex (\<lambda>s. \<not> plan_terminal (sl_status s)) slices then ms_slug m # rest else rest))))"

definition resumeStaleMilestones :: "plan_dir \<Rightarrow> plan_error + string list" where
  "resumeStaleMilestones es = stale_of es (or_empty (listMilestones es))"

subsection \<open>Starting a plan task\<close>

text \<open>\<open>eq(tasks.id, v)\<close>: a text operand that is a decimal number is converted.\<close>

definition task_by_id :: "jval option \<Rightarrow> daemon \<Rightarrow> plan_error + (int \<times> exec_task) option" where
  "task_by_id v d =
     (case v of
        Some (JNum n) \<Rightarrow> Inr (map_option (Pair n) (map_of (d_tasks d) n))
      | Some (JStr s) \<Rightarrow>
          if s \<noteq> [] \<and> list_all is_digit s
          then Inr (map_option (Pair (int (nat_of_str s))) (map_of (d_tasks d) (int (nat_of_str s))))
          else Inr None
      | _ \<Rightarrow> Inl PlanTypeError)"

definition reusable :: "jval option \<Rightarrow> daemon \<Rightarrow> plan_error + int option" where
  "reusable v d =
     (if is_truthy v
      then bind_err (task_by_id v d) (\<lambda>r. Inr (case r of
             None \<Rightarrow> None
           | Some (e, t) \<Rightarrow> if et_status t \<in> set sweepable then Some e else None))
      else Inr None)"

definition new_exec_task :: "ae_state \<Rightarrow> string \<Rightarrow> string \<Rightarrow> exec_task" where
  "new_exec_task st sliceSlug taskSlug =
     \<lparr>et_project = Some (ae_project st),
      et_promptFile = Some (getPlanDir (ae_path st) @ ''/'' @ ae_milestone st @ ''/'' @ sliceSlug
                            @ ''/'' @ taskSlug @ ''.md''),
      et_status = QUEUED, et_label = Some (''plan-task-'' @ taskSlug),
      et_targetSlice = Some sliceSlug, et_maxRetries = 1, et_workingDir = Some (ae_path st),
      et_error = None, et_completedAt = None\<rparr>"

definition insert_task :: "exec_task \<Rightarrow> int dact" where
  "insert_task row = (\<lambda>d. (Inr (d_nextId d),
     d\<lparr>d_tasks := d_tasks d @ [(d_nextId d, row)], d_nextId := d_nextId d + 1\<rparr>))"

datatype started = Returned | Waiting int | RejectedAtOnce

definition executePlanTask :: "ae_state \<Rightarrow> string \<Rightarrow> string \<Rightarrow> started dact" where
  "executePlanTask st sliceSlug taskSlug =
     bindS (tasks_of (ae_path st) (ae_milestone st) sliceSlug) (\<lambda>ts.
       case find (\<lambda>t. pt_slug t = taskSlug) ts of
         None \<Rightarrow> retS Returned
       | Some planTask \<Rightarrow>
           if plan_terminal (pt_status planTask) then retS Returned
           else
             let loc = \<lparr>pl_path = ae_path st, pl_milestone = ae_milestone st,
                        pl_slice = sliceSlug, pl_task = taskSlug\<rparr> in
             bindS (upd_task loc (status_only ''active'')) (\<lambda>_.
             bindS (readS (reusable (pt_executionTaskId planTask))) (\<lambda>live.
             bindS (case live of
                      Some e \<Rightarrow> retS e
                    | None \<Rightarrow>
                        bindS (insert_task (new_exec_task st sliceSlug taskSlug)) (\<lambda>e.
                        bindS (upd_task loc (no_task_patch\<lparr>tp_executionTaskId := Some (JNum e)\<rparr>))
                          (\<lambda>_. retS e)))
               (\<lambda>e. if ae_aborted st then retS RejectedAtOnce
                    else bindS (modS (\<lambda>d. d\<lparr>d_launched := d_launched d @ [e]\<rparr>)) (\<lambda>_. retS (Waiting e))))))"

subsection \<open>Waiting for it\<close>

datatype outcome = Resolved | Aborted | Ended string

record wait =
  w_exec :: int
  w_loc :: plan_loc
  w_settled :: bool
  w_outcome :: "outcome option"

definition fresh_wait :: "int \<Rightarrow> plan_loc \<Rightarrow> wait" where
  "fresh_wait e loc = \<lparr>w_exec = e, w_loc = loc, w_settled = False, w_outcome = None\<rparr>"

text \<open>\<open>cleanup()\<close>, then the write of the plan task, then \<open>resolve\<close> or \<open>reject\<close>: a throw of the write
  leaves the promise pending with its listeners removed.\<close>

definition settle_with :: "string \<Rightarrow> outcome \<Rightarrow> wait \<Rightarrow> daemon \<Rightarrow> (plan_error + bool) \<times> wait \<times> daemon" where
  "settle_with ps out w d =
     (let w1 = w\<lparr>w_settled := True\<rparr>
      in case upd_task (w_loc w) (status_only ps) d of
           (Inl e, d') \<Rightarrow> (Inl e, w1, d')
         | (Inr _, d') \<Rightarrow> (Inr True, w1\<lparr>w_outcome := Some out\<rparr>, d'))"

definition settleFromStatus :: "string \<Rightarrow> wait \<Rightarrow> daemon \<Rightarrow> (plan_error + bool) \<times> wait \<times> daemon" where
  "settleFromStatus status w d =
     (if w_settled w then (Inr True, w, d)
      else if status = ''done'' then settle_with ''completed'' Resolved w d
      else if status = ''failed'' \<or> status = ''cancelled'' \<or> status = ''timed_out''
      then settle_with ''failed'' (Ended status) w d
      else (Inr False, w, d))"

definition abort_wait :: "wait \<Rightarrow> wait" where
  "abort_wait w = w\<lparr>w_settled := True, w_outcome := Some Aborted\<rparr>"

definition onAbort :: "wait \<Rightarrow> daemon \<Rightarrow> (plan_error + bool) \<times> wait \<times> daemon" where
  "onAbort w d = (if w_settled w then (Inr True, w, d) else (Inr True, abort_wait w, d))"

text \<open>\<open>cleanup\<close> takes the listener off, so a settled wait sees no terminal event.\<close>

definition onTerminal :: "bool \<Rightarrow> terminal_event \<Rightarrow> wait \<Rightarrow> daemon \<Rightarrow> (plan_error + bool) \<times> wait \<times> daemon" where
  "onTerminal running ev w d =
     (if w_settled w then (Inr True, w, d)
      else if te_task ev \<noteq> w_exec w then (Inr False, w, d)
      else if \<not> running then (Inr True, abort_wait w, d)
      else settleFromStatus (te_status ev) w d)"

definition staleCheck :: "bool \<Rightarrow> wait \<Rightarrow> daemon \<Rightarrow> (plan_error + bool) \<times> wait \<times> daemon" where
  "staleCheck running w d =
     (if w_settled w then (Inr True, w, d)
      else case map_of (d_tasks d) (w_exec w) of
             None \<Rightarrow> (Inr True, abort_wait w, d)
           | Some t \<Rightarrow> if \<not> running then (Inr True, abort_wait w, d)
                       else settleFromStatus (task_status_str (et_status t)) w d)"

text \<open>The events a wait lives through: a terminal event, the stop of the run, a tick of the timer, and
  any change of the rest of the daemon's state, the plan files included.  A throw out of the timer
  reaches \<open>uncaughtException\<close>, which shuts the daemon down.\<close>

datatype wait_event = EvTerminal terminal_event | EvStop | EvTick | EvWorld daemon

record wait_state =
  ws_running :: bool
  ws_crashed :: bool
  ws_wait :: wait
  ws_daemon :: daemon

fun wait_step :: "wait_event \<Rightarrow> wait_state \<Rightarrow> wait_state" where
  "wait_step (EvTerminal ev) s =
     (case onTerminal (ws_running s) ev (ws_wait s) (ws_daemon s) of
        (_, w, d) \<Rightarrow> s\<lparr>ws_wait := w, ws_daemon := d\<rparr>)"
| "wait_step EvStop s =
     (case onAbort (ws_wait s) (ws_daemon s) of
        (_, w, d) \<Rightarrow> s\<lparr>ws_running := False, ws_wait := w, ws_daemon := d\<rparr>)"
| "wait_step EvTick s =
     (case staleCheck (ws_running s) (ws_wait s) (ws_daemon s) of
        (r, w, d) \<Rightarrow> s\<lparr>ws_wait := w, ws_daemon := d, ws_crashed := ws_crashed s \<or> \<not> is_ok r\<rparr>)"
| "wait_step (EvWorld d) s = s\<lparr>ws_daemon := d\<rparr>"

definition wait_run :: "wait_event list \<Rightarrow> wait_state \<Rightarrow> wait_state" where
  "wait_run evs s = fold wait_step evs s"

subsection \<open>A wait settles once, and right\<close>

lemma settled_stays:
  "w_settled (ws_wait s) \<Longrightarrow> ws_wait (wait_step ev s) = ws_wait s"
  "w_settled (ws_wait s) \<Longrightarrow> (\<forall>d. ev \<noteq> EvWorld d) \<Longrightarrow> ws_daemon (wait_step ev s) = ws_daemon s"
  by (cases ev; simp add: onTerminal_def onAbort_def staleCheck_def)+

lemma settled_run: "w_settled (ws_wait s) \<Longrightarrow> ws_wait (wait_run evs s) = ws_wait s"
  unfolding wait_run_def
proof (induction evs arbitrary: s)
  case (Cons ev evs)
  from settled_stays(1) [OF Cons.prems, of ev] Cons.prems have "w_settled (ws_wait (wait_step ev s))" by simp
  from Cons.IH [OF this] show ?case using settled_stays(1) [OF Cons.prems, of ev] by simp
qed simp

text \<open>What a step observes of the execution task.\<close>

definition observes :: "wait_event \<Rightarrow> wait_state \<Rightarrow> string \<Rightarrow> bool" where
  "observes ev s status \<longleftrightarrow> ws_running s \<and>
     (case ev of
        EvTerminal e \<Rightarrow> te_task e = w_exec (ws_wait s) \<and> te_status e = status
      | EvTick \<Rightarrow> (\<exists>t. map_of (d_tasks (ws_daemon s)) (w_exec (ws_wait s)) = Some t
                      \<and> task_status_str (et_status t) = status)
      | _ \<Rightarrow> False)"

definition file_status :: "plan_loc \<Rightarrow> daemon \<Rightarrow> string \<Rightarrow> bool" where
  "file_status loc d st \<longleftrightarrow> (\<exists>t. getPlanTask (plan_of (d_store d) (pl_path loc)) (pl_milestone loc)
      (pl_slice loc) (pl_task loc) = Inr (Some t) \<and> pt_status t = JStr st)"

lemma upd_task_status:
  assumes "upd_task loc (status_only st) d = (Inr v, d')"
  shows "file_status loc d' st"
proof -
  obtain st' where u: "updatePlanTask (d_iso d) (pl_path loc) (pl_milestone loc) (pl_slice loc) (pl_task loc)
      (status_only st) (d_store d) = Inr (v, st')" and d': "d' = d\<lparr>d_store := st'\<rparr>"
    using assms by (auto simp: upd_task_def tryS_Inr split: sum.splits prod.splits)
  have "tp_status (status_only st) = Some (JStr st)" by (simp add: status_only_def)
  from updatePlanTask_get [OF u this] show ?thesis unfolding file_status_def d' by auto
qed

lemma upd_task_Inl: "upd_task loc patch d = (Inl e, d') \<Longrightarrow> d' = d"
  by (simp add: upd_task_def tryS_Inl)

lemma settle_with_out:
  assumes "settle_with ps out w d = (r, w', d')" and "w_outcome w = None"
  shows "w_settled w'" and "w_outcome w' = Some out \<and> file_status (w_loc w) d' ps \<or> w_outcome w' = None \<and> d' = d"
proof -
  obtain x d1 where u: "upd_task (w_loc w) (status_only ps) d = (x, d1)" by fastforce
  show "w_settled w'" using assms(1) u by (auto simp: settle_with_def Let_def split: sum.splits)
  show "w_outcome w' = Some out \<and> file_status (w_loc w) d' ps \<or> w_outcome w' = None \<and> d' = d"
  proof (cases x)
    case (Inl e)
    then show ?thesis using assms u upd_task_Inl [of "w_loc w" "status_only ps" d e d1]
      by (auto simp: settle_with_def)
  next
    case (Inr v)
    then show ?thesis using assms u upd_task_status [of "w_loc w" ps d v d1] by (auto simp: settle_with_def)
  qed
qed

lemma settleFromStatus_out:
  assumes "settleFromStatus st w d = (r, w', d')" "w_outcome w = None" "\<not> w_settled w"
  shows "(case w_outcome w' of
      Some Resolved \<Rightarrow> st = ''done'' \<and> file_status (w_loc w) d' ''completed''
    | Some (Ended x) \<Rightarrow> x = st \<and> st \<in> {''failed'', ''cancelled'', ''timed_out''} \<and> file_status (w_loc w) d' ''failed''
    | Some Aborted \<Rightarrow> False
    | None \<Rightarrow> d' = d)"
proof -
  consider "st = ''done''" | "st \<noteq> ''done''" "st = ''failed'' \<or> st = ''cancelled'' \<or> st = ''timed_out''"
    | "st \<noteq> ''done''" "st \<noteq> ''failed''" "st \<noteq> ''cancelled''" "st \<noteq> ''timed_out''" by blast
  then show ?thesis
  proof cases
    case 1
    then have "settle_with ''completed'' Resolved w d = (r, w', d')"
      using assms(1,3) by (simp add: settleFromStatus_def)
    from settle_with_out(2) [OF this assms(2)] 1 show ?thesis by auto
  next
    case 2
    then have "settle_with ''failed'' (Ended st) w d = (r, w', d')"
      using assms(1,3) by (simp add: settleFromStatus_def)
    from settle_with_out(2) [OF this assms(2)] 2 show ?thesis by auto
  next
    case 3
    then show ?thesis using assms by (simp add: settleFromStatus_def)
  qed
qed

text \<open>The promise of a plan task settles at most once, whatever events follow; it resolves only on
  an observed \<open>done\<close>, with the plan task's file saying completed, and it is rejected for the task's
  own sake only on an observed failure, cancellation or timeout, with the file saying failed; an abort
  writes no file.\<close>

theorem wait_settles_right:
  assumes "w_outcome (ws_wait s) = None" and "\<not> w_settled (ws_wait s)" and "\<forall>d. ev \<noteq> EvWorld d"
  defines "s' \<equiv> wait_step ev s"
  shows "(case w_outcome (ws_wait s') of
      Some Resolved \<Rightarrow> observes ev s ''done'' \<and> file_status (w_loc (ws_wait s)) (ws_daemon s') ''completed''
    | Some (Ended x) \<Rightarrow> observes ev s x \<and> x \<in> {''failed'', ''cancelled'', ''timed_out''}
        \<and> file_status (w_loc (ws_wait s)) (ws_daemon s') ''failed''
    | _ \<Rightarrow> ws_daemon s' = ws_daemon s)
    \<and> (w_settled (ws_wait s') \<longrightarrow> (\<forall>evs. ws_wait (wait_run evs s') = ws_wait s'))"
proof (intro conjI impI allI)
  fix evs assume "w_settled (ws_wait s')"
  then show "ws_wait (wait_run evs s') = ws_wait s'" by (rule settled_run)
next
  have out: "(case w_outcome w' of
        Some Resolved \<Rightarrow> observes ev s ''done'' \<and> file_status (w_loc (ws_wait s)) d' ''completed''
      | Some (Ended x) \<Rightarrow> observes ev s x \<and> x \<in> {''failed'', ''cancelled'', ''timed_out''}
          \<and> file_status (w_loc (ws_wait s)) d' ''failed''
      | _ \<Rightarrow> d' = ws_daemon s)"
    if "settleFromStatus st (ws_wait s) (ws_daemon s) = (r, w', d')" "observes ev s st" for st r w' d'
    using settleFromStatus_out [OF that(1) assms(1,2)] that(2) by (auto split: option.splits outcome.splits)
  show "case w_outcome (ws_wait s') of
      Some Resolved \<Rightarrow> observes ev s ''done'' \<and> file_status (w_loc (ws_wait s)) (ws_daemon s') ''completed''
    | Some (Ended x) \<Rightarrow> observes ev s x \<and> x \<in> {''failed'', ''cancelled'', ''timed_out''}
        \<and> file_status (w_loc (ws_wait s)) (ws_daemon s') ''failed''
    | _ \<Rightarrow> ws_daemon s' = ws_daemon s"
  proof (cases ev)
    case (EvTerminal e)
    obtain r w' d' where h: "settleFromStatus (te_status e) (ws_wait s) (ws_daemon s) = (r, w', d')"
      using prod_cases3 by blast
    show ?thesis
    proof (cases "te_task e = w_exec (ws_wait s) \<and> ws_running s")
      case True
      then have "observes ev s (te_status e)" by (simp add: EvTerminal observes_def)
      note o = out [OF h this]
      have "ws_wait s' = w'" "ws_daemon s' = d'"
        using True h assms(2) by (simp_all add: s'_def EvTerminal onTerminal_def)
      with o show ?thesis by (simp only:)
    next
      case False
      then show ?thesis using assms(1,2) by (auto simp: s'_def EvTerminal onTerminal_def abort_wait_def)
    qed
  next
    case EvStop
    then show ?thesis using assms(1,2) by (simp add: s'_def onAbort_def abort_wait_def)
  next
    case EvTick
    show ?thesis
    proof (cases "map_of (d_tasks (ws_daemon s)) (w_exec (ws_wait s))")
      case None
      then show ?thesis using assms(1,2) by (simp add: s'_def EvTick staleCheck_def abort_wait_def)
    next
      case (Some t)
      obtain r w' d' where h: "settleFromStatus (task_status_str (et_status t)) (ws_wait s) (ws_daemon s) = (r, w', d')"
        using prod_cases3 by blast
      show ?thesis
      proof (cases "ws_running s")
        case True
        then have "observes ev s (task_status_str (et_status t))" using Some by (simp add: EvTick observes_def)
        note o = out [OF h this]
        have "ws_wait s' = w'" "ws_daemon s' = d'"
          using True h assms(2) Some by (simp_all add: s'_def EvTick staleCheck_def)
        with o show ?thesis by (simp only:)
      next
        case False
        then show ?thesis using assms(1,2) Some by (simp add: s'_def EvTick staleCheck_def abort_wait_def)
      qed
    qed
  qed (use assms(3) in simp)
qed

definition demo_wait :: "task_status \<Rightarrow> wait_state" where
  "demo_wait st = \<lparr>ws_running = True, ws_crashed = False, ws_wait = fresh_wait 5 demo_loc,
     ws_daemon = demo_daemon st\<rparr>"

lemma demo_wait_open: "w_outcome (ws_wait (demo_wait st)) = None" "\<not> w_settled (ws_wait (demo_wait st))"
  by (simp_all add: demo_wait_def fresh_wait_def)

lemma demo_tick: "w_outcome (ws_wait (wait_step EvTick (demo_wait DONE))) = Some Resolved"
  by code_simp

theorem wait_settles_right_witness:
  "file_status demo_loc (ws_daemon (wait_step EvTick (demo_wait DONE))) ''completed''"
proof -
  have nw: "\<forall>d. EvTick \<noteq> EvWorld d" by simp
  have "observes EvTick (demo_wait DONE) ''done''
      \<and> file_status (w_loc (ws_wait (demo_wait DONE))) (ws_daemon (wait_step EvTick (demo_wait DONE))) ''completed''"
    using wait_settles_right [OF demo_wait_open [of DONE] nw, THEN conjunct1, unfolded demo_tick option.case outcome.case] .
  then show ?thesis by (simp add: demo_wait_def fresh_wait_def)
qed

text \<open>When the plan task's file is gone by the time its execution task has ended, the next tick of
  the timer throws, which shuts the daemon down; the promise stays pending whatever follows, so the
  run could never end.\<close>

theorem deleted_plan_task_loses_wait:
  assumes "w_outcome (ws_wait s) = None" "\<not> w_settled (ws_wait s)" "ws_running s"
    and "check_slug (pl_milestone (w_loc (ws_wait s))) = Inr ()"
      "check_slug (pl_slice (w_loc (ws_wait s))) = Inr ()" "check_slug (pl_task (w_loc (ws_wait s))) = Inr ()"
    and "\<not> exists_path (plan_of (d_store (ws_daemon s)) (pl_path (w_loc (ws_wait s))))
      [pl_milestone (w_loc (ws_wait s)), pl_slice (w_loc (ws_wait s)), task_file (pl_task (w_loc (ws_wait s)))]"
    and "map_of (d_tasks (ws_daemon s)) (w_exec (ws_wait s)) = Some t" "et_status t = DONE"
  shows "ws_crashed (wait_step EvTick s)
    \<and> w_outcome (ws_wait (wait_run evs (wait_step EvTick s))) = None"
proof -
  let ?w = "ws_wait s" and ?d = "ws_daemon s"
  have "getPlanTask (plan_of (d_store ?d) (pl_path (w_loc ?w))) (pl_milestone (w_loc ?w))
      (pl_slice (w_loc ?w)) (pl_task (w_loc ?w)) = Inr None"
    using assms(4-7) by (simp add: getPlanTask_def)
  then have "upd_task (w_loc ?w) (status_only ''completed'') ?d = (Inl NotFound, ?d)"
    using assms(4-6) by (simp add: upd_task_def tryS_def updatePlanTask_def)
  then have "staleCheck (ws_running s) ?w ?d = (Inl NotFound, ?w\<lparr>w_settled := True\<rparr>, ?d)"
    using assms by (simp add: staleCheck_def settleFromStatus_def settle_with_def)
  then have s': "ws_crashed (wait_step EvTick s)" "ws_wait (wait_step EvTick s) = ?w\<lparr>w_settled := True\<rparr>"
    by (simp_all add: is_ok_def)
  have "ws_wait (wait_run evs (wait_step EvTick s)) = ?w\<lparr>w_settled := True\<rparr>"
    using settled_run [of "wait_step EvTick s" evs] unfolding s' by simp
  then show ?thesis using s'(1) assms(1) by simp
qed

theorem deleted_plan_task_loses_wait_witness:
  "ws_crashed (wait_step EvTick ((demo_wait DONE)\<lparr>ws_daemon := (demo_daemon DONE)\<lparr>d_store :=
     demo_store\<lparr>st_plans := []\<rparr>\<rparr>\<rparr>))"
proof -
  let ?s = "(demo_wait DONE)\<lparr>ws_daemon := (demo_daemon DONE)\<lparr>d_store := demo_store\<lparr>st_plans := []\<rparr>\<rparr>\<rparr>"
  have h: "w_outcome (ws_wait ?s) = None" "\<not> w_settled (ws_wait ?s)" "ws_running ?s"
    "check_slug (pl_milestone (w_loc (ws_wait ?s))) = Inr ()"
    "check_slug (pl_slice (w_loc (ws_wait ?s))) = Inr ()" "check_slug (pl_task (w_loc (ws_wait ?s))) = Inr ()"
    "\<not> exists_path (plan_of (d_store (ws_daemon ?s)) (pl_path (w_loc (ws_wait ?s))))
      [pl_milestone (w_loc (ws_wait ?s)), pl_slice (w_loc (ws_wait ?s)), task_file (pl_task (w_loc (ws_wait ?s)))]"
    "map_of (d_tasks (ws_daemon ?s)) (w_exec (ws_wait ?s)) = Some (demo_exec DONE)"
    "et_status (demo_exec DONE) = DONE"
    by code_simp+
  show ?thesis using deleted_plan_task_loses_wait [OF h, of "[]"] by (rule conjunct1)
qed

subsection \<open>The wave loop\<close>

datatype 'id run_event = Started 'id | Settled 'id

record 'id runner =
  rn_waves :: "'id wave list"
  rn_out :: "'id list"
  rn_running :: bool
  rn_log :: "'id run_event list"

text \<open>The loop of \<open>executeMilestone\<close> over slices and of \<open>executeSlice\<close> over plan tasks:
  \<open>for (const wave of waves) { if (!state.running) break; await Promise.allSettled(...) }\<close>.\<close>

inductive runner_step :: "'id runner \<Rightarrow> 'id runner \<Rightarrow> bool" where
  launch: "rn_running r \<Longrightarrow> rn_out r = [] \<Longrightarrow> rn_waves r = w # ws \<Longrightarrow>
     runner_step r (r\<lparr>rn_waves := ws, rn_out := wave_ids w, rn_log := rn_log r @ map Started (wave_ids w)\<rparr>)"
| settle: "i \<in> set (rn_out r) \<Longrightarrow>
     runner_step r (r\<lparr>rn_out := remove1 i (rn_out r), rn_log := rn_log r @ [Settled i]\<rparr>)"
| stop: "runner_step r (r\<lparr>rn_running := False\<rparr>)"

definition runner_start :: "'id wave list \<Rightarrow> 'id runner" where
  "runner_start ws = \<lparr>rn_waves = ws, rn_out = [], rn_running = True, rn_log = []\<rparr>"

inductive runner_reach :: "'id wave list \<Rightarrow> 'id runner \<Rightarrow> bool" for ws where
  start: "runner_reach ws (runner_start ws)"
| step: "runner_reach ws r \<Longrightarrow> runner_step r r' \<Longrightarrow> runner_reach ws r'"

definition runner_ended :: "'id runner \<Rightarrow> bool" where
  "runner_ended r \<longleftrightarrow> rn_out r = [] \<and> (rn_waves r = [] \<or> \<not> rn_running r)"

definition settled_ids :: "'id run_event list \<Rightarrow> 'id set" where
  "settled_ids l = {i. Settled i \<in> set l}"

definition started_list :: "'id run_event list \<Rightarrow> 'id list" where
  "started_list l = concat (map (\<lambda>e. case e of Started i \<Rightarrow> [i] | Settled _ \<Rightarrow> []) l)"

lemma started_list_append: "started_list (l @ l') = started_list l @ started_list l'"
  by (simp add: started_list_def)

lemma started_list_map: "started_list (map Started xs) = xs"
  by (induction xs) (simp_all add: started_list_def)

text \<open>The invariant of a run: the waves launched so far, what was started is what they list, and what
  has not settled is waited for.\<close>

definition runner_inv :: "'id wave list \<Rightarrow> 'id runner \<Rightarrow> bool" where
  "runner_inv ws r \<longleftrightarrow> (\<exists>past. ws = past @ rn_waves r
     \<and> started_list (rn_log r) = concat (map wave_ids past)
     \<and> set (concat (map wave_ids past)) \<subseteq> settled_ids (rn_log r) \<union> set (rn_out r))"

lemma runner_inv_reach: "runner_reach ws r \<Longrightarrow> runner_inv ws r"
proof (induction rule: runner_reach.induct)
  case start
  show ?case by (simp add: runner_inv_def runner_start_def started_list_def)
next
  case (step r r')
  from step.IH obtain past where p: "ws = past @ rn_waves r"
    "started_list (rn_log r) = concat (map wave_ids past)"
    "set (concat (map wave_ids past)) \<subseteq> settled_ids (rn_log r) \<union> set (rn_out r)"
    unfolding runner_inv_def by blast
  from step.hyps(2) show ?case
  proof cases
    case (launch w ws')
    then show ?thesis unfolding runner_inv_def
      by (intro exI [of _ "past @ [w]"]) (use p in \<open>auto simp: started_list_append started_list_map settled_ids_def\<close>)
  next
    case (settle i)
    have "started_list [Settled i] = []" by (simp add: started_list_def)
    then show ?thesis unfolding runner_inv_def settle
      by (intro exI [of _ past])
        (use p settle in \<open>auto simp: started_list_append settled_ids_def in_set_remove1 subset_iff dest!: in_set_remove1 [THEN iffD1, rotated]\<close>)
  next
    case stop
    then show ?thesis using p unfolding runner_inv_def by auto
  qed
qed

lemma runner_out_started: "runner_reach ws r \<Longrightarrow> set (rn_out r) \<subseteq> set (started_list (rn_log r))"
proof (induction rule: runner_reach.induct)
  case (step r r')
  from step.hyps(2) show ?case
    by cases (use step.IH in \<open>auto simp: started_list_append started_list_map dest: notin_set_remove1\<close>)
qed (simp add: runner_start_def)

definition dep_closed_acyclic :: "'id dep_item list \<Rightarrow> bool" where
  "dep_closed_acyclic items \<longleftrightarrow> distinct (map di_id items)
     \<and> (\<forall>j \<in> set items. set (di_depends j) \<subseteq> di_id ` set items)
     \<and> acyclic {(d, k). \<exists>j \<in> set items. k = di_id j \<and> d \<in> set (di_depends j)}"

definition log_ordered :: "'id dep_item list \<Rightarrow> 'id run_event list \<Rightarrow> bool" where
  "log_ordered items l \<longleftrightarrow> (\<forall>pre i post. l = pre @ Started i # post \<longrightarrow>
     (\<forall>j \<in> set items. di_id j = i \<longrightarrow> set (di_depends j) \<subseteq> settled_ids pre))"

lemma settled_ids_mono: "settled_ids l \<subseteq> settled_ids (l @ l')"
  by (auto simp: settled_ids_def)

lemma log_ordered_append:
  assumes "log_ordered items l"
    and new: "\<And>a i b. l' = a @ Started i # b \<Longrightarrow> \<forall>j \<in> set items. di_id j = i \<longrightarrow> set (di_depends j) \<subseteq> settled_ids l"
  shows "log_ordered items (l @ l')"
  unfolding log_ordered_def
proof (intro allI impI)
  fix pre i post
  assume eq: "l @ l' = pre @ Started i # post"
  then consider us where "l = pre @ Started i # us" | us where "pre = l @ us" "l' = us @ Started i # post"
    by (auto simp: append_eq_append_conv2 append_eq_Cons_conv)
  then show "\<forall>j \<in> set items. di_id j = i \<longrightarrow> set (di_depends j) \<subseteq> settled_ids pre"
  proof cases
    case 1
    with assms(1) show ?thesis unfolding log_ordered_def by blast
  next
    case 2
    then show ?thesis using new [OF 2(2)] settled_ids_mono [of l us] by blast
  qed
qed

lemma map_Started_split: "map Started ids = a @ Started i # b \<Longrightarrow> i \<in> set ids"
  by (metis in_set_conv_decomp list.set_map image_iff run_event.inject(1))

lemma runner_ordered:
  assumes reach: "runner_reach (computeWaves items) r" and items: "dep_closed_acyclic items"
  shows "log_ordered items (rn_log r)"
  using reach
proof (induction rule: runner_reach.induct)
  case start
  show ?case by (simp add: log_ordered_def runner_start_def)
next
  case (step r r')
  from runner_inv_reach [OF step.hyps(1)] obtain past where p: "computeWaves items = past @ rn_waves r"
    "set (concat (map wave_ids past)) \<subseteq> settled_ids (rn_log r) \<union> set (rn_out r)"
    unfolding runner_inv_def by blast
  from step.hyps(2) show ?case
  proof cases
    case (launch w ws)
    have "set (di_depends j) \<subseteq> settled_ids (rn_log r)" if "j \<in> set items" "di_id j \<in> set (wave_ids w)" for j
    proof -
      have eq: "computeWaves items = past @ w # ws" using p(1) launch by simp
      have "set (di_depends j) \<subseteq> set (concat (map wave_ids past))"
        by (rule computeWaves_before [OF _ _ _ eq that]) (use items in \<open>auto simp: dep_closed_acyclic_def\<close>)
      with p(2) launch show ?thesis by auto
    qed
    then show ?thesis unfolding launch using map_Started_split [of "wave_ids w"]
      by simp (rule log_ordered_append [OF step.IH], blast)
  next
    case (settle i)
    show ?thesis unfolding settle
      by simp (rule log_ordered_append [OF step.IH], auto simp: Cons_eq_append_conv)
  next
    case stop
    then show ?thesis using step.IH by simp
  qed
qed

text \<open>C36: In every interleaving of a run of a milestone: when the ids of the items are distinct, every
  dependency names an item of the plan and no item depends on itself along the dependencies, an item is started
  only after all its dependencies have settled (completed or not); and over any plan a run that ends without
  having been stopped has started every item exactly once and waited for all of them.  (The conditions matter: a
  dependency that names no item makes the code force what is left into one wave, lemma
  \<open>dangling_dependency_is_forced\<close>.)\<close>

theorem runner_respects_dependencies:
  assumes "runner_reach (computeWaves items) r"
  shows "(dep_closed_acyclic items \<longrightarrow> (\<forall>pre i post. rn_log r = pre @ Started i # post \<longrightarrow>
       (\<forall>j \<in> set items. di_id j = i \<longrightarrow> set (di_depends j) \<subseteq> settled_ids pre)))
    \<and> (runner_ended r \<and> rn_running r \<longrightarrow>
       distinct (started_list (rn_log r)) \<and> set (started_list (rn_log r)) = di_id ` set items
       \<and> di_id ` set items \<subseteq> settled_ids (rn_log r))"
proof (intro conjI impI)
  show "\<forall>pre i post. rn_log r = pre @ Started i # post \<longrightarrow>
       (\<forall>j \<in> set items. di_id j = i \<longrightarrow> set (di_depends j) \<subseteq> settled_ids pre)" if "dep_closed_acyclic items"
    using runner_ordered [OF assms that] unfolding log_ordered_def .
next
  assume e: "runner_ended r \<and> rn_running r"
  from runner_inv_reach [OF assms] e
  have l: "started_list (rn_log r) = concat (map wave_ids (computeWaves items))"
    "set (concat (map wave_ids (computeWaves items))) \<subseteq> settled_ids (rn_log r)"
    unfolding runner_inv_def runner_ended_def by (auto simp del: set_concat)
  have "set (concat (map wave_ids (computeWaves items))) = di_id ` set items"
    by (simp only: computeWaves_def waves_loop_set remaining_of_keys)
  with l show "set (started_list (rn_log r)) = di_id ` set items" "di_id ` set items \<subseteq> settled_ids (rn_log r)"
    by simp_all
  show "distinct (started_list (rn_log r))"
    unfolding l(1) computeWaves_def by (rule waves_loop_distinct [OF remaining_of_ok])
qed

text \<open>Item 2 depends on item 1, and item 1 on something that the plan does not have: both are in the first wave.\<close>

theorem dangling_dependency_is_forced:
  "computeWaves [\<lparr>di_id = 1, di_depends = [9], di_status = None\<rparr>, \<lparr>di_id = 2, di_depends = [1], di_status = None\<rparr> :: nat dep_item]
     = [\<lparr>wave_no = 0, wave_ids = [1, 2]\<rparr>]"
  by (simp add: computeWaves_def waves_loop.simps wave_pick_def ready_ids_def)

definition two_items :: "nat dep_item list" where
  "two_items = [\<lparr>di_id = 2, di_depends = [1], di_status = None\<rparr>, \<lparr>di_id = 1, di_depends = [], di_status = None\<rparr>]"

lemma two_items_ok: "dep_closed_acyclic two_items"
proof -
  have "{(d, k). \<exists>j \<in> set two_items. k = di_id j \<and> d \<in> set (di_depends j)} \<subseteq> measure id"
    by (auto simp: two_items_def)
  then have "acyclic {(d, k). \<exists>j \<in> set two_items. k = di_id j \<and> d \<in> set (di_depends j)}"
    by (rule acyclic_subset [OF wf_acyclic [OF wf_measure]])
  then show ?thesis by (simp add: dep_closed_acyclic_def two_items_def)
qed

lemma two_items_waves: "computeWaves two_items =
    [\<lparr>wave_no = 0, wave_ids = [1]\<rparr>, \<lparr>wave_no = 1, wave_ids = [2]\<rparr>]"
  by (simp add: two_items_def computeWaves_def waves_loop.simps wave_pick_def ready_ids_def)

theorem runner_respects_dependencies_witness:
  "\<exists>r. runner_reach (computeWaves two_items) r \<and> rn_log r = [Started 1, Settled 1, Started 2]
     \<and> {1} \<subseteq> settled_ids [Started (1::nat), Settled 1]"
proof -
  let ?ws = "computeWaves two_items"
  let ?w2 = "\<lparr>wave_no = 1, wave_ids = [2]\<rparr> :: nat wave"
  have 1: "runner_reach ?ws \<lparr>rn_waves = [?w2], rn_out = [1], rn_running = True, rn_log = [Started 1]\<rparr>"
    using runner_reach.step [OF runner_reach.start [of ?ws] runner_step.launch
        [of "runner_start ?ws" "\<lparr>wave_no = 0, wave_ids = [1]\<rparr>" "[?w2]"]]
    by (simp add: runner_start_def two_items_waves)
  have 2: "runner_reach ?ws \<lparr>rn_waves = [?w2], rn_out = [], rn_running = True, rn_log = [Started 1, Settled 1]\<rparr>"
    using runner_reach.step [OF 1 runner_step.settle [of 1]] by simp
  have 3: "runner_reach ?ws \<lparr>rn_waves = [], rn_out = [2], rn_running = True,
      rn_log = [Started 1, Settled 1, Started 2]\<rparr>"
    using runner_reach.step [OF 2 runner_step.launch [of _ ?w2 "[]"]] by simp
  have "\<forall>pre i post. [Started 1, Settled 1, Started 2] = pre @ Started i # post \<longrightarrow>
       (\<forall>j \<in> set two_items. di_id j = i \<longrightarrow> set (di_depends j) \<subseteq> settled_ids pre)"
    using runner_respects_dependencies [OF 3, THEN conjunct1] two_items_ok by simp
  from this [rule_format, of "[Started 1, Settled 1]" 2 "[]" "two_items ! 0"]
  have "{1} \<subseteq> settled_ids [Started (1::nat), Settled 1]" by (simp add: two_items_def)
  with 3 show ?thesis by auto
qed

subsection \<open>Starting a plan task twice\<close>

text \<open>The listing after an update of a listed task: the task is still there, with what was written.\<close>

lemma upd_task_listed:
  assumes run: "upd_task (loc_of path t) patch d = (Inr v, d')" and t: "t \<in> set (tasks_at d path m s)"
  obtains t' where "t' \<in> set (tasks_at d' path m s)" and "pt_slug t' = pt_slug t"
    and "pt_status t' = nullish (Some (pt_status v)) (JStr ''pending'')"
    and "pt_executionTaskId t' = pt_executionTaskId v"
    and "v = merge_task (d_iso d) m s (pt_slug t) patch t"
    and "\<exists>ts. listPlanTasks (plan_of (d_store d') path) m s = Inr ts"
proof -
  let ?p = "[m, s, task_file (pt_slug t)]" and ?es = "plan_of (d_store d) path"
  obtain f b where f: "fs_get ?es ?p = Some (FFile (Some f) b)"
    "t = taskFromFile (pt_slug t) m s (JObj f) b" "pt_slug t \<noteq> ''slice''" by (rule tasks_at_file [OF t])
  obtain st' where u: "updatePlanTask (d_iso d) path m s (pt_slug t) patch (d_store d) = Inr (v, st')"
    and d': "d' = d\<lparr>d_store := st'\<rparr>"
    using run tasks_at_keys [OF t] by (auto simp: upd_task_def tryS_Inr loc_of_def split: sum.splits prod.splits)
  obtain e fm b' where v: "v = merge_task (d_iso d) m s (pt_slug t) patch e"
    and rd: "read_md ?es ?p = Inr (fm, b')" "e = taskFromFile (pt_slug t) m s fm b'"
    and pl: "plan_of st' path = fs_put ?p
           (FFile (Some (clean_fm (taskToFrontmatter v))) (js_trim (desc_body (pt_description v)))) ?es"
    by (rule updatePlanTask_file [OF u])
  have e: "e = t" using rd f(1) f(2) by (simp add: read_md_def)
  have p: "?p \<noteq> []" by simp
  have kind: "[m, s] \<noteq> butlast ?p \<or> is_plan_md (last ?p) (FFile (Some x) y) = is_plan_md (last ?p) (FFile (Some f) b)" for x y
    by (simp add: is_plan_md_def)
  have rel: "rel_sum (=) (list_all2 (\<lambda>a b. pt_slug a = pt_slug b)) (listPlanTasks ?es m s)
      (listPlanTasks (plan_of st' path) m s)"
    unfolding pl by (rule listPlanTasks_write_rel [OF f(1) p kind]) (auto simp: taskFromFile_written)
  from t obtain ts where ts: "listPlanTasks ?es m s = Inr ts" "t \<in> set ts"
    by (auto simp: tasks_at_def or_empty_mem)
  with rel obtain ts' where ts': "listPlanTasks (plan_of st' path) m s = Inr ts'"
    "list_all2 (\<lambda>a b. pt_slug a = pt_slug b) ts ts'"
    by (cases "listPlanTasks (plan_of st' path) m s") auto
  from list_all2_forth [OF ts'(2) ts(2)] obtain t' where t': "t' \<in> set ts'" "pt_slug t' = pt_slug t" by auto
  have at: "t' \<in> set (tasks_at d' path m s)" using t' ts' by (simp add: tasks_at_def d' or_empty_def)
  obtain f' b'' where f': "fs_get (plan_of st' path) ?p = Some (FFile (Some f') b'')"
    "t' = taskFromFile (pt_slug t') m s (JObj f') b''"
    by (rule tasks_at_file [OF at]) (simp add: d' t'(2))
  have "f' = clean_fm (taskToFrontmatter v)" using f'(1) unfolding pl plan_paths.rd_wr [OF p] by simp
  then have "pt_status t' = nullish (Some (pt_status v)) (JStr ''pending'')"
    "pt_executionTaskId t' = pt_executionTaskId v"
    using f'(2) by (metis taskFromFile_written(5)) (metis f'(2) taskFromFile_written(4) \<open>f' = _\<close>)
  then show thesis using that [OF at t'(2)] v e ts'(1) d' by auto
qed

lemma upd_task_ok:
  assumes t: "t \<in> set (tasks_at d path m s)"
    and ok: "check_slug m = Inr ()" "check_slug s = Inr ()" "check_slug (pt_slug t) = Inr ()"
  obtains v d' where "upd_task (loc_of path t) patch d = (Inr v, d')"
proof -
  obtain f b where f: "fs_get (plan_of (d_store d) path) [m, s, task_file (pt_slug t)] = Some (FFile (Some f) b)"
    "t = taskFromFile (pt_slug t) m s (JObj f) b" "pt_slug t \<noteq> ''slice''" by (rule tasks_at_file [OF t])
  have "getPlanTask (plan_of (d_store d) path) m s (pt_slug t) = Inr (Some t)"
    unfolding getPlanTask_def exists_path_def read_md_def f(1) using ok f(2) [symmetric] by simp
  then have "\<exists>v st'. updatePlanTask (d_iso d) path m s (pt_slug t) patch (d_store d) = Inr (v, st')"
    by (simp add: updatePlanTask_def ok Let_def)
  then show thesis using that tasks_at_keys [OF t]
    by (auto simp: upd_task_def tryS_def loc_of_def)
qed

lemma upd_task_checks:
  assumes "upd_task (loc_of path t) patch d = (Inr v, d')"
  shows "check_slug (pt_milestoneSlug t) = Inr ()" "check_slug (pt_sliceSlug t) = Inr ()"
    "check_slug (pt_slug t) = Inr ()"
proof -
  obtain st' where u: "updatePlanTask (d_iso d) path (pt_milestoneSlug t) (pt_sliceSlug t) (pt_slug t)
      patch (d_store d) = Inr (v, st')"
    using assms by (auto simp: upd_task_def tryS_Inr loc_of_def split: sum.splits prod.splits)
  show "check_slug (pt_milestoneSlug t) = Inr ()" "check_slug (pt_sliceSlug t) = Inr ()"
    "check_slug (pt_slug t) = Inr ()" by (rule updatePlanTask_Inr [OF u], assumption)+
qed

lemma reusable_cong: "d_tasks d' = d_tasks d \<Longrightarrow> reusable v d' = reusable v d"
  by (simp add: reusable_def task_by_id_def split: option.splits jval.splits)

lemma find_listed:
  assumes "listPlanTasks (plan_of (d_store d) path) m s = Inr ts" "t \<in> set (tasks_at d path m s)"
  shows "find (\<lambda>x. pt_slug x = pt_slug t) ts = Some t"
proof -
  have "tasks_at d path m s = ts" by (simp add: tasks_at_def or_empty_def assms(1))
  note ts = this
  show ?thesis
  proof (cases "find (\<lambda>x. pt_slug x = pt_slug t) ts")
    case None
    then show ?thesis using assms(2) ts by (auto simp: find_None_iff)
  next
    case (Some x)
    then have "x \<in> set ts" "pt_slug x = pt_slug t" by (auto simp: find_Some_iff)
    then show ?thesis using Some tasks_at_inj [of x d path m s t] assms(2) ts by simp
  qed
qed

text \<open>A second start of a task that is linked to a live execution task joins it.\<close>

lemma executePlanTask_again:
  assumes t: "t \<in> set (tasks_at d (ae_path st) (ae_milestone st) s)"
    and ok: "check_slug (ae_milestone st) = Inr ()" "check_slug s = Inr ()" "check_slug (pt_slug t) = Inr ()"
    and open_t: "\<not> plan_terminal (pt_status t)" and live: "reusable (pt_executionTaskId t) d = Inr (Some e)"
    and run: "\<not> ae_aborted st"
  shows "\<exists>d2. executePlanTask st s (pt_slug t) d = (Inr (Waiting e), d2) \<and> d_tasks d2 = d_tasks d"
proof -
  obtain ts where ts: "listPlanTasks (plan_of (d_store d) (ae_path st)) (ae_milestone st) s = Inr ts"
    using t by (auto simp: tasks_at_def or_empty_mem)
  obtain v d1 where u: "upd_task (loc_of (ae_path st) t) (status_only ''active'') d = (Inr v, d1)"
    by (rule upd_task_ok [OF t ok])
  have loc: "loc_of (ae_path st) t = \<lparr>pl_path = ae_path st, pl_milestone = ae_milestone st,
      pl_slice = s, pl_task = pt_slug t\<rparr>" using tasks_at_keys [OF t] by (simp add: loc_of_def)
  have tk: "d_tasks d1 = d_tasks d" by (rule upd_task_frame(3) [OF u])
  have "reusable (pt_executionTaskId t) d1 = Inr (Some e)" using live reusable_cong [OF tk] by simp
  then show ?thesis
    using u find_listed [OF ts t] open_t run tk
    by (simp add: executePlanTask_def tasks_of_def bindS_def ts loc Let_def)
qed

lemma executePlanTask_parts:
  assumes "executePlanTask st s slug d = (Inr (Waiting e), d')"
  obtains t v d1 live d2 where "t \<in> set (tasks_at d (ae_path st) (ae_milestone st) s)" "pt_slug t = slug"
    and "upd_task (loc_of (ae_path st) t) (status_only ''active'') d = (Inr v, d1)"
    and "reusable (pt_executionTaskId t) d1 = Inr live" and "\<not> ae_aborted st"
    and "d' = d2\<lparr>d_launched := d_launched d2 @ [e]\<rparr>"
    and "case live of Some x \<Rightarrow> e = x \<and> d2 = d1
      | None \<Rightarrow> e = d_nextId d1 \<and> (\<exists>v. upd_task (loc_of (ae_path st) t) (no_task_patch\<lparr>tp_executionTaskId := Some (JNum e)\<rparr>)
          (d1\<lparr>d_tasks := d_tasks d1 @ [(e, new_exec_task st s slug)], d_nextId := e + 1\<rparr>) = (Inr v, d2))"
proof -
  from assms obtain ts t where ts: "listPlanTasks (plan_of (d_store d) (ae_path st)) (ae_milestone st) s = Inr ts"
    and f: "find (\<lambda>x. pt_slug x = slug) ts = Some t" and nt: "\<not> plan_terminal (pt_status t)"
    by (auto simp: executePlanTask_def tasks_of_def bindS_Inr split: option.splits if_splits)
  have t: "t \<in> set (tasks_at d (ae_path st) (ae_milestone st) s)" "pt_slug t = slug"
    using f ts by (auto simp: tasks_at_def or_empty_def find_Some_iff in_set_conv_nth)
  have loc: "\<lparr>pl_path = ae_path st, pl_milestone = ae_milestone st, pl_slice = s, pl_task = slug\<rparr>
      = loc_of (ae_path st) t" using tasks_at_keys [OF t(1)] t(2) by (simp add: loc_of_def)
  from assms obtain v d1 live d2 where
    "upd_task (loc_of (ae_path st) t) (status_only ''active'') d = (Inr v, d1)"
    "reusable (pt_executionTaskId t) d1 = Inr live"
    "(case live of Some e \<Rightarrow> retS e
       | None \<Rightarrow> bindS (insert_task (new_exec_task st s slug)) (\<lambda>e.
            bindS (upd_task (loc_of (ae_path st) t) (no_task_patch\<lparr>tp_executionTaskId := Some (JNum e)\<rparr>))
              (\<lambda>_. retS e))) d1 = (Inr e, d2)"
    "\<not> ae_aborted st" "d' = d2\<lparr>d_launched := d_launched d2 @ [e]\<rparr>"
    using nt by (auto simp: executePlanTask_def tasks_of_def bindS_Inr ts f Let_def loc split: if_splits)
  note r = this
  show thesis
  proof (rule that [OF t r(1,2,4,5)], cases live)
    case None
    from r(3) show "case live of Some x \<Rightarrow> e = x \<and> d2 = d1
      | None \<Rightarrow> e = d_nextId d1 \<and> (\<exists>v. upd_task (loc_of (ae_path st) t) (no_task_patch\<lparr>tp_executionTaskId := Some (JNum e)\<rparr>)
          (d1\<lparr>d_tasks := d_tasks d1 @ [(e, new_exec_task st s slug)], d_nextId := e + 1\<rparr>) = (Inr v, d2))"
      unfolding None option.case bindS_Inr insert_task_def by fastforce
  qed (use r(3) in simp)
qed

text \<open>Starting a plan task leaves it waiting for an execution task that exists and is open, either
  the one its file was linked to, with no row added, or one new row; and starting it again while that
  one is open joins it instead of adding a duplicate.\<close>

theorem executePlanTask_no_duplicate:
  assumes run: "executePlanTask st s slug d = (Inr (Waiting e), d')"
    and fresh: "d_nextId d \<notin> fst ` set (d_tasks d)" "0 < d_nextId d"
  shows "(\<exists>row. map_of (d_tasks d') e = Some row \<and> et_status row \<in> set sweepable)
    \<and> (d_tasks d' = d_tasks d \<or> e = d_nextId d \<and> d_tasks d' = d_tasks d @ [(e, new_exec_task st s slug)])
    \<and> (\<exists>d2. executePlanTask st s slug d' = (Inr (Waiting e), d2) \<and> d_tasks d2 = d_tasks d')"
proof -
  let ?path = "ae_path st" and ?m = "ae_milestone st"
  obtain t v d1 live d2 where t: "t \<in> set (tasks_at d ?path ?m s)" "pt_slug t = slug"
    and u1: "upd_task (loc_of ?path t) (status_only ''active'') d = (Inr v, d1)"
    and re: "reusable (pt_executionTaskId t) d1 = Inr live" and go: "\<not> ae_aborted st"
    and d': "d' = d2\<lparr>d_launched := d_launched d2 @ [e]\<rparr>"
    and live: "case live of Some x \<Rightarrow> e = x \<and> d2 = d1
      | None \<Rightarrow> e = d_nextId d1 \<and> (\<exists>v. upd_task (loc_of ?path t) (no_task_patch\<lparr>tp_executionTaskId := Some (JNum e)\<rparr>)
          (d1\<lparr>d_tasks := d_tasks d1 @ [(e, new_exec_task st s slug)], d_nextId := e + 1\<rparr>) = (Inr v, d2))"
    by (rule executePlanTask_parts [OF run])
  have ok: "check_slug ?m = Inr ()" "check_slug s = Inr ()" "check_slug slug = Inr ()"
    using upd_task_checks [OF u1] tasks_at_keys [OF t(1)] t(2) by simp_all
  obtain t1 where t1: "t1 \<in> set (tasks_at d1 ?path ?m s)" "pt_slug t1 = slug"
      "pt_status t1 = nullish (Some (pt_status v)) (JStr ''pending'')" "pt_executionTaskId t1 = pt_executionTaskId v"
      "v = merge_task (d_iso d) ?m s (pt_slug t) (status_only ''active'') t"
    by (rule upd_task_listed [OF u1 t(1)]) (use t(2) in simp)
  have st1: "pt_status t1 = JStr ''active''" "pt_executionTaskId t1 = pt_executionTaskId t"
    using t1(3-5) by (simp_all add: status_only_def no_task_patch_def)
  have fr1: "d_tasks d1 = d_tasks d" "d_nextId d1 = d_nextId d"
    using u1 by (auto simp: upd_task_def tryS_Inr split: sum.splits prod.splits)
  have launched: "tasks_at d' = tasks_at d2" "d_tasks d' = d_tasks d2" by (simp_all add: d' tasks_at_def fun_eq_iff)
  have again: "\<exists>d3. executePlanTask st s slug d' = (Inr (Waiting e), d3) \<and> d_tasks d3 = d_tasks d'"
    if "t2 \<in> set (tasks_at d2 ?path ?m s)" "pt_slug t2 = slug" "pt_status t2 = JStr ''active''"
      "reusable (pt_executionTaskId t2) d2 = Inr (Some e)" for t2
    using executePlanTask_again [of t2 d' st s e] that ok go reusable_cong [OF launched(2)] launched(1)
    by (simp add: plan_terminal_def)
  show ?thesis
  proof (cases live)
    case (Some x)
    then have d2: "d2 = d1" "x = e" using live by simp_all
    have "\<exists>row. map_of (d_tasks d1) e = Some row \<and> et_status row \<in> set sweepable"
      using re Some d2(2) by (auto simp: reusable_def task_by_id_def bind_err_Inr_iff
          split: if_splits option.splits jval.splits)
    then show ?thesis using again [of t1] t1 st1 re Some d2 launched fr1 by simp
  next
    case None
    then obtain w where e: "e = d_nextId d" and u2: "upd_task (loc_of ?path t)
        (no_task_patch\<lparr>tp_executionTaskId := Some (JNum e)\<rparr>)
        (d1\<lparr>d_tasks := d_tasks d1 @ [(e, new_exec_task st s slug)], d_nextId := e + 1\<rparr>) = (Inr w, d2)"
      using live fr1 by auto
    let ?d1 = "d1\<lparr>d_tasks := d_tasks d1 @ [(e, new_exec_task st s slug)], d_nextId := e + 1\<rparr>"
    have loc1: "loc_of ?path t = loc_of ?path t1"
      using tasks_at_keys [OF t(1)] tasks_at_keys [OF t1(1)] t(2) t1(2) by (simp add: loc_of_def)
    have t1': "t1 \<in> set (tasks_at ?d1 ?path ?m s)" using t1(1) by (simp add: tasks_at_def)
    obtain t2 where t2: "t2 \<in> set (tasks_at d2 ?path ?m s)" "pt_slug t2 = slug"
      "pt_status t2 = nullish (Some (pt_status w)) (JStr ''pending'')" "pt_executionTaskId t2 = pt_executionTaskId w"
      "w = merge_task (d_iso ?d1) ?m s (pt_slug t1) (no_task_patch\<lparr>tp_executionTaskId := Some (JNum e)\<rparr>) t1"
      by (rule upd_task_listed [OF u2 [unfolded loc1] t1']) (use t1(2) in simp)
    have st2: "pt_status t2 = JStr ''active''" "pt_executionTaskId t2 = Some (JNum e)"
      using t2(3-5) st1(1) by (simp_all add: no_task_patch_def)
    have tk2: "d_tasks d2 = d_tasks d @ [(e, new_exec_task st s slug)]"
      using upd_task_frame(3) [OF u2] fr1 by simp
    have "map_of (d_tasks d) e = None" using fresh(1) e by (simp add: map_of_eq_None_iff)
    then have row: "map_of (d_tasks d2) e = Some (new_exec_task st s slug)"
      by (simp add: tk2 map_add_def)
    have q: "et_status (new_exec_task st s slug) \<in> set sweepable" by (simp add: new_exec_task_def sweepable_def)
    have "reusable (pt_executionTaskId t2) d2 = Inr (Some e)"
      using row q fresh(2) e by (simp add: st2 reusable_def task_by_id_def is_truthy_def)
    from again [OF t2(1,2) st2(1) this] show ?thesis using row q launched(2) tk2 e by auto
  qed
qed

definition demo_run :: ae_state where
  "demo_run = \<lparr>ae_project = 1, ae_path = ''/p'', ae_milestone = ''00-core'', ae_running = True, ae_aborted = False\<rparr>"

theorem executePlanTask_no_duplicate_witness:
  "\<exists>d' d2. executePlanTask demo_run ''00-api'' ''00-route'' (demo_daemon FAILED) = (Inr (Waiting 6), d')
     \<and> executePlanTask demo_run ''00-api'' ''00-route'' d' = (Inr (Waiting 6), d2) \<and> d_tasks d2 = d_tasks d'"
proof -
  have ok: "fst (executePlanTask demo_run ''00-api'' ''00-route'' (demo_daemon FAILED)) = Inr (Waiting 6)"
    by code_simp
  obtain d' where run: "executePlanTask demo_run ''00-api'' ''00-route'' (demo_daemon FAILED) = (Inr (Waiting 6), d')"
    using ok by (cases "executePlanTask demo_run ''00-api'' ''00-route'' (demo_daemon FAILED)") simp
  have h: "d_nextId (demo_daemon FAILED) \<notin> fst ` set (d_tasks (demo_daemon FAILED))" "0 < d_nextId (demo_daemon FAILED)"
    by (simp_all add: demo_daemon_def)
  from executePlanTask_no_duplicate [OF run h] run show ?thesis by blast
qed

subsection \<open>The end of a run\<close>

lemma milestone_fm_status:
  "fm_get (JObj (clean_fm (milestoneToFrontmatter x))) ''status'' = Some (ms_status x)"
  by (simp add: map_of_clean_fm [OF milestone_keys_distinct]) (simp add: milestoneToFrontmatter_def)

lemma milestoneFromFile_parts: "milestoneFromFile slug fm b = Inr x \<Longrightarrow>
    ms_slug x = slug \<and> ms_status x = nullish (fm_get fm ''status'') (JStr ''pending'')"
  by (auto simp: milestoneFromFile_def bind_err_Inr_iff simp del: fm_get.simps)

lemma set_milestone_status_listed:
  assumes run: "set_milestone_status path m st d = (Inr v, d')"
    and y: "y \<in> set (milestones_at d' path)" "ms_slug y = m"
  shows "ms_status y = JStr st"
proof -
  obtain es' where u: "updateMilestone (d_iso d) m (no_milestone_patch\<lparr>mp_status := Some (JStr st)\<rparr>)
      (plan_of (d_store d) path) = Inr (v, es')" and d': "d' = d\<lparr>d_store := set_plan path es' (d_store d)\<rparr>"
    using run by (auto simp: set_milestone_status_def tryS_Inr split: sum.splits prod.splits)
  obtain e where v: "v = merge_milestone (d_iso d) m (no_milestone_patch\<lparr>mp_status := Some (JStr st)\<rparr>) e"
    and es': "es' = fs_put [m, ''milestone.md'']
      (FFile (Some (clean_fm (milestoneToFrontmatter v))) (js_trim (desc_body (ms_description v))))
      (plan_of (d_store d) path)" by (rule updateMilestone_Inr [OF u])
  from y(1) obtain ms where "listMilestones es' = Inr ms" "y \<in> set ms"
    by (auto simp: milestones_at_def d' plan_of_set_plan or_empty_mem)
  then obtain slug fm b where f: "read_md es' [slug, ''milestone.md''] = Inr (fm, b)" "milestoneFromFile slug fm b = Inr y"
    by (rule listMilestones_mem)
  have slug: "slug = m" using milestoneFromFile_parts [OF f(2)] y(2) by simp
  have ne: "[m, ''milestone.md''] \<noteq> []" by simp
  have "fm = JObj (clean_fm (milestoneToFrontmatter v))"
    using f(1) unfolding slug es' read_md_def plan_paths.rd_wr [OF ne] by simp
  then have "ms_status y = nullish (Some (ms_status v)) (JStr ''pending'')"
    using milestoneFromFile_parts [OF f(2)] milestone_fm_status by metis
  then show ?thesis by (simp add: v merge_milestone_def)
qed

lemma all_status_iff: "all_status st (map f xs) \<longleftrightarrow> xs \<noteq> [] \<and> (\<forall>x \<in> set xs. f x = JStr st)"
  by (simp add: all_status_def list_all_iff)

lemma any_status_iff: "any_status st (map f xs) \<longleftrightarrow> (\<exists>x \<in> set xs. f x = JStr st)"
  by (induction xs) (simp_all add: any_status_def)

lemma slice_finish_run:
  assumes "slice_finish st s d = (Inr u, d')"
  obtains v d1 where "set_slice_status (ae_path st) (ae_milestone st) s
      (slice_outcome (map pt_status (tasks_at d (ae_path st) (ae_milestone st) s))) d = (Inr v, d1)"
    and "tasks_at d' = tasks_at d1" and "slices_at d' = slices_at d1"
  using assms
  by (auto simp: slice_finish_def tasks_of_def bindS_Inr Let_def broadcast_slice_def tasks_at_def slices_at_def
      or_empty_def fun_eq_iff)

text \<open>When a run of a slice ends, its file says completed exactly when it has plan tasks and all are
  completed, failed when one is failed, and active otherwise.  So an empty slice is never completed
  by a run.\<close>

theorem slice_finish_right:
  assumes run: "slice_finish st s d = (Inr u, d')"
    and x: "x \<in> set (slices_at d' (ae_path st) (ae_milestone st))" "sl_slug x = s"
  defines "ts \<equiv> tasks_at d' (ae_path st) (ae_milestone st) s"
  shows "(sl_status x = JStr ''completed'' \<longleftrightarrow> ts \<noteq> [] \<and> (\<forall>t \<in> set ts. pt_status t = JStr ''completed''))
    \<and> (sl_status x = JStr ''failed'' \<longleftrightarrow> (\<exists>t \<in> set ts. pt_status t = JStr ''failed''))
    \<and> sl_status x \<in> {JStr ''completed'', JStr ''failed'', JStr ''active''}"
proof -
  let ?old = "map pt_status (tasks_at d (ae_path st) (ae_milestone st) s)"
  obtain v d1 where w: "set_slice_status (ae_path st) (ae_milestone st) s (slice_outcome ?old) d = (Inr v, d1)"
    and at: "tasks_at d' = tasks_at d1" "slices_at d' = slices_at d1"
    by (rule slice_finish_run [OF run])
  have ts: "map pt_status ts = ?old" unfolding ts_def at using set_slice_status_tasks [OF w] by simp
  have "sl_status x = JStr (slice_outcome (map pt_status ts))"
    unfolding ts by (rule set_slice_status_listed [OF w]) (use x at in simp_all)
  then show ?thesis
    by (auto simp: slice_outcome_def all_status_iff any_status_iff split: if_splits)
qed

lemma demo_finish:
  "is_ok (fst (slice_finish demo_run ''00-api'' (demo_daemon DONE)))"
  "map sl_slug (slices_at (snd (slice_finish demo_run ''00-api'' (demo_daemon DONE))) ''/p'' ''00-core'') = [''00-api'']"
  by code_simp+

theorem slice_finish_right_witness:
  "\<exists>d' x. slice_finish demo_run ''00-api'' (demo_daemon DONE) = (Inr (), d')
     \<and> x \<in> set (slices_at d' ''/p'' ''00-core'')
     \<and> sl_status x \<in> {JStr ''completed'', JStr ''failed'', JStr ''active''}"
proof -
  obtain d' where run: "slice_finish demo_run ''00-api'' (demo_daemon DONE) = (Inr (), d')"
    using demo_finish(1) by (cases "slice_finish demo_run ''00-api'' (demo_daemon DONE)")
      (auto simp: is_ok_def split: sum.splits)
  have slugs: "map sl_slug (slices_at d' ''/p'' ''00-core'') = [''00-api'']"
    using demo_finish(2) unfolding run by simp
  then obtain x where x: "x \<in> set (slices_at d' ''/p'' ''00-core'')" "sl_slug x = ''00-api''"
    by (cases "slices_at d' ''/p'' ''00-core''") auto
  have p: "ae_path demo_run = ''/p''" "ae_milestone demo_run = ''00-core''" by (simp_all add: demo_run_def)
  have "sl_status x \<in> {JStr ''completed'', JStr ''failed'', JStr ''active''}"
    using slice_finish_right [OF run, unfolded p, OF x] by (elim conjE)
  with run x(1) show ?thesis by (intro exI conjI)
qed

text \<open>When a run of a milestone ends, its file says completed exactly when it has slices and all of
  them are completed, and active otherwise, also when slices failed.\<close>

theorem milestone_finish_right:
  assumes run: "milestone_finish st d = (Inr u, d')"
    and x: "x \<in> set (milestones_at d' (ae_path st))" "ms_slug x = ae_milestone st"
  defines "sls \<equiv> slices_at d' (ae_path st) (ae_milestone st)"
  shows "(ms_status x = JStr ''completed'' \<longleftrightarrow> sls \<noteq> [] \<and> (\<forall>y \<in> set sls. sl_status y = JStr ''completed''))
    \<and> ms_status x \<in> {JStr ''completed'', JStr ''active''}"
proof -
  obtain sls0 v where l: "listSlices (plan_of (d_store d) (ae_path st)) (ae_milestone st) = Inr sls0"
    and w: "set_milestone_status (ae_path st) (ae_milestone st)
      (if all_status ''completed'' (map sl_status sls0) then ''completed'' else ''active'') d = (Inr v, d')"
    using run by (auto simp: milestone_finish_def slices_of_def bindS_Inr)
  have sls: "sls = sls0"
    unfolding sls_def set_milestone_status_tasks(2) [OF w] by (simp add: slices_at_def or_empty_def l)
  have "ms_status x = JStr (if all_status ''completed'' (map sl_status sls) then ''completed'' else ''active'')"
    unfolding sls by (rule set_milestone_status_listed [OF w x])
  then show ?thesis by (auto simp: all_status_iff split: if_splits)
qed

lemma demo_milestone_finish:
  "is_ok (fst (milestone_finish demo_run (demo_daemon DONE)))"
  "map ms_slug (milestones_at (snd (milestone_finish demo_run (demo_daemon DONE))) ''/p'') = [''00-core'']"
  by code_simp+

theorem milestone_finish_right_witness:
  "\<exists>d' x. milestone_finish demo_run (demo_daemon DONE) = (Inr (), d')
     \<and> x \<in> set (milestones_at d' ''/p'') \<and> ms_status x \<in> {JStr ''completed'', JStr ''active''}"
proof -
  obtain d' where run: "milestone_finish demo_run (demo_daemon DONE) = (Inr (), d')"
    using demo_milestone_finish(1) by (cases "milestone_finish demo_run (demo_daemon DONE)")
      (auto simp: is_ok_def split: sum.splits)
  have "map ms_slug (milestones_at d' ''/p'') = [''00-core'']"
    using demo_milestone_finish(2) unfolding run by simp
  then obtain x where x: "x \<in> set (milestones_at d' ''/p'')" "ms_slug x = ''00-core''"
    by (cases "milestones_at d' ''/p''") auto
  have p: "ae_path demo_run = ''/p''" "ae_milestone demo_run = ''00-core''" by (simp_all add: demo_run_def)
  have "ms_status x \<in> {JStr ''completed'', JStr ''active''}"
    using milestone_finish_right [OF run, unfolded p, OF x] by (rule conjunct2)
  with run x(1) show ?thesis by (intro exI conjI)
qed

subsection \<open>Two runs, one name\<close>

text \<open>The registry knows runs by the slug of their milestone alone: while a run of one project is
  active, starting the equally named milestone of another project does nothing, its status reads as
  running all the same, and stopping it aborts the first project's run.\<close>

theorem registry_confuses_projects:
  assumes "startAutoExecution p1 path1 m reg = (Some st, reg1)"
  shows "startAutoExecution p2 path2 m reg1 = (None, reg1)
    \<and> getAutoExecutionStatus m reg1
    \<and> stopAutoExecution m reg1 = (True, Some (st\<lparr>ae_running := False, ae_aborted := True\<rparr>), endAutoExecution m reg1)
    \<and> ae_project st = p1 \<and> ae_path st = path1"
proof -
  have "st = \<lparr>ae_project = p1, ae_path = path1, ae_milestone = m, ae_running = True, ae_aborted = False\<rparr>"
    "reg1 = AList.update m st reg"
    using assms by (auto simp: startAutoExecution_def Let_def split: if_splits)
  then show ?thesis
    by (simp add: startAutoExecution_def getAutoExecutionStatus_def stopAutoExecution_def endAutoExecution_def
        jm_has_def jm_get_set)
qed

theorem registry_confuses_projects_witness:
  "\<exists>st reg1. startAutoExecution 1 ''/a'' ''00-core'' [] = (Some st, reg1)
     \<and> startAutoExecution 2 ''/b'' ''00-core'' reg1 = (None, reg1)"
proof -
  obtain st reg1 where run: "startAutoExecution 1 ''/a'' ''00-core'' [] = (Some st, reg1)"
    by (simp add: startAutoExecution_def jm_has_def Let_def)
  from registry_confuses_projects [OF run, of 2 "''/b''"] run show ?thesis by blast
qed

subsection \<open>A failed dependency does not stop the run\<close>

definition fail_dir :: plan_dir where
  "fail_dir = [(''00-core'', FDir [(''milestone.md'', FFile (Some []) []), (''00-api'', FDir
     [(''slice.md'', FFile (Some []) []),
      (''00-a.md'', FFile (Some [(''status'', JStr ''failed'')]) []),
      (''01-b.md'', FFile (Some [(''depends'', JArr [JStr ''00-a''])]) [])])])]"

definition fail_daemon :: daemon where
  "fail_daemon = (demo_daemon FAILED)\<lparr>d_store := demo_store\<lparr>st_plans := [(''/p'', fail_dir)]\<rparr>\<rparr>"

definition started_after_failure :: "(plan_error + started) \<times> jval list list" where
  "started_after_failure =
     (case slice_begin demo_run ''00-api'' fail_daemon of
        (Inr (Some ws), d) \<Rightarrow>
          (case executePlanTask demo_run ''00-api'' ''00-a'' d of
             (Inr Returned, d1) \<Rightarrow> (fst (executePlanTask demo_run ''00-api'' ''01-b'' d1), map wave_ids ws)
           | (r, d1) \<Rightarrow> (r, []))
      | _ \<Rightarrow> (Inr Returned, []))"

text \<open>In a slice where a plan task has failed, the run returns from the failed one at once and
  starts the task that depends on it in the next wave.\<close>

theorem dependent_starts_after_failure:
  "started_after_failure = (Inr (Waiting 6), [[JStr ''00-a''], [JStr ''01-b'']])"
  by code_simp

end
