(* ===== verification/RemoteAuth.thy ===== *)
theory RemoteAuth
  imports JsString
begin

text \<open>
  Remote access: the token configuration (\<open>src/src/config/remote-auth.ts\<close>), the failure-counting
  rate limiter (\<open>src/src/lib/rate-limit.ts\<close>), the HTTP middleware and the WebSocket check
  (\<open>src/src/middleware/remote-auth.ts\<close>) and the decision whether to start at all
  (\<open>src/src/lib/security-gate.ts\<close>).

  The rc file is the JSON object \<open>loadRc\<close> returns; the limiter's \<open>Map\<close> from keys to a count and an
  expiry time is an association list in insertion order; the clock is an argument.  On ASCII text
  \<open>timingSafeEqual\<close> of two buffers of equal length is equality.
\<close>

subsection \<open>Configured tokens\<close>

definition MIN_TOKEN_LENGTH :: nat where
  "MIN_TOKEN_LENGTH = 32"

definition obj_field :: "jval \<Rightarrow> string \<Rightarrow> jval option" where
  "obj_field v k = (case v of JObj fs \<Rightarrow> map_of fs k | _ \<Rightarrow> None)"

definition str_field :: "jval \<Rightarrow> string \<Rightarrow> string option" where
  "str_field v k = (case obj_field v k of Some (JStr s) \<Rightarrow> Some s | _ \<Rightarrow> None)"

text \<open>The entries of \<open>remoteAccessTokens\<close> that count: both fields non-empty strings, long enough, the
  first of each label.\<close>

fun labeled_tokens :: "string list \<Rightarrow> jval list \<Rightarrow> (string \<times> string) list" where
  "labeled_tokens seen [] = []"
| "labeled_tokens seen (e # es) =
     (case (str_field e ''label'', str_field e ''token'') of
        (Some label, Some token) \<Rightarrow>
          if label = [] \<or> token = [] \<or> length token < MIN_TOKEN_LENGTH \<or> label \<in> set seen
          then labeled_tokens seen es
          else (label, token) # labeled_tokens (label # seen) es
      | _ \<Rightarrow> labeled_tokens seen es)"

definition token_entries :: "jobj \<Rightarrow> jval list" where
  "token_entries rc = (case map_of rc ''remoteAccessTokens'' of Some (JArr es) \<Rightarrow> es | _ \<Rightarrow> [])"

definition getConfiguredTokens :: "jobj \<Rightarrow> (string \<times> string) list" where
  "getConfiguredTokens rc =
     (let out = labeled_tokens [] (token_entries rc)
      in case map_of rc ''remoteAccessToken'' of
           Some (JStr token) \<Rightarrow>
             if ''default'' \<notin> fst ` set out \<and> length token \<ge> MIN_TOKEN_LENGTH
             then out @ [(''default'', token)] else out
         | _ \<Rightarrow> out)"

definition hasRemoteAuth :: "jobj \<Rightarrow> bool" where
  "hasRemoteAuth rc \<longleftrightarrow> getConfiguredTokens rc \<noteq> []"

definition findMatchingToken :: "string \<Rightarrow> jobj \<Rightarrow> string option" where
  "findMatchingToken provided rc =
     fold (\<lambda>(label, token) match.
       if length provided \<noteq> length token then match
       else if provided = token \<and> match = None then Some label else match)
     (getConfiguredTokens rc) None"

datatype token_error = LabelRequired | TokenTooShort | LabelExists

definition wf_entry :: "jval \<Rightarrow> bool" where
  "wf_entry e \<longleftrightarrow> str_field e ''label'' \<noteq> None \<and> str_field e ''token'' \<noteq> None"

definition token_entry :: "string \<Rightarrow> string \<Rightarrow> jval" where
  "token_entry label token = JObj [(''label'', JStr label), (''token'', JStr token)]"

definition has_label :: "string \<Rightarrow> jval list \<Rightarrow> bool" where
  "has_label label es \<longleftrightarrow> list_ex (\<lambda>e. str_field e ''label'' = Some label) es"

definition addRemoteAccessToken :: "string \<Rightarrow> string \<Rightarrow> jobj \<Rightarrow> token_error + jobj" where
  "addRemoteAccessToken label token rc =
     (if label = [] then Inl LabelRequired
      else if length token < MIN_TOKEN_LENGTH then Inl TokenTooShort
      else
        let existing = filter wf_entry (token_entries rc) in
        if has_label label existing then Inl LabelExists
        else
          let existing1 = existing @ [token_entry label token] in
          case map_of rc ''remoteAccessToken'' of
            Some (JStr (c # cs)) \<Rightarrow>
              Inr (AList.update ''remoteAccessTokens''
                     (JArr (if has_label ''default'' existing1 then existing1
                            else token_entry ''default'' (c # cs) # existing1))
                     (AList.delete ''remoteAccessToken'' rc))
          | _ \<Rightarrow> Inr (AList.update ''remoteAccessTokens'' (JArr existing1) rc))"

definition removeRemoteAccessToken :: "string \<Rightarrow> jobj \<Rightarrow> bool \<times> jobj" where
  "removeRemoteAccessToken label rc =
     (let (removed1, rc1) =
        (case map_of rc ''remoteAccessTokens'' of
           Some (JArr es) \<Rightarrow>
             let es' = filter (\<lambda>e. obj_field e ''label'' \<noteq> Some (JStr label)) es
             in (length es' \<noteq> length es, AList.update ''remoteAccessTokens'' (JArr es') rc)
         | _ \<Rightarrow> (False, rc))
      in case (label = ''default'', map_of rc1 ''remoteAccessToken'') of
           (True, Some (JStr _)) \<Rightarrow> (True, AList.delete ''remoteAccessToken'' rc1)
         | _ \<Rightarrow> if removed1 then (True, rc1) else (False, rc))"

subsection \<open>The rate limiter\<close>

type_synonym limiter = "(string \<times> (nat \<times> int)) list"

record limiter_opts =
  lo_maxAttempts :: nat
  lo_windowMs :: int
  lo_maxKeys :: nat

definition isLimited :: "limiter_opts \<Rightarrow> int \<Rightarrow> string \<Rightarrow> limiter \<Rightarrow> bool \<times> limiter" where
  "isLimited opts now key m =
     (case map_of m key of
        None \<Rightarrow> (False, m)
      | Some (n, resetAt) \<Rightarrow>
          if now > resetAt then (False, AList.delete key m)
          else (lo_maxAttempts opts \<le> n, m))"

text \<open>The sweep of expired entries; the flag says whether it made room and returned.\<close>

fun sweep :: "nat \<Rightarrow> int \<Rightarrow> limiter \<Rightarrow> limiter \<Rightarrow> bool \<times> limiter" where
  "sweep cap now [] m = (False, m)"
| "sweep cap now ((k, v) # todo) m =
     (let m' = (if now > snd v then AList.delete k m else m)
      in if length m' < cap then (True, m') else sweep cap now todo m')"

definition evictIfFull :: "nat \<Rightarrow> int \<Rightarrow> limiter \<Rightarrow> limiter" where
  "evictIfFull cap now m =
     (if length m < cap then m
      else case sweep cap now m m of (room, m') \<Rightarrow> if room then m' else tl m')"

definition recordFailure :: "limiter_opts \<Rightarrow> int \<Rightarrow> string \<Rightarrow> limiter \<Rightarrow> limiter" where
  "recordFailure opts now key m =
     (case map_of m key of
        Some (n, resetAt) \<Rightarrow>
          if now > resetAt
          then AList.update key (1, now + lo_windowMs opts) (evictIfFull (lo_maxKeys opts) now m)
          else AList.update key (n + 1, resetAt) m
      | None \<Rightarrow> AList.update key (1, now + lo_windowMs opts) (evictIfFull (lo_maxKeys opts) now m))"

definition authRateLimiter :: limiter_opts where
  "authRateLimiter = \<lparr>lo_maxAttempts = 5, lo_windowMs = 60000, lo_maxKeys = 10000\<rparr>"

subsection \<open>The middleware\<close>

definition isLocalhost :: "string \<Rightarrow> bool" where
  "isLocalhost ip \<longleftrightarrow> ip = ''127.0.0.1'' \<or> ip = ''::1'' \<or> ip = ''::ffff:127.0.0.1'' \<or> ip = ''localhost''"

definition isLoopbackBindHost :: "string \<Rightarrow> bool" where
  "isLoopbackBindHost host \<longleftrightarrow> host = ''127.0.0.1'' \<or> host = ''::1'' \<or> host = ''localhost''"

definition isPublicPath :: "string \<Rightarrow> string \<Rightarrow> bool" where
  "isPublicPath method path \<longleftrightarrow> method = ''GET'' \<and> path = ''/health'' \<or> method = ''OPTIONS''"

record request =
  rq_method :: string
  rq_path :: string
  rq_ip :: string
  rq_authorization :: "string option"
  rq_token :: "string option"

definition bearer :: "string option \<Rightarrow> string option" where
  "bearer h = (case h of None \<Rightarrow> None
     | Some s \<Rightarrow> if is_prefix_of ''Bearer '' s then Some (drop 7 s) else None)"

text \<open>\<open>Pass\<close> is \<open>next()\<close>, with the label of the token if one was checked.\<close>

datatype auth_result = Pass "string option" | Unauthorized | TooMany | LoopbackOnly

definition remoteAuth :: "jobj \<Rightarrow> limiter_opts \<Rightarrow> int \<Rightarrow> request \<Rightarrow> limiter \<Rightarrow> auth_result \<times> limiter" where
  "remoteAuth rc opts now rq m =
     (if \<not> hasRemoteAuth rc then (Pass None, m)
      else if isPublicPath (rq_method rq) (rq_path rq) then (Pass None, m)
      else if isLocalhost (rq_ip rq) then (Pass None, m)
      else case isLimited opts now (rq_ip rq) m of
             (True, m1) \<Rightarrow> (TooMany, m1)
           | (False, m1) \<Rightarrow>
              (case (case bearer (rq_authorization rq) of
                       None \<Rightarrow> None | Some p \<Rightarrow> if p = [] then None else findMatchingToken p rc) of
                 Some label \<Rightarrow> (Pass (Some label), m1)
               | None \<Rightarrow> (Unauthorized, recordFailure opts now (rq_ip rq) m1)))"

definition requireLoopback :: "jobj \<Rightarrow> request \<Rightarrow> auth_result" where
  "requireLoopback rc rq =
     (if \<not> hasRemoteAuth rc then Pass None
      else if \<not> isLocalhost (rq_ip rq) then LoopbackOnly else Pass None)"

definition verifyWsToken :: "jobj \<Rightarrow> request \<Rightarrow> bool" where
  "verifyWsToken rc rq =
     (if \<not> hasRemoteAuth rc then True
      else if isLocalhost (rq_ip rq) then True
      else case rq_token rq of None \<Rightarrow> False
           | Some t \<Rightarrow> t \<noteq> [] \<and> findMatchingToken t rc \<noteq> None)"

datatype gate_decision = GateStart "string option" "string option" | GateRefuse

text \<open>The texts of the messages are left out but for their kind.\<close>

definition evaluateBindSecurity :: "string \<Rightarrow> bool \<Rightarrow> bool \<Rightarrow> gate_decision" where
  "evaluateBindSecurity host hasToken allowInsecurePublic =
     (if isLoopbackBindHost host then GateStart None None
      else if hasToken then GateStart None (Some ''token auth active'')
      else if allowInsecurePublic then GateStart (Some ''WITHOUT authentication'') None
      else GateRefuse)"

subsection \<open>The limiter is bounded\<close>

lemma sweep_filter:
  "sweep cap now todo m = (r, m') \<Longrightarrow> \<exists>P. m' = filter P m"
proof (induction todo arbitrary: m)
  case Nil
  then show ?case by (auto intro: exI [of _ "\<lambda>_. True"])
next
  case (Cons kv todo)
  obtain k v where kv: "kv = (k, v)" by (cases kv)
  let ?m = "if now > snd v then AList.delete k m else m"
  have f: "\<exists>P. ?m = filter P m"
    by (auto simp: jm_delete_filter intro: exI [of _ "\<lambda>_. True"])
  show ?case
  proof (cases "length ?m < cap")
    case True
    then show ?thesis using Cons.prems f by (auto simp: kv Let_def split: if_splits)
  next
    case False
    then have "sweep cap now todo ?m = (r, m')" using Cons.prems by (simp add: kv Let_def split: if_splits)
    from Cons.IH [OF this] obtain Q where Q: "m' = filter Q ?m" by blast
    from f obtain P where P: "?m = filter P m" by blast
    show ?thesis unfolding Q P filter_filter by blast
  qed
qed

lemma sweep_room: "sweep cap now todo m = (True, m') \<Longrightarrow> length m' < cap"
  by (induction todo arbitrary: m) (auto simp: Let_def split: if_splits)

lemma evict_filter: "\<exists>P. evictIfFull cap now m = filter P m \<or> evictIfFull cap now m = tl (filter P m)"
proof (cases "length m < cap")
  case True
  then show ?thesis by (auto simp: evictIfFull_def intro: exI [of _ "\<lambda>_. True"])
next
  case False
  obtain r m' where s: "sweep cap now m m = (r, m')" by fastforce
  then show ?thesis using False sweep_filter [OF s] by (auto simp: evictIfFull_def)
qed

lemma set_tl_subset: "set (tl xs) \<subseteq> set xs"
  by (cases xs) auto

lemma evict_ok: "jm_ok m \<Longrightarrow> jm_ok (evictIfFull cap now m)"
  using evict_filter [of cap now m] by (auto simp: distinct_map_filter map_tl distinct_tl)

lemma evict_get: "jm_ok m \<Longrightarrow> map_of (evictIfFull cap now m) k = Some v \<Longrightarrow> map_of m k = Some v"
proof -
  assume ok: "jm_ok m" and get: "map_of (evictIfFull cap now m) k = Some v"
  have "set (evictIfFull cap now m) \<subseteq> set m"
    using evict_filter [of cap now m] by (metis filter_is_subset set_tl_subset subset_trans)
  then show "map_of m k = Some v" using ok map_of_SomeD [OF get] by (auto simp: map_of_eq_Some_iff)
qed

lemma evict_size: "0 < cap \<Longrightarrow> length m \<le> cap \<Longrightarrow> length (evictIfFull cap now m) < cap"
proof -
  assume c: "0 < cap" and m: "length m \<le> cap"
  show ?thesis
  proof (cases "length m < cap")
    case False
    obtain r m' where s: "sweep cap now m m = (r, m')" by fastforce
    obtain P where "m' = filter P m" using sweep_filter [OF s] by blast
    then have "length m' \<le> cap" using le_trans [OF length_filter_le [of P m] m] by simp
    then show ?thesis using False s sweep_room [of cap now m m] c
      by (cases r) (auto simp: evictIfFull_def)
  qed (simp add: evictIfFull_def)
qed

definition limiter_put :: "nat \<Rightarrow> int \<Rightarrow> string \<Rightarrow> nat \<times> int \<Rightarrow> limiter \<Rightarrow> limiter" where
  "limiter_put cap now k e m = AList.update k e (evictIfFull cap now m)"

interpretation auth_limiter: bounded_cache "limiter_put 10000 now" map_of length jm_ok 10000 for now
proof unfold_locales
  show "jm_ok s \<Longrightarrow> jm_ok (limiter_put 10000 now k e s)" for s k e
    by (simp add: limiter_put_def evict_ok distinct_update)
  show "length (limiter_put 10000 now k e s) \<le> 10000" if "length s \<le> 10000" for s k e
    using evict_size [OF _ that, of now] jm_size_set_le [of k e "evictIfFull 10000 now s"]
    by (simp add: limiter_put_def)
  show "map_of (limiter_put 10000 now k e s) k = Some e" for s k e
    by (simp add: limiter_put_def jm_get_set)
  show "map_of (limiter_put 10000 now k e s) k' = map_of s k' \<or> map_of (limiter_put 10000 now k e s) k' = None"
    if "jm_ok s" "k' \<noteq> k" for s k k' e
    using evict_get [OF that(1), of 10000 now k'] that(2)
    by (cases "map_of (evictIfFull 10000 now s) k'") (auto simp: limiter_put_def jm_get_set)
qed

definition limiter_ok :: "limiter \<Rightarrow> bool" where
  "limiter_ok m \<longleftrightarrow> jm_ok m \<and> length m \<le> 10000"

lemma recordFailure_cases:
  obtains e where "recordFailure authRateLimiter now k m = limiter_put 10000 now k e m"
    | n r where "map_of m k = Some (n, r)" "recordFailure authRateLimiter now k m = AList.update k (n + 1, r) m"
proof (cases "\<exists>n r. map_of m k = Some (n, r) \<and> \<not> now > r")
  case True
  then obtain n r where "map_of m k = Some (n, r)" "\<not> now > r" by blast
  then show thesis using that(2) by (simp add: recordFailure_def)
next
  case False
  then have "recordFailure authRateLimiter now k m =
      limiter_put 10000 now k (1, now + lo_windowMs authRateLimiter) m"
    by (auto simp: recordFailure_def limiter_put_def authRateLimiter_def split: option.splits)
  then show thesis by (rule that(1))
qed

lemma recordFailure_ok: "limiter_ok m \<Longrightarrow> limiter_ok (recordFailure authRateLimiter now k m)"
proof (cases rule: recordFailure_cases [of now k m])
  case (1 e)
  assume "limiter_ok m"
  then show ?thesis
    using auth_limiter.wf_put [of m now k e] auth_limiter.count_put [of m now k e] by (simp add: 1 limiter_ok_def)
next
  case (2 n r)
  assume "limiter_ok m"
  moreover have "k \<in> fst ` set m" using 2(1) by (force dest: map_of_SomeD)
  ultimately show ?thesis by (simp add: 2 limiter_ok_def distinct_update jm_size_set)
qed

lemma isLimited_ok: "limiter_ok m \<Longrightarrow> isLimited opts now k m = (b, m') \<Longrightarrow> limiter_ok m'"
  by (auto simp: isLimited_def limiter_ok_def distinct_delete split: option.splits if_splits)
    (meson dual_order.trans length_delete_le)

lemma remoteAuth_ok: "limiter_ok m \<Longrightarrow> limiter_ok (snd (remoteAuth rc authRateLimiter now rq m))"
  by (auto simp: remoteAuth_def recordFailure_ok isLimited_ok split: prod.splits bool.splits option.splits)

text \<open>Whatever requests arrive from whatever addresses, the table of failed attempts never holds
  more than 10000 entries.\<close>

theorem limiter_bounded:
  "length (fold (\<lambda>(now, rq) m. snd (remoteAuth rc authRateLimiter now rq m)) rqs []) \<le> 10000"
proof -
  have "limiter_ok m \<Longrightarrow> limiter_ok (fold (\<lambda>(now, rq) m. snd (remoteAuth rc authRateLimiter now rq m)) rqs m)" for m
    by (induction rqs arbitrary: m) (auto simp: remoteAuth_ok)
  from this [of "[]"] show ?thesis by (simp add: limiter_ok_def)
qed

subsection \<open>Who gets in\<close>

lemma findMatchingToken_iff:
  "findMatchingToken p rc \<noteq> None \<longleftrightarrow> (\<exists>label. (label, p) \<in> set (getConfiguredTokens rc))"
proof -
  have "fold (\<lambda>(label, token) match.
       if length p \<noteq> length token then match
       else if p = token \<and> match = None then Some label else match) ts acc \<noteq> None
    \<longleftrightarrow> acc \<noteq> None \<or> (\<exists>label. (label, p) \<in> set ts)" for ts and acc :: "string option"
    by (induction ts arbitrary: acc) (auto split: if_splits)
  then show ?thesis by (simp add: findMatchingToken_def)
qed

lemma labeled_tokens_long: "(l, t) \<in> set (labeled_tokens seen es) \<Longrightarrow> MIN_TOKEN_LENGTH \<le> length t"
  by (induction es arbitrary: seen) (auto split: option.splits if_splits)

lemma configured_long: "(l, t) \<in> set (getConfiguredTokens rc) \<Longrightarrow> 32 \<le> length t"
  using labeled_tokens_long [of l t "[]" "token_entries rc"]
  by (auto simp: getConfiguredTokens_def MIN_TOKEN_LENGTH_def Let_def split: option.splits jval.splits if_splits)

lemma bearer_iff: "bearer h = Some p \<longleftrightarrow> h = Some (''Bearer '' @ p)"
proof (cases h)
  case (Some s)
  show ?thesis
  proof (cases "is_prefix_of ''Bearer '' s")
    case True
    then obtain z where z: "s = ''Bearer '' @ z" by (auto simp: is_prefix_of_iff)
    show ?thesis by (simp add: Some z bearer_def)
  next
    case False
    then have "s \<noteq> ''Bearer '' @ p" by (auto simp: is_prefix_of_iff)
    then show ?thesis using False by (simp add: Some bearer_def)
  qed
qed (simp add: bearer_def)

text \<open>C39: with tokens configured, a request gets past the middleware exactly when it asks for a public
  path, or comes from the machine itself, or its address is not locked out and it carries a
  configured token as its bearer token.\<close>

theorem remoteAuth_passes_iff:
  "(\<exists>l. fst (remoteAuth rc opts now rq m) = Pass l) \<longleftrightarrow>
     \<not> hasRemoteAuth rc \<or> isPublicPath (rq_method rq) (rq_path rq) \<or> isLocalhost (rq_ip rq)
     \<or> (\<not> fst (isLimited opts now (rq_ip rq) m)
        \<and> (\<exists>label token. (label, token) \<in> set (getConfiguredTokens rc) \<and> 32 \<le> length token
              \<and> rq_authorization rq = Some (''Bearer '' @ token)))"
proof -
  obtain b m1 where l: "isLimited opts now (rq_ip rq) m = (b, m1)" by fastforce
  have tok: "(case bearer (rq_authorization rq) of
       None \<Rightarrow> None | Some p \<Rightarrow> if p = [] then None else findMatchingToken p rc) \<noteq> None
    \<longleftrightarrow> (\<exists>label token. (label, token) \<in> set (getConfiguredTokens rc) \<and> 32 \<le> length token
            \<and> rq_authorization rq = Some (''Bearer '' @ token))" (is "?l \<longleftrightarrow> ?r")
  proof
    assume ?l
    then obtain p where p: "bearer (rq_authorization rq) = Some p" "findMatchingToken p rc \<noteq> None"
      by (auto split: option.splits if_splits)
    from p(2) obtain label where "(label, p) \<in> set (getConfiguredTokens rc)"
      unfolding findMatchingToken_iff by blast
    with configured_long [OF this] p(1) show ?r unfolding bearer_iff by blast
  next
    assume ?r
    then obtain label p where p: "(label, p) \<in> set (getConfiguredTokens rc)" "32 \<le> length p"
      "bearer (rq_authorization rq) = Some p" unfolding bearer_iff by blast
    then show ?l using findMatchingToken_iff [of p rc] by (auto split: option.splits)
  qed
  show ?thesis unfolding tok [symmetric] by (cases b) (auto simp: remoteAuth_def l split: option.splits)
qed

fun auth_run :: "jobj \<Rightarrow> (int \<times> request) list \<Rightarrow> limiter \<Rightarrow> auth_result list" where
  "auth_run rc [] m = []"
| "auth_run rc ((now, rq) # rqs) m =
     (case remoteAuth rc authRateLimiter now rq m of (r, m') \<Rightarrow> r # auth_run rc rqs m')"

definition bad_guess :: "jobj \<Rightarrow> string \<Rightarrow> request \<Rightarrow> bool" where
  "bad_guess rc ip rq \<longleftrightarrow> rq_ip rq = ip \<and> \<not> isLocalhost ip \<and> \<not> isPublicPath (rq_method rq) (rq_path rq)
     \<and> (\<forall>p. rq_authorization rq = Some (''Bearer '' @ p) \<longrightarrow> findMatchingToken p rc = None)"

lemma bad_guess_step:
  assumes "bad_guess rc ip rq" "hasRemoteAuth rc"
  shows "remoteAuth rc opts now rq m = (case isLimited opts now ip m of
      (True, m1) \<Rightarrow> (TooMany, m1) | (False, m1) \<Rightarrow> (Unauthorized, recordFailure opts now ip m1))"
proof -
  have "(case bearer (rq_authorization rq) of
       None \<Rightarrow> None | Some p \<Rightarrow> if p = [] then None else findMatchingToken p rc) = None"
    using assms(1) bearer_iff [of "rq_authorization rq"] by (auto simp: bad_guess_def split: option.splits)
  then show ?thesis using assms by (auto simp: remoteAuth_def bad_guess_def split: prod.splits bool.splits)
qed

lemma guesses_counted:
  assumes "hasRemoteAuth rc" "\<forall>(t, rq) \<in> set rqs. bad_guess rc ip rq \<and> t \<le> reset"
    and "map_of m ip = Some (n, reset)" "n \<le> 5"
  shows "auth_run rc rqs m = replicate (min (5 - n) (length rqs)) Unauthorized
      @ replicate (length rqs - (5 - n)) TooMany"
  using assms
proof (induction rqs arbitrary: m n)
  case (Cons trq rqs)
  obtain t rq where trq: "trq = (t, rq)" by (cases trq)
  have g: "bad_guess rc ip rq" "t \<le> reset" using Cons.prems(2) by (simp_all add: trq)
  note step = bad_guess_step [OF g(1) Cons.prems(1), of authRateLimiter t m]
  show ?case
  proof (cases "n = 5")
    case True
    then have "remoteAuth rc authRateLimiter t rq m = (TooMany, m)"
      using Cons.prems(3) g(2) step by (simp add: isLimited_def authRateLimiter_def)
    then show ?thesis using Cons.IH [of m n] Cons.prems True by (simp add: trq)
  next
    case False
    then have n: "n < 5" using Cons.prems(4) by simp
    then have "remoteAuth rc authRateLimiter t rq m
        = (Unauthorized, AList.update ip (n + 1, reset) m)"
      using Cons.prems(3) g(2) step by (simp add: isLimited_def recordFailure_def authRateLimiter_def)
    moreover have "auth_run rc rqs (AList.update ip (n + 1, reset) m)
        = replicate (min (5 - (n + 1)) (length rqs)) Unauthorized @ replicate (length rqs - (5 - (n + 1))) TooMany"
      by (rule Cons.IH) (use Cons.prems n in \<open>auto simp: jm_get_set\<close>)
    ultimately show ?thesis using n by (simp add: trq Suc_diff_Suc [symmetric] min_Suc_Suc)
  qed
qed simp

text \<open>From one address, within a minute of its first failure, at most five wrong or missing tokens
  are looked at; every further request in that minute is turned away unseen.\<close>

theorem five_guesses_a_minute:
  assumes auth: "hasRemoteAuth rc" and guesses: "\<forall>(t, rq) \<in> set ((t0, rq0) # rqs). bad_guess rc ip rq \<and> t \<le> t0 + 60000"
    and fresh: "map_of m ip = None"
  shows "auth_run rc ((t0, rq0) # rqs) m =
     replicate (min 5 (Suc (length rqs))) Unauthorized @ replicate (Suc (length rqs) - 5) TooMany"
proof -
  have g: "bad_guess rc ip rq0" using guesses by simp
  have "remoteAuth rc authRateLimiter t0 rq0 m
      = (Unauthorized, AList.update ip (1, t0 + 60000) (evictIfFull 10000 t0 m))"
    using bad_guess_step [OF g auth, of authRateLimiter t0 m] fresh
    by (simp add: isLimited_def recordFailure_def authRateLimiter_def)
  moreover have "auth_run rc rqs (AList.update ip (1, t0 + 60000) (evictIfFull 10000 t0 m))
      = replicate (min (5 - 1) (length rqs)) Unauthorized @ replicate (length rqs - (5 - 1)) TooMany"
    by (rule guesses_counted [OF auth]) (use guesses in \<open>auto simp: jm_get_set\<close>)
  ultimately show ?thesis by (simp add: min_Suc_Suc eval_nat_numeral)
qed

definition long_token :: string where
  "long_token = replicate 32 CHR ''k''"

definition demo_rc :: jobj where
  "demo_rc = [(''remoteAccessTokens'', JArr [token_entry ''phone'' long_token])]"

definition guess :: request where
  "guess = \<lparr>rq_method = ''GET'', rq_path = ''/tasks'', rq_ip = ''10.0.0.9'',
     rq_authorization = Some ''Bearer x'', rq_token = None\<rparr>"

lemma demo_tokens: "getConfiguredTokens demo_rc = [(''phone'', long_token)]"
  by code_simp

theorem remoteAuth_passes_iff_witness:
  "(\<exists>l. fst (remoteAuth demo_rc authRateLimiter 0
      (guess\<lparr>rq_authorization := Some (''Bearer '' @ long_token)\<rparr>) []) = Pass l)
   \<and> (\<nexists>l. fst (remoteAuth demo_rc authRateLimiter 0 guess []) = Pass l)"
  unfolding remoteAuth_passes_iff
  by (auto simp: isLimited_def guess_def hasRemoteAuth_def demo_tokens isPublicPath_def isLocalhost_def
      long_token_def dest: arg_cong [of _ _ length])

lemma guess_bad: "bad_guess demo_rc ''10.0.0.9'' guess"
proof -
  have "findMatchingToken ''x'' demo_rc = None" by code_simp
  then show ?thesis by (simp add: bad_guess_def guess_def isLocalhost_def isPublicPath_def)
qed

theorem five_guesses_a_minute_witness:
  "auth_run demo_rc [(0, guess), (1, guess), (2, guess), (3, guess), (4, guess), (5, guess)] [] =
     [Unauthorized, Unauthorized, Unauthorized, Unauthorized, Unauthorized, TooMany]"
proof -
  have a: "hasRemoteAuth demo_rc" by (simp add: hasRemoteAuth_def demo_tokens)
  have g: "\<forall>(t, rq) \<in> set ((0::int, guess) # [(1, guess), (2, guess), (3, guess), (4, guess), (5, guess)]).
      bad_guess demo_rc ''10.0.0.9'' rq \<and> t \<le> 0 + 60000" using guess_bad by simp
  show ?thesis using five_guesses_a_minute [OF a g, of "[]"] by (simp add: eval_nat_numeral)
qed

subsection \<open>Adding and revoking tokens\<close>

lemma str_field_label: "str_field e ''label'' = Some l \<longleftrightarrow> obj_field e ''label'' = Some (JStr l)"
  by (auto simp: str_field_def split: option.splits jval.splits)

lemma labeled_tokens_filter:
  assumes "\<And>x. x \<noteq> l \<Longrightarrow> x \<in> set seen' \<longleftrightarrow> x \<in> set seen"
  shows "labeled_tokens seen' (filter (\<lambda>e. obj_field e ''label'' \<noteq> Some (JStr l)) es)
    = filter (\<lambda>(a, _). a \<noteq> l) (labeled_tokens seen es)"
  using assms
proof (induction es arbitrary: seen seen')
  case (Cons e es)
  note IH = Cons.IH [OF Cons.prems]
  show ?case
  proof (cases "obj_field e ''label'' = Some (JStr l)")
    case True
    then have "str_field e ''label'' = Some l" by (simp add: str_field_label)
    moreover have "labeled_tokens seen' (filter (\<lambda>e. obj_field e ''label'' \<noteq> Some (JStr l)) es)
        = filter (\<lambda>(a, _). a \<noteq> l) (labeled_tokens (l # seen) es)"
      by (rule Cons.IH) (use Cons.prems in auto)
    ultimately show ?thesis using True IH by (auto split: option.splits)
  next
    case False
    then have ne: "str_field e ''label'' \<noteq> Some l" by (simp add: str_field_label)
    have "labeled_tokens (a # seen') (filter (\<lambda>e. obj_field e ''label'' \<noteq> Some (JStr l)) es)
        = filter (\<lambda>(a, _). a \<noteq> l) (labeled_tokens (a # seen) es)" for a
      by (rule Cons.IH) (use Cons.prems in auto)
    then show ?thesis using False IH ne Cons.prems by (auto split: option.splits)
  qed
qed simp

lemma filter_all_same: "length (filter P xs) = length xs \<Longrightarrow> filter P xs = xs"
  by (induction xs) (auto, metis Suc_n_not_le_n length_filter_le)

lemma token_entries_cong:
  "map_of rc1 ''remoteAccessTokens'' = map_of rc2 ''remoteAccessTokens'' \<Longrightarrow> token_entries rc1 = token_entries rc2"
  by (simp add: token_entries_def)

lemma legacy_case:
  "(case (b, x) of (True, Some (JStr t)) \<Rightarrow> A | _ \<Rightarrow> B) = (if b \<and> (\<exists>t. x = Some (JStr t)) then A else B)"
  by (cases b) (simp_all split: option.split jval.split)

lemma remove_unfold:
  fixes label rc
  defines "es \<equiv> token_entries rc" and "es' \<equiv> filter (\<lambda>e. obj_field e ''label'' \<noteq> Some (JStr label)) (token_entries rc)"
  shows "removeRemoteAccessToken label rc =
    (let rc1 = (if \<exists>es. map_of rc ''remoteAccessTokens'' = Some (JArr es)
                then AList.update ''remoteAccessTokens'' (JArr es') rc else rc)
     in if label = ''default'' \<and> (\<exists>t. map_of rc ''remoteAccessToken'' = Some (JStr t))
        then (True, AList.delete ''remoteAccessToken'' rc1)
        else if length es' \<noteq> length es then (True, rc1) else (False, rc))"
proof (cases "\<exists>es. map_of rc ''remoteAccessTokens'' = Some (JArr es)")
  case True
  then obtain es0 where es0: "map_of rc ''remoteAccessTokens'' = Some (JArr es0)" by blast
  have leg: "map_of (AList.update ''remoteAccessTokens'' v rc) ''remoteAccessToken'' = map_of rc ''remoteAccessToken''"
    for v by (simp add: jm_get_set)
  have te: "token_entries rc = es0" using es0 by (simp add: token_entries_def)
  have es0': "map_of rc ''remoteAccessTokens'' = Some (JArr es) \<longleftrightarrow> es = es0" for es using es0 by auto
  show ?thesis
    unfolding removeRemoteAccessToken_def legacy_case es_def es'_def te
    by (cases "label = ''default''"; cases "\<exists>t. map_of rc ''remoteAccessToken'' = Some (JStr t)")
      (simp_all add: es0 leg Let_def)
next
  case False
  then have te: "token_entries rc = []"
    by (simp add: token_entries_def split: option.split jval.split)
  have one: "(case map_of rc ''remoteAccessTokens'' of
      Some (JArr es) \<Rightarrow> f es | _ \<Rightarrow> (False, rc)) = (False, rc)" for f :: "jval list \<Rightarrow> bool \<times> jobj"
    using False by (simp split: option.split jval.split)
  show ?thesis
    unfolding removeRemoteAccessToken_def legacy_case one es_def es'_def te using False by simp
qed

lemma remove_entries:
  "token_entries (snd (removeRemoteAccessToken label rc)) =
     filter (\<lambda>e. obj_field e ''label'' \<noteq> Some (JStr label)) (token_entries rc)" (is "_ = ?es'")
proof (cases "\<exists>es. map_of rc ''remoteAccessTokens'' = Some (JArr es)")
  case True
  have upd: "token_entries (AList.update ''remoteAccessTokens'' (JArr es) rc) = es" for es
    by (simp add: token_entries_def jm_get_set)
  have del: "token_entries (AList.delete ''remoteAccessToken'' r) = token_entries r" for r
    by (rule token_entries_cong) (simp add: jm_get_del)
  show ?thesis using True upd del filter_all_same [of "\<lambda>e. obj_field e ''label'' \<noteq> Some (JStr label)" "token_entries rc"]
    by (auto simp: remove_unfold Let_def)
next
  case False
  then have te: "token_entries rc = []"
    by (simp add: token_entries_def split: option.split jval.split)
  have del: "token_entries (AList.delete ''remoteAccessToken'' r) = token_entries r" for r
    by (rule token_entries_cong) (simp add: jm_get_del)
  show ?thesis using False te del by (simp add: remove_unfold)
qed

lemma remove_legacy:
  "map_of (snd (removeRemoteAccessToken label rc)) ''remoteAccessToken'' =
    (case map_of rc ''remoteAccessToken'' of
       Some (JStr t) \<Rightarrow> if label = ''default'' then None else Some (JStr t) | v \<Rightarrow> v)"
  by (cases "label = ''default''"; cases "map_of rc ''remoteAccessToken''")
    (simp_all add: remove_unfold Let_def jm_get_set jm_get_del split: jval.split)

lemma remove_unchanged:
  "\<not> fst (removeRemoteAccessToken label rc) \<Longrightarrow> snd (removeRemoteAccessToken label rc) = rc"
  by (auto simp: remove_unfold Let_def split: if_splits)

lemma remove_tokens:
  "getConfiguredTokens (snd (removeRemoteAccessToken label rc))
     = filter (\<lambda>(a, _). a \<noteq> label) (getConfiguredTokens rc)"
proof -
  let ?L = "\<lambda>es. filter (\<lambda>e. obj_field e ''label'' \<noteq> Some (JStr label)) es"
  let ?F = "filter (\<lambda>(a, _). a \<noteq> label)"
  have lab: "labeled_tokens [] (?L es) = ?F (labeled_tokens [] es)" for es
    by (rule labeled_tokens_filter) simp
  have mem: "''default'' \<in> fst ` set (?F xs) \<longleftrightarrow> ''default'' \<in> fst ` set xs" if "label \<noteq> ''default''"
    for xs :: "(string \<times> string) list" using that by force
  let ?rc = "snd (removeRemoteAccessToken label rc)"
  have te: "token_entries ?rc = ?L (token_entries rc)" by (rule remove_entries)
  note leg = remove_legacy [of label rc]
  have conf: "getConfiguredTokens rc2 = labeled_tokens [] (token_entries rc2) @
      (case map_of rc2 ''remoteAccessToken'' of
         Some (JStr token) \<Rightarrow> if ''default'' \<notin> fst ` set (labeled_tokens [] (token_entries rc2))
             \<and> MIN_TOKEN_LENGTH \<le> length token then [(''default'', token)] else []
       | _ \<Rightarrow> [])" for rc2
    by (simp add: getConfiguredTokens_def Let_def split: option.split jval.split)
  have "getConfiguredTokens ?rc = ?F (getConfiguredTokens rc)"
  proof (cases "\<exists>t. map_of rc ''remoteAccessToken'' = Some (JStr t)")
    case True
    then obtain t where "map_of rc ''remoteAccessToken'' = Some (JStr t)" by blast
    then show ?thesis using mem [of "labeled_tokens [] (token_entries rc)"]
      unfolding conf te leg lab by (cases "label = ''default''") simp_all
  next
    case False
    then show ?thesis unfolding conf te leg lab by (simp split: option.split jval.split)
  qed
  then show ?thesis .
qed

text \<open>Revoking a label takes away exactly the tokens configured under it, the legacy token of the
  label \<open>default\<close> included, and reports whether it changed the file.\<close>

theorem removeRemoteAccessToken_exact:
  "getConfiguredTokens (snd (removeRemoteAccessToken label rc))
     = filter (\<lambda>(a, _). a \<noteq> label) (getConfiguredTokens rc)
   \<and> (fst (removeRemoteAccessToken label rc) \<or> snd (removeRemoteAccessToken label rc) = rc)"
  using remove_tokens remove_unchanged by blast

text \<open>Taking back the only token of a server turns its authentication off: every request, from
  any address and with any header, then passes.\<close>

theorem revoking_the_last_token_opens:
  assumes "\<forall>(a, t) \<in> set (getConfiguredTokens rc). a = label"
  shows "fst (remoteAuth (snd (removeRemoteAccessToken label rc)) opts now rq m) = Pass None"
proof -
  have "getConfiguredTokens (snd (removeRemoteAccessToken label rc)) = []"
    using assms by (auto simp: remove_tokens filter_empty_conv)
  then show ?thesis by (simp add: remoteAuth_def hasRemoteAuth_def)
qed

theorem revoking_the_last_token_opens_witness:
  "fst (remoteAuth (snd (removeRemoteAccessToken ''phone'' demo_rc)) authRateLimiter 0 guess []) = Pass None
   \<and> fst (remoteAuth demo_rc authRateLimiter 0 guess []) = Unauthorized"
proof
  show "fst (remoteAuth (snd (removeRemoteAccessToken ''phone'' demo_rc)) authRateLimiter 0 guess []) = Pass None"
    by (rule revoking_the_last_token_opens) (simp add: demo_tokens)
  show "fst (remoteAuth demo_rc authRateLimiter 0 guess []) = Unauthorized" by code_simp
qed

end
