(* ===== verification/Permission.thy ===== *)
theory Permission
  imports JsString
begin

text \<open>
  What an agent may touch: \<open>src/src/services/permission-resolver.ts\<close>.

  Node's \<open>path.resolve\<close> and \<open>path.relative\<close> (POSIX) are written out over segments: a path is split
  at \<open>/\<close>, empty and \<open>.\<close> segments are dropped and \<open>..\<close> goes up, never above the root.  The home and
  the working directory of the daemon process are the record \<open>host\<close>.  The lemmas turn the string
  tests of the code into prefix statements on segment lists.
\<close>

subsection \<open>Permission modes\<close>

datatype PermissionMode = Default | AcceptEdits | Plan | BypassPermissions | Auto

fun mode_str :: "PermissionMode \<Rightarrow> string" where
  "mode_str Default = ''default''"
| "mode_str AcceptEdits = ''acceptEdits''"
| "mode_str Plan = ''plan''"
| "mode_str BypassPermissions = ''bypassPermissions''"
| "mode_str Auto = ''auto''"

definition PERMISSION_MODES :: "PermissionMode list" where
  "PERMISSION_MODES = [Default, AcceptEdits, Plan, BypassPermissions, Auto]"

definition DEFAULT_PERMISSION_MODE :: PermissionMode where
  "DEFAULT_PERMISSION_MODE = Auto"

definition normalizePermissionMode :: "jval option \<Rightarrow> PermissionMode option" where
  "normalizePermissionMode v =
     (case v of Some (JStr s) \<Rightarrow> find (\<lambda>m. mode_str m = s) PERMISSION_MODES | _ \<Rightarrow> None)"

definition isPermissionMode :: "jval option \<Rightarrow> bool" where
  "isPermissionMode v \<longleftrightarrow> normalizePermissionMode v \<noteq> None"

text \<open>\<open>undefined\<close> leaves the column, \<open>null\<close> clears it, a mode is stored.\<close>

datatype mode_field = LeaveMode | ClearMode | SetMode PermissionMode

datatype mode_error = BadMode

definition parsePermissionModeField :: "jval option \<Rightarrow> mode_error + mode_field" where
  "parsePermissionModeField v =
     (if v = None then Inr LeaveMode
      else if v = Some JNull \<or> v = Some (JStr []) then Inr ClearMode
      else case normalizePermissionMode v of Some m \<Rightarrow> Inr (SetMode m) | None \<Rightarrow> Inl BadMode)"

record mode_sources =
  src_task :: "jval option"
  src_chat :: "jval option"
  src_project :: "jval option"
  src_workspace :: "jval option"

fun first_mode :: "jval option list \<Rightarrow> PermissionMode" where
  "first_mode [] = DEFAULT_PERMISSION_MODE"
| "first_mode (v # vs) = (case normalizePermissionMode v of Some m \<Rightarrow> m | None \<Rightarrow> first_mode vs)"

definition resolvePermissionMode :: "mode_sources \<Rightarrow> PermissionMode" where
  "resolvePermissionMode s = first_mode [src_task s, src_chat s, src_project s, src_workspace s]"

subsection \<open>Paths\<close>

fun split_slash :: "string \<Rightarrow> string list" where
  "split_slash [] = [[]]"
| "split_slash (c # s) =
     (if c = CHR ''/'' then [] # split_slash s
      else (case split_slash s of [] \<Rightarrow> [[c]] | seg # segs \<Rightarrow> (c # seg) # segs))"

fun norm_segs :: "string list \<Rightarrow> string list \<Rightarrow> string list" where
  "norm_segs acc [] = acc"
| "norm_segs acc (s # ss) =
     (if s = [] \<or> s = ''.'' then norm_segs acc ss
      else if s = ''..'' then norm_segs (butlast acc) ss
      else norm_segs (acc @ [s]) ss)"

fun join_slash :: "string list \<Rightarrow> string" where
  "join_slash [] = []"
| "join_slash [s] = s"
| "join_slash (s # t # ss) = s @ ''/'' @ join_slash (t # ss)"

definition abs_str :: "string list \<Rightarrow> string" where
  "abs_str segs = ''/'' @ join_slash segs"

record host =
  h_home :: "string list"
  h_cwd :: "string list"

definition isAbsolute :: "string \<Rightarrow> bool" where
  "isAbsolute p \<longleftrightarrow> is_prefix_of ''/'' p"

definition segs_from :: "string list \<Rightarrow> string \<Rightarrow> string list" where
  "segs_from base p = norm_segs (if isAbsolute p then [] else base) (split_slash p)"

text \<open>\<open>resolve(p)\<close> and \<open>resolve(root, name)\<close>, as segments and as text.\<close>

definition resolve_segs :: "host \<Rightarrow> string \<Rightarrow> string list" where
  "resolve_segs h p = segs_from (h_cwd h) p"

definition resolve :: "host \<Rightarrow> string \<Rightarrow> string" where
  "resolve h p = abs_str (resolve_segs h p)"

definition resolve_in :: "host \<Rightarrow> string \<Rightarrow> string \<Rightarrow> string" where
  "resolve_in h root name = abs_str (segs_from (resolve_segs h root) name)"

fun relative_segs :: "string list \<Rightarrow> string list \<Rightarrow> string list" where
  "relative_segs (a # as) (b # bs) =
     (if a = b then relative_segs as bs else map (\<lambda>_. ''..'') (a # as) @ (b # bs))"
| "relative_segs [] bs = bs"
| "relative_segs (a # as) [] = map (\<lambda>_. ''..'') (a # as)"

definition relative :: "host \<Rightarrow> string \<Rightarrow> string \<Rightarrow> string" where
  "relative h from_path to_path =
     join_slash (relative_segs (resolve_segs h from_path) (resolve_segs h to_path))"

definition flockctlRoot :: "host \<Rightarrow> string" where
  "flockctlRoot h = abs_str (segs_from (h_home h) ''Flockctl'')"

text \<open>The three optional paths, in the order of the code; a \<open>Set\<close> keeps the first of equal entries.\<close>

definition allowedRoots :: "host \<Rightarrow> string option \<Rightarrow> string option \<Rightarrow> string option \<Rightarrow> string list" where
  "allowedRoots h workspacePath projectPath workingDir =
     fold (\<lambda>p roots. case p of None \<Rightarrow> roots
         | Some s \<Rightarrow> if s = [] then roots else List.insert (resolve h s) roots)
       [workspacePath, projectPath, workingDir] [flockctlRoot h]"

definition pathWithinRoot :: "host \<Rightarrow> string \<Rightarrow> string \<Rightarrow> bool" where
  "pathWithinRoot h path root =
     (let rel = relative h root path
      in rel \<noteq> [] \<and> \<not> is_prefix_of ''..'' rel \<and> \<not> isAbsolute rel)"

definition isPathWithinRoots :: "host \<Rightarrow> string \<Rightarrow> string list \<Rightarrow> bool" where
  "isPathWithinRoots h path roots =
     (if path = [] then False
      else let abs = resolve h path
           in list_ex (\<lambda>r. abs = r \<or> pathWithinRoot h abs r) roots)"

subsection \<open>The denylist\<close>

definition DENIED_IN_FLOCKCTL_ROOT :: "string list" where
  "DENIED_IN_FLOCKCTL_ROOT = [''secret.key'', ''flockctl.db'', ''flockctl.db-wal'', ''flockctl.db-shm'']"

definition DENIED_IN_PROJECT_ROOT :: "string list" where
  "DENIED_IN_PROJECT_ROOT = [''.mcp.json'']"

text \<open>A decision is the name of the denied file, the variable part of the reason.\<close>

definition isPathDenied :: "host \<Rightarrow> string \<Rightarrow> string list \<Rightarrow> string option" where
  "isPathDenied h path roots =
     (if path = [] then None
      else let abs = resolve h path
           in case find (\<lambda>name. abs = resolve_in h (flockctlRoot h) name) DENIED_IN_FLOCKCTL_ROOT of
                Some name \<Rightarrow> Some name
              | None \<Rightarrow>
                  map_option snd (find (\<lambda>(root, name). abs = resolve_in h root name)
                    (concat (map (\<lambda>root. map (Pair root) DENIED_IN_PROJECT_ROOT) roots))))"

definition READ_ONLY_TOOLS :: "string list" where
  "READ_ONLY_TOOLS = [''Read'', ''Grep'', ''Glob'', ''LS'', ''NotebookRead'', ''Skill'']"

definition FILE_WRITE_TOOLS :: "string list" where
  "FILE_WRITE_TOOLS = [''Write'', ''Edit'', ''MultiEdit'', ''NotebookEdit'']"

definition push_path :: "jval option \<Rightarrow> string list" where
  "push_path v = (case v of Some (JStr s) \<Rightarrow> if s = [] then [] else [s] | _ \<Rightarrow> [])"

text \<open>\<open>a ?? b\<close> where \<open>b\<close> may be \<open>undefined\<close> too.\<close>

definition or_else :: "jval option \<Rightarrow> jval option \<Rightarrow> jval option" where
  "or_else a b = (case a of None \<Rightarrow> b | Some JNull \<Rightarrow> b | Some v \<Rightarrow> Some v)"

definition extractToolPaths :: "string \<Rightarrow> jobj \<Rightarrow> string list" where
  "extractToolPaths toolName input =
     (if toolName \<in> set [''Read'', ''Write'', ''Edit'', ''NotebookEdit'', ''NotebookRead'']
      then push_path (or_else (or_else (map_of input ''file_path'') (map_of input ''notebook_path''))
                        (map_of input ''path''))
      else if toolName = ''MultiEdit'' then push_path (map_of input ''file_path'')
      else if toolName \<in> set [''Glob'', ''Grep'', ''LS''] then push_path (map_of input ''path'')
      else [])"

fun first_denied :: "host \<Rightarrow> string list \<Rightarrow> string list \<Rightarrow> string option" where
  "first_denied h roots [] = None"
| "first_denied h roots (p # ps) =
     (case isPathDenied h p roots of Some n \<Rightarrow> Some n | None \<Rightarrow> first_denied h roots ps)"

definition denyIfTouchesSensitivePath :: "host \<Rightarrow> string \<Rightarrow> jobj \<Rightarrow> string list \<Rightarrow> string option" where
  "denyIfTouchesSensitivePath h toolName input roots =
     first_denied h roots (extractToolPaths toolName input)"

datatype auto_reason = ReadOnlyTool | AllWithin | NoPath | Outside string | NeedsApproval string

datatype auto_decision = AllowIt auto_reason | PromptFor auto_reason

definition decideAuto :: "host \<Rightarrow> string \<Rightarrow> jobj \<Rightarrow> string list \<Rightarrow> auto_decision" where
  "decideAuto h toolName input roots =
     (if toolName \<in> set READ_ONLY_TOOLS then AllowIt ReadOnlyTool
      else if toolName \<in> set FILE_WRITE_TOOLS then
        (let paths = extractToolPaths toolName input
         in if paths = [] then PromptFor NoPath
            else let outside = filter (\<lambda>p. \<not> isPathWithinRoots h p roots) paths
                 in if outside = [] then AllowIt AllWithin else PromptFor (Outside (hd outside)))
      else PromptFor (NeedsApproval toolName))"

fun allows :: "auto_decision \<Rightarrow> bool" where
  "allows (AllowIt _) = True"
| "allows (PromptFor _) = False"

datatype sdk_mode = SdkDefault | SdkAcceptEdits | SdkPlan | SdkBypass

text \<open>\<open>useCanUseTool\<close> and whether \<open>allowDangerouslySkipPermissions\<close> is set.\<close>

fun modeToSdkOptions :: "PermissionMode \<Rightarrow> sdk_mode \<times> bool \<times> bool" where
  "modeToSdkOptions BypassPermissions = (SdkDefault, True, False)"
| "modeToSdkOptions AcceptEdits = (SdkAcceptEdits, True, False)"
| "modeToSdkOptions Plan = (SdkPlan, True, False)"
| "modeToSdkOptions Default = (SdkDefault, True, False)"
| "modeToSdkOptions Auto = (SdkDefault, True, False)"

subsection \<open>Canonical paths\<close>

definition plain_seg :: "string \<Rightarrow> bool" where
  "plain_seg s \<longleftrightarrow> s \<noteq> [] \<and> s \<noteq> ''.'' \<and> s \<noteq> ''..'' \<and> CHR ''/'' \<notin> set s"

definition plain_segs :: "string list \<Rightarrow> bool" where
  "plain_segs segs \<longleftrightarrow> list_all plain_seg segs"

definition host_ok :: "host \<Rightarrow> bool" where
  "host_ok h \<longleftrightarrow> plain_segs (h_home h) \<and> plain_segs (h_cwd h)"

lemma plain_segs_simps [simp]:
  "plain_segs []" "plain_segs (s # ss) \<longleftrightarrow> plain_seg s \<and> plain_segs ss"
  "plain_segs (xs @ ys) \<longleftrightarrow> plain_segs xs \<and> plain_segs ys"
  by (simp_all add: plain_segs_def)

lemma plain_segs_butlast: "plain_segs xs \<Longrightarrow> plain_segs (butlast xs)"
  by (auto simp: plain_segs_def list_all_iff dest: in_set_butlastD)

lemma split_slash_nonempty [simp]: "split_slash s \<noteq> []"
  by (cases s) (auto split: list.splits)

lemma split_slash_no_slash: "x \<in> set (split_slash s) \<Longrightarrow> CHR ''/'' \<notin> set x"
proof (induction s arbitrary: x)
  case (Cons c s)
  then show ?case by (cases "split_slash s") (auto split: if_splits)
qed simp

lemma norm_segs_plain:
  "plain_segs acc \<Longrightarrow> (\<forall>s \<in> set ss. CHR ''/'' \<notin> set s) \<Longrightarrow> plain_segs (norm_segs acc ss)"
  by (induction acc ss rule: norm_segs.induct) (auto simp: plain_seg_def plain_segs_butlast)

lemma segs_from_plain: "plain_segs base \<Longrightarrow> plain_segs (segs_from base p)"
  using split_slash_no_slash by (auto simp: segs_from_def intro!: norm_segs_plain)

lemma resolve_segs_plain: "host_ok h \<Longrightarrow> plain_segs (resolve_segs h p)"
  by (simp add: host_ok_def resolve_segs_def segs_from_plain)

lemma norm_segs_id: "plain_segs ss \<Longrightarrow> norm_segs acc ss = acc @ ss"
  by (induction ss arbitrary: acc) (auto simp: plain_seg_def)

lemma split_slash_append: "CHR ''/'' \<notin> set x \<Longrightarrow> split_slash (x @ CHR ''/'' # s) = x # split_slash s"
  by (induction x) auto

lemma split_slash_seg: "CHR ''/'' \<notin> set x \<Longrightarrow> split_slash x = [x]"
  by (induction x) auto

lemma split_join: "plain_segs segs \<Longrightarrow> segs \<noteq> [] \<Longrightarrow> split_slash (join_slash segs) = segs"
  by (induction segs rule: join_slash.induct) (auto simp: plain_seg_def split_slash_append split_slash_seg)

lemma isAbsolute_abs_str [simp]: "isAbsolute (abs_str segs)"
  by (simp add: isAbsolute_def abs_str_def)

lemma segs_from_abs: "plain_segs segs \<Longrightarrow> segs_from base (abs_str segs) = segs"
  using split_join [of segs] norm_segs_id [of segs "[]"]
  by (cases "segs = []") (simp_all add: segs_from_def, simp_all add: abs_str_def)

lemma abs_str_inj: "plain_segs a \<Longrightarrow> plain_segs b \<Longrightarrow> abs_str a = abs_str b \<longleftrightarrow> a = b"
  using segs_from_abs [of a "[]"] segs_from_abs [of b "[]"] by metis

lemma segs_from_seg: "plain_seg n \<Longrightarrow> segs_from base n = base @ [n]"
  by (auto simp: segs_from_def plain_seg_def split_slash_seg isAbsolute_def is_prefix_of_iff)

subsection \<open>What the string tests on a relative path mean\<close>

lemma join_slash_Cons: "join_slash (x # rest) = x @ (if rest = [] then [] else ''/'' @ join_slash rest)"
  by (cases rest) auto

lemma dots_prefix_join:
  assumes "plain_seg x"
  shows "is_prefix_of ''..'' (join_slash (x # rest)) \<longleftrightarrow> is_prefix_of ''..'' x"
proof -
  obtain a y where x: "x = a # y" using assms by (cases x) (auto simp: plain_seg_def)
  show ?thesis using assms by (cases y) (auto simp: x join_slash_Cons plain_seg_def)
qed

lemma dots_prefix_up: "is_prefix_of ''..'' (join_slash (''..'' # rest))"
  by (simp add: join_slash_Cons)

lemma relative_inside:
  assumes "plain_segs b"
  shows "(let rel = join_slash (relative_segs a b)
          in rel \<noteq> [] \<and> \<not> is_prefix_of ''..'' rel \<and> \<not> isAbsolute rel)
    \<longleftrightarrow> (\<exists>x rest. b = a @ x # rest \<and> \<not> is_prefix_of ''..'' x)"
  using assms
proof (induction a b rule: relative_segs.induct)
  case (1 a as b bs)
  then show ?case using dots_prefix_up by (cases "a = b") (simp_all add: Let_def)
next
  case (2 bs)
  show ?case
  proof (cases bs)
    case (Cons x rest)
    then have x: "plain_seg x" using 2 by simp
    then have "join_slash (x # rest) \<noteq> []" "\<not> isAbsolute (join_slash (x # rest))"
      by (auto simp: join_slash_Cons plain_seg_def isAbsolute_def is_prefix_of_iff append_eq_Cons_conv)
    then show ?thesis using dots_prefix_join [OF x, of rest] by (simp add: Cons Let_def)
  qed simp
next
  case (3 a as)
  show ?case using dots_prefix_up by (simp add: Let_def)
qed

text \<open>The roots as segment lists.\<close>

definition root_segs :: "host \<Rightarrow> string option \<Rightarrow> string option \<Rightarrow> string option \<Rightarrow> string list set" where
  "root_segs h ws pr wd = insert (h_home h @ [''Flockctl''])
     {resolve_segs h s | s. s \<noteq> [] \<and> Some s \<in> {ws, pr, wd}}"

lemma flockctlRoot_eq: "flockctlRoot h = abs_str (h_home h @ [''Flockctl''])"
  by (simp add: flockctlRoot_def segs_from_seg plain_seg_def)

lemma set_allowedRoots: "set (allowedRoots h ws pr wd) = abs_str ` root_segs h ws pr wd"
  by (auto simp: allowedRoots_def root_segs_def resolve_def flockctlRoot_eq split: option.splits)

lemma root_segs_plain: "host_ok h \<Longrightarrow> r \<in> root_segs h ws pr wd \<Longrightarrow> plain_segs r"
  by (auto simp: root_segs_def resolve_segs_plain) (simp_all add: host_ok_def plain_seg_def)

text \<open>Below a root, and not through a first segment that begins with two dots: that is the reading of
  \<open>rel.startsWith("..")\<close>, which also turns away a file called, say, \<open>..notes\<close>.\<close>

definition inside :: "string list \<Rightarrow> string list \<Rightarrow> bool" where
  "inside r p \<longleftrightarrow> (\<exists>rest. p = r @ rest \<and> (rest = [] \<or> \<not> is_prefix_of ''..'' (hd rest)))"

lemma inside_cases:
  "inside r q \<longleftrightarrow> q = r \<or> (\<exists>x rest. q = r @ x # rest \<and> \<not> is_prefix_of ''..'' x)"
proof
  assume "inside r q"
  then obtain rest where r: "q = r @ rest" "rest = [] \<or> \<not> is_prefix_of ''..'' (hd rest)"
    unfolding inside_def by blast
  then show "q = r \<or> (\<exists>x rest. q = r @ x # rest \<and> \<not> is_prefix_of ''..'' x)" by (cases rest) auto
next
  assume "q = r \<or> (\<exists>x rest. q = r @ x # rest \<and> \<not> is_prefix_of ''..'' x)"
  then show "inside r q"
  proof
    assume "q = r"
    then show ?thesis unfolding inside_def by (intro exI [of _ "[]"]) simp
  next
    assume "\<exists>x rest. q = r @ x # rest \<and> \<not> is_prefix_of ''..'' x"
    then obtain x rest where "q = r @ x # rest" "\<not> is_prefix_of ''..'' x" by blast
    then show ?thesis unfolding inside_def by (intro exI [of _ "x # rest"]) simp
  qed
qed

lemma isPathWithinRoots_iff:
  assumes h: "host_ok h"
  shows "isPathWithinRoots h p (allowedRoots h ws pr wd)
    \<longleftrightarrow> p \<noteq> [] \<and> (\<exists>r \<in> root_segs h ws pr wd. inside r (resolve_segs h p))"
proof -
  have plain: "plain_segs (resolve_segs h p)" by (rule resolve_segs_plain [OF h])
  have one: "(resolve h p = abs_str r \<or> pathWithinRoot h (resolve h p) (abs_str r)) \<longleftrightarrow> inside r (resolve_segs h p)"
    if r: "plain_segs r" for r
  proof -
    have "pathWithinRoot h (resolve h p) (abs_str r) \<longleftrightarrow>
        (\<exists>x rest. resolve_segs h p = r @ x # rest \<and> \<not> is_prefix_of ''..'' x)"
      unfolding pathWithinRoot_def relative_def resolve_def resolve_segs_def [of h "abs_str _"]
        segs_from_abs [OF r] segs_from_abs [OF plain] by (rule relative_inside [OF plain])
    moreover have "resolve h p = abs_str r \<longleftrightarrow> resolve_segs h p = r"
      by (simp add: resolve_def abs_str_inj [OF plain r])
    ultimately show ?thesis by (simp only: inside_cases)
  qed
  show ?thesis
    unfolding isPathWithinRoots_def Let_def list_ex_iff set_allowedRoots
    using one root_segs_plain [OF h] by auto
qed

lemma extractToolPaths_push: "extractToolPaths t i = [] \<or> (\<exists>v. extractToolPaths t i = push_path v)"
  unfolding extractToolPaths_def by (simp only: split: if_split) blast

lemma push_path_shape: "push_path v = [] \<or> (\<exists>p. push_path v = [p] \<and> p \<noteq> [])"
  by (simp add: push_path_def split: option.split jval.split)

lemma extractToolPaths_shape: "extractToolPaths t i = [] \<or> (\<exists>p. extractToolPaths t i = [p] \<and> p \<noteq> [])"
  using extractToolPaths_push [of t i] push_path_shape by metis

lemma extractToolPaths_single: "length (extractToolPaths t i) \<le> 1"
  using extractToolPaths_shape [of t i] by auto

lemma extractToolPaths_nonempty: "p \<in> set (extractToolPaths t i) \<Longrightarrow> p \<noteq> []"
  using extractToolPaths_shape [of t i] by auto

lemma segs_from_absolute: "isAbsolute p \<Longrightarrow> segs_from base p = resolve_segs h p"
  by (simp add: segs_from_def resolve_segs_def)


definition demo_host :: host where
  "demo_host = \<lparr>h_home = [''home'', ''ann''], h_cwd = [''opt'', ''flockctl'']\<rparr>"

lemma demo_host_ok: "host_ok demo_host"
  by (simp add: demo_host_def host_ok_def plain_seg_def)


subsection \<open>The denylist holds\<close>

definition sensitive :: "host \<Rightarrow> string option \<Rightarrow> string option \<Rightarrow> string option \<Rightarrow> string list set" where
  "sensitive h ws pr wd =
     (\<lambda>n. h_home h @ [''Flockctl'', n]) ` set DENIED_IN_FLOCKCTL_ROOT
     \<union> (\<lambda>r. r @ [''.mcp.json'']) ` root_segs h ws pr wd"

lemma find_isSome: "find P xs \<noteq> None \<longleftrightarrow> (\<exists>x \<in> set xs. P x)"
  by (induction xs) auto

lemma denied_iff:
  assumes h: "host_ok h"
  shows "isPathDenied h p (allowedRoots h ws pr wd) \<noteq> None
    \<longleftrightarrow> p \<noteq> [] \<and> resolve_segs h p \<in> sensitive h ws pr wd"
proof -
  have plain: "plain_segs (resolve_segs h p)" by (rule resolve_segs_plain [OF h])
  have flock: "plain_segs (h_home h @ [''Flockctl''])" using h by (simp add: host_ok_def plain_seg_def)
  have eq: "resolve h p = resolve_in h (abs_str r) n \<longleftrightarrow> resolve_segs h p = r @ [n]"
    if "plain_segs r" "plain_seg n" for r n
    using that plain
    by (simp add: resolve_def resolve_in_def resolve_segs_def [of h "abs_str r"] segs_from_abs segs_from_seg abs_str_inj)
  have f: "(\<exists>n \<in> set DENIED_IN_FLOCKCTL_ROOT. resolve h p = resolve_in h (flockctlRoot h) n)
      \<longleftrightarrow> (\<exists>n \<in> set DENIED_IN_FLOCKCTL_ROOT. resolve_segs h p = h_home h @ [''Flockctl'', n])"
    unfolding flockctlRoot_eq using eq [OF flock] by (auto simp: DENIED_IN_FLOCKCTL_ROOT_def plain_seg_def)
  have m: "(\<exists>(root, name) \<in> set (concat (map (\<lambda>root. map (Pair root) DENIED_IN_PROJECT_ROOT)
        (allowedRoots h ws pr wd))). resolve h p = resolve_in h root name)
      \<longleftrightarrow> (\<exists>r \<in> root_segs h ws pr wd. resolve_segs h p = r @ [''.mcp.json''])"
    using eq [of _ "''.mcp.json''"] root_segs_plain [OF h]
    by (auto simp: DENIED_IN_PROJECT_ROOT_def set_allowedRoots plain_seg_def)
  have "isPathDenied h p (allowedRoots h ws pr wd) \<noteq> None \<longleftrightarrow> p \<noteq> [] \<and>
     ((\<exists>n \<in> set DENIED_IN_FLOCKCTL_ROOT. resolve h p = resolve_in h (flockctlRoot h) n)
      \<or> (\<exists>(root, name) \<in> set (concat (map (\<lambda>root. map (Pair root) DENIED_IN_PROJECT_ROOT)
          (allowedRoots h ws pr wd))). resolve h p = resolve_in h root name))"
    unfolding isPathDenied_def Let_def find_isSome [symmetric] by (auto split: option.splits)
  then show ?thesis unfolding f m by (auto simp: sensitive_def)
qed

lemma first_denied_iff: "first_denied h roots ps \<noteq> None \<longleftrightarrow> (\<exists>p \<in> set ps. isPathDenied h p roots \<noteq> None)"
  by (induction ps) (auto split: option.splits)

lemma deny_iff:
  assumes "host_ok h"
  shows "denyIfTouchesSensitivePath h tool input (allowedRoots h ws pr wd) \<noteq> None
    \<longleftrightarrow> (\<exists>p \<in> set (extractToolPaths tool input). resolve_segs h p \<in> sensitive h ws pr wd)"
  unfolding denyIfTouchesSensitivePath_def first_denied_iff denied_iff [OF assms]
  using extractToolPaths_nonempty by blast

text \<open>Tools are run in the session's working directory, but the denylist resolves a relative path
  against the directory of the daemon.  So \<open>Grep\<close> on the relative path \<open>.mcp.json\<close> is denied only if
  the daemon itself was started in one of the roots; otherwise it is let through to the very file the
  denylist protects.\<close>

theorem relative_path_escapes_denylist:
  assumes "host_ok h" and "plain_segs wd" and "h_cwd h \<notin> root_segs h ws pr (Some (abs_str wd))"
  shows "denyIfTouchesSensitivePath h ''Grep'' [(''path'', JStr ''.mcp.json'')]
           (allowedRoots h ws pr (Some (abs_str wd))) = None
    \<and> segs_from wd ''.mcp.json'' \<in> sensitive h ws pr (Some (abs_str wd))"
proof
  have e: "extractToolPaths ''Grep'' [(''path'', JStr ''.mcp.json'')] = [''.mcp.json'']"
    by (simp add: extractToolPaths_def push_path_def)
  have s: "segs_from base ''.mcp.json'' = base @ [''.mcp.json'']" for base
    by (simp add: segs_from_seg plain_seg_def)
  have "resolve_segs h ''.mcp.json'' \<notin> sensitive h ws pr (Some (abs_str wd))"
    using assms(3) by (auto simp: resolve_segs_def s sensitive_def DENIED_IN_FLOCKCTL_ROOT_def)
  then have "\<not> denyIfTouchesSensitivePath h ''Grep'' [(''path'', JStr ''.mcp.json'')]
           (allowedRoots h ws pr (Some (abs_str wd))) \<noteq> None"
    unfolding deny_iff [OF assms(1)] e by simp
  then show "denyIfTouchesSensitivePath h ''Grep'' [(''path'', JStr ''.mcp.json'')]
           (allowedRoots h ws pr (Some (abs_str wd))) = None" by simp
  have "wd \<in> root_segs h ws pr (Some (abs_str wd))"
    using segs_from_abs [OF assms(2), of "h_cwd h"]
    by (auto simp: root_segs_def resolve_segs_def abs_str_def intro!: exI [of _ "''/'' @ join_slash wd"])
  then show "segs_from wd ''.mcp.json'' \<in> sensitive h ws pr (Some (abs_str wd))"
    by (auto simp: s sensitive_def)
qed

theorem relative_path_escapes_denylist_witness:
  "denyIfTouchesSensitivePath demo_host ''Grep'' [(''path'', JStr ''.mcp.json'')]
     (allowedRoots demo_host None None (Some ''/srv/app'')) = None
   \<and> segs_from [''srv'', ''app''] ''.mcp.json'' \<in> sensitive demo_host None None (Some ''/srv/app'')"
proof -
  have a: "abs_str [''srv'', ''app''] = ''/srv/app''" by (simp add: abs_str_def)
  have "h_cwd demo_host \<notin> root_segs demo_host None None (Some ''/srv/app'')"
    by (auto simp: root_segs_def demo_host_def resolve_segs_def segs_from_def isAbsolute_def)
  then show ?thesis
    using relative_path_escapes_denylist [OF demo_host_ok, of "[''srv'', ''app'']" None None]
    by (simp add: a plain_seg_def)
qed

text \<open>The most specific of task, chat, project and workspace that names a mode decides; anything
  else in a column, a mode no longer known included, is passed over.\<close>

theorem resolvePermissionMode_most_specific:
  "resolvePermissionMode s =
     (case filter isPermissionMode [src_task s, src_chat s, src_project s, src_workspace s] of
        [] \<Rightarrow> Auto | v # _ \<Rightarrow> the (normalizePermissionMode v))"
proof -
  have "first_mode vs = (case filter isPermissionMode vs of
      [] \<Rightarrow> DEFAULT_PERMISSION_MODE | v # _ \<Rightarrow> the (normalizePermissionMode v))" for vs
    by (induction vs) (auto simp: isPermissionMode_def split: option.splits)
  then show ?thesis by (simp only: resolvePermissionMode_def DEFAULT_PERMISSION_MODE_def)
qed

end
