(* ===== verification/AgentSession.thy ===== *)
theory AgentSession
  imports Permission
begin

text \<open>
  The requests an agent session is blocked on: \<open>src/src/services/agent-session/session.ts\<close>.

  A session keeps one \<open>Map\<close> of pending permission requests and questions, two counters for their ids,
  the live permission mode and the abort state.  \<open>canUseTool\<close>, the two \<open>resolve\<close> calls of the user
  interface, the change of mode and \<open>abort\<close> are functions on the record \<open>session\<close>; a promise that is
  settled appears in \<open>ss_replies\<close> under its request id, and emitted events are appended to
  \<open>ss_events\<close>.  The abort listeners are exactly the pending entries, in the order of the map.
  \<open>session_step\<close> is one operation; \<open>session_reach\<close> the states a session can get into.
\<close>

subsection \<open>State\<close>

datatype deny_reason = SensitivePath string | TaskCancelled | UserDenied string

datatype answer = Allow | Deny deny_reason

datatype reply = PermReply answer | QuestReply string

datatype pending_entry = PermEntry string jobj | QuestEntry string

datatype AbortReason = AbortUser | AbortTimeout | AbortShutdown

datatype session_event =
  ModeChanged PermissionMode PermissionMode | PermissionRequested string | AutoResolved string
  | QuestionRequested string | AttentionChanged

record session =
  ss_prefix :: string
  ss_mode :: PermissionMode
  ss_roots :: "string list"
  ss_pending :: "(string \<times> pending_entry) list"
  ss_permCtr :: nat
  ss_questCtr :: nat
  ss_aborted :: bool
  ss_reason :: "AbortReason option"
  ss_replies :: "(string \<times> reply) list"
  ss_events :: "session_event list"

definition sessionPrefix :: "int option \<Rightarrow> int \<Rightarrow> string" where
  "sessionPrefix taskId chatId =
     (case taskId of Some t \<Rightarrow> ''t'' @ str_of_int t | None \<Rightarrow> ''c'' @ str_of_int chatId)"

definition new_session :: "string \<Rightarrow> PermissionMode option \<Rightarrow> string list \<Rightarrow> session" where
  "new_session prefix mode roots =
     \<lparr>ss_prefix = prefix, ss_mode = (case mode of None \<Rightarrow> DEFAULT_PERMISSION_MODE | Some m \<Rightarrow> m),
      ss_roots = roots, ss_pending = [], ss_permCtr = 0, ss_questCtr = 0, ss_aborted = False,
      ss_reason = None, ss_replies = [], ss_events = []\<rparr>"

definition emit :: "session_event \<Rightarrow> session \<Rightarrow> session" where
  "emit ev s = s\<lparr>ss_events := ss_events s @ [ev]\<rparr>"

definition perm_id :: "string \<Rightarrow> nat \<Rightarrow> string" where
  "perm_id prefix n = ''perm-'' @ prefix @ ''-'' @ str_of_nat n"

definition quest_id :: "string \<Rightarrow> nat \<Rightarrow> string" where
  "quest_id prefix n = ''q-'' @ prefix @ ''-'' @ str_of_nat n"

subsection \<open>Operations\<close>

text \<open>The shortcuts of the handler by mode, after the denylist.\<close>

definition mode_allows :: "host \<Rightarrow> PermissionMode \<Rightarrow> string \<Rightarrow> jobj \<Rightarrow> string list \<Rightarrow> bool" where
  "mode_allows h mode toolName input roots =
     (case mode of
        BypassPermissions \<Rightarrow> True
      | AcceptEdits \<Rightarrow> toolName \<in> set FILE_WRITE_TOOLS \<or> toolName \<in> set READ_ONLY_TOOLS
      | Plan \<Rightarrow> toolName \<in> set READ_ONLY_TOOLS
      | Auto \<Rightarrow> allows (decideAuto h toolName input roots)
      | Default \<Rightarrow> False)"

text \<open>\<open>Answered\<close> is a promise that is resolved on return, \<open>Asked\<close> one that waits under its id.\<close>

datatype verdict = Answered answer | Asked string

definition canUseTool :: "host \<Rightarrow> string \<Rightarrow> jobj \<Rightarrow> session \<Rightarrow> verdict \<times> session" where
  "canUseTool h toolName input s =
     (case denyIfTouchesSensitivePath h toolName input (ss_roots s) of
        Some name \<Rightarrow> (Answered (Deny (SensitivePath name)), s)
      | None \<Rightarrow>
          if mode_allows h (ss_mode s) toolName input (ss_roots s) then (Answered Allow, s)
          else
            let n = ss_permCtr s + 1; requestId = perm_id (ss_prefix s) n; s1 = s\<lparr>ss_permCtr := n\<rparr> in
            if ss_aborted s then (Answered (Deny TaskCancelled), s1)
            else (Asked requestId,
                  emit (PermissionRequested requestId) (emit AttentionChanged
                    (s1\<lparr>ss_pending := AList.update requestId (PermEntry toolName input) (ss_pending s1)\<rparr>))))"

text \<open>\<open>None\<close>: the question waits; \<open>Some\<close>: it was cancelled on the spot.\<close>

definition awaitUserAnswer :: "string \<Rightarrow> session \<Rightarrow> string option \<times> session" where
  "awaitUserAnswer question s =
     (let n = ss_questCtr s + 1; requestId = quest_id (ss_prefix s) n; s1 = s\<lparr>ss_questCtr := n\<rparr> in
      if ss_aborted s then (Some ''(question cancelled)'', s1)
      else (None, emit (QuestionRequested requestId)
                    (s1\<lparr>ss_pending := AList.update requestId (QuestEntry question) (ss_pending s1)\<rparr>)))"

text \<open>Remove an entry and settle its promise.\<close>

definition settle_entry :: "string \<Rightarrow> reply \<Rightarrow> session \<Rightarrow> session" where
  "settle_entry requestId r s =
     s\<lparr>ss_pending := AList.delete requestId (ss_pending s),
       ss_replies := ss_replies s @ [(requestId, r)]\<rparr>"

definition resolvePermission :: "string \<Rightarrow> answer \<Rightarrow> session \<Rightarrow> bool \<times> session" where
  "resolvePermission requestId result s =
     (case map_of (ss_pending s) requestId of
        Some (PermEntry _ _) \<Rightarrow> (True, emit AttentionChanged (settle_entry requestId (PermReply result) s))
      | _ \<Rightarrow> (False, s))"

definition resolveQuestion :: "string \<Rightarrow> string \<Rightarrow> session \<Rightarrow> bool \<times> session" where
  "resolveQuestion requestId answerText s =
     (case map_of (ss_pending s) requestId of
        Some (QuestEntry _) \<Rightarrow> (True, settle_entry requestId (QuestReply answerText) s)
      | _ \<Rightarrow> (False, s))"

definition auto_resolves :: "host \<Rightarrow> PermissionMode \<Rightarrow> string list \<Rightarrow> pending_entry \<Rightarrow> bool" where
  "auto_resolves h mode roots e =
     (case e of QuestEntry _ \<Rightarrow> False
      | PermEntry toolName input \<Rightarrow>
          (case mode of
             BypassPermissions \<Rightarrow> True
           | AcceptEdits \<Rightarrow> toolName \<in> set FILE_WRITE_TOOLS
           | Auto \<Rightarrow> allows (decideAuto h toolName input roots)
           | _ \<Rightarrow> False))"

definition autoResolvePendingForMode :: "host \<Rightarrow> PermissionMode \<Rightarrow> session \<Rightarrow> session" where
  "autoResolvePendingForMode h mode s =
     (let toResolve = map fst (filter (\<lambda>(_, e). auto_resolves h mode (ss_roots s) e) (ss_pending s))
      in if toResolve = [] then s
         else emit AttentionChanged
           (fold (\<lambda>i s. emit (AutoResolved i) (settle_entry i (PermReply Allow) s)) toResolve s))"

definition updatePermissionMode :: "host \<Rightarrow> PermissionMode \<Rightarrow> session \<Rightarrow> session" where
  "updatePermissionMode h mode s =
     (if ss_mode s = mode then s
      else autoResolvePendingForMode h mode (emit (ModeChanged (ss_mode s) mode) (s\<lparr>ss_mode := mode\<rparr>)))"

text \<open>The abort listener of one entry.\<close>

fun abort_entry :: "string \<times> pending_entry \<Rightarrow> session \<Rightarrow> session" where
  "abort_entry (i, PermEntry _ _) s = emit AttentionChanged (settle_entry i (PermReply (Deny TaskCancelled)) s)"
| "abort_entry (i, QuestEntry _) s = settle_entry i (QuestReply ''(question cancelled)'') s"

definition abort :: "AbortReason \<Rightarrow> session \<Rightarrow> session" where
  "abort reason s =
     (let s1 = (if ss_reason s = None then s\<lparr>ss_reason := Some reason\<rparr> else s)
      in if ss_aborted s then s1 else fold abort_entry (ss_pending s1) (s1\<lparr>ss_aborted := True\<rparr>))"

definition filter_permissions :: "session \<Rightarrow> (string \<times> string \<times> jobj) list" where
  "filter_permissions s =
     concat (map (\<lambda>(i, e). case e of PermEntry t inp \<Rightarrow> [(i, t, inp)] | QuestEntry _ \<Rightarrow> []) (ss_pending s))"

definition pendingPermissionCount :: "session \<Rightarrow> nat" where
  "pendingPermissionCount s =
     fold (\<lambda>(_, e) n. case e of PermEntry _ _ \<Rightarrow> n + 1 | QuestEntry _ \<Rightarrow> n) (ss_pending s) 0"

definition pendingQuestionRequests :: "session \<Rightarrow> (string \<times> string) list" where
  "pendingQuestionRequests s =
     concat (map (\<lambda>(i, e). case e of PermEntry _ _ \<Rightarrow> [] | QuestEntry q \<Rightarrow> [(i, q)]) (ss_pending s))"

definition abortMessage :: "int option \<Rightarrow> session \<Rightarrow> string" where
  "abortMessage timeoutSeconds s =
     (case ss_reason s of
        Some AbortTimeout \<Rightarrow> ''Task timed out after ''
           @ (case timeoutSeconds of None \<Rightarrow> ''?'' | Some n \<Rightarrow> str_of_int n) @ ''s''
      | Some AbortShutdown \<Rightarrow> ''Daemon shutting down, task will resume on next start''
      | Some AbortUser \<Rightarrow> ''Cancelled by user''
      | None \<Rightarrow> ''Task cancelled'')"

subsection \<open>Steps\<close>

datatype session_op =
  OpTool string jobj | OpQuestion string | OpResolvePermission string answer
  | OpResolveQuestion string string | OpMode PermissionMode | OpAbort AbortReason

fun session_step :: "host \<Rightarrow> session_op \<Rightarrow> session \<Rightarrow> session" where
  "session_step h (OpTool t i) s = snd (canUseTool h t i s)"
| "session_step h (OpQuestion q) s = snd (awaitUserAnswer q s)"
| "session_step h (OpResolvePermission i a) s = snd (resolvePermission i a s)"
| "session_step h (OpResolveQuestion i a) s = snd (resolveQuestion i a s)"
| "session_step h (OpMode m) s = updatePermissionMode h m s"
| "session_step h (OpAbort r) s = abort r s"

definition session_run :: "host \<Rightarrow> session_op list \<Rightarrow> session \<Rightarrow> session" where
  "session_run h ops s = fold (session_step h) ops s"

subsection \<open>The two sweeps in closed form\<close>

lemma emit_simps [simp]:
  "ss_pending (emit ev s) = ss_pending s" "ss_replies (emit ev s) = ss_replies s"
  "ss_aborted (emit ev s) = ss_aborted s" "ss_prefix (emit ev s) = ss_prefix s"
  "ss_permCtr (emit ev s) = ss_permCtr s" "ss_questCtr (emit ev s) = ss_questCtr s"
  "ss_mode (emit ev s) = ss_mode s" "ss_roots (emit ev s) = ss_roots s"
  "ss_events (emit ev s) = ss_events s @ [ev]" "ss_reason (emit ev s) = ss_reason s"
  by (simp_all add: emit_def)

lemma settle_entry_simps [simp]:
  "ss_pending (settle_entry i r s) = AList.delete i (ss_pending s)"
  "ss_replies (settle_entry i r s) = ss_replies s @ [(i, r)]"
  "ss_aborted (settle_entry i r s) = ss_aborted s" "ss_prefix (settle_entry i r s) = ss_prefix s"
  "ss_permCtr (settle_entry i r s) = ss_permCtr s" "ss_questCtr (settle_entry i r s) = ss_questCtr s"
  "ss_mode (settle_entry i r s) = ss_mode s" "ss_roots (settle_entry i r s) = ss_roots s"
  "ss_events (settle_entry i r s) = ss_events s" "ss_reason (settle_entry i r s) = ss_reason s"
  by (simp_all add: settle_entry_def)

text \<open>What an operation leaves alone: everything but the pending entries, the replies and the events.\<close>

definition same_rest :: "session \<Rightarrow> session \<Rightarrow> bool" where
  "same_rest s t \<longleftrightarrow> ss_prefix t = ss_prefix s \<and> ss_mode t = ss_mode s \<and> ss_roots t = ss_roots s
     \<and> ss_permCtr t = ss_permCtr s \<and> ss_questCtr t = ss_questCtr s \<and> ss_aborted t = ss_aborted s
     \<and> ss_reason t = ss_reason s"

lemma allow_fold:
  "ss_pending (fold (\<lambda>i s. emit (AutoResolved i) (settle_entry i (PermReply Allow) s)) is s)
     = filter (\<lambda>p. fst p \<notin> set is) (ss_pending s)
   \<and> ss_replies (fold (\<lambda>i s. emit (AutoResolved i) (settle_entry i (PermReply Allow) s)) is s)
     = ss_replies s @ map (\<lambda>i. (i, PermReply Allow)) is
   \<and> ss_events (fold (\<lambda>i s. emit (AutoResolved i) (settle_entry i (PermReply Allow) s)) is s)
     = ss_events s @ map AutoResolved is
   \<and> same_rest s (fold (\<lambda>i s. emit (AutoResolved i) (settle_entry i (PermReply Allow) s)) is s)"
  by (induction "is" arbitrary: s)
    (auto simp: jm_delete_filter same_rest_def case_prod_beta intro: filter_cong)

fun cancel_reply :: "pending_entry \<Rightarrow> reply" where
  "cancel_reply (PermEntry _ _) = PermReply (Deny TaskCancelled)"
| "cancel_reply (QuestEntry _) = QuestReply ''(question cancelled)''"

lemma abort_entry_eq:
  "abort_entry ie s = (case snd ie of
     PermEntry _ _ \<Rightarrow> emit AttentionChanged (settle_entry (fst ie) (cancel_reply (snd ie)) s)
   | QuestEntry _ \<Rightarrow> settle_entry (fst ie) (cancel_reply (snd ie)) s)"
  by (cases ie; cases "snd ie") auto

lemma abort_entry_simps:
  "ss_pending (abort_entry ie s) = AList.delete (fst ie) (ss_pending s)"
  "ss_replies (abort_entry ie s) = ss_replies s @ [(fst ie, cancel_reply (snd ie))]"
  "same_rest s (abort_entry ie s)"
  by (simp_all add: abort_entry_eq same_rest_def split: pending_entry.split)

lemma abort_entry_events:
  "ss_events (abort_entry ie s) = ss_events s \<or> ss_events (abort_entry ie s) = ss_events s @ [AttentionChanged]"
  by (simp add: abort_entry_eq split: pending_entry.split)

lemma same_rest_trans: "same_rest s t \<Longrightarrow> same_rest t u \<Longrightarrow> same_rest s u"
  by (simp add: same_rest_def)

lemma abort_fold:
  "ss_pending (fold abort_entry ies s) = filter (\<lambda>p. fst p \<notin> fst ` set ies) (ss_pending s)
   \<and> ss_replies (fold abort_entry ies s) = ss_replies s @ map (\<lambda>(i, e). (i, cancel_reply e)) ies
   \<and> same_rest s (fold abort_entry ies s)"
proof (induction ies arbitrary: s)
  case Nil
  then show ?case by (simp add: same_rest_def)
next
  case (Cons ie ies)
  have f: "filter (\<lambda>p. fst p \<notin> fst ` set ies) (AList.delete (fst ie) (ss_pending s))
      = filter (\<lambda>p. fst p \<notin> fst ` set (ie # ies)) (ss_pending s)"
    by (auto simp: jm_delete_filter intro: filter_cong)
  show ?case
    using Cons.IH [of "abort_entry ie s"] abort_entry_simps [where ie = ie and s = s] f
      same_rest_trans [of s "abort_entry ie s" "fold abort_entry ies (abort_entry ie s)"]
    by (cases ie) auto
qed

lemma abort_fold_events: "\<exists>k. ss_events (fold abort_entry ies s) = ss_events s @ replicate k AttentionChanged"
proof (induction ies arbitrary: s)
  case Nil
  show ?case by (intro exI [of _ 0]) simp
next
  case (Cons ie ies)
  obtain k where k: "ss_events (fold abort_entry ies (abort_entry ie s))
      = ss_events (abort_entry ie s) @ replicate k AttentionChanged" using Cons.IH by blast
  from abort_entry_events [of ie s] show ?case
  proof
    assume "ss_events (abort_entry ie s) = ss_events s"
    then show ?thesis using k by auto
  next
    assume "ss_events (abort_entry ie s) = ss_events s @ [AttentionChanged]"
    then show ?thesis using k by (intro exI [of _ "Suc k"]) simp
  qed
qed

subsection \<open>Every promise is settled once\<close>

lemma perm_id_inj [simp]: "perm_id p m = perm_id p n \<longleftrightarrow> m = n"
  by (simp add: perm_id_def str_of_nat_inj)

lemma quest_id_inj [simp]: "quest_id p m = quest_id p n \<longleftrightarrow> m = n"
  by (simp add: quest_id_def str_of_nat_inj)

lemma perm_quest_id [simp]: "perm_id p m \<noteq> quest_id p' n" "quest_id p' n \<noteq> perm_id p m"
  by (simp_all add: perm_id_def quest_id_def)

definition ids :: "session \<Rightarrow> string set" where
  "ids s = fst ` set (ss_pending s) \<union> fst ` set (ss_replies s)"

definition issued :: "session \<Rightarrow> string set" where
  "issued s = {perm_id (ss_prefix s) k | k. k \<le> ss_permCtr s} \<union> {quest_id (ss_prefix s) k | k. k \<le> ss_questCtr s}"

definition requested :: "session \<Rightarrow> string set" where
  "requested s = {i. PermissionRequested i \<in> set (ss_events s) \<or> QuestionRequested i \<in> set (ss_events s)}"

definition entry_ok :: "host \<Rightarrow> string list \<Rightarrow> pending_entry \<Rightarrow> bool" where
  "entry_ok h roots e = (case e of QuestEntry _ \<Rightarrow> True
     | PermEntry t i \<Rightarrow> denyIfTouchesSensitivePath h t i roots = None)"

definition session_ok :: "host \<Rightarrow> session \<Rightarrow> bool" where
  "session_ok h s \<longleftrightarrow> distinct (map fst (ss_pending s) @ map fst (ss_replies s))
     \<and> ids s \<subseteq> issued s \<and> requested s = ids s
     \<and> (\<forall>(i, e) \<in> set (ss_pending s). entry_ok h (ss_roots s) e)
     \<and> (ss_aborted s \<longrightarrow> ss_pending s = [])"

lemma new_session_ok: "session_ok h (new_session p m r)"
  by (simp add: session_ok_def new_session_def ids_def requested_def)

text \<open>Moving some pending entries to the replies keeps the invariant.\<close>

lemma moved_ok:
  assumes ok: "session_ok h s"
    and pend: "ss_pending t = filter (\<lambda>p. fst p \<notin> fst ` set rs) (ss_pending s)"
    and repl: "ss_replies t = ss_replies s @ rs"
    and rs: "distinct (map fst rs)" "fst ` set rs \<subseteq> fst ` set (ss_pending s)"
    and same: "requested t = requested s" "issued t = issued s" "ss_roots t = ss_roots s"
    and ab: "ss_aborted t \<longrightarrow> ss_pending t = []"
  shows "session_ok h t"
proof -
  have d: "jm_ok (ss_pending s)" "distinct (map fst (ss_replies s))"
    "fst ` set (ss_pending s) \<inter> fst ` set (ss_replies s) = {}"
    and sub: "ids s \<subseteq> issued s" "requested s = ids s"
    and e: "\<forall>(i, e) \<in> set (ss_pending s). entry_ok h (ss_roots s) e"
    using ok by (auto simp: session_ok_def)
  have p: "fst ` set (ss_pending t) = fst ` set (ss_pending s) - fst ` set rs"
    unfolding pend by force
  have i: "ids t = ids s" using rs(2) unfolding ids_def p repl by auto
  have "jm_ok (ss_pending t)" using d(1) by (simp add: pend distinct_map_filter)
  moreover have "fst ` set (ss_replies s) \<inter> fst ` set rs = {}" using d(3) rs(2) by blast
  ultimately have "distinct (map fst (ss_pending t) @ map fst (ss_replies t))"
    using d(2,3) rs(1) by (simp add: repl p) blast
  moreover have "\<forall>(i, e) \<in> set (ss_pending t). entry_ok h (ss_roots t) e"
    using e unfolding same(3) pend by auto
  ultimately show ?thesis using sub same ab unfolding session_ok_def i by blast
qed

lemma settle_ok:
  assumes "session_ok h s" and "i \<in> fst ` set (ss_pending s)"
  shows "session_ok h (settle_entry i r s)"
  by (rule moved_ok [OF assms(1), where rs = "[(i, r)]"])
    (use assms in \<open>auto simp: session_ok_def jm_delete_filter requested_def issued_def case_prod_beta\<close>)

lemma emit_ok:
  "session_ok h s \<Longrightarrow> (\<forall>i. ev \<noteq> PermissionRequested i \<and> ev \<noteq> QuestionRequested i) \<Longrightarrow> session_ok h (emit ev s)"
  by (auto simp: session_ok_def ids_def issued_def requested_def)

lemma count_up_ok:
  "session_ok h s \<Longrightarrow> session_ok h (s\<lparr>ss_permCtr := ss_permCtr s + 1\<rparr>)"
  "session_ok h s \<Longrightarrow> session_ok h (s\<lparr>ss_questCtr := ss_questCtr s + 1\<rparr>)"
  by (auto simp: session_ok_def ids_def issued_def requested_def subset_iff; metis le_SucI)+

lemma ask_ok:
  assumes ok: "session_ok h s" and fresh: "i \<notin> ids s" and e: "entry_ok h (ss_roots s) e"
    and ab: "\<not> ss_aborted s"
    and t: "ss_pending t = AList.update i e (ss_pending s)" "ss_replies t = ss_replies s"
      "ss_roots t = ss_roots s" "ss_aborted t = ss_aborted s" "ss_prefix t = ss_prefix s"
      "requested t = insert i (requested s)" "insert i (issued s) \<subseteq> issued t"
  shows "session_ok h t"
proof -
  have "AList.update i e (ss_pending s) = ss_pending s @ [(i, e)]"
    using fresh by (intro jm_update_fresh) (auto simp: ids_def)
  then show ?thesis
    using ok fresh e ab t by (auto simp: session_ok_def ids_def)
qed

lemma canUseTool_ok:
  assumes ok: "session_ok h s"
  shows "session_ok h (snd (canUseTool h t inp s))"
proof (cases "denyIfTouchesSensitivePath h t inp (ss_roots s)")
  case (Some name)
  then show ?thesis using ok by (simp add: canUseTool_def)
next
  case None
  let ?n = "ss_permCtr s + 1"
  let ?i = "perm_id (ss_prefix s) ?n"
  have fresh: "?i \<notin> ids s" using ok by (auto simp: session_ok_def issued_def)
  have "session_ok h (emit (PermissionRequested ?i) (emit AttentionChanged
      (s\<lparr>ss_permCtr := ?n, ss_pending := AList.update ?i (PermEntry t inp) (ss_pending s)\<rparr>)))"
    if "\<not> ss_aborted s"
    by (rule ask_ok [OF ok fresh _ that, where e = "PermEntry t inp"])
      (use None in \<open>auto simp: entry_ok_def requested_def issued_def\<close>)
  then show ?thesis using None ok count_up_ok(1) [OF ok] by (simp add: canUseTool_def Let_def)
qed

lemma awaitUserAnswer_ok:
  assumes ok: "session_ok h s"
  shows "session_ok h (snd (awaitUserAnswer q s))"
proof -
  let ?n = "ss_questCtr s + 1"
  let ?i = "quest_id (ss_prefix s) ?n"
  have fresh: "?i \<notin> ids s" using ok by (auto simp: session_ok_def issued_def)
  have "session_ok h (emit (QuestionRequested ?i)
      (s\<lparr>ss_questCtr := ?n, ss_pending := AList.update ?i (QuestEntry q) (ss_pending s)\<rparr>))"
    if "\<not> ss_aborted s"
    by (rule ask_ok [OF ok fresh _ that, where e = "QuestEntry q"])
      (auto simp: entry_ok_def requested_def issued_def)
  then show ?thesis using count_up_ok(2) [OF ok] by (simp add: awaitUserAnswer_def Let_def)
qed

lemma resolve_ok:
  assumes ok: "session_ok h s"
  shows "session_ok h (snd (resolvePermission i a s))" "session_ok h (snd (resolveQuestion i q s))"
proof -
  have "i \<in> fst ` set (ss_pending s)" if "map_of (ss_pending s) i = Some e" for e
    using map_of_SomeD [OF that] by force
  then show "session_ok h (snd (resolvePermission i a s))" "session_ok h (snd (resolveQuestion i q s))"
    using ok settle_ok [OF ok, of i] by (auto simp: resolvePermission_def resolveQuestion_def emit_ok
        split: option.splits pending_entry.splits)
qed

lemma set_mode_ok: "session_ok h s \<Longrightarrow> session_ok h (emit (ModeChanged a b) (s\<lparr>ss_mode := m\<rparr>))"
  by (rule emit_ok) (auto simp: session_ok_def ids_def issued_def requested_def)

text \<open>The state after a sweep of the pending entries.\<close>

definition sweepable_ids :: "host \<Rightarrow> PermissionMode \<Rightarrow> session \<Rightarrow> string list" where
  "sweepable_ids h mode s = map fst (filter (\<lambda>(_, e). auto_resolves h mode (ss_roots s) e) (ss_pending s))"

lemma sweep_state:
  "ss_pending (autoResolvePendingForMode h mode s) =
     filter (\<lambda>p. fst p \<notin> set (sweepable_ids h mode s)) (ss_pending s)
   \<and> ss_replies (autoResolvePendingForMode h mode s) =
       ss_replies s @ map (\<lambda>i. (i, PermReply Allow)) (sweepable_ids h mode s)
   \<and> requested (autoResolvePendingForMode h mode s) = requested s
   \<and> same_rest s (autoResolvePendingForMode h mode s)"
  using allow_fold [of "sweepable_ids h mode s" s]
  by (auto simp: autoResolvePendingForMode_def sweepable_ids_def Let_def requested_def same_rest_def
      case_prod_beta)

lemma sweep_ok: "session_ok h s \<Longrightarrow> session_ok h (autoResolvePendingForMode h mode s)"
proof (rule moved_ok [where rs = "map (\<lambda>i. (i, PermReply Allow)) (sweepable_ids h mode s)"])
  assume ok: "session_ok h s"
  then show "session_ok h s" .
  have "distinct (sweepable_ids h mode s)"
    using ok by (auto simp: session_ok_def sweepable_ids_def distinct_map_filter)
  then show "distinct (map fst (map (\<lambda>i. (i, PermReply Allow)) (sweepable_ids h mode s)))"
    by (simp add: comp_def)
  show "ss_aborted (autoResolvePendingForMode h mode s) \<longrightarrow> ss_pending (autoResolvePendingForMode h mode s) = []"
    using ok sweep_state [of h mode s] by (simp add: session_ok_def same_rest_def)
qed (use sweep_state [of h mode s] in \<open>auto simp: image_image sweepable_ids_def same_rest_def issued_def\<close>)

lemma abort_state:
  assumes "\<not> ss_aborted s"
  shows "ss_pending (abort r s) = []"
    "ss_replies (abort r s) = ss_replies s @ map (\<lambda>(i, e). (i, cancel_reply e)) (ss_pending s)"
    "ss_aborted (abort r s)" "requested (abort r s) = requested s" "issued (abort r s) = issued s"
    "ss_roots (abort r s) = ss_roots s"
proof -
  let ?t = "s\<lparr>ss_reason := (if ss_reason s = None then Some r else ss_reason s), ss_aborted := True\<rparr>"
  have t: "abort r s = fold abort_entry (ss_pending s) ?t" using assms by (simp add: abort_def Let_def)
  obtain k where k: "ss_events (abort r s) = ss_events s @ replicate k AttentionChanged"
    using abort_fold_events [of "ss_pending s" ?t] t by auto
  show "requested (abort r s) = requested s" by (auto simp: requested_def k)
  show "ss_pending (abort r s) = []"
    "ss_replies (abort r s) = ss_replies s @ map (\<lambda>(i, e). (i, cancel_reply e)) (ss_pending s)"
    "ss_aborted (abort r s)" "issued (abort r s) = issued s" "ss_roots (abort r s) = ss_roots s"
    using abort_fold [of "ss_pending s" ?t]
    by (simp_all add: t issued_def same_rest_def filter_empty_conv)
qed

lemma abort_ok:
  assumes ok: "session_ok h s"
  shows "session_ok h (abort r s)"
proof (cases "ss_aborted s")
  case True
  then show ?thesis using ok by (auto simp: abort_def session_ok_def ids_def issued_def requested_def)
next
  case False
  show ?thesis
    by (rule moved_ok [OF ok, where rs = "map (\<lambda>(i, e). (i, cancel_reply e)) (ss_pending s)"])
      (use ok abort_state [OF False, of r] in
        \<open>auto simp: session_ok_def case_prod_beta comp_def image_image filter_empty_conv\<close>)
qed

lemma session_step_ok: "session_ok h s \<Longrightarrow> session_ok h (session_step h op s)"
  by (cases op) (simp_all add: canUseTool_ok awaitUserAnswer_ok resolve_ok abort_ok
      updatePermissionMode_def sweep_ok set_mode_ok)

lemma session_run_ok: "session_ok h s \<Longrightarrow> session_ok h (session_run h ops s)"
  unfolding session_run_def by (induction ops arbitrary: s) (simp_all add: session_step_ok)

text \<open>C3: whatever the interface, the agent, mode changes and aborts do in whatever order, a request is
  answered at most once and never both answered and pending; no request that was put to the user is
  lost; once the session is aborted nothing is pending.\<close>

theorem session_answers_each_request_once:
  fixes h p mode roots ops
  defines "s \<equiv> session_run h ops (new_session p mode roots)"
  shows "distinct (map fst (ss_pending s) @ map fst (ss_replies s))
    \<and> (\<forall>i. (PermissionRequested i \<in> set (ss_events s) \<or> QuestionRequested i \<in> set (ss_events s)) =
            (i \<in> fst ` set (ss_pending s) \<or> i \<in> fst ` set (ss_replies s)))
    \<and> (if ss_aborted s then ss_pending s = [] else True)"
proof -
  have "session_ok h s" unfolding s_def by (rule session_run_ok [OF new_session_ok])
  then show ?thesis by (auto simp: session_ok_def requested_def ids_def set_eq_iff)
qed

subsection \<open>The denylist is above every mode\<close>

lemma same_roots_step: "ss_roots (session_step h op s) = ss_roots s"
proof (cases op)
  case (OpMode m)
  then show ?thesis using sweep_state [of h m "emit (ModeChanged (ss_mode s) m) (s\<lparr>ss_mode := m\<rparr>)"]
    by (simp add: updatePermissionMode_def same_rest_def)
next
  case (OpAbort r)
  then show ?thesis using abort_state(6) [of s r] by (cases "ss_aborted s") (auto simp: abort_def)
qed (auto simp: canUseTool_def awaitUserAnswer_def resolvePermission_def resolveQuestion_def Let_def
    split: option.splits pending_entry.splits)

lemma same_roots_run: "ss_roots (session_run h ops s) = ss_roots s"
  unfolding session_run_def by (induction ops arbitrary: s) (simp_all add: same_roots_step)

text \<open>C34: In every mode, and in every state a session can reach, a call of a tool whose path argument, as
  resolved against the working directory of the daemon, is a sensitive file is refused at once, and only such
  a call is refused as sensitive; and a request that waits for an answer, which the user or a later change of
  mode may allow, never names one.  An absolute path to a sensitive file is therefore refused whatever
  directory the tool runs in.  Two things are outside of it, as the code has it: a relative path that the tool
  reads in the directory of the session while the daemon runs elsewhere (lemma
  \<open>relative_path_escapes_denylist\<close>), and a tool without a path argument, such as \<open>Bash\<close>.\<close>

theorem sensitive_paths_never_allowed:
  fixes ops prefix mode ws pr wd
  assumes "host_ok h"
  defines "s \<equiv> session_run h ops (new_session prefix mode (allowedRoots h ws pr wd))"
  shows "((\<exists>name. fst (canUseTool h tool input s) = Answered (Deny (SensitivePath name))) \<longleftrightarrow>
      (\<exists>p \<in> set (extractToolPaths tool input). resolve_segs h p \<in> sensitive h ws pr wd))
    \<and> list_all (\<lambda>(i, e). case e of QuestEntry _ \<Rightarrow> True | PermEntry t inp \<Rightarrow>
        list_all (\<lambda>p. resolve_segs h p \<notin> sensitive h ws pr wd) (extractToolPaths t inp)) (ss_pending s)
    \<and> ((\<exists>p \<in> set (extractToolPaths tool input). isAbsolute p \<and> (\<exists>dir. segs_from dir p \<in> sensitive h ws pr wd)) \<longrightarrow>
        (\<exists>name. fst (canUseTool h tool input s) = Answered (Deny (SensitivePath name))))"
proof (intro conjI)
  have roots: "ss_roots s = allowedRoots h ws pr wd"
    by (simp add: s_def same_roots_run) (simp add: new_session_def)
  have ok: "session_ok h s" unfolding s_def by (rule session_run_ok [OF new_session_ok])
  have "(\<exists>name. fst (canUseTool h tool input s) = Answered (Deny (SensitivePath name))) \<longleftrightarrow>
      denyIfTouchesSensitivePath h tool input (allowedRoots h ws pr wd) \<noteq> None"
    by (auto simp: canUseTool_def roots Let_def split: option.splits)
  then show iff: "(\<exists>name. fst (canUseTool h tool input s) = Answered (Deny (SensitivePath name))) \<longleftrightarrow>
      (\<exists>p \<in> set (extractToolPaths tool input). resolve_segs h p \<in> sensitive h ws pr wd)"
    unfolding deny_iff [OF assms(1)] .
  show "(\<exists>p \<in> set (extractToolPaths tool input). isAbsolute p \<and> (\<exists>dir. segs_from dir p \<in> sensitive h ws pr wd)) \<longrightarrow>
      (\<exists>name. fst (canUseTool h tool input s) = Answered (Deny (SensitivePath name)))"
    unfolding iff using segs_from_absolute by metis
  have fine: "entry_ok h (allowedRoots h ws pr wd) e \<Longrightarrow> (case e of QuestEntry _ \<Rightarrow> True | PermEntry t inp \<Rightarrow>
        list_all (\<lambda>p. resolve_segs h p \<notin> sensitive h ws pr wd) (extractToolPaths t inp))" for e
  proof (cases e)
    case (PermEntry t inp)
    moreover assume "entry_ok h (allowedRoots h ws pr wd) e"
    ultimately show ?thesis
      using deny_iff [OF assms(1), of t inp ws pr wd] by (auto simp: entry_ok_def list_all_iff)
  qed simp
  have "list_all (\<lambda>(i, e). entry_ok h (allowedRoots h ws pr wd) e) (ss_pending s)"
    using ok by (simp add: session_ok_def roots list_all_iff)
  then show "list_all (\<lambda>(i, e). case e of QuestEntry _ \<Rightarrow> True | PermEntry t inp \<Rightarrow>
        list_all (\<lambda>p. resolve_segs h p \<notin> sensitive h ws pr wd) (extractToolPaths t inp)) (ss_pending s)"
    by (rule list.pred_mono_strong) (use fine in \<open>simp only: case_prod_beta\<close>)
qed

theorem sensitive_paths_never_allowed_witness:
  "fst (canUseTool demo_host ''Read'' [(''file_path'', JStr ''/home/ann/x/../Flockctl/secret.key'')]
     (session_run demo_host [OpMode BypassPermissions] (new_session ''t1'' None
        (allowedRoots demo_host None None None)))) = Answered (Deny (SensitivePath ''secret.key''))"
proof -
  let ?s = "session_run demo_host [OpMode BypassPermissions] (new_session ''t1'' None
        (allowedRoots demo_host None None None))"
  let ?inp = "[(''file_path'', JStr ''/home/ann/x/../Flockctl/secret.key'')]"
  have e: "extractToolPaths ''Read'' ?inp = [''/home/ann/x/../Flockctl/secret.key'']"
    by (simp add: extractToolPaths_def or_else_def push_path_def)
  have "resolve_segs demo_host ''/home/ann/x/../Flockctl/secret.key'' \<in> sensitive demo_host None None None"
    by (simp add: sensitive_def demo_host_def DENIED_IN_FLOCKCTL_ROOT_def resolve_segs_def segs_from_def isAbsolute_def)
  then have "\<exists>name. fst (canUseTool demo_host ''Read'' ?inp ?s) = Answered (Deny (SensitivePath name))"
    using sensitive_paths_never_allowed [OF demo_host_ok, of "''Read''" ?inp "[OpMode BypassPermissions]"
        "''t1''" None None None None] by (simp add: e)
  moreover have "fst (canUseTool demo_host ''Read'' ?inp ?s) = Answered (Deny (SensitivePath ''secret.key''))"
    by code_simp
  ultimately show ?thesis by blast
qed

subsection \<open>Changing the mode\<close>

lemma filter_keys: "jm_ok xs \<Longrightarrow> filter (\<lambda>p. fst p \<notin> set (map fst (filter P xs))) xs = filter (\<lambda>p. \<not> P p) xs"
proof (rule filter_cong)
  fix p
  assume ok: "jm_ok xs" and p: "p \<in> set xs"
  show "(fst p \<notin> set (map fst (filter P xs))) = (\<not> P p)"
  proof (cases "P p")
    case False
    have "q = p" if "q \<in> set xs" "fst q = fst p" for q
      using ok p that by (meson distinct_map inj_onD)
    then show ?thesis using False by auto
  qed (use p in \<open>simp add: rev_image_eqI\<close>)
qed simp

lemma concat_map_filter: "(\<forall>x \<in> set xs. \<not> P x \<longrightarrow> f x = []) \<Longrightarrow> concat (map f (filter P xs)) = concat (map f xs)"
  by (induction xs) auto

lemma write_not_read: "tool \<in> set FILE_WRITE_TOOLS \<Longrightarrow> tool \<notin> set READ_ONLY_TOOLS"
  by (auto simp: FILE_WRITE_TOOLS_def READ_ONLY_TOOLS_def)

lemma auto_resolves_iff:
  "auto_resolves h m roots (PermEntry tool input) \<longleftrightarrow>
     mode_allows h m tool input roots \<and> \<not> (m \<in> {AcceptEdits, Plan} \<and> tool \<in> set READ_ONLY_TOOLS)"
  by (cases m) (auto simp: auto_resolves_def mode_allows_def dest: write_not_read)

lemma update_mode_state:
  assumes ok: "session_ok h s" and m: "ss_mode s \<noteq> m"
  defines "s' \<equiv> updatePermissionMode h m s"
  shows "ss_pending s' = filter (\<lambda>(_, e). \<not> auto_resolves h m (ss_roots s) e) (ss_pending s)"
    and "ss_replies s' = ss_replies s @
      map (\<lambda>(i, _). (i, PermReply Allow)) (filter (\<lambda>(_, e). auto_resolves h m (ss_roots s) e) (ss_pending s))"
    and "ss_mode s' = m" and "ss_roots s' = ss_roots s"
proof -
  let ?t = "emit (ModeChanged (ss_mode s) m) (s\<lparr>ss_mode := m\<rparr>)"
  have s': "s' = autoResolvePendingForMode h m ?t" using m by (simp add: s'_def updatePermissionMode_def)
  have jm: "jm_ok (ss_pending s)" using ok by (simp add: session_ok_def)
  have swp: "sweepable_ids h m ?t = map fst (filter (\<lambda>(_, e). auto_resolves h m (ss_roots s) e) (ss_pending s))"
    by (simp add: sweepable_ids_def)
  have n: "(\<lambda>p. \<not> (\<lambda>(_, e). auto_resolves h m (ss_roots s) e) p) = (\<lambda>(_, e). \<not> auto_resolves h m (ss_roots s) e)"
    by auto
  show "ss_pending s' = filter (\<lambda>(_, e). \<not> auto_resolves h m (ss_roots s) e) (ss_pending s)"
    using sweep_state [of h m ?t] filter_keys [OF jm, of "\<lambda>(_, e). auto_resolves h m (ss_roots s) e"]
    unfolding s' swp n by simp
  show "ss_replies s' = ss_replies s @
      map (\<lambda>(i, _). (i, PermReply Allow)) (filter (\<lambda>(_, e). auto_resolves h m (ss_roots s) e) (ss_pending s))"
    using sweep_state [of h m ?t] unfolding s' swp by (simp add: case_prod_beta comp_def)
  show "ss_mode s' = m" "ss_roots s' = ss_roots s"
    using sweep_state [of h m ?t] unfolding s' same_rest_def by simp_all
qed

text \<open>After a change of mode, a permission request that was pending is answered with \<open>allow\<close> exactly
  when the handler would let the call through under the new mode, but for the read-only tools under
  \<open>acceptEdits\<close> and \<open>plan\<close>: those the handler lets through and the change of mode leaves waiting.
  What is not answered stays pending, and so do the questions.\<close>

theorem mode_change_answers_allowed_requests:
  fixes h ops prefix mode roots m
  defines "s \<equiv> session_run h ops (new_session prefix mode roots)"
  defines "s' \<equiv> updatePermissionMode h m s"
  assumes "ss_mode s \<noteq> m" and pend: "(i, PermEntry tool input) \<in> set (ss_pending s)"
  shows "((i, PermReply Allow) \<in> set (ss_replies s')) =
      (fst (canUseTool h tool input s') = Answered Allow
       \<and> \<not> (m \<in> {AcceptEdits, Plan} \<and> tool \<in> set READ_ONLY_TOOLS))
    \<and> ((i, PermEntry tool input) \<in> set (ss_pending s')) = ((i, PermReply Allow) \<notin> set (ss_replies s'))
    \<and> pendingQuestionRequests s' = pendingQuestionRequests s"
proof -
  have ok: "session_ok h s" unfolding s_def by (rule session_run_ok [OF new_session_ok])
  note st = update_mode_state [OF ok assms(3), folded s'_def]
  have jm: "jm_ok (ss_pending s)" and dis: "i \<notin> fst ` set (ss_replies s)"
    and safe: "denyIfTouchesSensitivePath h tool input (ss_roots s) = None"
    using ok pend by (force simp: session_ok_def entry_ok_def)+
  let ?r = "auto_resolves h m (ss_roots s) (PermEntry tool input)"
  have uniq: "(i, e) \<in> set (ss_pending s) \<longleftrightarrow> e = PermEntry tool input" for e
    using jm pend eq_key_imp_eq_value by fast
  have rep: "(i, PermReply Allow) \<in> set (ss_replies s') \<longleftrightarrow> ?r"
    using dis uniq unfolding st by force
  have use: "fst (canUseTool h tool input s') = Answered Allow \<longleftrightarrow> mode_allows h m tool input (ss_roots s)"
    using safe by (simp add: canUseTool_def st Let_def)
  have q: "pendingQuestionRequests s' = pendingQuestionRequests s"
    unfolding pendingQuestionRequests_def st
    by (rule concat_map_filter) (auto simp: auto_resolves_def split: pending_entry.splits)
  have left: "(i, PermEntry tool input) \<in> set (ss_pending s') \<longleftrightarrow> \<not> ?r" using pend by (simp add: st)
  have r: "?r \<longleftrightarrow> fst (canUseTool h tool input s') = Answered Allow
      \<and> \<not> (m \<in> {AcceptEdits, Plan} \<and> tool \<in> set READ_ONLY_TOOLS)"
    unfolding use by (rule auto_resolves_iff)
  show ?thesis unfolding rep left r [symmetric] using q by blast
qed

theorem mode_change_answers_allowed_requests_witness:
  "let s = session_run demo_host [OpTool ''Edit'' [], OpTool ''Read'' []] (new_session ''t1'' (Some Default) []);
       s' = updatePermissionMode demo_host AcceptEdits s in
     (''perm-t1-1'', PermReply Allow) \<in> set (ss_replies s')
     \<and> (''perm-t1-2'', PermReply Allow) \<notin> set (ss_replies s')"
proof -
  let ?s = "session_run demo_host [OpTool ''Edit'' [], OpTool ''Read'' []] (new_session ''t1'' (Some Default) [])"
  have m: "ss_mode ?s \<noteq> AcceptEdits" by code_simp
  have p: "ss_pending ?s = [(''perm-t1-1'', PermEntry ''Edit'' []), (''perm-t1-2'', PermEntry ''Read'' [])]"
    by code_simp
  have u: "fst (canUseTool demo_host ''Edit'' [] (updatePermissionMode demo_host AcceptEdits ?s)) = Answered Allow"
    by code_simp
  show ?thesis
    using mode_change_answers_allowed_requests [OF m, of "''perm-t1-1''" "''Edit''" "[]"]
      mode_change_answers_allowed_requests [OF m, of "''perm-t1-2''" "''Read''" "[]"] u
    by (simp add: p Let_def READ_ONLY_TOOLS_def)
qed

end
