(* ===== verification/Keys.thy ===== *)
theory Keys
  imports JsString
begin

text \<open>
  Which AI provider key a task runs on: \<open>src/src/services/ai/key-selection.ts\<close>,
  \<open>src/src/lib/json-safe-parse.ts\<close> and the per-key slots of
  \<open>src/src/services/task-executor/executor-key-pool.ts\<close>.

  The tables are lists of rows in id order; ordering by priority is stable.  A JSON column is its text,
  and \<open>JSON.parse\<close> is the parameter \<open>jp\<close> (\<open>None\<close> where it throws).  The slot maps of \<open>KeyPool\<close> are
  association lists.  \<open>reserveForTask\<close> is the \<open>while (true)\<close> loop with nothing happening between its
  rounds; the theory of the executor runs the rounds one by one.
\<close>

subsection \<open>Rows\<close>

text \<open>The column \<open>is_active\<close> may be NULL; the queries ask for \<open>is_active = 1\<close>.  A NULL priority, which the query
  would sort first, is left out.\<close>

record ai_key =
  k_id :: int
  k_provider :: string
  k_type :: string
  k_value :: "string option"
  k_configDir :: "string option"
  k_priority :: int
  k_active :: "bool option"
  k_disabledUntil :: "string option"

record key_project =
  kp_allowed :: "string option"
  kp_workspace :: "int option"

record key_db =
  kd_keys :: "ai_key list"
  kd_projects :: "(int \<times> key_project) list"
  kd_workspaces :: "(int \<times> string option) list"
  kd_now :: string

record key_task =
  tk_project :: "int option"
  tk_workspace :: "int option"
  tk_assigned :: "int option"
  tk_failed :: "string option"
  tk_allowed :: "string option"

definition truthy_int :: "int option \<Rightarrow> int option" where
  "truthy_int v = (case v of Some n \<Rightarrow> if n = 0 then None else Some n | None \<Rightarrow> None)"

subsection \<open>Selection\<close>

definition jsonSafeParse :: "json_parse \<Rightarrow> string option \<Rightarrow> jval option" where
  "jsonSafeParse jp raw = (case truthy_str raw of None \<Rightarrow> None | Some s \<Rightarrow> jp s)"

fun all_numbers :: "jval list \<Rightarrow> int list option" where
  "all_numbers [] = Some []"
| "all_numbers (JNum n # vs) = map_option (Cons n) (all_numbers vs)"
| "all_numbers (_ # vs) = None"

definition jsonSafeParseNumberArray :: "json_parse \<Rightarrow> string option \<Rightarrow> int list option" where
  "jsonSafeParseNumberArray jp raw =
     (case jsonSafeParse jp raw of Some (JArr vs) \<Rightarrow> all_numbers vs | _ \<Rightarrow> None)"

definition safeParseJsonArray :: "json_parse \<Rightarrow> string option \<Rightarrow> int list" where
  "safeParseJsonArray jp v = (case jsonSafeParseNumberArray jp v of None \<Rightarrow> [] | Some ns \<Rightarrow> ns)"

definition workspace_allowed :: "key_db \<Rightarrow> int option \<Rightarrow> string option" where
  "workspace_allowed db ws =
     (case truthy_int ws of None \<Rightarrow> None
      | Some w \<Rightarrow> (case map_of (kd_workspaces db) w of None \<Rightarrow> None | Some a \<Rightarrow> truthy_str a))"

definition resolveAllowedKeyIds :: "json_parse \<Rightarrow> key_db \<Rightarrow> key_task \<Rightarrow> int list" where
  "resolveAllowedKeyIds jp db t =
     (case truthy_str (tk_allowed t) of
        Some s \<Rightarrow> safeParseJsonArray jp (Some s)
      | None \<Rightarrow>
          (case truthy_int (tk_project t) of
             Some p \<Rightarrow>
               (case map_of (kd_projects db) p of
                  None \<Rightarrow> safeParseJsonArray jp (workspace_allowed db (tk_workspace t))
                | Some project \<Rightarrow>
                    (case truthy_str (kp_allowed project) of
                       Some s \<Rightarrow> safeParseJsonArray jp (Some s)
                     | None \<Rightarrow> safeParseJsonArray jp (workspace_allowed db (kp_workspace project))))
           | None \<Rightarrow> safeParseJsonArray jp (workspace_allowed db (tk_workspace t))))"

definition enabled_keys :: "key_db \<Rightarrow> ai_key list" where
  "enabled_keys db = sort_key k_priority (filter (\<lambda>k. k_active k = Some True
     \<and> (case k_disabledUntil k of None \<Rightarrow> True | Some d \<Rightarrow> d < kd_now db)) (kd_keys db))"

definition key_candidates :: "json_parse \<Rightarrow> key_db \<Rightarrow> key_task \<Rightarrow> int list \<Rightarrow> ai_key list" where
  "key_candidates jp db t excluded =
     (let failedIds = safeParseJsonArray jp (tk_failed t);
          allowedIds = resolveAllowedKeyIds jp db t;
          c1 = (if failedIds = [] then enabled_keys db
                else filter (\<lambda>k. k_id k \<notin> set failedIds) (enabled_keys db));
          c2 = (if allowedIds = [] then c1 else filter (\<lambda>k. k_id k \<in> set allowedIds) c1)
      in if excluded = [] then c2 else filter (\<lambda>k. k_id k \<notin> set excluded) c2)"

definition assigned_key :: "key_db \<Rightarrow> key_task \<Rightarrow> ai_key option" where
  "assigned_key db t =
     (case truthy_int (tk_assigned t) of None \<Rightarrow> None | Some a \<Rightarrow> find (\<lambda>k. k_id k = a) (kd_keys db))"

text \<open>\<open>None\<close> is the error \<open>No available AI keys\<close>.\<close>

definition selectKeyForTask :: "json_parse \<Rightarrow> key_db \<Rightarrow> key_task \<Rightarrow> int list \<Rightarrow> ai_key option" where
  "selectKeyForTask jp db t excluded =
     (if (case truthy_int (tk_assigned t) of None \<Rightarrow> False | Some a \<Rightarrow> a \<in> set excluded) then None
      else case assigned_key db t of
             Some k \<Rightarrow> Some k
           | None \<Rightarrow> (case key_candidates jp db t excluded of [] \<Rightarrow> None | k # _ \<Rightarrow> Some k))"

definition seedDefaultKey :: "ai_key list \<Rightarrow> ai_key list" where
  "seedDefaultKey keys = (if keys \<noteq> [] then keys
     else [\<lparr>k_id = 1, k_provider = ''claude_cli'', k_type = ''cli'', k_value = None, k_configDir = None,
            k_priority = 0, k_active = Some True, k_disabledUntil = None\<rparr>])"

subsection \<open>The slots\<close>

record key_pool =
  kp_max :: int
  kp_used :: "(int \<times> int) list"
  kp_reserved :: "(int \<times> int) list"

definition new_pool :: key_pool where
  "new_pool = \<lparr>kp_max = 5, kp_used = [], kp_reserved = []\<rparr>"

definition setMax :: "int \<Rightarrow> key_pool \<Rightarrow> key_pool" where
  "setMax n p = p\<lparr>kp_max := n\<rparr>"

definition used_slots :: "key_pool \<Rightarrow> int \<Rightarrow> int" where
  "used_slots p keyId = (case map_of (kp_used p) keyId of None \<Rightarrow> 0 | Some n \<Rightarrow> n)"

definition reserve :: "int \<Rightarrow> int \<Rightarrow> key_pool \<Rightarrow> key_pool" where
  "reserve taskId keyId p =
     p\<lparr>kp_used := AList.update keyId (used_slots p keyId + 1) (kp_used p),
       kp_reserved := AList.update taskId keyId (kp_reserved p)\<rparr>"

definition release :: "int \<Rightarrow> key_pool \<Rightarrow> key_pool" where
  "release taskId p =
     (case map_of (kp_reserved p) taskId of
        None \<Rightarrow> p
      | Some keyId \<Rightarrow>
          let p1 = p\<lparr>kp_reserved := AList.delete taskId (kp_reserved p)\<rparr>; used = used_slots p1 keyId
          in if used \<le> 1 then p1\<lparr>kp_used := AList.delete keyId (kp_used p1)\<rparr>
             else p1\<lparr>kp_used := AList.update keyId (used - 1) (kp_used p1)\<rparr>)"

datatype reservation = ReservedKey ai_key | Enqueue | NoKeys

text \<open>One round of the loop: a result, or the list of saturated keys the next round starts with.\<close>

definition reserve_round ::
  "json_parse \<Rightarrow> key_db \<Rightarrow> key_task \<Rightarrow> int list \<Rightarrow> int \<Rightarrow> key_pool \<Rightarrow> (reservation \<times> key_pool) + int list" where
  "reserve_round jp db t saturated taskId p =
     (case selectKeyForTask jp db t saturated of
        None \<Rightarrow> Inl (if saturated = [] then NoKeys else Enqueue, p)
      | Some k \<Rightarrow> if used_slots p (k_id k) \<ge> kp_max p then Inr (saturated @ [k_id k])
                  else Inl (ReservedKey k, reserve taskId (k_id k) p))"

lemma key_candidates_filter:
  "set (key_candidates jp db t excluded) = {k \<in> set (key_candidates jp db t []). k_id k \<notin> set excluded}"
  "key_candidates jp db t excluded = filter (\<lambda>k. k_id k \<notin> set excluded) (key_candidates jp db t [])"
  by (auto simp: key_candidates_def Let_def)

lemma enabled_keys_subset: "set (enabled_keys db) \<subseteq> set (kd_keys db)"
  by (auto simp: enabled_keys_def)

lemma key_candidates_subset: "set (key_candidates jp db t excluded) \<subseteq> set (kd_keys db)"
  using enabled_keys_subset [of db] by (auto simp: key_candidates_def Let_def split: if_splits)

lemma assigned_key_Some:
  "assigned_key db t = Some k \<Longrightarrow> k \<in> set (kd_keys db) \<and> truthy_int (tk_assigned t) = Some (k_id k)"
  by (auto simp: assigned_key_def find_Some_iff in_set_conv_nth split: option.splits)

lemma selectKey_new:
  assumes "selectKeyForTask jp db t excluded = Some k"
  shows "k \<in> set (kd_keys db) \<and> k_id k \<notin> set excluded"
proof (cases "assigned_key db t")
  case (Some a)
  then show ?thesis using assms assigned_key_Some [OF Some]
    by (auto simp: selectKeyForTask_def split: if_splits)
next
  case None
  then have "k \<in> set (key_candidates jp db t excluded)"
    using assms by (auto simp: selectKeyForTask_def split: list.splits if_splits)
  then show ?thesis using key_candidates_subset [of jp db t excluded] key_candidates_filter(1) [of jp db t excluded]
    by blast
qed

function reserve_loop ::
  "json_parse \<Rightarrow> key_db \<Rightarrow> key_task \<Rightarrow> int \<Rightarrow> key_pool \<Rightarrow> int list \<Rightarrow> reservation \<times> key_pool" where
  "reserve_loop jp db t taskId p saturated =
     (case reserve_round jp db t saturated taskId p of
        Inl r \<Rightarrow> r
      | Inr saturated' \<Rightarrow> reserve_loop jp db t taskId p saturated')"
  by pat_completeness auto
termination
proof (relation "measure (\<lambda>(jp, db, t, taskId, p, saturated). card (k_id ` set (kd_keys db) - set saturated))")
  fix jp db t taskId p saturated saturated'
  assume "reserve_round jp db t saturated taskId p = Inr saturated'"
  then obtain k where k: "selectKeyForTask jp db t saturated = Some k" "saturated' = saturated @ [k_id k]"
    by (auto simp: reserve_round_def split: option.splits if_splits)
  have "k_id k \<in> k_id ` set (kd_keys db) - set saturated" using selectKey_new [OF k(1)] by blast
  then have "card (k_id ` set (kd_keys db) - set saturated') < card (k_id ` set (kd_keys db) - set saturated)"
    unfolding k(2) by (intro psubset_card_mono) auto
  then show "((jp, db, t, taskId, p, saturated'), jp, db, t, taskId, p, saturated)
      \<in> measure (\<lambda>(jp, db, t, taskId, p, saturated). card (k_id ` set (kd_keys db) - set saturated))"
    by simp
qed simp

declare reserve_loop.simps [simp del]

text \<open>The option \<open>excludeKeyIds\<close>, which no caller passes, is the empty list.\<close>

definition reserveForTask ::
  "json_parse \<Rightarrow> key_db \<Rightarrow> key_task \<Rightarrow> int \<Rightarrow> key_pool \<Rightarrow> reservation \<times> key_pool" where
  "reserveForTask jp db t taskId p = reserve_loop jp db t taskId p []"

subsection \<open>What the loop finds\<close>

text \<open>The keys a task may run on, best first.\<close>

definition eligible_keys :: "json_parse \<Rightarrow> key_db \<Rightarrow> key_task \<Rightarrow> ai_key list" where
  "eligible_keys jp db t =
     (case assigned_key db t of Some k \<Rightarrow> [k] | None \<Rightarrow> key_candidates jp db t [])"

definition has_slot :: "key_pool \<Rightarrow> ai_key \<Rightarrow> bool" where
  "has_slot p k \<longleftrightarrow> used_slots p (k_id k) < kp_max p"

lemma selectKey_eligible:
  assumes "set saturated \<subseteq> k_id ` set (kd_keys db)"
  shows "selectKeyForTask jp db t saturated =
    (case filter (\<lambda>k. k_id k \<notin> set saturated) (eligible_keys jp db t) of [] \<Rightarrow> None | k # _ \<Rightarrow> Some k)"
proof (cases "assigned_key db t")
  case (Some a)
  then show ?thesis using assigned_key_Some [OF Some]
    by (auto simp: selectKeyForTask_def eligible_keys_def)
next
  case None
  have "\<not> (case truthy_int (tk_assigned t) of None \<Rightarrow> False | Some a \<Rightarrow> a \<in> set saturated)"
    using None assms by (auto simp: assigned_key_def find_None_iff split: option.splits)
  then show ?thesis using None key_candidates_filter(2) [of jp db t saturated]
    by (simp add: selectKeyForTask_def eligible_keys_def)
qed

lemma find_filter_skip: "(\<forall>x \<in> set xs. P x \<longrightarrow> Q x) \<Longrightarrow> find P (filter Q xs) = find P xs"
  by (induction xs) auto

lemma reserve_loop_spec:
  assumes "set saturated \<subseteq> k_id ` set (kd_keys db)"
    and "\<forall>i \<in> set saturated. kp_max p \<le> used_slots p i"
    and "saturated \<noteq> [] \<longrightarrow> eligible_keys jp db t \<noteq> []"
  shows "reserve_loop jp db t taskId p saturated =
    (if eligible_keys jp db t = [] then (NoKeys, p)
     else case find (has_slot p) (eligible_keys jp db t) of
            Some k \<Rightarrow> (ReservedKey k, reserve taskId (k_id k) p)
          | None \<Rightarrow> (Enqueue, p))"
  using assms
proof (induction jp db t taskId p saturated rule: reserve_loop.induct)
  case (1 jp db t taskId p saturated)
  let ?E = "eligible_keys jp db t"
  let ?R = "filter (\<lambda>k. k_id k \<notin> set saturated) ?E"
  note sel = selectKey_eligible [OF "1.prems"(1), of jp t]
  have skip: "find (has_slot p) ?R = find (has_slot p) ?E"
    by (rule find_filter_skip) (use "1.prems"(2) in \<open>auto simp: has_slot_def\<close>)
  show ?case
  proof (cases ?R)
    case Nil
    then have "find (has_slot p) ?E = None" using skip by simp
    moreover have "?E = [] \<longleftrightarrow> saturated = []" using Nil "1.prems"(3) by auto
    ultimately show ?thesis using sel Nil by (simp add: reserve_loop.simps [of _ _ _ _ _ saturated] reserve_round_def)
  next
    case (Cons k ks)
    have s: "selectKeyForTask jp db t saturated = Some k" using sel Cons by simp
    have ne: "?E \<noteq> []" using Cons by auto
    show ?thesis
    proof (cases "has_slot p k")
      case True
      then have "find (has_slot p) ?E = Some k" using skip Cons by simp
      then show ?thesis using ne s True
        by (simp add: reserve_loop.simps [of _ _ _ _ _ saturated] reserve_round_def has_slot_def)
    next
      case False
      then have r: "reserve_round jp db t saturated taskId p = Inr (saturated @ [k_id k])"
        using s by (simp add: reserve_round_def has_slot_def)
      have "reserve_loop jp db t taskId p saturated = reserve_loop jp db t taskId p (saturated @ [k_id k])"
        by (simp add: reserve_loop.simps [of _ _ _ _ _ saturated] r)
      also have "\<dots> = (if ?E = [] then (NoKeys, p)
         else case find (has_slot p) ?E of
            Some k \<Rightarrow> (ReservedKey k, reserve taskId (k_id k) p) | None \<Rightarrow> (Enqueue, p))"
        by (rule "1.IH" [OF r]) (use "1.prems" ne False selectKey_new [OF s] in \<open>auto simp: has_slot_def\<close>)
      finally show ?thesis .
    qed
  qed
qed

text \<open>C5: the reservation loop ends on every database, and takes the first key of the task's list with a
  free slot; it reports an error only when the list is empty, and puts the task in the queue exactly
  when the list is not empty and every key on it is full.\<close>

theorem reserveForTask_first_free:
  "reserveForTask jp db t taskId p =
    (if eligible_keys jp db t = [] then (NoKeys, p)
     else case find (has_slot p) (eligible_keys jp db t) of
            Some k \<Rightarrow> (ReservedKey k, reserve taskId (k_id k) p)
          | None \<Rightarrow> (Enqueue, p))"
  unfolding reserveForTask_def by (rule reserve_loop_spec) simp_all

subsection \<open>Eligibility\<close>

text \<open>A key that is chosen without being assigned is active, not disabled, has not failed the task,
  is on the whitelist if there is one, and no other such key has a smaller priority number.\<close>

theorem selected_key_is_best:
  assumes "selectKeyForTask jp db t excluded = Some k" and "assigned_key db t = None"
  shows "k \<in> set (enabled_keys db) \<and> k_id k \<notin> set (safeParseJsonArray jp (tk_failed t))
    \<and> (resolveAllowedKeyIds jp db t = [] \<or> k_id k \<in> set (resolveAllowedKeyIds jp db t))
    \<and> list_all (\<lambda>k'. k_priority k \<le> k_priority k') (key_candidates jp db t excluded)"
proof -
  obtain ks where c: "key_candidates jp db t excluded = k # ks"
    using assms by (auto simp: selectKeyForTask_def split: if_splits list.splits)
  have "sorted (map k_priority (key_candidates jp db t excluded))"
    by (simp add: key_candidates_def enabled_keys_def Let_def sorted_filter)
  moreover have "k \<in> set (key_candidates jp db t excluded)" by (simp add: c)
  moreover from this have "k \<in> set (enabled_keys db) \<and> k_id k \<notin> set (safeParseJsonArray jp (tk_failed t))
    \<and> (resolveAllowedKeyIds jp db t = [] \<or> k_id k \<in> set (resolveAllowedKeyIds jp db t))"
    by (auto simp: key_candidates_def Let_def split: if_splits)
  ultimately show ?thesis unfolding c by (auto simp: list_all_iff)
qed

definition demo_key :: "int \<Rightarrow> int \<Rightarrow> ai_key" where
  "demo_key i prio = \<lparr>k_id = i, k_provider = ''anthropic'', k_type = ''api'', k_value = None,
     k_configDir = None, k_priority = prio, k_active = Some True, k_disabledUntil = None\<rparr>"

definition demo_keys :: key_db where
  "demo_keys = \<lparr>kd_keys = [demo_key 1 5, demo_key 2 0],
     kd_projects = [(7, \<lparr>kp_allowed = Some ''[1]'', kp_workspace = None\<rparr>)], kd_workspaces = [],
     kd_now = ''2026-01-01 00:00:00''\<rparr>"

definition demo_key_task :: key_task where
  "demo_key_task = \<lparr>tk_project = Some 7, tk_workspace = None, tk_assigned = None, tk_failed = None,
     tk_allowed = None\<rparr>"

text \<open>\<open>JSON.parse\<close> on the two texts of the examples.\<close>

definition demo_parse :: json_parse where
  "demo_parse s = (if s = ''[1]'' then Some (JArr [JNum 1]) else if s = ''[]'' then Some (JArr []) else None)"

theorem selected_key_is_best_witness:
  "selectKeyForTask demo_parse demo_keys demo_key_task [] = Some (demo_key 1 5)
   \<and> k_id (demo_key 1 5) \<in> set (resolveAllowedKeyIds demo_parse demo_keys demo_key_task)"
proof
  show s: "selectKeyForTask demo_parse demo_keys demo_key_task [] = Some (demo_key 1 5)" by code_simp
  have a: "assigned_key demo_keys demo_key_task = None" by code_simp
  have "resolveAllowedKeyIds demo_parse demo_keys demo_key_task \<noteq> []" by code_simp
  then show "k_id (demo_key 1 5) \<in> set (resolveAllowedKeyIds demo_parse demo_keys demo_key_task)"
    using selected_key_is_best [OF s a] by blast
qed

text \<open>The whitelist of a task replaces that of its project even when it is the empty list, or text
  that does not parse; and an empty list means no restriction.  A task with such a column runs on any
  enabled key, past the whitelist of its project and its workspace.\<close>

theorem empty_whitelist_lifts_restriction:
  assumes "tk_allowed t = Some s" "s \<noteq> []" "\<And>ns. jp s \<noteq> Some (JArr ns) \<or> ns = [] \<or> all_numbers ns = None"
    and "tk_failed t = None" "assigned_key db t = None"
  shows "resolveAllowedKeyIds jp db t = [] \<and> eligible_keys jp db t = enabled_keys db"
proof -
  have "safeParseJsonArray jp (Some s) = []"
  proof (cases "\<exists>ns. jp s = Some (JArr ns)")
    case True
    then obtain ns where "jp s = Some (JArr ns)" by blast
    then show ?thesis using assms(2) assms(3) [of ns]
      by (auto simp: safeParseJsonArray_def jsonSafeParseNumberArray_def jsonSafeParse_def truthy_str_def)
  next
    case False
    then show ?thesis using assms(2)
      by (simp add: safeParseJsonArray_def jsonSafeParseNumberArray_def jsonSafeParse_def truthy_str_def
          split: option.split jval.split)
  qed
  then have "resolveAllowedKeyIds jp db t = []"
    using assms(1,2) by (simp add: resolveAllowedKeyIds_def truthy_str_def)
  moreover have "safeParseJsonArray jp None = []"
    by (simp add: safeParseJsonArray_def jsonSafeParseNumberArray_def jsonSafeParse_def truthy_str_def)
  ultimately show ?thesis using assms(4,5) by (simp add: eligible_keys_def key_candidates_def)
qed

theorem empty_whitelist_lifts_restriction_witness:
  "eligible_keys demo_parse demo_keys (demo_key_task\<lparr>tk_allowed := Some ''[]''\<rparr>) = enabled_keys demo_keys
   \<and> eligible_keys demo_parse demo_keys demo_key_task = [demo_key 1 5]"
proof
  show "eligible_keys demo_parse demo_keys (demo_key_task\<lparr>tk_allowed := Some ''[]''\<rparr>) = enabled_keys demo_keys"
    by (rule conjunct2 [OF empty_whitelist_lifts_restriction [where s = "''[]''"]])
      (simp_all add: demo_parse_def demo_key_task_def assigned_key_def truthy_int_def)
  show "eligible_keys demo_parse demo_keys demo_key_task = [demo_key 1 5]" by code_simp
qed

end
