(* ===== verification/Money.thy ===== *)
theory Money
  imports JsString Complex_Main
begin

text \<open>
  What a run costs and whether it may start: \<open>src/src/services/ai/cost.ts\<close>,
  \<open>src/src/services/budget.ts\<close> and the provider rule of
  \<open>src/src/services/task-executor/executor-usage.ts\<close>.

  Money is a rational number: the sums and products of the code are doubles, whose rounding errors are
  not modelled, and \<open>Math.round\<close> to six decimals is written out.  The tables \<open>usage_records\<close>,
  \<open>budget_limits\<close> and \<open>projects\<close> are lists of rows; times are SQLite text, compared as text.
\<close>

subsection \<open>Prices\<close>

record ModelPricing =
  inputPer1M :: rat
  outputPer1M :: rat
  cacheCreationPer1M :: "rat option"
  cacheReadPer1M :: "rat option"

definition price4 :: "rat \<Rightarrow> rat \<Rightarrow> rat \<Rightarrow> rat \<Rightarrow> ModelPricing" where
  "price4 i o' c r = \<lparr>inputPer1M = i, outputPer1M = o', cacheCreationPer1M = Some c, cacheReadPer1M = Some r\<rparr>"

definition price2 :: "rat \<Rightarrow> rat \<Rightarrow> ModelPricing" where
  "price2 i o' = \<lparr>inputPer1M = i, outputPer1M = o', cacheCreationPer1M = None, cacheReadPer1M = None\<rparr>"

definition PRICING :: "(string \<times> (string \<times> ModelPricing) list) list" where
  "PRICING =
    [(''anthropic'',
      [(''claude-opus-4-7'', price4 5 25 (625/100) (5/10)),
       (''claude-sonnet-4-6'', price4 3 15 (375/100) (3/10)),
       (''claude-haiku-4-5'', price4 (8/10) 4 1 (8/100))]),
     (''openai'',
      [(''gpt-4o'', price2 (25/10) 10), (''gpt-4o-mini'', price2 (15/100) (6/10)),
       (''gpt-4-turbo'', price2 10 30), (''o3'', price2 10 40), (''o3-mini'', price2 (11/10) (44/10))]),
     (''google'',
      [(''gemini-2.5-pro'', price2 (125/100) 10), (''gemini-2.5-flash'', price2 (15/100) (6/10)),
       (''gemini-2.0-flash'', price2 (1/10) (4/10))]),
     (''mistral'',
      [(''mistral-large-latest'', price2 2 6), (''mistral-medium-latest'', price2 (27/10) (81/10)),
       (''codestral-latest'', price2 (3/10) (9/10))]),
     (''github_copilot'', [])]"

definition PROVIDER_ALIASES :: "(string \<times> string) list" where
  "PROVIDER_ALIASES = [(''claude_cli'', ''anthropic'')]"

text \<open>The exact name, else the first key that contains the model's name or is contained in it.\<close>

definition find_pricing :: "string \<Rightarrow> (string \<times> ModelPricing) list \<Rightarrow> ModelPricing option" where
  "find_pricing model providerPricing =
     (case map_of providerPricing model of
        Some p \<Rightarrow> Some p
      | None \<Rightarrow> map_option snd (find (\<lambda>(k, _). is_infix_of k model \<or> is_infix_of model k) providerPricing))"

definition per_million :: "int \<Rightarrow> rat \<Rightarrow> rat" where
  "per_million tokens price = of_int tokens / 1000000 * price"

definition optional_part :: "int \<Rightarrow> rat option \<Rightarrow> rat" where
  "optional_part tokens price =
     (case price of None \<Rightarrow> 0 | Some p \<Rightarrow> if tokens > 0 \<and> p \<noteq> 0 then per_million tokens p else 0)"

text \<open>\<open>Math.round\<close> rounds halves up.\<close>

definition math_round :: "rat \<Rightarrow> int" where
  "math_round x = \<lfloor>x + 1/2\<rfloor>"

definition micro_round :: "rat \<Rightarrow> rat" where
  "micro_round x = of_int (math_round (x * 1000000)) / 1000000"

definition cost_at :: "ModelPricing \<Rightarrow> int \<Rightarrow> int \<Rightarrow> int \<Rightarrow> int \<Rightarrow> rat" where
  "cost_at p inputTokens outputTokens cacheCreationTokens cacheReadTokens =
     micro_round (per_million inputTokens (inputPer1M p) + per_million outputTokens (outputPer1M p)
       + optional_part cacheCreationTokens (cacheCreationPer1M p)
       + optional_part cacheReadTokens (cacheReadPer1M p))"

definition calculateCost :: "string \<Rightarrow> string \<Rightarrow> int \<Rightarrow> int \<Rightarrow> int \<Rightarrow> int \<Rightarrow> rat" where
  "calculateCost provider model inputTokens outputTokens cacheCreationTokens cacheReadTokens =
     (let providerKey = (case map_of PROVIDER_ALIASES provider of Some a \<Rightarrow> a | None \<Rightarrow> provider) in
      case map_of PRICING providerKey of
        None \<Rightarrow> 0
      | Some providerPricing \<Rightarrow>
          (case find_pricing model providerPricing of
             None \<Rightarrow> 0
           | Some p \<Rightarrow> cost_at p inputTokens outputTokens cacheCreationTokens cacheReadTokens))"

definition inferProvider :: "string \<Rightarrow> string" where
  "inferProvider model =
     (if list_ex (\<lambda>k. is_infix_of k model) [''claude'', ''haiku'', ''sonnet'', ''opus''] then ''anthropic''
      else if list_ex (\<lambda>k. is_infix_of k model) [''gpt'', ''o3'', ''o1''] then ''openai''
      else if is_infix_of ''gemini'' model then ''google''
      else if list_ex (\<lambda>k. is_infix_of k model) [''mistral'', ''codestral''] then ''mistral''
      else ''anthropic'')"

definition COPILOT_QUOTA_MULTIPLIERS :: "(string \<times> rat) list" where
  "COPILOT_QUOTA_MULTIPLIERS =
    [(''claude-opus-4.7'', 75/10), (''claude-sonnet-4.6'', 1), (''claude-sonnet-4.5'', 1),
     (''claude-haiku-4.5'', 33/100), (''gpt-5.4'', 1), (''gpt-5.3-codex'', 1), (''gpt-5.2-codex'', 1),
     (''gpt-5.2'', 1), (''gpt-5.4-mini'', 33/100), (''gpt-5-mini'', 0), (''gpt-4.1'', 0)]"

definition getCopilotQuotaMultiplier :: "string \<Rightarrow> rat" where
  "getCopilotQuotaMultiplier model =
     (case map_of COPILOT_QUOTA_MULTIPLIERS model of Some q \<Rightarrow> q | None \<Rightarrow> 1)"

subsection \<open>Usage and budgets\<close>

record metrics =
  mt_input :: int
  mt_output :: int
  mt_cacheCreation :: int
  mt_cacheRead :: int

record usage_record =
  ur_task :: int
  ur_project :: "int option"
  ur_provider :: string
  ur_model :: string
  ur_metrics :: metrics
  ur_cost :: rat
  ur_createdAt :: string

record budget_limit =
  bl_id :: int
  bl_scope :: string
  bl_scopeId :: "int option"
  bl_period :: string
  bl_limitUsd :: rat
  bl_action :: "string option"
  bl_active :: bool

record budget_db =
  bd_projects :: "(int \<times> int option) list"
  bd_limits :: "budget_limit list"
  bd_usage :: "usage_record list"

definition FLAT_RATE_PROVIDERS :: "string list" where
  "FLAT_RATE_PROVIDERS = [''claude_cli'', ''github_copilot'']"

definition usage_provider :: "string option \<Rightarrow> string \<Rightarrow> string" where
  "usage_provider keyProvider model =
     (case keyProvider of
        Some p \<Rightarrow> if p \<noteq> [] \<and> p \<in> set FLAT_RATE_PROVIDERS then p else inferProvider model
      | None \<Rightarrow> inferProvider model)"

definition saveUsage ::
  "string \<Rightarrow> int \<Rightarrow> int option \<Rightarrow> string option \<Rightarrow> string \<Rightarrow> metrics \<Rightarrow> budget_db \<Rightarrow> budget_db" where
  "saveUsage now taskId projectId keyProvider model m db =
     (let provider = usage_provider keyProvider model
      in db\<lparr>bd_usage := bd_usage db @
           [\<lparr>ur_task = taskId, ur_project = projectId, ur_provider = provider, ur_model = model,
             ur_metrics = m,
             ur_cost = calculateCost provider model (mt_input m) (mt_output m) (mt_cacheCreation m) (mt_cacheRead m),
             ur_createdAt = now\<rparr>]\<rparr>)"

record utc =
  u_year :: nat
  u_month :: nat
  u_day :: nat

definition pad :: "nat \<Rightarrow> nat \<Rightarrow> string" where
  "pad w n = (let s = str_of_nat n in replicate (w - length s) CHR ''0'' @ s)"

definition getPeriodStart :: "utc \<Rightarrow> string \<Rightarrow> string option" where
  "getPeriodStart now period =
     (if period = ''daily''
      then Some (pad 4 (u_year now) @ ''-'' @ pad 2 (u_month now) @ ''-'' @ pad 2 (u_day now) @ '' 00:00:00'')
      else if period = ''monthly''
      then Some (str_of_nat (u_year now) @ ''-'' @ pad 2 (u_month now) @ ''-01 00:00:00'')
      else None)"

definition workspace_projects :: "budget_db \<Rightarrow> int \<Rightarrow> int list" where
  "workspace_projects db ws = map fst (filter (\<lambda>(_, w). w = Some ws) (bd_projects db))"

definition sum_usage :: "(usage_record \<Rightarrow> bool) \<Rightarrow> budget_db \<Rightarrow> rat" where
  "sum_usage P db = sum_list (map ur_cost (filter P (bd_usage db)))"

definition getSpentForPeriod ::
  "utc \<Rightarrow> string \<Rightarrow> int option \<Rightarrow> string \<Rightarrow> (int \<times> int list) list \<Rightarrow> budget_db \<Rightarrow> rat" where
  "getSpentForPeriod now scope scopeId period projectIdsByWorkspace db =
     (let since = (\<lambda>u. case getPeriodStart now period of None \<Rightarrow> True | Some d \<Rightarrow> d \<le> ur_createdAt u) in
      case (scope = ''project'', scope = ''workspace'', scopeId) of
        (True, _, Some p) \<Rightarrow> sum_usage (\<lambda>u. since u \<and> ur_project u = Some p) db
      | (False, True, Some w) \<Rightarrow>
          (let projectIds = (case map_of projectIdsByWorkspace w of
               Some ids \<Rightarrow> ids | None \<Rightarrow> workspace_projects db w)
           in if projectIds = [] then 0
              else sum_usage (\<lambda>u. since u \<and> ur_project u \<in> Some ` set projectIds) db)
      | _ \<Rightarrow> sum_usage since db)"

text \<open>The batch of workspace members: one bucket per workspace that has a project.\<close>

definition bucket_add :: "int \<times> int option \<Rightarrow> (int \<times> int list) list \<Rightarrow> (int \<times> int list) list" where
  "bucket_add r m = (case r of (pid, None) \<Rightarrow> m
     | (pid, Some w) \<Rightarrow> (case map_of m w of
           Some b \<Rightarrow> AList.update w (b @ [pid]) m | None \<Rightarrow> AList.update w [pid] m))"

definition project_buckets :: "int list \<Rightarrow> budget_db \<Rightarrow> (int \<times> int list) list" where
  "project_buckets workspaceLimitIds db =
     fold bucket_add (filter (\<lambda>(_, w). w \<in> Some ` set workspaceLimitIds) (bd_projects db)) []"

record exceeded =
  ex_limit :: budget_limit
  ex_spent :: rat
  ex_action :: string

definition project_workspace :: "budget_db \<Rightarrow> int option \<Rightarrow> int option" where
  "project_workspace db projectId =
     (case projectId of None \<Rightarrow> None
      | Some p \<Rightarrow> if p = 0 then None else case map_of (bd_projects db) p of None \<Rightarrow> None | Some w \<Rightarrow> w)"

definition limit_skipped :: "int option \<Rightarrow> int option \<Rightarrow> budget_limit \<Rightarrow> bool" where
  "limit_skipped projectId projectWorkspaceId l \<longleftrightarrow>
     bl_scope l = ''project'' \<and> bl_scopeId l \<noteq> projectId
     \<or> bl_scope l = ''workspace'' \<and> projectWorkspaceId \<noteq> bl_scopeId l"

definition the_list :: "'a option \<Rightarrow> 'a list" where
  "the_list v = (case v of None \<Rightarrow> [] | Some x \<Rightarrow> [x])"

definition checkBudget :: "utc \<Rightarrow> int option \<Rightarrow> budget_db \<Rightarrow> bool \<times> exceeded list" where
  "checkBudget now projectId db =
     (let limits = filter bl_active (bd_limits db);
          projectWorkspaceId = project_workspace db projectId;
          workspaceLimitIds = concat (map (\<lambda>l. if bl_scope l = ''workspace'' \<and> projectWorkspaceId = bl_scopeId l
                                                then the_list (bl_scopeId l) else []) limits);
          buckets = project_buckets workspaceLimitIds db;
          over = concat (map (\<lambda>l.
            if limit_skipped projectId projectWorkspaceId l then []
            else let spent = getSpentForPeriod now (bl_scope l) (bl_scopeId l) (bl_period l) buckets db
                 in if spent \<ge> bl_limitUsd l
                    then [\<lparr>ex_limit = l, ex_spent = spent,
                           ex_action = (case bl_action l of None \<Rightarrow> ''pause'' | Some a \<Rightarrow> a)\<rparr>]
                    else []) limits)
      in (filter (\<lambda>e. ex_action e = ''pause'') over = [], over))"

record budget_summary =
  bs_limit :: budget_limit
  bs_spentUsd :: rat
  bs_percentUsed :: int
  bs_action :: string

definition getBudgetSummary :: "utc \<Rightarrow> budget_db \<Rightarrow> budget_summary list" where
  "getBudgetSummary now db =
     (let limits = filter bl_active (bd_limits db);
          workspaceLimitIds = concat (map (\<lambda>l. if bl_scope l = ''workspace'' then the_list (bl_scopeId l) else []) limits);
          buckets = project_buckets workspaceLimitIds db
      in map (\<lambda>l.
           let spent = getSpentForPeriod now (bl_scope l) (bl_scopeId l) (bl_period l) buckets db
           in \<lparr>bs_limit = l, bs_spentUsd = micro_round spent,
               bs_percentUsed = (if bl_limitUsd l > 0 then math_round (spent / bl_limitUsd l * 100) else 0),
               bs_action = (case bl_action l of None \<Rightarrow> ''pause'' | Some a \<Rightarrow> a)\<rparr>) limits)"

subsection \<open>Costs\<close>

lemma micro_round_mono: "x \<le> y \<Longrightarrow> micro_round x \<le> micro_round y"
proof -
  assume "x \<le> y"
  then have "math_round (x * 1000000) \<le> math_round (y * 1000000)"
    unfolding math_round_def by (intro floor_mono) simp
  then show ?thesis by (simp add: micro_round_def divide_right_mono)
qed

lemma micro_round_nonneg: "0 \<le> x \<Longrightarrow> 0 \<le> micro_round x"
  by (simp add: micro_round_def math_round_def)

definition pricing_ok :: "ModelPricing \<Rightarrow> bool" where
  "pricing_ok p \<longleftrightarrow> 0 \<le> inputPer1M p \<and> 0 \<le> outputPer1M p
     \<and> (case cacheCreationPer1M p of None \<Rightarrow> True | Some x \<Rightarrow> 0 \<le> x)
     \<and> (case cacheReadPer1M p of None \<Rightarrow> True | Some x \<Rightarrow> 0 \<le> x)"

lemma pricing_table_ok: "list_all (\<lambda>(_, ms). list_all (\<lambda>(_, p). pricing_ok p) ms) PRICING"
  by (simp add: PRICING_def pricing_ok_def price4_def price2_def)

lemma find_pricing_mem: "find_pricing model ms = Some p \<Longrightarrow> \<exists>k. (k, p) \<in> set ms"
proof (cases "map_of ms model")
  case (Some q)
  assume "find_pricing model ms = Some p"
  then show ?thesis using Some map_of_SomeD [OF Some] by (auto simp: find_pricing_def)
next
  case None
  assume "find_pricing model ms = Some p"
  then obtain x where "find (\<lambda>(k, _). is_infix_of k model \<or> is_infix_of model k) ms = Some x" "p = snd x"
    using None by (auto simp: find_pricing_def)
  then show ?thesis by (metis find_Some_iff nth_mem surjective_pairing)
qed

lemma per_million_mono: "0 \<le> p \<Longrightarrow> s \<le> t \<Longrightarrow> per_million s p \<le> per_million t p"
  by (simp add: per_million_def mult_right_mono divide_right_mono)

lemma per_million_nonneg: "0 \<le> p \<Longrightarrow> 0 \<le> t \<Longrightarrow> 0 \<le> per_million t p"
  by (simp add: per_million_def)

lemma optional_part_mono:
  "(case p of None \<Rightarrow> True | Some x \<Rightarrow> 0 \<le> x) \<Longrightarrow> s \<le> t \<Longrightarrow> optional_part s p \<le> optional_part t p"
  by (auto simp: optional_part_def per_million_mono per_million_nonneg split: option.splits)

lemma optional_part_nonneg: "(case p of None \<Rightarrow> True | Some x \<Rightarrow> 0 \<le> x) \<Longrightarrow> 0 \<le> optional_part t p"
  by (auto simp: optional_part_def per_million_nonneg split: option.splits)

lemma cost_at_mono:
  "pricing_ok p \<Longrightarrow> i \<le> i' \<Longrightarrow> j \<le> j' \<Longrightarrow> c \<le> c' \<Longrightarrow> r \<le> r' \<Longrightarrow> cost_at p i j c r \<le> cost_at p i' j' c' r'"
  unfolding cost_at_def pricing_ok_def
  by (intro micro_round_mono add_mono per_million_mono optional_part_mono) auto

lemma cost_at_nonneg: "pricing_ok p \<Longrightarrow> 0 \<le> i \<Longrightarrow> 0 \<le> j \<Longrightarrow> 0 \<le> cost_at p i j c r"
  unfolding cost_at_def pricing_ok_def
  by (intro micro_round_nonneg add_nonneg_nonneg per_million_nonneg optional_part_nonneg) auto

text \<open>Whatever the provider and the model, known or not, a cost is never negative and never falls
  when more tokens of any kind are used, rounding included.\<close>

theorem calculateCost_monotone:
  assumes "0 \<le> i" "0 \<le> j" "i \<le> i'" "j \<le> j'" "c \<le> c'" "r \<le> r'"
  shows "0 \<le> calculateCost provider model i j c r
    \<and> calculateCost provider model i j c r \<le> calculateCost provider model i' j' c' r'"
proof -
  have ok: "pricing_ok p" if "map_of PRICING k = Some ms" "find_pricing model ms = Some p" for k ms p
    using pricing_table_ok find_pricing_mem [OF that(2)] map_of_SomeD [OF that(1)] by (fastforce simp: list_all_iff)
  show ?thesis using assms ok
    by (auto simp: calculateCost_def Let_def split: option.splits intro: cost_at_mono cost_at_nonneg)
qed

theorem calculateCost_monotone_witness:
  "0 \<le> calculateCost ''claude_cli'' ''claude-opus-4-7'' 10 20 0 0
   \<and> calculateCost ''claude_cli'' ''claude-opus-4-7'' 10 20 0 0 \<le> calculateCost ''claude_cli'' ''claude-opus-4-7'' 11 20 5 0"
  by (rule calculateCost_monotone) simp_all

lemma find_pricing_snapshot:
  "find_pricing (''gpt-4o-mini-'' @ date) (the (map_of PRICING ''openai'')) = Some (price2 (25/10) 10)"
  by (simp add: find_pricing_def PRICING_def)

lemma find_pricing_4o: "find_pricing ''gpt-4o'' (the (map_of PRICING ''openai'')) = Some (price2 (25/10) 10)"
  by (simp add: find_pricing_def PRICING_def)

lemma find_pricing_4o_mini: "find_pricing ''gpt-4o-mini'' (the (map_of PRICING ''openai'')) = Some (price2 (15/100) (6/10))"
  by (simp add: find_pricing_def PRICING_def)

lemma openai_cost: "calculateCost ''openai'' m i j c r =
    (case find_pricing m (the (map_of PRICING ''openai'')) of None \<Rightarrow> 0 | Some p \<Rightarrow> cost_at p i j c r)"
  by (simp add: calculateCost_def PROVIDER_ALIASES_def PRICING_def)

text \<open>A dated name of \<open>gpt-4o-mini\<close> is not in the table, and the search for a key it contains meets
  \<open>gpt-4o\<close> first: every such run is charged, and counted against budgets, at the price of \<open>gpt-4o\<close>,
  more than sixteen times that of the model used.\<close>

theorem snapshot_priced_as_bigger_model:
  "calculateCost ''openai'' (''gpt-4o-mini-'' @ date) i j c r = calculateCost ''openai'' ''gpt-4o'' i j c r
   \<and> calculateCost ''openai'' ''gpt-4o-mini'' 1000000 1000000 0 0 = 75/100
   \<and> calculateCost ''openai'' ''gpt-4o'' 1000000 1000000 0 0 = 125/10"
  unfolding openai_cost find_pricing_snapshot find_pricing_4o find_pricing_4o_mini
  by (simp add: cost_at_def price2_def per_million_def optional_part_def micro_round_def math_round_def
      floor_eq_iff)

subsection \<open>Budgets\<close>

lemma bucket_fold:
  "map_of (fold bucket_add rows m) w =
     (case map fst (filter (\<lambda>(_, x). x = Some w) rows) of
        [] \<Rightarrow> map_of m w
      | ps \<Rightarrow> Some ((case map_of m w of None \<Rightarrow> [] | Some b \<Rightarrow> b) @ ps))"
proof (induction rows arbitrary: m)
  case (Cons r rows)
  obtain pid ow where r: "r = (pid, ow)" by (cases r)
  show ?case
  proof (cases ow)
    case None
    then show ?thesis using Cons.IH [of m] by (simp add: r bucket_add_def)
  next
    case (Some v)
    show ?thesis
      using Cons.IH [of "bucket_add r m"]
      by (cases "v = w"; cases "map_of m v") (auto simp: r Some bucket_add_def jm_get_set split: list.splits)
  qed
qed simp

lemma project_buckets_get:
  "map_of (project_buckets ids db) w =
     (if w \<in> set ids \<and> workspace_projects db w \<noteq> [] then Some (workspace_projects db w) else None)"
proof -
  have "filter (\<lambda>(_, x). x = Some w) (filter (\<lambda>(_, x). x \<in> Some ` set ids) (bd_projects db)) =
      (if w \<in> set ids then filter (\<lambda>(_, x). x = Some w) (bd_projects db) else [])"
    by (auto simp: filter_empty_conv intro!: filter_cong)
  then show ?thesis
    by (auto simp: project_buckets_def bucket_fold workspace_projects_def split: list.splits)
qed

text \<open>The batch of workspace members never changes an answer.\<close>

lemma spent_batch: "getSpentForPeriod now scope scopeId period (project_buckets ids db) db
    = getSpentForPeriod now scope scopeId period [] db"
  by (simp add: getSpentForPeriod_def project_buckets_get Let_def split: option.split bool.split)

text \<open>What a limit counts, said without the batches: the records since the start of its period, of its
  project, of the projects of its workspace, or all.\<close>

definition counts_for :: "utc \<Rightarrow> budget_db \<Rightarrow> budget_limit \<Rightarrow> usage_record \<Rightarrow> bool" where
  "counts_for now db l u \<longleftrightarrow>
     (case getPeriodStart now (bl_period l) of None \<Rightarrow> True | Some d \<Rightarrow> d \<le> ur_createdAt u)
     \<and> (case bl_scopeId l of
          None \<Rightarrow> True
        | Some i \<Rightarrow> if bl_scope l = ''project'' then ur_project u = Some i
                   else if bl_scope l = ''workspace''
                   then list_ex (\<lambda>(p, w). w = Some i \<and> ur_project u = Some p) (bd_projects db)
                   else True)"

lemma spent_spec:
  "getSpentForPeriod now (bl_scope l) (bl_scopeId l) (bl_period l) [] db = sum_usage (counts_for now db l) db"
proof -
  have ws: "ur_project u \<in> Some ` set (workspace_projects db i) \<longleftrightarrow>
      list_ex (\<lambda>(p, w). w = Some i \<and> ur_project u = Some p) (bd_projects db)" for u i
    by (force simp: workspace_projects_def list_ex_iff)
  have empty: "workspace_projects db i = [] \<Longrightarrow>
      \<not> list_ex (\<lambda>(p, w). w = Some i \<and> ur_project u = Some p) (bd_projects db)" for u i
    unfolding ws [symmetric] by simp
  have zero: "sum_usage (\<lambda>u. False) db = 0" by (simp add: sum_usage_def)
  show ?thesis
  proof (cases "bl_scopeId l")
    case None
    then show ?thesis
      by (cases "bl_scope l = ''project''"; cases "bl_scope l = ''workspace''")
        (simp_all add: getSpentForPeriod_def counts_for_def [abs_def])
  next
    case (Some i)
    consider "bl_scope l = ''workspace''" | "bl_scope l = ''project''"
      | "bl_scope l \<noteq> ''workspace''" "bl_scope l \<noteq> ''project''" by blast
    then show ?thesis
    proof cases
      case 1
      have "getSpentForPeriod now (bl_scope l) (bl_scopeId l) (bl_period l) [] db =
          (if workspace_projects db i = [] then 0 else sum_usage (counts_for now db l) db)"
        unfolding counts_for_def [abs_def]
        by (simp add: 1 Some getSpentForPeriod_def Let_def ws [symmetric])
      moreover have "sum_usage (counts_for now db l) db = 0" if "workspace_projects db i = []"
      proof -
        have "counts_for now db l u = False" for u using empty [OF that, of u] by (simp add: 1 Some counts_for_def)
        then show ?thesis using zero by presburger
      qed
      ultimately show ?thesis by simp
    qed (simp_all add: Some getSpentForPeriod_def counts_for_def [abs_def])
  qed
qed

text \<open>A run is stopped exactly when some active limit that applies to its project and asks to pause
  has been reached by what was spent in its period and scope; the batched lookup of workspace members
  changes nothing.\<close>

theorem checkBudget_allowed_iff:
  "fst (checkBudget now projectId db) =
     (\<not> list_ex (\<lambda>l. bl_active l \<and> \<not> limit_skipped projectId (project_workspace db projectId) l
          \<and> bl_action l \<in> {None, Some ''pause''}
          \<and> bl_limitUsd l \<le> sum_usage (counts_for now db l) db) (bd_limits db))"
  unfolding checkBudget_def Let_def spent_batch spent_spec
  by (auto simp: filter_empty_conv list_ex_iff split: option.splits if_splits)

end
