(* ===== verification/TaskRun.thy ===== *)
theory TaskRun
  imports TaskStatus Keys Money
begin

text \<open>
  The task executor: \<open>src/src/services/task-executor/executor.ts\<close> with its parts
  \<open>executor-finalize.ts\<close>, \<open>executor-questions.ts\<close> and \<open>executor-stale.ts\<close>, the cancel, rerun, approve
  and reject routes of \<open>src/src/routes/tasks/crud.ts\<close>, and \<open>src/src/services/agents/rate-limit-scheduler.ts\<close>.

  Every call of \<open>execute\<close> is an activation: the asynchronous function and where it stands between two
  awaits.  The record \<open>executor\<close> holds the task table, the key table, the queue, the slots, the live
  sessions, the armed wake-up timers, the pending retries and the activations.  \<open>exec_step\<close> runs one
  stretch of code up to the next await, on an event that says what the awaited promise came to; any
  order of events is a possible schedule.  Broadcasts and log lines are left out; \<open>x_synced\<close> are the
  calls of \<open>syncPlan\<close> and \<open>repointPlan\<close>.  The list of exceeded limits in the message of a task stopped by
  its budget is left out.
\<close>

subsection \<open>State\<close>

record task_row =
  tr_status :: task_status
  tr_project :: "int option"
  tr_assigned :: "int option"
  tr_failed :: "string option"
  tr_allowed :: "string option"
  tr_maxRetries :: "int option"
  tr_retryCount :: "int option"
  tr_parent :: "int option"
  tr_label :: "string option"
  tr_error :: "string option"
  tr_exitCode :: "int option"
  tr_resumeAt :: "int option"
  tr_started :: "string option"
  tr_completed :: "string option"
  tr_approval :: "(string \<times> string option) option"

text \<open>What \<open>AgentSession.run\<close> may throw, as far as it is looked at; \<open>er_limit\<close> is what
  \<open>classifyLimit\<close> makes of it.\<close>

record run_error =
  er_name :: string
  er_message :: string
  er_shutdown :: bool
  er_limit :: "(int \<times> string) option"

datatype phase =
  Selecting "int list" "ai_key option"
  | Decided reservation
  | Preparing int "string"
  | Running int "string" string bool

record activation =
  a_task :: int
  a_keys :: key_task
  a_phase :: phase

record question_row =
  q_task :: int
  q_pending :: bool
  q_answer :: "string option"

record executor =
  x_tasks :: "(int \<times> task_row) list"
  x_nextId :: int
  x_keys :: key_db
  x_budget :: budget_db
  x_pool :: key_pool
  x_queue :: "int list"
  x_sessions :: "int list"
  x_timers :: "(int \<times> int) list"
  x_retries :: "int list"
  x_acts :: "(nat \<times> activation) list"
  x_nextAct :: nat
  x_questions :: "(string \<times> question_row) list"
  x_shuttingDown :: bool
  x_synced :: "int list"
  x_repointed :: "(int \<times> int) list"
  x_rejecting :: "(int \<times> string option) list"

definition set_row :: "int \<Rightarrow> (task_row \<Rightarrow> task_row) \<Rightarrow> executor \<Rightarrow> executor" where
  "set_row t f s = s\<lparr>x_tasks := map (\<lambda>(i, r). if i = t then (i, f r) else (i, r)) (x_tasks s)\<rparr>"

definition row_of :: "executor \<Rightarrow> int \<Rightarrow> task_row option" where
  "row_of s t = map_of (x_tasks s) t"

definition syncPlan :: "int \<Rightarrow> executor \<Rightarrow> executor" where
  "syncPlan t s = s\<lparr>x_synced := x_synced s @ [t]\<rparr>"

definition keys_of :: "task_row \<Rightarrow> key_task" where
  "keys_of r = \<lparr>tk_project = tr_project r, tk_workspace = None, tk_assigned = tr_assigned r,
     tk_failed = tr_failed r, tk_allowed = tr_allowed r\<rparr>"

subsection \<open>Starting\<close>

definition select_phase :: "json_parse \<Rightarrow> executor \<Rightarrow> key_task \<Rightarrow> int list \<Rightarrow> phase" where
  "select_phase jp s kt saturated = Selecting saturated (selectKeyForTask jp (x_keys s) kt saturated)"

definition execute :: "json_parse \<Rightarrow> int \<Rightarrow> executor \<Rightarrow> executor" where
  "execute jp taskId s =
     (case row_of s taskId of
        None \<Rightarrow> s
      | Some r \<Rightarrow> s\<lparr>x_acts := x_acts s @ [(x_nextAct s, \<lparr>a_task = taskId, a_keys = keys_of r,
                              a_phase = select_phase jp s (keys_of r) []\<rparr>)],
                    x_nextAct := x_nextAct s + 1\<rparr>)"

definition enqueue :: "int \<Rightarrow> executor \<Rightarrow> executor" where
  "enqueue taskId s = (if taskId \<in> set (x_queue s) then s else s\<lparr>x_queue := x_queue s @ [taskId]\<rparr>)"

definition processQueue :: "json_parse \<Rightarrow> executor \<Rightarrow> executor" where
  "processQueue jp s = fold (execute jp) (x_queue s) (s\<lparr>x_queue := []\<rparr>)"

definition fail_row :: "string \<Rightarrow> string \<Rightarrow> task_row \<Rightarrow> task_row" where
  "fail_row now msg r = r\<lparr>tr_status := FAILED, tr_error := Some msg, tr_completed := Some now\<rparr>"

definition drop_act :: "nat \<Rightarrow> executor \<Rightarrow> executor" where
  "drop_act a s = s\<lparr>x_acts := AList.delete a (x_acts s)\<rparr>"

definition set_phase :: "nat \<Rightarrow> phase \<Rightarrow> executor \<Rightarrow> executor" where
  "set_phase a ph s =
     s\<lparr>x_acts := map (\<lambda>(i, v). if i = a then (i, v\<lparr>a_phase := ph\<rparr>) else (i, v)) (x_acts s)\<rparr>"

text \<open>The \<open>finally\<close> of \<open>execute\<close>, after a run.\<close>

definition finish_act :: "json_parse \<Rightarrow> nat \<Rightarrow> int \<Rightarrow> executor \<Rightarrow> executor" where
  "finish_act jp a taskId s =
     processQueue jp (drop_act a (s\<lparr>x_pool := release taskId (x_pool s)\<rparr>))"

text \<open>The selection has come back: the slot check and the reservation, or the next round.\<close>

definition settle_selection :: "json_parse \<Rightarrow> nat \<Rightarrow> activation \<Rightarrow> int list \<Rightarrow> ai_key option \<Rightarrow> executor \<Rightarrow> executor" where
  "settle_selection jp a v saturated sel s =
     (case sel of
        None \<Rightarrow> set_phase a (Decided (if saturated = [] then NoKeys else Enqueue)) s
      | Some k \<Rightarrow>
          if used_slots (x_pool s) (k_id k) \<ge> kp_max (x_pool s)
          then set_phase a (select_phase jp s (a_keys v) (saturated @ [k_id k])) s
          else set_phase a (Decided (ReservedKey k))
                 (s\<lparr>x_pool := reserve (a_task v) (k_id k) (x_pool s)\<rparr>))"

definition run_begin :: "json_parse \<Rightarrow> utc \<Rightarrow> string \<Rightarrow> nat \<Rightarrow> int \<Rightarrow> ai_key \<Rightarrow> executor \<Rightarrow> executor" where
  "run_begin jp today now a taskId k s =
     (case row_of s taskId of
        None \<Rightarrow> finish_act jp a taskId s
      | Some task \<Rightarrow>
          let s1 = set_row taskId (\<lambda>r. r\<lparr>tr_status := RUNNING, tr_started := Some now\<rparr>) s in
          if \<not> fst (checkBudget today (tr_project task) (x_budget s1))
          then finish_act jp a taskId
                 (syncPlan taskId (set_row taskId (fail_row now ''Budget exceeded'') s1))
          else set_phase a (Preparing (k_id k) (k_provider k)) s1)"

definition after_reservation :: "json_parse \<Rightarrow> utc \<Rightarrow> string \<Rightarrow> nat \<Rightarrow> int \<Rightarrow> reservation \<Rightarrow> executor \<Rightarrow> executor" where
  "after_reservation jp today now a taskId r s =
     (case r of
        NoKeys \<Rightarrow> drop_act a (syncPlan taskId
                   (set_row taskId (fail_row now ''No available AI keys. Add a key via /keys endpoint.'') s))
      | Enqueue \<Rightarrow> drop_act a (enqueue taskId s)
      | ReservedKey k \<Rightarrow> run_begin jp today now a taskId k s)"

text \<open>\<open>buildTaskRunContext\<close> has failed with a message, or given a model and whether approval is wanted.\<close>

definition context_ready ::
  "json_parse \<Rightarrow> string \<Rightarrow> nat \<Rightarrow> int \<Rightarrow> int \<Rightarrow> string \<Rightarrow> string + (string \<times> bool) \<Rightarrow> executor \<Rightarrow> executor" where
  "context_ready jp now a taskId keyId provider ctx s =
     (case ctx of
        Inl msg \<Rightarrow> finish_act jp a taskId (syncPlan taskId (set_row taskId (fail_row now msg) s))
      | Inr (model, requiresApproval) \<Rightarrow>
          let s1 = (if keyId \<noteq> 0 then set_row taskId (\<lambda>r. r\<lparr>tr_assigned := Some keyId\<rparr>) s else s)
          in set_phase a (Running keyId provider model requiresApproval)
               (s1\<lparr>x_sessions := List.insert taskId (x_sessions s1)\<rparr>))"

subsection \<open>Timers\<close>

definition MIN_DELAY_MS :: int where "MIN_DELAY_MS = 50"

definition MAX_TIMER_MS :: int where "MAX_TIMER_MS = 24 * 24 * 60 * 60 * 1000"

text \<open>The time a timer goes off; \<open>fire\<close> then calls the handler.\<close>

definition fire_time :: "int \<Rightarrow> int \<Rightarrow> int" where
  "fire_time nowMs resumeAtMs =
     (let delay = max MIN_DELAY_MS (resumeAtMs - nowMs)
      in nowMs + (if delay > MAX_TIMER_MS then MAX_TIMER_MS else delay))"

definition schedule :: "int \<Rightarrow> int \<Rightarrow> int \<Rightarrow> executor \<Rightarrow> executor" where
  "schedule nowMs taskId resumeAtMs s =
     s\<lparr>x_timers := AList.delete taskId (x_timers s) @ [(taskId, fire_time nowMs resumeAtMs)]\<rparr>"

definition cancel_timer :: "int \<Rightarrow> executor \<Rightarrow> executor" where
  "cancel_timer taskId s = s\<lparr>x_timers := AList.delete taskId (x_timers s)\<rparr>"

definition recoverFromDatabase :: "int \<Rightarrow> executor \<Rightarrow> executor" where
  "recoverFromDatabase nowMs s =
     fold (\<lambda>(i, r) s. case tr_resumeAt r of Some ms \<Rightarrow> schedule nowMs i ms s | None \<Rightarrow> s)
       (filter (\<lambda>(_, r). tr_status r = RATE_LIMITED \<and> tr_resumeAt r \<noteq> None) (x_tasks s)) s"

subsection \<open>Ending\<close>

fun classifyRunError :: "string \<Rightarrow> task_status" where
  "classifyRunError name =
     (if name = ''TimeoutError'' then TIMED_OUT else if name = ''AbortError'' then CANCELLED else FAILED)"

definition finalizeSuccess :: "string \<Rightarrow> int \<Rightarrow> bool \<Rightarrow> executor \<Rightarrow> executor" where
  "finalizeSuccess now taskId requiresApproval s =
     (if (case row_of s taskId of Some r \<Rightarrow> tr_status r = CANCELLED | None \<Rightarrow> False) then s
      else syncPlan taskId (set_row taskId (\<lambda>r. r\<lparr>
             tr_status := (if requiresApproval then PENDING_APPROVAL else DONE),
             tr_exitCode := (if requiresApproval then tr_exitCode r else Some 0),
             tr_completed := Some now\<rparr>) s))"

definition finalizeError :: "string \<Rightarrow> int \<Rightarrow> task_status \<Rightarrow> string \<Rightarrow> executor \<Rightarrow> executor" where
  "finalizeError now taskId status errorMessage s =
     syncPlan taskId
       (if (case row_of s taskId of Some r \<Rightarrow> tr_status r = CANCELLED | None \<Rightarrow> False) then s
        else set_row taskId (\<lambda>r. r\<lparr>tr_status := status, tr_exitCode := Some 1,
               tr_error := Some errorMessage, tr_completed := Some now\<rparr>) s)"

definition retry_allowed :: "task_row \<Rightarrow> bool" where
  "retry_allowed r \<longleftrightarrow> (case truthy_int (tr_maxRetries r) of None \<Rightarrow> False
     | Some m \<Rightarrow> (case tr_retryCount r of None \<Rightarrow> False | Some n \<Rightarrow> n < m))"

definition retry_row :: "int \<Rightarrow> task_row \<Rightarrow> task_row" where
  "retry_row failedTaskId r =
     (let n = (case tr_retryCount r of None \<Rightarrow> 0 | Some n \<Rightarrow> n) + 1 in
      \<lparr>tr_status = QUEUED, tr_project = tr_project r, tr_assigned = None, tr_failed = None,
       tr_allowed = None, tr_maxRetries = tr_maxRetries r, tr_retryCount = Some n,
       tr_parent = Some failedTaskId,
       tr_label = Some (''retry-'' @ str_of_int failedTaskId @ ''-'' @ str_of_int n),
       tr_error = None, tr_exitCode = None, tr_resumeAt = None, tr_started = None, tr_completed = None,
       tr_approval = None\<rparr>)"

definition scheduleRetry :: "int \<Rightarrow> executor \<Rightarrow> int option \<times> executor" where
  "scheduleRetry failedTaskId s =
     (case row_of s failedTaskId of
        None \<Rightarrow> (None, s)
      | Some r \<Rightarrow>
          if \<not> retry_allowed r then (None, s)
          else let n = x_nextId s
               in (Some n, s\<lparr>x_tasks := x_tasks s @ [(n, retry_row failedTaskId r)], x_nextId := n + 1,
                             x_repointed := x_repointed s @ [(failedTaskId, n)]\<rparr>))"

definition parkRateLimited :: "int \<Rightarrow> int \<Rightarrow> int \<Rightarrow> string \<Rightarrow> executor \<Rightarrow> executor" where
  "parkRateLimited nowMs taskId resumeAtMs errorMessage s =
     syncPlan taskId (schedule nowMs taskId resumeAtMs
       (set_row taskId (\<lambda>r. r\<lparr>tr_status := RATE_LIMITED, tr_resumeAt := Some resumeAtMs,
          tr_error := Some errorMessage\<rparr>) s))"

definition resumeFromRateLimit :: "json_parse \<Rightarrow> int \<Rightarrow> executor \<Rightarrow> executor" where
  "resumeFromRateLimit jp taskId s =
     (case row_of s taskId of
        None \<Rightarrow> s
      | Some r \<Rightarrow>
          if tr_status r \<noteq> RATE_LIMITED then s
          else execute jp taskId (set_row taskId (\<lambda>r. r\<lparr>tr_status := QUEUED, tr_resumeAt := None,
                 tr_error := None\<rparr>) s))"

text \<open>The body of the \<open>catch\<close> clause of \<open>_run\<close>.\<close>

definition run_failed :: "int \<Rightarrow> string \<Rightarrow> int \<Rightarrow> run_error \<Rightarrow> executor \<Rightarrow> executor" where
  "run_failed nowMs now taskId err s =
     (if er_shutdown err \<or> (x_shuttingDown s \<and> er_name err = ''AbortError'') then s
      else case er_limit err of
             Some (resumeAt, raw) \<Rightarrow> parkRateLimited nowMs taskId resumeAt raw s
           | None \<Rightarrow>
               let status = classifyRunError (er_name err);
                   s1 = finalizeError now taskId status (er_message err) s
               in if status = FAILED
                  then (case scheduleRetry taskId s1 of
                          (Some n, s2) \<Rightarrow> s2\<lparr>x_retries := x_retries s2 @ [n]\<rparr>
                        | (None, s2) \<Rightarrow> s2)
                  else s1)"

text \<open>\<open>_run\<close> charges the usage to the project of the row that it has read; no event changes the project of a task,
  so it is the one of the row that \<open>execute\<close> has read.\<close>

definition run_ends ::
  "json_parse \<Rightarrow> int \<Rightarrow> string \<Rightarrow> nat \<Rightarrow> activation \<Rightarrow> string \<Rightarrow> string \<Rightarrow> bool \<Rightarrow> run_error + metrics \<Rightarrow> executor \<Rightarrow> executor" where
  "run_ends jp nowMs now a v provider model requiresApproval outcome s =
     (let t = a_task v;
          s1 = (case outcome of
                  Inr m \<Rightarrow> finalizeSuccess now t requiresApproval
                    (s\<lparr>x_budget := saveUsage now t (tk_project (a_keys v)) (Some provider) model m (x_budget s)\<rparr>)
                | Inl err \<Rightarrow> run_failed nowMs now t err s)
      in finish_act jp a t (s1\<lparr>x_sessions := remove1 t (x_sessions s1)\<rparr>))"

subsection \<open>Calls from outside\<close>

definition cancel :: "int \<Rightarrow> executor \<Rightarrow> bool \<times> executor" where
  "cancel taskId s =
     (taskId \<in> set (x_sessions s), cancel_timer taskId (s\<lparr>x_queue := remove1 taskId (x_queue s)\<rparr>))"

text \<open>The route \<open>POST /tasks/:id/cancel\<close>: \<open>None\<close> is a validation error.\<close>

definition cancel_route :: "string \<Rightarrow> int \<Rightarrow> executor \<Rightarrow> executor option" where
  "cancel_route now taskId s =
     (case row_of s taskId of
        None \<Rightarrow> None
      | Some r \<Rightarrow>
          if \<not> validateTaskTransition (task_status_str (tr_status r)) ''cancelled'' then None
          else Some (set_row taskId (\<lambda>r. r\<lparr>tr_status := CANCELLED, tr_resumeAt := None,
                       tr_completed := Some now\<rparr>) (snd (cancel taskId s))))"

text \<open>Approving and rejecting; \<open>tr_approval\<close> are the columns \<open>approvalStatus\<close> and \<open>approvalNote\<close>.  A
  rejection checks the status, waits for \<open>git checkout\<close> to roll the working directory back, and updates the row
  without another look at it: \<open>reject_route\<close> is the part before the wait, \<open>x_rejecting\<close> are the rejections that
  wait, and \<open>reject_update\<close> is the part after it.  For a task that has nothing to roll back the two follow each
  other.  What \<open>git\<close> does to the directory is left out.\<close>

definition approve_route :: "string option \<Rightarrow> int \<Rightarrow> executor \<Rightarrow> executor option" where
  "approve_route note taskId s =
     (case row_of s taskId of
        None \<Rightarrow> None
      | Some r \<Rightarrow>
          if \<not> validateTaskTransition (task_status_str (tr_status r)) ''done'' then None
          else Some (set_row taskId (\<lambda>r. r\<lparr>tr_status := DONE, tr_exitCode := Some 0,
                       tr_approval := Some (''approved'', note)\<rparr>) s))"

definition reject_route :: "string option \<Rightarrow> int \<Rightarrow> executor \<Rightarrow> executor option" where
  "reject_route note taskId s =
     (case row_of s taskId of
        None \<Rightarrow> None
      | Some r \<Rightarrow>
          if \<not> validateTaskTransition (task_status_str (tr_status r)) ''cancelled'' then None
          else Some (s\<lparr>x_rejecting := x_rejecting s @ [(taskId, note)]\<rparr>))"

definition reject_update :: "string option \<Rightarrow> int \<Rightarrow> executor \<Rightarrow> executor" where
  "reject_update note taskId s =
     set_row taskId (\<lambda>r. r\<lparr>tr_status := CANCELLED, tr_approval := Some (''rejected'', note),
         tr_error := Some (''Rejected: '' @ (case note of Some n \<Rightarrow> n | None \<Rightarrow> ''no reason''))\<rparr>)
       (s\<lparr>x_rejecting := remove1 (taskId, note) (x_rejecting s)\<rparr>)"

definition rerun_row :: "int \<Rightarrow> task_row \<Rightarrow> task_row" where
  "rerun_row i r =
     \<lparr>tr_status = QUEUED, tr_project = tr_project r, tr_assigned = None, tr_failed = None, tr_allowed = None,
      tr_maxRetries = tr_maxRetries r, tr_retryCount = Some 0, tr_parent = Some i,
      tr_label = Some (''rerun-'' @ (case truthy_str (tr_label r) of Some l \<Rightarrow> l | None \<Rightarrow> str_of_int i)),
      tr_error = None, tr_exitCode = None, tr_resumeAt = None, tr_started = None, tr_completed = None,
      tr_approval = None\<rparr>"

definition rerun_route :: "json_parse \<Rightarrow> int \<Rightarrow> executor \<Rightarrow> executor option" where
  "rerun_route jp taskId s =
     (case row_of s taskId of
        None \<Rightarrow> None
      | Some r \<Rightarrow>
          let n = x_nextId s
          in Some (execute jp n (s\<lparr>x_tasks := x_tasks s @ [(n, rerun_row taskId r)], x_nextId := n + 1,
                                   x_repointed := x_repointed s @ [(taskId, n)]\<rparr>)))"

definition handleQuestionEmitted :: "int \<Rightarrow> string \<Rightarrow> executor \<Rightarrow> executor" where
  "handleQuestionEmitted taskId requestId s =
     (let s1 = (if jm_has (x_questions s) requestId then s
                else s\<lparr>x_questions := x_questions s
                    @ [(requestId, \<lparr>q_task = taskId, q_pending = True, q_answer = None\<rparr>)]\<rparr>)
      in case row_of s1 taskId of
           None \<Rightarrow> s1
         | Some r \<Rightarrow>
             if validateTaskTransition (task_status_str (tr_status r)) ''waiting_for_input''
             then set_row taskId (\<lambda>r. r\<lparr>tr_status := WAITING_FOR_INPUT\<rparr>) s1 else s1)"

definition answer_row :: "string \<Rightarrow> string \<Rightarrow> executor \<Rightarrow> executor" where
  "answer_row requestId answer s =
     s\<lparr>x_questions := map (\<lambda>(i, q). if i = requestId then (i, q\<lparr>q_pending := False, q_answer := Some answer\<rparr>)
                                     else (i, q)) (x_questions s)\<rparr>"

definition findPendingQuestionRow :: "int \<Rightarrow> string \<Rightarrow> executor \<Rightarrow> question_row option" where
  "findPendingQuestionRow taskId requestId s =
     (case map_of (x_questions s) requestId of
        None \<Rightarrow> None
      | Some q \<Rightarrow> if q_task q = taskId \<and> q_pending q then Some q else None)"

definition resolveQuestionHot :: "int \<Rightarrow> string \<Rightarrow> string \<Rightarrow> executor \<Rightarrow> executor" where
  "resolveQuestionHot taskId requestId answer s =
     (let s1 = answer_row requestId answer s
      in case row_of s1 taskId of
           None \<Rightarrow> s1
         | Some r \<Rightarrow>
             if validateTaskTransition (task_status_str (tr_status r)) ''running''
             then set_row taskId (\<lambda>r. r\<lparr>tr_status := RUNNING\<rparr>) s1 else s1)"

definition resolveQuestionCold :: "int \<Rightarrow> string \<Rightarrow> string \<Rightarrow> executor \<Rightarrow> bool \<times> executor" where
  "resolveQuestionCold taskId requestId answer s =
     (case row_of s taskId of
        None \<Rightarrow> (False, s)
      | Some r \<Rightarrow>
          if tr_status r \<noteq> WAITING_FOR_INPUT then (False, s)
          else (True, set_row taskId (\<lambda>r. r\<lparr>tr_status := QUEUED\<rparr>) (answer_row requestId answer s)))"

text \<open>\<open>accepted\<close> is what the live session answers to \<open>resolveQuestion\<close>.\<close>

definition answerQuestion :: "json_parse \<Rightarrow> bool \<Rightarrow> int \<Rightarrow> string \<Rightarrow> string \<Rightarrow> executor \<Rightarrow> bool \<times> executor" where
  "answerQuestion jp accepted taskId requestId answer s =
     (case findPendingQuestionRow taskId requestId s of
        None \<Rightarrow> (False, s)
      | Some q \<Rightarrow>
          if taskId \<in> set (x_sessions s)
          then (if \<not> accepted then (False, s) else (True, resolveQuestionHot taskId requestId answer s))
          else (case resolveQuestionCold taskId requestId answer s of
                  (False, s1) \<Rightarrow> (False, s1)
                | (True, s1) \<Rightarrow> (True, execute jp taskId s1)))"

definition cancelAll :: "executor \<Rightarrow> executor" where
  "cancelAll s = s\<lparr>x_shuttingDown := True, x_queue := [], x_timers := []\<rparr>"

definition resetStaleTasks :: "executor \<Rightarrow> int list \<times> executor" where
  "resetStaleTasks s =
     (let stale = filter (\<lambda>(i, r). tr_status r \<in> {RUNNING, QUEUED} \<and> i \<notin> set (x_sessions s)) (x_tasks s);
          runningResetIds = map fst (filter (\<lambda>(_, r). tr_status r = RUNNING) stale)
      in (map fst stale,
          s\<lparr>x_tasks := map (\<lambda>(i, r). if i \<in> set runningResetIds
               then (i, r\<lparr>tr_status := QUEUED, tr_exitCode := None, tr_error := None, tr_started := None,
                          tr_completed := None\<rparr>)
               else (i, r)) (x_tasks s)\<rparr>))"

subsection \<open>Schedules\<close>

datatype exec_event =
  EvExecute int | EvSelected nat | EvReserved nat utc string
  | EvContext nat string "string + (string \<times> bool)" | EvRunEnds nat int string "run_error + metrics"
  | EvCancel int string | EvWake int | EvRetry int | EvQuestion int string
  | EvAnswer bool int string string | EvKeys key_db
  | EvApprove "string option" int | EvReject "string option" int
  | EvRolledBack "string option" int | EvRerun int

definition with_act :: "nat \<Rightarrow> (activation \<Rightarrow> executor \<Rightarrow> executor) \<Rightarrow> executor \<Rightarrow> executor" where
  "with_act a f s = (case map_of (x_acts s) a of None \<Rightarrow> s | Some v \<Rightarrow> f v s)"

fun exec_step :: "json_parse \<Rightarrow> exec_event \<Rightarrow> executor \<Rightarrow> executor" where
  "exec_step jp (EvExecute t) s = execute jp t s"
| "exec_step jp (EvSelected a) s = with_act a (\<lambda>v s. case a_phase v of
      Selecting saturated sel \<Rightarrow> settle_selection jp a v saturated sel s | _ \<Rightarrow> s) s"
| "exec_step jp (EvReserved a today now) s = with_act a (\<lambda>v s. case a_phase v of
      Decided r \<Rightarrow> after_reservation jp today now a (a_task v) r s | _ \<Rightarrow> s) s"
| "exec_step jp (EvContext a now ctx) s = with_act a (\<lambda>v s. case a_phase v of
      Preparing keyId provider \<Rightarrow> context_ready jp now a (a_task v) keyId provider ctx s | _ \<Rightarrow> s) s"
| "exec_step jp (EvRunEnds a nowMs now outcome) s = with_act a (\<lambda>v s. case a_phase v of
      Running keyId provider model requiresApproval \<Rightarrow>
        run_ends jp nowMs now a v provider model requiresApproval outcome s
    | _ \<Rightarrow> s) s"
| "exec_step jp (EvCancel t now) s = (case cancel_route now t s of None \<Rightarrow> s | Some s' \<Rightarrow> s')"
| "exec_step jp (EvWake t) s =
     (if t \<in> fst ` set (x_timers s) then resumeFromRateLimit jp t (cancel_timer t s) else s)"
| "exec_step jp (EvRetry t) s =
     (if t \<in> set (x_retries s) then execute jp t (s\<lparr>x_retries := remove1 t (x_retries s)\<rparr>) else s)"
| "exec_step jp (EvQuestion t i) s = handleQuestionEmitted t i s"
| "exec_step jp (EvAnswer ok t i ans) s = snd (answerQuestion jp ok t i ans s)"
| "exec_step jp (EvKeys db) s = s\<lparr>x_keys := db\<rparr>"
| "exec_step jp (EvApprove note t) s = (case approve_route note t s of None \<Rightarrow> s | Some s' \<Rightarrow> s')"
| "exec_step jp (EvReject note t) s = (case reject_route note t s of None \<Rightarrow> s | Some s' \<Rightarrow> s')"
| "exec_step jp (EvRolledBack note t) s =
     (if (t, note) \<in> set (x_rejecting s) then reject_update note t s else s)"
| "exec_step jp (EvRerun t) s = (case rerun_route jp t s of None \<Rightarrow> s | Some s' \<Rightarrow> s')"

definition exec_run :: "json_parse \<Rightarrow> exec_event list \<Rightarrow> executor \<Rightarrow> executor" where
  "exec_run jp evs s = fold (exec_step jp) evs s"

end
