(* ===== verification/TaskRunProps.thy ===== *)
theory TaskRunProps
  imports TaskRun
begin

text \<open>
  What holds of every schedule of the task executor: the slots of a key are the runs that hold it, a
  cancelled task stays cancelled but for three named events, retries are bounded, and what goes wrong
  when a task is executed twice, is cancelled between its reservation and its start, or finds its
  key full at the wrong moment.
\<close>

subsection \<open>What an operation leaves alone\<close>

named_theorems exec_frame \<open>fields an operation of the executor does not touch\<close>

lemma frame_rows [exec_frame]:
  "x_acts (set_row t f s) = x_acts s" "x_pool (set_row t f s) = x_pool s"
  "x_nextAct (set_row t f s) = x_nextAct s" "x_budget (set_row t f s) = x_budget s"
  "x_queue (set_row t f s) = x_queue s" "x_retries (set_row t f s) = x_retries s"
  "x_acts (syncPlan t s) = x_acts s" "x_pool (syncPlan t s) = x_pool s"
  "x_nextAct (syncPlan t s) = x_nextAct s" "x_budget (syncPlan t s) = x_budget s"
  "x_tasks (syncPlan t s) = x_tasks s" "x_queue (syncPlan t s) = x_queue s"
  by (simp_all add: set_row_def syncPlan_def)

lemma frame_execute [exec_frame]:
  "x_pool (execute jp t s) = x_pool s" "x_budget (execute jp t s) = x_budget s"
  "x_tasks (execute jp t s) = x_tasks s"
  by (simp_all add: execute_def split: option.split)

lemma frame_fold_execute:
  "x_pool (fold (execute jp) ts s) = x_pool s \<and> x_budget (fold (execute jp) ts s) = x_budget s
   \<and> x_tasks (fold (execute jp) ts s) = x_tasks s"
  by (induction ts arbitrary: s) (simp_all add: exec_frame)

lemma frame_queue [exec_frame]:
  "x_pool (processQueue jp s) = x_pool s" "x_budget (processQueue jp s) = x_budget s"
  "x_tasks (processQueue jp s) = x_tasks s"
  by (simp_all add: processQueue_def frame_fold_execute)

lemma frame_acts [exec_frame]:
  "x_pool (set_phase a ph s) = x_pool s" "x_budget (set_phase a ph s) = x_budget s"
  "x_tasks (set_phase a ph s) = x_tasks s" "x_nextAct (set_phase a ph s) = x_nextAct s"
  "x_budget (drop_act a s) = x_budget s" "x_tasks (drop_act a s) = x_tasks s"
  "x_pool (drop_act a s) = x_pool s" "x_nextAct (drop_act a s) = x_nextAct s"
  "x_budget (finish_act jp a t s) = x_budget s" "x_tasks (finish_act jp a t s) = x_tasks s"
  by (simp_all add: set_phase_def drop_act_def finish_act_def exec_frame)

lemma frame_timers [exec_frame]:
  "x_acts (schedule n t r s) = x_acts s" "x_pool (schedule n t r s) = x_pool s"
  "x_nextAct (schedule n t r s) = x_nextAct s" "x_budget (schedule n t r s) = x_budget s"
  "x_tasks (schedule n t r s) = x_tasks s"
  "x_acts (cancel_timer t s) = x_acts s" "x_pool (cancel_timer t s) = x_pool s"
  "x_nextAct (cancel_timer t s) = x_nextAct s" "x_budget (cancel_timer t s) = x_budget s"
  "x_tasks (cancel_timer t s) = x_tasks s"
  "x_acts (enqueue t s) = x_acts s" "x_pool (enqueue t s) = x_pool s"
  "x_nextAct (enqueue t s) = x_nextAct s" "x_budget (enqueue t s) = x_budget s" "x_tasks (enqueue t s) = x_tasks s"
  by (simp_all add: schedule_def cancel_timer_def enqueue_def)

lemma frame_final [exec_frame]:
  "x_acts (finalizeSuccess now t ra s) = x_acts s" "x_pool (finalizeSuccess now t ra s) = x_pool s"
  "x_nextAct (finalizeSuccess now t ra s) = x_nextAct s" "x_budget (finalizeSuccess now t ra s) = x_budget s"
  "x_acts (finalizeError now t st m s) = x_acts s" "x_pool (finalizeError now t st m s) = x_pool s"
  "x_nextAct (finalizeError now t st m s) = x_nextAct s" "x_budget (finalizeError now t st m s) = x_budget s"
  "x_acts (parkRateLimited n t r m s) = x_acts s" "x_pool (parkRateLimited n t r m s) = x_pool s"
  "x_nextAct (parkRateLimited n t r m s) = x_nextAct s" "x_budget (parkRateLimited n t r m s) = x_budget s"
  by (simp_all add: finalizeSuccess_def finalizeError_def parkRateLimited_def exec_frame)

lemma frame_retry:
  "x_acts (snd (scheduleRetry t s)) = x_acts s \<and> x_pool (snd (scheduleRetry t s)) = x_pool s
   \<and> x_nextAct (snd (scheduleRetry t s)) = x_nextAct s \<and> x_budget (snd (scheduleRetry t s)) = x_budget s"
  by (simp add: scheduleRetry_def Let_def split: option.split)

lemma run_failed_eq:
  "run_failed nowMs now t err s =
     (if er_shutdown err \<or> (x_shuttingDown s \<and> er_name err = ''AbortError'') then s
      else case er_limit err of
             Some (resumeAt, raw) \<Rightarrow> parkRateLimited nowMs t resumeAt raw s
           | None \<Rightarrow>
               let s1 = finalizeError now t (classifyRunError (er_name err)) (er_message err) s
               in if classifyRunError (er_name err) = FAILED
                  then let r = scheduleRetry t s1 in
                       (case fst r of Some n \<Rightarrow> (snd r)\<lparr>x_retries := x_retries (snd r) @ [n]\<rparr> | None \<Rightarrow> snd r)
                  else s1)"
  by (simp add: run_failed_def Let_def split: option.split prod.split)

lemma frame_failed [exec_frame]:
  "x_acts (run_failed nowMs now t err s) = x_acts s" "x_pool (run_failed nowMs now t err s) = x_pool s"
  "x_nextAct (run_failed nowMs now t err s) = x_nextAct s" "x_budget (run_failed nowMs now t err s) = x_budget s"
  by (simp_all add: run_failed_eq Let_def exec_frame frame_retry split: option.split)

text \<open>Only a run that ends well is charged: when the session throws, whatever it has used by then, the
  usage table, and with it every budget, stays as it was.\<close>

theorem failed_runs_are_not_charged:
  "x_budget (exec_step jp (EvRunEnds a nowMs now (Inl err)) s) = x_budget s"
  by (simp add: with_act_def run_ends_def Let_def exec_frame split: option.split phase.split)

subsection \<open>Slots\<close>

fun holds :: "phase \<Rightarrow> int option" where
  "holds (Decided (ReservedKey k)) = Some (k_id k)"
| "holds (Preparing k _) = Some k"
| "holds (Running k _ _ _) = Some k"
| "holds _ = None"

definition holders :: "(nat \<times> activation) list \<Rightarrow> int \<Rightarrow> int" where
  "holders acts k = int (length (filter (\<lambda>(_, v). holds (a_phase v) = Some k) acts))"

definition reserved_by :: "(nat \<times> activation) list \<Rightarrow> int \<Rightarrow> int \<Rightarrow> bool" where
  "reserved_by acts t k \<longleftrightarrow> (\<exists>(_, v) \<in> set acts. a_task v = t \<and> holds (a_phase v) = Some k)"

definition slots_ok :: "executor \<Rightarrow> bool" where
  "slots_ok s \<longleftrightarrow> jm_ok (x_acts s) \<and> (\<forall>a \<in> fst ` set (x_acts s). a < x_nextAct s)
     \<and> (\<forall>k. used_slots (x_pool s) k = holders (x_acts s) k)
     \<and> (\<forall>k. holders (x_acts s) k \<le> max 0 (kp_max (x_pool s)))
     \<and> (\<forall>t k. map_of (kp_reserved (x_pool s)) t = Some k \<longleftrightarrow> reserved_by (x_acts s) t k)"

text \<open>No task has two activations.\<close>

definition single :: "executor \<Rightarrow> bool" where
  "single s \<longleftrightarrow> distinct (map (\<lambda>(_, v). a_task v) (x_acts s))"

lemma slots_cong:
  "x_acts s' = x_acts s \<Longrightarrow> x_pool s' = x_pool s \<Longrightarrow> x_nextAct s' = x_nextAct s \<Longrightarrow> slots_ok s' = slots_ok s"
  by (simp add: slots_ok_def)

lemma holders_append [simp]: "holders (xs @ ys) k = holders xs k + holders ys k"
  by (simp add: holders_def)

lemma holders_Cons [simp]:
  "holders ((a, v) # ys) k = (if holds (a_phase v) = Some k then 1 else 0) + holders ys k"
  by (simp add: holders_def)

lemma holders_Nil [simp]: "holders [] k = 0"
  by (simp add: holders_def)

lemma holders_nonneg: "0 \<le> holders xs k"
  by (simp add: holders_def)

lemma reserved_Nil [simp]: "\<not> reserved_by [] t k"
  by (simp add: reserved_by_def)

lemma reserved_append [simp]: "reserved_by (xs @ ys) t k \<longleftrightarrow> reserved_by xs t k \<or> reserved_by ys t k"
  by (auto simp: reserved_by_def)

lemma reserved_Cons [simp]:
  "reserved_by ((a, v) # ys) t k \<longleftrightarrow> a_task v = t \<and> holds (a_phase v) = Some k \<or> reserved_by ys t k"
  by (auto simp: reserved_by_def)

lemma execute_slots: "slots_ok s \<Longrightarrow> slots_ok (execute jp t s)"
  by (cases "row_of s t") (auto simp: execute_def slots_ok_def select_phase_def less_Suc_eq)

lemma processQueue_slots: "slots_ok s \<Longrightarrow> slots_ok (processQueue jp s)"
proof -
  have "slots_ok s' \<Longrightarrow> slots_ok (fold (execute jp) ts s')" for ts s'
    by (induction ts arbitrary: s') (simp_all add: execute_slots)
  moreover assume "slots_ok s"
  then have "slots_ok (s\<lparr>x_queue := []\<rparr>)" by (simp add: slots_ok_def)
  ultimately show ?thesis by (simp add: processQueue_def)
qed

text \<open>The activation an event is about, taken out of the list.\<close>

lemma act_split:
  assumes "jm_ok acts" and "map_of acts a = Some v"
  obtains xs ys where "acts = xs @ (a, v) # ys" "a \<notin> fst ` set xs" "a \<notin> fst ` set ys"
proof -
  obtain xs ys where e: "acts = xs @ (a, v) # ys" using map_of_SomeD [OF assms(2)] by (auto simp: in_set_conv_decomp)
  with assms(1) show ?thesis using that by auto
qed

lemma map_other: "a \<notin> fst ` set xs \<Longrightarrow> map (\<lambda>(i, v). if i = a then (i, f v) else (i, v)) xs = xs"
  by (induction xs) auto

lemma set_phase_split:
  assumes "x_acts s = xs @ (a, v) # ys" "a \<notin> fst ` set xs" "a \<notin> fst ` set ys"
  shows "x_acts (set_phase a ph s) = xs @ (a, v\<lparr>a_phase := ph\<rparr>) # ys"
  using assms by (simp add: set_phase_def map_other)

lemma drop_act_split:
  assumes "x_acts s = xs @ (a, v) # ys" "a \<notin> fst ` set xs" "a \<notin> fst ` set ys"
  shows "x_acts (drop_act a s) = xs @ ys"
proof -
  have "filter (\<lambda>p. fst p \<noteq> a) zs = zs" if "a \<notin> fst ` set zs" for zs :: "(nat \<times> activation) list"
    using that by (intro filter_True) auto
  with assms show ?thesis by (simp add: drop_act_def jm_delete_filter)
qed

lemma set_phase_slots:
  assumes ok: "slots_ok s" and a: "map_of (x_acts s) a = Some v" and h: "holds ph = holds (a_phase v)"
  shows "slots_ok (set_phase a ph s)"
proof -
  obtain xs ys where e: "x_acts s = xs @ (a, v) # ys" "a \<notin> fst ` set xs" "a \<notin> fst ` set ys"
    using act_split [OF _ a] ok by (auto simp: slots_ok_def)
  show ?thesis using ok set_phase_split [OF e, of ph] h unfolding slots_ok_def by (simp add: e(1) exec_frame)
qed

lemma drop_act_slots:
  assumes ok: "slots_ok s" and a: "map_of (x_acts s) a = Some v" and h: "holds (a_phase v) = None"
  shows "slots_ok (drop_act a s)"
proof -
  obtain xs ys where e: "x_acts s = xs @ (a, v) # ys" "a \<notin> fst ` set xs" "a \<notin> fst ` set ys"
    using act_split [OF _ a] ok by (auto simp: slots_ok_def)
  show ?thesis using ok drop_act_split [OF e] h unfolding slots_ok_def by (auto simp: e(1) exec_frame)
qed

lemma used_reserve: "used_slots (reserve t k p) k' = used_slots p k' + (if k' = k then 1 else 0)"
  by (simp add: used_slots_def reserve_def jsmap_simps update_conv')

lemma used_release:
  "map_of (kp_reserved p) t = Some k \<Longrightarrow> 1 \<le> used_slots p k
    \<Longrightarrow> used_slots (release t p) k' = used_slots p k' - (if k' = k then 1 else 0)"
  by (auto simp: used_slots_def release_def jsmap_simps update_conv' delete_conv' Let_def split: option.splits)

lemma pool_rest [simp]:
  "kp_max (reserve t k p) = kp_max p" "kp_max (release t p) = kp_max p"
  "kp_reserved (reserve t k p) = AList.update t k (kp_reserved p)"
  "kp_reserved (release t p) = AList.delete t (kp_reserved p)"
  by (simp_all add: reserve_def release_def Let_def delete_id map_of_eq_None_iff split: option.split)

lemma alone:
  assumes "single s" "x_acts s = xs @ (a, v) # ys"
  shows "\<not> reserved_by xs (a_task v) k" "\<not> reserved_by ys (a_task v) k"
proof -
  have no: "\<not> reserved_by zs t k" if "t \<notin> (\<lambda>p. a_task (snd p)) ` set zs" for zs t k
    using that by (force simp: reserved_by_def)
  show "\<not> reserved_by xs (a_task v) k" "\<not> reserved_by ys (a_task v) k"
    using assms by (auto simp: single_def case_prod_unfold intro!: no)
qed

lemma reserve_slots:
  assumes ok: "slots_ok s" and one: "single s" and a: "map_of (x_acts s) a = Some v"
    and h: "holds (a_phase v) = None" and room: "used_slots (x_pool s) (k_id k) < kp_max (x_pool s)"
  shows "slots_ok (set_phase a (Decided (ReservedKey k)) (s\<lparr>x_pool := reserve (a_task v) (k_id k) (x_pool s)\<rparr>))"
proof -
  obtain xs ys where e: "x_acts s = xs @ (a, v) # ys" "a \<notin> fst ` set xs" "a \<notin> fst ` set ys"
    using act_split [OF _ a] ok by (auto simp: slots_ok_def)
  let ?s = "s\<lparr>x_pool := reserve (a_task v) (k_id k) (x_pool s)\<rparr>"
  have acts: "x_acts (set_phase a (Decided (ReservedKey k)) ?s) = xs @ (a, v\<lparr>a_phase := Decided (ReservedKey k)\<rparr>) # ys"
    by (rule set_phase_split) (use e in simp_all)
  have used: "used_slots (x_pool s) k' = holders xs k' + holders ys k'" for k'
    using ok h by (simp add: slots_ok_def e(1))
  have bound: "holders xs k' + holders ys k' \<le> max 0 (kp_max (x_pool s))" for k'
    using ok h by (simp add: slots_ok_def e(1))
  show ?thesis using ok h room alone [OF one e(1)] bound unfolding slots_ok_def acts exec_frame
    by (auto simp: e(1) used used_reserve update_conv')
qed

lemma finish_slots:
  assumes ok: "slots_ok s" and one: "single s" and a: "map_of (x_acts s) a = Some v"
    and h: "holds (a_phase v) = Some k"
  shows "slots_ok (finish_act jp a (a_task v) s)"
proof -
  obtain xs ys where e: "x_acts s = xs @ (a, v) # ys" "a \<notin> fst ` set xs" "a \<notin> fst ` set ys"
    using act_split [OF _ a] ok by (auto simp: slots_ok_def)
  let ?s = "s\<lparr>x_pool := release (a_task v) (x_pool s)\<rparr>"
  have acts: "x_acts (drop_act a ?s) = xs @ ys" by (rule drop_act_split) (use e in simp_all)
  have r: "map_of (kp_reserved (x_pool s)) (a_task v) = Some k" using ok h by (simp add: slots_ok_def e(1))
  have used: "used_slots (x_pool s) k' = holders xs k' + holders ys k' + (if k' = k then 1 else 0)" for k'
    using ok h by (simp add: slots_ok_def e(1))
  have u: "1 \<le> used_slots (x_pool s) k"
    using used [of k] holders_nonneg [of xs k] holders_nonneg [of ys k] by simp
  have "holders (x_acts s) k' \<le> max 0 (kp_max (x_pool s))" for k' using ok by (simp add: slots_ok_def)
  then have bound: "holders xs k' + holders ys k' \<le> max 0 (kp_max (x_pool s))" for k'
    using h by (simp add: e(1)) (smt (verit))
  have "slots_ok (drop_act a ?s)"
    using ok h alone [OF one e(1)] bound unfolding slots_ok_def acts exec_frame
    by (auto simp: e(1) used used_release [OF r u] delete_conv')
  then show ?thesis unfolding finish_act_def by (rule processQueue_slots)
qed

lemma settle_slots:
  assumes ok: "slots_ok s" and one: "single s" and a: "map_of (x_acts s) a = Some v"
    and h: "holds (a_phase v) = None"
  shows "slots_ok (settle_selection jp a v saturated sel s)"
  using set_phase_slots [OF ok a] reserve_slots [OF ok one a h] h
  by (auto simp: settle_selection_def select_phase_def split: option.split)

lemma run_begin_slots:
  assumes "slots_ok s" "single s" "map_of (x_acts s) a = Some v" "a_phase v = Decided (ReservedKey k)"
  shows "slots_ok (run_begin jp today now a (a_task v) k s)"
proof -
  have ok: "slots_ok s' \<and> single s' \<and> map_of (x_acts s') a = Some v"
    if "x_acts s' = x_acts s" "x_pool s' = x_pool s" "x_nextAct s' = x_nextAct s" for s'
    using assms(1,2,3) that slots_cong [of s' s] by (simp add: single_def)
  show ?thesis
    using ok assms(4)
    by (auto simp: run_begin_def Let_def exec_frame intro!: finish_slots [where k = "k_id k"] set_phase_slots
        split: option.split)
qed

lemma after_reservation_slots:
  assumes "slots_ok s" "single s" "map_of (x_acts s) a = Some v" "a_phase v = Decided r"
  shows "slots_ok (after_reservation jp today now a (a_task v) r s)"
proof -
  have ok: "slots_ok s' \<and> map_of (x_acts s') a = Some v"
    if "x_acts s' = x_acts s" "x_pool s' = x_pool s" "x_nextAct s' = x_nextAct s" for s'
    using assms(1,3) that slots_cong [of s' s] by simp
  show ?thesis
    using ok assms(4) run_begin_slots [OF assms(1-3)]
    by (auto simp: after_reservation_def exec_frame intro!: drop_act_slots split: reservation.split)
qed

lemma context_slots:
  assumes "slots_ok s" "single s" "map_of (x_acts s) a = Some v" "a_phase v = Preparing keyId provider"
  shows "slots_ok (context_ready jp now a (a_task v) keyId provider ctx s)"
proof -
  have ok: "slots_ok s' \<and> single s' \<and> map_of (x_acts s') a = Some v"
    if "x_acts s' = x_acts s" "x_pool s' = x_pool s" "x_nextAct s' = x_nextAct s" for s'
    using assms(1,2,3) that slots_cong [of s' s] by (simp add: single_def)
  show ?thesis
    using ok assms(4)
    by (auto simp: context_ready_def Let_def exec_frame intro!: finish_slots [where k = keyId] set_phase_slots
        split: sum.split)
qed

lemma run_ends_slots:
  assumes "slots_ok s" "single s" "map_of (x_acts s) a = Some v" "a_phase v = Running keyId provider model ra"
  shows "slots_ok (run_ends jp nowMs now a v provider model ra outcome s)"
proof -
  have ok: "slots_ok s' \<and> single s' \<and> map_of (x_acts s') a = Some v"
    if "x_acts s' = x_acts s" "x_pool s' = x_pool s" "x_nextAct s' = x_nextAct s" for s'
    using assms(1,2,3) that slots_cong [of s' s] by (simp add: single_def)
  show ?thesis
    using ok assms(4)
    by (auto simp: run_ends_def Let_def exec_frame intro!: finish_slots [where k = keyId] split: sum.split)
qed

lemma frame_outside [exec_frame]:
  "x_acts (handleQuestionEmitted t i s) = x_acts s" "x_pool (handleQuestionEmitted t i s) = x_pool s"
  "x_nextAct (handleQuestionEmitted t i s) = x_nextAct s"
  "x_acts (resolveQuestionHot t i ans s) = x_acts s" "x_pool (resolveQuestionHot t i ans s) = x_pool s"
  "x_nextAct (resolveQuestionHot t i ans s) = x_nextAct s"
  "x_acts (snd (resolveQuestionCold t i ans s)) = x_acts s"
  "x_pool (snd (resolveQuestionCold t i ans s)) = x_pool s"
  "x_nextAct (snd (resolveQuestionCold t i ans s)) = x_nextAct s"
  by (simp_all add: handleQuestionEmitted_def resolveQuestionHot_def resolveQuestionCold_def answer_row_def
      Let_def exec_frame split: option.split)

lemma answer_eq:
  "snd (answerQuestion jp ok t i ans s) =
     (case findPendingQuestionRow t i s of
        None \<Rightarrow> s
      | Some q \<Rightarrow>
          if t \<in> set (x_sessions s) then (if ok then resolveQuestionHot t i ans s else s)
          else if fst (resolveQuestionCold t i ans s) then execute jp t (snd (resolveQuestionCold t i ans s))
          else snd (resolveQuestionCold t i ans s))"
  by (simp add: answerQuestion_def split: option.split prod.split bool.split)

lemma cancel_route_frame:
  "cancel_route now t s = Some s' \<Longrightarrow> x_acts s' = x_acts s \<and> x_pool s' = x_pool s \<and> x_nextAct s' = x_nextAct s"
  by (auto simp: cancel_route_def cancel_def exec_frame split: option.splits if_splits)

lemma decide_route_frame:
  "approve_route note t s = Some s' \<Longrightarrow> x_acts s' = x_acts s \<and> x_pool s' = x_pool s \<and> x_nextAct s' = x_nextAct s"
  "reject_route note t s = Some s' \<Longrightarrow> x_acts s' = x_acts s \<and> x_pool s' = x_pool s \<and> x_nextAct s' = x_nextAct s"
  "x_acts (reject_update note t s) = x_acts s \<and> x_pool (reject_update note t s) = x_pool s
   \<and> x_nextAct (reject_update note t s) = x_nextAct s"
  by (auto simp: approve_route_def reject_route_def reject_update_def exec_frame split: option.splits if_splits)

lemma slots_step:
  assumes one: "single s" and ok: "slots_ok s"
  shows "slots_ok (exec_step jp e s)"
proof -
  have same: "slots_ok s'" if "x_acts s' = x_acts s" "x_pool s' = x_pool s" "x_nextAct s' = x_nextAct s" for s'
    using ok that slots_cong [of s' s] by simp
  show ?thesis
  proof (cases e)
    case (EvSelected a)
    then show ?thesis using ok settle_slots [OF ok one]
      by (simp add: with_act_def split: option.split phase.split)
  next
    case (EvReserved a today now)
    then show ?thesis using ok after_reservation_slots [OF ok one]
      by (simp add: with_act_def split: option.split phase.split)
  next
    case (EvContext a now ctx)
    then show ?thesis using ok context_slots [OF ok one]
      by (simp add: with_act_def split: option.split phase.split)
  next
    case (EvRunEnds a nowMs now outcome)
    then show ?thesis using ok run_ends_slots [OF ok one]
      by (simp add: with_act_def split: option.split phase.split)
  next
    case (EvCancel t now)
    then show ?thesis using ok cancel_route_frame [of now t s] by (auto intro: same split: option.split)
  next
    case (EvApprove why t)
    then show ?thesis using ok decide_route_frame(1) [of why t s] by (auto intro: same split: option.split)
  next
    case (EvReject why t)
    then show ?thesis using ok decide_route_frame(2) [of why t s] by (auto intro: same split: option.split)
  next
    case (EvRolledBack why t)
    then show ?thesis using ok decide_route_frame(3) [of why t s] by (auto intro: same)
  next
    case (EvRerun t)
    then show ?thesis using ok
      by (auto simp: rerun_route_def Let_def intro!: same execute_slots split: option.split)
  next
    case (EvAnswer b t i ans)
    then show ?thesis using ok
      by (auto simp: answer_eq exec_frame intro!: same execute_slots split: option.split)
  qed (use ok in \<open>auto simp: resumeFromRateLimit_def exec_frame intro!: same execute_slots split: option.split\<close>)
qed

interpretation exec_slots: guarded_run "exec_step jp" "\<lambda>_. single" slots_ok for jp
  by unfold_locales (rule slots_step)

text \<open>C1: along every schedule in which no task is executed twice at the same time, the counter of a key is
  the number of runs that hold it, and never exceeds the limit: no slot is lost on any way out of a run,
  and no key is overbooked, however the selections of several tasks interleave.\<close>

theorem slots_counted:
  assumes "along (exec_step jp) (\<lambda>_. single) evs s"
    and "x_acts s = []" "kp_used (x_pool s) = []" "kp_reserved (x_pool s) = []"
  shows "used_slots (x_pool (exec_run jp evs s)) k = holders (x_acts (exec_run jp evs s)) k
    \<and> holders (x_acts (exec_run jp evs s)) k \<le> max 0 (kp_max (x_pool (exec_run jp evs s)))"
proof -
  have "slots_ok s" using assms by (simp add: slots_ok_def used_slots_def)
  then have "slots_ok (exec_run jp evs s)" unfolding exec_run_def by (rule exec_slots.run_inv [OF assms(1)])
  then show ?thesis by (simp add: slots_ok_def)
qed

definition demo_row :: "task_status \<Rightarrow> task_row" where
  "demo_row st = \<lparr>tr_status = st, tr_project = Some 7, tr_assigned = None, tr_failed = None, tr_allowed = None,
     tr_maxRetries = Some 1, tr_retryCount = Some 0, tr_parent = None, tr_label = None, tr_error = None,
     tr_exitCode = None, tr_resumeAt = None, tr_started = None, tr_completed = None, tr_approval = None\<rparr>"

text \<open>Three queued tasks, one key, one slot.\<close>

definition demo_exec :: executor where
  "demo_exec = \<lparr>x_tasks = map (\<lambda>i. (i, demo_row QUEUED)) [1, 2, 3], x_nextId = 4, x_keys = demo_keys,
     x_budget = \<lparr>bd_projects = [], bd_limits = [], bd_usage = []\<rparr>,
     x_pool = setMax 1 new_pool, x_queue = [], x_sessions = [], x_timers = [], x_retries = [], x_acts = [],
     x_nextAct = 0, x_questions = [], x_shuttingDown = False, x_synced = [], x_repointed = [], x_rejecting = []\<rparr>"

definition demo_day :: utc where
  "demo_day = \<lparr>u_year = 2026, u_month = 1, u_day = 1\<rparr>"

definition demo_metrics :: metrics where
  "demo_metrics = \<lparr>mt_input = 0, mt_output = 0, mt_cacheCreation = 0, mt_cacheRead = 0\<rparr>"

text \<open>Activation \<open>a\<close>, once selected, starts its session.\<close>

definition demo_start :: "nat \<Rightarrow> exec_event list" where
  "demo_start a = [EvReserved a demo_day ''now'', EvContext a ''now'' (Inr (''claude-sonnet-4'', False))]"

definition demo_error :: "string \<Rightarrow> (int \<times> string) option \<Rightarrow> run_error" where
  "demo_error name limit = \<lparr>er_name = name, er_message = ''m'', er_shutdown = False, er_limit = limit\<rparr>"

definition two_tasks :: "exec_event list" where
  "two_tasks = [EvExecute 1, EvSelected 0] @ demo_start 0 @ [EvExecute 2, EvSelected 1]"

theorem slots_counted_witness:
  "used_slots (x_pool (exec_run demo_parse two_tasks demo_exec)) 1
     = holders (x_acts (exec_run demo_parse two_tasks demo_exec)) 1
   \<and> used_slots (x_pool (exec_run demo_parse two_tasks demo_exec)) 1 = 1"
proof
  have "along (exec_step demo_parse) (\<lambda>_. single) two_tasks demo_exec" by code_simp
  then show "used_slots (x_pool (exec_run demo_parse two_tasks demo_exec)) 1
     = holders (x_acts (exec_run demo_parse two_tasks demo_exec)) 1"
    by (rule conjunct1 [OF slots_counted]) (simp_all add: demo_exec_def setMax_def new_pool_def)
  show "used_slots (x_pool (exec_run demo_parse two_tasks demo_exec)) 1 = 1" by code_simp
qed

text \<open>A task that is executed twice runs twice: neither \<open>execute\<close> nor \<open>_run\<close> looks for a live run of the
  same task.  Both sessions are then charged to the key, only the second reservation is remembered, and
  one slot stays taken after both have ended.\<close>

theorem double_execute_leaks_slot:
  "let e = demo_exec\<lparr>x_pool := setMax 2 new_pool\<rparr>;
       s = exec_run demo_parse
             ([EvExecute 1, EvSelected 0] @ demo_start 0 @ [EvExecute 1, EvSelected 1] @ demo_start 1) e;
       s' = exec_run demo_parse [EvRunEnds 0 0 ''now'' (Inr demo_metrics), EvRunEnds 1 0 ''now'' (Inr demo_metrics)] s
   in map (\<lambda>(_, v). (a_task v, holds (a_phase v))) (x_acts s) = [(1, Some 1), (1, Some 1)]
      \<and> x_acts s' = [] \<and> used_slots (x_pool s') 1 = 1"
  by code_simp

text \<open>A task that finds its key full is put in the queue only after the promise of the reservation has
  resolved.  If the run that holds the key ends in between, its pass over the queue comes too early: the
  task waits in the queue although every slot is free and nothing that runs will look at the queue again.\<close>

theorem queued_task_misses_the_wakeup:
  "let s = exec_run demo_parse
             ([EvExecute 1, EvSelected 0] @ demo_start 0 @ [EvExecute 2, EvSelected 1, EvSelected 1,
               EvRunEnds 0 0 ''now'' (Inr demo_metrics), EvReserved 1 demo_day ''now'']) demo_exec
   in x_queue s = [2] \<and> x_acts s = [] \<and> used_slots (x_pool s) 1 = 0"
  by code_simp

subsection \<open>The task table\<close>

lemma row_set [simp]: "row_of (set_row t' f s) t = (if t = t' then map_option f (row_of s t) else row_of s t)"
proof -
  have "map_of (map (\<lambda>(i, r). if i = t' then (i, f r) else (i, r)) xs) t
    = (if t = t' then map_option f (map_of xs t) else map_of xs t)" for xs :: "(int \<times> task_row) list"
    by (induction xs) auto
  then show ?thesis by (simp add: row_of_def set_row_def)
qed

lemma row_cong: "x_tasks s' = x_tasks s \<Longrightarrow> row_of s' t = row_of s t"
  by (simp add: row_of_def)

lemma row_append: "row_of s t = Some r \<Longrightarrow> row_of (s\<lparr>x_tasks := x_tasks s @ xs\<rparr>) t = Some r"
  by (simp add: row_of_def)

lemma frame_row [simp]:
  "row_of (execute jp t' s) t = row_of s t" "row_of (processQueue jp s) t = row_of s t"
  "row_of (finish_act jp a t' s) t = row_of s t" "row_of (drop_act a s) t = row_of s t"
  "row_of (set_phase a ph s) t = row_of s t" "row_of (syncPlan t' s) t = row_of s t"
  "row_of (schedule n t' r s) t = row_of s t" "row_of (cancel_timer t' s) t = row_of s t"
  "row_of (enqueue t' s) t = row_of s t" "row_of (answer_row i ans s) t = row_of s t"
  "row_of (snd (cancel t' s)) t = row_of s t"
  by (rule row_cong, simp add: exec_frame answer_row_def cancel_def)+

definition cancelled :: "int \<Rightarrow> executor \<Rightarrow> bool" where
  "cancelled t s \<longleftrightarrow> (case row_of s t of None \<Rightarrow> False | Some r \<Rightarrow> tr_status r = CANCELLED)"

lemma cancelled_iff: "cancelled t s \<longleftrightarrow> (\<exists>r. row_of s t = Some r \<and> tr_status r = CANCELLED)"
  by (simp add: cancelled_def split: option.split)

text \<open>An event that is not one of the three: the reservation of the task comes back, its context cannot be
  built, or its session meets a rate limit.\<close>

definition act_of :: "int \<Rightarrow> nat \<Rightarrow> executor \<Rightarrow> bool" where
  "act_of t a s = (case map_of (x_acts s) a of None \<Rightarrow> False | Some v \<Rightarrow> a_task v = t)"

fun spares :: "int \<Rightarrow> exec_event \<Rightarrow> executor \<Rightarrow> bool" where
  "spares t (EvReserved a _ _) s \<longleftrightarrow> \<not> act_of t a s"
| "spares t (EvContext a _ (Inl _)) s \<longleftrightarrow> \<not> act_of t a s"
| "spares t (EvRunEnds a _ _ (Inl err)) s \<longleftrightarrow> er_limit err = None \<or> \<not> act_of t a s"
| "spares t _ s \<longleftrightarrow> True"

lemma cancelled_rest [simp]:
  "\<not> validateTaskTransition ''cancelled'' ''running''"
  "\<not> validateTaskTransition ''cancelled'' ''waiting_for_input''"
  "\<not> validateTaskTransition ''cancelled'' ''done''"
  by (simp_all add: validateTaskTransition_def TASK_STATUS_TRANSITIONS_def)

lemma cancelled_final:
  assumes "cancelled t s"
  shows "cancelled t (finalizeSuccess now t' ra s)" "cancelled t (finalizeError now t' st m s)"
    "t' \<noteq> t \<Longrightarrow> cancelled t (parkRateLimited n t' r m s)"
  using assms by (auto simp: cancelled_iff finalizeSuccess_def finalizeError_def parkRateLimited_def)

lemma cancelled_retry: "cancelled t s \<Longrightarrow> cancelled t (snd (scheduleRetry t' s))"
  by (auto simp: cancelled_iff scheduleRetry_def Let_def row_of_def split: option.split)

lemma cancelled_failed:
  assumes "cancelled t s" "er_limit err = None \<or> t' \<noteq> t"
  shows "cancelled t (run_failed nowMs now t' err s)"
proof -
  have x: "cancelled t (s'\<lparr>x_retries := xs\<rparr>) = cancelled t s'" for s' xs by (simp add: cancelled_def row_of_def)
  show ?thesis using assms
    by (auto simp: run_failed_eq Let_def x cancelled_final cancelled_retry split: option.split)
qed

lemma cancelled_ends:
  assumes "cancelled t s" "case outcome of Inl err \<Rightarrow> er_limit err = None \<or> a_task v \<noteq> t | Inr _ \<Rightarrow> True"
  shows "cancelled t (run_ends jp nowMs now a v provider model ra outcome s)"
proof -
  have x: "cancelled t (finish_act jp a t' (s'\<lparr>x_sessions := xs\<rparr>)) = cancelled t s'" for s' xs t'
    by (simp add: cancelled_def) (simp add: row_of_def)
  have y: "cancelled t (s\<lparr>x_budget := b\<rparr>)" for b using assms by (simp add: cancelled_def row_of_def)
  show ?thesis using assms
    by (auto simp: run_ends_def Let_def x y cancelled_final cancelled_failed split: sum.split sum.splits)
qed

lemma cancelled_tasks: "x_tasks s' = x_tasks s \<Longrightarrow> cancelled t s' = cancelled t s"
  by (simp add: cancelled_def row_of_def)

lemma cancelled_selection: "cancelled t (settle_selection jp a v sat sel s) = cancelled t s"
  by (rule cancelled_tasks) (simp add: settle_selection_def exec_frame split: option.split)

lemma cancelled_reserved:
  "cancelled t s \<Longrightarrow> t' \<noteq> t \<Longrightarrow> cancelled t (after_reservation jp today now a t' r s)"
  by (auto simp: cancelled_iff after_reservation_def run_begin_def Let_def split: reservation.split option.split)

lemma cancelled_context:
  assumes "cancelled t s" "isl ctx \<longrightarrow> t' \<noteq> t"
  shows "cancelled t (context_ready jp now a t' keyId provider ctx s)"
proof -
  have x: "row_of (s'\<lparr>x_sessions := xs\<rparr>) t = row_of s' t" for s' xs by (simp add: row_of_def)
  show ?thesis using assms
    by (auto simp: cancelled_iff context_ready_def Let_def x split: sum.split)
qed

lemma cancelled_outside:
  assumes "cancelled t s"
  shows "cancelled t (handleQuestionEmitted t' i s)" "cancelled t (snd (answerQuestion jp ok t' i ans s))"
    "cancelled t (resumeFromRateLimit jp t' s)"
    "cancel_route now t' s = Some s' \<Longrightarrow> cancelled t s'"
    "approve_route why t' s = Some s' \<Longrightarrow> cancelled t s'" "reject_route why t' s = Some s' \<Longrightarrow> cancelled t s'"
    "rerun_route jp t' s = Some s' \<Longrightarrow> cancelled t s'" "cancelled t (reject_update why t' s)"
proof -
  have q: "row_of (s\<lparr>x_questions := qs\<rparr>) t'' = row_of s t''" for qs t'' by (simp add: row_of_def)
  show "cancelled t (handleQuestionEmitted t' i s)"
    using assms by (auto simp: cancelled_iff handleQuestionEmitted_def Let_def q split: option.split)
  show "cancelled t (snd (answerQuestion jp ok t' i ans s))"
    using assms by (auto simp: cancelled_iff answer_eq resolveQuestionHot_def resolveQuestionCold_def Let_def
        split: option.split)
  show "cancelled t (resumeFromRateLimit jp t' s)"
    using assms by (auto simp: cancelled_iff resumeFromRateLimit_def split: option.split)
  show "cancel_route now t' s = Some s' \<Longrightarrow> cancelled t s'"
    using assms by (auto simp: cancelled_iff cancel_route_def split: option.splits if_splits)
  show "approve_route why t' s = Some s' \<Longrightarrow> cancelled t s'"
    using assms by (auto simp: cancelled_iff approve_route_def split: option.splits if_splits)
  show "reject_route why t' s = Some s' \<Longrightarrow> cancelled t s'"
    using assms by (auto simp: cancelled_def row_of_def reject_route_def split: option.splits if_splits)
  have j: "row_of (s\<lparr>x_rejecting := xs\<rparr>) t'' = row_of s t''" for xs t'' by (simp add: row_of_def)
  show "cancelled t (reject_update why t' s)"
    using assms by (auto simp: cancelled_iff reject_update_def j)
  show "rerun_route jp t' s = Some s' \<Longrightarrow> cancelled t s'"
    using assms by (auto simp: cancelled_iff rerun_route_def Let_def row_of_def exec_frame split: option.splits)
qed

lemma cancelled_step:
  assumes e: "spares t e s" and c: "cancelled t s"
  shows "cancelled t (exec_step jp e s)"
proof (cases e)
  case (EvExecute t')
  then show ?thesis using c by (simp add: cancelled_def)
next
  case (EvSelected a)
  then show ?thesis using c by (simp add: with_act_def cancelled_selection split: option.split phase.split)
next
  case (EvReserved a today now)
  then show ?thesis using c e
    by (auto simp: with_act_def act_of_def intro!: cancelled_reserved split: option.split phase.split)
next
  case (EvContext a now ctx)
  then show ?thesis using c e
    by (cases ctx) (auto simp: with_act_def act_of_def intro!: cancelled_context split: option.split phase.split)
next
  case (EvRunEnds a nowMs now outcome)
  then show ?thesis using c e
    by (cases outcome) (auto simp: with_act_def act_of_def intro!: cancelled_ends split: option.split phase.split)
next
  case (EvWake t')
  have "cancelled t (cancel_timer t' s)" using c by (simp add: cancelled_def)
  then show ?thesis using EvWake c cancelled_outside(3) by simp
next
  case (EvRetry t')
  have "cancelled t (s\<lparr>x_retries := xs\<rparr>)" for xs using c by (simp add: cancelled_def row_of_def)
  then show ?thesis using EvRetry c by (simp add: cancelled_def)
next
  case (EvKeys db)
  then show ?thesis using c by (simp add: cancelled_def row_of_def)
next
  case (EvCancel t' now)
  then show ?thesis using c cancelled_outside(4) [OF c] by (simp split: option.split)
next
  case (EvApprove why t')
  then show ?thesis using c cancelled_outside(5) [OF c] by (simp split: option.split)
next
  case (EvReject why t')
  then show ?thesis using c cancelled_outside(6) [OF c] by (simp split: option.split)
next
  case (EvRolledBack why t')
  then show ?thesis using c cancelled_outside(8) [OF c] by simp
next
  case (EvRerun t')
  then show ?thesis using c cancelled_outside(7) [OF c] by (simp split: option.split)
qed (use cancelled_outside(1,2) [OF c] in simp_all)

interpretation cancellation: guarded_run "exec_step jp" "spares t" "cancelled t" for jp t
  by unfold_locales (rule cancelled_step)

text \<open>C2: a cancelled task stays cancelled, whatever else happens to it and to the other tasks (a session
  that ends well or badly, an answer, a wake-up, another \<open>execute\<close>), but for three events: its own
  reservation coming back, its own context failing to build, and its own session meeting a rate limit.\<close>

theorem cancelled_stays_cancelled:
  assumes "along (exec_step jp) (spares t) evs s" and "cancelled t s"
  shows "cancelled t (exec_run jp evs s)"
  unfolding exec_run_def by (rule cancellation.run_inv [OF assms])

definition cancel_running :: "exec_event list" where
  "cancel_running = [EvExecute 1, EvSelected 0] @ demo_start 0 @ [EvCancel 1 ''now'']"

theorem cancelled_stays_cancelled_witness:
  "cancelled 1 (exec_run demo_parse [EvRunEnds 0 0 ''now'' (Inr demo_metrics), EvExecute 1]
     (exec_run demo_parse cancel_running demo_exec))"
  by (rule cancelled_stays_cancelled; code_simp)

text \<open>The three exceptions happen.  A task cancelled while its key is being reserved starts all the same,
  for \<open>_run\<close> does not look at the status it overwrites; a cancelled task whose session ends with a rate
  limit is parked, and the timer queues it again.\<close>

theorem cancelled_task_revived:
  "let s = exec_run demo_parse ([EvExecute 1, EvSelected 0, EvCancel 1 ''now''] @ demo_start 0) demo_exec;
       p = exec_run demo_parse (cancel_running @
             [EvRunEnds 0 0 ''now'' (Inl (demo_error ''Error'' (Some (1000, ''limit'')))), EvWake 1]) demo_exec
   in map_option tr_status (row_of s 1) = Some RUNNING \<and> x_sessions s = [1]
      \<and> map_option tr_status (row_of p 1) = Some QUEUED \<and> map (\<lambda>(_, v). a_task v) (x_acts p) = [1]"
  by code_simp

text \<open>The approval route asks only whether the status may become \<open>done\<close>, and a running task may: it is
  marked done under its live session, and when the session ends the task waits for approval again.
  The plan is not told of the approval.\<close>

theorem approving_a_running_task:
  "let s = exec_run demo_parse [EvExecute 1, EvSelected 0, EvReserved 0 demo_day ''now'',
             EvContext 0 ''now'' (Inr (''claude-sonnet-4'', True)), EvApprove None 1] demo_exec;
       s' = exec_run demo_parse [EvRunEnds 0 0 ''now'' (Inr demo_metrics)] s
   in map_option tr_status (row_of s 1) = Some DONE \<and> x_sessions s = [1] \<and> x_synced s = []
      \<and> map_option tr_status (row_of s' 1) = Some PENDING_APPROVAL"
  by code_simp

subsection \<open>Retries\<close>

definition retry_ok :: "task_row \<Rightarrow> bool" where
  "retry_ok r = (case tr_retryCount r of None \<Rightarrow> True
     | Some n \<Rightarrow> n \<le> (case tr_maxRetries r of None \<Rightarrow> 0 | Some m \<Rightarrow> max 0 m))"

lemma retry_ok_upd [simp]:
  "retry_ok (r\<lparr>tr_status := st\<rparr>) = retry_ok r" "retry_ok (r\<lparr>tr_error := e\<rparr>) = retry_ok r"
  "retry_ok (r\<lparr>tr_exitCode := c\<rparr>) = retry_ok r" "retry_ok (r\<lparr>tr_resumeAt := a\<rparr>) = retry_ok r"
  "retry_ok (r\<lparr>tr_started := d\<rparr>) = retry_ok r" "retry_ok (r\<lparr>tr_completed := d\<rparr>) = retry_ok r"
  "retry_ok (r\<lparr>tr_assigned := k\<rparr>) = retry_ok r" "retry_ok (r\<lparr>tr_approval := y\<rparr>) = retry_ok r"
  by (simp_all add: retry_ok_def split: option.split)

definition retries_ok :: "executor \<Rightarrow> bool" where
  "retries_ok s = list_all (\<lambda>p. retry_ok (snd p)) (x_tasks s)"

lemma retries_row:
  "retries_ok s \<Longrightarrow> (\<And>r. retry_ok (f r) = retry_ok r) \<Longrightarrow> retries_ok (set_row t f s)"
  by (auto simp: retries_ok_def set_row_def list_all_iff split: if_splits)

lemma retries_tasks: "x_tasks s' = x_tasks s \<Longrightarrow> retries_ok s' = retries_ok s"
  by (simp add: retries_ok_def)

lemma retries_frame [simp]:
  "retries_ok (execute jp t' s) = retries_ok s" "retries_ok (processQueue jp s) = retries_ok s"
  "retries_ok (finish_act jp a t' s) = retries_ok s" "retries_ok (drop_act a s) = retries_ok s"
  "retries_ok (set_phase a ph s) = retries_ok s" "retries_ok (syncPlan t' s) = retries_ok s"
  "retries_ok (schedule n t' r s) = retries_ok s" "retries_ok (cancel_timer t' s) = retries_ok s"
  "retries_ok (enqueue t' s) = retries_ok s" "retries_ok (answer_row i ans s) = retries_ok s"
  "retries_ok (snd (cancel t' s)) = retries_ok s"
  "retries_ok (s\<lparr>x_sessions := xs\<rparr>) = retries_ok s" "retries_ok (s\<lparr>x_budget := b\<rparr>) = retries_ok s"
  "retries_ok (s\<lparr>x_questions := qs\<rparr>) = retries_ok s" "retries_ok (s\<lparr>x_retries := xs\<rparr>) = retries_ok s"
  "retries_ok (s\<lparr>x_keys := db\<rparr>) = retries_ok s" "retries_ok (s\<lparr>x_pool := p\<rparr>) = retries_ok s"
  by (rule retries_tasks, simp add: exec_frame answer_row_def cancel_def)+

lemma retry_row_ok: "retry_allowed r \<Longrightarrow> retry_ok (retry_row t r)"
  by (auto simp: retry_allowed_def retry_row_def retry_ok_def truthy_int_def Let_def split: option.splits if_splits)

lemma retries_schedule: "retries_ok s \<Longrightarrow> retries_ok (snd (scheduleRetry t s))"
  by (auto simp: scheduleRetry_def retries_ok_def Let_def retry_row_ok split: option.split)

lemma retries_end:
  assumes "retries_ok s"
  shows "retries_ok (finalizeSuccess now t ra s)" "retries_ok (finalizeError now t st m s)"
    "retries_ok (parkRateLimited n t r m s)" "retries_ok (run_failed nowMs now t err s)"
proof -
  show success: "retries_ok (finalizeSuccess now t ra s)"
    using assms by (auto simp: finalizeSuccess_def intro!: retries_row)
  have error: "retries_ok (finalizeError now t st m s)" for st m
    using assms by (auto simp: finalizeError_def intro!: retries_row)
  then show "retries_ok (finalizeError now t st m s)" .
  have park: "retries_ok (parkRateLimited n t r m s)" for n r m
    using assms by (auto simp: parkRateLimited_def intro!: retries_row)
  then show "retries_ok (parkRateLimited n t r m s)" .
  show "retries_ok (run_failed nowMs now t err s)"
    using assms by (simp add: run_failed_eq Let_def error park retries_schedule split: option.split)
qed

lemma retries_begin:
  assumes "retries_ok s"
  shows "retries_ok (after_reservation jp today now a t r s)"
    "retries_ok (context_ready jp now a t keyId provider ctx s)"
    "retries_ok (settle_selection jp a v sat sel s)"
    "retries_ok (resumeFromRateLimit jp t s)"
  using assms
  by (auto simp: after_reservation_def run_begin_def context_ready_def settle_selection_def
      resumeFromRateLimit_def Let_def fail_row_def intro!: retries_row
      split: reservation.split option.split sum.split)

lemma retries_outside:
  assumes "retries_ok s"
  shows "retries_ok (handleQuestionEmitted t i s)" "retries_ok (snd (answerQuestion jp ok t i ans s))"
  using assms
  by (auto simp: handleQuestionEmitted_def answer_eq resolveQuestionHot_def resolveQuestionCold_def Let_def
      intro!: retries_row split: option.split)

lemma retries_routes:
  assumes "retries_ok s"
  shows "cancel_route now t s = Some s' \<Longrightarrow> retries_ok s'" "approve_route why t s = Some s' \<Longrightarrow> retries_ok s'"
    "reject_route why t s = Some s' \<Longrightarrow> retries_ok s'" "rerun_route jp t s = Some s' \<Longrightarrow> retries_ok s'"
    "retries_ok (reject_update why t s)"
proof -
  show "cancel_route now t s = Some s' \<Longrightarrow> retries_ok s'"
    using assms by (auto simp: cancel_route_def intro!: retries_row split: option.splits if_splits)
  show "approve_route why t s = Some s' \<Longrightarrow> retries_ok s'"
    using assms by (auto simp: approve_route_def intro!: retries_row split: option.splits if_splits)
  show "reject_route why t s = Some s' \<Longrightarrow> retries_ok s'"
    using assms by (auto simp: reject_route_def retries_ok_def split: option.splits if_splits)
  show "retries_ok (reject_update why t s)"
    unfolding reject_update_def
    by (rule retries_row) (use assms in \<open>simp_all add: retries_ok_def\<close>)
  have "retry_ok (rerun_row t r)" for r by (simp add: rerun_row_def retry_ok_def split: option.split)
  then show "rerun_route jp t s = Some s' \<Longrightarrow> retries_ok s'"
    using assms by (auto simp: rerun_route_def Let_def retries_ok_def exec_frame split: option.splits)
qed

lemma retries_step:
  assumes "retries_ok s"
  shows "retries_ok (exec_step jp e s)"
proof (cases e)
  case (EvWake t)
  have "retries_ok (cancel_timer t s)" using assms by simp
  then show ?thesis using EvWake assms retries_begin(4) by simp
next
  case (EvRunEnds a nowMs now outcome)
  have "retries_ok (s\<lparr>x_budget := b\<rparr>)" for b using assms by simp
  then show ?thesis using EvRunEnds assms retries_end(1) retries_end(4)
    by (cases outcome) (simp_all add: with_act_def run_ends_def Let_def split: option.split phase.split)
next
  case (EvCancel t now)
  then show ?thesis using assms retries_routes(1) [OF assms] by (simp split: option.split)
next
  case (EvApprove why t)
  then show ?thesis using assms retries_routes(2) [OF assms] by (simp split: option.split)
next
  case (EvReject why t)
  then show ?thesis using assms retries_routes(3) [OF assms] by (simp split: option.split)
next
  case (EvRolledBack why t)
  then show ?thesis using assms retries_routes(5) [OF assms] by simp
next
  case (EvRerun t)
  then show ?thesis using assms retries_routes(4) [OF assms] by (simp split: option.split)
qed (use assms retries_begin(1-3) [OF assms] retries_outside [OF assms] in
    \<open>simp_all add: with_act_def split: option.split phase.split\<close>)

interpretation retrying: guarded_run "exec_step jp" "\<lambda>_ _. True" retries_ok for jp
  by unfold_locales (rule retries_step)

text \<open>C35: no schedule retries a task past its limit: if no row of the table has counted more retries than
  its \<open>maxRetries\<close>, no row ever will, the rows the executor adds included.\<close>

theorem retries_stay_bounded:
  assumes "retries_ok s"
  shows "list_all (\<lambda>p. retry_ok (snd p)) (x_tasks (exec_run jp evs s))"
  using retrying.run_inv [OF along_True assms, of jp evs] by (simp add: exec_run_def retries_ok_def)

definition fail_twice :: "exec_event list" where
  "fail_twice = [EvExecute 1, EvSelected 0] @ demo_start 0
     @ [EvRunEnds 0 0 ''now'' (Inl (demo_error ''Error'' None)), EvRetry 4, EvSelected 1]
     @ demo_start 1 @ [EvRunEnds 1 0 ''now'' (Inl (demo_error ''Error'' None))]"

theorem retries_stay_bounded_witness:
  "list_all (\<lambda>p. retry_ok (snd p)) (x_tasks (exec_run demo_parse fail_twice demo_exec))
   \<and> map (\<lambda>p. tr_retryCount (snd p)) (x_tasks (exec_run demo_parse fail_twice demo_exec))
     = [Some 0, Some 0, Some 0, Some 1]"
proof
  have "retries_ok demo_exec" by code_simp
  then show "list_all (\<lambda>p. retry_ok (snd p)) (x_tasks (exec_run demo_parse fail_twice demo_exec))"
    by (rule retries_stay_bounded)
  show "map (\<lambda>p. tr_retryCount (snd p)) (x_tasks (exec_run demo_parse fail_twice demo_exec))
     = [Some 0, Some 0, Some 0, Some 1]" by code_simp
qed

text \<open>A rejection that waits for its roll-back does not look at the row again: an approval that was accepted in
  between is taken back.\<close>

theorem late_rejection_overrides:
  "let e = demo_exec\<lparr>x_tasks := [(1, demo_row PENDING_APPROVAL)]\<rparr>;
       s = exec_run demo_parse [EvReject None 1, EvApprove None 1] e
   in map_option tr_status (row_of s 1) = Some DONE
      \<and> map_option tr_status (row_of (exec_step demo_parse (EvRolledBack None 1) s) 1) = Some CANCELLED"
  by code_simp

text \<open>A retry is a new row that does not take over the key whitelist of the failed one: it runs under
  the whitelist of the project, whatever the task itself was restricted to.\<close>

theorem retry_forgets_the_whitelist:
  "eligible_keys jp db (keys_of (retry_row t r))
   = eligible_keys jp db \<lparr>tk_project = tr_project r, tk_workspace = None, tk_assigned = None, tk_failed = None,
                          tk_allowed = None\<rparr>"
  by (simp add: keys_of_def retry_row_def Let_def)

subsection \<open>Wake-ups\<close>

lemma schedule_timers: "x_timers (schedule n t at_ms s) = AList.delete t (x_timers s) @ [(t, fire_time n at_ms)]"
  by (simp add: schedule_def)

lemma recover_fold:
  assumes "jm_ok rows" "fst ` set rows \<inter> fst ` set (x_timers s) = {}" "\<forall>p \<in> set rows. tr_resumeAt (snd p) \<noteq> None"
  shows "x_timers (fold (\<lambda>(i, r) s. case tr_resumeAt r of Some ms \<Rightarrow> schedule nowMs i ms s | None \<Rightarrow> s) rows s)
    = x_timers s @ map (\<lambda>(i, r). (i, fire_time nowMs (the (tr_resumeAt r)))) rows"
  using assms
proof (induction rows arbitrary: s)
  case (Cons p rows)
  obtain i r ms where p: "p = (i, r)" "tr_resumeAt r = Some ms" using Cons.prems(3) by (cases p) auto
  have "x_timers (schedule nowMs i ms s) = x_timers s @ [(i, fire_time nowMs ms)]"
    using Cons.prems(2) p by (simp add: schedule_timers delete_id)
  then show ?case using Cons.prems p by (simp add: Cons.IH)
qed simp

text \<open>After a restart exactly the parked tasks with a wake-up time have a timer; a parked task whose time
  is missing is left alone, and stays parked.\<close>

theorem recoverFromDatabase_exact:
  assumes "x_timers s = []" "jm_ok (x_tasks s)"
  shows "x_timers (recoverFromDatabase nowMs s) =
    map (\<lambda>(i, r). (i, fire_time nowMs (the (tr_resumeAt r))))
      (filter (\<lambda>(_, r). tr_status r = RATE_LIMITED \<and> tr_resumeAt r \<noteq> None) (x_tasks s))"
proof -
  have "jm_ok (filter P (x_tasks s))" for P using assms(2) by (simp add: distinct_map_filter)
  then show ?thesis unfolding recoverFromDatabase_def by (subst recover_fold) (auto simp: assms(1))
qed

definition parked :: executor where
  "parked = set_row 1 (\<lambda>r. r\<lparr>tr_status := RATE_LIMITED, tr_resumeAt := Some 900\<rparr>)
     (set_row 2 (\<lambda>r. r\<lparr>tr_status := RATE_LIMITED\<rparr>) demo_exec)"

theorem recoverFromDatabase_exact_witness:
  "x_timers (recoverFromDatabase 1000 parked) = [(1, 1050)]"
proof -
  have "x_timers parked = []" "jm_ok (x_tasks parked)" by code_simp+
  then show ?thesis by (simp only: recoverFromDatabase_exact) code_simp
qed

text \<open>A timer goes off at the wake-up time or fifty milliseconds from now, whichever is later, unless
  that is more than 24 days ahead: then it goes off after 24 days, and the handler runs without looking
  at the time.\<close>

theorem wake_up_time:
  "fire_time nowMs resumeAtMs =
    (if resumeAtMs - nowMs > MAX_TIMER_MS then nowMs + MAX_TIMER_MS else max resumeAtMs (nowMs + MIN_DELAY_MS))"
  by (simp add: fire_time_def MAX_TIMER_MS_def MIN_DELAY_MS_def Let_def max_def)

end
