(* ===== verification/EditJournal.thy ===== *)
theory EditJournal
  imports JsString
begin

text \<open>
  The file-edit journal, \<open>src/src/services/file-edit-journal.ts\<close>: what a session changed, taken from the
  inputs of its editing tools, counted and shown as a unified diff.  The table of the longest common
  subsequence is built row by row from the end, as the code builds it; a cell is at most the number of
  lines, and a table has at most 250000 cells, so the 32 bits of a cell never wrap.
\<close>

definition NL :: char where "NL = CHR 0x0A"

subsection \<open>Entries\<close>

record JournalEntry =
  je_filePath :: string
  je_original :: string
  je_current :: string

type_synonym journal = "JournalEntry list"

definition str_field :: "jobj \<Rightarrow> string \<Rightarrow> string option" where
  "str_field obj k = (case map_of obj k of Some (JStr s) \<Rightarrow> Some s | _ \<Rightarrow> None)"

definition entry_of :: "jval \<Rightarrow> JournalEntry option" where
  "entry_of x = (case x of
     JObj e \<Rightarrow> (case (str_field e ''filePath'', str_field e ''original'', str_field e ''current'') of
                 (Some f, Some old, Some new) \<Rightarrow> Some \<lparr>je_filePath = f, je_original = old, je_current = new\<rparr>
               | _ \<Rightarrow> None)
   | _ \<Rightarrow> None)"

definition parseJournal :: "json_parse \<Rightarrow> string option \<Rightarrow> journal" where
  "parseJournal jp raw =
     (case truthy_str raw of
        None \<Rightarrow> []
      | Some s \<Rightarrow> (case jp s of
                     Some (JObj obj) \<Rightarrow> (case map_of obj ''entries'' of
                                           Some (JArr es) \<Rightarrow> List.map_filter entry_of es
                                         | _ \<Rightarrow> [])
                   | _ \<Rightarrow> []))"

definition entry_value :: "JournalEntry \<Rightarrow> jval" where
  "entry_value e = JObj [(''filePath'', JStr (je_filePath e)), (''original'', JStr (je_original e)),
     (''current'', JStr (je_current e))]"

text \<open>\<open>js\<close> is \<open>JSON.stringify\<close>.\<close>

definition serializeJournal :: "(jval \<Rightarrow> string) \<Rightarrow> journal \<Rightarrow> string" where
  "serializeJournal js j = js (JObj [(''entries'', JArr (map entry_value j))])"

definition pickPath :: "jobj \<Rightarrow> string" where
  "pickPath obj =
     (case str_field obj ''file_path'' of
        Some p \<Rightarrow> p
      | None \<Rightarrow> (case str_field obj ''path'' of Some p \<Rightarrow> p | None \<Rightarrow> []))"

definition pickOldNew :: "jobj \<Rightarrow> string option \<times> string option" where
  "pickOldNew obj =
     ((case str_field obj ''old_string'' of Some s \<Rightarrow> Some s | None \<Rightarrow> str_field obj ''old_str''),
      (case str_field obj ''new_string'' of Some s \<Rightarrow> Some s | None \<Rightarrow> str_field obj ''new_str''))"

definition swap_entry :: "string \<Rightarrow> jval \<Rightarrow> JournalEntry option" where
  "swap_entry filePath raw =
     (case raw of
        JObj ee \<Rightarrow> (case pickOldNew ee of
                       (Some old, Some new) \<Rightarrow> Some \<lparr>je_filePath = filePath, je_original = old, je_current = new\<rparr>
                     | _ \<Rightarrow> None)
      | _ \<Rightarrow> None)"

definition buildEntriesFromToolCall :: "string \<Rightarrow> jval \<Rightarrow> journal" where
  "buildEntriesFromToolCall name input =
     (case input of
        JObj obj \<Rightarrow>
          if pickPath obj = [] then []
          else (case pickOldNew obj of
                  (Some old, Some new) \<Rightarrow> [\<lparr>je_filePath = pickPath obj, je_original = old, je_current = new\<rparr>]
                | _ \<Rightarrow>
                    (case map_of obj ''edits'' of
                       Some (JArr edits) \<Rightarrow> List.map_filter (swap_entry (pickPath obj)) edits
                     | _ \<Rightarrow>
                         (if map to_lower name \<in> {''write'', ''create_file''}
                          then (case str_field obj ''content'' of
                                  Some c \<Rightarrow> [\<lparr>je_filePath = pickPath obj, je_original = [], je_current = c\<rparr>]
                                | None \<Rightarrow> [])
                          else [])))
      | _ \<Rightarrow> [])"

definition appendToolCallToJournal :: "journal \<Rightarrow> string \<Rightarrow> jval \<Rightarrow> journal" where
  "appendToolCallToJournal journal toolName input =
     (let newEntries = buildEntriesFromToolCall toolName input
      in if newEntries = [] then journal else journal @ newEntries)"

subsection \<open>The table\<close>

definition file_lines :: "string \<Rightarrow> string list" where
  "file_lines s = (if s = [] then [] else split_on NL s)"

text \<open>A row from the row below it, right to left; the last cell of a row is \<open>0\<close>.\<close>

fun dp_row :: "string \<Rightarrow> string list \<Rightarrow> int list \<Rightarrow> int list" where
  "dp_row x [] below = [0]"
| "dp_row x (y # ys) below =
     (let right = dp_row x ys (tl below)
      in (if x = y then hd (tl below) + 1 else max (hd below) (hd right)) # right)"

fun dp_grid :: "string list \<Rightarrow> string list \<Rightarrow> int list list" where
  "dp_grid [] b = [replicate (length b + 1) 0]"
| "dp_grid (x # xs) b = (let g = dp_grid xs b in dp_row x b (hd g) # g)"

definition MAX_CELLS :: nat where "MAX_CELLS = 250000"

definition countLcsDelta :: "string \<Rightarrow> string \<Rightarrow> int \<times> int" where
  "countLcsDelta oldStr newStr =
     (let a = file_lines oldStr; b = file_lines newStr in
      if length a * length b > MAX_CELLS then (int (length b), int (length a))
      else let common = dp_grid a b ! 0 ! 0 in (int (length b) - common, int (length a) - common))"

datatype LcsOp = Context string | AddLine string | RemoveLine string

text \<open>The walk from the top left corner.\<close>

function lcs_walk :: "int list list \<Rightarrow> string list \<Rightarrow> string list \<Rightarrow> nat \<Rightarrow> nat \<Rightarrow> LcsOp list" where
  "lcs_walk dp a b i j =
     (if i < length a \<and> j < length b
      then if a ! i = b ! j then Context (a ! i) # lcs_walk dp a b (i + 1) (j + 1)
           else if dp ! (i + 1) ! j \<ge> dp ! i ! (j + 1) then RemoveLine (a ! i) # lcs_walk dp a b (i + 1) j
           else AddLine (b ! j) # lcs_walk dp a b i (j + 1)
      else map RemoveLine (drop i a) @ map AddLine (drop j b))"
  by pat_completeness auto
termination by (relation "measure (\<lambda>(dp, a, b, i, j). (length a - i) + (length b - j))") auto

declare lcs_walk.simps [simp del]

definition lcsLineDiff :: "string list \<Rightarrow> string list \<Rightarrow> LcsOp list" where
  "lcsLineDiff a b =
     (if length a * length b > MAX_CELLS then map RemoveLine a @ map AddLine b
      else lcs_walk (dp_grid a b) a b 0 0)"

fun op_line :: "LcsOp \<Rightarrow> string" where
  "op_line (Context t) = CHR '' '' # t"
| "op_line (RemoveLine t) = CHR ''-'' # t"
| "op_line (AddLine t) = CHR ''+'' # t"

definition hunk_header :: "nat \<Rightarrow> nat \<Rightarrow> string" where
  "hunk_header oldLen newLen =
     ''@@ -'' @ str_of_nat (if oldLen = 0 then 0 else 1) @ '','' @ str_of_nat oldLen @ '' +''
       @ str_of_nat (if newLen = 0 then 0 else 1) @ '','' @ str_of_nat newLen @ '' @@''"

definition synthesizeDiff :: "JournalEntry \<Rightarrow> string" where
  "synthesizeDiff entry =
     (let a = file_lines (je_original entry); b = file_lines (je_current entry); f = je_filePath entry
      in join_on NL ([''diff --git a/'' @ f @ '' b/'' @ f, ''--- a/'' @ f, ''+++ b/'' @ f,
           hunk_header (length a) (length b)] @ map op_line (lcsLineDiff a b)))"

definition renderJournalAsUnifiedDiff :: "journal \<Rightarrow> string" where
  "renderJournalAsUnifiedDiff j = join_on NL (map synthesizeDiff j)"

record journal_summary =
  js_files :: nat
  js_added :: int
  js_removed :: int
  js_text :: string

definition summarizeJournal :: "journal \<Rightarrow> journal_summary option" where
  "summarizeJournal j =
     (if j = [] then None
      else let files = length (remdups (map je_filePath j));
               added = sum_list (map (\<lambda>e. fst (countLcsDelta (je_original e) (je_current e))) j);
               removed = sum_list (map (\<lambda>e. snd (countLcsDelta (je_original e) (je_current e))) j)
           in Some \<lparr>js_files = files, js_added = added, js_removed = removed,
                js_text = str_of_nat files @ '' file'' @ (if files = 1 then [] else ''s'') @ '' changed, +''
                  @ str_of_int added @ '' / -'' @ str_of_int removed\<rparr>)"

subsection \<open>The longest common subsequence\<close>

text \<open>What the table is meant to hold.\<close>

fun lcs :: "string list \<Rightarrow> string list \<Rightarrow> int" where
  "lcs [] b = 0"
| "lcs a [] = 0"
| "lcs (x # xs) (y # ys) = (if x = y then lcs xs ys + 1 else max (lcs xs (y # ys)) (lcs (x # xs) ys))"

lemma lcs_Nil2 [simp]: "lcs a [] = 0"
  by (cases a) simp_all

lemma lcs_nonneg: "0 \<le> lcs a b"
  by (induction a b rule: lcs.induct) auto

lemma lcs_one_more:
  "lcs a b \<le> lcs (x # a) b \<and> lcs (x # a) b \<le> lcs a b + 1 \<and> lcs a b \<le> lcs a (y # b) \<and> lcs a (y # b) \<le> lcs a b + 1"
proof (induction "length a + length b" arbitrary: a b x y rule: less_induct)
  case less
  have "lcs a b \<le> lcs (x # a) b \<and> lcs (x # a) b \<le> lcs a b + 1"
  proof (cases b)
    case (Cons z zs)
    have "length a + length zs < length a + length b" using Cons by simp
    from less [OF this, of x z] show ?thesis using Cons by auto
  qed simp
  moreover have "lcs a b \<le> lcs a (y # b) \<and> lcs a (y # b) \<le> lcs a b + 1"
  proof (cases a)
    case (Cons z zs)
    have "length zs + length b < length a + length b" using Cons by simp
    from less [OF this, of z y] show ?thesis using Cons by auto
  qed simp
  ultimately show ?case by blast
qed

fun sufs :: "'a list \<Rightarrow> 'a list list" where
  "sufs [] = [[]]"
| "sufs (x # xs) = (x # xs) # sufs xs"

lemma sufs_nonempty [simp]: "sufs xs \<noteq> []"
  by (cases xs) simp_all

lemma hd_sufs [simp]: "hd (sufs xs) = xs"
  by (cases xs) simp_all

lemma length_sufs [simp]: "length (sufs xs) = length xs + 1"
  by (induction xs) simp_all

lemma nth_sufs: "j \<le> length xs \<Longrightarrow> sufs xs ! j = drop j xs"
  by (induction xs arbitrary: j) (auto simp: nth_Cons' drop_Cons')

lemma dp_row_lcs: "dp_row x b (map (lcs xs) (sufs b)) = map (lcs (x # xs)) (sufs b)"
  by (induction b) (auto simp: hd_map Let_def)

lemma dp_grid_lcs: "dp_grid a b = map (\<lambda>a'. map (lcs a') (sufs b)) (sufs a)"
proof (induction a)
  case Nil
  have "lcs [] = (\<lambda>_. 0)" by (rule ext) simp
  then show ?case by (simp add: map_replicate_const)
next
  case (Cons x xs)
  then show ?case by (simp add: hd_map dp_row_lcs Let_def)
qed

lemma dp_cell:
  "i \<le> length a \<Longrightarrow> j \<le> length b \<Longrightarrow> dp_grid a b ! i ! j = lcs (drop i a) (drop j b)"
  by (simp add: dp_grid_lcs nth_sufs)

subsection \<open>The diff\<close>

text \<open>The two sides of a list of operations, and what they have in common.\<close>

fun old_side :: "LcsOp list \<Rightarrow> string list" where
  "old_side [] = []"
| "old_side (Context t # ops) = t # old_side ops"
| "old_side (RemoveLine t # ops) = t # old_side ops"
| "old_side (AddLine t # ops) = old_side ops"

fun new_side :: "LcsOp list \<Rightarrow> string list" where
  "new_side [] = []"
| "new_side (Context t # ops) = t # new_side ops"
| "new_side (RemoveLine t # ops) = new_side ops"
| "new_side (AddLine t # ops) = t # new_side ops"

fun contexts :: "LcsOp list \<Rightarrow> int" where
  "contexts [] = 0"
| "contexts (Context t # ops) = 1 + contexts ops"
| "contexts (AddLine t # ops) = contexts ops"
| "contexts (RemoveLine t # ops) = contexts ops"

definition added :: "LcsOp list \<Rightarrow> int" where
  "added ops = int (length (filter (\<lambda>p. case p of AddLine _ \<Rightarrow> True | _ \<Rightarrow> False) ops))"

definition removed :: "LcsOp list \<Rightarrow> int" where
  "removed ops = int (length (filter (\<lambda>p. case p of RemoveLine _ \<Rightarrow> True | _ \<Rightarrow> False) ops))"

lemma side_append [simp]:
  "old_side (xs @ ys) = old_side xs @ old_side ys" "new_side (xs @ ys) = new_side xs @ new_side ys"
  "contexts (xs @ ys) = contexts xs + contexts ys"
  by (induction xs rule: contexts.induct) auto

lemma side_map [simp]:
  "old_side (map RemoveLine xs) = xs" "new_side (map RemoveLine xs) = []" "contexts (map RemoveLine xs) = 0"
  "old_side (map AddLine xs) = []" "new_side (map AddLine xs) = xs" "contexts (map AddLine xs) = 0"
  by (induction xs) simp_all

lemma counts:
  "int (length (old_side ops)) = contexts ops + removed ops" "int (length (new_side ops)) = contexts ops + added ops"
  by (induction ops rule: contexts.induct) (simp_all add: added_def removed_def)

lemma contexts_le_lcs: "contexts ops \<le> lcs (old_side ops) (new_side ops)"
proof (induction ops rule: contexts.induct)
  case (3 t ops)
  then show ?case using lcs_one_more [of "old_side ops" "new_side ops" undefined t] by simp
next
  case (4 t ops)
  then show ?case using lcs_one_more [of "old_side ops" "new_side ops" t undefined] by simp
qed simp_all

lemma walk_spec:
  assumes "dp = dp_grid a b" "i \<le> length a" "j \<le> length b"
  shows "old_side (lcs_walk dp a b i j) = drop i a \<and> new_side (lcs_walk dp a b i j) = drop j b
    \<and> contexts (lcs_walk dp a b i j) = lcs (drop i a) (drop j b)"
  using assms
proof (induction dp a b i j rule: lcs_walk.induct)
  case (1 dp a b i j)
  show ?case
  proof (cases "i < length a \<and> j < length b")
    case False
    then have "drop i a = [] \<or> drop j b = []" by auto
    then show ?thesis using False by (auto simp: lcs_walk.simps [of dp a b i j])
  next
    case True
    then have d: "drop i a = a ! i # drop (Suc i) a" "drop j b = b ! j # drop (Suc j) b"
      by (simp_all add: Cons_nth_drop_Suc)
    have c: "dp ! Suc i ! j = lcs (drop (Suc i) a) (drop j b)" "dp ! i ! Suc j = lcs (drop i a) (drop (Suc j) b)"
      using True 1 by (simp_all add: dp_cell)
    have w: "lcs_walk dp a b i j =
       (if a ! i = b ! j then Context (a ! i) # lcs_walk dp a b (i + 1) (j + 1)
        else if dp ! (i + 1) ! j \<ge> dp ! i ! (j + 1) then RemoveLine (a ! i) # lcs_walk dp a b (i + 1) j
        else AddLine (b ! j) # lcs_walk dp a b i (j + 1))"
      using True by (simp add: lcs_walk.simps [of dp a b i j])
    consider "a ! i = b ! j" | "a ! i \<noteq> b ! j" "dp ! (i + 1) ! j \<ge> dp ! i ! (j + 1)"
      | "a ! i \<noteq> b ! j" "\<not> dp ! (i + 1) ! j \<ge> dp ! i ! (j + 1)" by blast
    then show ?thesis
    proof cases
      case 1
      then show ?thesis using True "1.IH"(1) [OF _ 1 "1.prems"(1)] by (simp add: w d)
    next
      case 2
      then show ?thesis using True "1.IH"(2) [OF _ 2 "1.prems"(1)] c by (simp add: w d max_def)
    next
      case 3
      then show ?thesis using True "1.IH"(3) [OF _ 3 "1.prems"(1)] c by (simp add: w d max_def)
    qed
  qed
qed

text \<open>The operations between two texts rebuild both: the context and removed lines, in order, are the
  old text, the context and added lines the new one.\<close>

theorem lcsLineDiff_rebuilds: "old_side (lcsLineDiff a b) = a \<and> new_side (lcsLineDiff a b) = b"
  using walk_spec [of "dp_grid a b" a b 0 0] by (simp add: lcsLineDiff_def)

text \<open>The counts of the summary are those of the diff that is shown, on the large inputs that skip the
  table as well.\<close>

theorem countLcsDelta_counts_the_diff:
  "countLcsDelta old new = (let ops = lcsLineDiff (file_lines old) (file_lines new) in (added ops, removed ops))"
proof -
  let ?a = "file_lines old" and ?b = "file_lines new"
  have n: "added (map RemoveLine xs @ map AddLine ys) = int (length ys)"
    "removed (map RemoveLine xs @ map AddLine ys) = int (length xs)" for xs ys
    by (simp_all add: added_def removed_def comp_def)
  have w: "lcs ?a ?b = dp_grid ?a ?b ! 0 ! 0" by (simp add: dp_cell)
  show ?thesis
    using walk_spec [of "dp_grid ?a ?b" ?a ?b 0 0] counts [of "lcs_walk (dp_grid ?a ?b) ?a ?b 0 0"]
    by (simp add: countLcsDelta_def lcsLineDiff_def Let_def n w)
qed

text \<open>C30: up to the size limit the diff is as small as it can be: every list of operations that turns the old
  lines into the new ones adds and removes at least as many.\<close>

theorem lcsLineDiff_minimal:
  assumes "length a * length b \<le> MAX_CELLS" and "old_side ops = a" "new_side ops = b"
  shows "added (lcsLineDiff a b) \<le> added ops \<and> removed (lcsLineDiff a b) \<le> removed ops"
proof -
  have w: "lcsLineDiff a b = lcs_walk (dp_grid a b) a b 0 0" using assms(1) by (simp add: lcsLineDiff_def)
  show ?thesis
    using walk_spec [of "dp_grid a b" a b 0 0] counts [of ops] counts [of "lcsLineDiff a b"]
      contexts_le_lcs [of ops] assms(2,3) by (simp add: w)
qed

theorem lcsLineDiff_minimal_witness:
  "added (lcsLineDiff [''a'', ''b''] [''b'', ''c''])
     \<le> added [RemoveLine ''a'', Context ''b'', AddLine ''c'']
   \<and> lcsLineDiff [''a'', ''b''] [''b'', ''c''] = [RemoveLine ''a'', Context ''b'', AddLine ''c'']"
proof
  show "added (lcsLineDiff [''a'', ''b''] [''b'', ''c'']) \<le> added [RemoveLine ''a'', Context ''b'', AddLine ''c'']"
    by (rule conjunct1 [OF lcsLineDiff_minimal]) (simp_all add: MAX_CELLS_def)
  show "lcsLineDiff [''a'', ''b''] [''b'', ''c''] = [RemoveLine ''a'', Context ''b'', AddLine ''c'']"
    by (simp add: lcsLineDiff_def MAX_CELLS_def lcs_walk.simps Let_def)
qed

subsection \<open>The text of a diff\<close>

fun op_text :: "LcsOp \<Rightarrow> string" where
  "op_text (Context t) = t"
| "op_text (RemoveLine t) = t"
| "op_text (AddLine t) = t"

lemma op_texts: "op_text ` set ops = set (old_side ops) \<union> set (new_side ops)"
  by (induction ops rule: contexts.induct) auto

lemma file_lines_no_newline: "t \<in> set (file_lines s) \<Longrightarrow> NL \<notin> set t"
  by (auto simp: file_lines_def split_on_pieces split: if_splits)

lemma op_line_no_newline:
  assumes "p \<in> set (lcsLineDiff (file_lines s) (file_lines t))"
  shows "NL \<notin> set (op_line p)"
proof -
  have "op_text p \<in> set (file_lines s) \<union> set (file_lines t)"
    using assms op_texts [of "lcsLineDiff (file_lines s) (file_lines t)"]
      lcsLineDiff_rebuilds [of "file_lines s" "file_lines t"] by auto
  then have "NL \<notin> set (op_text p)" using file_lines_no_newline by blast
  then show ?thesis by (cases p) (simp_all add: NL_def)
qed

lemma digits_no_newline: "NL \<notin> set (str_of_nat n)"
proof -
  have "\<not> is_digit NL" by code_simp
  then show ?thesis using str_of_nat_digits [of n] by blast
qed

text \<open>The lines of a hunk that start with one of two marks, without the mark.\<close>

definition marked :: "char \<Rightarrow> char \<Rightarrow> string list \<Rightarrow> string list" where
  "marked c d ls = map tl (filter (\<lambda>l. l \<noteq> [] \<and> (hd l = c \<or> hd l = d)) ls)"

lemma marked_ops:
  "marked CHR '' '' CHR ''-'' (map op_line ops) = old_side ops"
  "marked CHR '' '' CHR ''+'' (map op_line ops) = new_side ops"
  by (induction ops rule: contexts.induct) (simp_all add: marked_def)

lemma synthesize_lines:
  assumes "NL \<notin> set (je_filePath e)"
  shows "split_on NL (synthesizeDiff e) =
    [''diff --git a/'' @ je_filePath e @ '' b/'' @ je_filePath e, ''--- a/'' @ je_filePath e,
     ''+++ b/'' @ je_filePath e, hunk_header (length (file_lines (je_original e))) (length (file_lines (je_current e)))]
    @ map op_line (lcsLineDiff (file_lines (je_original e)) (file_lines (je_current e)))"
proof -
  let ?ops = "lcsLineDiff (file_lines (je_original e)) (file_lines (je_current e))"
  have head: "NL \<notin> set (hunk_header n m)" for n m
    using digits_no_newline [unfolded NL_def] by (simp add: hunk_header_def NL_def)
  have names: "NL \<notin> set (''diff --git a/'' @ je_filePath e @ '' b/'' @ je_filePath e)"
    "NL \<notin> set (''--- a/'' @ je_filePath e)" "NL \<notin> set (''+++ b/'' @ je_filePath e)"
    using assms [unfolded NL_def] by (simp_all add: NL_def)
  have ops: "NL \<notin> set l" if "l \<in> set (map op_line ?ops)" for l
    using that op_line_no_newline by auto
  show ?thesis unfolding synthesizeDiff_def Let_def
  proof (rule split_on_join)
    fix l
    assume "l \<in> set ([''diff --git a/'' @ je_filePath e @ '' b/'' @ je_filePath e, ''--- a/'' @ je_filePath e,
      ''+++ b/'' @ je_filePath e,
      hunk_header (length (file_lines (je_original e))) (length (file_lines (je_current e)))] @ map op_line ?ops)"
    then consider "l = ''diff --git a/'' @ je_filePath e @ '' b/'' @ je_filePath e" | "l = ''--- a/'' @ je_filePath e"
      | "l = ''+++ b/'' @ je_filePath e"
      | "l = hunk_header (length (file_lines (je_original e))) (length (file_lines (je_current e)))"
      | "l \<in> set (map op_line ?ops)" by (simp only: set_append list.set Un_iff insert_iff empty_iff) blast
    then show "NL \<notin> set l" using head names ops by cases simp_all
  qed simp
qed

text \<open>C31: the text of a diff can be read back: after four header lines, the lines marked with a space or a
  minus are the lines of the old text and those marked with a space or a plus are the lines of the new
  one, whatever characters the texts contain, if the path of the file has no line break.\<close>

theorem synthesizeDiff_reads_back:
  assumes "NL \<notin> set (je_filePath e)"
  shows "marked CHR '' '' CHR ''-'' (drop 4 (split_on NL (synthesizeDiff e))) = file_lines (je_original e)
    \<and> marked CHR '' '' CHR ''+'' (drop 4 (split_on NL (synthesizeDiff e))) = file_lines (je_current e)"
  by (simp add: synthesize_lines [OF assms] marked_ops lcsLineDiff_rebuilds)

definition demo_entry :: JournalEntry where
  "demo_entry = \<lparr>je_filePath = ''f'', je_original = ''a'' @ NL # ''-b'', je_current = ''-b'' @ NL # ''c''\<rparr>"

theorem synthesizeDiff_reads_back_witness:
  "marked CHR '' '' CHR ''-'' (drop 4 (split_on NL (synthesizeDiff demo_entry))) = [''a'', ''-b'']
   \<and> marked CHR '' '' CHR ''+'' (drop 4 (split_on NL (synthesizeDiff demo_entry))) = [''-b'', ''c'']"
proof -
  have "NL \<notin> set (je_filePath demo_entry)" by code_simp
  moreover have "file_lines (je_original demo_entry) = [''a'', ''-b'']" by code_simp
  moreover have "file_lines (je_current demo_entry) = [''-b'', ''c'']" by code_simp
  ultimately show ?thesis using synthesizeDiff_reads_back [of demo_entry] by simp
qed

subsection \<open>Storing a journal\<close>

definition journal_value :: "journal \<Rightarrow> jval" where
  "journal_value j = JObj [(''entries'', JArr (map entry_value j))]"

text \<open>A journal that is stored and read back is the same journal, if \<open>JSON.parse\<close> undoes
  \<open>JSON.stringify\<close> on its value.\<close>

theorem parseJournal_serializeJournal:
  assumes "jp (js (journal_value j)) = Some (journal_value j)" and "js (journal_value j) \<noteq> []"
  shows "parseJournal jp (Some (serializeJournal js j)) = j"
proof -
  have "entry_of (entry_value e) = Some e" for e
    by (simp add: entry_of_def entry_value_def str_field_def)
  then have "List.map_filter entry_of (map entry_value j) = j"
    by (induction j) simp_all
  then show ?thesis using assms
    by (simp add: parseJournal_def serializeJournal_def truthy_str_def journal_value_def)
qed

theorem parseJournal_serializeJournal_witness:
  "parseJournal (\<lambda>s. if s = ''J'' then Some (journal_value [demo_entry]) else None)
     (Some (serializeJournal (\<lambda>v. ''J'') [demo_entry])) = [demo_entry]"
  by (rule parseJournal_serializeJournal) simp_all

text \<open>A file of one line that ends in a newline counts as two added lines.\<close>

lemma final_newline_counts: "countLcsDelta [] (''line'' @ [NL]) = (2, 0)"
  by (simp add: countLcsDelta_def file_lines_def NL_def MAX_CELLS_def Let_def)

end
