(* ===== verification/StateMachine.thy ===== *)
theory StateMachine
  imports JsString
begin

text \<open>
  State machines a project declares: the semantic rules of
  \<open>src/src/services/state-machines/sm-parser.ts\<close> and the reader of Mermaid diagrams of
  \<open>src/src/services/state-machines/sm-mermaid-parser.ts\<close>.  A \<open>Set\<close> or a \<open>Map\<close> that is only asked for
  membership is the list it was filled from.
\<close>

subsection \<open>Machines and findings\<close>

record Transition =
  t_from :: string
  t_to :: string
  t_event :: string

record StateMachine =
  sm_states :: "string list"
  sm_initial :: string
  sm_transitions :: "Transition list"
  sm_final :: "string list option"

datatype ValidationCategory = InitialNotInStates | TransitionFromNotInStates | TransitionToNotInStates
  | DuplicateTransition | FinalHasOutgoing | UnreachableState

datatype Severity = ErrorSeverity | WarningSeverity

record ValidationError =
  ve_category :: ValidationCategory
  ve_severity :: Severity
  ve_message :: string
  ve_path :: string

definition tick :: "string \<Rightarrow> string" where
  "tick s = CHR 0x60 # s @ [CHR 0x60]"

definition indexed_path :: "string \<Rightarrow> nat \<Rightarrow> string \<Rightarrow> string" where
  "indexed_path base i field = base @ ''['' @ str_of_nat i @ '']'' @ field"

text \<open>\<open>xs.forEach((x, i) => ...)\<close> with a test that pushes at most one finding.\<close>

definition for_each :: "('a \<Rightarrow> nat \<Rightarrow> ValidationError option) \<Rightarrow> 'a list \<Rightarrow> ValidationError list" where
  "for_each f xs = List.map_filter (\<lambda>(x, i). f x i) (zip xs [0..<length xs])"

subsection \<open>The rules\<close>

definition validateInitialInStates :: "StateMachine \<Rightarrow> ValidationError list" where
  "validateInitialInStates sm =
     (if sm_initial sm \<in> set (sm_states sm) then []
      else [\<lparr>ve_category = InitialNotInStates, ve_severity = ErrorSeverity,
              ve_message = tick ''initial'' @ '' '' @ tick (sm_initial sm) @ '' is not in '' @ tick ''states'',
              ve_path = ''initial''\<rparr>])"

definition validateTransitionFromInStates :: "StateMachine \<Rightarrow> ValidationError list" where
  "validateTransitionFromInStates sm =
     for_each (\<lambda>t i. if t_from t \<in> set (sm_states sm) then None
       else Some \<lparr>ve_category = TransitionFromNotInStates, ve_severity = ErrorSeverity,
              ve_message = ''transition '' @ tick ''from'' @ '' '' @ tick (t_from t) @ '' is not in '' @ tick ''states'',
              ve_path = indexed_path ''transitions'' i ''.from''\<rparr>) (sm_transitions sm)"

definition validateTransitionToInStates :: "StateMachine \<Rightarrow> ValidationError list" where
  "validateTransitionToInStates sm =
     for_each (\<lambda>t i. if t_to t \<in> set (sm_states sm) then None
       else Some \<lparr>ve_category = TransitionToNotInStates, ve_severity = ErrorSeverity,
              ve_message = ''transition '' @ tick ''to'' @ '' '' @ tick (t_to t) @ '' is not in '' @ tick ''states'',
              ve_path = indexed_path ''transitions'' i ''.to''\<rparr>) (sm_transitions sm)"

definition transition_key :: "Transition \<Rightarrow> string" where
  "transition_key t = t_from t @ CHR 0x00 # t_event t"

text \<open>\<open>firstSeen\<close> maps a key to the index of its first transition.\<close>

fun duplicate_scan :: "(string \<times> nat) list \<Rightarrow> nat \<Rightarrow> Transition list \<Rightarrow> ValidationError list" where
  "duplicate_scan firstSeen i [] = []"
| "duplicate_scan firstSeen i (t # ts) =
     (case map_of firstSeen (transition_key t) of
        None \<Rightarrow> duplicate_scan (AList.update (transition_key t) i firstSeen) (i + 1) ts
      | Some prev \<Rightarrow>
          \<lparr>ve_category = DuplicateTransition, ve_severity = ErrorSeverity,
            ve_message = ''duplicate transition for ('' @ tick (t_from t) @ '', '' @ tick (t_event t)
              @ ''); first defined at transitions['' @ str_of_nat prev @ '']'',
            ve_path = indexed_path ''transitions'' i []\<rparr> # duplicate_scan firstSeen (i + 1) ts)"

definition validateNoDuplicateTransitions :: "StateMachine \<Rightarrow> ValidationError list" where
  "validateNoDuplicateTransitions sm = duplicate_scan [] 0 (sm_transitions sm)"

definition validateFinalStatesHaveNoOutgoing :: "StateMachine \<Rightarrow> ValidationError list" where
  "validateFinalStatesHaveNoOutgoing sm =
     (case sm_final sm of
        None \<Rightarrow> []
      | Some finals \<Rightarrow>
          for_each (\<lambda>t i. if t_from t \<in> set finals
            then Some \<lparr>ve_category = FinalHasOutgoing, ve_severity = ErrorSeverity,
                   ve_message = ''final state '' @ tick (t_from t) @ '' must not have outgoing transitions'',
                   ve_path = indexed_path ''transitions'' i []\<rparr>
            else None) (sm_transitions sm))"

definition add_edge :: "Transition \<Rightarrow> (string \<times> string list) list \<Rightarrow> (string \<times> string list) list" where
  "add_edge t adj =
     AList.update (t_from t) (case map_of adj (t_from t) of None \<Rightarrow> [t_to t]
                              | Some ns \<Rightarrow> if t_to t \<in> set ns then ns else ns @ [t_to t]) adj"

definition adjacency :: "StateMachine \<Rightarrow> (string \<times> string list) list" where
  "adjacency sm =
     fold (\<lambda>t adj. if t_from t \<in> set (sm_states sm) \<and> t_to t \<in> set (sm_states sm) then add_edge t adj else adj)
       (sm_transitions sm) (fold (\<lambda>s. AList.update s []) (sm_states sm) [])"

definition neighbours :: "(string \<times> string list) list \<Rightarrow> string \<Rightarrow> string list" where
  "neighbours adj cur = (case map_of adj cur of None \<Rightarrow> [] | Some ns \<Rightarrow> ns)"

text \<open>The breadth-first walk; \<open>visit\<close> is its inner loop.\<close>

definition visit :: "string list \<Rightarrow> string list \<times> string list \<Rightarrow> string list \<times> string list" where
  "visit ns rq = fold (\<lambda>n (reachable, queue). if n \<in> set reachable then (reachable, queue)
                                               else (reachable @ [n], queue @ [n])) ns rq"

lemma visit_effect:
  "\<exists>new. visit ns (r, q) = (r @ new, q @ new) \<and> set new = set ns - set r"
proof (induction ns arbitrary: r q)
  case (Cons n ns)
  show ?case
  proof (cases "n \<in> set r")
    case True
    then have "visit (n # ns) (r, q) = visit ns (r, q)" by (simp add: visit_def)
    then show ?thesis using Cons [of r q] True by auto
  next
    case False
    then have "visit (n # ns) (r, q) = visit ns (r @ [n], q @ [n])" by (simp add: visit_def)
    moreover obtain new where "visit ns (r @ [n], q @ [n]) = ((r @ [n]) @ new, (q @ [n]) @ new)"
      "set new = set ns - set (r @ [n])" using Cons by blast
    ultimately show ?thesis using False by (intro exI [of _ "n # new"]) auto
  qed
qed (simp add: visit_def)

function bfs :: "(string \<times> string list) list \<Rightarrow> string list \<Rightarrow> string list \<Rightarrow> string list" where
  "bfs adj reachable [] = reachable"
| "bfs adj reachable (cur # queue) =
     (case visit (neighbours adj cur) (reachable, queue) of (r, q) \<Rightarrow> bfs adj r q)"
  by pat_completeness auto

definition all_neighbours :: "(string \<times> string list) list \<Rightarrow> string set" where
  "all_neighbours adj = (\<Union>p \<in> set adj. set (snd p))"

lemma neighbours_all: "set (neighbours adj cur) \<subseteq> all_neighbours adj"
proof (cases "map_of adj cur")
  case (Some ns)
  then have "(cur, ns) \<in> set adj" by (rule map_of_SomeD)
  then show ?thesis using Some by (force simp: neighbours_def all_neighbours_def)
qed (simp add: neighbours_def)

termination bfs
proof (relation "measures [\<lambda>(adj, r, q). card (all_neighbours adj - set r), \<lambda>(adj, r, q). length q]")
  fix adj :: "(string \<times> string list) list" and reachable cur queue r q
  assume v: "(r, q) = visit (neighbours adj cur) (reachable, queue)"
  obtain new where n: "visit (neighbours adj cur) (reachable, queue) = (reachable @ new, queue @ new)"
    "set new = set (neighbours adj cur) - set reachable" using visit_effect by blast
  with v have rq: "r = reachable @ new" "q = queue @ new" by auto
  show "((adj, r, q), adj, reachable, cur # queue)
      \<in> measures [\<lambda>(adj, r, q). card (all_neighbours adj - set r), \<lambda>(adj, r, q). length q]"
  proof (cases new)
    case Nil
    then show ?thesis using rq by simp
  next
    case (Cons x xs)
    then have "x \<in> all_neighbours adj - set reachable" using n(2) neighbours_all by auto
    then have "card (all_neighbours adj - set r) < card (all_neighbours adj - set reachable)"
      using Cons rq by (intro psubset_card_mono) (auto simp: all_neighbours_def)
    then show ?thesis by simp
  qed
qed simp

declare bfs.simps(2) [simp del]

definition reachable_states :: "StateMachine \<Rightarrow> string list" where
  "reachable_states sm = bfs (adjacency sm) [sm_initial sm] [sm_initial sm]"

definition validateReachability :: "StateMachine \<Rightarrow> ValidationError list" where
  "validateReachability sm =
     (if sm_initial sm \<notin> set (sm_states sm) then []
      else let reachable = reachable_states sm
           in for_each (\<lambda>s i. if s \<in> set reachable then None
                else Some \<lparr>ve_category = UnreachableState, ve_severity = WarningSeverity,
                       ve_message = ''state '' @ tick s @ '' is not reachable from '' @ tick ''initial'' @ '' ''
                         @ tick (sm_initial sm),
                       ve_path = indexed_path ''states'' i []\<rparr>) (sm_states sm))"

definition validateStateMachine :: "StateMachine \<Rightarrow> ValidationError list" where
  "validateStateMachine sm =
     validateInitialInStates sm @ validateTransitionFromInStates sm @ validateTransitionToInStates sm
     @ validateNoDuplicateTransitions sm @ validateFinalStatesHaveNoOutgoing sm @ validateReachability sm"

subsection \<open>The walk finds what can be reached\<close>

definition edges :: "StateMachine \<Rightarrow> (string \<times> string) set" where
  "edges sm = {(t_from t, t_to t) | t. t \<in> set (sm_transitions sm)
                 \<and> t_from t \<in> set (sm_states sm) \<and> t_to t \<in> set (sm_states sm)}"

lemma bfs_spec:
  assumes "\<forall>x \<in> set r. x \<in> set q \<or> set (neighbours adj x) \<subseteq> set r" "set q \<subseteq> set r"
    and "\<forall>x \<in> set r. (init, x) \<in> {(x, y). y \<in> set (neighbours adj x)}\<^sup>*"
  shows "set r \<subseteq> set (bfs adj r q)
    \<and> (\<forall>x \<in> set (bfs adj r q). set (neighbours adj x) \<subseteq> set (bfs adj r q))
    \<and> (\<forall>x \<in> set (bfs adj r q). (init, x) \<in> {(x, y). y \<in> set (neighbours adj x)}\<^sup>*)"
  using assms
proof (induction adj r q rule: bfs.induct)
  case (2 adj reachable cur queue)
  obtain new where n: "visit (neighbours adj cur) (reachable, queue) = (reachable @ new, queue @ new)"
    "set new = set (neighbours adj cur) - set reachable" using visit_effect by blast
  have cur: "(init, cur) \<in> {(x, y). y \<in> set (neighbours adj x)}\<^sup>*" using "2.prems" by simp
  have "\<forall>x \<in> set new. (init, x) \<in> {(x, y). y \<in> set (neighbours adj x)}\<^sup>*"
  proof
    fix x assume "x \<in> set new"
    then show "(init, x) \<in> {(x, y). y \<in> set (neighbours adj x)}\<^sup>*" using n(2)
      by (intro rtrancl_into_rtrancl [OF cur]) simp
  qed
  then have "set (reachable @ new) \<subseteq> set (bfs adj (reachable @ new) (queue @ new))
    \<and> (\<forall>x \<in> set (bfs adj (reachable @ new) (queue @ new)).
         set (neighbours adj x) \<subseteq> set (bfs adj (reachable @ new) (queue @ new)))
    \<and> (\<forall>x \<in> set (bfs adj (reachable @ new) (queue @ new)).
         (init, x) \<in> {(x, y). y \<in> set (neighbours adj x)}\<^sup>*)"
    using "2.prems" n(2) by (intro "2.IH" [OF n(1) [symmetric]]) auto
  then show ?case by (simp add: bfs.simps(2) n(1))
qed simp

lemma bfs_reaches: "set (bfs adj [init] [init]) = {x. (init, x) \<in> {(x, y). y \<in> set (neighbours adj x)}\<^sup>*}"
proof -
  note spec = bfs_spec [of "[init]" "[init]" adj init, simplified]
  have "x \<in> set (bfs adj [init] [init])" if "(init, x) \<in> {(x, y). y \<in> set (neighbours adj x)}\<^sup>*" for x
    using that by (induction rule: rtrancl_induct) (use spec in auto)
  then show ?thesis using spec by blast
qed

lemma adjacency_init: "map_of (fold (\<lambda>s. AList.update s []) xs adj) x
    = (if x \<in> set xs then Some [] else map_of adj x)"
  by (induction xs arbitrary: adj) (auto simp: update_conv')

lemma neighbours_update: "neighbours (AList.update k ns adj) x = (if x = k then ns else neighbours adj x)"
  by (simp add: neighbours_def update_conv')

lemma neighbours_add_edge:
  "set (neighbours (add_edge t adj) x) = (if x = t_from t then insert (t_to t) (set (neighbours adj x))
                                          else set (neighbours adj x))"
proof -
  have "set (case map_of adj k of None \<Rightarrow> [v] | Some ns \<Rightarrow> if v \<in> set ns then ns else ns @ [v])
      = insert v (set (neighbours adj k))" for k v
    by (cases "map_of adj k") (simp_all add: neighbours_def insert_absorb)
  then show ?thesis unfolding add_edge_def neighbours_update by simp
qed

lemma adjacency_fold:
  "set (neighbours (fold (\<lambda>t adj. if t_from t \<in> S \<and> t_to t \<in> S then add_edge t adj else adj) ts adj) x)
   = set (neighbours adj x) \<union> {t_to t | t. t \<in> set ts \<and> t_from t = x \<and> x \<in> S \<and> t_to t \<in> S}"
proof (induction ts arbitrary: adj)
  case (Cons t ts)
  show ?case by (simp add: Cons.IH neighbours_add_edge) blast
qed simp

lemma adjacency_edges: "{(x, y). y \<in> set (neighbours (adjacency sm) x)} = edges sm"
proof -
  have "neighbours (fold (\<lambda>s. AList.update s []) (sm_states sm) []) x = []" for x
    by (simp add: neighbours_def adjacency_init split: option.split)
  then show ?thesis by (auto simp: adjacency_def adjacency_fold edges_def)
qed

lemma reachable_states_iff: "s \<in> set (reachable_states sm) \<longleftrightarrow> (sm_initial sm, s) \<in> (edges sm)\<^sup>*"
  by (simp add: reachable_states_def bfs_reaches adjacency_edges)

subsection \<open>What the findings say\<close>

definition deterministic :: "StateMachine \<Rightarrow> bool" where
  "deterministic sm \<longleftrightarrow> distinct (map (\<lambda>t. (t_from t, t_event t)) (sm_transitions sm))"

definition rules_hold :: "StateMachine \<Rightarrow> bool" where
  "rules_hold sm \<longleftrightarrow> sm_initial sm \<in> set (sm_states sm)
     \<and> list_all (\<lambda>t. t_from t \<in> set (sm_states sm) \<and> t_to t \<in> set (sm_states sm)) (sm_transitions sm)
     \<and> deterministic sm
     \<and> (case sm_final sm of None \<Rightarrow> True | Some fs \<Rightarrow> list_all (\<lambda>t. t_from t \<notin> set fs) (sm_transitions sm))"

lemma for_each_Nil: "(\<And>x i. f x i = None \<longleftrightarrow> P x) \<Longrightarrow> for_each f xs = [] \<longleftrightarrow> list_all P xs"
proof -
  assume f: "\<And>x i. f x i = None \<longleftrightarrow> P x"
  have "List.map_filter (\<lambda>(x, i). f x i) ps = [] \<longleftrightarrow> list_all (\<lambda>p. P (fst p)) ps" for ps
  proof (induction ps)
    case (Cons p ps)
    obtain x i where "p = (x, i)" by (cases p)
    then show ?case using Cons f [of x i] by (cases "f x i") simp_all
  qed simp
  then have "for_each f xs = [] \<longleftrightarrow> list_all (\<lambda>p. P (fst p)) (zip xs [0..<length xs])"
    unfolding for_each_def by blast
  also have "\<dots> \<longleftrightarrow> list_all P (map fst (zip xs [0..<length xs]))" by (simp only: list.pred_map comp_def)
  finally show ?thesis by simp
qed

lemma for_each_severity:
  "(\<And>x i e. f x i = Some e \<Longrightarrow> ve_severity e = sev) \<Longrightarrow> e \<in> set (for_each f xs) \<Longrightarrow> ve_severity e = sev"
  by (auto simp: for_each_def List.map_filter_def)

lemma scan_Nil:
  assumes "\<And>t. t \<in> set ts \<Longrightarrow> CHR 0x00 \<notin> set (t_from t)"
  shows "duplicate_scan seen i ts = [] \<longleftrightarrow>
    distinct (map transition_key ts) \<and> fst ` set seen \<inter> set (map transition_key ts) = {}"
  using assms
proof (induction ts arbitrary: seen i)
  case (Cons t ts)
  show ?case
  proof (cases "map_of seen (transition_key t)")
    case None
    then have "transition_key t \<notin> fst ` set seen" by (simp add: map_of_eq_None_iff)
    then show ?thesis using Cons None by (auto simp: dom_update)
  next
    case (Some p)
    then have "transition_key t \<in> fst ` set seen" by (metis domI dom_map_of_conv_image_fst)
    then show ?thesis using Some by auto
  qed
qed simp

lemma transition_key_inj:
  assumes "CHR 0x00 \<notin> set (t_from t)" "CHR 0x00 \<notin> set (t_from u)"
  shows "transition_key t = transition_key u \<longleftrightarrow> t_from t = t_from u \<and> t_event t = t_event u"
proof -
  have key: "takeWhile (\<lambda>c. c \<noteq> CHR 0x00) (transition_key v) = t_from v" if "CHR 0x00 \<notin> set (t_from v)" for v
  proof -
    have "takeWhile (\<lambda>c. c \<noteq> CHR 0x00) (t_from v @ CHR 0x00 # t_event v) = t_from v @ takeWhile (\<lambda>c. c \<noteq> CHR 0x00) (CHR 0x00 # t_event v)"
      by (rule takeWhile_append2) (use that in auto)
    then show ?thesis by (simp add: transition_key_def)
  qed
  show ?thesis
  proof
    assume e: "transition_key t = transition_key u"
    then have "t_from t = t_from u" using key [OF assms(1)] key [OF assms(2)] by simp
    then show "t_from t = t_from u \<and> t_event t = t_event u" using e by (simp add: transition_key_def)
  qed (simp add: transition_key_def)
qed

lemma distinct_keys:
  assumes "\<And>t. t \<in> set ts \<Longrightarrow> CHR 0x00 \<notin> set (t_from t)"
  shows "distinct (map transition_key ts) \<longleftrightarrow> distinct (map (\<lambda>t. (t_from t, t_event t)) ts)"
  using assms by (induction ts) (auto simp: transition_key_inj image_iff)

lemma scan_severity: "e \<in> set (duplicate_scan seen i ts) \<Longrightarrow> ve_severity e = ErrorSeverity"
  by (induction ts arbitrary: seen i) (auto split: option.splits)

lemma error_rules:
  assumes "list_all (\<lambda>t. CHR 0x00 \<notin> set (t_from t)) (sm_transitions sm)"
  shows "validateInitialInStates sm @ validateTransitionFromInStates sm @ validateTransitionToInStates sm
     @ validateNoDuplicateTransitions sm @ validateFinalStatesHaveNoOutgoing sm = [] \<longleftrightarrow> rules_hold sm"
proof -
  have nul: "\<And>t. t \<in> set (sm_transitions sm) \<Longrightarrow> CHR 0x00 \<notin> set (t_from t)" using assms by (simp add: list_all_iff)
  have "validateTransitionFromInStates sm = [] \<longleftrightarrow> list_all (\<lambda>t. t_from t \<in> set (sm_states sm)) (sm_transitions sm)"
    unfolding validateTransitionFromInStates_def by (rule for_each_Nil) simp
  moreover have "validateTransitionToInStates sm = [] \<longleftrightarrow> list_all (\<lambda>t. t_to t \<in> set (sm_states sm)) (sm_transitions sm)"
    unfolding validateTransitionToInStates_def by (rule for_each_Nil) simp
  moreover have "validateNoDuplicateTransitions sm = [] \<longleftrightarrow> deterministic sm"
    unfolding validateNoDuplicateTransitions_def by (simp add: scan_Nil [OF nul] distinct_keys [OF nul] deterministic_def)
  moreover have "validateFinalStatesHaveNoOutgoing sm = [] \<longleftrightarrow>
      (case sm_final sm of None \<Rightarrow> True | Some fs \<Rightarrow> list_all (\<lambda>t. t_from t \<notin> set fs) (sm_transitions sm))"
  proof (cases "sm_final sm")
    case (Some fs)
    then show ?thesis unfolding validateFinalStatesHaveNoOutgoing_def
      by (simp add: for_each_Nil [where P = "\<lambda>t. t_from t \<notin> set fs"])
  qed (simp add: validateFinalStatesHaveNoOutgoing_def)
  moreover have "validateInitialInStates sm = [] \<longleftrightarrow> sm_initial sm \<in> set (sm_states sm)"
    by (simp add: validateInitialInStates_def)
  ultimately show ?thesis by (auto simp: rules_hold_def list_all_iff)
qed

lemma severities:
  "e \<in> set (validateInitialInStates sm @ validateTransitionFromInStates sm @ validateTransitionToInStates sm
     @ validateNoDuplicateTransitions sm @ validateFinalStatesHaveNoOutgoing sm) \<Longrightarrow> ve_severity e = ErrorSeverity"
  "e \<in> set (validateReachability sm) \<Longrightarrow> ve_severity e = WarningSeverity"
proof -
  have fe: "e \<in> set (for_each f xs) \<Longrightarrow> (\<And>x i e. f x i = Some e \<Longrightarrow> ve_severity e = sev) \<Longrightarrow> ve_severity e = sev"
    for f :: "'a \<Rightarrow> nat \<Rightarrow> ValidationError option" and xs sev e
    by (rule for_each_severity)
  show "e \<in> set (validateInitialInStates sm @ validateTransitionFromInStates sm @ validateTransitionToInStates sm
     @ validateNoDuplicateTransitions sm @ validateFinalStatesHaveNoOutgoing sm) \<Longrightarrow> ve_severity e = ErrorSeverity"
    by (auto simp: validateInitialInStates_def validateTransitionFromInStates_def validateTransitionToInStates_def
        validateNoDuplicateTransitions_def validateFinalStatesHaveNoOutgoing_def
        intro: scan_severity dest!: for_each_severity [rotated] split: if_splits option.splits)
  show "e \<in> set (validateReachability sm) \<Longrightarrow> ve_severity e = WarningSeverity"
    by (auto simp: validateReachability_def Let_def dest!: for_each_severity [rotated] split: if_splits)
qed

text \<open>C32: the validator reports an error exactly when a rule is broken (the initial state and both ends of
  every transition are declared, no state has two transitions for one event, no final state has a way
  out), and stays silent exactly when, besides, every state can be reached from the initial one.\<close>

theorem validateStateMachine_sound_complete:
  assumes "list_all (\<lambda>t. CHR 0x00 \<notin> set (t_from t)) (sm_transitions sm)"
  shows "(filter (\<lambda>e. ve_severity e = ErrorSeverity) (validateStateMachine sm) = [] \<longleftrightarrow> rules_hold sm)
    \<and> (validateStateMachine sm = [] \<longleftrightarrow>
         rules_hold sm \<and> list_all (\<lambda>s. (sm_initial sm, s) \<in> (edges sm)\<^sup>*) (sm_states sm))"
proof -
  let ?E = "validateInitialInStates sm @ validateTransitionFromInStates sm @ validateTransitionToInStates sm
     @ validateNoDuplicateTransitions sm @ validateFinalStatesHaveNoOutgoing sm"
  have v: "validateStateMachine sm = ?E @ validateReachability sm" by (simp add: validateStateMachine_def)
  have "filter (\<lambda>e. ve_severity e = ErrorSeverity) ?E = ?E" by (rule filter_True) (use severities(1) in blast)
  moreover have "filter (\<lambda>e. ve_severity e = ErrorSeverity) (validateReachability sm) = []"
    by (rule filter_False) (use severities(2) in fastforce)
  ultimately have "filter (\<lambda>e. ve_severity e = ErrorSeverity) (validateStateMachine sm) = ?E"
    unfolding v filter_append by simp
  moreover have "validateReachability sm = [] \<longleftrightarrow> list_all (\<lambda>s. (sm_initial sm, s) \<in> (edges sm)\<^sup>*) (sm_states sm)"
    if "sm_initial sm \<in> set (sm_states sm)"
    using that unfolding validateReachability_def Let_def
    by (simp add: for_each_Nil [where P = "\<lambda>s. s \<in> set (reachable_states sm)"] reachable_states_iff)
  ultimately show ?thesis using error_rules [OF assms] unfolding v by (auto simp: rules_hold_def)
qed

definition demo_machine :: StateMachine where
  "demo_machine = \<lparr>sm_states = [''a'', ''b'', ''c''], sm_initial = ''a'',
     sm_transitions = [\<lparr>t_from = ''a'', t_to = ''b'', t_event = ''go''\<rparr>], sm_final = Some [''b'']\<rparr>"

theorem validateStateMachine_sound_complete_witness:
  "rules_hold demo_machine \<and> map ve_path (validateStateMachine demo_machine) = [''states[2]'']"
proof
  have "filter (\<lambda>e. ve_severity e = ErrorSeverity) (validateStateMachine demo_machine) = []" by code_simp
  moreover have "list_all (\<lambda>t. CHR 0x00 \<notin> set (t_from t)) (sm_transitions demo_machine)" by code_simp
  ultimately show "rules_hold demo_machine" using validateStateMachine_sound_complete by blast
  show "map ve_path (validateStateMachine demo_machine) = [''states[2]'']" by code_simp
qed

end
