(* ===== verification/Mermaid.thy ===== *)
theory Mermaid
  imports StateMachine
begin

text \<open>
  The reader of state diagrams, \<open>src/src/services/state-machines/sm-mermaid-parser.ts\<close>: line by line, every
  line either ignored, taken in, or reported with its number.  The regular expressions of the file are
  anchored character classes and are written as predicates.
\<close>

subsection \<open>Strings\<close>

text \<open>\<open>s.indexOf(pat)\<close>.\<close>

fun index_of :: "string \<Rightarrow> string \<Rightarrow> nat option" where
  "index_of pat [] = (if pat = [] then Some 0 else None)"
| "index_of pat (c # s) =
     (if take (length pat) (c # s) = pat then Some 0 else map_option Suc (index_of pat s))"

definition strip_cr :: "string \<Rightarrow> string" where
  "strip_cr s = (if s \<noteq> [] \<and> last s = CHR 0x0D then butlast s else s)"

text \<open>\<open>text.split(/\r?\n/)\<close>: a carriage return goes with the newline after it.\<close>

definition text_lines :: "string \<Rightarrow> string list" where
  "text_lines t = (let ps = split_on CHR 0x0A t in map strip_cr (butlast ps) @ [last ps])"

definition quoted :: "string \<Rightarrow> string" where
  "quoted s = CHR 0x27 # s @ [CHR 0x27]"

subsection \<open>The reader\<close>

definition ARROW :: string where "ARROW = ''-->''"

definition TERMINAL_MARK :: string where "TERMINAL_MARK = ''[*]''"

definition is_header :: "string \<Rightarrow> bool" where
  "is_header s \<longleftrightarrow> s = ''stateDiagram'' \<or> s = ''stateDiagram-v2''"

definition name_start :: string where
  "name_start = upper_letters @ lower_letters @ ''_''"

definition is_state_name :: "string \<Rightarrow> bool" where
  "is_state_name s = (case s of [] \<Rightarrow> False
     | c # cs \<Rightarrow> c \<in> set name_start \<and> list_all (\<lambda>d. d \<in> set (name_start @ digits10)) cs)"

definition stripComment :: "string \<Rightarrow> string" where
  "stripComment line = (case index_of ''%%'' line of None \<Rightarrow> line | Some idx \<Rightarrow> take idx line)"

record ParseError =
  pe_message :: string
  pe_line :: "nat option"

record reading =
  rd_initial :: "string option"
  rd_final :: "string list"
  rd_transitions :: "Transition list"
  rd_states :: "string list"
  rd_header :: bool
  rd_errors :: "ParseError list"

definition recordState :: "string \<Rightarrow> reading \<Rightarrow> reading" where
  "recordState s st = (if s \<in> set (rd_states st) then st else st\<lparr>rd_states := rd_states st @ [s]\<rparr>)"

definition bad_name :: "string \<Rightarrow> string" where
  "bad_name s = ''invalid state name '' @ tick s"

text \<open>A line taken apart; \<open>Inl\<close> is the message of an error.\<close>

definition read_initial :: "string \<Rightarrow> string option \<Rightarrow> reading \<Rightarrow> string + reading" where
  "read_initial right event st =
     (if \<not> is_state_name right then Inl (bad_name right)
      else if event \<noteq> None then Inl (''initial transition '' @ quoted (''[*] --> '' @ right) @ '' must not have an event label'')
      else case rd_initial st of
             Some s \<Rightarrow> if s \<noteq> right then Inl (''multiple initial states declared: '' @ tick s @ '' and '' @ tick right)
                        else Inr (recordState right (st\<lparr>rd_initial := Some right\<rparr>))
           | None \<Rightarrow> Inr (recordState right (st\<lparr>rd_initial := Some right\<rparr>)))"

definition read_final :: "string \<Rightarrow> string option \<Rightarrow> reading \<Rightarrow> string + reading" where
  "read_final left event st =
     (if \<not> is_state_name left then Inl (bad_name left)
      else if event \<noteq> None then Inl (''final transition '' @ quoted (left @ '' --> [*]'') @ '' must not have an event label'')
      else let st1 = recordState left st
           in Inr (if left \<in> set (rd_final st1) then st1 else st1\<lparr>rd_final := rd_final st1 @ [left]\<rparr>))"

definition read_normal :: "string \<Rightarrow> string \<Rightarrow> string option \<Rightarrow> reading \<Rightarrow> string + reading" where
  "read_normal left right event st =
     (if \<not> is_state_name left then Inl (bad_name left)
      else if \<not> is_state_name right then Inl (bad_name right)
      else case event of
             None \<Rightarrow> Inl (''transition '' @ quoted (left @ '' --> '' @ right) @ '' is missing an event label (use ''
                       @ quoted '': eventName'' @ '')'')
           | Some e \<Rightarrow> Inr (let st1 = recordState right (recordState left st)
                             in st1\<lparr>rd_transitions := rd_transitions st1 @ [\<lparr>t_from = left, t_to = right, t_event = e\<rparr>]\<rparr>))"

definition read_ends :: "string \<Rightarrow> string \<Rightarrow> string option \<Rightarrow> reading \<Rightarrow> string + reading" where
  "read_ends left right event st =
     (if right = [] then Inl ''transition target is empty''
      else if left = TERMINAL_MARK \<and> right = TERMINAL_MARK
      then Inl (''transition '' @ quoted ''[*] --> [*]'' @ '' is not allowed'')
      else if left = TERMINAL_MARK then read_initial right event st
      else if right = TERMINAL_MARK then read_final left event st
      else read_normal left right event st)"

definition read_transition :: "string \<Rightarrow> reading \<Rightarrow> string + reading" where
  "read_transition stripped st =
     (case index_of ARROW stripped of
        None \<Rightarrow> Inl (''expected transition containing '' @ quoted ARROW @ '': '' @ tick stripped)
      | Some k \<Rightarrow>
          let left = js_trim (take k stripped); rest = js_trim (drop (k + length ARROW) stripped) in
          if left = [] then Inl ''transition source is empty''
          else if rest = [] then Inl ''transition target is empty''
          else case index_of '':'' rest of
                 None \<Rightarrow> read_ends left rest None st
               | Some c \<Rightarrow>
                   let event = js_trim (drop (c + 1) rest) in
                   if event = [] then Inl (''transition event label after '' @ quoted '':'' @ '' is empty'')
                   else read_ends left (js_trim (take c rest)) (Some event) st)"

definition read_line :: "nat \<Rightarrow> string \<Rightarrow> reading \<Rightarrow> reading" where
  "read_line ln line st =
     (let stripped = js_trim (stripComment line) in
      if stripped = [] then st
      else if \<not> rd_header st \<and> is_header stripped then st\<lparr>rd_header := True\<rparr>
      else let st1 = st\<lparr>rd_header := True\<rparr>
           in case read_transition stripped st1 of
                Inl msg \<Rightarrow> st1\<lparr>rd_errors := rd_errors st1 @ [\<lparr>pe_message = msg, pe_line = Some ln\<rparr>]\<rparr>
              | Inr st2 \<Rightarrow> st2)"

definition start_reading :: reading where
  "start_reading = \<lparr>rd_initial = None, rd_final = [], rd_transitions = [], rd_states = [], rd_header = False,
     rd_errors = []\<rparr>"

definition read_lines :: "string list \<Rightarrow> reading \<Rightarrow> nat \<Rightarrow> reading" where
  "read_lines ls st n = fold (\<lambda>(line, i) st. read_line i line st) (zip ls [n..<n + length ls]) st"

definition finish_reading :: "reading \<Rightarrow> ParseError list + StateMachine" where
  "finish_reading st =
     (let errors = rd_errors st
            @ (if rd_initial st = None
               then [\<lparr>pe_message = ''missing initial state declaration: '' @ quoted ''[*] --> <state>'', pe_line = None\<rparr>]
               else [])
            @ (if rd_states st = [] then [\<lparr>pe_message = ''no states declared'', pe_line = None\<rparr>] else [])
      in case (errors, rd_initial st) of
           ([], Some i) \<Rightarrow> Inr \<lparr>sm_states = rd_states st, sm_initial = i, sm_transitions = rd_transitions st,
              sm_final = (if rd_final st = [] then None else Some (rd_final st))\<rparr>
         | _ \<Rightarrow> Inl errors)"

definition parseMermaidStateDiagram :: "string \<Rightarrow> ParseError list + StateMachine" where
  "parseMermaidStateDiagram text = finish_reading (read_lines (text_lines text) start_reading 1)"

subsection \<open>What is read is well formed\<close>

definition reading_ok :: "reading \<Rightarrow> bool" where
  "reading_ok st \<longleftrightarrow> distinct (rd_states st) \<and> list_all is_state_name (rd_states st)
     \<and> set_option (rd_initial st) \<subseteq> set (rd_states st)
     \<and> distinct (rd_final st) \<and> set (rd_final st) \<subseteq> set (rd_states st)
     \<and> list_all (\<lambda>t. t_from t \<in> set (rd_states st) \<and> t_to t \<in> set (rd_states st) \<and> t_event t \<noteq> [])
         (rd_transitions st)"

lemma record_ok: "reading_ok st \<Longrightarrow> is_state_name s \<Longrightarrow> reading_ok (recordState s st)"
  by (auto simp: reading_ok_def recordState_def list_all_iff)

lemma record_mem: "s \<in> set (rd_states (recordState s st))"
  by (simp add: recordState_def)

lemma record_keeps [simp]:
  "rd_initial (recordState s st) = rd_initial st" "rd_final (recordState s st) = rd_final st"
  "rd_transitions (recordState s st) = rd_transitions st" "rd_errors (recordState s st) = rd_errors st"
  "rd_header (recordState s st) = rd_header st"
  by (simp_all add: recordState_def)

lemma record_states: "set (rd_states (recordState s st)) = insert s (set (rd_states st))"
  by (auto simp: recordState_def)

lemma read_initial_ok:
  assumes "reading_ok st" "read_initial right event st = Inr st'"
  shows "reading_ok st'"
proof -
  have n: "is_state_name right" and st': "st' = recordState right (st\<lparr>rd_initial := Some right\<rparr>)"
    using assms(2) by (auto simp: read_initial_def split: if_splits option.splits)
  show ?thesis using record_ok [OF assms(1) n] unfolding st' reading_ok_def recordState_def by auto
qed

lemma read_final_ok:
  assumes "reading_ok st" "read_final left event st = Inr st'"
  shows "reading_ok st'"
proof -
  have n: "is_state_name left" using assms(2) by (auto simp: read_final_def split: if_splits)
  show ?thesis using record_ok [OF assms(1) n] assms(2) record_mem [of left st]
    by (auto simp: read_final_def Let_def reading_ok_def split: if_splits)
qed

lemma read_normal_ok:
  assumes "reading_ok st" "read_normal left right event st = Inr st'" "event \<noteq> Some []"
  shows "reading_ok st'"
proof -
  have n: "is_state_name left" "is_state_name right" using assms(2) by (auto simp: read_normal_def split: if_splits)
  show ?thesis using record_ok [OF record_ok [OF assms(1) n(1)] n(2)] assms(2,3)
    by (auto simp: read_normal_def Let_def reading_ok_def record_states split: if_splits option.splits)
qed

lemma read_transition_ok: "reading_ok st \<Longrightarrow> read_transition stripped st = Inr st' \<Longrightarrow> reading_ok st'"
  by (auto simp: read_transition_def read_ends_def Let_def
      intro: read_initial_ok read_final_ok read_normal_ok split: option.splits if_splits)

lemma read_line_ok:
  assumes "reading_ok st"
  shows "reading_ok (read_line ln line st)"
proof -
  have h: "reading_ok (st\<lparr>rd_header := True\<rparr>)" using assms by (simp add: reading_ok_def)
  have e: "reading_ok (s\<lparr>rd_errors := es\<rparr>) = reading_ok s" for s es by (simp add: reading_ok_def)
  show ?thesis using assms h read_transition_ok [OF h]
    by (simp add: read_line_def Let_def e split: sum.split)
qed

lemma read_lines_ok: "reading_ok st \<Longrightarrow> reading_ok (read_lines ls st n)"
proof -
  have "reading_ok st \<Longrightarrow> reading_ok (fold (\<lambda>(line, i) st. read_line i line st) ps st)" for ps st
    by (induction ps arbitrary: st) (auto simp: read_line_ok)
  then show "reading_ok st \<Longrightarrow> reading_ok (read_lines ls st n)" by (simp add: read_lines_def)
qed

text \<open>A diagram that is accepted gives a machine whose states are distinct legal names and which refers
  to declared states only, so that the validator's three rules about declared states cannot fail.\<close>

theorem parseMermaid_well_formed:
  assumes "parseMermaidStateDiagram text = Inr sm"
  shows "distinct (sm_states sm) \<and> list_all is_state_name (sm_states sm)
    \<and> (case sm_final sm of None \<Rightarrow> True | Some fs \<Rightarrow> fs \<noteq> [] \<and> distinct fs \<and> set fs \<subseteq> set (sm_states sm))
    \<and> validateInitialInStates sm = [] \<and> validateTransitionFromInStates sm = []
    \<and> validateTransitionToInStates sm = []"
proof -
  let ?st = "read_lines (text_lines text) start_reading 1"
  have "reading_ok start_reading" by (simp add: reading_ok_def start_reading_def)
  then have ok: "reading_ok ?st" by (rule read_lines_ok)
  obtain i where i: "rd_initial ?st = Some i" and sm: "sm = \<lparr>sm_states = rd_states ?st, sm_initial = i,
      sm_transitions = rd_transitions ?st, sm_final = (if rd_final ?st = [] then None else Some (rd_final ?st))\<rparr>"
    using assms by (auto simp: parseMermaidStateDiagram_def finish_reading_def Let_def split: list.splits option.splits if_splits)
  have "validateTransitionFromInStates sm = [] \<longleftrightarrow> list_all (\<lambda>t. t_from t \<in> set (sm_states sm)) (sm_transitions sm)"
    unfolding validateTransitionFromInStates_def by (rule for_each_Nil) simp
  moreover have "validateTransitionToInStates sm = [] \<longleftrightarrow> list_all (\<lambda>t. t_to t \<in> set (sm_states sm)) (sm_transitions sm)"
    unfolding validateTransitionToInStates_def by (rule for_each_Nil) simp
  ultimately show ?thesis using ok i unfolding reading_ok_def
    by (auto simp: sm validateInitialInStates_def list_all_iff)
qed

definition demo_diagram :: string where
  "demo_diagram = join_on CHR 0x0A [''stateDiagram-v2'', ''[*] --> a'', ''a --> b : go  %% note'', ''b --> [*]'']"

theorem parseMermaid_well_formed_witness:
  "validateTransitionToInStates \<lparr>sm_states = [''a'', ''b''], sm_initial = ''a'',
     sm_transitions = [\<lparr>t_from = ''a'', t_to = ''b'', t_event = ''go''\<rparr>], sm_final = Some [''b'']\<rparr> = []"
proof -
  have "parseMermaidStateDiagram demo_diagram = Inr \<lparr>sm_states = [''a'', ''b''], sm_initial = ''a'',
     sm_transitions = [\<lparr>t_from = ''a'', t_to = ''b'', t_event = ''go''\<rparr>], sm_final = Some [''b'']\<rparr>" by code_simp
  then show ?thesis using parseMermaid_well_formed by blast
qed

subsection \<open>Every machine can be written\<close>

lemma index_skip: "p \<notin> set u \<Longrightarrow> index_of (p # ps) (u @ v) = map_option ((+) (length u)) (index_of (p # ps) v)"
proof (induction u)
  case Nil
  show ?case by (cases "index_of (p # ps) v") simp_all
next
  case (Cons a u)
  then show ?case by (cases "index_of (p # ps) v") auto
qed

lemma index_none: "p \<notin> set u \<Longrightarrow> index_of (p # ps) u = None"
  by (induction u) auto

lemma index_here: "index_of (p # ps) (p # ps @ v) = Some 0"
  by simp

lemma name_chars_plain:
  "list_all (\<lambda>c. \<not> is_ws c \<and> c \<noteq> CHR ''-'' \<and> c \<noteq> CHR '':'' \<and> c \<noteq> CHR ''%'' \<and> c \<noteq> CHR ''['' \<and> c \<noteq> CHR 0x0A)
     (name_start @ digits10)"
  by code_simp

lemma name_char:
  assumes "is_state_name s" "c \<in> set s"
  shows "\<not> is_ws c \<and> c \<noteq> CHR ''-'' \<and> c \<noteq> CHR '':'' \<and> c \<noteq> CHR ''%'' \<and> c \<noteq> CHR ''['' \<and> c \<noteq> CHR 0x0A"
proof -
  have "c \<in> set (name_start @ digits10)" using assms by (cases s) (auto simp: is_state_name_def list_all_iff)
  then show ?thesis using name_chars_plain by (auto simp: list_all_iff)
qed

lemma name_nonempty: "is_state_name s \<Longrightarrow> s \<noteq> []"
  by (auto simp: is_state_name_def)

text \<open>Text that \<open>trim\<close> leaves alone.\<close>

definition trimmed :: "string \<Rightarrow> bool" where
  "trimmed s \<longleftrightarrow> s \<noteq> [] \<and> \<not> is_ws (hd s) \<and> \<not> is_ws (last s)"

lemma trim_id: "trimmed s \<Longrightarrow> js_trim s = s"
  by (simp add: trimmed_def js_trim_id)

lemma space_ws: "is_ws CHR '' ''"
  by code_simp

lemma trim_right: "trimmed s \<Longrightarrow> js_trim (s @ '' '') = s"
proof -
  assume t: "trimmed s"
  have "dropWhile is_ws (s @ '' '') = s @ '' ''" using t by (cases s) (auto simp: trimmed_def)
  then have "js_trim (s @ '' '') = rev (dropWhile is_ws (rev s))" by (simp add: js_trim_def space_ws)
  also have "\<dots> = s" using t by (simp add: trimmed_def dropWhile_hd_id hd_rev)
  finally show ?thesis .
qed

lemma trim_left: "trimmed s \<Longrightarrow> js_trim (CHR '' '' # s) = s"
proof -
  assume t: "trimmed s"
  have "js_trim (CHR '' '' # s) = js_trim s" by (simp add: js_trim_def space_ws)
  then show ?thesis using t by (simp add: trim_id)
qed

lemma name_trimmed: "is_state_name s \<Longrightarrow> trimmed s"
  using name_char name_nonempty by (auto simp: trimmed_def)

lemma trimmed_append: "trimmed s \<Longrightarrow> trimmed t \<Longrightarrow> trimmed (s @ u @ t)"
  by (auto simp: trimmed_def)

lemma no_comment: "CHR ''%'' \<notin> set u \<Longrightarrow> index_of ''%%'' e = None \<Longrightarrow> stripComment (u @ e) = u @ e"
  by (simp add: stripComment_def index_skip)

definition event_ok :: "string \<Rightarrow> bool" where
  "event_ok e \<longleftrightarrow> trimmed e \<and> CHR 0x0A \<notin> set e \<and> index_of ''%%'' e = None"

definition transition_line :: "Transition \<Rightarrow> string" where
  "transition_line t = t_from t @ '' --> '' @ t_to t @ '' : '' @ t_event t"

lemma read_transition_line:
  assumes f: "is_state_name (t_from t)" and g: "is_state_name (t_to t)" and e: "trimmed (t_event t)"
  shows "read_transition (transition_line t) st = read_ends (t_from t) (t_to t) (Some (t_event t)) st"
proof -
  have dash: "CHR ''-'' \<notin> set (t_from t @ '' '')" using name_char [OF f] by auto
  have colon: "CHR '':'' \<notin> set (t_to t @ '' '')" using name_char [OF g] by auto
  have line: "transition_line t = (t_from t @ '' '') @ ''-->'' @ '' '' @ t_to t @ '' : '' @ t_event t"
    by (simp add: transition_line_def)
  have arrow: "index_of ARROW (transition_line t) = Some (length (t_from t @ '' ''))"
    unfolding line ARROW_def by (subst index_skip [OF dash]) simp
  have left: "js_trim (take (length (t_from t @ '' '')) (transition_line t)) = t_from t"
    unfolding line by (simp only: append_eq_conv_conj [THEN iffD1, OF refl, THEN conjunct1, symmetric] take_append)
      (simp add: trim_right [OF name_trimmed [OF f]])
  have tail: "trimmed (t_to t @ '' : '' @ t_event t)" by (rule trimmed_append [OF name_trimmed [OF g] e])
  have rest: "js_trim (drop (length (t_from t @ '' '') + length ARROW) (transition_line t)) = t_to t @ '' : '' @ t_event t"
    using trim_left [OF tail] by (simp add: line ARROW_def)
  have c: "index_of '':'' (t_to t @ '' : '' @ t_event t) = Some (length (t_to t @ '' ''))"
    using index_skip [OF colon, of "[]" "'':'' @ '' '' @ t_event t"] by simp
  have ev: "js_trim (drop (length (t_to t @ '' '') + 1) (t_to t @ '' : '' @ t_event t)) = t_event t"
    using trim_left [OF e] by simp
  have right: "js_trim (take (length (t_to t @ '' '')) (t_to t @ '' : '' @ t_event t)) = t_to t"
    using trim_right [OF name_trimmed [OF g]] by simp
  show ?thesis unfolding read_transition_def
    using name_nonempty [OF f] name_nonempty [OF g] e
    by (simp only: arrow left rest c ev right option.case Let_def if_False append_is_Nil_conv trimmed_def simp_thms)
qed

definition initial_line :: "string \<Rightarrow> string" where
  "initial_line i = ''[*] --> '' @ i"

definition final_line :: "string \<Rightarrow> string" where
  "final_line f = f @ '' --> [*]''"

lemma mark_trims: "js_trim ''[*] '' = TERMINAL_MARK" "js_trim '' [*]'' = TERMINAL_MARK"
    "trimmed ''[*] -->''" "trimmed ''-->'' " "trimmed ''--> [*]''" "TERMINAL_MARK \<noteq> []" "index_of '':'' TERMINAL_MARK = None"
  by code_simp+

lemma read_initial_line:
  assumes i: "is_state_name i"
  shows "read_transition (initial_line i) st = read_ends TERMINAL_MARK i None st"
proof -
  have line: "initial_line i = ''[*] '' @ ''-->'' @ CHR '' '' # i" by (simp add: initial_line_def)
  have arrow: "index_of ARROW (initial_line i) = Some 4"
    unfolding line ARROW_def by (subst index_skip) simp_all
  have left: "js_trim (take 4 (initial_line i)) = TERMINAL_MARK" using mark_trims(1) by (simp add: line)
  have rest: "js_trim (drop (4 + length ARROW) (initial_line i)) = i"
    using trim_left [OF name_trimmed [OF i]] by (simp add: line ARROW_def)
  have c: "index_of '':'' i = None" by (rule index_none) (use name_char [OF i] in auto)
  show ?thesis unfolding read_transition_def
    by (simp only: arrow left rest c option.case Let_def mark_trims(6) name_nonempty [OF i] if_False)
qed

lemma read_final_line:
  assumes f: "is_state_name f"
  shows "read_transition (final_line f) st = read_ends f TERMINAL_MARK None st"
proof -
  have dash: "CHR ''-'' \<notin> set (f @ '' '')" using name_char [OF f] by auto
  have line: "final_line f = (f @ '' '') @ ''-->'' @ '' [*]''" by (simp add: final_line_def)
  have arrow: "index_of ARROW (final_line f) = Some (length (f @ '' ''))"
    unfolding line ARROW_def by (subst index_skip [OF dash]) simp
  have left: "js_trim (take (length (f @ '' '')) (final_line f)) = f"
    using trim_right [OF name_trimmed [OF f]] by (simp add: line)
  have rest: "js_trim (drop (length (f @ '' '') + length ARROW) (final_line f)) = TERMINAL_MARK"
    using mark_trims(2) by (simp add: line ARROW_def)
  show ?thesis unfolding read_transition_def
    by (simp only: arrow left rest mark_trims(6,7) option.case Let_def name_nonempty [OF f] if_False)
qed

definition mention :: "string \<Rightarrow> string list \<Rightarrow> string list" where
  "mention s ss = (if s \<in> set ss then ss else ss @ [s])"

text \<open>What has been read so far, without an error.\<close>

definition so_far :: "string option \<Rightarrow> string list \<Rightarrow> Transition list \<Rightarrow> string list \<Rightarrow> reading" where
  "so_far i fs ts ss = \<lparr>rd_initial = i, rd_final = fs, rd_transitions = ts, rd_states = ss, rd_header = True,
     rd_errors = []\<rparr>"

lemma read_plain_line:
  assumes "stripComment line = line" "trimmed line" "read_transition line (so_far i fs ts ss) = Inr st'"
  shows "read_line n line (so_far i fs ts ss) = st'"
proof -
  have "line \<noteq> []" using assms(2) by (simp add: trimmed_def)
  moreover have "(so_far i fs ts ss)\<lparr>rd_header := True\<rparr> = so_far i fs ts ss" by (simp add: so_far_def)
  ultimately show ?thesis using assms(3)
    by (simp add: read_line_def assms(1) trim_id [OF assms(2)]) (simp add: so_far_def)
qed

lemma no_percent: "CHR ''%'' \<notin> set u \<Longrightarrow> stripComment u = u"
  using no_comment [of u "[]"] by simp

lemma name_not_mark: "is_state_name s \<Longrightarrow> s \<noteq> TERMINAL_MARK"
  using name_char [of s "CHR ''[''"] by (auto simp: TERMINAL_MARK_def)

lemma line_initial:
  assumes i: "is_state_name i"
  shows "read_line n (initial_line i) (so_far None [] [] []) = so_far (Some i) [] [] [i]"
proof (rule read_plain_line)
  have "CHR ''%'' \<notin> set (initial_line i)" using name_char [OF i] by (auto simp: initial_line_def)
  then show "stripComment (initial_line i) = initial_line i" by (rule no_percent)
  show "trimmed (initial_line i)"
    using trimmed_append [OF mark_trims(3) name_trimmed [OF i], of "'' ''"] by (simp add: initial_line_def)
  show "read_transition (initial_line i) (so_far None [] [] []) = Inr (so_far (Some i) [] [] [i])"
    using i name_not_mark [OF i] name_nonempty [OF i]
    by (simp add: read_initial_line [OF i] read_ends_def read_initial_def recordState_def so_far_def)
qed

lemma line_final:
  assumes f: "is_state_name f" and new: "f \<notin> set fs"
  shows "read_line n (final_line f) (so_far i fs ts ss) = so_far i (fs @ [f]) ts (mention f ss)"
proof (rule read_plain_line)
  have "CHR ''%'' \<notin> set (final_line f)" using name_char [OF f] by (auto simp: final_line_def)
  then show "stripComment (final_line f) = final_line f" by (rule no_percent)
  show "trimmed (final_line f)"
    using trimmed_append [OF name_trimmed [OF f] mark_trims(5), of "'' ''"] by (simp add: final_line_def)
  show "read_transition (final_line f) (so_far i fs ts ss) = Inr (so_far i (fs @ [f]) ts (mention f ss))"
    using f new name_not_mark [OF f] mark_trims(6)
    by (simp add: read_final_line [OF f] read_ends_def read_final_def recordState_def so_far_def mention_def Let_def)
qed

lemma line_transition:
  assumes f: "is_state_name (t_from t)" and g: "is_state_name (t_to t)" and e: "event_ok (t_event t)"
  shows "read_line n (transition_line t) (so_far i fs ts ss)
    = so_far i fs (ts @ [t]) (mention (t_to t) (mention (t_from t) ss))"
proof (rule read_plain_line)
  have te: "trimmed (t_event t)" "index_of ''%%'' (t_event t) = None" using e by (simp_all add: event_ok_def)
  have "CHR ''%'' \<notin> set (t_from t @ '' --> '' @ t_to t @ '' : '')"
    using name_char [OF f] name_char [OF g] by auto
  from no_comment [OF this te(2)]
  show "stripComment (transition_line t) = transition_line t" by (simp add: transition_line_def)
  show "trimmed (transition_line t)"
    using trimmed_append [OF name_trimmed [OF f] te(1), of "'' --> '' @ t_to t @ '' : ''"]
    by (simp add: transition_line_def)
  show "read_transition (transition_line t) (so_far i fs ts ss)
      = Inr (so_far i fs (ts @ [t]) (mention (t_to t) (mention (t_from t) ss)))"
    using f g te name_not_mark [OF f] name_not_mark [OF g] name_nonempty [OF g]
    by (simp add: read_transition_line [OF f g te(1)] read_ends_def read_normal_def recordState_def so_far_def
        mention_def Let_def)
qed

lemma read_lines_Cons: "read_lines (l # ls) st n = read_lines ls (read_line n l st) (n + 1)"
proof -
  have "[n..<n + length (l # ls)] = n # [n + 1..<n + 1 + length ls]" by (subst upt_conv_Cons) simp_all
  then show ?thesis by (simp only: read_lines_def zip_Cons_Cons fold_simps case_prod_conv)
qed

lemma read_lines_Nil [simp]: "read_lines [] st n = st"
  by (simp add: read_lines_def)

lemma read_lines_append: "read_lines (ls @ ms) st n = read_lines ms (read_lines ls st n) (n + length ls)"
  by (induction ls arbitrary: st n) (simp_all add: read_lines_Cons)

definition writable :: "Transition \<Rightarrow> bool" where
  "writable t \<longleftrightarrow> is_state_name (t_from t) \<and> is_state_name (t_to t) \<and> event_ok (t_event t)"

definition mention_all :: "Transition list \<Rightarrow> string list \<Rightarrow> string list" where
  "mention_all ts ss = fold (\<lambda>t ss. mention (t_to t) (mention (t_from t) ss)) ts ss"

lemma read_transitions:
  "list_all writable ts \<Longrightarrow>
    read_lines (map transition_line ts) (so_far i fs us ss) n = so_far i fs (us @ ts) (mention_all ts ss)"
  by (induction ts arbitrary: us ss n)
    (simp_all add: read_lines_Cons line_transition writable_def mention_all_def)

lemma read_finals:
  "list_all is_state_name gs \<Longrightarrow> distinct gs \<Longrightarrow> set fs \<inter> set gs = {} \<Longrightarrow>
    read_lines (map final_line gs) (so_far i fs ts ss) n = so_far i (fs @ gs) ts (fold mention gs ss)"
  by (induction gs arbitrary: fs ss n) (simp_all add: read_lines_Cons line_final)

definition finals_of :: "StateMachine \<Rightarrow> string list" where
  "finals_of sm = (case sm_final sm of None \<Rightarrow> [] | Some fs \<Rightarrow> fs)"

definition diagram_lines :: "StateMachine \<Rightarrow> string list" where
  "diagram_lines sm = ''stateDiagram-v2'' # initial_line (sm_initial sm)
     # map transition_line (sm_transitions sm) @ map final_line (finals_of sm)"

definition diagram :: "StateMachine \<Rightarrow> string" where
  "diagram sm = join_on CHR 0x0A (diagram_lines sm)"

text \<open>The states in the order in which the diagram names them.\<close>

definition named_states :: "StateMachine \<Rightarrow> string list" where
  "named_states sm = fold mention (finals_of sm) (mention_all (sm_transitions sm) [sm_initial sm])"

lemma line_shape:
  assumes "is_state_name (sm_initial sm)" "list_all writable (sm_transitions sm)" "list_all is_state_name (finals_of sm)"
    and "l \<in> set (diagram_lines sm)"
  shows "CHR 0x0A \<notin> set l \<and> strip_cr l = l"
proof -
  have cr: "trimmed s \<Longrightarrow> strip_cr s = s" for s
  proof -
    assume "trimmed s"
    moreover have "is_ws CHR 0x0D" by code_simp
    ultimately show ?thesis by (auto simp: strip_cr_def trimmed_def)
  qed
  have names: "CHR 0x0A \<notin> set s" if "is_state_name s" for s using name_char [OF that] by blast
  consider "l = ''stateDiagram-v2''" | "l = initial_line (sm_initial sm)"
    | t where "t \<in> set (sm_transitions sm)" "l = transition_line t" | f where "f \<in> set (finals_of sm)" "l = final_line f"
    using assms(4) by (auto simp: diagram_lines_def)
  then show ?thesis
  proof cases
    case 1
    show ?thesis unfolding 1 by code_simp
  next
    case 2
    have "trimmed l" using trimmed_append [OF mark_trims(3) name_trimmed [OF assms(1)], of "'' ''"]
      by (simp add: 2 initial_line_def)
    then show ?thesis using names [OF assms(1)] by (auto simp: 2 initial_line_def cr)
  next
    case 3
    then have w: "is_state_name (t_from t)" "is_state_name (t_to t)" "event_ok (t_event t)"
      using assms(2) by (simp_all add: list_all_iff writable_def)
    then have "trimmed l"
      using trimmed_append [OF name_trimmed, of "t_from t" "t_event t" "'' --> '' @ t_to t @ '' : ''"]
      by (simp add: 3 transition_line_def event_ok_def)
    then show ?thesis using names [OF w(1)] names [OF w(2)] w(3) by (auto simp: 3 transition_line_def event_ok_def cr)
  next
    case 4
    then have f: "is_state_name f" using assms(3) by (simp add: list_all_iff)
    have "trimmed l" using trimmed_append [OF name_trimmed [OF f] mark_trims(5), of "'' ''"] by (simp add: 4 final_line_def)
    then show ?thesis using names [OF f] by (auto simp: 4 final_line_def cr)
  qed
qed

lemma text_lines_diagram:
  assumes "is_state_name (sm_initial sm)" "list_all writable (sm_transitions sm)" "list_all is_state_name (finals_of sm)"
  shows "text_lines (diagram sm) = diagram_lines sm"
proof -
  note shape = line_shape [OF assms]
  have ne: "diagram_lines sm \<noteq> []" by (simp add: diagram_lines_def)
  have "split_on CHR 0x0A (diagram sm) = diagram_lines sm"
    unfolding diagram_def by (rule split_on_join [OF ne]) (use shape in blast)
  moreover have "map strip_cr (butlast (diagram_lines sm)) = butlast (diagram_lines sm)"
    by (rule map_idI) (use shape in \<open>auto dest: in_set_butlastD\<close>)
  ultimately show ?thesis using ne by (simp add: text_lines_def)
qed

text \<open>C33: every machine can be written as a diagram that is read back as it was: names as the reader wants
  them, events that are trimmed and free of newlines and comment marks, distinct final states, and the
  states listed in the order in which the diagram names them.\<close>

theorem parseMermaid_diagram:
  assumes "is_state_name (sm_initial sm)" "list_all writable (sm_transitions sm)"
    and "list_all is_state_name (finals_of sm)" "distinct (finals_of sm)" "sm_final sm \<noteq> Some []"
    and "sm_states sm = named_states sm"
  shows "parseMermaidStateDiagram (diagram sm) = Inr sm"
proof -
  let ?i = "sm_initial sm" and ?ts = "sm_transitions sm" and ?fs = "finals_of sm"
  have head: "read_line n ''stateDiagram-v2'' start_reading = so_far None [] [] []" for n
    by code_simp
  have "read_lines (text_lines (diagram sm)) start_reading 1 = so_far (Some ?i) ?fs ?ts (named_states sm)"
    by (simp add: text_lines_diagram [OF assms(1-3)] diagram_lines_def read_lines_Cons read_lines_append head
        line_initial [OF assms(1)] read_transitions [OF assms(2)] read_finals [OF assms(3,4)] named_states_def)
  moreover have "named_states sm \<noteq> []"
  proof -
    have "?i \<in> set (fold mention gs ss)" if "?i \<in> set ss" for gs ss
      using that by (induction gs arbitrary: ss) (simp_all add: mention_def)
    moreover have "?i \<in> set (mention_all us ss)" if "?i \<in> set ss" for us ss
      using that by (induction us arbitrary: ss) (simp_all add: mention_all_def mention_def)
    ultimately have "?i \<in> set (named_states sm)" by (simp add: named_states_def)
    then show ?thesis by auto
  qed
  moreover have "sm_final sm = (if ?fs = [] then None else Some ?fs)"
    using assms(5) by (auto simp: finals_of_def split: option.splits)
  ultimately have "parseMermaidStateDiagram (diagram sm) = Inr \<lparr>sm_states = sm_states sm, sm_initial = ?i,
      sm_transitions = ?ts, sm_final = sm_final sm\<rparr>"
    unfolding assms(6) by (simp add: parseMermaidStateDiagram_def finish_reading_def so_far_def)
  then show ?thesis by simp
qed

definition demo_written :: StateMachine where
  "demo_written = \<lparr>sm_states = [''a'', ''b''], sm_initial = ''a'',
     sm_transitions = [\<lparr>t_from = ''a'', t_to = ''b'', t_event = ''go: now''\<rparr>], sm_final = Some [''b'']\<rparr>"

theorem parseMermaid_diagram_witness:
  "parseMermaidStateDiagram (diagram demo_written) = Inr demo_written"
  by (rule parseMermaid_diagram; code_simp)

end
