(* ===== verification/Mission.thy ===== *)
theory Mission
  imports JsString Complex_Main
begin

text \<open>
  The mission supervisor: the budget kill switch (\<open>src/src/services/missions/budget-enforcer.ts\<close>), the depth
  guard (\<open>max-depth-guard.ts\<close>), the composer of both (\<open>guarded-evaluate.ts\<close>), the schema of what the model
  may answer (\<open>proposal-schema.ts\<close>) and the evaluation of one trigger (\<open>supervisor.ts\<close>).  The prompt, the
  model and the broadcasts are outside: a reply is any text with any cost.  The evaluator runs between two
  stretches of code, \<open>guarded_begin\<close> and \<open>guarded_end\<close>, and other evaluations may come in between.  The
  spend ratio is a rational; the 0.8 of the code is the same test for all budgets below \<open>2 ^ 50\<close>.
\<close>

subsection \<open>Values that are not to be trusted\<close>

datatype js_number = NaN | PosInfinity | NegInfinity | Finite rat

datatype raw = NoNumber | Number js_number

subsection \<open>Tables\<close>

record mission =
  mn_status :: string
  mn_objective :: string
  mn_budgetTokens :: int
  mn_budgetCents :: int
  mn_spentTokens :: int
  mn_spentCents :: int

record mission_event =
  me_mission :: string
  me_kind :: string
  me_payload :: jobj
  me_tokens :: int
  me_cents :: int
  me_depth :: int

record mission_db =
  md_missions :: "(string \<times> mission) list"
  md_events :: "mission_event list"

definition mission_of :: "string \<Rightarrow> mission_db \<Rightarrow> mission option" where
  "mission_of m db = map_of (md_missions db) m"

definition set_mission :: "string \<Rightarrow> mission \<Rightarrow> mission_db \<Rightarrow> mission_db" where
  "set_mission m r db = db\<lparr>md_missions := AList.update m r (md_missions db)\<rparr>"

definition add_event :: "mission_event \<Rightarrow> mission_db \<Rightarrow> mission_db" where
  "add_event e db = db\<lparr>md_events := md_events db @ [e]\<rparr>"

datatype mission_error = MissionNotFound string
  | DeltaNotANumber string | DeltaNaN string | DeltaNotFinite string | DeltaNotInteger string
  | DeltaNegative string | DeltaTooLarge string | EvaluatorFailed string

subsection \<open>The budget\<close>

record budget_result =
  br_allowed :: bool
  br_warn :: bool
  br_remainingTokens :: int
  br_remainingCents :: int

definition WARN_THRESHOLD :: rat where "WARN_THRESHOLD = 4 / 5"

definition MAX_DELTA :: int where "MAX_DELTA = 2147483647"

definition spend_ratio :: "int \<Rightarrow> int \<Rightarrow> rat" where
  "spend_ratio spent budget = (if budget > 0 then of_int spent / of_int budget else 0)"

definition exhausted :: "mission \<Rightarrow> bool" where
  "exhausted r \<longleftrightarrow> mn_spentTokens r \<ge> mn_budgetTokens r \<or> mn_spentCents r \<ge> mn_budgetCents r"

definition computeResult :: "mission \<Rightarrow> budget_result" where
  "computeResult r =
     \<lparr>br_allowed = (mn_status r \<noteq> ''paused'' \<and> \<not> exhausted r),
      br_warn = (spend_ratio (mn_spentTokens r) (mn_budgetTokens r) \<ge> WARN_THRESHOLD
                 \<or> spend_ratio (mn_spentCents r) (mn_budgetCents r) \<ge> WARN_THRESHOLD),
      br_remainingTokens = max 0 (mn_budgetTokens r - mn_spentTokens r),
      br_remainingCents = max 0 (mn_budgetCents r - mn_spentCents r)\<rparr>"

definition readMission :: "string \<Rightarrow> mission_db \<Rightarrow> mission_error + mission" where
  "readMission m db = (case mission_of m db of None \<Rightarrow> Inl (MissionNotFound m) | Some r \<Rightarrow> Inr r)"

definition check :: "string \<Rightarrow> mission_db \<Rightarrow> mission_error + budget_result" where
  "check m db = (case readMission m db of Inl e \<Rightarrow> Inl e | Inr r \<Rightarrow> Inr (computeResult r))"

fun validateField :: "string \<Rightarrow> raw \<Rightarrow> mission_error + int" where
  "validateField name NoNumber = Inl (DeltaNotANumber name)"
| "validateField name (Number NaN) = Inl (DeltaNaN name)"
| "validateField name (Number PosInfinity) = Inl (DeltaNotFinite name)"
| "validateField name (Number NegInfinity) = Inl (DeltaNotFinite name)"
| "validateField name (Number (Finite q)) =
     (if of_int \<lfloor>q\<rfloor> \<noteq> q then Inl (DeltaNotInteger name)
      else if q < 0 then Inl (DeltaNegative name)
      else if q > of_int MAX_DELTA then Inl (DeltaTooLarge name)
      else Inr \<lfloor>q\<rfloor>)"

record delta =
  dl_tokens :: raw
  dl_cents :: raw

definition validateDelta :: "delta \<Rightarrow> mission_error + int \<times> int" where
  "validateDelta d =
     (case validateField ''tokens'' (dl_tokens d) of
        Inl e \<Rightarrow> Inl e
      | Inr t \<Rightarrow> (case validateField ''cents'' (dl_cents d) of Inl e \<Rightarrow> Inl e | Inr c \<Rightarrow> Inr (t, c)))"

text \<open>The transaction of \<open>increment\<close>, on a delta that has been validated.\<close>

definition spend :: "string \<Rightarrow> int \<times> int \<Rightarrow> mission_db \<Rightarrow> mission_error + budget_result \<times> mission_db" where
  "spend m d db =
     (case readMission m db of
        Inl e \<Rightarrow> Inl e
      | Inr r \<Rightarrow>
          let newTokens = mn_spentTokens r + fst d; newCents = mn_spentCents r + snd d;
              wasPaused = (mn_status r = ''paused'');
              willHalt = (newTokens \<ge> mn_budgetTokens r \<or> newCents \<ge> mn_budgetCents r);
              transitionsToPaused = (willHalt \<and> \<not> wasPaused);
              r1 = r\<lparr>mn_spentTokens := newTokens, mn_spentCents := newCents,
                     mn_status := (if transitionsToPaused then ''paused'' else mn_status r)\<rparr>;
              db1 = set_mission m r1 db;
              db2 = (if transitionsToPaused
                     then add_event \<lparr>me_mission = m, me_kind = ''budget_exceeded'',
                            me_payload = [(''spent_tokens'', JNum newTokens), (''spent_usd_cents'', JNum newCents),
                              (''budget_tokens'', JNum (mn_budgetTokens r)), (''budget_usd_cents'', JNum (mn_budgetCents r)),
                              (''delta_tokens'', JNum (fst d)), (''delta_cents'', JNum (snd d))],
                            me_tokens = fst d, me_cents = snd d, me_depth = 0\<rparr> db1
                     else db1)
          in Inr (computeResult r1, db2))"

definition increment :: "string \<Rightarrow> delta \<Rightarrow> mission_db \<Rightarrow> mission_error + budget_result \<times> mission_db" where
  "increment m d db = (case validateDelta d of Inl e \<Rightarrow> Inl e | Inr v \<Rightarrow> spend m v db)"

subsection \<open>The depth\<close>

definition MAX_ALLOWED_DEPTH :: int where "MAX_ALLOWED_DEPTH = 2"

fun coerceDepth :: "raw \<Rightarrow> int" where
  "coerceDepth (Number (Finite q)) = (if q < 0 then 0 else \<lfloor>q\<rfloor>)"
| "coerceDepth _ = 0"

record trigger =
  tg_kind :: string
  tg_depth :: raw
  tg_payload :: jobj

definition trigger_depth :: "trigger \<Rightarrow> int" where
  "trigger_depth t = (if tg_kind t = ''remediation'' then coerceDepth (tg_depth t) else coerceDepth (Number (Finite 0)))"

text \<open>\<open>MaxDepthGuard.check\<close>: the depth, and the event it hands to its sink when it refuses.\<close>

definition depth_check :: "trigger \<Rightarrow> int \<times> jobj option" where
  "depth_check t =
     (let depth = trigger_depth t in
      (depth, if depth > MAX_ALLOWED_DEPTH
              then Some (AList.update ''trigger_kind'' (JStr (tg_kind t))
                          (AList.update ''max_allowed_depth'' (JNum MAX_ALLOWED_DEPTH)
                            (AList.update ''depth'' (JNum depth) (tg_payload t))))
              else None))"

subsection \<open>The composer\<close>

datatype deny_reason = Paused | BudgetExhausted | DepthExceeded

record guard_context =
  gc_mission :: string
  gc_trigger :: trigger
  gc_depth :: int
  gc_budget :: budget_result

record evaluation =
  ev_proposal :: "jval option"
  ev_cost :: delta
  ev_kind :: "string option"
  ev_payload :: jobj

datatype guarded_result = Denied deny_reason int budget_result
  | Evaluated int "jval option" "int \<times> int" budget_result string

definition classifyBudgetDenial :: "string \<Rightarrow> mission_db \<Rightarrow> deny_reason" where
  "classifyBudgetDenial m db =
     (case mission_of m db of
        Some r \<Rightarrow> if mn_status r = ''paused'' then Paused else BudgetExhausted
      | None \<Rightarrow> BudgetExhausted)"

definition writeMissionEvent :: "string \<Rightarrow> string \<Rightarrow> jobj \<Rightarrow> int \<times> int \<Rightarrow> int \<Rightarrow> mission_db \<Rightarrow> mission_db" where
  "writeMissionEvent m kind payload cost depth db =
     add_event \<lparr>me_mission = m, me_kind = kind, me_payload = payload, me_tokens = fst cost, me_cents = snd cost,
       me_depth = depth\<rparr> db"

text \<open>Steps 1 and 2: the guards.  \<open>Inl\<close> is a refusal.\<close>

definition guarded_begin ::
  "string \<Rightarrow> trigger \<Rightarrow> mission_db \<Rightarrow> mission_error + (guarded_result + guard_context) \<times> mission_db" where
  "guarded_begin m t db =
     (case check m db of
        Inl e \<Rightarrow> Inl e
      | Inr preBudget \<Rightarrow>
          if \<not> br_allowed preBudget then Inr (Inl (Denied (classifyBudgetDenial m db) 0 preBudget), db)
          else (case depth_check t of
                  (depth, Some payload) \<Rightarrow>
                    Inr (Inl (Denied DepthExceeded depth preBudget),
                         writeMissionEvent m ''depth_exceeded'' payload (0, 0) depth db)
                | (depth, None) \<Rightarrow>
                    Inr (Inr \<lparr>gc_mission = m, gc_trigger = t, gc_depth = depth, gc_budget = preBudget\<rparr>, db)))"

text \<open>Steps 4 and 5: the spend and the decision event.\<close>

definition event_kind :: "evaluation \<Rightarrow> string" where
  "event_kind ev =
     (case ev_kind ev of Some k \<Rightarrow> k
      | None \<Rightarrow> if ev_proposal ev \<noteq> None then ''remediation_proposed'' else ''no_action'')"

definition event_payload :: "trigger \<Rightarrow> evaluation \<Rightarrow> jobj" where
  "event_payload t ev =
     (let p = AList.update ''trigger_kind'' (JStr (tg_kind t)) (ev_payload ev)
      in case ev_proposal ev of None \<Rightarrow> p | Some pr \<Rightarrow> AList.update ''proposal'' pr p)"

definition guarded_end ::
  "guard_context \<Rightarrow> mission_error + evaluation \<Rightarrow> mission_db \<Rightarrow> mission_error + guarded_result \<times> mission_db" where
  "guarded_end c outcome db =
     (case outcome of
        Inl e \<Rightarrow> Inl e
      | Inr ev \<Rightarrow>
          (case validateDelta (ev_cost ev) of
             Inl e \<Rightarrow> Inl e
           | Inr cost \<Rightarrow>
               (case spend (gc_mission c) cost db of
                  Inl e \<Rightarrow> Inl e
                | Inr (postBudget, db1) \<Rightarrow>
                    Inr (Evaluated (gc_depth c) (ev_proposal ev) cost postBudget (event_kind ev),
                         writeMissionEvent (gc_mission c) (event_kind ev) (event_payload (gc_trigger c) ev) cost
                           (gc_depth c) db1))))"

subsection \<open>What the model may answer\<close>

definition is_word :: "char \<Rightarrow> bool" where
  "is_word c \<longleftrightarrow> c \<in> set (upper_letters @ lower_letters @ digits10 @ ''_'')"

text \<open>\<open>\b(?:delete|drop|remove|destroy|truncate)\b|\brm\s\<close>, ignoring case; \<open>prev\<close> is the character before.\<close>

definition destructive_verbs :: "string list" where
  "destructive_verbs = [''delete'', ''drop'', ''remove'', ''destroy'', ''truncate'']"

definition starts_with :: "string \<Rightarrow> (char option \<Rightarrow> bool) \<Rightarrow> string \<Rightarrow> bool" where
  "starts_with v ends s \<longleftrightarrow> map to_lower (take (length v) s) = v
     \<and> ends (case drop (length v) s of [] \<Rightarrow> None | c # _ \<Rightarrow> Some c)"

definition no_word :: "char option \<Rightarrow> bool" where
  "no_word c \<longleftrightarrow> (case c of None \<Rightarrow> True | Some x \<Rightarrow> \<not> is_word x)"

definition a_space :: "char option \<Rightarrow> bool" where
  "a_space c \<longleftrightarrow> (case c of None \<Rightarrow> False | Some x \<Rightarrow> is_ws x)"

fun destructive_from :: "char option \<Rightarrow> string \<Rightarrow> bool" where
  "destructive_from prev [] = False"
| "destructive_from prev (c # s) =
     (no_word prev \<and> (list_ex (\<lambda>v. starts_with v no_word (c # s)) destructive_verbs \<or> starts_with ''rm'' a_space (c # s))
      \<or> destructive_from (Some c) s)"

definition notDestructiveVerb :: "string \<Rightarrow> bool" where
  "notDestructiveVerb action \<longleftrightarrow> \<not> destructive_from None action"

datatype supervisor_output = Proposal string string jobj | NoAction string | ObjectiveMet string

definition str_between :: "nat \<Rightarrow> nat \<Rightarrow> jval option \<Rightarrow> string option" where
  "str_between lo hi v =
     (case v of Some (JStr s) \<Rightarrow> if lo \<le> length s \<and> length s \<le> hi then Some s else None | _ \<Rightarrow> None)"

definition candidateSchema :: "jval option \<Rightarrow> jobj option" where
  "candidateSchema v =
     (case v of
        Some (JObj c) \<Rightarrow>
          (case str_between 1 500 (map_of c ''action'') of
             None \<Rightarrow> None
           | Some action \<Rightarrow>
               if notDestructiveVerb action
                  \<and> (map_of c ''target_id'' = None \<or> str_between 1 200 (map_of c ''target_id'') \<noteq> None)
                  \<and> (map_of c ''summary'' = None \<or> str_between 0 2000 (map_of c ''summary'') \<noteq> None)
               then Some c else None)
      | _ \<Rightarrow> None)"

definition proposalSchema :: "jobj \<Rightarrow> supervisor_output option" where
  "proposalSchema o' =
     (if map_of o' ''kind'' \<noteq> Some (JStr ''proposal'') then None
      else case (str_between 10 4000 (map_of o' ''rationale''), map_of o' ''target_type'',
                 candidateSchema (map_of o' ''candidate'')) of
             (Some r, Some (JStr t), Some c) \<Rightarrow>
               if t \<in> {''milestone'', ''slice'', ''task''} then Some (Proposal r t c) else None
           | _ \<Rightarrow> None)"

definition supervisorOutputSchema :: "jval \<Rightarrow> supervisor_output option" where
  "supervisorOutputSchema v =
     (case v of
        JObj o' \<Rightarrow>
          if map_of o' ''kind'' = Some (JStr ''proposal'') then proposalSchema o'
          else if map_of o' ''kind'' = Some (JStr ''no_action'')
          then map_option NoAction (str_between 10 4000 (map_of o' ''rationale''))
          else if map_of o' ''kind'' = Some (JStr ''objective_met'')
          then map_option ObjectiveMet (str_between 10 4000 (map_of o' ''summary''))
          else None
      | _ \<Rightarrow> None)"

definition MAX_SUPERVISOR_REPLY_BYTES :: nat where "MAX_SUPERVISOR_REPLY_BYTES = 64 * 1024"

text \<open>\<open>None\<close> is a reply that is too long, no JSON, or of another shape.\<close>

definition parseSupervisorReply :: "json_parse \<Rightarrow> string \<Rightarrow> supervisor_output option" where
  "parseSupervisorReply jp text =
     (if length text > MAX_SUPERVISOR_REPLY_BYTES then None
      else case jp text of None \<Rightarrow> None | Some v \<Rightarrow> supervisorOutputSchema v)"

subsection \<open>One trigger\<close>

definition evaluator :: "json_parse \<Rightarrow> string \<Rightarrow> trigger \<Rightarrow> mission_error + string \<times> delta \<Rightarrow> mission_error + evaluation" where
  "evaluator jp parse_message t reply =
     (if tg_kind t = ''heartbeat''
      then Inr \<lparr>ev_proposal = None, ev_cost = \<lparr>dl_tokens = Number (Finite 0), dl_cents = Number (Finite 0)\<rparr>,
                ev_kind = Some ''heartbeat'', ev_payload = [(''reason'', JStr ''periodic heartbeat'')]\<rparr>
      else case reply of
             Inl e \<Rightarrow> Inl e
           | Inr (text, cost) \<Rightarrow>
               (case parseSupervisorReply jp text of
                  None \<Rightarrow> Inr \<lparr>ev_proposal = None, ev_cost = cost, ev_kind = Some ''no_action'',
                     ev_payload = [(''rationale'', JStr ''supervisor reply failed schema validation''),
                       (''parse_error'', JStr parse_message), (''raw_reply'', JStr (take 2000 text))]\<rparr>
                | Some (Proposal r t' c) \<Rightarrow> Inr \<lparr>ev_proposal = Some (JObj [(''target_type'', JStr t'), (''candidate'', JObj c)]),
                     ev_cost = cost, ev_kind = Some ''remediation_proposed'', ev_payload = [(''rationale'', JStr r)]\<rparr>
                | Some (ObjectiveMet su) \<Rightarrow> Inr \<lparr>ev_proposal = None, ev_cost = cost, ev_kind = Some ''objective_met'',
                     ev_payload = [(''summary'', JStr su)]\<rparr>
                | Some (NoAction r) \<Rightarrow> Inr \<lparr>ev_proposal = None, ev_cost = cost, ev_kind = Some ''no_action'',
                     ev_payload = [(''rationale'', JStr r)]\<rparr>))"

text \<open>\<open>UPDATE missions SET status = 'completed' WHERE id = ? AND status = 'active'\<close>.\<close>

definition completeMission :: "string \<Rightarrow> mission_db \<Rightarrow> mission_db" where
  "completeMission m db =
     (case mission_of m db of
        None \<Rightarrow> db
      | Some r \<Rightarrow> if mn_status r = ''active'' then set_mission m (r\<lparr>mn_status := ''completed''\<rparr>) db else db)"

definition finish_evaluate ::
  "json_parse \<Rightarrow> string \<Rightarrow> guard_context \<Rightarrow> mission_error + string \<times> delta \<Rightarrow> mission_db
     \<Rightarrow> mission_error + guarded_result \<times> mission_db" where
  "finish_evaluate jp parse_message c reply db =
     (case guarded_end c (evaluator jp parse_message (gc_trigger c) reply) db of
        Inl e \<Rightarrow> Inl e
      | Inr (Evaluated d p cost b kind, db1) \<Rightarrow>
          Inr (Evaluated d p cost b kind, if kind = ''objective_met'' then completeMission (gc_mission c) db1 else db1)
      | Inr (Denied r d b, db1) \<Rightarrow> Inr (Denied r d b, db1))"

end
