(* ===== verification/MissionProps.thy ===== *)
theory MissionProps
  imports Mission
begin

text \<open>
  What holds of every schedule of the mission supervisor: triggers, replies of the model in any order, an
  operator who changes objective, status and budgets, and missions that go with their project.  The spend is what the timeline says, the kill switch fires once, the
  budget is overrun by no more than the evaluations in flight, no evaluation runs deeper than the limit, and
  no proposal on the timeline names a destructive verb.
\<close>

record supervisor =
  sv_db :: mission_db
  sv_inflight :: "guard_context list"

datatype supervisor_event = TriggerArrives string trigger
  | ReplyArrives nat string "mission_error + string \<times> delta"
  | OperatorPatches string "string option" "string option" "int option" "int option"
  | MissionDeleted string

text \<open>\<open>PATCH /missions/:id\<close> on the columns that the supervisor reads: objective, status and the two budgets, each
  kept when it is not given.  A mission is deleted with its project, and its events with it.\<close>

definition or_old :: "'a \<Rightarrow> 'a option \<Rightarrow> 'a" where
  "or_old x v = (case v of None \<Rightarrow> x | Some y \<Rightarrow> y)"

definition patch_mission ::
  "string \<Rightarrow> string option \<Rightarrow> string option \<Rightarrow> int option \<Rightarrow> int option \<Rightarrow> mission_db \<Rightarrow> mission_db" where
  "patch_mission m ob st bt bc db =
     (case mission_of m db of
        None \<Rightarrow> db
      | Some r \<Rightarrow> set_mission m (r\<lparr>mn_objective := or_old (mn_objective r) ob, mn_status := or_old (mn_status r) st,
          mn_budgetTokens := or_old (mn_budgetTokens r) bt, mn_budgetCents := or_old (mn_budgetCents r) bc\<rparr>) db)"

definition delete_mission :: "string \<Rightarrow> mission_db \<Rightarrow> mission_db" where
  "delete_mission m db =
     db\<lparr>md_missions := AList.delete m (md_missions db), md_events := filter (\<lambda>e. me_mission e \<noteq> m) (md_events db)\<rparr>"

fun supervisor_step :: "json_parse \<Rightarrow> supervisor_event \<Rightarrow> supervisor \<Rightarrow> supervisor" where
  "supervisor_step jp (TriggerArrives m t) s =
     (case guarded_begin m t (sv_db s) of
        Inl _ \<Rightarrow> s
      | Inr (Inl _, db) \<Rightarrow> s\<lparr>sv_db := db\<rparr>
      | Inr (Inr c, db) \<Rightarrow> s\<lparr>sv_db := db, sv_inflight := sv_inflight s @ [c]\<rparr>)"
| "supervisor_step jp (ReplyArrives i msg reply) s =
     (if i < length (sv_inflight s)
      then let s1 = s\<lparr>sv_inflight := take i (sv_inflight s) @ drop (i + 1) (sv_inflight s)\<rparr>
           in case finish_evaluate jp msg (sv_inflight s ! i) reply (sv_db s) of
                Inl _ \<Rightarrow> s1
              | Inr (_, db) \<Rightarrow> s1\<lparr>sv_db := db\<rparr>
      else s)"
| "supervisor_step jp (OperatorPatches m ob st bt bc) s = s\<lparr>sv_db := patch_mission m ob st bt bc (sv_db s)\<rparr>"
| "supervisor_step jp (MissionDeleted m) s = s\<lparr>sv_db := delete_mission m (sv_db s)\<rparr>"

definition supervisor_run :: "json_parse \<Rightarrow> supervisor_event list \<Rightarrow> supervisor \<Rightarrow> supervisor" where
  "supervisor_run jp es s = fold (supervisor_step jp) es s"

subsection \<open>What the steps do to the tables\<close>

lemma mission_set [simp]: "mission_of m (set_mission m' r db) = (if m = m' then Some r else mission_of m db)"
  by (simp add: mission_of_def set_mission_def update_conv')

lemma mission_event_add [simp]: "mission_of m (add_event e db) = mission_of m db"
  by (simp add: mission_of_def add_event_def)

lemma events_set [simp]:
  "md_events (set_mission m r db) = md_events db" "md_events (add_event e db) = md_events db @ [e]"
  by (simp_all add: set_mission_def add_event_def)

lemma mission_patched: "mission_of m (patch_mission m' ob st bt bc db) =
    (if m = m' then map_option (\<lambda>r. r\<lparr>mn_objective := or_old (mn_objective r) ob, mn_status := or_old (mn_status r) st,
        mn_budgetTokens := or_old (mn_budgetTokens r) bt, mn_budgetCents := or_old (mn_budgetCents r) bc\<rparr>) (mission_of m db)
     else mission_of m db)"
  by (auto simp: patch_mission_def split: option.split)

lemma events_patched [simp]: "md_events (patch_mission m ob st bt bc db) = md_events db"
  by (simp add: patch_mission_def split: option.split)

lemma mission_deleted: "mission_of m (delete_mission m' db) = (if m = m' then None else mission_of m db)"
  by (simp add: mission_of_def delete_mission_def delete_conv')

lemma events_deleted: "md_events (delete_mission m db) = filter (\<lambda>e. me_mission e \<noteq> m) (md_events db)"
  by (simp add: delete_mission_def)

lemma events_of_deleted: "m' \<noteq> m \<Longrightarrow> filter (\<lambda>e. me_mission e = m \<and> P e) (md_events (delete_mission m' db))
    = filter (\<lambda>e. me_mission e = m \<and> P e) (md_events db)"
  by (auto simp: events_deleted intro!: filter_cong)

text \<open>The start of an evaluation, on all its ways out.\<close>

lemma guarded_begin_cases:
  assumes "guarded_begin m t db = Inr (x, db')"
  obtains r where "mission_of m db = Some r" "\<exists>d. x = Inl d" "db' = db"
  | r payload where "mission_of m db = Some r" "\<exists>d. x = Inl d"
      "db' = writeMissionEvent m ''depth_exceeded'' payload (0, 0) (trigger_depth t) db"
  | r where "mission_of m db = Some r" "mn_status r \<noteq> ''paused''" "\<not> exhausted r"
      "trigger_depth t \<le> MAX_ALLOWED_DEPTH" "db' = db"
      "x = Inr \<lparr>gc_mission = m, gc_trigger = t, gc_depth = trigger_depth t, gc_budget = computeResult r\<rparr>"
proof -
  obtain r where r: "mission_of m db = Some r"
    using assms by (auto simp: guarded_begin_def check_def readMission_def split: option.splits)
  have c: "check m db = Inr (computeResult r)" by (simp add: check_def readMission_def r)
  show ?thesis
  proof (cases "br_allowed (computeResult r)")
    case False
    then show ?thesis using assms that(1) [OF r] by (auto simp: guarded_begin_def c)
  next
    case True
    note allowed = True
    show ?thesis
    proof (cases "trigger_depth t > MAX_ALLOWED_DEPTH")
      case True
      then show ?thesis using assms allowed that(2) [OF r]
        by (auto simp: guarded_begin_def c depth_check_def Let_def)
    next
      case False
      then show ?thesis using assms allowed that(3) [OF r]
        by (auto simp: guarded_begin_def c depth_check_def Let_def computeResult_def)
    qed
  qed
qed

text \<open>The evaluator is called exactly when the mission exists, is not paused, has tokens and cents left,
  and the depth of the trigger, read as a number, rounded down and taken as 0 when it is negative, no
  number, or not finite, is at most 2; the call leaves the tables as they are.\<close>

theorem guarded_begin_iff:
  "guarded_begin m t db = Inr (Inr c, db') \<longleftrightarrow>
    (\<exists>r. mission_of m db = Some r \<and> mn_status r \<noteq> ''paused''
       \<and> mn_spentTokens r < mn_budgetTokens r \<and> mn_spentCents r < mn_budgetCents r
       \<and> trigger_depth t \<le> 2 \<and> db' = db
       \<and> c = \<lparr>gc_mission = m, gc_trigger = t, gc_depth = trigger_depth t, gc_budget = computeResult r\<rparr>)"
  (is "?L \<longleftrightarrow> ?R")
proof
  assume ?L
  then show ?R
    by (rule guarded_begin_cases) (auto simp: exhausted_def MAX_ALLOWED_DEPTH_def)
next
  assume ?R
  then show ?L
    by (auto simp: guarded_begin_def check_def readMission_def computeResult_def exhausted_def depth_check_def
        MAX_ALLOWED_DEPTH_def Let_def)
qed

definition switch_event :: "guard_context \<Rightarrow> mission \<Rightarrow> int \<times> int \<Rightarrow> mission_event" where
  "switch_event c r cost = \<lparr>me_mission = gc_mission c, me_kind = ''budget_exceeded'',
     me_payload = [(''spent_tokens'', JNum (mn_spentTokens r + fst cost)),
       (''spent_usd_cents'', JNum (mn_spentCents r + snd cost)),
       (''budget_tokens'', JNum (mn_budgetTokens r)), (''budget_usd_cents'', JNum (mn_budgetCents r)),
       (''delta_tokens'', JNum (fst cost)), (''delta_cents'', JNum (snd cost))],
     me_tokens = fst cost, me_cents = snd cost, me_depth = 0\<rparr>"

definition halts :: "mission \<Rightarrow> int \<times> int \<Rightarrow> bool" where
  "halts r cost \<longleftrightarrow> mn_spentTokens r + fst cost \<ge> mn_budgetTokens r \<or> mn_spentCents r + snd cost \<ge> mn_budgetCents r"

lemma spend_spec:
  assumes "spend (gc_mission c) d db = Inr (b, db')"
  obtains r where "mission_of (gc_mission c) db = Some r"
    "mission_of (gc_mission c) db' = Some (r\<lparr>mn_spentTokens := mn_spentTokens r + fst d,
       mn_spentCents := mn_spentCents r + snd d, mn_status := (if halts r d then ''paused'' else mn_status r)\<rparr>)"
    "\<And>m'. m' \<noteq> gc_mission c \<Longrightarrow> mission_of m' db' = mission_of m' db"
    "md_events db' = md_events db @ (if mn_status r \<noteq> ''paused'' \<and> halts r d then [switch_event c r d] else [])"
proof -
  obtain r where r: "mission_of (gc_mission c) db = Some r"
    using assms by (auto simp: spend_def readMission_def split: option.splits)
  show ?thesis using assms
    by (intro that [OF r]) (auto simp: spend_def readMission_def r Let_def halts_def switch_event_def split: if_splits)
qed

definition completed :: "mission \<Rightarrow> mission" where
  "completed r = (if mn_status r = ''active'' then r\<lparr>mn_status := ''completed''\<rparr> else r)"

lemma complete_tables:
  "md_events (completeMission m db) = md_events db"
  "mission_of m' (completeMission m db) = (if m' = m then map_option completed (mission_of m db) else mission_of m' db)"
  by (auto simp: completeMission_def completed_def split: option.split)

definition decision :: "guard_context \<Rightarrow> evaluation \<Rightarrow> int \<times> int \<Rightarrow> mission_event" where
  "decision c ev cost = \<lparr>me_mission = gc_mission c, me_kind = event_kind ev,
     me_payload = event_payload (gc_trigger c) ev, me_tokens = fst cost, me_cents = snd cost, me_depth = gc_depth c\<rparr>"

lemma finish_spec:
  assumes "finish_evaluate jp msg c reply db = Inr (x, db')"
  obtains ev cost b db1 where "evaluator jp msg (gc_trigger c) reply = Inr ev" "validateDelta (ev_cost ev) = Inr cost"
    "spend (gc_mission c) cost db = Inr (b, db1)" "md_events db' = md_events db1 @ [decision c ev cost]"
    "\<And>m. mission_of m db' = (if m = gc_mission c \<and> event_kind ev = ''objective_met''
       then map_option completed (mission_of m db1) else mission_of m db1)"
proof -
  obtain ev where ev: "evaluator jp msg (gc_trigger c) reply = Inr ev"
    using assms by (auto simp: finish_evaluate_def guarded_end_def split: sum.splits)
  obtain cost where cost: "validateDelta (ev_cost ev) = Inr cost"
    using assms ev by (auto simp: finish_evaluate_def guarded_end_def split: sum.splits)
  obtain b db1 where b: "spend (gc_mission c) cost db = Inr (b, db1)"
    using assms ev cost by (auto simp: finish_evaluate_def guarded_end_def split: sum.splits)
  have db': "db' = (let db2 = writeMissionEvent (gc_mission c) (event_kind ev) (event_payload (gc_trigger c) ev) cost
                        (gc_depth c) db1
                    in if event_kind ev = ''objective_met'' then completeMission (gc_mission c) db2 else db2)"
    using assms by (simp add: finish_evaluate_def guarded_end_def ev cost b)
  show ?thesis
    by (rule that [OF ev cost b])
      (simp_all add: db' Let_def writeMissionEvent_def complete_tables decision_def)
qed

definition status_after :: "mission \<Rightarrow> int \<times> int \<Rightarrow> evaluation \<Rightarrow> string" where
  "status_after r cost ev =
     (let st = (if halts r cost then ''paused'' else mn_status r)
      in if event_kind ev = ''objective_met'' \<and> st = ''active'' then ''completed'' else st)"

text \<open>The end of an evaluation that succeeds.\<close>

lemma finish_tables:
  assumes "finish_evaluate jp msg c reply db = Inr (x, db')"
  obtains ev cost r where "evaluator jp msg (gc_trigger c) reply = Inr ev" "validateDelta (ev_cost ev) = Inr cost"
    "mission_of (gc_mission c) db = Some r"
    "mission_of (gc_mission c) db' = Some (r\<lparr>mn_spentTokens := mn_spentTokens r + fst cost,
       mn_spentCents := mn_spentCents r + snd cost, mn_status := status_after r cost ev\<rparr>)"
    "\<And>m. m \<noteq> gc_mission c \<Longrightarrow> mission_of m db' = mission_of m db"
    "md_events db' = md_events db @ (if mn_status r \<noteq> ''paused'' \<and> halts r cost
        then [switch_event c r cost, decision c ev cost] else [decision c ev cost])"
proof -
  obtain ev cost b db1 where f: "evaluator jp msg (gc_trigger c) reply = Inr ev"
    "validateDelta (ev_cost ev) = Inr cost" "spend (gc_mission c) cost db = Inr (b, db1)"
    "md_events db' = md_events db1 @ [decision c ev cost]"
    "\<And>m. mission_of m db' = (if m = gc_mission c \<and> event_kind ev = ''objective_met''
       then map_option completed (mission_of m db1) else mission_of m db1)"
    by (rule finish_spec [OF assms]) (rule that)
  obtain r where r: "mission_of (gc_mission c) db = Some r"
    and r1: "mission_of (gc_mission c) db1 = Some (r\<lparr>mn_spentTokens := mn_spentTokens r + fst cost,
         mn_spentCents := mn_spentCents r + snd cost, mn_status := (if halts r cost then ''paused'' else mn_status r)\<rparr>)"
    and other: "\<And>m'. m' \<noteq> gc_mission c \<Longrightarrow> mission_of m' db1 = mission_of m' db"
    and e1: "md_events db1 = md_events db
      @ (if mn_status r \<noteq> ''paused'' \<and> halts r cost then [switch_event c r cost] else [])"
    by (rule spend_spec [OF f(3)]) (rule that)
  show ?thesis
  proof (rule that [OF f(1,2) r])
    show "mission_of (gc_mission c) db' = Some (r\<lparr>mn_spentTokens := mn_spentTokens r + fst cost,
       mn_spentCents := mn_spentCents r + snd cost, mn_status := status_after r cost ev\<rparr>)"
      using f(5) [of "gc_mission c"] by (simp add: r1 completed_def status_after_def Let_def)
    show "mission_of m db' = mission_of m db" if "m \<noteq> gc_mission c" for m
      using that f(5) [of m] other [of m] by simp
    show "md_events db' = md_events db @ (if mn_status r \<noteq> ''paused'' \<and> halts r cost
        then [switch_event c r cost, decision c ev cost] else [decision c ev cost])"
      using e1 by (simp add: f(4))
  qed
qed

lemma cost_nonneg:
  assumes "validateDelta d = Inr cost"
  shows "0 \<le> fst cost \<and> 0 \<le> snd cost \<and> fst cost \<le> MAX_DELTA \<and> snd cost \<le> MAX_DELTA"
proof -
  have f: "0 \<le> v \<and> v \<le> MAX_DELTA" if "validateField n r = Inr v" for n r v
    using that by (cases "(n, r)" rule: validateField.cases) (auto split: if_splits simp: floor_le_iff)
  obtain t c where "validateField ''tokens'' (dl_tokens d) = Inr t" "validateField ''cents'' (dl_cents d) = Inr c" "cost = (t, c)"
    using assms by (auto simp: validateDelta_def split: sum.splits)
  then show ?thesis using f by simp
qed

subsection \<open>Accounting\<close>

text \<open>The spend of a mission that its timeline does not explain; the event of the kill switch repeats the
  cost of the decision that set it off and is left out.\<close>

definition unexplained :: "string \<Rightarrow> mission_db \<Rightarrow> int \<times> int" where
  "unexplained m db =
     (case mission_of m db of
        None \<Rightarrow> (0, 0)
      | Some r \<Rightarrow>
          let es = filter (\<lambda>e. me_mission e = m \<and> me_kind e \<noteq> ''budget_exceeded'') (md_events db)
          in (mn_spentTokens r - sum_list (map me_tokens es), mn_spentCents r - sum_list (map me_cents es)))"

lemma event_kind_plain: "evaluator jp msg t reply = Inr ev \<Longrightarrow> event_kind ev \<noteq> ''budget_exceeded''"
  by (auto simp: evaluator_def event_kind_def split: if_splits sum.splits option.splits supervisor_output.splits)

lemma unexplained_begin:
  assumes "guarded_begin m' t db = Inr (x, db')"
  shows "unexplained m db' = unexplained m db"
  using assms by (rule guarded_begin_cases) (auto simp: unexplained_def writeMissionEvent_def Let_def split: option.split)

lemma unexplained_finish:
  assumes "finish_evaluate jp msg c reply db = Inr (x, db')"
  shows "unexplained m db' = unexplained m db"
  using assms
proof (rule finish_tables)
  fix ev cost r
  assume ev: "evaluator jp msg (gc_trigger c) reply = Inr ev"
    and r: "mission_of (gc_mission c) db = Some r"
    and r': "mission_of (gc_mission c) db' = Some (r\<lparr>mn_spentTokens := mn_spentTokens r + fst cost,
       mn_spentCents := mn_spentCents r + snd cost, mn_status := status_after r cost ev\<rparr>)"
    and other: "\<And>m. m \<noteq> gc_mission c \<Longrightarrow> mission_of m db' = mission_of m db"
    and e1: "md_events db' = md_events db @ (if mn_status r \<noteq> ''paused'' \<and> halts r cost
        then [switch_event c r cost, decision c ev cost] else [decision c ev cost])"
  have es: "filter (\<lambda>e. me_mission e = m \<and> me_kind e \<noteq> ''budget_exceeded'') (md_events db')
      = filter (\<lambda>e. me_mission e = m \<and> me_kind e \<noteq> ''budget_exceeded'') (md_events db)
        @ (if gc_mission c = m then [decision c ev cost] else [])"
    using e1 event_kind_plain [OF ev] by (auto simp: decision_def switch_event_def)
  show ?thesis
  proof (cases "m = gc_mission c")
    case True
    show ?thesis
      using r r' es [unfolded True] by (simp add: unexplained_def Let_def True) (simp add: decision_def)
  next
    case False
    then show ?thesis using other [OF False] by (simp add: unexplained_def es Let_def split: option.split)
  qed
qed

lemma unexplained_operator: "unexplained m (patch_mission m' ob st bt bc db) = unexplained m db"
  by (auto simp: unexplained_def mission_patched Let_def split: option.split)

lemma unexplained_deleted: "m' \<noteq> m \<Longrightarrow> unexplained m (delete_mission m' db) = unexplained m db"
  by (auto simp: unexplained_def mission_deleted events_of_deleted Let_def split: option.split)

fun keeps_mission :: "string \<Rightarrow> supervisor_event \<Rightarrow> supervisor \<Rightarrow> bool" where
  "keeps_mission m (MissionDeleted m') s = (m' \<noteq> m)"
| "keeps_mission m _ s = True"

lemma unexplained_step:
  "keeps_mission m e s \<Longrightarrow> unexplained m (sv_db (supervisor_step jp e s)) = unexplained m (sv_db s)"
  by (cases e)
    (auto simp: unexplained_operator unexplained_deleted Let_def dest: unexplained_begin unexplained_finish split: sum.split)

interpretation accounting: guarded_run "supervisor_step jp" "keeps_mission m" "\<lambda>s. unexplained m (sv_db s) = u" for jp m u
  by unfold_locales (simp add: unexplained_step)

text \<open>Every token and cent a mission has spent is on its timeline: whatever arrives in whatever order, as long as
  the mission is not deleted, spend and timeline grow by the same amounts.\<close>

theorem spend_is_on_the_timeline:
  assumes "along (supervisor_step jp) (keeps_mission m) es s"
  shows "unexplained m (sv_db (supervisor_run jp es s)) = unexplained m (sv_db s)"
  unfolding supervisor_run_def by (rule accounting.run_inv [OF assms refl])

subsection \<open>The kill switch\<close>

definition switch_events :: "string \<Rightarrow> mission_db \<Rightarrow> nat" where
  "switch_events m db = length (filter (\<lambda>e. me_mission e = m \<and> me_kind e = ''budget_exceeded'') (md_events db))"

definition is_paused :: "string \<Rightarrow> mission_db \<Rightarrow> bool" where
  "is_paused m db = (case mission_of m db of None \<Rightarrow> False | Some r \<Rightarrow> mn_status r = ''paused'')"

text \<open>How often the switch may still fire, and has.\<close>

definition switch_total :: "string \<Rightarrow> mission_db \<Rightarrow> nat" where
  "switch_total m db = switch_events m db + (if is_paused m db then 0 else 1)"

fun leaves_status :: "string \<Rightarrow> supervisor_event \<Rightarrow> supervisor \<Rightarrow> bool" where
  "leaves_status m (OperatorPatches m' ob st bt bc) s = (m' \<noteq> m \<or> st = None)"
| "leaves_status m (MissionDeleted m') s = (m' \<noteq> m)"
| "leaves_status m _ s = True"

lemma switch_begin:
  assumes "guarded_begin m' t db = Inr (x, db')"
  shows "switch_total m db' = switch_total m db \<and> is_paused m db' = is_paused m db"
  using assms
  by (rule guarded_begin_cases) (auto simp: switch_total_def switch_events_def is_paused_def writeMissionEvent_def)

lemma status_after_paused: "status_after r cost ev = ''paused'' \<longleftrightarrow> halts r cost \<or> mn_status r = ''paused''"
  by (auto simp: status_after_def Let_def)

lemma switch_finish:
  assumes "finish_evaluate jp msg c reply db = Inr (x, db')"
  shows "switch_total m db' = switch_total m db \<and> (is_paused m db \<longrightarrow> is_paused m db')"
  using assms
proof (rule finish_tables)
  fix ev cost r
  assume ev: "evaluator jp msg (gc_trigger c) reply = Inr ev"
    and r: "mission_of (gc_mission c) db = Some r"
    and r': "mission_of (gc_mission c) db' = Some (r\<lparr>mn_spentTokens := mn_spentTokens r + fst cost,
       mn_spentCents := mn_spentCents r + snd cost, mn_status := status_after r cost ev\<rparr>)"
    and other: "\<And>m. m \<noteq> gc_mission c \<Longrightarrow> mission_of m db' = mission_of m db"
    and e1: "md_events db' = md_events db @ (if mn_status r \<noteq> ''paused'' \<and> halts r cost
        then [switch_event c r cost, decision c ev cost] else [decision c ev cost])"
  show ?thesis
  proof (cases "m = gc_mission c")
    case True
    then show ?thesis using r r' event_kind_plain [OF ev]
      by (auto simp: switch_total_def switch_events_def is_paused_def e1 decision_def switch_event_def status_after_paused)
  next
    case False
    then show ?thesis using other [OF False]
      by (auto simp: switch_total_def switch_events_def is_paused_def e1 decision_def switch_event_def)
  qed
qed

lemma switch_operator:
  "m' \<noteq> m \<or> st = None \<Longrightarrow> switch_total m (patch_mission m' ob st bt bc db) = switch_total m db
     \<and> is_paused m (patch_mission m' ob st bt bc db) = is_paused m db"
  by (auto simp: switch_total_def switch_events_def mission_patched is_paused_def or_old_def split: option.split)

lemma switch_deleted:
  "m' \<noteq> m \<Longrightarrow> switch_total m (delete_mission m' db) = switch_total m db \<and> is_paused m (delete_mission m' db) = is_paused m db"
  by (auto simp: switch_total_def switch_events_def events_of_deleted mission_deleted is_paused_def split: option.split)

lemma switch_step:
  "leaves_status m e s \<Longrightarrow> switch_total m (sv_db (supervisor_step jp e s)) = switch_total m (sv_db s)
     \<and> (is_paused m (sv_db s) \<longrightarrow> is_paused m (sv_db (supervisor_step jp e s)))"
  by (cases e) (auto simp: switch_operator switch_deleted Let_def dest: switch_begin switch_finish split: sum.split)

interpretation kill_switch: guarded_run "supervisor_step jp" "leaves_status m"
  "\<lambda>s. switch_total m (sv_db s) = k \<and> (p \<longrightarrow> is_paused m (sv_db s))" for jp m k p
  by unfold_locales (auto simp: switch_step)

text \<open>As long as no operator touches the status of a mission or deletes it, its kill switch fires exactly when the
  mission goes from not paused to paused, so at most once: the timeline gains one \<open>budget_exceeded\<close> event
  in that case and none otherwise, and a paused mission stays paused.\<close>

theorem kill_switch_fires_once:
  assumes "along (supervisor_step jp) (leaves_status m) es s"
  shows "switch_events m (sv_db (supervisor_run jp es s)) = switch_events m (sv_db s)
      + (if is_paused m (sv_db (supervisor_run jp es s)) \<and> \<not> is_paused m (sv_db s) then 1 else 0)
    \<and> (is_paused m (sv_db s) \<longrightarrow> is_paused m (sv_db (supervisor_run jp es s)))"
proof -
  have "switch_total m (sv_db (supervisor_run jp es s)) = switch_total m (sv_db s)
      \<and> (is_paused m (sv_db s) \<longrightarrow> is_paused m (sv_db (supervisor_run jp es s)))"
    unfolding supervisor_run_def by (rule kill_switch.run_inv [OF assms]) simp
  then show ?thesis by (auto simp: switch_total_def split: if_splits)
qed

text \<open>A mission with a budget of 100 tokens; two triggers are in flight when the first reply takes it over.\<close>

definition sample_mission :: mission where
  "sample_mission = \<lparr>mn_status = ''active'', mn_objective = ''ship'', mn_budgetTokens = 100, mn_budgetCents = 50,
     mn_spentTokens = 90, mn_spentCents = 0\<rparr>"

definition sample_supervisor :: supervisor where
  "sample_supervisor = \<lparr>sv_db = \<lparr>md_missions = [(''m1'', sample_mission)], md_events = []\<rparr>, sv_inflight = []\<rparr>"

definition sample_trigger :: trigger where
  "sample_trigger = \<lparr>tg_kind = ''task_observed'', tg_depth = NoNumber, tg_payload = []\<rparr>"

definition sample_reply :: "mission_error + string \<times> delta" where
  "sample_reply = Inr (''{}'', \<lparr>dl_tokens = Number (Finite 20), dl_cents = Number (Finite 1)\<rparr>)"

definition sample_json :: json_parse where "sample_json text = Some (JObj [])"

definition sample_schedule :: "supervisor_event list" where
  "sample_schedule = [TriggerArrives ''m1'' sample_trigger, TriggerArrives ''m1'' sample_trigger,
     ReplyArrives 0 ''no kind'' sample_reply, TriggerArrives ''m1'' sample_trigger, ReplyArrives 0 ''no kind'' sample_reply]"

lemmas sample_defs = sample_mission_def sample_supervisor_def sample_trigger_def sample_reply_def sample_json_def
  sample_schedule_def

lemmas supervisor_compute = supervisor_run_def guarded_begin_def check_def readMission_def mission_of_def computeResult_def
  exhausted_def depth_check_def trigger_depth_def finish_evaluate_def guarded_end_def evaluator_def
  parseSupervisorReply_def supervisorOutputSchema_def validateDelta_def spend_def set_mission_def add_event_def
  writeMissionEvent_def event_kind_def event_payload_def MAX_DELTA_def MAX_ALLOWED_DEPTH_def
  MAX_SUPERVISOR_REPLY_BYTES_def completeMission_def Let_def spend_ratio_def WARN_THRESHOLD_def

lemma kill_switch_fires_once_witness:
  "switch_events ''m1'' (sv_db (supervisor_run sample_json sample_schedule sample_supervisor)) = 1
     \<and> is_paused ''m1'' (sv_db (supervisor_run sample_json sample_schedule sample_supervisor))"
proof -
  have "is_paused ''m1'' (sv_db (supervisor_run sample_json sample_schedule sample_supervisor))"
    by (simp add: sample_defs supervisor_compute is_paused_def)
  moreover have "switch_events ''m1'' (sv_db sample_supervisor) = 0" "\<not> is_paused ''m1'' (sv_db sample_supervisor)"
    by (simp_all add: sample_supervisor_def sample_mission_def switch_events_def is_paused_def mission_of_def)
  ultimately show ?thesis
    using kill_switch_fires_once [of sample_json "''m1''" sample_schedule sample_supervisor]
    by (simp add: sample_schedule_def)
qed

subsection \<open>How far the budget is overrun\<close>

text \<open>An evaluation that costs something: a heartbeat does not call the model.\<close>

definition charged :: "string \<Rightarrow> guard_context \<Rightarrow> bool" where
  "charged m c \<longleftrightarrow> gc_mission c = m \<and> tg_kind (gc_trigger c) \<noteq> ''heartbeat''"

definition inflight_of :: "string \<Rightarrow> supervisor \<Rightarrow> nat" where
  "inflight_of m s = length (filter (charged m) (sv_inflight s))"

text \<open>A budget, a cost and a bound are a number of tokens and a number of cents.  At most \<open>k\<close> such evaluations of
  \<open>m\<close> run at once, none of them reports more than \<open>c\<close>, no operator sets a budget above \<open>b\<close>, and \<open>m\<close> stays.\<close>

definition cheap_reply :: "int \<times> int \<Rightarrow> mission_error + string \<times> delta \<Rightarrow> bool" where
  "cheap_reply c reply =
     (case reply of
        Inl _ \<Rightarrow> True
      | Inr (answer, d) \<Rightarrow> (case validateDelta d of Inl _ \<Rightarrow> True | Inr v \<Rightarrow> fst v \<le> fst c \<and> snd v \<le> snd c))"

definition capped_budget :: "int \<times> int \<Rightarrow> int option \<Rightarrow> int option \<Rightarrow> bool" where
  "capped_budget b bt bc \<longleftrightarrow> (case bt of None \<Rightarrow> True | Some x \<Rightarrow> x \<le> fst b) \<and> (case bc of None \<Rightarrow> True | Some x \<Rightarrow> x \<le> snd b)"

fun bounded_arrival :: "string \<Rightarrow> nat \<Rightarrow> int \<times> int \<Rightarrow> int \<times> int \<Rightarrow> supervisor_event \<Rightarrow> supervisor \<Rightarrow> bool" where
  "bounded_arrival m k b c (TriggerArrives m' t) s =
     (m' = m \<and> tg_kind t \<noteq> ''heartbeat'' \<longrightarrow> inflight_of m s < k)"
| "bounded_arrival m k b c (ReplyArrives i msg reply) s = cheap_reply c reply"
| "bounded_arrival m k b c (OperatorPatches m' ob st bt bc) s = (m' = m \<longrightarrow> capped_budget b bt bc)"
| "bounded_arrival m k b c (MissionDeleted m') s = (m' \<noteq> m)"

definition within_reach :: "int \<times> int \<Rightarrow> nat \<Rightarrow> int \<times> int \<Rightarrow> nat \<Rightarrow> mission \<Rightarrow> bool" where
  "within_reach b k c n r \<longleftrightarrow> n \<le> k \<and> mn_budgetTokens r \<le> fst b \<and> mn_budgetCents r \<le> snd b
     \<and> mn_spentTokens r + int n * fst c \<le> fst b - 1 + int k * fst c
     \<and> mn_spentCents r + int n * snd c \<le> snd b - 1 + int k * snd c"

lemma filter_remove:
  assumes "i < length xs"
  shows "length (filter P xs) = length (filter P (take i xs @ drop (i + 1) xs)) + (if P (xs ! i) then 1 else 0)"
proof -
  have "filter P xs = filter P (take i xs @ xs ! i # drop (Suc i) xs)" using id_take_nth_drop [OF assms] by simp
  then show ?thesis by (simp only: length_append filter_append) simp
qed

lemma evaluator_cost:
  "evaluator jp msg t reply = Inr ev \<Longrightarrow>
     (if tg_kind t = ''heartbeat'' then ev_cost ev = \<lparr>dl_tokens = Number (Finite 0), dl_cents = Number (Finite 0)\<rparr>
      else \<exists>answer. reply = Inr (answer, ev_cost ev))"
  by (auto simp: evaluator_def split: if_splits sum.splits option.splits supervisor_output.splits)

lemma reply_cost:
  assumes ev: "evaluator jp msg t reply = Inr ev" and cost: "validateDelta (ev_cost ev) = Inr cost"
    and b: "cheap_reply c reply"
  shows "if tg_kind t = ''heartbeat'' then fst cost = 0 \<and> snd cost = 0 else fst cost \<le> fst c \<and> snd cost \<le> snd c"
  using evaluator_cost [OF ev] cost b
  by (auto simp: cheap_reply_def validateDelta_def MAX_DELTA_def split: if_splits)

lemma reach_spend:
  assumes "within_reach b k c (n + d) r" "fst cost \<le> int d * fst c" "snd cost \<le> int d * snd c"
  shows "within_reach b k c n (r\<lparr>mn_spentTokens := mn_spentTokens r + fst cost,
       mn_spentCents := mn_spentCents r + snd cost, mn_status := st\<rparr>)"
  using assms by (auto simp: within_reach_def algebra_simps)

definition costs_nonneg :: "int \<times> int \<Rightarrow> bool" where
  "costs_nonneg c \<longleftrightarrow> 0 \<le> fst c \<and> 0 \<le> snd c"

lemma reach_less:
  assumes "within_reach b k c (n + d) r" "costs_nonneg c"
  shows "within_reach b k c n r"
proof -
  have "int n * x \<le> int (n + d) * x" if "0 \<le> x" for x by (rule mult_right_mono) (use that in simp_all)
  from this [of "fst c"] this [of "snd c"] show ?thesis
    using assms by (simp add: within_reach_def costs_nonneg_def)
qed

lemma reach_one_more:
  assumes "within_reach b k c n r" "\<not> exhausted r" "n < k" "costs_nonneg c"
  shows "within_reach b k c (n + 1) r"
proof -
  have "int (n + 1) * x \<le> int k * x" if "0 \<le> x" for x by (rule mult_right_mono) (use that assms(3) in simp_all)
  from this [of "fst c"] this [of "snd c"] show ?thesis
    using assms by (simp add: within_reach_def costs_nonneg_def exhausted_def)
qed

definition budget_reach :: "string \<Rightarrow> int \<times> int \<Rightarrow> nat \<Rightarrow> int \<times> int \<Rightarrow> nat \<Rightarrow> mission_db \<Rightarrow> bool" where
  "budget_reach m b k c n db = (case mission_of m db of None \<Rightarrow> False | Some r \<Rightarrow> within_reach b k c n r)"

lemma reach_finish:
  assumes "finish_evaluate jp msg g reply db = Inr (x, db')" "cheap_reply c reply"
    "budget_reach m b k c (n + (if charged m g then 1 else 0)) db"
  shows "budget_reach m b k c n db'"
  using assms(1)
proof (rule finish_tables)
  fix ev cost r
  assume ev: "evaluator jp msg (gc_trigger g) reply = Inr ev" and cost: "validateDelta (ev_cost ev) = Inr cost"
    and r: "mission_of (gc_mission g) db = Some r"
    and r': "mission_of (gc_mission g) db' = Some (r\<lparr>mn_spentTokens := mn_spentTokens r + fst cost,
       mn_spentCents := mn_spentCents r + snd cost, mn_status := status_after r cost ev\<rparr>)"
    and other: "\<And>m. m \<noteq> gc_mission g \<Longrightarrow> mission_of m db' = mission_of m db"
  show ?thesis
  proof (cases "gc_mission g = m")
    case True
    let ?d = "if tg_kind (gc_trigger g) = ''heartbeat'' then 0 else 1"
    have "within_reach b k c (n + ?d) r" using assms(3) r True by (simp add: budget_reach_def charged_def split: if_splits)
    moreover have "fst cost \<le> int ?d * fst c" "snd cost \<le> int ?d * snd c"
      using reply_cost [OF ev cost assms(2)] by (simp_all split: if_splits)
    ultimately have "within_reach b k c n (r\<lparr>mn_spentTokens := mn_spentTokens r + fst cost,
       mn_spentCents := mn_spentCents r + snd cost, mn_status := status_after r cost ev\<rparr>)" by (rule reach_spend)
    then show ?thesis using r' True by (simp add: budget_reach_def)
  next
    case False
    then show ?thesis using other [of m] assms(3) by (auto simp: budget_reach_def charged_def)
  qed
qed

lemma reach_drop:
  "budget_reach m b k c (n + d) db \<Longrightarrow> costs_nonneg c \<Longrightarrow> budget_reach m b k c n db"
  by (auto simp: budget_reach_def reach_less split: option.splits)

definition overspend_inv :: "string \<Rightarrow> int \<times> int \<Rightarrow> nat \<Rightarrow> int \<times> int \<Rightarrow> supervisor \<Rightarrow> bool" where
  "overspend_inv m b k c s \<longleftrightarrow> costs_nonneg c \<and> budget_reach m b k c (inflight_of m s) (sv_db s)"

lemma reach_begin:
  assumes "guarded_begin m' t db = Inr (x, db')" "budget_reach m b k c n db" "m' = m \<and> tg_kind t \<noteq> ''heartbeat'' \<longrightarrow> n < k"
    "costs_nonneg c"
  shows "budget_reach m b k c (case x of Inl _ \<Rightarrow> n | Inr g \<Rightarrow> if charged m g then n + 1 else n) db'"
  using assms(1)
proof (rule guarded_begin_cases)
  fix r assume r: "mission_of m' db = Some r" "\<not> exhausted r" "db' = db"
    "x = Inr \<lparr>gc_mission = m', gc_trigger = t, gc_depth = trigger_depth t, gc_budget = computeResult r\<rparr>"
  then show ?thesis using assms(2-4) reach_one_more [of b k c n r] by (auto simp: budget_reach_def charged_def)
next
  fix r assume "\<exists>d. x = Inl d" "db' = db"
  then show ?thesis using assms(2) by auto
next
  fix r payload assume "\<exists>d. x = Inl d"
    "db' = writeMissionEvent m' ''depth_exceeded'' payload (0, 0) (trigger_depth t) db"
  then show ?thesis using assms(2)
    by (elim exE) (simp add: budget_reach_def writeMissionEvent_def split: option.splits)
qed

lemma reach_patch:
  assumes "budget_reach m b k c n db" "m' = m \<longrightarrow> capped_budget b bt bc"
  shows "budget_reach m b k c n (patch_mission m' ob st bt bc db)"
  using assms by (auto simp: budget_reach_def mission_patched within_reach_def capped_budget_def or_old_def split: option.splits)

lemma overspend_step:
  assumes "bounded_arrival m k b c e s" "overspend_inv m b k c s"
  shows "overspend_inv m b k c (supervisor_step jp e s)"
proof (cases e)
  case (TriggerArrives m' t)
  show ?thesis
  proof (cases "guarded_begin m' t (sv_db s)")
    case (Inl err)
    then show ?thesis using assms TriggerArrives by simp
  next
    case (Inr res)
    then obtain x db' where x: "guarded_begin m' t (sv_db s) = Inr (x, db')" by (cases res) auto
    show ?thesis
      using reach_begin [OF x, of m b k c "inflight_of m s"] assms TriggerArrives x
      by (cases x) (auto simp: overspend_inv_def inflight_of_def split: if_splits)
  qed
next
  case (ReplyArrives i msg reply)
  show ?thesis
  proof (cases "i < length (sv_inflight s)")
    case False
    then show ?thesis using assms ReplyArrives by simp
  next
    case True
    define g where "g = sv_inflight s ! i"
    define rest where "rest = take i (sv_inflight s) @ drop (i + 1) (sv_inflight s)"
    let ?n = "length (filter (charged m) rest)"
    have n: "budget_reach m b k c (?n + (if charged m g then 1 else 0)) (sv_db s)" and c: "costs_nonneg c"
      using assms(2) filter_remove [OF True, of "charged m"]
      by (simp_all only: overspend_inv_def inflight_of_def rest_def g_def)
    have drop: "budget_reach m b k c ?n (sv_db s)" by (rule reach_drop [OF n c])
    show ?thesis
    proof (cases "finish_evaluate jp msg g reply (sv_db s)")
      case (Inl err)
      then show ?thesis using True drop c
        by (simp add: ReplyArrives Let_def overspend_inv_def inflight_of_def rest_def g_def)
    next
      case (Inr res)
      then obtain x db' where x: "finish_evaluate jp msg g reply (sv_db s) = Inr (x, db')" by (cases res) auto
      have "budget_reach m b k c ?n db'"
        by (rule reach_finish [OF x assms(1) [unfolded ReplyArrives bounded_arrival.simps] n])
      then show ?thesis using True x c
        by (simp add: ReplyArrives Let_def overspend_inv_def inflight_of_def rest_def g_def)
    qed
  qed
next
  case (OperatorPatches m' ob st bt bc)
  then show ?thesis using assms reach_patch [of m b k c _ _ m' bt bc ob st] by (simp add: overspend_inv_def inflight_of_def)
next
  case (MissionDeleted m')
  then show ?thesis using assms by (simp add: overspend_inv_def inflight_of_def budget_reach_def mission_deleted)
qed

interpretation overspend: guarded_run "supervisor_step jp" "bounded_arrival m k b c" "overspend_inv m b k c" for jp m k c b
  by unfold_locales (rule overspend_step)

text \<open>The budget is checked before an evaluation and charged after it, so several evaluations in flight can
  overrun it, but by no more than they cost: with at most \<open>k\<close> of them at once (heartbeats are free) and at most
  \<open>c\<close> each, a mission whose budget never goes above \<open>b\<close> never spends more than \<open>b\<close> minus one plus \<open>k * c\<close>.\<close>

theorem overspend_bounded:
  assumes "along (supervisor_step jp) (bounded_arrival m k b c) es s"
    and "mission_of m (sv_db s) = Some r" "inflight_of m s = 0" "costs_nonneg c"
    and "mn_budgetTokens r \<le> fst b" "mn_budgetCents r \<le> snd b" "mn_spentTokens r < fst b" "mn_spentCents r < snd b"
  shows "\<exists>r'. mission_of m (sv_db (supervisor_run jp es s)) = Some r'
     \<and> mn_budgetTokens r' \<le> fst b \<and> mn_spentTokens r' \<le> fst b - 1 + int k * fst c
     \<and> mn_budgetCents r' \<le> snd b \<and> mn_spentCents r' \<le> snd b - 1 + int k * snd c"
proof -
  have k: "0 \<le> int n * fst c" "0 \<le> int n * snd c" for n using assms(4) by (simp_all add: costs_nonneg_def)
  have "overspend_inv m b k c s"
    using assms(2-8) k [of k] by (simp add: overspend_inv_def budget_reach_def within_reach_def)
  then have "overspend_inv m b k c (supervisor_run jp es s)"
    unfolding supervisor_run_def by (rule overspend.run_inv [OF assms(1)])
  then have "budget_reach m b k c (inflight_of m (supervisor_run jp es s))
      (sv_db (supervisor_run jp es s))" by (simp add: overspend_inv_def)
  then obtain r' where r': "mission_of m (sv_db (supervisor_run jp es s)) = Some r'"
    and w: "within_reach b k c (inflight_of m (supervisor_run jp es s)) r'"
    by (auto simp: budget_reach_def split: option.splits)
  show ?thesis using r' w k [of "inflight_of m (supervisor_run jp es s)"] unfolding within_reach_def by force
qed

lemma overspend_bounded_witness:
  "\<exists>r'. mission_of ''m1'' (sv_db (supervisor_run sample_json sample_schedule sample_supervisor)) = Some r'
     \<and> mn_budgetTokens r' \<le> 100 \<and> mn_spentTokens r' \<le> 100 - 1 + int 2 * 20
     \<and> mn_budgetCents r' \<le> 50 \<and> mn_spentCents r' \<le> 50 - 1 + int 2 * 1"
proof -
  have a: "along (supervisor_step sample_json) (bounded_arrival ''m1'' 2 (100, 50) (20, 1)) sample_schedule sample_supervisor"
    by (simp add: sample_defs supervisor_compute inflight_of_def cheap_reply_def)
  have m: "mission_of ''m1'' (sv_db sample_supervisor) = Some sample_mission" "inflight_of ''m1'' sample_supervisor = 0"
    by (simp_all add: sample_supervisor_def mission_of_def inflight_of_def)
  show ?thesis using overspend_bounded [OF a m] by (simp add: sample_mission_def costs_nonneg_def)
qed

subsection \<open>What is proposed\<close>

definition head_of :: "string \<Rightarrow> char option" where
  "head_of q = (case q of [] \<Rightarrow> None | c # _ \<Rightarrow> Some c)"

definition end_of :: "string \<Rightarrow> char option" where
  "end_of p = (if p = [] then None else Some (last p))"

text \<open>\<open>v\<close> is one of the verbs and the text behind it does not go on with the word, or it is rm and white space
  follows.\<close>

definition destructive_at :: "string \<Rightarrow> string \<Rightarrow> bool" where
  "destructive_at v q \<longleftrightarrow> map to_lower v \<in> set destructive_verbs \<and> no_word (head_of q)
     \<or> map to_lower v = ''rm'' \<and> a_space (head_of q)"

lemma starts_with_iff:
  "starts_with w ends s \<longleftrightarrow> (\<exists>v q. s = v @ q \<and> map to_lower v = w \<and> ends (head_of q))"
proof
  assume "starts_with w ends s"
  then show "\<exists>v q. s = v @ q \<and> map to_lower v = w \<and> ends (head_of q)"
    by (intro exI [of _ "take (length w) s"] exI [of _ "drop (length w) s"]) (simp add: starts_with_def head_of_def)
next
  assume "\<exists>v q. s = v @ q \<and> map to_lower v = w \<and> ends (head_of q)"
  then obtain v q where v: "s = v @ q" "map to_lower v = w" "ends (head_of q)" by blast
  have "length w = length v" using v(2) by auto
  then show "starts_with w ends s" using v by (simp add: starts_with_def head_of_def)
qed

lemma destructive_at_start:
  "list_ex (\<lambda>v. starts_with v no_word s) destructive_verbs \<or> starts_with w a_space s
     \<longleftrightarrow> (\<exists>v q. s = v @ q \<and> (map to_lower v \<in> set destructive_verbs \<and> no_word (head_of q)
                            \<or> map to_lower v = w \<and> a_space (head_of q)))"
  unfolding starts_with_iff list_ex_iff by blast

lemma split_at_head:
  "(\<exists>p v q. c # s = p @ v @ q \<and> A p \<and> B v q)
    \<longleftrightarrow> A [] \<and> (\<exists>v q. c # s = v @ q \<and> B v q) \<or> (\<exists>p v q. s = p @ v @ q \<and> A (c # p) \<and> B v q)" (is "?L \<longleftrightarrow> ?R")
proof
  assume ?L
  then obtain p v q where a: "c # s = p @ v @ q" "A p" "B v q" by blast
  then show ?R by (cases p) auto
next
  assume ?R
  then show ?L by (metis append_Cons append_Nil)
qed

lemma destructive_nowhere: "\<not> destructive_at [] q"
  by (simp add: destructive_at_def destructive_verbs_def)

lemma destructive_from_iff:
  "destructive_from prev s \<longleftrightarrow>
     (\<exists>p v q. s = p @ v @ q \<and> no_word (if p = [] then prev else end_of p) \<and> destructive_at v q)"
proof (induction prev s rule: destructive_from.induct)
  case (1 prev)
  then show ?case by (simp add: destructive_nowhere)
next
  case (2 prev c s)
  have e: "no_word (if c # p = [] then prev else end_of (c # p)) = no_word (if p = [] then Some c else end_of p)" for p
    by (simp add: end_of_def)
  show ?case unfolding destructive_from.simps split_at_head e 2 destructive_at_start destructive_at_def by simp
qed

text \<open>The check refuses an action exactly when one of delete, drop, remove, destroy and truncate, in any mix of
  cases, stands in it as a word of its own, or rm does at the start of a word with white space behind it.\<close>

theorem notDestructiveVerb_iff:
  "notDestructiveVerb action \<longleftrightarrow> (\<nexists>p v q. action = p @ v @ q \<and> no_word (end_of p)
     \<and> (map to_lower v \<in> {''delete'', ''drop'', ''remove'', ''destroy'', ''truncate''} \<and> no_word (head_of q)
        \<or> map to_lower v = ''rm'' \<and> a_space (head_of q)))"
proof -
  have "set destructive_verbs = {''delete'', ''drop'', ''remove'', ''destroy'', ''truncate''}"
    by (simp add: destructive_verbs_def)
  moreover have "(if p = [] then None else end_of p) = end_of p" for p by (simp add: end_of_def)
  ultimately show ?thesis unfolding notDestructiveVerb_def destructive_from_iff destructive_at_def by (simp only:)
qed

definition proposed_action :: "jobj \<Rightarrow> string option" where
  "proposed_action payload =
     (case map_of payload ''proposal'' of
        Some (JObj p) \<Rightarrow>
          (case map_of p ''candidate'' of
             Some (JObj c) \<Rightarrow> (case map_of c ''action'' of Some (JStr a) \<Rightarrow> Some a | _ \<Rightarrow> None)
           | _ \<Rightarrow> None)
      | _ \<Rightarrow> None)"

definition safe_event :: "mission_event \<Rightarrow> bool" where
  "safe_event e \<longleftrightarrow> (me_kind e = ''remediation_proposed'' \<longrightarrow> me_depth e \<le> MAX_ALLOWED_DEPTH
     \<and> (case proposed_action (me_payload e) of None \<Rightarrow> False | Some a \<Rightarrow> notDestructiveVerb a))"

lemma candidate_action:
  assumes "candidateSchema v = Some c"
  obtains a where "map_of c ''action'' = Some (JStr a)" "notDestructiveVerb a"
proof -
  obtain a where a: "str_between 1 500 (map_of c ''action'') = Some a" and n: "notDestructiveVerb a"
    using assms by (auto simp: candidateSchema_def split: option.splits jval.splits if_splits)
  then have "map_of c ''action'' = Some (JStr a)"
    by (auto simp: str_between_def split: option.splits jval.splits if_splits)
  then show ?thesis using n by (rule that)
qed

lemma proposal_candidate: "proposalSchema o' = Some (Proposal r t c) \<Longrightarrow> candidateSchema (map_of o' ''candidate'') = Some c"
  by (auto simp: proposalSchema_def split: jval.splits if_splits option.splits)

lemma schema_proposal:
  "supervisorOutputSchema v = Some (Proposal r t c) \<Longrightarrow> \<exists>v'. candidateSchema v' = Some c"
  by (auto simp: supervisorOutputSchema_def dest: proposal_candidate split: jval.splits if_splits)

lemma evaluator_proposal:
  assumes "evaluator jp msg t reply = Inr ev" "event_kind ev = ''remediation_proposed''"
  obtains t' c a where "ev_proposal ev = Some (JObj [(''target_type'', JStr t'), (''candidate'', JObj c)])"
    "map_of c ''action'' = Some (JStr a)" "notDestructiveVerb a"
proof -
  obtain answer r t' c where "parseSupervisorReply jp answer = Some (Proposal r t' c)"
    and ev: "ev_proposal ev = Some (JObj [(''target_type'', JStr t'), (''candidate'', JObj c)])"
    using assms by (auto simp: evaluator_def event_kind_def split: if_splits sum.splits option.splits supervisor_output.splits)
  then obtain v where "candidateSchema v = Some c"
    by (auto simp: parseSupervisorReply_def split: if_splits option.splits dest: schema_proposal)
  then obtain a where "map_of c ''action'' = Some (JStr a)" "notDestructiveVerb a" by (rule candidate_action)
  with ev show ?thesis by (rule that)
qed

lemma decision_safe:
  assumes "evaluator jp msg (gc_trigger c) reply = Inr ev" "gc_depth c \<le> MAX_ALLOWED_DEPTH"
  shows "safe_event (decision c ev cost)"
proof (cases "event_kind ev = ''remediation_proposed''")
  case True
  obtain t' c' a where ev: "ev_proposal ev = Some (JObj [(''target_type'', JStr t'), (''candidate'', JObj c')])"
    and a: "map_of c' ''action'' = Some (JStr a)" "notDestructiveVerb a"
    by (rule evaluator_proposal [OF assms(1) True])
  have "proposed_action (event_payload (gc_trigger c) ev) = Some a"
    by (simp add: proposed_action_def event_payload_def ev Let_def update_conv' a(1))
  then show ?thesis by (simp add: safe_event_def decision_def assms(2) a(2))
next
  case False
  then show ?thesis by (simp add: safe_event_def decision_def)
qed

definition safe_supervisor :: "supervisor \<Rightarrow> bool" where
  "safe_supervisor s \<longleftrightarrow> list_all safe_event (md_events (sv_db s))
     \<and> list_all (\<lambda>c. gc_depth c \<le> MAX_ALLOWED_DEPTH) (sv_inflight s)"

lemma safe_begin:
  assumes "guarded_begin m t db = Inr (x, db')" "list_all safe_event (md_events db)"
  shows "list_all safe_event (md_events db') \<and> (\<forall>c. x = Inr c \<longrightarrow> gc_depth c \<le> MAX_ALLOWED_DEPTH)"
  using assms(1) by (rule guarded_begin_cases) (use assms(2) in \<open>auto simp: writeMissionEvent_def safe_event_def\<close>)

lemma switch_safe: "safe_event (switch_event c r cost)"
  by (simp add: safe_event_def switch_event_def)

lemma safe_finish:
  assumes "finish_evaluate jp msg c reply db = Inr (x, db')" "list_all safe_event (md_events db)"
    "gc_depth c \<le> MAX_ALLOWED_DEPTH"
  shows "list_all safe_event (md_events db')"
  using assms(1)
  by (rule finish_tables)
    (use assms(2,3) decision_safe [of jp msg c reply] in \<open>simp add: switch_safe\<close>)

lemma safe_step: "safe_supervisor s \<Longrightarrow> safe_supervisor (supervisor_step jp e s)"
proof (cases e)
  case (TriggerArrives m t)
  assume s: "safe_supervisor s"
  show ?thesis
  proof (cases "guarded_begin m t (sv_db s)")
    case (Inl err)
    then show ?thesis using s TriggerArrives by simp
  next
    case (Inr res)
    then obtain x db' where x: "guarded_begin m t (sv_db s) = Inr (x, db')" by (cases res) auto
    show ?thesis using safe_begin [OF x] s TriggerArrives x by (cases x) (auto simp: safe_supervisor_def)
  qed
next
  case (ReplyArrives i msg reply)
  assume s: "safe_supervisor s"
  show ?thesis
  proof (cases "i < length (sv_inflight s)")
    case False
    then show ?thesis using s ReplyArrives by simp
  next
    case True
    have d: "gc_depth (sv_inflight s ! i) \<le> MAX_ALLOWED_DEPTH"
      using s True by (simp add: safe_supervisor_def list_all_length)
    have rest: "list_all (\<lambda>c. gc_depth c \<le> MAX_ALLOWED_DEPTH) (take i (sv_inflight s) @ drop (i + 1) (sv_inflight s))"
      using s by (auto simp: safe_supervisor_def list_all_iff dest: in_set_takeD in_set_dropD)
    show ?thesis
    proof (cases "finish_evaluate jp msg (sv_inflight s ! i) reply (sv_db s)")
      case (Inl err)
      then show ?thesis using True s rest by (simp add: ReplyArrives Let_def safe_supervisor_def)
    next
      case (Inr res)
      then obtain x db' where x: "finish_evaluate jp msg (sv_inflight s ! i) reply (sv_db s) = Inr (x, db')"
        by (cases res) auto
      show ?thesis using safe_finish [OF x _ d] True s rest x by (simp add: ReplyArrives Let_def safe_supervisor_def)
    qed
  qed
next
  case (OperatorPatches m ob st bt bc)
  assume "safe_supervisor s"
  then show ?thesis using OperatorPatches by (simp add: safe_supervisor_def)
next
  case (MissionDeleted m)
  assume "safe_supervisor s"
  then show ?thesis using MissionDeleted by (auto simp: safe_supervisor_def events_deleted list_all_iff)
qed

interpretation proposals: guarded_run "supervisor_step jp" "\<lambda>_ _. True" safe_supervisor for jp
  by unfold_locales (rule safe_step)

text \<open>Whatever the model answers and however deep the triggers say they are, every proposal that reaches the
  timeline comes from an evaluation at depth 2 or less and names an action without a destructive verb.\<close>

theorem proposals_are_safe:
  assumes "md_events (sv_db s) = []" "sv_inflight s = []"
    and "e \<in> set (md_events (sv_db (supervisor_run jp es s)))" "me_kind e = ''remediation_proposed''"
  shows "me_depth e \<le> 2 \<and> (\<exists>a. proposed_action (me_payload e) = Some a \<and> notDestructiveVerb a)"
proof -
  have "safe_supervisor s" using assms(1,2) by (simp add: safe_supervisor_def)
  then have "safe_supervisor (supervisor_run jp es s)"
    unfolding supervisor_run_def by (rule proposals.run_inv [OF along_True])
  then have "safe_event e" using assms(3) by (simp add: safe_supervisor_def list_all_iff)
  then show ?thesis using assms(4) by (simp add: safe_event_def MAX_ALLOWED_DEPTH_def split: option.splits)
qed

definition proposal_answer :: jval where
  "proposal_answer = JObj [(''kind'', JStr ''proposal''), (''rationale'', JStr ''tests are red''), (''target_type'', JStr ''task''),
     (''candidate'', JObj [(''action'', JStr ''fix'')])]"

definition proposal_event :: mission_event where
  "proposal_event = \<lparr>me_mission = ''m1'', me_kind = ''remediation_proposed'',
     me_payload = [(''rationale'', JStr ''tests are red''), (''trigger_kind'', JStr ''task_observed''),
       (''proposal'', JObj [(''target_type'', JStr ''task''), (''candidate'', JObj [(''action'', JStr ''fix'')])])],
     me_tokens = 5, me_cents = 1, me_depth = 0\<rparr>"

definition proposal_schedule :: "supervisor_event list" where
  "proposal_schedule = [TriggerArrives ''m1'' sample_trigger, ReplyArrives 0 ''''
     (Inr (''{}'', \<lparr>dl_tokens = Number (Finite 5), dl_cents = Number (Finite 1)\<rparr>))]"

lemma proposals_are_safe_witness:
  "me_depth proposal_event \<le> 2 \<and> (\<exists>a. proposed_action (me_payload proposal_event) = Some a \<and> notDestructiveVerb a)"
proof (rule proposals_are_safe [where s = sample_supervisor and es = proposal_schedule and jp = "\<lambda>_. Some proposal_answer"])
  have "notDestructiveVerb ''fix''" by code_simp
  then have c: "candidateSchema (Some (JObj [(''action'', JStr ''fix'')])) = Some [(''action'', JStr ''fix'')]"
    by (simp add: candidateSchema_def str_between_def)
  have "supervisorOutputSchema proposal_answer = Some (Proposal ''tests are red'' ''task'' [(''action'', JStr ''fix'')])"
    by (simp add: supervisorOutputSchema_def proposalSchema_def proposal_answer_def str_between_def c)
  then have "evaluator (\<lambda>_. Some proposal_answer) '''' sample_trigger
       (Inr (''{}'', \<lparr>dl_tokens = Number (Finite 5), dl_cents = Number (Finite 1)\<rparr>))
     = Inr \<lparr>ev_proposal = Some (JObj [(''target_type'', JStr ''task''), (''candidate'', JObj [(''action'', JStr ''fix'')])]),
         ev_cost = \<lparr>dl_tokens = Number (Finite 5), dl_cents = Number (Finite 1)\<rparr>,
         ev_kind = Some ''remediation_proposed'', ev_payload = [(''rationale'', JStr ''tests are red'')]\<rparr>"
    by (simp add: evaluator_def sample_trigger_def parseSupervisorReply_def MAX_SUPERVISOR_REPLY_BYTES_def)
  note ev = this
  show "proposal_event \<in> set (md_events (sv_db (supervisor_run (\<lambda>_. Some proposal_answer) proposal_schedule sample_supervisor)))"
    using ev by (simp add: sample_supervisor_def sample_mission_def sample_trigger_def proposal_schedule_def proposal_event_def
        supervisor_run_def guarded_begin_def check_def readMission_def mission_of_def computeResult_def exhausted_def
        depth_check_def trigger_depth_def finish_evaluate_def guarded_end_def validateDelta_def spend_def set_mission_def
        add_event_def writeMissionEvent_def event_kind_def event_payload_def MAX_DELTA_def MAX_ALLOWED_DEPTH_def Let_def)
qed (simp_all add: sample_supervisor_def proposal_event_def)

subsection \<open>The end of a mission\<close>

text \<open>When the model says that the objective is met, an active mission is completed if the call leaves tokens
  and cents in its budget; the call that uses the budget up pauses the mission, and it stays paused.\<close>

theorem objective_met_status:
  assumes "finish_evaluate jp msg c (Inr (answer, cost)) db = Inr (x, db')"
    and "tg_kind (gc_trigger c) \<noteq> ''heartbeat''" "parseSupervisorReply jp answer = Some (ObjectiveMet su)"
    and "mission_of (gc_mission c) db = Some r" "mn_status r = ''active''" "validateDelta cost = Inr (t, n)"
  shows "map_option mn_status (mission_of (gc_mission c) db') =
    Some (if mn_spentTokens r + t < mn_budgetTokens r \<and> mn_spentCents r + n < mn_budgetCents r
          then ''completed'' else ''paused'')"
  using assms(1)
proof (rule finish_tables)
  fix ev cost' r'
  assume ev: "evaluator jp msg (gc_trigger c) (Inr (answer, cost)) = Inr ev"
    and cost': "validateDelta (ev_cost ev) = Inr cost'" and "mission_of (gc_mission c) db = Some r'"
    and db': "mission_of (gc_mission c) db' = Some (r'\<lparr>mn_spentTokens := mn_spentTokens r' + fst cost',
       mn_spentCents := mn_spentCents r' + snd cost', mn_status := status_after r' cost' ev\<rparr>)"
  then have "r' = r" "event_kind ev = ''objective_met''" "cost' = (t, n)"
    using assms(2-6) by (auto simp: evaluator_def event_kind_def)
  then show ?thesis using db' assms(5) by (auto simp: status_after_def halts_def Let_def)
qed

definition met_answer :: jval where
  "met_answer = JObj [(''kind'', JStr ''objective_met''), (''summary'', JStr ''all slices shipped'')]"

definition met_context :: guard_context where
  "met_context = \<lparr>gc_mission = ''m1'', gc_trigger = sample_trigger, gc_depth = 0, gc_budget = computeResult sample_mission\<rparr>"

definition met_cost :: delta where
  "met_cost = \<lparr>dl_tokens = Number (Finite 20), dl_cents = Number (Finite 1)\<rparr>"

lemma objective_met_status_witness:
  "\<exists>x db'. finish_evaluate (\<lambda>_. Some met_answer) '''' met_context (Inr (''{}'', met_cost)) (sv_db sample_supervisor) = Inr (x, db')
     \<and> map_option mn_status (mission_of ''m1'' db') = Some ''paused''"
proof -
  have p: "parseSupervisorReply (\<lambda>_. Some met_answer) ''{}'' = Some (ObjectiveMet ''all slices shipped'')"
    by (simp add: parseSupervisorReply_def MAX_SUPERVISOR_REPLY_BYTES_def supervisorOutputSchema_def met_answer_def str_between_def)
  have v: "validateDelta met_cost = Inr (20, 1)" by (simp add: validateDelta_def met_cost_def MAX_DELTA_def)
  have m: "mission_of (gc_mission met_context) (sv_db sample_supervisor) = Some sample_mission"
    by (simp add: met_context_def sample_supervisor_def mission_of_def)
  obtain x db' where f: "finish_evaluate (\<lambda>_. Some met_answer) '''' met_context (Inr (''{}'', met_cost)) (sv_db sample_supervisor)
      = Inr (x, db')"
    by (simp add: finish_evaluate_def guarded_end_def evaluator_def p met_context_def sample_trigger_def v
        spend_def readMission_def m [unfolded met_context_def, simplified] Let_def)
  have "tg_kind (gc_trigger met_context) \<noteq> ''heartbeat''" by (simp add: met_context_def sample_trigger_def)
  from objective_met_status [OF f this p m _ v] have "map_option mn_status (mission_of ''m1'' db') = Some ''paused''"
    by (simp add: sample_mission_def met_context_def)
  with f show ?thesis by blast
qed

end
