(* ===== verification/MissionQueue.thy ===== *)
theory MissionQueue
  imports MissionProps AutoExecutor "HOL-Library.Sublist"
begin

text \<open>
  What wakes the supervisor of a mission: the end of a task, routed and coalesced by
  \<open>src/src/services/missions/event-subscriber.ts\<close>, the heartbeat of \<open>heartbeat.ts\<close>, and the detector of
  stalled tasks of \<open>stalled-detector.ts\<close>.  An evaluation ends in two steps: its promise settles
  (\<open>ReplyIn\<close>, or at once when a guard refuses), and the \<open>finally\<close> of \<open>runOne\<close> runs later
  (\<open>SettlesNow\<close>); anything may come in between, a \<open>PATCH\<close> of the mission or the deletion of its project
  included.  \<open>Accepted\<close> and \<open>Started\<close> entries of the log are history
  only.  The times of the detector are whole seconds, as SQLite stores them.
\<close>

subsection \<open>From a task to its mission\<close>

definition MAX_CACHE_ENTRIES :: nat where "MAX_CACHE_ENTRIES = 4096"

definition NEGATIVE_TTL_MS :: int where "NEGATIVE_TTL_MS = 60 * 1000"

definition POSITIVE_TTL_MS :: int where "POSITIVE_TTL_MS = 10 * 60 * 1000"

type_synonym mission_cache = "(int \<times> (string option \<times> int)) list"

definition ttl_of :: "string option \<Rightarrow> int" where
  "ttl_of v = (if v \<noteq> None then POSITIVE_TTL_MS else NEGATIVE_TTL_MS)"

text \<open>\<open>None\<close> is \<open>undefined\<close> (not cached), \<open>Some None\<close> the cached \<open>null\<close>.\<close>

definition readCachedMissionForTask :: "int \<Rightarrow> int \<Rightarrow> mission_cache \<Rightarrow> string option option \<times> mission_cache" where
  "readCachedMissionForTask now taskId c =
     (case map_of c taskId of
        None \<Rightarrow> (None, c)
      | Some (v, insertedAt) \<Rightarrow>
          if now - insertedAt > ttl_of v then (None, AList.delete taskId c) else (Some v, c))"

definition writeCachedMissionForTask :: "int \<Rightarrow> int \<Rightarrow> string option \<Rightarrow> mission_cache \<Rightarrow> mission_cache" where
  "writeCachedMissionForTask now taskId v c = put_capped MAX_CACHE_ENTRIES taskId (v, now) c"

text \<open>The walk over projects, milestones with a mission, slices and plan tasks; a listing that throws is
  skipped.\<close>

definition milestone_mission :: "milestone \<Rightarrow> string option" where
  "milestone_mission m = (case ms_missionId m of Some (JStr s) \<Rightarrow> if s = [] then None else Some s | _ \<Rightarrow> None)"

definition mission_rows :: "pstore \<Rightarrow> (string \<times> plan_task) list" where
  "mission_rows st = concat (map (\<lambda>(pid, path).
     concat (map (\<lambda>m. case milestone_mission m of
                         None \<Rightarrow> []
                       | Some mid \<Rightarrow> map (\<lambda>(_, _, t). (mid, t)) (milestone_rows (plan_of st path) (ms_slug m)))
       (or_empty (listMilestones (plan_of st path))))) (project_paths st))"

definition walk_mission :: "pstore \<Rightarrow> int \<Rightarrow> string option" where
  "walk_mission st taskId =
     map_option fst (find (\<lambda>(_, t). pt_executionTaskId t = Some (JNum taskId)) (mission_rows st))"

definition resolveMissionForTask :: "int \<Rightarrow> int \<Rightarrow> pstore \<Rightarrow> mission_cache \<Rightarrow> string option \<times> mission_cache" where
  "resolveMissionForTask now taskId st c0 =
     (case readCachedMissionForTask now taskId c0 of
        (Some v, c) \<Rightarrow> (v, c)
      | (None, c) \<Rightarrow> let v = walk_mission st taskId in (v, writeCachedMissionForTask now taskId v c))"

subsection \<open>The queue of a mission\<close>

datatype flight = Evaluating | Settled

record queue_state =
  qs_running :: flight
  qs_pending :: "trigger option"

datatype queue_entry = Accepted string trigger | Started string trigger

record subscriber =
  sb_sup :: supervisor
  sb_queues :: "(string \<times> queue_state) list"
  sb_cache :: mission_cache
  sb_handles :: "string list"
  sb_fired :: "(int \<times> unit) list"
  sb_log :: "queue_entry list"

definition readActiveMission :: "string \<Rightarrow> mission_db \<Rightarrow> bool" where
  "readActiveMission m db = (case mission_of m db of None \<Rightarrow> False | Some r \<Rightarrow> mn_status r = ''active'')"

definition buildTrigger :: "terminal_event \<Rightarrow> js_number option \<Rightarrow> trigger" where
  "buildTrigger e depth =
     \<lparr>tg_kind = ''task_observed'',
      tg_depth = (case depth of None \<Rightarrow> NoNumber | Some d \<Rightarrow> Number d),
      tg_payload = [(''task_id'', JNum (te_task e)), (''status'', JStr (te_status e))]
        @ (case te_error e of None \<Rightarrow> [] | Some msg \<Rightarrow> [(''task_output'', JStr msg)])\<rparr>"

text \<open>The call of \<open>svc.evaluate\<close>, up to its first wait: it is in flight, or a guard has refused it.\<close>

definition call_evaluate :: "string \<Rightarrow> trigger \<Rightarrow> subscriber \<Rightarrow> flight \<times> subscriber" where
  "call_evaluate m t s =
     (let sup = supervisor_step (\<lambda>_. None) (TriggerArrives m t) (sb_sup s)
      in (if length (sv_inflight sup) > length (sv_inflight (sb_sup s)) then Evaluating else Settled,
          s\<lparr>sb_sup := sup, sb_log := sb_log s @ [Started m t]\<rparr>))"

definition runOne :: "string \<Rightarrow> trigger \<Rightarrow> subscriber \<Rightarrow> subscriber" where
  "runOne m t s =
     (case call_evaluate m t s of
        (f, s1) \<Rightarrow> s1\<lparr>sb_queues := AList.update m \<lparr>qs_running = f, qs_pending = None\<rparr> (sb_queues s1)\<rparr>)"

definition enqueue_trigger :: "string \<Rightarrow> trigger \<Rightarrow> subscriber \<Rightarrow> subscriber" where
  "enqueue_trigger m t s =
     (let s1 = s\<lparr>sb_log := sb_log s @ [Accepted m t]\<rparr> in
      case map_of (sb_queues s) m of
        None \<Rightarrow> runOne m t s1
      | Some q \<Rightarrow> s1\<lparr>sb_queues := AList.update m (q\<lparr>qs_pending := Some t\<rparr>) (sb_queues s)\<rparr>)"

text \<open>The \<open>finally\<close> of \<open>runOne\<close>.\<close>

definition settle_queue :: "string \<Rightarrow> subscriber \<Rightarrow> subscriber" where
  "settle_queue m s =
     (case map_of (sb_queues s) m of
        None \<Rightarrow> s
      | Some q \<Rightarrow>
          if qs_running q = Evaluating then s
          else case qs_pending q of
                 None \<Rightarrow> s\<lparr>sb_queues := AList.delete m (sb_queues s)\<rparr>
               | Some t \<Rightarrow> runOne m t s)"

definition listener :: "int \<Rightarrow> pstore \<Rightarrow> terminal_event \<Rightarrow> js_number option \<Rightarrow> subscriber \<Rightarrow> subscriber" where
  "listener now st e depth s =
     (case resolveMissionForTask now (te_task e) st (sb_cache s) of
        (None, c) \<Rightarrow> s\<lparr>sb_cache := c\<rparr>
      | (Some m, c) \<Rightarrow>
          if readActiveMission m (sv_db (sb_sup s)) then enqueue_trigger m (buildTrigger e depth) (s\<lparr>sb_cache := c\<rparr>)
          else s\<lparr>sb_cache := c\<rparr>)"

subsection \<open>The heartbeat\<close>

definition heartbeat_trigger :: trigger where
  "heartbeat_trigger = \<lparr>tg_kind = ''heartbeat'', tg_depth = NoNumber, tg_payload = []\<rparr>"

definition registerHeartbeat :: "string \<Rightarrow> subscriber \<Rightarrow> subscriber" where
  "registerHeartbeat m s = (if m \<in> set (sb_handles s) then s else s\<lparr>sb_handles := sb_handles s @ [m]\<rparr>)"

definition unregisterHeartbeat :: "string \<Rightarrow> subscriber \<Rightarrow> bool \<times> subscriber" where
  "unregisterHeartbeat m s =
     (if m \<in> set (sb_handles s) then (True, s\<lparr>sb_handles := filter (\<lambda>x. x \<noteq> m) (sb_handles s)\<rparr>) else (False, s))"

definition unregisterAllHeartbeats :: "subscriber \<Rightarrow> subscriber" where
  "unregisterAllHeartbeats s = s\<lparr>sb_handles := []\<rparr>"

definition active_mission_ids :: "mission_db \<Rightarrow> string list" where
  "active_mission_ids db = map fst (filter (\<lambda>(_, r). mn_status r = ''active'') (md_missions db))"

text \<open>The ids registered, the ids found registered, and the state after.\<close>

definition registerHeartbeats :: "subscriber \<Rightarrow> string list \<times> string list \<times> subscriber" where
  "registerHeartbeats s =
     fold (\<lambda>m (registered, already, s).
             if m \<in> set (sb_handles s) then (registered, already @ [m], s)
             else (registered @ [m], already, registerHeartbeat m s))
       (active_mission_ids (sv_db (sb_sup s))) ([], [], s)"

definition heartbeat_tick :: "string \<Rightarrow> subscriber \<Rightarrow> subscriber" where
  "heartbeat_tick m s =
     (if m \<notin> set (sb_handles s) then s
      else if \<not> readActiveMission m (sv_db (sb_sup s)) then snd (unregisterHeartbeat m s)
      else s\<lparr>sb_sup := supervisor_step (\<lambda>_. None) (TriggerArrives m heartbeat_trigger) (sb_sup s)\<rparr>)"

subsection \<open>Stalled tasks\<close>

definition STALL_WALL_TIME_MS :: int where "STALL_WALL_TIME_MS = 15 * 60 * 1000"

definition STALL_IDLE_MS :: int where "STALL_IDLE_MS = 5 * 60 * 1000"

definition MAX_FIRED_TASK_IDS :: nat where "MAX_FIRED_TASK_IDS = 4096"

record log_row =
  lr_id :: int
  lr_status :: string
  lr_startedAt :: "int option"
  lr_lastLog :: "int option"

definition scanStalledTasks :: "int \<Rightarrow> log_row list \<Rightarrow> int list" where
  "scanStalledTasks now rows =
     map lr_id (filter (\<lambda>r. lr_status r = ''running''
         \<and> (case lr_startedAt r of
              None \<Rightarrow> False
            | Some t \<Rightarrow> now - t > STALL_WALL_TIME_MS div 1000
                \<and> now - (case lr_lastLog r of None \<Rightarrow> t | Some l \<Rightarrow> l) > STALL_IDLE_MS div 1000)) rows)"

definition recordFiredTaskId :: "int \<Rightarrow> subscriber \<Rightarrow> subscriber" where
  "recordFiredTaskId taskId s = s\<lparr>sb_fired := put_capped MAX_FIRED_TASK_IDS taskId () (sb_fired s)\<rparr>"

definition stalled_event :: "int \<Rightarrow> terminal_event" where
  "stalled_event taskId = \<lparr>te_task = taskId, te_status = ''stalled'', te_error = None\<rparr>"

definition stall_row :: "int \<Rightarrow> pstore \<Rightarrow> int \<Rightarrow> subscriber \<Rightarrow> subscriber" where
  "stall_row now st taskId s =
     (if taskId \<in> fst ` set (sb_fired s) then s
      else listener now st (stalled_event taskId) None (recordFiredTaskId taskId s))"

definition stall_tick :: "int \<Rightarrow> pstore \<Rightarrow> log_row list \<Rightarrow> subscriber \<Rightarrow> subscriber" where
  "stall_tick now st rows s = fold (stall_row now st) (scanStalledTasks (now div 1000) rows) s"

definition stopStalledDetector :: "subscriber \<Rightarrow> subscriber" where
  "stopStalledDetector s = s\<lparr>sb_fired := []\<rparr>"

subsection \<open>All of it\<close>

datatype subscriber_event =
    TaskEnds int pstore terminal_event "js_number option"
  | StallTick int pstore "log_row list"
  | HeartbeatTick string
  | ReplyIn nat string "mission_error + string \<times> delta"
  | SettlesNow string
  | OperatorPatch string "string option" "string option" "int option" "int option"
  | ProjectDeleted "string list"
  | Boot
  | ClearCache

fun subscriber_step :: "json_parse \<Rightarrow> subscriber_event \<Rightarrow> subscriber \<Rightarrow> subscriber" where
  "subscriber_step jp (TaskEnds now st e depth) s = listener now st e depth s"
| "subscriber_step jp (StallTick now st rows) s = stall_tick now st rows s"
| "subscriber_step jp (HeartbeatTick m) s = heartbeat_tick m s"
| "subscriber_step jp (ReplyIn i msg reply) s =
     (if i < length (sv_inflight (sb_sup s))
      then let c = sv_inflight (sb_sup s) ! i; m = gc_mission c;
               s1 = s\<lparr>sb_sup := supervisor_step jp (ReplyArrives i msg reply) (sb_sup s)\<rparr>
           in if tg_kind (gc_trigger c) = ''heartbeat'' then s1
              else s1\<lparr>sb_queues := AList.map_entry m (\<lambda>q. q\<lparr>qs_running := Settled\<rparr>) (sb_queues s)\<rparr>
      else s)"
| "subscriber_step jp (SettlesNow m) s = settle_queue m s"
| "subscriber_step jp (OperatorPatch m ob st bt bc) s =
     s\<lparr>sb_sup := supervisor_step jp (OperatorPatches m ob st bt bc) (sb_sup s)\<rparr>"
| "subscriber_step jp (ProjectDeleted ms) s =
     s\<lparr>sb_sup := fold (supervisor_step jp) (map MissionDeleted ms) (sb_sup s)\<rparr>"
| "subscriber_step jp Boot s = snd (snd (registerHeartbeats s))"
| "subscriber_step jp ClearCache s = s\<lparr>sb_cache := []\<rparr>"

definition subscriber_run :: "json_parse \<Rightarrow> subscriber_event list \<Rightarrow> subscriber \<Rightarrow> subscriber" where
  "subscriber_run jp es s = fold (subscriber_step jp) es s"

definition subscriber_start :: "mission_db \<Rightarrow> subscriber" where
  "subscriber_start db = \<lparr>sb_sup = \<lparr>sv_db = db, sv_inflight = []\<rparr>, sb_queues = [], sb_cache = [], sb_handles = [],
     sb_fired = [], sb_log = []\<rparr>"

end
