(* ===== verification/MissionQueueProps.thy ===== *)
theory MissionQueueProps
  imports MissionQueue
begin

text \<open>
  What the queue of \<open>MissionQueue\<close> promises for every order of events: one paid evaluation of a mission at a
  time, and hence a budget that is overrun by less than one of them; the trigger that came last is the one
  that is evaluated last; answers of the resolver cache that are no older than its times to live.
\<close>

subsection \<open>One evaluation at a time\<close>

definition flying :: "queue_state option \<Rightarrow> nat" where
  "flying q = (case q of None \<Rightarrow> 0 | Some q \<Rightarrow> if qs_running q = Evaluating then 1 else 0)"

definition pending_of :: "string \<Rightarrow> subscriber \<Rightarrow> trigger list" where
  "pending_of m s = (case map_of (sb_queues s) m of None \<Rightarrow> []
     | Some q \<Rightarrow> (case qs_pending q of None \<Rightarrow> [] | Some t \<Rightarrow> [t]))"

fun accepted :: "string \<Rightarrow> queue_entry list \<Rightarrow> trigger list" where
  "accepted m [] = []"
| "accepted m (Accepted m' t # l) = (if m' = m then t # accepted m l else accepted m l)"
| "accepted m (Started m' t # l) = accepted m l"

fun flight_started :: "string \<Rightarrow> queue_entry list \<Rightarrow> trigger list" where
  "flight_started m [] = []"
| "flight_started m (Accepted m' t # l) = flight_started m l"
| "flight_started m (Started m' t # l) = (if m' = m then t # flight_started m l else flight_started m l)"

lemma accepted_append [simp]: "accepted m (k @ l) = accepted m k @ accepted m l"
  by (induction k rule: accepted.induct) simp_all

lemma flight_started_append [simp]: "flight_started m (k @ l) = flight_started m k @ flight_started m l"
  by (induction k rule: flight_started.induct) simp_all

definition queue_at :: "string \<Rightarrow> subscriber \<Rightarrow> bool" where
  "queue_at m s \<longleftrightarrow>
     (\<forall>t \<in> set (pending_of m s). tg_kind t = ''task_observed'')
     \<and> subseq (flight_started m (sb_log s) @ pending_of m s) (accepted m (sb_log s))
     \<and> (accepted m (sb_log s) \<noteq> [] \<longrightarrow> flight_started m (sb_log s) @ pending_of m s \<noteq> []
          \<and> last (flight_started m (sb_log s) @ pending_of m s) = last (accepted m (sb_log s)))"

definition queue_inv :: "subscriber \<Rightarrow> bool" where
  "queue_inv s \<longleftrightarrow> (\<forall>m. inflight_of m (sb_sup s) = flying (map_of (sb_queues s) m)) \<and> (\<forall>m. queue_at m s)"

lemma queue_invD:
  assumes "queue_inv s"
  shows "inflight_of m (sb_sup s) = flying (map_of (sb_queues s) m)" "queue_at m s"
  using assms by (simp_all add: queue_inv_def)

text \<open>What the arrival of a trigger does to the evaluations in flight.\<close>

lemma arrival_flight:
  obtains "sv_inflight (supervisor_step jp (TriggerArrives m t) s) = sv_inflight s"
  | c where "sv_inflight (supervisor_step jp (TriggerArrives m t) s) = sv_inflight s @ [c]"
      "gc_mission c = m" "gc_trigger c = t" "gc_depth c = trigger_depth t"
proof (cases "guarded_begin m t (sv_db s)")
  case (Inl e)
  then show ?thesis using that(1) by simp
next
  case (Inr r)
  then obtain x db where x: "guarded_begin m t (sv_db s) = Inr (x, db)" by (cases r) auto
  show ?thesis
  proof (cases x)
    case (Inl d)
    then show ?thesis using that(1) x by simp
  next
    case (Inr c)
    then show ?thesis using that(2) x by (auto simp: guarded_begin_iff)
  qed
qed

lemma arrival_inflight_of:
  "inflight_of m' (supervisor_step jp (TriggerArrives m t) s) =
     inflight_of m' s + (if m' = m \<and> tg_kind t \<noteq> ''heartbeat''
       \<and> length (sv_inflight (supervisor_step jp (TriggerArrives m t) s)) > length (sv_inflight s) then 1 else 0)"
  by (cases rule: arrival_flight [of jp m t s]) (auto simp: inflight_of_def charged_def)

lemma runOne_facts:
  "sb_sup (runOne m t s) = supervisor_step (\<lambda>_. None) (TriggerArrives m t) (sb_sup s)"
  "sb_log (runOne m t s) = sb_log s @ [Started m t]"
  "map_of (sb_queues (runOne m t s)) m' = (if m' = m then
     Some \<lparr>qs_running = (if length (sv_inflight (sb_sup (runOne m t s))) > length (sv_inflight (sb_sup s)) then Evaluating
        else Settled), qs_pending = None\<rparr> else map_of (sb_queues s) m')"
  "sb_cache (runOne m t s) = sb_cache s" "sb_handles (runOne m t s) = sb_handles s" "sb_fired (runOne m t s) = sb_fired s"
  by (simp_all add: runOne_def call_evaluate_def Let_def update_conv')

lemma runOne_pending: "pending_of m' (runOne m t s) = (if m' = m then [] else pending_of m' s)"
  by (simp add: pending_of_def runOne_facts(3))

lemma runOne_flying:
  assumes "\<And>m. inflight_of m (sb_sup s) = flying (map_of (sb_queues s) m)"
    and "inflight_of m (sb_sup s) = 0" "tg_kind t \<noteq> ''heartbeat''"
  shows "inflight_of m' (sb_sup (runOne m t s)) = flying (map_of (sb_queues (runOne m t s)) m')"
proof (cases "m' = m")
  case True
  then show ?thesis using assms(2,3)
    by (simp add: runOne_facts(1,3) arrival_inflight_of flying_def del: supervisor_step.simps)
next
  case False
  then have "inflight_of m' (sb_sup (runOne m t s)) = inflight_of m' (sb_sup s)"
    by (simp add: runOne_facts(1) arrival_inflight_of del: supervisor_step.simps)
  then show ?thesis using assms(1) [of m'] False by (simp add: runOne_facts(3))
qed

lemma queue_at_cong:
  "sb_queues s' = sb_queues s \<Longrightarrow> sb_log s' = sb_log s \<Longrightarrow> queue_at m s' = queue_at m s"
  by (simp add: queue_at_def pending_of_def)

lemma settle_inv:
  assumes "queue_inv s"
  shows "queue_inv (settle_queue m s)"
proof (cases "map_of (sb_queues s) m")
  case None
  then show ?thesis using assms by (simp add: settle_queue_def)
next
  case (Some q)
  note q = Some
  show ?thesis
  proof (cases "qs_running q")
    case Evaluating
    then show ?thesis using assms q by (simp add: settle_queue_def)
  next
    case Settled
    have f: "inflight_of m (sb_sup s) = 0" using assms q Settled by (simp add: queue_inv_def flying_def)
    show ?thesis
    proof (cases "qs_pending q")
      case None
      then have s': "settle_queue m s = s\<lparr>sb_queues := AList.delete m (sb_queues s)\<rparr>"
        using q Settled by (simp add: settle_queue_def)
      have "pending_of m' (settle_queue m s) = pending_of m' s" for m'
        using q None by (simp add: s' pending_of_def delete_conv')
      then have "queue_at m' (settle_queue m s) = queue_at m' s" for m' by (simp add: queue_at_def s')
      moreover have "inflight_of m' (sb_sup s) = flying (map_of (AList.delete m (sb_queues s)) m')" for m'
        using queue_invD(1) [OF assms, of m'] f by (cases "m' = m") (simp_all add: flying_def delete_conv')
      ultimately show ?thesis using assms by (simp add: queue_inv_def) (simp add: s')
    next
      case (Some t)
      then have s': "settle_queue m s = runOne m t s" using q Settled by (simp add: settle_queue_def)
      have p: "pending_of m s = [t]" using q Some by (simp add: pending_of_def)
      then have "tg_kind t \<noteq> ''heartbeat''" using queue_invD(2) [OF assms, of m] by (simp add: queue_at_def)
      then have "\<forall>m'. inflight_of m' (sb_sup (runOne m t s)) = flying (map_of (sb_queues (runOne m t s)) m')"
        using runOne_flying [of s m t] assms f by (simp add: queue_inv_def)
      moreover have "queue_at m' (runOne m t s)" for m'
        using queue_invD(2) [OF assms, of m'] p
        by (cases "m' = m") (simp_all add: queue_at_def runOne_facts(2) runOne_pending)
      ultimately show ?thesis by (simp add: s' queue_inv_def)
    qed
  qed
qed

lemma enqueue_trigger_inv:
  assumes "queue_inv s" "tg_kind t = ''task_observed''"
  shows "queue_inv (enqueue_trigger m t s)"
proof (cases "map_of (sb_queues s) m")
  case None
  let ?s = "s\<lparr>sb_log := sb_log s @ [Accepted m t]\<rparr>"
  have s': "enqueue_trigger m t s = runOne m t ?s" using None by (simp add: enqueue_trigger_def)
  have f: "inflight_of m (sb_sup s) = 0" and p: "pending_of m s = []"
    using assms(1) None by (simp_all add: queue_inv_def flying_def pending_of_def)
  have p': "pending_of m' ?s = pending_of m' s" for m' by (simp add: pending_of_def)
  have "\<forall>m'. inflight_of m' (sb_sup (runOne m t ?s)) = flying (map_of (sb_queues (runOne m t ?s)) m')"
    using runOne_flying [of ?s m t] assms f by (simp add: queue_inv_def)
  moreover have "queue_at m' (runOne m t ?s)" for m'
    using queue_invD(2) [OF assms(1), of m'] p by (cases "m' = m")
      (simp_all add: queue_at_def runOne_facts(2) runOne_pending p')
  ultimately show ?thesis by (simp add: s' queue_inv_def)
next
  case (Some q)
  have p: "pending_of m' (enqueue_trigger m t s) = (if m' = m then [t] else pending_of m' s)" for m'
    using Some by (simp add: enqueue_trigger_def pending_of_def Let_def update_conv')
  have f: "flying (map_of (sb_queues (enqueue_trigger m t s)) m') = flying (map_of (sb_queues s) m')" for m'
    using Some by (simp add: enqueue_trigger_def Let_def update_conv' flying_def)
  have r: "sb_sup (enqueue_trigger m t s) = sb_sup s" "sb_log (enqueue_trigger m t s) = sb_log s @ [Accepted m t]"
    using Some by (simp_all add: enqueue_trigger_def Let_def)
  have "subseq (flight_started m (sb_log s)) (accepted m (sb_log s))"
    using queue_invD(2) [OF assms(1), of m]
    by (auto simp: queue_at_def intro: subseq_order.trans [of _ "flight_started m (sb_log s) @ pending_of m s"])
  then have "queue_at m' (enqueue_trigger m t s)" for m'
    using queue_invD(2) [OF assms(1), of m'] assms(2) by (cases "m' = m") (simp_all add: queue_at_def p r)
  then show ?thesis using assms(1) by (simp add: queue_inv_def f r)
qed

lemma queue_inv_frame:
  assumes "sb_queues s' = sb_queues s" "sb_log s' = sb_log s" "\<And>m. inflight_of m (sb_sup s') = inflight_of m (sb_sup s)"
  shows "queue_inv s' = queue_inv s"
  by (simp add: queue_inv_def assms queue_at_cong [OF assms(1,2)])

lemma listener_inv: "queue_inv s \<Longrightarrow> queue_inv (listener now st e depth s)"
proof -
  assume s: "queue_inv s"
  have c: "queue_inv (s\<lparr>sb_cache := c\<rparr>)" for c using s by (subst queue_inv_frame) simp_all
  have t: "tg_kind (buildTrigger e depth) = ''task_observed''" by (simp add: buildTrigger_def)
  obtain r c' where r: "resolveMissionForTask now (te_task e) st (sb_cache s) = (r, c')"
    by (cases "resolveMissionForTask now (te_task e) st (sb_cache s)")
  show ?thesis using c [of c'] enqueue_trigger_inv [OF c t, of _ c'] by (cases r) (simp_all add: listener_def r)
qed

lemma stall_inv: "queue_inv s \<Longrightarrow> queue_inv (stall_tick now st rows s)"
proof -
  have row: "queue_inv (stall_row now st i s)" if "queue_inv s" for i s
  proof -
    have "queue_inv (recordFiredTaskId i s)" using that by (subst queue_inv_frame) (simp_all add: recordFiredTaskId_def)
    then show ?thesis using that by (simp add: stall_row_def listener_inv)
  qed
  have "queue_inv (fold (stall_row now st) is s)" if "queue_inv s" for "is" s
    using that by (induction "is" arbitrary: s) (simp_all add: row)
  then show "queue_inv s \<Longrightarrow> queue_inv (stall_tick now st rows s)" by (simp add: stall_tick_def)
qed

lemma registerHeartbeats_rest:
  "\<exists>hs. snd (snd (registerHeartbeats s)) = s\<lparr>sb_handles := hs\<rparr>"
proof -
  have "\<exists>hs. snd (snd (fold (\<lambda>m (registered, already, s).
             if m \<in> set (sb_handles s) then (registered, already @ [m], s)
             else (registered @ [m], already, registerHeartbeat m s)) ms (r, a, s))) = s\<lparr>sb_handles := hs\<rparr>" for ms r a s
  proof (induction ms arbitrary: r a s)
    case (Cons m ms)
    show ?case
    proof (cases "m \<in> set (sb_handles s)")
      case True
      then show ?thesis using Cons [of r "a @ [m]" s] by simp
    next
      case False
      then show ?thesis using Cons [of "r @ [m]" a "registerHeartbeat m s"] by (simp add: registerHeartbeat_def)
    qed
    next
    case Nil
    show ?case by (intro exI [of _ "sb_handles s"]) (cases s, simp)
  qed
  then show ?thesis by (simp add: registerHeartbeats_def)
qed

lemma heartbeat_inv: "queue_inv s \<Longrightarrow> queue_inv (heartbeat_tick m s)"
  by (subst queue_inv_frame [where s = s])
    (simp_all add: heartbeat_tick_def unregisterHeartbeat_def arrival_inflight_of heartbeat_trigger_def
      del: supervisor_step.simps)

lemma reply_flight:
  assumes "i < length (sv_inflight s)"
  shows "inflight_of m s = inflight_of m (supervisor_step jp (ReplyArrives i msg reply) s)
     + (if charged m (sv_inflight s ! i) then 1 else 0)"
proof -
  have "sv_inflight (supervisor_step jp (ReplyArrives i msg reply) s) = take i (sv_inflight s) @ drop (i + 1) (sv_inflight s)"
    using assms by (simp add: Let_def split: sum.split)
  then show ?thesis using filter_remove [OF assms, of "charged m"] by (simp only: inflight_of_def)
qed

lemma reply_inv:
  assumes s: "queue_inv s"
  shows "queue_inv (subscriber_step jp (ReplyIn i msg reply) s)"
proof (cases "i < length (sv_inflight (sb_sup s))")
  case False
  then show ?thesis using s by simp
next
  case i: True
  define c where "c = sv_inflight (sb_sup s) ! i"
  define sup where "sup = supervisor_step jp (ReplyArrives i msg reply) (sb_sup s)"
  have f: "inflight_of m (sb_sup s) = inflight_of m sup + (if charged m c then 1 else 0)" for m
    using reply_flight [OF i] by (simp only: sup_def c_def)
  show ?thesis
  proof (cases "tg_kind (gc_trigger c) = ''heartbeat''")
    case True
    then have "subscriber_step jp (ReplyIn i msg reply) s = s\<lparr>sb_sup := sup\<rparr>"
      using i by (simp add: Let_def c_def sup_def del: supervisor_step.simps)
    then show ?thesis using s f True by (subst queue_inv_frame [where s = s]) (simp_all add: charged_def)
  next
    case False
    let ?s = "s\<lparr>sb_sup := sup, sb_queues := AList.map_entry (gc_mission c) (\<lambda>q. q\<lparr>qs_running := Settled\<rparr>) (sb_queues s)\<rparr>"
    have e: "subscriber_step jp (ReplyIn i msg reply) s = ?s"
      using i False by (simp add: Let_def c_def sup_def del: supervisor_step.simps)
    have "pending_of m ?s = pending_of m s" for m
      by (simp add: pending_of_def map_of_map_entry split: option.split)
    then have "queue_at m ?s = queue_at m s" for m by (simp add: queue_at_def)
    moreover have "inflight_of m sup = flying (map_of (sb_queues ?s) m)" for m
    proof (cases "m = gc_mission c")
      case True
      then show ?thesis using f [of m] False queue_invD(1) [OF s, of m]
        by (auto simp: charged_def flying_def map_of_map_entry split: option.splits if_splits)
    next
      case False
      then show ?thesis using f [of m] queue_invD(1) [OF s, of m] by (simp add: charged_def map_of_map_entry)
    qed
    ultimately show ?thesis using s unfolding e queue_inv_def by simp
  qed
qed

lemma operator_inv: "queue_inv s \<Longrightarrow> queue_inv (subscriber_step jp (OperatorPatch m ob st bt bc) s)"
  by (subst queue_inv_frame [where s = s]) (simp_all add: inflight_of_def)

lemma deletions_flight: "sv_inflight (fold (supervisor_step jp) (map MissionDeleted ms) s) = sv_inflight s"
  by (induction ms arbitrary: s) simp_all

lemma deleted_inv: "queue_inv s \<Longrightarrow> queue_inv (subscriber_step jp (ProjectDeleted ms) s)"
  by (subst queue_inv_frame [where s = s]) (simp_all add: inflight_of_def deletions_flight del: supervisor_step.simps)

lemma boot_inv: "queue_inv s \<Longrightarrow> queue_inv (subscriber_step jp Boot s)"
  using registerHeartbeats_rest [of s] by (subst queue_inv_frame [where s = s]) auto

lemma queue_step: "queue_inv s \<Longrightarrow> queue_inv (subscriber_step jp e s)"
proof (cases e)
  case ClearCache
  assume "queue_inv s"
  then show ?thesis using ClearCache by (subst queue_inv_frame [where s = s]) simp_all
qed (simp_all only: reply_inv operator_inv deleted_inv boot_inv, simp_all add: listener_inv stall_inv heartbeat_inv settle_inv)

interpretation coalescing: guarded_run "subscriber_step jp" "\<lambda>_ _. True" queue_inv for jp
  by unfold_locales (rule queue_step)

lemma queue_start: "queue_inv (subscriber_start db)"
  by (simp add: queue_inv_def subscriber_start_def inflight_of_def flying_def queue_at_def pending_of_def)

lemma queue_reached: "queue_inv (subscriber_run jp es (subscriber_start db))"
  unfolding subscriber_run_def by (rule coalescing.run_inv [OF along_True queue_start])

text \<open>Whatever ends, stalls, ticks and answers in whatever order, a mission never has two evaluations that
  call the model in flight, and it has one exactly while its queue entry says that one is running.\<close>

theorem one_evaluation_at_a_time:
  "inflight_of m (sb_sup (subscriber_run jp es (subscriber_start db))) =
     (case map_of (sb_queues (subscriber_run jp es (subscriber_start db))) m of
        None \<Rightarrow> 0 | Some q \<Rightarrow> if qs_running q = Evaluating then 1 else 0)"
  using queue_invD(1) [OF queue_reached] by (simp add: flying_def)

text \<open>Triggers are coalesced, never reordered, and the last one is not lost: the evaluations started for a
  mission, followed by the trigger that waits, are a subsequence of the triggers accepted for it and end in the
  last of them; so once nothing waits, the last trigger accepted is the last one evaluated.\<close>

theorem last_trigger_wins:
  "let s = subscriber_run jp es (subscriber_start db) in
     subseq (flight_started m (sb_log s) @ pending_of m s) (accepted m (sb_log s))
     \<and> take 1 (rev (flight_started m (sb_log s) @ pending_of m s)) = take 1 (rev (accepted m (sb_log s)))"
proof -
  have last_only: "take 1 (rev xs) = take 1 (rev ys)"
    if "ys \<noteq> [] \<longrightarrow> xs \<noteq> [] \<and> last xs = last ys" "subseq xs ys" for xs ys :: "trigger list"
    using that by (cases xs rule: rev_cases; cases ys rule: rev_cases) auto
  show ?thesis
    using queue_invD(2) [OF queue_reached [of jp es db], of m] last_only
    by (simp add: Let_def queue_at_def del: rev_append)
qed

subsection \<open>The queue is a supervisor\<close>

text \<open>The events of \<open>supervisor_step\<close> that an event of the queue amounts to.\<close>

fun starts :: "queue_entry list \<Rightarrow> supervisor_event list" where
  "starts [] = []"
| "starts (Accepted m t # l) = starts l"
| "starts (Started m t # l) = TriggerArrives m t # starts l"

fun sup_events :: "json_parse \<Rightarrow> subscriber_event \<Rightarrow> subscriber \<Rightarrow> supervisor_event list" where
  "sup_events jp (HeartbeatTick m) s =
     (if m \<in> set (sb_handles s) \<and> readActiveMission m (sv_db (sb_sup s)) then [TriggerArrives m heartbeat_trigger] else [])"
| "sup_events jp (ReplyIn i msg reply) s =
     (if i < length (sv_inflight (sb_sup s)) then [ReplyArrives i msg reply] else [])"
| "sup_events jp (OperatorPatch m ob st bt bc) s = [OperatorPatches m ob st bt bc]"
| "sup_events jp (ProjectDeleted ms) s = map MissionDeleted ms"
| "sup_events jp e s = starts (drop (length (sb_log s)) (sb_log (subscriber_step jp e s)))"

text \<open>A trigger is a heartbeat, or it reports the end of a task and comes when no call of the model is in flight
  for its mission.\<close>

fun sequential :: "supervisor_event \<Rightarrow> supervisor \<Rightarrow> bool" where
  "sequential (TriggerArrives m t) s \<longleftrightarrow>
     tg_kind t = ''heartbeat'' \<or> tg_kind t = ''task_observed'' \<and> inflight_of m s = 0"
| "sequential _ s \<longleftrightarrow> True"

definition advances :: "json_parse \<Rightarrow> subscriber \<Rightarrow> subscriber \<Rightarrow> bool" where
  "advances jp s s' \<longleftrightarrow> (\<exists>new. sb_log s' = sb_log s @ new \<and> sb_sup s' = fold (supervisor_step jp) (starts new) (sb_sup s)
     \<and> along (supervisor_step jp) sequential (starts new) (sb_sup s))"

lemma starts_append [simp]: "starts (k @ l) = starts k @ starts l"
  by (induction k rule: starts.induct) simp_all

lemma advances_same: "sb_log s' = sb_log s \<Longrightarrow> sb_sup s' = sb_sup s \<Longrightarrow> advances jp s s'"
  by (simp add: advances_def)

lemma advances_trans: "advances jp s s' \<Longrightarrow> advances jp s' s'' \<Longrightarrow> advances jp s s''"
  unfolding advances_def by (elim exE) (rule_tac x = "new @ newa" in exI, simp add: along_append)

lemma advances_rest:
  "advances jp s s' \<Longrightarrow> sb_log s1 = sb_log s \<Longrightarrow> sb_sup s1 = sb_sup s \<Longrightarrow> advances jp s1 s'"
  by (simp add: advances_def)

lemma arrival_any_json: "supervisor_step jp (TriggerArrives m t) s = supervisor_step jp' (TriggerArrives m t) s"
  by simp

lemma runOne_advances:
  assumes "inflight_of m (sb_sup s) = 0" "tg_kind t = ''task_observed''"
  shows "advances jp s (runOne m t s)"
  unfolding advances_def using assms
  by (intro exI [of _ "[Started m t]"]) (simp add: runOne_facts(1,2) arrival_any_json [of jp m t _ "\<lambda>_. None"]
      del: supervisor_step.simps)

lemma enqueue_trigger_advances:
  assumes "queue_inv s" "tg_kind t = ''task_observed''"
  shows "advances jp s (enqueue_trigger m t s)"
proof (cases "map_of (sb_queues s) m")
  case None
  let ?s = "s\<lparr>sb_log := sb_log s @ [Accepted m t]\<rparr>"
  have "advances jp s ?s" unfolding advances_def by (intro exI [of _ "[Accepted m t]"]) simp
  moreover have "advances jp ?s (runOne m t ?s)"
    using queue_invD(1) [OF assms(1), of m] None assms(2) by (intro runOne_advances) (simp_all add: flying_def)
  ultimately have "advances jp s (runOne m t ?s)" by (rule advances_trans)
  then show ?thesis using None by (simp add: enqueue_trigger_def)
next
  case (Some q)
  then show ?thesis unfolding advances_def by (intro exI [of _ "[Accepted m t]"]) (simp add: enqueue_trigger_def Let_def)
qed

lemma listener_advances:
  assumes "queue_inv s"
  shows "advances jp s (listener now st e depth s)"
proof -
  obtain r c where r: "resolveMissionForTask now (te_task e) st (sb_cache s) = (r, c)"
    by (cases "resolveMissionForTask now (te_task e) st (sb_cache s)")
  have "queue_inv (s\<lparr>sb_cache := c\<rparr>)" using assms by (subst queue_inv_frame [where s = s]) simp_all
  then have "advances jp s (enqueue_trigger m (buildTrigger e depth) (s\<lparr>sb_cache := c\<rparr>))" for m
    by (rule advances_rest [OF enqueue_trigger_advances]) (simp_all add: buildTrigger_def)
  then show ?thesis by (cases r) (simp_all add: listener_def r advances_same)
qed

lemma stall_advances:
  assumes "queue_inv s"
  shows "advances jp s (stall_tick now st rows s)"
proof -
  have "queue_inv (stall_row now st i s) \<and> advances jp s (stall_row now st i s)" if "queue_inv s" for i s
  proof -
    have "queue_inv (recordFiredTaskId i s)" using that by (subst queue_inv_frame) (simp_all add: recordFiredTaskId_def)
    moreover from this have "advances jp s (listener now st (stalled_event i) None (recordFiredTaskId i s))"
      by (rule advances_rest [OF listener_advances]) (simp_all add: recordFiredTaskId_def)
    ultimately show ?thesis using that by (simp add: stall_row_def listener_inv advances_same)
  qed
  then have "advances jp s (fold (stall_row now st) is s)" if "queue_inv s" for "is" s
    using that by (induction "is" arbitrary: s) (auto simp: advances_same intro: advances_trans)
  with assms show ?thesis by (simp add: stall_tick_def)
qed

lemma settle_advances:
  assumes "queue_inv s"
  shows "advances jp s (settle_queue m s)"
proof -
  have "advances jp s (runOne m t s)"
    if "map_of (sb_queues s) m = Some q" "qs_running q \<noteq> Evaluating" "qs_pending q = Some t" for q t
    using queue_invD [OF assms, of m] that
    by (intro runOne_advances) (simp_all add: flying_def queue_at_def pending_of_def)
  then show ?thesis by (auto simp: settle_queue_def advances_same split: option.split)
qed

lemma advances_events:
  assumes "advances jp s s'"
  shows "sb_sup s' = fold (supervisor_step jp) (starts (drop (length (sb_log s)) (sb_log s'))) (sb_sup s)"
    and "along (supervisor_step jp) sequential (starts (drop (length (sb_log s)) (sb_log s'))) (sb_sup s)"
  using assms by (auto simp: advances_def)

lemma sup_simulates:
  assumes "queue_inv s"
  shows "sb_sup (subscriber_step jp e s) = fold (supervisor_step jp) (sup_events jp e s) (sb_sup s)
    \<and> along (supervisor_step jp) sequential (sup_events jp e s) (sb_sup s)"
proof (cases e)
  case (HeartbeatTick m)
  have "sb_sup (heartbeat_tick m s) = fold (supervisor_step jp) (sup_events jp e s) (sb_sup s)"
    unfolding HeartbeatTick heartbeat_tick_def
    by (simp add: unregisterHeartbeat_def arrival_any_json [of jp m _ _ "\<lambda>_. None"] del: supervisor_step.simps)
  then show ?thesis by (simp add: HeartbeatTick heartbeat_trigger_def del: supervisor_step.simps)
next
  case (ProjectDeleted ms)
  have "along (supervisor_step jp) sequential (map MissionDeleted ms) s" for s
    by (induction ms arbitrary: s) simp_all
  then show ?thesis by (simp add: ProjectDeleted del: supervisor_step.simps)
next
  case (ReplyIn i msg reply)
  then show ?thesis by (simp add: Let_def del: supervisor_step.simps)
next
  case Boot
  obtain hs where "snd (snd (registerHeartbeats s)) = s\<lparr>sb_handles := hs\<rparr>" using registerHeartbeats_rest by blast
  then show ?thesis by (simp add: Boot)
next
  case (TaskEnds now st ev depth)
  have "advances jp s (subscriber_step jp e s)" by (simp add: TaskEnds listener_advances [OF assms])
  then show ?thesis using advances_events [of jp s "subscriber_step jp e s"] by (simp add: TaskEnds)
next
  case (StallTick now st rows)
  have "advances jp s (subscriber_step jp e s)" by (simp add: StallTick stall_advances [OF assms])
  then show ?thesis using advances_events [of jp s "subscriber_step jp e s"] by (simp add: StallTick)
next
  case (SettlesNow m)
  have "advances jp s (subscriber_step jp e s)" by (simp add: SettlesNow settle_advances [OF assms])
  then show ?thesis using advances_events [of jp s "subscriber_step jp e s"] by (simp add: SettlesNow)
qed simp_all

interpretation queue_supervisor: simulation "subscriber_step jp" "\<lambda>_ _. True" queue_inv
  "supervisor_step jp" sequential sb_sup "sup_events jp" for jp
  by unfold_locales (simp_all only: sup_simulates)

text \<open>C27: The queue, the heartbeats, the stall detector and the operator together are a refinement of the bare
  supervisor: every run of them is a run of the supervisor, with the same tables and the same evaluations in
  flight, in which every trigger is a heartbeat or the end of a task, and a call of the model for a mission
  starts only when none is in flight for it.\<close>

theorem subscriber_refines_supervisor:
  "\<exists>es'. sb_sup (subscriber_run jp es (subscriber_start db)) = supervisor_run jp es' \<lparr>sv_db = db, sv_inflight = []\<rparr>
     \<and> along (supervisor_step jp) sequential es' \<lparr>sv_db = db, sv_inflight = []\<rparr>"
  using queue_supervisor.run_refines [OF along_True queue_start, of jp es db]
  by (auto simp: subscriber_run_def supervisor_run_def subscriber_start_def)

subsection \<open>The budget\<close>

text \<open>No reply costs more than \<open>c\<close>, no operator sets a budget of \<open>m\<close> above \<open>b\<close>, and the project of \<open>m\<close> stays.\<close>

fun cheap :: "string \<Rightarrow> int \<times> int \<Rightarrow> int \<times> int \<Rightarrow> subscriber_event \<Rightarrow> bool" where
  "cheap m b c (ReplyIn i msg reply) = cheap_reply c reply"
| "cheap m b c (OperatorPatch m' ob st bt bc) = (m' = m \<longrightarrow> capped_budget b bt bc)"
| "cheap m b c (ProjectDeleted ms) = (m \<notin> set ms)"
| "cheap m b c _ = True"

fun sup_cheap :: "string \<Rightarrow> int \<times> int \<Rightarrow> int \<times> int \<Rightarrow> supervisor_event \<Rightarrow> bool" where
  "sup_cheap m b c (ReplyArrives i msg reply) = cheap_reply c reply"
| "sup_cheap m b c (OperatorPatches m' ob st bt bc) = (m' = m \<longrightarrow> capped_budget b bt bc)"
| "sup_cheap m b c (MissionDeleted m') = (m' \<noteq> m)"
| "sup_cheap m b c (TriggerArrives m' t) = True"

lemma starts_cheap: "list_all (sup_cheap m b c) (starts l)"
  by (induction l rule: starts.induct) simp_all

lemma sup_events_cheap: "cheap m b c e \<Longrightarrow> list_all (sup_cheap m b c) (sup_events jp e s)"
  by (cases e) (simp_all add: starts_cheap list.pred_map o_def del: subscriber_step.simps, auto simp: list_all_iff)

lemma sequential_cheap_bounded:
  "along (supervisor_step jp) sequential es s \<Longrightarrow> list_all (sup_cheap m b c) es \<Longrightarrow>
     along (supervisor_step jp) (bounded_arrival m 1 b c) es s"
proof (induction es arbitrary: s)
  case (Cons e es)
  then show ?case by (cases e) (auto simp del: supervisor_step.simps)
qed simp

lemma sup_events_bounded:
  "cheap m b c e \<Longrightarrow> queue_inv s \<Longrightarrow> along (supervisor_step jp) (bounded_arrival m 1 b c) (sup_events jp e s) (sb_sup s)"
  by (rule sequential_cheap_bounded) (simp_all only: sup_simulates sup_events_cheap)

interpretation budgeted: simulation "subscriber_step jp" "\<lambda>e _. cheap m b c e" queue_inv
  "supervisor_step jp" "bounded_arrival m 1 b c" sb_sup "sup_events jp" for jp m b c
  by unfold_locales (simp_all only: queue_step sup_simulates sup_events_bounded)

text \<open>C26: The two budgets of a mission, in tokens and in cents, are checked before an evaluation and charged
  after it; because of the queue at most one evaluation that costs something is in flight.  So a mission that
  starts below its budgets overruns them by less than the cost of one evaluation: if no budget of it is ever
  above \<open>b\<close> and no reply costs more than \<open>c\<close>, it never spends more than \<open>b - 1 + c\<close>, in tokens and in cents,
  whatever ends, stalls, ticks and answers in whatever order, and while the operator changes its objective, its
  status and its budgets (a budget that is lowered below what is spent stops the next evaluation, so the bound
  is the highest budget that it has had), for as long as its project is not deleted.\<close>

theorem overspend_at_most_one_call:
  assumes "along (subscriber_step jp) (\<lambda>e _. cheap m b c e) es (subscriber_start db)"
    and "mission_of m db = Some r" "0 \<le> fst c" "0 \<le> snd c"
    and "mn_budgetTokens r \<le> fst b" "mn_budgetCents r \<le> snd b" "mn_spentTokens r < fst b" "mn_spentCents r < snd b"
  shows "\<exists>r'. mission_of m (sv_db (sb_sup (subscriber_run jp es (subscriber_start db)))) = Some r'
     \<and> mn_budgetTokens r' \<le> fst b \<and> mn_spentTokens r' \<le> fst b - 1 + fst c
     \<and> mn_budgetCents r' \<le> snd b \<and> mn_spentCents r' \<le> snd b - 1 + snd c"
proof -
  let ?s = "\<lparr>sv_db = db, sv_inflight = []\<rparr>"
  obtain es' where run: "sb_sup (subscriber_run jp es (subscriber_start db)) = supervisor_run jp es' ?s"
    and b: "along (supervisor_step jp) (bounded_arrival m 1 b c) es' ?s"
    using budgeted.run_refines [OF assms(1) queue_start]
    by (auto simp: subscriber_run_def supervisor_run_def subscriber_start_def)
  have "mission_of m (sv_db ?s) = Some r" "inflight_of m ?s = 0" "costs_nonneg c"
    using assms(2-4) by (simp_all add: inflight_of_def costs_nonneg_def)
  then show ?thesis using overspend_bounded [OF b _ _ _ assms(5-8)] by (simp add: run)
qed

text \<open>The plan task of task 5 belongs to a milestone of the mission.  Two such tasks end one after the other,
  the budget is raised from 100 tokens to 105 in between, and each evaluation costs 20: the mission had spent
  90, and ends at 110.\<close>

definition mission_store :: pstore where
  "mission_store = \<lparr>st_plans = [(''/p'', [(''00-core'', FDir
        [(''milestone.md'', FFile (Some [(''title'', JStr ''Core''), (''mission_id'', JStr ''abcdef01'')]) []),
         (''00-api'', FDir
            [(''slice.md'', FFile (Some [(''title'', JStr ''API''), (''goal'', JStr ''g'')]) []),
             (''00-route.md'', FFile (Some [(''title'', JStr ''Route''), (''execution_task_id'', JNum 5)]) ''Do it'')])])])],
     st_projects = [(1, Some ''/p'')], st_index = []\<rparr>"

lemma mission_store_resolves: "resolveMissionForTask 0 5 mission_store [] = (Some ''abcdef01'', [(5, (Some ''abcdef01'', 0))])"
    "resolveMissionForTask 0 5 mission_store [(5, (Some ''abcdef01'', 0))] = (Some ''abcdef01'', [(5, (Some ''abcdef01'', 0))])"
  by code_simp+

definition sample_missions :: mission_db where
  "sample_missions = \<lparr>md_missions = [(''abcdef01'', sample_mission)], md_events = []\<rparr>"

definition five_done :: subscriber_event where
  "five_done = TaskEnds 0 mission_store \<lparr>te_task = 5, te_status = ''done'', te_error = None\<rparr> None"

definition sample_wakes :: "subscriber_event list" where
  "sample_wakes = [five_done, ReplyIn 0 ''no kind'' sample_reply,
     OperatorPatch ''abcdef01'' None (Some ''active'') (Some 105) None, SettlesNow ''abcdef01'',
     five_done, SettlesNow ''abcdef01'']"

lemma sample_wakes_spend:
  "map_option mn_spentTokens (mission_of ''abcdef01''
     (sv_db (sb_sup (subscriber_run sample_json sample_wakes (subscriber_start sample_missions))))) = Some 110"
  by (simp add: sample_wakes_def five_done_def subscriber_run_def subscriber_start_def sample_missions_def listener_def
      mission_store_resolves readActiveMission_def enqueue_trigger_def runOne_def call_evaluate_def buildTrigger_def
      sample_defs supervisor_compute patch_mission_def or_old_def settle_queue_def)

lemma overspend_at_most_one_call_witness:
  "\<exists>r'. mission_of ''abcdef01'' (sv_db (sb_sup (subscriber_run sample_json sample_wakes (subscriber_start sample_missions)))) = Some r'
     \<and> mn_spentTokens r' = 110 \<and> mn_budgetTokens r' \<le> 105 \<and> mn_spentTokens r' \<le> 105 - 1 + 20
     \<and> mn_budgetCents r' \<le> 50 \<and> mn_spentCents r' \<le> 50 - 1 + 1"
proof -
  have a: "along (subscriber_step sample_json) (\<lambda>e _. cheap ''abcdef01'' (105, 50) (20, 1) e) sample_wakes (subscriber_start sample_missions)"
    unfolding sample_wakes_def by (simp add: five_done_def cheap_reply_def capped_budget_def sample_reply_def validateDelta_def
        MAX_DELTA_def del: subscriber_step.simps)
  have "mission_of ''abcdef01'' sample_missions = Some sample_mission"
    by (simp add: mission_of_def sample_missions_def)
  from overspend_at_most_one_call [OF a this] sample_wakes_spend show ?thesis
    by (auto simp: sample_mission_def)
qed

subsection \<open>The depth\<close>

definition shallow :: "nat \<Rightarrow> supervisor \<Rightarrow> bool" where
  "shallow n s \<longleftrightarrow> list_all (\<lambda>c. gc_depth c = 0) (sv_inflight s)
     \<and> length (filter (\<lambda>e. me_kind e = ''depth_exceeded'') (md_events (sv_db s))) \<le> n"

lemma finish_no_depth_event:
  assumes "finish_evaluate jp msg c reply db = Inr (x, db')"
  shows "filter (\<lambda>e. me_kind e = ''depth_exceeded'') (md_events db') = filter (\<lambda>e. me_kind e = ''depth_exceeded'') (md_events db)"
  using assms
proof (rule finish_tables)
  fix ev cost r
  assume ev: "evaluator jp msg (gc_trigger c) reply = Inr ev"
    and e: "md_events db' = md_events db @ (if mn_status r \<noteq> ''paused'' \<and> halts r cost
        then [switch_event c r cost, decision c ev cost] else [decision c ev cost])"
  have "event_kind ev \<noteq> ''depth_exceeded''"
    using ev by (auto simp: evaluator_def event_kind_def split: if_splits sum.splits option.splits supervisor_output.splits)
  then show ?thesis by (simp add: e decision_def switch_event_def)
qed

lemma shallow_step:
  assumes "sequential e s" "shallow n s"
  shows "shallow n (supervisor_step jp e s)"
proof (cases e)
  case (TriggerArrives m t)
  then have d: "trigger_depth t = 0" using assms(1) by (auto simp: trigger_depth_def)
  show ?thesis
  proof (cases "guarded_begin m t (sv_db s)")
    case (Inl err)
    then show ?thesis using assms(2) TriggerArrives by simp
  next
    case (Inr res)
    then obtain x db' where x: "guarded_begin m t (sv_db s) = Inr (x, db')" by (cases res) auto
    have "depth_check t = (0, None)" by (simp add: depth_check_def d MAX_ALLOWED_DEPTH_def Let_def)
    then have "db' = sv_db s" "\<And>c. x = Inr c \<Longrightarrow> gc_depth c = 0"
      using x by (auto simp: guarded_begin_def split: sum.splits if_splits)
    then show ?thesis using assms(2) TriggerArrives x by (cases x) (auto simp: shallow_def)
  qed
next
  case (ReplyArrives i msg reply)
  show ?thesis
  proof (cases "i < length (sv_inflight s)")
    case True
    have rest: "list_all (\<lambda>c. gc_depth c = 0) (take i (sv_inflight s) @ drop (i + 1) (sv_inflight s))"
      using assms(2) by (auto simp: shallow_def list_all_iff dest: in_set_takeD in_set_dropD)
    show ?thesis
    proof (cases "finish_evaluate jp msg (sv_inflight s ! i) reply (sv_db s)")
      case (Inl err)
      then show ?thesis using True assms(2) rest by (simp add: ReplyArrives Let_def shallow_def)
    next
      case (Inr res)
      then obtain x db' where x: "finish_evaluate jp msg (sv_inflight s ! i) reply (sv_db s) = Inr (x, db')"
        by (cases res) auto
      show ?thesis using finish_no_depth_event [OF x] True assms(2) rest x by (simp add: ReplyArrives Let_def shallow_def)
    qed
  qed (use assms ReplyArrives in simp)
next
  case (OperatorPatches m ob st bt bc)
  then show ?thesis using assms(2) by (simp add: shallow_def)
next
  case (MissionDeleted m)
  have "length (filter P (filter Q xs)) \<le> length (filter P xs)" for P Q and xs :: "mission_event list"
    by (induction xs) auto
  then have "length (filter P (filter Q xs)) \<le> n" if "length (filter P xs) \<le> n" for P Q and xs :: "mission_event list"
    using that order_trans by blast
  then show ?thesis using assms(2) MissionDeleted by (simp add: shallow_def events_deleted del: filter_filter)
qed

interpretation depth: guarded_run "supervisor_step jp" sequential "shallow n" for jp n
  by unfold_locales (rule shallow_step)

text \<open>The depth limit is never reached: no trigger that the daemon makes is a remediation, so every evaluation
  runs at depth 0, whatever depth the event carries, and no \<open>depth_exceeded\<close> event is ever written.\<close>

theorem depth_never_limits:
  "list_all (\<lambda>c. gc_depth c = 0) (sv_inflight (sb_sup (subscriber_run jp es (subscriber_start db))))
   \<and> length (filter (\<lambda>e. me_kind e = ''depth_exceeded'') (md_events (sv_db (sb_sup (subscriber_run jp es (subscriber_start db))))))
     \<le> length (filter (\<lambda>e. me_kind e = ''depth_exceeded'') (md_events db))"
proof -
  let ?s = "\<lparr>sv_db = db, sv_inflight = []\<rparr>" and ?n = "length (filter (\<lambda>e. me_kind e = ''depth_exceeded'') (md_events db))"
  obtain es' where run: "sb_sup (subscriber_run jp es (subscriber_start db)) = fold (supervisor_step jp) es' ?s"
    and b: "along (supervisor_step jp) sequential es' ?s"
    using queue_supervisor.run_refines [OF along_True queue_start, of jp es db]
    by (auto simp: subscriber_run_def subscriber_start_def)
  have "shallow ?n (fold (supervisor_step jp) es' ?s)" by (rule depth.run_inv [OF b]) (simp add: shallow_def)
  then show ?thesis by (simp add: run shallow_def)
qed

subsection \<open>The resolver\<close>

interpretation mission_cache: bounded_cache "put_capped MAX_CACHE_ENTRIES" map_of length jm_ok MAX_CACHE_ENTRIES
  by (rule capped_laws) (simp add: MAX_CACHE_ENTRIES_def)

interpretation fired_ids: bounded_cache "put_capped MAX_FIRED_TASK_IDS" map_of length jm_ok MAX_FIRED_TASK_IDS
  by (rule capped_laws) (simp add: MAX_FIRED_TASK_IDS_def)

text \<open>The cache after a history of lookups (\<open>None\<close>: the cache is cleared).\<close>

definition cache_after :: "(int \<times> int \<times> pstore) option list \<Rightarrow> mission_cache" where
  "cache_after h = fold (\<lambda>q c. case q of None \<Rightarrow> [] | Some (now, i, st) \<Rightarrow> snd (resolveMissionForTask now i st c)) h []"

definition cache_ok :: "(int \<times> int \<times> pstore) set \<Rightarrow> mission_cache \<Rightarrow> bool" where
  "cache_ok h c \<longleftrightarrow> jm_ok c \<and> length c \<le> MAX_CACHE_ENTRIES
     \<and> (\<forall>i v t. map_of c i = Some (v, t) \<longrightarrow> (\<exists>st. (t, i, st) \<in> h \<and> walk_mission st i = v))"

lemma cache_ok_mono: "cache_ok h c \<Longrightarrow> h \<subseteq> h' \<Longrightarrow> cache_ok h' c"
  by (fastforce simp: cache_ok_def)

lemma cache_ok_delete: "cache_ok h c \<Longrightarrow> cache_ok h (AList.delete i c)"
  by (auto simp: cache_ok_def delete_conv' distinct_delete fun_upd_apply intro: order_trans [OF length_delete_le]
      split: if_splits)

lemma cache_ok_write:
  assumes "cache_ok h c"
  shows "cache_ok (insert (now, i, st) h) (writeCachedMissionForTask now i (walk_mission st i) c)"
proof -
  let ?c = "put_capped MAX_CACHE_ENTRIES i (walk_mission st i, now) c"
  have "\<exists>st'. (t, j, st') \<in> insert (now, i, st) h \<and> walk_mission st' j = v" if "map_of ?c j = Some (v, t)" for j v t
    using assms that mission_cache.get_put [of c i "(walk_mission st i, now)"]
      mission_cache.get_put_other [of c j i "(walk_mission st i, now)"]
    by (cases "j = i") (auto simp: cache_ok_def)
  then show ?thesis using assms
    by (simp add: cache_ok_def writeCachedMissionForTask_def mission_cache.wf_put mission_cache.count_put)
qed

lemma resolve_fresh:
  assumes "cache_ok h c" "resolveMissionForTask now i st c = (v, c')"
  shows "cache_ok (insert (now, i, st) h) c'"
    and "\<exists>t st'. (t, i, st') \<in> insert (now, i, st) h \<and> walk_mission st' i = v \<and> now - t \<le> ttl_of v"
proof -
  have ttl: "0 \<le> ttl_of v" for v by (simp add: ttl_of_def POSITIVE_TTL_MS_def NEGATIVE_TTL_MS_def)
  obtain r c1 where r: "readCachedMissionForTask now i c = (r, c1)" by (cases "readCachedMissionForTask now i c")
  then have c1: "cache_ok h c1" using assms(1)
    by (auto simp: readCachedMissionForTask_def cache_ok_delete split: option.splits if_splits)
  have "cache_ok (insert (now, i, st) h) c'
    \<and> (\<exists>t st'. (t, i, st') \<in> insert (now, i, st) h \<and> walk_mission st' i = v \<and> now - t \<le> ttl_of v)"
  proof (cases r)
    case None
    then have "v = walk_mission st i" "c' = writeCachedMissionForTask now i v c1"
      using assms(2) r by (auto simp: resolveMissionForTask_def Let_def)
    then show ?thesis using cache_ok_write [OF c1] ttl [of v]
      by (intro conjI exI [of _ now] exI [of _ st]) simp_all
  next
    case (Some w)
    then have e: "v = w" "c' = c1" using assms(2) r by (simp_all add: resolveMissionForTask_def)
    obtain t where t: "map_of c i = Some (w, t)" "now - t \<le> ttl_of w"
      using r Some by (auto simp: readCachedMissionForTask_def split: option.splits if_splits)
    then obtain st' where "(t, i, st') \<in> h" "walk_mission st' i = w"
      using assms(1) unfolding cache_ok_def by blast
    moreover have "cache_ok (insert (now, i, st) h) c1" by (rule cache_ok_mono [OF c1]) blast
    ultimately show ?thesis using t(2) unfolding e by blast
  qed
  then show "cache_ok (insert (now, i, st) h) c'"
    and "\<exists>t st'. (t, i, st') \<in> insert (now, i, st) h \<and> walk_mission st' i = v \<and> now - t \<le> ttl_of v" by blast+
qed

lemma cache_after_ok: "cache_ok {q. Some q \<in> set h} (cache_after h)"
proof (induction h rule: rev_induct)
  case Nil
  show ?case by (simp add: cache_after_def cache_ok_def)
next
  case (snoc q h)
  show ?case
  proof (cases q)
    case None
    then show ?thesis by (simp add: cache_after_def cache_ok_def)
  next
    case (Some p)
    obtain now i st where p: "p = (now, i, st)" by (cases p) auto
    obtain v c' where r: "resolveMissionForTask now i st (cache_after h) = (v, c')"
      by (cases "resolveMissionForTask now i st (cache_after h)")
    have "cache_after (h @ [q]) = c'" using r by (simp add: cache_after_def Some p)
    moreover have "{q'. Some q' \<in> set (h @ [q])} = insert (now, i, st) {q. Some q \<in> set h}" by (auto simp: Some p)
    ultimately show ?thesis using resolve_fresh(1) [OF snoc r] by simp
  qed
qed

text \<open>What the resolver answers is what the plan files said at that lookup or at an earlier lookup of the same
  task, at most ten minutes ago when it names a mission and one minute when it names none; it never keeps more
  than 4096 answers.\<close>

theorem mission_answers_are_fresh:
  "let r = resolveMissionForTask now i st (cache_after h) in
     length (snd r) \<le> 4096
     \<and> (\<exists>t st'. (t, i, st') \<in> insert (now, i, st) {q. Some q \<in> set h} \<and> walk_mission st' i = fst r
           \<and> now - t \<le> (if fst r = None then 60000 else 600000))"
proof -
  obtain v c' where r: "resolveMissionForTask now i st (cache_after h) = (v, c')"
    by (cases "resolveMissionForTask now i st (cache_after h)")
  have l: "length c' \<le> 4096"
    using resolve_fresh(1) [OF cache_after_ok r] by (simp add: cache_ok_def MAX_CACHE_ENTRIES_def)
  have t: "ttl_of v = (if v = None then 60000 else 600000)"
    by (simp add: ttl_of_def POSITIVE_TTL_MS_def NEGATIVE_TTL_MS_def)
  show ?thesis using l resolve_fresh(2) [OF cache_after_ok r] unfolding t r Let_def fst_conv snd_conv by blast
qed

text \<open>The id of a mission is a UUID, but a milestone may only name hex digits: no task is ever found to belong to a
  mission that \<open>POST /missions\<close> has made, so its queue gets nothing, and a milestone that does name it cannot
  be listed.\<close>

lemma milestone_mission_hex:
  assumes "listMilestones es = Inr ms" "x \<in> set ms" "milestone_mission x = Some m"
  shows "list_all mission_char m"
proof -
  obtain slug fm b where f: "milestoneFromFile slug fm b = Inr x"
    using listMilestones_mem [OF assms(1,2)] by metis
  obtain v where v: "parseMissionId (fm_get fm ''mission_id'') = Inr v" and x: "ms_missionId x = v"
    using f by (auto simp: milestoneFromFile_def bind_err_Inr_iff simp del: fm_get.simps)
  have "v = Some (JStr m)" using assms(3) x by (auto simp: milestone_mission_def split: option.splits jval.splits if_splits)
  then show ?thesis using v by (auto simp: parseMissionId_def split: option.splits jval.splits if_splits)
qed

lemma dash_is_no_hex: "\<not> mission_char (CHR ''-'')"
  by code_simp

theorem uuid_missions_hear_no_task:
  assumes "CHR ''-'' \<in> set m"
  shows "walk_mission st taskId \<noteq> Some m"
proof
  assume "walk_mission st taskId = Some m"
  then obtain t where "(m, t) \<in> set (mission_rows st)"
    by (auto simp: walk_mission_def find_Some_iff) (metis nth_mem)
  then obtain path x where x: "x \<in> set (or_empty (listMilestones (plan_of st path)))" "milestone_mission x = Some m"
    by (auto simp: mission_rows_def split: option.splits)
  then obtain ms where "listMilestones (plan_of st path) = Inr ms" "x \<in> set ms"
    by (cases "listMilestones (plan_of st path)") (simp_all add: or_empty_def)
  from milestone_mission_hex [OF this x(2)] have "mission_char (CHR ''-'')" using assms by (simp add: list_all_iff)
  then show False using dash_is_no_hex by simp
qed

subsection \<open>Heartbeats\<close>

lemma handles_step: "e \<noteq> Boot \<Longrightarrow> set (sb_handles (subscriber_step jp e s)) \<subseteq> set (sb_handles s)"
proof (cases e)
  case (StallTick now st rows)
  have l: "sb_handles (listener now st ev depth s) = sb_handles s" for ev depth s
    by (simp add: listener_def enqueue_trigger_def Let_def runOne_facts split: option.split prod.split)
  have "sb_handles (stall_row now st i s) = sb_handles s" for i s
    by (simp add: stall_row_def l recordFiredTaskId_def)
  then have "sb_handles (fold (stall_row now st) is s) = sb_handles s" for "is"
    by (induction "is" arbitrary: s) simp_all
  then show ?thesis by (simp add: StallTick stall_tick_def)
qed (auto simp: listener_def enqueue_trigger_def Let_def runOne_facts heartbeat_tick_def unregisterHeartbeat_def settle_queue_def
    simp del: supervisor_step.simps split: option.split prod.split)

text \<open>A mission that is not registered when the daemon has booted, because it was created or resumed
  later, gets no heartbeat until the next boot.\<close>

theorem heartbeats_only_from_boot:
  assumes "along (subscriber_step jp) (\<lambda>e _. e \<noteq> Boot) es s" "m \<notin> set (sb_handles s)"
  shows "subscriber_step jp (HeartbeatTick m) (subscriber_run jp es s) = subscriber_run jp es s"
proof -
  have "set (sb_handles (fold (subscriber_step jp) es s)) \<subseteq> set (sb_handles s)"
    using assms(1)
  proof (induction es arbitrary: s)
    case (Cons e es)
    then show ?case using handles_step [of e jp s] by (simp del: subscriber_step.simps) blast
  qed simp
  then show ?thesis using assms(2) by (auto simp: subscriber_run_def heartbeat_tick_def)
qed

end
