(* ===== verification/MissionRoutes.thy ===== *)
theory MissionRoutes
  imports MissionProps PlanStore "HOL-Library.Sublist"
begin

text \<open>
  The operator's side of a mission, \<open>src/src/routes/missions.ts\<close>: creating and changing missions, the list of
  proposals, their approval and dismissal, and the scan of \<open>services/missions/approve-reconciler.ts\<close>.  A handler
  that waits for its body is two functions, before and after the wait; other requests may come in between.
  A row keeps its payload as the object it encodes; ids and times are handed in.  The numbers of a body are
  whole, as they are in \<open>jval\<close>.
\<close>

subsection \<open>Tables\<close>

record mission_row = mission +
  mr_project :: int
  mr_autonomy :: string

record timeline_event = mission_event +
  tl_id :: string
  tl_createdAt :: int

record mission_api =
  ma_missions :: "(string \<times> mission_row) list"
  ma_events :: "timeline_event list"
  ma_store :: pstore
  ma_now :: int
  ma_iso :: string

datatype api_error = Unprocessable | Missing string | NotImplementedYet | PlanFailure plan_error

definition getMissionOrThrow :: "string \<Rightarrow> mission_api \<Rightarrow> api_error + mission_row" where
  "getMissionOrThrow m st = (case map_of (ma_missions st) m of None \<Rightarrow> Inl (Missing ''Mission'') | Some r \<Rightarrow> Inr r)"

definition getProjectOrThrow :: "int \<Rightarrow> mission_api \<Rightarrow> api_error + string option" where
  "getProjectOrThrow p st = (case map_of (st_projects (ma_store st)) p of None \<Rightarrow> Inl (Missing ''Project'') | Some r \<Rightarrow> Inr r)"

subsection \<open>Bodies\<close>

definition STATUS_VALUES :: "string list" where
  "STATUS_VALUES = [''drafting'', ''active'', ''paused'', ''completed'', ''failed'', ''aborted'']"

definition AUTONOMY_VALUES :: "string list" where
  "AUTONOMY_VALUES = [''manual'', ''suggest'', ''auto'']"

definition MAX_BUDGET :: int where "MAX_BUDGET = 2147483647"

definition enum_field :: "string list \<Rightarrow> jval option \<Rightarrow> string option" where
  "enum_field allowed v = (case v of Some (JStr s) \<Rightarrow> if s \<in> set allowed then Some s else None | _ \<Rightarrow> None)"

definition budgetSchema :: "jval option \<Rightarrow> int option" where
  "budgetSchema v = (case v of Some (JNum n) \<Rightarrow> if 0 < n \<and> n \<le> MAX_BUDGET then Some n else None | _ \<Rightarrow> None)"

definition positive_int :: "jval option \<Rightarrow> int option" where
  "positive_int v = (case v of Some (JNum n) \<Rightarrow> if 0 < n then Some n else None | _ \<Rightarrow> None)"

text \<open>\<open>.default(d)\<close>: only a missing field takes the default.\<close>

definition defaulted :: "'a \<Rightarrow> (jval option \<Rightarrow> 'a option) \<Rightarrow> jval option \<Rightarrow> 'a option" where
  "defaulted d f v = (if v = None then Some d else f v)"

definition createSchema :: "jval \<Rightarrow> mission_row option" where
  "createSchema body =
     (case body of
        JObj b \<Rightarrow>
          (case (positive_int (map_of b ''projectId''), str_between 1 8000 (map_of b ''objective''),
                 defaulted ''suggest'' (enum_field AUTONOMY_VALUES) (map_of b ''autonomy''),
                 defaulted ''active'' (enum_field STATUS_VALUES) (map_of b ''status''),
                 budgetSchema (map_of b ''budgetTokens''), budgetSchema (map_of b ''budgetUsdCents'')) of
             (Some p, Some obj, Some a, Some s, Some t, Some c) \<Rightarrow>
               if strict [''projectId'', ''objective'', ''autonomy'', ''status'', ''budgetTokens'', ''budgetUsdCents''] b
               then Some \<lparr>mn_status = s, mn_objective = obj, mn_budgetTokens = t, mn_budgetCents = c,
                          mn_spentTokens = 0, mn_spentCents = 0, mr_project = p, mr_autonomy = a\<rparr>
               else None
           | _ \<Rightarrow> None)
      | _ \<Rightarrow> None)"

record mission_patch =
  up_objective :: "string option"
  up_autonomy :: "string option"
  up_status :: "string option"
  up_tokens :: "int option"
  up_cents :: "int option"

text \<open>\<open>.optional()\<close>: \<open>Some None\<close> is an absent field, \<open>None\<close> one that is refused.\<close>

definition optional_field :: "(jval option \<Rightarrow> 'a option) \<Rightarrow> jval option \<Rightarrow> 'a option option" where
  "optional_field f v = (if v = None then Some None else map_option Some (f v))"

definition updateSchema :: "jval \<Rightarrow> mission_patch option" where
  "updateSchema body =
     (case body of
        JObj b \<Rightarrow>
          (case (optional_field (str_between 1 8000) (map_of b ''objective''),
                 optional_field (enum_field AUTONOMY_VALUES) (map_of b ''autonomy''),
                 optional_field (enum_field STATUS_VALUES) (map_of b ''status''),
                 optional_field budgetSchema (map_of b ''budgetTokens''),
                 optional_field budgetSchema (map_of b ''budgetUsdCents'')) of
             (Some obj, Some a, Some s, Some t, Some c) \<Rightarrow>
               if strict [''objective'', ''autonomy'', ''status'', ''budgetTokens'', ''budgetUsdCents''] b \<and> b \<noteq> []
               then Some \<lparr>up_objective = obj, up_autonomy = a, up_status = s, up_tokens = t, up_cents = c\<rparr>
               else None
           | _ \<Rightarrow> None)
      | _ \<Rightarrow> None)"

subsection \<open>Missions\<close>

definition AUTONOMY_NOT_IMPLEMENTED :: string where "AUTONOMY_NOT_IMPLEMENTED = ''auto''"

definition create_route :: "string \<Rightarrow> jval \<Rightarrow> mission_api \<Rightarrow> api_error + mission_row \<times> mission_api" where
  "create_route new_id body st =
     (case createSchema body of
        None \<Rightarrow> Inl Unprocessable
      | Some r \<Rightarrow>
          if mr_autonomy r = AUTONOMY_NOT_IMPLEMENTED then Inl NotImplementedYet
          else bind_err (getProjectOrThrow (mr_project r) st) (\<lambda>_.
                 Inr (r, st\<lparr>ma_missions := AList.update new_id r (ma_missions st)\<rparr>)))"

definition apply_patch :: "mission_patch \<Rightarrow> mission_row \<Rightarrow> mission_row" where
  "apply_patch p r = r\<lparr>
     mn_objective := (case up_objective p of None \<Rightarrow> mn_objective r | Some v \<Rightarrow> v),
     mn_status := (case up_status p of None \<Rightarrow> mn_status r | Some v \<Rightarrow> v),
     mn_budgetTokens := (case up_tokens p of None \<Rightarrow> mn_budgetTokens r | Some v \<Rightarrow> v),
     mn_budgetCents := (case up_cents p of None \<Rightarrow> mn_budgetCents r | Some v \<Rightarrow> v),
     mr_autonomy := (case up_autonomy p of None \<Rightarrow> mr_autonomy r | Some v \<Rightarrow> v)\<rparr>"

text \<open>The check precedes the wait for the body, and no route deletes a mission.\<close>

definition patch_route :: "string \<Rightarrow> jval \<Rightarrow> mission_api \<Rightarrow> api_error + mission_row \<times> mission_api" where
  "patch_route m body st =
     bind_err (getMissionOrThrow m st) (\<lambda>r.
       case updateSchema body of
         None \<Rightarrow> Inl Unprocessable
       | Some p \<Rightarrow>
           if up_autonomy p = Some AUTONOMY_NOT_IMPLEMENTED then Inl NotImplementedYet
           else let r' = apply_patch p r in Inr (r', st\<lparr>ma_missions := AList.update m r' (ma_missions st)\<rparr>))"

subsection \<open>Proposals\<close>

definition decides :: "string \<Rightarrow> string \<Rightarrow> string \<Rightarrow> timeline_event \<Rightarrow> bool" where
  "decides kind m pid e \<longleftrightarrow>
     me_mission e = m \<and> me_kind e = kind \<and> map_of (me_payload e) ''proposal_event_id'' = Some (JStr pid)"

datatype ProposalStatus = PendingProposals | DismissedProposals | AllProposals

definition parseProposalStatus :: "string option \<Rightarrow> api_error + ProposalStatus" where
  "parseProposalStatus raw =
     (case raw of
        None \<Rightarrow> Inr PendingProposals
      | Some s \<Rightarrow> if s = [] \<or> s = ''pending'' then Inr PendingProposals
                  else if s = ''dismissed'' then Inr DismissedProposals
                  else if s = ''all'' then Inr AllProposals else Inl Unprocessable)"

definition is_proposal :: "string \<Rightarrow> timeline_event \<Rightarrow> bool" where
  "is_proposal m e \<longleftrightarrow> me_mission e = m \<and> me_kind e = ''remediation_proposed''"

definition proposals_route :: "string \<Rightarrow> string option \<Rightarrow> mission_api \<Rightarrow> api_error + timeline_event list" where
  "proposals_route m raw st =
     bind_err (getMissionOrThrow m st) (\<lambda>_. bind_err (parseProposalStatus raw) (\<lambda>status.
       let proposals = sort_key (\<lambda>e. - tl_createdAt e) (filter (is_proposal m) (ma_events st));
           dismissed = (\<lambda>p. list_ex (decides ''remediation_dismissed'' m (tl_id p)) (ma_events st));
           approved = (\<lambda>p. list_ex (decides ''remediation_approved'' m (tl_id p)) (ma_events st))
       in Inr (filter (\<lambda>p. case status of
                             AllProposals \<Rightarrow> True
                           | DismissedProposals \<Rightarrow> dismissed p
                           | PendingProposals \<Rightarrow> \<not> dismissed p \<and> \<not> approved p) proposals)))"

definition getProposalEventOrThrow :: "string \<Rightarrow> string \<Rightarrow> mission_api \<Rightarrow> api_error + timeline_event" where
  "getProposalEventOrThrow m pid st =
     (case find (\<lambda>e. is_proposal m e \<and> tl_id e = pid) (ma_events st) of
        None \<Rightarrow> Inl (Missing ''Proposal'') | Some e \<Rightarrow> Inr e)"

definition findExistingDecisionId :: "string \<Rightarrow> string \<Rightarrow> string \<Rightarrow> mission_api \<Rightarrow> string option" where
  "findExistingDecisionId m pid kind st =
     (case sort_key tl_createdAt (filter (decides kind m pid) (ma_events st)) of [] \<Rightarrow> None | e # _ \<Rightarrow> Some (tl_id e))"

definition reparseStoredProposal :: "jobj \<Rightarrow> supervisor_output option" where
  "reparseStoredProposal stored =
     (case map_of stored ''proposal'' of
        Some (JObj inner) \<Rightarrow>
          proposalSchema ((''kind'', JStr ''proposal'')
            # List.map_filter (\<lambda>(k, v). map_option (Pair k) v)
                [(''rationale'', map_of stored ''rationale''), (''target_type'', map_of inner ''target_type''),
                 (''candidate'', map_of inner ''candidate'')])
      | _ \<Rightarrow> None)"

definition getProjectPathForMission :: "mission_row \<Rightarrow> mission_api \<Rightarrow> api_error + string" where
  "getProjectPathForMission r st =
     bind_err (getProjectOrThrow (mr_project r) st) (\<lambda>p.
       case p of None \<Rightarrow> Inl Unprocessable | Some path \<Rightarrow> if path = [] then Inl Unprocessable else Inr path)"

record CreatedEntity =
  ce_kind :: string
  ce_target :: string
  ce_slice :: "string option"
  ce_milestone :: "string option"

definition plan_result :: "plan_error + 'a \<Rightarrow> api_error + 'a" where
  "plan_result r = (case r of Inl e \<Rightarrow> Inl (PlanFailure e) | Inr v \<Rightarrow> Inr v)"

definition candidate_str :: "jobj \<Rightarrow> string \<Rightarrow> string option" where
  "candidate_str c k = (case map_of c k of Some (JStr s) \<Rightarrow> Some s | _ \<Rightarrow> None)"

definition parent_slug :: "jobj \<Rightarrow> api_error + string" where
  "parent_slug c =
     (case candidate_str c ''target_id'' of None \<Rightarrow> Inl Unprocessable
      | Some s \<Rightarrow> if s = [] then Inl Unprocessable else Inr s)"

definition createEntityFromProposal ::
  "string \<Rightarrow> string \<Rightarrow> string \<Rightarrow> jobj \<Rightarrow> pstore \<Rightarrow> api_error + CreatedEntity \<times> pstore" where
  "createEntityFromProposal stamp path target_type c st =
     (let title = Some (JStr (take 200 (case candidate_str c ''action'' of None \<Rightarrow> [] | Some a \<Rightarrow> a)));
          description = candidate_str c ''summary'';
          es = plan_of st path
      in if target_type = ''milestone''
         then bind_err (plan_result (createMilestone stamp
                (no_milestone_patch\<lparr>mp_title := title, mp_description := description\<rparr>) es)) (\<lambda>(m, es').
              Inr (\<lparr>ce_kind = ''milestone'', ce_target = ms_slug m, ce_slice = None, ce_milestone = None\<rparr>, set_plan path es' st))
         else bind_err (parent_slug c) (\<lambda>parent.
           if target_type = ''slice''
           then bind_err (plan_result (createSlice stamp parent
                  (no_slice_patch\<lparr>sp_title := title, sp_description := description\<rparr>) es)) (\<lambda>(s, es').
                Inr (\<lparr>ce_kind = ''slice'', ce_target = sl_slug s, ce_slice = None, ce_milestone = Some parent\<rparr>,
                     set_plan path es' st))
           else bind_err (plan_result (findMilestoneBySlice es parent)) (\<lambda>found.
                case found of
                  None \<Rightarrow> Inl Unprocessable
                | Some ms \<Rightarrow>
                    bind_err (plan_result (createPlanTask stamp path (ms_slug ms) parent
                      (no_task_patch\<lparr>tp_title := title, tp_description := description\<rparr>) st)) (\<lambda>(t, st').
                    Inr (\<lparr>ce_kind = ''task'', ce_target = pt_slug t, ce_slice = Some parent, ce_milestone = Some (ms_slug ms)\<rparr>,
                         st')))))"

definition writeDecisionEvent ::
  "string \<Rightarrow> string \<Rightarrow> string \<Rightarrow> jobj \<Rightarrow> int \<Rightarrow> mission_api \<Rightarrow> mission_api" where
  "writeDecisionEvent d m kind payload depth st =
     st\<lparr>ma_events := ma_events st @ [\<lparr>me_mission = m, me_kind = kind, me_payload = payload, me_tokens = 0, me_cents = 0,
       me_depth = depth, tl_id = d, tl_createdAt = ma_now st\<rparr>]\<rparr>"

definition set_payload :: "string \<Rightarrow> jobj \<Rightarrow> mission_api \<Rightarrow> mission_api" where
  "set_payload d payload st =
     st\<lparr>ma_events := map (\<lambda>e. if tl_id e = d then e\<lparr>me_payload := payload\<rparr> else e) (ma_events st)\<rparr>"

subsection \<open>Approval and dismissal\<close>

record ticket =
  tk_mission :: string
  tk_row :: mission_row
  tk_proposal :: timeline_event

datatype decision_reply = Repeated string string | Approved string string string CreatedEntity
  | Dismissed string string "string option"

text \<open>Up to the wait for the body: an earlier decision is reported again.\<close>

definition decision_begin ::
  "string \<Rightarrow> string \<Rightarrow> string \<Rightarrow> mission_api \<Rightarrow> api_error + (decision_reply + ticket)" where
  "decision_begin kind m pid st =
     bind_err (getMissionOrThrow m st) (\<lambda>r. bind_err (getProposalEventOrThrow m pid st) (\<lambda>e.
       case findExistingDecisionId m pid kind st of
         Some d \<Rightarrow> Inr (Inl (Repeated d pid))
       | None \<Rightarrow> Inr (Inr \<lparr>tk_mission = m, tk_row = r, tk_proposal = e\<rparr>)))"

definition approved_payload :: "string \<Rightarrow> string \<Rightarrow> CreatedEntity \<Rightarrow> jobj" where
  "approved_payload pid target_type c =
     [(''proposal_event_id'', JStr pid), (''target_type'', JStr target_type), (''entity_kind'', JStr (ce_kind c)),
      (''target_id'', JStr (ce_target c))]
     @ (case ce_milestone c of None \<Rightarrow> [] | Some s \<Rightarrow> [(''parent_milestone_slug'', JStr s)])
     @ (case ce_slice c of None \<Rightarrow> [] | Some s \<Rightarrow> [(''parent_slice_slug'', JStr s)])"

definition pending_payload :: "string \<Rightarrow> string \<Rightarrow> jobj" where
  "pending_payload pid target_type =
     [(''proposal_event_id'', JStr pid), (''target_type'', JStr target_type), (''pending'', JBool True)]"

definition approve_finish ::
  "ticket \<Rightarrow> string \<Rightarrow> mission_api \<Rightarrow> (api_error + decision_reply) \<times> mission_api" where
  "approve_finish t d st =
     (let pid = tl_id (tk_proposal t) in
      case reparseStoredProposal (me_payload (tk_proposal t)) of
        Some (Proposal r target_type c) \<Rightarrow>
          (case getProjectPathForMission (tk_row t) st of
             Inl e \<Rightarrow> (Inl e, st)
           | Inr path \<Rightarrow>
               let st1 = writeDecisionEvent d (tk_mission t) ''remediation_approved'' (pending_payload pid target_type)
                           (me_depth (tk_proposal t)) st
               in case createEntityFromProposal (ma_iso st1) path target_type c (ma_store st1) of
                    Inl e \<Rightarrow> (Inl e, st1)
                  | Inr (created, store) \<Rightarrow>
                      (Inr (Approved d pid target_type created),
                       set_payload d (approved_payload pid target_type created) (st1\<lparr>ma_store := store\<rparr>)))
      | _ \<Rightarrow> (Inl Unprocessable, st))"

definition dismissBodySchema :: "jval \<Rightarrow> string option option" where
  "dismissBodySchema body =
     (case body of
        JNull \<Rightarrow> Some None
      | JObj b \<Rightarrow> if strict [''reason''] b then optional_field (str_between 0 2000) (map_of b ''reason'') else None
      | _ \<Rightarrow> None)"

definition dismiss_finish ::
  "ticket \<Rightarrow> string \<Rightarrow> jval \<Rightarrow> mission_api \<Rightarrow> (api_error + decision_reply) \<times> mission_api" where
  "dismiss_finish t d body st =
     (case dismissBodySchema body of
        None \<Rightarrow> (Inl Unprocessable, st)
      | Some reason \<Rightarrow>
          let pid = tl_id (tk_proposal t) in
          (Inr (Dismissed d pid reason),
           writeDecisionEvent d (tk_mission t) ''remediation_dismissed''
             ((''proposal_event_id'', JStr pid) # (case reason of None \<Rightarrow> [] | Some s \<Rightarrow> [(''reason'', JStr s)]))
             (me_depth (tk_proposal t)) st))"

text \<open>The scan of the reconciler at boot.\<close>

definition scanPendingApproveEvents :: "mission_api \<Rightarrow> timeline_event list" where
  "scanPendingApproveEvents st =
     filter (\<lambda>e. me_kind e = ''remediation_approved'' \<and> map_of (me_payload e) ''pending'' = Some (JBool True)) (ma_events st)"

end
