(* ===== verification/MissionRoutesProps.thy ===== *)
theory MissionRoutesProps
  imports MissionRoutes
begin

text \<open>
  What the routes promise: rows that stay valid, approvals that create nothing unless the stored proposal is
  valid and names no destructive verb, and decisions that are recorded once as long as two requests for one
  proposal do not overlap.
\<close>

subsection \<open>Rows\<close>

definition row_valid :: "mission_row \<Rightarrow> bool" where
  "row_valid r \<longleftrightarrow> mn_status r \<in> set STATUS_VALUES \<and> mr_autonomy r \<in> {''manual'', ''suggest''}
     \<and> 1 \<le> length (mn_objective r) \<and> length (mn_objective r) \<le> 8000
     \<and> 0 < mn_budgetTokens r \<and> mn_budgetTokens r \<le> 2147483647 \<and> 0 < mn_budgetCents r \<and> mn_budgetCents r \<le> 2147483647"

lemma enum_field_Some: "enum_field vs v = Some s \<Longrightarrow> s \<in> set vs"
  by (auto simp: enum_field_def split: option.splits jval.splits if_splits)

lemma budgetSchema_Some: "budgetSchema v = Some n \<Longrightarrow> 0 < n \<and> n \<le> MAX_BUDGET"
  by (auto simp: budgetSchema_def split: option.splits jval.splits if_splits)

lemma str_between_Some: "str_between lo hi v = Some s \<Longrightarrow> lo \<le> length s \<and> length s \<le> hi \<and> v = Some (JStr s)"
  by (auto simp: str_between_def split: option.splits jval.splits if_splits)

lemma optional_Some: "optional_field f v = Some (Some x) \<Longrightarrow> f v = Some x"
  by (auto simp: optional_field_def split: if_splits)

lemma default_enum: "defaulted d (enum_field vs) v = Some s \<Longrightarrow> d \<in> set vs \<Longrightarrow> s \<in> set vs"
  by (auto simp: defaulted_def split: if_splits dest: enum_field_Some)

lemma createSchema_valid:
  assumes "createSchema body = Some r" "mr_autonomy r \<noteq> ''auto''"
  shows "row_valid r \<and> mn_spentTokens r = 0 \<and> mn_spentCents r = 0"
proof -
  obtain b p obj a s t c where body: "body = JObj b"
    and f: "str_between 1 8000 (map_of b ''objective'') = Some obj"
      "defaulted ''suggest'' (enum_field AUTONOMY_VALUES) (map_of b ''autonomy'') = Some a"
      "defaulted ''active'' (enum_field STATUS_VALUES) (map_of b ''status'') = Some s"
      "budgetSchema (map_of b ''budgetTokens'') = Some t" "budgetSchema (map_of b ''budgetUsdCents'') = Some c"
    and r: "r = \<lparr>mn_status = s, mn_objective = obj, mn_budgetTokens = t, mn_budgetCents = c,
                          mn_spentTokens = 0, mn_spentCents = 0, mr_project = p, mr_autonomy = a\<rparr>"
    using assms(1) unfolding createSchema_def by (auto split: jval.splits option.splits if_splits)
  have "a \<in> set AUTONOMY_VALUES" by (rule default_enum [OF f(2)]) (simp add: AUTONOMY_VALUES_def)
  moreover have "s \<in> set STATUS_VALUES" by (rule default_enum [OF f(3)]) (simp add: STATUS_VALUES_def)
  ultimately show ?thesis
    using assms(2) str_between_Some [OF f(1)] budgetSchema_Some [OF f(4)] budgetSchema_Some [OF f(5)]
    by (auto simp: r row_valid_def AUTONOMY_VALUES_def MAX_BUDGET_def)
qed

definition patch_valid :: "mission_patch \<Rightarrow> bool" where
  "patch_valid p \<longleftrightarrow>
     (case up_objective p of None \<Rightarrow> True | Some v \<Rightarrow> 1 \<le> length v \<and> length v \<le> 8000)
     \<and> (case up_autonomy p of None \<Rightarrow> True | Some v \<Rightarrow> v \<in> set AUTONOMY_VALUES)
     \<and> (case up_status p of None \<Rightarrow> True | Some v \<Rightarrow> v \<in> set STATUS_VALUES)
     \<and> (case up_tokens p of None \<Rightarrow> True | Some v \<Rightarrow> 0 < v \<and> v \<le> MAX_BUDGET)
     \<and> (case up_cents p of None \<Rightarrow> True | Some v \<Rightarrow> 0 < v \<and> v \<le> MAX_BUDGET)"

lemma updateSchema_valid:
  assumes "updateSchema body = Some p"
  shows "patch_valid p"
proof -
  obtain b obj a s t c where
    f: "optional_field (str_between 1 8000) (map_of b ''objective'') = Some obj"
      "optional_field (enum_field AUTONOMY_VALUES) (map_of b ''autonomy'') = Some a"
      "optional_field (enum_field STATUS_VALUES) (map_of b ''status'') = Some s"
      "optional_field budgetSchema (map_of b ''budgetTokens'') = Some t"
      "optional_field budgetSchema (map_of b ''budgetUsdCents'') = Some c"
    and p: "p = \<lparr>up_objective = obj, up_autonomy = a, up_status = s, up_tokens = t, up_cents = c\<rparr>"
    using assms unfolding updateSchema_def by (auto split: jval.splits option.splits if_splits)
  have "case obj of None \<Rightarrow> True | Some v \<Rightarrow> 1 \<le> length v \<and> length v \<le> 8000"
    using f(1) by (cases obj) (auto dest!: optional_Some str_between_Some)
  moreover have "case a of None \<Rightarrow> True | Some v \<Rightarrow> v \<in> set AUTONOMY_VALUES"
    using f(2) by (cases a) (auto dest!: optional_Some enum_field_Some)
  moreover have "case s of None \<Rightarrow> True | Some v \<Rightarrow> v \<in> set STATUS_VALUES"
    using f(3) by (cases s) (auto dest!: optional_Some enum_field_Some)
  moreover have "case t of None \<Rightarrow> True | Some v \<Rightarrow> 0 < v \<and> v \<le> MAX_BUDGET"
    using f(4) by (cases t) (auto dest!: optional_Some budgetSchema_Some)
  moreover have "case c of None \<Rightarrow> True | Some v \<Rightarrow> 0 < v \<and> v \<le> MAX_BUDGET"
    using f(5) by (cases c) (auto dest!: optional_Some budgetSchema_Some)
  ultimately show ?thesis by (simp add: patch_valid_def p)
qed

lemma apply_patch_valid:
  assumes "patch_valid p" "row_valid r" "up_autonomy p \<noteq> Some ''auto''"
  shows "row_valid (apply_patch p r)"
  using assms unfolding patch_valid_def row_valid_def apply_patch_def AUTONOMY_VALUES_def MAX_BUDGET_def
  by (simp split: option.splits)

definition missions_valid :: "mission_api \<Rightarrow> bool" where
  "missions_valid st \<longleftrightarrow> (\<forall>m r. map_of (ma_missions st) m = Some r \<longrightarrow> row_valid r)"

lemma create_valid:
  assumes "missions_valid st" "create_route m body st = Inr (r, st')"
  shows "missions_valid st' \<and> map_of (ma_missions st') m = Some r \<and> mn_spentTokens r = 0 \<and> mn_spentCents r = 0"
proof -
  have c: "createSchema body = Some r" "mr_autonomy r \<noteq> ''auto''"
    and st': "st' = st\<lparr>ma_missions := AList.update m r (ma_missions st)\<rparr>"
    using assms(2) by (auto simp: create_route_def AUTONOMY_NOT_IMPLEMENTED_def split: option.splits if_splits sum.splits)
  show ?thesis using assms(1) createSchema_valid [OF c] by (simp add: st' missions_valid_def update_conv')
qed

lemma patch_valid_route:
  assumes "missions_valid st" "patch_route m body st = Inr (r, st')"
  shows "missions_valid st'" "map_of (ma_missions st') m = Some r"
    "\<exists>r0. map_of (ma_missions st) m = Some r0 \<and> mn_spentTokens r = mn_spentTokens r0 \<and> mn_spentCents r = mn_spentCents r0"
proof -
  obtain p r0 where p: "updateSchema body = Some p" "up_autonomy p \<noteq> Some ''auto''"
    and r0: "map_of (ma_missions st) m = Some r0" and r: "r = apply_patch p r0"
    and st': "st' = st\<lparr>ma_missions := AList.update m r (ma_missions st)\<rparr>"
    using assms(2) by (auto simp: patch_route_def AUTONOMY_NOT_IMPLEMENTED_def getMissionOrThrow_def Let_def
        split: option.splits if_splits sum.splits)
  have "row_valid r" using apply_patch_valid [OF updateSchema_valid [OF p(1)] _ p(2)] assms(1) r0
    by (simp add: missions_valid_def r)
  then show "missions_valid st'" using assms(1) by (simp add: st' missions_valid_def update_conv')
  show "map_of (ma_missions st') m = Some r" by (simp add: st' update_conv')
  show "\<exists>r0. map_of (ma_missions st) m = Some r0 \<and> mn_spentTokens r = mn_spentTokens r0 \<and> mn_spentCents r = mn_spentCents r0"
    using r0 by (simp add: r apply_patch_def)
qed

text \<open>Whatever bodies the create and the patch route are sent, every mission they leave in the table has a
  status and an autonomy of the closed lists, never autonomy auto, an objective of 1 to 8000 characters and
  budgets between 1 and 2147483647; a new mission has spent nothing, and a patch never touches what was spent.\<close>

theorem routes_keep_missions_valid:
  assumes "missions_valid st"
  shows "(create_route m body st = Inr (r, st') \<longrightarrow>
           missions_valid st' \<and> map_of (ma_missions st') m = Some r \<and> mn_spentTokens r = 0 \<and> mn_spentCents r = 0)
    \<and> (patch_route m body st = Inr (r, st') \<longrightarrow>
           missions_valid st' \<and> map_of (ma_missions st') m = Some r
           \<and> (\<exists>r0. map_of (ma_missions st) m = Some r0 \<and> mn_spentTokens r = mn_spentTokens r0
                   \<and> mn_spentCents r = mn_spentCents r0))"
  using create_valid [OF assms] patch_valid_route [OF assms] by blast

definition demo_api :: mission_api where
  "demo_api = \<lparr>ma_missions = [], ma_events = [], ma_store = demo_store, ma_now = 7, ma_iso = ''2024-01-01''\<rparr>"

definition demo_body :: jval where
  "demo_body = JObj [(''projectId'', JNum 1), (''objective'', JStr ''ship''), (''budgetTokens'', JNum 100),
     (''budgetUsdCents'', JNum 50)]"

definition demo_row :: mission_row where
  "demo_row = \<lparr>mn_status = ''active'', mn_objective = ''ship'', mn_budgetTokens = 100, mn_budgetCents = 50,
     mn_spentTokens = 0, mn_spentCents = 0, mr_project = 1, mr_autonomy = ''suggest''\<rparr>"

lemma demo_create: "create_route ''m1'' demo_body demo_api = Inr (demo_row, demo_api\<lparr>ma_missions := [(''m1'', demo_row)]\<rparr>)"
  by (simp add: create_route_def createSchema_def demo_body_def demo_row_def demo_api_def demo_store_def positive_int_def
      str_between_def defaulted_def budgetSchema_def MAX_BUDGET_def strict_def AUTONOMY_NOT_IMPLEMENTED_def
      getProjectOrThrow_def)

lemma routes_keep_missions_valid_witness:
  "missions_valid demo_api \<and> missions_valid (demo_api\<lparr>ma_missions := [(''m1'', demo_row)]\<rparr>)"
proof -
  have v: "missions_valid demo_api" by (simp add: missions_valid_def demo_api_def)
  with routes_keep_missions_valid [OF v, of "''m1''" demo_body demo_row "demo_api\<lparr>ma_missions := [(''m1'', demo_row)]\<rparr>"]
  show ?thesis by (simp add: demo_create)
qed

subsection \<open>Approvals\<close>

definition decision_event :: "string \<Rightarrow> string \<Rightarrow> jobj \<Rightarrow> int \<Rightarrow> mission_api \<Rightarrow> timeline_event" where
  "decision_event d m payload depth st =
     \<lparr>me_mission = m, me_kind = ''remediation_approved'', me_payload = payload, me_tokens = 0, me_cents = 0,
      me_depth = depth, tl_id = d, tl_createdAt = ma_now st\<rparr>"

lemma payload_fields:
  "map_of (pending_payload pid tt) ''proposal_event_id'' = Some (JStr pid)"
  "map_of (pending_payload pid tt) ''pending'' = Some (JBool True)"
  "map_of (approved_payload pid tt c) ''proposal_event_id'' = Some (JStr pid)"
  "map_of (approved_payload pid tt c) ''pending'' = None"
  by (simp_all add: pending_payload_def approved_payload_def split: option.split)

text \<open>What the second half of an approval does, on all its ways out.\<close>

lemma approve_cases:
  assumes "approve_finish t d st = (res, st')" "d \<notin> tl_id ` set (ma_events st)"
  obtains e where "res = Inl e" "st' = st"
  | e payload r tt c where "res = Inl e" "ma_store st' = ma_store st" "ma_missions st' = ma_missions st"
      "ma_events st' = ma_events st @ [decision_event d (tk_mission t) payload (me_depth (tk_proposal t)) st]"
      "map_of payload ''proposal_event_id'' = Some (JStr (tl_id (tk_proposal t)))"
      "map_of payload ''pending'' = Some (JBool True)"
      "reparseStoredProposal (me_payload (tk_proposal t)) = Some (Proposal r tt c)"
  | payload r tt c created where "res = Inr (Approved d (tl_id (tk_proposal t)) tt created)" "ma_missions st' = ma_missions st"
      "ma_events st' = ma_events st @ [decision_event d (tk_mission t) payload (me_depth (tk_proposal t)) st]"
      "map_of payload ''proposal_event_id'' = Some (JStr (tl_id (tk_proposal t)))"
      "map_of payload ''pending'' = None"
      "reparseStoredProposal (me_payload (tk_proposal t)) = Some (Proposal r tt c)"
proof (cases "reparseStoredProposal (me_payload (tk_proposal t))")
  case None
  then show ?thesis using assms(1) by (intro that(1)) (auto simp: approve_finish_def Let_def)
next
  case (Some reply)
  show ?thesis
  proof (cases reply)
    case (Proposal r tt c)
    note reparsed = Some [unfolded Proposal]
    show ?thesis
    proof (cases "getProjectPathForMission (tk_row t) st")
      case (Inl e)
      then show ?thesis using assms(1) reparsed by (intro that(1)) (auto simp: approve_finish_def Let_def)
    next
      case (Inr path)
      let ?pid = "tl_id (tk_proposal t)"
      let ?st1 = "writeDecisionEvent d (tk_mission t) ''remediation_approved'' (pending_payload ?pid tt)
                           (me_depth (tk_proposal t)) st"
      have old: "map (\<lambda>e. if tl_id e = d then e\<lparr>me_payload := p\<rparr> else e) (ma_events st) = ma_events st" for p
        by (rule map_idI) (use assms(2) in auto)
      show ?thesis
      proof (cases "createEntityFromProposal (ma_iso st) path tt c (ma_store st)")
        case (Inl e)
        then have "res = Inl e" "st' = ?st1"
          using assms(1) reparsed Inr by (simp_all add: approve_finish_def Let_def writeDecisionEvent_def)
        then show ?thesis
          by (intro that(2) [OF _ _ _ _ payload_fields(1,2) reparsed]) (simp_all add: writeDecisionEvent_def decision_event_def)
      next
        case c: (Inr p)
        obtain created store where p: "p = (created, store)" by (cases p)
        have "res = Inr (Approved d ?pid tt created)"
          "st' = set_payload d (approved_payload ?pid tt created) (?st1\<lparr>ma_store := store\<rparr>)"
          using assms(1) reparsed Inr c by (simp_all add: approve_finish_def Let_def writeDecisionEvent_def p)
        then show ?thesis using old
          by (intro that(3) [OF _ _ _ payload_fields(3,4) reparsed])
            (simp_all add: writeDecisionEvent_def decision_event_def set_payload_def)
      qed
    qed
  qed (use assms(1) Some in \<open>(intro that(1), auto simp: approve_finish_def Let_def)+\<close>)
qed

text \<open>What the schema of a proposal asks for, written out: the lengths, the kinds of entity, and the verbs.\<close>

definition text_field :: "nat \<Rightarrow> nat \<Rightarrow> jval option \<Rightarrow> bool" where
  "text_field lo hi v \<longleftrightarrow> (\<exists>s. v = Some (JStr s) \<and> lo \<le> length s \<and> length s \<le> hi)"

definition sound_proposal :: "jobj \<Rightarrow> string \<Rightarrow> jobj \<Rightarrow> bool" where
  "sound_proposal stored target_type candidate \<longleftrightarrow>
     text_field 10 4000 (map_of stored ''rationale'')
     \<and> (\<exists>inner. map_of stored ''proposal'' = Some (JObj inner)
          \<and> map_of inner ''target_type'' = Some (JStr target_type) \<and> map_of inner ''candidate'' = Some (JObj candidate))
     \<and> target_type \<in> {''milestone'', ''slice'', ''task''}
     \<and> (\<exists>action. map_of candidate ''action'' = Some (JStr action) \<and> 1 \<le> length action \<and> length action \<le> 500
          \<and> notDestructiveVerb action)
     \<and> (map_of candidate ''target_id'' = None \<or> text_field 1 200 (map_of candidate ''target_id''))
     \<and> (map_of candidate ''summary'' = None \<or> text_field 0 2000 (map_of candidate ''summary''))"

lemma str_between_field: "str_between lo hi v = Some s \<longleftrightarrow> v = Some (JStr s) \<and> lo \<le> length s \<and> length s \<le> hi"
  by (auto simp: str_between_def split: option.splits jval.splits)

lemma str_between_text: "text_field lo hi v \<longleftrightarrow> (\<exists>s. str_between lo hi v = Some s)"
  unfolding text_field_def str_between_field ..

lemma candidateSchema_sound:
  assumes "candidateSchema v = Some c"
  shows "v = Some (JObj c)
    \<and> (\<exists>action. map_of c ''action'' = Some (JStr action) \<and> 1 \<le> length action \<and> length action \<le> 500 \<and> notDestructiveVerb action)
    \<and> (map_of c ''target_id'' = None \<or> text_field 1 200 (map_of c ''target_id''))
    \<and> (map_of c ''summary'' = None \<or> text_field 0 2000 (map_of c ''summary''))"
proof -
  obtain c0 where v: "v = Some (JObj c0)"
    using assms by (auto simp: candidateSchema_def split: option.splits jval.splits)
  obtain action where a: "str_between 1 500 (map_of c0 ''action'') = Some action"
    using assms v by (auto simp: candidateSchema_def split: option.splits)
  show ?thesis
    using assms v a a [unfolded str_between_field]
    by (simp add: candidateSchema_def str_between_text split: if_splits)
qed

lemma proposalSchema_sound:
  assumes "proposalSchema o' = Some (Proposal r tt c)"
  shows "text_field 10 4000 (map_of o' ''rationale'') \<and> map_of o' ''target_type'' = Some (JStr tt)
    \<and> tt \<in> {''milestone'', ''slice'', ''task''} \<and> candidateSchema (map_of o' ''candidate'') = Some c"
  using assms
  by (auto simp: proposalSchema_def str_between_text split: if_splits option.splits jval.splits)

lemma reparse_sound:
  assumes "reparseStoredProposal stored = Some (Proposal r tt c)"
  shows "sound_proposal stored tt c"
proof -
  obtain inner where i: "map_of stored ''proposal'' = Some (JObj inner)"
    and p: "proposalSchema ((''kind'', JStr ''proposal'')
            # List.map_filter (\<lambda>(k, v). map_option (Pair k) v)
                [(''rationale'', map_of stored ''rationale''), (''target_type'', map_of inner ''target_type''),
                 (''candidate'', map_of inner ''candidate'')]) = Some (Proposal r tt c)"
    using assms by (auto simp: reparseStoredProposal_def split: option.splits jval.splits)
  have "text_field 10 4000 (map_of stored ''rationale'') \<and> map_of inner ''target_type'' = Some (JStr tt)
      \<and> tt \<in> {''milestone'', ''slice'', ''task''} \<and> candidateSchema (map_of inner ''candidate'') = Some c"
    using proposalSchema_sound [OF p]
    by (cases "map_of stored ''rationale''"; cases "map_of inner ''target_type''"; cases "map_of inner ''candidate''")
      (simp_all add: text_field_def)
  then show ?thesis using i candidateSchema_sound [of "map_of inner ''candidate''" c] by (simp add: sound_proposal_def)
qed

lemma approve_creates:
  assumes "approve_finish t d st = (res, st')" "ma_store st' \<noteq> ma_store st"
  shows "\<exists>r tt c path created. reparseStoredProposal (me_payload (tk_proposal t)) = Some (Proposal r tt c)
    \<and> getProjectPathForMission (tk_row t) st = Inr path
    \<and> createEntityFromProposal (ma_iso st) path tt c (ma_store st) = Inr (created, ma_store st')
    \<and> res = Inr (Approved d (tl_id (tk_proposal t)) tt created)"
  using assms
  by (auto simp: approve_finish_def Let_def writeDecisionEvent_def set_payload_def
      split: option.splits supervisor_output.splits sum.splits prod.splits)

text \<open>C28: An approval changes the plan only when the stored proposal passes the whole schema again (a rationale of
  10 to 4000 characters, a target type that is a milestone, a slice or a task, an action of 1 to 500 characters
  without a destructive verb, a target id and a summary that are missing or within their lengths); the change
  is the creation of that entity from that candidate in the project of the mission, the reply says so, and the
  timeline has a decision that names the proposal.\<close>

theorem approval_creates_only_safe_entities:
  assumes "approve_finish t d st = (res, st')" "d \<notin> tl_id ` set (ma_events st)" "ma_store st' \<noteq> ma_store st"
  shows "\<exists>target_type candidate path created.
      sound_proposal (me_payload (tk_proposal t)) target_type candidate
    \<and> getProjectPathForMission (tk_row t) st = Inr path
    \<and> createEntityFromProposal (ma_iso st) path target_type candidate (ma_store st) = Inr (created, ma_store st')
    \<and> res = Inr (Approved d (tl_id (tk_proposal t)) target_type created)
    \<and> list_ex (decides ''remediation_approved'' (tk_mission t) (tl_id (tk_proposal t))) (ma_events st')"
proof -
  have decided: "list_ex (decides ''remediation_approved'' (tk_mission t) (tl_id (tk_proposal t))) (ma_events st')"
    if "ma_events st' = ma_events st @ [decision_event d (tk_mission t) payload (me_depth (tk_proposal t)) st]"
      "map_of payload ''proposal_event_id'' = Some (JStr (tl_id (tk_proposal t)))" for payload
    using that by (simp add: decides_def decision_event_def)
  have "list_ex (decides ''remediation_approved'' (tk_mission t) (tl_id (tk_proposal t))) (ma_events st')"
    using assms(1,2) by (rule approve_cases) (use decided assms(3) in \<open>blast+\<close>)
  then show ?thesis using approve_creates [OF assms(1,3)] reparse_sound by blast
qed

lemma find_prefix: "find P xs = Some x \<Longrightarrow> find P (xs @ ys) = Some x"
  by (induction xs) (auto split: if_splits)

lemma begin_ticket:
  assumes "decision_begin kind m pid st = Inr (Inr t)"
  shows "map_of (ma_missions st) m = Some (tk_row t)" "tk_mission t = m" "tl_id (tk_proposal t) = pid"
    "find (\<lambda>e. is_proposal m e \<and> tl_id e = pid) (ma_events st) = Some (tk_proposal t)"
    "filter (decides kind m pid) (ma_events st) = []"
proof -
  obtain r e where r: "map_of (ma_missions st) m = Some r"
    and e: "find (\<lambda>e. is_proposal m e \<and> tl_id e = pid) (ma_events st) = Some e"
    and f: "findExistingDecisionId m pid kind st = None" and t: "t = \<lparr>tk_mission = m, tk_row = r, tk_proposal = e\<rparr>"
    using assms by (auto simp: decision_begin_def getMissionOrThrow_def getProposalEventOrThrow_def split: option.splits)
  show "map_of (ma_missions st) m = Some (tk_row t)" "tk_mission t = m"
    "find (\<lambda>e. is_proposal m e \<and> tl_id e = pid) (ma_events st) = Some (tk_proposal t)" using r e by (simp_all add: t)
  show "tl_id (tk_proposal t) = pid" using e by (auto simp: t find_Some_iff)
  have "sort_key tl_createdAt (filter (decides kind m pid) (ma_events st)) = []"
    using f by (auto simp: findExistingDecisionId_def split: list.splits)
  then show "filter (decides kind m pid) (ma_events st) = []" by (metis set_empty2 set_sort)
qed

text \<open>A retry never approves twice: once an approval has written its decision, the next request for the
  proposal is answered with that decision, also when creating the entity failed and the plan is as it was.\<close>

theorem approval_is_final:
  assumes "decision_begin ''remediation_approved'' m pid st = Inr (Inr t)"
    and "approve_finish t d st = (res, st')" "d \<notin> tl_id ` set (ma_events st)" "ma_events st' \<noteq> ma_events st"
  shows "decision_begin ''remediation_approved'' m pid st' = Inr (Inl (Repeated d pid))
    \<and> (\<forall>e. res = Inl e \<longrightarrow> ma_store st' = ma_store st)"
proof -
  note b = begin_ticket [OF assms(1)]
  have again: "decision_begin ''remediation_approved'' m pid st' = Inr (Inl (Repeated d pid))"
    if "ma_missions st' = ma_missions st"
      "ma_events st' = ma_events st @ [decision_event d (tk_mission t) payload (me_depth (tk_proposal t)) st]"
      "map_of payload ''proposal_event_id'' = Some (JStr (tl_id (tk_proposal t)))" for payload
  proof -
    have "filter (decides ''remediation_approved'' m pid) (ma_events st')
        = [decision_event d m payload (me_depth (tk_proposal t)) st]"
      using that b by (simp add: decides_def decision_event_def)
    then show ?thesis using that(1,2) b find_prefix [OF b(4)]
      by (simp add: decision_begin_def getMissionOrThrow_def getProposalEventOrThrow_def findExistingDecisionId_def
          decision_event_def)
  qed
  show ?thesis using assms(2,3)
    by (rule approve_cases) (use again assms(4) in auto)
qed

definition demo_proposal :: "string \<Rightarrow> timeline_event" where
  "demo_proposal target_type =
     \<lparr>me_mission = ''m1'', me_kind = ''remediation_proposed'',
      me_payload = [(''rationale'', JStr ''tests are red''), (''trigger_kind'', JStr ''task_observed''),
        (''proposal'', JObj [(''target_type'', JStr target_type), (''candidate'', JObj [(''action'', JStr ''fix'')])])],
      me_tokens = 5, me_cents = 1, me_depth = 0, tl_id = ''p1'', tl_createdAt = 3\<rparr>"

definition demo_desk :: "string \<Rightarrow> mission_api" where
  "demo_desk target_type =
     \<lparr>ma_missions = [(''m1'', demo_row)], ma_events = [demo_proposal target_type], ma_store = demo_store, ma_now = 7,
      ma_iso = ''2024-01-01''\<rparr>"

definition demo_ticket :: "string \<Rightarrow> ticket" where
  "demo_ticket target_type = \<lparr>tk_mission = ''m1'', tk_row = demo_row, tk_proposal = demo_proposal target_type\<rparr>"

lemma demo_begins:
  "decision_begin ''remediation_approved'' ''m1'' ''p1'' (demo_desk tt) = Inr (Inr (demo_ticket tt))"
  by (simp add: decision_begin_def getMissionOrThrow_def getProposalEventOrThrow_def findExistingDecisionId_def
      demo_desk_def demo_ticket_def demo_proposal_def is_proposal_def decides_def)

definition created_slug :: "api_error + decision_reply \<Rightarrow> string option" where
  "created_slug r = (case r of Inr (Approved _ _ _ c) \<Rightarrow> Some (ce_target c) | _ \<Rightarrow> None)"

text \<open>The check for an earlier decision comes before the wait for the body and the decision after it: two
  approvals of one proposal that overlap both create an entity.\<close>

theorem overlapping_approvals_create_twice:
  "let r1 = approve_finish (demo_ticket ''milestone'') ''d1'' (demo_desk ''milestone'');
       r2 = approve_finish (demo_ticket ''milestone'') ''d2'' (snd r1)
   in created_slug (fst r1) = Some ''01-fix'' \<and> created_slug (fst r2) = Some ''02-fix''
      \<and> length (filter (decides ''remediation_approved'' ''m1'' ''p1'') (ma_events (snd r2))) = 2"
  by code_simp

lemma approval_creates_only_safe_entities_witness:
  "\<exists>res st' candidate created. approve_finish (demo_ticket ''milestone'') ''d1'' (demo_desk ''milestone'') = (res, st')
     \<and> sound_proposal (me_payload (demo_proposal ''milestone'')) ''milestone'' candidate
     \<and> res = Inr (Approved ''d1'' ''p1'' ''milestone'' created)
     \<and> list_ex (decides ''remediation_approved'' ''m1'' ''p1'') (ma_events st')"
proof -
  obtain res st' where r: "approve_finish (demo_ticket ''milestone'') ''d1'' (demo_desk ''milestone'') = (res, st')"
    by (cases "approve_finish (demo_ticket ''milestone'') ''d1'' (demo_desk ''milestone'')")
  have "st_plans (ma_store (snd (approve_finish (demo_ticket ''milestone'') ''d1'' (demo_desk ''milestone''))))
      \<noteq> st_plans (ma_store (demo_desk ''milestone''))" by code_simp
  then have n: "ma_store st' \<noteq> ma_store (demo_desk ''milestone'')" by (auto simp: r)
  have d: "''d1'' \<notin> tl_id ` set (ma_events (demo_desk ''milestone''))" by (simp add: demo_desk_def demo_proposal_def)
  obtain tt c created where s: "sound_proposal (me_payload (demo_proposal ''milestone'')) tt c"
    "res = Inr (Approved ''d1'' ''p1'' tt created)" "list_ex (decides ''remediation_approved'' ''m1'' ''p1'') (ma_events st')"
    using approval_creates_only_safe_entities [OF r d n] by (auto simp: demo_ticket_def demo_proposal_def)
  moreover have "tt = ''milestone''" using s(1) by (simp add: sound_proposal_def demo_proposal_def)
  ultimately show ?thesis using r by blast
qed

text \<open>A slice needs a parent, and this proposal has none.\<close>

lemma approval_is_final_witness:
  "\<exists>st'. approve_finish (demo_ticket ''slice'') ''d1'' (demo_desk ''slice'') = (Inl Unprocessable, st')
     \<and> ma_store st' = ma_store (demo_desk ''slice'')
     \<and> decision_begin ''remediation_approved'' ''m1'' ''p1'' st' = Inr (Inl (Repeated ''d1'' ''p1''))"
proof -
  have e: "fst (approve_finish (demo_ticket ''slice'') ''d1'' (demo_desk ''slice'')) = Inl Unprocessable"
    "length (ma_events (snd (approve_finish (demo_ticket ''slice'') ''d1'' (demo_desk ''slice'')))) = 2"
    by code_simp+
  obtain st' where r: "approve_finish (demo_ticket ''slice'') ''d1'' (demo_desk ''slice'') = (Inl Unprocessable, st')"
    using e(1) by (cases "approve_finish (demo_ticket ''slice'') ''d1'' (demo_desk ''slice'')") simp
  have d: "''d1'' \<notin> tl_id ` set (ma_events (demo_desk ''slice''))" "ma_events st' \<noteq> ma_events (demo_desk ''slice'')"
    using e(2) arg_cong [of "ma_events st'" "ma_events (demo_desk ''slice'')" length] r
    by (auto simp: demo_desk_def demo_proposal_def)
  show ?thesis using approval_is_final [OF demo_begins r d] r by blast
qed

subsection \<open>Requests that overlap\<close>

record desk =
  dk_api :: mission_api
  dk_tickets :: "(nat \<times> (string \<times> ticket)) list"

datatype desk_event =
    DecisionAsked nat string string string
  | ApproveBody nat string
  | DismissBody nat string jval
  | MissionCreated string jval
  | MissionPatched string jval
  | EventWritten timeline_event
  | ClockMoves int

fun desk_step :: "desk_event \<Rightarrow> desk \<Rightarrow> desk" where
  "desk_step (DecisionAsked req kind m pid) s =
     (case decision_begin kind m pid (dk_api s) of
        Inr (Inr t) \<Rightarrow> s\<lparr>dk_tickets := (req, (kind, t)) # dk_tickets s\<rparr>
      | _ \<Rightarrow> s)"
| "desk_step (ApproveBody req d) s =
     (case map_of (dk_tickets s) req of
        Some (kind, t) \<Rightarrow>
          if kind = ''remediation_approved''
          then s\<lparr>dk_api := snd (approve_finish t d (dk_api s)), dk_tickets := AList.delete req (dk_tickets s)\<rparr>
          else s
      | None \<Rightarrow> s)"
| "desk_step (DismissBody req d body) s =
     (case map_of (dk_tickets s) req of
        Some (kind, t) \<Rightarrow>
          if kind = ''remediation_dismissed''
          then s\<lparr>dk_api := snd (dismiss_finish t d body (dk_api s)), dk_tickets := AList.delete req (dk_tickets s)\<rparr>
          else s
      | None \<Rightarrow> s)"
| "desk_step (MissionCreated m body) s =
     (case create_route m body (dk_api s) of Inl _ \<Rightarrow> s | Inr (_, st) \<Rightarrow> s\<lparr>dk_api := st\<rparr>)"
| "desk_step (MissionPatched m body) s =
     (case patch_route m body (dk_api s) of Inl _ \<Rightarrow> s | Inr (_, st) \<Rightarrow> s\<lparr>dk_api := st\<rparr>)"
| "desk_step (EventWritten e) s = s\<lparr>dk_api := (dk_api s)\<lparr>ma_events := ma_events (dk_api s) @ [e]\<rparr>\<rparr>"
| "desk_step (ClockMoves n) s = s\<lparr>dk_api := (dk_api s)\<lparr>ma_now := n\<rparr>\<rparr>"

definition for_proposal :: "string \<Rightarrow> string \<Rightarrow> string \<times> ticket \<Rightarrow> bool" where
  "for_proposal m pid p \<longleftrightarrow> fst p = ''remediation_approved'' \<and> tk_mission (snd p) = m \<and> tl_id (tk_proposal (snd p)) = pid"

text \<open>Request numbers and decision ids are new, only the routes decide, and no approval of the proposal is asked
  for while another one is under way.\<close>

fun one_at_a_time :: "string \<Rightarrow> string \<Rightarrow> desk_event \<Rightarrow> desk \<Rightarrow> bool" where
  "one_at_a_time m pid (DecisionAsked req kind m' pid') s \<longleftrightarrow> req \<notin> fst ` set (dk_tickets s)
     \<and> (kind = ''remediation_approved'' \<and> m' = m \<and> pid' = pid \<longrightarrow> \<not> list_ex (\<lambda>(_, p). for_proposal m pid p) (dk_tickets s))"
| "one_at_a_time m pid (ApproveBody req d) s \<longleftrightarrow> d \<notin> tl_id ` set (ma_events (dk_api s))"
| "one_at_a_time m pid (EventWritten e) s \<longleftrightarrow> me_kind e \<noteq> ''remediation_approved''"
| "one_at_a_time m pid _ s \<longleftrightarrow> True"

definition approvals :: "string \<Rightarrow> string \<Rightarrow> desk \<Rightarrow> nat" where
  "approvals m pid s = length (filter (decides ''remediation_approved'' m pid) (ma_events (dk_api s)))"

definition under_way :: "string \<Rightarrow> string \<Rightarrow> desk \<Rightarrow> nat" where
  "under_way m pid s = length (filter (\<lambda>(_, p). for_proposal m pid p) (dk_tickets s))"

definition decided_once :: "string \<Rightarrow> string \<Rightarrow> desk \<Rightarrow> bool" where
  "decided_once m pid s \<longleftrightarrow> distinct (map fst (dk_tickets s)) \<and> approvals m pid s + under_way m pid s \<le> 1"

lemma delete_split:
  assumes "distinct (map fst ps)" "map_of ps k = Some v"
  shows "length (filter (\<lambda>(_, p). P p) ps) = length (filter (\<lambda>(_, p). P p) (AList.delete k ps)) + (if P v then 1 else 0)"
  using assms
proof (induction ps)
  case (Cons q ps)
  obtain k' w where q: "q = (k', w)" by (cases q)
  show ?case
  proof (cases "k' = k")
    case True
    then have "AList.delete k ps = ps" using Cons.prems(1) by (intro delete_id) (simp add: q)
    then show ?thesis using Cons.prems True by (simp add: q)
  next
    case False
    then show ?thesis using Cons by (simp add: q)
  qed
qed simp

lemma decides_dismissed: "me_kind e = ''remediation_dismissed'' \<Longrightarrow> \<not> decides ''remediation_approved'' m pid e"
  by (simp add: decides_def)

lemma approve_count:
  assumes "d \<notin> tl_id ` set (ma_events st)"
  shows "length (filter (decides ''remediation_approved'' m pid) (ma_events (snd (approve_finish t d st))))
    \<le> length (filter (decides ''remediation_approved'' m pid) (ma_events st)) + (if for_proposal m pid (''remediation_approved'', t) then 1 else 0)"
proof -
  obtain res st' where r: "approve_finish t d st = (res, st')" by (cases "approve_finish t d st")
  show ?thesis using r assms
    by (rule approve_cases) (simp_all add: r decides_def decision_event_def for_proposal_def)
qed

lemma decided_step:
  assumes "one_at_a_time m pid e s" "decided_once m pid s"
  shows "decided_once m pid (desk_step e s)"
proof (cases e)
  case (DecisionAsked req kind m' pid')
  show ?thesis
  proof (cases "\<exists>t. decision_begin kind m' pid' (dk_api s) = Inr (Inr t)")
    case False
    then have "desk_step e s = s" by (auto simp: DecisionAsked split: sum.split)
    then show ?thesis using assms(2) by simp
  next
    case True
    then obtain t where t: "decision_begin kind m' pid' (dk_api s) = Inr (Inr t)" by blast
    have "approvals m pid s = 0 \<and> under_way m pid s = 0" if "for_proposal m pid (kind, t)"
      using that assms(1) begin_ticket [OF t]
      by (auto simp: for_proposal_def approvals_def under_way_def DecisionAsked list_ex_iff filter_empty_conv)
    then show ?thesis using assms t
      by (auto simp: DecisionAsked decided_once_def approvals_def under_way_def)
  qed
next
  case (ApproveBody req d)
  show ?thesis
  proof (cases "\<exists>t. map_of (dk_tickets s) req = Some (''remediation_approved'', t)")
    case False
    then have "desk_step e s = s" by (auto simp: ApproveBody split: option.split)
    then show ?thesis using assms(2) by simp
  next
    case True
    then obtain t where t: "map_of (dk_tickets s) req = Some (''remediation_approved'', t)" by blast
    show ?thesis
      using assms t delete_split [of "dk_tickets s" req "(''remediation_approved'', t)" "for_proposal m pid"]
        approve_count [of d "dk_api s" m pid t]
      by (simp add: ApproveBody decided_once_def approvals_def under_way_def distinct_delete split: if_splits)
  qed
next
  case (DismissBody req d body)
  have "length (filter (decides ''remediation_approved'' m pid) (ma_events (snd (dismiss_finish t d body st))))
      = length (filter (decides ''remediation_approved'' m pid) (ma_events st))" for t st
    by (simp add: dismiss_finish_def writeDecisionEvent_def decides_def Let_def split: option.split)
  moreover have "length (filter (\<lambda>(_, p). for_proposal m pid p) (AList.delete req (dk_tickets s)))
      \<le> length (filter (\<lambda>(_, p). for_proposal m pid p) (dk_tickets s))" if "map_of (dk_tickets s) req = Some p" for p
    using delete_split [OF _ that, of "for_proposal m pid"] assms(2) by (simp add: decided_once_def)
  ultimately show ?thesis using assms(2)
    by (cases "map_of (dk_tickets s) req")
      (fastforce simp: DismissBody decided_once_def approvals_def under_way_def distinct_delete)+
next
  case (MissionCreated m' body)
  then show ?thesis using assms(2)
    by (auto simp: decided_once_def approvals_def under_way_def create_route_def split: option.splits sum.splits if_splits)
next
  case (MissionPatched m' body)
  then show ?thesis using assms(2)
    by (auto simp: decided_once_def approvals_def under_way_def patch_route_def Let_def split: option.splits sum.splits if_splits)
next
  case (EventWritten ev)
  then show ?thesis using assms by (simp add: decided_once_def approvals_def under_way_def decides_def)
next
  case (ClockMoves n)
  then show ?thesis using assms(2) by (simp add: decided_once_def approvals_def under_way_def)
qed

interpretation decisions: guarded_run desk_step "one_at_a_time m pid" "decided_once m pid" for m pid
  by unfold_locales (rule decided_step)

text \<open>C29: As long as two approvals of a proposal do not overlap, the timeline gets at most one approval of it,
  whatever else happens.\<close>

theorem approved_at_most_once:
  assumes "along desk_step (one_at_a_time m pid) es s" "dk_tickets s = []" "approvals m pid s = 0"
  shows "approvals m pid (fold desk_step es s) \<le> 1"
proof -
  have "decided_once m pid s" using assms(2,3) by (simp add: decided_once_def under_way_def)
  from decisions.run_inv [OF assms(1) this] show ?thesis by (simp add: decided_once_def)
qed

definition demo_requests :: "desk_event list" where
  "demo_requests = [DecisionAsked 1 ''remediation_approved'' ''m1'' ''p1'', ApproveBody 1 ''d1'',
     DecisionAsked 2 ''remediation_approved'' ''m1'' ''p1'', ApproveBody 2 ''d2'']"

lemma approved_at_most_once_witness:
  "approvals ''m1'' ''p1'' (fold desk_step demo_requests \<lparr>dk_api = demo_desk ''milestone'', dk_tickets = []\<rparr>) \<le> 1"
proof (rule approved_at_most_once)
  show "along desk_step (one_at_a_time ''m1'' ''p1'') demo_requests \<lparr>dk_api = demo_desk ''milestone'', dk_tickets = []\<rparr>"
    by code_simp
qed (simp_all add: approvals_def demo_desk_def demo_proposal_def decides_def)

end
