(* ===== verification/OsFs.thy ===== *)
theory OsFs
  imports Permission
begin

text \<open>
  The file system as Node's \<open>fs\<close> shows it to \<open>src/src/services/fs-operations.ts\<close>: files, directories and
  symbolic links, addressed by absolute paths.

  A \<open>disk\<close> maps the real location of an entry (its segments, with no link on the way) to an \<open>inode\<close>.
  \<open>walk\<close> is the kernel's resolution of a path: links are followed, at most 40 of them, \<open>..\<close> is taken
  after the links before it.  What the disk does not determine is the record \<open>os\<close>: the errno with which
  the kernel may refuse any call (permissions, devices), the hash of a file, the decoding of its bytes,
  and the collation of the locale.  A string is the list of the bytes of its UTF-8 form.

  The lemmas say which locations a call changes: only the one that \<open>os_locate\<close> names, or what lies below it.
\<close>

datatype inode = FileI string | DirI | LinkI string

record disk =
  dk_nodes :: "(string list \<times> inode) list"
  dk_mtimes :: "(string list \<times> int) list"

record os =
  os_fault :: "string \<Rightarrow> string list \<Rightarrow> string option"
  os_sha256 :: "string \<Rightarrow> string"
  os_decode :: "string \<Rightarrow> string"
  os_collate :: "string \<Rightarrow> string \<Rightarrow> int"

definition node_at :: "disk \<Rightarrow> string list \<Rightarrow> inode option" where
  "node_at d p = (if p = [] then Some DirI else map_of (dk_nodes d) p)"

definition mtime_at :: "disk \<Rightarrow> string list \<Rightarrow> int" where
  "mtime_at d p = (case map_of (dk_mtimes d) p of None \<Rightarrow> 0 | Some t \<Rightarrow> t)"

subsection \<open>Resolving paths\<close>

definition MAX_LINKS :: nat where
  "MAX_LINKS = 40"

fun walk :: "disk \<Rightarrow> nat \<Rightarrow> string list \<Rightarrow> string list \<Rightarrow> string + string list" where
  "walk d n cur [] = Inr cur"
| "walk d n cur (c # cs) =
     (if c = [] \<or> c = ''.'' then walk d n cur cs
      else if c = ''..'' then walk d n (butlast cur) cs
      else case node_at d (cur @ [c]) of
          None \<Rightarrow> Inl ''ENOENT''
        | Some DirI \<Rightarrow> walk d n (cur @ [c]) cs
        | Some (FileI _) \<Rightarrow> if cs = [] then Inr (cur @ [c]) else Inl ''ENOTDIR''
        | Some (LinkI t) \<Rightarrow>
            (case n of 0 \<Rightarrow> Inl ''ELOOP''
             | Suc n' \<Rightarrow> walk d n' (if isAbsolute t then [] else cur) (split_slash t @ cs)))"

definition os_walk :: "disk \<Rightarrow> string \<Rightarrow> string + string list" where
  "os_walk d p = walk d MAX_LINKS [] (split_slash p)"

text \<open>The entry itself, without following a link in the last place.\<close>

definition os_locate :: "disk \<Rightarrow> string \<Rightarrow> string + string list" where
  "os_locate d p =
     (let segs = norm_segs [] (split_slash p)
      in if segs = [] then Inr []
         else bind_err (walk d MAX_LINKS [] (butlast segs)) (\<lambda>q.
           if node_at d q = Some DirI then Inr (q @ [last segs]) else Inl ''ENOTDIR''))"

text \<open>A refusal is never \<open>ENOENT\<close> or \<open>ENOTDIR\<close>: these two are the disk's own answers.\<close>

definition allowed :: "os \<Rightarrow> string \<Rightarrow> string list \<Rightarrow> string + string list" where
  "allowed e call r = (case os_fault e call r of None \<Rightarrow> Inr r
     | Some c \<Rightarrow> if c = ''ENOENT'' \<or> c = ''ENOTDIR'' then Inr r else Inl c)"

definition the_node :: "disk \<Rightarrow> string list \<Rightarrow> string + (string list \<times> inode)" where
  "the_node d r = (case node_at d r of None \<Rightarrow> Inl ''ENOENT'' | Some i \<Rightarrow> Inr (r, i))"

subsection \<open>Reading\<close>

definition os_realpath :: "os \<Rightarrow> disk \<Rightarrow> string \<Rightarrow> string + string list" where
  "os_realpath e d p = bind_err (os_walk d p) (allowed e ''realpath'')"

definition os_stat :: "os \<Rightarrow> disk \<Rightarrow> string \<Rightarrow> string + (string list \<times> inode)" where
  "os_stat e d p = bind_err (bind_err (os_walk d p) (allowed e ''stat'')) (the_node d)"

definition os_lstat :: "os \<Rightarrow> disk \<Rightarrow> string \<Rightarrow> string + (string list \<times> inode)" where
  "os_lstat e d p = bind_err (bind_err (os_locate d p) (allowed e ''lstat'')) (the_node d)"

definition os_read :: "os \<Rightarrow> disk \<Rightarrow> string \<Rightarrow> string + string" where
  "os_read e d p = bind_err (bind_err (os_walk d p) (allowed e ''read'')) (\<lambda>r.
     case node_at d r of Some (FileI s) \<Rightarrow> Inr s | Some DirI \<Rightarrow> Inl ''EISDIR'' | _ \<Rightarrow> Inl ''ENOENT'')"

text \<open>The entries of a directory, each with its own kind: a link is listed as a link.\<close>

definition entries_of :: "disk \<Rightarrow> string list \<Rightarrow> (string \<times> inode) list" where
  "entries_of d r =
     map (\<lambda>q. (last q, case node_at d q of Some i \<Rightarrow> i | None \<Rightarrow> DirI))
       (filter (\<lambda>q. q \<noteq> [] \<and> butlast q = r) (remdups (map fst (dk_nodes d))))"

definition os_readdir_at :: "os \<Rightarrow> disk \<Rightarrow> string list \<Rightarrow> string + (string \<times> inode) list" where
  "os_readdir_at e d r = bind_err (allowed e ''readdir'' r) (\<lambda>r.
     if node_at d r = Some DirI then Inr (entries_of d r) else Inl ''ENOTDIR'')"

definition os_readdir :: "os \<Rightarrow> disk \<Rightarrow> string \<Rightarrow> string + (string \<times> inode) list" where
  "os_readdir e d p = bind_err (os_walk d p) (os_readdir_at e d)"

subsection \<open>Changing\<close>

definition put_node :: "int \<Rightarrow> string list \<Rightarrow> inode \<Rightarrow> disk \<Rightarrow> disk" where
  "put_node now r i d = d\<lparr>dk_nodes := AList.update r i (dk_nodes d),
     dk_mtimes := AList.update r now (if node_at d r = None then AList.update (butlast r) now (dk_mtimes d) else dk_mtimes d)\<rparr>"

definition below :: "string list \<Rightarrow> string list \<Rightarrow> bool" where
  "below r q \<longleftrightarrow> is_prefix_of r q"

definition drop_node :: "int \<Rightarrow> string list \<Rightarrow> disk \<Rightarrow> disk" where
  "drop_node now r d = d\<lparr>dk_nodes := filter (\<lambda>n. \<not> below r (fst n)) (dk_nodes d),
     dk_mtimes := AList.update (butlast r) now (dk_mtimes d)\<rparr>"

definition os_mkdir :: "os \<Rightarrow> int \<Rightarrow> string \<Rightarrow> disk \<Rightarrow> string + disk" where
  "os_mkdir e now p d = bind_err (bind_err (os_locate d p) (allowed e ''mkdir'')) (\<lambda>r.
     if node_at d r = None then Inr (put_node now r DirI d) else Inl ''EEXIST'')"

text \<open>\<open>writeFile\<close> with the flag \<open>wx\<close>: the file must be new, and a link in its place counts as a file.\<close>

definition os_write_new :: "os \<Rightarrow> int \<Rightarrow> string \<Rightarrow> string \<Rightarrow> disk \<Rightarrow> string + disk" where
  "os_write_new e now p s d = bind_err (bind_err (os_locate d p) (allowed e ''open'')) (\<lambda>r.
     if node_at d r = None then Inr (put_node now r (FileI s) d) else Inl ''EEXIST'')"

text \<open>\<open>writeFile\<close> over a name that is free or names a file.\<close>

definition os_write :: "os \<Rightarrow> int \<Rightarrow> string \<Rightarrow> string \<Rightarrow> disk \<Rightarrow> string + disk" where
  "os_write e now p s d = bind_err (bind_err (os_locate d p) (allowed e ''open'')) (\<lambda>r.
     case node_at d r of
       None \<Rightarrow> Inr (put_node now r (FileI s) d)
     | Some (FileI _) \<Rightarrow> Inr (put_node now r (FileI s) d)
     | Some DirI \<Rightarrow> Inl ''EISDIR''
     | Some (LinkI _) \<Rightarrow>
         (case os_walk d p of Inl c \<Rightarrow> Inl c
          | Inr r' \<Rightarrow> if node_at d r' = Some DirI then Inl ''EISDIR'' else Inr (put_node now r' (FileI s) d)))"

definition relocate :: "string list \<Rightarrow> string list \<Rightarrow> string list \<Rightarrow> string list" where
  "relocate a b q = (if below a q then b @ drop (length a) q else q)"

definition move_node :: "int \<Rightarrow> string list \<Rightarrow> string list \<Rightarrow> disk \<Rightarrow> disk" where
  "move_node now a b d = d\<lparr>
     dk_nodes := map (\<lambda>(q, i). (relocate a b q, i)) (filter (\<lambda>n. \<not> below b (fst n)) (dk_nodes d)),
     dk_mtimes := AList.update (butlast b) now (AList.update (butlast a) now
       (map (\<lambda>(q, t). (relocate a b q, t)) (filter (\<lambda>n. \<not> below b (fst n)) (dk_mtimes d))))\<rparr>"

definition os_rename :: "os \<Rightarrow> int \<Rightarrow> string \<Rightarrow> string \<Rightarrow> disk \<Rightarrow> string + disk" where
  "os_rename e now p q d =
     bind_err (bind_err (os_locate d p) (allowed e ''rename'')) (\<lambda>a.
     bind_err (bind_err (os_locate d q) (allowed e ''rename'')) (\<lambda>b.
       case node_at d a of None \<Rightarrow> Inl ''ENOENT''
       | Some i \<Rightarrow>
           if a = b then Inr d
           else if below a b then Inl ''EINVAL''
           else case node_at d b of
               None \<Rightarrow> Inr (move_node now a b d)
             | Some DirI \<Rightarrow> if i \<noteq> DirI then Inl ''EISDIR''
                 else if entries_of d b = [] then Inr (move_node now a b d) else Inl ''ENOTEMPTY''
             | Some _ \<Rightarrow> if i = DirI then Inl ''ENOTDIR'' else Inr (move_node now a b d)))"

definition os_rmdir :: "os \<Rightarrow> int \<Rightarrow> string \<Rightarrow> disk \<Rightarrow> string + disk" where
  "os_rmdir e now p d = bind_err (bind_err (os_locate d p) (allowed e ''rmdir'')) (\<lambda>r.
     if node_at d r \<noteq> Some DirI then Inl ''ENOTDIR''
     else if entries_of d r \<noteq> [] then Inl ''ENOTEMPTY'' else Inr (drop_node now r d))"

definition os_rm_tree :: "os \<Rightarrow> int \<Rightarrow> string \<Rightarrow> disk \<Rightarrow> string + disk" where
  "os_rm_tree e now p d = bind_err (bind_err (os_locate d p) (allowed e ''rm'')) (\<lambda>r.
     if node_at d r = None then Inl ''ENOENT'' else Inr (drop_node now r d))"

definition os_unlink :: "os \<Rightarrow> int \<Rightarrow> string \<Rightarrow> disk \<Rightarrow> string + disk" where
  "os_unlink e now p d = bind_err (bind_err (os_locate d p) (allowed e ''unlink'')) (\<lambda>r.
     case node_at d r of None \<Rightarrow> Inl ''ENOENT'' | Some DirI \<Rightarrow> Inl ''EISDIR'' | Some _ \<Rightarrow> Inr (drop_node now r d))"

subsection \<open>Paths without links\<close>

lemma below_refl [simp]: "below p p" and below_Nil [simp]: "below [] p"
  by (simp_all add: below_def is_prefix_of_iff)

lemma below_append [simp]: "below p (p @ q)"
  by (simp add: below_def is_prefix_of_iff)

lemma below_iff: "below p q \<longleftrightarrow> (\<exists>z. q = p @ z)"
  by (simp add: below_def is_prefix_of_iff)

lemma below_trans: "below p q \<Longrightarrow> below q r \<Longrightarrow> below p r"
  by (auto simp: below_iff)

lemma below_snoc: "below q (p @ [n]) \<longleftrightarrow> below q p \<or> q = p @ [n]"
proof -
  have "below q (p @ [n])" if "below q p" using that by (rule below_trans) simp
  moreover have "below q p \<or> q = p @ [n]" if "below q (p @ [n])"
  proof -
    from that obtain z where z: "p @ [n] = q @ z" by (auto simp: below_iff)
    then show ?thesis by (cases z rule: rev_cases) (auto simp: below_iff)
  qed
  ultimately show ?thesis by auto
qed

definition real_dir :: "disk \<Rightarrow> string list \<Rightarrow> bool" where
  "real_dir d p \<longleftrightarrow> (\<forall>q. below q p \<longrightarrow> node_at d q = Some DirI)"

definition real_at :: "disk \<Rightarrow> string list \<Rightarrow> bool" where
  "real_at d r \<longleftrightarrow> real_dir d (butlast r) \<and> (\<exists>i. node_at d r = Some i \<and> (\<forall>t. i \<noteq> LinkI t))"

lemma real_dir_Nil [simp]: "real_dir d []"
  by (auto simp: real_dir_def below_iff node_at_def)

lemma real_dir_snoc: "real_dir d (p @ [n]) \<longleftrightarrow> real_dir d p \<and> node_at d (p @ [n]) = Some DirI"
  by (auto simp: real_dir_def below_snoc)

lemma real_dir_append: "real_dir d (p @ q) \<Longrightarrow> real_dir d p"
  unfolding real_dir_def using below_trans [OF _ below_append] by blast

lemma real_dir_butlast: "real_dir d p \<Longrightarrow> real_dir d (butlast p)"
  by (cases p rule: rev_cases) (auto simp: real_dir_snoc)

lemma real_dir_at: "real_dir d p \<Longrightarrow> real_at d p"
  by (cases p rule: rev_cases) (auto simp: real_at_def real_dir_snoc node_at_def)

lemma real_at_dir: "real_at d p \<Longrightarrow> node_at d p = Some DirI \<Longrightarrow> real_dir d p"
  by (cases p rule: rev_cases) (auto simp: real_at_def real_dir_snoc)

lemma walk_Cons_node:
  assumes "walk d n cur (c # cs) = Inr r"
  shows "c = [] \<or> c = ''.'' \<or> c = ''..'' \<or> (\<exists>i. node_at d (cur @ [c]) = Some i)"
  using assms by (cases "node_at d (cur @ [c])") (auto split: if_splits)

text \<open>What the kernel resolves a path to has no link on the way.\<close>

lemma walk_real: "walk d n cur cs = Inr r \<Longrightarrow> real_dir d cur \<Longrightarrow> real_at d r"
proof (induction d n cur cs rule: walk.induct)
  case (2 d n cur c cs)
  consider "c = [] \<or> c = ''.''" | "\<not> (c = [] \<or> c = ''.'')" "c = ''..''"
    | i where "\<not> (c = [] \<or> c = ''.'')" "c \<noteq> ''..''" "node_at d (cur @ [c]) = Some i"
    using walk_Cons_node [OF 2(5)] by blast
  then show ?case
  proof cases
    case 3
    show ?thesis
    proof (cases i)
      case (FileI s)
      then show ?thesis using 3 2(5,6) by (auto simp: real_at_def split: if_splits)
    next
      case DirI
      then show ?thesis using 3 2(3) [of DirI] 2(5,6) by (simp add: real_dir_snoc)
    next
      case (LinkI t)
      then show ?thesis using 3 2(4) [of "LinkI t" t] 2(5,6) by (cases n) auto
    qed
  qed (use 2 in \<open>auto intro: real_dir_butlast\<close>)
qed (simp add: real_dir_at)

lemma walk_plain: "walk d n cur cs = Inr r \<Longrightarrow> plain_segs cur \<Longrightarrow> (\<forall>c \<in> set cs. CHR ''/'' \<notin> set c) \<Longrightarrow> plain_segs r"
proof (induction d n cur cs rule: walk.induct)
  case (2 d n cur c cs)
  consider "c = [] \<or> c = ''.''" | "\<not> (c = [] \<or> c = ''.'')" "c = ''..''"
    | i where "\<not> (c = [] \<or> c = ''.'')" "c \<noteq> ''..''" "node_at d (cur @ [c]) = Some i"
    using walk_Cons_node [OF 2(5)] by blast
  then show ?case
  proof cases
    case 3
    then have c: "plain_seg c" using 2(7) by (simp add: plain_seg_def)
    show ?thesis
    proof (cases i)
      case (FileI s)
      then show ?thesis using 3 c 2(5,6) by (auto split: if_splits)
    next
      case DirI
      then show ?thesis using 3 c 2(3) [of DirI] 2(5-7) by simp
    next
      case (LinkI t)
      have "\<forall>x \<in> set (split_slash t @ cs). CHR ''/'' \<notin> set x"
        using 2(7) by (auto dest: split_slash_no_slash)
      then show ?thesis using LinkI 3 2(4) [of "LinkI t" t] 2(5,6) by (cases n) auto
    qed
  qed (use 2 in \<open>auto intro: plain_segs_butlast\<close>)
qed simp

lemma walk_to_real: "real_at d (cur @ cs) \<Longrightarrow> plain_segs cs \<Longrightarrow> walk d n cur cs = Inr (cur @ cs)"
proof (induction cs arbitrary: cur)
  case (Cons c cs)
  have c: "c \<noteq> []" "c \<noteq> ''.''" "c \<noteq> ''..''" using Cons.prems(2) by (auto simp: plain_seg_def)
  show ?case
  proof (cases "cs = []")
    case True
    then show ?thesis using c Cons.prems by (auto simp: real_at_def split: inode.split)
  next
    case False
    then have "real_dir d (cur @ [c])"
      using Cons.prems(1) real_dir_append [of d "cur @ [c]" "butlast cs"] by (simp add: real_at_def butlast_append)
    then have "node_at d (cur @ [c]) = Some DirI" by (simp add: real_dir_snoc)
    then show ?thesis using c Cons by simp
  qed
qed simp

lemma os_walk_abs: "plain_segs p \<Longrightarrow> os_walk d (abs_str p) = walk d MAX_LINKS [] p"
  using split_join [of p] by (cases "p = []") (simp_all add: os_walk_def abs_str_def)

lemma os_locate_abs: "plain_segs p \<Longrightarrow> os_locate d (abs_str p) =
    (if p = [] then Inr [] else bind_err (walk d MAX_LINKS [] (butlast p)) (\<lambda>q.
           if node_at d q = Some DirI then Inr (q @ [last p]) else Inl ''ENOTDIR''))"
  using segs_from_abs [of p "[]"] by (simp add: os_locate_def segs_from_def)

lemma walk_links_free:
  "walk d n cur cs = Inr r \<Longrightarrow> plain_segs cs \<Longrightarrow> (\<forall>q t. node_at d q \<noteq> Some (LinkI t)) \<Longrightarrow> r = cur @ cs"
proof (induction d n cur cs rule: walk.induct)
  case (2 d n cur c cs)
  then have "c \<noteq> []" "c \<noteq> ''.''" "c \<noteq> ''..''" by (auto simp: plain_seg_def)
  with 2 show ?case by (auto split: option.splits inode.splits if_splits)
qed simp

lemma walk_append_Inl: "walk d n cur xs = Inl c \<Longrightarrow> walk d n cur (xs @ ys) = Inl c"
proof (induction d n cur xs rule: walk.induct)
  case (2 d n cur x xs)
  consider "x = [] \<or> x = ''.''" | "\<not> (x = [] \<or> x = ''.'')" "x = ''..''"
    | "\<not> (x = [] \<or> x = ''.'')" "x \<noteq> ''..''" by blast
  then show ?case
  proof cases
    case 3
    note proper = this
    show ?thesis
    proof (cases "node_at d (cur @ [x])")
      case None
      then show ?thesis using proper 2(5) by simp
    next
      case (Some i)
      show ?thesis
      proof (cases i)
        case (FileI s)
        then show ?thesis using proper Some 2(5) by (auto split: if_splits)
      next
        case DirI
        then show ?thesis using proper Some 2(3) [of DirI] 2(5) by simp
      next
        case (LinkI t)
        then show ?thesis using proper Some 2(4) [of "LinkI t" t] 2(5) by (cases n) auto
      qed
    qed
  qed (use 2 in auto)
qed simp

lemma walk_append_Inr: "walk d n cur xs = Inr q \<Longrightarrow> real_dir d cur \<Longrightarrow> \<exists>m \<le> n. \<forall>y ys.
    plain_seg y \<longrightarrow> walk d n cur (xs @ y # ys) = (if node_at d q = Some DirI then walk d m q (y # ys) else Inl ''ENOTDIR'')"
proof (induction d n cur xs rule: walk.induct)
  case (1 d n cur)
  then have "node_at d q = Some DirI" by (auto simp: real_dir_def)
  with 1 show ?case by auto
next
  case (2 d n cur x xs)
  consider "x = [] \<or> x = ''.''" | "\<not> (x = [] \<or> x = ''.'')" "x = ''..''"
    | i where "\<not> (x = [] \<or> x = ''.'')" "x \<noteq> ''..''" "node_at d (cur @ [x]) = Some i"
    using walk_Cons_node [OF 2(5)] by blast
  then show ?case
  proof cases
    case 1
    then show ?thesis using 2(1) 2(5,6) by simp
  next
    case 2
    then show ?thesis using "2.IH"(2) "2.prems" real_dir_butlast by simp
  next
    case 3
    show ?thesis
    proof (cases i)
      case (FileI s)
      then show ?thesis using 3 2(5) by (auto split: if_splits)
    next
      case DirI
      then show ?thesis using 3 2(3) [of DirI] 2(5,6) by (simp add: real_dir_snoc)
    next
      case (LinkI t)
      then obtain n' where n': "n = Suc n'" using 3 2(5) by (cases n) auto
      have "real_dir d (if isAbsolute t then [] else cur)" using 2(6) by simp
      then obtain m where "m \<le> n'" and *: "\<forall>y ys. plain_seg y \<longrightarrow>
          walk d n' (if isAbsolute t then [] else cur) ((split_slash t @ xs) @ y # ys)
            = (if node_at d q = Some DirI then walk d m q (y # ys) else Inl ''ENOTDIR'')"
        using LinkI 3 2(4) [of "LinkI t" t n'] 2(5) n' by auto
      then show ?thesis
        using LinkI 3 n' by (intro exI [of _ m]) simp
    qed
  qed
qed

lemma walk_mono: "walk d n cur cs = r \<Longrightarrow> r \<noteq> Inl ''ELOOP'' \<Longrightarrow> n \<le> m \<Longrightarrow> walk d m cur cs = r"
proof (induction d n cur cs arbitrary: m rule: walk.induct)
  case (2 d n cur x xs)
  consider "x = [] \<or> x = ''.''" | "\<not> (x = [] \<or> x = ''.'')" "x = ''..''"
    | "\<not> (x = [] \<or> x = ''.'')" "x \<noteq> ''..''" by blast
  then show ?case
  proof cases
    case 3
    note proper = this
    show ?thesis
    proof (cases "node_at d (cur @ [x])")
      case None
      then show ?thesis using proper 2(5) by simp
    next
      case (Some i)
      show ?thesis
      proof (cases i)
        case (FileI s)
        then show ?thesis using proper Some 2(5) by simp
      next
        case DirI
        then show ?thesis using proper Some 2(3) [of DirI m] 2(5-7) by simp
      next
        case (LinkI t)
        show ?thesis
        proof (cases n)
          case (Suc n')
          then obtain m' where "m = Suc m'" "n' \<le> m'" using 2(7) by (cases m) auto
          then show ?thesis using proper Some LinkI Suc 2(4) [of "LinkI t" t n' m'] 2(5,6) by simp
        qed (use proper Some LinkI 2(5,6) in simp)
      qed
    qed
  qed (use 2 in auto)
qed simp

lemma walk_real_append: "real_dir d (cur @ cs) \<Longrightarrow> plain_segs cs \<Longrightarrow> walk d n cur (cs @ ys) = walk d n (cur @ cs) ys"
proof (induction cs arbitrary: cur)
  case (Cons c cs)
  have "node_at d (cur @ [c]) = Some DirI"
    using Cons.prems(1) by (auto simp: real_dir_def below_iff)
  then show ?case using Cons by (auto simp: plain_seg_def)
qed simp

subsection \<open>What a call changes\<close>

lemma map_of_filter_below: "map_of (filter (\<lambda>n. \<not> below b (fst n)) xs) k = (if below b k then None else map_of xs k)"
  by (induction xs) auto

lemma node_at_put: "node_at (put_node now r i d) q = (if q = [] then Some DirI else if q = r then Some i else node_at d q)"
  by (auto simp: node_at_def put_node_def update_conv')

lemma node_at_drop: "node_at (drop_node now r d) q = (if q = [] then Some DirI else if below r q then None else node_at d q)"
  by (simp add: node_at_def drop_node_def map_of_filter_below)

lemma map_of_relocate:
  "(\<And>q. q \<in> fst ` set xs \<Longrightarrow> f q = k \<longleftrightarrow> q = a) \<Longrightarrow> map_of (map (\<lambda>(q, i). (f q, i)) xs) k = map_of xs a"
proof (induction xs)
  case (Cons x xs)
  obtain q i where x: "x = (q, i)" by (cases x)
  have "f q = k \<longleftrightarrow> q = a" using Cons.prems [of q] by (simp add: x)
  moreover have "map_of (map (\<lambda>(q, i). (f q, i)) xs) k = map_of xs a"
    by (rule Cons.IH) (use Cons.prems in simp)
  ultimately show ?case by (cases "k = f q"; cases "a = q") (auto simp: x)
qed simp

lemma node_at_move_target:
  assumes "\<not> below a b" "\<not> below b a"
  shows "node_at (move_node now a b d) (b @ z) = node_at d (a @ z)"
proof -
  let ?xs = "filter (\<lambda>n. \<not> below b (fst n)) (dk_nodes d)"
  have keys: "\<not> below b q" if "q \<in> fst ` set ?xs" for q using that by auto
  have "relocate a b q = b @ z \<longleftrightarrow> q = a @ z" if "q \<in> fst ` set ?xs" for q
    using keys [OF that] by (auto simp: relocate_def below_iff)
  then have "map_of (map (\<lambda>(q, i). (relocate a b q, i)) ?xs) (b @ z) = map_of ?xs (a @ z)"
    by (rule map_of_relocate)
  moreover have "\<not> below b (a @ z)"
    using assms by (auto simp: below_iff append_eq_append_conv2)
  moreover have "b \<noteq> []" "a \<noteq> []" using assms by auto
  ultimately show ?thesis by (simp add: node_at_def move_node_def map_of_filter_below)
qed

lemma node_at_move_other:
  assumes "\<not> below a q" "\<not> below b q"
  shows "node_at (move_node now a b d) q = node_at d q"
proof -
  let ?xs = "filter (\<lambda>n. \<not> below b (fst n)) (dk_nodes d)"
  have "relocate a b p = q \<longleftrightarrow> p = q" if "p \<in> fst ` set ?xs" for p
    using assms by (auto simp: relocate_def below_iff)
  then have "map_of (map (\<lambda>(p, i). (relocate a b p, i)) ?xs) q = map_of ?xs q"
    by (rule map_of_relocate)
  then show ?thesis using assms by (simp add: node_at_def move_node_def map_of_filter_below)
qed

lemma node_at_move_source:
  assumes "below a q" "\<not> below b q"
  shows "q = [] \<or> node_at (move_node now a b d) q = None"
proof -
  have neq: "relocate a b p \<noteq> q" for p
    using assms by (auto simp: relocate_def)
  have "map_of (map (\<lambda>(p, i). (relocate a b p, i)) xs) q = None" for xs :: "(string list \<times> inode) list"
    by (induction xs) (simp_all add: neq neq [symmetric] split_beta)
  then show ?thesis by (simp add: node_at_def move_node_def)
qed

lemma allowed_Inr: "allowed e call r = Inr q \<Longrightarrow> q = r"
  by (auto simp: allowed_def split: option.splits if_splits)

lemma allowed_Inl: "allowed e call r = Inl c \<Longrightarrow> c \<noteq> ''ENOENT'' \<and> c \<noteq> ''ENOTDIR''"
  by (auto simp: allowed_def split: option.splits if_splits)

text \<open>The location that a call changes.\<close>

lemma located_call:
  assumes "bind_err (bind_err (os_locate d p) (allowed e c)) f = Inr x"
  obtains r where "os_locate d p = Inr r" "f r = Inr x"
  using assms by (auto simp: bind_err_Inr_iff dest: allowed_Inr)

lemma os_mkdir_Inr: "os_mkdir e now p d = Inr d' \<Longrightarrow>
    \<exists>r. os_locate d p = Inr r \<and> node_at d r = None \<and> d' = put_node now r DirI d"
  unfolding os_mkdir_def by (erule located_call) (auto split: if_splits)

lemma os_write_new_Inr: "os_write_new e now p s d = Inr d' \<Longrightarrow>
    \<exists>r. os_locate d p = Inr r \<and> node_at d r = None \<and> d' = put_node now r (FileI s) d"
  unfolding os_write_new_def by (erule located_call) (auto split: if_splits)

lemma os_rmdir_Inr: "os_rmdir e now p d = Inr d' \<Longrightarrow>
    \<exists>r. os_locate d p = Inr r \<and> node_at d r = Some DirI \<and> entries_of d r = [] \<and> d' = drop_node now r d"
  unfolding os_rmdir_def by (erule located_call) (auto split: if_splits)

lemma os_rm_tree_Inr: "os_rm_tree e now p d = Inr d' \<Longrightarrow>
    \<exists>r. os_locate d p = Inr r \<and> node_at d r \<noteq> None \<and> d' = drop_node now r d"
  unfolding os_rm_tree_def by (erule located_call) (auto split: if_splits)

lemma os_unlink_Inr: "os_unlink e now p d = Inr d' \<Longrightarrow>
    \<exists>r i. os_locate d p = Inr r \<and> node_at d r = Some i \<and> i \<noteq> DirI \<and> d' = drop_node now r d"
  unfolding os_unlink_def by (erule located_call) (auto split: option.splits inode.splits)

lemma os_rename_Inr:
  assumes "os_rename e now p q d = Inr d'"
  shows "\<exists>a b. os_locate d p = Inr a \<and> os_locate d q = Inr b
      \<and> node_at d a \<noteq> None \<and> (a = b \<and> d' = d \<or> \<not> below a b \<and> d' = move_node now a b d
            \<and> (node_at d b = Some DirI \<longrightarrow> node_at d a = Some DirI \<and> entries_of d b = []))"
proof -
  from assms obtain a where a: "os_locate d p = Inr a"
    and rest: "bind_err (bind_err (os_locate d q) (allowed e ''rename'')) (\<lambda>b.
       case node_at d a of None \<Rightarrow> Inl ''ENOENT''
       | Some i \<Rightarrow>
           if a = b then Inr d
           else if below a b then Inl ''EINVAL''
           else case node_at d b of
               None \<Rightarrow> Inr (move_node now a b d)
             | Some DirI \<Rightarrow> if i \<noteq> DirI then Inl ''EISDIR''
                 else if entries_of d b = [] then Inr (move_node now a b d) else Inl ''ENOTEMPTY''
             | Some _ \<Rightarrow> if i = DirI then Inl ''ENOTDIR'' else Inr (move_node now a b d)) = Inr d'"
    unfolding os_rename_def by (rule located_call)
  from rest show ?thesis
    by (rule located_call) (use a in \<open>auto split: option.splits inode.splits if_splits\<close>)
qed

lemma os_locate_real:
  assumes "os_locate d p = Inr r"
  shows "real_dir d (butlast r)"
proof -
  define segs where "segs = norm_segs [] (split_slash p)"
  show ?thesis
  proof (cases "segs = []")
    case True
    then show ?thesis using assms by (simp add: os_locate_def segs_def)
  next
    case False
    then obtain q where "walk d MAX_LINKS [] (butlast segs) = Inr q" "node_at d q = Some DirI" "r = q @ [last segs]"
      using assms by (auto simp: os_locate_def bind_err_Inr_iff simp flip: segs_def split: if_splits)
    then show ?thesis using real_at_dir [OF walk_real [OF _ real_dir_Nil]] by simp
  qed
qed

lemma real_dir_above: "real_dir d (butlast r) \<Longrightarrow> below q r \<Longrightarrow> q \<noteq> r \<Longrightarrow> node_at d q = Some DirI"
  by (cases r rule: rev_cases) (auto simp: real_dir_def below_snoc)

text \<open>Where no link is on the way, a call acts on the path that it is given.\<close>

lemma os_locate_lexical:
  assumes "os_locate d (abs_str p) = Inr r" "plain_segs p" "\<forall>q t. node_at d q \<noteq> Some (LinkI t)"
  shows "r = p"
  using assms walk_links_free [of d MAX_LINKS "[]" "butlast p"] plain_segs_butlast [of p]
  by (auto simp: os_locate_abs bind_err_Inr_iff split: if_splits)

lemma walk_links_free_Inl:
  "walk d n cur cs = Inl x \<Longrightarrow> plain_segs cs \<Longrightarrow> (\<forall>q t. node_at d q \<noteq> Some (LinkI t)) \<Longrightarrow> x = ''ENOENT'' \<or> x = ''ENOTDIR''"
proof (induction d n cur cs rule: walk.induct)
  case (2 d n cur c cs)
  then have proper: "c \<noteq> []" "c \<noteq> ''.''" "c \<noteq> ''..''" by (auto simp: plain_seg_def)
  show ?case
  proof (cases "node_at d (cur @ [c])")
    case (Some i)
    then show ?thesis using 2(3) [of DirI] 2(5-7) proper by (cases i) (auto split: if_splits)
  qed (use 2(5) proper in auto)
qed simp

subsection \<open>Well-formed disks\<close>

text \<open>The parents of every entry are directories, and there is no link.\<close>

definition tree_ok :: "disk \<Rightarrow> bool" where
  "tree_ok d \<longleftrightarrow> (\<forall>q. node_at d q \<noteq> None \<longrightarrow> real_dir d (butlast q)) \<and> (\<forall>q t. node_at d q \<noteq> Some (LinkI t))"

lemma tree_ok_change:
  assumes "tree_ok d"
    and "\<And>q. node_at d' q \<noteq> node_at d q \<Longrightarrow>
      node_at d q \<noteq> Some DirI \<and> (node_at d' q = None \<or> (\<exists>s. node_at d' q = Some (FileI s)) \<and> real_dir d (butlast q))"
  shows "tree_ok d'"
  unfolding tree_ok_def
proof (intro conjI allI impI)
  have dirs: "real_dir d' p" if "real_dir d p" for p
    using that assms(2) by (metis real_dir_def)
  show "real_dir d' (butlast q)" if "node_at d' q \<noteq> None" for q
    using that dirs assms(1) assms(2) [of q] by (cases "node_at d' q = node_at d q") (auto simp: tree_ok_def)
  show "node_at d' q \<noteq> Some (LinkI t)" for q t
    using assms(1) assms(2) [of q] by (cases "node_at d' q = node_at d q") (auto simp: tree_ok_def)
qed

lemma tree_ok_walk:
  assumes "tree_ok d" "plain_segs p"
  shows "walk d n [] p = Inr r \<longleftrightarrow> r = p \<and> node_at d p \<noteq> None"
    and "walk d n [] p = Inl c \<Longrightarrow> c = ''ENOENT'' \<or> c = ''ENOTDIR''"
proof -
  have real: "real_at d p" if "node_at d p \<noteq> None"
    using that assms(1) by (auto simp: real_at_def tree_ok_def)
  have "r = p" if "walk d n [] p = Inr r" for r
    using walk_links_free [OF that assms(2)] assms(1) by (simp add: tree_ok_def)
  moreover have "node_at d r \<noteq> None" if "walk d n [] p = Inr r" for r
    using walk_real [OF that real_dir_Nil] by (auto simp: real_at_def)
  ultimately show "walk d n [] p = Inr r \<longleftrightarrow> r = p \<and> node_at d p \<noteq> None"
    using walk_to_real [of d "[]" p n] real assms(2) by auto
  show "c = ''ENOENT'' \<or> c = ''ENOTDIR''" if "walk d n [] p = Inl c"
    using walk_links_free_Inl [OF that assms(2)] assms(1) by (simp add: tree_ok_def)
qed

end
