(* ===== verification/FsOps.thy ===== *)
theory FsOps
  imports OsFs "HOL-Library.Sublist"
begin

text \<open>
  Files of a project as the UI reads and changes them: \<open>src/src/services/fs-operations.ts\<close> and
  \<open>src/src/services/fs-gitignore.ts\<close>.

  Every operation takes the root of the project and a relative path, and answers a value or an
  \<open>FsErrorCode\<close>; the messages are left out.  Reads are one step of the disk.  A write is what happens
  inside \<open>withFileLock\<close>: the calls for one key wait in a queue, and the one at its head takes its awaits
  one at a time (\<open>write_check\<close>, \<open>write_temp\<close>, \<open>write_rename\<close>), other calls in between.

  The third-party matcher of \<open>.gitignore\<close> files is a parameter: the texts added to it and a path give
  its answer, or it throws.
\<close>

datatype FsErrorCode =
  fs_no_path | fs_invalid_path | fs_path_outside_root | fs_not_found | fs_not_a_directory
| fs_permission_denied | fs_internal_error | fs_path_outside_project | fs_too_large | fs_binary
| fs_no_project_path | fs_io_error | fs_missing_path | fs_invalid_range | fs_sha_conflict
| fs_invalid_name | fs_already_exists | fs_not_empty

subsection \<open>The path jail\<close>

text \<open>\<open>p === root || p.startsWith(root + sep)\<close>\<close>

definition under_root :: "string \<Rightarrow> string \<Rightarrow> bool" where
  "under_root root p \<longleftrightarrow> p = root \<or> is_prefix_of (root @ ''/'') p"

definition resolveSafePath :: "host \<Rightarrow> string \<Rightarrow> string \<Rightarrow> FsErrorCode + (string \<times> string)" where
  "resolveSafePath h root relPath =
     (if root = [] then Inl fs_no_path
      else let raw = js_trim relPath; candidate = (if raw = [] then ''.'' else raw)
           in if isAbsolute candidate then Inl fs_invalid_path
              else if CHR 0x00 \<in> set candidate then Inl fs_invalid_path
              else let absoluteRoot = resolve h root; joined = resolve_in h root candidate
                   in if \<not> under_root absoluteRoot joined then Inl fs_path_outside_root
                      else let rel = join_slash (relative_segs (resolve_segs h root)
                                        (segs_from (resolve_segs h root) candidate))
                           in Inr (joined, if rel = [] then ''.'' else rel))"

definition mapFsError :: "string \<Rightarrow> FsErrorCode" where
  "mapFsError code =
     (if code = ''ENOENT'' then fs_not_found
      else if code = ''ENOTDIR'' then fs_not_a_directory
      else if code \<in> set [''EACCES'', ''EPERM''] then fs_permission_denied
      else if code \<in> set [''ENAMETOOLONG'', ''ELOOP'', ''EINVAL''] then fs_invalid_path
      else fs_internal_error)"

definition mapResolveError :: "FsErrorCode \<Rightarrow> FsErrorCode" where
  "mapResolveError code = (if code = fs_no_path then fs_no_project_path else fs_path_outside_project)"

abbreviation on_err :: "('e \<Rightarrow> 'f) \<Rightarrow> 'e + 'a \<Rightarrow> 'f + 'a" where
  "on_err f r \<equiv> map_sum f id r"

subsection \<open>The gitignore matcher\<close>

type_synonym ignore_lib = "string list \<Rightarrow> string \<Rightarrow> bool option"

type_synonym matcher_cache = "(string \<times> (string list \<times> int)) list"

definition ALWAYS_ON :: "string list" where
  "ALWAYS_ON = [''.git'', ''node_modules'']"

definition TTL_MS :: int where
  "TTL_MS = 1000"

definition CACHE_MAX :: nat where
  "CACHE_MAX = 256"

fun drop_expired :: "int \<Rightarrow> string list \<Rightarrow> matcher_cache \<Rightarrow> matcher_cache" where
  "drop_expired now [] c = c"
| "drop_expired now (k # ks) c =
     (let c' = (case map_of c k of Some (_, expiresAt) \<Rightarrow> if expiresAt \<le> now then AList.delete k c else c | None \<Rightarrow> c)
      in if length c' < CACHE_MAX then c' else drop_expired now ks c')"

definition evictMatchers :: "int \<Rightarrow> matcher_cache \<Rightarrow> matcher_cache" where
  "evictMatchers now c =
     (if length c < CACHE_MAX then c
      else let c' = drop_expired now (map fst c) c
           in if length c' < CACHE_MAX then c' else tl c')"

definition gitignore_rules :: "os \<Rightarrow> disk \<Rightarrow> string \<Rightarrow> string list" where
  "gitignore_rules e d projectRoot =
     ALWAYS_ON @ (case os_read e d (projectRoot @ ''/.gitignore'') of Inr t \<Rightarrow> [os_decode e t] | Inl _ \<Rightarrow> [])"

definition loadGitignoreMatcher :: "os \<Rightarrow> disk \<Rightarrow> int \<Rightarrow> string \<Rightarrow> matcher_cache \<Rightarrow> string list \<times> matcher_cache" where
  "loadGitignoreMatcher e d now projectRoot c =
     (let fresh = gitignore_rules e d projectRoot;
          built = (fresh, AList.update projectRoot (fresh, now + TTL_MS) (evictMatchers now c))
      in case map_of c projectRoot of
           Some (m, expiresAt) \<Rightarrow> if expiresAt > now then (m, c) else built
         | None \<Rightarrow> built)"

definition ignores :: "ignore_lib \<Rightarrow> string list \<Rightarrow> string \<Rightarrow> bool" where
  "ignores ig m relPath =
     (let cleaned = dropWhile (\<lambda>c. c = CHR ''/'') relPath
      in if cleaned = [] \<or> cleaned = ''.'' then False
         else case ig m cleaned of Some b \<Rightarrow> b | None \<Rightarrow> False)"

subsection \<open>Listing a directory\<close>

text \<open>\<open>Array.prototype.sort\<close> is stable.\<close>

fun js_insert :: "('a \<Rightarrow> 'a \<Rightarrow> int) \<Rightarrow> 'a \<Rightarrow> 'a list \<Rightarrow> 'a list" where
  "js_insert cmp x [] = [x]"
| "js_insert cmp x (y # ys) = (if cmp x y \<le> 0 then x # y # ys else y # js_insert cmp x ys)"

definition js_sort :: "('a \<Rightarrow> 'a \<Rightarrow> int) \<Rightarrow> 'a list \<Rightarrow> 'a list" where
  "js_sort cmp xs = foldr (js_insert cmp) xs []"

definition dirent_order :: "os \<Rightarrow> string \<times> inode \<Rightarrow> string \<times> inode \<Rightarrow> int" where
  "dirent_order e a b =
     (let ad = (snd a = DirI); bd = (snd b = DirI)
      in if ad \<noteq> bd then (if ad then - 1 else 1) else os_collate e (fst a) (fst b))"

datatype entry_kind = EFile | EDir

record FsEntry =
  fe_name :: string
  fe_type :: entry_kind
  fe_size :: "nat option"
  fe_mtime :: "int option"
  fe_hasChildren :: "bool option"
  fe_ignored :: bool

definition LIST_ENTRY_CAP :: nat where
  "LIST_ENTRY_CAP = 5000"

definition probeHasChildren :: "os \<Rightarrow> disk \<Rightarrow> string \<Rightarrow> bool" where
  "probeHasChildren e d absolute =
     (case os_readdir e d absolute of Inl _ \<Rightarrow> False | Inr ds \<Rightarrow> ds \<noteq> [])"

definition list_entry :: "os \<Rightarrow> ignore_lib \<Rightarrow> string list \<Rightarrow> disk \<Rightarrow> string \<Rightarrow> string \<Rightarrow> string \<times> inode \<Rightarrow> FsEntry" where
  "list_entry e ig m d absolute rel dent =
     (let entryAbs = absolute @ (if absolute = ''/'' then [] else ''/'') @ fst dent;
          entryRel = (if rel = ''.'' then fst dent else rel @ ''/'' @ fst dent);
          st = os_stat e d entryAbs;
          isDir = (case st of Inr (_, i) \<Rightarrow> i = DirI | Inl _ \<Rightarrow> snd dent = DirI)
      in \<lparr>fe_name = fst dent,
          fe_type = (if isDir then EDir else EFile),
          fe_size = (case st of Inr (_, FileI s) \<Rightarrow> Some (length s) | _ \<Rightarrow> None),
          fe_mtime = (case st of Inr (r, _) \<Rightarrow> Some (mtime_at d r) | Inl _ \<Rightarrow> None),
          fe_hasChildren = (if isDir then Some (probeHasChildren e d entryAbs) else None),
          fe_ignored = ignores ig m (if isDir then entryRel @ ''/'' else entryRel)\<rparr>)"

definition listProjectDir ::
  "host \<Rightarrow> os \<Rightarrow> ignore_lib \<Rightarrow> disk \<Rightarrow> int \<Rightarrow> string \<Rightarrow> string \<Rightarrow> matcher_cache
     \<Rightarrow> (FsErrorCode + (string \<times> FsEntry list \<times> bool)) \<times> matcher_cache" where
  "listProjectDir h e ig d now projectRoot relPath mc =
     (case resolveSafePath h projectRoot relPath of
        Inl c \<Rightarrow> (Inl c, mc)
      | Inr (absolute, rel) \<Rightarrow>
        (case os_stat e d absolute of
           Inl c \<Rightarrow> (Inl (mapFsError c), mc)
         | Inr (_, i) \<Rightarrow>
           if i \<noteq> DirI then (Inl fs_not_a_directory, mc)
           else case os_readdir e d absolute of
               Inl c \<Rightarrow> (Inl (mapFsError c), mc)
             | Inr dirents \<Rightarrow>
               (let (m, mc') = loadGitignoreMatcher e d now (resolve h projectRoot) mc;
                    sorted = js_sort (dirent_order e) dirents;
                    truncated = length sorted > LIST_ENTRY_CAP;
                    slice = (if truncated then take LIST_ENTRY_CAP sorted else sorted)
                in (Inr (rel, map (list_entry e ig m d absolute rel) slice, truncated), mc'))))"

subsection \<open>Reading a file\<close>

definition MAX_READ_BYTES :: nat where
  "MAX_READ_BYTES = 2 * 1024 * 1024"

definition BINARY_SNIFF_BYTES :: nat where
  "BINARY_SNIFF_BYTES = 4096"

definition REAL_ROOT_CACHE_MAX :: nat where
  "REAL_ROOT_CACHE_MAX = 256"

type_synonym root_cache = "(string \<times> string) list"

definition getRealRoot :: "host \<Rightarrow> os \<Rightarrow> disk \<Rightarrow> string \<Rightarrow> root_cache \<Rightarrow> string option \<times> root_cache" where
  "getRealRoot h e d projectRoot c =
     (case map_of c projectRoot of
        Some cached \<Rightarrow> (Some cached, AList.update projectRoot cached (AList.delete projectRoot c))
      | None \<Rightarrow>
          (case os_realpath e d (resolve h projectRoot) of
             Inl _ \<Rightarrow> (None, c)
           | Inr r \<Rightarrow> (Some (abs_str r), put_capped REAL_ROOT_CACHE_MAX projectRoot (abs_str r) c)))"

text \<open>\<open>path.dirname\<close> and \<open>path.basename\<close> of an absolute path, on its segments.\<close>

function deepRealpath :: "os \<Rightarrow> disk \<Rightarrow> string list \<Rightarrow> string + string list" where
  "deepRealpath e d p =
     (case os_realpath e d (abs_str p) of
        Inr r \<Rightarrow> Inr r
      | Inl code \<Rightarrow>
          if code \<noteq> ''ENOENT'' \<and> code \<noteq> ''ENOTDIR'' then Inl code
          else if p = [] then Inl code
          else bind_err (deepRealpath e d (butlast p)) (\<lambda>r. Inr (r @ [last p])))"
  by auto
termination by (relation "measure (\<lambda>(e, d, p). length p)") auto

text \<open>\<open>decodeURIComponent\<close>: percent escapes become bytes, and the bytes must be UTF-8.\<close>

definition hex_val :: "char \<Rightarrow> nat option" where
  "hex_val c = map_of (zip ''0123456789abcdefABCDEF'' ([0..<16] @ [10..<16])) c"

fun percent_decode :: "string \<Rightarrow> string option" where
  "percent_decode [] = Some []"
| "percent_decode (c # cs) =
     (if c \<noteq> CHR ''%'' then map_option (\<lambda>r. c # r) (percent_decode cs)
      else case cs of
          a # b # rest \<Rightarrow>
            (case (hex_val a, hex_val b) of
               (Some x, Some y) \<Rightarrow> map_option (\<lambda>r. char_of (16 * x + y) # r) (percent_decode rest)
             | _ \<Rightarrow> None)
        | _ \<Rightarrow> None)"

definition continues :: "nat \<Rightarrow> nat \<Rightarrow> string \<Rightarrow> bool" where
  "continues lo hi s \<longleftrightarrow> (case s of [] \<Rightarrow> False | c # _ \<Rightarrow> lo \<le> of_char c \<and> of_char c \<le> hi)"

fun utf8_ok :: "string \<Rightarrow> bool" where
  "utf8_ok [] = True"
| "utf8_ok (c # s) =
     (let n = of_char c :: nat; more = (\<lambda>k. k \<le> length s \<and> list_all (\<lambda>x. continues 128 191 [x]) (take k s))
      in if n < 128 then utf8_ok s
         else if 194 \<le> n \<and> n \<le> 223 then more 1 \<and> utf8_ok (drop 1 s)
         else if 224 \<le> n \<and> n \<le> 239 then more 2 \<and> (n = 224 \<longrightarrow> continues 160 191 s)
             \<and> (n = 237 \<longrightarrow> continues 128 159 s) \<and> utf8_ok (drop 2 s)
         else if 240 \<le> n \<and> n \<le> 244 then more 3 \<and> (n = 240 \<longrightarrow> continues 144 191 s)
             \<and> (n = 244 \<longrightarrow> continues 128 143 s) \<and> utf8_ok (drop 3 s)
         else False)"

definition decodeURIComponent :: "string \<Rightarrow> string option" where
  "decodeURIComponent s =
     (case percent_decode s of None \<Rightarrow> None | Some t \<Rightarrow> if utf8_ok t then Some t else None)"

definition read_error :: "string \<Rightarrow> FsErrorCode" where
  "read_error code = (if code \<in> set [''ENOENT'', ''ENOTDIR''] then fs_not_found else fs_io_error)"

text \<open>What \<open>readProjectFile\<close> and \<open>resolveReadablePath\<close> do before the file is opened: a real location and the
  entry there.  A read is modelled as one look at the disk: its awaits (\<open>realpath\<close>, \<open>stat\<close>, \<open>readFile\<close>) see the
  same tree, so what follows is about reads that no change of the tree overlaps.\<close>

definition resolveReadablePath ::
  "host \<Rightarrow> os \<Rightarrow> disk \<Rightarrow> string \<Rightarrow> string option \<Rightarrow> root_cache
     \<Rightarrow> (FsErrorCode + (string \<times> string list \<times> inode)) \<times> root_cache" where
  "resolveReadablePath h e d projectRoot relPath c =
     (if projectRoot = [] then (Inl fs_no_project_path, c)
      else case truthy_str relPath of None \<Rightarrow> (Inl fs_missing_path, c)
      | Some rp \<Rightarrow>
        (case decodeURIComponent rp of None \<Rightarrow> (Inl fs_path_outside_project, c)
         | Some decoded \<Rightarrow>
           (case resolveSafePath h projectRoot decoded of
              Inl code \<Rightarrow> (Inl (mapResolveError code), c)
            | Inr (absolute, _) \<Rightarrow>
              (case getRealRoot h e d projectRoot c of
                 (None, c') \<Rightarrow> (Inl fs_no_project_path, c')
               | (Some realRoot, c') \<Rightarrow>
                 (case deepRealpath e d (norm_segs [] (split_slash absolute)) of
                    Inl _ \<Rightarrow> (Inl fs_io_error, c')
                  | Inr r \<Rightarrow>
                    (let canonical = abs_str r
                     in if \<not> under_root realRoot canonical then (Inl fs_path_outside_project, c')
                        else case os_stat e d canonical of
                            Inl code \<Rightarrow> (Inl (read_error code), c')
                          | Inr (at_r, DirI) \<Rightarrow> (Inl fs_not_found, c')
                          | Inr (at_r, i) \<Rightarrow> (Inr (canonical, at_r, i), c')))))))"

record file_read =
  fr_content :: string
  fr_sha :: string
  fr_mtime :: int
  fr_size :: nat

definition looks_binary :: "string \<Rightarrow> bool" where
  "looks_binary buf \<longleftrightarrow> CHR 0x00 \<in> set (take BINARY_SNIFF_BYTES buf)"

definition file_size :: "inode \<Rightarrow> nat" where
  "file_size i = (case i of FileI s \<Rightarrow> length s | LinkI t \<Rightarrow> length t | DirI \<Rightarrow> 0)"

definition readProjectFile ::
  "host \<Rightarrow> os \<Rightarrow> disk \<Rightarrow> string \<Rightarrow> string option \<Rightarrow> root_cache \<Rightarrow> (FsErrorCode + file_read) \<times> root_cache" where
  "readProjectFile h e d projectRoot relPath c =
     (case resolveReadablePath h e d projectRoot relPath c of
        (Inl code, c') \<Rightarrow> (Inl code, c')
      | (Inr (canonical, at_r, i), c') \<Rightarrow>
          (if file_size i > MAX_READ_BYTES then (Inl fs_too_large, c')
           else case os_read e d canonical of
               Inl code \<Rightarrow> (Inl (read_error code), c')
             | Inr buf \<Rightarrow>
                 if looks_binary buf then (Inl fs_binary, c')
                 else (Inr \<lparr>fr_content = os_decode e buf, fr_sha = os_sha256 e buf,
                            fr_mtime = mtime_at d at_r, fr_size = file_size i\<rparr>, c')))"

subsection \<open>Reading a part of a file\<close>

definition RANGE_SLICE_CAP :: nat where
  "RANGE_SLICE_CAP = 1024 * 1024"

record range_read =
  rr_content :: string
  rr_sha :: string
  rr_mtime :: int
  rr_totalSize :: nat
  rr_offset :: nat
  rr_length :: nat

text \<open>The numbers of the query are integers here; a fraction is refused like a negative number.\<close>

definition bad_range :: "int \<Rightarrow> int option \<Rightarrow> bool" where
  "bad_range off len \<longleftrightarrow> off < 0 \<or> (case len of None \<Rightarrow> False | Some l \<Rightarrow> l \<le> 0 \<or> l > int RANGE_SLICE_CAP)"

definition readProjectFileRange ::
  "host \<Rightarrow> os \<Rightarrow> disk \<Rightarrow> string \<Rightarrow> string option \<Rightarrow> int \<Rightarrow> int option \<Rightarrow> root_cache
     \<Rightarrow> (FsErrorCode + range_read) \<times> root_cache" where
  "readProjectFileRange h e d projectRoot relPath off requestedLength c =
     (if bad_range off requestedLength then (Inl fs_invalid_range, c)
      else case resolveReadablePath h e d projectRoot relPath c of
        (Inl code, c') \<Rightarrow> (Inl code, c')
      | (Inr (canonical, at_r, i), c') \<Rightarrow>
          (let totalSize = file_size i
           in if off > int totalSize then (Inl fs_invalid_range, c')
              else let remaining = totalSize - nat off;
                       desired = (case requestedLength of Some l \<Rightarrow> nat l | None \<Rightarrow> RANGE_SLICE_CAP);
                       effectiveLength = min desired (min remaining RANGE_SLICE_CAP)
                   in case os_read e d canonical of
                       Inl code \<Rightarrow> (Inl (read_error code), c')
                     | Inr buf \<Rightarrow>
                         (let slice = take effectiveLength (drop (nat off) buf)
                          in if looks_binary slice then (Inl fs_binary, c')
                             else (Inr \<lparr>rr_content = os_decode e slice, rr_sha = os_sha256 e buf,
                                  rr_mtime = mtime_at d at_r, rr_totalSize = totalSize,
                                  rr_offset = nat off, rr_length = length slice\<rparr>, c'))))"

subsection \<open>Changing the tree\<close>

definition MAX_CREATE_BYTES :: nat where
  "MAX_CREATE_BYTES = MAX_READ_BYTES"

definition isProtectedRelative :: "string \<Rightarrow> bool" where
  "isProtectedRelative rel \<longleftrightarrow>
     (if rel = ''.'' \<or> rel = [] then False
      else let norm = map (\<lambda>c. if c = CHR 0x5C then CHR ''/'' else c) rel
           in norm = ''.git'' \<or> is_prefix_of ''.git/'' norm \<or> norm = ''node_modules'')"

definition rejectRootOrProtected :: "string \<Rightarrow> FsErrorCode option" where
  "rejectRootOrProtected safeRelative =
     (if safeRelative = ''.'' then Some fs_invalid_name
      else if isProtectedRelative safeRelative then Some fs_invalid_name else None)"

definition mapMutateError :: "string \<Rightarrow> FsErrorCode" where
  "mapMutateError code =
     (if code = ''ENOENT'' then fs_not_found
      else if code = ''EEXIST'' then fs_already_exists
      else if code = ''ENOTEMPTY'' then fs_not_empty
      else if code \<in> set [''ENOTDIR'', ''EISDIR''] then fs_not_a_directory
      else if code \<in> set [''EACCES'', ''EPERM''] then fs_permission_denied
      else if code \<in> set [''ENAMETOOLONG'', ''ELOOP'', ''EINVAL''] then fs_invalid_path
      else fs_internal_error)"

text \<open>The path jail and the protected names, in front of every change.\<close>

definition safe_target :: "host \<Rightarrow> string \<Rightarrow> string \<Rightarrow> FsErrorCode + string" where
  "safe_target h root relPath =
     bind_err (resolveSafePath h root relPath) (\<lambda>(absolute, rel).
       case rejectRootOrProtected rel of Some c \<Rightarrow> Inl c | None \<Rightarrow> Inr absolute)"

definition mkdirInRoot :: "host \<Rightarrow> os \<Rightarrow> int \<Rightarrow> string \<Rightarrow> string \<Rightarrow> disk \<Rightarrow> FsErrorCode + disk" where
  "mkdirInRoot h e now root relPath d =
     (if root = [] then Inl fs_no_path
      else bind_err (safe_target h root relPath) (\<lambda>absolute. on_err mapMutateError (os_mkdir e now absolute d)))"

definition createFileInRoot ::
  "host \<Rightarrow> os \<Rightarrow> int \<Rightarrow> string \<Rightarrow> string \<Rightarrow> string option \<Rightarrow> disk \<Rightarrow> FsErrorCode + disk" where
  "createFileInRoot h e now root relPath content d =
     (if root = [] then Inl fs_no_path
      else let body = (case content of None \<Rightarrow> [] | Some s \<Rightarrow> s)
           in if length body > MAX_CREATE_BYTES then Inl fs_too_large
              else bind_err (safe_target h root relPath) (\<lambda>absolute.
                     on_err mapMutateError (os_write_new e now absolute body d)))"

text \<open>Every await finds the disk as the others have left it: \<open>d0\<close> and \<open>d1\<close> are the disks that the checks of an
  operation see, \<open>d\<close> is the one that its last call changes.\<close>

definition renameInRoot ::
  "host \<Rightarrow> os \<Rightarrow> int \<Rightarrow> string \<Rightarrow> string \<Rightarrow> string \<Rightarrow> disk \<Rightarrow> disk \<Rightarrow> FsErrorCode + disk" where
  "renameInRoot h e now root fromRel toRel d0 d =
     (if root = [] then Inl fs_no_path
      else bind_err (resolveSafePath h root fromRel) (\<lambda>(fromAbs, fromR).
           bind_err (resolveSafePath h root toRel) (\<lambda>(toAbs, toR).
             case rejectRootOrProtected fromR of Some c \<Rightarrow> Inl c
             | None \<Rightarrow>
               (case rejectRootOrProtected toR of Some c \<Rightarrow> Inl c
                | None \<Rightarrow>
                  (case os_lstat e d0 toAbs of
                     Inr _ \<Rightarrow> Inl fs_already_exists
                   | Inl code \<Rightarrow>
                       if code \<noteq> ''ENOENT'' then Inl (mapMutateError code)
                       else on_err mapMutateError (os_rename e now fromAbs toAbs d))))))"

text \<open>\<open>fs.rm\<close> without \<open>recursive\<close> has a code of its own for a directory.\<close>

definition rm_error :: "string \<Rightarrow> FsErrorCode" where
  "rm_error code = mapMutateError (if code = ''EISDIR'' then ''ERR_FS_EISDIR'' else code)"

definition deleteInRoot ::
  "host \<Rightarrow> os \<Rightarrow> int \<Rightarrow> string \<Rightarrow> string \<Rightarrow> bool \<Rightarrow> disk \<Rightarrow> disk \<Rightarrow> disk \<Rightarrow> FsErrorCode + disk" where
  "deleteInRoot h e now root relPath recursive d0 d1 d =
     (if root = [] then Inl fs_no_path
      else bind_err (safe_target h root relPath) (\<lambda>absolute.
        case os_lstat e d0 absolute of
          Inl code \<Rightarrow> Inl (mapMutateError code)
        | Inr (r, i) \<Rightarrow>
            if i = DirI then
              (if recursive then on_err mapMutateError (os_rm_tree e now absolute d)
               else case os_readdir e d1 absolute of
                   Inl code \<Rightarrow> Inl (mapMutateError code)
                 | Inr entries \<Rightarrow>
                     if entries \<noteq> [] then Inl fs_not_empty else on_err mapMutateError (os_rmdir e now absolute d))
            else on_err rm_error (os_unlink e now absolute d)))"

subsection \<open>The index of all files\<close>

definition INDEX_PATH_CAP :: nat where
  "INDEX_PATH_CAP = 50000"

definition INDEX_TTL_MS :: int where
  "INDEX_TTL_MS = 30000"

definition INDEX_CACHE_MAX :: nat where
  "INDEX_CACHE_MAX = 64"

record IndexCacheEntry =
  ic_paths :: "string list"
  ic_truncated :: bool
  ic_expiresAt :: int
  ic_rootMtimeMs :: int

text \<open>One directory of the walk: its subdirectories are pushed, its files are collected.  A link is neither.\<close>

fun scan_dir ::
  "(string \<Rightarrow> bool) \<Rightarrow> string list \<Rightarrow> (string \<times> inode) list \<Rightarrow> string list list \<Rightarrow> string list
     \<Rightarrow> string list list \<times> string list \<times> bool" where
  "scan_dir ign rel [] stack paths = (stack, paths, False)"
| "scan_dir ign rel ((name, i) # ds) stack paths =
     (if length paths \<ge> INDEX_PATH_CAP then (stack, paths, True)
      else let erel = rel @ [name]
           in case i of
               DirI \<Rightarrow> if ign (join_slash erel @ ''/'') then scan_dir ign rel ds stack paths
                        else scan_dir ign rel ds (erel # stack) paths
             | FileI _ \<Rightarrow> if ign (join_slash erel) then scan_dir ign rel ds stack paths
                          else scan_dir ign rel ds stack (paths @ [join_slash erel])
             | LinkI _ \<Rightarrow> scan_dir ign rel ds stack paths)"

definition dirents_at :: "os \<Rightarrow> disk \<Rightarrow> string list \<Rightarrow> (string \<times> inode) list" where
  "dirents_at e d r = (case os_readdir_at e d r of Inl _ \<Rightarrow> [] | Inr ds \<Rightarrow> js_sort (dirent_order e) ds)"

text \<open>Termination: the walk visits a directory of the disk at most once, because what it pushes lies below
  what it pops.\<close>

lemma mset_js_sort [simp]: "mset (js_sort cmp xs) = mset xs"
proof -
  have "mset (js_insert cmp x ys) = add_mset x (mset ys)" for x :: 'a and ys
    by (induction ys) auto
  then show ?thesis by (induction xs) (simp_all add: js_sort_def)
qed

lemma set_js_sort [simp]: "set (js_sort cmp xs) = set xs"
  by (metis mset_js_sort set_mset_mset)

lemma distinct_js_sort: "distinct (map f (js_sort cmp xs)) \<longleftrightarrow> distinct (map f xs)"
  by (metis mset_js_sort mset_map mset_eq_imp_distinct_iff)

definition inner :: "disk \<Rightarrow> string list \<Rightarrow> string list set" where
  "inner d r = {q \<in> fst ` set (dk_nodes d). r \<noteq> q \<and> below r q}"

lemma finite_inner [simp]: "finite (inner d r)"
  by (simp add: inner_def)

lemma entries_names:
  "distinct (map fst (entries_of d r))"
  "n \<in> fst ` set (entries_of d r) \<longleftrightarrow> r @ [n] \<in> fst ` set (dk_nodes d)"
proof -
  let ?q = "filter (\<lambda>q. q \<noteq> [] \<and> butlast q = r) (remdups (map fst (dk_nodes d)))"
  have inj: "inj_on last (set ?q)"
    by (rule inj_onI) (auto, metis append_butlast_last_id)
  have eq: "map fst (entries_of d r) = map last ?q"
    by (simp add: entries_of_def o_def)
  show "distinct (map fst (entries_of d r))"
    unfolding eq using inj by (simp add: distinct_map)
  have "fst ` set (entries_of d r) = last ` set ?q"
    using arg_cong [OF eq, of set] by simp
  then have "n \<in> fst ` set (entries_of d r) \<longleftrightarrow>
      (\<exists>q. q \<in> fst ` set (dk_nodes d) \<and> q \<noteq> [] \<and> butlast q = r \<and> last q = n)"
    by (auto simp: image_iff)
  also have "\<dots> \<longleftrightarrow> r @ [n] \<in> fst ` set (dk_nodes d)"
    by (metis append_butlast_last_id butlast_snoc last_snoc snoc_eq_iff_butlast)
  finally show "n \<in> fst ` set (entries_of d r) \<longleftrightarrow> r @ [n] \<in> fst ` set (dk_nodes d)" .
qed

lemma dirents_cases: "dirents_at e d r = [] \<or> dirents_at e d r = js_sort (dirent_order e) (entries_of d r)"
  by (auto simp: dirents_at_def os_readdir_at_def allowed_def split: sum.splits option.splits if_splits)

lemma dirents_names:
  "distinct (map fst (dirents_at e d r))"
  "n \<in> fst ` set (dirents_at e d r) \<Longrightarrow> r @ [n] \<in> fst ` set (dk_nodes d)"
  using dirents_cases [of e d r] entries_names(1) [of d r] entries_names(2) [of n d r]
  by (auto simp: distinct_js_sort simp del: map_map)

lemma inner_children:
  assumes "distinct ns" and "\<And>n. n \<in> set ns \<Longrightarrow> r @ [n] \<in> fst ` set (dk_nodes d)"
  shows "sum_list (map (\<lambda>n. Suc (card (inner d (r @ [n])))) ns) \<le> card (inner d r)"
proof -
  let ?S = "\<lambda>n. insert (r @ [n]) (inner d (r @ [n]))"
  have disj: "?S m \<inter> ?S n = {}" if "m \<noteq> n" for m n
    using that by (auto simp: inner_def below_def is_prefix_of_iff)
  have "sum_list (map (\<lambda>n. Suc (card (inner d (r @ [n])))) ns) = (\<Sum>n\<in>set ns. card (?S n))"
    using assms(1) by (subst sum_list_distinct_conv_sum_set) (auto simp: inner_def intro!: sum.cong card_insert_disjoint [symmetric])
  also have "\<dots> = card (\<Union>n\<in>set ns. ?S n)"
    using disj by (subst card_UN_disjoint) auto
  also have "\<dots> \<le> card (inner d r)"
    using assms(2) by (intro card_mono) (auto simp: inner_def below_def is_prefix_of_iff)
  finally show ?thesis .
qed

lemma scan_dir_stack:
  "\<exists>cs. fst (scan_dir ign rel ds stack paths) = rev (map (\<lambda>n. rel @ [n]) cs) @ stack \<and> subseq cs (map fst ds)"
proof (induction ign rel ds stack paths rule: scan_dir.induct)
  case (2 ign rel name i ds stack paths)
  have skip: "subseq cs (name # map fst ds)" if "subseq cs (map fst ds)" for cs
    using that by (rule list_emb_Cons)
  show ?case
  proof (cases "length paths \<ge> INDEX_PATH_CAP")
    case False
    show ?thesis
    proof (cases i)
      case (FileI s)
      then show ?thesis using 2 False skip by (fastforce simp: Let_def)
    next
      case DirI
      show ?thesis
      proof (cases "ign (join_slash (rel @ [name]) @ ''/'')")
        case True
        then show ?thesis using 2 False DirI skip by (fastforce simp: Let_def)
      next
        case push: False
        obtain cs where cs: "fst (scan_dir ign rel ds ((rel @ [name]) # stack) paths)
            = rev (map (\<lambda>n. rel @ [n]) cs) @ (rel @ [name]) # stack" "subseq cs (map fst ds)"
          using 2 False DirI push by (auto simp: Let_def)
        then show ?thesis
          using False DirI push by (auto simp: Let_def intro!: exI [of _ "name # cs"])
      qed
    next
      case (LinkI t)
      then show ?thesis using 2 False skip by (fastforce simp: Let_def)
    qed
  qed (auto intro: exI [of _ "[]"])
qed (auto intro: exI [of _ "[]"])

lemma subseq_distinct: "subseq xs ys \<Longrightarrow> distinct ys \<Longrightarrow> distinct xs"
  by (induction rule: list_emb.induct) (auto dest: list_emb_set)

lemma scan_dir_measure:
  fixes R :: "string list"
  shows "(\<Sum>r\<leftarrow>fst (scan_dir ign rel (dirents_at e d (R @ rel)) stack paths). Suc (card (inner d (R @ r))))
    \<le> card (inner d (R @ rel)) + (\<Sum>r\<leftarrow>stack. Suc (card (inner d (R @ r))))"
proof -
  let ?ds = "dirents_at e d (R @ rel)"
  obtain cs where cs: "fst (scan_dir ign rel ?ds stack paths) = rev (map (\<lambda>n. rel @ [n]) cs) @ stack"
    "subseq cs (map fst ?ds)"
    using scan_dir_stack by blast
  have "distinct cs" using cs(2) dirents_names(1) by (rule subseq_distinct)
  moreover have "(R @ rel) @ [n] \<in> fst ` set (dk_nodes d)" if "n \<in> set cs" for n
  proof -
    have "n \<in> set (map fst ?ds)" using that cs(2) by (blast dest: list_emb_set)
    then show ?thesis using dirents_names(2) [of n e d "R @ rel"] by simp
  qed
  ultimately have "(\<Sum>n\<leftarrow>cs. Suc (card (inner d ((R @ rel) @ [n])))) \<le> card (inner d (R @ rel))"
    by (rule inner_children)
  then show ?thesis by (simp add: cs(1) o_def rev_map [symmetric] sum_list_rev)
qed

text \<open>The head of the list is the top of the stack.  A directory that cannot be read has no entries; once a
  directory is stopped off, \<open>truncated\<close> stays set and the cap is met at the next round.\<close>

function index_walk ::
  "os \<Rightarrow> disk \<Rightarrow> (string \<Rightarrow> bool) \<Rightarrow> string list \<Rightarrow> string list list \<Rightarrow> string list \<Rightarrow> bool \<Rightarrow> string list \<times> bool" where
  "index_walk e d ign R [] paths truncated = (paths, truncated)"
| "index_walk e d ign R (rel # stack) paths truncated =
     (if length paths \<ge> INDEX_PATH_CAP then (paths, True)
      else case scan_dir ign rel (dirents_at e d (R @ rel)) stack paths of
          (stack', paths', stopped) \<Rightarrow> index_walk e d ign R stack' paths' (truncated \<or> stopped))"
  by pat_completeness auto
termination
proof (relation "measure (\<lambda>(e, d, ign, R, stack, paths, t). \<Sum>r\<leftarrow>stack. Suc (card (inner d (R @ r))))", goal_cases)
  case (2 e d ign R rel stack paths truncated stack' y paths' stopped)
  then have "stack' = fst (scan_dir ign rel (dirents_at e d (R @ rel)) stack paths)"
    by (metis fst_conv)
  then show ?case using scan_dir_measure [of d R ign rel e stack paths] by simp
qed simp

definition indexProjectPaths ::
  "host \<Rightarrow> os \<Rightarrow> ignore_lib \<Rightarrow> disk \<Rightarrow> int \<Rightarrow> string \<Rightarrow> matcher_cache \<times> (string \<times> IndexCacheEntry) list
     \<Rightarrow> (FsErrorCode + (string list \<times> bool)) \<times> (matcher_cache \<times> (string \<times> IndexCacheEntry) list)" where
  "indexProjectPaths h e ig d now projectRoot c =
     (if projectRoot = [] then (Inl fs_no_path, c)
      else let absoluteRoot = resolve h projectRoot in
        case os_stat e d absoluteRoot of
          Inl code \<Rightarrow> (Inl (mapFsError code), c)
        | Inr (R, i) \<Rightarrow>
          if i \<noteq> DirI then (Inl fs_not_a_directory, c)
          else let rootMtimeMs = mtime_at d R;
                   built = (let (m, mc) = loadGitignoreMatcher e d now absoluteRoot (fst c);
                                (paths, truncated) = index_walk e d (ignores ig m) R [[]] [] False
                            in (Inr (paths, truncated), (mc, put_capped INDEX_CACHE_MAX absoluteRoot
                                  \<lparr>ic_paths = paths, ic_truncated = truncated, ic_expiresAt = now + INDEX_TTL_MS,
                                   ic_rootMtimeMs = rootMtimeMs\<rparr> (snd c))))
               in case map_of (snd c) absoluteRoot of
                   Some cached \<Rightarrow>
                     if ic_expiresAt cached > now \<and> ic_rootMtimeMs cached = rootMtimeMs
                     then (Inr (ic_paths cached, ic_truncated cached),
                           (fst c, AList.update absoluteRoot cached (AList.delete absoluteRoot (snd c))))
                     else built
                 | None \<Rightarrow> built)"

subsection \<open>Writing a file over a known version\<close>

record writer =
  wr_id :: nat
  wr_absolute :: string
  wr_content :: string
  wr_expected :: string
  wr_allowCreate :: bool

datatype wr_phase = Checking | Checked | TempWritten string

record write_receipt =
  wc_sha :: string
  wc_mtime :: int
  wc_size :: nat

text \<open>A failure carries \<open>currentSha\<close> on a conflict only.\<close>

type_synonym write_result = "(FsErrorCode \<times> string option) + write_receipt"

record fs_service =
  fv_disk :: disk
  fv_locks :: "(string \<times> (writer \<times> wr_phase) list) list"
  fv_replies :: "(nat \<times> write_result) list"

text \<open>The hash of a file, \<open>None\<close> when there is none; any other errno is thrown.\<close>

definition shaOfFileOrNull :: "os \<Rightarrow> disk \<Rightarrow> string \<Rightarrow> string + string option" where
  "shaOfFileOrNull e d absolute =
     (case os_read e d absolute of
        Inr s \<Rightarrow> Inr (Some (os_sha256 e s))
      | Inl code \<Rightarrow> if code \<in> set [''ENOENT'', ''ENOTDIR''] then Inr None else Inl code)"

definition write_check :: "os \<Rightarrow> disk \<Rightarrow> writer \<Rightarrow> (FsErrorCode \<times> string option) option" where
  "write_check e d w =
     (case shaOfFileOrNull e d (wr_absolute w) of
        Inl _ \<Rightarrow> Some (fs_io_error, None)
      | Inr None \<Rightarrow>
          if \<not> (wr_expected w = [] \<and> wr_allowCreate w) then Some (fs_sha_conflict, Some []) else None
      | Inr (Some currentSha) \<Rightarrow>
          if currentSha \<noteq> wr_expected w then Some (fs_sha_conflict, Some currentSha) else None)"

definition temp_path :: "writer \<Rightarrow> string \<Rightarrow> string" where
  "temp_path w uuid = wr_absolute w @ ''.flockctl-tmp-'' @ uuid"

definition dirname :: "string \<Rightarrow> string" where
  "dirname p = abs_str (butlast (norm_segs [] (split_slash p)))"

definition try_unlink :: "os \<Rightarrow> int \<Rightarrow> string \<Rightarrow> disk \<Rightarrow> disk" where
  "try_unlink e now p d = (case os_unlink e now p d of Inr d' \<Rightarrow> d' | Inl _ \<Rightarrow> d)"

text \<open>Two awaits that only look are part of the step beside them: the \<open>stat\<close> of the parent goes with the writing
  of the temporary file, the \<open>stat\<close> of the receipt with the rename.  What they see decides the reply, not the
  disk.\<close>

definition write_temp :: "os \<Rightarrow> int \<Rightarrow> string \<Rightarrow> writer \<Rightarrow> disk \<Rightarrow> (FsErrorCode option) \<times> disk" where
  "write_temp e now temp w d =
     (case os_stat e d (dirname (wr_absolute w)) of
        Inl code \<Rightarrow> (Some (read_error code), d)
      | Inr (_, i) \<Rightarrow>
          if i \<noteq> DirI then (Some fs_not_found, d)
          else case os_write e now temp (wr_content w) d of
              Inr d' \<Rightarrow> (None, d')
            | Inl code \<Rightarrow>
                (Some (if code \<in> set [''EACCES'', ''EPERM''] then fs_permission_denied else fs_io_error),
                 try_unlink e now temp d))"

definition write_rename :: "os \<Rightarrow> int \<Rightarrow> string \<Rightarrow> writer \<Rightarrow> disk \<Rightarrow> write_result \<times> disk" where
  "write_rename e now temp w d =
     (case os_rename e now temp (wr_absolute w) d of
        Inl _ \<Rightarrow> (Inl (fs_io_error, None), try_unlink e now temp d)
      | Inr d' \<Rightarrow>
          (case os_stat e d' (wr_absolute w) of
             Inl _ \<Rightarrow> (Inl (fs_io_error, None), d')
           | Inr (r, i) \<Rightarrow>
               (Inr \<lparr>wc_sha = os_sha256 e (wr_content w), wc_mtime = mtime_at d' r, wc_size = file_size i\<rparr>, d')))"

text \<open>\<open>withFileLock\<close>: the chain of promises of a key is a queue whose head runs.  The key is dropped with
  the last of them.\<close>

definition lock_append :: "string \<Rightarrow> writer \<Rightarrow> fs_service \<Rightarrow> fs_service" where
  "lock_append key w s =
     (let q = (case map_of (fv_locks s) key of None \<Rightarrow> [] | Some q \<Rightarrow> q)
      in s\<lparr>fv_locks := AList.update key (q @ [(w, Checking)]) (fv_locks s)\<rparr>)"

definition lock_head :: "string \<Rightarrow> writer \<times> wr_phase \<Rightarrow> fs_service \<Rightarrow> fs_service" where
  "lock_head key p s =
     s\<lparr>fv_locks := AList.update key (p # (case map_of (fv_locks s) key of None \<Rightarrow> [] | Some q \<Rightarrow> tl q)) (fv_locks s)\<rparr>"

definition lock_done :: "string \<Rightarrow> nat \<Rightarrow> write_result \<Rightarrow> fs_service \<Rightarrow> fs_service" where
  "lock_done key i r s =
     (let q = (case map_of (fv_locks s) key of None \<Rightarrow> [] | Some q \<Rightarrow> tl q)
      in s\<lparr>fv_locks := (if q = [] then AList.delete key (fv_locks s) else AList.update key q (fv_locks s)),
           fv_replies := fv_replies s @ [(i, r)]\<rparr>)"

definition writeProjectFile ::
  "host \<Rightarrow> nat \<Rightarrow> string \<Rightarrow> string option \<Rightarrow> string \<Rightarrow> string \<Rightarrow> bool \<Rightarrow> fs_service \<Rightarrow> fs_service" where
  "writeProjectFile h i projectRoot relPath content expectedSha allowCreate s =
     (let refuse = (\<lambda>c. s\<lparr>fv_replies := fv_replies s @ [(i, Inl (c, None))]\<rparr>)
      in if projectRoot = [] then refuse fs_no_project_path
         else case truthy_str relPath of None \<Rightarrow> refuse fs_missing_path
         | Some rp \<Rightarrow>
           (case resolveSafePath h projectRoot rp of
              Inl code \<Rightarrow> refuse (mapResolveError code)
            | Inr (absolute, rel) \<Rightarrow>
                if length content > MAX_READ_BYTES then refuse fs_too_large
                else lock_append (resolve h projectRoot @ ''::'' @ rel)
                  \<lparr>wr_id = i, wr_absolute = absolute, wr_content = content, wr_expected = expectedSha,
                   wr_allowCreate = allowCreate\<rparr> s))"

text \<open>The next await of the call that holds the lock of \<open>key\<close>.\<close>

definition write_step :: "os \<Rightarrow> string \<Rightarrow> string \<Rightarrow> int \<Rightarrow> fs_service \<Rightarrow> fs_service" where
  "write_step e key uuid now s =
     (case map_of (fv_locks s) key of
        Some ((w, ph) # q) \<Rightarrow>
          (case ph of
             Checking \<Rightarrow>
               (case write_check e (fv_disk s) w of
                  Some err \<Rightarrow> lock_done key (wr_id w) (Inl err) s
                | None \<Rightarrow> lock_head key (w, Checked) s)
           | Checked \<Rightarrow>
               (case write_temp e now (temp_path w uuid) w (fv_disk s) of
                  (Some err, d) \<Rightarrow> lock_done key (wr_id w) (Inl (err, None)) (s\<lparr>fv_disk := d\<rparr>)
                | (None, d) \<Rightarrow> lock_head key (w, TempWritten (temp_path w uuid)) (s\<lparr>fv_disk := d\<rparr>))
           | TempWritten temp \<Rightarrow>
               (case write_rename e now temp w (fv_disk s) of
                  (r, d) \<Rightarrow> lock_done key (wr_id w) r (s\<lparr>fv_disk := d\<rparr>)))
      | _ \<Rightarrow> s)"

end
