(* ===== verification/FsRoutes.thy ===== *)
theory FsRoutes
  imports FsOps
begin

text \<open>
  The HTTP side of the file operations: \<open>src/src/routes/fs-route-handlers.ts\<close>.

  A handler answers the status of a thrown error, 404 or 422, or a body; it appends the rows that it writes
  to \<open>fs_audit_log\<close>.  A write waits for its lock between \<open>write_begin\<close> and \<open>write_end\<close>.  The length caps of
  the schemas count characters, which on ASCII text are bytes.
\<close>

record fs_entity =
  en_id :: int
  en_path :: "string option"

text \<open>\<open>entityType\<close> and \<open>attribution\<close> of the factory.\<close>

record fs_scope =
  sc_entityType :: string
  sc_projectId :: "int option"
  sc_workspaceId :: "int option"

record audit_row =
  fa_entityType :: string
  fa_entityId :: int
  fa_projectId :: "int option"
  fa_workspaceId :: "int option"
  fa_action :: string
  fa_path :: string
  fa_ok :: bool
  fa_errorCode :: "FsErrorCode option"
  fa_ts :: int
  fa_shaBefore :: "string option"
  fa_shaAfter :: "string option"
  fa_bytes :: "nat option"

definition error_of :: "FsErrorCode + 'a \<Rightarrow> FsErrorCode option" where
  "error_of r = (case r of Inl c \<Rightarrow> Some c | Inr _ \<Rightarrow> None)"

definition writeFsAuditRow ::
  "fs_scope \<Rightarrow> fs_entity \<Rightarrow> string \<Rightarrow> string \<Rightarrow> FsErrorCode option \<Rightarrow> int
     \<Rightarrow> string option \<Rightarrow> string option \<Rightarrow> nat option \<Rightarrow> audit_row list \<Rightarrow> audit_row list" where
  "writeFsAuditRow sc en action path err ts shaBefore shaAfter bytes rows =
     rows @ [\<lparr>fa_entityType = sc_entityType sc, fa_entityId = en_id en, fa_projectId = sc_projectId sc,
       fa_workspaceId = sc_workspaceId sc, fa_action = action, fa_path = path, fa_ok = (err = None),
       fa_errorCode = err, fa_ts = ts, fa_shaBefore = shaBefore, fa_shaAfter = shaAfter, fa_bytes = bytes\<rparr>]"

subsection \<open>Changing the tree\<close>

datatype FsOp =
  OpMkdir string
| OpCreate string "string option"
| OpRename string string
| OpDelete string bool

definition FS_PATH :: "jval option \<Rightarrow> string option" where
  "FS_PATH v = (case v of Some (JStr s) \<Rightarrow> if 1 \<le> length s \<and> length s \<le> 500 then Some s else None | _ \<Rightarrow> None)"

text \<open>An optional field of a schema: it is missing, it has the type, or the body is refused.\<close>

definition bool_field :: "bool \<Rightarrow> jval option \<Rightarrow> bool option" where
  "bool_field dflt v = (case v of None \<Rightarrow> Some dflt | Some (JBool b) \<Rightarrow> Some b | _ \<Rightarrow> None)"

definition content_field :: "jval option \<Rightarrow> string option option" where
  "content_field v = (case v of None \<Rightarrow> Some None
     | Some (JStr s) \<Rightarrow> if length s \<le> MAX_CREATE_BYTES then Some (Some s) else None
     | _ \<Rightarrow> None)"

definition fsOpBodySchema :: "jval option \<Rightarrow> FsOp option" where
  "fsOpBodySchema raw =
     (case raw of
        Some (JObj o1) \<Rightarrow>
          (if map_of o1 ''op'' = Some (JStr ''mkdir'') then
             (if strict [''op'', ''path''] o1 then map_option OpMkdir (FS_PATH (map_of o1 ''path'')) else None)
           else if map_of o1 ''op'' = Some (JStr ''create'') then
             (if strict [''op'', ''path'', ''content''] o1 then
                (case (FS_PATH (map_of o1 ''path''), content_field (map_of o1 ''content'')) of
                   (Some p, Some c) \<Rightarrow> Some (OpCreate p c) | _ \<Rightarrow> None)
              else None)
           else if map_of o1 ''op'' = Some (JStr ''rename'') then
             (if strict [''op'', ''from'', ''to''] o1 then
                (case (FS_PATH (map_of o1 ''from''), FS_PATH (map_of o1 ''to'')) of
                   (Some p, Some q) \<Rightarrow> Some (OpRename p q) | _ \<Rightarrow> None)
              else None)
           else if map_of o1 ''op'' = Some (JStr ''delete'') then
             (if strict [''op'', ''path'', ''recursive''] o1 then
                (case (FS_PATH (map_of o1 ''path''), bool_field False (map_of o1 ''recursive'')) of
                   (Some p, Some b) \<Rightarrow> Some (OpDelete p b) | _ \<Rightarrow> None)
              else None)
           else None)
      | _ \<Rightarrow> None)"

fun fsOpAuditPath :: "FsOp \<Rightarrow> string" where
  "fsOpAuditPath (OpRename p q) = p @ '' -> '' @ q"
| "fsOpAuditPath (OpMkdir p) = p"
| "fsOpAuditPath (OpCreate p c) = p"
| "fsOpAuditPath (OpDelete p r) = p"

fun op_name :: "FsOp \<Rightarrow> string" where
  "op_name (OpMkdir p) = ''mkdir''"
| "op_name (OpCreate p c) = ''create''"
| "op_name (OpRename p q) = ''rename''"
| "op_name (OpDelete p r) = ''delete''"

text \<open>An operation, its checks on \<open>d0\<close> and \<open>d1\<close>, its change on \<open>d\<close>; and one that nothing overlaps.\<close>

fun run_op_at :: "host \<Rightarrow> os \<Rightarrow> int \<Rightarrow> string \<Rightarrow> FsOp \<Rightarrow> disk \<Rightarrow> disk \<Rightarrow> disk \<Rightarrow> FsErrorCode + disk" where
  "run_op_at h e now root (OpMkdir p) d0 d1 d = mkdirInRoot h e now root p d"
| "run_op_at h e now root (OpCreate p c) d0 d1 d = createFileInRoot h e now root p c d"
| "run_op_at h e now root (OpRename p q) d0 d1 d = renameInRoot h e now root p q d0 d"
| "run_op_at h e now root (OpDelete p r) d0 d1 d = deleteInRoot h e now root p r d0 d1 d"

definition run_op :: "host \<Rightarrow> os \<Rightarrow> int \<Rightarrow> string \<Rightarrow> FsOp \<Rightarrow> disk \<Rightarrow> FsErrorCode + disk" where
  "run_op h e now root body d = run_op_at h e now root body d d d"

definition op_route ::
  "host \<Rightarrow> os \<Rightarrow> fs_scope \<Rightarrow> (int \<Rightarrow> fs_entity option) \<Rightarrow> int \<Rightarrow> int \<Rightarrow> jval option \<Rightarrow> disk \<times> disk
     \<Rightarrow> disk \<times> audit_row list \<Rightarrow> (nat + FsErrorCode option) \<times> disk \<times> audit_row list" where
  "op_route h e sc getEntity i now raw seen st =
     (case getEntity i of None \<Rightarrow> (Inl 404, st)
      | Some en \<Rightarrow>
        (case fsOpBodySchema raw of None \<Rightarrow> (Inl 422, st)
         | Some body \<Rightarrow>
           (let audit = (\<lambda>err. writeFsAuditRow sc en (op_name body) (fsOpAuditPath body) err now None None None (snd st))
            in case truthy_str (en_path en) of
                None \<Rightarrow> (Inr (Some fs_no_project_path), fst st, audit (Some fs_no_project_path))
              | Some root \<Rightarrow>
                  (case run_op_at h e now root body (fst seen) (snd seen) (fst st) of
                     Inl c \<Rightarrow> (Inr (Some c), fst st, audit (Some c))
                   | Inr d \<Rightarrow> (Inr None, d, audit None)))))"

subsection \<open>Reading\<close>

text \<open>\<open>/^bytes=(\d+)-(\d*)$/i\<close>, with both ends included.\<close>

definition parseBytesRangeHeader :: "string \<Rightarrow> (nat \<times> nat option) option" where
  "parseBytesRangeHeader value =
     (let t = js_trim value
      in if map to_lower (take 6 t) \<noteq> ''bytes='' then None
         else case split_on (CHR ''-'') (drop 6 t) of
             [a, b] \<Rightarrow>
               if a = [] \<or> \<not> list_all is_digit a \<or> \<not> list_all is_digit b then None
               else if b = [] then Some (nat_of_str a, None)
               else if nat_of_str b < nat_of_str a then None
               else Some (nat_of_str a, Some (nat_of_str b - nat_of_str a + 1))
           | _ \<Rightarrow> None)"

datatype read_body = WholeFile file_read | PartOfFile range_read

text \<open>The body, the status of a reply that has one, and the cache of canonical roots.\<close>

definition read_route ::
  "host \<Rightarrow> os \<Rightarrow> disk \<Rightarrow> fs_scope \<Rightarrow> (int \<Rightarrow> fs_entity option) \<Rightarrow> int \<Rightarrow> int \<Rightarrow> string option \<Rightarrow> string option
     \<Rightarrow> root_cache \<times> audit_row list
     \<Rightarrow> (nat + (nat \<times> (FsErrorCode + read_body))) \<times> root_cache \<times> audit_row list" where
  "read_route h e d sc getEntity i ts path rangeQuery st =
     (case getEntity i of None \<Rightarrow> (Inl 404, st)
      | Some en \<Rightarrow>
        (let rawPath = (case path of None \<Rightarrow> [] | Some p \<Rightarrow> p);
             audit = (\<lambda>err. writeFsAuditRow sc en ''read'' rawPath err ts None None None (snd st))
         in case truthy_str (en_path en) of
             None \<Rightarrow> (Inr (200, Inl fs_no_project_path), fst st, audit (Some fs_no_project_path))
           | Some root \<Rightarrow>
             (case truthy_str rangeQuery of
                Some rq \<Rightarrow>
                  (case parseBytesRangeHeader rq of
                     None \<Rightarrow> (Inr (200, Inl fs_invalid_range), fst st, audit (Some fs_invalid_range))
                   | Some (off, len) \<Rightarrow>
                       (case readProjectFileRange h e d root (Some rawPath) (int off) (map_option int len) (fst st) of
                          (Inr r, c) \<Rightarrow> (Inr (206, Inr (PartOfFile r)), c, audit None)
                        | (Inl code, c) \<Rightarrow> (Inr (200, Inl code), c, audit (Some code))))
              | None \<Rightarrow>
                  (case readProjectFile h e d root (Some rawPath) (fst st) of
                     (Inr r, c) \<Rightarrow> (Inr (200, Inr (WholeFile r)), c, audit None)
                   | (Inl code, c) \<Rightarrow> (Inr (200, Inl code), c, audit (Some code))))))"

subsection \<open>Writing\<close>

record write_body =
  wb_content :: string
  wb_expectedSha :: string
  wb_allowCreate :: bool

definition lower_hex :: "char \<Rightarrow> bool" where
  "lower_hex c \<longleftrightarrow> c \<in> set ''0123456789abcdef''"

definition sha_shape :: "string \<Rightarrow> bool" where
  "sha_shape s \<longleftrightarrow> s = [] \<or> length s = 64 \<and> list_all lower_hex s"

definition writeFileBodySchema :: "jval option \<Rightarrow> write_body option" where
  "writeFileBodySchema raw =
     (case raw of
        Some (JObj o1) \<Rightarrow>
          (case (map_of o1 ''content'', map_of o1 ''expectedSha'', bool_field False (map_of o1 ''allowCreate'')) of
             (Some (JStr content), Some (JStr sha), Some allow) \<Rightarrow>
               if length content \<le> MAX_READ_BYTES \<and> sha_shape sha
                 \<and> strict [''content'', ''expectedSha'', ''allowCreate''] o1
               then Some \<lparr>wb_content = content, wb_expectedSha = sha, wb_allowCreate = allow\<rparr> else None
           | _ \<Rightarrow> None)
      | _ \<Rightarrow> None)"

text \<open>Up to the call of \<open>writeProjectFile\<close>: a thrown status, a reply with its audit row, or the call.\<close>

datatype write_start = Thrown nat | Refused "audit_row list" | Calls string write_body

definition write_begin ::
  "fs_scope \<Rightarrow> (int \<Rightarrow> fs_entity option) \<Rightarrow> int \<Rightarrow> int \<Rightarrow> string \<Rightarrow> jval option \<Rightarrow> audit_row list \<Rightarrow> write_start" where
  "write_begin sc getEntity i ts rawPath raw rows =
     (case getEntity i of None \<Rightarrow> Thrown 404
      | Some en \<Rightarrow>
        (case writeFileBodySchema raw of None \<Rightarrow> Thrown 422
         | Some body \<Rightarrow>
           (case truthy_str (en_path en) of
              None \<Rightarrow> Refused (writeFsAuditRow sc en ''write'' rawPath (Some fs_no_project_path) ts None None
                        (Some (length (wb_content body))) rows)
            | Some root \<Rightarrow> Calls root body)))"

definition sha_before :: "write_body \<Rightarrow> write_result \<Rightarrow> string option" where
  "sha_before body r =
     (case r of
        Inr _ \<Rightarrow> if wb_expectedSha body = [] then None else Some (wb_expectedSha body)
      | Inl (code, currentSha) \<Rightarrow>
          if code = fs_sha_conflict then (if currentSha = Some [] then None else currentSha) else None)"

definition sha_after :: "write_result \<Rightarrow> string option" where
  "sha_after r = (case r of Inr w \<Rightarrow> Some (wc_sha w) | Inl _ \<Rightarrow> None)"

definition write_end ::
  "fs_scope \<Rightarrow> fs_entity \<Rightarrow> int \<Rightarrow> string \<Rightarrow> write_body \<Rightarrow> write_result \<Rightarrow> audit_row list \<Rightarrow> audit_row list" where
  "write_end sc en ts rawPath body r rows =
     writeFsAuditRow sc en ''write'' rawPath (case r of Inl (c, _) \<Rightarrow> Some c | Inr _ \<Rightarrow> None) ts
       (sha_before body r) (sha_after r) (Some (length (wb_content body))) rows"

subsection \<open>Calls that overlap\<close>

text \<open>A write is called, a write that has its lock does its next await, or an operation, which takes no lock,
  changes the tree: its checks have seen \<open>d0\<close> and \<open>d1\<close>, which may be any disks.\<close>

datatype fs_event =
  WriteCall nat string "string option" string string bool
| WriteStep string string int
| Mutation string FsOp disk disk int

definition mutate :: "host \<Rightarrow> os \<Rightarrow> int \<Rightarrow> string \<Rightarrow> FsOp \<Rightarrow> disk \<Rightarrow> disk \<Rightarrow> fs_service \<Rightarrow> fs_service" where
  "mutate h e now root body d0 d1 s =
     (case run_op_at h e now root body d0 d1 (fv_disk s) of Inl _ \<Rightarrow> s | Inr d \<Rightarrow> s\<lparr>fv_disk := d\<rparr>)"

fun fs_step :: "host \<Rightarrow> os \<Rightarrow> fs_event \<Rightarrow> fs_service \<Rightarrow> fs_service" where
  "fs_step h e (WriteCall i root relPath content expected allowCreate) s =
     writeProjectFile h i root relPath content expected allowCreate s"
| "fs_step h e (WriteStep key uuid now) s = write_step e key uuid now s"
| "fs_step h e (Mutation root body d0 d1 now) s = mutate h e now root body d0 d1 s"

end
