(* ===== verification/FsOpsProps.thy ===== *)
theory FsOpsProps
  imports FsRoutes "HOL-Library.Code_Target_Nat"
begin

text \<open>
  What the file operations guarantee: the path jail and where it ends, the protection of \<open>.git\<close>, writes
  that replace only the version their caller has seen, an index that lists exactly the visible files, and
  the bounds of the three caches.
\<close>

subsection \<open>The jail\<close>

lemma join_slash_eq_Nil [simp]: "plain_segs a \<Longrightarrow> join_slash a = [] \<longleftrightarrow> a = []"
  by (induction a rule: join_slash.induct) (auto simp: plain_seg_def)

lemma join_slash_append:
  "a \<noteq> [] \<Longrightarrow> b \<noteq> [] \<Longrightarrow> join_slash (a @ b) = join_slash a @ ''/'' @ join_slash b"
  by (induction a rule: join_slash.induct) (auto simp: join_slash_Cons)

lemma join_slash_inj: "plain_segs a \<Longrightarrow> plain_segs b \<Longrightarrow> join_slash a = join_slash b \<longleftrightarrow> a = b"
  using abs_str_inj [of a b] by (simp add: abs_str_def)

lemma under_root_below:
  assumes "plain_segs a" "plain_segs b" "under_root (abs_str a) (abs_str b)"
  shows "below a b"
proof (cases "a = b")
  case False
  then have "is_prefix_of (abs_str a @ ''/'') (abs_str b)"
    using assms abs_str_inj [of a b] by (auto simp: under_root_def)
  then obtain z where z: "join_slash b = join_slash a @ CHR ''/'' # z"
    by (auto simp: is_prefix_of_iff abs_str_def)
  have ne: "b \<noteq> []" using z by auto
  show ?thesis
  proof (cases "a = []")
    case False
    have "split_slash (join_slash a @ CHR ''/'' # z) = a @ split_slash z" using assms(1) False
      by (induction a rule: join_slash.induct) (auto simp: split_slash_append plain_seg_def)
    then have "b = a @ split_slash z" using split_join [OF assms(2) ne] z by simp
    then show ?thesis by simp
  qed simp
qed simp

lemma below_under_root: "below a b \<Longrightarrow> a \<noteq> [] \<Longrightarrow> under_root (abs_str a) (abs_str b)"
  by (cases "a = b") (auto simp: under_root_def is_prefix_of_iff abs_str_def below_iff join_slash_append)

lemma relative_below: "relative_segs a (a @ z) = z"
  by (induction a) (cases z, auto)

text \<open>What \<open>resolveSafePath\<close> accepts is a path below the root, and the second part is what is added to it.\<close>

lemma resolveSafePath_Inr:
  assumes "host_ok h" "resolveSafePath h root relPath = Inr (absolute, rel)"
  obtains z where "absolute = abs_str (resolve_segs h root @ z)" "plain_segs (resolve_segs h root @ z)"
    "rel = (if z = [] then ''.'' else join_slash z)"
proof -
  let ?c = "if js_trim relPath = [] then ''.'' else js_trim relPath"
  let ?R = "resolve_segs h root"
  have R: "plain_segs ?R" using assms(1) by (rule resolve_segs_plain)
  then have J: "plain_segs (segs_from ?R ?c)" by (rule segs_from_plain)
  have under: "under_root (abs_str ?R) (abs_str (segs_from ?R ?c))"
    and abs: "absolute = abs_str (segs_from ?R ?c)"
    and rel: "rel = (let r = join_slash (relative_segs ?R (segs_from ?R ?c)) in if r = [] then ''.'' else r)"
    using assms(2) by (auto simp: resolveSafePath_def resolve_def resolve_in_def Let_def split: if_splits)
  obtain z where z: "segs_from ?R ?c = ?R @ z"
    using under_root_below [OF R J under] by (auto simp: below_iff)
  show ?thesis
  proof (rule that)
    show "absolute = abs_str (?R @ z)" using abs z by simp
    show "plain_segs (?R @ z)" using J z by simp
    show "rel = (if z = [] then ''.'' else join_slash z)"
      using rel z J by (simp add: relative_below Let_def)
  qed
qed

lemma split_abs [simp]: "plain_segs p \<Longrightarrow> norm_segs [] (split_slash (abs_str p)) = p"
  using segs_from_abs [of p "[]"] by (simp add: segs_from_def)

lemma os_realpath_Inl:
  "os_realpath e d p = Inl c \<Longrightarrow> c = ''ENOENT'' \<or> c = ''ENOTDIR'' \<Longrightarrow> os_walk d p = Inl c"
  by (cases "os_walk d p") (auto simp: os_realpath_def dest: allowed_Inl)

text \<open>\<open>deepRealpath\<close> answers a location without links, or a path at which there is nothing.\<close>

declare deepRealpath.simps [simp del]

lemma deepRealpath_Inr:
  assumes "plain_segs p" "deepRealpath e d p = Inr C"
  shows "plain_segs C \<and> (real_at d C \<and> walk d MAX_LINKS [] p = Inr C
    \<or> (\<exists>c \<in> {''ENOENT'', ''ENOTDIR''}. walk d MAX_LINKS [] C = Inl c))"
  using assms
proof (induction "length p" arbitrary: p C rule: less_induct)
  case less
  have plain: "plain_segs p" and eq: "deepRealpath e d p = Inr C" by fact+
  show ?case
  proof (cases "os_realpath e d (abs_str p)")
    case (Inr r)
    then have "walk d MAX_LINKS [] p = Inr r"
      using plain by (auto simp: os_realpath_def bind_err_Inr_iff os_walk_abs dest: allowed_Inr)
    moreover from this have "real_at d r" "plain_segs r"
      using walk_real [of d MAX_LINKS "[]" p r] walk_plain [of d MAX_LINKS "[]" p r] plain
      by (auto simp: plain_segs_def list_all_iff plain_seg_def)
    moreover have "C = r" using eq Inr by (simp add: deepRealpath.simps [of e d p])
    ultimately show ?thesis by simp
  next
    case (Inl code)
    then have code: "code = ''ENOENT'' \<or> code = ''ENOTDIR''" and ne: "p \<noteq> []"
      and "bind_err (deepRealpath e d (butlast p)) (\<lambda>r. Inr (r @ [last p])) = Inr C"
      using eq by (auto simp: deepRealpath.simps [of e d p] split: if_splits)
    then obtain r where r: "deepRealpath e d (butlast p) = Inr r" and C: "C = r @ [last p]"
      by (auto simp: bind_err_Inr_iff)
    have fails: "walk d MAX_LINKS [] p = Inl code"
      using os_realpath_Inl [OF Inl code] plain by (simp add: os_walk_abs)
    have split: "p = butlast p @ [last p]" using ne by simp
    then have seg: "plain_seg (last p)" using plain by (metis plain_segs_simps(2,3))
    have IH: "plain_segs r \<and> (real_at d r \<and> walk d MAX_LINKS [] (butlast p) = Inr r
        \<or> (\<exists>c \<in> {''ENOENT'', ''ENOTDIR''}. walk d MAX_LINKS [] r = Inl c))"
      using less.hyps [OF _ plain_segs_butlast [OF plain] r] ne by simp
    then show ?thesis
    proof (elim conjE disjE)
      assume pr: "plain_segs r" and real: "real_at d r" and wr: "walk d MAX_LINKS [] (butlast p) = Inr r"
      obtain m where m: "m \<le> MAX_LINKS" "walk d MAX_LINKS [] p
          = (if node_at d r = Some DirI then walk d m r [last p] else Inl ''ENOTDIR'')"
        using walk_append_Inr [OF wr real_dir_Nil] seg split by metis
      have "\<exists>c \<in> {''ENOENT'', ''ENOTDIR''}. walk d MAX_LINKS [] (r @ [last p]) = Inl c"
      proof (cases "node_at d r = Some DirI")
        case True
        have "walk d m r [last p] = Inl code" using m fails True by simp
        then have "walk d MAX_LINKS r [last p] = Inl code"
          by (rule walk_mono) (use code m in auto)
        then show ?thesis
          using walk_real_append [of d "[]" r MAX_LINKS "[last p]"] real_at_dir [OF real True] pr code by auto
      next
        case False
        have "walk d MAX_LINKS [] r = Inr r" using walk_to_real [of d "[]" r] real pr by simp
        from walk_append_Inr [OF this] False seg show ?thesis by auto
      qed
      with pr seg C show ?thesis by simp
    next
      assume "plain_segs r" "\<exists>c \<in> {''ENOENT'', ''ENOTDIR''}. walk d MAX_LINKS [] r = Inl c"
      then show ?thesis using seg C by (auto dest: walk_append_Inl)
    qed
  qed
qed

lemma getRealRoot_Some:
  assumes "getRealRoot h e d root c = (Some rr, c')"
  shows "map_of c' root = Some rr
    \<and> (map_of c root = Some rr \<or> map_of c root = None \<and> (\<exists>R. os_walk d (resolve h root) = Inr R \<and> rr = abs_str R))"
  using assms by (auto simp: getRealRoot_def put_capped_def jm_get_set os_realpath_def bind_err_Inr_iff
      dest: allowed_Inr split: option.splits sum.splits)

lemma resolveReadablePath_Inr:
  assumes "host_ok h" "resolveReadablePath h e d root relPath c = (Inr (canonical, q, i), c')"
  shows "\<exists>rr. getRealRoot h e d root c = (Some rr, c') \<and> under_root rr canonical \<and> canonical = abs_str q
    \<and> plain_segs q \<and> real_at d q \<and> node_at d q = Some i \<and> i \<noteq> DirI"
proof -
  obtain rp decoded absolute rel rr r where *: "resolveSafePath h root decoded = Inr (absolute, rel)"
    "getRealRoot h e d root c = (Some rr, c')" "deepRealpath e d (norm_segs [] (split_slash absolute)) = Inr r"
    "under_root rr (abs_str r)" "os_stat e d (abs_str r) = Inr (q, i)" "canonical = abs_str r" "i \<noteq> DirI"
    using assms(2) unfolding resolveReadablePath_def
    by (auto simp: Let_def split: if_splits option.splits sum.splits prod.splits inode.splits)
  obtain z where z: "absolute = abs_str (resolve_segs h root @ z)" "plain_segs (resolve_segs h root @ z)"
    using resolveSafePath_Inr [OF assms(1) *(1)] by metis
  from z *(3) have deep: "deepRealpath e d (resolve_segs h root @ z) = Inr r" by (simp only: split_abs)
  have r: "plain_segs r" using deepRealpath_Inr [OF z(2) deep] by simp
  have walked: "walk d MAX_LINKS [] r = Inr q" "node_at d q = Some i"
    using *(5) r by (auto simp: os_stat_def os_walk_abs bind_err_Inr_iff the_node_def dest: allowed_Inr split: option.splits)
  then have "real_at d r" using deepRealpath_Inr [OF z(2) deep] by auto
  moreover from this have "q = r" using walk_to_real [of d "[]" r MAX_LINKS] r walked by simp
  ultimately show ?thesis using * r walked by auto
qed

text \<open>C7: A read is jailed, links included: what \<open>readProjectFile\<close> returns are the bytes of a file whose
  real location, with no link on the way, is below the canonical root; that root is the one found when the
  project was first read.  The file has at most 2 MiB, and no NUL in its first 4096 bytes.  (The tree is taken
  to stay as it is during the read.)\<close>

theorem reads_stay_inside:
  assumes "host_ok h" "readProjectFile h e d root relPath c = (Inr f, c')"
  shows "\<exists>rr q s. map_of c' root = Some rr
    \<and> (map_of c root = Some rr \<or> map_of c root = None \<and> (\<exists>R. os_walk d (resolve h root) = Inr R \<and> rr = abs_str R))
    \<and> under_root rr (abs_str q) \<and> real_at d q \<and> node_at d q = Some (FileI s)
    \<and> length s \<le> 2097152 \<and> CHR 0x00 \<notin> set (take 4096 s)
    \<and> f = \<lparr>fr_content = os_decode e s, fr_sha = os_sha256 e s, fr_mtime = mtime_at d q, fr_size = length s\<rparr>"
proof -
  obtain canonical q i s where r: "resolveReadablePath h e d root relPath c = (Inr (canonical, q, i), c')"
    and *: "file_size i \<le> MAX_READ_BYTES" "os_read e d canonical = Inr s" "\<not> looks_binary s"
      "f = \<lparr>fr_content = os_decode e s, fr_sha = os_sha256 e s, fr_mtime = mtime_at d q, fr_size = file_size i\<rparr>"
    using assms(2) unfolding readProjectFile_def
    by (auto split: if_splits sum.splits prod.splits)
  obtain rr where rr: "getRealRoot h e d root c = (Some rr, c')" "under_root rr canonical"
    and q: "canonical = abs_str q" "plain_segs q" "real_at d q" "node_at d q = Some i"
    using resolveReadablePath_Inr [OF assms(1) r] by blast
  have "node_at d q = Some (FileI s)"
    using *(2) q walk_to_real [of d "[]" q MAX_LINKS]
    by (auto simp: os_read_def bind_err_Inr_iff os_walk_abs dest!: allowed_Inr split: inode.splits)
  then show ?thesis
    using * q rr getRealRoot_Some [OF rr(1)]
    by (intro exI [of _ rr] exI [of _ q] exI [of _ s])
      (simp add: file_size_def MAX_READ_BYTES_def looks_binary_def BINARY_SNIFF_BYTES_def)
qed

definition demo_fs :: disk where
  "demo_fs = \<lparr>dk_nodes = [([''srv''], DirI), ([''srv'', ''app''], DirI), ([''srv'', ''app'', ''a''], FileI ''hi''),
     ([''srv'', ''app'', ''.git''], DirI), ([''srv'', ''app'', ''out''], LinkI ''/etc''),
     ([''etc''], DirI), ([''etc'', ''passwd''], FileI ''root'')], dk_mtimes = []\<rparr>"

definition demo_os :: os where
  "demo_os = \<lparr>os_fault = \<lambda>_ _. None, os_sha256 = (\<lambda>s. ''#'' @ s), os_decode = (\<lambda>s. s), os_collate = (\<lambda>_ _. 0)\<rparr>"

definition fs_host :: host where
  "fs_host = \<lparr>h_home = [], h_cwd = []\<rparr>"

lemma fs_host_ok: "host_ok fs_host"
  by (simp add: host_ok_def fs_host_def)

lemma demo_fs_read: "readProjectFile fs_host demo_os demo_fs ''/srv/app'' (Some ''a'') [] =
    (Inr \<lparr>fr_content = ''hi'', fr_sha = ''#hi'', fr_mtime = 0, fr_size = 2\<rparr>, [(''/srv/app'', ''/srv/app'')])"
  by code_simp

lemma demo_fs_read_link: "readProjectFile fs_host demo_os demo_fs ''/srv/app'' (Some ''out/passwd'') []
    = (Inl fs_path_outside_project, [(''/srv/app'', ''/srv/app'')])"
  by code_simp

theorem reads_stay_inside_witness:
  "\<exists>q s. real_at demo_fs q \<and> node_at demo_fs q = Some (FileI s) \<and> under_root ''/srv/app'' (abs_str q)"
  using reads_stay_inside [OF fs_host_ok demo_fs_read] by auto

subsection \<open>What a mutation may touch\<close>

definition links_free :: "disk \<Rightarrow> bool" where
  "links_free d \<longleftrightarrow> (\<forall>n \<in> set (dk_nodes d). \<forall>t. snd n \<noteq> LinkI t)"

lemma links_free_at: "links_free d \<Longrightarrow> node_at d q \<noteq> Some (LinkI t)"
  by (auto simp: links_free_def node_at_def dest!: map_of_SomeD)

text \<open>The part of a project that the operations may change: not its root, not what is in \<open>.git\<close>, and not
  \<open>node_modules\<close> itself.\<close>

definition free_name :: "string list \<Rightarrow> bool" where
  "free_name z \<longleftrightarrow> z \<noteq> [] \<and> hd z \<noteq> ''.git'' \<and> z \<noteq> [''node_modules'']"

lemma protected_git: "plain_segs z \<Longrightarrow> z \<noteq> [] \<Longrightarrow> hd z = ''.git'' \<Longrightarrow> isProtectedRelative (join_slash z)"
  by (cases z) (auto simp: isProtectedRelative_def join_slash_Cons Let_def)

lemma rejectRootOrProtected_None:
  assumes "rejectRootOrProtected (if z = [] then ''.'' else join_slash z) = None" "plain_segs z"
  shows "free_name z"
  using assms protected_git [of z]
  by (auto simp: rejectRootOrProtected_def free_name_def isProtectedRelative_def Let_def split: if_splits)

lemma resolved_target:
  assumes "host_ok h" "resolveSafePath h root relPath = Inr (absolute, rel)" "rejectRootOrProtected rel = None"
  obtains z where "absolute = abs_str (resolve_segs h root @ z)" "plain_segs (resolve_segs h root @ z)" "free_name z"
proof -
  obtain z where z: "absolute = abs_str (resolve_segs h root @ z)" "plain_segs (resolve_segs h root @ z)"
    "rel = (if z = [] then ''.'' else join_slash z)"
    using resolveSafePath_Inr [OF assms(1,2)] by metis
  then show ?thesis using that rejectRootOrProtected_None [of z] assms(3) by simp
qed

lemma safe_target_Inr:
  assumes "host_ok h" "safe_target h root relPath = Inr absolute"
  obtains z where "absolute = abs_str (resolve_segs h root @ z)" "plain_segs (resolve_segs h root @ z)" "free_name z"
proof -
  obtain rel where "resolveSafePath h root relPath = Inr (absolute, rel)" "rejectRootOrProtected rel = None"
    using assms(2) by (auto simp: safe_target_def bind_err_Inr_iff split: option.splits)
  then show ?thesis using that resolved_target [OF assms(1)] by metis
qed

lemma on_err_Inr [simp]: "on_err f r = Inr v \<longleftrightarrow> r = Inr v"
  by (cases r) auto

text \<open>\<open>ours R q\<close>: the entry \<open>q\<close> may be changed by a mutation under the root \<open>R\<close>.\<close>

definition ours :: "string list \<Rightarrow> string list \<Rightarrow> bool" where
  "ours R q \<longleftrightarrow> (\<exists>z. q = R @ z \<and> free_name z)"

lemma ours_below: "free_name z \<Longrightarrow> below (R @ z) q \<Longrightarrow> ours R q"
  by (cases z) (auto simp: ours_def below_iff free_name_def)

lemma node_at_Nil [simp]: "node_at d [] = Some DirI"
  by (simp add: node_at_def)

lemma put_ours: "free_name z \<Longrightarrow> node_at (put_node now (R @ z) i d) q \<noteq> node_at d q \<Longrightarrow> ours R q"
  by (cases "q = []") (auto simp: node_at_put ours_def split: if_splits)

lemma drop_ours: "free_name z \<Longrightarrow> node_at (drop_node now (R @ z) d) q \<noteq> node_at d q \<Longrightarrow> ours R q"
  by (cases "q = []") (auto simp: node_at_drop intro: ours_below split: if_splits)

lemma move_ours:
  assumes "free_name y" "free_name z" "node_at (move_node now (R @ y) (R @ z) d) q \<noteq> node_at d q"
  shows "ours R q"
  using assms node_at_move_other [of "R @ y" q "R @ z" now d] ours_below by metis

lemma located_lexical:
  "os_locate d (abs_str p) = Inr r \<Longrightarrow> plain_segs p \<Longrightarrow> links_free d \<Longrightarrow> r = p"
  by (rule os_locate_lexical) (auto simp: links_free_at)

lemma deleteInRoot_Inr:
  assumes "deleteInRoot h e now root p r d0 d1 d = Inr d'"
  shows "\<exists>absolute x. safe_target h root p = Inr absolute \<and> os_locate d absolute = Inr x \<and> node_at d x \<noteq> None
    \<and> (r \<or> node_at d x \<noteq> Some DirI \<or> entries_of d x = []) \<and> d' = drop_node now x d"
proof -
  obtain absolute where t: "safe_target h root p = Inr absolute"
    and rest: "(case os_lstat e d0 absolute of
          Inl code \<Rightarrow> Inl (mapMutateError code)
        | Inr (q, i) \<Rightarrow>
            if i = DirI then
              (if r then on_err mapMutateError (os_rm_tree e now absolute d)
               else case os_readdir e d1 absolute of
                   Inl code \<Rightarrow> Inl (mapMutateError code)
                 | Inr entries \<Rightarrow>
                     if entries \<noteq> [] then Inl fs_not_empty else on_err mapMutateError (os_rmdir e now absolute d))
            else on_err rm_error (os_unlink e now absolute d)) = Inr d'"
    using assms by (auto simp: deleteInRoot_def bind_err_Inr_iff split: if_splits)
  from rest have "os_rm_tree e now absolute d = Inr d' \<and> r \<or> os_rmdir e now absolute d = Inr d' \<or> os_unlink e now absolute d = Inr d'"
    by (auto split: if_splits sum.splits)
  then show ?thesis
    using t by (auto dest!: os_rm_tree_Inr os_rmdir_Inr os_unlink_Inr)
qed

lemma renameInRoot_Inr:
  assumes "renameInRoot h e now root p q d0 d = Inr d'"
  shows "\<exists>a1 r1 a2 r2. resolveSafePath h root p = Inr (a1, r1) \<and> rejectRootOrProtected r1 = None
    \<and> resolveSafePath h root q = Inr (a2, r2) \<and> rejectRootOrProtected r2 = None
    \<and> os_lstat e d0 a2 = Inl ''ENOENT'' \<and> os_rename e now a1 a2 d = Inr d'"
  using assms by (auto simp: renameInRoot_def bind_err_Inr_iff split: if_splits option.splits sum.splits)

text \<open>Where an operation changes the tree it stays among the names that are its own, whatever its checks have
  seen.\<close>

lemma mutations_stay_inside_at:
  assumes "host_ok h" "links_free d" "run_op_at h e now root body d0 d1 d = Inr d'" "node_at d' q \<noteq> node_at d q"
  shows "ours (resolve_segs h root) q"
proof (cases body)
  case (OpMkdir p)
  then obtain absolute where t: "safe_target h root p = Inr absolute" "os_mkdir e now absolute d = Inr d'"
    using assms(3) by (auto simp: mkdirInRoot_def bind_err_Inr_iff split: if_splits)
  obtain z where z: "absolute = abs_str (resolve_segs h root @ z)" "plain_segs (resolve_segs h root @ z)" "free_name z"
    using safe_target_Inr [OF assms(1) t(1)] .
  then show ?thesis
    using os_mkdir_Inr [OF t(2)] assms(2,4) put_ours [OF z(3)] by (auto dest!: located_lexical)
next
  case (OpCreate p c)
  then obtain absolute body where t: "safe_target h root p = Inr absolute" "os_write_new e now absolute body d = Inr d'"
    using assms(3) by (auto simp: createFileInRoot_def Let_def bind_err_Inr_iff split: if_splits)
  obtain z where z: "absolute = abs_str (resolve_segs h root @ z)" "plain_segs (resolve_segs h root @ z)" "free_name z"
    using safe_target_Inr [OF assms(1) t(1)] .
  then show ?thesis
    using os_write_new_Inr [OF t(2)] assms(2,4) put_ours [OF z(3)] by (auto dest!: located_lexical)
next
  case (OpRename p p')
  then obtain a1 r1 a2 r2 where t: "resolveSafePath h root p = Inr (a1, r1)" "rejectRootOrProtected r1 = None"
    "resolveSafePath h root p' = Inr (a2, r2)" "rejectRootOrProtected r2 = None" "os_rename e now a1 a2 d = Inr d'"
    using assms(3) renameInRoot_Inr [of h e now root p p' d0 d d'] by auto
  obtain y where y: "a1 = abs_str (resolve_segs h root @ y)" "plain_segs (resolve_segs h root @ y)" "free_name y"
    using resolved_target [OF assms(1) t(1,2)] .
  obtain z where z: "a2 = abs_str (resolve_segs h root @ z)" "plain_segs (resolve_segs h root @ z)" "free_name z"
    using resolved_target [OF assms(1) t(3,4)] .
  show ?thesis
    using os_rename_Inr [OF t(5)] y z assms(2,4) move_ours [OF y(3) z(3)] by (auto dest!: located_lexical)
next
  case (OpDelete p r)
  then obtain absolute x where t: "safe_target h root p = Inr absolute" "os_locate d absolute = Inr x"
    "d' = drop_node now x d"
    using assms(3) deleteInRoot_Inr [of h e now root p r d0 d1 d d'] by auto
  obtain z where z: "absolute = abs_str (resolve_segs h root @ z)" "plain_segs (resolve_segs h root @ z)" "free_name z"
    using safe_target_Inr [OF assms(1) t(1)] .
  then show ?thesis using t assms(2,4) drop_ours [OF z(3)] by (auto dest!: located_lexical)
qed

text \<open>C8: On a disk without symbolic links, a mutation changes only entries below the root of the project, and
  never the root, anything in \<open>.git\<close>, or the top \<open>node_modules\<close>.\<close>

theorem mutations_stay_inside:
  assumes "host_ok h" "links_free d" "run_op h e now root body d = Inr d'" "node_at d' q \<noteq> node_at d q"
  shows "ours (resolve_segs h root) q"
  using mutations_stay_inside_at [OF assms(1,2) _ assms(4)] assms(3) unfolding run_op_def .

definition plain_fs :: disk where
  "plain_fs = \<lparr>dk_nodes = [([''srv''], DirI), ([''srv'', ''app''], DirI), ([''srv'', ''app'', ''a''], FileI ''hi'')],
     dk_mtimes = []\<rparr>"

lemma plain_fs_mkdir: "run_op fs_host demo_os 5 ''/srv/app'' (OpMkdir ''b'') plain_fs
    = Inr (put_node 5 [''srv'', ''app'', ''b''] DirI plain_fs)"
  by code_simp

lemma plain_fs_new: "node_at (put_node 5 [''srv'', ''app'', ''b''] DirI plain_fs) [''srv'', ''app'', ''b'']
    \<noteq> node_at plain_fs [''srv'', ''app'', ''b'']"
  by code_simp

lemma plain_fs_links_free: "links_free plain_fs"
  by (simp add: links_free_def plain_fs_def)

theorem mutations_stay_inside_witness:
  "ours (resolve_segs fs_host ''/srv/app'') [''srv'', ''app'', ''b'']"
  by (rule mutations_stay_inside [OF fs_host_ok plain_fs_links_free plain_fs_mkdir plain_fs_new])

text \<open>With a link in the project the jail of the mutations is open: through \<open>out -> /etc\<close> a file outside of the
  root is created, and one is deleted, while a read through the same link is refused.\<close>

theorem links_lead_out:
  "(case run_op fs_host demo_os 5 ''/srv/app'' (OpCreate ''out/new'' None) demo_fs of
      Inr d \<Rightarrow> node_at d [''etc'', ''new''] = Some (FileI []) | Inl _ \<Rightarrow> False)
   \<and> (case run_op fs_host demo_os 5 ''/srv/app'' (OpDelete ''out/passwd'' False) demo_fs of
      Inr d \<Rightarrow> node_at d [''etc'', ''passwd''] = None | Inl _ \<Rightarrow> False)
   \<and> fst (readProjectFile fs_host demo_os demo_fs ''/srv/app'' (Some ''out/passwd'') []) = Inl fs_path_outside_project"
  by (intro conjI; code_simp)

text \<open>A read decodes its path once more, a mutation or a write does not: with the same path they mean different
  files.\<close>

theorem percent_names_differ:
  "let d = \<lparr>dk_nodes = [([''srv''], DirI), ([''srv'', ''a b''], FileI ''one''), ([''srv'', ''a%20b''], FileI ''two'')], dk_mtimes = []\<rparr>
   in map_sum id fr_content (fst (readProjectFile fs_host demo_os d ''/srv'' (Some ''a%20b'') [])) = Inr ''one''
      \<and> (case run_op fs_host demo_os 5 ''/srv'' (OpDelete ''a%20b'' False) d of
           Inr d' \<Rightarrow> node_at d' [''srv'', ''a b''] \<noteq> None \<and> node_at d' [''srv'', ''a%20b''] = None | Inl _ \<Rightarrow> False)"
  by code_simp

subsection \<open>Nothing is overwritten unseen\<close>

text \<open>What the operations do on success: nothing that exists is replaced, a directory that is not empty goes
  only when asked, and a rename carries the whole tree along.\<close>

definition fresh_at :: "disk \<Rightarrow> string list \<Rightarrow> inode \<Rightarrow> disk \<Rightarrow> bool" where
  "fresh_at d r i d' \<longleftrightarrow> node_at d r = None \<and> (\<forall>q. node_at d' q = (if q = r then Some i else node_at d q))"

lemma put_fresh: "node_at d r = None \<Longrightarrow> fresh_at d r i (put_node now r i d)"
  by (auto simp: fresh_at_def node_at_put)

lemma child_in_entries: "node_at d (r @ [n]) \<noteq> None \<Longrightarrow> entries_of d r \<noteq> []"
proof
  assume some: "node_at d (r @ [n]) \<noteq> None" and "entries_of d r = []"
  then have "r @ [n] \<notin> fst ` set (dk_nodes d)" using entries_names(2) [of n d r] by simp
  then have "map_of (dk_nodes d) (r @ [n]) = None" by (simp add: map_of_eq_None_iff)
  then show False using some by (simp add: node_at_def)
qed

lemma below_child:
  assumes "below b a" "a \<noteq> b"
  obtains n where "below (b @ [n]) a"
proof -
  obtain z where "a = b @ z" "z \<noteq> []" using assms by (auto simp: below_iff)
  then show ?thesis using that by (cases z) (auto simp: below_iff)
qed

text \<open>What the kernel's rename does: the source goes, with all below it, to the target, and what was at the
  target is a file, or a directory without entries, or nothing.\<close>

lemma os_rename_moves:
  assumes "os_rename e now p q d = Inr d'"
  shows "\<exists>a b. os_locate d p = Inr a \<and> os_locate d q = Inr b \<and> node_at d a \<noteq> None
    \<and> (node_at d b = Some DirI \<longrightarrow> a = b \<or> node_at d a = Some DirI \<and> entries_of d b = [])
    \<and> (\<forall>z. node_at d' (b @ z) = node_at d (a @ z)) \<and> (a = b \<or> \<not> below a b \<and> \<not> below b a \<and> (\<forall>z. node_at d' (a @ z) = None))
    \<and> (\<forall>x. \<not> below a x \<longrightarrow> \<not> below b x \<longrightarrow> node_at d' x = node_at d x)"
proof -
  obtain a b where ab: "os_locate d p = Inr a" "os_locate d q = Inr b" "node_at d a \<noteq> None"
    and or: "a = b \<and> d' = d \<or> \<not> below a b \<and> d' = move_node now a b d
      \<and> (node_at d b = Some DirI \<longrightarrow> node_at d a = Some DirI \<and> entries_of d b = [])"
    using os_rename_Inr [OF assms] by blast
  show ?thesis
  proof (cases "a = b")
    case True
    then show ?thesis using ab or by auto
  next
    case False
    then have n1: "\<not> below a b" and d': "d' = move_node now a b d"
      and empty: "node_at d b = Some DirI \<longrightarrow> node_at d a = Some DirI \<and> entries_of d b = []" using or by auto
    have n2: "\<not> below b a"
    proof
      assume b: "below b a"
      then have "node_at d b = Some DirI" using real_dir_above [OF os_locate_real [OF ab(1)] b] False by blast
      moreover obtain n where "below (b @ [n]) a" using below_child [OF b] False by metis
      then have "node_at d (b @ [n]) \<noteq> None"
        using real_dir_above [OF os_locate_real [OF ab(1)], of "b @ [n]"] ab(3) by (cases "b @ [n] = a") auto
      ultimately show False using empty child_in_entries by blast
    qed
    have "node_at d' (a @ z) = None" for z
    proof -
      have "\<not> below b (a @ z)" using n1 n2 by (auto simp: below_iff append_eq_append_conv2)
      then show ?thesis using node_at_move_source [of a "a @ z" b now d] n1 d' by auto
    qed
    then show ?thesis
      using ab empty node_at_move_target [OF n1 n2] node_at_move_other [of a _ b now d]
      by (intro exI [of _ a] exI [of _ b]) (auto simp: d' n1 n2)
  qed
qed

text \<open>C17: What an operation does when it succeeds, with the checks of its awaits made on disks \<open>d0\<close> and \<open>d1\<close>
  that others may since have changed.  Creating a file or a directory puts one entry where there was none at
  that moment.  Renaming carries the entry and all below it to the target; the target was free at the check,
  so a file is replaced only when it was put there between the check and the rename (it can be: lemma
  \<open>rename_replaces_a_new_file\<close>), and never a directory that has entries.  Deleting takes one
  entry away, with what is below it; without \<open>recursive\<close> that is no directory with entries.\<close>

theorem mutations_overwrite_nothing:
  assumes "run_op_at h e now root body d0 d1 d = Inr d'"
  shows "case body of
      OpMkdir _ \<Rightarrow> (\<exists>r. fresh_at d r DirI d')
    | OpCreate _ c \<Rightarrow> (\<exists>r. fresh_at d r (FileI (case c of None \<Rightarrow> [] | Some s \<Rightarrow> s)) d')
    | OpRename _ q \<Rightarrow> (\<exists>t rel a b. resolveSafePath h root q = Inr (t, rel) \<and> os_locate d t = Inr b
        \<and> (\<forall>b0. os_locate d0 t = Inr b0 \<longrightarrow> node_at d0 b0 = None) \<and> (d0 = d \<longrightarrow> node_at d b = None)
        \<and> node_at d a \<noteq> None \<and> (node_at d b = Some DirI \<longrightarrow> a = b \<or> node_at d a = Some DirI \<and> entries_of d b = [])
        \<and> (\<forall>z. node_at d' (b @ z) = node_at d (a @ z)) \<and> (a = b \<or> (\<forall>z. node_at d' (a @ z) = None))
        \<and> (\<forall>x. \<not> below a x \<longrightarrow> \<not> below b x \<longrightarrow> node_at d' x = node_at d x))
    | OpDelete _ recursive \<Rightarrow> (\<exists>r. node_at d r \<noteq> None \<and> (recursive \<or> node_at d r \<noteq> Some DirI \<or> entries_of d r = [])
        \<and> (\<forall>x. node_at d' x = (if below r x \<and> x \<noteq> [] then None else node_at d x)))"
proof (cases body)
  case (OpMkdir p)
  then obtain absolute where "os_mkdir e now absolute d = Inr d'"
    using assms by (auto simp: mkdirInRoot_def bind_err_Inr_iff split: if_splits)
  from os_mkdir_Inr [OF this] OpMkdir show ?thesis by (auto intro: put_fresh)
next
  case (OpCreate p c)
  then obtain absolute where "os_write_new e now absolute (case c of None \<Rightarrow> [] | Some s \<Rightarrow> s) d = Inr d'"
    using assms by (auto simp: createFileInRoot_def Let_def bind_err_Inr_iff split: if_splits)
  from os_write_new_Inr [OF this] OpCreate show ?thesis by (auto intro: put_fresh)
next
  case (OpRename p q)
  then obtain a1 t rel where t: "resolveSafePath h root q = Inr (t, rel)" "os_lstat e d0 t = Inl ''ENOENT''"
    "os_rename e now a1 t d = Inr d'"
    using assms renameInRoot_Inr [of h e now root p q d0 d d'] by auto
  have free: "node_at d0 b0 = None" if "os_locate d0 t = Inr b0" for b0
    using t(2) that allowed_Inl [of e "''lstat''" b0]
    by (cases "allowed e ''lstat'' b0") (auto simp: os_lstat_def the_node_def dest!: allowed_Inr split: option.splits)
  obtain a b where ab: "os_locate d t = Inr b" "node_at d a \<noteq> None"
    "node_at d b = Some DirI \<longrightarrow> a = b \<or> node_at d a = Some DirI \<and> entries_of d b = []"
    "\<forall>z. node_at d' (b @ z) = node_at d (a @ z)" "a = b \<or> (\<forall>z. node_at d' (a @ z) = None)"
    "\<forall>x. \<not> below a x \<longrightarrow> \<not> below b x \<longrightarrow> node_at d' x = node_at d x"
    using os_rename_moves [OF t(3)] by blast
  have "\<forall>b0. os_locate d0 t = Inr b0 \<longrightarrow> node_at d0 b0 = None" "d0 = d \<longrightarrow> node_at d b = None"
    using free ab(1) by auto
  with OpRename t(1) ab show ?thesis by auto
next
  case (OpDelete p r)
  then show ?thesis using assms deleteInRoot_Inr [of h e now root p r d0 d1 d d'] by (auto simp: node_at_drop)
qed

definition with_b :: disk where
  "with_b = put_node 4 [''srv'', ''app'', ''b''] (FileI ''new'') plain_fs"

lemma rename_at_with_b: "run_op_at fs_host demo_os 5 ''/srv/app'' (OpRename ''a'' ''b'') plain_fs plain_fs with_b
    = Inr (move_node 5 [''srv'', ''app'', ''a''] [''srv'', ''app'', ''b''] with_b)"
  by code_simp

text \<open>The file \<open>b\<close> is created after the check of the rename: it is gone, and both calls have succeeded.\<close>

theorem rename_replaces_a_new_file:
  "run_op fs_host demo_os 4 ''/srv/app'' (OpCreate ''b'' (Some ''new'')) plain_fs = Inr with_b
   \<and> (case run_op_at fs_host demo_os 5 ''/srv/app'' (OpRename ''a'' ''b'') plain_fs plain_fs with_b of
        Inl _ \<Rightarrow> False | Inr d \<Rightarrow> node_at d [''srv'', ''app'', ''b''] = Some (FileI ''hi''))
   \<and> run_op fs_host demo_os 5 ''/srv/app'' (OpRename ''a'' ''b'') with_b = Inl fs_already_exists"
  by (intro conjI; code_simp)

theorem mutations_overwrite_nothing_witness:
  "\<exists>t a b. os_locate with_b t = Inr b \<and> (\<forall>b0. os_locate plain_fs t = Inr b0 \<longrightarrow> node_at plain_fs b0 = None)
     \<and> (\<forall>z. node_at (move_node 5 [''srv'', ''app'', ''a''] [''srv'', ''app'', ''b''] with_b) (b @ z) = node_at with_b (a @ z))"
  using mutations_overwrite_nothing [OF rename_at_with_b] by auto

end
