(* ===== verification/FsWriteProps.thy ===== *)
theory FsWriteProps
  imports FsOpsProps
begin

text \<open>
  Why no write is lost: for the calls on one project the check of a version and the rename that replaces it
  behave as one step, however the awaits of other calls fall in between, and the operations that take no lock
  as long as they spare the file in that time.  The invariant says what the call
  at the head of each queue has reached; the disk is seen through \<open>node_at\<close>.
\<close>

definition SUFFIX :: string where
  "SUFFIX = ''.flockctl-tmp-''"

lemma SUFFIX_plain: "CHR ''/'' \<notin> set SUFFIX" "SUFFIX \<noteq> []" "length SUFFIX = 14"
  by (simp_all add: SUFFIX_def)

definition temp_segs :: "string list \<Rightarrow> string \<Rightarrow> string list" where
  "temp_segs a uuid = butlast a @ [last a @ SUFFIX @ uuid]"

lemma temp_plain:
  assumes "plain_segs a" "a \<noteq> []" "CHR ''/'' \<notin> set uuid"
  shows "plain_segs (temp_segs a uuid)"
proof -
  have "plain_seg (last a)" using assms(1,2) by (metis append_butlast_last_id plain_segs_simps(2,3))
  then have "plain_seg (last a @ SUFFIX @ uuid)"
    using assms(3) SUFFIX_plain by (cases "last a") (auto simp: plain_seg_def SUFFIX_def)
  then show ?thesis using plain_segs_butlast [OF assms(1)] by (simp add: temp_segs_def)
qed

lemma join_slash_extend: "join_slash (p @ [x]) @ y = join_slash (p @ [x @ y])"
  by (cases "p = []") (simp_all add: join_slash_append)

lemma temp_path_segs:
  assumes "wr_absolute w = abs_str a" "a \<noteq> []"
  shows "temp_path w uuid = abs_str (temp_segs a uuid)"
proof -
  have "join_slash a = join_slash (butlast a @ [last a])" using assms(2) by simp
  then show ?thesis
    using join_slash_extend [of "butlast a" "last a" "SUFFIX @ uuid"]
    by (simp add: temp_path_def temp_segs_def abs_str_def assms(1) SUFFIX_def)
qed

subsection \<open>The steps of one write\<close>

lemma os_locate_tree:
  assumes "tree_ok d" "plain_segs p" "p \<noteq> []"
  shows "os_locate d (abs_str p) = Inr r \<longleftrightarrow> r = p \<and> node_at d (butlast p) = Some DirI"
  using assms tree_ok_walk(1) [OF assms(1) plain_segs_butlast [OF assms(2)], of MAX_LINKS]
  by (auto simp: os_locate_abs bind_err_Inr_iff)

lemma sha_of_node:
  assumes "tree_ok d" "plain_segs a"
  shows "shaOfFileOrNull e d (abs_str a) =
    (case node_at d a of None \<Rightarrow> Inr None
     | Some i \<Rightarrow> (case allowed e ''read'' a of Inl c \<Rightarrow> Inl c
         | Inr _ \<Rightarrow> (case i of FileI s \<Rightarrow> Inr (Some (os_sha256 e s)) | _ \<Rightarrow> Inl ''EISDIR'')))"
proof (cases "node_at d a")
  case None
  then obtain c where "walk d MAX_LINKS [] a = Inl c" "c = ''ENOENT'' \<or> c = ''ENOTDIR''"
    using tree_ok_walk [OF assms, of MAX_LINKS] by (cases "walk d MAX_LINKS [] a") auto
  then show ?thesis using None by (auto simp: shaOfFileOrNull_def os_read_def os_walk_abs [OF assms(2)])
next
  case (Some i)
  then have "walk d MAX_LINKS [] a = Inr a" using tree_ok_walk [OF assms, of MAX_LINKS] by simp
  moreover have "i \<noteq> LinkI t" for t using assms(1) Some by (auto simp: tree_ok_def)
  ultimately show ?thesis
    using Some by (cases i; cases "allowed e ''read'' a")
      (auto simp: shaOfFileOrNull_def os_read_def os_walk_abs [OF assms(2)] dest: allowed_Inr allowed_Inl)
qed

lemma write_check_cong:
  assumes "tree_ok d" "tree_ok d'" "plain_segs a" "wr_absolute w = abs_str a" "node_at d' a = node_at d a"
  shows "write_check e d' w = write_check e d w"
  by (simp add: write_check_def assms sha_of_node)

lemma write_check_not_dir:
  assumes "tree_ok d" "plain_segs a" "wr_absolute w = abs_str a" "write_check e d w = None"
  shows "node_at d a \<noteq> Some DirI"
  using assms(4) by (auto simp: write_check_def assms(3) sha_of_node [OF assms(1,2)] split: sum.splits)

lemma write_temp_effect:
  assumes "tree_ok d" "plain_segs t" "t \<noteq> []" "node_at d t = None"
    and "write_temp e now (abs_str t) w d = (r, d')"
  shows "if r = None then real_dir d (butlast t)
       \<and> (\<forall>q. node_at d' q = (if q = t then Some (FileI (wr_content w)) else node_at d q)) else d' = d"
proof -
  have unlink: "try_unlink e now (abs_str t) d = d"
  proof (cases "os_unlink e now (abs_str t) d")
    case (Inr x)
    then obtain q i where "os_locate d (abs_str t) = Inr q" "node_at d q = Some i"
      using os_unlink_Inr by blast
    then show ?thesis using assms(1-4) by (simp add: os_locate_tree)
  qed (simp add: try_unlink_def)
  have new: "real_dir d (butlast t) \<and> d'' = put_node now t (FileI (wr_content w)) d"
    if "os_write e now (abs_str t) (wr_content w) d = Inr d''" for d''
    using that unfolding os_write_def
  proof (rule located_call)
    fix x assume "os_locate d (abs_str t) = Inr x" and c: "(case node_at d x of
       None \<Rightarrow> Inr (put_node now x (FileI (wr_content w)) d)
     | Some (FileI _) \<Rightarrow> Inr (put_node now x (FileI (wr_content w)) d)
     | Some DirI \<Rightarrow> Inl ''EISDIR''
     | Some (LinkI _) \<Rightarrow>
         (case os_walk d (abs_str t) of Inl c \<Rightarrow> Inl c
          | Inr r' \<Rightarrow> if node_at d r' = Some DirI then Inl ''EISDIR'' else Inr (put_node now r' (FileI (wr_content w)) d))) = Inr d''"
    then have "x = t" "real_dir d (butlast t)"
      using os_locate_tree [OF assms(1-3)] os_locate_real [of d "abs_str t" x] by auto
    with c assms(4) show ?thesis by simp
  qed
  show ?thesis
    using assms(3,5) unlink new by (auto simp: write_temp_def node_at_put split: sum.splits prod.splits if_splits)
qed

lemma unlink_effect:
  assumes "tree_ok d" "plain_segs t" "t \<noteq> []" "node_at d t = Some (FileI s)"
  shows "(q \<noteq> t \<longrightarrow> node_at (try_unlink e now (abs_str t) d) q = node_at d q)
    \<and> (node_at (try_unlink e now (abs_str t) d) t = node_at d t \<or> node_at (try_unlink e now (abs_str t) d) t = None)"
proof (cases "os_unlink e now (abs_str t) d")
  case (Inr d')
  then have "d' = drop_node now t d" using os_unlink_Inr [OF Inr] os_locate_tree [OF assms(1-3)] by auto
  moreover have "node_at d q = None" if "below t q" "q \<noteq> t"
    using that assms(1,4) real_dir_above [of d q t] by (auto simp: tree_ok_def)
  ultimately show ?thesis using Inr assms(3) by (auto simp: try_unlink_def node_at_drop)
qed (simp add: try_unlink_def)

lemma rename_effect:
  assumes "tree_ok d" "plain_segs t" "t \<noteq> []" "plain_segs a" "a \<noteq> []" "t \<noteq> a" "node_at d t = Some (FileI s)"
    and "os_rename e now (abs_str t) (abs_str a) d = Inr d'"
  shows "node_at d a \<noteq> Some DirI \<and> real_dir d (butlast a)
    \<and> (\<forall>q. node_at d' q = (if q = a then Some (FileI s) else if q = t then None else node_at d q))"
proof -
  obtain x y where "os_locate d (abs_str t) = Inr x" "os_locate d (abs_str a) = Inr y"
    "x = y \<and> d' = d \<or> \<not> below x y \<and> d' = move_node now x y d \<and> (node_at d y = Some DirI \<longrightarrow> node_at d x = Some DirI)"
    using os_rename_Inr [OF assms(8)] by blast
  then have loc: "os_locate d (abs_str a) = Inr a" and nb: "\<not> below t a" and d': "d' = move_node now t a d"
    and na: "node_at d a \<noteq> Some DirI" and "os_locate d (abs_str t) = Inr t"
    using assms(1-7) by (auto simp: os_locate_tree)
  then have nb': "\<not> below a t"
    using real_dir_above [OF os_locate_real, of d _ t a] assms(6) by blast
  have leaf: "node_at d q = None" if "below p q" "q \<noteq> p" "node_at d p \<noteq> Some DirI" for p q
    using that assms(1) real_dir_above [of d q p] by (auto simp: tree_ok_def)
  have "node_at d' q = (if q = a then Some (FileI s) else if q = t then None else node_at d q)" for q
  proof (cases "below a q")
    case True
    then obtain z where z: "q = a @ z" by (auto simp: below_iff)
    have "node_at d' q = node_at d (t @ z)" unfolding d' z by (rule node_at_move_target [OF nb nb'])
    then show ?thesis
      using z leaf [of t "t @ z"] leaf [of a "a @ z"] na assms(7) nb' by (cases "z = []") auto
  next
    case False
    show ?thesis
    proof (cases "below t q")
      case True
      have "q \<noteq> []" using True assms(3) by (auto simp: below_iff)
      then show ?thesis
        using node_at_move_source [OF True False, of now d] leaf [OF True] assms(7) False d' by (cases "q = t") auto
    next
      case F2: False
      then show ?thesis using node_at_move_other [OF F2 False, of now d] d' False by auto
    qed
  qed
  then show ?thesis using os_locate_real [OF loc] na by simp
qed

text \<open>A rename leaves every name but two as it is; the file changes only into the content of the call.\<close>

lemma write_rename_effect:
  assumes "tree_ok d" "plain_segs t" "t \<noteq> []" "plain_segs a" "a \<noteq> []" "t \<noteq> a" "wr_absolute w = abs_str a"
    "node_at d t = Some (FileI (wr_content w))" and "write_rename e now (abs_str t) w d = (r, d')"
  shows "(\<forall>q. q \<noteq> t \<longrightarrow> q \<noteq> a \<longrightarrow> node_at d' q = node_at d q)
    \<and> (node_at d' t = node_at d t \<or> node_at d' t = None)
    \<and> (node_at d' a = node_at d a
        \<or> node_at d' a = Some (FileI (wr_content w)) \<and> node_at d a \<noteq> Some DirI \<and> real_dir d (butlast a))"
proof (cases "os_rename e now (abs_str t) (abs_str a) d")
  case (Inl c)
  then have "d' = try_unlink e now (abs_str t) d"
    using assms(9) by (simp add: write_rename_def assms(7))
  then show ?thesis using unlink_effect [OF assms(1-3,8)] assms(6) by metis
next
  case (Inr x)
  then have "d' = x" using assms(9) by (auto simp: write_rename_def assms(7) split: sum.splits prod.splits)
  then show ?thesis using rename_effect [OF assms(1-6,8) Inr] assms(6) by auto
qed

subsection \<open>Mutations keep the tree\<close>

lemma tree_ok_put:
  assumes "tree_ok d" "node_at d r = None" "real_dir d (butlast r)" "\<And>t. i \<noteq> LinkI t"
  shows "tree_ok (put_node now r i d)"
proof -
  have dirs: "real_dir (put_node now r i d) p" if "real_dir d p" for p
    using that assms(2) by (auto simp: real_dir_def node_at_put)
  show ?thesis
    unfolding tree_ok_def
  proof (intro conjI allI impI)
    show "real_dir (put_node now r i d) (butlast q)" if "node_at (put_node now r i d) q \<noteq> None" for q
      using that assms(1,3) dirs by (auto simp: tree_ok_def node_at_put split: if_splits)
    show "node_at (put_node now r i d) q \<noteq> Some (LinkI t)" for q t
      using assms(1,4) by (auto simp: tree_ok_def node_at_put)
  qed
qed

lemma below_butlast: "below p (butlast q) \<Longrightarrow> below p q"
  by (cases q rule: rev_cases) (auto simp: below_snoc)

lemma below_of_Nil [simp]: "below p [] \<longleftrightarrow> p = []"
  by (simp add: below_iff)

lemma tree_ok_drop: "tree_ok d \<Longrightarrow> tree_ok (drop_node now r d)"
  unfolding tree_ok_def real_dir_def node_at_drop
  by (auto split: if_splits dest: below_trans below_butlast)

lemma tree_ok_move:
  assumes tree: "tree_ok d" and b: "real_dir d (butlast b)" and ne: "b \<noteq> []"
    and target: "\<And>z. node_at d' (b @ z) = node_at d (a @ z)" and source: "\<And>z. node_at d' (a @ z) = None"
    and other: "\<And>x. \<not> below a x \<Longrightarrow> \<not> below b x \<Longrightarrow> node_at d' x = node_at d x"
  shows "tree_ok d'"
  unfolding tree_ok_def
proof (intro conjI allI impI)
  show "node_at d' q \<noteq> Some (LinkI t)" for q t
    using tree target source other [of q] by (cases "below b q"; cases "below a q") (auto simp: tree_ok_def below_iff)
  fix q assume q: "node_at d' q \<noteq> None"
  show "real_dir d' (butlast q)"
    unfolding real_dir_def
  proof (intro allI impI)
    fix p assume p: "below p (butlast q)"
    have na: "\<not> below a q" using q source by (auto simp: below_iff)
    then have pa: "\<not> below a p" using below_trans below_butlast [OF p] by blast
    show "node_at d' p = Some DirI"
    proof (cases "below b q")
      case False
      then have "\<not> below b p" using below_trans below_butlast [OF p] by blast
      moreover have "real_dir d (butlast q)" using tree q other [OF na False] by (simp add: tree_ok_def)
      ultimately show ?thesis using other [OF pa] p by (simp add: real_dir_def)
    next
      case True
      then obtain z where z: "q = b @ z" by (auto simp: below_iff)
      show ?thesis
      proof (cases "below b p")
        case False
        have "below p b" using below_butlast [OF p] z False by (auto simp: below_iff append_eq_append_conv2)
        then have "below p (butlast b)" using False by (cases b rule: rev_cases) (auto simp: below_snoc)
        then show ?thesis using other [OF pa False] b by (simp add: real_dir_def)
      next
        case pb: True
        then obtain y where y: "p = b @ y" by (auto simp: below_iff)
        have "z \<noteq> []" using p z y ne by (cases b rule: rev_cases) (auto simp: below_iff)
        then have "below (a @ y) (butlast (a @ z))"
          using p z y by (auto simp: below_iff butlast_append)
        moreover have "real_dir d (butlast (a @ z))" using tree q z target [of z] by (simp add: tree_ok_def)
        ultimately show ?thesis using target [of y] y by (simp add: real_dir_def)
      qed
    qed
  qed
qed

lemma tree_ok_rename:
  assumes "tree_ok d" "os_rename e now p q d = Inr d'"
  shows "tree_ok d'"
proof -
  obtain a b where loc: "os_locate d q = Inr b"
    and t: "\<forall>z. node_at d' (b @ z) = node_at d (a @ z)"
    and or: "a = b \<or> \<not> below a b \<and> \<not> below b a \<and> (\<forall>z. node_at d' (a @ z) = None)"
    and o1: "\<forall>x. \<not> below a x \<longrightarrow> \<not> below b x \<longrightarrow> node_at d' x = node_at d x"
    using os_rename_moves [OF assms(2)] by blast
  show ?thesis
  proof (cases "a = b")
    case True
    then have "node_at d' x = node_at d x" for x using t o1 by (cases "below a x") (auto simp: below_iff)
    then show ?thesis using assms(1) by (simp add: tree_ok_def real_dir_def)
  next
    case False
    then have ne: "b \<noteq> []" and s: "\<forall>z. node_at d' (a @ z) = None" using or by auto
    show ?thesis
      by (rule tree_ok_move [OF assms(1) os_locate_real [OF loc] ne]) (use t s o1 in blast)+
  qed
qed

lemma run_op_tree_ok:
  assumes tree: "tree_ok d" and run: "run_op_at h e now root body d0 d1 d = Inr d'"
  shows "tree_ok d'"
proof (cases body)
  case (OpMkdir p)
  then obtain absolute where "os_mkdir e now absolute d = Inr d'"
    using run by (auto simp: mkdirInRoot_def bind_err_Inr_iff split: if_splits)
  then show ?thesis using tree by (auto dest!: os_mkdir_Inr intro!: tree_ok_put os_locate_real)
next
  case (OpCreate p c)
  then obtain absolute body where "os_write_new e now absolute body d = Inr d'"
    using run by (auto simp: createFileInRoot_def Let_def bind_err_Inr_iff split: if_splits)
  then show ?thesis using tree by (auto dest!: os_write_new_Inr intro!: tree_ok_put os_locate_real)
next
  case (OpRename p q)
  then obtain a1 t where "os_rename e now a1 t d = Inr d'"
    using run renameInRoot_Inr [of h e now root p q d0 d d'] by auto
  then show ?thesis by (rule tree_ok_rename [OF tree])
next
  case (OpDelete p r)
  then obtain x where "d' = drop_node now x d" using run deleteInRoot_Inr [of h e now root p r d0 d1 d d'] by auto
  then show ?thesis using tree_ok_drop [OF tree] by simp
qed

subsection \<open>The invariant\<close>

text \<open>What is true of a call at the head of its queue, by the step that it has reached.\<close>

definition head_ok :: "os \<Rightarrow> disk \<Rightarrow> writer \<Rightarrow> wr_phase \<Rightarrow> bool" where
  "head_ok e d w ph \<longleftrightarrow>
     (case ph of Checking \<Rightarrow> True
      | Checked \<Rightarrow> write_check e d w = None
      | TempWritten t \<Rightarrow> write_check e d w = None
          \<and> (\<exists>a uuid. plain_segs a \<and> a \<noteq> [] \<and> wr_absolute w = abs_str a \<and> CHR ''/'' \<notin> set uuid
               \<and> t = abs_str (temp_segs a uuid) \<and> node_at d (temp_segs a uuid) = Some (FileI (wr_content w))))"

text \<open>The calls of a queue are for one file below the root, whose name is not that of a temporary file; only
  the first of them has started.\<close>

definition queue_ok :: "string list \<Rightarrow> string \<Rightarrow> (writer \<times> wr_phase) list \<Rightarrow> bool" where
  "queue_ok R key q \<longleftrightarrow> (\<exists>z. plain_segs (R @ z) \<and> key = abs_str R @ ''::'' @ (if z = [] then ''.'' else join_slash z)
      \<and> \<not> is_infix_of SUFFIX (join_slash z) \<and> (\<forall>w \<in> fst ` set q. wr_absolute w = abs_str (R @ z)))
    \<and> (\<forall>p \<in> set (tl q). snd p = Checking)"

definition service_ok :: "os \<Rightarrow> string list \<Rightarrow> fs_service \<Rightarrow> bool" where
  "service_ok e R s \<longleftrightarrow> tree_ok (fv_disk s) \<and> jm_ok (fv_locks s)
     \<and> (\<forall>key q. map_of (fv_locks s) key = Some q \<longrightarrow> queue_ok R key q \<and> (q \<noteq> [] \<longrightarrow> head_ok e (fv_disk s) (fst (hd q)) (snd (hd q))))
     \<and> (\<forall>key q key' q' t. key \<noteq> key' \<longrightarrow> map_of (fv_locks s) key = Some q \<longrightarrow> map_of (fv_locks s) key' = Some q'
          \<longrightarrow> q \<noteq> [] \<longrightarrow> q' \<noteq> [] \<longrightarrow> snd (hd q) = TempWritten t \<longrightarrow> snd (hd q') \<noteq> TempWritten t)"

text \<open>A mutation spares the file and the temporary file of the call that holds a lock, once that call has made
  its check.\<close>

definition at_path :: "disk \<Rightarrow> string \<Rightarrow> inode option" where
  "at_path d p = node_at d (norm_segs [] (split_slash p))"

definition spares :: "disk \<Rightarrow> disk \<Rightarrow> (writer \<times> wr_phase) list \<Rightarrow> bool" where
  "spares d d' q \<longleftrightarrow> (case q of [] \<Rightarrow> True | (w, ph) # _ \<Rightarrow>
     (case ph of Checking \<Rightarrow> True
      | Checked \<Rightarrow> at_path d' (wr_absolute w) = at_path d (wr_absolute w)
      | TempWritten t \<Rightarrow> at_path d' (wr_absolute w) = at_path d (wr_absolute w) \<and> at_path d' t = at_path d t))"

text \<open>The runs considered: the writes name one root and no file that looks like a temporary one, every
  temporary name is new, and a mutation (under any root) spares the calls that have made their check.\<close>

fun one_project :: "host \<Rightarrow> os \<Rightarrow> string \<Rightarrow> fs_event \<Rightarrow> fs_service \<Rightarrow> bool" where
  "one_project h e root (WriteCall i root' relPath content expected allowCreate) s \<longleftrightarrow>
     root' = root \<and> (case relPath of None \<Rightarrow> True | Some p \<Rightarrow>
       (case resolveSafePath h root p of Inl _ \<Rightarrow> True | Inr (_, rel) \<Rightarrow> \<not> is_infix_of SUFFIX rel))"
| "one_project h e root (WriteStep key uuid now) s \<longleftrightarrow>
     CHR ''/'' \<notin> set uuid \<and> (case map_of (fv_locks s) key of
        Some ((w, Checked) # q) \<Rightarrow> node_at (fv_disk s) (norm_segs [] (split_slash (temp_path w uuid))) = None
      | _ \<Rightarrow> True)"
| "one_project h e root (Mutation root' body d0 d1 now) s \<longleftrightarrow>
     list_all (\<lambda>l. spares (fv_disk s) (fv_disk (mutate h e now root' body d0 d1 s)) (snd l)) (fv_locks s)"

lemma join_slash_last: "z \<noteq> [] \<Longrightarrow> \<exists>u. join_slash z = u @ last z"
  by (induction z rule: join_slash.induct) (auto intro: exI [of _ "[]"] exI [of _ "_ @ ''/'' @ _"])

lemma temp_has_suffix: "is_infix_of SUFFIX (abs_str (temp_segs a uuid))"
proof -
  obtain u where "join_slash (temp_segs a uuid) = u @ last a @ SUFFIX @ uuid"
    using join_slash_last [of "temp_segs a uuid"] by (auto simp: temp_segs_def)
  then have "abs_str (temp_segs a uuid) = (''/'' @ u @ last a) @ SUFFIX @ uuid"
    by (simp add: abs_str_def)
  then show ?thesis unfolding is_infix_of_iff by blast
qed

lemma temp_not_target:
  assumes "\<not> is_infix_of SUFFIX (join_slash z)" "R @ y \<noteq> []"
  shows "temp_segs (R @ y) uuid \<noteq> R @ z"
proof
  assume eq: "temp_segs (R @ y) uuid = R @ z"
  show False
  proof (cases "y = []")
    case True
    have "length (temp_segs (R @ y) uuid) = length R"
      using assms(2) True by (simp add: temp_segs_def)
    then have "z = []" using eq by simp
    then have "last R @ SUFFIX @ uuid = last R"
      using eq True assms(2) by (metis append_Nil2 last_snoc temp_segs_def)
    then show False using SUFFIX_plain by simp
  next
    case False
    then have "z = butlast y @ [last y @ SUFFIX @ uuid]"
      using eq by (simp add: temp_segs_def butlast_append)
    then obtain u where "join_slash z = (u @ last y) @ SUFFIX @ uuid"
      using join_slash_last [of z] by auto
    then show False using assms(1) unfolding is_infix_of_iff by blast
  qed
qed

lemma service_head:
  assumes "service_ok e R s" "map_of (fv_locks s) key = Some ((w, ph) # q)"
  shows "head_ok e (fv_disk s) w ph"
    "\<exists>z. plain_segs (R @ z) \<and> key = abs_str R @ ''::'' @ (if z = [] then ''.'' else join_slash z)
      \<and> \<not> is_infix_of SUFFIX (join_slash z) \<and> wr_absolute w = abs_str (R @ z)"
  using assms by (fastforce simp: service_ok_def queue_ok_def)+

lemma service_temps:
  assumes "service_ok e R s" "map_of (fv_locks s) key = Some ((w, ph) # q)"
    "map_of (fv_locks s) key' = Some ((w', ph') # q')" "key \<noteq> key'" "ph = TempWritten t"
  shows "ph' \<noteq> TempWritten t"
proof -
  have "\<And>x y. map_of (fv_locks s) key = Some x \<Longrightarrow> map_of (fv_locks s) key' = Some y \<Longrightarrow> x \<noteq> [] \<Longrightarrow> y \<noteq> []
      \<Longrightarrow> snd (hd x) = TempWritten t \<Longrightarrow> snd (hd y) \<noteq> TempWritten t"
    using assms(1,4) unfolding service_ok_def by blast
  from this [OF assms(2,3)] assms(5) show ?thesis by simp
qed

text \<open>A step of one call does not disturb the head of another queue.\<close>

lemma other_head:
  assumes ok: "service_ok e R s" and k: "map_of (fv_locks s) key = Some ((w, ph) # q)"
    and k': "map_of (fv_locks s) key' = Some ((w', ph') # q')" and ne: "key \<noteq> key'"
    and tree: "tree_ok d'" and a: "plain_segs a" "wr_absolute w = abs_str a" "a \<noteq> []"
    and same: "\<And>p. p \<noteq> temp_segs a uuid \<Longrightarrow> p \<noteq> a \<Longrightarrow> node_at d' p = node_at (fv_disk s) p"
    and fresh: "node_at (fv_disk s) (temp_segs a uuid) = None \<or> ph = TempWritten (abs_str (temp_segs a uuid))"
  shows "head_ok e d' w' ph'"
proof -
  have tree0: "tree_ok (fv_disk s)" using ok by (simp add: service_ok_def)
  obtain z where z: "plain_segs (R @ z)" "key = abs_str R @ ''::'' @ (if z = [] then ''.'' else join_slash z)"
    "\<not> is_infix_of SUFFIX (join_slash z)" "wr_absolute w = abs_str (R @ z)"
    using service_head(2) [OF ok k] by blast
  obtain y where y: "plain_segs (R @ y)" "key' = abs_str R @ ''::'' @ (if y = [] then ''.'' else join_slash y)"
    "\<not> is_infix_of SUFFIX (join_slash y)" "wr_absolute w' = abs_str (R @ y)"
    using service_head(2) [OF ok k'] by blast
  have aR: "a = R @ z" using a z(1,4) abs_str_inj by auto
  have "y \<noteq> z" using ne z(2) y(2) by auto
  moreover have "temp_segs a uuid \<noteq> R @ y" unfolding aR using y(3) a(3) aR by (intro temp_not_target) simp_all
  ultimately have at_y: "node_at d' (R @ y) = node_at (fv_disk s) (R @ y)" using same aR by simp
  have check: "write_check e d' w' = write_check e (fv_disk s) w'"
    by (rule write_check_cong [OF tree0 tree y(1,4) at_y])
  show ?thesis
  proof (cases ph')
    case (TempWritten t)
    then obtain b u where b: "plain_segs b" "b \<noteq> []" "wr_absolute w' = abs_str b" "CHR ''/'' \<notin> set u"
      "t = abs_str (temp_segs b u)" "node_at (fv_disk s) (temp_segs b u) = Some (FileI (wr_content w'))"
      using service_head(1) [OF ok k'] by (auto simp: head_ok_def)
    have bR: "b = R @ y" using b(1,3) y(1,4) abs_str_inj by auto
    have "temp_segs b u \<noteq> a" unfolding aR bR using z(3) b(2) bR by (intro temp_not_target) simp_all
    moreover have "temp_segs b u \<noteq> temp_segs a uuid"
      using fresh
    proof
      assume "ph = TempWritten (abs_str (temp_segs a uuid))"
      then have "t \<noteq> abs_str (temp_segs a uuid)"
        using service_temps [OF ok k k' ne] TempWritten by simp
      then show ?thesis using b(5) by auto
    qed (use b(6) in auto)
    ultimately have "node_at d' (temp_segs b u) = Some (FileI (wr_content w'))" using same b(6) by simp
    then show ?thesis
      using service_head(1) [OF ok k'] b check TempWritten by (auto simp: head_ok_def)
  qed (use service_head(1) [OF ok k'] check in \<open>simp_all add: head_ok_def\<close>)
qed

text \<open>One queue moves on: its head changes, or it goes.\<close>

lemma service_moves_on:
  assumes ok: "service_ok e R s" and k: "map_of (fv_locks s) key = Some (p # q)" and tree: "tree_ok d'"
    and others: "\<And>key' w' ph' q'. key' \<noteq> key \<Longrightarrow> map_of (fv_locks s) key' = Some ((w', ph') # q') \<Longrightarrow> head_ok e d' w' ph'"
    and q2: "fst ` set q2 \<subseteq> fst ` set (p # q)" "\<forall>x \<in> set (tl q2). snd x = Checking"
      "q2 \<noteq> [] \<Longrightarrow> head_ok e d' (fst (hd q2)) (snd (hd q2))"
    and temps: "\<And>t key' w' ph' q'. q2 \<noteq> [] \<Longrightarrow> snd (hd q2) = TempWritten t \<Longrightarrow> key' \<noteq> key
      \<Longrightarrow> map_of (fv_locks s) key' = Some ((w', ph') # q') \<Longrightarrow> ph' \<noteq> TempWritten t"
  shows "service_ok e R (s\<lparr>fv_disk := d', fv_locks := (if q2 = [] then AList.delete key (fv_locks s)
      else AList.update key q2 (fv_locks s)), fv_replies := rs\<rparr>)"
proof -
  let ?L = "if q2 = [] then AList.delete key (fv_locks s) else AList.update key q2 (fv_locks s)"
  have L: "map_of ?L k1 = Some x \<longleftrightarrow> (if k1 = key then q2 \<noteq> [] \<and> x = q2 else map_of (fv_locks s) k1 = Some x)" for k1 x
    by (auto simp: jm_get_set jm_get_del)
  have qok: "queue_ok R key q2"
  proof -
    have "queue_ok R key (p # q)" using ok k by (simp add: service_ok_def)
    then obtain z where "plain_segs (R @ z)" "key = abs_str R @ ''::'' @ (if z = [] then ''.'' else join_slash z)"
      "\<not> is_infix_of SUFFIX (join_slash z)" "\<forall>w \<in> fst ` set (p # q). wr_absolute w = abs_str (R @ z)"
      by (auto simp: queue_ok_def)
    moreover from this have "\<forall>w \<in> fst ` set q2. wr_absolute w = abs_str (R @ z)"
      using q2(1) by (meson subsetD)
    ultimately show ?thesis using q2(2) unfolding queue_ok_def by blast
  qed
  show ?thesis
    unfolding service_ok_def
  proof (intro conjI allI impI)
    show "tree_ok (fv_disk (s\<lparr>fv_disk := d', fv_locks := ?L, fv_replies := rs\<rparr>))" using tree by simp
    show "jm_ok (fv_locks (s\<lparr>fv_disk := d', fv_locks := ?L, fv_replies := rs\<rparr>))"
      using ok by (auto simp: service_ok_def distinct_update distinct_delete)
  next
    fix k1 x assume m: "map_of (fv_locks (s\<lparr>fv_disk := d', fv_locks := ?L, fv_replies := rs\<rparr>)) k1 = Some x"
    then show "queue_ok R k1 x" using qok ok L [of k1 x] by (auto simp: service_ok_def split: if_splits)
    assume "x \<noteq> []"
    then show "head_ok e (fv_disk (s\<lparr>fv_disk := d', fv_locks := ?L, fv_replies := rs\<rparr>)) (fst (hd x)) (snd (hd x))"
      using m L [of k1 x] q2(3) others [of k1 "fst (hd x)" "snd (hd x)" "tl x"] by (auto split: if_splits)
  next
    fix k1 x k2 y t
    assume ne: "k1 \<noteq> k2" and m1: "map_of (fv_locks (s\<lparr>fv_disk := d', fv_locks := ?L, fv_replies := rs\<rparr>)) k1 = Some x"
      and m2: "map_of (fv_locks (s\<lparr>fv_disk := d', fv_locks := ?L, fv_replies := rs\<rparr>)) k2 = Some y"
      and xy: "x \<noteq> []" "y \<noteq> []" and t: "snd (hd x) = TempWritten t"
    obtain w ph x' where x: "x = (w, ph) # x'" using xy(1) by (cases x) auto
    obtain w' ph' y' where y: "y = (w', ph') # y'" using xy(2) by (cases y) auto
    have l1: "map_of ?L k1 = Some x" and l2: "map_of ?L k2 = Some y" using m1 m2 by simp_all
    consider "k1 = key" | "k2 = key" "k1 \<noteq> key" | "k1 \<noteq> key" "k2 \<noteq> key" by blast
    then show "snd (hd y) \<noteq> TempWritten t"
    proof cases
      case 1
      then show ?thesis using temps [of t k2 w' ph' y'] l1 l2 L [of k1 x] L [of k2 y] ne t y by auto
    next
      case 2
      then show ?thesis using temps [of t k1 w ph x'] l1 l2 L [of k1 x] L [of k2 y] t x by auto
    next
      case 3
      then show ?thesis using service_temps [OF ok _ _ ne, of w ph x' w' ph' y' t] l1 l2 L [of k1 x] L [of k2 y] t x y by simp
    qed
  qed
qed

lemma lock_done_eq:
  "map_of (fv_locks s) key = Some (p # q) \<Longrightarrow> lock_done key i r (s\<lparr>fv_disk := d\<rparr>) =
     s\<lparr>fv_disk := d, fv_locks := (if q = [] then AList.delete key (fv_locks s) else AList.update key q (fv_locks s)),
       fv_replies := fv_replies s @ [(i, r)]\<rparr>"
  by (cases s) (simp add: lock_done_def)

lemma lock_head_eq:
  "map_of (fv_locks s) key = Some (p # q) \<Longrightarrow> lock_head key p' (s\<lparr>fv_disk := d\<rparr>) =
     s\<lparr>fv_disk := d, fv_locks := (if p' # q = [] then AList.delete key (fv_locks s) else AList.update key (p' # q) (fv_locks s)),
       fv_replies := fv_replies s\<rparr>"
  by (cases s) (simp add: lock_head_def)

lemma disk_same: "(s :: fs_service)\<lparr>fv_disk := fv_disk s\<rparr> = s"
  by (cases s) simp

text \<open>The next call of the queue starts with the lock.\<close>

lemma service_done:
  assumes ok: "service_ok e R s" and k: "map_of (fv_locks s) key = Some (p # q)" and tree: "tree_ok d'"
    and others: "\<And>key' w' ph' q'. key' \<noteq> key \<Longrightarrow> map_of (fv_locks s) key' = Some ((w', ph') # q') \<Longrightarrow> head_ok e d' w' ph'"
  shows "service_ok e R (lock_done key i r (s\<lparr>fv_disk := d'\<rparr>))"
proof -
  have "queue_ok R key (p # q)" using ok k by (simp add: service_ok_def)
  then have q: "\<forall>x \<in> set q. snd x = Checking" by (simp add: queue_ok_def)
  then have "snd (hd q) = Checking" if "q \<noteq> []" using that by simp
  moreover have "\<forall>x \<in> set (tl q). snd x = Checking" using q by (cases q) auto
  ultimately show ?thesis
    unfolding lock_done_eq [OF k]
    by (intro service_moves_on [OF ok k tree others]) (auto simp: head_ok_def)
qed

lemma service_head_moves:
  assumes ok: "service_ok e R s" and k: "map_of (fv_locks s) key = Some ((w, ph) # q)" and tree: "tree_ok d'"
    and others: "\<And>key' w' ph' q'. key' \<noteq> key \<Longrightarrow> map_of (fv_locks s) key' = Some ((w', ph') # q') \<Longrightarrow> head_ok e d' w' ph'"
    and head: "head_ok e d' w ph1"
    and temps: "\<And>t key' w' ph' q'. ph1 = TempWritten t \<Longrightarrow> key' \<noteq> key
      \<Longrightarrow> map_of (fv_locks s) key' = Some ((w', ph') # q') \<Longrightarrow> ph' \<noteq> TempWritten t"
  shows "service_ok e R (lock_head key (w, ph1) (s\<lparr>fv_disk := d'\<rparr>))"
proof -
  have "queue_ok R key ((w, ph) # q)" using ok k by (simp add: service_ok_def)
  then have q: "\<forall>x \<in> set q. snd x = Checking" by (simp add: queue_ok_def)
  show ?thesis
    unfolding lock_head_eq [OF k] by (rule service_moves_on [OF ok k tree others]) (use q head temps in auto)
qed

text \<open>What a step may change: a temporary file, or the file of the call whose check still holds.\<close>

definition lawful :: "os \<Rightarrow> string \<Rightarrow> fs_service \<Rightarrow> disk \<Rightarrow> bool" where
  "lawful e key s d' \<longleftrightarrow> (\<forall>p. node_at d' p \<noteq> node_at (fv_disk s) p \<longrightarrow>
     (\<exists>w ph q. map_of (fv_locks s) key = Some ((w, ph) # q)
        \<and> (is_infix_of SUFFIX (abs_str p)
           \<or> wr_absolute w = abs_str p \<and> write_check e (fv_disk s) w = None
             \<and> node_at d' p = Some (FileI (wr_content w)))))"

lemma lawful_same: "lawful e key s (fv_disk s)"
  by (simp add: lawful_def)

lemma checking_step:
  assumes ok: "service_ok e R s" and k: "map_of (fv_locks s) key = Some ((w, Checking) # q)"
  shows "service_ok e R (write_step e key uuid now s) \<and> lawful e key s (fv_disk (write_step e key uuid now s))"
proof -
  have tree: "tree_ok (fv_disk s)" using ok by (simp add: service_ok_def)
  have others: "head_ok e (fv_disk s) w' ph'" if "map_of (fv_locks s) key' = Some ((w', ph') # q')" for key' w' ph' q'
    using service_head(1) [OF ok that] .
  show ?thesis
  proof (cases "write_check e (fv_disk s) w")
    case None
    then have "write_step e key uuid now s = lock_head key (w, Checked) (s\<lparr>fv_disk := fv_disk s\<rparr>)"
      using k by (simp add: write_step_def disk_same)
    moreover have "service_ok e R (lock_head key (w, Checked) (s\<lparr>fv_disk := fv_disk s\<rparr>))"
      by (rule service_head_moves [OF ok k tree others]) (simp_all add: head_ok_def None)
    ultimately show ?thesis by (simp add: lock_head_def lawful_same)
  next
    case (Some err)
    then have "write_step e key uuid now s = lock_done key (wr_id w) (Inl err) (s\<lparr>fv_disk := fv_disk s\<rparr>)"
      using k by (simp add: write_step_def disk_same)
    moreover have "service_ok e R (lock_done key (wr_id w) (Inl err) (s\<lparr>fv_disk := fv_disk s\<rparr>))"
      by (rule service_done [OF ok k tree others])
    ultimately show ?thesis by (simp add: lock_done_def Let_def lawful_same)
  qed
qed

lemma checked_step:
  assumes ok: "service_ok e R s" and k: "map_of (fv_locks s) key = Some ((w, Checked) # q)"
    and uuid: "CHR ''/'' \<notin> set uuid" and new: "node_at (fv_disk s) (norm_segs [] (split_slash (temp_path w uuid))) = None"
  shows "service_ok e R (write_step e key uuid now s) \<and> lawful e key s (fv_disk (write_step e key uuid now s))"
proof -
  have tree: "tree_ok (fv_disk s)" using ok by (simp add: service_ok_def)
  obtain z where z: "plain_segs (R @ z)" "\<not> is_infix_of SUFFIX (join_slash z)" "wr_absolute w = abs_str (R @ z)"
    using service_head(2) [OF ok k] by blast
  have check: "write_check e (fv_disk s) w = None" using service_head(1) [OF ok k] by (simp add: head_ok_def)
  have a0: "R @ z \<noteq> []" using write_check_not_dir [OF tree z(1,3) check] by auto
  let ?t = "temp_segs (R @ z) uuid"
  have t: "plain_segs ?t" "?t \<noteq> []" "temp_path w uuid = abs_str ?t"
    using temp_plain [OF z(1) a0 uuid] temp_path_segs [OF z(3) a0] by (simp_all add: temp_segs_def)
  have none: "node_at (fv_disk s) ?t = None" using new t by (simp only: split_abs)
  have tz: "?t \<noteq> R @ z" using temp_not_target [OF z(2) a0] .
  obtain r d' where wt: "write_temp e now (abs_str ?t) w (fv_disk s) = (r, d')" by fastforce
  note effect = write_temp_effect [OF tree t(1,2) none wt]
  show ?thesis
  proof (cases r)
    case (Some err)
    then have "d' = fv_disk s" using effect by simp
    then have "write_step e key uuid now s = lock_done key (wr_id w) (Inl (err, None)) (s\<lparr>fv_disk := fv_disk s\<rparr>)"
      using k wt Some by (simp add: write_step_def t(3) disk_same)
    moreover have "service_ok e R (lock_done key (wr_id w) (Inl (err, None)) (s\<lparr>fv_disk := fv_disk s\<rparr>))"
      by (rule service_done [OF ok k tree]) (rule service_head(1) [OF ok])
    ultimately show ?thesis by (simp add: lock_done_def Let_def lawful_same)
  next
    case None
    then have e1: "real_dir (fv_disk s) (butlast ?t)"
      and e2: "\<And>p. node_at d' p = (if p = ?t then Some (FileI (wr_content w)) else node_at (fv_disk s) p)"
      using effect by simp_all
    have tree': "tree_ok d'"
      by (rule tree_ok_change [OF tree]) (use e1 e2 none in auto)
    have head: "head_ok e d' w (TempWritten (abs_str ?t))"
    proof -
      have "write_check e d' w = None"
        using write_check_cong [OF tree tree' z(1,3)] e2 tz check by simp
      then show ?thesis
        unfolding head_ok_def using z a0 uuid e2 [of ?t] by (simp, intro exI [of _ "R @ z"] conjI exI [of _ uuid]) simp_all
    qed
    have "write_step e key uuid now s = lock_head key (w, TempWritten (abs_str ?t)) (s\<lparr>fv_disk := d'\<rparr>)"
      using k wt None by (simp add: write_step_def t(3))
    moreover have "service_ok e R (lock_head key (w, TempWritten (abs_str ?t)) (s\<lparr>fv_disk := d'\<rparr>))"
    proof (rule service_head_moves [OF ok k tree' _ head])
      show "head_ok e d' w' ph'" if "key' \<noteq> key" "map_of (fv_locks s) key' = Some ((w', ph') # q')" for key' w' ph' q'
        by (rule other_head [OF ok k that(2) that(1) [symmetric] tree' z(1,3) a0]) (use e2 none in auto)
      fix t0 key' w' ph' q'
      assume t0: "TempWritten (abs_str ?t) = TempWritten t0" and m: "map_of (fv_locks s) key' = Some ((w', ph') # q')"
      show "ph' \<noteq> TempWritten t0"
      proof
        assume ph': "ph' = TempWritten t0"
        obtain b u where b: "plain_segs b" "b \<noteq> []" "CHR ''/'' \<notin> set u" "t0 = abs_str (temp_segs b u)"
          "node_at (fv_disk s) (temp_segs b u) = Some (FileI (wr_content w'))"
          using service_head(1) [OF ok m] ph' by (auto simp: head_ok_def)
        then have "temp_segs b u = ?t" using t0 t(1) temp_plain [OF b(1-3)] abs_str_inj by auto
        then show False using b(5) none by simp
      qed
    qed
    moreover have "lawful e key s d'"
      using k e2 temp_has_suffix by (auto simp: lawful_def)
    ultimately show ?thesis by (simp add: lock_head_def)
  qed
qed

lemma rename_step:
  assumes ok: "service_ok e R s" and k: "map_of (fv_locks s) key = Some ((w, TempWritten t0) # q)"
  shows "service_ok e R (write_step e key uuid now s) \<and> lawful e key s (fv_disk (write_step e key uuid now s))"
proof -
  have tree: "tree_ok (fv_disk s)" using ok by (simp add: service_ok_def)
  obtain z where z: "plain_segs (R @ z)" "\<not> is_infix_of SUFFIX (join_slash z)" "wr_absolute w = abs_str (R @ z)"
    using service_head(2) [OF ok k] by blast
  obtain a u where a: "plain_segs a" "a \<noteq> []" "wr_absolute w = abs_str a" "CHR ''/'' \<notin> set u"
    "t0 = abs_str (temp_segs a u)" "node_at (fv_disk s) (temp_segs a u) = Some (FileI (wr_content w))"
    and check: "write_check e (fv_disk s) w = None"
    using service_head(1) [OF ok k] by (auto simp: head_ok_def)
  let ?t = "temp_segs a u"
  have aR: "a = R @ z" using a(1,3) z(1,3) abs_str_inj by auto
  have t: "plain_segs ?t" "?t \<noteq> []" using temp_plain [OF a(1,2,4)] by (simp_all add: temp_segs_def)
  have ta: "?t \<noteq> a" unfolding aR using z(2) a(2) aR by (intro temp_not_target) simp_all
  obtain r d' where wr: "write_rename e now (abs_str ?t) w (fv_disk s) = (r, d')" by fastforce
  note effect = write_rename_effect [OF tree t a(1,2) ta a(3,6) wr]
  have e1: "node_at d' p = node_at (fv_disk s) p" if "p \<noteq> ?t" "p \<noteq> a" for p using conjunct1 [OF effect] that by simp
  have e2: "node_at d' ?t = node_at (fv_disk s) ?t \<or> node_at d' ?t = None" by (rule conjunct1 [OF conjunct2 [OF effect]])
  have e3: "node_at d' a = node_at (fv_disk s) a \<or> node_at d' a = Some (FileI (wr_content w))
      \<and> node_at (fv_disk s) a \<noteq> Some DirI \<and> real_dir (fv_disk s) (butlast a)" by (rule conjunct2 [OF conjunct2 [OF effect]])
  have tree': "tree_ok d'"
  proof (rule tree_ok_change [OF tree])
    fix p assume ne: "node_at d' p \<noteq> node_at (fv_disk s) p"
    then consider "p = ?t" | "p = a" using e1 by blast
    then show "node_at (fv_disk s) p \<noteq> Some DirI \<and> (node_at d' p = None
        \<or> (\<exists>c. node_at d' p = Some (FileI c)) \<and> real_dir (fv_disk s) (butlast p))"
    proof cases
      case 1
      then show ?thesis using ne e2 a(6) by simp
    next
      case 2
      then show ?thesis using ne e3 by blast
    qed
  qed
  have "write_step e key uuid now s = lock_done key (wr_id w) r (s\<lparr>fv_disk := d'\<rparr>)"
    using k wr by (simp add: write_step_def a(5))
  moreover have "service_ok e R (lock_done key (wr_id w) r (s\<lparr>fv_disk := d'\<rparr>))"
  proof (rule service_done [OF ok k tree'])
    show "head_ok e d' w' ph'" if "key' \<noteq> key" "map_of (fv_locks s) key' = Some ((w', ph') # q')" for key' w' ph' q'
      by (rule other_head [OF ok k that(2) that(1) [symmetric] tree' a(1,3,2)]) (use e1 a(5) in auto)
  qed
  moreover have "lawful e key s d'"
    unfolding lawful_def
  proof (intro allI impI)
    fix p assume ne: "node_at d' p \<noteq> node_at (fv_disk s) p"
    then have "p = ?t \<or> p = a" using e1 by blast
    then show "\<exists>w ph q. map_of (fv_locks s) key = Some ((w, ph) # q)
        \<and> (is_infix_of SUFFIX (abs_str p)
           \<or> wr_absolute w = abs_str p \<and> write_check e (fv_disk s) w = None \<and> node_at d' p = Some (FileI (wr_content w)))"
      using k temp_has_suffix [of a u] check a(3) e3 ne by blast
  qed
  ultimately show ?thesis by (simp add: lock_done_def Let_def)
qed

lemma write_step_ok:
  assumes ok: "service_ok e R s" and guard: "one_project h e root (WriteStep key uuid now) s"
  shows "service_ok e R (write_step e key uuid now s) \<and> lawful e key s (fv_disk (write_step e key uuid now s))"
proof (cases "map_of (fv_locks s) key")
  case None
  then show ?thesis using ok by (simp add: write_step_def lawful_same)
next
  case (Some q0)
  show ?thesis
  proof (cases q0)
    case Nil
    then show ?thesis using Some ok by (simp add: write_step_def lawful_same)
  next
    case (Cons p q)
    then obtain w ph where k: "map_of (fv_locks s) key = Some ((w, ph) # q)" using Some by (cases p) simp
    show ?thesis
    proof (cases ph)
      case Checking
      then show ?thesis using checking_step [OF ok] k by simp
    next
      case Checked
      then show ?thesis using checked_step [OF ok, of key w q uuid now] k guard by simp
    next
      case (TempWritten t)
      then show ?thesis using rename_step [OF ok] k by simp
    qed
  qed
qed

subsection \<open>Calls\<close>

lemma rel_name_inj:
  assumes "plain_segs y" "plain_segs z" "(if y = [] then ''.'' else join_slash y) = (if z = [] then ''.'' else join_slash z)"
  shows "y = z"
proof -
  have dot: "join_slash x \<noteq> ''.''" if "plain_segs x" for x
    using that split_join [of x] by (cases "x = []") (auto simp: plain_seg_def)
  show ?thesis
    using assms(3) dot [OF assms(1)] dot [OF assms(2)] join_slash_inj [OF assms(1,2)]
    by (cases "y = []"; cases "z = []") auto
qed

lemma queue_okI:
  "\<lbrakk>plain_segs (R @ z); key = abs_str R @ ''::'' @ (if z = [] then ''.'' else join_slash z);
    \<not> is_infix_of SUFFIX (join_slash z); \<And>w. w \<in> fst ` set q \<Longrightarrow> wr_absolute w = abs_str (R @ z);
    \<And>x. x \<in> set (tl q) \<Longrightarrow> snd x = Checking\<rbrakk> \<Longrightarrow> queue_ok R key q"
  unfolding queue_ok_def by blast

lemma lock_append_ok:
  assumes ok: "service_ok e R s" and z: "plain_segs (R @ z)" "\<not> is_infix_of SUFFIX (join_slash z)"
    "wr_absolute w = abs_str (R @ z)"
  shows "service_ok e R (lock_append (abs_str R @ ''::'' @ (if z = [] then ''.'' else join_slash z)) w s)"
proof -
  define key where "key = abs_str R @ ''::'' @ (if z = [] then ''.'' else join_slash z)"
  define q0 where "q0 = (case map_of (fv_locks s) key of None \<Rightarrow> [] | Some q \<Rightarrow> q)"
  let ?L = "AList.update key (q0 @ [(w, Checking)]) (fv_locks s)"
  have q0: "queue_ok R key (q0 @ [(w, Checking)])"
  proof (cases "map_of (fv_locks s) key")
    case None
    then show ?thesis by (intro queue_okI [OF z(1) key_def z(2)]) (simp_all add: q0_def z(3))
  next
    case (Some q)
    then have "queue_ok R key q" using ok by (simp add: service_ok_def)
    then obtain y where y: "plain_segs (R @ y)" "key = abs_str R @ ''::'' @ (if y = [] then ''.'' else join_slash y)"
      "\<forall>w \<in> fst ` set q. wr_absolute w = abs_str (R @ y)" and t: "\<forall>x \<in> set (tl q). snd x = Checking"
      by (auto simp: queue_ok_def)
    have "y = z" using rel_name_inj [of y z] y(1,2) z(1) by (simp add: key_def)
    moreover have "\<forall>x \<in> set (tl (q @ [(w, Checking)])). snd x = Checking" using t by (cases q) auto
    ultimately show ?thesis
      using y(3) Some z(3) by (intro queue_okI [OF z(1) key_def z(2)]) (auto simp: q0_def)
  qed
  have L: "map_of ?L k1 = (if k1 = key then Some (q0 @ [(w, Checking)]) else map_of (fv_locks s) k1)" for k1
    by (simp add: jm_get_set)
  have hd0: "q0 = [] \<and> hd (q0 @ [(w, Checking)]) = (w, Checking)
      \<or> q0 \<noteq> [] \<and> map_of (fv_locks s) key = Some q0 \<and> hd (q0 @ [(w, Checking)]) = hd q0"
    by (cases q0) (auto simp: q0_def split: option.splits)
  have head: "head_ok e (fv_disk s) (fst (hd x)) (snd (hd x))" if "map_of ?L k1 = Some x" "x \<noteq> []" for k1 x
  proof (cases "k1 = key \<and> q0 = []")
    case True
    then have "x = [(w, Checking)]" using that(1) L [of k1] by simp
    then show ?thesis by (simp add: head_ok_def)
  next
    case False
    note x = that
    obtain q where "map_of (fv_locks s) k1 = Some q" "q \<noteq> []" "hd q = hd x"
      using False x hd0 by (cases "k1 = key") (auto simp: L)
    then show ?thesis using ok unfolding service_ok_def by metis
  qed
  have old: "(\<exists>q. map_of (fv_locks s) k1 = Some q \<and> q \<noteq> [] \<and> hd q = hd x)" if "map_of ?L k1 = Some x" "x \<noteq> []"
      "snd (hd x) \<noteq> Checking" for k1 x
    using that hd0 unfolding L by (auto split: if_splits)
  have "service_ok e R (s\<lparr>fv_locks := ?L\<rparr>)"
    unfolding service_ok_def
  proof (intro conjI allI impI)
    fix k1 x assume "map_of (fv_locks (s\<lparr>fv_locks := ?L\<rparr>)) k1 = Some x"
    then have m: "map_of ?L k1 = Some x" by simp
    then show "queue_ok R k1 x" using q0 ok by (auto simp: L service_ok_def split: if_splits)
    assume "x \<noteq> []"
    then show "head_ok e (fv_disk (s\<lparr>fv_locks := ?L\<rparr>)) (fst (hd x)) (snd (hd x))" using head [OF m] by simp
  next
    fix k1 x k2 y t
    assume ne: "k1 \<noteq> k2" and m: "map_of (fv_locks (s\<lparr>fv_locks := ?L\<rparr>)) k1 = Some x"
      "map_of (fv_locks (s\<lparr>fv_locks := ?L\<rparr>)) k2 = Some y" "x \<noteq> []" "y \<noteq> []" and t: "snd (hd x) = TempWritten t"
    show "snd (hd y) \<noteq> TempWritten t"
    proof
      assume ty: "snd (hd y) = TempWritten t"
      obtain p q where pq: "map_of (fv_locks s) k1 = Some p" "p \<noteq> []" "hd p = hd x"
        "map_of (fv_locks s) k2 = Some q" "q \<noteq> []" "hd q = hd y"
        using old [of k1 x] old [of k2 y] m t ty by auto
      have "hd x = (fst (hd x), TempWritten t)" "hd y = (fst (hd y), TempWritten t)" using t ty by (simp_all add: prod_eq_iff)
      then obtain w1 p' w2 q' where "p = (w1, TempWritten t) # p'" "q = (w2, TempWritten t) # q'"
        using pq by (metis list.collapse)
      then have "map_of (fv_locks s) k1 = Some ((w1, TempWritten t) # p')" "map_of (fv_locks s) k2 = Some ((w2, TempWritten t) # q')"
        using pq(1,4) by simp_all
      from service_temps [OF ok this ne refl] show False by simp
    qed
  qed (use ok in \<open>auto simp: service_ok_def distinct_update\<close>)
  then show ?thesis by (simp add: lock_append_def key_def q0_def Let_def)
qed

lemma resolve_abs: "resolve h root = abs_str (resolve_segs h root)"
  by (simp add: resolve_def)

lemma write_call_ok:
  assumes h: "host_ok h" and ok: "service_ok e (resolve_segs h root) s"
    and guard: "one_project h e root (WriteCall i root' relPath content expected allowCreate) s"
  shows "service_ok e (resolve_segs h root) (writeProjectFile h i root' relPath content expected allowCreate s)"
proof -
  let ?s = "writeProjectFile h i root' relPath content expected allowCreate s"
  have replied: "service_ok e (resolve_segs h root) (s\<lparr>fv_replies := rs\<rparr>)" for rs
    using ok by (simp add: service_ok_def)
  have "(\<exists>rs. ?s = s\<lparr>fv_replies := rs\<rparr>) \<or> (\<exists>p absolute rel. relPath = Some p
      \<and> resolveSafePath h root p = Inr (absolute, rel)
      \<and> ?s = lock_append (abs_str (resolve_segs h root) @ ''::'' @ rel)
          \<lparr>wr_id = i, wr_absolute = absolute, wr_content = content, wr_expected = expected, wr_allowCreate = allowCreate\<rparr> s)"
    using guard by (auto simp: writeProjectFile_def Let_def resolve_abs truthy_str_def
        split: option.split sum.split prod.split)
  then show ?thesis
  proof (elim disjE exE conjE)
    fix p absolute rel
    assume p: "relPath = Some p" "resolveSafePath h root p = Inr (absolute, rel)"
      and s': "?s = lock_append (abs_str (resolve_segs h root) @ ''::'' @ rel)
          \<lparr>wr_id = i, wr_absolute = absolute, wr_content = content, wr_expected = expected, wr_allowCreate = allowCreate\<rparr> s"
    obtain z where z: "absolute = abs_str (resolve_segs h root @ z)" "plain_segs (resolve_segs h root @ z)"
      "rel = (if z = [] then ''.'' else join_slash z)"
      using resolveSafePath_Inr [OF h p(2)] by metis
    have "\<not> is_infix_of SUFFIX (join_slash z)"
      using guard p(1,2) z(3) SUFFIX_plain(2) by (auto split: if_splits)
    then show ?thesis
      unfolding s' z(3) using lock_append_ok [OF ok z(2)] z(1) by simp
  qed (simp add: replied)
qed

lemma write_call_disk: "fv_disk (writeProjectFile h i root relPath content expected allowCreate s) = fv_disk s"
  by (simp add: writeProjectFile_def lock_append_def Let_def split: option.split sum.split prod.split)

lemma head_spared:
  assumes "tree_ok d" "tree_ok d'" "head_ok e d w ph" "spares d d' ((w, ph) # q)"
    and abs: "plain_segs a" "wr_absolute w = abs_str a"
  shows "head_ok e d' w ph"
proof (cases "ph = Checking")
  case False
  then have "at_path d' (wr_absolute w) = at_path d (wr_absolute w)"
    using assms(4) by (cases ph) (simp_all add: spares_def)
  then have "node_at d' a = node_at d a" by (simp only: at_path_def abs split_abs)
  then have check: "write_check e d' w = write_check e d w" by (rule write_check_cong [OF assms(1,2) abs])
  show ?thesis
  proof (cases ph)
    case (TempWritten t)
    then obtain b u where b: "plain_segs b" "b \<noteq> []" "wr_absolute w = abs_str b" "CHR ''/'' \<notin> set u"
      "t = abs_str (temp_segs b u)" "node_at d (temp_segs b u) = Some (FileI (wr_content w))" "write_check e d w = None"
      using assms(3) by (auto simp: head_ok_def)
    have "at_path d' t = at_path d t" using assms(4) TempWritten by (simp add: spares_def)
    then have "node_at d' (temp_segs b u) = node_at d (temp_segs b u)"
      using temp_plain [OF b(1,2,4)] by (simp only: at_path_def b(5) split_abs)
    then show ?thesis using b check TempWritten by (auto simp: head_ok_def)
  qed (use assms(3) check in \<open>simp_all add: head_ok_def\<close>)
qed (simp add: head_ok_def)

lemma mutation_ok:
  assumes ok: "service_ok e R s" and guard: "one_project h e root (Mutation root' body d0 d1 now) s"
  shows "service_ok e R (mutate h e now root' body d0 d1 s)"
proof (cases "run_op_at h e now root' body d0 d1 (fv_disk s)")
  case (Inr d)
  have tree: "tree_ok (fv_disk s)" using ok by (simp add: service_ok_def)
  have tree': "tree_ok d" by (rule run_op_tree_ok [OF tree Inr])
  have s': "mutate h e now root' body d0 d1 s = s\<lparr>fv_disk := d\<rparr>" using Inr by (simp add: mutate_def)
  have head: "head_ok e d (fst (hd q)) (snd (hd q))" if m: "map_of (fv_locks s) key = Some q" and ne: "q \<noteq> []" for key q
  proof -
    obtain w ph q' where q: "q = (w, ph) # q'" using ne by (cases q) auto
    have "spares (fv_disk s) d q"
      using guard map_of_SomeD [OF m] unfolding one_project.simps s' list_all_iff by force
    moreover obtain z where z: "plain_segs (R @ z)" "wr_absolute w = abs_str (R @ z)"
      using service_head(2) [OF ok m [unfolded q]] by blast
    ultimately show ?thesis
      using head_spared [OF tree tree' service_head(1) [OF ok m [unfolded q]] _ z] q by simp
  qed
  show ?thesis
    unfolding s' using ok tree' head by (simp add: service_ok_def)
qed (use ok in \<open>simp add: mutate_def\<close>)

interpretation project_writes: guarded_run "fs_step h e" "one_project h e root"
    "\<lambda>s. host_ok h \<and> service_ok e (resolve_segs h root) s" for h e root
proof unfold_locales
  show "host_ok h \<and> service_ok e (resolve_segs h root) (fs_step h e ev s)"
    if "one_project h e root ev s" "host_ok h \<and> service_ok e (resolve_segs h root) s" for ev s
  proof (cases ev)
    case (WriteCall i root' relPath content expected allowCreate)
    then show ?thesis using that write_call_ok by simp
  next
    case (WriteStep key uuid now)
    then show ?thesis using that write_step_ok by simp
  next
    case (Mutation root' body d0 d1 now)
    then show ?thesis using that mutation_ok by simp
  qed
qed

lemma along_both:
  "along step g es s \<Longrightarrow> along step k es s \<Longrightarrow> (\<And>e s. g e s \<Longrightarrow> k e s \<Longrightarrow> m e s) \<Longrightarrow> along step m es s"
  by (induction es arbitrary: s) auto

text \<open>C6: No write is lost to another write, nor to a mutation that respects it.  For writes that name one root
  string, on a tree without symbolic links, with no write under way at the start, temporary names that are new and no
  call for a file whose name contains \<open>.flockctl-tmp-\<close>, however their awaits interleave: apart from temporary files, a file
  changes only at the rename of a call whose \<open>expectedSha\<close> is still the hash of what is there at that moment,
  or which may create it and finds nothing, and it becomes the content of that call; or it is changed by
  mkdir, create, rename or delete.  These take no lock; they may come in between, under any root, as long as
  they leave alone the file of a call that has made its check and has not yet renamed, and the temporary file
  that it has written.  (Without that, or with two roots for one file, an edit is lost: lemmas
  \<open>mutation_within_a_write_is_lost\<close> and \<open>nested_roots_lose_a_write\<close>.)\<close>

theorem no_write_is_lost:
  assumes "host_ok h" "tree_ok (fv_disk s)" "fv_locks s = []" "along (fs_step h e) (one_project h e root) es s"
  shows "along (fs_step h e) (\<lambda>ev s. \<forall>p. node_at (fv_disk (fs_step h e ev s)) p \<noteq> node_at (fv_disk s) p \<longrightarrow>
      (\<exists>root' body d0 d1 now. ev = Mutation root' body d0 d1 now)
      \<or> (\<exists>key uuid now w ph q. ev = WriteStep key uuid now \<and> map_of (fv_locks s) key = Some ((w, ph) # q)
        \<and> (is_infix_of SUFFIX (abs_str p)
           \<or> wr_absolute w = abs_str p \<and> write_check e (fv_disk s) w = None
             \<and> node_at (fv_disk (fs_step h e ev s)) p = Some (FileI (wr_content w))))) es s"
proof (rule along_both [OF assms(4)])
  have "host_ok h \<and> service_ok e (resolve_segs h root) s" using assms by (simp add: service_ok_def)
  then show "along (fs_step h e) (\<lambda>_ s. host_ok h \<and> service_ok e (resolve_segs h root) s) es s"
    by (rule project_writes.run_always [OF assms(4)])
next
  fix ev s
  assume g: "one_project h e root ev s" and k: "host_ok h \<and> service_ok e (resolve_segs h root) s"
  show "\<forall>p. node_at (fv_disk (fs_step h e ev s)) p \<noteq> node_at (fv_disk s) p \<longrightarrow>
      (\<exists>root' body d0 d1 now. ev = Mutation root' body d0 d1 now)
      \<or> (\<exists>key uuid now w ph q. ev = WriteStep key uuid now \<and> map_of (fv_locks s) key = Some ((w, ph) # q)
        \<and> (is_infix_of SUFFIX (abs_str p)
           \<or> wr_absolute w = abs_str p \<and> write_check e (fv_disk s) w = None
             \<and> node_at (fv_disk (fs_step h e ev s)) p = Some (FileI (wr_content w))))"
  proof (cases ev)
    case (WriteCall i root' relPath content expected allowCreate)
    then show ?thesis by (simp add: write_call_disk)
  next
    case (WriteStep key uuid now)
    have "lawful e key s (fv_disk (write_step e key uuid now s))"
      using write_step_ok [of e "resolve_segs h root" s h root key uuid now] g k WriteStep by simp
    then show ?thesis unfolding WriteStep lawful_def by auto
  qed simp
qed

text \<open>Two writes that have read the same version, with a file created and one renamed in between.\<close>

definition two_writes :: "fs_event list" where
  "two_writes = [WriteCall 1 ''/srv/app'' (Some ''a'') ''one'' ''#hi'' False, WriteCall 2 ''/srv/app'' (Some ''a'') ''two'' ''#hi'' False,
     WriteStep ''/srv/app::a'' ''u'' 1, Mutation ''/srv'' (OpCreate ''app/b'' (Some ''x'')) plain_fs plain_fs 1,
     WriteStep ''/srv/app::a'' ''u'' 2, Mutation ''/srv/app'' (OpRename ''b'' ''c'') plain_fs plain_fs 2,
     WriteStep ''/srv/app::a'' ''u'' 3, WriteStep ''/srv/app::a'' ''v'' 4]"

definition quiet :: "disk \<Rightarrow> fs_service" where
  "quiet d = \<lparr>fv_disk = d, fv_locks = [], fv_replies = []\<rparr>"

text \<open>Of two calls that have read the same version one succeeds and the other is told.\<close>

lemma two_writes_replies: "fv_replies (fold (fs_step fs_host demo_os) two_writes (quiet plain_fs)) =
    [(1, Inr \<lparr>wc_sha = ''#one'', wc_mtime = 2, wc_size = 3\<rparr>), (2, Inl (fs_sha_conflict, Some ''#one''))]"
  by code_simp

lemma two_writes_one_project: "along (fs_step fs_host demo_os) (one_project fs_host demo_os ''/srv/app'') two_writes (quiet plain_fs)"
  by code_simp

lemma plain_tree_ok: "tree_ok plain_fs"
proof -
  have keys: "q \<in> {[], [''srv''], [''srv'', ''app''], [''srv'', ''app'', ''a'']}" if "node_at plain_fs q \<noteq> None" for q
    using that by (auto simp: node_at_def plain_fs_def split: if_splits)
  have "real_dir plain_fs [''srv'', ''app'']"
    using real_dir_snoc [of plain_fs "[''srv'']" "''app''"] real_dir_snoc [of plain_fs "[]" "''srv''"]
    by (simp add: node_at_def plain_fs_def)
  moreover have "real_dir plain_fs [''srv'']"
    using real_dir_snoc [of plain_fs "[]" "''srv''"] by (simp add: node_at_def plain_fs_def)
  ultimately have "real_dir plain_fs (butlast q)" if "node_at plain_fs q \<noteq> None" for q
    using keys [OF that] by auto
  then show ?thesis
    using links_free_at [OF plain_fs_links_free] by (simp add: tree_ok_def)
qed

theorem no_write_is_lost_witness:
  "along (fs_step fs_host demo_os) (\<lambda>ev s. \<forall>p. node_at (fv_disk (fs_step fs_host demo_os ev s)) p \<noteq> node_at (fv_disk s) p \<longrightarrow>
      (\<exists>root' body d0 d1 now. ev = Mutation root' body d0 d1 now)
      \<or> (\<exists>key uuid now w ph q. ev = WriteStep key uuid now \<and> map_of (fv_locks s) key = Some ((w, ph) # q)
        \<and> (is_infix_of SUFFIX (abs_str p)
           \<or> wr_absolute w = abs_str p \<and> write_check demo_os (fv_disk s) w = None
             \<and> node_at (fv_disk (fs_step fs_host demo_os ev s)) p = Some (FileI (wr_content w))))) two_writes (quiet plain_fs)"
  by (rule no_write_is_lost [OF fs_host_ok _ _ two_writes_one_project]) (simp_all add: quiet_def plain_tree_ok)

text \<open>The mutations take no lock: between the check of a write and its rename the file is deleted and a new one
  is created in its place; the write replaces it unseen and succeeds.\<close>

definition overtaken_write :: "fs_event list" where
  "overtaken_write =
     [WriteCall 1 ''/srv/app'' (Some ''a'') ''one'' ''#hi'' False, WriteStep ''/srv/app::a'' ''u'' 1,
      Mutation ''/srv/app'' (OpDelete ''a'' False) plain_fs plain_fs 1,
      Mutation ''/srv/app'' (OpCreate ''a'' (Some ''new'')) plain_fs plain_fs 2,
      WriteStep ''/srv/app::a'' ''u'' 3, WriteStep ''/srv/app::a'' ''u'' 4]"

theorem mutation_within_a_write_is_lost:
  "node_at (fv_disk (fold (fs_step fs_host demo_os) (take 4 overtaken_write) (quiet plain_fs))) [''srv'', ''app'', ''a'']
      = Some (FileI ''new'')
   \<and> (let s = fold (fs_step fs_host demo_os) overtaken_write (quiet plain_fs)
      in fv_replies s = [(1, Inr \<lparr>wc_sha = ''#one'', wc_mtime = 3, wc_size = 3\<rparr>)]
         \<and> node_at (fv_disk s) [''srv'', ''app'', ''a''] = Some (FileI ''one''))"
  by (intro conjI; code_simp)

text \<open>The lock is per root: a workspace and a project inside it have different keys for one file, and of two
  calls that have read the same version both succeed; the content of the first is gone unseen.\<close>

theorem nested_roots_lose_a_write:
  "let s = fold (fs_step fs_host demo_os)
     [WriteCall 1 ''/srv/app'' (Some ''a'') ''one'' ''#hi'' False, WriteCall 2 ''/srv'' (Some ''app/a'') ''two'' ''#hi'' False,
      WriteStep ''/srv/app::a'' ''u'' 1, WriteStep ''/srv::app/a'' ''v'' 1,
      WriteStep ''/srv/app::a'' ''u'' 2, WriteStep ''/srv/app::a'' ''u'' 3,
      WriteStep ''/srv::app/a'' ''v'' 4, WriteStep ''/srv::app/a'' ''v'' 5] (quiet plain_fs)
   in map fst (fv_replies s) = [1, 2] \<and> list_all (\<lambda>r. is_ok (snd r)) (fv_replies s)
      \<and> node_at (fv_disk s) [''srv'', ''app'', ''a''] = Some (FileI ''two'')"
  by code_simp

text \<open>A write does not ask whether its path is protected: a hook of the repository is created, where a
  mutation of the same name is refused.\<close>

theorem writes_reach_git:
  "let d = \<lparr>dk_nodes = [([''srv''], DirI), ([''srv'', ''.git''], DirI)], dk_mtimes = []\<rparr>;
       s = fold (fs_step fs_host demo_os)
         [WriteCall 1 ''/srv'' (Some ''.git/hook'') ''x'' [] True, WriteStep ''/srv::.git/hook'' ''u'' 1,
          WriteStep ''/srv::.git/hook'' ''u'' 2, WriteStep ''/srv::.git/hook'' ''u'' 3] (quiet d)
   in node_at (fv_disk s) [''srv'', ''.git'', ''hook''] = Some (FileI ''x'')
      \<and> run_op fs_host demo_os 5 ''/srv'' (OpCreate ''.git/hook'' None) d = Inl fs_invalid_name"
  by code_simp

end
