(* ===== verification/FsIndexProps.thy ===== *)
theory FsIndexProps
  imports FsOpsProps
begin

text \<open>
  The index of a project lists exactly the files that are visible from its root, up to its cap, and the
  three caches of the file operations are bounded.
\<close>

subsection \<open>What is visible\<close>

text \<open>\<open>finds e d ign R rel f\<close>: from the directory \<open>rel\<close> of the project at \<open>R\<close> the file \<open>f\<close> is reached through
  directories that can be read and that are not ignored.\<close>

inductive finds :: "os \<Rightarrow> disk \<Rightarrow> (string \<Rightarrow> bool) \<Rightarrow> string list \<Rightarrow> string list \<Rightarrow> string \<Rightarrow> bool"
  for e :: os and d :: disk and ign :: "string \<Rightarrow> bool" and R :: "string list" where
  finds_file: "(n, FileI s) \<in> set (dirents_at e d (R @ rel)) \<Longrightarrow> \<not> ign (join_slash (rel @ [n]))
      \<Longrightarrow> finds e d ign R rel (join_slash (rel @ [n]))"
| finds_below: "(n, DirI) \<in> set (dirents_at e d (R @ rel)) \<Longrightarrow> \<not> ign (join_slash (rel @ [n]) @ ''/'')
      \<Longrightarrow> finds e d ign R (rel @ [n]) f \<Longrightarrow> finds e d ign R rel f"

inductive_simps finds_iff: "finds e d ign R rel f"

definition files_in :: "(string \<Rightarrow> bool) \<Rightarrow> string list \<Rightarrow> (string \<times> inode) list \<Rightarrow> string set" where
  "files_in ign rel ds = {join_slash (rel @ [n]) | n s. (n, FileI s) \<in> set ds \<and> \<not> ign (join_slash (rel @ [n]))}"

definition dirs_in :: "(string \<Rightarrow> bool) \<Rightarrow> string list \<Rightarrow> (string \<times> inode) list \<Rightarrow> string list set" where
  "dirs_in ign rel ds = {rel @ [n] | n. (n, DirI) \<in> set ds \<and> \<not> ign (join_slash (rel @ [n]) @ ''/'')}"

lemma finds_cases:
  "{f. finds e d ign R rel f} = files_in ign rel (dirents_at e d (R @ rel))
     \<union> (\<Union>r \<in> dirs_in ign rel (dirents_at e d (R @ rel)). {f. finds e d ign R r f})"
  by (auto simp: finds_iff [of e d ign R rel] files_in_def dirs_in_def)

lemma in_Cons:
  "files_in ign rel ((name, i) # ds) = (case i of FileI _ \<Rightarrow>
      if ign (join_slash (rel @ [name])) then files_in ign rel ds else insert (join_slash (rel @ [name])) (files_in ign rel ds)
    | _ \<Rightarrow> files_in ign rel ds)"
  "dirs_in ign rel ((name, i) # ds) = (case i of DirI \<Rightarrow>
      if ign (join_slash (rel @ [name]) @ ''/'') then dirs_in ign rel ds else insert (rel @ [name]) (dirs_in ign rel ds)
    | _ \<Rightarrow> dirs_in ign rel ds)"
  by (auto simp: files_in_def dirs_in_def split: inode.split)

text \<open>One directory: without a stop all of it is taken up, with a stop a part of it.\<close>

lemma scan_dir_sets:
  "case scan_dir ign rel ds stack paths of (stack', paths', stopped) \<Rightarrow>
     (if stopped then set stack' \<subseteq> set stack \<union> dirs_in ign rel ds \<and> set paths' \<subseteq> set paths \<union> files_in ign rel ds
      else set stack' = set stack \<union> dirs_in ign rel ds \<and> set paths' = set paths \<union> files_in ign rel ds)
     \<and> (length paths \<le> INDEX_PATH_CAP \<longrightarrow> length paths' \<le> INDEX_PATH_CAP)"
proof (induction ign rel ds stack paths rule: scan_dir.induct)
  case (1 ign rel stack paths)
  then show ?case by (simp add: files_in_def dirs_in_def)
next
  case (2 ign rel name i ds stack paths)
  show ?case
  proof (cases "length paths \<ge> INDEX_PATH_CAP")
    case False
    show ?thesis
    proof (cases i)
      case (FileI s)
      show ?thesis
      proof (cases "ign (join_slash (rel @ [name]))")
        case True
        then show ?thesis using 2(1) [OF False refl FileI] False FileI by (simp add: in_Cons Let_def split: prod.splits)
      next
        case keep: False
        show ?thesis using 2(2) [OF False refl FileI keep] False FileI keep
          by (clarsimp simp: in_Cons Let_def split: prod.splits) (auto split: if_splits)
      qed
    next
      case DirI
      show ?thesis
      proof (cases "ign (join_slash (rel @ [name]) @ ''/'')")
        case True
        then show ?thesis using 2(3) [OF False refl DirI] False DirI by (simp add: in_Cons Let_def split: prod.splits)
      next
        case keep: False
        show ?thesis using 2(4) [OF False refl DirI keep] False DirI keep
          by (clarsimp simp: in_Cons Let_def split: prod.splits) (auto split: if_splits)
      qed
    next
      case (LinkI t)
      then show ?thesis using 2(5) [OF False refl LinkI] False LinkI by (simp add: in_Cons Let_def split: prod.splits)
    qed
  qed auto
qed

lemma index_walk_sets:
  "case index_walk e d ign R stack paths truncated of (paths', truncated') \<Rightarrow>
     (truncated \<longrightarrow> truncated')
     \<and> (if truncated' then set paths' \<subseteq> set paths \<union> (\<Union>r \<in> set stack. {f. finds e d ign R r f})
        else set paths' = set paths \<union> (\<Union>r \<in> set stack. {f. finds e d ign R r f}))
     \<and> (length paths \<le> INDEX_PATH_CAP \<longrightarrow> length paths' \<le> INDEX_PATH_CAP)"
proof (induction e d ign R stack paths truncated rule: index_walk.induct)
  case (2 e d ign R rel stack paths truncated)
  show ?case
  proof (cases "length paths \<ge> INDEX_PATH_CAP")
    case False
    obtain st ps stopped where sc: "scan_dir ign rel (dirents_at e d (R @ rel)) stack paths = (st, ps, stopped)"
      by (cases "scan_dir ign rel (dirents_at e d (R @ rel)) stack paths") auto
    obtain fin t where w: "index_walk e d ign R st ps (truncated \<or> stopped) = (fin, t)"
      by fastforce
    have IH: "(truncated \<or> stopped \<longrightarrow> t)
       \<and> (if t then set fin \<subseteq> set ps \<union> (\<Union>r \<in> set st. {f. finds e d ign R r f})
          else set fin = set ps \<union> (\<Union>r \<in> set st. {f. finds e d ign R r f}))
       \<and> (length ps \<le> INDEX_PATH_CAP \<longrightarrow> length fin \<le> INDEX_PATH_CAP)"
      using 2 [OF False sc [symmetric] refl] w by simp
    have sets: "(if stopped then set st \<subseteq> set stack \<union> dirs_in ign rel (dirents_at e d (R @ rel))
          \<and> set ps \<subseteq> set paths \<union> files_in ign rel (dirents_at e d (R @ rel))
        else set st = set stack \<union> dirs_in ign rel (dirents_at e d (R @ rel))
          \<and> set ps = set paths \<union> files_in ign rel (dirents_at e d (R @ rel)))"
      and len: "length ps \<le> INDEX_PATH_CAP"
      using scan_dir_sets [where ign = ign and rel = rel and ds = "dirents_at e d (R @ rel)" and stack = stack and paths = paths] sc False by simp_all
    have sub: "set ps \<union> (\<Union>r \<in> set st. {f. finds e d ign R r f})
        \<subseteq> set paths \<union> (\<Union>r \<in> set (rel # stack). {f. finds e d ign R r f})"
      using sets finds_cases [where e = e and d = d and ign = ign and R = R and rel = rel] by (auto split: if_splits)
    show ?thesis
    proof (cases t)
      case True
      then have "set fin \<subseteq> set ps \<union> (\<Union>r \<in> set st. {f. finds e d ign R r f})" using IH by simp
      then have "set fin \<subseteq> set paths \<union> (\<Union>r \<in> set (rel # stack). {f. finds e d ign R r f})"
        using sub by (rule subset_trans)
      then show ?thesis using IH True len False sc w by simp
    next
      case nt: False
      then have "set ps \<union> (\<Union>r \<in> set st. {f. finds e d ign R r f})
          = set paths \<union> (\<Union>r \<in> set (rel # stack). {f. finds e d ign R r f})"
        using sets IH finds_cases [where e = e and d = d and ign = ign and R = R and rel = rel] by auto
      then show ?thesis using IH nt len False sc w by simp
    qed
  qed auto
qed auto

text \<open>C18: The index is sound, bounded and complete: it lists at most 50000 paths, each of them a file reached
  from the root through readable directories none of which is ignored, and when it does not say that it was
  truncated it lists all of them.\<close>

theorem index_lists_visible_files:
  "case index_walk e d ign R [[]] [] False of (paths, truncated) \<Rightarrow>
     length paths \<le> 50000
     \<and> (if truncated then set paths \<subseteq> {f. finds e d ign R [] f} else set paths = {f. finds e d ign R [] f})"
  using index_walk_sets [where e = e and d = d and ign = ign and R = R and stack = "[[]]" and paths = "[]" and truncated = False] by (auto simp: INDEX_PATH_CAP_def split: prod.splits if_splits)

text \<open>A project of one file and one directory, which is ignored.\<close>

lemma index_of_demo:
  "index_walk demo_os demo_fs (ignores (\<lambda>m p. Some (p = ''.git/'')) []) [''srv'', ''app''] [[]] [] False = ([''a''], False)"
  by code_simp

subsection \<open>The caches\<close>

interpretation real_roots: bounded_cache "put_capped REAL_ROOT_CACHE_MAX" map_of length jm_ok REAL_ROOT_CACHE_MAX
  by (rule capped_laws) (simp add: REAL_ROOT_CACHE_MAX_def)

interpretation index_cache: bounded_cache "put_capped INDEX_CACHE_MAX" map_of length jm_ok INDEX_CACHE_MAX
  by (rule capped_laws) (simp add: INDEX_CACHE_MAX_def)

lemma drop_expired_facts:
  "(jm_ok c \<longrightarrow> jm_ok (drop_expired now ks c)) \<and> length (drop_expired now ks c) \<le> length c
   \<and> (map_of (drop_expired now ks c) k = map_of c k \<or> map_of (drop_expired now ks c) k = None)"
proof (induction now ks c rule: drop_expired.induct)
  case (2 now i ks c)
  let ?c = "case map_of c i of Some (_, expiresAt) \<Rightarrow> if expiresAt \<le> now then AList.delete i c else c | None \<Rightarrow> c"
  have "(jm_ok c \<longrightarrow> jm_ok ?c) \<and> length ?c \<le> length c \<and> (map_of ?c k = map_of c k \<or> map_of ?c k = None)"
    by (auto simp: jm_get_del distinct_delete length_delete_le split: option.split)
  then show ?case using 2 by (auto simp: Let_def)
qed simp

lemma evict_facts:
  assumes "jm_ok c" "length c \<le> CACHE_MAX"
  shows "jm_ok (evictMatchers now c) \<and> length (evictMatchers now c) < CACHE_MAX
    \<and> (map_of (evictMatchers now c) k = map_of c k \<or> map_of (evictMatchers now c) k = None)"
proof -
  let ?c = "drop_expired now (map fst c) c"
  have f: "jm_ok ?c" "length ?c \<le> CACHE_MAX" "map_of ?c k = map_of c k \<or> map_of ?c k = None"
    using drop_expired_facts [of c now "map fst c" k] assms by auto
  have "map_of (tl ?c) k = map_of ?c k \<or> map_of (tl ?c) k = None"
    using map_of_tl [OF f(1), of k] by (cases "map_of (tl ?c) k") auto
  moreover have "0 < CACHE_MAX" by (simp add: CACHE_MAX_def)
  ultimately show ?thesis
    using f assms by (auto simp: evictMatchers_def Let_def map_tl distinct_tl)
qed

lemma put_matcher_facts:
  assumes "jm_ok c" "length c \<le> CACHE_MAX"
  shows "jm_ok (AList.update k v (evictMatchers now c)) \<and> length (AList.update k v (evictMatchers now c)) \<le> CACHE_MAX"
  using evict_facts [OF assms, of now k] jm_size_set_le [of k v "evictMatchers now c"] by (simp add: distinct_update)

text \<open>The cache of the matchers keeps its bound as part of its well-formedness, since it drops more than one
  entry at a time only when entries have expired.\<close>

interpretation matchers: bounded_cache "\<lambda>k v c. AList.update k v (evictMatchers now c)" map_of length
    "\<lambda>c. jm_ok c \<and> length c \<le> CACHE_MAX" CACHE_MAX for now
proof unfold_locales
  fix s :: matcher_cache and k k' :: string and e :: "string list \<times> int"
  assume wf: "jm_ok s \<and> length s \<le> CACHE_MAX"
  then show "jm_ok (AList.update k e (evictMatchers now s)) \<and> length (AList.update k e (evictMatchers now s)) \<le> CACHE_MAX"
    using put_matcher_facts by blast
  then show "length (AList.update k e (evictMatchers now s)) \<le> CACHE_MAX" by simp
  show "map_of (AList.update k e (evictMatchers now s)) k = Some e" by (simp add: jm_get_set)
  show "map_of (AList.update k e (evictMatchers now s)) k' = map_of s k'
      \<or> map_of (AList.update k e (evictMatchers now s)) k' = None" if "k' \<noteq> k"
    using that evict_facts [of s now k'] wf by (simp add: jm_get_set)
qed

end
