(* ===== verification/GitText.thy ===== *)
theory GitText
  imports JsString
begin

text \<open>
  What the git operations (\<open>src/src/services/git-operations.ts\<close>) read from the text that git prints when
  it fails: the regular expressions of the classifiers, the classifiers themselves, the maps from the
  reasons of \<open>runGitCommand\<close> to the narrower unions of each operation.

  The string unions of the source overlap (\<open>'timeout'\<close> is a member of most), so \<open>reason\<close> has one
  constructor per literal, and each union is the list of its members.
\<close>

datatype reason =
  R_ok | R_auth_failed | R_timeout | R_not_a_repo | R_path_missing | R_detached_head | R_empty_index
| R_empty_message | R_dirty_tree | R_diverged | R_no_upstream | R_rejected_non_fast_forward | R_force_required
| R_protected_branch | R_unknown_path | R_unknown | R_not_a_git_repo | R_dirty_working_tree
| R_non_fast_forward | R_network_error | R_bad_revision | R_no_paths | R_invalid_path | R_path_outside_repo
| R_invalid_remote | R_git_patch_too_large | R_branch_not_found | R_branch_already_exists
| R_invalid_branch_name | R_git_protected_branch | R_git_cannot_delete_current_branch | R_not_fully_merged
| R_nothing_to_stash | R_git_stash_pop_conflict | R_invalid_ref | R_not_found

definition GitReason :: "reason list" where
  "GitReason = [R_ok, R_auth_failed, R_timeout, R_not_a_repo, R_path_missing, R_detached_head, R_empty_index,
     R_empty_message, R_dirty_tree, R_diverged, R_no_upstream, R_rejected_non_fast_forward, R_force_required,
     R_protected_branch, R_unknown_path, R_unknown]"

definition GitPullReason :: "reason list" where
  "GitPullReason = [R_not_a_git_repo, R_no_upstream, R_dirty_working_tree, R_non_fast_forward, R_auth_failed,
     R_network_error, R_unknown]"

definition GitStatusReason :: "reason list" where
  "GitStatusReason = [R_ok, R_not_a_repo, R_path_missing, R_unknown]"

definition GitCommitReason :: "reason list" where
  "GitCommitReason = [R_ok, R_empty_message, R_detached_head, R_unknown_path, R_empty_index, R_auth_failed,
     R_timeout, R_not_a_repo, R_path_missing, R_unknown]"

definition GitPushReason :: "reason list" where
  "GitPushReason = [R_ok, R_auth_failed, R_rejected_non_fast_forward, R_no_upstream, R_detached_head,
     R_protected_branch, R_timeout, R_not_a_repo, R_path_missing, R_unknown]"

definition GitLogReason :: "reason list" where
  "GitLogReason = [R_ok, R_not_a_repo, R_path_missing, R_bad_revision, R_timeout, R_unknown]"

definition GitDiscardReason :: "reason list" where
  "GitDiscardReason = [R_ok, R_no_paths, R_invalid_path, R_path_outside_repo, R_unknown_path, R_not_a_repo,
     R_path_missing, R_timeout, R_unknown]"

definition GitFetchReason :: "reason list" where
  "GitFetchReason = [R_ok, R_auth_failed, R_network_error, R_invalid_remote, R_not_a_repo, R_path_missing,
     R_timeout, R_unknown]"

definition GitDiffReason :: "reason list" where
  "GitDiffReason = [R_ok, R_not_a_repo, R_path_missing, R_bad_revision, R_git_patch_too_large, R_timeout,
     R_unknown]"

definition GitBranchListReason :: "reason list" where
  "GitBranchListReason = [R_ok, R_not_a_repo, R_path_missing, R_timeout, R_unknown]"

definition GitCheckoutReason :: "reason list" where
  "GitCheckoutReason = [R_ok, R_dirty_working_tree, R_branch_not_found, R_branch_already_exists,
     R_invalid_branch_name, R_not_a_repo, R_path_missing, R_timeout, R_unknown]"

definition GitBranchDeleteReason :: "reason list" where
  "GitBranchDeleteReason = [R_ok, R_git_protected_branch, R_git_cannot_delete_current_branch,
     R_branch_not_found, R_not_fully_merged, R_invalid_branch_name, R_not_a_repo, R_path_missing, R_timeout,
     R_unknown]"

definition GitShowReason :: "reason list" where
  "GitShowReason = [R_ok, R_not_a_repo, R_path_missing, R_bad_revision, R_timeout, R_unknown]"

definition GitStashPushReason :: "reason list" where
  "GitStashPushReason = [R_ok, R_nothing_to_stash, R_not_a_repo, R_path_missing, R_timeout, R_unknown]"

definition GitStashListReason :: "reason list" where
  "GitStashListReason = [R_ok, R_not_a_repo, R_path_missing, R_timeout, R_unknown]"

definition GitStashPopReason :: "reason list" where
  "GitStashPopReason = [R_ok, R_git_stash_pop_conflict, R_invalid_ref, R_not_found, R_not_a_repo,
     R_path_missing, R_timeout, R_unknown]"

definition GitStashDropReason :: "reason list" where
  "GitStashDropReason = [R_ok, R_invalid_ref, R_not_found, R_not_a_repo, R_path_missing, R_timeout,
     R_unknown]"

lemmas reason_unions = GitPullReason_def GitStatusReason_def GitCommitReason_def GitPushReason_def
  GitLogReason_def GitDiscardReason_def GitFetchReason_def GitDiffReason_def GitBranchListReason_def
  GitCheckoutReason_def GitBranchDeleteReason_def GitShowReason_def GitStashPushReason_def
  GitStashListReason_def GitStashPopReason_def GitStashDropReason_def

subsection \<open>Regular expressions\<close>

definition lower :: "string \<Rightarrow> string" where
  "lower s = map to_lower s"

text \<open>\<open>/pat/.test(s)\<close> for a pattern without special characters, and with the flag \<open>i\<close> for one in lower
  case.\<close>

definition has :: "string \<Rightarrow> string \<Rightarrow> bool" where
  "has pat s = is_infix_of pat s"

definition has_ci :: "string \<Rightarrow> string \<Rightarrow> bool" where
  "has_ci pat s = is_infix_of pat (lower s)"

text \<open>\<open>/a.*b/\<close>: the dot does not match the end of a line.\<close>

definition on_line :: "char \<Rightarrow> bool" where
  "on_line c \<longleftrightarrow> c \<noteq> CHR 0x0A \<and> c \<noteq> CHR 0x0D"

fun has_seq :: "string \<Rightarrow> string \<Rightarrow> string \<Rightarrow> bool" where
  "has_seq a b [] = (a = [] \<and> b = [])"
| "has_seq a b (c # s) =
     (is_prefix_of a (c # s) \<and> is_infix_of b (takeWhile on_line (drop (length a) (c # s))) \<or> has_seq a b s)"

definition has_seq_ci :: "string \<Rightarrow> string \<Rightarrow> string \<Rightarrow> bool" where
  "has_seq_ci a b s = has_seq a b (lower s)"

text \<open>\<open>\w\<close>, and \<open>/\bw\b/\<close> for a word \<open>w\<close>; \<open>prev\<close> says that the character before is a word character.\<close>

definition word_char :: "char \<Rightarrow> bool" where
  "word_char c \<longleftrightarrow> c \<in> set lower_letters \<or> c \<in> set upper_letters \<or> is_digit c \<or> c = CHR ''_''"

fun has_word :: "bool \<Rightarrow> string \<Rightarrow> string \<Rightarrow> bool" where
  "has_word prev w [] = False"
| "has_word prev w (c # s) =
     (\<not> prev \<and> is_prefix_of w (c # s)
        \<and> (case drop (length w) (c # s) of [] \<Rightarrow> True | d # _ \<Rightarrow> \<not> word_char d)
      \<or> has_word (word_char c) w s)"

text \<open>\<open>/a\d+b/\<close> where \<open>b\<close> does not start with a digit.\<close>

fun has_number :: "string \<Rightarrow> string \<Rightarrow> string \<Rightarrow> bool" where
  "has_number a b [] = False"
| "has_number a b (c # s) =
     (is_prefix_of a (c # s)
        \<and> (let t = drop (length a) (c # s)
            in takeWhile is_digit t \<noteq> [] \<and> is_prefix_of b (dropWhile is_digit t))
      \<or> has_number a b s)"

text \<open>\<open>/^a.*b$/m\<close>: a line that starts with \<open>a\<close> and ends with \<open>b\<close>.\<close>

definition has_suffix :: "string \<Rightarrow> string \<Rightarrow> bool" where
  "has_suffix b s = is_prefix_of (rev b) (rev s)"

definition has_line :: "string \<Rightarrow> string \<Rightarrow> string \<Rightarrow> bool" where
  "has_line a b s \<longleftrightarrow> list_ex (\<lambda>l. is_prefix_of a l \<and> has_suffix b (drop (length a) l))
     (concat (map (split_on (CHR 0x0D)) (split_on (CHR 0x0A) s)))"

subsection \<open>What went wrong\<close>

text \<open>A thrown value: the fields that the code probes, and \<open>String(err)\<close>.\<close>

record thrown =
  th_stderr :: "string option"
  th_message :: "string option"
  th_gitReason :: "reason option"
  th_string :: string

definition extractStderr :: "thrown \<Rightarrow> string" where
  "extractStderr e =
     (case truthy_str (th_stderr e) of Some s \<Rightarrow> s
      | None \<Rightarrow> (case truthy_str (th_message e) of Some s \<Rightarrow> s | None \<Rightarrow> th_string e))"

definition classifyPullError :: "string \<Rightarrow> reason" where
  "classifyPullError stderr =
     (if has_ci ''not possible to fast-forward'' stderr \<or> has_ci ''non-fast-forward'' stderr
        \<or> has_ci ''diverged'' stderr \<or> has_ci ''divergent branches'' stderr
        \<or> has_ci ''refusing to merge unrelated histories'' stderr then R_non_fast_forward
      else if has_ci ''permission denied'' stderr \<or> has_ci ''authentication failed'' stderr
        \<or> has_ci ''could not read username'' stderr \<or> has_ci ''could not read password'' stderr
        \<or> has_ci ''access denied'' stderr \<or> has_word False ''403'' (lower stderr) \<or> has_ci ''publickey'' stderr
        \<or> has_ci ''host key verification failed'' stderr then R_auth_failed
      else if has_ci ''could not resolve host'' stderr \<or> has_ci ''network is unreachable'' stderr
        \<or> has_ci ''connection refused'' stderr \<or> has_ci ''connection timed out'' stderr
        \<or> has_ci ''operation timed out'' stderr \<or> has_ci ''unable to access'' stderr then R_network_error
      else R_unknown)"

definition extractGitErrorMessage :: "string \<Rightarrow> string option" where
  "extractGitErrorMessage stderr =
     (let lines = filter (\<lambda>l. l \<noteq> []) (map js_trim (split_on (CHR 0x0A) stderr))
      in case find (\<lambda>l. is_prefix_of ''fatal:'' l \<or> is_prefix_of ''error:'' l) lines of
           Some l \<Rightarrow> Some l
         | None \<Rightarrow> (case lines of [] \<Rightarrow> None | l # _ \<Rightarrow> Some l))"

definition AUTH_FAIL_RE :: "string list" where
  "AUTH_FAIL_RE = [''permission denied'', ''could not read username'', ''fatal: authentication failed'',
     ''http 403'', ''remote: repository not found'']"

definition classifyStderrToGitReason :: "string \<Rightarrow> reason" where
  "classifyStderrToGitReason stderr =
     (if stderr = [] then R_unknown
      else if list_ex (\<lambda>p. has_ci p stderr) AUTH_FAIL_RE then R_auth_failed
      else if has_ci ''permission denied'' stderr \<or> has_ci ''publickey'' stderr
        \<or> has_ci ''host key verification failed'' stderr \<or> has_ci ''access denied'' stderr
        \<or> has_ci ''could not read password'' stderr then R_auth_failed
      else if has_word False ''403'' (lower stderr) then R_auth_failed
      else if has_seq_ci ''rejected'' ''non-fast-forward'' stderr
        \<or> has_seq_ci ''non-fast-forward'' ''reject'' stderr then R_rejected_non_fast_forward
      else if has_ci ''not possible to fast-forward'' stderr \<or> has_ci ''non-fast-forward'' stderr
        \<or> has_ci ''refusing to merge unrelated histories'' stderr then R_diverged
      else if has_ci ''diverged'' stderr \<or> has_ci ''divergent branches'' stderr then R_diverged
      else if has_ci ''nothing to commit'' stderr \<or> has_ci ''no changes added to commit'' stderr then R_empty_index
      else if has_ci ''empty commit message'' stderr
        \<or> has_ci ''aborting commit due to empty commit message'' stderr then R_empty_message
      else if has_ci ''no upstream'' stderr \<or> has_ci ''no tracking information'' stderr then R_no_upstream
      else if has_seq_ci ''your local changes'' ''would be overwritten'' stderr
        \<or> has_ci ''uncommitted changes'' stderr then R_dirty_tree
      else if has_ci ''detached head'' stderr then R_detached_head
      else if has_seq_ci ''--force'' ''required'' stderr \<or> has_ci ''use --force'' stderr then R_force_required
      else if has_ci ''timed out'' stderr \<and> \<not> has_ci ''operation timed out'' stderr then R_timeout
      else R_unknown)"

text \<open>Reason, message and \<open>stderr\<close>; a sentinel of the caller carries its reason.\<close>

definition classifyGitError :: "thrown \<Rightarrow> reason \<times> string option \<times> string option" where
  "classifyGitError e =
     (case th_gitReason e of
        Some r \<Rightarrow> (r, th_message e, th_stderr e)
      | None \<Rightarrow> (let stderr = extractStderr e
                 in (classifyStderrToGitReason stderr, extractGitErrorMessage stderr, Some stderr)))"

subsection \<open>From the reasons of a command to those of an operation\<close>

definition narrow :: "reason list \<Rightarrow> reason \<Rightarrow> reason" where
  "narrow rs r = (if r \<in> set rs then r else R_unknown)"

definition gitReasonToPullReason :: "reason \<Rightarrow> string \<Rightarrow> reason" where
  "gitReasonToPullReason r stderr =
     (if r = R_auth_failed then R_auth_failed
      else if r \<in> set [R_diverged, R_rejected_non_fast_forward] then R_non_fast_forward
      else if r = R_no_upstream then R_no_upstream
      else if r = R_dirty_tree then R_dirty_working_tree
      else if r \<in> set [R_not_a_repo, R_path_missing] then R_not_a_git_repo
      else if stderr = [] then R_unknown else classifyPullError stderr)"

definition gitReasonToCommitReason :: "reason \<Rightarrow> reason" where
  "gitReasonToCommitReason = narrow [R_ok, R_empty_message, R_detached_head, R_unknown_path, R_empty_index,
     R_auth_failed, R_timeout, R_not_a_repo, R_path_missing]"

definition gitReasonToPushReason :: "reason \<Rightarrow> reason" where
  "gitReasonToPushReason = narrow [R_ok, R_auth_failed, R_rejected_non_fast_forward, R_no_upstream,
     R_detached_head, R_protected_branch, R_timeout, R_not_a_repo, R_path_missing]"

definition bad_revision_text :: "string \<Rightarrow> bool" where
  "bad_revision_text s \<longleftrightarrow> has_ci ''bad revision'' s \<or> has_ci ''unknown revision'' s
     \<or> has_ci ''ambiguous argument'' s \<or> has_ci ''not a valid object name'' s"

definition gitReasonToLogReason :: "reason \<Rightarrow> string \<Rightarrow> reason" where
  "gitReasonToLogReason r stderr =
     (if r \<in> set [R_ok, R_not_a_repo, R_path_missing, R_timeout] then r
      else if bad_revision_text stderr then R_bad_revision else R_unknown)"

definition gitReasonToDiscardReason :: "reason \<Rightarrow> reason" where
  "gitReasonToDiscardReason = narrow [R_ok, R_unknown_path, R_timeout, R_not_a_repo, R_path_missing]"

definition gitReasonToFetchReason :: "reason \<Rightarrow> string \<Rightarrow> reason" where
  "gitReasonToFetchReason r stderr =
     (if r \<in> set [R_ok, R_auth_failed, R_timeout, R_not_a_repo, R_path_missing] then r
      else if stderr = [] then R_unknown
      else narrow [R_auth_failed, R_network_error] (classifyPullError stderr))"

definition gitReasonToDiffReason :: "reason \<Rightarrow> string \<Rightarrow> reason" where
  "gitReasonToDiffReason r stderr =
     (if r \<in> set [R_ok, R_not_a_repo, R_path_missing, R_timeout] then r
      else if bad_revision_text stderr \<or> has_seq_ci ''pathspec '' '' did not match'' stderr then R_bad_revision
      else R_unknown)"

definition gitReasonToBranchListReason :: "reason \<Rightarrow> reason" where
  "gitReasonToBranchListReason = narrow [R_ok, R_not_a_repo, R_path_missing, R_timeout]"

definition gitReasonToCheckoutReason :: "reason \<Rightarrow> string \<Rightarrow> reason" where
  "gitReasonToCheckoutReason r stderr =
     (if r \<in> set [R_ok, R_not_a_repo, R_path_missing, R_timeout] then r
      else if r = R_dirty_tree then R_dirty_working_tree
      else if has_ci ''already exists'' stderr then R_branch_already_exists
      else if has_ci ''did not match any file(s) known to git'' stderr
        \<or> has_seq_ci ''pathspec'' ''did not match'' stderr
        \<or> has_ci ''not a valid branch'' stderr \<or> has_ci ''not a valid reference'' stderr
        \<or> has_ci ''not a valid object'' stderr \<or> has_ci ''no such ref'' stderr then R_branch_not_found
      else R_unknown)"

definition gitReasonToBranchDeleteReason :: "reason \<Rightarrow> string \<Rightarrow> reason" where
  "gitReasonToBranchDeleteReason r stderr =
     (if r \<in> set [R_ok, R_not_a_repo, R_path_missing, R_timeout] then r
      else if list_ex (\<lambda>a. list_ex (\<lambda>b. has_seq_ci a b stderr) [''checked out'', ''currently on'', ''used by worktree''])
                [''cannot delete branch'', ''cannot delete the branch''] then R_git_cannot_delete_current_branch
      else if has_seq_ci ''branch'' ''not found'' stderr \<or> has_ci ''no such ref'' stderr then R_branch_not_found
      else if has_ci ''not fully merged'' stderr then R_not_fully_merged
      else R_unknown)"

definition gitReasonToShowReason :: "reason \<Rightarrow> string \<Rightarrow> reason" where
  "gitReasonToShowReason r stderr =
     (if r \<in> set [R_ok, R_not_a_repo, R_path_missing, R_timeout] then r
      else if bad_revision_text stderr \<or> has_ci ''fatal: bad object'' stderr then R_bad_revision
      else R_unknown)"

definition gitReasonToStashPushReason :: "reason \<Rightarrow> reason" where
  "gitReasonToStashPushReason = narrow [R_ok, R_not_a_repo, R_path_missing, R_timeout]"

definition gitReasonToStashListReason :: "reason \<Rightarrow> reason" where
  "gitReasonToStashListReason = narrow [R_ok, R_not_a_repo, R_path_missing, R_timeout]"

definition no_such_stash :: "string \<Rightarrow> bool" where
  "no_such_stash s \<longleftrightarrow> has_ci ''no stash entries'' s
     \<or> has_number ''log for 'refs/stash' only has '' '' entries'' (lower s)
     \<or> has_number ''log for 'stash' only has '' '' entries'' (lower s)
     \<or> has_ci ''is not a valid reference'' s \<or> has_ci ''is not a stash-like commit'' s"

definition gitReasonToStashPopReason :: "reason \<Rightarrow> string \<Rightarrow> reason" where
  "gitReasonToStashPopReason r stderr =
     (if r \<in> set [R_ok, R_not_a_repo, R_path_missing, R_timeout] then r
      else if no_such_stash stderr then R_not_found else R_git_stash_pop_conflict)"

definition gitReasonToStashDropReason :: "reason \<Rightarrow> string \<Rightarrow> reason" where
  "gitReasonToStashDropReason r stderr =
     (if r \<in> set [R_ok, R_not_a_repo, R_path_missing, R_timeout] then r
      else if no_such_stash stderr then R_not_found else R_unknown)"

end
