(* ===== verification/Utf8.thy ===== *)
theory Utf8
  imports Main
begin

text \<open>
  \<open>Buffer.from(s, 'utf-8')\<close> and its inverse on arbitrary bytes, on code points and bytes as numbers.  A
  lone surrogate and every maximal ill-formed prefix become U+FFFD.  \<open>truncateUtf8\<close> of
  \<open>src/src/services/git-operations.ts\<close> cuts the bytes of a text and decodes what is left; the lemmas say
  what that is, a prefix of the text and at most one U+FFFD, and how many bytes it has.
\<close>

definition FFFD :: nat where
  "FFFD = 65533"

definition is_surrogate :: "nat \<Rightarrow> bool" where
  "is_surrogate c \<longleftrightarrow> 55296 \<le> c \<and> c \<le> 57343"

definition scalar_of :: "nat \<Rightarrow> nat" where
  "scalar_of c = (if is_surrogate c then FFFD else c)"

definition utf8_bytes :: "nat \<Rightarrow> nat list" where
  "utf8_bytes c0 =
     (let c = scalar_of c0
      in if c < 128 then [c]
         else if c < 2048 then [192 + c div 64, 128 + c mod 64]
         else if c < 65536 then [224 + c div 4096, 128 + c div 64 mod 64, 128 + c mod 64]
         else [240 + c div 262144, 128 + c div 4096 mod 64, 128 + c div 64 mod 64, 128 + c mod 64])"

definition utf8_encode :: "nat list \<Rightarrow> nat list" where
  "utf8_encode s = concat (map utf8_bytes s)"

definition cont :: "nat \<Rightarrow> bool" where
  "cont b \<longleftrightarrow> 128 \<le> b \<and> b \<le> 191"

definition second_of_three :: "nat \<Rightarrow> nat \<Rightarrow> bool" where
  "second_of_three b c \<longleftrightarrow> (if b = 224 then 160 else 128) \<le> c \<and> c \<le> (if b = 237 then 159 else 191)"

definition second_of_four :: "nat \<Rightarrow> nat \<Rightarrow> bool" where
  "second_of_four b c \<longleftrightarrow> (if b = 240 then 144 else 128) \<le> c \<and> c \<le> (if b = 244 then 143 else 191)"

fun utf8_decode :: "nat list \<Rightarrow> nat list" where
  "utf8_decode [] = []"
| "utf8_decode (b # bs) =
     (if b < 128 then b # utf8_decode bs
      else if 194 \<le> b \<and> b \<le> 223 then
        (case bs of
           c # cs \<Rightarrow> if cont c then ((b - 192) * 64 + (c - 128)) # utf8_decode cs else FFFD # utf8_decode bs
         | [] \<Rightarrow> [FFFD])
      else if 224 \<le> b \<and> b \<le> 239 then
        (case bs of
           c # cs \<Rightarrow>
             if second_of_three b c then
               (case cs of
                  d # ds \<Rightarrow>
                    if cont d then ((b - 224) * 4096 + (c - 128) * 64 + (d - 128)) # utf8_decode ds
                    else FFFD # utf8_decode cs
                | [] \<Rightarrow> [FFFD])
             else FFFD # utf8_decode bs
         | [] \<Rightarrow> [FFFD])
      else if 240 \<le> b \<and> b \<le> 244 then
        (case bs of
           c # cs \<Rightarrow>
             if second_of_four b c then
               (case cs of
                  d # ds \<Rightarrow>
                    if cont d then
                      (case ds of
                         e # es \<Rightarrow>
                           if cont e then
                             ((b - 240) * 262144 + (c - 128) * 4096 + (d - 128) * 64 + (e - 128)) # utf8_decode es
                           else FFFD # utf8_decode ds
                       | [] \<Rightarrow> [FFFD])
                    else FFFD # utf8_decode cs
                | [] \<Rightarrow> [FFFD])
             else FFFD # utf8_decode bs
         | [] \<Rightarrow> [FFFD])
      else FFFD # utf8_decode bs)"

definition truncateUtf8 :: "nat list \<Rightarrow> nat \<Rightarrow> nat list" where
  "truncateUtf8 s maxBytes =
     (let buf = utf8_encode s
      in if length buf \<le> maxBytes then s else utf8_decode (take maxBytes buf))"

definition STDERR_TRUNCATE_BYTES :: nat where
  "STDERR_TRUNCATE_BYTES = 4096"


subsection \<open>What the cut leaves\<close>

abbreviation code_point :: "nat \<Rightarrow> bool" where
  "code_point c \<equiv> c < 1114112"

lemma scalar_of_bound: "code_point c \<Longrightarrow> code_point (scalar_of c)"
  and scalar_of_not_surrogate: "\<not> is_surrogate (scalar_of c)"
  and scalar_of_idem [simp]: "scalar_of (scalar_of c) = scalar_of c"
  by (auto simp: scalar_of_def FFFD_def is_surrogate_def)

lemma utf8_bytes_scalar [simp]: "utf8_bytes (scalar_of c) = utf8_bytes c"
  by (simp add: utf8_bytes_def)

text \<open>The digits of a number in base 64.\<close>

lemma base64: "(c::nat) = c div 4096 * 4096 + c div 64 mod 64 * 64 + c mod 64"
proof -
  have "c div 64 = c div 64 div 64 * 64 + c div 64 mod 64" by simp
  then have "c div 64 = c div 4096 * 64 + c div 64 mod 64" by (simp add: div_mult2_eq [symmetric])
  then have "c div 64 * 64 = c div 4096 * 4096 + c div 64 mod 64 * 64" by simp
  then show ?thesis by (metis div_mult_mod_eq)
qed

lemma base64_four:
  "(c::nat) = c div 262144 * 262144 + c div 4096 mod 64 * 4096 + c div 64 mod 64 * 64 + c mod 64"
proof -
  have "c div 4096 = c div 4096 div 64 * 64 + c div 4096 mod 64" by simp
  then have "c div 4096 = c div 262144 * 64 + c div 4096 mod 64" by (simp add: div_mult2_eq [symmetric])
  then have "c div 4096 * 4096 = c div 262144 * 262144 + c div 4096 mod 64 * 4096" by simp
  with base64 [of c] show ?thesis by simp
qed

lemma second_of_three_ok:
  assumes "2048 \<le> c" "c < 65536" "\<not> is_surrogate c"
  shows "second_of_three (224 + c div 4096) (128 + c div 64 mod 64)"
proof -
  have "c div 4096 = 0 \<Longrightarrow> 32 \<le> c div 64 mod 64"
    using base64 [of c] assms(1) by simp
  moreover have "c div 64 mod 64 \<le> 31" if "c div 4096 = 13"
  proof -
    from that base64 [of c] have c: "c = 53248 + c div 64 mod 64 * 64 + c mod 64" by simp
    have "c div 64 mod 64 < 64" "c mod 64 < 64" by simp_all
    with c have "c \<le> 57343" by linarith
    with assms(3) have "c < 55296" by (simp add: is_surrogate_def)
    with c show ?thesis by linarith
  qed
  moreover have "c div 64 mod 64 < 64" by simp
  ultimately show ?thesis by (auto simp: second_of_three_def)
qed

lemma second_of_four_ok:
  assumes "65536 \<le> c" "code_point c"
  shows "second_of_four (240 + c div 262144) (128 + c div 4096 mod 64)"
proof -
  let ?x = "c div 4096 mod 64"
  have low: "c div 64 mod 64 < 64" "c mod 64 < 64" "?x < 64" by simp_all
  have "16 \<le> ?x" if "c div 262144 = 0"
    using base64_four [of c] assms(1) low that by linarith
  moreover have "?x \<le> 15" if "c div 262144 = 4"
    using base64_four [of c] assms(2) low that by linarith
  ultimately show ?thesis using low(3) by (auto simp: second_of_four_def)
qed

lemma lead_of_two: "128 \<le> c \<Longrightarrow> c < 2048 \<Longrightarrow> 194 \<le> 192 + c div 64 \<and> 192 + c div 64 \<le> (223::nat)"
  and lead_of_three: "c < 65536 \<Longrightarrow> c div 4096 \<le> (15::nat)"
  and lead_of_four: "code_point c \<Longrightarrow> c div 262144 \<le> 4"
  by (auto simp: less_eq_div_iff_mult_less_eq less_Suc_eq_le [symmetric] div_less_iff_less_mult)

lemma cont_low [simp]: "cont (128 + x mod 64)"
  using mod_less_divisor [of 64 x] by (simp add: cont_def)

definition width :: "nat \<Rightarrow> nat" where
  "width c = length (utf8_bytes c)"

lemma width_cases:
  "width c = (let s = scalar_of c in if s < 128 then 1 else if s < 2048 then 2 else if s < 65536 then 3 else 4)"
  by (simp add: width_def utf8_bytes_def Let_def)

lemma width_FFFD: "width FFFD = 3"
  by (simp add: width_cases scalar_of_def FFFD_def is_surrogate_def)

lemma width_scalar [simp]: "width (scalar_of c) = width c"
  by (simp add: width_def)

lemma width_bounds: "0 < width c" "width c \<le> 4"
  by (auto simp: width_cases Let_def)


text \<open>Without loss of generality the code point is no surrogate: \<open>s\<close> stands for \<open>scalar_of c\<close>.\<close>

lemma utf8_bytes_shape:
  fixes s :: nat
  assumes "code_point s" "\<not> is_surrogate s"
  obtains (one) "s < 128" "utf8_bytes s = [s]"
    | (two) "128 \<le> s" "s < 2048" "utf8_bytes s = [192 + s div 64, 128 + s mod 64]"
    | (three) "2048 \<le> s" "s < 65536" "utf8_bytes s = [224 + s div 4096, 128 + s div 64 mod 64, 128 + s mod 64]"
    | (four) "65536 \<le> s" "utf8_bytes s =
        [240 + s div 262144, 128 + s div 4096 mod 64, 128 + s div 64 mod 64, 128 + s mod 64]"
proof -
  consider "s < 128" | "128 \<le> s" "s < 2048" | "2048 \<le> s" "s < 65536" | "65536 \<le> s" by linarith
  then show thesis
    using assms by cases (rule that; simp add: utf8_bytes_def scalar_of_def)+
qed

lemma decode_scalar:
  assumes s: "code_point s" "\<not> is_surrogate s"
  shows "utf8_decode (utf8_bytes s @ r) = s # utf8_decode r"
  using s
proof (cases rule: utf8_bytes_shape)
  case two
  have "s div 64 * 64 + s mod 64 = s" by simp
  then show ?thesis using two lead_of_two [OF two(1,2)] by simp
next
  case three
  show ?thesis
    using three second_of_three_ok [OF three(1,2) s(2)] lead_of_three [OF three(2)] base64 [of s] by simp
next
  case four
  show ?thesis
    using four second_of_four_ok [OF four(1) s(1)] lead_of_four [OF s(1)] base64_four [of s] by simp
qed simp

lemma decode_scalar_cut:
  assumes s: "code_point s" "\<not> is_surrogate s" and k: "0 < k" "k < width s"
  shows "utf8_decode (take k (utf8_bytes s)) = [FFFD]"
  using s
proof (cases rule: utf8_bytes_shape)
  case one
  then show ?thesis using k by (simp add: width_def)
next
  case two
  then have "k = 1" using k by (simp add: width_def)
  then show ?thesis using two lead_of_two [OF two(1,2)] by simp
next
  case three
  then have "k = 1 \<or> k = 2" using k by (auto simp: width_def)
  then show ?thesis
    using three second_of_three_ok [OF three(1,2) s(2)] lead_of_three [OF three(2)] by (auto simp: numeral_2_eq_2)
next
  case four
  then have "k = 1 \<or> k = 2 \<or> k = 3" using k by (auto simp: width_def)
  then show ?thesis
    using four second_of_four_ok [OF four(1) s(1)] lead_of_four [OF s(1)]
    by (auto simp: numeral_2_eq_2 numeral_3_eq_3)
qed

lemma decode_bytes: "code_point c \<Longrightarrow> utf8_decode (utf8_bytes c @ r) = scalar_of c # utf8_decode r"
  using decode_scalar [OF scalar_of_bound scalar_of_not_surrogate, of c r] by simp

lemma decode_cut: "code_point c \<Longrightarrow> 0 < k \<Longrightarrow> k < width c \<Longrightarrow> utf8_decode (take k (utf8_bytes c)) = [FFFD]"
  using decode_scalar_cut [OF scalar_of_bound scalar_of_not_surrogate, of c k] by simp

lemma decode_encode: "list_all code_point s \<Longrightarrow> utf8_decode (utf8_encode s) = map scalar_of s"
  by (induction s) (simp_all add: utf8_encode_def decode_bytes)

lemma encode_length: "length (utf8_encode s) = sum_list (map width s)"
  by (induction s) (simp_all add: utf8_encode_def width_def)

text \<open>A cut inside the text leaves a prefix of it, and one U+FFFD unless it falls between two code points.\<close>

lemma decode_take_encode:
  assumes "list_all code_point s" "n \<le> length (utf8_encode s)"
  shows "\<exists>k \<le> length s. sum_list (map width (take k s)) \<le> n \<and>
    (utf8_decode (take n (utf8_encode s)) =
       map scalar_of (take k s) @ (if sum_list (map width (take k s)) = n then [] else [FFFD]))"
  using assms
proof (induction s arbitrary: n)
  case Nil
  then show ?case by (simp add: utf8_encode_def)
next
  case (Cons c s)
  have enc: "utf8_encode (c # s) = utf8_bytes c @ utf8_encode s" by (simp add: utf8_encode_def)
  have c: "code_point c" using Cons.prems(1) by simp
  show ?case
  proof (cases "n < width c")
    case True
    then have t: "take n (utf8_encode (c # s)) = take n (utf8_bytes c)" by (simp add: enc width_def)
    show ?thesis
      using decode_cut [OF c _ True] by (intro exI [of _ 0]) (auto simp: t)
  next
    case False
    then obtain m where n: "n = width c + m" using le_Suc_ex not_less by blast
    have t: "take n (utf8_encode (c # s)) = utf8_bytes c @ take m (utf8_encode s)"
      by (simp add: enc n width_def)
    have "list_all code_point s" "m \<le> length (utf8_encode s)"
      using Cons.prems by (simp_all add: enc n width_def)
    from Cons.IH [OF this] obtain k where "k \<le> length s" "sum_list (map width (take k s)) \<le> m"
      "utf8_decode (take m (utf8_encode s)) =
         map scalar_of (take k s) @ (if sum_list (map width (take k s)) = m then [] else [FFFD])"
      by blast
    then show ?thesis
      by (intro exI [of _ "Suc k"]) (simp add: t [unfolded n] decode_bytes [OF c] n)
  qed
qed

lemma widths_scalar: "sum_list (map width (map scalar_of s)) = sum_list (map width s)"
  by (simp add: comp_def)

lemma truncateUtf8_prefix:
  assumes "list_all code_point s" "n < length (utf8_encode s)"
  obtains k where "k \<le> length s" "sum_list (map width (take k s)) \<le> n"
    "truncateUtf8 s n = map scalar_of (take k s) @ (if sum_list (map width (take k s)) = n then [] else [FFFD])"
  using decode_take_encode [OF assms(1), of n] assms(2) by (auto simp: truncateUtf8_def Let_def)

lemma truncateUtf8_length:
  assumes "list_all code_point s"
  shows "length (utf8_encode (truncateUtf8 s n)) \<le> n + 2"
proof (cases "length (utf8_encode s) \<le> n")
  case True
  then show ?thesis by (simp add: truncateUtf8_def)
next
  case False
  then have "n < length (utf8_encode s)" by simp
  from truncateUtf8_prefix [OF assms this] obtain k where
    "sum_list (map width (take k s)) \<le> n"
    "truncateUtf8 s n = map scalar_of (take k s) @ (if sum_list (map width (take k s)) = n then [] else [FFFD])"
    by blast
  then show ?thesis by (simp add: encode_length widths_scalar width_FFFD comp_def)
qed

lemma concat_replicate_single: "concat (map (\<lambda>_. [x]) (replicate n y)) = replicate n x"
  by (induction n) simp_all

lemma truncateUtf8_ascii_then:
  assumes "code_point c" "1 < width c"
  shows "truncateUtf8 (replicate n 97 @ [c]) (Suc n) = replicate n 97 @ [FFFD]"
proof -
  have b: "utf8_bytes 97 = [97]" by (simp add: utf8_bytes_def scalar_of_def is_surrogate_def)
  then have enc: "utf8_encode (replicate n 97 @ [c]) = replicate n 97 @ utf8_bytes c"
    by (simp add: utf8_encode_def concat_replicate_single)
  have dec: "utf8_decode (replicate m 97 @ r) = replicate m 97 @ utf8_decode r" for m r
    by (induction m) simp_all
  show ?thesis
    using assms decode_cut [OF assms(1), of 1] by (simp add: truncateUtf8_def enc dec width_def)
qed

end
