(* ===== verification/GitRun.thy ===== *)
theory GitRun
  imports GitText Utf8 StateErr
begin

text \<open>
  The envelope of every git command: \<open>runGitCommand\<close>, \<open>writeAuditRow\<close> and the calls of \<open>simple-git\<close>
  (\<open>src/src/services/git-operations.ts\<close>).

  Git itself and the library that starts it are not under \<open>src/\<close>.  They are a parameter, \<open>git_env\<close>: the
  answer to a call is a function of all the calls made so far, its own included, and so is whether the
  timer of the envelope has fired before that answer came.  The state keeps the calls and the rows of
  \<open>git_audit_log\<close>; ids, durations and creation times of the rows are left out, and so are the messages that
  the code composes itself (\<open>message\<close> is git's own line).

  A closure that loses the race against the timer is not stopped: its remaining calls are still made.
  What it assigns after that to the variables it shares with its caller is no longer seen.
\<close>

datatype git_call =
  GRaw "string list"
| GRevparse "string list"
| GStatus
| GPull
| GAdd "string list"
| GCommit string

text \<open>The fields of the \<open>StatusResult\<close> of \<open>simple-git\<close> that the code reads: \<open>files\<close> are a path, its index
  and its working directory code; \<open>renamed\<close> are the new names.\<close>

record git_status =
  st_current :: "string option"
  st_detached :: bool
  st_files :: "(string \<times> string option \<times> string option) list"
  st_clean :: bool
  st_not_added :: "string list"
  st_modified :: "string list"
  st_deleted :: "string list"
  st_renamed_to :: "string list"
  st_staged :: "string list"

text \<open>\<open>ge_chunks\<close> are the chunks of \<open>stderr\<close> of the last call; \<open>ge_file\<close> reads a file of the working tree,
  given its root and the relative path: an error code, or its size in bytes and its text.  The text answer
  of \<open>commit\<close> is the field \<open>commit\<close> of its result.\<close>

record git_env =
  ge_exists :: "git_call list \<Rightarrow> string \<Rightarrow> bool"
  ge_text :: "git_call list \<Rightarrow> thrown + string"
  ge_status :: "git_call list \<Rightarrow> thrown + git_status"
  ge_late :: "git_call list \<Rightarrow> bool"
  ge_chunks :: "git_call list \<Rightarrow> string list"
  ge_file :: "git_call list \<Rightarrow> string \<Rightarrow> string \<Rightarrow> string + (nat \<times> string)"

datatype git_action =
  A_pull | A_commit | A_push | A_log | A_branch_list | A_checkout | A_branch_delete | A_diff | A_discard
| A_fetch | A_show | A_stash_push | A_stash_list | A_stash_pop | A_stash_drop

text \<open>Who the row is about: \<open>projectId\<close> and \<open>workspaceId\<close>.\<close>

type_synonym scope = "int option \<times> int option"

record git_row =
  ga_projectId :: "int option"
  ga_workspaceId :: "int option"
  ga_action :: git_action
  ga_args :: jobj
  ga_exitCode :: "nat option"
  ga_reason :: reason
  ga_stderr :: "nat list option"

text \<open>\<open>gs_args\<close> and \<open>gs_branch\<close> are the variables that \<open>runGitPush\<close> shares with its closure.\<close>

record git_state =
  gs_calls :: "git_call list"
  gs_expired :: bool
  gs_args :: jobj
  gs_branch :: "string option"
  gs_rows :: "git_row list"

type_synonym 'a git = "(git_state, thrown, 'a) act"

subsection \<open>Calls\<close>

definition made :: "git_env \<Rightarrow> git_call \<Rightarrow> git_state \<Rightarrow> git_state" where
  "made env c s =
     (let cs = gs_calls s @ [c] in s\<lparr>gs_calls := cs, gs_expired := gs_expired s \<or> ge_late env cs\<rparr>)"

definition text_call :: "git_env \<Rightarrow> git_call \<Rightarrow> string git" where
  "text_call env c = (\<lambda>s. let s' = made env c s in (ge_text env (gs_calls s'), s'))"

definition git_raw :: "git_env \<Rightarrow> string list \<Rightarrow> string git" where
  "git_raw env args = text_call env (GRaw args)"

definition git_revparse :: "git_env \<Rightarrow> string list \<Rightarrow> string git" where
  "git_revparse env args = text_call env (GRevparse args)"

definition git_pull :: "git_env \<Rightarrow> string git" where
  "git_pull env = text_call env GPull"

definition git_add :: "git_env \<Rightarrow> string list \<Rightarrow> string git" where
  "git_add env paths = text_call env (GAdd paths)"

definition git_commit :: "git_env \<Rightarrow> string \<Rightarrow> string git" where
  "git_commit env msg = text_call env (GCommit msg)"

definition git_status_call :: "git_env \<Rightarrow> git_status git" where
  "git_status_call env = (\<lambda>s. let s' = made env GStatus s in (ge_status env (gs_calls s'), s'))"

text \<open>An assignment to the shared variables.\<close>

definition assignS :: "(git_state \<Rightarrow> git_state) \<Rightarrow> unit git" where
  "assignS f = modS (\<lambda>s. if gs_expired s then s else f s)"

text \<open>\<open>throw Object.assign(new Error(\<dots>), { gitReason })\<close>\<close>

definition sentinel :: "reason \<Rightarrow> thrown" where
  "sentinel r = \<lparr>th_stderr = None, th_message = None, th_gitReason = Some r, th_string = []\<rparr>"

definition plain_error :: "string \<Rightarrow> thrown" where
  "plain_error m = \<lparr>th_stderr = None, th_message = Some m, th_gitReason = None, th_string = ''Error: '' @ m\<rparr>"

text \<open>\<open>try { m } catch (err) { \<dots> }\<close>, and the outcome of \<open>m\<close> as a value.\<close>

definition catchS :: "'a git \<Rightarrow> (thrown \<Rightarrow> 'a git) \<Rightarrow> 'a git" where
  "catchS m h = (\<lambda>s. case m s of (Inl e, s') \<Rightarrow> h e s' | (Inr v, s') \<Rightarrow> (Inr v, s'))"

definition attemptS :: "'a git \<Rightarrow> (thrown + 'a) git" where
  "attemptS m = (\<lambda>s. case m s of (r, s') \<Rightarrow> (Inr r, s'))"

subsection \<open>The audit row\<close>

text \<open>The table's check: one of the two ids is not null; an insert that fails is swallowed.  A database
  that fails for another reason (a full disk, a lock) is left out: the code swallows that error as well, and the
  row is missing.\<close>

definition scoped :: "scope \<Rightarrow> bool" where
  "scoped sc \<longleftrightarrow> fst sc \<noteq> None \<or> snd sc \<noteq> None"

definition stderr_row :: "string option \<Rightarrow> nat list option" where
  "stderr_row e = map_option (\<lambda>t. truncateUtf8 (map of_char t) STDERR_TRUNCATE_BYTES) (truthy_str e)"

definition writeAuditRow ::
  "git_action \<Rightarrow> scope \<Rightarrow> reason \<Rightarrow> string option \<Rightarrow> nat option \<Rightarrow> git_state \<Rightarrow> git_state" where
  "writeAuditRow a sc r stderr exitCode s =
     (if scoped sc then
        s\<lparr>gs_rows := gs_rows s @ [\<lparr>ga_projectId = fst sc, ga_workspaceId = snd sc, ga_action = a,
            ga_args = gs_args s, ga_exitCode = exitCode, ga_reason = r, ga_stderr = stderr_row stderr\<rparr>]\<rparr>
      else s)"

subsection \<open>The envelope\<close>

record cmd_failure =
  cf_reason :: reason
  cf_message :: "string option"
  cf_stderr :: "string option"

definition GIT_DIR :: "string \<Rightarrow> string" where
  "GIT_DIR cwd = cwd @ ''/.git''"

definition no_text :: "reason \<Rightarrow> cmd_failure" where
  "no_text r = \<lparr>cf_reason = r, cf_message = None, cf_stderr = None\<rparr>"

definition failed_with :: "thrown \<Rightarrow> cmd_failure" where
  "failed_with e = (case classifyGitError e of (r, m, t) \<Rightarrow> \<lparr>cf_reason = r, cf_message = m, cf_stderr = t\<rparr>)"

text \<open>The race: what the envelope sees of the closure once it, or the timer, is done.\<close>

definition race :: "git_env \<Rightarrow> git_action \<Rightarrow> 'a git \<Rightarrow> git_state \<Rightarrow> (cmd_failure + 'a) \<times> git_state" where
  "race env a run s =
     (case run (s\<lparr>gs_expired := False\<rparr>) of
        (r, s1) \<Rightarrow>
          if gs_expired s1 then
            (Inl (no_text R_timeout), if a = A_pull then snd (git_raw env [''merge'', ''--abort''] s1) else s1)
          else (case r of Inr v \<Rightarrow> (Inr v, s1) | Inl e \<Rightarrow> (Inl (failed_with e), s1)))"

definition runGitCommand ::
  "git_env \<Rightarrow> string \<Rightarrow> git_action \<Rightarrow> scope \<Rightarrow> jobj \<Rightarrow> 'a git \<Rightarrow> git_state \<Rightarrow> (cmd_failure + 'a) \<times> git_state" where
  "runGitCommand env cwd a sc args run s0 =
     (let s = s0\<lparr>gs_args := args, gs_branch := None\<rparr>
      in case (if \<not> ge_exists env (gs_calls s) cwd then (Inl (no_text R_path_missing), s)
               else if \<not> ge_exists env (gs_calls s) (GIT_DIR cwd) then (Inl (no_text R_not_a_repo), s)
               else race env a run s) of
           (Inr v, s1) \<Rightarrow> (Inr v, writeAuditRow a sc R_ok None (Some 0) s1)
         | (Inl f, s1) \<Rightarrow> (Inl f, writeAuditRow a sc (cf_reason f) (cf_stderr f) None s1))"

end
