(* ===== verification/GitParse.thy ===== *)
theory GitParse
  imports GitText FsOps
begin

text \<open>
  The text that goes to git and the text that comes back (\<open>src/src/services/git-operations.ts\<close>): the
  checks of references, paths and remotes, the command lines, and the parsers of \<open>git log\<close>, \<open>git diff
  --name-status\<close>, \<open>git for-each-ref\<close>, \<open>git show\<close> and \<open>git stash list\<close>.
\<close>

subsection \<open>Numbers\<close>

definition int_or_0 :: "int option \<Rightarrow> int" where
  "int_or_0 v = (case v of Some n \<Rightarrow> n | None \<Rightarrow> 0)"

text \<open>\<open>/\ba (\d+)/.exec(s)\<close>\<close>

fun number_after :: "bool \<Rightarrow> string \<Rightarrow> string \<Rightarrow> nat option" where
  "number_after prev a [] = None"
| "number_after prev a (c # s) =
     (let ds = takeWhile is_digit (drop (length a) (c # s))
      in if \<not> prev \<and> is_prefix_of a (c # s) \<and> ds \<noteq> [] then Some (nat_of_str ds)
         else number_after (word_char c) a s)"

subsection \<open>What a caller may name\<close>

definition hex_char :: "char \<Rightarrow> bool" where
  "hex_char c \<longleftrightarrow> c \<in> set ''0123456789abcdefABCDEF''"

definition CURSOR_RE :: "string \<Rightarrow> bool" where
  "CURSOR_RE s \<longleftrightarrow> 7 \<le> length s \<and> length s \<le> 64 \<and> list_all hex_char s"

definition SHOW_SHA_RE :: "string \<Rightarrow> bool" where
  "SHOW_SHA_RE s \<longleftrightarrow> 7 \<le> length s \<and> length s \<le> 64 \<and> list_all hex_char s"

definition BRANCH_RE :: "string \<Rightarrow> bool" where
  "BRANCH_RE s \<longleftrightarrow> s \<noteq> [] \<and> list_all (\<lambda>c. word_char c \<or> c \<in> set ''./+-'') s"

definition FETCH_REMOTE_RE :: "string \<Rightarrow> bool" where
  "FETCH_REMOTE_RE s \<longleftrightarrow> s \<noteq> [] \<and> list_all (\<lambda>c. word_char c \<or> c \<in> set ''./+-'') s"

definition DIFF_REF_RE :: "string \<Rightarrow> bool" where
  "DIFF_REF_RE s \<longleftrightarrow> s \<noteq> [] \<and> list_all (\<lambda>c. word_char c \<or> c \<in> set ''./+-'') s"

text \<open>Cyrillic letters, which the next expression also admits, are no characters here.\<close>

definition SERVICE_BRANCH_NAME_RE :: "string \<Rightarrow> bool" where
  "SERVICE_BRANCH_NAME_RE s \<longleftrightarrow> s \<noteq> [] \<and> list_all (\<lambda>c. word_char c \<or> c \<in> set ''-./'') s"

definition STASH_REF_RE :: "string \<Rightarrow> bool" where
  "STASH_REF_RE s \<longleftrightarrow>
     (let p = ''stash@'' @ [CHR 0x7B]; t = drop (length p) s
      in is_prefix_of p s \<and> takeWhile is_digit t \<noteq> [] \<and> dropWhile is_digit t = [CHR 0x7D])"

definition PROTECTED_BRANCHES :: "string list" where
  "PROTECTED_BRANCHES = [''main'', ''master'']"

definition PROTECTED_DELETE_BRANCHES :: "string list" where
  "PROTECTED_DELETE_BRANCHES = [''main'', ''master'']"

definition validateDiscardPath :: "host \<Rightarrow> string \<Rightarrow> string \<Rightarrow> reason + string" where
  "validateDiscardPath h cwd raw =
     (if raw = [] then Inl R_invalid_path
      else if CHR 0x00 \<in> set raw then Inl R_invalid_path
      else if isAbsolute raw then Inl R_invalid_path
      else let absoluteRoot = resolve h cwd; joined = resolve_in h cwd raw
           in if \<not> under_root absoluteRoot joined then Inl R_path_outside_repo
              else if joined = absoluteRoot then Inl R_invalid_path
              else Inr raw)"

fun validate_discard :: "host \<Rightarrow> string \<Rightarrow> string list \<Rightarrow> reason + string list" where
  "validate_discard h cwd [] = Inr []"
| "validate_discard h cwd (p # ps) =
     bind_err (validateDiscardPath h cwd p) (\<lambda>v. bind_err (validate_discard h cwd ps) (\<lambda>vs. Inr (v # vs)))"

definition diff_path_ok :: "string \<Rightarrow> bool" where
  "diff_path_ok p \<longleftrightarrow> p \<noteq> [] \<and> \<not> is_prefix_of ''-'' p
     \<and> \<not> (is_prefix_of ''/'' p \<or> p = ''..'' \<or> is_prefix_of ''../'' p \<or> has ''/../'' p \<or> has_suffix ''/..'' p)"

subsection \<open>Command lines\<close>

definition UPSTREAM :: string where
  "UPSTREAM = CHR 0x40 # ''{u}''"

definition buildPushArgs :: "string \<Rightarrow> string \<Rightarrow> bool \<Rightarrow> bool \<Rightarrow> string list" where
  "buildPushArgs branch remote setUpstream force =
     [''push''] @ (if setUpstream then [''-u''] else []) @ [remote, ''HEAD:refs/heads/'' @ branch]
       @ (if force then [''--force-with-lease''] else [])"

definition LOG_FIELD_SEP :: char where
  "LOG_FIELD_SEP = CHR 0x09"

definition LOG_PRETTY :: string where
  "LOG_PRETTY = ''--pretty=format:'' @ join_on LOG_FIELD_SEP [''%H'', ''%an'', ''%ae'', ''%at'', ''%P'', ''%s'']"

definition log_args :: "nat \<Rightarrow> string option \<Rightarrow> string list" where
  "log_args limit startRef =
     [''log'', ''-n'', str_of_nat (limit + 1), ''--no-color'', ''--no-decorate'', LOG_PRETTY, ''--end-of-options'']
       @ (case startRef of Some r \<Rightarrow> [r] | None \<Rightarrow> [])"

definition diff_scope :: "bool \<Rightarrow> string option \<Rightarrow> string option \<Rightarrow> string list" where
  "diff_scope staged base head =
     (if staged then [''--cached''] else [])
       @ (case (base, head) of (Some b, Some h) \<Rightarrow> [b, h] | _ \<Rightarrow> [])"

definition BRANCH_LIST_FIELD_SEP :: char where
  "BRANCH_LIST_FIELD_SEP = CHR ''|''"

definition BRANCH_LIST_FORMAT :: string where
  "BRANCH_LIST_FORMAT = ''--format='' @ join_on BRANCH_LIST_FIELD_SEP
     [''%(refname)'', ''%(refname:short)'', ''%(HEAD)'', ''%(upstream:short)'', ''%(upstream:track)'']"

definition STASH_LIST_FIELD_SEP :: char where
  "STASH_LIST_FIELD_SEP = CHR 0x1F"

definition STASH_LIST_FORMAT :: string where
  "STASH_LIST_FORMAT = ''--format='' @ join_on STASH_LIST_FIELD_SEP [''%gd'', ''%H'', ''%cI'', ''%gs'']"

subsection \<open>\<open>git log\<close>\<close>

record GitLogCommit =
  lc_sha :: string
  lc_shortSha :: string
  lc_author :: string
  lc_email :: string
  lc_ts :: int
  lc_subject :: string
  lc_parents :: "string list"

definition words_of :: "string \<Rightarrow> string list" where
  "words_of s = filter (\<lambda>w. w \<noteq> []) (split_on (CHR '' '') s)"

definition log_line :: "string \<Rightarrow> GitLogCommit option" where
  "log_line line =
     (case split_on LOG_FIELD_SEP line of
        sha # author # email # atRaw # parentsRaw # r # rest \<Rightarrow>
          Some \<lparr>lc_sha = sha, lc_shortSha = take 7 sha, lc_author = author, lc_email = email,
            lc_ts = int_or_0 (js_parseInt atRaw), lc_subject = join_on LOG_FIELD_SEP (r # rest),
            lc_parents = words_of parentsRaw\<rparr>
      | _ \<Rightarrow> None)"

definition parseGitLogOutput :: "string \<Rightarrow> GitLogCommit list" where
  "parseGitLogOutput stdout =
     (if js_trim stdout = [] then []
      else List.map_filter log_line (filter (\<lambda>l. l \<noteq> []) (split_on (CHR 0x0A) stdout)))"

subsection \<open>\<open>git diff --name-status\<close>\<close>

datatype diff_status = Diff_M | Diff_A | Diff_D | Diff_R | Diff_C | Diff_binary | Diff_unchanged

record status_row =
  sr_status :: diff_status
  sr_oldPath :: "string option"
  sr_newPath :: "string option"

definition scored :: "char \<Rightarrow> string \<Rightarrow> bool" where
  "scored l code \<longleftrightarrow> (case code of c # ds \<Rightarrow> c = l \<and> ds \<noteq> [] \<and> list_all is_digit ds | [] \<Rightarrow> False)"

definition status_of_code :: "string \<Rightarrow> diff_status option" where
  "status_of_code code =
     (if code = ''M'' then Some Diff_M else if code = ''A'' then Some Diff_A else if code = ''D'' then Some Diff_D
      else None)"

definition status_line :: "string \<Rightarrow> string \<Rightarrow> status_row option" where
  "status_line requestedPath line =
     (case split_on (CHR 0x09) line of
        code # p1 # ps \<Rightarrow>
          (case ps of
             p2 # _ \<Rightarrow>
               if scored (CHR ''R'') code \<or> scored (CHR ''C'') code then
                 (if p1 = requestedPath \<or> p2 = requestedPath then
                    Some \<lparr>sr_status = (if scored (CHR ''R'') code then Diff_R else Diff_C),
                      sr_oldPath = Some p1, sr_newPath = Some p2\<rparr>
                  else None)
               else map_option (\<lambda>st. \<lparr>sr_status = st, sr_oldPath = None, sr_newPath = None\<rparr>)
                      (if p1 = requestedPath then status_of_code code else None)
           | [] \<Rightarrow> map_option (\<lambda>st. \<lparr>sr_status = st, sr_oldPath = None, sr_newPath = None\<rparr>)
                      (if p1 = requestedPath then status_of_code code else None))
      | _ \<Rightarrow> None)"

fun first_some :: "('a \<Rightarrow> 'b option) \<Rightarrow> 'a list \<Rightarrow> 'b option" where
  "first_some f [] = None"
| "first_some f (x # xs) = (case f x of Some y \<Rightarrow> Some y | None \<Rightarrow> first_some f xs)"

definition findStatusForPath :: "string \<Rightarrow> string \<Rightarrow> status_row option" where
  "findStatusForPath out requestedPath =
     (if js_trim out = [] then None
      else first_some (status_line requestedPath) (filter (\<lambda>l. l \<noteq> []) (split_on (CHR 0x0A) out)))"

subsection \<open>\<open>git for-each-ref\<close>\<close>

record GitBranchEntry =
  be_name :: string
  be_current :: bool
  be_upstream :: "string option"
  be_ahead :: nat
  be_behind :: nat
  be_isRemote :: bool

definition nat_or_0 :: "nat option \<Rightarrow> nat" where
  "nat_or_0 v = (case v of Some n \<Rightarrow> n | None \<Rightarrow> 0)"

definition branch_row :: "string \<Rightarrow> GitBranchEntry option" where
  "branch_row rawLine =
     (case split_on BRANCH_LIST_FIELD_SEP rawLine of
        refname # name # headFlag # upstreamShort # trackRaw # _ \<Rightarrow>
          if name = [] then None
          else Some \<lparr>be_name = name, be_current = (headFlag = ''*''), be_upstream = truthy_str (Some upstreamShort),
            be_ahead = nat_or_0 (number_after False ''ahead '' (js_trim trackRaw)),
            be_behind = nat_or_0 (number_after False ''behind '' (js_trim trackRaw)),
            be_isRemote = is_prefix_of ''refs/remotes/'' refname\<rparr>
      | _ \<Rightarrow> None)"

definition parseBranchListOutput :: "string \<Rightarrow> GitBranchEntry list \<times> bool" where
  "parseBranchListOutput stdout =
     (if js_trim stdout = [] then ([], False)
      else let rows = List.map_filter branch_row (filter (\<lambda>l. l \<noteq> []) (split_on (CHR 0x0A) stdout))
           in (rows, list_ex (\<lambda>b. \<not> be_isRemote b) rows \<and> \<not> list_ex be_current rows))"

subsection \<open>\<open>git show\<close>\<close>

record GitShowCommit =
  sc_sha :: string
  sc_parents :: "string list"
  sc_author :: string
  sc_email :: string
  sc_ts :: int
  sc_message :: string

definition parseShowMeta :: "string \<Rightarrow> GitShowCommit option" where
  "parseShowMeta out =
     (if out = [] then None
      else (case split_on (CHR 0x0A) (if last out = CHR 0x0A then butlast out else out) of
              sha # parentsRaw # author # email # tsRaw # m # ms \<Rightarrow>
                map_option (\<lambda>ts. \<lparr>sc_sha = sha, sc_parents = words_of parentsRaw, sc_author = author,
                  sc_email = email, sc_ts = ts, sc_message = join_on (CHR 0x0A) (m # ms)\<rparr>) (js_parseInt tsRaw)
            | _ \<Rightarrow> None))"

definition to_upper :: "char \<Rightarrow> char" where
  "to_upper c = (case map_of (zip lower_letters upper_letters) c of None \<Rightarrow> c | Some d \<Rightarrow> d)"

definition z_tokens :: "string \<Rightarrow> string list" where
  "z_tokens out = filter (\<lambda>t. t \<noteq> []) (split_on (CHR 0x00) (dropWhile is_ws out))"

text \<open>A status letter, the path and the old path of a rename or copy.\<close>

type_synonym z_status = "char \<times> string \<times> string option"

fun name_status_rows :: "string list \<Rightarrow> z_status list" where
  "name_status_rows [] = []"
| "name_status_rows [code] = []"
| "name_status_rows [code, p] =
     (if to_upper (hd code) \<in> set ''MADTU'' then [(to_upper (hd code), p, None)] else [])"
| "name_status_rows (code # p # q # ts) =
     (if to_upper (hd code) \<in> set ''RC'' then (to_upper (hd code), q, Some p) # name_status_rows ts
      else if to_upper (hd code) \<in> set ''MADTU'' then (to_upper (hd code), p, None) # name_status_rows (q # ts)
      else name_status_rows (q # ts))"

definition parseNameStatusZ :: "string \<Rightarrow> z_status list" where
  "parseNameStatusZ out = name_status_rows (z_tokens out)"

text \<open>Lines added and removed, the path and the old path.\<close>

type_synonym z_numstat = "int \<times> int \<times> string \<times> string option"

definition stat_count :: "string \<Rightarrow> int" where
  "stat_count s = (if s = ''-'' then 0 else int_or_0 (js_parseInt s))"

fun numstat_rows :: "string list \<Rightarrow> z_numstat list" where
  "numstat_rows [] = []"
| "numstat_rows (head # ts) =
     (case split_on (CHR 0x09) head of
        a # r # p # ps \<Rightarrow>
          let path = join_on (CHR 0x09) (p # ps)
          in if path \<noteq> [] then (stat_count a, stat_count r, path, None) # numstat_rows ts
             else (case ts of
                     old # new # ts' \<Rightarrow> (stat_count a, stat_count r, new, Some old) # numstat_rows ts'
                   | _ \<Rightarrow> [])
      | _ \<Rightarrow> numstat_rows ts)"

definition parseNumstatZ :: "string \<Rightarrow> z_numstat list" where
  "parseNumstatZ out = numstat_rows (z_tokens out)"

record GitShowFile =
  sf_path :: string
  sf_status :: char
  sf_added :: int
  sf_removed :: int
  sf_oldPath :: "string option"

definition num_by_path :: "z_numstat list \<Rightarrow> (string \<times> int \<times> int) list" where
  "num_by_path rows = fold (\<lambda>(a, r, p, _). AList.update p (a, r)) rows []"

definition mergeShowFiles :: "z_status list \<Rightarrow> z_numstat list \<Rightarrow> GitShowFile list" where
  "mergeShowFiles statusRows numstatRows =
     map (\<lambda>(st, path, old).
        let (a, r) = (case map_of (num_by_path numstatRows) path of Some c \<Rightarrow> c | None \<Rightarrow> (0, 0))
        in \<lparr>sf_path = path, sf_status = st, sf_added = a, sf_removed = r, sf_oldPath = truthy_str old\<rparr>) statusRows"

subsection \<open>\<open>git stash list\<close>\<close>

record GitStashEntry =
  se_ref :: string
  se_hash :: string
  se_date :: string
  se_message :: string

definition stash_row :: "string \<Rightarrow> GitStashEntry option" where
  "stash_row rawLine =
     (case split_on STASH_LIST_FIELD_SEP rawLine of
        ref # hash # date # m # ms \<Rightarrow>
          if ref = [] \<or> hash = [] then None
          else Some \<lparr>se_ref = ref, se_hash = hash, se_date = date, se_message = join_on STASH_LIST_FIELD_SEP (m # ms)\<rparr>
      | _ \<Rightarrow> None)"

definition parseStashListOutput :: "string \<Rightarrow> GitStashEntry list" where
  "parseStashListOutput stdout =
     (if js_trim stdout = [] then []
      else List.map_filter stash_row (filter (\<lambda>l. l \<noteq> []) (split_on (CHR 0x0A) stdout)))"

end
