(* ===== verification/GitOps.thy ===== *)
theory GitOps
  imports GitRun GitParse
begin

text \<open>
  The operations of \<open>src/src/services/git-operations.ts\<close>.  Each answers a failure, with its reason and git's
  own line and \<open>stderr\<close>, or what it found; all but \<open>runGitStatus\<close> go through the envelope \<open>runGitCommand\<close>.
  \<open>runGitPull\<close> makes calls outside the envelope as well, and its promise is rejected when one of the two
  that it does not guard fails.
\<close>

abbreviation fails :: "reason \<Rightarrow> git_state \<Rightarrow> (cmd_failure + 'a) \<times> git_state" where
  "fails r s \<equiv> (Inl (no_text r), s)"

text \<open>The failure of the envelope, with the reason of the operation; the second form has \<open>stderr ?? ""\<close>.\<close>

definition or_blank :: "string option \<Rightarrow> string" where
  "or_blank v = (case v of Some t \<Rightarrow> t | None \<Rightarrow> [])"

definition renamed :: "(reason \<Rightarrow> reason) \<Rightarrow> cmd_failure \<Rightarrow> cmd_failure" where
  "renamed f c = c\<lparr>cf_reason := f (cf_reason c)\<rparr>"

definition reread :: "(reason \<Rightarrow> string \<Rightarrow> reason) \<Rightarrow> cmd_failure \<Rightarrow> cmd_failure" where
  "reread f c =
     c\<lparr>cf_reason := f (cf_reason c) (or_blank (cf_stderr c)), cf_stderr := Some (or_blank (cf_stderr c))\<rparr>"

definition map_fail :: "(cmd_failure \<Rightarrow> cmd_failure) \<Rightarrow> (cmd_failure + 'a) \<times> git_state \<Rightarrow> (cmd_failure + 'a) \<times> git_state" where
  "map_fail f rs = map_prod (map_sum f id) id rs"

subsection \<open>Pull\<close>

record GitPullSuccess =
  ps_alreadyUpToDate :: bool
  ps_beforeSha :: string
  ps_afterSha :: string
  ps_branch :: string
  ps_commitsPulled :: nat
  ps_filesChanged :: nat

definition countCommits :: "git_env \<Rightarrow> string \<Rightarrow> string \<Rightarrow> nat git" where
  "countCommits env before after =
     bindS (attemptS (git_raw env [''rev-list'', ''--count'', before @ ''..'' @ after]))
       (\<lambda>r. retS (case r of Inl _ \<Rightarrow> 0 | Inr raw \<Rightarrow> nat (int_or_0 (js_parseInt (js_trim raw)))))"

definition countFilesChanged :: "git_env \<Rightarrow> string \<Rightarrow> string \<Rightarrow> nat git" where
  "countFilesChanged env before after =
     bindS (attemptS (git_raw env [''diff'', ''--name-only'', before @ ''..'' @ after]))
       (\<lambda>r. retS (case r of Inl _ \<Rightarrow> 0
          | Inr raw \<Rightarrow> if js_trim raw = [] then 0 else length (split_on (CHR 0x0A) (js_trim raw))))"

definition pull_refused :: "reason \<Rightarrow> string option \<Rightarrow> cmd_failure" where
  "pull_refused r stderr = \<lparr>cf_reason = r, cf_message = None, cf_stderr = stderr\<rparr>"

text \<open>Steps 5 to 7: the pull and what it brought.\<close>

definition pull_now :: "git_env \<Rightarrow> string \<Rightarrow> scope \<Rightarrow> string \<Rightarrow> (cmd_failure + GitPullSuccess) git" where
  "pull_now env cwd sc branch =
     bindS (git_revparse env [''HEAD'']) (\<lambda>before0.
     let before = js_trim before0
     in bindS (\<lambda>s. case runGitCommand env cwd A_pull sc [] (git_pull env) s of (r, s') \<Rightarrow> (Inr r, s')) (\<lambda>cmd.
     case cmd of
       Inl c \<Rightarrow> retS (Inl (reread gitReasonToPullReason c))
     | Inr _ \<Rightarrow>
        bindS (git_revparse env [''HEAD'']) (\<lambda>after0.
        let after = js_trim after0
        in if before = after then
             retS (Inr \<lparr>ps_alreadyUpToDate = True, ps_beforeSha = before, ps_afterSha = after, ps_branch = branch,
               ps_commitsPulled = 0, ps_filesChanged = 0\<rparr>)
           else
             bindS (countCommits env before after) (\<lambda>n.
             bindS (countFilesChanged env before after) (\<lambda>k.
             retS (Inr \<lparr>ps_alreadyUpToDate = False, ps_beforeSha = before, ps_afterSha = after, ps_branch = branch,
               ps_commitsPulled = n, ps_filesChanged = k\<rparr>))))))"

text \<open>Steps 2 to 4: a branch, its upstream, a clean tree.\<close>

definition runGitPull :: "git_env \<Rightarrow> string \<Rightarrow> scope \<Rightarrow> (cmd_failure + GitPullSuccess) git" where
  "runGitPull env cwd sc = (\<lambda>s0.
     if \<not> ge_exists env (gs_calls s0) cwd \<or> \<not> ge_exists env (gs_calls s0) (GIT_DIR cwd) then
       (Inr (Inl (no_text R_not_a_git_repo)), s0)
     else
       bindS (attemptS (git_revparse env [''--abbrev-ref'', ''HEAD''])) (\<lambda>b.
       case b of
         Inl e \<Rightarrow> retS (Inl (pull_refused R_unknown (Some (extractStderr e))))
       | Inr out \<Rightarrow>
          let branch = js_trim out
          in if branch = [] \<or> branch = ''HEAD'' then retS (Inl (no_text R_no_upstream))
             else
               bindS (attemptS (git_revparse env [''--abbrev-ref'', ''--symbolic-full-name'', UPSTREAM])) (\<lambda>u.
               case u of
                 Inl e \<Rightarrow> retS (Inl (pull_refused R_no_upstream (Some (extractStderr e))))
               | Inr _ \<Rightarrow>
                  bindS (attemptS (git_status_call env)) (\<lambda>st.
                  case st of
                    Inl e \<Rightarrow> retS (Inl (pull_refused R_unknown (Some (extractStderr e))))
                  | Inr status \<Rightarrow>
                      if \<not> st_clean status then retS (Inl (no_text R_dirty_working_tree))
                      else pull_now env cwd sc branch))) s0)"

subsection \<open>Status\<close>

record GitStatusResult =
  gr_branch :: "string option"
  gr_detached :: bool
  gr_entries :: "(string \<times> string \<times> string) list"

definition status_entry :: "string \<times> string option \<times> string option \<Rightarrow> string \<times> string \<times> string" where
  "status_entry f = (case f of (p, i, w) \<Rightarrow>
     (p, case i of Some x \<Rightarrow> x | None \<Rightarrow> '' '', case w of Some x \<Rightarrow> x | None \<Rightarrow> '' ''))"

definition runGitStatus :: "git_env \<Rightarrow> string \<Rightarrow> git_state \<Rightarrow> (cmd_failure + GitStatusResult) \<times> git_state" where
  "runGitStatus env cwd s =
     (if \<not> ge_exists env (gs_calls s) cwd then fails R_path_missing s
      else if \<not> ge_exists env (gs_calls s) (GIT_DIR cwd) then fails R_not_a_repo s
      else case git_status_call env s of
          (Inr st, s') \<Rightarrow> (Inr \<lparr>gr_branch = st_current st, gr_detached = st_detached st,
             gr_entries = map status_entry (st_files st)\<rparr>, s')
        | (Inl e, s') \<Rightarrow> (Inl \<lparr>cf_reason = R_unknown, cf_message = Some (extractStderr e), cf_stderr = None\<rparr>, s'))"

subsection \<open>Commit\<close>

record GitCommitResult =
  cr_sha :: string
  cr_filesCommitted :: nat

definition stageable :: "git_status \<Rightarrow> string list" where
  "stageable st = st_not_added st @ st_modified st @ st_deleted st @ st_renamed_to st"

text \<open>Steps 3 to 5, and what comes before them.\<close>

definition stage_and_commit :: "git_env \<Rightarrow> string \<Rightarrow> string list \<Rightarrow> GitCommitResult git" where
  "stage_and_commit env msg stage =
     bindS (git_add env stage) (\<lambda>_.
     bindS (git_status_call env) (\<lambda>after.
     if st_staged after = [] then throwS (sentinel R_empty_index)
     else bindS (git_commit env msg) (\<lambda>sha.
       retS \<lparr>cr_sha = sha, cr_filesCommitted = length (st_staged after)\<rparr>)))"

definition commit_run :: "git_env \<Rightarrow> string \<Rightarrow> string list option \<Rightarrow> GitCommitResult git" where
  "commit_run env msg paths =
     bindS (git_status_call env) (\<lambda>st.
     if st_detached st then throwS (sentinel R_detached_head)
     else if (case paths of Some ps \<Rightarrow> filter (\<lambda>p. p \<notin> set (stageable st)) ps \<noteq> [] | None \<Rightarrow> False)
     then throwS (sentinel R_unknown_path)
     else stage_and_commit env msg (case paths of Some ps \<Rightarrow> ps | None \<Rightarrow> [''-A'']))"

definition commit_audit :: "string \<Rightarrow> string list option \<Rightarrow> jobj" where
  "commit_audit msg paths =
     [(''paths_count'', JNum (int (case paths of Some ps \<Rightarrow> length ps | None \<Rightarrow> 0))),
      (''message_bytes'', JNum (int (length (utf8_encode (map of_char msg)))))]"

definition runGitCommit ::
  "git_env \<Rightarrow> string \<Rightarrow> string \<Rightarrow> string list option \<Rightarrow> scope \<Rightarrow> git_state
     \<Rightarrow> (cmd_failure + GitCommitResult) \<times> git_state" where
  "runGitCommit env cwd msg paths sc s =
     (if js_trim msg = [] then fails R_empty_message s
      else map_fail (renamed gitReasonToCommitReason)
             (runGitCommand env cwd A_commit sc (commit_audit msg paths) (commit_run env msg paths) s))"

subsection \<open>Push\<close>

definition MAX_PUSH_STDERR_BYTES :: nat where
  "MAX_PUSH_STDERR_BYTES = 1024 * 1024"

definition appendBoundedStderr :: "nat \<Rightarrow> string \<Rightarrow> string \<Rightarrow> string" where
  "appendBoundedStderr maxLen prev chunk =
     (let combined = prev @ chunk in if length combined \<le> maxLen then combined else js_slice_tail maxLen combined)"

text \<open>The handler of the \<open>data\<close> events: once the text is longer than the bound, it stops listening.\<close>

fun collect_stderr :: "nat \<Rightarrow> string \<Rightarrow> string list \<Rightarrow> string" where
  "collect_stderr maxLen acc [] = acc"
| "collect_stderr maxLen acc (c # cs) =
     (let joined = acc @ c
      in if length joined > maxLen then appendBoundedStderr maxLen [] joined else collect_stderr maxLen joined cs)"

definition executeRaw :: "git_env \<Rightarrow> string list \<Rightarrow> (string \<times> string) git" where
  "executeRaw env args =
     bindS (git_raw env args) (\<lambda>out.
     bindS (readS (\<lambda>s. Inr (ge_chunks env (gs_calls s)))) (\<lambda>cs.
     retS (out, collect_stderr MAX_PUSH_STDERR_BYTES [] cs)))"

definition push_audit :: "string \<Rightarrow> string option \<Rightarrow> bool \<Rightarrow> bool \<Rightarrow> jobj" where
  "push_audit remote branch force setUpstream =
     [(''remote'', JStr remote), (''branch'', case branch of Some b \<Rightarrow> JStr b | None \<Rightarrow> JNull),
      (''force'', JBool force), (''setUpstream'', JBool setUpstream)]"

definition push_branch :: "git_env \<Rightarrow> string \<Rightarrow> string \<Rightarrow> bool \<Rightarrow> bool \<Rightarrow> (bool \<times> string) git" where
  "push_branch env remote branch setUpstream force =
     (let args = buildPushArgs branch remote setUpstream force
      in if ''--all'' \<in> set args \<or> ''--mirror'' \<in> set args \<or> ''--force'' \<in> set args
         then throwS (plain_error ''buildPushArgs invariant violated: dangerous flag in push argv'')
         else bindS (executeRaw env args) (\<lambda>(stdout, stderr).
           retS (\<not> has_ci ''everything up-to-date'' (stdout @ CHR 0x0A # stderr), branch)))"

definition push_run :: "git_env \<Rightarrow> string \<Rightarrow> bool \<Rightarrow> bool \<Rightarrow> (bool \<times> string) git" where
  "push_run env remote setUpstream force =
     bindS (git_status_call env) (\<lambda>st.
     if st_detached st then throwS (sentinel R_detached_head)
     else bindS (git_revparse env [''--abbrev-ref'', ''HEAD'']) (\<lambda>out.
       let branch = js_trim out
       in if branch = [] \<or> branch = ''HEAD'' then throwS (sentinel R_detached_head)
          else
            bindS (assignS (\<lambda>s. s\<lparr>gs_branch := Some branch,
              gs_args := push_audit remote (Some branch) force setUpstream\<rparr>)) (\<lambda>_.
            if force \<and> branch \<in> set PROTECTED_BRANCHES then throwS (sentinel R_protected_branch)
            else
              bindS (whenS (\<not> setUpstream)
                (bindS (catchS (git_revparse env [''--abbrev-ref'', UPSTREAM])
                   (\<lambda>_. throwS (sentinel R_no_upstream))) (\<lambda>_. retS ()))) (\<lambda>_.
              push_branch env remote branch setUpstream force))))"

record GitPushResult =
  pr_branch :: string
  pr_remote :: string
  pr_updated :: bool

text \<open>A failure comes with the branch, if it was resolved, and the remote.\<close>

definition runGitPush ::
  "git_env \<Rightarrow> string \<Rightarrow> string option \<Rightarrow> bool option \<Rightarrow> bool option \<Rightarrow> scope \<Rightarrow> git_state
     \<Rightarrow> ((cmd_failure \<times> string option \<times> string) + GitPushResult) \<times> git_state" where
  "runGitPush env cwd remote0 setUpstream0 force0 sc s =
     (let remote = (case remote0 of Some r \<Rightarrow> r | None \<Rightarrow> ''origin'');
          setUpstream = (setUpstream0 = Some True); force = (force0 = Some True)
      in case runGitCommand env cwd A_push sc (push_audit remote None force setUpstream)
                (push_run env remote setUpstream force) s of
           (Inr (updated, branch), s') \<Rightarrow>
             (Inr \<lparr>pr_branch = branch, pr_remote = remote, pr_updated = updated\<rparr>, s')
         | (Inl c, s') \<Rightarrow> (Inl (renamed gitReasonToPushReason c, gs_branch s', remote), s'))"

subsection \<open>Log\<close>

definition DEFAULT_LIMIT :: int where
  "DEFAULT_LIMIT = 30"

definition MAX_LIMIT :: int where
  "MAX_LIMIT = 100"

definition log_audit :: "nat \<Rightarrow> bool \<Rightarrow> bool \<Rightarrow> jobj" where
  "log_audit limit has_cursor has_branch =
     [(''limit'', JNum (int limit)), (''has_cursor'', JBool has_cursor), (''has_branch'', JBool has_branch)]"

text \<open>The rows of a page and the cursor of the next one.\<close>

definition log_page :: "nat \<Rightarrow> GitLogCommit list \<Rightarrow> GitLogCommit list \<times> string option" where
  "log_page limit commits =
     (if length commits > limit then (take limit commits, Some (lc_sha (commits ! limit))) else (commits, None))"

definition runGitLog ::
  "git_env \<Rightarrow> string \<Rightarrow> int option \<Rightarrow> string option \<Rightarrow> string option \<Rightarrow> scope \<Rightarrow> git_state
     \<Rightarrow> (cmd_failure + (GitLogCommit list \<times> string option)) \<times> git_state" where
  "runGitLog env cwd limit0 cursor branch sc s =
     (let rawLimit = (case limit0 of Some n \<Rightarrow> n | None \<Rightarrow> DEFAULT_LIMIT)
      in if rawLimit < 1 then fails R_bad_revision s
         else if (case cursor of Some c \<Rightarrow> \<not> CURSOR_RE c | None \<Rightarrow> False) then fails R_bad_revision s
         else if (case branch of Some b \<Rightarrow> \<not> BRANCH_RE b | None \<Rightarrow> False) then fails R_bad_revision s
         else
           (let limit = nat (min rawLimit MAX_LIMIT);
                startRef = (case cursor of Some c \<Rightarrow> Some c | None \<Rightarrow> branch)
            in case runGitCommand env cwd A_log sc (log_audit limit (cursor \<noteq> None) (branch \<noteq> None))
                      (git_raw env (log_args limit startRef)) s of
                 (Inr stdout, s') \<Rightarrow> (Inr (log_page limit (parseGitLogOutput stdout)), s')
               | (Inl c, s') \<Rightarrow>
                   if has_ci ''does not have any commits'' (or_blank (cf_stderr c)) then (Inr ([], None), s')
                   else (Inl (reread gitReasonToLogReason c), s')))"

subsection \<open>Discard and fetch\<close>

definition not_matched :: "thrown \<Rightarrow> bool" where
  "not_matched e =
     (let probe = or_blank (th_stderr e) @ CHR 0x0A # or_blank (th_message e)
      in has_ci ''did not match any file'' probe \<or> has_seq_ci ''pathspec'' ''did not match'' probe)"

definition discard_run :: "git_env \<Rightarrow> string list \<Rightarrow> nat git" where
  "discard_run env validated =
     bindS (catchS (git_raw env ([''checkout'', ''--''] @ validated))
       (\<lambda>e. throwS (if not_matched e then
            (sentinel R_unknown_path)\<lparr>th_stderr := Some (js_trim (or_blank (th_stderr e) @ CHR 0x0A # or_blank (th_message e)))\<rparr>
          else e)))
       (\<lambda>_. retS (length validated))"

definition runGitDiscard ::
  "git_env \<Rightarrow> host \<Rightarrow> string \<Rightarrow> string list \<Rightarrow> scope \<Rightarrow> git_state \<Rightarrow> (cmd_failure + nat) \<times> git_state" where
  "runGitDiscard env h cwd paths sc s =
     (if paths = [] then fails R_no_paths s
      else case validate_discard h cwd paths of
          Inl r \<Rightarrow> fails r s
        | Inr validated \<Rightarrow>
            map_fail (renamed gitReasonToDiscardReason)
              (runGitCommand env cwd A_discard sc [(''paths_count'', JNum (int (length validated)))]
                 (discard_run env validated) s))"

text \<open>A failure comes with the remote.\<close>

definition runGitFetch ::
  "git_env \<Rightarrow> string \<Rightarrow> string option \<Rightarrow> scope \<Rightarrow> git_state \<Rightarrow> (cmd_failure \<times> string + string) \<times> git_state" where
  "runGitFetch env cwd remote sc s =
     (let t = js_trim (or_blank remote); r = (if t = [] then ''origin'' else t)
      in if \<not> FETCH_REMOTE_RE r \<or> is_prefix_of ''-'' r then (Inl (no_text R_invalid_remote, r), s)
         else case runGitCommand env cwd A_fetch sc [(''remote'', JStr r)]
                     (bindS (git_raw env [''fetch'', ''--end-of-options'', r]) (\<lambda>_. retS r)) s of
                (Inr v, s') \<Rightarrow> (Inr v, s')
              | (Inl c, s') \<Rightarrow>
                  (Inl (renamed (\<lambda>x. gitReasonToFetchReason x (or_blank (cf_stderr c))) c, r), s'))"

end
