(* ===== verification/GitBrowse.thy ===== *)
theory GitBrowse
  imports GitOps
begin

text \<open>
  The other operations of \<open>src/src/services/git-operations.ts\<close>: the diff of a file, the branches, one commit
  and the stash.
\<close>

subsection \<open>Diff\<close>

definition GIT_DIFF_MAX_BYTES :: nat where
  "GIT_DIFF_MAX_BYTES = 5 * 1024 * 1024"

definition GIT_DIFF_SIDE_MAX_BYTES :: nat where
  "GIT_DIFF_SIDE_MAX_BYTES = 2621440"

record diff_opts =
  do_path :: string
  do_staged :: bool
  do_base :: "string option"
  do_head :: "string option"
  do_maxBytes :: "nat option"
  do_includeContents :: bool
  do_sideMaxBytes :: "nat option"

text \<open>\<open>do_contents\<close> is \<open>None\<close> when the contents were not asked for; each side may be \<open>null\<close>.\<close>

record GitDiffResult =
  dr_patch :: string
  dr_base :: "string option"
  dr_head :: "string option"
  dr_status :: diff_status
  dr_oldPath :: "string option"
  dr_newPath :: "string option"
  dr_size :: nat
  dr_contents :: "(string option \<times> string option) option"

definition diff_opts_ok :: "diff_opts \<Rightarrow> bool" where
  "diff_opts_ok opts \<longleftrightarrow>
     diff_path_ok (do_path opts)
     \<and> (case do_base opts of Some b \<Rightarrow> DIFF_REF_RE b | None \<Rightarrow> True)
     \<and> (case do_head opts of Some b \<Rightarrow> DIFF_REF_RE b | None \<Rightarrow> True)
     \<and> \<not> (do_staged opts \<and> (do_base opts \<noteq> None \<or> do_head opts \<noteq> None))
     \<and> (do_base opts = None) = (do_head opts = None)"

definition readSideWorktree :: "git_env \<Rightarrow> string \<Rightarrow> string \<Rightarrow> nat \<Rightarrow> git_state \<Rightarrow> string option" where
  "readSideWorktree env cwd relPath maxBytes s =
     (case ge_file env (gs_calls s) cwd relPath of
        Inl code \<Rightarrow> if code \<in> set [''ENOENT'', ''ENOTDIR''] then Some [] else None
      | Inr (n, t) \<Rightarrow> if n > maxBytes then None else Some t)"

definition readSideBlob :: "git_env \<Rightarrow> string \<Rightarrow> string \<Rightarrow> nat \<Rightarrow> string option git" where
  "readSideBlob env ref relPath maxBytes =
     bindS (attemptS (git_raw env [''show'', ''--end-of-options'', ref @ CHR '':'' # relPath])) (\<lambda>r.
     retS (case r of
       Inr out \<Rightarrow> if length (utf8_encode (map of_char out)) > maxBytes then None else Some out
     | Inl e \<Rightarrow>
         if has ''exists on disk, but not in'' (or_blank (th_stderr e)) \<or> has ''does not exist in'' (or_blank (th_stderr e))
         then Some [] else None))"

text \<open>Where a side is read: nowhere, in the working tree, or at a reference (the empty one is the index).\<close>

datatype side = No_side | Worktree | At_ref string

definition diff_sides :: "diff_opts \<Rightarrow> diff_status \<Rightarrow> side \<times> side" where
  "diff_sides opts st =
     (let (orig, md) =
            (if do_staged opts then (At_ref ''HEAD'', At_ref [])
             else case (do_base opts, do_head opts) of
                 (Some b, Some h) \<Rightarrow> (At_ref b, At_ref h)
               | _ \<Rightarrow> (At_ref [], Worktree))
      in (if st = Diff_A then No_side else orig, if st = Diff_D then No_side else md))"

definition read_side :: "git_env \<Rightarrow> string \<Rightarrow> side \<Rightarrow> string \<Rightarrow> nat \<Rightarrow> string option git" where
  "read_side env cwd sd relPath maxBytes =
     (case sd of
        No_side \<Rightarrow> retS (Some [])
      | Worktree \<Rightarrow> readS (\<lambda>s. Inr (readSideWorktree env cwd relPath maxBytes s))
      | At_ref r \<Rightarrow> readSideBlob env r relPath maxBytes)"

definition or_path :: "string option \<Rightarrow> string \<Rightarrow> string" where
  "or_path v p = (case v of Some q \<Rightarrow> q | None \<Rightarrow> p)"

definition diff_contents ::
  "git_env \<Rightarrow> string \<Rightarrow> diff_opts \<Rightarrow> status_row option \<Rightarrow> diff_status \<Rightarrow> (string option \<times> string option) option git" where
  "diff_contents env cwd opts parsed st =
     (if \<not> do_includeContents opts then retS None
      else if st \<in> {Diff_binary, Diff_unchanged} then retS (Some (None, None))
      else
        let cap = (case do_sideMaxBytes opts of Some n \<Rightarrow> n | None \<Rightarrow> GIT_DIFF_SIDE_MAX_BYTES);
            (orig, md) = diff_sides opts st;
            old = or_path (Option.bind parsed sr_oldPath) (do_path opts);
            new = or_path (Option.bind parsed sr_newPath) (do_path opts)
        in bindS (read_side env cwd orig old cap) (\<lambda>o1.
           bindS (read_side env cwd md new cap) (\<lambda>m1. retS (Some (o1, m1)))))"

definition diff_run :: "git_env \<Rightarrow> diff_opts \<Rightarrow> (status_row option \<times> string) git" where
  "diff_run env opts =
     (let scope = diff_scope (do_staged opts) (do_base opts) (do_head opts)
      in bindS (git_raw env ([''diff'', ''--name-status''] @ scope @ [''--end-of-options''])) (\<lambda>statusOutput.
         let parsed = findStatusForPath statusOutput (do_path opts);
             patchPaths = (case parsed of
                 Some row \<Rightarrow>
                   (case (truthy_str (sr_oldPath row), truthy_str (sr_newPath row)) of
                      (Some p, Some q) \<Rightarrow> if sr_status row \<in> {Diff_R, Diff_C} then [p, q] else [do_path opts]
                    | _ \<Rightarrow> [do_path opts])
               | None \<Rightarrow> [do_path opts])
         in bindS (git_raw env ([''diff'', ''--no-color''] @ scope @ [''--end-of-options'', ''--''] @ patchPaths))
              (\<lambda>patch. retS (parsed, patch))))"

definition diff_status_of :: "status_row option \<Rightarrow> string \<Rightarrow> diff_status" where
  "diff_status_of parsed patch =
     (case parsed of
        None \<Rightarrow> Diff_unchanged
      | Some row \<Rightarrow>
          if sr_status row = Diff_M \<and> has_line ''Binary files '' '' differ'' patch then Diff_binary else sr_status row)"

definition diff_audit :: "diff_opts \<Rightarrow> jobj" where
  "diff_audit opts =
     [(''path'', JStr (do_path opts)), (''staged'', JBool (do_staged opts)),
      (''has_base'', JBool (do_base opts \<noteq> None)), (''has_head'', JBool (do_head opts \<noteq> None))]"

text \<open>A failure comes with the size of a patch that is too large.\<close>

definition runGitDiff ::
  "git_env \<Rightarrow> string \<Rightarrow> diff_opts \<Rightarrow> scope \<Rightarrow> git_state \<Rightarrow> ((cmd_failure \<times> nat option) + GitDiffResult) \<times> git_state" where
  "runGitDiff env cwd opts sc s =
     (if \<not> diff_opts_ok opts then (Inl (no_text R_bad_revision, None), s)
      else case runGitCommand env cwd A_diff sc (diff_audit opts) (diff_run env opts) s of
          (Inl c, s') \<Rightarrow> (Inl (reread gitReasonToDiffReason c, None), s')
        | (Inr (parsed, patch), s') \<Rightarrow>
            (let cap = (case do_maxBytes opts of Some n \<Rightarrow> n | None \<Rightarrow> GIT_DIFF_MAX_BYTES)
             in if length patch > cap then (Inl (no_text R_git_patch_too_large, Some (length patch)), s')
                else
                  (let st = diff_status_of parsed patch
                   in case diff_contents env cwd opts parsed st s' of
                        (Inr contents, s'') \<Rightarrow>
                          (Inr \<lparr>dr_patch = patch, dr_base = do_base opts, dr_head = do_head opts, dr_status = st,
                             dr_oldPath = truthy_str (Option.bind parsed sr_oldPath),
                             dr_newPath = truthy_str (Option.bind parsed sr_newPath),
                             dr_size = length patch, dr_contents = contents\<rparr>, s'')
                      | (Inl e, s'') \<Rightarrow> (Inl (failed_with e, None), s''))))"

subsection \<open>Branches\<close>

definition runGitBranchList ::
  "git_env \<Rightarrow> string \<Rightarrow> scope \<Rightarrow> git_state \<Rightarrow> (cmd_failure + (GitBranchEntry list \<times> bool)) \<times> git_state" where
  "runGitBranchList env cwd sc s =
     map_fail (renamed gitReasonToBranchListReason)
       (map_prod (map_sum id parseBranchListOutput) id
         (runGitCommand env cwd A_branch_list sc []
            (git_raw env [''for-each-ref'', BRANCH_LIST_FORMAT, ''refs/heads'', ''refs/remotes'']) s))"

definition checkout_run :: "git_env \<Rightarrow> string \<Rightarrow> bool \<Rightarrow> string option \<Rightarrow> bool git" where
  "checkout_run env branch create startPoint =
     bindS (git_status_call env) (\<lambda>st.
     if \<not> st_clean st then throwS (sentinel R_dirty_tree)
     else
       bindS (git_raw env ([''checkout''] @
                (if create then [''-b'', branch] @ (case startPoint of Some p \<Rightarrow> [p] | None \<Rightarrow> []) else [branch])))
         (\<lambda>_. retS create))"

definition checkout_audit :: "string \<Rightarrow> bool \<Rightarrow> bool \<Rightarrow> jobj" where
  "checkout_audit branch create has_start =
     [(''branch'', JStr branch), (''create'', JBool create), (''has_start_point'', JBool has_start)]"

definition runGitCheckout ::
  "git_env \<Rightarrow> string \<Rightarrow> string \<Rightarrow> bool option \<Rightarrow> string option \<Rightarrow> scope \<Rightarrow> git_state
     \<Rightarrow> (cmd_failure + (string \<times> bool)) \<times> git_state" where
  "runGitCheckout env cwd branch create0 startPoint sc s =
     (if \<not> SERVICE_BRANCH_NAME_RE branch then fails R_invalid_branch_name s
      else if (case startPoint of Some p \<Rightarrow> \<not> SERVICE_BRANCH_NAME_RE p | None \<Rightarrow> False) then fails R_invalid_branch_name s
      else let create = (create0 = Some True)
           in map_fail (reread gitReasonToCheckoutReason)
                (map_prod (map_sum id (Pair branch)) id
                  (runGitCommand env cwd A_checkout sc (checkout_audit branch create (startPoint \<noteq> None))
                     (checkout_run env branch create startPoint) s)))"

definition runGitBranchDelete ::
  "git_env \<Rightarrow> string \<Rightarrow> string \<Rightarrow> bool option \<Rightarrow> scope \<Rightarrow> git_state \<Rightarrow> (cmd_failure + string) \<times> git_state" where
  "runGitBranchDelete env cwd branch force0 sc s =
     (if \<not> SERVICE_BRANCH_NAME_RE branch then fails R_invalid_branch_name s
      else let force = (force0 = Some True)
           in if \<not> force \<and> branch \<in> set PROTECTED_DELETE_BRANCHES then fails R_git_protected_branch s
              else map_fail (reread gitReasonToBranchDeleteReason)
                     (runGitCommand env cwd A_branch_delete sc [(''branch'', JStr branch), (''force'', JBool force)]
                        (bindS (git_raw env [''branch'', if force then ''-D'' else ''-d'', branch]) (\<lambda>_. retS branch)) s))"

subsection \<open>Show\<close>

definition SHOW_META :: string where
  "SHOW_META = ''--format=%H%n%P%n%an%n%ae%n%at%n%s''"

definition show_run :: "git_env \<Rightarrow> string \<Rightarrow> (string \<times> string \<times> string) git" where
  "show_run env sha =
     bindS (git_raw env [''show'', ''-s'', SHOW_META, ''--end-of-options'', sha]) (\<lambda>metaOut.
     bindS (git_raw env [''show'', ''--name-status'', ''--pretty=format:'', ''-z'', ''--end-of-options'', sha]) (\<lambda>nameStatusOut.
     bindS (git_raw env [''show'', ''--numstat'', ''--pretty=format:'', ''-z'', ''--end-of-options'', sha]) (\<lambda>numstatOut.
     retS (metaOut, nameStatusOut, numstatOut))))"

definition runGitShow ::
  "git_env \<Rightarrow> string \<Rightarrow> string \<Rightarrow> scope \<Rightarrow> git_state
     \<Rightarrow> (cmd_failure + (GitShowCommit \<times> GitShowFile list)) \<times> git_state" where
  "runGitShow env cwd sha sc s =
     (if \<not> SHOW_SHA_RE sha then fails R_bad_revision s
      else case runGitCommand env cwd A_show sc [(''sha_prefix'', JStr (take 12 sha))] (show_run env sha) s of
          (Inl c, s') \<Rightarrow> (Inl (reread gitReasonToShowReason c), s')
        | (Inr (metaOut, nameStatusOut, numstatOut), s') \<Rightarrow>
            (case parseShowMeta metaOut of
               None \<Rightarrow> fails R_unknown s'
             | Some commit \<Rightarrow>
                 (Inr (commit, mergeShowFiles (parseNameStatusZ nameStatusOut) (parseNumstatZ numstatOut)), s')))"

subsection \<open>Stash\<close>

text \<open>Whether there was nothing to stash.\<close>

definition runGitStashPush ::
  "git_env \<Rightarrow> string \<Rightarrow> string option \<Rightarrow> bool option \<Rightarrow> scope \<Rightarrow> git_state \<Rightarrow> (cmd_failure + bool) \<times> git_state" where
  "runGitStashPush env cwd msg includeUntracked0 sc s =
     (let includeUntracked = (includeUntracked0 = Some True); m = truthy_str msg
      in map_fail (renamed gitReasonToStashPushReason)
           (map_prod (map_sum id (has_ci ''no local changes to save'')) id
             (runGitCommand env cwd A_stash_push sc
                [(''has_message'', JBool (m \<noteq> None)), (''include_untracked'', JBool includeUntracked)]
                (git_raw env ([''stash'', ''push''] @ (if includeUntracked then [''-u''] else [])
                   @ (case m of Some t \<Rightarrow> [''-m'', t] | None \<Rightarrow> []))) s)))"

definition runGitStashList ::
  "git_env \<Rightarrow> string \<Rightarrow> scope \<Rightarrow> git_state \<Rightarrow> (cmd_failure + GitStashEntry list) \<times> git_state" where
  "runGitStashList env cwd sc s =
     map_fail (renamed gitReasonToStashListReason)
       (map_prod (map_sum id parseStashListOutput) id
         (runGitCommand env cwd A_stash_list sc [] (git_raw env [''stash'', ''list'', STASH_LIST_FORMAT]) s))"

definition runGitStashPop ::
  "git_env \<Rightarrow> string \<Rightarrow> string \<Rightarrow> scope \<Rightarrow> git_state \<Rightarrow> (cmd_failure + string) \<times> git_state" where
  "runGitStashPop env cwd ref sc s =
     (if \<not> STASH_REF_RE ref then fails R_invalid_ref s
      else map_fail (reread gitReasonToStashPopReason)
             (map_prod (map_sum id (\<lambda>_. ref)) id
               (runGitCommand env cwd A_stash_pop sc [(''ref'', JStr ref)] (git_raw env [''stash'', ''pop'', ref]) s)))"

definition runGitStashDrop ::
  "git_env \<Rightarrow> string \<Rightarrow> string \<Rightarrow> scope \<Rightarrow> git_state \<Rightarrow> (cmd_failure + string) \<times> git_state" where
  "runGitStashDrop env cwd ref sc s =
     (if \<not> STASH_REF_RE ref then fails R_invalid_ref s
      else map_fail (reread gitReasonToStashDropReason)
             (map_prod (map_sum id (\<lambda>_. ref)) id
               (runGitCommand env cwd A_stash_drop sc [(''ref'', JStr ref)] (git_raw env [''stash'', ''drop'', ref]) s)))"

end
