(* ===== verification/GitProps.thy ===== *)
theory GitProps
  imports GitBrowse
begin

text \<open>
  What the git operations promise: which calls they make and in which order, what they leave in the audit
  log, and which reasons they answer.  \<open>adds P m\<close> says that \<open>m\<close> only makes calls that satisfy \<open>P\<close> and
  writes no row; its rules (\<open>adds_intros\<close>) follow the structure of the operations.
\<close>

subsection \<open>Calls that an operation adds\<close>

definition adds :: "(git_call \<Rightarrow> bool) \<Rightarrow> 'a git \<Rightarrow> bool" where
  "adds P m \<longleftrightarrow> (\<forall>s. gs_rows (snd (m s)) = gs_rows s
     \<and> (\<exists>cs. gs_calls (snd (m s)) = gs_calls s @ cs \<and> list_all P cs))"

named_theorems adds_intros \<open>rules for the calls of an operation\<close>

lemma addsE:
  assumes "adds P m" "m s = (r, s')"
  obtains cs where "gs_rows s' = gs_rows s" "gs_calls s' = gs_calls s @ cs" "list_all P cs"
  using assms unfolding adds_def by (metis snd_conv)

lemma addsI:
  assumes "\<And>s. gs_rows (snd (m s)) = gs_rows s"
    "\<And>s. \<exists>cs. gs_calls (snd (m s)) = gs_calls s @ cs \<and> list_all P cs"
  shows "adds P m"
  using assms by (simp add: adds_def)

lemma adds_ret [adds_intros]: "adds P (retS v)"
  and adds_throw [adds_intros]: "adds P (throwS e)"
  and adds_read [adds_intros]: "adds P (readS f)"
  by (simp_all add: adds_def)

lemma adds_bind [adds_intros]:
  assumes m: "adds P m" and f: "\<And>v. adds P (f v)"
  shows "adds P (bindS m f)"
proof (rule addsI)
  fix s
  obtain r s1 where r: "m s = (r, s1)" by fastforce
  from addsE [OF m r] obtain cs where cs: "gs_rows s1 = gs_rows s" "gs_calls s1 = gs_calls s @ cs" "list_all P cs"
    by blast
  show "gs_rows (snd (bindS m f s)) = gs_rows s"
    using cs(1) f by (cases r) (simp_all add: bindS_def r adds_def)
  show "\<exists>cs. gs_calls (snd (bindS m f s)) = gs_calls s @ cs \<and> list_all P cs"
  proof (cases r)
    case (Inl e)
    then show ?thesis using cs by (auto simp: bindS_def r)
  next
    case (Inr v)
    obtain r2 s2 where r2: "f v s1 = (r2, s2)" by fastforce
    from addsE [OF f r2] obtain ds where "gs_calls s2 = gs_calls s1 @ ds" "list_all P ds" by blast
    then show ?thesis using cs Inr by (auto simp: bindS_def r r2)
  qed
qed

lemma adds_catch [adds_intros]:
  assumes m: "adds P m" and h: "\<And>e. adds P (h e)"
  shows "adds P (catchS m h)"
proof (rule addsI)
  fix s
  obtain r s1 where r: "m s = (r, s1)" by fastforce
  from addsE [OF m r] obtain cs where cs: "gs_rows s1 = gs_rows s" "gs_calls s1 = gs_calls s @ cs" "list_all P cs"
    by blast
  show "gs_rows (snd (catchS m h s)) = gs_rows s"
    using cs(1) h by (cases r) (simp_all add: catchS_def r adds_def)
  show "\<exists>cs. gs_calls (snd (catchS m h s)) = gs_calls s @ cs \<and> list_all P cs"
  proof (cases r)
    case (Inr v)
    then show ?thesis using cs by (auto simp: catchS_def r)
  next
    case (Inl e)
    obtain r2 s2 where r2: "h e s1 = (r2, s2)" by fastforce
    from addsE [OF h r2] obtain ds where "gs_calls s2 = gs_calls s1 @ ds" "list_all P ds" by blast
    then show ?thesis using cs Inl by (auto simp: catchS_def r r2)
  qed
qed

lemma adds_attempt [adds_intros]: "adds P m \<Longrightarrow> adds P (attemptS m)"
  by (simp add: adds_def attemptS_def split_beta)

lemma adds_when [adds_intros]: "adds P m \<Longrightarrow> adds P (whenS b m)"
  by (simp add: whenS_def adds_ret)

lemma adds_text [adds_intros]: "P c \<Longrightarrow> adds P (text_call env c)"
  by (simp add: adds_def text_call_def made_def Let_def)

lemma adds_status [adds_intros]: "P GStatus \<Longrightarrow> adds P (git_status_call env)"
  by (simp add: adds_def git_status_call_def made_def Let_def)

lemma adds_assign [adds_intros]:
  "(\<And>s. gs_rows (f s) = gs_rows s \<and> gs_calls (f s) = gs_calls s) \<Longrightarrow> adds P (assignS f)"
  by (simp add: adds_def assignS_def)

lemma adds_if [adds_intros]: "adds P m \<Longrightarrow> adds P n \<Longrightarrow> adds P (if b then m else n)"
  by simp

lemma adds_option [adds_intros]:
  "adds P m \<Longrightarrow> (\<And>v. adds P (f v)) \<Longrightarrow> adds P (case x of None \<Rightarrow> m | Some v \<Rightarrow> f v)"
  by (cases x) simp_all

lemma adds_sum [adds_intros]:
  "(\<And>e. adds P (g e)) \<Longrightarrow> (\<And>v. adds P (f v)) \<Longrightarrow> adds P (case x of Inl e \<Rightarrow> g e | Inr v \<Rightarrow> f v)"
  by (cases x) simp_all

lemma adds_pair [adds_intros]: "(\<And>a b. adds P (f a b)) \<Longrightarrow> adds P (case p of (a, b) \<Rightarrow> f a b)"
  by (cases p) simp

lemmas call_defs = git_raw_def git_revparse_def git_pull_def git_add_def git_commit_def

subsection \<open>The envelope\<close>

lemma race_adds:
  assumes m: "adds P run" and merge: "a = A_pull \<Longrightarrow> P (GRaw [''merge'', ''--abort''])"
  shows "\<exists>cs. gs_calls (snd (race env a run s)) = gs_calls s @ cs \<and> list_all P cs"
    and "gs_rows (snd (race env a run s)) = gs_rows s"
proof -
  obtain r s1 where r: "run (s\<lparr>gs_expired := False\<rparr>) = (r, s1)" by fastforce
  from addsE [OF m r] obtain cs where cs: "gs_rows s1 = gs_rows s" "gs_calls s1 = gs_calls s @ cs" "list_all P cs"
    by auto
  then show "gs_rows (snd (race env a run s)) = gs_rows s"
    by (auto simp: race_def r call_defs text_call_def made_def Let_def split: sum.splits)
  show "\<exists>cs. gs_calls (snd (race env a run s)) = gs_calls s @ cs \<and> list_all P cs"
  proof (cases "gs_expired s1 \<and> a = A_pull")
    case True
    then show ?thesis
      using cs merge by (intro exI [of _ "cs @ [GRaw [''merge'', ''--abort'']]"])
        (simp add: race_def r call_defs text_call_def made_def Let_def)
  next
    case False
    then show ?thesis using cs by (intro exI [of _ cs]) (auto simp: race_def r split: sum.splits)
  qed
qed

lemma calls_writeAuditRow [simp]: "gs_calls (writeAuditRow a sc r e x s) = gs_calls s"
  by (simp add: writeAuditRow_def)

lemma rows_writeAuditRow:
  "gs_rows (writeAuditRow a sc r e x s) = gs_rows s @ (if scoped sc then
     [\<lparr>ga_projectId = fst sc, ga_workspaceId = snd sc, ga_action = a, ga_args = gs_args s, ga_exitCode = x,
       ga_reason = r, ga_stderr = stderr_row e\<rparr>] else [])"
  by (simp add: writeAuditRow_def)

text \<open>One command: the calls of its closure, and one row if the scope is named.\<close>

definition rows_of :: "git_state \<Rightarrow> git_state \<Rightarrow> git_row list" where
  "rows_of s s' = drop (length (gs_rows s)) (gs_rows s')"

definition calls_of :: "git_state \<Rightarrow> git_state \<Rightarrow> git_call list" where
  "calls_of s s' = drop (length (gs_calls s)) (gs_calls s')"

lemma runGitCommand_effect:
  assumes m: "adds P run" and merge: "a = A_pull \<Longrightarrow> P (GRaw [''merge'', ''--abort''])"
    and r: "runGitCommand env cwd a sc args run s = (r, s')"
  shows "\<exists>cs rs. gs_calls s' = gs_calls s @ cs \<and> list_all P cs \<and> gs_rows s' = gs_rows s @ rs
    \<and> length rs = (if scoped sc then 1 else 0)
    \<and> list_all (\<lambda>row. ga_action row = a \<and> (ga_projectId row, ga_workspaceId row) = sc) rs"
proof -
  let ?s = "s\<lparr>gs_args := args, gs_branch := None\<rparr>"
  define body where "body = (if \<not> ge_exists env (gs_calls ?s) cwd then (Inl (no_text R_path_missing), ?s)
      else if \<not> ge_exists env (gs_calls ?s) (GIT_DIR cwd) then (Inl (no_text R_not_a_repo), ?s)
      else race env a run ?s)"
  obtain b s1 where b: "body = (b, s1)" by fastforce
  have body_calls: "\<exists>cs. gs_calls s1 = gs_calls s @ cs \<and> list_all P cs"
    and body_rows: "gs_rows s1 = gs_rows s"
    using b race_adds [OF m merge, of a env ?s] by (auto simp: body_def split: if_splits)
  have "(r, s') = (case b of Inr v \<Rightarrow> (Inr v, writeAuditRow a sc R_ok None (Some 0) s1)
      | Inl f \<Rightarrow> (Inl f, writeAuditRow a sc (cf_reason f) (cf_stderr f) None s1))"
    using r b by (cases b) (auto simp: runGitCommand_def body_def Let_def)
  then show ?thesis
    using body_calls body_rows by (cases b) (auto simp: rows_writeAuditRow)
qed


subsection \<open>What a whole operation does to the log of calls and to the table\<close>

text \<open>The commands that change the repository.\<close>

definition changing_words :: "string list" where
  "changing_words = [''push'', ''checkout'', ''fetch'', ''branch'', ''merge'']"

fun changes :: "git_call \<Rightarrow> bool" where
  "changes (GRaw (w # ws)) =
     (w \<in> set changing_words \<or> w = ''stash'' \<and> (case ws of v # _ \<Rightarrow> v \<noteq> ''list'' | [] \<Rightarrow> True))"
| "changes (GRaw []) = False"
| "changes (GRevparse args) = False"
| "changes GStatus = False"
| "changes GPull = True"
| "changes (GAdd paths) = True"
| "changes (GCommit msg) = True"

abbreviation quiet :: "git_call \<Rightarrow> bool" where
  "quiet c \<equiv> \<not> changes c"

text \<open>At most one row, and one if the repository may have changed and the scope is named.\<close>

definition logged :: "git_action \<Rightarrow> scope \<Rightarrow> git_call list \<Rightarrow> git_row list \<Rightarrow> bool" where
  "logged a sc cs rs \<longleftrightarrow>
     length rs \<le> (if scoped sc then 1 else 0)
     \<and> (list_ex changes cs \<and> scoped sc \<longrightarrow> length rs = 1)
     \<and> list_all (\<lambda>row. ga_action row = a \<and> (ga_projectId row, ga_workspaceId row) = sc) rs"

definition effect :: "git_action \<Rightarrow> scope \<Rightarrow> git_state \<Rightarrow> git_state \<Rightarrow> bool" where
  "effect a sc s s' \<longleftrightarrow>
     (\<exists>cs rs. gs_calls s' = gs_calls s @ cs \<and> gs_rows s' = gs_rows s @ rs \<and> logged a sc cs rs)"

definition has_effect :: "git_action \<Rightarrow> scope \<Rightarrow> (git_state \<Rightarrow> 'r \<times> git_state) \<Rightarrow> bool" where
  "has_effect a sc m \<longleftrightarrow> (\<forall>s. effect a sc s (snd (m s)))"

lemma effect_refl [simp]: "effect a sc s s"
  by (auto simp: effect_def logged_def intro!: exI [of _ "[]"])

lemma effect_command:
  assumes "adds (\<lambda>_. True) run"
  shows "effect a sc s (snd (runGitCommand env cwd a sc args run s))"
proof -
  obtain r s' where r: "runGitCommand env cwd a sc args run s = (r, s')" by fastforce
  from runGitCommand_effect [OF assms _ r] obtain cs rs where
    "gs_calls s' = gs_calls s @ cs" "gs_rows s' = gs_rows s @ rs" "length rs = (if scoped sc then 1 else 0)"
    "list_all (\<lambda>row. ga_action row = a \<and> (ga_projectId row, ga_workspaceId row) = sc) rs"
    by auto
  then show ?thesis unfolding r by (auto simp: effect_def logged_def)
qed

lemma effect_quiet:
  assumes "adds quiet m"
  shows "effect a sc s (snd (m s))"
proof -
  obtain r s1 where r: "m s = (r, s1)" by fastforce
  from addsE [OF assms r] obtain cs where "gs_rows s1 = gs_rows s" "gs_calls s1 = gs_calls s @ cs"
    "list_all quiet cs" by blast
  then show ?thesis by (auto simp: r effect_def logged_def list_all_iff list_ex_iff)
qed

lemma effect_then_quiet:
  assumes "effect a sc s s1" "adds quiet m"
  shows "effect a sc s (snd (m s1))"
proof -
  obtain r s2 where r: "m s1 = (r, s2)" by fastforce
  from assms(1) obtain cs rs where 1: "gs_calls s1 = gs_calls s @ cs" "gs_rows s1 = gs_rows s @ rs" "logged a sc cs rs"
    by (auto simp: effect_def)
  from addsE [OF assms(2) r] obtain ds where "gs_rows s2 = gs_rows s1" "gs_calls s2 = gs_calls s1 @ ds"
    "list_all quiet ds" by blast
  with 1 show ?thesis
    by (auto simp: effect_def r logged_def list_all_iff list_ex_iff intro!: exI [of _ "cs @ ds"])
qed

lemma quiet_then_effect:
  assumes "gs_rows s1 = gs_rows s" "gs_calls s1 = gs_calls s @ ds" "list_all quiet ds" "effect a sc s1 s2"
  shows "effect a sc s s2"
  using assms
  by (auto simp: effect_def logged_def list_all_iff list_ex_iff
      intro!: exI [of _ "ds @ cs" for cs])

lemma has_effect_bind:
  assumes m: "adds quiet m" and f: "\<And>v. has_effect a sc (f v)"
  shows "has_effect a sc (bindS m f)"
  unfolding has_effect_def
proof
  fix s
  obtain r s1 where r: "m s = (r, s1)" by fastforce
  from addsE [OF m r] obtain cs where cs: "gs_rows s1 = gs_rows s" "gs_calls s1 = gs_calls s @ cs" "list_all quiet cs"
    by blast
  show "effect a sc s (snd (bindS m f s))"
  proof (cases r)
    case (Inl e)
    then show ?thesis using quiet_then_effect [OF cs effect_refl] by (simp add: bindS_def r)
  next
    case (Inr v)
    then show ?thesis
      using quiet_then_effect [OF cs] f [of v] by (simp add: bindS_def r has_effect_def)
  qed
qed

lemma has_effect_then:
  assumes m: "has_effect a sc m" and f: "\<And>v. adds quiet (f v)"
  shows "has_effect a sc (bindS m f)"
  unfolding has_effect_def
proof
  fix s
  obtain r s1 where r: "m s = (r, s1)" by fastforce
  have "effect a sc s s1" using m r by (metis has_effect_def snd_conv)
  then show "effect a sc s (snd (bindS m f s))"
    using effect_then_quiet [OF _ f] by (cases r) (simp_all add: bindS_def r)
qed

lemma has_effect_quiet: "adds quiet m \<Longrightarrow> has_effect a sc m"
  by (simp add: has_effect_def effect_quiet)

lemma effect_map_fail [simp]: "snd (map_fail f rs) = snd rs"
  by (simp add: map_fail_def)

subsection \<open>The closures\<close>

lemma adds_run [simp]:
  "adds (\<lambda>_. True) (commit_run env msg paths)"
  "adds (\<lambda>_. True) (push_run env remote setUpstream force)"
  "adds (\<lambda>_. True) (discard_run env validated)"
  "adds (\<lambda>_. True) (checkout_run env branch create startPoint)"
  "adds (\<lambda>_. True) (show_run env sha)"
  "adds (\<lambda>_. True) (diff_run env opts)"
  unfolding commit_run_def stage_and_commit_def push_run_def push_branch_def executeRaw_def discard_run_def checkout_run_def
    show_run_def diff_run_def call_defs Let_def
  by (intro adds_intros; simp)+

lemma adds_raw [simp]: "adds (\<lambda>_. True) (git_raw env args)" "adds (\<lambda>_. True) (git_pull env)"
  by (simp_all add: call_defs adds_text)

lemma adds_raw_ret [simp]: "adds (\<lambda>_. True) (bindS (git_raw env args) (\<lambda>_. retS v))"
  by (intro adds_intros) simp

lemma quiet_contents [simp]: "adds quiet (diff_contents env cwd opts parsed st)"
proof -
  have "adds quiet (read_side env cwd sd p n)" for sd p n
    unfolding read_side_def readSideBlob_def call_defs
    by (cases sd) (auto intro!: adds_intros simp: changing_words_def)
  then show ?thesis
    unfolding diff_contents_def Let_def by (auto intro!: adds_intros split: prod.split)
qed

lemma quiet_counts [simp]: "adds quiet (countCommits env x y)" "adds quiet (countFilesChanged env x y)"
  unfolding countCommits_def countFilesChanged_def call_defs
  by (intro adds_intros; simp add: changing_words_def)+


subsection \<open>All operations\<close>

text \<open>The requests that the operations serve, and the reason of the answer: \<open>None\<close> when the promise of
  \<open>runGitPull\<close> is rejected, \<open>R_ok\<close> on success.\<close>

datatype git_op =
  G_pull
| G_status
| G_commit string "string list option"
| G_push "string option" "bool option" "bool option"
| G_log "int option" "string option" "string option"
| G_discard "string list"
| G_fetch "string option"
| G_diff diff_opts
| G_branches
| G_checkout string "bool option" "string option"
| G_delete string "bool option"
| G_show string
| G_stash_push "string option" "bool option"
| G_stash_list
| G_stash_pop string
| G_stash_drop string

definition answer_of :: "('f \<Rightarrow> reason) \<Rightarrow> ('f + 'a) \<times> git_state \<Rightarrow> reason option \<times> git_state" where
  "answer_of why rs = (case rs of (Inl f, s) \<Rightarrow> (Some (why f), s) | (Inr _, s) \<Rightarrow> (Some R_ok, s))"

fun run_git_op :: "git_env \<Rightarrow> host \<Rightarrow> string \<Rightarrow> scope \<Rightarrow> git_op \<Rightarrow> git_state \<Rightarrow> reason option \<times> git_state" where
  "run_git_op env h cwd sc G_pull s =
     (case runGitPull env cwd sc s of (Inl _, s') \<Rightarrow> (None, s') | (Inr r, s') \<Rightarrow> answer_of cf_reason (r, s'))"
| "run_git_op env h cwd sc G_status s = answer_of cf_reason (runGitStatus env cwd s)"
| "run_git_op env h cwd sc (G_commit msg paths) s = answer_of cf_reason (runGitCommit env cwd msg paths sc s)"
| "run_git_op env h cwd sc (G_push remote up force) s =
     answer_of (\<lambda>(f, _). cf_reason f) (runGitPush env cwd remote up force sc s)"
| "run_git_op env h cwd sc (G_log limit cursor branch) s =
     answer_of cf_reason (runGitLog env cwd limit cursor branch sc s)"
| "run_git_op env h cwd sc (G_discard paths) s = answer_of cf_reason (runGitDiscard env h cwd paths sc s)"
| "run_git_op env h cwd sc (G_fetch remote) s = answer_of (\<lambda>(f, _). cf_reason f) (runGitFetch env cwd remote sc s)"
| "run_git_op env h cwd sc (G_diff opts) s = answer_of (\<lambda>(f, _). cf_reason f) (runGitDiff env cwd opts sc s)"
| "run_git_op env h cwd sc G_branches s = answer_of cf_reason (runGitBranchList env cwd sc s)"
| "run_git_op env h cwd sc (G_checkout branch create start) s =
     answer_of cf_reason (runGitCheckout env cwd branch create start sc s)"
| "run_git_op env h cwd sc (G_delete branch force) s =
     answer_of cf_reason (runGitBranchDelete env cwd branch force sc s)"
| "run_git_op env h cwd sc (G_show sha) s = answer_of cf_reason (runGitShow env cwd sha sc s)"
| "run_git_op env h cwd sc (G_stash_push msg untracked) s =
     answer_of cf_reason (runGitStashPush env cwd msg untracked sc s)"
| "run_git_op env h cwd sc G_stash_list s = answer_of cf_reason (runGitStashList env cwd sc s)"
| "run_git_op env h cwd sc (G_stash_pop ref) s = answer_of cf_reason (runGitStashPop env cwd ref sc s)"
| "run_git_op env h cwd sc (G_stash_drop ref) s = answer_of cf_reason (runGitStashDrop env cwd ref sc s)"

fun action_of :: "git_op \<Rightarrow> git_action" where
  "action_of G_pull = A_pull"
| "action_of G_status = A_log"
| "action_of (G_commit _ _) = A_commit"
| "action_of (G_push _ _ _) = A_push"
| "action_of (G_log _ _ _) = A_log"
| "action_of (G_discard _) = A_discard"
| "action_of (G_fetch _) = A_fetch"
| "action_of (G_diff _) = A_diff"
| "action_of G_branches = A_branch_list"
| "action_of (G_checkout _ _ _) = A_checkout"
| "action_of (G_delete _ _) = A_branch_delete"
| "action_of (G_show _) = A_show"
| "action_of (G_stash_push _ _) = A_stash_push"
| "action_of G_stash_list = A_stash_list"
| "action_of (G_stash_pop _) = A_stash_pop"
| "action_of (G_stash_drop _) = A_stash_drop"

text \<open>The union that the type of each result declares.\<close>

fun reasons_of :: "git_op \<Rightarrow> reason list" where
  "reasons_of G_pull = R_ok # GitPullReason"
| "reasons_of G_status = GitStatusReason"
| "reasons_of (G_commit _ _) = GitCommitReason"
| "reasons_of (G_push _ _ _) = GitPushReason"
| "reasons_of (G_log _ _ _) = GitLogReason"
| "reasons_of (G_discard _) = GitDiscardReason"
| "reasons_of (G_fetch _) = GitFetchReason"
| "reasons_of (G_diff _) = GitDiffReason"
| "reasons_of G_branches = GitBranchListReason"
| "reasons_of (G_checkout _ _ _) = GitCheckoutReason"
| "reasons_of (G_delete _ _) = GitBranchDeleteReason"
| "reasons_of (G_show _) = GitShowReason"
| "reasons_of (G_stash_push _ _) = GitStashPushReason"
| "reasons_of G_stash_list = GitStashListReason"
| "reasons_of (G_stash_pop _) = GitStashPopReason"
| "reasons_of (G_stash_drop _) = GitStashDropReason"

lemma snd_answer_of [simp]: "snd (answer_of why rs) = snd rs"
  by (auto simp: answer_of_def split: prod.split sum.split)

lemma has_effect_guard: "has_effect a sc m \<Longrightarrow> has_effect a sc (\<lambda>s. if g s then (v, s) else m s)"
  by (simp add: has_effect_def)

lemma has_effect_cases:
  "has_effect a sc m \<Longrightarrow> has_effect a sc n \<Longrightarrow> has_effect a sc (if b then m else n)"
  "(\<And>e. has_effect a sc (f e)) \<Longrightarrow> (\<And>v. has_effect a sc (g v)) \<Longrightarrow>
     has_effect a sc (case x of Inl e \<Rightarrow> f e | Inr v \<Rightarrow> g v)"
  "has_effect a sc (retS v)"
  by (simp, cases x, simp_all add: has_effect_def)

lemma pull_has_effect: "has_effect A_pull sc (runGitPull env cwd sc)"
proof -
  have cmd: "has_effect A_pull sc (\<lambda>s. case runGitCommand env cwd A_pull sc [] (git_pull env) s of (r, s') \<Rightarrow> (Inr r, s'))"
    using effect_command [OF adds_raw(2), of A_pull sc _ env cwd "[]" env]
    by (simp add: has_effect_def split_beta)
  have now: "has_effect A_pull sc (pull_now env cwd sc b)" for b
    unfolding pull_now_def Let_def
    by (intro has_effect_bind has_effect_then [OF cmd])
      (auto intro!: adds_intros simp: call_defs split: sum.split)
  show ?thesis
    unfolding runGitPull_def Let_def
    by (intro has_effect_guard has_effect_bind has_effect_cases now) (auto intro!: adds_intros simp: call_defs)
qed

lemma op_effect: "effect (action_of p) sc s (snd (run_git_op env h cwd sc p s))"
proof (cases p)
  case G_pull
  then show ?thesis
    using pull_has_effect [of sc env cwd] by (auto simp: has_effect_def split_beta split: sum.split)
next
  case G_status
  have "effect A_log sc s (snd (git_status_call env s))" by (intro effect_quiet adds_intros) simp
  then show ?thesis using G_status by (auto simp: runGitStatus_def split: prod.split sum.split)
next
  case (G_commit msg paths)
  then show ?thesis by (simp add: runGitCommit_def effect_command)
next
  case (G_push remote up force)
  then show ?thesis
    using effect_command [OF adds_run(2), of A_push sc s env cwd]
    by (simp add: runGitPush_def Let_def split_beta split: sum.split)
next
  case (G_log limit cursor branch)
  then show ?thesis
    using effect_command [OF adds_raw(1), of A_log sc s env cwd]
    by (simp add: runGitLog_def Let_def split_beta split: sum.split)
next
  case (G_discard paths)
  then show ?thesis by (simp add: runGitDiscard_def effect_command split: sum.split)
next
  case (G_fetch remote)
  then show ?thesis
    by (auto simp: runGitFetch_def Let_def split_beta effect_command split: sum.split)
next
  case (G_diff opts)
  then show ?thesis
    using effect_command [OF adds_run(6), of A_diff sc s env cwd] effect_then_quiet [OF _ quiet_contents]
    by (simp add: runGitDiff_def Let_def split_beta split: sum.split)
next
  case (G_show sha)
  then show ?thesis
    using effect_command [OF adds_run(5), of A_show sc s env cwd]
    by (simp add: runGitShow_def split_beta split: sum.split option.split)
qed (simp_all add: runGitBranchList_def runGitCheckout_def runGitBranchDelete_def runGitStashPush_def
    runGitStashList_def runGitStashPop_def runGitStashDrop_def Let_def effect_command)


subsection \<open>The reasons\<close>

lemma narrow_in: "set rs \<subseteq> set us \<Longrightarrow> R_unknown \<in> set us \<Longrightarrow> narrow rs r \<in> set us"
  by (auto simp: narrow_def)

lemma classifyPullError_in:
  "classifyPullError t \<in> {R_non_fast_forward, R_auth_failed, R_network_error, R_unknown}"
  by (simp add: classifyPullError_def)

lemma mapped_reasons [simp]:
  "gitReasonToPullReason r t \<in> set GitPullReason"
  "gitReasonToCommitReason r \<in> set GitCommitReason"
  "gitReasonToPushReason r \<in> set GitPushReason"
  "gitReasonToLogReason r t \<in> set GitLogReason"
  "gitReasonToDiscardReason r \<in> set GitDiscardReason"
  "gitReasonToFetchReason r t \<in> set GitFetchReason"
  "gitReasonToDiffReason r t \<in> set GitDiffReason"
  "gitReasonToBranchListReason r \<in> set GitBranchListReason"
  "gitReasonToCheckoutReason r t \<in> set GitCheckoutReason"
  "gitReasonToBranchDeleteReason r t \<in> set GitBranchDeleteReason"
  "gitReasonToShowReason r t \<in> set GitShowReason"
  "gitReasonToStashPushReason r \<in> set GitStashPushReason"
  "gitReasonToStashListReason r \<in> set GitStashListReason"
  "gitReasonToStashPopReason r t \<in> set GitStashPopReason"
  "gitReasonToStashDropReason r t \<in> set GitStashDropReason"
  using classifyPullError_in [of t]
  by (auto simp: gitReasonToPullReason_def gitReasonToCommitReason_def gitReasonToPushReason_def
      gitReasonToLogReason_def gitReasonToDiscardReason_def gitReasonToFetchReason_def gitReasonToDiffReason_def
      gitReasonToBranchListReason_def gitReasonToCheckoutReason_def gitReasonToBranchDeleteReason_def
      gitReasonToShowReason_def gitReasonToStashPushReason_def gitReasonToStashListReason_def
      gitReasonToStashPopReason_def gitReasonToStashDropReason_def narrow_def reason_unions)

lemma refusals [simp]:
  "R_empty_message \<in> set GitCommitReason" "R_bad_revision \<in> set GitLogReason" "R_bad_revision \<in> set GitDiffReason"
  "R_git_patch_too_large \<in> set GitDiffReason" "R_no_paths \<in> set GitDiscardReason"
  "R_invalid_remote \<in> set GitFetchReason" "R_invalid_branch_name \<in> set GitCheckoutReason"
  "R_invalid_branch_name \<in> set GitBranchDeleteReason" "R_git_protected_branch \<in> set GitBranchDeleteReason"
  "R_bad_revision \<in> set GitShowReason" "R_unknown \<in> set GitShowReason" "R_invalid_ref \<in> set GitStashPopReason"
  "R_invalid_ref \<in> set GitStashDropReason" "R_path_missing \<in> set GitStatusReason"
  "R_not_a_repo \<in> set GitStatusReason" "R_unknown \<in> set GitStatusReason" "R_unknown \<in> set GitPullReason"
  "R_no_upstream \<in> set GitPullReason" "R_dirty_working_tree \<in> set GitPullReason" "R_not_a_git_repo \<in> set GitPullReason"
  "R_ok \<in> set (reasons_of p)"
  by (simp_all add: reason_unions) (cases p; simp add: reason_unions)

lemma cf_reason_no_text [simp]: "cf_reason (no_text r) = r" "cf_reason (pull_refused r t) = r"
  "cf_reason (renamed f c) = f (cf_reason c)" "cf_reason (reread g c) = g (cf_reason c) (or_blank (cf_stderr c))"
  by (simp_all add: no_text_def pull_refused_def renamed_def reread_def)

lemma validate_discard_reason: "validate_discard h cwd ps = Inl r \<Longrightarrow> r \<in> set GitDiscardReason"
proof (induction ps)
  case (Cons p ps)
  have "validateDiscardPath h cwd p = Inl r \<Longrightarrow> r \<in> set GitDiscardReason"
    by (auto simp: validateDiscardPath_def Let_def reason_unions split: if_splits)
  then show ?case using Cons by (auto split: sum.splits)
qed simp

lemma map_sum_Inl: "map_sum f id x = Inl y \<longleftrightarrow> (\<exists>e. x = Inl e \<and> y = f e)"
    "map_sum id g z = Inl e \<longleftrightarrow> z = Inl e"
  by (cases x; auto) (cases z; auto)

lemma fst_map_fail: "fst (map_fail f rs) = map_sum f id (fst rs)"
  by (simp add: map_fail_def)

lemma fst_answer_of: "fst (answer_of why rs) = (case fst rs of Inl f \<Rightarrow> Some (why f) | Inr _ \<Rightarrow> Some R_ok)"
  by (simp add: answer_of_def split_beta split: sum.split)

definition answers_in :: "reason list \<Rightarrow> (cmd_failure + 'a) git \<Rightarrow> bool" where
  "answers_in us m \<longleftrightarrow> (\<forall>s f. fst (m s) = Inr (Inl f) \<longrightarrow> cf_reason f \<in> set us)"

lemma answers_bind: "(\<And>v. answers_in us (f v)) \<Longrightarrow> answers_in us (bindS m f)"
  by (simp add: answers_in_def bindS_def split_beta split: sum.split)

lemma answers_cases:
  "answers_in us (retS (Inr v))"
  "cf_reason c \<in> set us \<Longrightarrow> answers_in us (retS (Inl c))"
  "answers_in us m \<Longrightarrow> answers_in us n \<Longrightarrow> answers_in us (if b then m else n)"
  "(\<And>e. answers_in us (g e)) \<Longrightarrow> (\<And>v. answers_in us (k v)) \<Longrightarrow> answers_in us (case x of Inl e \<Rightarrow> g e | Inr v \<Rightarrow> k v)"
  "cf_reason c \<in> set us \<Longrightarrow> answers_in us m \<Longrightarrow> answers_in us (\<lambda>s. if d s then (Inr (Inl c), s) else m s)"
  by (simp_all add: answers_in_def split: sum.split)

lemma pull_answers: "answers_in GitPullReason (runGitPull env cwd sc)"
  unfolding runGitPull_def pull_now_def Let_def
  by (intro answers_bind answers_cases) simp_all

lemma contents_never_throw: "\<exists>v. fst (diff_contents env cwd opts parsed st s) = Inr v"
proof -
  have "\<exists>v. fst (read_side env cwd sd p n s) = Inr v" for sd p n s
    by (cases sd) (simp_all add: read_side_def readSideBlob_def bindS_def attemptS_def split_beta)
  then show ?thesis
    unfolding diff_contents_def Let_def
    by (simp add: bindS_def split_beta split: sum.split) (metis sum.distinct(1) sum.inject(1))
qed


lemma op_reason:
  "case fst (run_git_op env h cwd sc p s) of Some r \<Rightarrow> r \<in> set (reasons_of p) | None \<Rightarrow> p = G_pull"
proof (cases p)
  case G_pull
  then show ?thesis
    using pull_answers [of env cwd sc] refusals(21) [of G_pull]
    by (auto simp: answers_in_def fst_answer_of split_beta split: sum.split)
next
  case (G_diff opts)
  have c: "fst (diff_contents env cwd opts pr st s1) = Inl e \<Longrightarrow> False" for pr st s1 e
    using contents_never_throw [of env cwd opts pr st s1] by auto
  show ?thesis
    using refusals(21) [of p] G_diff
    by (auto simp: fst_answer_of runGitDiff_def Let_def split_beta split: sum.split dest: c)
next
  case (G_discard paths)
  then show ?thesis
    using refusals(21) [of p] validate_discard_reason [of h cwd paths]
    by (auto simp: fst_answer_of runGitDiscard_def fst_map_fail map_sum_Inl split: sum.split)
qed (use refusals(21) [of p] in \<open>auto simp: fst_answer_of fst_map_fail map_sum_Inl runGitStatus_def runGitCommit_def runGitPush_def
      runGitLog_def runGitFetch_def runGitBranchList_def runGitCheckout_def runGitBranchDelete_def runGitShow_def
      runGitStashPush_def runGitStashList_def runGitStashPop_def runGitStashDrop_def Let_def split_beta
      split: sum.split sum.split_asm option.split if_splits\<close>)

text \<open>Whatever git does, an operation answers a reason of the union that its result type declares (or
  that it succeeded); only the promise of \<open>runGitPull\<close> can be rejected.\<close>

theorem reasons_are_declared:
  "case fst (run_git_op env h cwd sc p s) of Some r \<Rightarrow> r \<in> set (reasons_of p) | None \<Rightarrow> p = G_pull"
  by (rule op_reason)

text \<open>C21: an operation adds its calls to git at the end of the history and at most one row to
  \<open>git_audit_log\<close>.  When one of its calls may change the repository or the working tree, and the request
  names a project or a workspace, it adds exactly one row, with the operation as its action and with those
  ids, also when git fails or the timer fires.\<close>

theorem changes_are_logged:
  "\<exists>cs rs. let s' = snd (run_git_op env h cwd sc p s)
     in gs_calls s' = gs_calls s @ cs \<and> gs_rows s' = gs_rows s @ rs \<and> length rs \<le> 1
        \<and> list_all (\<lambda>row. ga_action row = action_of p \<and> (ga_projectId row, ga_workspaceId row) = sc) rs
        \<and> (if scoped sc \<and> list_ex changes cs then length rs = 1 else True)"
proof -
  from op_effect [of p sc s env h cwd] obtain cs rs where
    "gs_calls (snd (run_git_op env h cwd sc p s)) = gs_calls s @ cs"
    "gs_rows (snd (run_git_op env h cwd sc p s)) = gs_rows s @ rs" "logged (action_of p) sc cs rs"
    by (auto simp: effect_def)
  then show ?thesis
    by (intro exI [of _ cs] exI [of _ rs]) (auto simp: Let_def logged_def split: if_splits)
qed

subsection \<open>Pushing\<close>

text \<open>The calls of a push: nothing but questions, then at most one push of a branch that may be pushed.\<close>

definition pushes :: "string \<Rightarrow> bool \<Rightarrow> bool \<Rightarrow> git_call list \<Rightarrow> bool" where
  "pushes remote setUpstream force cs \<longleftrightarrow>
     list_all quiet cs
     \<or> (\<exists>qs b. cs = qs @ [GRaw (buildPushArgs b remote setUpstream force)] \<and> list_all quiet qs
          \<and> \<not> (force \<and> b \<in> set PROTECTED_BRANCHES)
          \<and> \<not> list_ex (\<lambda>f. f \<in> set (buildPushArgs b remote setUpstream force)) [''--all'', ''--mirror'', ''--force''])"

definition ends_in :: "(git_call list \<Rightarrow> bool) \<Rightarrow> 'a git \<Rightarrow> bool" where
  "ends_in Q m \<longleftrightarrow> (\<forall>s. \<exists>cs. gs_calls (snd (m s)) = gs_calls s @ cs \<and> Q cs)"

lemma ends_in_bind:
  assumes m: "adds quiet m" and f: "\<And>v. ends_in Q (f v)"
    and Q: "\<And>qs cs. list_all quiet qs \<Longrightarrow> Q cs \<Longrightarrow> Q (qs @ cs)" "Q []"
  shows "ends_in Q (bindS m f)"
  unfolding ends_in_def
proof
  fix s
  obtain r s1 where r: "m s = (r, s1)" by fastforce
  from addsE [OF m r] obtain qs where qs: "gs_calls s1 = gs_calls s @ qs" "list_all quiet qs" by blast
  show "\<exists>cs. gs_calls (snd (bindS m f s)) = gs_calls s @ cs \<and> Q cs"
  proof (cases r)
    case (Inl e)
    then show ?thesis using qs Q(1) [OF qs(2) Q(2)] by (intro exI [of _ qs]) (simp add: bindS_def r)
  next
    case (Inr v)
    from f [of v] obtain cs where "gs_calls (snd (f v s1)) = gs_calls s1 @ cs" "Q cs"
      by (auto simp: ends_in_def)
    then show ?thesis using qs Inr Q(1) [OF qs(2)] by (intro exI [of _ "qs @ cs"]) (simp add: bindS_def r)
  qed
qed

lemma pushes_prepend: "list_all quiet qs \<Longrightarrow> pushes remote u force cs \<Longrightarrow> pushes remote u force (qs @ cs)"
  by (fastforce simp: pushes_def)

lemma pushes_nil: "pushes remote u force []"
  by (simp add: pushes_def)

lemma push_branch_pushes:
  assumes "\<not> (force \<and> b \<in> set PROTECTED_BRANCHES)"
  shows "ends_in (pushes remote u force) (push_branch env remote b u force)"
proof -
  let ?args = "buildPushArgs b remote u force"
  have "pushes remote u force [GRaw ?args]"
    if "\<not> list_ex (\<lambda>f. f \<in> set ?args) [''--all'', ''--mirror'', ''--force'']"
    unfolding pushes_def using assms that
    by (intro disjI2 exI [of _ "[]"] exI [of _ b]) simp
  then show ?thesis
    using pushes_nil
    by (auto simp: ends_in_def push_branch_def executeRaw_def bindS_def call_defs text_call_def made_def Let_def
        split_beta split: sum.split)
qed

lemma push_run_pushes: "ends_in (pushes remote u force) (push_run env remote u force)"
proof -
  have thrown: "ends_in (pushes remote u force') (throwS e)" for e :: thrown and force'
    by (simp add: ends_in_def pushes_nil)
  have ask: "adds quiet (whenS (\<not> u) (bindS (catchS (git_revparse env as) (\<lambda>_. throwS e)) (\<lambda>_. retS ())))" for as e
    unfolding call_defs by (intro adds_intros) simp
  show ?thesis
    unfolding push_run_def Let_def call_defs
    by (intro ends_in_bind pushes_prepend pushes_nil; (simp only: if_split; intro conjI impI thrown)?)
      (auto intro!: adds_intros ends_in_bind pushes_prepend pushes_nil thrown push_branch_pushes
        ask [unfolded call_defs])
qed

end
