(* ===== verification/GitSafetyProps.thy ===== *)
theory GitSafetyProps
  imports GitProps
begin

text \<open>
  What reaches git: the pushes, the paths of a discard, what a commit stages, when a pull is made, and the
  command line of a diff.
\<close>

subsection \<open>One command\<close>

text \<open>The calls of a command are those of its closure, or there are none.\<close>

lemma command_calls:
  fixes run :: "'a git"
  assumes "a \<noteq> A_pull"
  shows "gs_calls (snd (runGitCommand env cwd a sc args run s)) =
    (if ge_exists env (gs_calls s) cwd \<and> ge_exists env (gs_calls s) (GIT_DIR cwd)
     then gs_calls (snd (run (s\<lparr>gs_args := args, gs_branch := None, gs_expired := False\<rparr>)))
     else gs_calls s)"
  using assms
  by (auto simp: runGitCommand_def race_def Let_def split_beta split: sum.split)

lemma ends_in_command:
  assumes "ends_in Q run" "Q []" "a \<noteq> A_pull"
  shows "\<exists>cs. gs_calls (snd (runGitCommand env cwd a sc args run s)) = gs_calls s @ cs \<and> Q cs"
  using assms(1,2) unfolding command_calls [OF assms(3)] ends_in_def
  by (auto dest: spec [of _ "s\<lparr>gs_args := args, gs_branch := None, gs_expired := False\<rparr>"])

lemma snd_runGitPush:
  "snd (runGitPush env cwd remote u f sc s) =
     snd (runGitCommand env cwd A_push sc
       (push_audit (case remote of Some r \<Rightarrow> r | None \<Rightarrow> ''origin'') None (f = Some True) (u = Some True))
       (push_run env (case remote of Some r \<Rightarrow> r | None \<Rightarrow> ''origin'') (u = Some True) (f = Some True)) s)"
  by (simp add: runGitPush_def Let_def split_beta split: sum.split)

text \<open>C19: a push asks git questions that change nothing and then makes at most one push, of one branch to
  one remote.  Its command line has none of \<open>--all\<close>, \<open>--mirror\<close> and \<open>--force\<close>, and if the caller asked for
  force, the branch is neither \<open>main\<close> nor \<open>master\<close>: that request never reaches the network.\<close>

theorem force_push_spares_protected:
  "\<exists>qs ps. gs_calls (snd (runGitPush env cwd remote u f sc s)) = gs_calls s @ qs @ ps \<and> list_all quiet qs
     \<and> (ps = [] \<or> (\<exists>b. let args = buildPushArgs b (case remote of Some r \<Rightarrow> r | None \<Rightarrow> ''origin'') (u = Some True) (f = Some True)
          in ps = [GRaw args] \<and> set args \<inter> {''--all'', ''--mirror'', ''--force''} = {}
             \<and> (if f = Some True then b \<notin> set PROTECTED_BRANCHES else True)))"
proof -
  let ?r = "case remote of Some r \<Rightarrow> r | None \<Rightarrow> ''origin''"
  obtain cs where cs: "gs_calls (snd (runGitPush env cwd remote u f sc s)) = gs_calls s @ cs"
    "pushes ?r (u = Some True) (f = Some True) cs"
    unfolding snd_runGitPush using ends_in_command [OF push_run_pushes pushes_nil] by blast
  show ?thesis
  proof (cases "list_all quiet cs")
    case True
    then show ?thesis using cs(1) by (intro exI [of _ cs] exI [of _ "[]"]) simp
  next
    case False
    with cs(2) obtain qs b where b: "cs = qs @ [GRaw (buildPushArgs b ?r (u = Some True) (f = Some True))]"
      "list_all quiet qs" "\<not> (f = Some True \<and> b \<in> set PROTECTED_BRANCHES)"
      "\<not> list_ex (\<lambda>x. x \<in> set (buildPushArgs b ?r (u = Some True) (f = Some True))) [''--all'', ''--mirror'', ''--force'']"
      by (auto simp: pushes_def)
    then show ?thesis
      using cs(1) by (intro exI [of _ qs] exI [of _ "drop (length qs) cs"] conjI disjI2 exI [of _ b]) (simp_all add: Let_def)
  qed
qed

subsection \<open>Discarding\<close>

lemma validate_discard_ok:
  "validate_discard h cwd ps = Inr vs \<Longrightarrow> vs = ps \<and>
     list_all (\<lambda>p. \<not> isAbsolute p \<and> under_root (resolve h cwd) (resolve_in h cwd p) \<and> resolve_in h cwd p \<noteq> resolve h cwd) ps"
proof (induction ps arbitrary: vs)
  case (Cons p ps)
  then obtain v ws where v: "validateDiscardPath h cwd p = Inr v" "validate_discard h cwd ps = Inr ws" "vs = v # ws"
    by (auto split: sum.splits)
  with Cons.IH [OF v(2)] show ?case
    by (auto simp: validateDiscardPath_def Let_def split: if_splits)
qed simp

lemma discard_run_calls:
  "gs_calls (snd (discard_run env vs s)) = gs_calls s @ [GRaw ([''checkout'', ''--''] @ vs)]"
  by (simp add: discard_run_def bindS_def catchS_def call_defs text_call_def made_def Let_def split: sum.split)

text \<open>A discard makes at most one call, \<open>git checkout -- \<dots>\<close> with the paths it was given after the
  separator, and it makes it only if every one of them is relative and names something strictly inside the
  root of the repository, wherever its \<open>..\<close> segments lead on the way.\<close>

theorem discard_stays_inside:
  "\<exists>cs. gs_calls (snd (runGitDiscard env h cwd paths sc s)) = gs_calls s @ cs
     \<and> (cs = [] \<or> cs = [GRaw ([''checkout'', ''--''] @ paths)] \<and> paths \<noteq> []
          \<and> list_all (\<lambda>p. \<not> isAbsolute p \<and> under_root (resolve h cwd) (resolve_in h cwd p)
               \<and> resolve_in h cwd p \<noteq> resolve h cwd) paths)"
proof (cases "paths = []")
  case False
  show ?thesis
  proof (cases "validate_discard h cwd paths")
    case (Inr vs)
    from validate_discard_ok [OF Inr] Inr False show ?thesis
      by (auto simp: runGitDiscard_def command_calls discard_run_calls)
  qed (simp add: runGitDiscard_def)
qed (simp add: runGitDiscard_def)

subsection \<open>Committing\<close>

text \<open>Step by step, with the answers that led to it.\<close>

definition commit_calls :: "git_env \<Rightarrow> git_call list \<Rightarrow> string \<Rightarrow> string list option \<Rightarrow> git_call list \<Rightarrow> bool" where
  "commit_calls env h msg paths cs \<longleftrightarrow>
     (if list_ex changes cs then
        (\<exists>st a. ge_status env (h @ [GStatus]) = Inr st \<and> \<not> st_detached st
           \<and> (case paths of Some ps \<Rightarrow> a = ps \<and> set ps \<subseteq> set (stageable st) | None \<Rightarrow> a = [''-A''])
           \<and> (cs = [GStatus, GAdd a] \<or> cs = [GStatus, GAdd a, GStatus]
              \<or> (\<exists>st2. ge_status env (h @ [GStatus, GAdd a, GStatus]) = Inr st2 \<and> st_staged st2 \<noteq> []
                   \<and> cs = [GStatus, GAdd a, GStatus, GCommit msg])))
      else True)"

lemma filter_outside: "filter (\<lambda>p. p \<notin> A) ps = [] \<longleftrightarrow> set ps \<subseteq> A"
  by (auto simp: filter_empty_conv)

lemma stage_and_commit_calls:
  "\<exists>cs. gs_calls (snd (stage_and_commit env msg a s)) = gs_calls s @ cs
    \<and> (cs = [GAdd a] \<or> cs = [GAdd a, GStatus]
       \<or> (\<exists>st2. ge_status env (gs_calls s @ [GAdd a, GStatus]) = Inr st2 \<and> st_staged st2 \<noteq> []
            \<and> cs = [GAdd a, GStatus, GCommit msg]))"
proof (cases "ge_text env (gs_calls s @ [GAdd a])")
  case (Inl e)
  then show ?thesis by (simp add: stage_and_commit_def bindS_def call_defs text_call_def made_def Let_def)
next
  case (Inr t)
  show ?thesis
  proof (cases "ge_status env (gs_calls s @ [GAdd a, GStatus])")
    case (Inl e)
    with Inr show ?thesis
      by (simp add: stage_and_commit_def bindS_def call_defs text_call_def git_status_call_def made_def Let_def)
  next
    case (Inr st2)
    with \<open>ge_text env (gs_calls s @ [GAdd a]) = Inr t\<close> show ?thesis
      by (cases "st_staged st2 = []"; cases "ge_text env (gs_calls s @ [GAdd a, GStatus, GCommit msg])")
        (simp_all add: stage_and_commit_def bindS_def call_defs text_call_def git_status_call_def made_def Let_def)
  qed
qed

lemma commit_run_calls:
  "\<exists>cs. gs_calls (snd (commit_run env msg paths s)) = gs_calls s @ cs \<and> commit_calls env (gs_calls s) msg paths cs"
proof (cases "ge_status env (gs_calls s @ [GStatus])")
  case (Inl e)
  then show ?thesis
    by (simp add: commit_run_def bindS_def git_status_call_def made_def Let_def commit_calls_def)
next
  case (Inr st)
  show ?thesis
  proof (cases "st_detached st \<or> (case paths of Some ps \<Rightarrow> filter (\<lambda>p. p \<notin> set (stageable st)) ps \<noteq> [] | None \<Rightarrow> False)")
    case True
    then show ?thesis
      using Inr by (auto simp: commit_run_def bindS_def git_status_call_def made_def Let_def commit_calls_def)
  next
    case False
    let ?a = "case paths of Some ps \<Rightarrow> ps | None \<Rightarrow> [''-A'']"
    have a: "case paths of Some ps \<Rightarrow> ?a = ps \<and> set ps \<subseteq> set (stageable st) | None \<Rightarrow> ?a = [''-A'']"
      using False by (auto simp: filter_outside split: option.splits)
    have det: "\<not> st_detached st" using False by simp
    have run: "snd (commit_run env msg paths s) = snd (stage_and_commit env msg ?a (made env GStatus s))"
      using Inr False by (simp add: commit_run_def bindS_def git_status_call_def made_def Let_def)
    from stage_and_commit_calls [of env msg ?a "made env GStatus s"] obtain cs where
      cs: "gs_calls (snd (commit_run env msg paths s)) = gs_calls s @ GStatus # cs"
        "cs = [GAdd ?a] \<or> cs = [GAdd ?a, GStatus]
         \<or> (\<exists>st2. ge_status env (gs_calls s @ [GStatus, GAdd ?a, GStatus]) = Inr st2 \<and> st_staged st2 \<noteq> []
              \<and> cs = [GAdd ?a, GStatus, GCommit msg])"
      unfolding run by (auto simp: made_def Let_def)
    have "commit_calls env (gs_calls s) msg paths (GStatus # cs)"
      unfolding commit_calls_def using Inr det a cs(2)
      by (intro if_bool_eq_conj [THEN iffD2] conjI impI TrueI exI [of _ st] exI [of _ ?a]) auto
    with cs(1) show ?thesis by blast
  qed
qed

text \<open>C20: a commit stages exactly the paths it was given, or everything if it was given none, and it does so
  only on a branch and only if each path was untracked, modified, deleted or the new name of a rename in the
  status read just before; and it commits only if the status read after staging lists something staged.\<close>

theorem commit_stages_only_changes:
  "\<exists>cs. gs_calls (snd (runGitCommit env cwd msg paths sc s)) = gs_calls s @ cs
     \<and> commit_calls env (gs_calls s) msg paths cs"
proof -
  have nil: "commit_calls env (gs_calls s) msg paths []" by (simp add: commit_calls_def)
  show ?thesis
    using nil commit_run_calls [of env msg paths "s\<lparr>gs_args := commit_audit msg paths, gs_branch := None, gs_expired := False\<rparr>"]
    by (auto simp: runGitCommit_def command_calls)
qed


subsection \<open>Pulling\<close>

abbreviation branch_question :: git_call where
  "branch_question \<equiv> GRevparse [''--abbrev-ref'', ''HEAD'']"

abbreviation upstream_question :: git_call where
  "upstream_question \<equiv> GRevparse [''--abbrev-ref'', ''--symbolic-full-name'', UPSTREAM]"

lemma act_step:
  "bindS (text_call env c) f s = (case ge_text env (gs_calls s @ [c]) of Inl e \<Rightarrow> (Inl e, made env c s) | Inr v \<Rightarrow> f v (made env c s))"
  "bindS (attemptS (text_call env c)) k s = k (ge_text env (gs_calls s @ [c])) (made env c s)"
  "bindS (attemptS (git_status_call env)) l s = l (ge_status env (gs_calls s @ [GStatus])) (made env GStatus s)"
  by (simp_all add: bindS_def attemptS_def text_call_def git_status_call_def made_def Let_def split: sum.split)

lemma calls_made [simp]: "gs_calls (made env c s) = gs_calls s @ [c]"
  by (simp add: made_def Let_def)

text \<open>What a pull asks before it pulls, and the answers that let it.\<close>

definition pull_asks :: "git_env \<Rightarrow> git_call list \<Rightarrow> git_call list \<Rightarrow> bool" where
  "pull_asks env h cs \<longleftrightarrow>
     (if list_ex changes cs then
        (\<exists>b u st. ge_text env (h @ [branch_question]) = Inr b \<and> js_trim b \<noteq> [] \<and> js_trim b \<noteq> ''HEAD''
           \<and> ge_text env (h @ [branch_question, upstream_question]) = Inr u
           \<and> ge_status env (h @ [branch_question, upstream_question, GStatus]) = Inr st \<and> st_clean st
           \<and> take 4 cs = [branch_question, upstream_question, GStatus, GRevparse [''HEAD'']])
      else True)"

lemma quiet_asks: "list_all quiet cs \<Longrightarrow> pull_asks env h cs"
  by (simp add: pull_asks_def list_all_iff list_ex_iff)

lemma pull_now_calls:
  "\<exists>cs. gs_calls (snd (pull_now env cwd sc b s)) = gs_calls s @ GRevparse [''HEAD''] # cs"
proof (cases "ge_text env (gs_calls s @ [GRevparse [''HEAD'']])")
  case (Inl e)
  then show ?thesis by (simp add: pull_now_def call_defs act_step)
next
  case (Inr v)
  let ?s = "made env (GRevparse [''HEAD'']) s"
  have more: "\<exists>cs. gs_calls (snd (bindS (\<lambda>s. case runGitCommand env cwd A_pull sc [] (git_pull env) s of (r, s') \<Rightarrow> (Inr r, s')) f ?s))
      = gs_calls ?s @ cs" if "\<And>r. adds quiet (f r)" for f :: "_ \<Rightarrow> 'z git"
  proof -
    obtain r s' where r: "runGitCommand env cwd A_pull sc [] (git_pull env) ?s = (r, s')" by fastforce
    from runGitCommand_effect [OF adds_raw(2) _ r] obtain cs where "gs_calls s' = gs_calls ?s @ cs" by auto
    moreover obtain r2 s2 where r2: "f r s' = (r2, s2)" by fastforce
    moreover from addsE [OF that r2] obtain ds where "gs_calls s2 = gs_calls s' @ ds" by blast
    ultimately show ?thesis by (simp add: bindS_def r r2)
  qed
  have "\<exists>cs. gs_calls (snd (pull_now env cwd sc b s)) = gs_calls ?s @ cs"
    unfolding pull_now_def Let_def git_revparse_def
    by (subst act_step(1), unfold Inr sum.case, rule more) (auto intro!: adds_intros split: sum.split)
  then show ?thesis by auto
qed

text \<open>The questions without the sequencing.\<close>

lemma snd_runGitPull:
  "snd (runGitPull env cwd sc s) =
     (let s1 = made env branch_question s; s2 = made env upstream_question s1; s3 = made env GStatus s2
      in if \<not> ge_exists env (gs_calls s) cwd \<or> \<not> ge_exists env (gs_calls s) (GIT_DIR cwd) then s
         else case ge_text env (gs_calls s1) of
             Inl _ \<Rightarrow> s1
           | Inr b \<Rightarrow>
               if js_trim b = [] \<or> js_trim b = ''HEAD'' then s1
               else case ge_text env (gs_calls s2) of
                   Inl _ \<Rightarrow> s2
                 | Inr u \<Rightarrow>
                     (case ge_status env (gs_calls s3) of
                        Inl _ \<Rightarrow> s3
                      | Inr st \<Rightarrow> if \<not> st_clean st then s3 else snd (pull_now env cwd sc (js_trim b) s3)))"
  by (simp add: runGitPull_def Let_def call_defs act_step split: sum.split)

text \<open>A pull changes nothing unless git named a current branch, that branch has an upstream, and the
  status read last said that the working tree is clean; these questions, and the one for \<open>HEAD\<close>, are asked
  in this order before the pull is made.\<close>

theorem pull_only_when_clean:
  "\<exists>cs. gs_calls (snd (runGitPull env cwd sc s)) = gs_calls s @ cs \<and> pull_asks env (gs_calls s) cs"
proof -
  let ?h = "gs_calls s"
  let ?s3 = "made env GStatus (made env upstream_question (made env branch_question s))"
  have stop: "\<exists>cs. ?h @ qs = ?h @ cs \<and> pull_asks env ?h cs" if "list_all quiet qs" for qs
    using that quiet_asks by blast
  have go: "\<exists>cs. gs_calls (snd (pull_now env cwd sc (js_trim b) ?s3)) = ?h @ cs \<and> pull_asks env ?h cs"
    if "ge_text env (?h @ [branch_question]) = Inr b" "js_trim b \<noteq> []" "js_trim b \<noteq> ''HEAD''"
      "ge_text env (?h @ [branch_question, upstream_question]) = Inr u"
      "ge_status env (?h @ [branch_question, upstream_question, GStatus]) = Inr st" "st_clean st" for b u st
  proof -
    from pull_now_calls [of env cwd sc "js_trim b" ?s3] obtain cs where
      "gs_calls (snd (pull_now env cwd sc (js_trim b) ?s3)) =
         ?h @ [branch_question, upstream_question, GStatus, GRevparse [''HEAD'']] @ cs"
      by auto
    moreover have "pull_asks env ?h ([branch_question, upstream_question, GStatus, GRevparse [''HEAD'']] @ cs)"
      using that by (auto simp: pull_asks_def)
    ultimately show ?thesis by blast
  qed
  show ?thesis
    unfolding snd_runGitPull Let_def
    using stop [of "[]"] stop [of "[branch_question]"] stop [of "[branch_question, upstream_question]"]
      stop [of "[branch_question, upstream_question, GStatus]"]
    by (simp split: sum.split) (intro impI allI, elim exE conjE, rule go; assumption)
qed

subsection \<open>The references of a diff\<close>

definition option_diff :: diff_opts where
  "option_diff = \<lparr>do_path = ''README.md'', do_staged = False, do_base = Some ''--no-index'', do_head = Some ''/etc/passwd'',
     do_maxBytes = None, do_includeContents = False, do_sideMaxBytes = None\<rparr>"

text \<open>C24: the check of \<open>base\<close> and \<open>head\<close> lets a leading dash through, and both stand before
  \<open>--end-of-options\<close>: a diff between \<open>--no-index\<close> and \<open>/etc/passwd\<close> is not refused, and the first thing
  that git is asked is \<open>diff --name-status --no-index /etc/passwd --end-of-options\<close>.\<close>

theorem diff_reference_is_an_option:
  "\<exists>cs. gs_calls (snd (runGitDiff env cwd option_diff sc s)) = gs_calls s @
     (if ge_exists env (gs_calls s) cwd \<and> ge_exists env (gs_calls s) (GIT_DIR cwd)
      then GRaw [''diff'', ''--name-status'', ''--no-index'', ''/etc/passwd'', ''--end-of-options''] # cs else [])"
proof -
  have ok: "diff_opts_ok option_diff" by code_simp
  let ?args = "[''diff'', ''--name-status'', ''--no-index'', ''/etc/passwd'', ''--end-of-options'']"
  let ?run = "runGitCommand env cwd A_diff sc (diff_audit option_diff) (diff_run env option_diff) s"
  have first: "\<exists>cs. gs_calls (snd (diff_run env option_diff t)) = gs_calls t @ GRaw ?args # cs" for t
    by (auto simp: diff_run_def option_diff_def diff_scope_def Let_def call_defs act_step bindS_def text_call_def
        split: sum.split)
  have c: "\<exists>cs. gs_calls (snd ?run) = gs_calls s @
     (if ge_exists env (gs_calls s) cwd \<and> ge_exists env (gs_calls s) (GIT_DIR cwd) then GRaw ?args # cs else [])"
    unfolding command_calls [of A_diff, simplified]
    using first [of "s\<lparr>gs_args := diff_audit option_diff, gs_branch := None, gs_expired := False\<rparr>"]
    by auto
  have "diff_contents env cwd option_diff p st t = (Inr None, t)" for p st t
    by (simp add: diff_contents_def option_diff_def)
  then have "snd (runGitDiff env cwd option_diff sc s) = snd ?run"
    using ok by (simp add: runGitDiff_def Let_def split_beta split: sum.split)
  with c show ?thesis by simp
qed

end
