(* ===== verification/GitReadProps.thy ===== *)
theory GitReadProps
  imports GitProps
begin

text \<open>
  Reading back what git prints: the rows of \<open>git log\<close> and of \<open>git show\<close>, the pages of the history, and the
  bytes of the truncated \<open>stderr\<close>.
\<close>

subsection \<open>Numbers and lines\<close>

lemma takeWhile_digits_app:
  assumes "list_all is_digit ds" "t = [] \<or> \<not> is_digit (hd t)"
  shows "takeWhile is_digit (ds @ t) = ds" "dropWhile is_digit (ds @ t) = t"
  using assms by (induction ds) (cases t; simp)+

lemma not_ws_digits: "list_all is_digit ds \<Longrightarrow> ds \<noteq> [] \<Longrightarrow> \<not> is_ws (hd ds)"
  by (cases ds) simp_all

lemma digits_of_nat: "list_all is_digit (str_of_nat n)"
  using str_of_nat_digits by (simp add: list_all_iff)

lemma parseInt_nat [simp]: "js_parseInt (str_of_nat n) = Some (int n)"
proof -
  let ?d = "str_of_nat n"
  have d: "list_all is_digit ?d" "?d \<noteq> []" by (simp_all add: digits_of_nat)
  then have ws: "dropWhile is_ws ?d = ?d" by (intro dropWhile_hd_id disjI2 not_ws_digits)
  obtain c r where c: "?d = c # r" using d(2) by (cases ?d) auto
  with d(1) have "is_digit c" by simp
  from is_digit_neq [OF this] have "c \<noteq> CHR ''-''" by simp
  moreover have "c \<noteq> CHR ''+''" using \<open>is_digit c\<close> by (auto simp: is_digit_def digits10_def)
  moreover have "takeWhile is_digit ?d = ?d" using takeWhile_digits_app(1) [OF d(1), of "[]"] by simp
  moreover have "\<not> is_ws c" using \<open>is_digit c\<close> by simp
  moreover have "nat_of_str (c # r) = n" using nat_of_str_str_of_nat [of n] c by simp
  ultimately show ?thesis using c by (simp add: js_parseInt_def Let_def)
qed

lemma parseInt_int [simp]: "js_parseInt (str_of_int i) = Some i"
proof (cases "i < 0")
  case True
  let ?d = "str_of_nat (nat (- i))"
  have tw: "takeWhile is_digit ?d = ?d"
    using digits_of_nat by (simp add: list_all_iff)
  show ?thesis
    using True by (simp add: js_parseInt_def str_of_int_def nat_of_str_str_of_nat is_ws_def Let_def tw)
qed (simp add: str_of_int_def)

lemma str_of_int_chars: "c \<in> set (str_of_int i) \<Longrightarrow> is_digit c \<or> c = CHR ''-''"
  using str_of_nat_digits by (auto simp: str_of_int_def split: if_splits)

text \<open>A text is not blank when it has a character that is not.\<close>

lemma js_trim_blank: "js_trim s = [] \<longleftrightarrow> list_all is_ws s"
proof
  assume "js_trim s = []"
  then have "\<forall>x \<in> set (dropWhile is_ws s). is_ws x" by (simp add: js_trim_def)
  then have "dropWhile is_ws s = []" using hd_dropWhile [of is_ws s] by force
  then show "list_all is_ws s" by (simp add: list_all_iff)
next
  assume "list_all is_ws s"
  then have "dropWhile is_ws s = []" by (simp add: list_all_iff)
  then show "js_trim s = []" unfolding js_trim_def by (simp only: rev.simps dropWhile.simps)
qed

lemma lines_of:
  assumes "list_all (\<lambda>l. l \<noteq> [] \<and> CHR 0x0A \<notin> set l) ls"
  shows "filter (\<lambda>l. l \<noteq> []) (split_on (CHR 0x0A) (join_on (CHR 0x0A) ls)) = ls"
proof (cases "ls = []")
  case False
  then have "split_on (CHR 0x0A) (join_on (CHR 0x0A) ls) = ls"
    using assms by (intro split_on_join) (auto simp: list_all_iff)
  then show ?thesis using assms by (simp add: list_all_iff)
qed simp

lemma set_join: "set (join_on c ls) \<subseteq> insert c (\<Union> (set ` set ls))"
  by (induction c ls rule: join_on.induct) auto

lemma join_has_pieces: "l \<in> set ls \<Longrightarrow> set l \<subseteq> set (join_on c ls)"
  by (induction c ls rule: join_on.induct) auto

subsection \<open>\<open>git log\<close>\<close>

text \<open>What git prints for the format of \<open>LOG_PRETTY\<close>, and the commits for which the format is not ambiguous:
  git ends a row with a line feed and a name may hold anything but that.\<close>

definition log_text_line :: "GitLogCommit \<Rightarrow> string" where
  "log_text_line c = join_on LOG_FIELD_SEP [lc_sha c, lc_author c, lc_email c, str_of_int (lc_ts c),
     join_on (CHR '' '') (lc_parents c), lc_subject c]"

definition log_text :: "GitLogCommit list \<Rightarrow> string" where
  "log_text cs = join_on (CHR 0x0A) (map log_text_line cs)"

definition field_ok :: "string \<Rightarrow> bool" where
  "field_ok s \<longleftrightarrow> LOG_FIELD_SEP \<notin> set s \<and> CHR 0x0A \<notin> set s"

definition sha_ok :: "string \<Rightarrow> bool" where
  "sha_ok s \<longleftrightarrow> s \<noteq> [] \<and> list_all hex_char s"

definition commit_ok :: "GitLogCommit \<Rightarrow> bool" where
  "commit_ok c \<longleftrightarrow> sha_ok (lc_sha c) \<and> lc_shortSha c = take 7 (lc_sha c) \<and> field_ok (lc_author c)
     \<and> field_ok (lc_email c) \<and> CHR 0x0A \<notin> set (lc_subject c) \<and> list_all sha_ok (lc_parents c)"

lemma hex_plain: "list_all (\<lambda>c. \<not> is_ws c) ''0123456789abcdefABCDEF''"
  by code_simp

lemma hex_not_ws: "hex_char c \<Longrightarrow> \<not> is_ws c"
  using hex_plain by (auto simp: hex_char_def)

lemma sha_chars:
  assumes "sha_ok s" "is_ws c"
  shows "c \<notin> set s"
  using assms hex_not_ws by (auto simp: sha_ok_def list_all_iff)

lemma ws_seps [simp]: "is_ws (CHR 0x09)" "is_ws (CHR 0x0A)" "is_ws (CHR '' '')"
  by (simp_all add: is_ws_def)

lemma words_of_join:
  assumes "list_all (\<lambda>w. w \<noteq> [] \<and> CHR '' '' \<notin> set w) ws"
  shows "words_of (join_on (CHR '' '') ws) = ws"
proof (cases "ws = []")
  case False
  then have "split_on (CHR '' '') (join_on (CHR '' '') ws) = ws"
    using assms by (intro split_on_join) (auto simp: list_all_iff)
  then show ?thesis using assms by (simp add: words_of_def list_all_iff)
qed (simp add: words_of_def)

lemma parents_chars:
  assumes "list_all sha_ok ps" "is_ws c" "c \<noteq> CHR '' ''"
  shows "c \<notin> set (join_on (CHR '' '') ps)"
  using set_join [of "CHR '' ''" ps] assms sha_chars by (fastforce simp: list_all_iff)

lemma int_chars: "is_ws c \<Longrightarrow> c \<notin> set (str_of_int i)"
  using str_of_int_chars [of c i] by (auto simp: is_ws_def is_digit_def digits10_def)

lemma log_line_text:
  assumes "commit_ok c"
  shows "log_line (log_text_line c) = Some c"
proof -
  let ?t = LOG_FIELD_SEP
  have sep: "is_ws ?t" "?t \<noteq> CHR '' ''" by (simp_all add: LOG_FIELD_SEP_def)
  have c: "sha_ok (lc_sha c) \<and> field_ok (lc_author c) \<and> field_ok (lc_email c) \<and> list_all sha_ok (lc_parents c)"
    using assms by (simp add: commit_ok_def)
  have no: "?t \<notin> set (lc_sha c)" "?t \<notin> set (lc_author c)" "?t \<notin> set (lc_email c)" "?t \<notin> set (str_of_int (lc_ts c))"
    "?t \<notin> set (join_on (CHR '' '') (lc_parents c))"
    using c [unfolded field_ok_def] sha_chars [OF c [THEN conjunct1] sep(1)] int_chars [OF sep(1)]
      parents_chars [OF c [THEN conjunct2, THEN conjunct2, THEN conjunct2] sep]
    by blast+
  obtain p ps where p: "split_on ?t (lc_subject c) = p # ps" by (meson split_on_nonempty neq_Nil_conv)
  have split: "split_on ?t (log_text_line c) =
      lc_sha c # lc_author c # lc_email c # str_of_int (lc_ts c) # join_on (CHR '' '') (lc_parents c) # p # ps"
    by (simp add: log_text_line_def split_on_append no p)
  have "join_on ?t (p # ps) = lc_subject c" using join_split [of ?t "lc_subject c"] p by simp
  moreover have "words_of (join_on (CHR '' '') (lc_parents c)) = lc_parents c"
    using c sha_chars [OF _ ws_seps(3)]
    by (intro words_of_join) (simp add: list_all_iff, auto simp: sha_ok_def)
  ultimately show ?thesis
    using assms by (simp add: log_line_def split int_or_0_def commit_ok_def)
qed

lemma log_text_line_shape:
  assumes "commit_ok c"
  shows "log_text_line c \<noteq> []" "CHR 0x0A \<notin> set (log_text_line c)" "\<not> is_ws (hd (log_text_line c))"
proof -
  have sha: "lc_sha c \<noteq> []" "\<not> is_ws (hd (lc_sha c))"
    using assms hex_not_ws by (auto simp: commit_ok_def sha_ok_def list_all_iff)
  then show "log_text_line c \<noteq> []" "\<not> is_ws (hd (log_text_line c))" by (simp_all add: log_text_line_def)
  show "CHR 0x0A \<notin> set (log_text_line c)"
    using assms sha_chars [of _ "CHR 0x0A"] int_chars [of "CHR 0x0A"] parents_chars [of _ "CHR 0x0A"]
    by (auto simp: log_text_line_def commit_ok_def field_ok_def LOG_FIELD_SEP_def)
qed

lemma map_filter_all: "list_all (\<lambda>x. f (g x) = Some x) xs \<Longrightarrow> List.map_filter f (map g xs) = xs"
  by (induction xs) (simp_all add: List.map_filter_simps)

lemma parse_log_text:
  assumes "list_all commit_ok cs"
  shows "parseGitLogOutput (log_text cs) = cs"
proof (cases cs)
  case Nil
  then show ?thesis by (simp add: parseGitLogOutput_def log_text_def js_trim_def)
next
  case (Cons c cs')
  have c: "commit_ok c" "log_text_line c \<in> set (map log_text_line cs)" using assms Cons by simp_all
  have "hd (log_text_line c) \<in> set (log_text cs)"
    using join_has_pieces [OF c(2), of "CHR 0x0A"] hd_in_set [OF log_text_line_shape(1) [OF c(1)]]
    unfolding log_text_def by blast
  moreover note log_text_line_shape(3) [OF c(1)]
  ultimately have "js_trim (log_text cs) \<noteq> []" by (auto simp: js_trim_blank list_all_iff)
  moreover have "filter (\<lambda>l. l \<noteq> []) (split_on (CHR 0x0A) (log_text cs)) = map log_text_line cs"
    unfolding log_text_def using assms log_text_line_shape by (intro lines_of) (auto simp: list_all_iff)
  moreover have "List.map_filter log_line (map log_text_line cs) = cs"
    using assms log_line_text by (intro map_filter_all) (simp add: list_all_iff)
  ultimately show ?thesis by (simp add: parseGitLogOutput_def)
qed


subsection \<open>The pages of the history\<close>

text \<open>A client that follows \<open>nextCursor\<close>, for at most \<open>n\<close> pages.\<close>

fun log_walk :: "nat \<Rightarrow> git_env \<Rightarrow> string \<Rightarrow> nat \<Rightarrow> scope \<Rightarrow> string option \<Rightarrow> git_state \<Rightarrow> GitLogCommit list option" where
  "log_walk 0 env cwd limit sc cursor s = None"
| "log_walk (Suc n) env cwd limit sc cursor s =
     (case runGitLog env cwd (Some (int limit)) cursor None sc s of
        (Inr (page, next), s') \<Rightarrow>
          (case next of None \<Rightarrow> Some page
           | Some c \<Rightarrow> map_option ((@) page) (log_walk n env cwd limit sc (Some c) s'))
      | (Inl _, _) \<Rightarrow> None)"

text \<open>Git answers \<open>git log\<close> for a history without merges: the newest commit first, and from a commit on, it
  and the older ones.\<close>

definition linear_log :: "git_env \<Rightarrow> string \<Rightarrow> GitLogCommit list \<Rightarrow> bool" where
  "linear_log env cwd H \<longleftrightarrow>
     (\<forall>h. ge_exists env h cwd \<and> ge_exists env h (GIT_DIR cwd) \<and> \<not> ge_late env h)
     \<and> (\<forall>h n. ge_text env (h @ [GRaw (log_args n None)]) = Inr (log_text (take (n + 1) H)))
     \<and> (\<forall>h n older c newer. H = newer @ c # older \<longrightarrow>
          ge_text env (h @ [GRaw (log_args n (Some (lc_sha c)))]) = Inr (log_text (take (n + 1) (c # older))))"

definition history_ok :: "GitLogCommit list \<Rightarrow> bool" where
  "history_ok H \<longleftrightarrow> list_all (\<lambda>c. commit_ok c \<and> CURSOR_RE (lc_sha c)) H"

lemma history_ok_take: "history_ok H \<Longrightarrow> list_all commit_ok (take n H)"
  by (auto simp: history_ok_def list_all_iff dest: in_set_takeD)

text \<open>One page, from the rows that git printed.\<close>

lemma runGitLog_page:
  assumes ex: "\<And>h. ge_exists env h cwd \<and> ge_exists env h (GIT_DIR cwd) \<and> \<not> ge_late env h"
    and lim: "1 \<le> limit" "limit \<le> 100" and cur: "case cursor of Some c \<Rightarrow> CURSOR_RE c | None \<Rightarrow> True"
    and ans: "\<And>h. ge_text env (h @ [GRaw (log_args limit cursor)]) = Inr (log_text rows)"
    and rows: "list_all commit_ok rows"
  shows "\<exists>s'. runGitLog env cwd (Some (int limit)) cursor None sc s = (Inr (log_page limit rows), s')"
proof -
  have limit: "nat (min (int limit) MAX_LIMIT) = limit" "\<not> int limit < 1"
    using lim by (simp_all add: MAX_LIMIT_def)
  show ?thesis
    using cur ex limit ans
    by (cases cursor) (simp_all add: runGitLog_def runGitCommand_def race_def git_raw_def text_call_def made_def
        Let_def parse_log_text [OF rows])
qed

lemma log_page_take:
  "log_page limit (take (limit + 1) cs) =
     (if limit < length cs then (take limit cs, Some (lc_sha (cs ! limit))) else (cs, None))"
  by (auto simp: log_page_def min_def)

lemma log_walk_linear:
  assumes L: "linear_log env cwd H" and H: "history_ok H" and lim: "1 \<le> limit" "limit \<le> 100"
  shows "H = newer @ c # older \<Longrightarrow> length older < n \<Longrightarrow>
    log_walk n env cwd limit sc (Some (lc_sha c)) s = Some (c # older)"
proof (induction n arbitrary: newer c older s)
  case (Suc n)
  let ?rows = "take (limit + 1) (c # older)"
  have ok: "history_ok (c # older)" using H Suc.prems(1) by (simp add: history_ok_def)
  have "\<exists>s'. runGitLog env cwd (Some (int limit)) (Some (lc_sha c)) None sc s = (Inr (log_page limit ?rows), s')"
  proof (rule runGitLog_page)
    show "ge_text env (h @ [GRaw (log_args limit (Some (lc_sha c)))]) = Inr (log_text ?rows)" for h
      using L Suc.prems(1) by (simp add: linear_log_def)
    show "list_all commit_ok ?rows" by (rule history_ok_take [OF ok])
  qed (use L lim ok in \<open>auto simp: linear_log_def history_ok_def\<close>)
  then obtain s' where run: "runGitLog env cwd (Some (int limit)) (Some (lc_sha c)) None sc s = (Inr (log_page limit ?rows), s')" ..
  show ?case
  proof (cases "limit < length (c # older)")
    case False
    then show ?thesis using run unfolding log_page_take by simp
  next
    case True
    let ?next = "(c # older) ! limit"
    have split: "c # older = take limit (c # older) @ ?next # drop (Suc limit) (c # older)"
      by (rule id_take_nth_drop [OF True])
    have "H = (newer @ take limit (c # older)) @ ?next # drop (Suc limit) (c # older)"
      using Suc.prems(1) split by simp
    moreover have "length (drop (Suc limit) (c # older)) < n"
      using Suc.prems(2) lim(1) True by simp
    ultimately have "log_walk n env cwd limit sc (Some (lc_sha ?next)) s' = Some (?next # drop (Suc limit) (c # older))"
      by (rule Suc.IH)
    moreover have "log_page limit ?rows = (take limit (c # older), Some (lc_sha ?next))"
      using True by (simp only: log_page_take if_True)
    ultimately show ?thesis using run split by simp
  qed
qed simp

text \<open>C22: on a history without merges, following \<open>nextCursor\<close> from the first page reads every commit exactly
  once and in order, whatever the size of the pages, and ends: more pages than commits are never needed.  The size is 1 to 100, to
  which the route clamps it; git prints the same history at every call, with ids that the cursor pattern accepts
  and author fields that hold none of the two separators of the log format.\<close>

theorem log_pages_cover_linear_history:
  assumes "linear_log env cwd H" "history_ok H" "1 \<le> limit" "limit \<le> 100" "length H < n"
  shows "log_walk n env cwd limit sc None s = Some H"
proof -
  obtain m where n: "n = Suc m" using assms(5) by (cases n) auto
  let ?rows = "take (limit + 1) H"
  have "\<exists>s'. runGitLog env cwd (Some (int limit)) None None sc s = (Inr (log_page limit ?rows), s')"
    by (rule runGitLog_page) (use assms history_ok_take [OF assms(2)] in \<open>auto simp: linear_log_def\<close>)
  then obtain s' where run: "runGitLog env cwd (Some (int limit)) None None sc s = (Inr (log_page limit ?rows), s')" ..
  show ?thesis
  proof (cases "limit < length H")
    case False
    then show ?thesis using run unfolding log_page_take by (simp add: n)
  next
    case True
    have split: "H = take limit H @ H ! limit # drop (Suc limit) H" by (rule id_take_nth_drop [OF True])
    have "length (drop (Suc limit) H) < m" using assms(3,5) True n by simp
    from log_walk_linear [OF assms(1-4) split this]
    have "log_walk m env cwd limit sc (Some (lc_sha (H ! limit))) s' = Some (H ! limit # drop (Suc limit) H)" .
    moreover have "log_page limit ?rows = (take limit H, Some (lc_sha (H ! limit)))"
      using True by (simp only: log_page_take if_True)
    ultimately show ?thesis using run split by (simp add: n)
  qed
qed

text \<open>A git that serves a given history, with its merges: the commits that a reference reaches, newest
  first.\<close>

fun reached :: "string list \<Rightarrow> GitLogCommit list \<Rightarrow> GitLogCommit list" where
  "reached wanted [] = []"
| "reached wanted (c # cs) =
     (if lc_sha c \<in> set wanted then c # reached (wanted @ lc_parents c) cs else reached wanted cs)"

definition serve_log :: "GitLogCommit list \<Rightarrow> git_call list \<Rightarrow> thrown + string" where
  "serve_log H h =
     (case last h of
        GRaw args \<Rightarrow>
          (let n = nat_of_str (args ! 2);
               start = (case drop 7 args of [] \<Rightarrow> lc_sha (hd H) | r # _ \<Rightarrow> r)
           in Inr (log_text (take n (reached [start] H))))
      | _ \<Rightarrow> Inr [])"

definition no_status :: git_status where
  "no_status = \<lparr>st_current = None, st_detached = False, st_files = [], st_clean = True, st_not_added = [],
     st_modified = [], st_deleted = [], st_renamed_to = [], st_staged = []\<rparr>"

definition log_env :: "GitLogCommit list \<Rightarrow> git_env" where
  "log_env H = \<lparr>ge_exists = \<lambda>_ _. True, ge_text = serve_log H, ge_status = \<lambda>_. Inr no_status,
     ge_late = \<lambda>_. False, ge_chunks = \<lambda>_. [], ge_file = \<lambda>_ _ _. Inl ''ENOENT''\<rparr>"

definition fresh_git :: git_state where
  "fresh_git = \<lparr>gs_calls = [], gs_expired = False, gs_args = [], gs_branch = None, gs_rows = []\<rparr>"

definition demo_commit :: "char \<Rightarrow> char list \<Rightarrow> GitLogCommit" where
  "demo_commit c ps = \<lparr>lc_sha = replicate 8 c, lc_shortSha = replicate 7 c, lc_author = ''Ann'', lc_email = ''ann'',
     lc_ts = 7, lc_subject = ''work'', lc_parents = map (replicate 8) ps\<rparr>"

definition demo_history :: "GitLogCommit list" where
  "demo_history = [demo_commit (CHR ''c'') ''b'', demo_commit (CHR ''b'') ''a'', demo_commit (CHR ''a'') []]"

lemma demo_reached:
  "reached [lc_sha (hd demo_history)] demo_history = demo_history"
  "reached [lc_sha (demo_commit (CHR ''c'') ''b'')] demo_history = demo_history"
  "reached [lc_sha (demo_commit (CHR ''b'') ''a'')] demo_history = tl demo_history"
  "reached [lc_sha (demo_commit (CHR ''a'') [])] demo_history = tl (tl demo_history)"
  by code_simp+

lemma log_args_parts: "log_args k r ! 2 = str_of_nat (k + 1)"
    "drop 7 (log_args k r) = (case r of Some x \<Rightarrow> [x] | None \<Rightarrow> [])"
  by (simp_all add: log_args_def split: option.split)

lemma serve_log_args:
  "serve_log H (h @ [GRaw (log_args k r)]) =
     Inr (log_text (take (k + 1) (reached [case r of Some x \<Rightarrow> x | None \<Rightarrow> lc_sha (hd H)] H)))"
  by (simp add: serve_log_def log_args_parts nat_of_str_str_of_nat Let_def split: option.split)

lemma demo_linear: "linear_log (log_env demo_history) ''/p'' demo_history"
proof -
  have "reached [lc_sha c] demo_history = c # older" if H: "demo_history = newer @ c # older" for newer c older
  proof -
    have "newer @ c # older = [demo_commit (CHR ''c'') ''b'', demo_commit (CHR ''b'') ''a'', demo_commit (CHR ''a'') []]"
      using H by (simp add: demo_history_def)
    then show ?thesis
      using demo_reached by (auto simp: append_eq_Cons_conv Cons_eq_append_conv demo_history_def)
  qed
  then show ?thesis
    using demo_reached(1) by (simp add: linear_log_def log_env_def serve_log_args)
qed

theorem log_pages_cover_linear_history_witness:
  "log_walk 4 (log_env demo_history) ''/p'' 2 (Some 1, None) None fresh_git = Some demo_history"
proof -
  have "history_ok demo_history" by code_simp
  from log_pages_cover_linear_history [OF demo_linear this, of 2 4 "(Some 1, None)" fresh_git] show ?thesis
    by (simp add: demo_history_def)
qed

text \<open>A merge: \<open>m\<close> has the parents \<open>a\<close> and \<open>b\<close>.  The history of the newest commit has all three, the page
  that starts at the cursor \<open>a\<close> has only \<open>a\<close>, and \<open>b\<close> is on no page.\<close>

definition merged_history :: "GitLogCommit list" where
  "merged_history = [demo_commit (CHR ''c'') ''ab'', demo_commit (CHR ''a'') [], demo_commit (CHR ''b'') []]"

lemma log_pages_lose_merged_commit:
  "reached [lc_sha (hd merged_history)] merged_history = merged_history
   \<and> log_walk 4 (log_env merged_history) ''/p'' 1 (Some 1, None) None fresh_git = Some (take 2 merged_history)"
  by (rule conjI; code_simp)

end
