(* ===== verification/GitShowProps.thy ===== *)
theory GitShowProps
  imports GitReadProps
begin

text \<open>
  Reading back \<open>git show -z\<close>: the two lists of files and their merge.  Then the bytes of the \<open>stderr\<close> in an
  audit row, and the texts that the classifiers and parsers get wrong.
\<close>

subsection \<open>The files of a commit\<close>

text \<open>A changed file as git knows it: its letter, the similarity of a rename or copy, the paths, and the
  lines added and removed, \<open>None\<close> for a binary file.\<close>

record changed_file =
  cf_letter :: char
  cf_score :: nat
  cf_old :: string
  cf_path :: string
  cf_counts :: "(nat \<times> nat) option"

definition moved :: "changed_file \<Rightarrow> bool" where
  "moved f \<longleftrightarrow> cf_letter f \<in> set ''RC''"

definition z_join :: "string list \<Rightarrow> string" where
  "z_join ts = concat (map (\<lambda>t. t @ [CHR 0x00]) ts)"

definition status_tokens :: "changed_file \<Rightarrow> string list" where
  "status_tokens f =
     (if moved f then [cf_letter f # str_of_nat (cf_score f), cf_old f, cf_path f] else [[cf_letter f], cf_path f])"

definition count_text :: "changed_file \<Rightarrow> string" where
  "count_text f = (case cf_counts f of None \<Rightarrow> [CHR ''-'', CHR 0x09, CHR ''-'', CHR 0x09]
     | Some (a, r) \<Rightarrow> str_of_nat a @ CHR 0x09 # str_of_nat r @ [CHR 0x09])"

definition numstat_text :: "changed_file \<Rightarrow> string" where
  "numstat_text f =
     (if moved f then z_join [count_text f] @ z_join [cf_old f, cf_path f] else z_join [count_text f @ cf_path f])"

definition name_status_z :: "changed_file list \<Rightarrow> string" where
  "name_status_z fs = concat (map (z_join \<circ> status_tokens) fs)"

definition numstat_z :: "changed_file list \<Rightarrow> string" where
  "numstat_z fs = concat (map numstat_text fs)"

definition path_token :: "string \<Rightarrow> bool" where
  "path_token p \<longleftrightarrow> p \<noteq> [] \<and> CHR 0x00 \<notin> set p"

definition file_ok :: "changed_file \<Rightarrow> bool" where
  "file_ok f \<longleftrightarrow> cf_letter f \<in> set ''MADTURC'' \<and> path_token (cf_path f) \<and> (moved f \<longrightarrow> path_token (cf_old f))"

definition shown :: "changed_file \<Rightarrow> GitShowFile" where
  "shown f = \<lparr>sf_path = cf_path f, sf_status = cf_letter f,
     sf_added = (case cf_counts f of Some (a, _) \<Rightarrow> int a | None \<Rightarrow> 0),
     sf_removed = (case cf_counts f of Some (_, r) \<Rightarrow> int r | None \<Rightarrow> 0),
     sf_oldPath = (if moved f then Some (cf_old f) else None)\<rparr>"

lemma split_z_join:
  "list_all path_token ts \<Longrightarrow> filter (\<lambda>t. t \<noteq> []) (split_on (CHR 0x00) (z_join ts)) = ts"
  by (induction ts) (simp_all add: z_join_def path_token_def split_on_append)

lemma z_join_append: "z_join (ts @ us) = z_join ts @ z_join us"
  by (simp add: z_join_def)

lemma z_join_concat: "concat (map (z_join \<circ> f) xs) = z_join (concat (map f xs))"
  by (induction xs) (simp_all add: z_join_append, simp add: z_join_def)

lemma z_tokens_join:
  assumes "list_all path_token ts" "ts = [] \<or> \<not> is_ws (hd (hd ts))"
  shows "z_tokens (z_join ts) = ts"
proof (cases ts)
  case (Cons t us)
  then have "t \<noteq> []" "\<not> is_ws (hd (z_join ts))"
    using assms by (simp_all add: path_token_def z_join_def)
  then have "dropWhile is_ws (z_join ts) = z_join ts" by (intro dropWhile_hd_id) simp
  then show ?thesis using split_z_join [OF assms(1)] by (simp add: z_tokens_def)
qed (simp add: z_tokens_def z_join_def)

lemma letter_facts:
  "list_all (\<lambda>c. to_upper c = c \<and> \<not> is_ws c \<and> c \<noteq> CHR 0x00) ''MADTURC''"
  "set ''RC'' \<inter> set ''MADTU'' = {}"
  by code_simp simp

lemma letterD:
  assumes "file_ok f"
  shows "to_upper (cf_letter f) = cf_letter f" "\<not> is_ws (cf_letter f)" "cf_letter f \<noteq> CHR 0x00"
    "moved f \<or> cf_letter f \<in> set ''MADTU''"
  using assms letter_facts(1) by (auto simp: file_ok_def moved_def)

lemma digit_not_nul: "is_digit c \<Longrightarrow> c \<noteq> CHR 0x00 \<and> c \<noteq> CHR 0x09"
  by (auto simp: is_digit_def digits10_def)

lemma nat_chars: "CHR 0x00 \<notin> set (str_of_nat n)" "CHR 0x09 \<notin> set (str_of_nat n)"
  using str_of_nat_digits digit_not_nul by fastforce+

lemma status_tokens_ok: "file_ok f \<Longrightarrow> list_all path_token (status_tokens f)"
  using letterD(3) [of f] nat_chars by (auto simp: status_tokens_def path_token_def file_ok_def)

lemma concat_tokens_ok: "(\<And>f. f \<in> set fs \<Longrightarrow> list_all P (t f)) \<Longrightarrow> list_all P (concat (map t fs))"
  by (induction fs) simp_all

definition z_row :: "changed_file \<Rightarrow> z_status" where
  "z_row f = (cf_letter f, cf_path f, if moved f then Some (cf_old f) else None)"

lemma name_status_rows_step:
  assumes "file_ok f"
  shows "name_status_rows (status_tokens f @ ts) = z_row f # name_status_rows ts"
proof (cases "moved f")
  case True
  then show ?thesis using letterD(1) [OF assms] by (simp add: status_tokens_def z_row_def moved_def)
next
  case False
  then have "cf_letter f \<in> set ''MADTU''" "cf_letter f \<notin> set ''RC''"
    using letterD(4) [OF assms] by (simp_all add: moved_def)
  then show ?thesis
    using False letterD(1) [OF assms] by (cases ts) (simp_all add: status_tokens_def z_row_def)
qed

lemma parseNameStatusZ_text:
  assumes "list_all file_ok fs"
  shows "parseNameStatusZ (name_status_z fs) = map z_row fs"
proof -
  let ?ts = "concat (map status_tokens fs)"
  have tok: "list_all path_token ?ts"
    using assms by (intro concat_tokens_ok status_tokens_ok) (simp add: list_all_iff)
  moreover have "?ts = [] \<or> \<not> is_ws (hd (hd ?ts))"
    using assms letterD(2) by (cases fs) (auto simp: status_tokens_def)
  ultimately have "z_tokens (name_status_z fs) = ?ts"
    unfolding name_status_z_def z_join_concat by (rule z_tokens_join)
  moreover have "name_status_rows ?ts = map z_row fs"
    using assms by (induction fs) (simp_all add: name_status_rows_step)
  ultimately show ?thesis by (simp add: parseNameStatusZ_def)
qed

definition numstat_tokens :: "changed_file \<Rightarrow> string list" where
  "numstat_tokens f = (if moved f then [count_text f, cf_old f, cf_path f] else [count_text f @ cf_path f])"

definition n_row :: "changed_file \<Rightarrow> z_numstat" where
  "n_row f = (sf_added (shown f), sf_removed (shown f), cf_path f, sf_oldPath (shown f))"

lemma count_text_chars: "CHR 0x00 \<notin> set (count_text f)" "count_text f \<noteq> []" "\<not> is_ws (hd (count_text f))"
proof -
  show "CHR 0x00 \<notin> set (count_text f)" using nat_chars by (auto simp: count_text_def split: option.split prod.split)
  show "count_text f \<noteq> []" by (simp add: count_text_def split: option.split prod.split)
  have "\<not> is_ws (hd (str_of_nat n))" for n
    using not_ws_digits [OF digits_of_nat str_of_nat_nonempty] .
  then show "\<not> is_ws (hd (count_text f))" by (simp add: count_text_def is_ws_def split: option.split prod.split)
qed

lemma stat_count_nat [simp]: "stat_count (str_of_nat n) = int n" "stat_count ''-'' = 0"
proof -
  have "str_of_nat n \<noteq> ''-''"
    using digits_of_nat [of n] by (auto simp: is_digit_def digits10_def)
  then show "stat_count (str_of_nat n) = int n" by (simp add: stat_count_def int_or_0_def)
qed (simp add: stat_count_def)

lemma split_counts:
  "split_on (CHR 0x09) (count_text f @ p) =
     (case cf_counts f of None \<Rightarrow> [''-'', ''-''] | Some (a, r) \<Rightarrow> [str_of_nat a, str_of_nat r]) @ split_on (CHR 0x09) p"
  using split_on_append [OF nat_chars(2)]
  by (auto simp: count_text_def split: option.split prod.split)

lemma numstat_rows_step:
  assumes "file_ok f"
  shows "numstat_rows (numstat_tokens f @ ts) = n_row f # numstat_rows ts"
proof -
  obtain q qs where q: "split_on (CHR 0x09) (cf_path f) = q # qs" by (meson split_on_nonempty neq_Nil_conv)
  have j: "join_on (CHR 0x09) (q # qs) = cf_path f" using join_split [of "CHR 0x09" "cf_path f"] q by simp
  have p: "cf_path f \<noteq> []" using assms by (simp add: file_ok_def path_token_def)
  show ?thesis
    using split_counts [of f "[]"] split_counts [of f "cf_path f"] j p
    by (cases "moved f"; cases "cf_counts f") (auto simp: numstat_tokens_def n_row_def shown_def q)
qed

lemma parseNumstatZ_text:
  assumes "list_all file_ok fs"
  shows "parseNumstatZ (numstat_z fs) = map n_row fs"
proof -
  let ?ts = "concat (map numstat_tokens fs)"
  have "list_all path_token ?ts"
    using assms count_text_chars
    by (intro concat_tokens_ok) (auto simp: list_all_iff numstat_tokens_def file_ok_def path_token_def)
  moreover have "?ts = [] \<or> \<not> is_ws (hd (hd ?ts))"
    using count_text_chars(2,3) by (cases fs) (auto simp: numstat_tokens_def)
  moreover have "numstat_z fs = z_join ?ts"
    unfolding numstat_z_def z_join_concat [symmetric]
    by (intro arg_cong [of _ _ concat] map_cong refl)
      (simp add: numstat_text_def numstat_tokens_def z_join_def)
  ultimately have "z_tokens (numstat_z fs) = ?ts" using z_tokens_join by simp
  moreover have "numstat_rows ?ts = map n_row fs"
    using assms by (induction fs) (simp_all add: numstat_rows_step)
  ultimately show ?thesis by (simp add: parseNumstatZ_def)
qed

lemma num_by_path_rows:
  assumes "distinct (map cf_path fs)" "f \<in> set fs"
  shows "map_of (num_by_path (map n_row fs)) (cf_path f) = Some (sf_added (shown f), sf_removed (shown f))"
proof -
  have "num_by_path (map n_row fs) =
      fold (\<lambda>f. AList.update (cf_path f) (sf_added (shown f), sf_removed (shown f))) fs []"
    by (simp add: num_by_path_def fold_map n_row_def comp_def)
  also have "\<dots> = map (\<lambda>f. (cf_path f, (sf_added (shown f), sf_removed (shown f)))) fs"
    using jm_fold_set_fresh [of cf_path fs "[]"] assms(1) by simp
  finally show ?thesis using assms by (simp add: map_of_eq_Some_iff comp_def)
qed

text \<open>C23: the files that \<open>runGitShow\<close> reports are those that git printed: from the NUL-separated lists of
  \<open>--name-status\<close> and \<open>--numstat\<close>, with renames, copies and binary files, and with whatever characters the
  paths have, the two parsers and their merge give back every file with its letter, its paths and its line
  counts, in the order of git.\<close>

theorem show_files_read_back:
  assumes "list_all file_ok fs" "distinct (map cf_path fs)"
  shows "mergeShowFiles (parseNameStatusZ (name_status_z fs)) (parseNumstatZ (numstat_z fs)) = map shown fs"
proof -
  have old: "truthy_str (if moved f then Some (cf_old f) else None) = sf_oldPath (shown f)" if "f \<in> set fs" for f
    using assms(1) that by (auto simp: truthy_str_def shown_def list_all_iff file_ok_def path_token_def)
  show ?thesis
    unfolding parseNameStatusZ_text [OF assms(1)] parseNumstatZ_text [OF assms(1)] mergeShowFiles_def map_map
    by (rule map_cong [OF refl])
      (simp add: z_row_def num_by_path_rows [OF assms(2)] old, simp add: shown_def)
qed

definition demo_files :: "changed_file list" where
  "demo_files =
     [\<lparr>cf_letter = CHR ''M'', cf_score = 0, cf_old = [], cf_path = ''a b.txt'', cf_counts = Some (12, 3)\<rparr>,
      \<lparr>cf_letter = CHR ''R'', cf_score = 87, cf_old = ''old.txt'', cf_path = [CHR ''x'', CHR 0x09, CHR 0x0A],
        cf_counts = Some (0, 1)\<rparr>,
      \<lparr>cf_letter = CHR ''A'', cf_score = 0, cf_old = [], cf_path = ''logo.png'', cf_counts = None\<rparr>]"

theorem show_files_read_back_witness:
  "mergeShowFiles (parseNameStatusZ (name_status_z demo_files)) (parseNumstatZ (numstat_z demo_files)) = map shown demo_files"
proof (rule show_files_read_back)
  show "list_all file_ok demo_files" by code_simp
  show "distinct (map cf_path demo_files)" by code_simp
qed

subsection \<open>The bytes of an audit row\<close>

lemma row_code_points: "list_all code_point (map of_char t)"
proof -
  have "code_point (of_char c)" for c
    using of_char_mod_256 [where 'a = nat, of c] mod_less_divisor [of 256 "of_char c :: nat"] by linarith
  then show ?thesis by (simp add: list_all_iff)
qed

text \<open>The \<open>stderr\<close> of an audit row has at most 4098 bytes: two more than the limit of 4096 that the
  comment names, because a code point cut in two becomes U+FFFD, which has three bytes.  The bound is met:
  4095 letters and an e with an acute accent are stored in 4098 bytes.\<close>

theorem audit_stderr_bytes:
  "(case stderr_row e of None \<Rightarrow> True | Some t \<Rightarrow> length (utf8_encode t) \<le> STDERR_TRUNCATE_BYTES + 2)
   \<and> map_option (length \<circ> utf8_encode) (stderr_row (Some (replicate 4095 (CHR ''a'') @ [CHR 0xE9]))) = Some 4098"
proof
  show "case stderr_row e of None \<Rightarrow> True | Some t \<Rightarrow> length (utf8_encode t) \<le> STDERR_TRUNCATE_BYTES + 2"
    using truncateUtf8_length [OF row_code_points] by (simp add: stderr_row_def split: option.split)
  have w: "width 97 = 1" "width 233 = 2" by (simp_all add: width_cases scalar_of_def is_surrogate_def)
  have "truncateUtf8 (replicate 4095 97 @ [233]) (Suc 4095) = replicate 4095 97 @ [FFFD]"
    by (rule truncateUtf8_ascii_then) (simp_all add: w)
  moreover have "Suc 4095 = STDERR_TRUNCATE_BYTES" by (simp add: STDERR_TRUNCATE_BYTES_def)
  moreover have "length (utf8_encode (replicate 4095 97 @ [FFFD])) = 4098"
    by (simp add: encode_length w width_FFFD sum_list_replicate)
  ultimately show "map_option (length \<circ> utf8_encode) (stderr_row (Some (replicate 4095 (CHR ''a'') @ [CHR 0xE9]))) = Some 4098"
    by (simp add: stderr_row_def truthy_str_def)
qed

subsection \<open>Texts that are read wrongly\<close>

text \<open>A file named \<open>403.html\<close> in the way of a pull is reported as a failed authentication; a push that the
  remote rejects because it has newer commits is reported as unknown, unless git says
  \<open>non-fast-forward\<close>.\<close>

lemma file_name_is_no_status_code:
  "classifyStderrToGitReason (''Your local changes to 403.html would be overwritten'')
     = R_auth_failed"
  "classifyStderrToGitReason (''Your local changes to 404.html would be overwritten'')
     = R_dirty_tree"
  by code_simp+

lemma fetch_first_is_unknown:
  "classifyStderrToGitReason ('' ! [rejected]  main -> main (fetch first)'') = R_unknown"
  "classifyStderrToGitReason ('' ! [rejected]  main -> main (non-fast-forward)'') = R_rejected_non_fast_forward"
  by code_simp+

text \<open>Git quotes the name of a file that is not ASCII in the lines of \<open>--name-status\<close>, so the row of that file
  is not found: the diff says that it is unchanged, and its contents are not read.\<close>

lemma quoted_name_is_unchanged:
  "diff_status_of (findStatusForPath (''M'' @ [CHR 0x09, CHR 0x22, CHR 0x5C] @ ''303'' @ [CHR 0x5C] @ ''251.txt'' @ [CHR 0x22, CHR 0x0A])
     ([CHR 0xE9] @ ''.txt'')) patch = Diff_unchanged"
  by (simp add: diff_status_of_def) code_simp

text \<open>A vertical bar in the name of a branch, which git allows, shifts the columns of its row: the branch
  loses its upstream and its name.\<close>

lemma bar_in_branch_name:
  "fst (parseBranchListOutput (''refs/heads/a|b|a|b|*|origin/a|[ahead 2]'')) =
     [\<lparr>be_name = ''b'', be_current = False, be_upstream = Some ''b'', be_ahead = 0, be_behind = 0, be_isRemote = False\<rparr>]"
  by code_simp

text \<open>The handler of a push stops listening once the text is longer than its bound, and keeps the end of what
  it has by then: what git writes after that, the error itself, is lost.\<close>

lemma push_stderr_stops:
  "collect_stderr n [] ([replicate (Suc n) c] @ later) = (if n = 0 then [c] else replicate n c)"
  by (simp add: appendBoundedStderr_def js_slice_tail_def Let_def)

end
