(* ===== verification/BoundedString.thy ===== *)
theory BoundedString
  imports Prelude
begin

text \<open>
  The accumulator of streamed text: \<open>src/src/lib/bounded-string.ts\<close>.

  The abstract view of an accumulator is the text that it holds.  Appending to it is, in that view, appending
  and keeping the last \<open>maxBytes\<close> characters, so that after any stream it holds the tail of the whole stream.
\<close>

record accumulator =
  ba_chunks :: "string list"
  ba_totalLen :: nat
  ba_wasTruncated :: bool
  ba_maxBytes :: nat

definition MAX_CHAT_STREAM_BYTES :: nat where
  "MAX_CHAT_STREAM_BYTES = 8 * 1024 * 1024"

definition new_accumulator :: "nat \<Rightarrow> accumulator" where
  "new_accumulator maxBytes =
     \<lparr>ba_chunks = [], ba_totalLen = 0, ba_wasTruncated = False, ba_maxBytes = maxBytes\<rparr>"

definition append_chunk :: "string \<Rightarrow> accumulator \<Rightarrow> accumulator" where
  "append_chunk chunk a =
     (if chunk = [] then a
      else let b = a\<lparr>ba_chunks := ba_chunks a @ [chunk], ba_totalLen := ba_totalLen a + length chunk\<rparr>
           in if ba_totalLen b > ba_maxBytes b then
                let trimmed = js_slice_tail (ba_maxBytes b) (concat (ba_chunks b))
                in b\<lparr>ba_wasTruncated := True, ba_chunks := [trimmed], ba_totalLen := length trimmed\<rparr>
              else b)"

text \<open>The text, and the accumulator with its chunks joined.\<close>

definition accumulator_toString :: "accumulator \<Rightarrow> string \<times> accumulator" where
  "accumulator_toString a =
     (case ba_chunks a of
        [] \<Rightarrow> ([], a)
      | [c] \<Rightarrow> (c, a)
      | _ \<Rightarrow> let joined = concat (ba_chunks a) in (joined, a\<lparr>ba_chunks := [joined]\<rparr>))"

definition clear_accumulator :: "accumulator \<Rightarrow> accumulator" where
  "clear_accumulator a = a\<lparr>ba_chunks := [], ba_totalLen := 0, ba_wasTruncated := False\<rparr>"

definition appendBounded :: "string \<Rightarrow> string \<Rightarrow> nat \<Rightarrow> string" where
  "appendBounded prev chunk maxBytes =
     (let combined = prev @ chunk in if length combined \<le> maxBytes then combined else js_slice_tail maxBytes combined)"

subsection \<open>What it holds\<close>

definition last_chars :: "nat \<Rightarrow> string \<Rightarrow> string" where
  "last_chars n s = drop (length s - n) s"

lemma last_chars_append: "last_chars n (last_chars n s @ t) = last_chars n (s @ t)"
  by (cases "n \<le> length s") (simp_all add: last_chars_def drop_append add.commute)

lemma slice_tail_last: "0 < n \<Longrightarrow> js_slice_tail n s = last_chars n s"
  by (simp add: js_slice_tail_def last_chars_def)

lemma last_chars_short: "length s \<le> n \<Longrightarrow> last_chars n s = s"
  by (simp add: last_chars_def)

definition held :: "accumulator \<Rightarrow> string" where
  "held a = concat (ba_chunks a)"

definition acc_ok :: "accumulator \<Rightarrow> bool" where
  "acc_ok a \<longleftrightarrow> 0 < ba_maxBytes a \<and> ba_totalLen a = length (held a) \<and> ba_totalLen a \<le> ba_maxBytes a"

lemma append_chunk_step:
  assumes "acc_ok a"
  shows "acc_ok (append_chunk c a)" "ba_maxBytes (append_chunk c a) = ba_maxBytes a"
    "held (append_chunk c a) = last_chars (ba_maxBytes a) (held a @ c)"
    "ba_wasTruncated (append_chunk c a) \<longleftrightarrow> ba_wasTruncated a \<or> length (held a @ c) > ba_maxBytes a"
  using assms
  by (auto simp: append_chunk_def acc_ok_def held_def Let_def slice_tail_last last_chars_short, auto simp: last_chars_def)

lemma appendBounded_last: "0 < n \<Longrightarrow> appendBounded s c n = last_chars n (s @ c)"
  by (simp add: appendBounded_def Let_def slice_tail_last last_chars_short)

text \<open>The contract of a sliding tail, and both forms of the code as its instances.\<close>

locale sliding_tail =
  fixes add :: "string \<Rightarrow> 's \<Rightarrow> 's" and text_of :: "'s \<Rightarrow> string" and inv :: "'s \<Rightarrow> bool" and cap :: nat
  assumes add_inv: "inv s \<Longrightarrow> inv (add c s)"
    and add_text: "inv s \<Longrightarrow> text_of (add c s) = last_chars cap (text_of s @ c)"
begin

lemma stream_text:
  "inv s \<Longrightarrow> cs \<noteq> [] \<Longrightarrow> inv (fold add cs s) \<and> text_of (fold add cs s) = last_chars cap (text_of s @ concat cs)"
proof (induction cs arbitrary: s)
  case (Cons c cs)
  show ?case
  proof (cases "cs = []")
    case True
    then show ?thesis using Cons.prems by (simp add: add_inv add_text)
  next
    case False
    from Cons.IH [OF add_inv [OF Cons.prems(1)] False, of c] show ?thesis
      by (simp add: add_text [OF Cons.prems(1)] last_chars_append flip: append_assoc)
  qed
qed simp

end

text \<open>The bound is a parameter of the constructor, so the instance is that of one accumulator.\<close>

lemma accumulator_sliding:
  "sliding_tail append_chunk held (\<lambda>a. acc_ok a \<and> ba_maxBytes a = n) n"
  by unfold_locales (simp_all add: append_chunk_step)

interpretation chat_text: sliding_tail append_chunk held "\<lambda>a. acc_ok a \<and> ba_maxBytes a = MAX_CHAT_STREAM_BYTES" MAX_CHAT_STREAM_BYTES
  by (rule accumulator_sliding)

interpretation plain_text: sliding_tail "\<lambda>c s. appendBounded s c MAX_CHAT_STREAM_BYTES" id "\<lambda>_. True" MAX_CHAT_STREAM_BYTES
  by unfold_locales (simp_all add: appendBounded_last MAX_CHAT_STREAM_BYTES_def)

lemma toString_held: "fst (accumulator_toString a) = held a" "held (snd (accumulator_toString a)) = held a"
  by (simp_all add: accumulator_toString_def held_def Let_def split: list.split)

lemma new_ok: "0 < n \<Longrightarrow> acc_ok (new_accumulator n)" "held (new_accumulator n) = []"
  by (simp_all add: acc_ok_def new_accumulator_def held_def)

text \<open>C25: a new accumulator of the size that chats use, fed any stream, holds the last 8 * 1024 * 1024 characters of the
  whole stream (the code counts characters although the constant speaks of bytes): the same text as the one-line form \<open>appendBounded\<close> computes, read back by \<open>toString\<close>, with its
  length, and never longer than the bound.\<close>

theorem accumulator_keeps_tail:
  "let a = fold append_chunk cs (new_accumulator MAX_CHAT_STREAM_BYTES); t = fst (accumulator_toString a)
   in t = drop (length (concat cs) - MAX_CHAT_STREAM_BYTES) (concat cs)
      \<and> t = fold (\<lambda>c s. appendBounded s c MAX_CHAT_STREAM_BYTES) cs []
      \<and> ba_totalLen a = length t \<and> length t \<le> MAX_CHAT_STREAM_BYTES"
proof -
  let ?n = MAX_CHAT_STREAM_BYTES
  let ?a = "fold append_chunk cs (new_accumulator ?n)"
  have n: "0 < ?n" by (simp add: MAX_CHAT_STREAM_BYTES_def)
  have new: "acc_ok (new_accumulator ?n) \<and> ba_maxBytes (new_accumulator ?n) = ?n"
    using new_ok(1) [OF n] by (simp add: new_accumulator_def)
  have a: "acc_ok ?a \<and> ba_maxBytes ?a = ?n" and t: "held ?a = last_chars ?n (concat cs)"
    using new chat_text.stream_text [OF new, of cs] new_ok(2)
    by (cases "cs = []"; simp add: last_chars_short)+
  moreover have "fold (\<lambda>c s. appendBounded s c ?n) cs [] = last_chars ?n (concat cs)"
    using plain_text.stream_text [where s = "[]" and cs = cs] by (cases "cs = []") (simp_all add: last_chars_short)
  ultimately show ?thesis
    by (simp add: Let_def toString_held acc_ok_def last_chars_def)
qed

text \<open>With the bound 0, which the constructor accepts, nothing is ever dropped: \<open>slice(-0)\<close> is the whole text.\<close>

lemma bound_zero_is_no_bound: "held (fold append_chunk cs (new_accumulator 0)) = concat cs"
proof -
  have "held (fold append_chunk cs a) = held a @ concat cs" if "ba_maxBytes a = 0" for a
    using that
  proof (induction cs arbitrary: a)
    case (Cons c cs)
    have "ba_maxBytes (append_chunk c a) = 0" "held (append_chunk c a) = held a @ c"
      using Cons.prems by (auto simp: append_chunk_def held_def js_slice_tail_def Let_def)
    then show ?case using Cons.IH [of "append_chunk c a"] by simp
  qed simp
  then show ?thesis by (simp add: new_accumulator_def held_def)
qed

end
