(* ===== verification/ChatKeys.thy ===== *)
theory ChatKeys
  imports Keys
begin

text \<open>
  What a chat turn runs on (\<open>src/src/routes/chats/helpers.ts\<close>): the row of a chat, the key that is resolved from the
  request, the row and the defaults, the check of that key against the whitelist of the project or workspace,
  and the selection that is written back.

  The tables of keys, projects and workspaces are those of \<open>Keys\<close>; \<open>rc\<close> is \<open>getDefaultKeyId()\<close>.  A key
  is passed over when its column \<open>is_active\<close> is 0; the query for the first permitted key asks for a 1, so that a key
  whose column is NULL (\<open>PATCH /keys/:id\<close> can write one) may be the default but is never picked by the query.  The texts of the errors are left out.
\<close>

subsection \<open>Chats\<close>

record chat_row =
  c_project :: "int option"
  c_workspace :: "int option"
  c_title :: "string option"
  c_session :: "string option"
  c_key :: "int option"
  c_model :: "string option"
  c_thinking :: bool
  c_effort :: "string option"
  c_requiresApproval :: bool
  c_approval :: "string option"
  c_approvalNote :: "string option"
  c_edits :: "string option"
  c_status :: string
  c_resumeAt :: "int option"

datatype key_source = FromRequest | FromStored | FromDefault

datatype chat_error =
  Invalid string
  | KeyRefused int key_source bool "int option"

definition chat_scope :: "chat_row \<Rightarrow> key_task" where
  "chat_scope c = \<lparr>tk_project = c_project c, tk_workspace = c_workspace c, tk_assigned = None, tk_failed = None,
     tk_allowed = None\<rparr>"

subsection \<open>The key of a turn\<close>

text \<open>\<open>String(v)\<close>\<close>

fun js_String :: "jval \<Rightarrow> string" where
  "js_String JNull = ''null''"
| "js_String (JBool b) = (if b then ''true'' else ''false'')"
| "js_String (JNum n) = str_of_int n"
| "js_String (JStr s) = s"
| "js_String (JArr vs) = join_on CHR '','' (map (\<lambda>v. if v = JNull then [] else js_String v) vs)"
| "js_String (JObj _) = ''[object Object]''"

definition positive :: "int option \<Rightarrow> int option" where
  "positive v = (case v of Some n \<Rightarrow> if n > 0 then Some n else None | None \<Rightarrow> None)"

definition coerceKeyId :: "jval option \<Rightarrow> int option" where
  "coerceKeyId raw =
     (case raw of
        None \<Rightarrow> None
      | Some JNull \<Rightarrow> None
      | Some (JNum n) \<Rightarrow> positive (Some n)
      | Some v \<Rightarrow> positive (js_parseInt (js_String v)))"

definition key_by_id :: "key_db \<Rightarrow> int \<Rightarrow> ai_key option" where
  "key_by_id db i = find (\<lambda>k. k_id k = i) (kd_keys db)"

definition key_active :: "key_db \<Rightarrow> int \<Rightarrow> bool" where
  "key_active db i \<longleftrightarrow> (case key_by_id db i of Some k \<Rightarrow> k_active k \<noteq> Some False | None \<Rightarrow> False)"

definition active_by_priority :: "key_db \<Rightarrow> ai_key list" where
  "active_by_priority db = sort_key k_priority (filter (\<lambda>k. k_active k = Some True) (kd_keys db))"

definition resolveDefaultKeyForChat :: "json_parse \<Rightarrow> key_db \<Rightarrow> int option \<Rightarrow> key_task \<Rightarrow> int option" where
  "resolveDefaultKeyForChat jp db rc scope =
     (let allowedIds = resolveAllowedKeyIds jp db scope in
      if allowedIds = [] then (case rc of None \<Rightarrow> None | Some i \<Rightarrow> if key_active db i then Some i else None)
      else case rc of
             Some i \<Rightarrow> if i \<in> set allowedIds \<and> key_active db i then Some i
                       else map_option k_id (find (\<lambda>k. k_id k \<in> set allowedIds) (active_by_priority db))
           | None \<Rightarrow> map_option k_id (find (\<lambda>k. k_id k \<in> set allowedIds) (active_by_priority db)))"

definition resolveChatKeyId :: "json_parse \<Rightarrow> key_db \<Rightarrow> int option \<Rightarrow> jval option \<Rightarrow> chat_row \<Rightarrow> int option" where
  "resolveChatKeyId jp db rc bodyKeyId chat =
     (case coerceKeyId bodyKeyId of
        Some i \<Rightarrow> Some i
      | None \<Rightarrow>
          (case coerceKeyId (map_option JNum (c_key chat)) of
             Some i \<Rightarrow> if key_active db i then Some i else resolveDefaultKeyForChat jp db rc (chat_scope chat)
           | None \<Rightarrow> resolveDefaultKeyForChat jp db rc (chat_scope chat)))"

definition classifyKeyIdSource :: "jval option \<Rightarrow> int option \<Rightarrow> key_source" where
  "classifyKeyIdSource bodyKeyId storedKeyId =
     (if coerceKeyId bodyKeyId \<noteq> None then FromRequest
      else if coerceKeyId (map_option JNum storedKeyId) \<noteq> None then FromStored else FromDefault)"

definition assertKeyAllowedForChat ::
  "json_parse \<Rightarrow> key_db \<Rightarrow> key_task \<Rightarrow> int option \<Rightarrow> key_source \<Rightarrow> chat_error + unit" where
  "assertKeyAllowedForChat jp db scope keyId source =
     (case truthy_int keyId of
        None \<Rightarrow> Inr ()
      | Some i \<Rightarrow>
          let allowedIds = resolveAllowedKeyIds jp db scope in
          if allowedIds = [] \<or> i \<in> set allowedIds then Inr ()
          else Inl (KeyRefused i source (tk_project scope \<noteq> None)
                 (if tk_project scope \<noteq> None then tk_project scope else tk_workspace scope)))"

text \<open>The backend, the forwarded token and the provider of a key.\<close>

definition resolveKeyDispatch :: "key_db \<Rightarrow> int option \<Rightarrow> string option \<times> string option \<times> string option" where
  "resolveKeyDispatch db keyId =
     (case truthy_int keyId of
        None \<Rightarrow> (None, None, None)
      | Some i \<Rightarrow>
          (case key_by_id db i of
             None \<Rightarrow> (None, None, None)
           | Some k \<Rightarrow> if k_provider k = ''github_copilot'' then (Some ''copilot'', k_value k, Some (k_provider k))
                       else (None, None, Some (k_provider k))))"

definition resolveKeyConfigDir :: "key_db \<Rightarrow> int option \<Rightarrow> string option" where
  "resolveKeyConfigDir db keyId =
     (case truthy_int keyId of
        None \<Rightarrow> None
      | Some i \<Rightarrow> (case key_by_id db i of None \<Rightarrow> None | Some k \<Rightarrow> k_configDir k))"

subsection \<open>Per-turn settings\<close>

definition VALID_EFFORT_LEVELS :: "string list" where
  "VALID_EFFORT_LEVELS = [''low'', ''medium'', ''high'', ''xhigh'', ''max'']"

text \<open>\<open>None\<close> is \<open>undefined\<close>, \<open>Some None\<close> is \<open>null\<close>.\<close>

definition parseEffortBody :: "jobj \<Rightarrow> chat_error + string option option" where
  "parseEffortBody body =
     (case map_of body ''effort'' of
        None \<Rightarrow> Inr None
      | Some JNull \<Rightarrow> Inr (Some None)
      | Some (JStr s) \<Rightarrow> if s \<in> set VALID_EFFORT_LEVELS then Inr (Some (Some s)) else Inl (Invalid ''effort'')
      | Some _ \<Rightarrow> Inl (Invalid ''effort''))"

definition parseThinkingEnabledBody :: "jobj \<Rightarrow> chat_error + bool option" where
  "parseThinkingEnabledBody body =
     (case (case map_of body ''thinking_enabled'' of
              Some v \<Rightarrow> Some v
            | None \<Rightarrow> map_of body ''thinkingEnabled'') of
        None \<Rightarrow> Inr None
      | Some (JBool b) \<Rightarrow> Inr (Some b)
      | Some _ \<Rightarrow> Inl (Invalid ''thinking_enabled''))"

record chat_selection =
  sel_key :: "int option"
  sel_model :: "string option"
  sel_thinking :: "bool option"
  sel_effort :: "string option option"

definition differs :: "'a option \<Rightarrow> 'a \<Rightarrow> bool" where
  "differs new old \<longleftrightarrow> (case new of None \<Rightarrow> False | Some v \<Rightarrow> v \<noteq> old)"

text \<open>\<open>chat\<close> is the row as it was read; the columns that differ from it are set in the row as it is now.\<close>

definition persistChatSelection :: "key_db \<Rightarrow> chat_row \<Rightarrow> chat_selection \<Rightarrow> chat_row \<Rightarrow> chat_row" where
  "persistChatSelection db chat sel row =
     row\<lparr>c_key := (if differs (map_option Some (sel_key sel)) (c_key chat) \<and> key_by_id db (the (sel_key sel)) \<noteq> None
                   then sel_key sel else c_key row),
         c_model := (if truthy_str (sel_model sel) \<noteq> None \<and> sel_model sel \<noteq> c_model chat
                     then sel_model sel else c_model row),
         c_thinking := (if differs (sel_thinking sel) (c_thinking chat) then the (sel_thinking sel) else c_thinking row),
         c_effort := (if differs (sel_effort sel) (c_effort chat) then the (sel_effort sel) else c_effort row)\<rparr>"

subsection \<open>The default key\<close>

lemma key_by_id_active:
  assumes "distinct (map k_id (kd_keys db))" "k \<in> set (active_by_priority db)"
  shows "key_active db (k_id k)"
proof -
  have k: "k \<in> set (kd_keys db)" "k_active k = Some True" using assms(2) by (simp_all add: active_by_priority_def)
  then obtain k' where "find (\<lambda>x. k_id x = k_id k) (kd_keys db) = Some k'"
    by (metis (mono_tags, lifting) find_None_iff not_None_eq)
  then have "key_by_id db (k_id k) = Some k'" "k' \<in> set (kd_keys db)" "k_id k' = k_id k"
    by (auto simp: key_by_id_def find_Some_iff)
  moreover from this have "k' = k" using k(1) assms(1) by (auto simp: distinct_map dest: inj_onD)
  ultimately show ?thesis using k(2) by (simp add: key_active_def)
qed

lemma find_sorted_least:
  assumes "find P xs = Some x" "sorted (map f xs)" "y \<in> set xs" "P y"
  shows "f x \<le> f y"
proof -
  obtain i where i: "i < length xs" "x = xs ! i" "\<And>j. j < i \<Longrightarrow> \<not> P (xs ! j)" using assms(1) by (auto simp: find_Some_iff)
  obtain j where j: "j < length xs" "y = xs ! j" using assms(3) by (auto simp: in_set_conv_nth)
  then have "i \<le> j" using i(3) assms(4) by (meson leI)
  then show ?thesis using sorted_nth_mono [OF assms(2), of i j] i j by simp
qed

lemma allowed_find:
  assumes "find (\<lambda>k. k_id k \<in> set allowed) (active_by_priority db) = Some k"
  shows "k \<in> set (active_by_priority db)" "k_id k \<in> set allowed"
    "\<And>k'. k' \<in> set (active_by_priority db) \<Longrightarrow> k_id k' \<in> set allowed \<Longrightarrow> k_priority k \<le> k_priority k'"
proof -
  show "k \<in> set (active_by_priority db)" "k_id k \<in> set allowed"
    using assms by (auto simp: find_Some_iff)
  show "k_priority k \<le> k_priority k'" if "k' \<in> set (active_by_priority db)" "k_id k' \<in> set allowed" for k'
    by (rule find_sorted_least [OF assms _ that(1)]) (simp_all add: active_by_priority_def that(2))
qed

text \<open>C14: the key that a chat falls back to is never refused by the whitelist check.  It is the
  user's default key when that one exists, is not deactivated (\<open>is_active\<close> is not 0) and is permitted; and else,
  under a whitelist, the permitted key with the smallest priority number among the keys whose \<open>is_active\<close> is 1.  There
  is no such key only if there is no whitelist and the default is missing or deactivated, or a whitelist that names no
  key whose \<open>is_active\<close> is 1 and not a usable default.  The ids of the keys are distinct.\<close>

theorem default_key_is_best:
  fixes jp db scope rc source
  assumes "distinct (map k_id (kd_keys db))"
  defines "allowed \<equiv> resolveAllowedKeyIds jp db scope" and "key \<equiv> resolveDefaultKeyForChat jp db rc scope"
  shows "assertKeyAllowedForChat jp db scope key source = Inr ()
    \<and> (case key of
         Some i \<Rightarrow> key_active db i \<and> (allowed = [] \<or> i \<in> set allowed)
           \<and> (rc = Some i \<or> allowed \<noteq> []
               \<and> (\<exists>k \<in> set (active_by_priority db). k_id k = i
                    \<and> (\<forall>k' \<in> set (active_by_priority db). k_id k' \<in> set allowed \<longrightarrow> k_priority k \<le> k_priority k')))
       | None \<Rightarrow> (case rc of Some r \<Rightarrow> \<not> key_active db r \<or> allowed \<noteq> [] \<and> r \<notin> set allowed | None \<Rightarrow> True)
           \<and> (allowed = [] \<or> (\<forall>k \<in> set (active_by_priority db). k_id k \<notin> set allowed)))"
proof -
  let ?first = "find (\<lambda>k. k_id k \<in> set allowed) (active_by_priority db)"
  have key: "key = (if allowed = [] then (case rc of None \<Rightarrow> None | Some i \<Rightarrow> if key_active db i then Some i else None)
      else case rc of Some i \<Rightarrow> if i \<in> set allowed \<and> key_active db i then Some i else map_option k_id ?first
           | None \<Rightarrow> map_option k_id ?first)"
    unfolding key_def allowed_def resolveDefaultKeyForChat_def Let_def ..
  have first: "key_active db (k_id k) \<and> k_id k \<in> set allowed \<and> k \<in> set (active_by_priority db)
      \<and> (\<forall>k' \<in> set (active_by_priority db). k_id k' \<in> set allowed \<longrightarrow> k_priority k \<le> k_priority k')"
    if "?first = Some k" for k
    using allowed_find [OF that] key_by_id_active [OF assms(1)] by blast
  have none: "\<forall>k \<in> set (active_by_priority db). k_id k \<notin> set allowed" if "?first = None"
    using that by (auto simp: find_None_iff)
  have "key = Some i \<Longrightarrow> allowed = [] \<or> i \<in> set allowed" for i
    using first by (auto simp: key split: option.splits if_splits)
  then have "assertKeyAllowedForChat jp db scope key source = Inr ()"
    by (auto simp: assertKeyAllowedForChat_def truthy_int_def Let_def allowed_def [symmetric] split: option.splits)
  moreover have "case key of
         Some i \<Rightarrow> key_active db i \<and> (allowed = [] \<or> i \<in> set allowed)
           \<and> (rc = Some i \<or> allowed \<noteq> []
               \<and> (\<exists>k \<in> set (active_by_priority db). k_id k = i
                    \<and> (\<forall>k' \<in> set (active_by_priority db). k_id k' \<in> set allowed \<longrightarrow> k_priority k \<le> k_priority k')))
       | None \<Rightarrow> (case rc of Some r \<Rightarrow> \<not> key_active db r \<or> allowed \<noteq> [] \<and> r \<notin> set allowed | None \<Rightarrow> True)
           \<and> (allowed = [] \<or> (\<forall>k \<in> set (active_by_priority db). k_id k \<notin> set allowed))"
  proof (cases ?first)
    case None
    then show ?thesis using none by (auto simp: key split: option.split)
  next
    case (Some k)
    then show ?thesis using first [OF Some] by (auto simp: key split: option.split)
  qed
  ultimately show ?thesis by blast
qed

theorem default_key_is_best_witness:
  "resolveDefaultKeyForChat demo_parse demo_keys (Some 2) demo_key_task = Some 1
   \<and> assertKeyAllowedForChat demo_parse demo_keys demo_key_task (Some 1) FromDefault = Inr ()
   \<and> assertKeyAllowedForChat demo_parse demo_keys demo_key_task (Some 2) FromDefault \<noteq> Inr ()"
proof -
  have "distinct (map k_id (kd_keys demo_keys))" by code_simp
  note this = default_key_is_best [OF this, of demo_parse demo_key_task "Some 2" FromDefault]
  moreover have k: "resolveDefaultKeyForChat demo_parse demo_keys (Some 2) demo_key_task = Some 1" by code_simp
  moreover have "assertKeyAllowedForChat demo_parse demo_keys demo_key_task (Some 2) FromDefault \<noteq> Inr ()" by code_simp
  ultimately show ?thesis unfolding k by blast
qed

text \<open>Under a whitelist without an active key the chat has no key, and the check lets it pass.\<close>

lemma empty_choice_is_not_refused:
  "resolveDefaultKeyForChat jp db rc scope = None \<Longrightarrow> assertKeyAllowedForChat jp db scope None source = Inr ()"
  by (simp add: assertKeyAllowedForChat_def truthy_int_def)

end
