(* ===== verification/ChatStore.thy ===== *)
theory ChatStore
  imports ChatKeys EditJournal
begin

text \<open>
  The tables behind a chat and the functions that read and write them: attachments
  (\<open>src/src/services/attachments.ts\<close>), the history that goes to the agent (\<open>loadPriorMessages\<close> in
  \<open>src/src/routes/chats/helpers.ts\<close>), the snapshots of to-do lists (\<open>src/src/services/todo-store.ts\<close>) and the edits
  of a chat's agent.

  A table is the list of its rows in the order of their ids.  Times are whole seconds, as \<open>datetime('now')\<close>
  gives them; rows of the same second are read in the order of their ids.  The content of a message is its
  text, or the call or result of a tool that the row stores as JSON; the one-line summaries beside
  them are left out.  An attachment of a message is its id: reading the file is left out.
\<close>

datatype msg_body =
  MText string
  | MCall string jval "string option" "string option"
  | MResult string string

record msg_row =
  m_id :: int
  m_chat :: int
  m_role :: string
  m_body :: msg_body
  m_at :: int

record att_row =
  at_id :: int
  at_chat :: int
  at_message :: "int option"
  at_size :: int

subsection \<open>Attachments\<close>

definition MAX_ATTACHMENTS_PER_MESSAGE :: nat where "MAX_ATTACHMENTS_PER_MESSAGE = 10"

definition MAX_MESSAGE_ATTACHMENTS_TOTAL_BYTES :: int where
  "MAX_MESSAGE_ATTACHMENTS_TOTAL_BYTES = 30 * 1024 * 1024"

definition parseAttachmentIds :: "jobj \<Rightarrow> chat_error + int list" where
  "parseAttachmentIds body =
     (case map_of body ''attachment_ids'' of
        None \<Rightarrow> Inr []
      | Some JNull \<Rightarrow> Inr []
      | Some (JArr vs) \<Rightarrow>
          (case all_numbers vs of
             Some ns \<Rightarrow> if list_all (\<lambda>n. n > 0) ns \<and> length ns \<le> MAX_ATTACHMENTS_PER_MESSAGE then Inr ns
                        else Inl (Invalid ''attachment_ids'')
           | None \<Rightarrow> Inl (Invalid ''attachment_ids''))
      | Some _ \<Rightarrow> Inl (Invalid ''attachment_ids''))"

text \<open>\<open>new Set\<close> keeps the first of equal ids.\<close>

definition unique_ids :: "int list \<Rightarrow> int list" where
  "unique_ids ids = rev (remdups (rev ids))"

definition att_rows :: "int list \<Rightarrow> att_row list \<Rightarrow> att_row list" where
  "att_rows ids atts = filter (\<lambda>r. at_id r \<in> set ids) atts"

definition in_order :: "int list \<Rightarrow> att_row list \<Rightarrow> att_row list" where
  "in_order ids rows = List.map_filter (\<lambda>i. find (\<lambda>r. at_id r = i) rows) ids"

definition validateAttachmentsForMessage :: "int \<Rightarrow> int list \<Rightarrow> att_row list \<Rightarrow> chat_error + att_row list" where
  "validateAttachmentsForMessage chatId attachmentIds atts =
     (let uniqueIds = unique_ids attachmentIds; rows = att_rows uniqueIds atts in
      if attachmentIds = [] then Inr []
      else if length attachmentIds > MAX_ATTACHMENTS_PER_MESSAGE then Inl (Invalid ''too_large'')
      else if length rows \<noteq> length uniqueIds then Inl (Invalid ''unsupported'')
      else if list_ex (\<lambda>r. at_chat r \<noteq> chatId \<or> at_message r \<noteq> None) rows then Inl (Invalid ''unsupported'')
      else if sum_list (map at_size rows) > MAX_MESSAGE_ATTACHMENTS_TOTAL_BYTES then Inl (Invalid ''too_large'')
      else Inr (in_order uniqueIds rows))"

definition linkAttachmentsToMessage :: "int \<Rightarrow> int list \<Rightarrow> att_row list \<Rightarrow> att_row list \<times> att_row list" where
  "linkAttachmentsToMessage messageId attachmentIds atts =
     (if attachmentIds = [] then ([], atts)
      else let uniqueIds = unique_ids attachmentIds;
               atts' = map (\<lambda>r. if at_id r \<in> set uniqueIds then r\<lparr>at_message := Some messageId\<rparr> else r) atts
           in (in_order uniqueIds (att_rows uniqueIds atts'), atts'))"

definition loadAttachmentsForMessages :: "int list \<Rightarrow> att_row list \<Rightarrow> int \<Rightarrow> att_row list" where
  "loadAttachmentsForMessages messageIds atts m =
     (if m \<in> set messageIds then filter (\<lambda>r. at_message r = Some m) atts else [])"

subsection \<open>History\<close>

definition MAX_CHAT_MESSAGES :: nat where "MAX_CHAT_MESSAGES = 50"

text \<open>Role, content and the ids of the attachments.\<close>

type_synonym prior_message = "string \<times> msg_body \<times> int list"

definition chat_history :: "int \<Rightarrow> msg_row list \<Rightarrow> msg_row list" where
  "chat_history chatId msgs = sort_key m_at (filter (\<lambda>m. m_chat m = chatId) msgs)"

definition history_window :: "msg_row list \<Rightarrow> msg_row list" where
  "history_window history =
     (if length history > MAX_CHAT_MESSAGES then
        (let trimmed = drop (length history - MAX_CHAT_MESSAGES) history
         in case trimmed of [] \<Rightarrow> [] | m # ms \<Rightarrow> if m_role m \<noteq> ''user'' then ms else trimmed)
      else history)"

definition loadPriorMessages :: "int \<Rightarrow> att_row list \<Rightarrow> msg_row list \<Rightarrow> prior_message list" where
  "loadPriorMessages chatId atts msgs =
     (let trimmed = history_window (chat_history chatId msgs);
          userIds = map m_id (filter (\<lambda>m. m_role m = ''user'') trimmed)
      in map (\<lambda>m. (m_role m, m_body m,
                   if m_role m = ''user'' then map at_id (loadAttachmentsForMessages userIds atts (m_id m)) else []))
           trimmed)"

subsection \<open>To-do lists\<close>

record todo =
  td_content :: string
  td_status :: string
  td_activeForm :: "string option"
  td_priority :: "string option"

record todo_counts =
  tc_total :: nat
  tc_completed :: nat
  tc_inProgress :: nat
  tc_pending :: nat

record todo_row =
  tr_chatId :: int
  tr_agent :: "string option"
  tr_todos :: "todo list"
  tr_createdAt :: int

definition MAX_TODOS :: nat where "MAX_TODOS = 100"

definition computeCounts :: "todo list \<Rightarrow> todo_counts" where
  "computeCounts todos =
     \<lparr>tc_total = length todos,
      tc_completed = length (filter (\<lambda>t. td_status t = ''completed'') todos),
      tc_inProgress = length (filter (\<lambda>t. td_status t = ''in_progress'') todos),
      tc_pending = length (filter (\<lambda>t. td_status t \<noteq> ''completed'' \<and> td_status t \<noteq> ''in_progress'') todos)\<rparr>"

definition parseRawInput :: "json_parse \<Rightarrow> jval \<Rightarrow> jobj option" where
  "parseRawInput jp raw =
     (case raw of
        JObj o' \<Rightarrow> Some o'
      | JArr _ \<Rightarrow> Some []
      | JStr s \<Rightarrow> (case jp s of Some (JObj o') \<Rightarrow> Some o' | Some (JArr _) \<Rightarrow> Some [] | _ \<Rightarrow> None)
      | _ \<Rightarrow> None)"

definition todo_of :: "jval \<Rightarrow> todo option" where
  "todo_of entry =
     (case entry of
        JObj e \<Rightarrow> (case (str_field e ''content'', str_field e ''status'') of
                     (Some content, Some status) \<Rightarrow> Some \<lparr>td_content = content, td_status = status,
                        td_activeForm = str_field e ''activeForm'', td_priority = str_field e ''priority''\<rparr>
                   | _ \<Rightarrow> None)
      | _ \<Rightarrow> None)"

fun all_todos :: "jval list \<Rightarrow> todo list option" where
  "all_todos [] = Some []"
| "all_todos (v # vs) = (case todo_of v of None \<Rightarrow> None | Some t \<Rightarrow> map_option (Cons t) (all_todos vs))"

definition normalize :: "json_parse \<Rightarrow> jval \<Rightarrow> todo list option" where
  "normalize jp rawInput =
     (case parseRawInput jp rawInput of
        None \<Rightarrow> None
      | Some parsed \<Rightarrow> (case map_of parsed ''todos'' of Some (JArr raw) \<Rightarrow> all_todos raw | _ \<Rightarrow> None))"

text \<open>The latest row of an agent in a chat: the last of the greatest time.\<close>

definition latest_todos :: "int \<Rightarrow> string option \<Rightarrow> todo_row list \<Rightarrow> todo_row option" where
  "latest_todos chatId agent rows =
     (case rev (sort_key tr_createdAt (filter (\<lambda>r. tr_chatId r = chatId \<and> tr_agent r = agent) rows)) of
        [] \<Rightarrow> None | r # _ \<Rightarrow> Some r)"

text \<open>The list is compared as serialized text in the code; the text is a function of the list that is
  one-to-one, so the lists are compared here.\<close>

definition recordTodoWrite :: "json_parse \<Rightarrow> int \<Rightarrow> int \<Rightarrow> string option \<Rightarrow> jval \<Rightarrow> todo_row list \<Rightarrow> todo_row list" where
  "recordTodoWrite jp now chatId agent input rows =
     (case normalize jp input of
        None \<Rightarrow> rows
      | Some todos \<Rightarrow>
          if length todos > MAX_TODOS then rows
          else if map_option tr_todos (latest_todos chatId agent rows) = Some todos then rows
          else rows @ [\<lparr>tr_chatId = chatId, tr_agent = agent, tr_todos = todos, tr_createdAt = now\<rparr>])"

end
