(* ===== verification/ChatRun.thy ===== *)
theory ChatRun
  imports ChatStore TaskRun BoundedString Permission
begin

text \<open>
  The turns of a chat: \<open>src/src/services/chat-executor.ts\<close>, \<open>src/src/services/chat-rate-limit.ts\<close>, the two message
  handlers of \<open>src/src/routes/chats/messages.ts\<close>, the approval, cancel and question routes beside them, and the
  timers that \<open>src/src/services/agents/rate-limit-scheduler.ts\<close> keeps for chats.

  A turn is an activation of one of the three functions that run a session: the streaming handler, the plain
  one, or the wake-up of a parked chat; \<open>tn_phase\<close> says at which await it stands.  \<open>chat_step\<close> runs one stretch
  of code up to the next await; any order of events is a possible schedule.  The record \<open>chat_world\<close> holds
  the tables, the two maps of the executor (a registered session is named by its turn), the timers and the turns.
  Broadcasts, the frames on the wire (theory \<open>ChatPump\<close>), permission requests (theory \<open>AgentSession\<close>), the
  working directory and the system prompt are left out.  A value of the wrong type that the code would hand on to
  the database or to the provider is an error here.
\<close>

subsection \<open>State\<close>

datatype question_state = QOpen | QAnswered string | QCancelled

text \<open>A question of a task has no chat.\<close>

record chat_question =
  cq_chat :: "int option"
  cq_state :: question_state

record chat_usage =
  cu_message :: "int option"
  cu_project :: "int option"
  cu_key :: "int option"
  cu_provider :: string
  cu_model :: string
  cu_metrics :: metrics
  cu_cost :: rat

text \<open>What a run may throw: its message, and the time that \<open>classifyLimit\<close> gives for the end of a limit.\<close>

record turn_error =
  te_message :: string
  te_limit :: "int option"

definition limit_of :: "turn_error option \<Rightarrow> int option" where
  "limit_of err = (case err of Some e \<Rightarrow> te_limit e | None \<Rightarrow> None)"

datatype turn_kind = Streaming | PlainTurn | Resumed

datatype turn_phase = Arrived | Waking | Opening | Live | RunOver "turn_error option" | Drained bool
  | Saved bool | Titled bool | Closing

record turn =
  tn_chat :: int
  tn_kind :: turn_kind
  tn_phase :: turn_phase
  tn_row :: chat_row
  tn_key :: "int option"
  tn_provider :: "string option"
  tn_model :: string
  tn_prompt :: msg_body
  tn_prior :: "prior_message list"
  tn_full :: accumulator
  tn_text :: accumulator
  tn_think :: accumulator
  tn_sid :: "string option"
  tn_metrics :: "metrics option"
  tn_lastRow :: "int option"
  tn_events :: nat
  tn_error :: "string option"

record chat_world =
  w_chats :: "(int \<times> chat_row) list"
  w_msgs :: "msg_row list"
  w_nextMsg :: int
  w_atts :: "att_row list"
  w_todos :: "todo_row list"
  w_usage :: "chat_usage list"
  w_questions :: "(string \<times> chat_question) list"
  w_sessions :: "(int \<times> nat) list"
  w_pending :: "int list"
  w_timers :: "(int \<times> int) list"
  w_inflight :: "int list"
  w_turns :: "(nat \<times> turn) list"
  w_nextTurn :: nat
  w_aborted :: "nat list"

text \<open>What is configured: the keys, the default key, the default model and the model of the chat's project.\<close>

record chat_env =
  en_parse :: json_parse
  en_json :: "jval \<Rightarrow> string"
  en_keys :: key_db
  en_rc :: "int option"
  en_model :: string
  en_projectModel :: "int option \<Rightarrow> string option"

definition chat_of :: "chat_world \<Rightarrow> int \<Rightarrow> chat_row option" where
  "chat_of w c = map_of (w_chats w) c"

definition set_chat :: "int \<Rightarrow> (chat_row \<Rightarrow> chat_row) \<Rightarrow> chat_world \<Rightarrow> chat_world" where
  "set_chat c f w = w\<lparr>w_chats := map (\<lambda>(i, r). if i = c then (i, f r) else (i, r)) (w_chats w)\<rparr>"

definition insert_msg :: "int \<Rightarrow> int \<Rightarrow> string \<Rightarrow> msg_body \<Rightarrow> chat_world \<Rightarrow> chat_world" where
  "insert_msg now c role body w =
     w\<lparr>w_msgs := w_msgs w @ [\<lparr>m_id = w_nextMsg w, m_chat = c, m_role = role, m_body = body, m_at = now\<rparr>],
       w_nextMsg := w_nextMsg w + 1\<rparr>"

definition put_turn :: "nat \<Rightarrow> turn \<Rightarrow> chat_world \<Rightarrow> chat_world" where
  "put_turn a t w = w\<lparr>w_turns := AList.update a t (w_turns w)\<rparr>"

definition drop_turn :: "nat \<Rightarrow> chat_world \<Rightarrow> chat_world" where
  "drop_turn a w = w\<lparr>w_turns := AList.delete a (w_turns w)\<rparr>"

subsection \<open>The executor\<close>

definition isRunning :: "int \<Rightarrow> chat_world \<Rightarrow> bool" where
  "isRunning c w \<longleftrightarrow> jm_has (w_sessions w) c \<or> c \<in> set (w_pending w)"

definition claim :: "int \<Rightarrow> chat_world \<Rightarrow> chat_world" where
  "claim c w = (if isRunning c w then w else w\<lparr>w_pending := w_pending w @ [c]\<rparr>)"

definition release_claim :: "int \<Rightarrow> chat_world \<Rightarrow> chat_world" where
  "release_claim c w = w\<lparr>w_pending := removeAll c (w_pending w)\<rparr>"

definition register :: "int \<Rightarrow> nat \<Rightarrow> chat_world \<Rightarrow> chat_world" where
  "register c a w = w\<lparr>w_pending := removeAll c (w_pending w), w_sessions := AList.update c a (w_sessions w)\<rparr>"

definition unregister :: "int \<Rightarrow> chat_world \<Rightarrow> chat_world" where
  "unregister c w = w\<lparr>w_sessions := AList.delete c (w_sessions w), w_pending := removeAll c (w_pending w)\<rparr>"

definition cancelPendingQuestions :: "int \<Rightarrow> chat_world \<Rightarrow> chat_world" where
  "cancelPendingQuestions c w =
     w\<lparr>w_questions := map (\<lambda>(i, q). if cq_chat q = Some c \<and> cq_state q = QOpen then (i, q\<lparr>cq_state := QCancelled\<rparr>)
                                     else (i, q)) (w_questions w)\<rparr>"

definition chat_timer :: "int \<Rightarrow> int \<Rightarrow> int \<Rightarrow> chat_world \<Rightarrow> chat_world" where
  "chat_timer nowMs c resumeAtMs w =
     w\<lparr>w_timers := AList.delete c (w_timers w) @ [(c, fire_time nowMs resumeAtMs)]\<rparr>"

definition cancel_chat_timer :: "int \<Rightarrow> chat_world \<Rightarrow> chat_world" where
  "cancel_chat_timer c w = w\<lparr>w_timers := AList.delete c (w_timers w)\<rparr>"

definition cancel_chat :: "int \<Rightarrow> chat_world \<Rightarrow> bool \<times> chat_world" where
  "cancel_chat c w =
     (let w1 = cancelPendingQuestions c (cancel_chat_timer c w) in
      case map_of (w_sessions w1) c of
        None \<Rightarrow> (False, w1)
      | Some a \<Rightarrow> (True, w1\<lparr>w_aborted := List.insert a (w_aborted w1)\<rparr>))"

definition cancel_all_chats :: "chat_world \<Rightarrow> chat_world" where
  "cancel_all_chats w = w\<lparr>w_aborted := fold List.insert (map snd (w_sessions w)) (w_aborted w), w_timers := []\<rparr>"

text \<open>\<open>accepted\<close> is what the session answers to \<open>resolveQuestion\<close>.\<close>

definition answer_chat_question :: "bool \<Rightarrow> int \<Rightarrow> string \<Rightarrow> string \<Rightarrow> chat_world \<Rightarrow> bool \<times> chat_world" where
  "answer_chat_question accepted c requestId ans w =
     (case map_of (w_questions w) requestId of
        None \<Rightarrow> (False, w)
      | Some q \<Rightarrow>
          if cq_chat q \<noteq> Some c \<or> cq_state q \<noteq> QOpen then (False, w)
          else if map_of (w_sessions w) c = None then (False, w)
          else if \<not> accepted then (False, w)
          else (True, w\<lparr>w_questions := AList.update requestId (q\<lparr>cq_state := QAnswered ans\<rparr>) (w_questions w)\<rparr>))"

definition persistChatQuestion :: "int \<Rightarrow> string \<Rightarrow> chat_world \<Rightarrow> chat_world" where
  "persistChatQuestion c requestId w =
     (if jm_has (w_questions w) requestId then w
      else w\<lparr>w_questions := w_questions w @ [(requestId, \<lparr>cq_chat = Some c, cq_state = QOpen\<rparr>)]\<rparr>)"

definition isWaitingForInput :: "int \<Rightarrow> chat_world \<Rightarrow> bool" where
  "isWaitingForInput c w \<longleftrightarrow> list_ex (\<lambda>(_, q). cq_chat q = Some c \<and> cq_state q = QOpen) (w_questions w)"

definition markPendingApprovalIfRequired :: "int \<Rightarrow> chat_world \<Rightarrow> chat_world" where
  "markPendingApprovalIfRequired c w =
     (case chat_of w c of
        None \<Rightarrow> w
      | Some r \<Rightarrow> if \<not> c_requiresApproval r \<or> c_approval r = Some ''pending'' then w
                  else set_chat c (\<lambda>r. r\<lparr>c_approval := Some ''pending''\<rparr>) w)"

definition decide_chat :: "string \<Rightarrow> string option \<Rightarrow> int \<Rightarrow> chat_world \<Rightarrow> chat_error + chat_world" where
  "decide_chat verdict note c w =
     (case chat_of w c of
        None \<Rightarrow> Inl (Invalid ''chat'')
      | Some r \<Rightarrow> if c_approval r \<noteq> Some ''pending'' then Inl (Invalid ''approval_status'')
                  else Inr (set_chat c (\<lambda>r. r\<lparr>c_approval := Some verdict, c_approvalNote := note\<rparr>) w))"

definition approve_chat :: "string option \<Rightarrow> int \<Rightarrow> chat_world \<Rightarrow> chat_error + chat_world" where
  "approve_chat = decide_chat ''approved''"

definition reject_chat :: "string option \<Rightarrow> int \<Rightarrow> chat_world \<Rightarrow> chat_error + chat_world" where
  "reject_chat = decide_chat ''rejected''"

text \<open>The listeners that \<open>register\<close> puts on a session, for the calls and the results of tools.\<close>

definition chat_tool_call ::
  "chat_env \<Rightarrow> int \<Rightarrow> int \<Rightarrow> string \<Rightarrow> jval \<Rightarrow> string option \<Rightarrow> string option \<Rightarrow> chat_world \<Rightarrow> chat_world" where
  "chat_tool_call en now c name input parent toolUse w =
     (let w1 = insert_msg now c ''tool'' (MCall name input parent toolUse) w;
          w2 = (if name = ''TodoWrite''
                then w1\<lparr>w_todos := recordTodoWrite (en_parse en) now c parent input (w_todos w1)\<rparr> else w1);
          newEntries = buildEntriesFromToolCall name input
      in if newEntries = [] then w2
         else set_chat c (\<lambda>r. r\<lparr>c_edits := Some (serializeJournal (en_json en)
                (parseJournal (en_parse en) (c_edits r) @ newEntries))\<rparr>) w2)"

definition chat_tool_result :: "int \<Rightarrow> int \<Rightarrow> string \<Rightarrow> string \<Rightarrow> chat_world \<Rightarrow> chat_world" where
  "chat_tool_result now c name out w = insert_msg now c ''tool'' (MResult name out) w"

subsection \<open>Rate limits\<close>

definition parkChatForRateLimit :: "int \<Rightarrow> int \<Rightarrow> int \<Rightarrow> chat_world \<Rightarrow> chat_world" where
  "parkChatForRateLimit nowMs c resumeAtMs w =
     chat_timer nowMs c resumeAtMs
       (set_chat c (\<lambda>r. r\<lparr>c_status := ''rate_limited'', c_resumeAt := Some resumeAtMs\<rparr>) w)"

subsection \<open>What the session sends\<close>

datatype chat_session_event =
  SText string | SThinking string | STool string jval "string option" "string option" | SToolDone string string
  | STurnEnd | SUsage metrics | SSession string | SQuestion string | SError string

definition flush_thinking :: "int \<Rightarrow> turn \<times> chat_world \<Rightarrow> turn \<times> chat_world" where
  "flush_thinking now tw =
     (case tw of (t, w) \<Rightarrow>
        if ba_totalLen (tn_think t) > 0
        then (t\<lparr>tn_think := clear_accumulator (tn_think t)\<rparr>,
              insert_msg now (tn_chat t) ''thinking'' (MText (fst (accumulator_toString (tn_think t)))) w)
        else (t, w))"

definition flush_text :: "int \<Rightarrow> turn \<times> chat_world \<Rightarrow> turn \<times> chat_world" where
  "flush_text now tw =
     (case tw of (t, w) \<Rightarrow>
        if ba_totalLen (tn_text t) > 0
        then (t\<lparr>tn_text := clear_accumulator (tn_text t), tn_lastRow := Some (w_nextMsg w)\<rparr>,
              insert_msg now (tn_chat t) ''assistant'' (MText (fst (accumulator_toString (tn_text t)))) w)
        else (t, w))"

definition flushPending :: "int \<Rightarrow> turn \<times> chat_world \<Rightarrow> turn \<times> chat_world" where
  "flushPending now tw = flush_text now (flush_thinking now tw)"

definition store_session :: "turn \<Rightarrow> string \<Rightarrow> chat_world \<Rightarrow> chat_world" where
  "store_session t sid w =
     (if sid \<noteq> [] \<and> Some sid \<noteq> c_session (tn_row t)
      then set_chat (tn_chat t) (\<lambda>r. r\<lparr>c_session := Some sid\<rparr>) w else w)"

text \<open>The listeners of the streaming handler come before those of \<open>register\<close>.\<close>

fun stream_event :: "chat_env \<Rightarrow> int \<Rightarrow> chat_session_event \<Rightarrow> turn \<times> chat_world \<Rightarrow> turn \<times> chat_world" where
  "stream_event en now (SText s) (t, w) =
     (t\<lparr>tn_full := append_chunk s (tn_full t), tn_text := append_chunk s (tn_text t), tn_events := tn_events t + 1\<rparr>, w)"
| "stream_event en now (SThinking s) (t, w) = (t\<lparr>tn_think := append_chunk s (tn_think t), tn_events := tn_events t + 1\<rparr>, w)"
| "stream_event en now (STool name input parent toolUse) (t, w) =
     (case flushPending now (t, w) of (t1, w1) \<Rightarrow>
        (t1\<lparr>tn_events := tn_events t1 + 1\<rparr>, chat_tool_call en now (tn_chat t) name input parent toolUse w1))"
| "stream_event en now (SToolDone name out) (t, w) =
     (t\<lparr>tn_events := tn_events t + 1\<rparr>, chat_tool_result now (tn_chat t) name out w)"
| "stream_event en now STurnEnd (t, w) = flushPending now (t, w)"
| "stream_event en now (SUsage m) (t, w) = (t\<lparr>tn_metrics := Some m\<rparr>, w)"
| "stream_event en now (SSession sid) (t, w) = (t\<lparr>tn_sid := Some sid\<rparr>, store_session t sid w)"
| "stream_event en now (SQuestion requestId) (t, w) = (t, persistChatQuestion (tn_chat t) requestId w)"
| "stream_event en now (SError msg) (t, w) = (t\<lparr>tn_error := Some msg\<rparr>, w)"

text \<open>The plain handler and the resumed turn keep the whole text until the run is over.\<close>

fun plain_event :: "chat_env \<Rightarrow> int \<Rightarrow> chat_session_event \<Rightarrow> turn \<times> chat_world \<Rightarrow> turn \<times> chat_world" where
  "plain_event en now (SText s) (t, w) = (t\<lparr>tn_full := append_chunk s (tn_full t)\<rparr>, w)"
| "plain_event en now (STool name input parent toolUse) (t, w) =
     (t, chat_tool_call en now (tn_chat t) name input parent toolUse w)"
| "plain_event en now (SToolDone name out) (t, w) = (t, chat_tool_result now (tn_chat t) name out w)"
| "plain_event en now (SUsage m) (t, w) = (t\<lparr>tn_metrics := Some m\<rparr>, w)"
| "plain_event en now (SSession sid) (t, w) = (t\<lparr>tn_sid := Some sid\<rparr>, store_session t sid w)"
| "plain_event en now (SQuestion requestId) (t, w) = (t, persistChatQuestion (tn_chat t) requestId w)"
| "plain_event en now _ (t, w) = (t, w)"

definition session_says :: "chat_env \<Rightarrow> int \<Rightarrow> chat_session_event \<Rightarrow> nat \<Rightarrow> turn \<Rightarrow> chat_world \<Rightarrow> chat_world" where
  "session_says en now ev a t w =
     (case (if tn_kind t = Streaming then stream_event en now ev (t, w) else plain_event en now ev (t, w)) of
        (t', w') \<Rightarrow> put_turn a t' w')"

subsection \<open>The end of a run\<close>

definition chat_metrics :: "turn \<Rightarrow> metrics" where
  "chat_metrics t = (case tn_metrics t of Some m \<Rightarrow> m
     | None \<Rightarrow> \<lparr>mt_input = 0, mt_output = 0, mt_cacheCreation = 0, mt_cacheRead = 0\<rparr>)"

definition record_usage :: "int option \<Rightarrow> turn \<Rightarrow> chat_world \<Rightarrow> chat_world" where
  "record_usage message t w =
     (let m = chat_metrics t in
      if mt_input m > 0 \<or> mt_output m > 0
      then w\<lparr>w_usage := w_usage w @ [\<lparr>cu_message = message, cu_project = c_project (tn_row t), cu_key = tn_key t,
             cu_provider = (case tn_provider t of Some p \<Rightarrow> p | None \<Rightarrow> ''claude_cli''), cu_model = tn_model t,
             cu_metrics = m,
             cu_cost = calculateCost (case tn_provider t of Some p \<Rightarrow> p | None \<Rightarrow> ''anthropic'') (tn_model t)
               (mt_input m) (mt_output m) (mt_cacheCreation m) (mt_cacheRead m)\<rparr>]\<rparr>
      else w)"

definition full_text :: "turn \<Rightarrow> string" where
  "full_text t = fst (accumulator_toString (tn_full t))"

definition turn_over :: "nat \<Rightarrow> turn \<Rightarrow> chat_world \<Rightarrow> chat_world" where
  "turn_over a t w = unregister (tn_chat t) (drop_turn a w)"

text \<open>The plain handler; the error of a run that no rate limit explains is dropped.\<close>

definition plain_ends :: "int \<Rightarrow> int \<Rightarrow> turn_error option \<Rightarrow> nat \<Rightarrow> turn \<Rightarrow> chat_world \<Rightarrow> chat_world" where
  "plain_ends nowMs now err a t w =
     turn_over a t
       (case limit_of err of
          Some resumeAt \<Rightarrow> parkChatForRateLimit nowMs (tn_chat t) resumeAt w
        | None \<Rightarrow>
            let w1 = (case tn_sid t of Some sid \<Rightarrow> store_session t sid w | None \<Rightarrow> w);
                assistantId = w_nextMsg w1;
                w2 = insert_msg now (tn_chat t) ''assistant'' (MText (full_text t)) w1
            in markPendingApprovalIfRequired (tn_chat t) (record_usage (Some assistantId) t w2))"

definition resumed_ends :: "int \<Rightarrow> int \<Rightarrow> turn_error option \<Rightarrow> nat \<Rightarrow> turn \<Rightarrow> chat_world \<Rightarrow> chat_world" where
  "resumed_ends nowMs now err a t w =
     (let w1 = (case err of
           None \<Rightarrow>
             let w1 = (if full_text t \<noteq> [] then insert_msg now (tn_chat t) ''assistant'' (MText (full_text t)) w else w)
             in set_chat (tn_chat t) (\<lambda>r. r\<lparr>c_status := ''idle''\<rparr>) (record_usage None t w1)
         | Some e \<Rightarrow>
             (case te_limit e of
                Some resumeAt \<Rightarrow> parkChatForRateLimit nowMs (tn_chat t) resumeAt w
              | None \<Rightarrow> set_chat (tn_chat t) (\<lambda>r. r\<lparr>c_status := ''idle''\<rparr>) w))
      in (turn_over a t w1)\<lparr>w_inflight := removeAll (tn_chat t) (w_inflight w1)\<rparr>)"

text \<open>The streaming handler has written the last frame of the run; then the frames of a limit are written.\<close>

definition stream_drained :: "int \<Rightarrow> int \<Rightarrow> turn_error option \<Rightarrow> nat \<Rightarrow> turn \<Rightarrow> chat_world \<Rightarrow> chat_world" where
  "stream_drained nowMs now err a t w =
     (case limit_of err of
        Some resumeAt \<Rightarrow>
          (case flushPending now (t, w) of (t1, w1) \<Rightarrow>
             put_turn a (t1\<lparr>tn_phase := Drained True, tn_error := None\<rparr>)
               (parkChatForRateLimit nowMs (tn_chat t) resumeAt w1))
      | None \<Rightarrow>
          let msg = (case err of Some e \<Rightarrow> Some (te_message e) | None \<Rightarrow> tn_error t)
          in put_turn a (t\<lparr>tn_phase := Drained False,
               tn_error := (if truthy_str msg = None \<and> tn_events t = 0 then Some ''empty response'' else msg)\<rparr>) w)"

text \<open>A title is the text, cut, with spaces for line breaks.\<close>

definition title_of :: "string \<Rightarrow> string" where
  "title_of text = map (\<lambda>c. if c = CHR 0x0A then CHR '' '' else c) (take 60 text)"

definition anchor_row :: "int \<Rightarrow> turn \<times> chat_world \<Rightarrow> int \<times> chat_world" where
  "anchor_row now tw =
     (case tw of (t, w) \<Rightarrow>
        (case tn_lastRow t of
           Some i \<Rightarrow> (i, w)
         | None \<Rightarrow> (w_nextMsg w, insert_msg now (tn_chat t) ''assistant'' (MText []) w)))"

text \<open>After the run the handler saves what is left, in stretches: up to the renaming of the provider's session, up to
  its renaming after the title of the chat, up to the last frame, and up to its end.\<close>

definition stream_saves :: "bool \<Rightarrow> nat \<Rightarrow> turn \<Rightarrow> chat_world \<Rightarrow> chat_world" where
  "stream_saves limited a t w =
     put_turn a (t\<lparr>tn_phase := Saved limited\<rparr>)
       (case tn_sid t of Some sid \<Rightarrow> store_session t sid w | None \<Rightarrow> w)"

definition stream_flushes :: "int \<Rightarrow> bool \<Rightarrow> nat \<Rightarrow> turn \<Rightarrow> chat_world \<Rightarrow> chat_world" where
  "stream_flushes now limited a t w =
     (let (t2, w2) = flushPending now (t, w);
          (assistantMsgId, w3) = anchor_row now (t2, w2);
          w4 = record_usage (Some assistantMsgId) t2 w3;
          w5 = (if truthy_str (c_title (tn_row t)) = None \<and> full_text t \<noteq> []
                then set_chat (tn_chat t) (\<lambda>r. r\<lparr>c_title := Some (title_of (full_text t))\<rparr>) w4 else w4)
      in put_turn a (t2\<lparr>tn_phase := Titled limited\<rparr>) w5)"

definition stream_closes :: "bool \<Rightarrow> nat \<Rightarrow> turn \<Rightarrow> chat_world \<Rightarrow> chat_world" where
  "stream_closes limited a t w =
     put_turn a (t\<lparr>tn_phase := Closing\<rparr>)
       (if truthy_str (tn_error t) = None \<and> \<not> limited then markPendingApprovalIfRequired (tn_chat t) w else w)"

definition stream_settles :: "int \<Rightarrow> nat \<Rightarrow> turn \<Rightarrow> chat_world \<Rightarrow> chat_world" where
  "stream_settles now a t w =
     (case tn_phase t of
        Drained limited \<Rightarrow> stream_saves limited a t w
      | Saved limited \<Rightarrow> stream_flushes now limited a t w
      | Titled limited \<Rightarrow> stream_closes limited a t w
      | Closing \<Rightarrow> turn_over a t w
      | _ \<Rightarrow> w)"

subsection \<open>Sending a message\<close>

definition new_turn :: "turn_kind \<Rightarrow> turn_phase \<Rightarrow> int \<Rightarrow> chat_row \<Rightarrow> turn" where
  "new_turn kind phase c row =
     \<lparr>tn_chat = c, tn_kind = kind, tn_phase = phase, tn_row = row, tn_key = None, tn_provider = None, tn_model = [],
      tn_prompt = MText [], tn_prior = [], tn_full = new_accumulator MAX_CHAT_STREAM_BYTES,
      tn_text = new_accumulator MAX_CHAT_STREAM_BYTES, tn_think = new_accumulator MAX_CHAT_STREAM_BYTES,
      tn_sid = None, tn_metrics = None, tn_lastRow = None, tn_events = 0, tn_error = None\<rparr>"

definition begin_turn :: "turn_kind \<Rightarrow> turn_phase \<Rightarrow> int \<Rightarrow> chat_row \<Rightarrow> chat_world \<Rightarrow> chat_world" where
  "begin_turn kind phase c row w =
     w\<lparr>w_turns := w_turns w @ [(w_nextTurn w, new_turn kind phase c row)], w_nextTurn := w_nextTurn w + 1\<rparr>"

text \<open>The handler reads the row, then waits for the body of the request.\<close>

definition arrive :: "turn_kind \<Rightarrow> int \<Rightarrow> chat_world \<Rightarrow> chat_world" where
  "arrive kind c w = (case chat_of w c of None \<Rightarrow> w | Some r \<Rightarrow> begin_turn kind Arrived c r w)"

definition MAX_MESSAGE_CONTENT_BYTES :: nat where "MAX_MESSAGE_CONTENT_BYTES = 1048576"

definition message_content :: "jobj \<Rightarrow> chat_error + string" where
  "message_content body =
     (case map_of body ''content'' of
        Some (JStr s) \<Rightarrow> if s = [] \<or> length s > MAX_MESSAGE_CONTENT_BYTES then Inl (Invalid ''content'') else Inr s
      | _ \<Rightarrow> Inl (Invalid ''content''))"

text \<open>\<open>body.k ?? d\<close> for a text.\<close>

definition text_or :: "string \<Rightarrow> string \<Rightarrow> jobj \<Rightarrow> chat_error + string" where
  "text_or d k body =
     (case map_of body k of None \<Rightarrow> Inr d | Some JNull \<Rightarrow> Inr d | Some (JStr s) \<Rightarrow> Inr s | Some _ \<Rightarrow> Inl (Invalid k))"

definition or_value :: "'a option \<Rightarrow> 'a \<Rightarrow> 'a" where
  "or_value v d = (case v of Some x \<Rightarrow> x | None \<Rightarrow> d)"

definition allowed_key :: "chat_env \<Rightarrow> jobj \<Rightarrow> chat_row \<Rightarrow> chat_error + int option" where
  "allowed_key en body row =
     (let keyId = resolveChatKeyId (en_parse en) (en_keys en) (en_rc en) (map_of body ''keyId'') row
      in bind_err (assertKeyAllowedForChat (en_parse en) (en_keys en) (chat_scope row) keyId
           (classifyKeyIdSource (map_of body ''keyId'') (c_key row))) (\<lambda>_. Inr keyId))"

definition attachments_for :: "int \<Rightarrow> jobj \<Rightarrow> att_row list \<Rightarrow> chat_error + int list" where
  "attachments_for c body atts =
     bind_err (parseAttachmentIds body) (\<lambda>ids. bind_err (validateAttachmentsForMessage c ids atts) (\<lambda>_. Inr ids))"

text \<open>The message is stored and its attachments are linked to it.\<close>

definition save_message :: "int \<Rightarrow> int \<Rightarrow> string \<Rightarrow> string \<Rightarrow> int list \<Rightarrow> chat_world \<Rightarrow> chat_world" where
  "save_message now c role content ids w =
     (insert_msg now c role (MText content) w)
       \<lparr>w_atts := snd (linkAttachmentsToMessage (w_nextMsg w) ids (w_atts w))\<rparr>"

definition prepared :: "chat_env \<Rightarrow> turn_phase \<Rightarrow> int option \<Rightarrow> string \<Rightarrow> msg_body \<Rightarrow> chat_world \<Rightarrow> turn \<Rightarrow> turn" where
  "prepared en phase keyId model prompt w t =
     t\<lparr>tn_phase := phase, tn_key := keyId, tn_provider := snd (snd (resolveKeyDispatch (en_keys en) keyId)),
       tn_model := model, tn_prompt := prompt,
       tn_prior := butlast (loadPriorMessages (tn_chat t) (w_atts w) (w_msgs w))\<rparr>"

definition plain_request ::
  "chat_env \<Rightarrow> jobj \<Rightarrow> chat_row \<Rightarrow> chat_error + (string \<times> string \<times> chat_selection)" where
  "plain_request en body row =
     bind_err (message_content body) (\<lambda>content.
     bind_err (text_or ''user'' ''role'' body) (\<lambda>role.
     bind_err (text_or (or_value (c_model row) (en_model en)) ''model'' body) (\<lambda>model.
     bind_err (allowed_key en body row) (\<lambda>keyId.
     bind_err (parseThinkingEnabledBody body) (\<lambda>thinking.
     bind_err (parseEffortBody body) (\<lambda>effort.
       Inr (content, role, \<lparr>sel_key = keyId, sel_model = Some model, sel_thinking = thinking, sel_effort = effort\<rparr>)))))))"

definition plain_message ::
  "chat_env \<Rightarrow> int \<Rightarrow> jobj \<Rightarrow> nat \<Rightarrow> turn \<Rightarrow> chat_world \<Rightarrow> chat_error option \<times> chat_world" where
  "plain_message en now body a t w =
     (case plain_request en body (tn_row t) of
        Inl e \<Rightarrow> (Some e, drop_turn a w)
      | Inr (content, role, sel) \<Rightarrow>
          let c = tn_chat t; w1 = set_chat c (persistChatSelection (en_keys en) (tn_row t) sel) w in
          (case attachments_for c body (w_atts w1) of
             Inl e \<Rightarrow> (Some e, drop_turn a w1)
           | Inr ids \<Rightarrow>
               let w2 = save_message now c role content ids w1 in
               if role \<noteq> ''user'' then (None, drop_turn a w2)
               else (None, register c a
                      (put_turn a (prepared en Live (sel_key sel) (the (sel_model sel)) (MText content) w2 t) (claim c w2)))))"

text \<open>The streaming handler stores the message and claims the chat before it reads the rest of the body.\<close>

definition stream_message ::
  "chat_env \<Rightarrow> int \<Rightarrow> jobj \<Rightarrow> nat \<Rightarrow> turn \<Rightarrow> chat_world \<Rightarrow> chat_error option \<times> chat_world" where
  "stream_message en now body a t w =
     (let c = tn_chat t; row = tn_row t in
      case bind_err (message_content body) (\<lambda>content. bind_err (allowed_key en body row) (\<lambda>keyId.
             bind_err (attachments_for c body (w_atts w)) (\<lambda>ids. Inr (content, keyId, ids)))) of
        Inl e \<Rightarrow> (Some e, drop_turn a w)
      | Inr (content, keyId, ids) \<Rightarrow>
          let w1 = claim c (save_message now c ''user'' content ids w) in
          (case bind_err (text_or (or_value (c_model row) (or_value (en_projectModel en (c_project row)) (en_model en))) ''model'' body)
                  (\<lambda>model. bind_err (parseThinkingEnabledBody body) (\<lambda>thinking. bind_err (parseEffortBody body) (\<lambda>effort.
                     Inr \<lparr>sel_key = keyId, sel_model = Some model, sel_thinking = thinking, sel_effort = effort\<rparr>))) of
             Inl e \<Rightarrow> (Some e, drop_turn a w1)
           | Inr sel \<Rightarrow>
               let w2 = set_chat c (persistChatSelection (en_keys en) row sel) w1
               in (None, put_turn a (prepared en Opening keyId (the (sel_model sel)) (MText content) w2 t) w2)))"

definition session_opens :: "nat \<Rightarrow> turn \<Rightarrow> chat_world \<Rightarrow> chat_world" where
  "session_opens a t w = register (tn_chat t) a (put_turn a (t\<lparr>tn_phase := Live\<rparr>) w)"

subsection \<open>Waking a parked chat\<close>

text \<open>The timer goes off; the handler is skipped while an earlier wake-up of the chat is still at work.\<close>

definition wake_chat :: "int \<Rightarrow> chat_world \<Rightarrow> chat_world" where
  "wake_chat c w =
     (let w1 = cancel_chat_timer c w in
      if c \<in> set (w_inflight w1) then w1
      else case chat_of w1 c of
             None \<Rightarrow> w1
           | Some r \<Rightarrow> begin_turn Resumed Waking c r (w1\<lparr>w_inflight := w_inflight w1 @ [c]\<rparr>))"

definition last_user_message :: "int \<Rightarrow> msg_row list \<Rightarrow> msg_row option" where
  "last_user_message c msgs =
     (case rev (filter (\<lambda>m. m_role m = ''user'') (chat_history c msgs)) of [] \<Rightarrow> None | m # _ \<Rightarrow> Some m)"

definition wake_done :: "nat \<Rightarrow> turn \<Rightarrow> chat_world \<Rightarrow> chat_world" where
  "wake_done a t w = (drop_turn a w)\<lparr>w_inflight := removeAll (tn_chat t) (w_inflight w)\<rparr>"

definition resumeChatAfterRateLimit :: "chat_env \<Rightarrow> nat \<Rightarrow> turn \<Rightarrow> chat_world \<Rightarrow> chat_world" where
  "resumeChatAfterRateLimit en a t w =
     (let c = tn_chat t in
      case chat_of w c of
        None \<Rightarrow> wake_done a t w
      | Some r \<Rightarrow>
          if c_status r \<noteq> ''rate_limited'' then wake_done a t w
          else case last_user_message c (w_msgs w) of
                 None \<Rightarrow> wake_done a t (set_chat c (\<lambda>r. r\<lparr>c_status := ''idle'', c_resumeAt := None\<rparr>) w)
               | Some m \<Rightarrow>
                   let keyId = resolveChatKeyId (en_parse en) (en_keys en) (en_rc en) None r;
                       model = or_value (c_model r) (or_value (en_projectModel en (c_project r)) ''claude-sonnet-4-5-20250929'')
                   in put_turn a (prepared en Opening keyId model (m_body m) w (t\<lparr>tn_row := r\<rparr>))
                        (set_chat c (\<lambda>r. r\<lparr>c_status := ''running'', c_resumeAt := None\<rparr>) w))"

subsection \<open>Other routes\<close>

text \<open>\<open>PATCH /chats/:id\<close>, for the columns that turns read; \<open>permissionMode\<close> and \<open>pinned\<close> are checked only.  The table
  of keys is there for the foreign key; an error in the middle of the request body leaves the row as it was.\<close>

definition patch_mode :: "jobj \<Rightarrow> jval option" where
  "patch_mode body = (case map_of body ''permission_mode'' of Some v \<Rightarrow> Some v | None \<Rightarrow> map_of body ''permissionMode'')"

definition patch_bool :: "string \<Rightarrow> bool \<Rightarrow> jobj \<Rightarrow> chat_error + bool" where
  "patch_bool k d body =
     (case map_of body k of None \<Rightarrow> Inr d | Some (JBool b) \<Rightarrow> Inr b | Some _ \<Rightarrow> Inl (Invalid k))"

definition patch_title :: "jobj \<Rightarrow> string option" where
  "patch_title body = (case map_of body ''title'' of Some (JStr s) \<Rightarrow> Some (take 200 (js_trim s)) | _ \<Rightarrow> None)"

definition nothing_to_patch :: "jobj \<Rightarrow> bool" where
  "nothing_to_patch body \<longleftrightarrow> patch_title body = None \<and> patch_mode body = None
     \<and> list_all (\<lambda>k. map_of body k = None)
         [''aiProviderKeyId'', ''model'', ''requiresApproval'', ''thinking_enabled'', ''thinkingEnabled'', ''effort'', ''pinned'']"

definition patchChat :: "key_db \<Rightarrow> jobj \<Rightarrow> chat_row \<Rightarrow> chat_error + chat_row" where
  "patchChat db body row =
     (case parsePermissionModeField (patch_mode body) of Inl _ \<Rightarrow> Inl (Invalid ''permission_mode'') | Inr _ \<Rightarrow>
     bind_err (case map_of body ''aiProviderKeyId'' of
                 None \<Rightarrow> Inr (c_key row)
               | Some JNull \<Rightarrow> Inr None
               | Some v \<Rightarrow> (case coerceKeyId (Some v) of Some i \<Rightarrow> if key_by_id db i = None then Inl (Invalid ''foreign key'') else Inr (Some i)
                          | None \<Rightarrow> Inl (Invalid ''aiProviderKeyId'')))
       (\<lambda>key.
     bind_err (case map_of body ''model'' of
                 None \<Rightarrow> Inr (c_model row)
               | Some JNull \<Rightarrow> Inr None
               | Some (JStr s) \<Rightarrow> Inr (if js_trim s = [] then None else Some (take 200 (js_trim s)))
               | Some _ \<Rightarrow> Inl (Invalid ''model''))
       (\<lambda>model.
     bind_err (patch_bool ''requiresApproval'' (c_requiresApproval row) body) (\<lambda>approval.
     bind_err (parseThinkingEnabledBody body) (\<lambda>thinking.
     bind_err (parseEffortBody body) (\<lambda>effort.
     bind_err (patch_bool ''pinned'' False body) (\<lambda>_.
       if nothing_to_patch body then Inl (Invalid ''No valid fields to update'')
       else Inr (row\<lparr>c_title := (case patch_title body of Some s \<Rightarrow> Some s | None \<Rightarrow> c_title row),
                c_key := key, c_model := model, c_requiresApproval := approval,
                c_thinking := or_value thinking (c_thinking row), c_effort := or_value effort (c_effort row)\<rparr>))))))))"

definition sweepOrphanedChatQuestions :: "chat_world \<Rightarrow> chat_world" where
  "sweepOrphanedChatQuestions w =
     w\<lparr>w_questions := map (\<lambda>(i, q). if cq_chat q \<noteq> None \<and> cq_state q = QOpen then (i, q\<lparr>cq_state := QCancelled\<rparr>)
                                     else (i, q)) (w_questions w)\<rparr>"

definition sweepOrphanedRunningChats :: "chat_world \<Rightarrow> chat_world" where
  "sweepOrphanedRunningChats w =
     w\<lparr>w_chats := map (\<lambda>(i, r). if c_status r = ''running'' then (i, r\<lparr>c_status := ''idle''\<rparr>) else (i, r)) (w_chats w)\<rparr>"

definition recoverChats :: "int \<Rightarrow> chat_world \<Rightarrow> chat_world" where
  "recoverChats nowMs w =
     fold (\<lambda>(i, r) w. case c_resumeAt r of Some ms \<Rightarrow> chat_timer nowMs i ms w | None \<Rightarrow> w)
       (filter (\<lambda>(_, r). c_status r = ''rate_limited'' \<and> c_resumeAt r \<noteq> None) (w_chats w)) w"

text \<open>A new daemon on the same database.\<close>

definition restart :: "int \<Rightarrow> chat_world \<Rightarrow> chat_world" where
  "restart nowMs w =
     recoverChats nowMs (sweepOrphanedRunningChats (sweepOrphanedChatQuestions
       (w\<lparr>w_sessions := [], w_pending := [], w_timers := [], w_inflight := [], w_turns := [], w_aborted := []\<rparr>)))"

subsection \<open>Schedules\<close>

datatype chat_event =
  CeArrive turn_kind int | CeBody chat_env int nat jobj | CeOpened nat | CeSays chat_env int nat chat_session_event
  | CeRunEnds int int nat "turn_error option" | CeDrained int int nat | CeSettles int nat
  | CeWake int | CeResume chat_env nat | CeCancel int | CeAnswer bool int string string
  | CeApprove "string option" int | CeReject "string option" int | CePatch key_db int jobj | CeUpload int int int
  | CeShutdown | CeRestart int

definition with_turn :: "nat \<Rightarrow> (turn \<Rightarrow> chat_world \<Rightarrow> chat_world) \<Rightarrow> chat_world \<Rightarrow> chat_world" where
  "with_turn a f w = (case map_of (w_turns w) a of None \<Rightarrow> w | Some t \<Rightarrow> f t w)"

definition keep_on_error :: "chat_world \<Rightarrow> 'e + chat_world \<Rightarrow> chat_world" where
  "keep_on_error w r = (case r of Inl _ \<Rightarrow> w | Inr w' \<Rightarrow> w')"

fun chat_step :: "chat_event \<Rightarrow> chat_world \<Rightarrow> chat_world" where
  "chat_step (CeArrive kind c) w = (if kind = Resumed then w else arrive kind c w)"
| "chat_step (CeBody en now a body) w = with_turn a (\<lambda>t w. if tn_phase t \<noteq> Arrived then w
     else snd (if tn_kind t = Streaming then stream_message en now body a t w else plain_message en now body a t w)) w"
| "chat_step (CeOpened a) w = with_turn a (\<lambda>t w. if tn_phase t \<noteq> Opening then w else session_opens a t w) w"
| "chat_step (CeSays en now a ev) w = with_turn a (\<lambda>t w. if tn_phase t \<noteq> Live then w else session_says en now ev a t w) w"
| "chat_step (CeRunEnds nowMs now a err) w = with_turn a (\<lambda>t w. if tn_phase t \<noteq> Live then w
     else if tn_kind t = Streaming then put_turn a (t\<lparr>tn_phase := RunOver err\<rparr>) w
     else if tn_kind t = PlainTurn then plain_ends nowMs now err a t w
     else resumed_ends nowMs now err a t w) w"
| "chat_step (CeDrained nowMs now a) w = with_turn a (\<lambda>t w. case tn_phase t of
     RunOver err \<Rightarrow> stream_drained nowMs now err a t w | _ \<Rightarrow> w) w"
| "chat_step (CeSettles now a) w = with_turn a (stream_settles now a) w"
| "chat_step (CeWake c) w = (if c \<in> fst ` set (w_timers w) then wake_chat c w else w)"
| "chat_step (CeResume en a) w = with_turn a (\<lambda>t w. if tn_phase t \<noteq> Waking then w else resumeChatAfterRateLimit en a t w) w"
| "chat_step (CeCancel c) w = snd (cancel_chat c w)"
| "chat_step (CeAnswer ok c i ans) w = snd (answer_chat_question ok c i ans w)"
| "chat_step (CeApprove note c) w = keep_on_error w (approve_chat note c w)"
| "chat_step (CeReject note c) w = keep_on_error w (reject_chat note c w)"
| "chat_step (CePatch db c body) w = (case chat_of w c of None \<Rightarrow> w
     | Some r \<Rightarrow> (case patchChat db body r of Inl _ \<Rightarrow> w | Inr r' \<Rightarrow> set_chat c (\<lambda>_. r') w))"
| "chat_step (CeUpload i c n) w = (if i \<in> at_id ` set (w_atts w) then w
     else w\<lparr>w_atts := w_atts w @ [\<lparr>at_id = i, at_chat = c, at_message = None, at_size = n\<rparr>]\<rparr>)"
| "chat_step CeShutdown w = cancel_all_chats w"
| "chat_step (CeRestart nowMs) w = restart nowMs w"

definition chat_run :: "chat_event list \<Rightarrow> chat_world \<Rightarrow> chat_world" where
  "chat_run evs w = fold chat_step evs w"

end
