(* ===== verification/ChatFrame.thy ===== *)
theory ChatFrame
  imports ChatRun
begin

text \<open>
  What each operation on the world of chats leaves alone: one lemma per operation, with an equation for every
  field that it does not touch, which the proofs about schedules rewrite with; and a small world to run schedules on.
\<close>

lemma set_chat_frame [simp]:
  "w_questions (set_chat c f w) = w_questions w" "w_atts (set_chat c f w) = w_atts w"
  "w_sessions (set_chat c f w) = w_sessions w" "w_pending (set_chat c f w) = w_pending w"
  "w_timers (set_chat c f w) = w_timers w" "w_inflight (set_chat c f w) = w_inflight w"
  "w_turns (set_chat c f w) = w_turns w" "w_msgs (set_chat c f w) = w_msgs w"
  "w_aborted (set_chat c f w) = w_aborted w" "w_nextTurn (set_chat c f w) = w_nextTurn w"
  "w_nextMsg (set_chat c f w) = w_nextMsg w"
  by (simp_all add: set_chat_def)

lemma insert_msg_frame [simp]:
  "w_questions (insert_msg n c r b w) = w_questions w" "w_atts (insert_msg n c r b w) = w_atts w"
  "w_sessions (insert_msg n c r b w) = w_sessions w" "w_pending (insert_msg n c r b w) = w_pending w"
  "w_timers (insert_msg n c r b w) = w_timers w" "w_inflight (insert_msg n c r b w) = w_inflight w"
  "w_turns (insert_msg n c r b w) = w_turns w" "w_chats (insert_msg n c r b w) = w_chats w"
  "w_aborted (insert_msg n c r b w) = w_aborted w" "w_nextTurn (insert_msg n c r b w) = w_nextTurn w"
  by (simp_all add: insert_msg_def)

lemma put_turn_frame [simp]:
  "w_questions (put_turn a t w) = w_questions w" "w_atts (put_turn a t w) = w_atts w"
  "w_sessions (put_turn a t w) = w_sessions w" "w_pending (put_turn a t w) = w_pending w"
  "w_timers (put_turn a t w) = w_timers w" "w_inflight (put_turn a t w) = w_inflight w"
  "w_chats (put_turn a t w) = w_chats w" "w_msgs (put_turn a t w) = w_msgs w"
  "w_aborted (put_turn a t w) = w_aborted w" "w_nextTurn (put_turn a t w) = w_nextTurn w"
  "w_nextMsg (put_turn a t w) = w_nextMsg w"
  by (simp_all add: put_turn_def)

lemma drop_turn_frame [simp]:
  "w_questions (drop_turn a w) = w_questions w" "w_atts (drop_turn a w) = w_atts w"
  "w_sessions (drop_turn a w) = w_sessions w" "w_pending (drop_turn a w) = w_pending w"
  "w_timers (drop_turn a w) = w_timers w" "w_inflight (drop_turn a w) = w_inflight w"
  "w_chats (drop_turn a w) = w_chats w" "w_msgs (drop_turn a w) = w_msgs w" "w_aborted (drop_turn a w) = w_aborted w"
  "w_nextTurn (drop_turn a w) = w_nextTurn w" "w_nextMsg (drop_turn a w) = w_nextMsg w"
  by (simp_all add: drop_turn_def)

lemma claim_frame [simp]:
  "w_questions (claim c w) = w_questions w" "w_atts (claim c w) = w_atts w" "w_sessions (claim c w) = w_sessions w"
  "w_timers (claim c w) = w_timers w" "w_inflight (claim c w) = w_inflight w" "w_turns (claim c w) = w_turns w"
  "w_chats (claim c w) = w_chats w" "w_msgs (claim c w) = w_msgs w" "w_aborted (claim c w) = w_aborted w"
  "w_nextTurn (claim c w) = w_nextTurn w" "w_nextMsg (claim c w) = w_nextMsg w"
  by (simp_all add: claim_def)

lemma register_frame [simp]:
  "w_questions (register c a w) = w_questions w" "w_atts (register c a w) = w_atts w"
  "w_timers (register c a w) = w_timers w" "w_inflight (register c a w) = w_inflight w"
  "w_turns (register c a w) = w_turns w" "w_chats (register c a w) = w_chats w" "w_msgs (register c a w) = w_msgs w"
  "w_aborted (register c a w) = w_aborted w" "w_nextTurn (register c a w) = w_nextTurn w"
  "w_nextMsg (register c a w) = w_nextMsg w"
  by (simp_all add: register_def)

lemma unregister_frame [simp]:
  "w_questions (unregister c w) = w_questions w" "w_atts (unregister c w) = w_atts w"
  "w_timers (unregister c w) = w_timers w" "w_inflight (unregister c w) = w_inflight w"
  "w_turns (unregister c w) = w_turns w" "w_chats (unregister c w) = w_chats w" "w_msgs (unregister c w) = w_msgs w"
  "w_aborted (unregister c w) = w_aborted w" "w_nextTurn (unregister c w) = w_nextTurn w"
  "w_nextMsg (unregister c w) = w_nextMsg w"
  by (simp_all add: unregister_def)

lemma chat_timer_frame [simp]:
  "w_questions (chat_timer n c r w) = w_questions w" "w_atts (chat_timer n c r w) = w_atts w"
  "w_sessions (chat_timer n c r w) = w_sessions w" "w_pending (chat_timer n c r w) = w_pending w"
  "w_inflight (chat_timer n c r w) = w_inflight w" "w_turns (chat_timer n c r w) = w_turns w"
  "w_chats (chat_timer n c r w) = w_chats w" "w_msgs (chat_timer n c r w) = w_msgs w"
  "w_aborted (chat_timer n c r w) = w_aborted w" "w_nextTurn (chat_timer n c r w) = w_nextTurn w"
  "w_nextMsg (chat_timer n c r w) = w_nextMsg w"
  by (simp_all add: chat_timer_def)

lemma cancel_chat_timer_frame [simp]:
  "w_questions (cancel_chat_timer c w) = w_questions w" "w_atts (cancel_chat_timer c w) = w_atts w"
  "w_sessions (cancel_chat_timer c w) = w_sessions w" "w_pending (cancel_chat_timer c w) = w_pending w"
  "w_inflight (cancel_chat_timer c w) = w_inflight w" "w_turns (cancel_chat_timer c w) = w_turns w"
  "w_chats (cancel_chat_timer c w) = w_chats w" "w_msgs (cancel_chat_timer c w) = w_msgs w"
  "w_aborted (cancel_chat_timer c w) = w_aborted w" "w_nextTurn (cancel_chat_timer c w) = w_nextTurn w"
  "w_nextMsg (cancel_chat_timer c w) = w_nextMsg w"
  by (simp_all add: cancel_chat_timer_def)

lemma record_usage_frame [simp]:
  "w_questions (record_usage m t w) = w_questions w" "w_atts (record_usage m t w) = w_atts w"
  "w_sessions (record_usage m t w) = w_sessions w" "w_pending (record_usage m t w) = w_pending w"
  "w_timers (record_usage m t w) = w_timers w" "w_inflight (record_usage m t w) = w_inflight w"
  "w_turns (record_usage m t w) = w_turns w" "w_chats (record_usage m t w) = w_chats w"
  "w_msgs (record_usage m t w) = w_msgs w" "w_aborted (record_usage m t w) = w_aborted w"
  "w_nextTurn (record_usage m t w) = w_nextTurn w" "w_nextMsg (record_usage m t w) = w_nextMsg w"
  by (simp_all add: record_usage_def Let_def)

lemma parkChatForRateLimit_frame [simp]:
  "w_questions (parkChatForRateLimit n c r w) = w_questions w" "w_atts (parkChatForRateLimit n c r w) = w_atts w"
  "w_sessions (parkChatForRateLimit n c r w) = w_sessions w" "w_pending (parkChatForRateLimit n c r w) = w_pending w"
  "w_inflight (parkChatForRateLimit n c r w) = w_inflight w" "w_turns (parkChatForRateLimit n c r w) = w_turns w"
  "w_msgs (parkChatForRateLimit n c r w) = w_msgs w" "w_aborted (parkChatForRateLimit n c r w) = w_aborted w"
  "w_nextTurn (parkChatForRateLimit n c r w) = w_nextTurn w" "w_nextMsg (parkChatForRateLimit n c r w) = w_nextMsg w"
  by (simp_all add: parkChatForRateLimit_def)

lemma markPendingApprovalIfRequired_frame [simp]:
  "w_questions (markPendingApprovalIfRequired c w) = w_questions w"
  "w_atts (markPendingApprovalIfRequired c w) = w_atts w"
  "w_sessions (markPendingApprovalIfRequired c w) = w_sessions w"
  "w_pending (markPendingApprovalIfRequired c w) = w_pending w"
  "w_timers (markPendingApprovalIfRequired c w) = w_timers w"
  "w_inflight (markPendingApprovalIfRequired c w) = w_inflight w"
  "w_turns (markPendingApprovalIfRequired c w) = w_turns w" "w_msgs (markPendingApprovalIfRequired c w) = w_msgs w"
  "w_aborted (markPendingApprovalIfRequired c w) = w_aborted w"
  "w_nextTurn (markPendingApprovalIfRequired c w) = w_nextTurn w"
  "w_nextMsg (markPendingApprovalIfRequired c w) = w_nextMsg w"
  by (simp_all add: markPendingApprovalIfRequired_def split: option.split)

lemma store_session_frame [simp]:
  "w_questions (store_session t s w) = w_questions w" "w_atts (store_session t s w) = w_atts w"
  "w_sessions (store_session t s w) = w_sessions w" "w_pending (store_session t s w) = w_pending w"
  "w_timers (store_session t s w) = w_timers w" "w_inflight (store_session t s w) = w_inflight w"
  "w_turns (store_session t s w) = w_turns w" "w_msgs (store_session t s w) = w_msgs w"
  "w_aborted (store_session t s w) = w_aborted w" "w_nextTurn (store_session t s w) = w_nextTurn w"
  "w_nextMsg (store_session t s w) = w_nextMsg w"
  by (simp_all add: store_session_def)

lemma chat_tool_call_frame [simp]:
  "w_questions (chat_tool_call en n c nm i p u w) = w_questions w"
  "w_atts (chat_tool_call en n c nm i p u w) = w_atts w" "w_sessions (chat_tool_call en n c nm i p u w) = w_sessions w"
  "w_pending (chat_tool_call en n c nm i p u w) = w_pending w"
  "w_timers (chat_tool_call en n c nm i p u w) = w_timers w"
  "w_inflight (chat_tool_call en n c nm i p u w) = w_inflight w"
  "w_turns (chat_tool_call en n c nm i p u w) = w_turns w" "w_aborted (chat_tool_call en n c nm i p u w) = w_aborted w"
  "w_nextTurn (chat_tool_call en n c nm i p u w) = w_nextTurn w"
  by (simp_all add: chat_tool_call_def Let_def)

lemma chat_tool_result_frame [simp]:
  "w_questions (chat_tool_result n c nm o' w) = w_questions w" "w_atts (chat_tool_result n c nm o' w) = w_atts w"
  "w_sessions (chat_tool_result n c nm o' w) = w_sessions w" "w_pending (chat_tool_result n c nm o' w) = w_pending w"
  "w_timers (chat_tool_result n c nm o' w) = w_timers w" "w_inflight (chat_tool_result n c nm o' w) = w_inflight w"
  "w_turns (chat_tool_result n c nm o' w) = w_turns w" "w_chats (chat_tool_result n c nm o' w) = w_chats w"
  "w_aborted (chat_tool_result n c nm o' w) = w_aborted w" "w_nextTurn (chat_tool_result n c nm o' w) = w_nextTurn w"
  by (simp_all add: chat_tool_result_def)

lemma turn_over_frame [simp]:
  "w_questions (turn_over a t w) = w_questions w" "w_atts (turn_over a t w) = w_atts w"
  "w_timers (turn_over a t w) = w_timers w" "w_inflight (turn_over a t w) = w_inflight w"
  "w_chats (turn_over a t w) = w_chats w" "w_msgs (turn_over a t w) = w_msgs w"
  "w_aborted (turn_over a t w) = w_aborted w" "w_nextTurn (turn_over a t w) = w_nextTurn w"
  "w_nextMsg (turn_over a t w) = w_nextMsg w"
  by (simp_all add: turn_over_def)

lemma persistChatQuestion_frame [simp]:
  "w_atts (persistChatQuestion c i w) = w_atts w" "w_sessions (persistChatQuestion c i w) = w_sessions w"
  "w_pending (persistChatQuestion c i w) = w_pending w" "w_timers (persistChatQuestion c i w) = w_timers w"
  "w_inflight (persistChatQuestion c i w) = w_inflight w" "w_turns (persistChatQuestion c i w) = w_turns w"
  "w_chats (persistChatQuestion c i w) = w_chats w" "w_msgs (persistChatQuestion c i w) = w_msgs w"
  "w_aborted (persistChatQuestion c i w) = w_aborted w" "w_nextTurn (persistChatQuestion c i w) = w_nextTurn w"
  "w_nextMsg (persistChatQuestion c i w) = w_nextMsg w"
  by (simp_all add: persistChatQuestion_def)

lemma save_message_frame [simp]:
  "w_questions (save_message n c r b ids w) = w_questions w" "w_sessions (save_message n c r b ids w) = w_sessions w"
  "w_pending (save_message n c r b ids w) = w_pending w" "w_timers (save_message n c r b ids w) = w_timers w"
  "w_inflight (save_message n c r b ids w) = w_inflight w" "w_turns (save_message n c r b ids w) = w_turns w"
  "w_chats (save_message n c r b ids w) = w_chats w" "w_aborted (save_message n c r b ids w) = w_aborted w"
  "w_nextTurn (save_message n c r b ids w) = w_nextTurn w"
  by (simp_all add: save_message_def)

lemma begin_turn_frame [simp]:
  "w_questions (begin_turn k p c r w) = w_questions w" "w_atts (begin_turn k p c r w) = w_atts w"
  "w_sessions (begin_turn k p c r w) = w_sessions w" "w_pending (begin_turn k p c r w) = w_pending w"
  "w_timers (begin_turn k p c r w) = w_timers w" "w_inflight (begin_turn k p c r w) = w_inflight w"
  "w_chats (begin_turn k p c r w) = w_chats w" "w_msgs (begin_turn k p c r w) = w_msgs w"
  "w_aborted (begin_turn k p c r w) = w_aborted w" "w_nextMsg (begin_turn k p c r w) = w_nextMsg w"
  by (simp_all add: begin_turn_def)

lemma flush_thinking_frame [simp]:
  "w_questions (snd (flush_thinking n tw)) = w_questions (snd tw)"
  "w_atts (snd (flush_thinking n tw)) = w_atts (snd tw)" "w_sessions (snd (flush_thinking n tw)) = w_sessions (snd tw)"
  "w_pending (snd (flush_thinking n tw)) = w_pending (snd tw)"
  "w_timers (snd (flush_thinking n tw)) = w_timers (snd tw)"
  "w_inflight (snd (flush_thinking n tw)) = w_inflight (snd tw)"
  "w_turns (snd (flush_thinking n tw)) = w_turns (snd tw)" "w_chats (snd (flush_thinking n tw)) = w_chats (snd tw)"
  "w_aborted (snd (flush_thinking n tw)) = w_aborted (snd tw)"
  "w_nextTurn (snd (flush_thinking n tw)) = w_nextTurn (snd tw)"
  by (simp_all add: flush_thinking_def split: prod.split)

lemma flush_text_frame [simp]:
  "w_questions (snd (flush_text n tw)) = w_questions (snd tw)" "w_atts (snd (flush_text n tw)) = w_atts (snd tw)"
  "w_sessions (snd (flush_text n tw)) = w_sessions (snd tw)" "w_pending (snd (flush_text n tw)) = w_pending (snd tw)"
  "w_timers (snd (flush_text n tw)) = w_timers (snd tw)" "w_inflight (snd (flush_text n tw)) = w_inflight (snd tw)"
  "w_turns (snd (flush_text n tw)) = w_turns (snd tw)" "w_chats (snd (flush_text n tw)) = w_chats (snd tw)"
  "w_aborted (snd (flush_text n tw)) = w_aborted (snd tw)" "w_nextTurn (snd (flush_text n tw)) = w_nextTurn (snd tw)"
  by (simp_all add: flush_text_def split: prod.split)

lemma flushPending_frame [simp]:
  "w_questions (snd (flushPending n tw)) = w_questions (snd tw)" "w_atts (snd (flushPending n tw)) = w_atts (snd tw)"
  "w_sessions (snd (flushPending n tw)) = w_sessions (snd tw)"
  "w_pending (snd (flushPending n tw)) = w_pending (snd tw)" "w_timers (snd (flushPending n tw)) = w_timers (snd tw)"
  "w_inflight (snd (flushPending n tw)) = w_inflight (snd tw)" "w_turns (snd (flushPending n tw)) = w_turns (snd tw)"
  "w_chats (snd (flushPending n tw)) = w_chats (snd tw)" "w_aborted (snd (flushPending n tw)) = w_aborted (snd tw)"
  "w_nextTurn (snd (flushPending n tw)) = w_nextTurn (snd tw)"
  by (simp_all add: flushPending_def)

lemma anchor_row_frame [simp]:
  "w_questions (snd (anchor_row n tw)) = w_questions (snd tw)" "w_atts (snd (anchor_row n tw)) = w_atts (snd tw)"
  "w_sessions (snd (anchor_row n tw)) = w_sessions (snd tw)" "w_pending (snd (anchor_row n tw)) = w_pending (snd tw)"
  "w_timers (snd (anchor_row n tw)) = w_timers (snd tw)" "w_inflight (snd (anchor_row n tw)) = w_inflight (snd tw)"
  "w_turns (snd (anchor_row n tw)) = w_turns (snd tw)" "w_chats (snd (anchor_row n tw)) = w_chats (snd tw)"
  "w_aborted (snd (anchor_row n tw)) = w_aborted (snd tw)" "w_nextTurn (snd (anchor_row n tw)) = w_nextTurn (snd tw)"
  by (simp_all add: anchor_row_def split: prod.split option.split)

lemmas settles_defs = stream_settles_def stream_saves_def stream_flushes_def stream_closes_def

subsection \<open>Examples\<close>

definition plain_row :: chat_row where
  "plain_row = \<lparr>c_project = None, c_workspace = None, c_title = None, c_session = None, c_key = None, c_model = None,
     c_thinking = True, c_effort = None, c_requiresApproval = True, c_approval = None, c_approvalNote = None,
     c_edits = None, c_status = ''idle'', c_resumeAt = None\<rparr>"

definition one_chat :: chat_world where
  "one_chat = \<lparr>w_chats = [(1, plain_row)], w_msgs = [], w_nextMsg = 1, w_atts = [], w_todos = [], w_usage = [],
     w_questions = [], w_sessions = [], w_pending = [], w_timers = [], w_inflight = [], w_turns = [], w_nextTurn = 0,
     w_aborted = []\<rparr>"

definition no_keys :: chat_env where
  "no_keys = \<lparr>en_parse = (\<lambda>_. None), en_json = (\<lambda>_. ''{}''),
     en_keys = \<lparr>kd_keys = [], kd_projects = [], kd_workspaces = [], kd_now = ''''\<rparr>,
     en_rc = None, en_model = ''m'', en_projectModel = (\<lambda>_. None)\<rparr>"

definition says :: "string \<Rightarrow> jobj" where
  "says s = [(''content'', JStr s)]"

text \<open>The start of a streamed turn, up to its live session.\<close>

definition opens :: "nat \<Rightarrow> string \<Rightarrow> chat_event list" where
  "opens a s = [CeArrive Streaming 1, CeBody no_keys 0 a (says s), CeOpened a]"

text \<open>The end of a streamed turn, with nothing in between.\<close>

definition settles :: "int \<Rightarrow> nat \<Rightarrow> chat_event list" where
  "settles now a = [CeSettles now a, CeSettles now a, CeSettles now a, CeSettles now a]"

text \<open>The definitions that a run of these events unfolds; the bounds of the code are too large to compute with.\<close>

lemmas chat_eval = chat_run_def opens_def says_def one_chat_def plain_row_def no_keys_def arrive_def chat_of_def
  begin_turn_def new_turn_def with_turn_def stream_message_def message_content_def MAX_MESSAGE_CONTENT_BYTES_def
  allowed_key_def resolveChatKeyId_def coerceKeyId_def resolveDefaultKeyForChat_def chat_scope_def
  resolveAllowedKeyIds_def truthy_str_def truthy_int_def workspace_allowed_def safeParseJsonArray_def
  jsonSafeParseNumberArray_def jsonSafeParse_def assertKeyAllowedForChat_def attachments_for_def parseAttachmentIds_def
  validateAttachmentsForMessage_def unique_ids_def save_message_def insert_msg_def linkAttachmentsToMessage_def
  claim_def isRunning_def jm_has_def text_or_def or_value_def parseThinkingEnabledBody_def parseEffortBody_def
  VALID_EFFORT_LEVELS_def set_chat_def persistChatSelection_def differs_def put_turn_def prepared_def
  loadPriorMessages_def history_window_def chat_history_def resolveKeyDispatch_def session_opens_def register_def
  cancel_chat_def cancel_chat_timer_def cancelPendingQuestions_def stream_drained_def limit_of_def settles_defs settles_def
  flushPending_def flush_text_def flush_thinking_def new_accumulator_def anchor_row_def record_usage_def chat_metrics_def
  full_text_def accumulator_toString_def turn_over_def unregister_def drop_turn_def markPendingApprovalIfRequired_def
  MAX_CHAT_MESSAGES_def loadAttachmentsForMessages_def store_session_def

end
