(* ===== verification/ChatProps.thy ===== *)
theory ChatProps
  imports ChatFrame "HOL-Library.Sublist"
begin

text \<open>
  What holds of the chats under every order of requests, of the events of their sessions, and of wake-ups: what
  becomes of a question, of an attachment, of a claim, of a parked chat; and schedules in which the code does not
  do what its comments say.
\<close>

subsection \<open>Questions\<close>

lemma flush_turn [simp]:
  "tn_chat (fst (flushPending n tw)) = tn_chat (fst tw)" "tn_kind (fst (flushPending n tw)) = tn_kind (fst tw)"
  "tn_phase (fst (flushPending n tw)) = tn_phase (fst tw)" "tn_row (fst (flushPending n tw)) = tn_row (fst tw)"
  "tn_full (fst (flushPending n tw)) = tn_full (fst tw)"
  by (simp_all add: flushPending_def flush_text_def flush_thinking_def split_beta)

lemma event_questions:
  "w_questions (snd (stream_event en n ev (t, w))) = w_questions w \<or>
     (\<exists>i. \<not> jm_has (w_questions w) i
        \<and> w_questions (snd (stream_event en n ev (t, w))) = w_questions w @ [(i, \<lparr>cq_chat = Some (tn_chat t), cq_state = QOpen\<rparr>)])"
  "w_questions (snd (plain_event en n ev (t, w))) = w_questions w \<or>
     (\<exists>i. \<not> jm_has (w_questions w) i
        \<and> w_questions (snd (plain_event en n ev (t, w))) = w_questions w @ [(i, \<lparr>cq_chat = Some (tn_chat t), cq_state = QOpen\<rparr>)])"
  by (cases ev; auto simp: persistChatQuestion_def split_beta)+

lemma ends_questions:
  "w_questions (plain_ends m n err a t w) = w_questions w"
  "w_questions (resumed_ends m n err a t w) = w_questions w"
  "w_questions (stream_drained m n err a t w) = w_questions w"
  "w_questions (stream_settles n a t w) = w_questions w"
  by (simp_all add: plain_ends_def resumed_ends_def stream_drained_def settles_defs Let_def split_beta
      split: option.split turn_phase.split)

lemma starts_questions:
  "w_questions (arrive k c w) = w_questions w"
  "w_questions (snd (plain_message en n body a t w)) = w_questions w"
  "w_questions (snd (stream_message en n body a t w)) = w_questions w"
  "w_questions (session_opens a t w) = w_questions w"
  "w_questions (wake_chat c w) = w_questions w"
  "w_questions (wake_done a t w) = w_questions w"
  "w_questions (resumeChatAfterRateLimit en a t w) = w_questions w"
  by (simp_all add: arrive_def plain_message_def stream_message_def session_opens_def wake_chat_def wake_done_def
      resumeChatAfterRateLimit_def Let_def split_beta split: option.split sum.split)

lemma routes_questions:
  "keep_on_error w (approve_chat note c w) = w \<or> w_questions (keep_on_error w (approve_chat note c w)) = w_questions w"
  "keep_on_error w (reject_chat note c w) = w \<or> w_questions (keep_on_error w (reject_chat note c w)) = w_questions w"
  "w_questions (cancel_all_chats w) = w_questions w"
  by (auto simp: keep_on_error_def approve_chat_def reject_chat_def decide_chat_def cancel_all_chats_def split: option.split)

text \<open>What one step does to a question: the states that it may take, and by which event.\<close>

fun settled_by :: "chat_world \<Rightarrow> chat_event \<Rightarrow> string \<Rightarrow> chat_question \<Rightarrow> chat_question \<Rightarrow> bool" where
  "settled_by w ev i q q' \<longleftrightarrow> q' = q \<or> cq_state q = QOpen \<and> cq_chat q' = cq_chat q
     \<and> (case cq_state q' of
          QOpen \<Rightarrow> False
        | QAnswered ans \<Rightarrow> (\<exists>c. ev = CeAnswer True c i ans \<and> cq_chat q = Some c \<and> jm_has (w_sessions w) c)
        | QCancelled \<Rightarrow> (\<exists>c. ev = CeCancel c \<and> cq_chat q = Some c) \<or> cq_chat q \<noteq> None \<and> (\<exists>n. ev = CeRestart n))"

declare settled_by.simps [simp del]

lemma settled_same: "settled_by w ev i q q"
  by (simp add: settled_by.simps)

lemma map_of_map_value:
  assumes "\<And>k v. fst (f (k, v)) = k"
  shows "map_of (map f xs) i = map_option (\<lambda>v. snd (f (i, v))) (map_of xs i)"
proof (induction xs)
  case (Cons p xs)
  obtain k v where p: "p = (k, v)" by (cases p)
  obtain k' v' where f: "f (k, v) = (k', v')" by (cases "f (k, v)")
  have "k' = k" using assms [of k v] by (simp add: f)
  then show ?case using Cons.IH by (simp add: p f)
qed simp

lemma fold_timers_questions:
  "w_questions (fold (\<lambda>(i, r) w. case c_resumeAt r of Some ms \<Rightarrow> chat_timer n i ms w | None \<Rightarrow> w) xs w) = w_questions w"
  by (induction xs arbitrary: w) (auto split: option.split)

lemma step_question:
  assumes q: "map_of (w_questions w) i = Some q"
  shows "\<exists>q'. map_of (w_questions (chat_step ev w)) i = Some q' \<and> settled_by w ev i q q'"
proof -
  have same: ?thesis if "w_questions (chat_step ev w) = w_questions w"
    using q settled_same by (simp add: that)
  have grown: ?thesis if "w_questions (chat_step ev w) = w_questions w @ ys" for ys
    using q settled_same by (simp add: that)
  note parts = with_turn_def ends_questions starts_questions
  show ?thesis
  proof (cases ev)
    case (CeSays en n a sev)
    have "w_questions (chat_step ev w) = w_questions w \<or> (\<exists>ys. w_questions (chat_step ev w) = w_questions w @ ys)"
    proof (cases "map_of (w_turns w) a")
      case (Some t)
      then show ?thesis using event_questions [of en n sev t w]
        by (auto simp: CeSays with_turn_def session_says_def split_beta)
    qed (simp add: CeSays with_turn_def)
    then show ?thesis using same grown by blast
  next
    case (CeCancel c)
    let ?f = "\<lambda>(i, q). if cq_chat q = Some c \<and> cq_state q = QOpen then (i, q\<lparr>cq_state := QCancelled\<rparr>) else (i, q)"
    have "w_questions (chat_step ev w) = map ?f (w_questions w)"
      by (simp add: CeCancel cancel_chat_def cancelPendingQuestions_def Let_def split: option.split)
    then have "map_of (w_questions (chat_step ev w)) i = Some (snd (?f (i, q)))"
      using q by (simp add: map_of_map_value split_beta)
    then show ?thesis by (auto simp: CeCancel settled_by.simps)
  next
    case (CeAnswer ok c j ans)
    have "w_questions (chat_step ev w) = w_questions w \<or>
      (\<exists>q. map_of (w_questions w) j = Some q \<and> cq_chat q = Some c \<and> cq_state q = QOpen \<and> ok \<and> jm_has (w_sessions w) c
        \<and> w_questions (chat_step ev w) = AList.update j (q\<lparr>cq_state := QAnswered ans\<rparr>) (w_questions w))"
      by (auto simp: CeAnswer answer_chat_question_def jm_has_def split: option.split)
    then show ?thesis using q same
      by (auto simp: CeAnswer jm_get_set settled_by.simps)
  next
    case (CeRestart n)
    let ?f = "\<lambda>(i, q). if cq_chat q \<noteq> None \<and> cq_state q = QOpen then (i, q\<lparr>cq_state := QCancelled\<rparr>) else (i, q)"
    have "w_questions (chat_step ev w) = map ?f (w_questions w)"
      by (simp add: CeRestart restart_def recoverChats_def fold_timers_questions sweepOrphanedRunningChats_def
          sweepOrphanedChatQuestions_def)
    then have "map_of (w_questions (chat_step ev w)) i = Some (snd (?f (i, q)))"
      using q by (simp add: map_of_map_value split_beta)
    then show ?thesis by (auto simp: CeRestart settled_by.simps)
  next
    case (CeApprove nt c)
    then show ?thesis using same routes_questions(1) [of w nt c] by auto
  next
    case (CeReject nt c)
    then show ?thesis using same routes_questions(2) [of w nt c] by auto
  qed (use same in \<open>auto simp: parts routes_questions(3) split: option.splits sum.splits turn_phase.splits\<close>)
qed

lemma run_question:
  "map_of (w_questions w) i = Some q \<Longrightarrow>
    \<exists>q'. map_of (w_questions (chat_run evs w)) i = Some q' \<and> cq_chat q' = cq_chat q \<and> (cq_state q \<noteq> QOpen \<longrightarrow> q' = q)"
  unfolding chat_run_def
proof (induction evs arbitrary: w q)
  case (Cons ev evs)
  obtain q' where q': "map_of (w_questions (chat_step ev w)) i = Some q'" "settled_by w ev i q q'"
    using step_question [OF Cons.prems] by blast
  then have "cq_chat q' = cq_chat q" "cq_state q \<noteq> QOpen \<longrightarrow> q' = q" by (auto simp: settled_by.simps)
  then show ?case using Cons.IH [OF q'(1)] by auto
qed simp

text \<open>C11: a question that an agent asks in a chat is settled at most once.  Whatever happens next, its row stays; once
  it is answered or cancelled it never changes again.  It becomes answered only by an answer given to its own chat
  while a session of that chat is registered and takes the answer, and cancelled only when its own
  chat is cancelled or the daemon starts anew.\<close>

theorem chat_question_settled_once:
  assumes "map_of (w_questions w) i = Some q"
  shows "(\<exists>q'. map_of (w_questions (chat_step ev w)) i = Some q' \<and> settled_by w ev i q q')
    \<and> (\<exists>q'. map_of (w_questions (chat_run evs w)) i = Some q' \<and> cq_chat q' = cq_chat q \<and> (cq_state q \<noteq> QOpen \<longrightarrow> q' = q))"
  using step_question [OF assms] run_question [OF assms] by blast

text \<open>A world with one open question and a session that takes the answer.\<close>

definition demo_question :: "question_state \<Rightarrow> chat_question" where
  "demo_question st = \<lparr>cq_chat = Some 1, cq_state = st\<rparr>"

definition one_question :: chat_world where
  "one_question = \<lparr>w_chats = [], w_msgs = [], w_nextMsg = 1, w_atts = [], w_todos = [], w_usage = [],
     w_questions = [(''q'', demo_question QOpen)], w_sessions = [(1, 0)], w_pending = [], w_timers = [], w_inflight = [],
     w_turns = [], w_nextTurn = 0, w_aborted = []\<rparr>"

theorem chat_question_settled_once_witness:
  "let w = chat_step (CeAnswer True 1 ''q'' ''yes'') one_question;
       v = chat_run [CeAnswer True 1 ''q'' ''no'', CeCancel 1, CeRestart 0] w
   in map_of (w_questions w) ''q'' = Some (demo_question (QAnswered ''yes''))
      \<and> map_of (w_questions v) ''q'' = Some (demo_question (QAnswered ''yes''))"
proof -
  have a: "map_of (w_questions (chat_step (CeAnswer True 1 ''q'' ''yes'') one_question)) ''q''
      = Some (demo_question (QAnswered ''yes''))"
    by (simp add: one_question_def demo_question_def answer_chat_question_def)
  then show ?thesis
    using a chat_question_settled_once [OF a, of _ "[CeAnswer True 1 ''q'' ''no'', CeCancel 1, CeRestart 0]"]
    by (auto simp: Let_def demo_question_def)
qed

subsection \<open>Attachments\<close>

lemma msgs_of:
  "w_msgs (insert_msg n c r b w) = w_msgs w @ [\<lparr>m_id = w_nextMsg w, m_chat = c, m_role = r, m_body = b, m_at = n\<rparr>]"
  "w_msgs (chat_tool_call en n c nm i p u w) =
     w_msgs w @ [\<lparr>m_id = w_nextMsg w, m_chat = c, m_role = ''tool'', m_body = MCall nm i p u, m_at = n\<rparr>]"
  "w_msgs (chat_tool_result n c nm out w) =
     w_msgs w @ [\<lparr>m_id = w_nextMsg w, m_chat = c, m_role = ''tool'', m_body = MResult nm out, m_at = n\<rparr>]"
  "w_msgs (save_message n c r b' ids w) =
     w_msgs w @ [\<lparr>m_id = w_nextMsg w, m_chat = c, m_role = r, m_body = MText b', m_at = n\<rparr>]"
  by (simp_all add: insert_msg_def chat_tool_call_def chat_tool_result_def save_message_def Let_def)

lemma msgs_flush: "prefix (w_msgs (snd tw)) (w_msgs (snd (flushPending n tw)))"
  by (simp add: flushPending_def flush_text_def flush_thinking_def split_beta msgs_of prefix_def)

lemma msgs_anchor: "prefix (w_msgs (snd tw)) (w_msgs (snd (anchor_row n tw)))"
  by (simp add: anchor_row_def split_beta msgs_of split: option.split)

lemma msgs_event:
  "prefix (w_msgs w) (w_msgs (snd (stream_event en n ev (t, w))))"
  "prefix (w_msgs w) (w_msgs (snd (plain_event en n ev (t, w))))"
proof -
  show "prefix (w_msgs w) (w_msgs (snd (stream_event en n ev (t, w))))"
    using msgs_flush [of "(t, w)" n] by (cases ev) (simp_all add: split_beta msgs_of persistChatQuestion_def)
  show "prefix (w_msgs w) (w_msgs (snd (plain_event en n ev (t, w))))"
    by (cases ev) (simp_all add: msgs_of persistChatQuestion_def)
qed

lemma msgs_ends:
  "prefix (w_msgs w) (w_msgs (plain_ends m n err a t w))"
  "prefix (w_msgs w) (w_msgs (resumed_ends m n err a t w))"
  "prefix (w_msgs w) (w_msgs (stream_drained m n err a t w))"
  by (simp_all add: plain_ends_def resumed_ends_def stream_drained_def Let_def split_beta msgs_of
      split: option.split) (use msgs_flush [of "(t, w)" n] in simp)

lemma msgs_settles: "prefix (w_msgs w) (w_msgs (stream_settles n a t w))"
proof -
  have "prefix (w_msgs w) (w_msgs (snd (anchor_row n (flushPending n (t, w)))))"
    using msgs_flush [of "(t, w)" n] msgs_anchor [of "flushPending n (t, w)" n] by (metis prefix_order.trans snd_conv)
  then show ?thesis
    by (simp add: settles_defs Let_def split_beta del: anchor_row_frame split: option.split turn_phase.split)
qed

lemma msgs_starts:
  "prefix (w_msgs w) (w_msgs (snd (plain_message en n body a t w)))"
  "prefix (w_msgs w) (w_msgs (snd (stream_message en n body a t w)))"
  by (simp_all add: plain_message_def stream_message_def Let_def split_beta msgs_of split: option.split sum.split)

lemma fold_timers_rest:
  "w_msgs (fold (\<lambda>(i, r) w. case c_resumeAt r of Some ms \<Rightarrow> chat_timer n i ms w | None \<Rightarrow> w) xs w) = w_msgs w"
  "w_atts (fold (\<lambda>(i, r) w. case c_resumeAt r of Some ms \<Rightarrow> chat_timer n i ms w | None \<Rightarrow> w) xs w) = w_atts w"
  by (induction xs arbitrary: w) (auto split: option.split)

lemma restart_rest: "w_msgs (restart n w) = w_msgs w" "w_atts (restart n w) = w_atts w"
  by (simp_all add: restart_def recoverChats_def fold_timers_rest sweepOrphanedRunningChats_def sweepOrphanedChatQuestions_def)

lemma decide_rest:
  "w_msgs (keep_on_error w (decide_chat v nt c w)) = w_msgs w" "w_atts (keep_on_error w (decide_chat v nt c w)) = w_atts w"
  by (simp_all add: keep_on_error_def decide_chat_def split: option.split)

lemma resume_rest:
  "w_msgs (resumeChatAfterRateLimit en a t w) = w_msgs w" "w_atts (resumeChatAfterRateLimit en a t w) = w_atts w"
  "w_msgs (wake_chat c w) = w_msgs w" "w_atts (wake_chat c w) = w_atts w"
  "w_msgs (arrive k c w) = w_msgs w" "w_atts (arrive k c w) = w_atts w"
  "w_msgs (session_opens a t w) = w_msgs w" "w_atts (session_opens a t w) = w_atts w"
  "w_msgs (cancel_all_chats w) = w_msgs w" "w_atts (cancel_all_chats w) = w_atts w"
  "w_msgs (snd (cancel_chat c w)) = w_msgs w" "w_atts (snd (cancel_chat c w)) = w_atts w"
  "w_msgs (snd (answer_chat_question ok c i ans w)) = w_msgs w" "w_atts (snd (answer_chat_question ok c i ans w)) = w_atts w"
  by (simp_all add: resumeChatAfterRateLimit_def wake_done_def wake_chat_def arrive_def session_opens_def cancel_all_chats_def
      cancel_chat_def cancelPendingQuestions_def answer_chat_question_def Let_def split: option.split)

lemma step_msgs: "prefix (w_msgs w) (w_msgs (chat_step ev w))"
  by (cases ev)
    (simp_all add: with_turn_def session_says_def split_beta msgs_event msgs_ends msgs_settles msgs_starts resume_rest
      restart_rest approve_chat_def reject_chat_def decide_rest split: option.split turn_phase.split sum.split)

lemma attachments_for_free:
  assumes "attachments_for c body atts = Inr ids" "r \<in> set atts" "at_id r \<in> set ids"
  shows "at_chat r = c \<and> at_message r = None"
proof -
  obtain v where "validateAttachmentsForMessage c ids atts = Inr v"
    using assms(1) by (auto simp: attachments_for_def bind_err_Inr_iff)
  then have "\<not> list_ex (\<lambda>r. at_chat r \<noteq> c \<or> at_message r \<noteq> None) (att_rows (unique_ids ids) atts)"
    using assms(3) by (auto simp: validateAttachmentsForMessage_def Let_def split: if_splits)
  then show ?thesis using assms(2,3)
    by (auto simp: list_ex_iff att_rows_def unique_ids_def)
qed

definition saves :: "int \<Rightarrow> chat_world \<Rightarrow> chat_world \<Rightarrow> bool" where
  "saves c w w' \<longleftrightarrow> (\<exists>body ids m. attachments_for c body (w_atts w) = Inr ids \<and> m_chat m = c \<and> m_id m = w_nextMsg w
     \<and> w_atts w' = snd (linkAttachmentsToMessage (w_nextMsg w) ids (w_atts w)) \<and> w_msgs w' = w_msgs w @ [m])"

lemma plain_message_atts:
  "w_atts (snd (plain_message en n body a t w)) = w_atts w \<or> saves (tn_chat t) w (snd (plain_message en n body a t w))"
proof (cases "plain_request en body (tn_row t)")
  case (Inr r)
  obtain content role sel where r: "r = (content, role, sel)" by (cases r)
  show ?thesis
  proof (cases "attachments_for (tn_chat t) body (w_atts w)")
    case (Inr ids)
    have "saves (tn_chat t) w (snd (plain_message en n body a t w))"
      unfolding saves_def
      by (rule exI [of _ body], rule exI [of _ ids], rule exI)
        (auto simp: plain_message_def \<open>plain_request en body (tn_row t) = Inr r\<close> r Inr Let_def msgs_of, auto simp: save_message_def)
    then show ?thesis ..
  qed (simp add: plain_message_def Inr r Let_def)
qed (simp add: plain_message_def)

lemma stream_message_atts:
  "w_atts (snd (stream_message en n body a t w)) = w_atts w \<or> saves (tn_chat t) w (snd (stream_message en n body a t w))"
proof (cases "bind_err (message_content body) (\<lambda>content. bind_err (allowed_key en body (tn_row t)) (\<lambda>keyId.
    bind_err (attachments_for (tn_chat t) body (w_atts w)) (\<lambda>ids. Inr (content, keyId, ids)))) :: chat_error + (string \<times> int option \<times> int list)")
  case (Inr r)
  then obtain content keyId ids where r: "r = (content, keyId, ids)" "attachments_for (tn_chat t) body (w_atts w) = Inr ids"
    by (auto simp: bind_err_Inr_iff)
  have "saves (tn_chat t) w (snd (stream_message en n body a t w))"
    unfolding saves_def stream_message_def Let_def Inr
    by (rule exI [of _ body], rule exI [of _ ids], rule exI) (auto simp: r msgs_of split: sum.split, auto simp: save_message_def)
  then show ?thesis ..
qed (simp add: stream_message_def Let_def)

text \<open>A linked attachment belongs to the chat of its message.\<close>

definition att_ok :: "chat_world \<Rightarrow> bool" where
  "att_ok w \<longleftrightarrow> (\<forall>r \<in> set (w_atts w). \<forall>i. at_message r = Some i \<longrightarrow>
     (\<exists>m \<in> set (w_msgs w). m_id m = i \<and> m_chat m = at_chat r))"

definition att_kept :: "att_row list \<Rightarrow> att_row list \<Rightarrow> bool" where
  "att_kept xs ys \<longleftrightarrow> (\<forall>r \<in> set xs. \<exists>r' \<in> set ys. at_id r' = at_id r \<and> at_chat r' = at_chat r
     \<and> (at_message r \<noteq> None \<longrightarrow> r' = r))"

lemma att_kept_refl: "att_kept xs xs"
  by (auto simp: att_kept_def)

lemma att_kept_trans: "att_kept xs ys \<Longrightarrow> att_kept ys zs \<Longrightarrow> att_kept xs zs"
  unfolding att_kept_def by metis

lemma link_rows:
  "snd (linkAttachmentsToMessage i ids atts) = map (\<lambda>r. if at_id r \<in> set ids then r\<lparr>at_message := Some i\<rparr> else r) atts"
  by (simp add: linkAttachmentsToMessage_def unique_ids_def Let_def)

lemma saves_keeps:
  assumes "saves c w w'"
  shows "att_kept (w_atts w) (w_atts w')" "att_ok w \<Longrightarrow> att_ok w'"
proof -
  obtain body ids m where s: "attachments_for c body (w_atts w) = Inr ids" "m_chat m = c" "m_id m = w_nextMsg w"
    "w_atts w' = snd (linkAttachmentsToMessage (w_nextMsg w) ids (w_atts w))" "w_msgs w' = w_msgs w @ [m]"
    using assms by (auto simp: saves_def)
  note free = attachments_for_free [OF s(1)]
  show "att_kept (w_atts w) (w_atts w')"
    unfolding att_kept_def s(4) link_rows
  proof
    fix r assume r: "r \<in> set (w_atts w)"
    let ?f = "\<lambda>r. if at_id r \<in> set ids then r\<lparr>at_message := Some (w_nextMsg w)\<rparr> else r"
    have "?f r \<in> set (map ?f (w_atts w))" using r by simp
    then show "\<exists>r' \<in> set (map ?f (w_atts w)). at_id r' = at_id r \<and> at_chat r' = at_chat r \<and> (at_message r \<noteq> None \<longrightarrow> r' = r)"
      by (rule bexI [rotated]) (use free [OF r] in auto)
  qed
  show "att_ok w'" if "att_ok w"
    unfolding att_ok_def
  proof (intro ballI allI impI)
    fix r i assume r: "r \<in> set (w_atts w')" "at_message r = Some i"
    then obtain r0 where r0: "r0 \<in> set (w_atts w)" "r = (if at_id r0 \<in> set ids then r0\<lparr>at_message := Some (w_nextMsg w)\<rparr> else r0)"
      by (auto simp: s(4) link_rows)
    show "\<exists>m \<in> set (w_msgs w'). m_id m = i \<and> m_chat m = at_chat r"
    proof (cases "at_id r0 \<in> set ids")
      case True
      then show ?thesis using r r0 s(2,3) free [OF r0(1) True] by (simp add: s(5))
    next
      case False
      then show ?thesis using r r0 that by (auto simp: s(5) att_ok_def)
    qed
  qed
qed

lemma event_atts:
  "w_atts (snd (stream_event en n ev (t, w))) = w_atts w" "w_atts (snd (plain_event en n ev (t, w))) = w_atts w"
  by (cases ev; simp add: split_beta persistChatQuestion_def)+

lemma ends_atts:
  "w_atts (plain_ends m n err a t w) = w_atts w" "w_atts (resumed_ends m n err a t w) = w_atts w"
  "w_atts (stream_drained m n err a t w) = w_atts w" "w_atts (stream_settles n a t w) = w_atts w"
  by (simp_all add: plain_ends_def resumed_ends_def stream_drained_def settles_defs Let_def split_beta
      split: option.split turn_phase.split)

lemma step_atts:
  "w_atts (chat_step ev w) = w_atts w \<or> (\<exists>c. saves c w (chat_step ev w))
   \<or> (\<exists>i c n. w_atts (chat_step ev w) = w_atts w @ [\<lparr>at_id = i, at_chat = c, at_message = None, at_size = n\<rparr>]
        \<and> w_msgs (chat_step ev w) = w_msgs w)"
proof (cases ev)
  case (CeBody en n a body)
  show ?thesis
  proof (cases "map_of (w_turns w) a")
    case (Some t)
    then show ?thesis using plain_message_atts [of en n body a t w] stream_message_atts [of en n body a t w]
      by (auto simp: CeBody with_turn_def)
  qed (simp add: CeBody with_turn_def)
qed (auto simp: with_turn_def session_says_def split_beta event_atts ends_atts resume_rest restart_rest approve_chat_def
    reject_chat_def decide_rest split: option.split turn_phase.split sum.split)

lemma step_att_kept:
  "att_kept (w_atts w) (w_atts (chat_step ev w))" "att_ok w \<Longrightarrow> att_ok (chat_step ev w)"
proof -
  have more: "m \<in> set (w_msgs w) \<Longrightarrow> m \<in> set (w_msgs (chat_step ev w))" for m
    using step_msgs [of w ev] by (auto simp: prefix_def)
  show "att_kept (w_atts w) (w_atts (chat_step ev w))"
    using step_atts [of ev w] saves_keeps(1) by (auto simp: att_kept_refl) (fastforce simp: att_kept_def)
  show "att_ok (chat_step ev w)" if "att_ok w"
    using step_atts [of ev w]
  proof (elim disjE exE)
    assume "w_atts (chat_step ev w) = w_atts w"
    then show ?thesis using that more by (fastforce simp: att_ok_def)
  next
    fix c assume "saves c w (chat_step ev w)"
    then show ?thesis using saves_keeps(2) that by blast
  next
    fix i c n assume "w_atts (chat_step ev w) = w_atts w @ [\<lparr>at_id = i, at_chat = c, at_message = None, at_size = n\<rparr>]
        \<and> w_msgs (chat_step ev w) = w_msgs w"
    then show ?thesis using that by (auto simp: att_ok_def)
  qed
qed

text \<open>C12: an attachment is sent with at most one message, and only with a message of its own chat.  Whatever happens,
  once it is linked its row never changes, and the message that it is linked to exists and belongs to the chat that
  the file was uploaded to.\<close>

theorem attachment_linked_once:
  assumes "att_ok w"
  shows "att_ok (chat_run evs w) \<and> att_kept (w_atts w) (w_atts (chat_run evs w))"
  using assms unfolding chat_run_def
proof (induction evs arbitrary: w)
  case (Cons ev evs)
  then show ?case using step_att_kept [of w ev] Cons.IH [of "chat_step ev w"] att_kept_trans by fastforce
qed (simp add: att_kept_refl)

text \<open>A file is sent, and sent again with another message, which is refused.\<close>

definition with_file :: "nat \<Rightarrow> string \<Rightarrow> chat_event list" where
  "with_file a s = [CeArrive Streaming 1, CeBody no_keys 0 a ((''attachment_ids'', JArr [JNum 5]) # says s), CeOpened a]"

theorem attachment_linked_once_witness:
  "let w = chat_run (CeUpload 5 1 10 # with_file 0 ''look'') one_chat; v = chat_run (with_file 1 ''again'') w
   in w_atts w = [\<lparr>at_id = 5, at_chat = 1, at_message = Some 1, at_size = 10\<rparr>] \<and> att_kept (w_atts w) (w_atts v)
      \<and> att_ok v \<and> map m_body (w_msgs v) = [MText ''look'']"
proof -
  have o: "att_ok one_chat" by (simp add: att_ok_def one_chat_def)
  have w: "att_ok (chat_run (CeUpload 5 1 10 # with_file 0 ''look'') one_chat)"
    using attachment_linked_once [OF o] by blast
  have m: "map m_body (w_msgs (chat_run (with_file 1 ''again'') (chat_run (CeUpload 5 1 10 # with_file 0 ''look'') one_chat)))
      = [MText ''look'']"
    "w_atts (chat_run (CeUpload 5 1 10 # with_file 0 ''look'') one_chat)
      = [\<lparr>at_id = 5, at_chat = 1, at_message = Some 1, at_size = 10\<rparr>]"
    by (simp_all add: chat_eval with_file_def MAX_ATTACHMENTS_PER_MESSAGE_def MAX_MESSAGE_ATTACHMENTS_TOTAL_BYTES_def att_rows_def Let_def)
  show ?thesis using attachment_linked_once [OF w] m by (simp add: Let_def)
qed

end
