(* ===== verification/ChatTurnProps.thy ===== *)
theory ChatTurnProps
  imports ChatProps
begin

text \<open>
  Which session answers for a chat, and which parked chat is woken; what a streamed turn writes; and schedules in
  which two turns of a chat meet.
\<close>

subsection \<open>The registered session\<close>

fun under_way :: "turn_phase \<Rightarrow> bool" where
  "under_way Live = True"
| "under_way (RunOver _) = True"
| "under_way (Drained _) = True"
| "under_way (Saved _) = True"
| "under_way (Titled _) = True"
| "under_way Closing = True"
| "under_way _ = False"

definition backed :: "(nat \<rightharpoonup> turn) \<Rightarrow> (int \<rightharpoonup> nat) \<Rightarrow> bool" where
  "backed T S \<longleftrightarrow> (\<forall>c a. S c = Some a \<longrightarrow> (\<exists>t. T a = Some t \<and> tn_chat t = c \<and> under_way (tn_phase t)))"

definition reached :: "(nat \<rightharpoonup> turn) \<Rightarrow> (int \<rightharpoonup> nat) \<Rightarrow> bool" where
  "reached T S \<longleftrightarrow> (\<forall>a t. T a = Some t \<longrightarrow> under_way (tn_phase t) \<longrightarrow> S (tn_chat t) = Some a)"

definition apart :: "(nat \<rightharpoonup> turn) \<Rightarrow> bool" where
  "apart T \<longleftrightarrow> (\<forall>a b t u. T a = Some t \<longrightarrow> T b = Some u \<longrightarrow> tn_chat t = tn_chat u \<longrightarrow> a = b)"

definition maps_ok :: "(nat \<rightharpoonup> turn) \<Rightarrow> (int \<rightharpoonup> nat) \<Rightarrow> bool" where
  "maps_ok T S \<longleftrightarrow> backed T S \<and> reached T S \<and> apart T"

definition turns_ok :: "chat_world \<Rightarrow> bool" where
  "turns_ok w \<longleftrightarrow> (\<forall>a. w_nextTurn w \<le> a \<longrightarrow> map_of (w_turns w) a = None)
     \<and> maps_ok (map_of (w_turns w)) (map_of (w_sessions w))"

lemma maps_put:
  assumes "maps_ok T S" "T a = Some t" "tn_chat t' = tn_chat t" "under_way (tn_phase t') = under_way (tn_phase t)"
  shows "maps_ok (T(a \<mapsto> t')) S"
proof -
  have "backed (T(a \<mapsto> t')) S" using assms by (force simp: maps_ok_def backed_def)
  moreover have "reached (T(a \<mapsto> t')) S" using assms by (auto simp: maps_ok_def reached_def)
  moreover have "apart (T(a \<mapsto> t'))" using assms unfolding maps_ok_def apart_def by (auto split: if_splits)
  ultimately show ?thesis by (simp add: maps_ok_def)
qed

lemma maps_drop:
  assumes "maps_ok T S" "T a = Some t" "\<not> under_way (tn_phase t)"
  shows "maps_ok (T(a := None)) S"
proof -
  have "backed (T(a := None)) S" using assms by (force simp: maps_ok_def backed_def)
  moreover have "reached (T(a := None)) S" "apart (T(a := None))"
    using assms by (auto simp: maps_ok_def reached_def apart_def split: if_splits)
  ultimately show ?thesis by (simp add: maps_ok_def)
qed

lemma maps_over:
  assumes "maps_ok T S" "T a = Some t"
  shows "maps_ok (T(a := None)) (S(tn_chat t := None))"
proof -
  have "backed (T(a := None)) (S(tn_chat t := None))" using assms by (force simp: maps_ok_def backed_def)
  moreover have "reached (T(a := None)) (S(tn_chat t := None))"
    using assms by (auto simp: maps_ok_def reached_def apart_def split: if_splits)
  moreover have "apart (T(a := None))" using assms by (auto simp: maps_ok_def apart_def split: if_splits)
  ultimately show ?thesis by (simp add: maps_ok_def)
qed

lemma maps_open:
  assumes "maps_ok T S" "T a = Some t" "tn_chat t' = tn_chat t" "under_way (tn_phase t')"
  shows "maps_ok (T(a \<mapsto> t')) (S(tn_chat t \<mapsto> a))"
proof -
  have "backed (T(a \<mapsto> t')) (S(tn_chat t \<mapsto> a))" using assms by (force simp: maps_ok_def backed_def)
  moreover have "reached (T(a \<mapsto> t')) (S(tn_chat t \<mapsto> a))"
    using assms by (auto simp: maps_ok_def reached_def apart_def)
  moreover have "apart (T(a \<mapsto> t'))" using assms unfolding maps_ok_def apart_def by (auto split: if_splits)
  ultimately show ?thesis by (simp add: maps_ok_def)
qed

lemma maps_begin:
  assumes "maps_ok T S" "T a = None" "\<not> under_way (tn_phase t)" "\<And>b u. T b = Some u \<Longrightarrow> tn_chat u \<noteq> tn_chat t"
  shows "maps_ok (T(a \<mapsto> t)) S"
proof -
  have "backed (T(a \<mapsto> t)) S" using assms by (force simp: maps_ok_def backed_def)
  moreover have "reached (T(a \<mapsto> t)) S" using assms by (auto simp: maps_ok_def reached_def)
  moreover have "apart (T(a \<mapsto> t))"
    using assms(1) assms(4) unfolding maps_ok_def apart_def by (auto split: if_splits) (metis assms(4))+
  ultimately show ?thesis by (simp add: maps_ok_def)
qed

text \<open>A new turn of a chat begins only when no other is in flight.\<close>

definition no_turn_of :: "int \<Rightarrow> chat_world \<Rightarrow> bool" where
  "no_turn_of c w \<longleftrightarrow> list_all (\<lambda>(_, t). tn_chat t \<noteq> c) (w_turns w)"

fun one_turn_each :: "chat_event \<Rightarrow> chat_world \<Rightarrow> bool" where
  "one_turn_each (CeArrive k c) w = no_turn_of c w"
| "one_turn_each (CeWake c) w = no_turn_of c w"
| "one_turn_each _ w = True"

lemma ok_same:
  assumes "turns_ok w" "w_turns w' = w_turns w" "w_sessions w' = w_sessions w" "w_nextTurn w' = w_nextTurn w"
  shows "turns_ok w'"
  using assms(1) unfolding turns_ok_def assms(2-4) .

lemma ok_put:
  assumes "turns_ok w" "map_of (w_turns w) a = Some t" "w_turns w' = AList.update a t' (w_turns w)"
    "tn_chat t' = tn_chat t" "under_way (tn_phase t') = under_way (tn_phase t)"
    "w_sessions w' = w_sessions w" "w_nextTurn w' = w_nextTurn w"
  shows "turns_ok w'"
  using assms maps_put [of "map_of (w_turns w)" "map_of (w_sessions w)" a t t'] by (auto simp: turns_ok_def update_conv')

lemma ok_drop:
  assumes "turns_ok w" "map_of (w_turns w) a = Some t" "\<not> under_way (tn_phase t)"
    "w_turns w' = AList.delete a (w_turns w)" "w_sessions w' = w_sessions w" "w_nextTurn w' = w_nextTurn w"
  shows "turns_ok w'"
  using assms maps_drop [of "map_of (w_turns w)" "map_of (w_sessions w)" a t] by (auto simp: turns_ok_def delete_conv')

lemma ok_over:
  assumes "turns_ok w" "map_of (w_turns w) a = Some t"
    "w_turns w' = AList.delete a (w_turns w)" "w_sessions w' = AList.delete (tn_chat t) (w_sessions w)"
    "w_nextTurn w' = w_nextTurn w"
  shows "turns_ok w'"
  using assms maps_over [of "map_of (w_turns w)" "map_of (w_sessions w)" a t] by (auto simp: turns_ok_def delete_conv')

lemma ok_open:
  assumes "turns_ok w" "map_of (w_turns w) a = Some t" "w_turns w' = AList.update a t' (w_turns w)"
    "tn_chat t' = tn_chat t" "under_way (tn_phase t')" "w_sessions w' = AList.update (tn_chat t) a (w_sessions w)"
    "w_nextTurn w' = w_nextTurn w"
  shows "turns_ok w'"
  using assms maps_open [of "map_of (w_turns w)" "map_of (w_sessions w)" a t t'] by (auto simp: turns_ok_def update_conv')

lemma ok_begin:
  assumes ok: "turns_ok w" and "no_turn_of (tn_chat t) w" "w_turns w' = w_turns w @ [(w_nextTurn w, t)]"
    "\<not> under_way (tn_phase t)" "w_sessions w' = w_sessions w" "w_nextTurn w' = w_nextTurn w + 1"
  shows "turns_ok w'"
proof -
  let ?n = "w_nextTurn w"
  have fresh: "map_of (w_turns w) ?n = None" using ok by (simp add: turns_ok_def)
  have get: "map_of (w_turns w') = (map_of (w_turns w))(?n \<mapsto> t)"
    using fresh by (intro ext) (simp add: assms(3) map_add_def split: option.split)
  have other: "tn_chat u \<noteq> tn_chat t" if "map_of (w_turns w) b = Some u" for b u
    using assms(2) map_of_SomeD [OF that] by (auto simp: no_turn_of_def list_all_iff)
  show ?thesis using ok assms(4-6) maps_begin [of "map_of (w_turns w)" "map_of (w_sessions w)" ?n t] fresh other
    by (auto simp: turns_ok_def get)
qed

lemma event_turn [simp]:
  "tn_chat (fst (stream_event en n ev (t, w))) = tn_chat t" "tn_phase (fst (stream_event en n ev (t, w))) = tn_phase t"
  "tn_chat (fst (plain_event en n ev (t, w))) = tn_chat t" "tn_phase (fst (plain_event en n ev (t, w))) = tn_phase t"
  by (cases ev; simp add: split_beta)+

lemma event_maps [simp]:
  "w_turns (snd (stream_event en n ev (t, w))) = w_turns w" "w_turns (snd (plain_event en n ev (t, w))) = w_turns w"
  "w_sessions (snd (stream_event en n ev (t, w))) = w_sessions w" "w_sessions (snd (plain_event en n ev (t, w))) = w_sessions w"
  "w_nextTurn (snd (stream_event en n ev (t, w))) = w_nextTurn w" "w_nextTurn (snd (plain_event en n ev (t, w))) = w_nextTurn w"
  by (cases ev; simp add: split_beta persistChatQuestion_def)+

lemma turn_maps:
  "w_turns (put_turn a t w) = AList.update a t (w_turns w)" "w_turns (drop_turn a w) = AList.delete a (w_turns w)"
  "w_turns (turn_over a t w) = AList.delete a (w_turns w)" "w_sessions (turn_over a t w) = AList.delete (tn_chat t) (w_sessions w)"
  "w_sessions (register c a w) = AList.update c a (w_sessions w)"
  "w_turns (wake_done a t w) = AList.delete a (w_turns w)" "w_sessions (wake_done a t w) = w_sessions w"
  "w_nextTurn (wake_done a t w) = w_nextTurn w"
  by (simp_all add: put_turn_def drop_turn_def turn_over_def unregister_def register_def wake_done_def)

text \<open>The same rules on the operations themselves, over a world that differs from \<open>w\<close> in its tables only.\<close>

lemma ok_put_turn:
  assumes "turns_ok w" "map_of (w_turns w) a = Some t" "w_turns v = w_turns w" "w_sessions v = w_sessions w"
    "w_nextTurn v = w_nextTurn w" "tn_chat t' = tn_chat t" "under_way (tn_phase t') = under_way (tn_phase t)"
  shows "turns_ok (put_turn a t' v)"
  using ok_put [OF assms(1,2), of "put_turn a t' v" t'] assms by (simp add: turn_maps)

lemma ok_drop_turn:
  assumes "turns_ok w" "map_of (w_turns w) a = Some t" "\<not> under_way (tn_phase t)" "w_turns v = w_turns w"
    "w_sessions v = w_sessions w" "w_nextTurn v = w_nextTurn w"
  shows "turns_ok (drop_turn a v)" "turns_ok (wake_done a u v)"
  using ok_drop [OF assms(1-3), of "drop_turn a v"] ok_drop [OF assms(1-3), of "wake_done a u v"] assms
  by (simp_all add: turn_maps)

lemma ok_register:
  assumes "turns_ok w" "map_of (w_turns w) a = Some t" "w_turns v = w_turns w" "w_sessions v = w_sessions w"
    "w_nextTurn v = w_nextTurn w" "tn_chat t' = tn_chat t" "under_way (tn_phase t')"
  shows "turns_ok (register (tn_chat t) a (put_turn a t' v))"
  using ok_open [OF assms(1,2), of "register (tn_chat t) a (put_turn a t' v)" t'] assms by (simp add: turn_maps)

lemma prepared_turn [simp]:
  "tn_chat (prepared en p k m b w t) = tn_chat t" "tn_phase (prepared en p k m b w t) = p"
  by (simp_all add: prepared_def)

lemma step_body_ok:
  assumes ok: "turns_ok w" and t: "map_of (w_turns w) a = Some t" "tn_phase t = Arrived"
  shows "turns_ok (snd (plain_message en n body a t w))" "turns_ok (snd (stream_message en n body a t w))"
proof -
  show "turns_ok (snd (plain_message en n body a t w))"
    by (auto simp: plain_message_def Let_def split: sum.split)
      (simp_all add: ok_drop_turn(1) [OF ok t(1)] ok_register [OF ok t(1)] t(2))
  show "turns_ok (snd (stream_message en n body a t w))"
    by (auto simp: stream_message_def Let_def split: sum.split)
      (simp_all add: ok_drop_turn(1) [OF ok t(1)] ok_put_turn [OF ok t(1)] t(2))
qed

lemma ends_turns:
  "w_turns (plain_ends m n err a t w) = AList.delete a (w_turns w)"
  "w_sessions (plain_ends m n err a t w) = AList.delete (tn_chat t) (w_sessions w)"
  "w_nextTurn (plain_ends m n err a t w) = w_nextTurn w"
  "w_turns (resumed_ends m n err a t w) = AList.delete a (w_turns w)"
  "w_sessions (resumed_ends m n err a t w) = AList.delete (tn_chat t) (w_sessions w)"
  "w_nextTurn (resumed_ends m n err a t w) = w_nextTurn w"
  by (simp_all add: plain_ends_def resumed_ends_def Let_def split_beta turn_maps split: option.split)

lemma step_ends_ok:
  assumes ok: "turns_ok w" and t: "map_of (w_turns w) a = Some t"
  shows "turns_ok (plain_ends m n err a t w)" "turns_ok (resumed_ends m n err a t w)"
    "turns_ok (turn_over a t w)"
  by (rule ok_over [OF ok t]; simp add: ends_turns turn_maps)+

lemma step_drained_ok:
  assumes ok: "turns_ok w" and t: "map_of (w_turns w) a = Some t" "tn_phase t = RunOver err"
  shows "turns_ok (stream_drained m n err a t w)"
  by (simp add: stream_drained_def Let_def split_beta ok_put_turn [OF ok t(1)] t(2) split: option.split)

lemma step_settles_ok:
  assumes ok: "turns_ok w" and t: "map_of (w_turns w) a = Some t"
  shows "turns_ok (stream_settles n a t w)"
proof (cases "tn_phase t")
  case (Drained l)
  then show ?thesis by (simp add: settles_defs ok_put_turn [OF ok t] split: option.split)
next
  case (Saved l)
  then show ?thesis by (simp add: settles_defs Let_def split_beta ok_put_turn [OF ok t])
next
  case (Titled l)
  then show ?thesis by (simp add: settles_defs ok_put_turn [OF ok t])
qed (simp_all add: settles_defs ok step_ends_ok(3) [OF ok t])

lemma step_resume_ok:
  assumes ok: "turns_ok w" and t: "map_of (w_turns w) a = Some t" "tn_phase t = Waking"
  shows "turns_ok (resumeChatAfterRateLimit en a t w)"
  by (auto simp: resumeChatAfterRateLimit_def Let_def split: option.split)
    (simp_all add: ok_drop_turn(2) [OF ok t(1)] ok_put_turn [OF ok t(1)] t(2))

lemma fold_timers_maps:
  "w_turns (fold (\<lambda>(i, r) w. case c_resumeAt r of Some ms \<Rightarrow> chat_timer n i ms w | None \<Rightarrow> w) xs w) = w_turns w"
  "w_sessions (fold (\<lambda>(i, r) w. case c_resumeAt r of Some ms \<Rightarrow> chat_timer n i ms w | None \<Rightarrow> w) xs w) = w_sessions w"
  "w_inflight (fold (\<lambda>(i, r) w. case c_resumeAt r of Some ms \<Rightarrow> chat_timer n i ms w | None \<Rightarrow> w) xs w) = w_inflight w"
  "w_chats (fold (\<lambda>(i, r) w. case c_resumeAt r of Some ms \<Rightarrow> chat_timer n i ms w | None \<Rightarrow> w) xs w) = w_chats w"
  by (induction xs arbitrary: w) (auto split: option.split)

lemma restart_maps: "w_turns (restart n w) = []" "w_sessions (restart n w) = []"
  by (simp_all add: restart_def recoverChats_def fold_timers_maps sweepOrphanedRunningChats_def sweepOrphanedChatQuestions_def)

lemma other_maps:
  "w_turns (snd (cancel_chat c w)) = w_turns w" "w_sessions (snd (cancel_chat c w)) = w_sessions w"
  "w_nextTurn (snd (cancel_chat c w)) = w_nextTurn w"
  "w_turns (snd (answer_chat_question k c i ans w)) = w_turns w" "w_sessions (snd (answer_chat_question k c i ans w)) = w_sessions w"
  "w_nextTurn (snd (answer_chat_question k c i ans w)) = w_nextTurn w"
  "w_turns (keep_on_error w (decide_chat v nt c w)) = w_turns w" "w_sessions (keep_on_error w (decide_chat v nt c w)) = w_sessions w"
  "w_nextTurn (keep_on_error w (decide_chat v nt c w)) = w_nextTurn w"
  "w_turns (cancel_all_chats w) = w_turns w" "w_sessions (cancel_all_chats w) = w_sessions w"
  "w_nextTurn (cancel_all_chats w) = w_nextTurn w"
  by (simp_all add: cancel_chat_def cancelPendingQuestions_def answer_chat_question_def keep_on_error_def decide_chat_def
      cancel_all_chats_def Let_def split: option.split)

lemma begin_ok:
  assumes "turns_ok w" "no_turn_of c w" "\<not> under_way p"
  shows "turns_ok (begin_turn k p c r w)"
  using ok_begin [of w "new_turn k p c r" "begin_turn k p c r w"] assms by (simp add: begin_turn_def new_turn_def)

lemma step_turns_ok:
  assumes ok: "turns_ok w" and "one_turn_each ev w"
  shows "turns_ok (chat_step ev w)"
proof -
  note same = ok_same [OF ok]
  have act: "turns_ok (with_turn a f w)" if "\<And>t. map_of (w_turns w) a = Some t \<Longrightarrow> turns_ok (f t w)" for a f
    using that ok by (simp add: with_turn_def split: option.split)
  show ?thesis
  proof (cases ev)
    case (CeArrive k c)
    then show ?thesis using assms by (auto simp: arrive_def intro!: begin_ok split: option.split)
  next
    case (CeBody en n a body)
    then show ?thesis using ok step_body_ok [OF ok] by (auto intro!: act)
  next
    case (CeOpened a)
    then show ?thesis using ok by (auto simp: session_opens_def intro!: act ok_register [OF ok])
  next
    case (CeSays en n a sev)
    then show ?thesis using ok
      by (auto simp: session_says_def split_beta intro!: act ok_put_turn [OF ok])
  next
    case (CeRunEnds m n a err)
    then show ?thesis using ok
      by (auto intro!: act ok_put_turn [OF ok] step_ends_ok [OF ok])
  next
    case (CeDrained m n a)
    then show ?thesis using ok step_drained_ok [OF ok] by (auto intro!: act split: turn_phase.split)
  next
    case (CeSettles n a)
    then show ?thesis using ok by (auto intro!: act step_settles_ok [OF ok])
  next
    case (CeWake c)
    have "turns_ok (w\<lparr>w_timers := ts\<rparr>)" "turns_ok (w\<lparr>w_timers := ts, w_inflight := xs\<rparr>)"
      "no_turn_of c (w\<lparr>w_timers := ts, w_inflight := xs\<rparr>)" for ts xs
      using ok assms(2) by (simp_all add: CeWake turns_ok_def no_turn_of_def)
    then show ?thesis using ok
      by (auto simp: CeWake wake_chat_def Let_def cancel_chat_timer_def intro!: begin_ok split: option.split)
  next
    case (CeResume en a)
    then show ?thesis using ok step_resume_ok [OF ok] by (auto intro!: act)
  next
    case (CeRestart n)
    then show ?thesis by (simp add: restart_maps turns_ok_def maps_ok_def backed_def reached_def apart_def)
  qed (auto intro!: same simp: other_maps approve_chat_def reject_chat_def split: option.split sum.split)
qed

interpretation chat_turns: guarded_run chat_step one_turn_each turns_ok
  by unfold_locales (rule step_turns_ok)

text \<open>C9: if no turn of a chat begins while another one is in flight, then at every moment the registered session of
  a chat is that of its turn: every turn whose session runs is the one that is registered for its chat, the chat
  counts as running, and cancelling the chat aborts the session of that turn; and what is registered belongs to a
  turn of that chat whose session runs.\<close>

theorem cancel_reaches_the_turn:
  assumes "along chat_step one_turn_each evs w0" "turns_ok w0"
  defines "w \<equiv> chat_run evs w0"
  shows "(\<forall>a t. map_of (w_turns w) a = Some t \<and> under_way (tn_phase t) \<longrightarrow>
        isRunning (tn_chat t) w \<and> map_of (w_sessions w) (tn_chat t) = Some a
        \<and> fst (cancel_chat (tn_chat t) w) \<and> a \<in> set (w_aborted (snd (cancel_chat (tn_chat t) w))))
    \<and> (\<forall>c a. map_of (w_sessions w) c = Some a \<longrightarrow>
        (\<exists>t. map_of (w_turns w) a = Some t \<and> tn_chat t = c \<and> under_way (tn_phase t)))"
proof -
  have "turns_ok w" unfolding w_def chat_run_def by (rule chat_turns.run_inv [OF assms(1,2)])
  then have m: "backed (map_of (w_turns w)) (map_of (w_sessions w))" "reached (map_of (w_turns w)) (map_of (w_sessions w))"
    by (simp_all add: turns_ok_def maps_ok_def)
  have "isRunning c w \<and> fst (cancel_chat c w) \<and> a \<in> set (w_aborted (snd (cancel_chat c w)))"
    if "map_of (w_sessions w) c = Some a" for c a
    using that by (simp add: isRunning_def jm_has_def cancel_chat_def cancelPendingQuestions_def Let_def)
  then show ?thesis using m unfolding backed_def reached_def by blast
qed

theorem cancel_reaches_the_turn_witness:
  "let w = chat_run (opens 0 ''hello'') one_chat
   in map_of (w_sessions w) 1 = Some 0 \<and> fst (cancel_chat 1 w) \<and> 0 \<in> set (w_aborted (snd (cancel_chat 1 w)))"
proof -
  have a: "along chat_step one_turn_each (opens 0 ''hello'') one_chat"
    by (simp add: chat_eval no_turn_of_def Let_def)
  have w: "turns_ok one_chat" by (simp add: turns_ok_def one_chat_def maps_ok_def backed_def reached_def apart_def)
  have "map_option (\<lambda>t. (tn_chat t, under_way (tn_phase t))) (map_of (w_turns (chat_run (opens 0 ''hello'') one_chat)) 0)
      = Some (1, True)"
    by (simp add: chat_eval Let_def)
  then obtain t where t: "map_of (w_turns (chat_run (opens 0 ''hello'') one_chat)) 0 = Some t" "tn_chat t = 1"
    "under_way (tn_phase t)"
    by auto
  then show ?thesis using cancel_reaches_the_turn [OF a w] unfolding Let_def by metis
qed

subsection \<open>When two turns of a chat meet\<close>

text \<open>Nothing keeps a second message from starting a second turn.  Its session replaces the first one in the
  map; and the first turn to end unregisters the other: the chat then counts as idle, and cannot be cancelled,
  while a session of it runs.\<close>

lemma second_turn_is_lost:
  "let w = chat_run (opens 0 ''one'' @ opens 1 ''two'' @ [CeRunEnds 0 0 0 None, CeDrained 0 0 0] @ settles 0 0) one_chat
   in map_option tn_phase (map_of (w_turns w) 1) = Some Live \<and> \<not> isRunning 1 w \<and> \<not> fst (cancel_chat 1 w)"
  by (simp add: chat_eval Let_def)

text \<open>A streamed message whose \<open>effort\<close> is not a level is refused after it has been stored and the chat has
  been claimed: the chat counts as running for good, with no turn at all.\<close>

lemma refused_message_claims_the_chat:
  "let w = chat_run [CeArrive Streaming 1, CeBody no_keys 0 0 ((''effort'', JStr ''extreme'') # says ''hello'')] one_chat
   in isRunning 1 w \<and> w_turns w = [] \<and> length (w_msgs w) = 1 \<and> \<not> fst (cancel_chat 1 w)"
  by (simp add: chat_eval Let_def)

end
