(* ===== verification/ChatSleepProps.thy ===== *)
theory ChatSleepProps
  imports ChatTurnProps
begin

text \<open>
  Parked chats: as long as nobody cancels it and its wake-ups do not overlap, a chat that waits for the end of a rate
  limit has a timer or is being woken; and what happens when these conditions fail.
\<close>

subsection \<open>The status of a chat\<close>

definition parked_state :: "chat_world \<Rightarrow> int \<Rightarrow> (string \<times> int option) option" where
  "parked_state w c = map_option (\<lambda>r. (c_status r, c_resumeAt r)) (chat_of w c)"

definition armed :: "chat_world \<Rightarrow> int \<Rightarrow> bool" where
  "armed w c \<longleftrightarrow> c \<in> fst ` set (w_timers w)"

definition waking :: "chat_world \<Rightarrow> int \<Rightarrow> bool" where
  "waking w c \<longleftrightarrow> (\<exists>a t. map_of (w_turns w) a = Some t \<and> tn_phase t = Waking \<and> tn_chat t = c)"

definition is_parked :: "chat_world \<Rightarrow> int \<Rightarrow> bool" where
  "is_parked w c \<longleftrightarrow> (\<exists>d. parked_state w c = Some (''rate_limited'', d))"

lemma chat_of_set: "chat_of (set_chat c f w) c' = (if c' = c then map_option f (chat_of w c') else chat_of w c')"
proof -
  have "map_of (map (\<lambda>(i, r). if i = c then (i, f r) else (i, r)) xs) c'
      = (if c' = c then map_option f (map_of xs c') else map_of xs c')" for xs
    by (induction xs) auto
  then show ?thesis by (simp add: chat_of_def set_chat_def)
qed

lemma state_same: "w_chats v = w_chats w \<Longrightarrow> parked_state v = parked_state w"
  by (intro ext) (simp add: parked_state_def chat_of_def)

lemma state_set:
  "(\<And>r. c_status (f r) = c_status r \<and> c_resumeAt (f r) = c_resumeAt r) \<Longrightarrow> parked_state (set_chat c f w) = parked_state w"
  by (intro ext) (simp add: parked_state_def chat_of_set option.map_comp o_def)

lemma selection_status [simp]:
  "c_status (persistChatSelection db chat sel r) = c_status r" "c_resumeAt (persistChatSelection db chat sel r) = c_resumeAt r"
  by (simp_all add: persistChatSelection_def)

lemma state_ops [simp]:
  "parked_state (insert_msg n c' r b w) = parked_state w" "parked_state (put_turn a t w) = parked_state w"
  "parked_state (drop_turn a w) = parked_state w" "parked_state (claim c' w) = parked_state w"
  "parked_state (register c' a w) = parked_state w" "parked_state (unregister c' w) = parked_state w"
  "parked_state (turn_over a t w) = parked_state w" "parked_state (record_usage m t w) = parked_state w"
  "parked_state (persistChatQuestion c' i w) = parked_state w" "parked_state (chat_tool_result n c' nm o' w) = parked_state w"
  "parked_state (save_message n c' r b' ids w) = parked_state w" "parked_state (begin_turn k p c' row w) = parked_state w"
  "parked_state (chat_timer n c' due w) = parked_state w" "parked_state (cancel_chat_timer c' w) = parked_state w"
  "parked_state (snd (flushPending n tw)) = parked_state (snd tw)"
  "parked_state (snd (anchor_row n tw)) = parked_state (snd tw)"
  by (rule state_same; simp)+

lemma state_columns [simp]:
  "parked_state (set_chat c' (\<lambda>r. r\<lparr>c_session := sid\<rparr>) w) = parked_state w"
  "parked_state (set_chat c' (\<lambda>r. r\<lparr>c_approval := ap\<rparr>) w) = parked_state w"
  "parked_state (set_chat c' (\<lambda>r. r\<lparr>c_approval := ap, c_approvalNote := nt\<rparr>) w) = parked_state w"
  "parked_state (set_chat c' (\<lambda>r. r\<lparr>c_edits := ed r\<rparr>) w) = parked_state w"
  "parked_state (set_chat c' (\<lambda>r. r\<lparr>c_title := ti\<rparr>) w) = parked_state w"
  "parked_state (set_chat c' (persistChatSelection db chat sel) w) = parked_state w"
  by (rule state_set; simp)+

lemma state_rows [simp]:
  "parked_state (store_session t s w) = parked_state w"
  "parked_state (markPendingApprovalIfRequired c' w) = parked_state w"
  "parked_state (chat_tool_call en n c' nm i p u w) = parked_state w"
  "parked_state (keep_on_error w (decide_chat v nt c' w)) = parked_state w"
proof -
  show "parked_state (store_session t s w) = parked_state w" by (simp add: store_session_def)
  show "parked_state (markPendingApprovalIfRequired c' w) = parked_state w"
    by (simp add: markPendingApprovalIfRequired_def split: option.split)
  show "parked_state (keep_on_error w (decide_chat v nt c' w)) = parked_state w"
    by (simp add: keep_on_error_def decide_chat_def split: option.split)
  have "parked_state (v\<lparr>w_todos := ts\<rparr>) = parked_state v" for v ts by (rule state_same) simp
  then show "parked_state (chat_tool_call en n c' nm i p u w) = parked_state w"
    by (simp add: chat_tool_call_def Let_def)
qed

lemma state_park:
  "parked_state (parkChatForRateLimit m c r w) =
     (\<lambda>c'. if c' = c \<and> chat_of w c \<noteq> None then Some (''rate_limited'', Some r) else parked_state w c')"
  by (intro ext) (auto simp: parkChatForRateLimit_def, auto simp: parked_state_def chat_of_set)

lemma state_event [simp]:
  "parked_state (snd (stream_event en n ev (t, w))) = parked_state w" "parked_state (snd (plain_event en n ev (t, w))) = parked_state w"
  by (cases ev; simp add: split_beta)+

lemma patch_status: "patchChat db body r = Inr r' \<Longrightarrow> c_status r' = c_status r \<and> c_resumeAt r' = c_resumeAt r"
  by (auto simp: patchChat_def bind_err_Inr_iff split: sum.splits if_splits)

subsection \<open>Parked chats are not forgotten\<close>

definition fresh_turns :: "chat_world \<Rightarrow> bool" where
  "fresh_turns w \<longleftrightarrow> (\<forall>a. w_nextTurn w \<le> a \<longrightarrow> map_of (w_turns w) a = None)"

definition asleep_ok :: "chat_world \<Rightarrow> bool" where
  "asleep_ok w \<longleftrightarrow> fresh_turns w
     \<and> (\<forall>c d. parked_state w c = Some (''rate_limited'', d) \<longrightarrow> d \<noteq> None \<and> (armed w c \<or> waking w c))"

fun undisturbed :: "chat_event \<Rightarrow> chat_world \<Rightarrow> bool" where
  "undisturbed (CeCancel c) w \<longleftrightarrow> False"
| "undisturbed CeShutdown w \<longleftrightarrow> False"
| "undisturbed (CeWake c) w \<longleftrightarrow> c \<notin> set (w_inflight w)"
| "undisturbed _ w \<longleftrightarrow> True"

definition calm :: "chat_world \<Rightarrow> chat_world \<Rightarrow> bool" where
  "calm w v \<longleftrightarrow> (\<forall>c. parked_state v c = parked_state w c \<and> (armed w c \<longrightarrow> armed v c) \<or> \<not> is_parked v c
     \<or> armed v c \<and> (\<exists>r. parked_state v c = Some (''rate_limited'', Some r)))"

lemma calm_same: "parked_state v = parked_state w \<Longrightarrow> w_timers v = w_timers w \<Longrightarrow> calm w v"
  by (simp add: calm_def armed_def)

lemma calm_trans: "calm u w \<Longrightarrow> calm w v \<Longrightarrow> calm u v"
proof -
  assume uw: "calm u w" and wv: "calm w v"
  have "parked_state v c = parked_state u c \<and> (armed u c \<longrightarrow> armed v c) \<or> \<not> is_parked v c
      \<or> armed v c \<and> (\<exists>r. parked_state v c = Some (''rate_limited'', Some r))" for c
    using uw [unfolded calm_def, rule_format, of c] wv [unfolded calm_def, rule_format, of c]
    by (elim disjE conjE exE) (simp_all add: is_parked_def)
  then show "calm u v" by (simp add: calm_def)
qed

lemma calm_park: "calm w (parkChatForRateLimit m c r w)"
proof -
  have "armed (parkChatForRateLimit m c r w) c' \<longleftrightarrow> c' = c \<or> armed w c'" for c'
    by (auto simp: parkChatForRateLimit_def armed_def chat_timer_def set_chat_def jm_delete_filter)
  then show ?thesis by (simp add: calm_def state_park)
qed

lemma calm_status:
  assumes "s \<noteq> ''rate_limited''"
  shows "calm w (set_chat c (\<lambda>r. r\<lparr>c_status := s\<rparr>) w)" "calm w (set_chat c (\<lambda>r. r\<lparr>c_status := s, c_resumeAt := d\<rparr>) w)"
  using assms by (auto simp: calm_def is_parked_def parked_state_def chat_of_set armed_def)

lemma asleep_calm:
  assumes "asleep_ok w" "calm w v" "fresh_turns v" "\<And>c. waking w c \<Longrightarrow> waking v c \<or> \<not> is_parked v c"
  shows "asleep_ok v"
proof -
  have "d \<noteq> None \<and> (armed v c \<or> waking v c)" if d: "parked_state v c = Some (''rate_limited'', d)" for c d
  proof -
    have p: "is_parked v c" using d by (auto simp: is_parked_def)
    from assms(2) p consider "parked_state v c = parked_state w c" "armed w c \<longrightarrow> armed v c"
      | "armed v c" "\<exists>r. parked_state v c = Some (''rate_limited'', Some r)"
      unfolding calm_def by blast
    then show ?thesis
    proof cases
      case 1
      then have "parked_state w c = Some (''rate_limited'', d)" using d by simp
      then have "d \<noteq> None \<and> (armed w c \<or> waking w c)" using assms(1) by (auto simp: asleep_ok_def)
      then show ?thesis using 1(2) assms(4) [of c] p by blast
    next
      case 2
      then show ?thesis using d by auto
    qed
  qed
  then show ?thesis using assms(3) by (simp add: asleep_ok_def)
qed

lemma calm_eq: "parked_state v = parked_state v' \<Longrightarrow> w_timers v = w_timers v' \<Longrightarrow> calm w v \<longleftrightarrow> calm w v'"
  by (simp add: calm_def armed_def is_parked_def)

lemma calm_ends: "calm w (plain_ends m n err a t w)" "calm w (resumed_ends m n err a t w)"
  "calm w (stream_drained m n err a t w)" "calm w (stream_settles n a t w)"
proof -
  have over: "calm w (turn_over a t v) \<longleftrightarrow> calm w v" for v by (rule calm_eq) simp_all
  have rest: "calm w (v\<lparr>w_inflight := xs\<rparr>) \<longleftrightarrow> calm w v" for v xs by (rule calm_eq) (rule state_same, simp_all)
  have put: "calm w (put_turn a u v) \<longleftrightarrow> calm w v" for v u by (rule calm_eq) simp_all
  show "calm w (plain_ends m n err a t w)"
  proof (cases "limit_of err")
    case None
    then show ?thesis
      by (simp add: plain_ends_def Let_def over) (rule calm_same; simp split: option.split)
  next
    case (Some r)
    then show ?thesis by (simp add: plain_ends_def over calm_park)
  qed
  show "calm w (resumed_ends m n err a t w)"
  proof (cases err)
    case None
    have "calm w (record_usage i t (insert_msg n c r x w))" "calm w (record_usage i t w)" for i c r x
      by (rule calm_same; simp)+
    then have "calm w (set_chat c' (\<lambda>r. r\<lparr>c_status := ''idle''\<rparr>) (record_usage i t (insert_msg n c r x w)))"
      "calm w (set_chat c' (\<lambda>r. r\<lparr>c_status := ''idle''\<rparr>) (record_usage i t w))" for i c r x c'
      by (auto intro: calm_trans [OF _ calm_status(1)])
    then show ?thesis by (simp add: resumed_ends_def Let_def over rest None)
  next
    case (Some e)
    then show ?thesis
      by (simp add: resumed_ends_def Let_def over rest calm_park calm_status split: option.split)
  qed
  show "calm w (stream_drained m n err a t w)"
  proof (cases "limit_of err")
    case None
    then show ?thesis by (simp add: stream_drained_def Let_def put) (rule calm_same; simp)
  next
    case (Some r)
    have "calm w (snd (flushPending n (t, w)))" by (rule calm_same) simp_all
    then show ?thesis using calm_trans calm_park by (simp add: stream_drained_def split_beta put Some)
  qed
  show "calm w (stream_settles n a t w)"
    by (rule calm_same) (simp_all add: settles_defs Let_def split_beta split: option.split turn_phase.split)
qed

text \<open>A step on the turn \<open>a\<close> replaces it or drops it.\<close>

definition touches :: "nat \<Rightarrow> chat_world \<Rightarrow> chat_world \<Rightarrow> bool" where
  "touches a w v \<longleftrightarrow> w_nextTurn v = w_nextTurn w
     \<and> (w_turns v = w_turns w \<or> (\<exists>t'. w_turns v = AList.update a t' (w_turns w)) \<or> w_turns v = AList.delete a (w_turns w))"

lemma touches_get:
  "touches a w v \<Longrightarrow> b \<noteq> a \<Longrightarrow> map_of (w_turns v) b = map_of (w_turns w) b"
  by (auto simp: touches_def jm_get_set jm_get_del)

lemma touches_fresh:
  assumes "fresh_turns w" "map_of (w_turns w) a = Some t" "touches a w v"
  shows "fresh_turns v"
proof -
  have "map_of (w_turns v) b = None" if "w_nextTurn w \<le> b" for b
    using assms that touches_get [OF assms(3), of b] by (cases "b = a") (auto simp: fresh_turns_def)
  then show ?thesis using assms(3) by (simp add: fresh_turns_def touches_def)
qed

lemma asleep_touch:
  assumes ok: "asleep_ok w" and t: "map_of (w_turns w) a = Some t" and "touches a w v" "calm w v"
    and fin: "tn_phase t = Waking \<Longrightarrow> \<not> is_parked v (tn_chat t)"
  shows "asleep_ok v"
proof (rule asleep_calm [OF ok assms(4)])
  show "fresh_turns v" using ok t assms(3) touches_fresh by (auto simp: asleep_ok_def)
  show "waking v c \<or> \<not> is_parked v c" if wk: "waking w c" for c
  proof -
    obtain b u where u: "map_of (w_turns w) b = Some u" "tn_phase u = Waking" "tn_chat u = c"
      using wk by (auto simp: waking_def)
    show ?thesis
    proof (cases "b = a")
      case True
      then show ?thesis using u t fin by simp
    next
      case False
      then have "map_of (w_turns v) b = Some u" using u touches_get [OF assms(3)] by simp
      then show ?thesis using u by (auto simp: waking_def)
    qed
  qed
qed

lemma asleep_same:
  assumes ok: "asleep_ok w" and "calm w v" "w_turns v = w_turns w" "w_nextTurn v = w_nextTurn w"
  shows "asleep_ok v"
  using asleep_calm [OF ok assms(2)] ok assms(3,4) by (simp add: asleep_ok_def fresh_turns_def waking_def)

lemma message_touches:
  "touches a w (snd (plain_message en n body a t w))" "touches a w (snd (stream_message en n body a t w))"
  by (auto simp: touches_def plain_message_def stream_message_def Let_def turn_maps split: sum.split)

lemma settles_touches: "touches a w (stream_settles n a t w)"
  by (auto simp: settles_defs touches_def turn_maps Let_def split_beta split: turn_phase.split option.split)

lemma message_calm:
  "calm w (snd (plain_message en n body a t w))" "calm w (snd (stream_message en n body a t w))"
proof -
  have "parked_state (snd (plain_message en n body a t w)) = parked_state w"
    by (simp add: plain_message_def Let_def split: sum.split prod.split)
  then show "calm w (snd (plain_message en n body a t w))"
    by (rule calm_same) (simp add: plain_message_def Let_def split: sum.split prod.split)
  have "parked_state (snd (stream_message en n body a t w)) = parked_state w"
    by (simp add: stream_message_def Let_def split: sum.split prod.split)
  then show "calm w (snd (stream_message en n body a t w))"
    by (rule calm_same) (simp add: stream_message_def Let_def split: sum.split prod.split)
qed

lemma says_timers: "w_timers (session_says en n ev a t w) = w_timers w" "parked_state (session_says en n ev a t w) = parked_state w"
proof -
  have "w_timers (snd (stream_event en n ev (t, w))) = w_timers w" "w_timers (snd (plain_event en n ev (t, w))) = w_timers w"
    by (cases ev; simp add: split_beta persistChatQuestion_def)+
  then show "w_timers (session_says en n ev a t w) = w_timers w" "parked_state (session_says en n ev a t w) = parked_state w"
    by (simp_all add: session_says_def split_beta)
qed

lemma resume_step:
  assumes "map_of (w_turns w) a = Some t"
  shows "touches a w (resumeChatAfterRateLimit en a t w)" "calm w (resumeChatAfterRateLimit en a t w)"
    "\<not> is_parked (resumeChatAfterRateLimit en a t w) (tn_chat t)"
proof -
  let ?v = "resumeChatAfterRateLimit en a t w"
  have fin: "parked_state (wake_done a t u) = parked_state u" "w_timers (wake_done a t u) = w_timers u" for u
    by (rule state_same, simp_all add: wake_done_def)
  show "touches a w ?v"
    by (auto simp: touches_def resumeChatAfterRateLimit_def Let_def turn_maps split: option.split)
  have put: "calm w (put_turn a u x) \<longleftrightarrow> calm w x" "calm w (wake_done a t x) \<longleftrightarrow> calm w x" for x u
    by (rule calm_eq; simp add: fin)+
  have "calm w w" by (rule calm_same) simp_all
  then show "calm w ?v"
    by (simp add: resumeChatAfterRateLimit_def Let_def put calm_status split: option.split)
  show "\<not> is_parked ?v (tn_chat t)"
    by (auto simp: resumeChatAfterRateLimit_def Let_def is_parked_def fin split: option.split)
      (auto simp: parked_state_def chat_of_set)
qed

lemma fold_timers_armed:
  "armed (fold (\<lambda>(i, r) w. case c_resumeAt r of Some ms \<Rightarrow> chat_timer n i ms w | None \<Rightarrow> w) xs w) c \<longleftrightarrow>
     armed w c \<or> (\<exists>r. (c, r) \<in> set xs \<and> c_resumeAt r \<noteq> None)"
proof (induction xs arbitrary: w)
  case (Cons p xs)
  have "armed (chat_timer n i ms w) c \<longleftrightarrow> c = i \<or> armed w c" for i ms
    by (auto simp: armed_def chat_timer_def jm_delete_filter)
  then show ?case using Cons.IH by (cases p) (auto split: option.split)
qed simp

lemma asleep_restart:
  assumes ok: "asleep_ok w"
  shows "asleep_ok (restart n w)"
proof -
  define u where "u = sweepOrphanedRunningChats (sweepOrphanedChatQuestions
       (w\<lparr>w_sessions := [], w_pending := [], w_timers := [], w_inflight := [], w_turns := [], w_aborted := []\<rparr>))"
  have chats: "w_chats u = map (\<lambda>(i, r). if c_status r = ''running'' then (i, r\<lparr>c_status := ''idle''\<rparr>) else (i, r)) (w_chats w)"
    by (simp add: u_def sweepOrphanedRunningChats_def sweepOrphanedChatQuestions_def)
  have v: "restart n w = recoverChats n u" by (simp add: restart_def u_def)
  have "d \<noteq> None \<and> armed (restart n w) c" if p: "parked_state (restart n w) c = Some (''rate_limited'', d)" for c d
  proof -
    have "parked_state u c = Some (''rate_limited'', d)"
      using p by (simp add: v recoverChats_def parked_state_def chat_of_def fold_timers_maps)
    then obtain r where r: "map_of (w_chats u) c = Some r" "c_status r = ''rate_limited''" "c_resumeAt r = d"
      by (auto simp: parked_state_def chat_of_def)
    then have "map_of (w_chats w) c = Some r"
      by (auto simp: chats map_of_map_value split_beta split: if_splits)
    then have "d \<noteq> None" using ok r by (auto simp: asleep_ok_def parked_state_def chat_of_def)
    moreover have "(c, r) \<in> set (w_chats u)" by (rule map_of_SomeD [OF r(1)])
    ultimately show ?thesis using r by (auto simp: v recoverChats_def fold_timers_armed)
  qed
  then show ?thesis using restart_maps(1) [of n w] by (simp add: asleep_ok_def fresh_turns_def)
qed

lemma asleep_step:
  assumes ok: "asleep_ok w" and g: "undisturbed ev w"
  shows "asleep_ok (chat_step ev w)"
proof -
  have act: "asleep_ok (with_turn a f w)"
    if "\<And>t. map_of (w_turns w) a = Some t \<Longrightarrow> asleep_ok (f t w)" for a f
    using that ok by (simp add: with_turn_def split: option.split)
  have turn: "asleep_ok v" if "map_of (w_turns w) a = Some t" "tn_phase t \<noteq> Waking" "touches a w v" "calm w v" for a t v
    by (rule asleep_touch [OF ok that(1,3,4)]) (use that(2) in simp)
  note same = asleep_same [OF ok calm_same]
  have fresh: "map_of (w_turns w) (w_nextTurn w) = None" using ok by (simp add: asleep_ok_def fresh_turns_def)
  have new: "asleep_ok (begin_turn k p c r v)"
    if v: "w_turns v = w_turns w" "w_nextTurn v = w_nextTurn w"
      and c: "\<And>c'. is_parked v c' \<Longrightarrow> parked_state v c' = parked_state w c' \<and> (armed w c' \<longrightarrow> armed v c' \<or> p = Waking \<and> c' = c)"
    for k p c r v
  proof -
    let ?b = "begin_turn k p c r v"
    have get: "map_of (w_turns ?b) = (map_of (w_turns w))(w_nextTurn w \<mapsto> new_turn k p c r)"
      using fresh by (intro ext) (simp add: begin_turn_def v map_add_def split: option.split)
    have "waking w c' \<Longrightarrow> waking ?b c'" for c'
      using fresh unfolding waking_def get by (metis fun_upd_other option.distinct(1))
    moreover have "p = Waking \<Longrightarrow> waking ?b c"
      unfolding waking_def get by (intro exI [of _ "w_nextTurn w"]) (simp add: new_turn_def)
    moreover have "armed ?b c' \<longleftrightarrow> armed v c'" for c' by (simp add: armed_def)
    moreover have "fresh_turns ?b"
      using ok get by (simp add: asleep_ok_def fresh_turns_def begin_turn_def v)
    ultimately show ?thesis using ok c by (fastforce simp: asleep_ok_def is_parked_def)
  qed
  have decide: "asleep_ok (keep_on_error w (decide_chat v nt c w))" for v nt c
    by (rule same) (simp_all add: other_maps, simp add: keep_on_error_def decide_chat_def split: option.split)
  show ?thesis
  proof (cases ev)
    case (CeArrive k c)
    then show ?thesis using ok by (auto simp: arrive_def intro!: new split: option.split)
  next
    case (CeBody en n a body)
    have "asleep_ok (snd (plain_message en n body a t w))" "asleep_ok (snd (stream_message en n body a t w))"
      if "map_of (w_turns w) a = Some t" "tn_phase t = Arrived" for t
      using that by (auto intro: turn [OF that(1) _ message_touches(1) message_calm(1)]
        turn [OF that(1) _ message_touches(2) message_calm(2)])
    then show ?thesis using ok by (auto simp: CeBody intro!: act)
  next
    case (CeOpened a)
    have "asleep_ok (session_opens a t w)" if "map_of (w_turns w) a = Some t" "tn_phase t = Opening" for t
      by (rule turn [OF that(1)]) (use that(2) in \<open>auto simp: session_opens_def touches_def turn_maps intro: calm_same\<close>)
    then show ?thesis using ok by (auto simp: CeOpened intro!: act)
  next
    case (CeSays en n a sev)
    have "asleep_ok (session_says en n sev a t w)" if "map_of (w_turns w) a = Some t" "tn_phase t = Live" for t
    proof (rule turn [OF that(1)])
      show "touches a w (session_says en n sev a t w)"
        by (auto simp: session_says_def touches_def turn_maps split_beta)
      show "calm w (session_says en n sev a t w)" by (rule calm_same) (simp_all add: says_timers)
    qed (simp add: that(2))
    then show ?thesis using ok by (auto simp: CeSays intro!: act)
  next
    case (CeRunEnds m n a err)
    have "asleep_ok (put_turn a u w)" "asleep_ok (plain_ends m n err a t w)" "asleep_ok (resumed_ends m n err a t w)"
      if "map_of (w_turns w) a = Some t" "tn_phase t = Live" for t u
      by (rule turn [OF that(1)]; use that(2) in \<open>auto simp: touches_def turn_maps ends_turns calm_ends intro: calm_same\<close>)+
    then show ?thesis using ok by (auto simp: CeRunEnds intro!: act)
  next
    case (CeDrained m n a)
    have "asleep_ok (stream_drained m n err a t w)" if "map_of (w_turns w) a = Some t" "tn_phase t = RunOver err" for t err
      by (rule turn [OF that(1) _ _ calm_ends(3)])
        (use that(2) in \<open>auto simp: stream_drained_def touches_def Let_def split_beta turn_maps split: option.split\<close>)
    then show ?thesis using ok by (auto simp: CeDrained intro!: act split: turn_phase.split)
  next
    case (CeSettles n a)
    have "asleep_ok (stream_settles n a t w)" if t: "map_of (w_turns w) a = Some t" for t
    proof (cases "tn_phase t = Waking")
      case False
      show ?thesis by (rule turn [OF t False settles_touches calm_ends(4)])
    qed (simp add: stream_settles_def ok)
    then show ?thesis using ok by (auto simp: CeSettles intro!: act)
  next
    case (CeWake c)
    have "asleep_ok (wake_chat c w)"
    proof (cases "chat_of w c")
      case None
      have "\<not> is_parked w c" by (simp add: is_parked_def parked_state_def None)
      then have "calm w (wake_chat c w)" using None g
        by (auto simp: CeWake wake_chat_def Let_def calm_def armed_def cancel_chat_timer_def chat_of_def parked_state_def
            jm_delete_filter is_parked_def)
      then show ?thesis
        by (rule asleep_same [OF ok]) (use None g in \<open>simp_all add: CeWake wake_chat_def chat_of_def\<close>)
    next
      case (Some r)
      then show ?thesis using g
        by (auto simp: CeWake wake_chat_def Let_def chat_of_def intro!: new)
          (auto simp: parked_state_def chat_of_def armed_def cancel_chat_timer_def jm_delete_filter)
    qed
    then show ?thesis using ok by (simp add: CeWake)
  next
    case (CeResume en a)
    have "asleep_ok (resumeChatAfterRateLimit en a t w)" if t: "map_of (w_turns w) a = Some t" for t
      by (rule asleep_touch [OF ok t resume_step(1,2) [OF t]]) (rule resume_step(3) [OF t])
    then show ?thesis using ok CeResume by (auto intro!: act)
  next
    case (CePatch db c body)
    have "calm w (set_chat c (\<lambda>_. r') w)" if "chat_of w c = Some r" "patchChat db body r = Inr r'" for r r'
    proof (rule calm_same)
      show "parked_state (set_chat c (\<lambda>_. r') w) = parked_state w"
        using that patch_status [OF that(2)] by (intro ext) (simp add: parked_state_def chat_of_set)
    qed simp
    then show ?thesis using ok CePatch asleep_same [OF ok] by (simp split: option.split sum.split)
  next
    case (CeAnswer k c i ans)
    have "w_chats (snd (answer_chat_question k c i ans w)) = w_chats w" "w_timers (snd (answer_chat_question k c i ans w)) = w_timers w"
      by (simp_all add: answer_chat_question_def split: option.split)
    then have "asleep_ok (snd (answer_chat_question k c i ans w))"
      by (intro same state_same) (simp_all add: other_maps)
    then show ?thesis by (simp add: CeAnswer)
  next
    case (CeUpload i c n)
    have "asleep_ok (w\<lparr>w_atts := xs\<rparr>)" for xs by (intro same state_same) simp_all
    then show ?thesis using ok by (simp add: CeUpload)
  next
    case (CeRestart n)
    then show ?thesis using asleep_restart [OF ok] by simp
  qed (use g decide in \<open>auto simp: approve_chat_def reject_chat_def\<close>)
qed

interpretation chat_sleep: guarded_run chat_step undisturbed asleep_ok
  by unfold_locales (rule asleep_step)

text \<open>C10: as long as no chat is cancelled, the daemon is not shut down and no timer goes off while an earlier
  wake-up of the same chat is still at work, a chat that is parked for a rate limit is never forgotten: at every
  moment, restarts included, its wake-up time is stored, and a timer for it is armed or its wake-up has begun.\<close>

theorem parked_chat_is_woken:
  assumes "along chat_step undisturbed evs w0" "asleep_ok w0"
    "chat_of (chat_run evs w0) c = Some r" "c_status r = ''rate_limited''"
  shows "c_resumeAt r \<noteq> None
    \<and> (c \<in> fst ` set (w_timers (chat_run evs w0))
        \<or> (\<exists>a t. map_of (w_turns (chat_run evs w0)) a = Some t \<and> tn_phase t = Waking \<and> tn_chat t = c))"
proof -
  have "asleep_ok (chat_run evs w0)" unfolding chat_run_def by (rule chat_sleep.run_inv [OF assms(1,2)])
  moreover have "parked_state (chat_run evs w0) c = Some (''rate_limited'', c_resumeAt r)"
    by (simp add: parked_state_def assms(3,4))
  ultimately show ?thesis by (auto simp: asleep_ok_def armed_def waking_def)
qed

definition limit_error :: turn_error where
  "limit_error = \<lparr>te_message = ''429'', te_limit = Some 9000\<rparr>"

text \<open>A streamed turn that hits a limit.\<close>

definition parks :: "chat_event list" where
  "parks = opens 0 ''hello'' @ [CeRunEnds 1000 1 0 (Some limit_error), CeDrained 1000 1 0] @ settles 1 0"

lemmas sleep_eval = chat_eval parks_def limit_error_def parkChatForRateLimit_def chat_timer_def fire_time_def
  MIN_DELAY_MS_def MAX_TIMER_MS_def wake_chat_def resumeChatAfterRateLimit_def last_user_message_def
  resumed_ends_def plain_ends_def restart_def recoverChats_def sweepOrphanedRunningChats_def
  sweepOrphanedChatQuestions_def wake_done_def

theorem parked_chat_is_woken_witness:
  "let w = chat_run parks one_chat in
     map_option c_status (chat_of w 1) = Some ''rate_limited'' \<and> map_of (w_timers w) 1 = Some 9000
     \<and> (\<exists>r. chat_of w 1 = Some r \<and> c_resumeAt r \<noteq> None)"
proof -
  have a: "along chat_step undisturbed parks one_chat" by (simp add: sleep_eval Let_def)
  have w: "asleep_ok one_chat"
    by (simp add: asleep_ok_def fresh_turns_def parked_state_def chat_of_def one_chat_def plain_row_def)
  have s: "map_option c_status (chat_of (chat_run parks one_chat) 1) = Some ''rate_limited''"
    by (simp add: sleep_eval Let_def)
  then obtain r where r: "chat_of (chat_run parks one_chat) 1 = Some r" "c_status r = ''rate_limited''" by auto
  moreover have "map_of (w_timers (chat_run parks one_chat)) 1 = Some 9000" by (simp add: sleep_eval Let_def)
  ultimately show ?thesis using s parked_chat_is_woken [OF a w r] by (simp add: Let_def)
qed

subsection \<open>When they are\<close>

text \<open>Cancelling a parked chat drops its timer and leaves it parked; the next start of the daemon arms the timer
  again, although the chat was cancelled.\<close>

lemma cancelled_chat_stays_parked:
  "let w = chat_run (parks @ [CeCancel 1]) one_chat; v = chat_step (CeRestart 2000) w in
     map_option c_status (chat_of w 1) = Some ''rate_limited'' \<and> w_timers w = [] \<and> map_of (w_timers v) 1 = Some 9000"
  by (simp add: sleep_eval Let_def)

text \<open>A message sent to a parked chat runs at once and leaves the chat parked: the timer then sends the last
  message a second time, after it has been answered.\<close>

lemma answered_message_is_sent_again:
  "let w = chat_run (parks @ opens 1 ''again'' @ [CeRunEnds 2000 2 1 None, CeDrained 2000 2 1] @ settles 2 1
      @ [CeWake 1, CeResume no_keys 2]) one_chat in
     map_option (\<lambda>t. (tn_kind t, tn_prompt t)) (map_of (w_turns w) 2) = Some (Resumed, MText ''again'')
     \<and> map (\<lambda>m. (m_role m, m_body m)) (w_msgs w)
         = [(''user'', MText ''hello''), (''assistant'', MText []), (''user'', MText ''again''), (''assistant'', MText [])]"
  by (simp add: sleep_eval Let_def)

text \<open>A resumed turn sends the last message of the user after a history that ends with it already: what is cut
  off the history is the row that the parked turn left, not the message.\<close>

lemma resumed_turn_repeats_the_message:
  "let w = chat_run (parks @ [CeWake 1, CeResume no_keys 1]) one_chat in
     map_option (\<lambda>t. (tn_prior t, tn_prompt t)) (map_of (w_turns w) 1)
       = Some ([(''user'', MText ''hello'', [])], MText ''hello'')"
  by (simp add: sleep_eval Let_def)

text \<open>The end of a resumed turn does not ask for the approval that the chat requires; the end of a plain turn asks
  for it even when its run has failed.\<close>

lemma resumed_turn_needs_no_approval:
  "let w = chat_run (parks @ [CeWake 1, CeResume no_keys 1, CeOpened 1, CeRunEnds 9000 9 1 None]) one_chat in
     map_option (\<lambda>r. (c_status r, c_requiresApproval r, c_approval r)) (chat_of w 1) = Some (''idle'', True, None)"
  by (simp add: sleep_eval Let_def)

lemma failed_turn_awaits_approval:
  "let w = chat_run [CeArrive PlainTurn 1, CeBody no_keys 0 0 (says ''hello''),
      CeRunEnds 0 0 0 (Some \<lparr>te_message = ''boom'', te_limit = None\<rparr>)] one_chat in
     map_option c_approval (chat_of w 1) = Some (Some ''pending'')
     \<and> map (\<lambda>m. (m_role m, m_body m)) (w_msgs w) = [(''user'', MText ''hello''), (''assistant'', MText [])]"
  by (simp add: sleep_eval plain_message_def plain_request_def Let_def)

text \<open>A second turn that parks the chat while a wake-up is at work arms a timer; if that goes off before the
  wake-up has ended, it is dropped, and the chat stays parked with no timer.\<close>

lemma overlapping_wake_up_is_lost:
  "let w = chat_run (parks @ [CeWake 1, CeResume no_keys 1, CeOpened 1] @ opens 2 ''more''
      @ [CeRunEnds 9000 9 2 (Some limit_error), CeDrained 9000 9 2] @ settles 9 2 @ [CeWake 1]) one_chat in
     map_option c_status (chat_of w 1) = Some ''rate_limited'' \<and> w_timers w = []
     \<and> map fst (w_turns w) = [1] \<and> map_option tn_phase (map_of (w_turns w) 1) = Some Live"
  by (simp add: sleep_eval Let_def)

end
