(* ===== verification/ChatPump.thy ===== *)
theory ChatPump
  imports Prelude
begin

text \<open>
  The pump of the streaming handler (\<open>src/src/routes/chats/messages.ts\<close>): the listeners of the session push frames on
  a queue, and a loop writes them to the client, one \<open>await\<close> per frame, sleeping on a promise when there is
  nothing to write.  The queue is read with a head index and emptied when it has been read to its end.

  \<open>sp_place\<close> is the \<open>await\<close> at which the loop stands; \<open>sp_pushed\<close> is the history of what was pushed.  In the
  abstract view a pump is a first-in-first-out buffer, after the FIFO buffers of specification textbooks.
\<close>

datatype 'e place =
  Writing 'e | Waiting | Woken | AwaitRun | FinalWriting 'e | Closed

record 'e pump =
  sp_queue :: "'e list"
  sp_head :: nat
  sp_gone :: bool
  sp_finished :: bool
  sp_place :: "'e place"
  sp_sent :: "'e list"
  sp_pushed :: "'e list"

text \<open>What follows the inner loop.\<close>

definition queue_reset :: "'e pump \<Rightarrow> 'e pump" where
  "queue_reset s = (if sp_head s > 0 \<and> sp_head s = length (sp_queue s) then s\<lparr>sp_queue := [], sp_head := 0\<rparr> else s)"

definition after_inner :: "'e pump \<Rightarrow> 'e pump" where
  "after_inner s =
     (let s1 = queue_reset s in
      if sp_gone s1 then s1\<lparr>sp_place := AwaitRun\<rparr>
      else if sp_finished s1 \<and> sp_head s1 = length (sp_queue s1) then s1\<lparr>sp_place := AwaitRun\<rparr>
      else s1\<lparr>sp_place := Waiting\<rparr>)"

definition next_write :: "'e pump \<Rightarrow> 'e pump" where
  "next_write s =
     (if sp_head s < length (sp_queue s)
      then s\<lparr>sp_place := Writing (sp_queue s ! sp_head s), sp_head := sp_head s + 1\<rparr>
      else after_inner s)"

definition final_write :: "'e pump \<Rightarrow> 'e pump" where
  "final_write s =
     (if sp_head s < length (sp_queue s) \<and> \<not> sp_gone s
      then s\<lparr>sp_place := FinalWriting (sp_queue s ! sp_head s), sp_head := sp_head s + 1\<rparr>
      else s\<lparr>sp_place := Closed\<rparr>)"

text \<open>\<open>wakeWaiter\<close> resolves the promise if the loop sleeps on it.\<close>

definition wakeWaiter :: "'e pump \<Rightarrow> 'e pump" where
  "wakeWaiter s = (case sp_place s of Waiting \<Rightarrow> s\<lparr>sp_place := Woken\<rparr> | _ \<Rightarrow> s)"

definition push_frame :: "'e \<Rightarrow> 'e pump \<Rightarrow> 'e pump" where
  "push_frame e s = wakeWaiter (s\<lparr>sp_queue := sp_queue s @ [e], sp_pushed := sp_pushed s @ [e]\<rparr>)"

definition run_over :: "'e pump \<Rightarrow> 'e pump" where
  "run_over s = wakeWaiter (s\<lparr>sp_finished := True\<rparr>)"

text \<open>The loop goes on: the frame was written or not, or the promise it awaits is settled.\<close>

definition resume_loop :: "bool \<Rightarrow> 'e pump \<Rightarrow> 'e pump" where
  "resume_loop written s =
     (case sp_place s of
        Writing e \<Rightarrow> if written then next_write (s\<lparr>sp_sent := sp_sent s @ [e]\<rparr>) else after_inner (s\<lparr>sp_gone := True\<rparr>)
      | Woken \<Rightarrow> next_write s
      | AwaitRun \<Rightarrow> if sp_finished s then final_write s else s
      | FinalWriting e \<Rightarrow> if written then final_write (s\<lparr>sp_sent := sp_sent s @ [e]\<rparr>) else final_write (s\<lparr>sp_gone := True\<rparr>)
      | Waiting \<Rightarrow> s
      | Closed \<Rightarrow> s)"

datatype 'e pump_event = Push 'e | RunOver | Loop bool

fun pump_step :: "'e pump_event \<Rightarrow> 'e pump \<Rightarrow> 'e pump" where
  "pump_step (Push e) s = push_frame e s"
| "pump_step RunOver s = run_over s"
| "pump_step (Loop written) s = resume_loop written s"

text \<open>The loop is entered with the frames that the session pushed while it was started; the client may be gone since
  the frame before, which the loop finds out after the frames that are there.\<close>

definition start_pump :: "bool \<Rightarrow> 'e list \<Rightarrow> 'e pump" where
  "start_pump gone es = next_write \<lparr>sp_queue = es, sp_head = 0, sp_gone = gone, sp_finished = False, sp_place = Woken,
     sp_sent = [], sp_pushed = es\<rparr>"

definition pump_run :: "'e pump_event list \<Rightarrow> 'e pump \<Rightarrow> 'e pump" where
  "pump_run evs s = fold pump_step evs s"

subsection \<open>The buffer\<close>

fun in_hand :: "'e place \<Rightarrow> 'e list" where
  "in_hand (Writing e) = [e]"
| "in_hand (FinalWriting e) = [e]"
| "in_hand _ = []"

definition waiting_frames :: "'e pump \<Rightarrow> 'e list" where
  "waiting_frames s = in_hand (sp_place s) @ drop (sp_head s) (sp_queue s)"

definition pump_ok :: "'e pump \<Rightarrow> bool" where
  "pump_ok s \<longleftrightarrow> sp_head s \<le> length (sp_queue s)
     \<and> (\<exists>rest. sp_pushed s = sp_sent s @ rest)
     \<and> (\<not> sp_gone s \<or> (\<exists>e. sp_place s = Writing e) \<longrightarrow> sp_pushed s = sp_sent s @ waiting_frames s)
     \<and> (sp_gone s \<longrightarrow> sp_place s \<in> {AwaitRun, Closed} \<or> (\<exists>e. sp_place s = Writing e))
     \<and> (sp_place s = Waiting \<longrightarrow> drop (sp_head s) (sp_queue s) = [] \<and> \<not> sp_finished s)
     \<and> (sp_place s = Closed \<longrightarrow> sp_finished s)
     \<and> (in_hand (sp_place s) \<noteq> [] \<longrightarrow> (\<exists>e. sp_place s = Writing e) \<or> sp_finished s)"

lemmas pump_defs = waiting_frames_def next_write_def after_inner_def queue_reset_def final_write_def Let_def

lemma after_inner_ok:
  assumes "sp_head s \<le> length (sp_queue s)" "\<exists>rest. sp_pushed s = sp_sent s @ rest"
    "\<not> sp_gone s \<Longrightarrow> sp_pushed s = sp_sent s @ drop (sp_head s) (sp_queue s) \<and> sp_head s = length (sp_queue s)"
  shows "pump_ok (after_inner s)"
  using assms by (auto simp: pump_ok_def pump_defs)

lemma next_write_ok:
  assumes "sp_head s \<le> length (sp_queue s)" "sp_pushed s = sp_sent s @ drop (sp_head s) (sp_queue s)"
  shows "pump_ok (next_write s)"
proof (cases "sp_head s < length (sp_queue s)")
  case True
  then show ?thesis using assms by (simp add: pump_ok_def next_write_def waiting_frames_def Cons_nth_drop_Suc)
next
  case False
  then show ?thesis using assms after_inner_ok [of s] by (simp add: next_write_def)
qed

lemma final_write_ok:
  assumes "sp_head s \<le> length (sp_queue s)" "sp_finished s" "\<exists>rest. sp_pushed s = sp_sent s @ rest"
    "\<not> sp_gone s \<Longrightarrow> sp_pushed s = sp_sent s @ drop (sp_head s) (sp_queue s)"
  shows "pump_ok (final_write s)"
  using assms by (auto simp: pump_ok_def final_write_def waiting_frames_def Cons_nth_drop_Suc)

lemma start_ok: "pump_ok (start_pump gone es)"
  unfolding start_pump_def by (rule next_write_ok) simp_all

lemma wakeWaiter_fields [simp]:
  "sp_queue (wakeWaiter s) = sp_queue s" "sp_head (wakeWaiter s) = sp_head s" "sp_gone (wakeWaiter s) = sp_gone s"
  "sp_finished (wakeWaiter s) = sp_finished s" "sp_sent (wakeWaiter s) = sp_sent s" "sp_pushed (wakeWaiter s) = sp_pushed s"
  "sp_place (wakeWaiter s) = (if sp_place s = Waiting then Woken else sp_place s)"
  by (simp_all add: wakeWaiter_def split: place.split)

lemma push_ok:
  assumes "pump_ok s"
  shows "pump_ok (push_frame e s)"
proof -
  obtain rest where "sp_pushed s = sp_sent s @ rest" using assms by (auto simp: pump_ok_def)
  then have "\<exists>rest. sp_pushed (push_frame e s) = sp_sent (push_frame e s) @ rest"
    by (intro exI [of _ "rest @ [e]"]) (simp add: push_frame_def)
  then show ?thesis using assms
    by (cases "sp_place s") (simp_all add: pump_ok_def push_frame_def waiting_frames_def)
qed

lemma run_over_ok: "pump_ok s \<Longrightarrow> pump_ok (run_over s)"
  by (cases "sp_place s") (auto simp: pump_ok_def run_over_def waiting_frames_def)

lemma loop_ok:
  assumes ok: "pump_ok s"
  shows "pump_ok (resume_loop written s)"
proof (cases "sp_place s")
  case (Writing e)
  then have "sp_head s \<le> length (sp_queue s)" "sp_pushed s = sp_sent s @ e # drop (sp_head s) (sp_queue s)"
    using ok by (auto simp: pump_ok_def waiting_frames_def)
  then show ?thesis using Writing
    by (cases written) (auto simp: resume_loop_def intro!: next_write_ok after_inner_ok)
next
  case Woken
  then have "sp_head s \<le> length (sp_queue s)" "sp_pushed s = sp_sent s @ drop (sp_head s) (sp_queue s)"
    using ok by (auto simp: pump_ok_def waiting_frames_def)
  then show ?thesis using Woken by (simp add: resume_loop_def next_write_ok)
next
  case AwaitRun
  then have "sp_head s \<le> length (sp_queue s)" "\<exists>rest. sp_pushed s = sp_sent s @ rest"
    "\<not> sp_gone s \<Longrightarrow> sp_pushed s = sp_sent s @ drop (sp_head s) (sp_queue s)"
    using ok by (auto simp: pump_ok_def waiting_frames_def)
  then show ?thesis using AwaitRun ok by (auto simp: resume_loop_def intro!: final_write_ok)
next
  case (FinalWriting e)
  then have "sp_head s \<le> length (sp_queue s)" "\<not> sp_gone s" "sp_finished s"
    "sp_pushed s = sp_sent s @ e # drop (sp_head s) (sp_queue s)"
    using ok by (auto simp: pump_ok_def waiting_frames_def)
  then show ?thesis using FinalWriting
    by (cases written) (auto simp: resume_loop_def intro!: final_write_ok)
qed (use ok in \<open>simp_all add: resume_loop_def\<close>)

lemma pump_run_ok: "pump_ok s \<Longrightarrow> pump_ok (pump_run evs s)"
  unfolding pump_run_def
proof (induction evs arbitrary: s)
  case (Cons ev evs)
  have "pump_ok (pump_step ev s)" using Cons.prems by (cases ev) (simp_all add: push_ok run_over_ok loop_ok)
  then show ?case using Cons.IH by simp
qed simp

subsection \<open>What the client gets\<close>

text \<open>How many times a loop whose run is over still goes on.\<close>

definition steps_left :: "'e pump \<Rightarrow> nat" where
  "steps_left s =
     (let n = length (sp_queue s) - sp_head s in
      case sp_place s of
        Writing _ \<Rightarrow> n + 3 | Waiting \<Rightarrow> 0 | Woken \<Rightarrow> n + 4 | AwaitRun \<Rightarrow> n + 2 | FinalWriting _ \<Rightarrow> n + 1 | Closed \<Rightarrow> 0)"

lemma loop_fields [simp]:
  "sp_finished (resume_loop written s) = sp_finished s" "sp_pushed (resume_loop written s) = sp_pushed s"
  by (cases "sp_place s"; simp add: resume_loop_def pump_defs)+

lemma loop_gone: "sp_gone (resume_loop True s) = sp_gone s"
  by (cases "sp_place s") (simp_all add: resume_loop_def pump_defs)

lemma loop_advances:
  assumes "pump_ok s" "sp_finished s" "sp_place s \<noteq> Closed"
  shows "steps_left (resume_loop True s) < steps_left s"
  using assms by (cases "sp_place s") (auto simp: resume_loop_def steps_left_def pump_ok_def pump_defs)

lemma loop_last:
  assumes "sp_place s \<noteq> Closed" "sp_place (resume_loop True s) = Closed" "\<not> sp_gone s"
  shows "drop (sp_head (resume_loop True s)) (sp_queue (resume_loop True s)) = []"
  using assms by (cases "sp_place s") (auto simp: resume_loop_def pump_defs split: if_splits)

lemma loop_closes:
  assumes "pump_ok s" "sp_finished s" "sp_place s \<noteq> Closed"
  shows "\<exists>n. let s' = pump_run (replicate n (Loop True)) s
    in sp_place s' = Closed \<and> (\<not> sp_gone s \<longrightarrow> sp_sent s' = sp_pushed s)"
  using assms
proof (induction "steps_left s" arbitrary: s rule: less_induct)
  case less
  let ?s = "resume_loop True s"
  have ok: "pump_ok ?s" by (rule loop_ok [OF less.prems(1)])
  show ?case
  proof (cases "sp_place ?s = Closed")
    case True
    have "sp_sent ?s = sp_pushed s" if g: "\<not> sp_gone s"
      using ok g True loop_last [OF less.prems(3) True g] by (simp add: pump_ok_def waiting_frames_def loop_gone)
    then show ?thesis using True by (intro exI [of _ 1]) (simp add: pump_run_def)
  next
    case False
    obtain n where "let s' = pump_run (replicate n (Loop True)) ?s
        in sp_place s' = Closed \<and> (\<not> sp_gone s \<longrightarrow> sp_sent s' = sp_pushed s)"
      using less.hyps [OF loop_advances [OF less.prems] ok] less.prems(2) False by (auto simp: loop_gone Let_def)
    then show ?thesis by (intro exI [of _ "Suc n"]) (simp add: pump_run_def)
  qed
qed

fun frame_of :: "'e pump_event \<Rightarrow> 'e list" where
  "frame_of (Push e) = [e]"
| "frame_of _ = []"

lemma pushed_run: "sp_pushed (pump_run evs s) = sp_pushed s @ concat (map frame_of evs)"
  unfolding pump_run_def
proof (induction evs arbitrary: s)
  case (Cons ev evs)
  then show ?case by (cases ev) (simp_all add: push_frame_def run_over_def)
qed simp

lemma pushed_start: "sp_pushed (start_pump gone es) = es"
  by (simp add: start_pump_def pump_defs)

text \<open>C13: whatever the order in which the session pushes frames, the run ends and the writes succeed or fail, the
  client gets a prefix of the frames in their order; as long as it is connected, what it has not got is still
  waiting.  The loop never sleeps while there is a frame to write or after the run is over; and
  once the run is over and the writes succeed it comes to an end after finitely many awaits, and a client that
  was connected has then got every frame that was pushed before.\<close>

theorem pump_delivers_every_frame:
  "let s = pump_run evs (start_pump gone es) in
      sp_pushed s = es @ concat (map frame_of evs)
    \<and> (\<exists>rest. sp_pushed s = sp_sent s @ rest)
    \<and> (\<not> sp_gone s \<longrightarrow> sp_pushed s = sp_sent s @ waiting_frames s)
    \<and> (sp_place s = Waiting \<longrightarrow> waiting_frames s = [] \<and> \<not> sp_finished s)
    \<and> (sp_finished s \<and> sp_place s \<noteq> Closed \<longrightarrow> (\<exists>n. let s' = pump_run (replicate n (Loop True)) s
         in sp_place s' = Closed \<and> (\<not> sp_gone s \<longrightarrow> sp_sent s' = sp_pushed s)))"
proof -
  define s where "s = pump_run evs (start_pump gone es)"
  have ok: "pump_ok s" unfolding s_def by (rule pump_run_ok [OF start_ok])
  have "\<exists>n. let s' = pump_run (replicate n (Loop True)) s
      in sp_place s' = Closed \<and> (\<not> sp_gone s \<longrightarrow> sp_sent s' = sp_pushed s)"
    if "sp_finished s" "sp_place s \<noteq> Closed"
    using that by (rule loop_closes [OF ok])
  moreover have "sp_pushed s = es @ concat (map frame_of evs)"
    unfolding s_def by (simp add: pushed_run pushed_start)
  moreover have "sp_place s = Waiting \<longrightarrow> waiting_frames s = [] \<and> \<not> sp_finished s"
    using ok by (auto simp: pump_ok_def waiting_frames_def)
  ultimately show ?thesis using ok unfolding s_def [symmetric] Let_def pump_ok_def by blast
qed

definition demo_frames :: "nat pump_event list" where
  "demo_frames = [Push 1, Loop True, Push 2, Loop True, Push 3, RunOver]"

theorem pump_delivers_every_frame_witness:
  "let s = pump_run demo_frames (start_pump False [])
   in sp_finished s \<and> \<not> sp_gone s
      \<and> (\<exists>n. let s' = pump_run (replicate n (Loop True)) s in sp_place s' = Closed \<and> sp_sent s' = [1, 2, 3])"
proof -
  define s where "s = pump_run demo_frames (start_pump False [])"
  have s: "sp_finished s" "\<not> sp_gone s" "sp_place s \<noteq> Closed"
    by (simp_all add: s_def demo_frames_def pump_run_def start_pump_def push_frame_def run_over_def wakeWaiter_def
        resume_loop_def pump_defs)
  have "sp_pushed s = [1, 2, 3]"
    using pump_delivers_every_frame [of demo_frames False "[]"] by (simp add: s_def Let_def demo_frames_def)
  then show ?thesis
    using pump_delivers_every_frame [of demo_frames False "[]"] s unfolding s_def [symmetric] Let_def by auto
qed

end
