(* ===== verification/Wakeups.thy ===== *)
theory Wakeups
  imports JsString
begin

text \<open>
  Wake-ups that an agent asks for: the table (\<open>src/src/services/wakeups/wakeup-service.ts\<close>), the worker that polls
  it (\<open>wakeup-worker.ts\<close>) and the routes of the hook and of the operator (\<open>src/src/routes/wakeups.ts\<close>).

  A table is the list of its rows in the order of their insertion; times are whole seconds.  The ids are numbers drawn
  in order: \<open>randomUUID\<close> does not repeat.  The callback of the worker is awaited, so anything may happen
  while it is at work; \<open>wr_call\<close> is the row whose callback that is.  The histories \<open>wr_calls\<close>, \<open>wr_done\<close> and \<open>wr_told\<close>
  are those of the calls, of the calls that ended well, and of the rows given to \<open>onFired\<close>.  Broadcasts are left out;
  the chat or task of a request exists, and its numbers are whole.
\<close>

subsection \<open>The table\<close>

datatype WakeupStatus = WakePending | WakeFired | WakeCancelled | WakeMissed

record wakeup =
  wk_chat :: "int option"
  wk_task :: "int option"
  wk_session :: string
  wk_fireAt :: int
  wk_prompt :: string
  wk_reason :: "string option"
  wk_status :: WakeupStatus
  wk_firedAt :: "int option"
  wk_missedAt :: "int option"
  wk_cancelledAt :: "int option"
  wk_createdAt :: int

type_synonym wakeups = "(nat \<times> wakeup) list"

record wakeup_input =
  wi_chat :: "int option"
  wi_task :: "int option"
  wi_session :: string
  wi_delay :: int
  wi_prompt :: string
  wi_reason :: "string option"

datatype wakeup_error = BadBody | NoScope | TwoScopes | BadDelay | NoPrompt | NoSession | NoWakeup | NotPending WakeupStatus

definition WAKEUP_FIRE_GRACE_SECONDS :: int where "WAKEUP_FIRE_GRACE_SECONDS = 60"

definition record_wakeup :: "int \<Rightarrow> nat \<Rightarrow> wakeup_input \<Rightarrow> wakeups \<Rightarrow> wakeup_error + wakeups" where
  "record_wakeup now i inp rows =
     (if wi_chat inp = None \<and> wi_task inp = None then Inl NoScope
      else if wi_chat inp \<noteq> None \<and> wi_task inp \<noteq> None then Inl TwoScopes
      else if wi_delay inp < 0 then Inl BadDelay
      else if wi_prompt inp = [] then Inl NoPrompt
      else if wi_session inp = [] then Inl NoSession
      else Inr (rows @ [(i, \<lparr>wk_chat = wi_chat inp, wk_task = wi_task inp, wk_session = wi_session inp,
             wk_fireAt = now + wi_delay inp, wk_prompt = wi_prompt inp, wk_reason = wi_reason inp,
             wk_status = WakePending, wk_firedAt = None, wk_missedAt = None, wk_cancelledAt = None,
             wk_createdAt = now\<rparr>)]))"

text \<open>\<open>UPDATE ... WHERE id = ? AND status = 'pending'\<close>\<close>

definition update_pending :: "(wakeup \<Rightarrow> wakeup) \<Rightarrow> nat \<Rightarrow> wakeups \<Rightarrow> wakeups" where
  "update_pending f i rows = map (\<lambda>(j, r). if j = i \<and> wk_status r = WakePending then (j, f r) else (j, r)) rows"

definition fired_row :: "int \<Rightarrow> wakeup \<Rightarrow> wakeup" where
  "fired_row at r = r\<lparr>wk_status := WakeFired, wk_firedAt := Some at\<rparr>"

definition missed_row :: "int \<Rightarrow> wakeup \<Rightarrow> wakeup" where
  "missed_row at r = r\<lparr>wk_status := WakeMissed, wk_missedAt := Some at\<rparr>"

definition cancelled_row :: "int \<Rightarrow> wakeup \<Rightarrow> wakeup" where
  "cancelled_row at r = r\<lparr>wk_status := WakeCancelled, wk_cancelledAt := Some at\<rparr>"

definition markFired :: "nat \<Rightarrow> int \<Rightarrow> wakeups \<Rightarrow> wakeup option \<times> wakeups" where
  "markFired i at rows = (let rows' = update_pending (fired_row at) i rows in (map_of rows' i, rows'))"

definition cancel_wakeup :: "nat \<Rightarrow> int \<Rightarrow> wakeups \<Rightarrow> wakeup option \<times> wakeups" where
  "cancel_wakeup i at rows = (let rows' = update_pending (cancelled_row at) i rows in (map_of rows' i, rows'))"

definition markMissed :: "nat \<Rightarrow> int \<Rightarrow> wakeups \<Rightarrow> wakeup option \<times> wakeups" where
  "markMissed i at rows = (let rows' = update_pending (missed_row at) i rows in (map_of rows' i, rows'))"

definition findDuePending :: "int \<Rightarrow> wakeups \<Rightarrow> wakeups" where
  "findDuePending asOf rows =
     sort_key (\<lambda>(_, r). wk_fireAt r) (filter (\<lambda>(_, r). wk_status r = WakePending \<and> wk_fireAt r \<le> asOf) rows)"

definition sweepMissed :: "int \<Rightarrow> int \<Rightarrow> wakeups \<Rightarrow> nat list \<times> wakeups" where
  "sweepMissed asOf grace rows =
     (let ids = map fst (filter (\<lambda>(_, r). wk_status r = WakePending \<and> wk_fireAt r < asOf - grace) rows)
      in (ids, fold (update_pending (missed_row asOf)) ids rows))"

text \<open>The newest first, and those of the same second in the order of their insertion.\<close>

definition list_wakeups :: "int option \<Rightarrow> int option \<Rightarrow> WakeupStatus option \<Rightarrow> int option \<Rightarrow> wakeups \<Rightarrow> wakeups" where
  "list_wakeups chatId taskId status limit rows =
     take (nat (min (max (case limit of Some n \<Rightarrow> n | None \<Rightarrow> 200) 1) 1000))
       (sort_key (\<lambda>(_, r). - wk_createdAt r)
         (filter (\<lambda>(_, r). (chatId = None \<or> wk_chat r = chatId) \<and> (taskId = None \<or> wk_task r = taskId)
            \<and> (case status of Some st \<Rightarrow> wk_status r = st | None \<Rightarrow> True)) rows))"

subsection \<open>The worker\<close>

record waker =
  wr_rows :: wakeups
  wr_next :: nat
  wr_armed :: bool
  wr_ticking :: bool
  wr_due :: wakeups
  wr_call :: "(nat \<times> wakeup) option"
  wr_times :: "int \<times> int"
  wr_calls :: "((nat \<times> wakeup) \<times> int \<times> int) list"
  wr_done :: "nat list"
  wr_told :: "(nat \<times> WakeupStatus) list"

text \<open>The loop over the due rows, up to the next callback that it awaits.\<close>

definition next_call :: "waker \<Rightarrow> waker" where
  "next_call s =
     (case wr_due s of
        [] \<Rightarrow> s\<lparr>wr_ticking := False, wr_call := None\<rparr>
      | p # ps \<Rightarrow> s\<lparr>wr_due := ps, wr_call := Some p, wr_calls := wr_calls s @ [(p, wr_times s)]\<rparr>)"

text \<open>The clock is read for the sweep, and again for the rows that are due.\<close>

definition runWakeupTick :: "int \<Rightarrow> int \<Rightarrow> waker \<Rightarrow> waker" where
  "runWakeupTick sweepAt dueAt s =
     (if wr_ticking s then s
      else let rows = snd (sweepMissed sweepAt WAKEUP_FIRE_GRACE_SECONDS (wr_rows s))
           in next_call (s\<lparr>wr_rows := rows, wr_ticking := True, wr_due := findDuePending dueAt rows,
                wr_times := (sweepAt, dueAt)\<rparr>))"

definition callback_ends :: "bool \<Rightarrow> int \<Rightarrow> waker \<Rightarrow> waker" where
  "callback_ends ok now s =
     (case wr_call s of
        None \<Rightarrow> s
      | Some (i, _) \<Rightarrow>
          if \<not> ok then next_call s
          else (case markFired i now (wr_rows s) of (row, rows) \<Rightarrow>
            next_call (s\<lparr>wr_rows := rows, wr_done := wr_done s @ [i],
              wr_told := (case row of Some r \<Rightarrow> wr_told s @ [(i, wk_status r)] | None \<Rightarrow> wr_told s)\<rparr>)))"

definition startWakeupWorker :: "waker \<Rightarrow> bool \<times> waker" where
  "startWakeupWorker s = (\<not> wr_armed s, s\<lparr>wr_armed := True\<rparr>)"

definition stopWakeupWorker :: "waker \<Rightarrow> waker" where
  "stopWakeupWorker s = s\<lparr>wr_armed := False\<rparr>"

subsection \<open>Routes\<close>

definition opt_id_field :: "string \<Rightarrow> jobj \<Rightarrow> int option option" where
  "opt_id_field k body =
     (case map_of body k of
        None \<Rightarrow> Some None
      | Some JNull \<Rightarrow> Some None
      | Some (JNum n) \<Rightarrow> if n > 0 then Some (Some n) else None
      | Some _ \<Rightarrow> None)"

definition text_field :: "string \<Rightarrow> jobj \<Rightarrow> string option" where
  "text_field k body = (case map_of body k of Some (JStr s) \<Rightarrow> if s = [] then None else Some s | _ \<Rightarrow> None)"

definition delay_field :: "jobj \<Rightarrow> int option" where
  "delay_field body = (case map_of body ''delay_seconds'' of Some (JNum n) \<Rightarrow> if n \<ge> 0 then Some n else None | _ \<Rightarrow> None)"

definition reason_field :: "jobj \<Rightarrow> string option option" where
  "reason_field body =
     (case map_of body ''reason'' of
        None \<Rightarrow> Some None | Some JNull \<Rightarrow> Some None | Some (JStr s) \<Rightarrow> Some (Some s) | Some _ \<Rightarrow> None)"

definition wakeupFromHookSchema :: "jval \<Rightarrow> wakeup_input option" where
  "wakeupFromHookSchema raw =
     (case raw of
        JObj body \<Rightarrow>
          (case (opt_id_field ''chat_id'' body, opt_id_field ''task_id'' body, text_field ''claude_session_id'' body,
                 delay_field body, text_field ''prompt'' body, reason_field body) of
             (Some chat, Some task, Some session, Some delay, Some prompt, Some reason) \<Rightarrow>
               if (chat \<noteq> None) \<noteq> (task \<noteq> None)
               then Some \<lparr>wi_chat = chat, wi_task = task, wi_session = session, wi_delay = delay, wi_prompt = prompt,
                          wi_reason = reason\<rparr>
               else None
           | _ \<Rightarrow> None)
      | _ \<Rightarrow> None)"

definition from_hook :: "int \<Rightarrow> jval \<Rightarrow> waker \<Rightarrow> wakeup_error + waker" where
  "from_hook now raw s =
     (case wakeupFromHookSchema raw of
        None \<Rightarrow> Inl BadBody
      | Some inp \<Rightarrow> (case record_wakeup now (wr_next s) inp (wr_rows s) of
                      Inl e \<Rightarrow> Inl e
                    | Inr rows \<Rightarrow> Inr (s\<lparr>wr_rows := rows, wr_next := wr_next s + 1\<rparr>)))"

definition fire_wakeup_route :: "int \<Rightarrow> nat \<Rightarrow> waker \<Rightarrow> wakeup_error + waker" where
  "fire_wakeup_route now i s =
     (case map_of (wr_rows s) i of
        None \<Rightarrow> Inl NoWakeup
      | Some r \<Rightarrow> if wk_status r \<noteq> WakePending then Inl (NotPending (wk_status r))
                  else Inr (s\<lparr>wr_rows := snd (markFired i now (wr_rows s))\<rparr>))"

definition cancel_wakeup_route :: "int \<Rightarrow> nat \<Rightarrow> waker \<Rightarrow> wakeup_error + waker" where
  "cancel_wakeup_route now i s =
     (case map_of (wr_rows s) i of
        None \<Rightarrow> Inl NoWakeup
      | Some r \<Rightarrow> if wk_status r \<noteq> WakePending then Inr s
                  else Inr (s\<lparr>wr_rows := snd (cancel_wakeup i now (wr_rows s))\<rparr>))"

text \<open>The rows of a chat or task that is deleted are deleted with it.\<close>

definition drop_scope :: "int option \<Rightarrow> int option \<Rightarrow> waker \<Rightarrow> waker" where
  "drop_scope chat task s =
     s\<lparr>wr_rows := filter (\<lambda>(_, r). \<not> (chat \<noteq> None \<and> wk_chat r = chat \<or> task \<noteq> None \<and> wk_task r = task)) (wr_rows s)\<rparr>"

subsection \<open>Schedules\<close>

datatype wake_event =
  WkHook int jval | WkFire int nat | WkCancel int nat | WkTick int int | WkReturns bool int
  | WkStart | WkStop | WkReboot | WkGone "int option" "int option"

definition wake_keep :: "waker \<Rightarrow> 'e + waker \<Rightarrow> waker" where
  "wake_keep s r = (case r of Inl _ \<Rightarrow> s | Inr s' \<Rightarrow> s')"

fun waker_step :: "wake_event \<Rightarrow> waker \<Rightarrow> waker" where
  "waker_step (WkHook now raw) s = wake_keep s (from_hook now raw s)"
| "waker_step (WkFire now i) s = wake_keep s (fire_wakeup_route now i s)"
| "waker_step (WkCancel now i) s = wake_keep s (cancel_wakeup_route now i s)"
| "waker_step (WkTick sweepAt dueAt) s = (if wr_armed s then runWakeupTick sweepAt dueAt s else s)"
| "waker_step (WkReturns ok now) s = callback_ends ok now s"
| "waker_step WkStart s = snd (startWakeupWorker s)"
| "waker_step WkStop s = stopWakeupWorker s"
| "waker_step WkReboot s = s\<lparr>wr_armed := False, wr_ticking := False, wr_due := [], wr_call := None\<rparr>"
| "waker_step (WkGone chat task) s = drop_scope chat task s"

definition waker_run :: "wake_event list \<Rightarrow> waker \<Rightarrow> waker" where
  "waker_run evs s = fold waker_step evs s"

definition no_wakeups :: waker where
  "no_wakeups = \<lparr>wr_rows = [], wr_next = 0, wr_armed = False, wr_ticking = False, wr_due = [], wr_call = None,
     wr_times = (0, 0), wr_calls = [], wr_done = [], wr_told = []\<rparr>"

end
