(* ===== verification/WakeupProps.thy ===== *)
theory WakeupProps
  imports Wakeups
begin

text \<open>
  What holds of wake-ups under every order of hooks, clicks, ticks and callbacks: a wake-up is settled once, its callback
  ends well at most once and is called only when it is due; what one undisturbed tick does to the table; and
  two schedules in which a wake-up does not do what the operator asked for.
\<close>

subsection \<open>Rows\<close>

definition same_wakeup :: "wakeup \<Rightarrow> wakeup \<Rightarrow> bool" where
  "same_wakeup r r' \<longleftrightarrow> wk_chat r' = wk_chat r \<and> wk_task r' = wk_task r \<and> wk_session r' = wk_session r
     \<and> wk_fireAt r' = wk_fireAt r \<and> wk_prompt r' = wk_prompt r \<and> wk_reason r' = wk_reason r
     \<and> wk_createdAt r' = wk_createdAt r \<and> (wk_status r \<noteq> WakePending \<longrightarrow> r' = r)"

definition stamped :: "wakeup \<Rightarrow> bool" where
  "stamped r \<longleftrightarrow> (wk_chat r = None) \<noteq> (wk_task r = None)
     \<and> (wk_firedAt r \<noteq> None \<longleftrightarrow> wk_status r = WakeFired) \<and> (wk_missedAt r \<noteq> None \<longleftrightarrow> wk_status r = WakeMissed)
     \<and> (wk_cancelledAt r \<noteq> None \<longleftrightarrow> wk_status r = WakeCancelled)"

lemmas row_defs = fired_row_def missed_row_def cancelled_row_def

lemma settled_rows [simp]:
  "wk_status (fired_row n r) = WakeFired" "wk_status (missed_row n r) = WakeMissed"
  "wk_status (cancelled_row n r) = WakeCancelled"
  by (simp_all add: row_defs)

lemma same_refl [simp]: "same_wakeup r r"
  by (simp add: same_wakeup_def)

text \<open>The rows that are not waiting any more stay, and so does what they say.\<close>

definition settles_only :: "(wakeup \<Rightarrow> wakeup) \<Rightarrow> bool" where
  "settles_only f \<longleftrightarrow> (\<forall>r. wk_status (f r) \<noteq> WakePending
     \<and> (wk_status r = WakePending \<longrightarrow> same_wakeup r (f r) \<and> (stamped r \<longrightarrow> stamped (f r))))"

lemma settles_only_rows [simp]:
  "settles_only (fired_row n)" "settles_only (missed_row n)" "settles_only (cancelled_row n)"
  by (auto simp: settles_only_def same_wakeup_def stamped_def row_defs)

definition later_rows :: "wakeups \<Rightarrow> wakeups \<Rightarrow> bool" where
  "later_rows = list_all2 (\<lambda>p q. fst q = fst p \<and> same_wakeup (snd p) (snd q) \<and> (stamped (snd p) \<longrightarrow> stamped (snd q)))"

lemma later_refl [simp]: "later_rows rows rows"
  by (simp add: later_rows_def list_all2_refl)

lemma later_map_of:
  "later_rows rows rows' \<Longrightarrow> (case map_of rows i of None \<Rightarrow> map_of rows' i = None
     | Some r \<Rightarrow> \<exists>r'. map_of rows' i = Some r' \<and> same_wakeup r r')"
  unfolding later_rows_def by (induction rows rows' rule: list_all2_induct) (auto split: option.splits)

lemma later_ids: "later_rows rows rows' \<Longrightarrow> map fst rows' = map fst rows"
  unfolding later_rows_def by (induction rows rows' rule: list_all2_induct) auto

lemma later_stamped:
  "later_rows rows rows' \<Longrightarrow> (i, r') \<in> set rows' \<Longrightarrow> \<exists>r. (i, r) \<in> set rows \<and> (stamped r \<longrightarrow> stamped r')"
  unfolding later_rows_def by (induction rows rows' rule: list_all2_induct) auto

lemma later_settled:
  assumes "settles_only f"
  shows "later_rows rows (map (\<lambda>(j, r). if P j \<and> wk_status r = WakePending then (j, f r) else (j, r)) rows)"
  using assms by (induction rows) (auto simp: later_rows_def settles_only_def)

lemma later_update: "settles_only f \<Longrightarrow> later_rows rows (update_pending f i rows)"
  unfolding update_pending_def by (rule later_settled)

lemma update_map_of:
  "map_of (update_pending f i rows) j
     = map_option (\<lambda>r. if j = i \<and> wk_status r = WakePending then f r else r) (map_of rows j)"
  by (induction rows) (auto simp: update_pending_def)

lemma update_all:
  assumes "settles_only f"
  shows "fold (update_pending f) ids rows
    = map (\<lambda>(j, r). if j \<in> set ids \<and> wk_status r = WakePending then (j, f r) else (j, r)) rows"
proof (induction ids arbitrary: rows)
  case (Cons i ids)
  have "fold (update_pending f) (i # ids) rows
      = map (\<lambda>(j, r). if j \<in> set ids \<and> wk_status r = WakePending then (j, f r) else (j, r)) (update_pending f i rows)"
    by (simp add: Cons.IH)
  also have "\<dots> = map (\<lambda>(j, r). if j \<in> set (i # ids) \<and> wk_status r = WakePending then (j, f r) else (j, r)) rows"
    using assms by (auto simp: update_pending_def settles_only_def)
  finally show ?case .
qed (auto simp: map_idI)

subsection \<open>The invariant\<close>

definition due_at :: "wakeup \<times> int \<times> int \<Rightarrow> bool" where
  "due_at c = (case c of (r, sweepAt, dueAt) \<Rightarrow>
     wk_status r = WakePending \<and> sweepAt - WAKEUP_FIRE_GRACE_SECONDS \<le> wk_fireAt r \<and> wk_fireAt r \<le> dueAt)"

definition on_the_way :: "waker \<Rightarrow> wakeups" where
  "on_the_way s = (case wr_call s of Some p \<Rightarrow> p # wr_due s | None \<Rightarrow> wr_due s)"

definition settled_id :: "waker \<Rightarrow> nat \<Rightarrow> bool" where
  "settled_id s i \<longleftrightarrow> i < wr_next s
     \<and> (case map_of (wr_rows s) i of Some r \<Rightarrow> wk_status r \<noteq> WakePending | None \<Rightarrow> True)"

definition rows_ok :: "waker \<Rightarrow> bool" where
  "rows_ok s \<longleftrightarrow> distinct (map fst (wr_rows s)) \<and> (\<forall>(i, r) \<in> set (wr_rows s). i < wr_next s \<and> stamped r)"

definition pipe_ok :: "waker \<Rightarrow> wakeups \<Rightarrow> bool" where
  "pipe_ok s ps \<longleftrightarrow> distinct (map fst ps) \<and> (\<forall>(i, r) \<in> set ps. i < wr_next s \<and> due_at (r, wr_times s))
     \<and> distinct (wr_done s) \<and> (\<forall>i \<in> set (wr_done s). settled_id s i \<and> i \<notin> fst ` set ps)
     \<and> (\<forall>((i, r), t) \<in> set (wr_calls s). due_at (r, t))"

definition wake_ok :: "waker \<Rightarrow> bool" where
  "wake_ok s \<longleftrightarrow> rows_ok s \<and> pipe_ok s (on_the_way s)
     \<and> (wr_ticking s \<longleftrightarrow> wr_call s \<noteq> None) \<and> (wr_call s = None \<longrightarrow> wr_due s = [])"

lemma waker_start_ok: "wake_ok no_wakeups"
  by (simp add: wake_ok_def rows_ok_def pipe_ok_def on_the_way_def no_wakeups_def)

lemma next_ok:
  assumes "rows_ok s" "pipe_ok s (wr_due s)" "wr_ticking s"
  shows "wake_ok (next_call s)"
proof (cases "wr_due s")
  case Nil
  then show ?thesis using assms
    by (simp add: wake_ok_def next_call_def rows_ok_def pipe_ok_def on_the_way_def settled_id_def)
next
  case (Cons p ps)
  then show ?thesis using assms
    by (auto simp: wake_ok_def next_call_def rows_ok_def pipe_ok_def on_the_way_def settled_id_def)
qed

lemma settled_later:
  assumes "later_rows (wr_rows s) rows" "settled_id s i"
  shows "settled_id (s\<lparr>wr_rows := rows\<rparr>) i"
  using later_map_of [OF assms(1), of i] assms(2)
  by (auto simp: settled_id_def same_wakeup_def split: option.splits)

lemma later_ok:
  assumes later: "later_rows (wr_rows s) rows"
  shows "rows_ok s \<Longrightarrow> rows_ok (s\<lparr>wr_rows := rows\<rparr>)" "pipe_ok s ps \<Longrightarrow> pipe_ok (s\<lparr>wr_rows := rows\<rparr>) ps"
proof -
  show "rows_ok s \<Longrightarrow> rows_ok (s\<lparr>wr_rows := rows\<rparr>)"
    using later_ids [OF later] later_stamped [OF later] by (fastforce simp: rows_ok_def)
  show "pipe_ok s ps \<Longrightarrow> pipe_ok (s\<lparr>wr_rows := rows\<rparr>) ps"
    using settled_later [OF later] by (auto simp: pipe_ok_def)
qed

lemma on_the_way_same: "wr_call s' = wr_call s \<Longrightarrow> wr_due s' = wr_due s \<Longrightarrow> on_the_way s' = on_the_way s"
  by (cases "wr_call s") (simp_all add: on_the_way_def)

lemma on_the_way_fields [simp]:
  "on_the_way (s\<lparr>wr_rows := rows\<rparr>) = on_the_way s" "on_the_way (s\<lparr>wr_armed := b\<rparr>) = on_the_way s"
  by (rule on_the_way_same; simp)+

lemma wake_ok_rows:
  assumes "wake_ok s" "later_rows (wr_rows s) rows"
  shows "wake_ok (s\<lparr>wr_rows := rows\<rparr>)"
  using assms later_ok [OF assms(2)] by (simp add: wake_ok_def)

subsection \<open>One tick\<close>

lemma sweep_missed_rows:
  "snd (sweepMissed m g rows) = map (\<lambda>(j, r).
     if j \<in> fst ` {p \<in> set rows. wk_status (snd p) = WakePending \<and> wk_fireAt (snd p) < m - g} \<and> wk_status r = WakePending
     then (j, missed_row m r) else (j, r)) rows"
  unfolding sweepMissed_def Let_def snd_conv update_all [OF settles_only_rows(2)]
  by (rule map_cong) (auto simp: image_iff split_beta)

lemma sweep_later: "later_rows rows (snd (sweepMissed m g rows))"
  unfolding sweep_missed_rows by (rule later_settled) simp

lemma sweep_left:
  assumes "distinct (map fst rows)" "(i, r) \<in> set (snd (sweepMissed m g rows))" "wk_status r = WakePending"
  shows "m - g \<le> wk_fireAt r"
proof (rule ccontr)
  assume "\<not> m - g \<le> wk_fireAt r"
  then have "wk_fireAt r < m - g" by simp
  moreover have "(i, r) \<in> set rows" using assms(2,3) by (auto simp: sweep_missed_rows split: if_splits)
  ultimately show False using assms by (auto simp: sweep_missed_rows image_iff eq_key_imp_eq_value split: if_splits)
qed

lemma due_set: "(i, r) \<in> set (findDuePending k rows) \<longleftrightarrow> (i, r) \<in> set rows \<and> wk_status r = WakePending \<and> wk_fireAt r \<le> k"
  by (auto simp: findDuePending_def)

lemma due_distinct: "distinct (map fst rows) \<Longrightarrow> distinct (map fst (findDuePending k rows))"
  by (auto simp: findDuePending_def distinct_map inj_on_subset)

lemma tick_ok:
  assumes ok: "wake_ok s"
  shows "wake_ok (runWakeupTick m k s)"
proof (cases "wr_ticking s")
  case False
  define rows where "rows = snd (sweepMissed m WAKEUP_FIRE_GRACE_SECONDS (wr_rows s))"
  define u where "u = s\<lparr>wr_rows := rows, wr_ticking := True, wr_due := findDuePending k rows, wr_times := (m, k)\<rparr>"
  have later: "later_rows (wr_rows s) rows" unfolding rows_def by (rule sweep_later)
  have "wr_call s = None" using ok False by (cases "wr_call s") (simp_all add: wake_ok_def)
  then have "rows_ok s" "pipe_ok s []" using ok by (auto simp: wake_ok_def on_the_way_def)
  then have s: "rows_ok (s\<lparr>wr_rows := rows\<rparr>)" "pipe_ok (s\<lparr>wr_rows := rows\<rparr>) []"
    using later_ok [OF later] by blast+
  have d: "distinct (map fst (wr_rows s))" using ok by (simp add: wake_ok_def rows_ok_def)
  have "rows_ok u" using s(1) by (simp add: u_def rows_ok_def)
  moreover have "pipe_ok u (wr_due u)"
  proof -
    have "i < wr_next s \<and> due_at (r, m, k)" if "(i, r) \<in> set (findDuePending k rows)" for i r
      using that s(1) sweep_left [OF d, of i r m WAKEUP_FIRE_GRACE_SECONDS]
      by (auto simp: due_set due_at_def rows_ok_def rows_def)
    moreover have "i \<notin> fst ` set (findDuePending k rows)" if "i \<in> set (wr_done s)" for i
    proof
      assume "i \<in> fst ` set (findDuePending k rows)"
      then obtain r where r: "(i, r) \<in> set rows" "wk_status r = WakePending" by (auto simp: due_set)
      then have "map_of rows i = Some r" using s(1) by (simp add: rows_ok_def)
      then show False using that s(2) r(2) by (auto simp: pipe_ok_def settled_id_def)
    qed
    ultimately show ?thesis using s due_distinct [of rows k]
      by (auto simp: u_def pipe_ok_def rows_ok_def settled_id_def)
  qed
  moreover have "wr_ticking u" by (simp add: u_def)
  ultimately have "wake_ok (next_call u)" by (rule next_ok)
  then show ?thesis using False by (simp add: runWakeupTick_def u_def rows_def Let_def)
qed (simp add: runWakeupTick_def ok)

lemma callback_ok:
  assumes ok: "wake_ok s"
  shows "wake_ok (callback_ends good n s)"
proof (cases "wr_call s")
  case (Some p)
  obtain i r where p: "p = (i, r)" by (cases p)
  have s: "rows_ok s" "pipe_ok s ((i, r) # wr_due s)" "wr_ticking s"
    using ok by (simp_all add: wake_ok_def on_the_way_def Some p)
  show ?thesis
  proof (cases good)
    case False
    have "wake_ok (next_call s)" by (rule next_ok) (use s in \<open>auto simp: pipe_ok_def\<close>)
    then show ?thesis by (simp add: callback_ends_def Some p False)
  next
    case True
    define rows where "rows = update_pending (fired_row n) i (wr_rows s)"
    define told where "told = (case map_of rows i of Some r \<Rightarrow> wr_told s @ [(i, wk_status r)] | None \<Rightarrow> wr_told s)"
    have later: "later_rows (wr_rows s) rows" unfolding rows_def by (rule later_update) simp
    note after = later_ok [OF later]
    have "settled_id (s\<lparr>wr_rows := rows\<rparr>) i"
      using s(2) by (auto simp: settled_id_def pipe_ok_def rows_def update_map_of split: option.split)
    then have "pipe_ok (s\<lparr>wr_rows := rows, wr_done := wr_done s @ [i], wr_told := told\<rparr>) (wr_due s)"
      using after(2) [OF s(2)] by (auto simp: pipe_ok_def settled_id_def)
    moreover have "rows_ok (s\<lparr>wr_rows := rows, wr_done := wr_done s @ [i], wr_told := told\<rparr>)"
      using after(1) [OF s(1)] by (simp add: rows_ok_def)
    ultimately have "wake_ok (next_call (s\<lparr>wr_rows := rows, wr_done := wr_done s @ [i], wr_told := told\<rparr>))"
      using s(3) by (intro next_ok) simp_all
    then show ?thesis by (simp add: callback_ends_def Some p True markFired_def rows_def told_def Let_def)
  qed
qed (simp add: callback_ends_def ok)

subsection \<open>Every step\<close>

lemma record_row:
  assumes "record_wakeup n i inp rows = Inr rows'"
  shows "\<exists>r. stamped r \<and> rows' = rows @ [(i, r)]"
  using assms by (cases "wi_chat inp = None") (auto simp: record_wakeup_def split: if_splits, simp_all add: stamped_def)

lemma hook_row:
  assumes "from_hook n raw s = Inr s'"
  shows "\<exists>r. stamped r \<and> s' = s\<lparr>wr_rows := wr_rows s @ [(wr_next s, r)], wr_next := wr_next s + 1\<rparr>"
  using assms by (auto simp: from_hook_def split: option.splits sum.splits dest!: record_row)

lemma hook_ok:
  assumes ok: "wake_ok s" and "from_hook n raw s = Inr s'"
  shows "wake_ok s'"
proof -
  obtain r where r: "stamped r" "s' = s\<lparr>wr_rows := wr_rows s @ [(wr_next s, r)], wr_next := wr_next s + 1\<rparr>"
    using hook_row [OF assms(2)] by blast
  have "rows_ok s'" using ok r by (fastforce simp: wake_ok_def rows_ok_def)
  moreover have "settled_id s' i" if "settled_id s i" for i
    using that by (auto simp: settled_id_def r(2) map_add_def split: option.splits)
  then have "pipe_ok s' (on_the_way s)" using ok by (fastforce simp: wake_ok_def pipe_ok_def r(2))
  moreover have "on_the_way s' = on_the_way s" by (rule on_the_way_same) (simp_all add: r(2))
  ultimately show ?thesis using ok by (simp add: wake_ok_def) (simp add: r(2))
qed

lemma filter_map_of:
  "distinct (map fst rows) \<Longrightarrow> map_of (filter P rows) i
     = (case map_of rows i of Some r \<Rightarrow> if P (i, r) then Some r else None | None \<Rightarrow> None)"
proof (induction rows)
  case (Cons p rows)
  then have "map_of (filter P rows) (fst p) = None" by (cases p) (auto simp: map_of_eq_None_iff)
  then show ?case using Cons by (cases p) auto
qed simp

lemma drop_ok:
  assumes ok: "wake_ok s"
  shows "wake_ok (drop_scope c t s)"
proof -
  have d: "distinct (map fst (wr_rows s))" using ok by (simp add: wake_ok_def rows_ok_def)
  have "rows_ok (drop_scope c t s)"
    using ok by (auto simp: wake_ok_def rows_ok_def drop_scope_def distinct_map inj_on_subset)
  moreover have "settled_id (drop_scope c t s) i" if "settled_id s i" for i
    using that by (cases "map_of (wr_rows s) i") (simp_all add: settled_id_def drop_scope_def filter_map_of [OF d])
  then have "pipe_ok (drop_scope c t s) (on_the_way s)"
    using ok by (fastforce simp: wake_ok_def pipe_ok_def drop_scope_def)
  moreover have "on_the_way (drop_scope c t s) = on_the_way s" by (simp add: drop_scope_def)
  ultimately show ?thesis using ok by (simp add: wake_ok_def) (simp add: drop_scope_def)
qed

lemma step_ok:
  assumes ok: "wake_ok s"
  shows "wake_ok (waker_step ev s)"
proof (cases ev)
  case (WkHook n raw)
  then show ?thesis using ok hook_ok [OF ok] by (auto simp: wake_keep_def split: sum.split)
next
  case (WkFire n i)
  have "wake_ok (s\<lparr>wr_rows := update_pending (fired_row n) i (wr_rows s)\<rparr>)"
    by (rule wake_ok_rows [OF ok later_update]) simp
  then show ?thesis using ok
    by (simp add: WkFire wake_keep_def fire_wakeup_route_def markFired_def Let_def split: option.split)
next
  case (WkCancel n i)
  have "wake_ok (s\<lparr>wr_rows := update_pending (cancelled_row n) i (wr_rows s)\<rparr>)"
    by (rule wake_ok_rows [OF ok later_update]) simp
  then show ?thesis using ok
    by (simp add: WkCancel wake_keep_def cancel_wakeup_route_def cancel_wakeup_def Let_def split: option.split)
next
  case WkReboot
  then show ?thesis using ok by (auto simp: wake_ok_def rows_ok_def pipe_ok_def on_the_way_def settled_id_def)
qed (use ok tick_ok [OF ok] callback_ok [OF ok] drop_ok [OF ok] in
      \<open>simp_all add: startWakeupWorker_def stopWakeupWorker_def wake_ok_def rows_ok_def pipe_ok_def settled_id_def\<close>)

interpretation wake_ups: guarded_run waker_step "\<lambda>_ _. True" wake_ok
  by unfold_locales (rule step_ok)


lemma next_rows [simp]: "wr_rows (next_call s) = wr_rows s"
  by (simp add: next_call_def split: list.split)

lemma step_rows:
  "later_rows (wr_rows s) (wr_rows (waker_step ev s)) \<or> (\<exists>r. wr_rows (waker_step ev s) = wr_rows s @ [r]) \<or> (\<exists>c t. ev = WkGone c t)"
proof (cases ev)
  case (WkHook n raw)
  then show ?thesis using hook_row by (cases "from_hook n raw s") (fastforce simp: wake_keep_def)+
qed (auto simp: wake_keep_def fire_wakeup_route_def cancel_wakeup_route_def cancel_wakeup_def markFired_def Let_def
    runWakeupTick_def sweep_later callback_ends_def startWakeupWorker_def stopWakeupWorker_def later_update
    split: option.split)

text \<open>C15: a wake-up is settled once, and its callback ends well at most once.  In every state that the worker and the
  routes can reach: no callback has ended well twice for one wake-up, and a wake-up whose callback has ended well
  waits no longer; every call was made for a row that was waiting, was due, and was at most the grace period
  late at the tick; every row belongs to either a chat or a task and bears the time of its status and no other.  And
  whatever happens next, a row keeps what it says, and its status once it waits no longer, until its chat or
  task is deleted.\<close>

theorem wakeup_settled_once:
  "let s = waker_run evs no_wakeups in
     distinct (wr_done s)
     \<and> (\<forall>i \<in> set (wr_done s). case map_of (wr_rows s) i of Some r \<Rightarrow> wk_status r \<noteq> WakePending | None \<Rightarrow> True)
     \<and> (\<forall>((i, r), t) \<in> set (wr_calls s). due_at (r, t)) \<and> (\<forall>(i, r) \<in> set (wr_rows s). stamped r)
     \<and> (\<forall>ev i r. map_of (wr_rows s) i = Some r \<longrightarrow>
          (case map_of (wr_rows (waker_step ev s)) i of Some r' \<Rightarrow> same_wakeup r r' | None \<Rightarrow> \<exists>c t. ev = WkGone c t))"
proof -
  define s where "s = waker_run evs no_wakeups"
  have ok: "wake_ok s" unfolding s_def waker_run_def by (rule wake_ups.run_inv [OF _ waker_start_ok]) simp
  have "case map_of (wr_rows (waker_step ev s)) i of Some r' \<Rightarrow> same_wakeup r r' | None \<Rightarrow> \<exists>c t. ev = WkGone c t"
    if r: "map_of (wr_rows s) i = Some r" for ev i r
    using step_rows [of s ev]
  proof (elim disjE exE)
    assume "later_rows (wr_rows s) (wr_rows (waker_step ev s))"
    then show ?thesis using later_map_of [of "wr_rows s" _ i] r by force
  next
    fix p assume "wr_rows (waker_step ev s) = wr_rows s @ [p]"
    then show ?thesis using r by (simp add: map_add_def split: option.split)
  next
    fix c t assume "ev = WkGone c t"
    moreover have "distinct (map fst (wr_rows s))" using ok by (simp add: wake_ok_def rows_ok_def)
    ultimately show ?thesis using r by (simp add: drop_scope_def filter_map_of split: option.split)
  qed
  then show ?thesis using ok unfolding s_def [symmetric] Let_def
    by (auto simp: wake_ok_def rows_ok_def pipe_ok_def settled_id_def)
qed


subsection \<open>What an undisturbed tick does\<close>

text \<open>What a tick does to a row, with the clock at the sweep, at the search for due rows, and when a callback ends.\<close>

definition after_tick :: "int \<Rightarrow> int \<Rightarrow> int \<Rightarrow> wakeup \<Rightarrow> wakeup" where
  "after_tick sweepAt dueAt now r =
     (if wk_status r \<noteq> WakePending then r
      else if wk_fireAt r < sweepAt - WAKEUP_FIRE_GRACE_SECONDS then missed_row sweepAt r
      else if wk_fireAt r \<le> dueAt then fired_row now r
      else r)"

lemma key_row:
  "distinct (map fst rows) \<Longrightarrow> (j, r) \<in> set rows \<Longrightarrow> (\<exists>b. (j, b) \<in> set rows \<and> P b) \<longleftrightarrow> P r"
  by (blast dest: eq_key_imp_eq_value)

lemma key_image: "j \<in> fst ` {p \<in> set rows. P (snd p)} \<longleftrightarrow> (\<exists>b. (j, b) \<in> set rows \<and> P b)"
  by force

lemma due_image: "j \<in> fst ` set (findDuePending k rows)
    \<longleftrightarrow> (\<exists>b. (j, b) \<in> set rows \<and> wk_status b = WakePending \<and> wk_fireAt b \<le> k)"
  by (force simp: findDuePending_def)

lemma sweep_map:
  assumes "distinct (map fst rows)"
  shows "snd (sweepMissed m g rows)
    = map (\<lambda>(j, r). if wk_fireAt r < m - g \<and> wk_status r = WakePending then (j, missed_row m r) else (j, r)) rows"
  unfolding sweep_missed_rows
proof (rule map_cong [OF refl])
  fix p assume p: "p \<in> set rows"
  obtain j r where jr: "p = (j, r)" by (cases p)
  have "j \<in> fst ` {p \<in> set rows. wk_status (snd p) = WakePending \<and> wk_fireAt (snd p) < m - g}
      \<longleftrightarrow> wk_status r = WakePending \<and> wk_fireAt r < m - g"
    unfolding key_image [of j rows "\<lambda>b. wk_status b = WakePending \<and> wk_fireAt b < m - g"]
    by (rule key_row [OF assms]) (use p jr in simp)
  then show "(case p of (j, r) \<Rightarrow>
       if j \<in> fst ` {p \<in> set rows. wk_status (snd p) = WakePending \<and> wk_fireAt (snd p) < m - g} \<and> wk_status r = WakePending
       then (j, missed_row m r) else (j, r))
     = (case p of (j, r) \<Rightarrow> if wk_fireAt r < m - g \<and> wk_status r = WakePending then (j, missed_row m r) else (j, r))"
    by (simp add: jr conj_commute)
qed

lemma callbacks_run:
  "wr_call s = Some p \<Longrightarrow> wr_due s = ps \<Longrightarrow>
    (let s' = waker_run (replicate (Suc (length ps)) (WkReturns True n)) s in
       \<not> wr_ticking s' \<and> wr_rows s' = fold (update_pending (fired_row n)) (map fst (p # ps)) (wr_rows s)
       \<and> wr_calls s' = wr_calls s @ map (\<lambda>q. (q, wr_times s)) ps)"
proof (induction ps arbitrary: s p)
  case Nil
  then show ?case by (cases p) (simp add: waker_run_def callback_ends_def markFired_def next_call_def Let_def)
next
  case (Cons q ps)
  define u where "u = waker_step (WkReturns True n) s"
  have u: "wr_call u = Some q" "wr_due u = ps" "wr_rows u = update_pending (fired_row n) (fst p) (wr_rows s)"
    "wr_calls u = wr_calls s @ [(q, wr_times s)]" "wr_times u = wr_times s"
    using Cons.prems by (simp_all add: u_def callback_ends_def markFired_def next_call_def Let_def split_beta)
  have "waker_run (replicate (Suc (length (q # ps))) (WkReturns True n)) s
      = waker_run (replicate (Suc (length ps)) (WkReturns True n)) u"
    by (simp add: waker_run_def u_def)
  then show ?case using Cons.IH [OF u(1,2)] by (simp only: u Let_def) simp
qed

lemma due_fired:
  assumes d: "distinct (map fst rows)"
  shows "fold (update_pending (fired_row n)) (map fst (findDuePending k (snd (sweepMissed m WAKEUP_FIRE_GRACE_SECONDS rows))))
      (snd (sweepMissed m WAKEUP_FIRE_GRACE_SECONDS rows)) = map (\<lambda>(i, r). (i, after_tick m k n r)) rows"
proof -
  let ?g = "\<lambda>(j, r). if wk_fireAt r < m - WAKEUP_FIRE_GRACE_SECONDS \<and> wk_status r = WakePending then (j, missed_row m r) else (j, r)"
  have left: "j \<in> fst ` set (findDuePending k (map ?g rows)) \<longleftrightarrow> wk_status r = WakePending \<and> wk_fireAt r \<le> k
      \<and> \<not> wk_fireAt r < m - WAKEUP_FIRE_GRACE_SECONDS" if "(j, r) \<in> set rows" for j r
  proof -
    have a: "distinct (map fst (map ?g rows))"
      using d by (simp add: comp_def split_beta if_distrib [of fst] cong: if_cong)
    have "?g (j, r) \<in> set (map ?g rows)" using that by (simp only: set_map) (rule imageI)
    moreover have "(j, snd (?g (j, r))) = ?g (j, r)" by simp
    ultimately have b: "(j, snd (?g (j, r))) \<in> set (map ?g rows)" by (simp only:)
    have "j \<in> fst ` set (findDuePending k (map ?g rows))
        \<longleftrightarrow> wk_status (snd (?g (j, r))) = WakePending \<and> wk_fireAt (snd (?g (j, r))) \<le> k"
      unfolding due_image by (rule key_row [OF a b])
    also have "\<dots> \<longleftrightarrow> wk_status r = WakePending \<and> wk_fireAt r \<le> k \<and> \<not> wk_fireAt r < m - WAKEUP_FIRE_GRACE_SECONDS"
      by (cases "wk_fireAt r < m - WAKEUP_FIRE_GRACE_SECONDS"; cases "wk_status r = WakePending") simp_all
    finally show ?thesis .
  qed
  show ?thesis
    unfolding update_all [OF settles_only_rows(1)] sweep_map [OF d] map_map
    by (rule map_cong) (auto simp: left after_tick_def)
qed

text \<open>C16: a tick that nothing disturbs settles every row whose time has come and touches no other.  If no tick is at
  work, the timer is armed and every callback ends well, then after as many callbacks as rows are due the tick is over: a row that
  waited and is later than the grace period is missed, without a call; one that is due is fired; the calls are
  those of the due rows, the earliest first.  The clock is read the same, \<open>now\<close>, when each callback ends, and the
  ids of the rows are distinct.\<close>

theorem tick_settles_what_is_due:
  fixes s sweepAt dueAt now
  assumes "wr_armed s" "\<not> wr_ticking s" "distinct (map fst (wr_rows s))"
  defines "due \<equiv> findDuePending dueAt (snd (sweepMissed sweepAt WAKEUP_FIRE_GRACE_SECONDS (wr_rows s)))"
  shows "let s' = waker_run (WkTick sweepAt dueAt # replicate (length due) (WkReturns True now)) s in
     \<not> wr_ticking s' \<and> wr_rows s' = map (\<lambda>(i, r). (i, after_tick sweepAt dueAt now r)) (wr_rows s)
     \<and> wr_calls s' = wr_calls s @ map (\<lambda>p. (p, (sweepAt, dueAt))) due
     \<and> sorted (map (\<lambda>(_, r). wk_fireAt r) due)"
proof -
  define rows where "rows = snd (sweepMissed sweepAt WAKEUP_FIRE_GRACE_SECONDS (wr_rows s))"
  define u where "u = waker_step (WkTick sweepAt dueAt) s"
  have u: "u = next_call (s\<lparr>wr_rows := rows, wr_ticking := True, wr_due := due, wr_times := (sweepAt, dueAt)\<rparr>)"
    using assms(1,2) by (simp add: u_def runWakeupTick_def rows_def due_def Let_def)
  have run: "waker_run (WkTick sweepAt dueAt # evs) s = waker_run evs u" for evs
    by (simp add: waker_run_def u_def)
  have fired: "fold (update_pending (fired_row now)) (map fst due) rows
      = map (\<lambda>(i, r). (i, after_tick sweepAt dueAt now r)) (wr_rows s)"
    unfolding due_def rows_def by (rule due_fired [OF assms(3)])
  have "sorted (map (\<lambda>(_, r). wk_fireAt r) due)" by (simp add: due_def findDuePending_def)
  moreover have "let s' = waker_run (replicate (length due) (WkReturns True now)) u in
     \<not> wr_ticking s' \<and> wr_rows s' = fold (update_pending (fired_row now)) (map fst due) rows
     \<and> wr_calls s' = wr_calls s @ map (\<lambda>p. (p, (sweepAt, dueAt))) due"
  proof (cases due)
    case Nil
    then show ?thesis by (simp add: u waker_run_def next_call_def)
  next
    case (Cons p ps)
    have c: "wr_call u = Some p" "wr_due u = ps" "wr_rows u = rows" "wr_times u = (sweepAt, dueAt)"
      "wr_calls u = wr_calls s @ [(p, (sweepAt, dueAt))]"
      by (simp_all add: u next_call_def Cons)
    show ?thesis using callbacks_run [OF c(1,2), of now] by (simp only: Cons c length_Cons Let_def) simp
  qed
  ultimately show ?thesis by (simp only: run fired Let_def) blast
qed


subsection \<open>Schedules\<close>

definition ask :: "int \<Rightarrow> jval" where
  "ask delay = JObj [(''chat_id'', JNum 7), (''claude_session_id'', JStr ''s''), (''delay_seconds'', JNum delay),
     (''prompt'', JStr ''go on'')]"

text \<open>Two wake-ups, both due at the first tick.\<close>

definition two_due :: "wake_event list" where
  "two_due = [WkStart, WkHook 0 (ask 90), WkHook 10 (ask 85), WkTick 100 100]"

lemmas wake_eval = waker_run_def two_due_def ask_def no_wakeups_def from_hook_def wakeupFromHookSchema_def opt_id_field_def
  text_field_def delay_field_def reason_field_def record_wakeup_def wake_keep_def startWakeupWorker_def runWakeupTick_def
  sweepMissed_def findDuePending_def next_call_def callback_ends_def markFired_def update_pending_def row_defs
  WAKEUP_FIRE_GRACE_SECONDS_def fire_wakeup_route_def cancel_wakeup_route_def cancel_wakeup_def

theorem wakeup_settled_once_witness:
  "let s = waker_run (two_due @ [WkReturns True 101, WkReturns False 102, WkTick 110 110, WkReturns True 111]) no_wakeups in
     wr_done s = [0, 1] \<and> map (\<lambda>((i, r), t). (i, wk_fireAt r, t)) (wr_calls s)
       = [(0, 90, 100, 100), (1, 95, 100, 100), (1, 95, 110, 110)]
     \<and> (case map_of (wr_rows (waker_step (WkCancel 120 1) s)) 1 of Some r \<Rightarrow> wk_status r = WakeFired | None \<Rightarrow> False)"
proof -
  define s where "s = waker_run (two_due @ [WkReturns True 101, WkReturns False 102, WkTick 110 110, WkReturns True 111]) no_wakeups"
  have d: "wr_done s = [0, 1]" and c: "map (\<lambda>((i, r), t). (i, wk_fireAt r, t)) (wr_calls s)
       = [(0, 90, 100, 100), (1, 95, 100, 100), (1, 95, 110, 110)]"
    and st: "map_option wk_status (map_of (wr_rows s) 1) = Some WakeFired"
    by (simp_all add: s_def wake_eval Let_def)
  obtain r where r: "map_of (wr_rows s) 1 = Some r" "wk_status r = WakeFired" using st by auto
  note now = wakeup_settled_once [of "two_due @ [WkReturns True 101, WkReturns False 102, WkTick 110 110, WkReturns True 111]",
      folded s_def, unfolded Let_def]
  have "case map_of (wr_rows (waker_step (WkCancel 120 1) s)) 1 of Some r' \<Rightarrow> same_wakeup r r' | None \<Rightarrow> \<exists>c t. WkCancel 120 1 = WkGone c t"
    using now r(1) by blast
  then show ?thesis using d c r(2) unfolding s_def [symmetric] Let_def
    by (auto simp: same_wakeup_def split: option.splits)
qed

theorem tick_settles_what_is_due_witness:
  "let s = waker_run [WkStart, WkHook 0 (ask 10), WkHook 0 (ask 90), WkHook 0 (ask 500)] no_wakeups;
       s' = waker_run [WkTick 100 100, WkReturns True 101] s in
     \<not> wr_ticking s' \<and> map (\<lambda>(i, r). (i, wk_status r)) (wr_rows s') = [(0, WakeMissed), (1, WakeFired), (2, WakePending)]"
proof -
  define s where "s = waker_run [WkStart, WkHook 0 (ask 10), WkHook 0 (ask 90), WkHook 0 (ask 500)] no_wakeups"
  have s: "wr_armed s" "\<not> wr_ticking s" "distinct (map fst (wr_rows s))"
    "length (findDuePending 100 (snd (sweepMissed 100 WAKEUP_FIRE_GRACE_SECONDS (wr_rows s)))) = 1"
    "map (\<lambda>p. (fst p, wk_status (after_tick 100 100 101 (snd p)))) (wr_rows s) = [(0, WakeMissed), (1, WakeFired), (2, WakePending)]"
    by (simp_all add: s_def wake_eval after_tick_def Let_def)
  show ?thesis using tick_settles_what_is_due [OF s(1-3), of 100 100 101] s(4,5) unfolding s_def [symmetric]
    by (simp add: Let_def split_beta comp_def)
qed

text \<open>The rows of a tick are read at its start: a wake-up that is cancelled while the callback of an earlier one is
  awaited is called all the same, and stays cancelled.\<close>

lemma cancelled_wakeup_is_called:
  "let s = waker_run (two_due @ [WkCancel 101 1, WkReturns True 130, WkReturns True 131]) no_wakeups in
     map (\<lambda>((i, r), t). i) (wr_calls s) = [0, 1] \<and> map_option wk_status (map_of (wr_rows s) 1) = Some WakeCancelled
     \<and> wr_told s = [(0, WakeFired), (1, WakeCancelled)]"
  by (simp add: wake_eval Let_def)

text \<open>\<open>Wake now\<close> marks the row as fired, so that no tick ever calls it.\<close>

lemma wake_now_calls_nobody:
  "let s = waker_run [WkStart, WkHook 0 (ask 90), WkFire 5 0, WkTick 90 90, WkTick 100 100] no_wakeups in
     map_option wk_status (map_of (wr_rows s) 0) = Some WakeFired \<and> wr_calls s = []"
  by (simp add: wake_eval Let_def)

text \<open>A callback that fails is called again at the next tick, but only within the grace period.\<close>

lemma failed_call_is_missed_later:
  "let s = waker_run [WkStart, WkHook 0 (ask 90), WkTick 90 90, WkReturns False 91, WkTick 151 151] no_wakeups in
     map_option wk_status (map_of (wr_rows s) 0) = Some WakeMissed \<and> length (wr_calls s) = 1"
  by (simp add: wake_eval Let_def)

end
