(* ===== verification/Spec2Isabelle.thy ===== *)
theory Spec2Isabelle
  imports DependencyGraph TaskStatus Slug MdIo PlanStoreProps AutoReconcile AutoRun RemoteAuth
    Permission AgentSession TaskRunProps EditJournal Mermaid MissionQueueProps
    MissionRoutesProps FsWriteProps FsIndexProps GitSafetyProps GitShowProps BoundedString
    ChatSleepProps ChatPump WakeupProps
begin

text \<open>
  Flockctl is a daemon that runs AI coding agents over plans kept as markdown files.  This library
  models the parts of \<open>src/src\<close> that decide what is run, in which order, and who may ask for it.

  \<^bold>\<open>Parts and their theories.\<close>
  \<^item> \<open>Prelude\<close>, \<open>StateErr\<close>, \<open>JsString\<close>: JavaScript maps as association lists, errors as sums, a
    state-and-error composition for the imperative functions, strings and JSON values.
  \<^item> \<open>DependencyGraph\<close> (\<open>services/dependency-graph.ts\<close>): the waves of a dependency graph.
  \<^item> \<open>TaskStatus\<close> (\<open>lib/types.ts\<close>): the task status machine, as the table and as a step relation.
  \<^item> \<open>Slug\<close> (\<open>lib/slugify.ts\<close>, \<open>lib/validate-name.ts\<close>, the guards of \<open>plan-store/md-io.ts\<close>).
  \<^item> \<open>MdIo\<close> (\<open>plan-store/md-io.ts\<close>): frontmatter files, composed and parsed back.
  \<^item> \<open>PlanFs\<close>, \<open>PlanStore\<close>, \<open>PlanFrame\<close>, \<open>PlanStoreProps\<close> (\<open>plan-store/*.ts\<close>): the file tree, the
    operations on milestones, slices and plan tasks, what a write leaves alone, and the index from
    execution tasks back to plan tasks.
  \<^item> \<open>AutoExecutor\<close>, \<open>AutoReconcile\<close>, \<open>AutoSync\<close>, \<open>AutoRun\<close> (\<open>services/auto-executor.ts\<close>): the resolver
    cache, aggregation, synchronisation, the boot-time passes, and the run of a milestone.
  \<^item> \<open>RemoteAuth\<close> (\<open>config/remote-auth.ts\<close>, \<open>lib/rate-limit.ts\<close>, \<open>middleware/remote-auth.ts\<close>,
    \<open>lib/security-gate.ts\<close>): tokens, the failure limiter, and who gets in.
  \<^item> \<open>Permission\<close> (\<open>services/permission-resolver.ts\<close>): permission modes, the roots a tool may write to, the
    denylist, and what mode \<open>auto\<close> lets through.
  \<^item> \<open>AgentSession\<close> (\<open>services/agent-session/session.ts\<close>): the permission and question requests of a
    session, each answered at most once, under answers, mode changes and aborts in any order.
  \<^item> \<open>Money\<close> (\<open>services/ai/cost.ts\<close>, \<open>services/budget.ts\<close>, \<open>task-executor/executor-usage.ts\<close>): what a run
    costs and whether a task may start.
  \<^item> \<open>Keys\<close> (\<open>services/ai/key-selection.ts\<close>, \<open>task-executor/executor-key-pool.ts\<close>): which key a task runs
    on, and the slots of each key.
  \<^item> \<open>TaskRun\<close>, \<open>TaskRunProps\<close> (\<open>task-executor/executor*.ts\<close>, \<open>routes/tasks/crud.ts\<close>,
    \<open>agents/rate-limit-scheduler.ts\<close>): the life of a task as events between two awaits, in any order:
    slots, cancellation, retries, wake-ups; a rejection is two events, before and after its roll-back.
  \<^item> \<open>EditJournal\<close> (\<open>services/file-edit-journal.ts\<close>): the journal of a run's file edits, the line counts and
    the unified diff rendered from it, against the longest common subsequence.
  \<^item> \<open>StateMachine\<close>, \<open>Mermaid\<close> (\<open>services/state-machines/sm-parser.ts\<close>, \<open>sm-mermaid-parser.ts\<close>): the validator
    of state machines and the reader of their diagrams.
  \<^item> \<open>Mission\<close>, \<open>MissionProps\<close> (\<open>services/missions/budget-enforcer.ts\<close>, \<open>max-depth-guard.ts\<close>,
    \<open>guarded-evaluate.ts\<close>, \<open>proposal-schema.ts\<close>, \<open>supervisor.ts\<close>): the supervisor of a mission, its guards,
    its spend and its timeline, for triggers, replies, the operator's changes of a mission and the deletion of a mission
    in any order.
  \<^item> \<open>MissionQueue\<close>, \<open>MissionQueueProps\<close> (\<open>missions/event-subscriber.ts\<close>, \<open>heartbeat.ts\<close>, \<open>stalled-detector.ts\<close>):
    what wakes the supervisor, and how the queue in front of it makes its evaluations sequential; a refinement
    of \<open>MissionProps.supervisor_step\<close>.
  \<^item> \<open>MissionRoutes\<close>, \<open>MissionRoutesProps\<close> (\<open>routes/missions.ts\<close>, \<open>missions/approve-reconciler.ts\<close>): missions as
    the operator sees them, and the approval of proposals into plan entities.
  \<^item> \<open>OsFs\<close>: a file system with directories, files and symbolic links, and the calls that Node makes on it.
  \<^item> \<open>FsOps\<close>, \<open>FsRoutes\<close>, \<open>FsOpsProps\<close>, \<open>FsWriteProps\<close>, \<open>FsIndexProps\<close> (\<open>services/fs-operations.ts\<close>, \<open>fs-gitignore.ts\<close>,
    \<open>routes/fs-route-handlers.ts\<close>): the files of a project as the UI reads and changes them: the path jail, writes over a
    known version under a lock, the index, the audit rows.  A write is a step per await; an operation that takes no lock
    (create a directory or a file, rename, delete) is given one disk for each await of its checks and the disk that it
    changes, so that other calls may come in between.
  \<^item> \<open>GitText\<close>, \<open>Utf8\<close>, \<open>GitRun\<close>, \<open>GitParse\<close>, \<open>GitOps\<close>, \<open>GitBrowse\<close> (\<open>services/git-operations.ts\<close>): the git
    operations: how errors are classified, the truncation of \<open>stderr\<close>, the envelope with its timer and audit row, the
    command lines and parsers, and every operation; \<open>GitProps\<close>, \<open>GitSafetyProps\<close>, \<open>GitReadProps\<close>, \<open>GitShowProps\<close>:
    what they log and answer, what they let reach git, and the output that they read back.
  \<^item> \<open>BoundedString\<close> (\<open>lib/bounded-string.ts\<close>): the accumulator of streamed text, as a sliding tail.
  \<^item> \<open>ChatKeys\<close>, \<open>ChatStore\<close> (\<open>routes/chats/helpers.ts\<close>, \<open>services/attachments.ts\<close>, \<open>todo-store.ts\<close>): the key and the settings
    of a chat's turn, attachments, the history that goes to the agent, snapshots of to-do lists.
  \<^item> \<open>ChatRun\<close> (\<open>services/chat-executor.ts\<close>, \<open>chat-rate-limit.ts\<close>, \<open>routes/chats/messages.ts\<close>, \<open>permissions.ts\<close>,
    \<open>crud.ts\<close>, \<open>agents/rate-limit-scheduler.ts\<close>): the turns of a chat as events between two awaits, in any order, from the
    request to the last row that is saved, with cancellation, questions, approval, parking and waking, and the boot.
    \<open>ChatFrame\<close>: what each operation leaves alone; \<open>ChatProps\<close>: questions and attachments; \<open>ChatTurnProps\<close>: which session
    is registered for a chat; \<open>ChatSleepProps\<close>: parked chats; and in the last two the schedules that break the
    comments of the code, each as a lemma that runs one.
  \<^item> \<open>ChatPump\<close> (\<open>routes/chats/messages.ts\<close>): the loop that writes the frames of a streamed turn to the client, as a
    first-in-first-out buffer that never sleeps on a frame.
  \<^item> \<open>Wakeups\<close>, \<open>WakeupProps\<close> (\<open>services/wakeups/*.ts\<close>, \<open>routes/wakeups.ts\<close>): the wake-ups that agents ask for, the
    worker that polls them and the operator's clicks: each is settled once, called when it is due, and what one
    undisturbed tick does.

  \<^bold>\<open>How they interact.\<close>  The auto-executor reads plans through the plan store, orders slices and plan
  tasks with \<open>computeWaves\<close>, inserts rows into the task table, and hears of their end through
  terminal events; the status machine says which statuses a row may take.  All of this state is the
  record \<open>daemon\<close> of \<open>AutoExecutor\<close>.  The task executor takes a row of that table, reserves a key with
  \<open>Keys\<close>, asks \<open>Money\<close> for the budget, runs a session whose tool calls pass through \<open>AgentSession\<close> and
  \<open>Permission\<close>, and reports its end back through \<open>syncPlan\<close>; its state is the record \<open>executor\<close>.
  A chat's turn takes its key from \<open>ChatKeys\<close>, gathers its text in the accumulators of \<open>BoundedString\<close>, prices its usage
  with \<open>Money\<close> and keeps the edits of its agent with \<open>EditJournal\<close>; its state is the record \<open>chat_world\<close>.

  \<^bold>\<open>Conventions.\<close>  A thrown error is \<open>Inl\<close>; a function that reads and writes the daemon is a \<open>dact\<close>.
  The clock is an argument or a field of the daemon.  Loops are recursive functions with a
  termination proof; no fuel is used, except that a path is resolved through at most 40 links, as in the kernel.  The locales \<open>bounded_cache\<close>, \<open>path_store\<close>, \<open>progress\<close>,
  \<open>guarded_run\<close>, \<open>simulation\<close> and \<open>sliding_tail\<close> are the contracts of the caches, of the file tree, of the writes that move statuses
  forward, of the components driven by events (those of tasks, of chats and of wake-ups among them), of a machine that refines another, and of text of which the end is kept; each is interpreted on the model's own definitions.

  \<^bold>\<open>Not modelled.\<close>  Text is ASCII (Latin-1 in the git theories); the YAML library, the gitignore matcher, git and simple-git are parameters; atomic file replacement is one
  step; what a session says to its agent, other subprocesses, the prompt of the supervisor and the
  model behind it, the rest of \<open>state-machines\<close>, most HTTP routes, the database schema,
  the uploads, lists, searches, deletions, metrics, prompts and working directories of chats, and the web interface are
  outside (I/O, or glue around the services above).  The reads of \<open>FsOps\<close> see one disk, and the audit row of a git
  command is lost for no other reason than the check of its table.  For the rest a state
  change between two awaits is one step, and the properties over events take these steps in any order.
\<close>

end
